(* ===== verification/Prelude.thy ===== *)
theory Prelude
  imports Complex_Main "HOL-Library.Sublist" "HOL-Library.Word" "HOL-Library.Multiset"
begin

text \<open>
  What the components of LinkGuard FW share: the part of Go's strings package that the
  modelled files use, Go's 64-bit signed arithmetic and truncating division, and the
  lemmas about them.

  A Go string is a \<open>string\<close> (a list of bytes).  \<open>strings.Fields\<close> and
  \<open>strings.TrimSpace\<close> are modelled on ASCII text: a byte is white space when it is one
  of the six ASCII white-space bytes.  The texts they are applied to (output of iproute2,
  comma-separated settings) are ASCII.  A Go \<open>int\<close> is \<open>int\<close>; where a product can
  exceed the machine width the model applies \<open>wrap64\<close> at the operation.
\<close>

named_theorems go_string "equations of the string functions"

subsection \<open>Configuration\<close>

text \<open>A function the caller may have connected: not connected, failing, or giving a value.\<close>

datatype 'a source = Unset | Failing | Gives 'a

subsection \<open>Integers\<close>

definition wrap64 :: "int \<Rightarrow> int" where
  "wrap64 x = (x + 2 ^ 63) mod 2 ^ 64 - 2 ^ 63"

lemma wrap64_id: "- (2 ^ 63) \<le> x \<Longrightarrow> x < 2 ^ 63 \<Longrightarrow> wrap64 x = x"
  by (simp add: wrap64_def)

lemma wrap64_range: "- (2 ^ 63) \<le> wrap64 x \<and> wrap64 x < 2 ^ 63"
proof -
  have "0 \<le> (x + 2 ^ 63) mod 2 ^ 64" and "(x + 2 ^ 63) mod 2 ^ 64 < (2::int) ^ 64"
    by simp_all
  then show ?thesis by (simp add: wrap64_def)
qed

text \<open>Go's \<open>/\<close> on integers truncates towards zero.\<close>

definition go_div :: "int \<Rightarrow> int \<Rightarrow> int" where
  "go_div a b = sgn a * sgn b * (\<bar>a\<bar> div \<bar>b\<bar>)"

lemma go_div_nonneg: "0 \<le> a \<Longrightarrow> 0 < b \<Longrightarrow> go_div a b = a div b"
  by (cases "a = 0") (simp_all add: go_div_def)

lemma go_div_nonneg_ge: "0 \<le> a \<Longrightarrow> 0 < b \<Longrightarrow> 0 \<le> go_div a b"
  by (simp add: go_div_nonneg pos_imp_zdiv_nonneg_iff)

subsection \<open>Searching and splitting\<close>

definition is_space :: "char \<Rightarrow> bool" where
  "is_space c \<longleftrightarrow> c = CHR '' '' \<or> (9 \<le> (of_char c :: nat) \<and> (of_char c :: nat) \<le> 13)"

definition newline :: string where "newline = [CHR 0x0A]"

fun index_of :: "string \<Rightarrow> string \<Rightarrow> nat option" where
  "index_of sep [] = (if sep = [] then Some 0 else None)"
| "index_of sep (c # cs) =
     (if prefix sep (c # cs) then Some 0 else map_option Suc (index_of sep cs))"

definition str_contains :: "string \<Rightarrow> string \<Rightarrow> bool" where
  "str_contains s sep \<longleftrightarrow> index_of sep s \<noteq> None"

lemma index_of_le: "index_of sep s = Some i \<Longrightarrow> i + length sep \<le> length s"
proof (induction s arbitrary: i)
  case Nil
  then show ?case by (simp split: if_splits)
next
  case (Cons c cs)
  show ?case
  proof (cases "prefix sep (c # cs)")
    case True
    with Cons.prems show ?thesis using prefix_length_le [OF True] by simp
  next
    case False
    with Cons.prems obtain j where "index_of sep cs = Some j" and "i = Suc j" by auto
    with Cons.IH show ?thesis by fastforce
  qed
qed

text \<open>
  \<open>strings.Split\<close> for a non-empty separator (every call of the modelled files passes a
  literal one); the empty separator is given the value Go never reaches here.
\<close>

function go_split :: "string \<Rightarrow> string \<Rightarrow> string list" where
  "go_split sep s =
     (if sep = [] then [s]
      else case index_of sep s of
             None \<Rightarrow> [s]
           | Some i \<Rightarrow> take i s # go_split sep (drop (i + length sep) s))"
  by pat_completeness auto
termination
proof (relation "measure (\<lambda>(sep, s). length s)")
  show "wf (measure (\<lambda>(sep :: string, s :: string). length s))" by simp
next
  fix sep s :: string and i
  assume "sep \<noteq> []" and "index_of sep s = Some i"
  then have "0 < length sep" and "i + length sep \<le> length s"
    by (auto dest: index_of_le)
  then show "((sep, drop (i + length sep) s), sep, s) \<in> measure (\<lambda>(sep, s). length s)"
    by (cases s) auto
qed

declare go_split.simps [simp del]

fun fields_acc :: "string \<Rightarrow> string \<Rightarrow> string list" where
  "fields_acc acc [] = (if acc = [] then [] else [rev acc])"
| "fields_acc acc (c # cs) =
     (if is_space c
      then (if acc = [] then fields_acc [] cs else rev acc # fields_acc [] cs)
      else fields_acc (c # acc) cs)"

definition go_fields :: "string \<Rightarrow> string list" where
  "go_fields s = fields_acc [] s"

definition trim_left :: "string \<Rightarrow> string" where
  "trim_left s = dropWhile is_space s"

definition trim_space :: "string \<Rightarrow> string" where
  "trim_space s = rev (trim_left (rev (trim_left s)))"

definition trim_suffix :: "string \<Rightarrow> string \<Rightarrow> string" where
  "trim_suffix s suf = (if suffix suf s then take (length s - length suf) s else s)"

fun go_join :: "string list \<Rightarrow> string \<Rightarrow> string" where
  "go_join [] sep = []"
| "go_join [x] sep = x"
| "go_join (x # y # zs) sep = x @ sep @ go_join (y # zs) sep"

text \<open>\<open>strings.Cut\<close>: the text before and after the first separator, when there is one.\<close>

definition go_cut :: "string \<Rightarrow> string \<Rightarrow> (string \<times> string) option" where
  "go_cut s sep = map_option (\<lambda>i. (take i s, drop (i + length sep) s)) (index_of sep s)"

definition last_index_of :: "string \<Rightarrow> string \<Rightarrow> nat option" where
  "last_index_of sep s =
     map_option (\<lambda>j. length s - length sep - j) (index_of (rev sep) (rev s))"

subsection \<open>Decimal numbers\<close>

fun nat_digits :: "nat \<Rightarrow> string" where
  "nat_digits n =
     (if n < 10 then [char_of (48 + n)] else nat_digits (n div 10) @ [char_of (48 + n mod 10)])"

declare nat_digits.simps [simp del]

definition itoa :: "int \<Rightarrow> string" where
  "itoa i = (if i < 0 then CHR ''-'' # nat_digits (nat (- i)) else nat_digits (nat i))"

definition is_digit :: "char \<Rightarrow> bool" where
  "is_digit c \<longleftrightarrow> 48 \<le> (of_char c :: nat) \<and> (of_char c :: nat) \<le> 57"

lemma nat_digits_not_Nil [simp]: "nat_digits n \<noteq> []" "[] \<noteq> nat_digits n"
  by (subst nat_digits.simps, simp)+

lemma digit_chars:
  "char_of (48::nat) = CHR ''0''" "char_of (49::nat) = CHR ''1''" "char_of (50::nat) = CHR ''2''"
  "char_of (51::nat) = CHR ''3''" "char_of (52::nat) = CHR ''4''" "char_of (53::nat) = CHR ''5''"
  "char_of (54::nat) = CHR ''6''" "char_of (55::nat) = CHR ''7''" "char_of (56::nat) = CHR ''8''"
  "char_of (57::nat) = CHR ''9''"
  by (simp_all add: char_of_def bit_0)

lemma is_digit_char_of: "d < (10::nat) \<Longrightarrow> is_digit (char_of (48 + d))"
  by (simp add: is_digit_def of_char_of)

lemma nat_digits_all_digits: "list_all is_digit (nat_digits n)"
proof (induction n rule: nat_digits.induct)
  case (1 n)
  then show ?case
    by (subst nat_digits.simps) (auto simp: is_digit_char_of)
qed

lemma is_digit_not_space: "is_digit c \<Longrightarrow> \<not> is_space c"
  by (auto simp: is_digit_def is_space_def)

subsection \<open>Tokens\<close>

text \<open>
  A token is what \<open>strings.Fields\<close> returns: not empty and free of white space.
\<close>

definition token :: "string \<Rightarrow> bool" where
  "token t \<longleftrightarrow> t \<noteq> [] \<and> list_all (\<lambda>c. \<not> is_space c) t"

lemma token_nat_digits [simp]: "token (nat_digits n)"
  using nat_digits_all_digits [of n]
  by (auto simp: token_def list_all_iff is_digit_not_space)

lemma token_itoa [simp]: "token (itoa i)"
proof (cases "i < 0")
  case True
  have "token (nat_digits (nat (- i)))" by simp
  with True show ?thesis by (simp add: itoa_def token_def is_space_def)
qed (simp add: itoa_def)

lemma fields_acc_token:
  "list_all (\<lambda>c. \<not> is_space c) t \<Longrightarrow> fields_acc acc (t @ s) = fields_acc (rev t @ acc) s"
  by (induction t arbitrary: acc) auto

lemma is_space_blank [simp]: "is_space (CHR '' '')"
  by (simp add: is_space_def)

lemma go_fields_Nil [simp, go_string]: "go_fields [] = []"
  by (simp add: go_fields_def)

lemma go_fields_token [go_string]: "token t \<Longrightarrow> go_fields t = [t]"
  using fields_acc_token [of t "[]" "[]"] by (simp add: go_fields_def token_def)

lemma go_fields_token_space [go_string]:
  "token t \<Longrightarrow> is_space c \<Longrightarrow> go_fields (t @ c # s) = t # go_fields s"
  using fields_acc_token [of t "[]" "c # s"] by (simp add: go_fields_def token_def)

lemma go_fields_space [go_string]: "is_space c \<Longrightarrow> go_fields (c # s) = go_fields s"
  by (simp add: go_fields_def)

lemma go_fields_join_Cons:
  assumes "token x" and "go_fields (go_join (y # zs) '' '') = y # zs"
  shows "go_fields (go_join (x # y # zs) '' '') = x # y # zs"
  unfolding go_join.simps append_Cons append_Nil
  by (subst go_fields_token_space) (simp_all only: assms is_space_blank)

lemma go_fields_join: "list_all token ts \<Longrightarrow> go_fields (go_join ts '' '') = ts"
proof (induction ts rule: induct_list012)
  case (2 x)
  then show ?case by (simp add: go_fields_token)
next
  case (3 x y zs)
  then have "token x" and "go_fields (go_join (y # zs) '' '') = y # zs"
    by (simp_all only: list.pred_inject)
  then show ?case by (rule go_fields_join_Cons)
qed simp

text \<open>Every field is a token, whatever the input.\<close>

lemma token_rev: "acc \<noteq> [] \<Longrightarrow> list_all (\<lambda>c. \<not> is_space c) acc \<Longrightarrow> token (rev acc)"
  by (simp add: token_def)

lemma fields_acc_tokens:
  "list_all (\<lambda>c. \<not> is_space c) acc \<Longrightarrow> list_all token (fields_acc acc s)"
proof (induction s arbitrary: acc)
  case Nil
  then show ?case by (simp add: token_rev)
next
  case (Cons c cs)
  show ?case
  proof (cases "is_space c")
    case True
    with Cons.IH [of "[]"] Cons.prems show ?thesis by (simp add: token_rev)
  next
    case False
    with Cons.IH [of "c # acc"] Cons.prems show ?thesis by simp
  qed
qed

lemma go_fields_tokens: "t \<in> set (go_fields s) \<Longrightarrow> token t"
  using fields_acc_tokens [of "[]" s] by (simp add: go_fields_def list_all_iff)

lemma fields_acc_blank: "list_all is_space s \<Longrightarrow> fields_acc [] s = []"
  by (induction s) simp_all

lemma trim_space_Nil_iff: "trim_space s = [] \<longleftrightarrow> list_all is_space s"
proof (cases "trim_left s")
  case Nil
  then show ?thesis
    by (auto simp: trim_space_def trim_left_def dropWhile_eq_Nil_conv list_all_iff
        dest: set_dropWhileD)
next
  case (Cons c cs)
  then have c: "\<not> is_space c" and "c \<in> set s"
    using hd_dropWhile [of is_space s] set_dropWhileD [of c is_space s]
    by (auto simp: trim_left_def)
  moreover have "trim_left (rev (c # cs)) \<noteq> []"
    using c by (auto simp: trim_left_def dropWhile_eq_Nil_conv)
  ultimately show ?thesis
    using Cons by (auto simp: trim_space_def list_all_iff)
qed

lemma trim_space_fields: "go_fields s \<noteq> [] \<Longrightarrow> trim_space s \<noteq> []"
  by (auto simp: trim_space_Nil_iff go_fields_def fields_acc_blank)

lemma token_not_Nil: "token t \<Longrightarrow> t \<noteq> []"
  by (simp add: token_def)

subsection \<open>Lists\<close>

lemma in_set_tl: "x \<in> set (tl xs) \<Longrightarrow> x \<in> set xs"
  by (cases xs) simp_all

lemma find_SomeD: "List.find P xs = Some x \<Longrightarrow> x \<in> set xs \<and> P x"
  by (induction xs) (auto split: if_splits)

text \<open>Looking a key up does not depend on the order of a list with distinct keys.\<close>

lemma find_key_permuted:
  assumes "mset xs = mset ys" and "distinct (map f xs)" and "\<And>x. P x \<Longrightarrow> f x = k"
  shows "List.find P xs = List.find P ys"
proof -
  have inj: "inj_on f (set xs)" and eq: "set xs = set ys"
    using assms(1,2) by (auto simp: distinct_map dest: mset_eq_setD)
  show ?thesis
  proof (cases "List.find P xs")
    case None
    with eq show ?thesis by (metis find_None_iff)
  next
    case (Some x)
    with eq obtain y where y: "List.find P ys = Some y"
      by (metis find_None_iff find_SomeD not_None_eq)
    with Some eq assms(3) have "f x = f y" "x \<in> set xs" "y \<in> set xs"
      by (metis find_SomeD)+
    with inj have "x = y" by (simp add: inj_on_eq_iff)
    with Some y show ?thesis by simp
  qed
qed

lemma find_map: "List.find P (map f xs) = map_option f (List.find (P \<circ> f) xs)"
  by (induction xs) simp_all

text \<open>An index built by a loop over a list: with distinct keys it is the first (only) match.\<close>

lemma foldl_index_find:
  assumes "distinct (map f xs)"
  shows "foldl (\<lambda>m x. m(f x \<mapsto> x)) m xs i =
           (case List.find (\<lambda>x. f x = i) xs of None \<Rightarrow> m i | Some x \<Rightarrow> Some x)"
  using assms
proof (induction xs arbitrary: m)
  case (Cons x xs)
  from Cons.prems have "List.find (\<lambda>x'. f x' = f x) xs = None"
    unfolding find_None_iff by simp (metis image_eqI)
  with Cons show ?case by (cases "f x = i") (auto split: option.splits)
qed simp

lemma find_append:
  "List.find P (xs @ ys) = (case List.find P xs of None \<Rightarrow> List.find P ys | Some x \<Rightarrow> Some x)"
  by (induction xs) simp_all

lemma find_concat_keyed:
  assumes "distinct ids"
    and "\<And>i x. x \<in> set (F i) \<Longrightarrow> f x = i"
  shows "List.find (\<lambda>x. f x = i) (concat (map F ids)) =
           (if i \<in> set ids \<and> F i \<noteq> [] then Some (hd (F i)) else None)"
  using assms(1)
proof (induction ids)
  case (Cons j ids)
  have hd: "List.find (\<lambda>x. f x = j) (F j) = (if F j = [] then None else Some (hd (F j)))"
    using assms(2) by (cases "F j") auto
  have other: "List.find (\<lambda>x. f x = i) (F j) = None" if "i \<noteq> j"
    using assms(2) that by (auto simp: find_None_iff)
  show ?case
  proof (cases "i = j")
    case True
    with Cons hd show ?thesis by (auto simp: find_append split: option.splits)
  next
    case False
    with Cons other show ?thesis by (simp add: find_append)
  qed
qed simp

lemma distinct_concat_keyed:
  assumes "distinct ids" and "\<And>i x. x \<in> set (F i) \<Longrightarrow> f x = i" and "\<And>i. length (F i) \<le> 1"
  shows "distinct (map f (concat (map F ids)))"
  using assms(1)
proof (induction ids)
  case (Cons j ids)
  have "distinct (map f (F j))" using assms(3) [of j] by (cases "F j"; cases "tl (F j)") auto
  moreover have "f ` set (F j) \<inter> f ` (\<Union>i \<in> set ids. set (F i)) = {}"
    using assms(2) Cons.prems by fastforce
  ultimately show ?case using Cons by (simp add: image_UN)
qed simp

end
