(* ===== verification/LinkMonitor.thy ===== *)
theory LinkMonitor
  imports Prelude
begin

text \<open>
  The WAN link monitor (\<open>internal/links/monitor.go\<close>): probing a link, classifying one
  sample, the hysteresis that turns samples into a status, and one monitoring pass.

  Latencies are Go durations (integer nanoseconds) until \<open>summarize\<close> averages them;
  \<open>float64\<close> values (milliseconds, percent) are reals.  The network is a parameter: a dial
  function giving, for the i-th probe of a host through a device on a port, the latency of
  a successful TCP connection, or \<open>None\<close>.  The field \<open>cooldownUntil\<close> of \<open>linkState\<close> is
  neither read nor written by the code and is left out.  The calls that
  leave the component (time series, metrics, database row, callbacks) are recorded as a
  list of \<open>monitor_effect\<close> in the order the code makes them.
\<close>

subsection \<open>Data\<close>

definition StatusOnline :: string where "StatusOnline = ''online''"
definition StatusOffline :: string where "StatusOffline = ''offline''"
definition StatusDegraded :: string where "StatusDegraded = ''degraded''"
definition StatusUnknown :: string where "StatusUnknown = ''unknown''"

lemma status_distinct [simp]:
  "StatusOnline \<noteq> StatusOffline" "StatusOffline \<noteq> StatusOnline"
  "StatusOnline \<noteq> StatusDegraded" "StatusDegraded \<noteq> StatusOnline"
  "StatusOnline \<noteq> StatusUnknown" "StatusUnknown \<noteq> StatusOnline"
  "StatusOffline \<noteq> StatusDegraded" "StatusDegraded \<noteq> StatusOffline"
  "StatusOffline \<noteq> StatusUnknown" "StatusUnknown \<noteq> StatusOffline"
  "StatusDegraded \<noteq> StatusUnknown" "StatusUnknown \<noteq> StatusDegraded"
  "StatusOnline \<noteq> []" "StatusOffline \<noteq> []" "StatusDegraded \<noteq> []" "StatusUnknown \<noteq> []"
  by (simp_all add: StatusOnline_def StatusOffline_def StatusDegraded_def StatusUnknown_def)

lemmas status_defs = StatusOnline_def StatusOffline_def StatusDegraded_def StatusUnknown_def

text \<open>The columns of \<open>storage.Link\<close> the monitor and the balancer read.\<close>

record link =
  l_ID :: string
  l_Name :: string
  l_Interface :: string
  l_Gateway :: string
  l_Weight :: int
  l_DNSTest :: string
  l_MonitorHosts :: string
  l_Status :: string
  l_LatencyMs :: real
  l_PacketLoss :: real
  l_Enabled :: bool
  l_TableID :: int

definition probeFailThreshold :: int where "probeFailThreshold = 3"
definition probeRecoverThreshold :: int where "probeRecoverThreshold = 2"
definition degradedLossPct :: real where "degradedLossPct = 25"
definition degradedLatencyMs :: real where "degradedLatencyMs = 300"

lemmas threshold_defs = probeFailThreshold_def probeRecoverThreshold_def
  degradedLossPct_def degradedLatencyMs_def

record check_result =
  cr_Host :: string
  cr_Latency :: int
  cr_Success :: bool
  cr_Error :: string

record link_state =
  consecutiveFails :: int
  consecutiveSuccesses :: int
  consecutiveDegraded :: int
  degradedEpisodeFired :: bool
  lastStatus :: string

definition fresh_link_state :: "string \<Rightarrow> link_state" where
  "fresh_link_state st =
     \<lparr>consecutiveFails = 0, consecutiveSuccesses = 0, consecutiveDegraded = 0,
      degradedEpisodeFired = False, lastStatus = st\<rparr>"

subsection \<open>Probing and summarising\<close>

definition tcpCheck :: "(string \<Rightarrow> string \<Rightarrow> string \<Rightarrow> int option) \<Rightarrow> string \<Rightarrow> string \<Rightarrow> check_result" where
  "tcpCheck dial host device =
     (case List.find (\<lambda>port. dial device host port \<noteq> None) [''443'', ''80'', ''53''] of
        Some port \<Rightarrow> \<lparr>cr_Host = host, cr_Latency = the (dial device host port),
                      cr_Success = True, cr_Error = []\<rparr>
      | None \<Rightarrow> \<lparr>cr_Host = host, cr_Latency = 0, cr_Success = False,
                  cr_Error = ''all ports unreachable''\<rparr>)"

definition parseHosts :: "string \<Rightarrow> string list" where
  "parseHosts s = filter (\<lambda>h. h \<noteq> []) (map trim_space (go_split '','' s))"

definition summarize :: "check_result list \<Rightarrow> real \<times> real" where
  "summarize results =
     (if results = [] then (0, 100)
      else let good = filter cr_Success results;
               total = sum_list (map cr_Latency good);
               success = int (length good)
           in if success = 0 then (0, 100)
              else (real_of_int (go_div total success) / 1000000,
                    real_of_int (int (length results) - success)
                      / real (length results) * 100))"

subsection \<open>The hysteresis\<close>

definition count_sample :: "link_state \<Rightarrow> bool \<Rightarrow> bool \<Rightarrow> link_state" where
  "count_sample st reachable degradedNow =
     (if \<not> reachable then
        st\<lparr>consecutiveFails := consecutiveFails st + 1, consecutiveSuccesses := 0,
           consecutiveDegraded := 0, degradedEpisodeFired := False\<rparr>
      else if degradedNow then
        st\<lparr>consecutiveFails := 0, consecutiveSuccesses := 0,
           consecutiveDegraded := consecutiveDegraded st + 1\<rparr>
      else
        st\<lparr>consecutiveFails := 0, consecutiveSuccesses := consecutiveSuccesses st + 1,
           consecutiveDegraded := 0, degradedEpisodeFired := False\<rparr>)"

definition advance :: "link_state \<Rightarrow> bool \<Rightarrow> bool \<Rightarrow> string \<Rightarrow> int \<Rightarrow> link_state \<times> string \<times> bool" where
  "advance st reachable degradedNow prevStatus threshold =
     (let sustainThreshold = (if threshold < 1 then 1 else threshold);
          st1 = count_sample st reachable degradedNow;
          fire = (degradedNow \<and> consecutiveDegraded st1 \<ge> sustainThreshold
                  \<and> \<not> degradedEpisodeFired st1);
          st2 = (if fire then st1\<lparr>degradedEpisodeFired := True\<rparr> else st1);
          newStatus =
            (if consecutiveFails st2 \<ge> probeFailThreshold then StatusOffline
             else if degradedNow \<and> consecutiveDegraded st2 \<ge> sustainThreshold then StatusDegraded
             else if consecutiveSuccesses st2 \<ge> probeRecoverThreshold then StatusOnline
             else if prevStatus = [] then StatusUnknown
             else prevStatus)
      in (st2, newStatus, fire))"

subsection \<open>One check of one link, and a pass over all links\<close>

datatype monitor_effect =
    RecGauge string string real
  | RecState string string
  | MetricStatus string string string
  | MetricLatency string string real
  | MetricLoss string string real
  | UpdateStatus string string real real
  | StatusChange link string string
  | DegradedSustained link

record monitor_env =
  me_dial :: "nat \<Rightarrow> string \<Rightarrow> string \<Rightarrow> string \<Rightarrow> int option"
  me_probeCount :: nat
  me_sustain :: "int option"
  me_rec :: bool
  me_metrics :: bool
  me_onStatusChange :: bool
  me_onDegradedSustained :: bool
  me_updateOk :: "string \<Rightarrow> bool"

text \<open>\<open>NewMonitor\<close> raises a probe count below one to one; \<open>sustainN\<close> reads the provider.\<close>

definition NewMonitor_probeCount :: "int \<Rightarrow> int" where
  "NewMonitor_probeCount probeCount = (if probeCount < 1 then 1 else probeCount)"

definition sustainN :: "monitor_env \<Rightarrow> int" where
  "sustainN env = (case me_sustain env of None \<Rightarrow> 1 | Some n \<Rightarrow> n)"

definition probe_all :: "monitor_env \<Rightarrow> link \<Rightarrow> check_result list" where
  "probe_all env l =
     (let hosts = parseHosts (l_MonitorHosts l);
          hosts' = (if hosts = [] then [l_DNSTest l] else hosts)
      in concat (map (\<lambda>host. map (\<lambda>i. tcpCheck (me_dial env i) host (l_Interface l))
                                [0..<me_probeCount env]) hosts'))"

definition classify_sample :: "real \<Rightarrow> real \<Rightarrow> bool \<times> bool" where
  "classify_sample avgLatency packetLoss =
     (let reachable = packetLoss < 100
      in (reachable, reachable \<and> (packetLoss > degradedLossPct \<or> avgLatency > degradedLatencyMs)))"

type_synonym monitor_states = "string \<Rightarrow> link_state option"

definition checkLink_with ::
  "monitor_env \<Rightarrow> real \<Rightarrow> real \<Rightarrow> monitor_states \<Rightarrow> link \<Rightarrow> monitor_states \<times> monitor_effect list" where
  "checkLink_with env avgLatency packetLoss states l =
     (let (reachable, degradedNow) = classify_sample avgLatency packetLoss;
          state = (case states (l_ID l) of None \<Rightarrow> fresh_link_state (l_Status l) | Some st \<Rightarrow> st);
          (st', newStatus, fire) = advance state reachable degradedNow (l_Status l) (sustainN env);
          oldStatus = lastStatus st';
          st'' = (if newStatus \<noteq> oldStatus then st'\<lparr>lastStatus := newStatus\<rparr> else st');
          updated = l\<lparr>l_Status := newStatus, l_LatencyMs := avgLatency, l_PacketLoss := packetLoss\<rparr>;
          recs = (if me_rec env
                  then [RecGauge ''link.latency_ms'' (l_Name l) avgLatency,
                        RecGauge ''link.loss_pct'' (l_Name l) packetLoss,
                        RecState (l_Name l) newStatus] else []);
          mets = (if me_metrics env
                  then [MetricStatus (l_Name l) (l_Interface l) newStatus,
                        MetricLatency (l_Name l) (l_Interface l) avgLatency,
                        MetricLoss (l_Name l) (l_Interface l) packetLoss] else []);
          upd = [UpdateStatus (l_ID l) newStatus avgLatency packetLoss];
          calls = (if \<not> me_updateOk env (l_ID l) then []
                   else (if newStatus \<noteq> oldStatus \<and> me_onStatusChange env
                         then [StatusChange updated oldStatus newStatus] else [])
                      @ (if fire \<and> me_onDegradedSustained env
                         then [DegradedSustained updated] else []))
      in (states(l_ID l \<mapsto> st''), recs @ mets @ upd @ calls))"

definition checkLink ::
  "monitor_env \<Rightarrow> monitor_states \<Rightarrow> link \<Rightarrow> monitor_states \<times> monitor_effect list" where
  "checkLink env states l =
     (let (avgLatency, packetLoss) = summarize (probe_all env l)
      in checkLink_with env avgLatency packetLoss states l)"

text \<open>
  \<open>checkAll\<close> starts one goroutine per enabled link and waits for all of them; the sections
  that touch \<open>states\<close> exclude each other.  The model runs them in the order given by the
  list; \<open>checkAll_order\<close> shows that the order is irrelevant.  \<open>None\<close> is the failed
  \<open>GetLinks\<close>.
\<close>

fun check_enabled ::
  "monitor_env \<Rightarrow> monitor_states \<Rightarrow> link list \<Rightarrow> monitor_states \<times> monitor_effect list" where
  "check_enabled env states [] = (states, [])"
| "check_enabled env states (l # ls) =
     (if \<not> l_Enabled l then check_enabled env states ls
      else let (states1, effs1) = checkLink env states l;
               (states2, effs2) = check_enabled env states1 ls
           in (states2, effs1 @ effs2))"

definition checkAll ::
  "monitor_env \<Rightarrow> monitor_states \<Rightarrow> link list option \<Rightarrow> monitor_states \<times> monitor_effect list" where
  "checkAll env states links =
     (case links of None \<Rightarrow> (states, []) | Some ls \<Rightarrow> check_enabled env states ls)"


subsection \<open>The counters are run lengths\<close>

text \<open>
  The specification of the hysteresis: a sample is a failure, degraded or good, and the
  status is a function of how long the current run of equal samples is.
\<close>

datatype sample_kind = Failed | Slow | Good

definition kind_of :: "bool \<Rightarrow> bool \<Rightarrow> sample_kind" where
  "kind_of reachable degradedNow =
     (if \<not> reachable then Failed else if degradedNow then Slow else Good)"

definition tail_run :: "sample_kind \<Rightarrow> sample_kind list \<Rightarrow> int" where
  "tail_run k ks = int (length (takeWhile ((=) k) (rev ks)))"

lemma tail_run_Nil [simp]: "tail_run k [] = 0"
  by (simp add: tail_run_def)

lemma tail_run_snoc [simp]: "tail_run k (ks @ [k']) = (if k = k' then tail_run k ks + 1 else 0)"
  by (simp add: tail_run_def)

lemma tail_run_nonneg [simp]: "0 \<le> tail_run k ks"
  by (simp add: tail_run_def)

text \<open>Feeding a history of samples, with one threshold, to a fresh state.\<close>

definition advance_state :: "int \<Rightarrow> link_state \<Rightarrow> bool \<times> bool \<Rightarrow> link_state" where
  "advance_state threshold st s = fst (advance st (fst s) (snd s) [] threshold)"

definition run_samples :: "int \<Rightarrow> string \<Rightarrow> (bool \<times> bool) list \<Rightarrow> link_state" where
  "run_samples threshold st0 ss = foldl (advance_state threshold) (fresh_link_state st0) ss"

definition kinds :: "(bool \<times> bool) list \<Rightarrow> sample_kind list" where
  "kinds ss = map (\<lambda>(r, d). kind_of r d) ss"

lemma advance_state_any_status:
  "fst (advance st r d prev threshold) = advance_state threshold st (r, d)"
  by (simp add: advance_state_def advance_def Let_def)

lemma kinds_snoc [simp]: "kinds (ss @ [(r, d)]) = kinds ss @ [kind_of r d]"
  by (simp add: kinds_def)

lemma run_samples_snoc [simp]:
  "run_samples n st0 (ss @ [s]) = advance_state n (run_samples n st0 ss) s"
  by (simp add: run_samples_def)

lemma run_samples_counters:
  "consecutiveFails (run_samples n st0 ss) = tail_run Failed (kinds ss)
   \<and> consecutiveDegraded (run_samples n st0 ss) = tail_run Slow (kinds ss)
   \<and> consecutiveSuccesses (run_samples n st0 ss) = tail_run Good (kinds ss)
   \<and> (degradedEpisodeFired (run_samples n st0 ss)
        \<longleftrightarrow> max 1 n \<le> tail_run Slow (kinds ss))"
proof (induction ss rule: rev_induct)
  case Nil
  then show ?case
    by (simp add: run_samples_def fresh_link_state_def kinds_def)
next
  case (snoc s ss)
  obtain r d where "s = (r, d)" by fastforce
  with snoc show ?case
    by (auto simp: advance_state_def advance_def count_sample_def kind_of_def Let_def max_def)
qed

text \<open>The status and the edge of a run, read off the run lengths.\<close>

definition spec_status :: "int \<Rightarrow> sample_kind list \<Rightarrow> string \<Rightarrow> string" where
  "spec_status n ks prev =
     (if 3 \<le> tail_run Failed ks then StatusOffline
      else if max 1 n \<le> tail_run Slow ks then StatusDegraded
      else if 2 \<le> tail_run Good ks then StatusOnline
      else if prev = [] then StatusUnknown else prev)"

lemma snd_advance:
  assumes "degradedEpisodeFired st \<longleftrightarrow> max 1 n \<le> consecutiveDegraded st"
    and "0 \<le> consecutiveDegraded st"
  shows "snd (advance st r d prev n) =
     (let st' = count_sample st r d
      in (if 3 \<le> consecutiveFails st' then StatusOffline
          else if max 1 n \<le> consecutiveDegraded st' then StatusDegraded
          else if 2 \<le> consecutiveSuccesses st' then StatusOnline
          else if prev = [] then StatusUnknown else prev,
          consecutiveDegraded st' = max 1 n))"
proof (cases "n < 1")
  case True
  with assms show ?thesis
    by (cases r; cases d) (auto simp: advance_def count_sample_def Let_def threshold_defs max_def)
next
  case False
  with assms show ?thesis
    by (cases r; cases d) (auto simp: advance_def count_sample_def Let_def threshold_defs max_def)
qed

lemma count_sample_run:
  "consecutiveFails (count_sample st r d)
     = consecutiveFails (advance_state n st (r, d))"
  "consecutiveDegraded (count_sample st r d)
     = consecutiveDegraded (advance_state n st (r, d))"
  "consecutiveSuccesses (count_sample st r d)
     = consecutiveSuccesses (advance_state n st (r, d))"
  by (simp_all add: advance_state_def advance_def Let_def)

lemma advance_spec:
  "advance (run_samples n st0 ss) r d prev n =
     (run_samples n st0 (ss @ [(r, d)]),
      spec_status n (kinds (ss @ [(r, d)])) prev,
      tail_run Slow (kinds (ss @ [(r, d)])) = max 1 n)"
proof -
  note c = run_samples_counters [of n st0 "ss @ [(r, d)]"]
  have "fst (advance (run_samples n st0 ss) r d prev n) = run_samples n st0 (ss @ [(r, d)])"
    by (simp only: advance_state_any_status run_samples_snoc)
  moreover have "snd (advance (run_samples n st0 ss) r d prev n) =
      (spec_status n (kinds (ss @ [(r, d)])) prev,
       tail_run Slow (kinds (ss @ [(r, d)])) = max 1 n)"
    using c run_samples_counters [of n st0 ss]
    by (subst snd_advance)
      (simp_all only: Let_def spec_status_def count_sample_run [of _ r d n] run_samples_snoc
        tail_run_nonneg)
  ultimately show ?thesis by (simp only: prod_eq_iff fst_conv snd_conv)
qed

subsection \<open>What a check emits\<close>

text \<open>The triple \<open>advance\<close> returns inside a check, named once.\<close>

definition check_decision ::
  "monitor_env \<Rightarrow> real \<Rightarrow> real \<Rightarrow> monitor_states \<Rightarrow> link \<Rightarrow> link_state \<times> string \<times> bool" where
  "check_decision env a p states l =
     advance (case states (l_ID l) of None \<Rightarrow> fresh_link_state (l_Status l) | Some st \<Rightarrow> st)
       (fst (classify_sample a p)) (snd (classify_sample a p)) (l_Status l) (sustainN env)"

lemma checkLink_with_decision:
  assumes "check_decision env a p states l = (st', s, fire)"
  shows "fst (checkLink_with env a p states l) = states(l_ID l \<mapsto> st'\<lparr>lastStatus := s\<rparr>)"
    and "UpdateStatus i s0 a0 p0 \<in> set (snd (checkLink_with env a p states l))
           \<longleftrightarrow> i = l_ID l \<and> s0 = s \<and> a0 = a \<and> p0 = p"
    and "StatusChange u old new \<in> set (snd (checkLink_with env a p states l))
           \<longleftrightarrow> me_updateOk env (l_ID l) \<and> me_onStatusChange env \<and> s \<noteq> lastStatus st'
             \<and> u = l\<lparr>l_Status := s, l_LatencyMs := a, l_PacketLoss := p\<rparr>
             \<and> old = lastStatus st' \<and> new = s"
    and "DegradedSustained u \<in> set (snd (checkLink_with env a p states l))
           \<longleftrightarrow> me_updateOk env (l_ID l) \<and> me_onDegradedSustained env \<and> fire
             \<and> u = l\<lparr>l_Status := s, l_LatencyMs := a, l_PacketLoss := p\<rparr>"
  using assms by (auto simp: checkLink_with_def check_decision_def Let_def split: prod.splits)

lemma lastStatus_advance: "lastStatus (fst (advance st r d prev n)) = lastStatus st"
  by (simp add: advance_def count_sample_def Let_def)

lemma reachable_advance_not_offline:
  "fst (snd (advance st True d prev n)) = StatusOffline \<Longrightarrow> prev = StatusOffline"
  by (cases d) (auto simp: advance_def count_sample_def Let_def threshold_defs split: if_splits)

subsection \<open>Locality of a check\<close>

lemma checkLink_with_state:
  "fst (checkLink_with env a p states l) =
     states(l_ID l \<mapsto> the (fst (checkLink_with env a p states l) (l_ID l)))"
  by (simp add: checkLink_with_def Let_def split: prod.splits)

definition link_step :: "monitor_env \<Rightarrow> link_state option \<Rightarrow> link \<Rightarrow> link_state option" where
  "link_step env st l = fst (checkLink env (\<lambda>_. st) l) (l_ID l)"

lemma checkLink_state:
  "fst (checkLink env states l) = states(l_ID l := link_step env (states (l_ID l)) l)"
  by (simp add: link_step_def checkLink_def checkLink_with_def Let_def split: prod.splits)

lemma fst_check_enabled_Cons [simp]:
  "fst (check_enabled env states (l # ls)) =
     fst (check_enabled env
            (if l_Enabled l then states(l_ID l := link_step env (states (l_ID l)) l) else states) ls)"
  by (simp add: checkLink_state [symmetric] split: prod.splits)

declare check_enabled.simps(2) [simp del]

lemma check_enabled_state:
  "distinct (map l_ID ls) \<Longrightarrow>
   fst (check_enabled env states ls) i =
     (case List.find (\<lambda>l. l_Enabled l \<and> l_ID l = i) ls of
        None \<Rightarrow> states i | Some l \<Rightarrow> link_step env (states i) l)"
proof (induction ls arbitrary: states)
  case (Cons l ls)
  then have "List.find (\<lambda>l'. l_Enabled l' \<and> l_ID l' = l_ID l) ls = None"
    by (fastforce simp: find_None_iff image_iff)
  with Cons show ?case by (cases "l_ID l = i") (auto split: option.splits)
qed simp

lemma summarize_bounds:
  assumes "summarize rs = (a, p)"
  shows "0 \<le> p \<and> p \<le> 100 \<and> (p < 100 \<longleftrightarrow> (\<exists>r \<in> set rs. cr_Success r))"
proof (cases "filter cr_Success rs = []")
  case True
  with assms show ?thesis
    by (auto simp: summarize_def Let_def filter_empty_conv split: if_splits)
next
  case False
  let ?g = "length (filter cr_Success rs)" and ?n = "length rs"
  have g: "0 < ?g" "?g \<le> ?n" using False by simp_all
  obtain q where q: "q = (real ?n - real ?g) / real ?n" by simp
  have "p = q * 100"
    using assms False g by (auto simp: summarize_def Let_def q split: if_splits)
  moreover have "q < 1" and "0 \<le> q"
    using g by (simp_all add: q divide_less_eq)
  ultimately have "0 \<le> p \<and> p < 100" by simp
  moreover have "\<exists>r \<in> set rs. cr_Success r" using False by (auto simp: filter_empty_conv)
  ultimately show ?thesis by simp
qed

subsection \<open>Properties\<close>

text \<open>C22. The hysteresis refines its specification: fed any history of samples from a fresh
  state, \<open>advance\<close> decides the status from the lengths of the current run of unreachable,
  degraded or good samples (3 unreachable, the configured number of degraded, 2 good, else
  the previous status), and reports a sustained degradation exactly at the sample where the
  degraded run reaches the threshold, so once per episode.\<close>

theorem advance_refines_run_lengths:
  "snd (advance (run_samples n st0 ss) reachable degradedNow prev n) =
     (spec_status n (kinds (ss @ [(reachable, degradedNow)])) prev,
      tail_run Slow (kinds (ss @ [(reachable, degradedNow)])) = max 1 n)
   \<and> fst (advance (run_samples n st0 ss) reachable degradedNow prev n)
       = run_samples n st0 (ss @ [(reachable, degradedNow)])"
  by (simp only: advance_spec fst_conv snd_conv simp_thms)

text \<open>A link that answers is never taken offline by that sample: if at least one probe of
  the pass succeeded, the status written is \<open>offline\<close> only when the database said
  \<open>offline\<close> before.\<close>

theorem answering_link_not_taken_offline:
  assumes "\<exists>r \<in> set (probe_all env l). cr_Success r"
    and "UpdateStatus i StatusOffline a p \<in> set (snd (checkLink env states l))"
  shows "l_Status l = StatusOffline"
proof -
  obtain a' p' where s: "summarize (probe_all env l) = (a', p')" by fastforce
  with assms(1) have "fst (classify_sample a' p')"
    using summarize_bounds by (auto simp: classify_sample_def Let_def)
  moreover obtain st' s0 fire where d: "check_decision env a' p' states l = (st', s0, fire)"
    by (metis prod_cases3)
  moreover have "s0 = StatusOffline"
    using assms(2) checkLink_with_decision(2) [OF d] by (simp add: checkLink_def s)
  ultimately show ?thesis
    using reachable_advance_not_offline
      [of "case states (l_ID l) of None \<Rightarrow> fresh_link_state (l_Status l) | Some st \<Rightarrow> st"
          "snd (classify_sample a' p')" "l_Status l" "sustainN env"]
    by (simp add: check_decision_def)
qed

definition demo_link :: "string \<Rightarrow> string \<Rightarrow> link" where
  "demo_link i st =
     \<lparr>l_ID = i, l_Name = i, l_Interface = i, l_Gateway = i, l_Weight = 1, l_DNSTest = ''8.8.8.8'',
      l_MonitorHosts = [], l_Status = st, l_LatencyMs = 0, l_PacketLoss = 0, l_Enabled = True,
      l_TableID = 100\<rparr>"

definition demo_env :: "(nat \<Rightarrow> string \<Rightarrow> string \<Rightarrow> string \<Rightarrow> int option) \<Rightarrow> bool \<Rightarrow> monitor_env" where
  "demo_env dial ok =
     \<lparr>me_dial = dial, me_probeCount = 1, me_sustain = None, me_rec = False, me_metrics = False,
      me_onStatusChange = True, me_onDegradedSustained = True, me_updateOk = (\<lambda>_. ok)\<rparr>"

lemma demo_hosts: "probe_all (demo_env dial ok) (demo_link i st) = [tcpCheck (dial 0) ''8.8.8.8'' i]"
  by (simp add: probe_all_def parseHosts_def demo_link_def demo_env_def go_split.simps [of _ "[]"]
      trim_space_def trim_left_def)

theorem answering_link_not_taken_offline_witness:
  "l_Status (demo_link ''w'' StatusOffline) = StatusOffline"
proof (rule answering_link_not_taken_offline)
  let ?env = "demo_env (\<lambda>_ _ _ _. Some 1000000) True" and ?l = "demo_link ''w'' StatusOffline"
  show "\<exists>r \<in> set (probe_all ?env ?l). cr_Success r"
    by (simp add: demo_hosts tcpCheck_def)
  have sum: "summarize (probe_all ?env ?l) = (1, 0)"
    by (simp add: demo_hosts tcpCheck_def summarize_def go_div_def)
  have "fst (snd (check_decision ?env 1 0 Map.empty ?l)) = StatusOffline"
    by (simp add: check_decision_def classify_sample_def advance_def count_sample_def
        fresh_link_state_def threshold_defs demo_link_def Let_def)
  then obtain st' fire where d: "check_decision ?env 1 0 Map.empty ?l = (st', StatusOffline, fire)"
    by (metis prod.collapse)
  show "UpdateStatus ''w'' StatusOffline 1 0 \<in> set (snd (checkLink ?env Map.empty ?l))"
    using checkLink_with_decision(2) [OF d] by (simp add: checkLink_def sum) (simp add: demo_link_def)
qed

text \<open>The order in which the goroutines of one pass run does not matter: the states left by
  a pass are the same for every permutation of the list of links, because a check of one
  link reads and writes that link's state only.\<close>

theorem checkAll_order:
  assumes "mset ls = mset ls'" and "distinct (map l_ID ls)"
  shows "fst (checkAll env states (Some ls)) = fst (checkAll env states (Some ls'))"
proof
  fix i
  have "distinct (map l_ID ls')"
    using assms by (metis mset_eq_imp_distinct_iff mset_map)
  moreover have "List.find (\<lambda>l. l_Enabled l \<and> l_ID l = i) ls = List.find (\<lambda>l. l_Enabled l \<and> l_ID l = i) ls'"
    by (rule find_key_permuted [OF assms, of _ i]) simp
  ultimately show "fst (checkAll env states (Some ls)) i = fst (checkAll env states (Some ls')) i"
    using assms(2) by (simp add: checkAll_def check_enabled_state)
qed

theorem checkAll_order_witness:
  "fst (checkAll (demo_env (\<lambda>_ _ _ _. None) True) Map.empty
          (Some [demo_link ''a'' StatusOnline, demo_link ''b'' StatusOnline]))
     = fst (checkAll (demo_env (\<lambda>_ _ _ _. None) True) Map.empty
          (Some [demo_link ''b'' StatusOnline, demo_link ''a'' StatusOnline]))"
  by (rule checkAll_order) (simp_all add: demo_link_def)

text \<open>A failed database write loses the transition: the check that decides a new status
  records it as announced before \<open>UpdateStatus\<close> is tried, returns without calling anyone
  when that fails, and no later check that decides the same status announces it.\<close>

theorem failed_update_loses_transition:
  assumes "checkLink_with env a p states l = (states1, effs1)"
    and "\<not> me_updateOk env (l_ID l)"
    and "l_ID l2 = l_ID l"
    and "checkLink_with env2 a2 p2 states1 l2 = (states2, effs2)"
  shows "(\<forall>u old new. StatusChange u old new \<notin> set effs1)
       \<and> (\<exists>s. UpdateStatus (l_ID l) s a p \<in> set effs1
              \<and> (\<forall>u old. StatusChange u old s \<notin> set effs2))"
proof -
  obtain st' s fire where d: "check_decision env a p states l = (st', s, fire)"
    by (metis prod_cases3)
  obtain st2 s2 fire2 where d2: "check_decision env2 a2 p2 states1 l2 = (st2, s2, fire2)"
    by (metis prod_cases3)
  have "states1 (l_ID l2) = Some (st'\<lparr>lastStatus := s\<rparr>)"
    using checkLink_with_decision(1) [OF d] assms(1,3) by simp
  then have "lastStatus st2 = s"
    using d2 lastStatus_advance [of "st'\<lparr>lastStatus := s\<rparr>"]
    by (simp add: check_decision_def) (metis fst_conv)
  then have "\<forall>u old. StatusChange u old s \<notin> set effs2"
    using checkLink_with_decision(3) [OF d2] assms(4) by auto
  then show ?thesis
    using checkLink_with_decision(2,3) [OF d] assms(1,2) by auto
qed

theorem failed_update_loses_transition_witness:
  "\<exists>s effs1 states1 effs2.
     checkLink_with (demo_env (\<lambda>_ _ _ _. None) False) 0 100
        [''w'' \<mapsto> (fresh_link_state StatusOnline)\<lparr>consecutiveFails := 2\<rparr>] (demo_link ''w'' StatusOnline)
       = (states1, effs1)
     \<and> effs2 = snd (checkLink_with (demo_env (\<lambda>_ _ _ _. None) True) 0 100 states1 (demo_link ''w'' StatusOnline))
     \<and> UpdateStatus ''w'' StatusOffline 0 100 \<in> set effs1
     \<and> (\<forall>u old. StatusChange u old StatusOffline \<notin> set effs2)"
proof -
  let ?st = "[''w'' \<mapsto> (fresh_link_state StatusOnline)\<lparr>consecutiveFails := 2\<rparr>]"
  let ?l = "demo_link ''w'' StatusOnline" and ?e = "demo_env (\<lambda>_ _ _ _. None)"
  obtain states1 effs1 where c1: "checkLink_with (?e False) 0 100 ?st ?l = (states1, effs1)"
    by fastforce
  obtain states2 effs2 where c2: "checkLink_with (?e True) 0 100 states1 ?l = (states2, effs2)"
    by fastforce
  have "fst (snd (check_decision (?e False) 0 100 ?st ?l)) = StatusOffline"
    by (simp add: check_decision_def classify_sample_def advance_def count_sample_def
        fresh_link_state_def threshold_defs demo_link_def Let_def)
  then obtain st' fire where d: "check_decision (?e False) 0 100 ?st ?l = (st', StatusOffline, fire)"
    by (metis prod.collapse)
  have "l_ID ?l = ''w''" by (simp add: demo_link_def)
  then have "UpdateStatus ''w'' s 0 100 \<in> set effs1 \<longleftrightarrow> s = StatusOffline" for s
    using checkLink_with_decision(2) [OF d] c1 by auto
  with failed_update_loses_transition [OF c1 _ refl c2] c1 c2 \<open>l_ID ?l = ''w''\<close>
  show ?thesis by (auto simp: demo_env_def)
qed

end
