(* ===== verification/RoutePlan.thy ===== *)
theory RoutePlan
  imports LinkMonitor "HOL-Library.Char_ord" "HOL-Library.List_Lexorder"
begin

text \<open>
  The pure half of the balancer (\<open>internal/balancer/service.go\<close>): which links carry the
  multipath default route, with which kernel weights, and the signature that lets the
  periodic reconciliation skip a route that is already installed.

  \<open>sort.Slice\<close> is modelled by stable insertion, which is what Go runs on the short slices
  this code sorts; the properties use only that the result is ordered and a permutation.
  The weight arithmetic is Go's 64-bit \<open>int\<close>: each product and sum is wrapped.
\<close>

subsection \<open>Data\<close>

definition maxKernelWeight :: int where "maxKernelWeight = 256"
definition demotedWeight :: int where "demotedWeight = 1"
definition defaultTable :: string where "defaultTable = ''main''"

record nexthop =
  nh_LinkID :: string
  nh_Name :: string
  nh_Gateway :: string
  nh_Interface :: string
  nh_RawWeight :: int
  nh_Weight :: int
  nh_Online :: bool
  nh_Status :: string
  nh_PacketLoss :: real
  nh_LatencyMs :: real

definition toNexthop :: "link \<Rightarrow> nexthop" where
  "toNexthop l =
     \<lparr>nh_LinkID = l_ID l, nh_Name = l_Name l, nh_Gateway = l_Gateway l,
      nh_Interface = l_Interface l, nh_RawWeight = l_Weight l, nh_Weight = 0,
      nh_Online = (l_Status l = StatusOnline \<or> l_Status l = StatusDegraded),
      nh_Status = l_Status l, nh_PacketLoss = l_PacketLoss l, nh_LatencyMs = l_LatencyMs l\<rparr>"

subsection \<open>Weights\<close>

definition max_raw :: "nexthop list \<Rightarrow> int" where
  "max_raw nhs = foldl (\<lambda>m n. if nh_RawWeight n > m then nh_RawWeight n else m) 0 nhs"

definition scale_weight :: "int \<Rightarrow> int \<Rightarrow> int" where
  "scale_weight maxRaw raw =
     (if maxRaw \<le> 0 then 1
      else let w = go_div (wrap64 (wrap64 (raw * maxKernelWeight) + go_div maxRaw 2)) maxRaw;
               w1 = (if w < 1 then 1 else w)
           in if w1 > maxKernelWeight then maxKernelWeight else w1)"

definition normalizeWeights :: "nexthop list \<Rightarrow> nexthop list" where
  "normalizeWeights nhs = map (\<lambda>n. n\<lparr>nh_Weight := scale_weight (max_raw nhs) (nh_RawWeight n)\<rparr>) nhs"

subsection \<open>Selection\<close>

fun insert_sorted :: "('a \<Rightarrow> 'a \<Rightarrow> bool) \<Rightarrow> 'a \<Rightarrow> 'a list \<Rightarrow> 'a list" where
  "insert_sorted lt x [] = [x]"
| "insert_sorted lt x (y # ys) = (if lt x y then x # y # ys else y # insert_sorted lt x ys)"

definition sort_slice :: "('a \<Rightarrow> 'a \<Rightarrow> bool) \<Rightarrow> 'a list \<Rightarrow> 'a list" where
  "sort_slice lt xs = foldl (\<lambda>acc x. insert_sorted lt x acc) [] xs"

definition less_degraded :: "link \<Rightarrow> link \<Rightarrow> bool" where
  "less_degraded a b =
     (if l_PacketLoss a \<noteq> l_PacketLoss b then l_PacketLoss a < l_PacketLoss b
      else l_LatencyMs a < l_LatencyMs b)"

definition is_up :: "(string \<Rightarrow> bool) option \<Rightarrow> string \<Rightarrow> bool" where
  "is_up ifaceUp iface = (case ifaceUp of None \<Rightarrow> True | Some up \<Rightarrow> up iface)"

definition configured :: "link \<Rightarrow> bool" where
  "configured l \<longleftrightarrow> l_Enabled l \<and> l_Gateway l \<noteq> [] \<and> l_Interface l \<noteq> []"

definition up_links :: "link list \<Rightarrow> (string \<Rightarrow> bool) option \<Rightarrow> link list" where
  "up_links all ifaceUp = filter (\<lambda>l. configured l \<and> is_up ifaceUp (l_Interface l)) all"

definition excluded_links :: "link list \<Rightarrow> (string \<Rightarrow> bool) option \<Rightarrow> link list" where
  "excluded_links all ifaceUp =
     filter (\<lambda>l. if \<not> configured l then l_Gateway l \<noteq> [] \<or> l_Interface l \<noteq> []
                 else \<not> is_up ifaceUp (l_Interface l)) all"

definition primary_links :: "link list \<Rightarrow> link list" where
  "primary_links up =
     (let healthy = filter (\<lambda>l. l_Status l = StatusOnline) up;
          degraded = filter (\<lambda>l. l_Status l = StatusDegraded) up;
          others = filter (\<lambda>l. l_Status l \<noteq> StatusOnline \<and> l_Status l \<noteq> StatusDegraded) up
      in if healthy \<noteq> [] then healthy
         else if degraded \<noteq> [] then [hd (sort_slice less_degraded degraded)]
         else others)"

definition weightByID :: "nexthop list \<Rightarrow> string \<Rightarrow> int option" where
  "weightByID nhs = foldl (\<lambda>m nh. m(nh_LinkID nh \<mapsto> nh_Weight nh)) Map.empty nhs"

definition selectNexthops ::
  "link list \<Rightarrow> (string \<Rightarrow> bool) option \<Rightarrow> nexthop list \<times> nexthop list" where
  "selectNexthops all ifaceUp =
     (let excluded = map toNexthop (excluded_links all ifaceUp);
          up = up_links all ifaceUp
      in if up = [] then ([], excluded)
         else let primary = l_ID ` set (primary_links up);
                  primaryNH = normalizeWeights (map toNexthop (filter (\<lambda>l. l_ID l \<in> primary) up));
                  weight = weightByID primaryNH
              in (map (\<lambda>l. (toNexthop l)\<lparr>nh_Weight :=
                             (case weight (l_ID l) of Some w \<Rightarrow> w | None \<Rightarrow> demotedWeight)\<rparr>) up,
                  excluded))"

subsection \<open>Which interfaces are up\<close>

definition nomeDaInterface :: "string \<Rightarrow> string" where
  "nomeDaInterface campo =
     (let c = trim_suffix campo '':''
      in case index_of ''@'' c of Some i \<Rightarrow> take i c | None \<Rightarrow> c)"

definition parseUpInterfaces :: "string \<Rightarrow> string \<Rightarrow> bool" where
  "parseUpInterfaces out =
     (\<lambda>iface. \<exists>line \<in> set (go_split newline out).
        case go_fields line of
          f0 # f1 # _ \<Rightarrow> (f1 = ''UP'' \<or> f1 = ''UNKNOWN'') \<and> nomeDaInterface f0 = iface
        | _ \<Rightarrow> False)"

text \<open>A failed \<open>ip -br link show\<close> yields no filter at all.\<close>

definition upInterfaces :: "string option \<Rightarrow> (string \<Rightarrow> bool) option" where
  "upInterfaces out = map_option parseUpInterfaces out"

subsection \<open>The signature of a route\<close>

definition signature_part :: "nexthop \<Rightarrow> string" where
  "signature_part n =
     nh_LinkID n @ ''|'' @ nh_Gateway n @ ''|'' @ nh_Interface n @ ''|'' @ itoa (nh_Weight n)"

definition routeSignature :: "nexthop list \<Rightarrow> string" where
  "routeSignature nhs = go_join (sort (map signature_part nhs)) '',''"

definition emptySig :: string where
  "emptySig = CHR 0x00 # ''empty''"

subsection \<open>Lemmas about weights\<close>

lemma max_raw_eq: "max_raw nhs = Max (insert 0 (nh_RawWeight ` set nhs))"
proof -
  have "foldl (\<lambda>m n. if nh_RawWeight n > m then nh_RawWeight n else m) b nhs
          = Max (insert b (nh_RawWeight ` set nhs))" for b
  proof (induction nhs arbitrary: b)
    case (Cons n nhs)
    have "Max (insert b (insert (nh_RawWeight n) (nh_RawWeight ` set nhs)))
            = Max (insert (max b (nh_RawWeight n)) (nh_RawWeight ` set nhs))"
      by (cases "nhs = []") (simp_all add: max.assoc)
    with Cons show ?case by (simp add: max_def)
  qed simp
  then show ?thesis by (simp add: max_raw_def)
qed

lemma scale_weight_range: "1 \<le> scale_weight M raw \<and> scale_weight M raw \<le> 256"
  by (simp add: scale_weight_def maxKernelWeight_def Let_def)

lemma scale_weight_exact:
  assumes "0 \<le> raw" and "raw \<le> M" and "0 < M" and "M < 2 ^ 54"
  shows "scale_weight M raw = max 1 ((raw * 256 + M div 2) div M)"
proof -
  have "wrap64 (raw * 256) = raw * 256" and "wrap64 (raw * 256 + M div 2) = raw * 256 + M div 2"
    using assms by (auto intro!: wrap64_id)
  moreover have "(raw * 256 + M div 2) div M \<le> 256"
  proof -
    have "raw * 256 + M div 2 < 257 * M" using assms by linarith
    then have "(raw * 256 + M div 2) div M \<le> (257 * M - 1) div M"
      using \<open>0 < M\<close> by (intro zdiv_mono1) simp_all
    also have "257 * M - 1 = (M - 1) + 256 * M" by simp
    also have "((M - 1) + 256 * M) div M = 256 + (M - 1) div M"
      using \<open>0 < M\<close> by (intro div_mult_self1) simp
    also have "\<dots> = 256" using \<open>0 < M\<close> by (simp add: div_pos_pos_trivial)
    finally show ?thesis .
  qed
  ultimately show ?thesis
    using assms
    by (simp add: scale_weight_def maxKernelWeight_def Let_def go_div_nonneg max_def)
qed

lemma scale_weight_top: "0 < M \<Longrightarrow> M < 2 ^ 54 \<Longrightarrow> scale_weight M M = 256"
  by (subst scale_weight_exact) (simp_all add: div_add1_eq [of "M * 256"] algebra_simps)

lemma scale_weight_mono:
  assumes "0 \<le> a" and "a \<le> b" and "b \<le> M" and "M < 2 ^ 54"
  shows "scale_weight M a \<le> scale_weight M b"
proof (cases "0 < M")
  case True
  then have "(a * 256 + M div 2) div M \<le> (b * 256 + M div 2) div M"
    using assms by (intro zdiv_mono1) simp_all
  with True assms show ?thesis by (auto simp: scale_weight_exact max_def)
qed (simp add: scale_weight_def)

lemma scale_weight_rounds:
  assumes "0 \<le> raw" and "raw \<le> M" and "0 < M" and "M < 2 ^ 54" and "1 < scale_weight M raw"
  shows "\<bar>2 * (scale_weight M raw * M - raw * 256)\<bar> \<le> M"
proof -
  let ?n = "raw * 256 + M div 2"
  have w: "scale_weight M raw = ?n div M"
    using scale_weight_exact [OF assms(1-4)] assms(5) by (simp add: max_def split: if_splits)
  obtain q where q: "q = ?n div M * M" by simp
  obtain r where r: "r = ?n mod M" by simp
  obtain h where h: "h = M div 2" by simp
  have "q = raw * 256 + h - r"
    unfolding q r h by (simp add: minus_mod_eq_div_mult)
  moreover have "0 \<le> r" and "r < M" unfolding r using assms(3) by simp_all
  moreover have "M - 1 \<le> 2 * h" and "2 * h \<le> M" unfolding h by auto
  ultimately have "- M \<le> 2 * (q - raw * 256)" and "2 * (q - raw * 256) \<le> M" by simp_all
  then have "\<bar>2 * (q - raw * 256)\<bar> \<le> M" by (simp only: abs_le_iff minus_le_iff simp_thms)
  then show ?thesis unfolding w q .
qed

subsection \<open>Lemmas about selection\<close>

lemma mset_insert_sorted: "mset (insert_sorted lt x ys) = add_mset x (mset ys)"
  by (induction ys) auto

lemma mset_sort_slice: "mset (sort_slice lt xs) = mset xs"
proof -
  have "mset (foldl (\<lambda>acc x. insert_sorted lt x acc) acc xs) = mset acc + mset xs" for acc
    by (induction xs arbitrary: acc) (auto simp: mset_insert_sorted)
  then show ?thesis by (simp add: sort_slice_def)
qed

lemma set_sort_slice [simp]: "set (sort_slice lt xs) = set xs"
  by (metis mset_sort_slice set_mset_mset)

lemma sort_slice_Nil_iff [simp]: "sort_slice lt xs = [] \<longleftrightarrow> xs = []"
  by (metis mset_sort_slice mset_zero_iff)

text \<open>
  What \<open>sort.Slice\<close> asks of a comparison, and what it gives back: the result is ordered, so
  its head is minimal.
\<close>

locale slice_order =
  fixes lt :: "'a \<Rightarrow> 'a \<Rightarrow> bool"
  assumes not_lt_trans: "\<not> lt b a \<Longrightarrow> \<not> lt c b \<Longrightarrow> \<not> lt c a"
    and asym: "lt a b \<Longrightarrow> \<not> lt b a"
begin

lemma insert_sorted_ordered:
  "sorted_wrt (\<lambda>a b. \<not> lt b a) ys \<Longrightarrow> sorted_wrt (\<lambda>a b. \<not> lt b a) (insert_sorted lt x ys)"
proof (induction ys)
  case (Cons y ys)
  have set: "set (insert_sorted lt x ys) = insert x (set ys)"
    by (metis mset_insert_sorted set_mset_add_mset_insert set_mset_mset)
  show ?case
  proof (cases "lt x y")
    case True
    then have "\<not> lt y x" by (rule asym)
    moreover have "\<not> lt z x" if "z \<in> set ys" for z
      using Cons.prems that \<open>\<not> lt y x\<close> by (intro not_lt_trans [of y x z]) simp_all
    ultimately show ?thesis using True Cons.prems by simp
  next
    case False
    with Cons show ?thesis by (simp add: set)
  qed
qed simp

lemma sort_slice_ordered: "sorted_wrt (\<lambda>a b. \<not> lt b a) (sort_slice lt xs)"
proof -
  have "sorted_wrt (\<lambda>a b. \<not> lt b a) acc \<Longrightarrow>
        sorted_wrt (\<lambda>a b. \<not> lt b a) (foldl (\<lambda>acc x. insert_sorted lt x acc) acc zs)" for acc zs
    by (induction zs arbitrary: acc) (simp_all add: insert_sorted_ordered)
  then show ?thesis by (simp add: sort_slice_def)
qed

lemma sort_slice_head_min:
  assumes "y \<in> set xs"
  shows "\<not> lt y (hd (sort_slice lt xs))"
proof -
  have "y \<in> set (sort_slice lt xs)" using assms by simp
  moreover have "\<not> lt y y" using asym by blast
  ultimately show ?thesis
    using sort_slice_ordered [of xs] by (cases "sort_slice lt xs") auto
qed

end

text \<open>Loss first, then latency, is such a comparison.\<close>

interpretation degraded: slice_order less_degraded
  by unfold_locales (auto simp: less_degraded_def split: if_splits)

lemma primary_links_subset: "set (primary_links up) \<subseteq> set up"
proof -
  have "hd (sort_slice less_degraded xs) \<in> set xs" if "xs \<noteq> []" for xs :: "link list"
    using that hd_in_set [of "sort_slice less_degraded xs"] by simp
  from this [of "filter (\<lambda>l. l_Status l = StatusDegraded) up"] show ?thesis
    by (auto simp: primary_links_def Let_def)
qed

lemma map_toNexthop_ID [simp]: "nh_LinkID (toNexthop l) = l_ID l"
  and toNexthop_simps [simp]: "nh_RawWeight (toNexthop l) = l_Weight l"
      "nh_Gateway (toNexthop l) = l_Gateway l" "nh_Interface (toNexthop l) = l_Interface l"
  by (simp_all add: toNexthop_def)

lemma weightByID_None: "weightByID nhs i = None \<longleftrightarrow> i \<notin> nh_LinkID ` set nhs"
proof -
  have "foldl (\<lambda>m nh. m(nh_LinkID nh \<mapsto> nh_Weight nh)) m nhs i = None
          \<longleftrightarrow> m i = None \<and> i \<notin> nh_LinkID ` set nhs" for m
    by (induction nhs arbitrary: m) auto
  then show ?thesis by (simp add: weightByID_def)
qed

lemma weightByID_Some:
  assumes "distinct (map nh_LinkID nhs)" and "n \<in> set nhs"
  shows "weightByID nhs (nh_LinkID n) = Some (nh_Weight n)"
  using assms
proof (induction nhs rule: rev_induct)
  case (snoc x nhs)
  then show ?case by (cases "x = n") (auto simp: weightByID_def image_iff)
qed simp

text \<open>The raw weights that count: those of the primary carriers.\<close>

definition primary_max :: "link list \<Rightarrow> int" where
  "primary_max up = Max (insert 0 (l_Weight ` set (primary_links up)))"

lemma select_weight:
  assumes "distinct (map l_ID up)" and "l \<in> set up"
  shows "weightByID (normalizeWeights (map toNexthop
            (filter (\<lambda>l. l_ID l \<in> l_ID ` set (primary_links up)) up))) (l_ID l)
         = (if l \<in> set (primary_links up)
            then Some (scale_weight (primary_max up) (l_Weight l)) else None)"
proof -
  have inj: "inj_on l_ID (set up)" using assms(1) by (simp add: distinct_map)
  let ?P = "filter (\<lambda>l. l_ID l \<in> l_ID ` set (primary_links up)) up"
  have mem: "l_ID x \<in> l_ID ` set (primary_links up) \<longleftrightarrow> x \<in> set (primary_links up)"
    if "x \<in> set up" for x
    using inj_on_image_mem_iff [OF inj that primary_links_subset] .
  have set: "set ?P = set (primary_links up)"
    using mem primary_links_subset [of up] by auto
  let ?nhs = "normalizeWeights (map toNexthop ?P)"
  have max: "max_raw (map toNexthop ?P) = primary_max up"
    by (simp only: max_raw_eq primary_max_def set_map set image_image toNexthop_simps)
  have ids: "map nh_LinkID ?nhs = map l_ID ?P"
    by (simp add: normalizeWeights_def)
  have dist: "distinct (map nh_LinkID ?nhs)"
    unfolding ids using assms(1) by (simp add: distinct_map_filter)
  show ?thesis
  proof (cases "l \<in> set (primary_links up)")
    case True
    let ?n = "(toNexthop l)\<lparr>nh_Weight := scale_weight (primary_max up) (l_Weight l)\<rparr>"
    have "?n \<in> set ?nhs"
      using True set by (auto simp: normalizeWeights_def max)
    from weightByID_Some [OF dist this] True show ?thesis by simp
  next
    case False
    have "nh_LinkID ` set ?nhs = set (map nh_LinkID ?nhs)" by (rule set_map [symmetric])
    also have "\<dots> = l_ID ` set (primary_links up)" unfolding ids set_map set ..
    finally have "l_ID l \<notin> nh_LinkID ` set ?nhs" using mem [OF assms(2)] False by simp
    with False show ?thesis by (simp add: weightByID_None)
  qed
qed

text \<open>The selection, with the map of weights eliminated.\<close>

lemma selectNexthops_eq:
  assumes "distinct (map l_ID all)"
  shows "selectNexthops all ifaceUp =
    (map (\<lambda>l. (toNexthop l)\<lparr>nh_Weight :=
                 (if l \<in> set (primary_links (up_links all ifaceUp))
                  then scale_weight (primary_max (up_links all ifaceUp)) (l_Weight l) else 1)\<rparr>)
       (up_links all ifaceUp),
     map toNexthop (excluded_links all ifaceUp))"
proof -
  have "distinct (map l_ID (up_links all ifaceUp))"
    using assms by (simp add: up_links_def distinct_map_filter)
  then show ?thesis
    by (simp add: selectNexthops_def Let_def select_weight demotedWeight_def)
qed

lemma weightByID_range:
  assumes "weightByID nhs i = Some w"
  shows "\<exists>n \<in> set nhs. nh_Weight n = w"
proof -
  have "foldl (\<lambda>m nh. m(nh_LinkID nh \<mapsto> nh_Weight nh)) m nhs i = Some w \<Longrightarrow>
        m i = Some w \<or> (\<exists>n \<in> set nhs. nh_Weight n = w)" for m
    by (induction nhs arbitrary: m) (fastforce split: if_splits)+
  from this [of Map.empty] assms show ?thesis by (simp add: weightByID_def)
qed

lemma weightByID_normalized_range:
  "weightByID (normalizeWeights nhs) i = Some w \<Longrightarrow> 1 \<le> w \<and> w \<le> 256"
  using scale_weight_range by (fastforce dest!: weightByID_range simp: normalizeWeights_def)

lemma fst_selectNexthops:
  "fst (selectNexthops all ifaceUp) =
     (let up = up_links all ifaceUp;
          weight = weightByID (normalizeWeights (map toNexthop
                     (filter (\<lambda>l. l_ID l \<in> l_ID ` set (primary_links up)) up)))
      in map (\<lambda>l. (toNexthop l)\<lparr>nh_Weight :=
                     (case weight (l_ID l) of Some w \<Rightarrow> w | None \<Rightarrow> demotedWeight)\<rparr>) up)"
  by (simp add: selectNexthops_def Let_def)

lemma snd_selectNexthops:
  "snd (selectNexthops all ifaceUp) = map toNexthop (excluded_links all ifaceUp)"
  by (simp add: selectNexthops_def Let_def)

lemma primary_links_healthy:
  "\<exists>l \<in> set up. l_Status l = StatusOnline \<Longrightarrow>
   primary_links up = filter (\<lambda>l. l_Status l = StatusOnline) up"
  by (auto simp: primary_links_def filter_empty_conv)

lemma primary_links_degraded:
  assumes "\<forall>l \<in> set up. l_Status l \<noteq> StatusOnline"
    and "\<exists>l \<in> set up. l_Status l = StatusDegraded"
  shows "\<exists>b. primary_links up = [b] \<and> b \<in> set up \<and> l_Status b = StatusDegraded
           \<and> (\<forall>l \<in> set up. l_Status l = StatusDegraded \<longrightarrow> \<not> less_degraded l b)"
proof -
  let ?d = "filter (\<lambda>l. l_Status l = StatusDegraded) up"
  let ?b = "hd (sort_slice less_degraded ?d)"
  have ne: "?d \<noteq> []" using assms(2) by (simp add: filter_empty_conv)
  have "filter (\<lambda>l. l_Status l = StatusOnline) up = []"
    using assms(1) by (simp add: filter_empty_conv)
  then have "primary_links up = [?b]" using ne by (simp add: primary_links_def Let_def)
  moreover have "?b \<in> set ?d"
    using ne hd_in_set [of "sort_slice less_degraded ?d"] by simp
  moreover have "\<not> less_degraded l ?b" if "l \<in> set ?d" for l
    using that by (rule degraded.sort_slice_head_min)
  ultimately show ?thesis by auto
qed

lemma primary_max_ge: "l \<in> set (primary_links up) \<Longrightarrow> l_Weight l \<le> primary_max up"
  by (simp add: primary_max_def)

text \<open>The weight of the next hop that a link of the route gets.\<close>

definition link_weight :: "link list \<Rightarrow> link \<Rightarrow> int" where
  "link_weight up l =
     (if l \<in> set (primary_links up) then scale_weight (primary_max up) (l_Weight l) else 1)"

lemma select_link_weight:
  assumes "distinct (map l_ID all)"
  shows "map nh_Weight (fst (selectNexthops all ifaceUp)) =
           map (link_weight (up_links all ifaceUp)) (up_links all ifaceUp)"
  using assms by (simp add: selectNexthops_eq link_weight_def)

subsection \<open>Lemmas about signatures\<close>

definition plain :: "string \<Rightarrow> bool" where
  "plain s \<longleftrightarrow> CHR ''|'' \<notin> set s \<and> CHR '','' \<notin> set s"

definition plain_nexthop :: "nexthop \<Rightarrow> bool" where
  "plain_nexthop n \<longleftrightarrow> plain (nh_LinkID n) \<and> plain (nh_Gateway n) \<and> plain (nh_Interface n)"

definition route_key :: "nexthop \<Rightarrow> string \<times> string \<times> string \<times> int" where
  "route_key n = (nh_LinkID n, nh_Gateway n, nh_Interface n, nh_Weight n)"

lemma append_sep_inject:
  "c \<notin> set a \<Longrightarrow> c \<notin> set b \<Longrightarrow> a @ c # xs = b @ c # ys \<longleftrightarrow> a = b \<and> xs = ys"
  by (induction a arbitrary: b) (auto simp: Cons_eq_append_conv append_eq_Cons_conv, (case_tac b; auto)+)

lemma nat_digits_inj: "nat_digits m = nat_digits n \<Longrightarrow> m = n"
proof (induction m arbitrary: n rule: nat_digits.induct)
  case (1 m)
  have digit: "char_of (48 + a) = (char_of (48 + b) :: char) \<longleftrightarrow> a = b" if "a < 10" "b < (10::nat)" for a b
    using that by (simp add: char_of_eq_iff of_char_of take_bit_eq_mod)
  show ?case
  proof (cases "m < 10"; cases "n < 10")
    assume "m < 10" "n < 10"
    with 1(2) digit show ?thesis by (simp add: nat_digits.simps [of m] nat_digits.simps [of n])
  next
    assume "m < 10" "\<not> n < 10"
    with 1(2) show ?thesis by (simp add: nat_digits.simps [of m] nat_digits.simps [of n])
  next
    assume "\<not> m < 10" "n < 10"
    with 1(2) show ?thesis by (simp add: nat_digits.simps [of m] nat_digits.simps [of n])
  next
    assume "\<not> m < 10" "\<not> n < 10"
    with 1 digit have "m div 10 = n div 10" and "m mod 10 = n mod 10"
      by (simp_all add: nat_digits.simps [of m] nat_digits.simps [of n])
    then show ?thesis by (metis div_mult_mod_eq)
  qed
qed

lemma itoa_chars: "c \<in> set (itoa i) \<Longrightarrow> c = CHR ''-'' \<or> is_digit c"
  using nat_digits_all_digits by (auto simp: itoa_def list_all_iff split: if_splits)

lemma itoa_inj: "itoa i = itoa j \<Longrightarrow> i = j"
proof -
  have no: "nat_digits m \<noteq> CHR ''-'' # w" for m w
    using nat_digits_all_digits [of m] by (auto simp: is_digit_def)
  show "itoa i = itoa j \<Longrightarrow> i = j"
    using no no [symmetric] by (auto simp: itoa_def dest!: nat_digits_inj split: if_splits)
qed

lemma plain_itoa: "plain (itoa i)"
  by (auto simp: plain_def is_digit_def dest!: itoa_chars)

lemma signature_part_inj:
  assumes "plain_nexthop a" and "plain_nexthop b" and "signature_part a = signature_part b"
  shows "route_key a = route_key b"
proof -
  note s = assms(3) [unfolded signature_part_def append.simps]
  have "nh_LinkID a = nh_LinkID b"
    and r1: "nh_Gateway a @ CHR ''|'' # nh_Interface a @ CHR ''|'' # itoa (nh_Weight a)
           = nh_Gateway b @ CHR ''|'' # nh_Interface b @ CHR ''|'' # itoa (nh_Weight b)"
    using s assms(1,2) append_sep_inject by (simp_all add: plain_nexthop_def plain_def append_sep_inject)
  moreover have "nh_Gateway a = nh_Gateway b"
    and r2: "nh_Interface a @ CHR ''|'' # itoa (nh_Weight a)
           = nh_Interface b @ CHR ''|'' # itoa (nh_Weight b)"
    using r1 assms(1,2) by (simp_all add: plain_nexthop_def plain_def append_sep_inject)
  moreover have "nh_Interface a = nh_Interface b" and "itoa (nh_Weight a) = itoa (nh_Weight b)"
    using r2 assms(1,2) by (simp_all add: plain_nexthop_def plain_def append_sep_inject)
  ultimately show ?thesis by (simp add: route_key_def itoa_inj)
qed

lemma signature_part_chars:
  "plain_nexthop n \<Longrightarrow> CHR '','' \<notin> set (signature_part n) \<and> signature_part n \<noteq> []"
  using plain_itoa [of "nh_Weight n"] by (auto simp: signature_part_def plain_nexthop_def plain_def)

lemma go_join_comma_inj:
  assumes "\<forall>x \<in> set xs. CHR '','' \<notin> set x \<and> x \<noteq> []"
    and "\<forall>x \<in> set ys. CHR '','' \<notin> set x \<and> x \<noteq> []"
    and "go_join xs '','' = go_join ys '',''"
  shows "xs = ys"
  using assms
proof (induction xs arbitrary: ys rule: induct_list012)
  case 1
  then show ?case by (cases ys rule: remdups_adj.cases) auto
next
  case (2 x)
  then show ?case
    by (cases ys rule: remdups_adj.cases) auto
next
  case (3 x y zs)
  show ?case
  proof (cases ys rule: remdups_adj.cases)
    case (3 a b cs)
    with "3.prems" have eq: "x @ CHR '','' # go_join (y # zs) '','' = a @ CHR '','' # go_join (b # cs) '',''"
      by simp
    have "CHR '','' \<notin> set x" and "CHR '','' \<notin> set a" using "3.prems" 3 by simp_all
    from eq append_sep_inject [OF this] have "x = a" and "go_join (y # zs) '','' = go_join (b # cs) '',''"
      by simp_all
    with "3.IH"(2) [of "b # cs"] "3.prems" 3 show ?thesis by simp
  next
    case (2 a)
    with "3.prems" show ?thesis by auto
  qed (use "3.prems" in auto)
qed

lemma go_join_chars: "x \<in> set xs \<Longrightarrow> c \<in> set x \<Longrightarrow> c \<in> set (go_join xs sep)"
  by (induction xs sep rule: go_join.induct) auto

lemma mset_map_inject_on:
  assumes "mset (map f xs) = mset (map f ys)"
    and "\<And>x y. x \<in> set xs \<Longrightarrow> y \<in> set ys \<Longrightarrow> f x = f y \<Longrightarrow> g x = g y"
  shows "mset (map g xs) = mset (map g ys)"
  using assms
proof (induction xs arbitrary: ys)
  case (Cons x xs)
  from Cons.prems(1) have "f x \<in> set (map f ys)" by (metis list.set_intros(1) list.simps(9) mset_eq_setD)
  then obtain y where y: "y \<in> set ys" "f y = f x" by auto
  from split_list [OF y(1)] obtain as bs where ys: "ys = as @ y # bs" by blast
  have "mset (map f xs) = mset (map f (as @ bs))" using Cons.prems(1) y(2) by (simp add: ys)
  then have "mset (map g xs) = mset (map g (as @ bs))"
    by (rule Cons.IH) (use Cons.prems(2) in \<open>simp add: ys\<close>)
  moreover have "g x = g y" using Cons.prems(2) [of x y] y by simp
  ultimately show ?case by (simp add: ys)
qed simp

subsection \<open>Properties\<close>

text \<open>The selection is self-healing: whatever status the monitor gives, the next hops are
  exactly the enabled links with a gateway and an interface that is up, each once and in
  the order of the database, so a link whose probes fail stays on the route and returns by
  itself; and every weight is one the kernel accepts (1 to 256).\<close>

theorem selection_keeps_every_up_link:
  "map (\<lambda>n. (nh_LinkID n, nh_Gateway n, nh_Interface n)) (fst (selectNexthops all ifaceUp))
     = map (\<lambda>l. (l_ID l, l_Gateway l, l_Interface l))
         (filter (\<lambda>l. l_Enabled l \<and> l_Gateway l \<noteq> [] \<and> l_Interface l \<noteq> []
                       \<and> is_up ifaceUp (l_Interface l)) all)
   \<and> list_all (\<lambda>n. 1 \<le> nh_Weight n \<and> nh_Weight n \<le> 256) (fst (selectNexthops all ifaceUp))"
proof
  show "map (\<lambda>n. (nh_LinkID n, nh_Gateway n, nh_Interface n)) (fst (selectNexthops all ifaceUp))
     = map (\<lambda>l. (l_ID l, l_Gateway l, l_Interface l))
         (filter (\<lambda>l. l_Enabled l \<and> l_Gateway l \<noteq> [] \<and> l_Interface l \<noteq> []
                       \<and> is_up ifaceUp (l_Interface l)) all)"
    by (simp add: fst_selectNexthops Let_def up_links_def configured_def)
  show "list_all (\<lambda>n. 1 \<le> nh_Weight n \<and> nh_Weight n \<le> 256) (fst (selectNexthops all ifaceUp))"
    by (auto simp: fst_selectNexthops Let_def list_all_iff demotedWeight_def
        dest: weightByID_normalized_range split: option.splits)
qed

text \<open>While some link is healthy, the unhealthy ones are demoted: they get weight 1, and the
  healthy ones share the traffic by their configured weights, the largest at 256 and the
  others rounded to the nearest multiple of 1/256 of it (never below 1).\<close>

theorem healthy_links_carry:
  assumes "distinct (map l_ID all)" and "up = up_links all ifaceUp"
    and "h \<in> set up" and "l_Status h = StatusOnline"
    and "\<forall>k \<in> set up. l_Status k = StatusOnline \<longrightarrow> 0 \<le> l_Weight k \<and> l_Weight k \<le> M"
    and "0 < M" and "M < 2 ^ 54"
    and "b \<in> set up" and "l_Status b = StatusOnline" and "l_Weight b = M"
  shows "map nh_Weight (fst (selectNexthops all ifaceUp)) =
           map (\<lambda>l. if l_Status l = StatusOnline
                     then max 1 ((l_Weight l * 256 + M div 2) div M) else 1) up"
proof -
  have p: "primary_links up = filter (\<lambda>l. l_Status l = StatusOnline) up"
    using assms(3,4) by (intro primary_links_healthy) auto
  have "primary_max up = M"
    unfolding primary_max_def p
    by (rule Max_eqI) (use assms in auto)
  then have "link_weight up l = (if l_Status l = StatusOnline
               then max 1 ((l_Weight l * 256 + M div 2) div M) else 1)" if "l \<in> set up" for l
    using assms(5-7) that by (simp add: link_weight_def p scale_weight_exact)
  then show ?thesis
    using assms(1,2) by (simp add: select_link_weight)
qed

text \<open>When no link that is up is healthy but some are degraded, exactly one carries: a
  degraded link than which no other degraded one has less loss (or equal loss and less
  latency) gets 256, all others 1.\<close>

theorem least_degraded_link_carries:
  assumes "distinct (map l_ID all)" and "up = up_links all ifaceUp"
    and "\<forall>l \<in> set up. l_Status l \<noteq> StatusOnline"
    and "\<exists>l \<in> set up. l_Status l = StatusDegraded"
    and "\<forall>l \<in> set up. 0 < l_Weight l \<and> l_Weight l < 2 ^ 54"
  shows "\<exists>b \<in> set up. l_Status b = StatusDegraded
           \<and> (\<forall>l \<in> set up. l_Status l = StatusDegraded \<longrightarrow> \<not> less_degraded l b)
           \<and> map nh_Weight (fst (selectNexthops all ifaceUp)) = map (\<lambda>l. if l = b then 256 else 1) up"
proof -
  from primary_links_degraded [OF assms(3,4)] obtain b where
    p: "primary_links up = [b]" and b: "b \<in> set up" "l_Status b = StatusDegraded"
      "\<forall>l \<in> set up. l_Status l = StatusDegraded \<longrightarrow> \<not> less_degraded l b" by blast
  have "primary_max up = l_Weight b"
    using assms(5) b(1) by (auto simp: primary_max_def p max_def)
  then have "link_weight up l = (if l = b then 256 else 1)" for l
    using assms(5) b(1) by (simp add: link_weight_def p scale_weight_top)
  then have "link_weight up = (\<lambda>l. if l = b then 256 else 1)" by (rule ext)
  then show ?thesis using b assms(1,2) by (auto simp: select_link_weight)
qed

definition demo_up :: "string \<Rightarrow> string \<Rightarrow> int \<Rightarrow> real \<Rightarrow> link" where
  "demo_up i st w loss = (demo_link i st)\<lparr>l_Weight := w, l_PacketLoss := loss\<rparr>"

lemma demo_up_simps [simp]:
  "l_ID (demo_up i st w p) = i" "l_Status (demo_up i st w p) = st" "l_Weight (demo_up i st w p) = w"
  "l_PacketLoss (demo_up i st w p) = p" "l_LatencyMs (demo_up i st w p) = 0"
  "l_Interface (demo_up i st w p) = i" "l_Gateway (demo_up i st w p) = i" "l_Enabled (demo_up i st w p)"
  by (simp_all add: demo_up_def demo_link_def)

theorem healthy_links_carry_witness:
  "map nh_Weight (fst (selectNexthops
     [demo_up ''a'' StatusOnline 100 0, demo_up ''b'' StatusDegraded 900 30,
      demo_up ''c'' StatusOnline 50 0] None)) = [256, 1, 128]"
proof -
  let ?ls = "[demo_up ''a'' StatusOnline 100 0, demo_up ''b'' StatusDegraded 900 30,
      demo_up ''c'' StatusOnline 50 0]"
  have up: "?ls = up_links ?ls None" by (simp add: up_links_def configured_def is_up_def)
  have "map nh_Weight (fst (selectNexthops ?ls None)) =
           map (\<lambda>l. if l_Status l = StatusOnline
                     then max 1 ((l_Weight l * 256 + 100 div 2) div 100) else 1) ?ls"
    by (rule healthy_links_carry [OF _ up, where h = "demo_up ''a'' StatusOnline 100 0"
          and b = "demo_up ''a'' StatusOnline 100 0"]) simp_all
  then show ?thesis by simp
qed

theorem least_degraded_link_carries_witness:
  "map nh_Weight (fst (selectNexthops
     [demo_up ''a'' StatusDegraded 100 60, demo_up ''b'' StatusDegraded 7 30,
      demo_up ''c'' StatusOffline 50 100] None)) = [1, 256, 1]"
proof -
  let ?ls = "[demo_up ''a'' StatusDegraded 100 60, demo_up ''b'' StatusDegraded 7 30,
      demo_up ''c'' StatusOffline 50 100]"
  have up: "?ls = up_links ?ls None" by (simp add: up_links_def configured_def is_up_def)
  have neq: "demo_up ''a'' st w p \<noteq> demo_up ''b'' st' w' p'"
    "demo_up ''c'' st w p \<noteq> demo_up ''b'' st' w' p'" for st st' w w' p p'
    by (auto dest: arg_cong [of _ _ l_ID])
  have "\<exists>b \<in> set ?ls. l_Status b = StatusDegraded
           \<and> (\<forall>l \<in> set ?ls. l_Status l = StatusDegraded \<longrightarrow> \<not> less_degraded l b)
           \<and> map nh_Weight (fst (selectNexthops ?ls None)) = map (\<lambda>l. if l = b then 256 else 1) ?ls"
    by (rule least_degraded_link_carries [OF _ up]) simp_all
  then obtain b where b: "b \<in> set ?ls" "l_Status b = StatusDegraded"
      "\<forall>l \<in> set ?ls. l_Status l = StatusDegraded \<longrightarrow> \<not> less_degraded l b"
      "map nh_Weight (fst (selectNexthops ?ls None)) = map (\<lambda>l. if l = b then 256 else 1) ?ls"
    by (elim bexE conjE)
  from b(1) consider (a) "b = demo_up ''a'' StatusDegraded 100 60"
    | (b) "b = demo_up ''b'' StatusDegraded 7 30" | (c) "b = demo_up ''c'' StatusOffline 50 100"
    by (simp only: list.set insert_iff empty_iff) blast
  then have "b = demo_up ''b'' StatusDegraded 7 30"
  proof cases
    case a
    have "less_degraded (demo_up ''b'' StatusDegraded 7 30) b"
      by (simp add: less_degraded_def a)
    with b(3) show ?thesis by simp
  next
    case c
    with b(2) show ?thesis by simp
  qed
  then show ?thesis unfolding b(4) by (simp add: neq)
qed

text \<open>Two routes have the same signature exactly when they have the same next hops, weights
  included, up to order: the periodic reconciliation skips the write only when the installed
  route is the wanted one (for identifiers, gateways and device names without the two
  separator bytes), and no signature equals the mark of an empty route.\<close>

theorem signature_identifies_route:
  assumes "list_all plain_nexthop nhs" and "list_all plain_nexthop nhs'"
  shows "(routeSignature nhs = routeSignature nhs'
           \<longleftrightarrow> mset (map route_key nhs) = mset (map route_key nhs'))
         \<and> routeSignature nhs \<noteq> emptySig"
proof (intro conjI iffI)
  assume eq: "routeSignature nhs = routeSignature nhs'"
  have "sort (map signature_part nhs) = sort (map signature_part nhs')"
    using assms eq signature_part_chars
    by (intro go_join_comma_inj) (auto simp: routeSignature_def list_all_iff)
  then have "mset (map signature_part nhs) = mset (map signature_part nhs')"
    by (metis mset_sort)
  then show "mset (map route_key nhs) = mset (map route_key nhs')"
    by (rule mset_map_inject_on) (use assms in \<open>auto simp: list_all_iff intro: signature_part_inj\<close>)
next
  define part where "part k = (case k of (i, g, f, w) \<Rightarrow> i @ ''|'' @ g @ ''|'' @ f @ ''|'' @ itoa w)"
    for k :: "string \<times> string \<times> string \<times> int"
  have part: "signature_part = part \<circ> route_key"
    by (auto simp: part_def route_key_def signature_part_def)
  assume "mset (map route_key nhs) = mset (map route_key nhs')"
  then have "mset (map signature_part nhs) = mset (map signature_part nhs')"
    unfolding part by (simp only: mset_map image_mset.compositionality [symmetric])
  then show "routeSignature nhs = routeSignature nhs'"
    by (simp only: routeSignature_def sorted_list_of_multiset_mset [symmetric])
next
  show "routeSignature nhs \<noteq> emptySig"
  proof (cases nhs)
    case (Cons n ns)
    have "CHR ''|'' \<in> set (routeSignature nhs)"
      unfolding routeSignature_def
      by (rule go_join_chars [of "signature_part n"]) (simp_all only: Cons set_sort, simp_all add: signature_part_def)
    then show ?thesis by (auto simp: emptySig_def)
  qed (simp add: routeSignature_def emptySig_def)
qed

definition demo_nexthop :: "string \<Rightarrow> int \<Rightarrow> nexthop" where
  "demo_nexthop i w = (toNexthop (demo_link i StatusOnline))\<lparr>nh_Weight := w\<rparr>"

theorem signature_identifies_route_witness:
  "routeSignature [demo_nexthop ''a'' 256, demo_nexthop ''b'' 1]
     = routeSignature [demo_nexthop ''b'' 1, demo_nexthop ''a'' 256]
   \<and> routeSignature [demo_nexthop ''a'' 256] \<noteq> routeSignature [demo_nexthop ''a'' 255]"
proof -
  have p: "list_all plain_nexthop [demo_nexthop ''a'' 256, demo_nexthop ''b'' 1]"
    "list_all plain_nexthop [demo_nexthop ''b'' 1, demo_nexthop ''a'' 256]"
    "list_all plain_nexthop [demo_nexthop ''a'' 256]" "list_all plain_nexthop [demo_nexthop ''a'' 255]"
    by (simp_all add: demo_nexthop_def plain_nexthop_def plain_def demo_link_def)
  show ?thesis
    by (simp add: signature_identifies_route [OF p(1) p(2), THEN conjunct1] signature_identifies_route [OF p(3) p(4), THEN conjunct1])
      (simp add: route_key_def demo_nexthop_def demo_link_def)
qed

end
