(* ===== verification/RouteArgs.thy ===== *)
theory RouteArgs
  imports RoutePlan
begin

text \<open>
  The command lines of the balancer (\<open>internal/balancer/service.go\<close>): the
  \<open>ip route replace\<close> that installs the multipath route, and the translation of
  \<open>ip route show default\<close> back into the command that restores what it shows, which is
  all an automatic rollback has.  A nil slice of Go is \<open>None\<close>.
\<close>

subsection \<open>Building the command\<close>

definition table_or_default :: "string \<Rightarrow> string" where
  "table_or_default table = (if table = [] then defaultTable else table)"

definition route_prefix :: "string \<Rightarrow> string list" where
  "route_prefix table = [''route'', ''replace'', ''default'', ''table'', table_or_default table]"

definition nexthop_args :: "nexthop \<Rightarrow> string list" where
  "nexthop_args n =
     (let w = (if nh_Weight n < 1 then 1 else nh_Weight n)
      in [''nexthop'', ''via'', nh_Gateway n, ''dev'', nh_Interface n, ''weight'', itoa w, ''onlink''])"

definition buildReplaceArgs :: "string \<Rightarrow> nexthop list \<Rightarrow> string list option" where
  "buildReplaceArgs table nhs =
     (if nhs = [] then None
      else Some (foldl (\<lambda>args n. args @ nexthop_args n) (route_prefix table) nhs))"

subsection \<open>Reading a route back\<close>

record leg =
  leg_via :: string
  leg_dev :: string
  leg_weight :: string
  leg_onlink :: bool

definition empty_leg :: leg where
  "empty_leg = \<lparr>leg_via = [], leg_dev = [], leg_weight = [], leg_onlink = False\<rparr>"

text \<open>
  The loop shared by the two parsers; \<open>weighted\<close> says whether \<open>weight\<close> is a keyword
  (\<open>parseNexthopFields\<close>) or an unknown word (\<open>parseSinglePathFields\<close>).  A keyword consumes
  the next field when there is one.
\<close>

fun scan_leg :: "bool \<Rightarrow> leg \<Rightarrow> string list \<Rightarrow> leg" where
  "scan_leg weighted acc [] = acc"
| "scan_leg weighted acc [k] = (if k = ''onlink'' then acc\<lparr>leg_onlink := True\<rparr> else acc)"
| "scan_leg weighted acc (k # v # rest) =
     (if k = ''via'' then scan_leg weighted (acc\<lparr>leg_via := v\<rparr>) rest
      else if k = ''dev'' then scan_leg weighted (acc\<lparr>leg_dev := v\<rparr>) rest
      else if weighted \<and> k = ''weight'' then scan_leg weighted (acc\<lparr>leg_weight := v\<rparr>) rest
      else if k = ''onlink'' then scan_leg weighted (acc\<lparr>leg_onlink := True\<rparr>) (v # rest)
      else scan_leg weighted acc (v # rest))"

definition parseNexthopFields :: "string list \<Rightarrow> string list option" where
  "parseNexthopFields f =
     (let r = scan_leg True empty_leg f
      in if leg_via r = [] \<or> leg_dev r = [] then None
         else Some ([''nexthop'', ''via'', leg_via r, ''dev'', leg_dev r]
                    @ (if leg_weight r \<noteq> [] then [''weight'', leg_weight r] else [])
                    @ (if leg_onlink r then [''onlink''] else [])))"

definition parseSinglePathFields :: "string list \<Rightarrow> string list option" where
  "parseSinglePathFields f =
     (let r = scan_leg False empty_leg f
      in if leg_via r = [] \<and> leg_dev r = [] then None
         else Some ((if leg_via r \<noteq> [] then [''via'', leg_via r] else [])
                    @ (if leg_dev r \<noteq> [] then [''dev'', leg_dev r] else [])
                    @ (if leg_onlink r then [''onlink''] else [])))"

definition append_leg :: "string list \<Rightarrow> string \<Rightarrow> string list" where
  "append_leg args p =
     (case parseNexthopFields (go_fields p) of Some l \<Rightarrow> args @ l | None \<Rightarrow> args)"

definition restoreArgsFromShow :: "string \<Rightarrow> string \<Rightarrow> string list option" where
  "restoreArgsFromShow show_text table =
     (let flat = go_join (go_fields show_text) '' '';
          prefix_args = route_prefix table
      in if flat = [] then None
         else if str_contains flat ''nexthop'' then
           (let args = foldl append_leg prefix_args (go_split ''nexthop'' flat)
            in if length args = 5 then None else Some args)
         else
           (let f = go_fields flat;
                f' = (if f \<noteq> [] \<and> hd f = ''default'' then tl f else f)
            in case parseSinglePathFields f' of
                 None \<Rightarrow> None
               | Some l \<Rightarrow> Some (prefix_args @ l)))"

subsection \<open>The address of an interface\<close>

fun after_inet :: "string list \<Rightarrow> string option" where
  "after_inet [] = None"
| "after_inet [_] = None"
| "after_inet (k # v # rest) = (if k = ''inet'' then Some v else after_inet (v # rest))"

definition parseInterfaceIPv4 :: "string \<Rightarrow> string" where
  "parseInterfaceIPv4 out =
     (case List.find (\<lambda>line. after_inet (go_fields line) \<noteq> None) (go_split newline out) of
        None \<Rightarrow> []
      | Some line \<Rightarrow>
          (let addr = the (after_inet (go_fields line))
           in case index_of ''/'' addr of Some i \<Rightarrow> take i addr | None \<Rightarrow> addr))"

subsection \<open>Splitting a line of words at a keyword\<close>

definition spaced :: "string list \<Rightarrow> string" where
  "spaced ts = concat (map (\<lambda>t. CHR '' '' # t) ts)"

lemma spaced_simps [simp]:
  "spaced [] = []" "spaced (t # ts) = CHR '' '' # t @ spaced ts" "spaced (xs @ ys) = spaced xs @ spaced ys"
  by (simp_all add: spaced_def)

lemma go_join_spaced: "go_join (t # ts) '' '' = t @ spaced ts"
  by (induction ts arbitrary: t) simp_all

lemma go_fields_spaced: "list_all token ts \<Longrightarrow> go_fields (spaced ts @ ws) = ts @ go_fields ws"
  if "ws = [] \<or> ws = [CHR '' '']" for ts ws
  using that
proof (induction ts)
  case Nil
  then show ?case by (auto simp: go_fields_space)
next
  case (Cons t ts)
  then have t: "token t" by simp
  show ?case
  proof (cases "spaced ts @ ws")
    case Nil
    then have "ts = []" by (cases ts) simp_all
    with t Nil show ?thesis by (simp add: go_fields_space go_fields_token)
  next
    case (Cons c s)
    then have "c = CHR '' ''" using Cons.prems by (cases ts) auto
    with t Cons Cons.IH Cons.prems show ?thesis
      by (simp add: go_fields_space go_fields_token_space)
  qed
qed

lemma index_of_None: "index_of sep s = None \<longleftrightarrow> \<not> sublist sep s"
  by (induction s) (auto simp: sublist_Cons_right)

lemma str_contains_sublist: "str_contains s sep \<longleftrightarrow> sublist sep s"
  by (simp add: str_contains_def index_of_None)

lemma prefix_through_char:
  "c \<notin> set sep \<Longrightarrow> prefix sep (a @ c # b) \<longleftrightarrow> prefix sep a"
  by (auto simp: prefix_append prefix_Cons)

lemma sublist_through_char:
  "c \<notin> set sep \<Longrightarrow> sep \<noteq> [] \<Longrightarrow> sublist sep (a @ c # b) \<longleftrightarrow> sublist sep a \<or> sublist sep b"
proof (induction a)
  case Nil
  then show ?case by (cases sep) (auto simp: sublist_Cons_right)
next
  case (Cons x a)
  then show ?case
    using prefix_through_char [of c sep "x # a" b] by (auto simp: sublist_Cons_right)
qed

lemma index_of_after_char:
  assumes "c \<notin> set sep" and "sep \<noteq> []" and "\<not> sublist sep s"
  shows "index_of sep (s @ c # sep @ r) = Some (Suc (length s))"
  using assms(3)
proof (induction s)
  case Nil
  have "index_of sep (sep @ r) = Some 0" using assms(2) by (cases sep) simp_all
  with assms(1,2) show ?case by (cases sep) auto
next
  case (Cons x s)
  then have "\<not> prefix sep (x # s @ c # sep @ r)"
    using prefix_through_char [OF assms(1), of "x # s" "sep @ r"] by (auto simp: sublist_Cons_right)
  with Cons show ?case by (simp add: sublist_Cons_right)
qed

lemma go_split_step:
  assumes "c \<notin> set sep" and "sep \<noteq> []" and "\<not> sublist sep s"
  shows "go_split sep (s @ c # sep @ r) = (s @ [c]) # go_split sep r"
  by (subst go_split.simps) (simp add: index_of_after_char [OF assms] assms(2))

lemma go_split_last: "sep \<noteq> [] \<Longrightarrow> \<not> sublist sep s \<Longrightarrow> go_split sep s = [s]"
  by (subst go_split.simps) (simp add: index_of_None [symmetric])

definition free_of :: "string \<Rightarrow> string list \<Rightarrow> bool" where
  "free_of sep ts \<longleftrightarrow> list_all (\<lambda>t. \<not> sublist sep t) ts"

lemma free_of_simps [simp]:
  "free_of sep []" "free_of sep (t # ts) \<longleftrightarrow> \<not> sublist sep t \<and> free_of sep ts"
  "free_of sep (xs @ ys) \<longleftrightarrow> free_of sep xs \<and> free_of sep ys"
  by (simp_all add: free_of_def)

lemma sublist_spaced:
  assumes "CHR '' '' \<notin> set sep" and "sep \<noteq> []"
  shows "sublist sep (t @ spaced ts) \<longleftrightarrow> sublist sep t \<or> \<not> free_of sep ts"
proof (induction ts arbitrary: t)
  case (Cons u ts)
  then show ?case by (simp add: sublist_through_char [OF assms])
qed simp

text \<open>The text of a route: a header, then legs that each follow the keyword.\<close>

fun keyed :: "string \<Rightarrow> string list list \<Rightarrow> string list" where
  "keyed sep [] = []"
| "keyed sep (b # bs) = sep # b @ keyed sep bs"

lemma go_fields_line:
  assumes "t = [] \<or> token t" and "list_all token ts" and "ws = [] \<or> ws = [CHR '' '']"
  shows "go_fields (t @ spaced ts @ ws) = (if t = [] then ts else t # ts)"
proof (cases "t = []")
  case True
  then show ?thesis using go_fields_spaced [OF assms(3,2)] assms(3) by (auto simp: go_fields_space)
next
  case False
  with assms(1) have t: "token t" by simp
  show ?thesis
  proof (cases "spaced ts @ ws")
    case Nil
    then have "ts = []" by (cases ts) simp_all
    with Nil t False show ?thesis by (simp add: go_fields_token)
  next
    case (Cons c s)
    then have "c = CHR '' ''" using assms(3) by (cases ts) auto
    with t Cons have "go_fields (t @ spaced ts @ ws) = t # go_fields (spaced ts @ ws)"
      by (simp add: go_fields_token_space go_fields_space)
    then show ?thesis
      using False go_fields_spaced [OF assms(3,2)] assms(3) by (auto simp: go_fields_space)
  qed
qed

lemma go_split_keyed:
  assumes "CHR '' '' \<notin> set sep" and "sep \<noteq> []"
    and "t = [] \<or> token t" and "\<not> sublist sep t" and "list_all token ts" and "free_of sep ts"
    and "list_all (list_all token) bs" and "list_all (free_of sep) bs"
  shows "map go_fields (go_split sep (t @ spaced (ts @ keyed sep bs)))
           = (if t = [] then ts else t # ts) # bs"
  using assms(3-8)
proof (induction bs arbitrary: t ts)
  case Nil
  have "\<not> sublist sep (t @ spaced ts)"
    using Nil.prems by (simp add: sublist_spaced [OF assms(1,2)])
  with Nil.prems go_fields_line [of t ts "[]"] show ?case
    by (simp add: go_split_last [OF assms(2)])
next
  case (Cons b bs)
  have "\<not> sublist sep (t @ spaced ts)"
    using Cons.prems by (simp add: sublist_spaced [OF assms(1,2)])
  then have "go_split sep (t @ spaced (ts @ keyed sep (b # bs)))
      = (t @ spaced ts @ '' '') # go_split sep ([] @ spaced (b @ keyed sep bs))"
    using go_split_step [OF assms(1,2), of "t @ spaced ts" "spaced (b @ keyed sep bs)"] by simp
  moreover have "go_fields (t @ spaced ts @ '' '') = (if t = [] then ts else t # ts)"
    using Cons.prems by (intro go_fields_line) simp_all
  moreover have "\<not> sublist sep []" using assms(2) by simp
  then have "map go_fields (go_split sep ([] @ spaced (b @ keyed sep bs))) = b # bs"
    using Cons.IH [of "[]" b] Cons.prems by simp
  ultimately show ?case by (simp only: list.map)
qed

subsection \<open>The legs of a route\<close>

lemma scan_leg_plain:
  assumes "list_all (\<lambda>k. k \<notin> {''via'', ''dev'', ''weight'', ''onlink''}) ws"
  shows "scan_leg weighted acc ws = acc"
  using assms by (induction weighted acc ws rule: scan_leg.induct) auto

lemma scan_leg_no_via:
  "''via'' \<notin> set ws \<Longrightarrow> leg_via (scan_leg weighted acc ws) = leg_via acc"
  by (induction weighted acc ws rule: scan_leg.induct) auto

text \<open>One leg as the kernel prints it: the words of the command, then flags.\<close>

definition shown_leg :: "nexthop \<times> string list \<Rightarrow> string list" where
  "shown_leg le = nexthop_args (fst le) @ snd le"

lemma parse_shown_leg:
  assumes "list_all (\<lambda>k. k \<notin> {''via'', ''dev'', ''weight'', ''onlink''}) flags"
    and "nh_Gateway n \<noteq> []" and "nh_Interface n \<noteq> []"
  shows "parseNexthopFields (tl (shown_leg (n, flags))) = Some (nexthop_args n)"
proof -
  have "itoa i \<noteq> []" for i by (rule token_not_Nil) simp
  moreover have "scan_leg True acc (''onlink'' # flags) = acc\<lparr>leg_onlink := True\<rparr>" for acc
    using assms(1) by (cases flags) (simp_all add: scan_leg_plain)
  ultimately show ?thesis
    using assms(2,3)
    by (simp add: shown_leg_def nexthop_args_def Let_def parseNexthopFields_def empty_leg_def)
qed

lemma nexthop_args_split: "nexthop_args n = ''nexthop'' # tl (nexthop_args n)"
  by (simp add: nexthop_args_def Let_def)

lemma length_buildReplaceArgs:
  "length (foldl (\<lambda>args n. args @ nexthop_args n) xs nhs) = length xs + 8 * length nhs"
  by (induction nhs arbitrary: xs) (simp_all add: nexthop_args_def Let_def)

text \<open>
  What the command of a leg needs to survive the trip: words without the keyword inside,
  and flags that are not keywords.
\<close>

definition showable :: "nexthop \<times> string list \<Rightarrow> bool" where
  "showable le \<longleftrightarrow>
     \<not> sublist ''nexthop'' (nh_Gateway (fst le)) \<and> \<not> sublist ''nexthop'' (nh_Interface (fst le))
     \<and> free_of ''nexthop'' (snd le)
     \<and> list_all (\<lambda>k. k \<notin> {''via'', ''dev'', ''weight'', ''onlink''}) (snd le)"

lemma sublist_set: "sublist xs ys \<Longrightarrow> set xs \<subseteq> set ys"
  by (auto simp: sublist_def)

lemma itoa_no_keyword: "\<not> sublist ''nexthop'' (itoa i)"
proof
  assume "sublist ''nexthop'' (itoa i)"
  then have "CHR ''n'' \<in> set (itoa i)" by (auto dest: sublist_set)
  then show False by (auto dest!: itoa_chars simp: is_digit_def)
qed

lemma sublist_longer: "length ys < length xs \<Longrightarrow> \<not> sublist xs ys"
  by (auto simp: sublist_def)

lemma showable_free: "showable le \<Longrightarrow> free_of ''nexthop'' (tl (shown_leg le))"
  by (simp add: showable_def shown_leg_def nexthop_args_def Let_def itoa_no_keyword sublist_longer)

lemma shown_legs_keyed:
  "concat (map shown_leg legs) = keyed ''nexthop'' (map (tl \<circ> shown_leg) legs)"
  by (induction legs) (simp_all add: shown_leg_def nexthop_args_def Let_def)

lemma append_legs:
  "foldl append_leg args ps
     = foldl (\<lambda>args f. case parseNexthopFields f of Some l \<Rightarrow> args @ l | None \<Rightarrow> args) args (map go_fields ps)"
  by (induction ps arbitrary: args) (simp_all add: append_leg_def)

lemma parse_shown_legs:
  assumes "list_all showable legs" and "list_all (\<lambda>le. nh_Gateway (fst le) \<noteq> [] \<and> nh_Interface (fst le) \<noteq> []) legs"
  shows "foldl (\<lambda>args f. case parseNexthopFields f of Some l \<Rightarrow> args @ l | None \<Rightarrow> args) args
           (map (tl \<circ> shown_leg) legs)
         = foldl (\<lambda>args n. args @ nexthop_args n) args (map fst legs)"
  using assms
proof (induction legs arbitrary: args)
  case (Cons le legs)
  obtain n flags where le: "le = (n, flags)" by fastforce
  with Cons.prems have "parseNexthopFields (tl (shown_leg le)) = Some (nexthop_args n)"
    by (simp only: le) (rule parse_shown_leg, simp_all add: showable_def)
  with Cons le show ?case by simp
qed simp

lemma restore_flat:
  assumes "go_fields show_text = h # ws"
  shows "go_join (go_fields show_text) '' '' = h @ spaced ws"
    and "token h" and "list_all token ws"
  using assms go_fields_tokens [of _ show_text] by (simp_all add: go_join_spaced list_all_iff)

subsection \<open>Properties\<close>

text \<open>An automatic rollback restores what it captured: when \<open>ip route show\<close> prints the
  multipath route of some next hops, in any layout and with any flags after each leg, the
  command rebuilt from that text is exactly the command that installs those next hops.\<close>

theorem restore_of_shown_multipath:
  assumes "go_fields show_text = h # hs @ concat (map shown_leg legs)"
    and "legs \<noteq> []" and "''via'' \<notin> set (h # hs)" and "free_of ''nexthop'' (h # hs)"
    and "list_all showable legs"
  shows "restoreArgsFromShow show_text table = buildReplaceArgs table (map fst legs)"
proof -
  let ?bs = "map (tl \<circ> shown_leg) legs" and ?pre = "route_prefix table"
  note flat = restore_flat [OF assms(1)] and key = shown_legs_keyed [of legs]
  have tok: "list_all token hs" "list_all token (concat (map shown_leg legs))"
    using flat(3) by simp_all
  have bodies: "list_all (list_all token) ?bs"
    using tok(2) by (simp add: list_all_iff) (blast dest: in_set_tl)
  have nonempty: "list_all (\<lambda>le. nh_Gateway (fst le) \<noteq> [] \<and> nh_Interface (fst le) \<noteq> []) legs"
  proof -
    have "token (nh_Gateway (fst le)) \<and> token (nh_Interface (fst le))" if "le \<in> set legs" for le
    proof -
      have "list_all token (shown_leg le)" using tok(2) that by (auto simp: list_all_iff)
      then show ?thesis by (simp add: shown_leg_def nexthop_args_def Let_def)
    qed
    then show ?thesis by (simp add: list_all_iff token_not_Nil)
  qed
  have free: "list_all (free_of ''nexthop'') ?bs"
    using assms(5) showable_free by (simp add: list_all_iff)
  have head: "parseNexthopFields (h # hs) = None"
    using scan_leg_no_via [OF assms(3)] by (simp add: parseNexthopFields_def empty_leg_def Let_def)
  have fields: "map go_fields (go_split ''nexthop'' (h @ spaced (hs @ concat (map shown_leg legs))))
      = (h # hs) # ?bs"
    unfolding key
    by (subst go_split_keyed) (use flat(2) tok(1) assms(4) bodies free token_not_Nil [OF flat(2)] in simp_all)
  have "foldl append_leg ?pre (go_split ''nexthop'' (h @ spaced (hs @ concat (map shown_leg legs))))
      = foldl (\<lambda>args n. args @ nexthop_args n) ?pre (map fst legs)"
    unfolding append_legs fields using parse_shown_legs [OF assms(5) nonempty] by (simp add: head)
  moreover have "str_contains (h @ spaced (hs @ concat (map shown_leg legs))) ''nexthop''"
    unfolding key str_contains_sublist
    by (subst sublist_spaced) (use assms(2) in \<open>cases legs; simp\<close>)+
  moreover have "length (foldl (\<lambda>args n. args @ nexthop_args n) ?pre (map fst legs)) \<noteq> 5"
    using assms(2) by (simp add: length_buildReplaceArgs route_prefix_def)
  ultimately show ?thesis
    using assms(2) token_not_Nil [OF flat(2)]
    by (simp add: restoreArgsFromShow_def flat(1) buildReplaceArgs_def Let_def)
qed

definition demo_show :: string where
  "demo_show = go_join [''default'', ''proto'', ''static'', ''nexthop'', ''via'', ''a'', ''dev'', ''a'',
     ''weight'', ''256'', ''onlink'', ''nexthop'', ''via'', ''b'', ''dev'', ''b'',
     ''weight'', ''1'', ''onlink'', ''linkdown''] '' ''"

lemma demo_show_fields:
  "go_fields demo_show = [''default'', ''proto'', ''static'', ''nexthop'', ''via'', ''a'', ''dev'', ''a'',
     ''weight'', ''256'', ''onlink'', ''nexthop'', ''via'', ''b'', ''dev'', ''b'',
     ''weight'', ''1'', ''onlink'', ''linkdown'']"
  unfolding demo_show_def by (rule go_fields_join) (simp add: token_def is_space_def)

theorem restore_of_shown_multipath_witness:
  "restoreArgsFromShow demo_show []
     = Some [''route'', ''replace'', ''default'', ''table'', ''main'',
             ''nexthop'', ''via'', ''a'', ''dev'', ''a'', ''weight'', ''256'', ''onlink'',
             ''nexthop'', ''via'', ''b'', ''dev'', ''b'', ''weight'', ''1'', ''onlink'']"
proof -
  let ?legs = "[(demo_nexthop ''a'' 256, []), (demo_nexthop ''b'' 1, [''linkdown''])]"
  have legs: "concat (map shown_leg ?legs) = [''nexthop'', ''via'', ''a'', ''dev'', ''a'',
     ''weight'', ''256'', ''onlink'', ''nexthop'', ''via'', ''b'', ''dev'', ''b'',
     ''weight'', ''1'', ''onlink'', ''linkdown'']"
    by (simp add: shown_leg_def nexthop_args_def Let_def demo_nexthop_def demo_link_def itoa_def
        nat_digits.simps [of 256] nat_digits.simps [of 25] nat_digits.simps [of 2] nat_digits.simps [of "Suc 0"] digit_chars)
  have "restoreArgsFromShow demo_show [] = buildReplaceArgs [] (map fst ?legs)"
  proof (rule restore_of_shown_multipath [where h = "''default''" and hs = "[''proto'', ''static'']"])
    show "go_fields demo_show = ''default'' # [''proto'', ''static''] @ concat (map shown_leg ?legs)"
      unfolding demo_show_fields legs by simp
    show "list_all showable ?legs"
      by (simp add: showable_def demo_nexthop_def demo_link_def sublist_longer sublist_code)
  qed (simp_all add: sublist_longer sublist_code)
  then show ?thesis
    by (simp add: buildReplaceArgs_def route_prefix_def table_or_default_def defaultTable_def
        nexthop_args_def Let_def demo_nexthop_def demo_link_def itoa_def
        nat_digits.simps [of 256] nat_digits.simps [of 25] nat_digits.simps [of 2] nat_digits.simps [of "Suc 0"] digit_chars)
qed

text \<open>A single-path route as the kernel prints it.\<close>

definition shown_default :: "string \<times> string \<times> string list \<Rightarrow> string list" where
  "shown_default r = (case r of (gw, dev, flags) \<Rightarrow> [''default'', ''via'', gw, ''dev'', dev] @ flags)"

lemma scan_flags:
  "''via'' \<notin> set flags \<Longrightarrow> ''dev'' \<notin> set flags \<Longrightarrow>
   scan_leg False acc (flags @ ys)
     = scan_leg False (acc\<lparr>leg_onlink := leg_onlink acc \<or> ''onlink'' \<in> set flags\<rparr>) ys"
proof (induction flags arbitrary: acc)
  case (Cons k flags)
  then have "scan_leg False acc (k # flags @ ys)
      = scan_leg False (if k = ''onlink'' then acc\<lparr>leg_onlink := True\<rparr> else acc) (flags @ ys)"
    by (cases "flags @ ys") auto
  with Cons show ?case by auto
qed simp

lemma scan_shown_default:
  assumes "''via'' \<notin> set flags" and "''dev'' \<notin> set flags"
  shows "scan_leg False acc (shown_default (gw, dev, flags) @ ys)
       = scan_leg False (acc\<lparr>leg_via := gw, leg_dev := dev,
           leg_onlink := leg_onlink acc \<or> ''onlink'' \<in> set flags\<rparr>) ys"
  by (simp add: shown_default_def scan_flags [OF assms] del: scan_leg.simps(3))
    (simp add: scan_flags [OF assms])

lemma scan_shown_defaults:
  assumes "rs \<noteq> []"
    and "list_all (\<lambda>r. ''via'' \<notin> set (snd (snd r)) \<and> ''dev'' \<notin> set (snd (snd r))) rs"
  shows "scan_leg False acc (concat (map shown_default rs))
     = acc\<lparr>leg_via := fst (last rs), leg_dev := fst (snd (last rs)),
         leg_onlink := leg_onlink acc \<or> (\<exists>r \<in> set rs. ''onlink'' \<in> set (snd (snd r)))\<rparr>"
  using assms
proof (induction rs arbitrary: acc)
  case (Cons r rs)
  obtain gw dev flags where r: "r = (gw, dev, flags)" by (cases r)
  with Cons.prems(2) have "scan_leg False acc (concat (map shown_default (r # rs)))
      = scan_leg False (acc\<lparr>leg_via := gw, leg_dev := dev,
           leg_onlink := leg_onlink acc \<or> ''onlink'' \<in> set flags\<rparr>) (concat (map shown_default rs))"
    using scan_shown_default [of flags acc gw dev] by simp
  also have "\<dots> = acc\<lparr>leg_via := fst (last (r # rs)), leg_dev := fst (snd (last (r # rs))),
         leg_onlink := leg_onlink acc \<or> (\<exists>r \<in> set (r # rs). ''onlink'' \<in> set (snd (snd r)))\<rparr>"
  proof (cases "rs = []")
    case False
    with Cons.IH Cons.prems(2) r show ?thesis by simp
  qed (simp add: r)
  finally show ?case .
qed simp

lemma scan_leg_default: "scan_leg False acc (''default'' # ws) = scan_leg False acc ws"
  by (cases ws) simp_all

text \<open>A rollback of single-path defaults keeps only the last one shown: with several default
  routes in the table (one per DHCP interface, told apart by metric), the restoring command
  has the gateway and device of the last, and no metric.\<close>

theorem restore_of_single_paths:
  assumes "go_fields show_text = concat (map shown_default rs)" and "rs \<noteq> []"
    and "free_of ''nexthop'' (go_fields show_text)"
    and "list_all (\<lambda>r. ''via'' \<notin> set (snd (snd r)) \<and> ''dev'' \<notin> set (snd (snd r))) rs"
  shows "restoreArgsFromShow show_text table =
    Some ([''route'', ''replace'', ''default'', ''table'', if table = [] then ''main'' else table,
           ''via'', fst (last rs), ''dev'', fst (snd (last rs))]
          @ (if \<exists>r \<in> set rs. ''onlink'' \<in> set (snd (snd r)) then [''onlink''] else []))"
proof -
  obtain ws where ws: "go_fields show_text = ''default'' # ws"
    using assms(1,2) by (cases rs) (auto simp: shown_default_def split: prod.splits)
  note flat = restore_flat [OF ws]
  have "\<not> str_contains (''default'' @ spaced ws) ''nexthop''"
    unfolding str_contains_sublist using assms(3) ws by (subst sublist_spaced) simp_all
  moreover have "go_fields (''default'' @ spaced ws) = ''default'' # ws"
    using go_fields_line [of "''default''" ws "[]"] flat(2,3) by simp
  moreover have "scan_leg False empty_leg ws = empty_leg\<lparr>leg_via := fst (last rs),
      leg_dev := fst (snd (last rs)), leg_onlink := (\<exists>r \<in> set rs. ''onlink'' \<in> set (snd (snd r)))\<rparr>"
    using scan_shown_defaults [OF assms(2,4), of empty_leg]
    unfolding assms(1) [symmetric] ws scan_leg_default by (simp add: empty_leg_def)
  moreover have "token (fst (last rs)) \<and> token (fst (snd (last rs)))"
  proof -
    have "set (shown_default (last rs)) \<subseteq> set (go_fields show_text)"
      unfolding assms(1) using last_in_set [OF assms(2)] by (simp only: set_concat set_map) blast
    then show ?thesis
      using go_fields_tokens [of _ show_text]
      by (cases "last rs") (simp add: shown_default_def)
  qed
  ultimately show ?thesis
    using token_not_Nil
    by (simp add: restoreArgsFromShow_def flat(1) Let_def parseSinglePathFields_def route_prefix_def
        table_or_default_def defaultTable_def)
qed

theorem restore_of_single_paths_witness:
  "restoreArgsFromShow (go_join [''default'', ''via'', ''gw1'', ''dev'', ''eth0'', ''metric'', ''100'',
       ''default'', ''via'', ''gw2'', ''dev'', ''eth1'', ''metric'', ''200''] '' '') ''main''
     = Some [''route'', ''replace'', ''default'', ''table'', ''main'', ''via'', ''gw2'', ''dev'', ''eth1'']"
proof -
  let ?ws = "[''default'', ''via'', ''gw1'', ''dev'', ''eth0'', ''metric'', ''100'',
       ''default'', ''via'', ''gw2'', ''dev'', ''eth1'', ''metric'', ''200'']"
  let ?rs = "[(''gw1'', ''eth0'', [''metric'', ''100'']), (''gw2'', ''eth1'', [''metric'', ''200''])]"
  have fields: "go_fields (go_join ?ws '' '') = ?ws"
    by (rule go_fields_join) (simp add: token_def is_space_def)
  have "restoreArgsFromShow (go_join ?ws '' '') ''main'' =
    Some ([''route'', ''replace'', ''default'', ''table'', if ''main'' = [] then ''main'' else ''main'',
           ''via'', fst (last ?rs), ''dev'', fst (snd (last ?rs))]
          @ (if \<exists>r \<in> set ?rs. ''onlink'' \<in> set (snd (snd r)) then [''onlink''] else []))"
  proof (rule restore_of_single_paths)
    show "go_fields (go_join ?ws '' '') = concat (map shown_default ?rs)"
      unfolding fields by (simp add: shown_default_def)
    show "free_of ''nexthop'' (go_fields (go_join ?ws '' ''))"
      unfolding fields by (simp add: sublist_longer sublist_code)
  qed simp_all
  then show ?thesis by (simp only: list.sel last.simps fst_conv snd_conv) simp
qed

end
