(* ===== verification/Balancer.thy ===== *)
theory Balancer
  imports RouteArgs
begin

text \<open>
  The balancer service (\<open>internal/balancer/service.go\<close>): planning, applying, confirming and
  rolling back the multipath default route, the periodic reconciliation, scheduled weights
  and the eviction of flows from a degraded link.

  The service is one record, its database columns included; every method is a function from
  the record to the record and Go's error.  Commands and alerts are appended to \<open>b_log\<close> in
  the order the code issues them, and the executor and the database are parameters
  (\<open>bal_env\<close>): what a command answers may depend on everything logged before it.  Instants and
  durations are integer nanoseconds.  The critical sections of \<open>Apply\<close> and \<open>Rebuild\<close> are definitions
  of their own, which BalancerThreads interleaves; the callback of a timer is two steps, since it
  can wait for the lock while another method runs.
\<close>

subsection \<open>Configuration\<close>

definition ModeFailover :: string where "ModeFailover = ''failover''"
definition ModeBalance :: string where "ModeBalance = ''balance''"
definition defaultArmSecs :: int where "defaultArmSecs = 90"
definition defaultSustainSamples :: int where "defaultSustainSamples = 3"
definition defaultEvictCooldownSecs :: int where "defaultEvictCooldownSecs = 120"

record schedule =
  sc_ID :: string
  sc_Name :: string
  sc_Enabled :: bool
  sc_Days :: "int list"
  sc_At :: string
  sc_Weights :: "(string \<times> int) list"

record config =
  cf_Mode :: string
  cf_Table :: string
  cf_ArmSeconds :: int
  cf_Schedules :: "schedule list option"
  cf_EvictOnDegrade :: bool
  cf_DegradedSustainSamples :: int
  cf_EvictCooldownSecs :: int

definition normalize_config :: "config \<Rightarrow> config" where
  "normalize_config c =
     c\<lparr>cf_Mode := (if cf_Mode c \<noteq> ModeBalance then ModeFailover else cf_Mode c),
       cf_Table := (if cf_Table c = [] then defaultTable else cf_Table c),
       cf_ArmSeconds := (if cf_ArmSeconds c \<le> 0 then defaultArmSecs else cf_ArmSeconds c),
       cf_DegradedSustainSamples :=
         (if cf_DegradedSustainSamples c \<le> 0 then defaultSustainSamples else cf_DegradedSustainSamples c),
       cf_EvictCooldownSecs :=
         (if cf_EvictCooldownSecs c \<le> 0 then defaultEvictCooldownSecs else cf_EvictCooldownSecs c),
       cf_Schedules := (case cf_Schedules c of None \<Rightarrow> Some [] | Some s \<Rightarrow> Some s)\<rparr>"

subsection \<open>State\<close>

datatype bal_effect =
    Ran "string list" bool
  | AlertNoWAN
  | AlertWANBack int
  | AlertLinkOffline string
  | AlertLinkOnline string
  | AlertLinkDegraded string real real
  | AlertFailover string
  | AlertScheduleFailed string
  | AlertRollbackFailed
  | AlertRolledBack
  | TriggerAI string

datatype bal_error =
    ListFailed
  | NoWANOnline
  | ApplyFailed
  | NoUpInterfaces
  | RebuildFailed
  | NothingPending
  | NothingToRestore
  | RestoreFailed
  | UpdateFailed string

record pending_rollback =
  pr_restore :: "string list"
  pr_timer :: nat
  pr_expiry :: int

record balancer =
  b_links :: "link list"
  b_config :: config
  b_pending :: "pending_rollback option"
  b_timers :: "(nat \<times> string list) list"
  b_running :: "string list list"
  b_nextTimer :: nat
  b_lastFired :: "string \<Rightarrow> string option"
  b_lastSig :: string
  b_evictCooldown :: "string \<Rightarrow> int option"
  b_log :: "bal_effect list"

text \<open>
  \<open>ex_run\<close> and \<open>ex_read\<close> are \<open>Execute\<close> and \<open>ExecuteRead\<close> (a read returns its output even
  with an error), \<open>ex_linksOk\<close> and \<open>ex_getOk\<close> whether the queries of links succeed, \<open>ex_storeOk\<close>
  whether an update passes the address checks of \<open>validateLink\<close> and is stored.
\<close>

record bal_env =
  ex_run :: "bal_effect list \<Rightarrow> string list \<Rightarrow> bool"
  ex_read :: "bal_effect list \<Rightarrow> string list \<Rightarrow> string \<times> bool"
  ex_linksOk :: bool
  ex_getOk :: "string \<Rightarrow> bool"
  ex_storeOk :: "link \<Rightarrow> bool"
  ex_ai :: bool

definition emit :: "bal_effect \<Rightarrow> balancer \<Rightarrow> balancer" where
  "emit e b = b\<lparr>b_log := b_log b @ [e]\<rparr>"

definition execute :: "bal_env \<Rightarrow> string list \<Rightarrow> balancer \<Rightarrow> balancer \<times> bool" where
  "execute env cmd b = (let ok = ex_run env (b_log b) cmd in (emit (Ran cmd ok) b, ok))"

definition LoadConfig :: "balancer \<Rightarrow> config" where
  "LoadConfig b = normalize_config (b_config b)"

definition SaveConfig :: "config \<Rightarrow> balancer \<Rightarrow> balancer" where
  "SaveConfig c b = b\<lparr>b_config := normalize_config c\<rparr>"

definition Active :: "balancer \<Rightarrow> bool" where
  "Active b \<longleftrightarrow> cf_Mode (LoadConfig b) = ModeBalance"

subsection \<open>Planning\<close>

record plan =
  pl_Mode :: string
  pl_Table :: string
  pl_Nexthops :: "nexthop list"
  pl_Excluded :: "nexthop list"
  pl_Command :: string
  pl_CurrentDefault :: string
  pl_Pending :: bool
  pl_PendingExpiry :: int
  pl_ArmSeconds :: int

definition currentDefault :: "bal_env \<Rightarrow> balancer \<Rightarrow> string \<Rightarrow> string \<times> bool" where
  "currentDefault env b table =
     (let (out, ok) = ex_read env (b_log b)
            [''ip'', ''route'', ''show'', ''default'', ''table'', table]
      in (trim_space out, ok))"

definition read_up :: "bal_env \<Rightarrow> balancer \<Rightarrow> (string \<Rightarrow> bool) option" where
  "read_up env b =
     (let (out, ok) = ex_read env (b_log b) [''ip'', ''-br'', ''link'', ''show'']
      in upInterfaces (if ok then Some out else None))"

definition planWith :: "bal_env \<Rightarrow> balancer \<Rightarrow> config \<Rightarrow> plan option" where
  "planWith env b cfg =
     (if \<not> ex_linksOk env then None
      else let (chosen, excluded) = selectNexthops (b_links b) (read_up env b)
           in Some \<lparr>pl_Mode = cf_Mode cfg, pl_Table = cf_Table cfg,
                    pl_Nexthops = chosen, pl_Excluded = excluded,
                    pl_Command = (case buildReplaceArgs (cf_Table cfg) chosen of
                                    None \<Rightarrow> [] | Some args \<Rightarrow> ''ip '' @ go_join args '' ''),
                    pl_CurrentDefault = fst (currentDefault env b (cf_Table cfg)),
                    pl_Pending = (b_pending b \<noteq> None),
                    pl_PendingExpiry = (case b_pending b of None \<Rightarrow> 0
                                        | Some p \<Rightarrow> pr_expiry p div 1000000000),
                    pl_ArmSeconds = cf_ArmSeconds cfg\<rparr>)"

definition captureRestore :: "bal_env \<Rightarrow> balancer \<Rightarrow> string \<Rightarrow> string list option" where
  "captureRestore env b table =
     (let (raw, ok) = currentDefault env b table
      in if \<not> ok \<or> trim_space raw = [] then None else restoreArgsFromShow raw table)"

subsection \<open>Applying, confirming, rolling back\<close>

definition cancelPending :: "balancer \<Rightarrow> balancer \<times> bool" where
  "cancelPending b =
     (case b_pending b of
        None \<Rightarrow> (b, False)
      | Some p \<Rightarrow> (b\<lparr>b_pending := None,
                     b_timers := filter (\<lambda>t. fst t \<noteq> pr_timer p) (b_timers b)\<rparr>, True))"

definition armRollback :: "string list \<Rightarrow> int \<Rightarrow> int \<Rightarrow> balancer \<Rightarrow> balancer" where
  "armRollback restore now d b =
     b\<lparr>b_timers := b_timers b @ [(b_nextTimer b, restore)],
       b_pending := Some \<lparr>pr_restore = restore, pr_timer = b_nextTimer b, pr_expiry = now + d\<rparr>,
       b_nextTimer := Suc (b_nextTimer b)\<rparr>"

definition restore_route :: "bal_env \<Rightarrow> string list \<Rightarrow> balancer \<Rightarrow> balancer \<times> bal_error option" where
  "restore_route env args b =
     (if args = [] then (b, Some NothingToRestore)
      else let (b1, ok) = execute env (''ip'' # args) b
           in (b1, if ok then None else Some RestoreFailed))"

text \<open>
  \<open>Apply\<close> holds no lock while it runs \<open>ip\<close>.  Its critical sections are separate steps: the command
  (\<open>Apply_run\<close>), the signature under \<open>rebuildMu\<close> (\<open>Apply_sign\<close>), and the rollback under \<open>mu\<close>
  (\<open>Apply_arm\<close>); what another goroutine does between them is the subject of BalancerThreads.
\<close>

record applying =
  ap_config :: config
  ap_plan :: plan
  ap_backup :: "string list option"

definition Apply_run :: "bal_env \<Rightarrow> balancer \<Rightarrow> balancer \<times> ((plan option \<times> bal_error) + applying)" where
  "Apply_run env b =
     (let cfg = LoadConfig b
      in case planWith env b cfg of
           None \<Rightarrow> (b, Inl (None, ListFailed))
         | Some p \<Rightarrow>
             (case buildReplaceArgs (cf_Table cfg) (pl_Nexthops p) of
                None \<Rightarrow> (b, Inl (Some p, NoWANOnline))
              | Some args \<Rightarrow>
                  (let backup = captureRestore env b (cf_Table cfg);
                       (b1, ok) = execute env (''ip'' # args) b
                   in if \<not> ok then (b1, Inl (Some p, ApplyFailed))
                      else (b1, Inr \<lparr>ap_config = cfg, ap_plan = p, ap_backup = backup\<rparr>))))"

definition Apply_sign :: "applying \<Rightarrow> balancer \<Rightarrow> balancer" where
  "Apply_sign a b = b\<lparr>b_lastSig := routeSignature (pl_Nexthops (ap_plan a))\<rparr>"

definition Apply_arm ::
  "bal_env \<Rightarrow> int \<Rightarrow> bool \<Rightarrow> applying \<Rightarrow> balancer \<Rightarrow> balancer \<times> plan option \<times> bal_error option" where
  "Apply_arm env now arm a b =
     (let b3 = fst (cancelPending b);
          b4 = (case ap_backup a of
                  Some r \<Rightarrow> if arm then armRollback r now (cf_ArmSeconds (ap_config a) * 1000000000) b3 else b3
                | None \<Rightarrow> b3)
      in case planWith env b4 (ap_config a) of
           None \<Rightarrow> (b4, None, Some ListFailed)
         | Some p' \<Rightarrow> (b4, Some p', None))"

definition Apply ::
  "bal_env \<Rightarrow> int \<Rightarrow> bool \<Rightarrow> balancer \<Rightarrow> balancer \<times> plan option \<times> bal_error option" where
  "Apply env now arm b =
     (case Apply_run env b of
        (b1, Inl (p, e)) \<Rightarrow> (b1, p, Some e)
      | (b1, Inr a) \<Rightarrow> Apply_arm env now arm a (Apply_sign a b1))"

lemmas Apply_defs = Apply_def Apply_run_def Apply_sign_def Apply_arm_def

definition Confirm :: "balancer \<Rightarrow> balancer \<times> bool" where
  "Confirm b = cancelPending b"

definition Rollback :: "bal_env \<Rightarrow> balancer \<Rightarrow> balancer \<times> bal_error option" where
  "Rollback env b =
     (case b_pending b of
        None \<Rightarrow> (b, Some NothingPending)
      | Some p \<Rightarrow> restore_route env (pr_restore p) (fst (cancelPending b)))"

text \<open>
  The timer of \<open>armRollback\<close>: it expires, and its callback runs when it gets the lock.  The
  callback takes whatever rollback is pending and restores the route of its own closure.
\<close>

definition timer_expires :: "nat \<Rightarrow> balancer \<Rightarrow> balancer" where
  "timer_expires i b =
     b\<lparr>b_timers := filter (\<lambda>t. fst t \<noteq> i) (b_timers b),
       b_running := b_running b @ map snd (filter (\<lambda>t. fst t = i) (b_timers b))\<rparr>"

definition timer_callback :: "bal_env \<Rightarrow> string list \<Rightarrow> balancer \<Rightarrow> balancer" where
  "timer_callback env restore b =
     (let b0 = b\<lparr>b_running := remove1 restore (b_running b)\<rparr>
      in case b_pending b0 of
           None \<Rightarrow> b0
         | Some _ \<Rightarrow>
             (let (b1, err) = restore_route env restore (b0\<lparr>b_pending := None\<rparr>)
              in emit (if err = None then AlertRolledBack else AlertRollbackFailed) b1))"

subsection \<open>Reconciliation\<close>

text \<open>What \<open>Rebuild\<close> does under \<open>rebuildMu\<close>, with the configuration it has loaded before.\<close>

definition Rebuild_body :: "bal_env \<Rightarrow> config \<Rightarrow> balancer \<Rightarrow> balancer \<times> bal_error option" where
  "Rebuild_body env cfg b =
     (case planWith env b cfg of
        None \<Rightarrow> (b, Some ListFailed)
      | Some p \<Rightarrow>
          (case buildReplaceArgs (cf_Table cfg) (pl_Nexthops p) of
             None \<Rightarrow>
               if b_lastSig b = emptySig then (b, Some NoUpInterfaces)
               else (emit AlertNoWAN (b\<lparr>b_lastSig := emptySig\<rparr>), Some NoUpInterfaces)
           | Some args \<Rightarrow>
               (let b1 = (if b_lastSig b = emptySig
                          then emit (AlertWANBack (int (length (pl_Nexthops p)))) b else b);
                    sig = routeSignature (pl_Nexthops p)
                in if sig = b_lastSig b1 then (b1, None)
                   else let (b2, ok) = execute env (''ip'' # args) b1
                        in if ok then (b2\<lparr>b_lastSig := sig\<rparr>, None)
                           else (b2, Some RebuildFailed))))"

definition Rebuild :: "bal_env \<Rightarrow> balancer \<Rightarrow> balancer \<times> bal_error option" where
  "Rebuild env b =
     (let cfg = LoadConfig b
      in if cf_Mode cfg \<noteq> ModeBalance then (b, None)
         else if b_pending b \<noteq> None then (b, None)
         else Rebuild_body env cfg b)"

definition OnLinkChange :: "bal_env \<Rightarrow> link \<Rightarrow> string \<Rightarrow> balancer \<Rightarrow> balancer" where
  "OnLinkChange env l newStatus b =
     (let b1 = (if newStatus = StatusOffline then emit (AlertLinkOffline (l_ID l)) b
                else if newStatus = StatusOnline then emit (AlertLinkOnline (l_ID l)) b
                else if newStatus = StatusDegraded
                then emit (AlertLinkDegraded (l_ID l) (l_LatencyMs l) (l_PacketLoss l)) b
                else b);
          b2 = (if ex_ai env \<and> (newStatus = StatusOffline \<or> newStatus = StatusDegraded)
                then emit (TriggerAI (l_ID l)) b1 else b1)
      in fst (Rebuild env b2))"

subsection \<open>Schedules\<close>

definition isValidInterface :: "string \<Rightarrow> bool" where
  "isValidInterface name \<longleftrightarrow>
     name \<noteq> [] \<and> length name \<le> 15
     \<and> list_all (\<lambda>c. (97 \<le> (of_char c :: nat) \<and> (of_char c :: nat) \<le> 122)
                    \<or> (65 \<le> (of_char c :: nat) \<and> (of_char c :: nat) \<le> 90)
                    \<or> is_digit c \<or> c = CHR ''-'' \<or> c = CHR ''_'' \<or> c = CHR ''.'') name"

text \<open>
  \<open>links.Service.Update\<close>: \<open>validateLink\<close>, then the row is stored.  The checks of the two
  addresses and of the DNS name are part of \<open>ex_storeOk\<close>.
\<close>

definition update_link :: "bal_env \<Rightarrow> link \<Rightarrow> balancer \<Rightarrow> balancer \<times> bool" where
  "update_link env l b =
     (if trim_space (l_Name l) = [] \<or> trim_space (l_Interface l) = []
         \<or> \<not> isValidInterface (l_Interface l) \<or> l_Weight l < 0 \<or> l_Weight l > 1000
         \<or> \<not> ex_storeOk env l
      then (b, False)
      else (b\<lparr>b_links := map (\<lambda>x. if l_ID x = l_ID l then l else x) (b_links b)\<rparr>, True))"

fun apply_weights ::
  "bal_env \<Rightarrow> (string \<times> int) list \<Rightarrow> balancer \<Rightarrow> balancer \<times> bal_error option" where
  "apply_weights env [] b = (b, None)"
| "apply_weights env ((i, w) # ws) b =
     (case (if ex_getOk env i then List.find (\<lambda>l. l_ID l = i) (b_links b) else None) of
        None \<Rightarrow> apply_weights env ws b
      | Some l \<Rightarrow>
          (let (b1, ok) = update_link env (l\<lparr>l_Weight := w\<rparr>) b
           in if ok then apply_weights env ws b1 else (b1, Some (UpdateFailed (l_Name l)))))"

definition ApplySchedule :: "bal_env \<Rightarrow> schedule \<Rightarrow> balancer \<Rightarrow> balancer \<times> bal_error option" where
  "ApplySchedule env sch b =
     (let (b1, err) = apply_weights env (sc_Weights sch) b
      in if err \<noteq> None then (b1, err) else Rebuild env b1)"

record clock =
  ck_weekday :: int
  ck_hhmm :: string
  ck_minute :: string

definition fire_schedule :: "bal_env \<Rightarrow> clock \<Rightarrow> schedule \<Rightarrow> balancer \<Rightarrow> balancer" where
  "fire_schedule env ck sch b =
     (if \<not> sc_Enabled sch \<or> sc_At sch \<noteq> ck_hhmm ck \<or> ck_weekday ck \<notin> set (sc_Days sch)
         \<or> b_lastFired b (sc_ID sch) = Some (ck_minute ck)
      then b
      else let (b1, err) = ApplySchedule env sch
                 (b\<lparr>b_lastFired := (b_lastFired b)(sc_ID sch \<mapsto> ck_minute ck)\<rparr>)
           in if err = None then b1 else emit (AlertScheduleFailed (sc_Name sch)) b1)"

definition tick :: "bal_env \<Rightarrow> clock \<Rightarrow> balancer \<Rightarrow> balancer" where
  "tick env ck b =
     foldl (\<lambda>b sch. fire_schedule env ck sch b) b (the (cf_Schedules (LoadConfig b)))"

subsection \<open>Eviction\<close>

definition evictDecision :: "config \<Rightarrow> link \<Rightarrow> link list \<Rightarrow> int option \<Rightarrow> int \<Rightarrow> bool" where
  "evictDecision cfg degraded all cooldownUntil now \<longleftrightarrow>
     cf_EvictOnDegrade cfg
     \<and> \<not> (case cooldownUntil of None \<Rightarrow> False | Some t \<Rightarrow> now < t)
     \<and> list_ex (\<lambda>l. l_ID l \<noteq> l_ID degraded \<and> l_Enabled l \<and> l_Status l = StatusOnline) all"

definition interfaceIPv4 :: "bal_env \<Rightarrow> balancer \<Rightarrow> string \<Rightarrow> string" where
  "interfaceIPv4 env b iface =
     (let (out, ok) = ex_read env (b_log b)
            [''ip'', ''-o'', ''-4'', ''addr'', ''show'', ''dev'', iface, ''scope'', ''global'']
      in if \<not> ok \<or> trim_space out = [] then [] else parseInterfaceIPv4 out)"

definition EvictDegraded :: "bal_env \<Rightarrow> int \<Rightarrow> link \<Rightarrow> balancer \<Rightarrow> balancer" where
  "EvictDegraded env now l b =
     (let cfg = LoadConfig b
      in if cf_Mode cfg \<noteq> ModeBalance \<or> \<not> ex_linksOk env
            \<or> \<not> evictDecision cfg l (b_links b) (b_evictCooldown b (l_ID l)) now
         then b
         else let b1 = fst (Rebuild env b);
                  addr = interfaceIPv4 env b1 (l_Interface l)
              in if addr = [] then b1
                 else let b2 = fst (execute env [''conntrack'', ''-D'', ''-q'', addr] b1)
                      in emit (AlertFailover (l_Name l))
                           (b2\<lparr>b_evictCooldown := (b_evictCooldown b2)
                                 (l_ID l \<mapsto> now + cf_EvictCooldownSecs cfg * 1000000000)\<rparr>))"

subsection \<open>What the operations change\<close>

lemma emit_simps [simp]:
  "b_log (emit e b) = b_log b @ [e]" "b_links (emit e b) = b_links b" "b_config (emit e b) = b_config b"
  "b_pending (emit e b) = b_pending b" "b_timers (emit e b) = b_timers b"
  "b_running (emit e b) = b_running b" "b_nextTimer (emit e b) = b_nextTimer b"
  "b_lastFired (emit e b) = b_lastFired b" "b_lastSig (emit e b) = b_lastSig b"
  "b_evictCooldown (emit e b) = b_evictCooldown b"
  by (simp_all add: emit_def)

lemma execute_eq: "execute env cmd b =
    (emit (Ran cmd (ex_run env (b_log b) cmd)) b, ex_run env (b_log b) cmd)"
  by (simp add: execute_def Let_def)

definition planned :: "bal_env \<Rightarrow> balancer \<Rightarrow> nexthop list" where
  "planned env b = fst (selectNexthops (b_links b) (read_up env b))"

lemma planWith_Some:
  "planWith env b cfg = Some p \<Longrightarrow> pl_Nexthops p = planned env b \<and> ex_linksOk env"
  by (auto simp: planWith_def planned_def split: prod.splits if_splits)

lemma planWith_None: "planWith env b cfg = None \<longleftrightarrow> \<not> ex_linksOk env"
  by (simp add: planWith_def split: prod.splits)

lemma buildReplaceArgs_None [simp]: "buildReplaceArgs t nhs = None \<longleftrightarrow> nhs = []"
  by (simp add: buildReplaceArgs_def)

lemma buildReplaceArgs_Nil [simp]: "buildReplaceArgs t [] = None"
  by (simp add: buildReplaceArgs_def)

lemma routeSignature_Nil_iff: "routeSignature nhs = [] \<longleftrightarrow> nhs = []"
proof
  assume "routeSignature nhs = []"
  then show "nhs = []"
  proof (cases nhs)
    case (Cons n ns)
    have "CHR ''|'' \<in> set (routeSignature nhs)"
      unfolding routeSignature_def
      by (rule go_join_chars [of "signature_part n"]) (simp_all only: Cons set_sort, simp_all add: signature_part_def)
    with \<open>routeSignature nhs = []\<close> show ?thesis by simp
  qed simp
qed (simp add: routeSignature_def)

lemma routeSignature_not_emptySig: "routeSignature nhs \<noteq> emptySig"
proof (cases nhs)
  case (Cons n ns)
  have "CHR ''|'' \<in> set (routeSignature nhs)"
    unfolding routeSignature_def
    by (rule go_join_chars [of "signature_part n"]) (simp_all only: Cons set_sort, simp_all add: signature_part_def)
  then show ?thesis by (auto simp: emptySig_def)
qed (simp add: routeSignature_def emptySig_def)

text \<open>\<open>Rebuild_body\<close> as the four things it can do, and \<open>Rebuild\<close> with its checks.\<close>

lemma Rebuild_body_cases:
  obtains (idle) err where "Rebuild_body env cfg b = (b, err)"
      "err = None \<longrightarrow> b_lastSig b = routeSignature (planned env b) \<and> planned env b \<noteq> []"
  | (empty) "Rebuild_body env cfg b = (emit AlertNoWAN (b\<lparr>b_lastSig := emptySig\<rparr>), Some NoUpInterfaces)"
      "planned env b = []"
  | (route) b1 args where "planned env b \<noteq> []"
      "b_lastSig b \<noteq> routeSignature (planned env b)"
      "buildReplaceArgs (cf_Table cfg) (planned env b) = Some args"
      "b1 = (if b_lastSig b = emptySig
             then emit (AlertWANBack (int (length (planned env b)))) b else b)"
      "Rebuild_body env cfg b =
         (if ex_run env (b_log b1) (''ip'' # args)
          then (emit (Ran (''ip'' # args) True) b1\<lparr>b_lastSig := routeSignature (planned env b)\<rparr>, None)
          else (emit (Ran (''ip'' # args) False) b1, Some RebuildFailed))"
proof (cases "planWith env b cfg")
  case None
  then show thesis by (intro idle [of "Some ListFailed"]) (simp_all add: Rebuild_body_def)
next
  case (Some p)
  then have nh: "pl_Nexthops p = planned env b" by (simp add: planWith_Some)
  show thesis
  proof (cases "buildReplaceArgs (cf_Table cfg) (planned env b)")
    case None
    then have e: "planned env b = []" by simp
    show thesis
    proof (cases "b_lastSig b = emptySig")
      case True
      then show thesis
        using Some None nh by (intro idle [of "Some NoUpInterfaces"]) (simp_all add: Rebuild_body_def)
    next
      case False
      then show thesis using Some None nh e by (intro empty) (simp_all add: Rebuild_body_def)
    qed
  next
    case args: (Some args)
    then have ne: "planned env b \<noteq> []" by (auto simp: buildReplaceArgs_def)
    let ?b1 = "if b_lastSig b = emptySig
         then emit (AlertWANBack (int (length (planned env b)))) b else b"
    show thesis
    proof (cases "routeSignature (planned env b) = b_lastSig b")
      case True
      then have "b_lastSig b \<noteq> emptySig" using routeSignature_not_emptySig by metis
      with True show thesis
        using Some args nh ne by (intro idle [of None]) (simp_all add: Rebuild_body_def Let_def)
    next
      case False
      then show thesis
        using Some args nh ne
        by (intro route [of args ?b1])
          (simp_all add: Rebuild_body_def Let_def execute_eq routeSignature_not_emptySig)
    qed
  qed
qed

lemma Rebuild_passes: "Active b \<Longrightarrow> b_pending b = None \<Longrightarrow> Rebuild env b = Rebuild_body env (LoadConfig b) b"
  by (simp add: Rebuild_def Active_def Let_def)

lemma Rebuild_cases:
  obtains (idle) err where "Rebuild env b = (b, err)"
      "err = None \<longrightarrow> \<not> Active b \<or> b_pending b \<noteq> None
         \<or> b_lastSig b = routeSignature (planned env b) \<and> planned env b \<noteq> []"
  | (empty) "Rebuild env b = (emit AlertNoWAN (b\<lparr>b_lastSig := emptySig\<rparr>), Some NoUpInterfaces)"
      "Active b" "b_pending b = None" "planned env b = []"
  | (route) b1 args where "Active b" "b_pending b = None" "planned env b \<noteq> []"
      "b_lastSig b \<noteq> routeSignature (planned env b)"
      "buildReplaceArgs (cf_Table (LoadConfig b)) (planned env b) = Some args"
      "b1 = (if b_lastSig b = emptySig
             then emit (AlertWANBack (int (length (planned env b)))) b else b)"
      "Rebuild env b =
         (if ex_run env (b_log b1) (''ip'' # args)
          then (emit (Ran (''ip'' # args) True) b1\<lparr>b_lastSig := routeSignature (planned env b)\<rparr>, None)
          else (emit (Ran (''ip'' # args) False) b1, Some RebuildFailed))"
proof (cases "Active b \<and> b_pending b = None")
  case False
  then have "Rebuild env b = (b, None)" by (auto simp: Rebuild_def Active_def Let_def)
  with False show thesis by (intro idle) auto
next
  case True
  note go = True and eq = Rebuild_passes [of b env]
  show thesis
  proof (cases rule: Rebuild_body_cases [of env "LoadConfig b" b])
    case (idle err)
    with go eq show thesis by (intro that(1) [of err]) auto
  next
    case empty
    with go eq show thesis by (intro that(2)) auto
  next
    case (route b1 args)
    with go eq show thesis by (intro that(3) [of args b1]) auto
  qed
qed

lemma Rebuild_same [simp]:
  "b_links (fst (Rebuild env b)) = b_links b" "b_config (fst (Rebuild env b)) = b_config b"
  "b_pending (fst (Rebuild env b)) = b_pending b" "b_timers (fst (Rebuild env b)) = b_timers b"
  "b_running (fst (Rebuild env b)) = b_running b" "b_nextTimer (fst (Rebuild env b)) = b_nextTimer b"
  "b_lastFired (fst (Rebuild env b)) = b_lastFired b"
  "b_evictCooldown (fst (Rebuild env b)) = b_evictCooldown b"
  by (cases rule: Rebuild_cases [of env b]; simp)+

lemma Rebuild_pending: "b_pending b \<noteq> None \<Longrightarrow> Rebuild env b = (b, None)"
  by (auto simp: Rebuild_def Let_def)

subsection \<open>The steps of the service\<close>

text \<open>
  Background steps run by themselves; operator steps come from the API.  The database changes
  the links between any two steps (\<open>links_change\<close>: the monitor, the links page).
\<close>

inductive background :: "balancer \<Rightarrow> balancer \<Rightarrow> bool" where
  bg_rebuild: "background b (fst (Rebuild env b))"
| bg_link: "background b (OnLinkChange env l st b)"
| bg_tick: "background b (tick env ck b)"
| bg_evict: "background b (EvictDegraded env now l b)"
| bg_links: "background b (b\<lparr>b_links := ls\<rparr>)"

inductive bal_step :: "balancer \<Rightarrow> balancer \<Rightarrow> bool" where
  st_background: "background b b' \<Longrightarrow> bal_step b b'"
| st_apply: "bal_step b (fst (Apply env now arm b))"
| st_confirm: "bal_step b (fst (Confirm b))"
| st_rollback: "bal_step b (fst (Rollback env b))"
| st_config: "bal_step b (SaveConfig c b)"
| st_expire: "bal_step b (timer_expires i b)"
| st_callback: "restore \<in> set (b_running b) \<Longrightarrow> bal_step b (timer_callback env restore b)"

inductive_cases background_cases: "background b b'"
inductive_cases bal_step_cases: "bal_step b b'"

definition fresh_balancer :: "link list \<Rightarrow> config \<Rightarrow> balancer" where
  "fresh_balancer ls c =
     \<lparr>b_links = ls, b_config = c, b_pending = None, b_timers = [], b_running = [], b_nextTimer = 0,
      b_lastFired = Map.empty, b_lastSig = [], b_evictCooldown = Map.empty, b_log = []\<rparr>"

inductive bal_reachable :: "balancer \<Rightarrow> bool" where
  reach_fresh: "bal_reachable (fresh_balancer ls c)"
| reach_step: "bal_reachable b \<Longrightarrow> bal_step b b' \<Longrightarrow> bal_reachable b'"

text \<open>What every background operation leaves alone.\<close>

definition same_rollback :: "balancer \<Rightarrow> balancer \<Rightarrow> bool" where
  "same_rollback b b' \<longleftrightarrow> b_pending b' = b_pending b \<and> b_timers b' = b_timers b
     \<and> b_running b' = b_running b \<and> b_nextTimer b' = b_nextTimer b \<and> b_config b' = b_config b"

lemma same_rollback_refl [simp]: "same_rollback b b"
  by (simp add: same_rollback_def)

lemma same_rollback_trans: "same_rollback a b \<Longrightarrow> same_rollback b c \<Longrightarrow> same_rollback a c"
  by (simp add: same_rollback_def)

lemma same_rollback_Rebuild [simp]: "same_rollback b (fst (Rebuild env b))"
  by (simp add: same_rollback_def)

lemma same_rollback_emit [simp]: "same_rollback b (emit e b') = same_rollback b b'"
  by (simp add: same_rollback_def)

lemma same_rollback_links [simp]: "same_rollback b (b'\<lparr>b_links := ls\<rparr>) = same_rollback b b'"
  by (simp add: same_rollback_def)

text \<open>
  A property of states that \<open>Rebuild\<close>, alerts and the bookkeeping fields preserve is preserved
  by every background operation; the flush of an eviction is the only other command.
\<close>

locale background_closed =
  fixes P :: "balancer \<Rightarrow> bool"
  assumes rebuild: "P b \<Longrightarrow> P (fst (Rebuild env b))"
    and alert: "(\<And>c ok. e \<noteq> Ran c ok) \<Longrightarrow> P b \<Longrightarrow> P (emit e b)"
    and flush: "P b \<Longrightarrow> P (emit (Ran (''conntrack'' # c) ok) b)"
    and links: "P b \<Longrightarrow> P (b\<lparr>b_links := ls\<rparr>)"
    and fired: "P b \<Longrightarrow> P (b\<lparr>b_lastFired := f\<rparr>)"
    and cooldown: "P b \<Longrightarrow> P (b\<lparr>b_evictCooldown := m\<rparr>)"
begin

lemma update_link: "P b \<Longrightarrow> P (fst (update_link env l b))"
  by (simp add: update_link_def links)

lemma apply_weights: "P b \<Longrightarrow> P (fst (apply_weights env ws b))"
proof (induction env ws b rule: apply_weights.induct)
  case (2 env i w ws b)
  show ?case
  proof (cases "if ex_getOk env i then List.find (\<lambda>l. l_ID l = i) (b_links b) else None")
    case None
    with 2 show ?thesis by simp
  next
    case (Some l)
    obtain b1 ok where u: "update_link env (l\<lparr>l_Weight := w\<rparr>) b = (b1, ok)" by fastforce
    with update_link [OF 2(3), of env "l\<lparr>l_Weight := w\<rparr>"] have "P b1" by simp
    with 2(2) [OF Some u [symmetric] refl] Some u show ?thesis by simp
  qed
qed simp

lemma ApplySchedule: "P b \<Longrightarrow> P (fst (ApplySchedule env sch b))"
  using apply_weights [of b env "sc_Weights sch"]
  by (auto simp: ApplySchedule_def Let_def rebuild split: prod.splits)

lemma fire_schedule: "P b \<Longrightarrow> P (fire_schedule env ck sch b)"
  using ApplySchedule [OF fired, of b env sch]
  by (simp add: fire_schedule_def Let_def alert case_prod_beta)

lemma tick: "P b \<Longrightarrow> P (tick env ck b)"
proof -
  have "P b \<Longrightarrow> P (foldl (\<lambda>b sch. fire_schedule env ck sch b) b scs)" for scs
    by (induction scs arbitrary: b) (simp_all add: fire_schedule)
  then show "P b \<Longrightarrow> P (tick env ck b)" by (simp add: tick_def)
qed

lemma OnLinkChange: "P b \<Longrightarrow> P (OnLinkChange env l st b)"
  by (simp add: OnLinkChange_def Let_def rebuild alert)

lemma EvictDegraded: "P b \<Longrightarrow> P (EvictDegraded env now l b)"
  by (simp add: EvictDegraded_def Let_def rebuild execute_eq alert flush cooldown)

lemma background: "background b b' \<Longrightarrow> P b \<Longrightarrow> P b'"
  by (induction rule: background.induct)
    (simp_all add: rebuild OnLinkChange tick EvictDegraded links)

end

interpretation keeps_rollback: background_closed "same_rollback b0"
proof unfold_locales
  show "same_rollback b0 b \<Longrightarrow> same_rollback b0 (fst (Rebuild env b))" for b env
    by (rule same_rollback_trans [of _ b]) simp_all
qed (simp_all add: same_rollback_def)

subsection \<open>An unconfirmed route is safe\<close>

text \<open>The commands of a stretch of the log that could change a route.\<close>

definition touches_routes :: "bal_effect \<Rightarrow> bool" where
  "touches_routes e = (case e of Ran (c # _) _ \<Rightarrow> c = ''ip'' | _ \<Rightarrow> False)"

lemma touches_routes_simps [simp]:
  "touches_routes (Ran (c # cs) ok) \<longleftrightarrow> c = ''ip''"
  "(\<And>c ok. e \<noteq> Ran c ok) \<Longrightarrow> \<not> touches_routes e"
  by (auto simp: touches_routes_def split: bal_effect.splits list.splits)

text \<open>The log of \<open>b\<close> extends \<open>l0\<close> without a routing command.\<close>

definition quiet_since :: "bal_effect list \<Rightarrow> balancer \<Rightarrow> bool" where
  "quiet_since l0 b \<longleftrightarrow> (\<exists>es. b_log b = l0 @ es \<and> list_all (\<lambda>e. \<not> touches_routes e) es)"

lemma quiet_since_refl [simp]: "quiet_since (b_log b) b"
  by (simp add: quiet_since_def)

lemma quiet_since_emit: "quiet_since l0 b \<Longrightarrow> \<not> touches_routes e \<Longrightarrow> quiet_since l0 (emit e b)"
  by (auto simp: quiet_since_def)

definition pending_quiet :: "bal_effect list \<Rightarrow> balancer \<Rightarrow> bool" where
  "pending_quiet l0 b \<longleftrightarrow> b_pending b \<noteq> None \<and> quiet_since l0 b"

interpretation pending_quiet: background_closed "pending_quiet l0"
proof unfold_locales
  show "pending_quiet l0 b \<Longrightarrow> pending_quiet l0 (fst (Rebuild env b))" for b env
    using Rebuild_pending [of b env] by (simp add: pending_quiet_def)
qed (simp_all add: pending_quiet_def quiet_since_emit, simp_all add: quiet_since_def)

text \<open>The timer of the pending rollback is armed, or its callback is waiting for the lock.\<close>

definition timers_ok :: "balancer \<Rightarrow> bool" where
  "timers_ok b \<longleftrightarrow>
     distinct (map fst (b_timers b)) \<and> list_all (\<lambda>t. fst t < b_nextTimer b) (b_timers b)
     \<and> (b_pending b = None
        \<or> pr_timer (the (b_pending b)) < b_nextTimer b
           \<and> ((pr_timer (the (b_pending b)), pr_restore (the (b_pending b))) \<in> set (b_timers b)
              \<or> pr_restore (the (b_pending b)) \<in> set (b_running b)))"

lemma timers_ok_same_rollback: "same_rollback b b' \<Longrightarrow> timers_ok b \<Longrightarrow> timers_ok b'"
  by (simp add: timers_ok_def same_rollback_def)

lemma timers_ok_filter:
  "timers_ok b \<Longrightarrow> timers_ok (b\<lparr>b_pending := None, b_timers := filter Q (b_timers b)\<rparr>)"
  by (auto simp: timers_ok_def distinct_map_filter list_all_iff)

lemma timers_ok_cancel: "timers_ok b \<Longrightarrow> timers_ok (fst (cancelPending b))"
  by (auto simp: cancelPending_def intro: timers_ok_filter split: option.splits)

lemma timers_ok_arm: "timers_ok b \<Longrightarrow> timers_ok (armRollback r now d b)"
  by (auto simp: timers_ok_def armRollback_def list_all_iff split: option.splits)

lemma timers_ok_emit [simp]: "timers_ok (emit e b) = timers_ok b"
  by (simp add: timers_ok_def)

lemma timers_ok_sig [simp]: "timers_ok (b\<lparr>b_lastSig := g\<rparr>) = timers_ok b"
  by (simp add: timers_ok_def)

lemma timers_ok_restore: "timers_ok b \<Longrightarrow> timers_ok (fst (restore_route env args b))"
  by (simp add: restore_route_def execute_eq)

lemma timers_ok_Apply: "timers_ok b \<Longrightarrow> timers_ok (fst (Apply env now arm b))"
  by (simp add: Apply_defs Let_def execute_eq timers_ok_cancel timers_ok_arm split: option.splits)

lemma timers_ok_callback:
  assumes "timers_ok b"
  shows "timers_ok (timer_callback env restore b)"
proof (cases "b_pending b")
  case None
  with assms show ?thesis by (simp add: timers_ok_def timer_callback_def)
next
  case (Some p)
  have "timers_ok (b\<lparr>b_running := remove1 restore (b_running b), b_pending := None\<rparr>)"
    using assms by (simp add: timers_ok_def)
  then show ?thesis
    using Some by (simp add: timer_callback_def Let_def case_prod_beta timers_ok_restore)
qed

lemma timers_ok_expires: "timers_ok b \<Longrightarrow> timers_ok (timer_expires i b)"
  by (force simp: timers_ok_def timer_expires_def distinct_map_filter list_all_iff split: option.splits)

lemma timers_ok_step:
  assumes "bal_step b b'" and "timers_ok b"
  shows "timers_ok b'"
  using assms
proof (cases rule: bal_step.cases)
  case st_background
  then have "same_rollback b b'" using keeps_rollback.background [of b b' b] by simp
  with assms(2) show ?thesis by (metis timers_ok_same_rollback)
next
  case (st_rollback env)
  then show ?thesis
    using assms(2) timers_ok_cancel [OF assms(2)]
    by (simp add: Rollback_def timers_ok_restore split: option.splits)
next
  case (st_config c)
  then show ?thesis using assms(2) by (simp add: SaveConfig_def timers_ok_def)
qed (simp_all add: timers_ok_Apply timers_ok_cancel timers_ok_expires timers_ok_callback Confirm_def)

lemma timers_ok_reachable: "bal_reachable b \<Longrightarrow> timers_ok b"
proof (induction rule: bal_reachable.induct)
  case (reach_step b b')
  then show ?case by (blast intro: timers_ok_step)
qed (simp add: timers_ok_def fresh_balancer_def)

subsection \<open>The kernel has the route of the signature\<close>

text \<open>The routing command the kernel accepted last.\<close>

definition installed :: "bal_effect list \<Rightarrow> string list option" where
  "installed es = foldl (\<lambda>r e. case e of
       Ran cmd ok \<Rightarrow> if ok \<and> cmd \<noteq> [] \<and> hd cmd = ''ip'' then Some (tl cmd) else r
     | _ \<Rightarrow> r) None es"

lemma installed_snoc [simp]:
  "installed (es @ [e]) = (case e of
       Ran cmd ok \<Rightarrow> if ok \<and> cmd \<noteq> [] \<and> hd cmd = ''ip'' then Some (tl cmd) else installed es
     | _ \<Rightarrow> installed es)"
  by (simp add: installed_def split: bal_effect.split)

definition route_of_signature :: "balancer \<Rightarrow> string \<Rightarrow> bool" where
  "route_of_signature b table \<longleftrightarrow>
     (\<exists>nhs. nhs \<noteq> [] \<and> b_lastSig b = routeSignature nhs
          \<and> installed (b_log b) = buildReplaceArgs table nhs)"

definition synced :: "string \<Rightarrow> balancer \<Rightarrow> bool" where
  "synced table b \<longleftrightarrow> cf_Table (LoadConfig b) = table
     \<and> (b_lastSig b = [] \<or> b_lastSig b = emptySig \<or> route_of_signature b table)"

lemma route_of_signatureI:
  "buildReplaceArgs table nhs = Some args \<Longrightarrow> b_lastSig b = routeSignature nhs \<Longrightarrow>
   installed (b_log b) = Some args \<Longrightarrow> route_of_signature b table"
  by (auto simp: route_of_signature_def intro!: exI [of _ nhs])

lemma synced_emit:
  "\<not> touches_routes e \<Longrightarrow> synced table (emit e b) = synced table b"
  by (auto simp: synced_def route_of_signature_def LoadConfig_def touches_routes_def
      split: bal_effect.splits list.splits)

lemma installed_Ran_False:
  "synced table (emit (Ran cmd False) b) = synced table b"
  by (simp add: synced_def route_of_signature_def LoadConfig_def)

lemma synced_Rebuild_body:
  assumes "synced table b" and "cf_Table cfg = table"
  shows "synced table (fst (Rebuild_body env cfg b))"
proof (cases rule: Rebuild_body_cases [of env cfg b])
  case (idle err)
  with assms show ?thesis by simp
next
  case empty
  with assms show ?thesis by (simp add: synced_def LoadConfig_def)
next
  case (route b1 args)
  have b1: "synced table b1" unfolding route(4) using assms by (simp add: synced_emit)
  show ?thesis
  proof (cases "ex_run env (b_log b1) (''ip'' # args)")
    case True
    let ?b' = "emit (Ran (''ip'' # args) True) b1\<lparr>b_lastSig := routeSignature (planned env b)\<rparr>"
    have "route_of_signature ?b' table"
      by (rule route_of_signatureI [of _ "planned env b" args]) (use route(3) assms(2) in simp_all)
    moreover have "cf_Table (LoadConfig ?b') = table"
      using b1 by (simp add: synced_def LoadConfig_def)
    ultimately show ?thesis using route(5) True by (simp add: synced_def)
  next
    case False
    with route(5) b1 show ?thesis by (simp add: installed_Ran_False)
  qed
qed

lemma synced_Rebuild: "synced table b \<Longrightarrow> synced table (fst (Rebuild env b))"
  using synced_Rebuild_body [of table b "LoadConfig b" env] by (auto simp: Rebuild_def Let_def synced_def)

interpretation synced: background_closed "synced table"
proof unfold_locales
  show "synced table b \<Longrightarrow> synced table (fst (Rebuild env b))" for b env
    by (rule synced_Rebuild)
  show "(\<And>c ok. e \<noteq> Ran c ok) \<Longrightarrow> synced table b \<Longrightarrow> synced table (emit e b)" for e b
    using synced_emit [of e table b] by simp
  show "synced table b \<Longrightarrow> synced table (emit (Ran (''conntrack'' # c) ok) b)" for b c ok
    by (simp add: synced_emit)
qed (simp_all add: synced_def LoadConfig_def route_of_signature_def)

text \<open>What \<open>Apply\<close> did when it succeeded.\<close>

lemma Apply_ok:
  assumes "Apply env now arm b = (b', p, None)"
  obtains args where "buildReplaceArgs (cf_Table (LoadConfig b)) (planned env b) = Some args"
    "planned env b \<noteq> []" "ex_linksOk env"
    "b_log b' = b_log b @ [Ran (''ip'' # args) True]"
    "b_lastSig b' = routeSignature (planned env b)"
    "b_config b' = b_config b" "b_links b' = b_links b"
    "b_pending b' = (case captureRestore env b (cf_Table (LoadConfig b)) of
        Some r \<Rightarrow> if arm then Some \<lparr>pr_restore = r, pr_timer = b_nextTimer b,
                       pr_expiry = now + cf_ArmSeconds (LoadConfig b) * 1000000000\<rparr> else None
      | None \<Rightarrow> None)"
proof -
  let ?cfg = "LoadConfig b"
  obtain p0 where p0: "planWith env b ?cfg = Some p0"
    using assms by (auto simp: Apply_defs Let_def split: option.splits)
  note nh = planWith_Some [OF p0]
  obtain args where args: "buildReplaceArgs (cf_Table ?cfg) (planned env b) = Some args"
    using assms p0 nh by (auto simp: Apply_defs Let_def split: option.splits)
  have ok: "ex_run env (b_log b) (''ip'' # args)"
    using assms p0 nh args by (auto simp: Apply_defs Let_def execute_eq split: if_splits)
  have links: "\<exists>p'. planWith env x ?cfg = Some p'" for x
    using nh planWith_None [of env x ?cfg] by auto
  show thesis
  proof (rule that [of args])
    show "planned env b \<noteq> []" using args by (auto simp: buildReplaceArgs_def)
  qed (use assms p0 nh args ok links in
    \<open>auto simp: Apply_defs Let_def execute_eq cancelPending_def armRollback_def split: option.splits if_splits\<close>)
qed

lemma synced_cancel: "synced table b \<Longrightarrow> synced table (fst (cancelPending b))"
  by (simp add: synced_def LoadConfig_def route_of_signature_def cancelPending_def split: option.splits)

lemma synced_arm: "synced table b \<Longrightarrow> synced table (armRollback r now d b)"
  by (simp add: synced_def LoadConfig_def route_of_signature_def armRollback_def)

lemma synced_installed:
  assumes "synced table b" and "buildReplaceArgs table nhs = Some args"
  shows "synced table ((emit (Ran (''ip'' # args) True) b)\<lparr>b_lastSig := routeSignature nhs\<rparr>)"
proof -
  have "route_of_signature ((emit (Ran (''ip'' # args) True) b)\<lparr>b_lastSig := routeSignature nhs\<rparr>) table"
    by (rule route_of_signatureI [OF assms(2)]) simp_all
  with assms(1) show ?thesis by (simp add: synced_def LoadConfig_def)
qed

lemma synced_Apply:
  assumes "synced table b"
  shows "synced table (fst (Apply env now arm b))"
proof (cases "planWith env b (LoadConfig b)")
  case None
  with assms show ?thesis by (simp add: Apply_defs Let_def)
next
  case (Some p)
  have t: "cf_Table (LoadConfig b) = table" using assms by (simp add: synced_def)
  show ?thesis
  proof (cases "buildReplaceArgs table (pl_Nexthops p)")
    case None
    with assms Some t show ?thesis by (simp add: Apply_defs Let_def)
  next
    case (Some args)
    note i = synced_cancel [OF synced_installed [OF assms Some]]
    then show ?thesis
      using assms Some \<open>planWith env b (LoadConfig b) = Some p\<close> t
      by (auto simp: Apply_defs Let_def execute_eq installed_Ran_False intro: synced_arm split: option.splits)
  qed
qed

subsection \<open>Properties\<close>

text \<open>An unconfirmed route change is never lost and never disturbed: in every reachable state
  with a pending rollback its timer is armed or its callback is already waiting; no
  background step (reconciliation, link change, schedule, eviction) runs a routing command
  or drops the rollback; and when the timer expires the captured route is restored.\<close>

theorem pending_rollback_protected:
  assumes "bal_reachable b" and "b_pending b = Some p"
  shows "((pr_timer p, pr_restore p) \<in> set (b_timers b) \<or> pr_restore p \<in> set (b_running b))
    \<and> (\<forall>b'. background b b' \<longrightarrow> b_pending b' = Some p
          \<and> (\<exists>es. b_log b' = b_log b @ es \<and> list_all (\<lambda>e. \<not> touches_routes e) es))
    \<and> b_pending (timer_callback env (pr_restore p) b) = None
    \<and> (pr_restore p \<noteq> [] \<longrightarrow> (\<exists>ok. Ran (''ip'' # pr_restore p) ok
          \<in> set (b_log (timer_callback env (pr_restore p) b))))"
proof (intro conjI allI impI)
  show "(pr_timer p, pr_restore p) \<in> set (b_timers b) \<or> pr_restore p \<in> set (b_running b)"
    using timers_ok_reachable [OF assms(1)] assms(2) by (simp add: timers_ok_def)
  fix b' assume bg: "background b b'"
  show "b_pending b' = Some p"
    using keeps_rollback.background [OF bg, of b] assms(2) by (simp add: same_rollback_def)
  show "\<exists>es. b_log b' = b_log b @ es \<and> list_all (\<lambda>e. \<not> touches_routes e) es"
    using pending_quiet.background [OF bg, of "b_log b"] assms(2)
    by (simp add: pending_quiet_def quiet_since_def)
qed (use assms(2) in \<open>auto simp: timer_callback_def restore_route_def execute_eq Let_def\<close>)

text \<open>A second armed apply discards the backup of the first: when the first is still
  unconfirmed and the kernel shows its route, the rollback armed by the second one restores
  the very route the first apply installed, not the route from before both.\<close>

theorem second_apply_loses_original_backup:
  assumes "Apply env now True b = (b1, p1, None)"
    and "go_fields (fst (currentDefault env2 b1 (cf_Table (LoadConfig b))))
           = h # hs @ concat (map shown_leg legs)"
    and "snd (currentDefault env2 b1 (cf_Table (LoadConfig b)))"
    and "map fst legs = planned env b"
    and "''via'' \<notin> set (h # hs)" and "free_of ''nexthop'' (h # hs)" and "list_all showable legs"
    and "Apply env2 now2 True b1 = (b2, p2, None)"
  shows "\<exists>args pr. buildReplaceArgs (cf_Table (LoadConfig b)) (planned env b) = Some args
           \<and> b_log b1 = b_log b @ [Ran (''ip'' # args) True]
           \<and> b_pending b2 = Some pr \<and> pr_restore pr = args"
proof -
  let ?T = "cf_Table (LoadConfig b)"
  from assms(1) obtain args where a: "buildReplaceArgs ?T (planned env b) = Some args"
      "planned env b \<noteq> []" "b_log b1 = b_log b @ [Ran (''ip'' # args) True]"
      "b_config b1 = b_config b"
    by (rule Apply_ok) blast
  have t: "cf_Table (LoadConfig b1) = ?T" using a(4) by (simp add: LoadConfig_def)
  obtain raw ok where raw: "currentDefault env2 b1 ?T = (raw, ok)" by fastforce
  have "legs \<noteq> []" using a(2) assms(4) by auto
  then have "restoreArgsFromShow raw ?T = Some args"
    using restore_of_shown_multipath [of raw h hs legs ?T] assms(2,4-7) raw a(1) by auto
  moreover have "trim_space raw \<noteq> []"
    using trim_space_fields [of raw] assms(2) raw by simp
  ultimately have cap: "captureRestore env2 b1 ?T = Some args"
    using assms(3) raw by (simp add: captureRestore_def)
  from assms(8) obtain pr where "b_pending b2 = Some pr" "pr_restore pr = args"
    by (rule Apply_ok) (simp add: t cap)
  with a(1,3) show ?thesis by blast
qed

text \<open>The alert of a balancer without WANs can stay open for ever: an apply that succeeds in
  that state sends no recovery and erases the state, so that no later reconciliation sends
  one either.\<close>

theorem apply_swallows_wan_recovery:
  assumes "b_lastSig b = emptySig" and "Apply env now arm b = (b1, p, None)"
  shows "(\<exists>c. b_log b1 = b_log b @ [Ran c True])
       \<and> (\<forall>env2 b2 err n. Rebuild env2 b1 = (b2, err) \<longrightarrow>
            (\<exists>es. b_log b2 = b_log b1 @ es \<and> AlertWANBack n \<notin> set es))"
proof -
  from assms(2) obtain args where a: "b_log b1 = b_log b @ [Ran (''ip'' # args) True]"
      "b_lastSig b1 = routeSignature (planned env b)"
    by (rule Apply_ok) blast
  then have ne: "b_lastSig b1 \<noteq> emptySig" by (simp add: routeSignature_not_emptySig)
  have "\<exists>es. b_log (fst (Rebuild env2 b1)) = b_log b1 @ es \<and> AlertWANBack n \<notin> set es" for env2 n
    using ne by (cases rule: Rebuild_cases [of env2 b1]) auto
  with a(1) show ?thesis by (metis fst_conv)
qed

text \<open>A change of the routing table is ignored while balancing: saving a configuration that
  differs only in the table leaves the installed signature, which does not include the
  table, so the next reconciliation runs no command and reports success.\<close>

theorem table_change_not_applied:
  assumes "cf_Mode c = ModeBalance" and "b_pending b = None" and "ex_linksOk env"
    and "planned env b \<noteq> []" and "b_lastSig b = routeSignature (planned env b)"
  shows "Rebuild env (SaveConfig (c\<lparr>cf_Table := t\<rparr>) b) = (SaveConfig (c\<lparr>cf_Table := t\<rparr>) b, None)"
proof -
  let ?b = "SaveConfig (c\<lparr>cf_Table := t\<rparr>) b"
  have same: "planned env ?b = planned env b"
    by (simp add: planned_def read_up_def SaveConfig_def)
  show ?thesis
  proof (cases rule: Rebuild_cases [of env ?b])
    case (idle err)
    have "cf_Mode (LoadConfig ?b) = ModeBalance"
      using assms(1) by (simp add: LoadConfig_def SaveConfig_def normalize_config_def)
    moreover obtain p where p: "planWith env ?b (LoadConfig ?b) = Some p"
      using assms(3) planWith_None [of env ?b "LoadConfig ?b"] by auto
    moreover obtain args where
      "buildReplaceArgs (cf_Table (LoadConfig ?b)) (pl_Nexthops p) = Some args"
      using planWith_Some [OF p] same assms(4) by (auto simp: buildReplaceArgs_def)
    ultimately have "err = None"
      using idle(1) assms(2,5) same planWith_Some [OF p] routeSignature_not_emptySig [of "planned env b"]
      by (auto simp: Rebuild_def Rebuild_body_def Let_def SaveConfig_def)
    with idle show ?thesis by simp
  qed (use assms same in \<open>simp_all add: SaveConfig_def\<close>)
qed

lemma apply_weights_lastFired [simp]: "b_lastFired (fst (apply_weights env ws b)) = b_lastFired b"
  and apply_weights_config [simp]: "b_config (fst (apply_weights env ws b)) = b_config b"
  by (induction env ws b rule: apply_weights.induct)
    (auto simp: update_link_def split: option.splits if_splits)

lemma fire_schedule_fired:
  "b_lastFired (fire_schedule env ck sch b) i =
     (if sc_Enabled sch \<and> sc_At sch = ck_hhmm ck \<and> ck_weekday ck \<in> set (sc_Days sch) \<and> i = sc_ID sch
      then Some (ck_minute ck) else b_lastFired b i)"
  "b_config (fire_schedule env ck sch b) = b_config b"
  by (auto simp: fire_schedule_def ApplySchedule_def Let_def case_prod_beta)

lemma fire_schedule_again:
  assumes "sc_Enabled sch \<and> sc_At sch = ck_hhmm ck \<and> ck_weekday ck \<in> set (sc_Days sch) \<Longrightarrow>
    b_lastFired b (sc_ID sch) = Some (ck_minute ck)"
  shows "fire_schedule env ck sch b = b"
  using assms by (auto simp: fire_schedule_def)

lemma tick_fired:
  "b_lastFired (foldl (\<lambda>b sch. fire_schedule env ck sch b) b scs) i =
     (if \<exists>sch \<in> set scs. sc_Enabled sch \<and> sc_At sch = ck_hhmm ck
           \<and> ck_weekday ck \<in> set (sc_Days sch) \<and> i = sc_ID sch
      then Some (ck_minute ck) else b_lastFired b i)"
  "b_config (foldl (\<lambda>b sch. fire_schedule env ck sch b) b scs) = b_config b"
  by (induction scs arbitrary: b) (auto simp: fire_schedule_fired)

text \<open>A schedule fires at most once a minute: a second tick in the same minute, whatever the
  executor and the database answer then and whether the first succeeded, does nothing.\<close>

theorem tick_once_per_minute: "tick env2 ck (tick env ck b) = tick env ck b"
proof -
  let ?scs = "the (cf_Schedules (LoadConfig b))" and ?b = "tick env ck b"
  have cfg: "LoadConfig ?b = LoadConfig b" by (simp add: LoadConfig_def tick_def tick_fired)
  have "fire_schedule env2 ck sch ?b = ?b" if "sch \<in> set ?scs" for sch
  proof (rule fire_schedule_again)
    assume "sc_Enabled sch \<and> sc_At sch = ck_hhmm ck \<and> ck_weekday ck \<in> set (sc_Days sch)"
    with that show "b_lastFired ?b (sc_ID sch) = Some (ck_minute ck)"
      unfolding tick_def tick_fired by auto
  qed
  then have "foldl (\<lambda>b sch. fire_schedule env2 ck sch b) ?b scs = ?b" if "set scs \<subseteq> set ?scs" for scs
    using that by (induction scs) simp_all
  then show ?thesis by (subst tick_def) (simp add: cfg)
qed

text \<open>Whether a stretch of the log drops conntrack flows.\<close>

definition flushes :: "bal_effect list \<Rightarrow> bool" where
  "flushes es \<longleftrightarrow> list_ex (\<lambda>e. case e of Ran (c # _) _ \<Rightarrow> c = ''conntrack'' | _ \<Rightarrow> False) es"

lemma flushes_simps [simp]:
  "\<not> flushes []" "flushes (xs @ ys) \<longleftrightarrow> flushes xs \<or> flushes ys"
  "flushes [Ran (c # cs) ok] \<longleftrightarrow> c = ''conntrack''" "\<not> flushes [AlertNoWAN]" "\<not> flushes [AlertWANBack n]"
  by (simp_all add: flushes_def)

lemma Rebuild_log: "\<exists>es. b_log (fst (Rebuild env b)) = b_log b @ es \<and> \<not> flushes es"
proof (cases rule: Rebuild_cases [of env b])
  case (route b1 args)
  have "\<exists>es1. b_log b1 = b_log b @ es1 \<and> \<not> flushes es1"
    unfolding route(6) by simp
  then obtain es1 where "b_log b1 = b_log b @ es1" "\<not> flushes es1" by blast
  moreover have "\<exists>ok. b_log (fst (Rebuild env b)) = b_log b1 @ [Ran (''ip'' # args) ok]"
    unfolding route(7) by (cases "ex_run env (b_log b1) (''ip'' # args)") auto
  ultimately show ?thesis by fastforce
qed auto

text \<open>An eviction is guarded: flows are dropped only when the feature is on, another enabled
  link is healthy and the cooldown of the link has passed; and after a flush no eviction of
  that link flushes again before the cooldown ends.\<close>

theorem eviction_guarded:
  assumes "b' = EvictDegraded env now l b" and "b_log b' = b_log b @ es" and "flushes es"
  shows "Active b \<and> cf_EvictOnDegrade (b_config b)
     \<and> (\<exists>a \<in> set (b_links b). l_ID a \<noteq> l_ID l \<and> l_Enabled a \<and> l_Status a = StatusOnline)
     \<and> (\<forall>t. b_evictCooldown b (l_ID l) = Some t \<longrightarrow> t \<le> now)
     \<and> b_evictCooldown b' (l_ID l) = Some (now + cf_EvictCooldownSecs (LoadConfig b) * 1000000000)
     \<and> (\<forall>env2 now2 l2. l_ID l2 = l_ID l
           \<and> now2 < now + cf_EvictCooldownSecs (LoadConfig b) * 1000000000
           \<longrightarrow> EvictDegraded env2 now2 l2 b' = b')"
proof -
  let ?cfg = "LoadConfig b"
  obtain es0 where es0: "b_log (fst (Rebuild env b)) = b_log b @ es0" "\<not> flushes es0"
    using Rebuild_log by blast
  have go: "\<not> (cf_Mode ?cfg \<noteq> ModeBalance \<or> \<not> ex_linksOk env
      \<or> \<not> evictDecision ?cfg l (b_links b) (b_evictCooldown b (l_ID l)) now)"
  proof
    assume "cf_Mode ?cfg \<noteq> ModeBalance \<or> \<not> ex_linksOk env
      \<or> \<not> evictDecision ?cfg l (b_links b) (b_evictCooldown b (l_ID l)) now"
    then have "b' = b" unfolding assms(1) EvictDegraded_def Let_def by (simp only: if_True)
    with assms(2,3) show False by simp
  qed
  moreover have "interfaceIPv4 env (fst (Rebuild env b)) (l_Interface l) \<noteq> []"
  proof
    assume "interfaceIPv4 env (fst (Rebuild env b)) (l_Interface l) = []"
    with go have "b' = fst (Rebuild env b)"
      unfolding assms(1) EvictDegraded_def Let_def by (simp only: if_False if_True refl)
    with assms(2,3) es0 show False by simp
  qed
  ultimately have cool: "b_evictCooldown b' (l_ID l)
      = Some (now + cf_EvictCooldownSecs ?cfg * 1000000000)"
    using assms(1) by (simp add: EvictDegraded_def Let_def execute_eq)
  then have "EvictDegraded env2 now2 l2 b' = b'"
    if "l_ID l2 = l_ID l" "now2 < now + cf_EvictCooldownSecs ?cfg * 1000000000" for env2 now2 l2
    using that by (simp add: EvictDegraded_def evictDecision_def Let_def)
  moreover have "t \<le> now" if "b_evictCooldown b (l_ID l) = Some t" for t
    using go that by (simp add: evictDecision_def)
  moreover have "cf_EvictOnDegrade (b_config b)"
    using go by (simp add: evictDecision_def LoadConfig_def normalize_config_def)
  moreover have "\<exists>a \<in> set (b_links b). l_ID a \<noteq> l_ID l \<and> l_Enabled a \<and> l_Status a = StatusOnline"
    using go by (auto simp: evictDecision_def list_ex_iff)
  ultimately show ?thesis
    using go cool by (simp add: Active_def)
qed

subsection \<open>Concrete runs\<close>

definition demo_config :: config where
  "demo_config = \<lparr>cf_Mode = ModeBalance, cf_Table = [], cf_ArmSeconds = 0, cf_Schedules = None,
     cf_EvictOnDegrade = True, cf_DegradedSustainSamples = 0, cf_EvictCooldownSecs = 0\<rparr>"

definition demo_links :: "link list" where
  "demo_links = [demo_up ''a'' StatusOnline 1 0]"

text \<open>An executor on which every command succeeds and every read gives one text.\<close>

definition demo_exec :: "string \<Rightarrow> bal_env" where
  "demo_exec out = \<lparr>ex_run = (\<lambda>_ _. True), ex_read = (\<lambda>_ c. (if c ! 1 = ''-br'' then [] else out, c ! 1 \<noteq> ''-br'')),
     ex_linksOk = True, ex_getOk = (\<lambda>_. True), ex_storeOk = (\<lambda>_. True), ex_ai = False\<rparr>"

lemma demo_exec_simps [simp]:
  "ex_run (demo_exec out) l c" "ex_linksOk (demo_exec out)"
  "read_up (demo_exec out) b = None"
  "currentDefault (demo_exec out) b t = (trim_space out, True)"
  by (simp_all add: demo_exec_def read_up_def upInterfaces_def currentDefault_def)

lemma demo_planned:
  "b_links b = demo_links \<Longrightarrow> planned (demo_exec out) b =
     [(toNexthop (demo_up ''a'' StatusOnline 1 0))\<lparr>nh_Weight := 256\<rparr>]"
proof -
  have up: "up_links demo_links None = demo_links"
    by (simp add: up_links_def configured_def is_up_def demo_links_def)
  have prim: "primary_links demo_links = demo_links"
    by (simp add: primary_links_def demo_links_def)
  have "primary_max demo_links = 1" by (simp add: primary_max_def prim) (simp add: demo_links_def)
  moreover have "distinct (map l_ID demo_links)" by (simp add: demo_links_def)
  ultimately have "fst (selectNexthops demo_links None)
      = map (\<lambda>l. (toNexthop l)\<lparr>nh_Weight := if l \<in> set demo_links
               then scale_weight 1 (l_Weight l) else 1\<rparr>) demo_links"
    by (simp add: selectNexthops_eq up prim)
  then show "b_links b = demo_links \<Longrightarrow> ?thesis"
    by (simp add: planned_def, simp add: demo_links_def scale_weight_top)
qed

lemma demo_load: "b_config b = demo_config \<Longrightarrow>
    cf_Mode (LoadConfig b) = ModeBalance \<and> cf_Table (LoadConfig b) = ''main'' \<and> Active b"
  by (simp add: LoadConfig_def Active_def demo_config_def normalize_config_def defaultTable_def)

definition demo_balancer :: balancer where "demo_balancer = fresh_balancer demo_links demo_config"

lemma demo_balancer_simps [simp]:
  "b_links demo_balancer = demo_links" "b_config demo_balancer = demo_config"
  "b_pending demo_balancer = None" "b_lastSig demo_balancer = []" "b_log demo_balancer = []"
  by (simp_all add: demo_balancer_def fresh_balancer_def)

lemma demo_args:
  "buildReplaceArgs ''main'' [(toNexthop (demo_up ''a'' StatusOnline 1 0))\<lparr>nh_Weight := 256\<rparr>] =
     Some [''route'', ''replace'', ''default'', ''table'', ''main'',
           ''nexthop'', ''via'', ''a'', ''dev'', ''a'', ''weight'', ''256'', ''onlink'']"
  by (simp add: buildReplaceArgs_def route_prefix_def table_or_default_def nexthop_args_def Let_def
      itoa_def digit_chars nat_digits.simps [of 256] nat_digits.simps [of 25] nat_digits.simps [of 2])

lemma demo_Rebuild:
  assumes "b_links b = demo_links" and "b_config b = demo_config" and "b_pending b = None"
    and "b_lastSig b = []"
  shows "\<exists>b'. Rebuild (demo_exec out) b = (b', None)"
proof (cases rule: Rebuild_cases [of "demo_exec out" b])
  case (idle err)
  have "routeSignature (planned (demo_exec out) b) \<noteq> []"
    using demo_planned [OF assms(1), of out] by (simp add: routeSignature_Nil_iff)
  moreover obtain p where p: "planWith (demo_exec out) b (LoadConfig b) = Some p"
    using planWith_None [of "demo_exec out" b "LoadConfig b"] by auto
  ultimately show ?thesis
    using assms demo_load [OF assms(2)] planWith_Some [OF p] demo_planned [OF assms(1), of out] demo_args
    by (simp add: Rebuild_def Rebuild_body_def Let_def emptySig_def execute_eq)
qed (use demo_planned [OF assms(1), of out] in simp_all)

lemma demo_Apply:
  assumes "b_links b = demo_links" and "b_config b = demo_config"
  shows "\<exists>b' p. Apply (demo_exec out) now arm b = (b', p, None)"
proof -
  have links: "\<exists>p. planWith (demo_exec out) x c = Some p" for x c
    using planWith_None [of "demo_exec out" x c] by auto
  obtain p where p: "planWith (demo_exec out) b (LoadConfig b) = Some p" using links by blast
  then have "pl_Nexthops p = [(toNexthop (demo_up ''a'' StatusOnline 1 0))\<lparr>nh_Weight := 256\<rparr>]"
    using planWith_Some [OF p] demo_planned [OF assms(1), of out] by simp
  then obtain args where "buildReplaceArgs (cf_Table (LoadConfig b)) (pl_Nexthops p) = Some args"
    using demo_load [OF assms(2)] demo_args by simp
  then show ?thesis
    using p links by (auto simp: Apply_defs Let_def execute_eq split: option.split)
qed

definition demo_text :: string where
  "demo_text = ''default nexthop via a dev a weight 256 onlink''"

lemma demo_text_simps:
  "go_fields demo_text = [''default'', ''nexthop'', ''via'', ''a'', ''dev'', ''a'', ''weight'', ''256'', ''onlink'']"
  "trim_space demo_text = demo_text"
  by code_simp+

lemma demo_capture:
  "captureRestore (demo_exec demo_text) b ''main'' =
     Some [''route'', ''replace'', ''default'', ''table'', ''main'',
           ''nexthop'', ''via'', ''a'', ''dev'', ''a'', ''weight'', ''256'', ''onlink'']"
proof -
  have "restoreArgsFromShow demo_text ''main'' =
     Some [''route'', ''replace'', ''default'', ''table'', ''main'',
           ''nexthop'', ''via'', ''a'', ''dev'', ''a'', ''weight'', ''256'', ''onlink'']"
    by code_simp
  moreover have "demo_text \<noteq> []" by (simp add: demo_text_def)
  ultimately show ?thesis
    by (simp add: captureRestore_def demo_text_simps)
qed

lemma demo_armed:
  obtains b' p pr where "Apply (demo_exec demo_text) 0 True demo_balancer = (b', p, None)"
    "b_pending b' = Some pr" "b_links b' = demo_links" "b_config b' = demo_config"
    "pr_restore pr = [''route'', ''replace'', ''default'', ''table'', ''main'',
        ''nexthop'', ''via'', ''a'', ''dev'', ''a'', ''weight'', ''256'', ''onlink'']"
proof -
  obtain b' p where ap: "Apply (demo_exec demo_text) 0 True demo_balancer = (b', p, None)"
    using demo_Apply [of demo_balancer demo_text 0 True] by auto
  have t: "cf_Table (LoadConfig demo_balancer) = ''main''" using demo_load [of demo_balancer] by simp
  from ap show thesis
    by (rule Apply_ok) (rule that [OF ap], simp_all add: t demo_capture, simp)
qed

theorem pending_rollback_protected_witness:
  "\<exists>b p. b_pending b = Some p \<and> bal_reachable b
     \<and> b_pending (timer_callback (demo_exec []) (pr_restore p) b) = None
     \<and> (\<exists>ok. Ran (''ip'' # pr_restore p) ok
          \<in> set (b_log (timer_callback (demo_exec []) (pr_restore p) b)))"
proof -
  obtain b p pr where ap: "Apply (demo_exec demo_text) 0 True demo_balancer = (b, p, None)"
      and pr: "b_pending b = Some pr" "pr_restore pr \<noteq> []"
    by (rule demo_armed) simp
  have "bal_reachable demo_balancer" unfolding demo_balancer_def by (rule reach_fresh)
  then have reach: "bal_reachable b"
    using reach_step [OF _ st_apply [of demo_balancer "demo_exec demo_text" 0 True]] ap by simp
  from pending_rollback_protected [OF reach pr(1), of "demo_exec []"] pr reach show ?thesis by blast
qed

theorem second_apply_loses_original_backup_witness:
  "\<exists>b1 b2 p1 p2 pr. Apply (demo_exec demo_text) 0 True demo_balancer = (b1, p1, None)
     \<and> Apply (demo_exec demo_text) 1 True b1 = (b2, p2, None)
     \<and> b_pending b2 = Some pr \<and> b_log b1 = [Ran (''ip'' # pr_restore pr) True]"
proof -
  obtain b1 p1 where ap: "Apply (demo_exec demo_text) 0 True demo_balancer = (b1, p1, None)"
      and l: "b_links b1 = demo_links" "b_config b1 = demo_config"
    by (rule demo_armed) simp
  obtain b2 p2 where ap2: "Apply (demo_exec demo_text) 1 True b1 = (b2, p2, None)"
    using demo_Apply [OF l] by blast
  let ?legs = "[((toNexthop (demo_up ''a'' StatusOnline 1 0))\<lparr>nh_Weight := 256\<rparr>, [])]"
  have "concat (map shown_leg ?legs)
      = [''nexthop'', ''via'', ''a'', ''dev'', ''a'', ''weight'', ''256'', ''onlink'']"
    by (simp add: shown_leg_def nexthop_args_def Let_def itoa_def digit_chars
        nat_digits.simps [of 256] nat_digits.simps [of 25] nat_digits.simps [of 2])
  then have "\<exists>args pr. buildReplaceArgs (cf_Table (LoadConfig demo_balancer))
        (planned (demo_exec demo_text) demo_balancer) = Some args
      \<and> b_log b1 = b_log demo_balancer @ [Ran (''ip'' # args) True]
      \<and> b_pending b2 = Some pr \<and> pr_restore pr = args"
    by (intro second_apply_loses_original_backup [OF ap, of _ "''default''" "[]" ?legs, OF _ _ _ _ _ _ ap2])
      (simp_all add: demo_text_simps demo_planned showable_def sublist_longer sublist_code)
  with ap ap2 show ?thesis by auto
qed

theorem apply_swallows_wan_recovery_witness:
  "\<exists>b1 p. Apply (demo_exec []) 0 False (demo_balancer\<lparr>b_lastSig := emptySig\<rparr>) = (b1, p, None)
     \<and> (\<exists>es. b_log (fst (Rebuild (demo_exec []) b1)) = b_log b1 @ es \<and> AlertWANBack 1 \<notin> set es)"
proof -
  let ?b = "demo_balancer\<lparr>b_lastSig := emptySig\<rparr>"
  obtain b1 p where ap: "Apply (demo_exec []) 0 False ?b = (b1, p, None)"
    using demo_Apply [of ?b "[]" 0 False] by auto
  obtain b2 err where r: "Rebuild (demo_exec []) b1 = (b2, err)" by fastforce
  have "b_lastSig ?b = emptySig" by simp
  from apply_swallows_wan_recovery [OF this ap] r
  have "\<exists>es. b_log b2 = b_log b1 @ es \<and> AlertWANBack 1 \<notin> set es" by blast
  with ap r show ?thesis by simp
qed

theorem table_change_not_applied_witness:
  "\<exists>b1 p. Apply (demo_exec []) 0 False demo_balancer = (b1, p, None)
     \<and> cf_Table (LoadConfig b1) = ''main''
     \<and> Rebuild (demo_exec []) (SaveConfig (demo_config\<lparr>cf_Table := ''wan''\<rparr>) b1)
         = (SaveConfig (demo_config\<lparr>cf_Table := ''wan''\<rparr>) b1, None)"
proof -
  obtain b1 p where ap: "Apply (demo_exec []) 0 False demo_balancer = (b1, p, None)"
    using demo_Apply [of demo_balancer "[]" 0 False] by auto
  from ap have b1: "b_pending b1 = None" "b_links b1 = demo_links" "b_config b1 = demo_config"
      "b_lastSig b1 = routeSignature (planned (demo_exec []) demo_balancer)"
    by (rule Apply_ok; simp split: option.splits)+
  have "planned (demo_exec []) b1 = planned (demo_exec []) demo_balancer"
    using b1(2) by (simp add: demo_planned)
  then have "Rebuild (demo_exec []) (SaveConfig (demo_config\<lparr>cf_Table := ''wan''\<rparr>) b1)
         = (SaveConfig (demo_config\<lparr>cf_Table := ''wan''\<rparr>) b1, None)"
    using b1 by (intro table_change_not_applied) (simp_all add: demo_config_def demo_planned)
  with ap b1(3) demo_load [of b1] show ?thesis by blast
qed

theorem eviction_guarded_witness:
  "\<exists>es. b_log (EvictDegraded (demo_exec ''1: a inet 10.0.0.1/24'') 7 (demo_up ''a'' StatusDegraded 1 50)
        (fresh_balancer [demo_up ''a'' StatusDegraded 1 50, demo_up ''b'' StatusOnline 1 0] demo_config)) = es
     \<and> flushes es
     \<and> EvictDegraded (demo_exec []) 120000000006 (demo_up ''a'' StatusDegraded 1 50)
         (EvictDegraded (demo_exec ''1: a inet 10.0.0.1/24'') 7 (demo_up ''a'' StatusDegraded 1 50)
            (fresh_balancer [demo_up ''a'' StatusDegraded 1 50, demo_up ''b'' StatusOnline 1 0] demo_config))
       = EvictDegraded (demo_exec ''1: a inet 10.0.0.1/24'') 7 (demo_up ''a'' StatusDegraded 1 50)
            (fresh_balancer [demo_up ''a'' StatusDegraded 1 50, demo_up ''b'' StatusOnline 1 0] demo_config)"
proof -
  let ?e = "demo_exec ''1: a inet 10.0.0.1/24''" and ?l = "demo_up ''a'' StatusDegraded 1 50"
  let ?b = "fresh_balancer [?l, demo_up ''b'' StatusOnline 1 0] demo_config"
  let ?b' = "EvictDegraded ?e 7 ?l ?b"
  have cfg: "LoadConfig ?b = normalize_config demo_config"
    by (simp add: LoadConfig_def fresh_balancer_def)
  have "ex_read ?e l [''ip'', ''-o'', ''-4'', ''addr'', ''show'', ''dev'', i, ''scope'', ''global'']
      = (''1: a inet 10.0.0.1/24'', True)" for l i
    by (simp add: demo_exec_def)
  then have ip: "interfaceIPv4 ?e b i = ''10.0.0.1''" for b i
    by (simp add: interfaceIPv4_def) code_simp
  obtain es0 where "b_log (fst (Rebuild ?e ?b)) = es0"
    by blast
  then have log: "b_log ?b' = b_log ?b @ (es0 @ [Ran [''conntrack'', ''-D'', ''-q'', ''10.0.0.1''] True,
      AlertFailover (l_Name ?l)])"
    by (simp add: EvictDegraded_def cfg evictDecision_def Let_def ip execute_eq)
      (simp add: normalize_config_def demo_config_def fresh_balancer_def)
  moreover have fl: "flushes (es0 @ [Ran [''conntrack'', ''-D'', ''-q'', ''10.0.0.1''] True,
      AlertFailover (l_Name ?l)])"
    by (simp add: flushes_def)
  moreover have "EvictDegraded (demo_exec []) 120000000006 ?l ?b' = ?b'"
  proof -
    have secs: "cf_EvictCooldownSecs (LoadConfig ?b) = 120"
      unfolding cfg by (simp add: normalize_config_def demo_config_def defaultEvictCooldownSecs_def)
    have "\<forall>env2 now2 l2. l_ID l2 = l_ID ?l
           \<and> now2 < 7 + cf_EvictCooldownSecs (LoadConfig ?b) * 1000000000
           \<longrightarrow> EvictDegraded env2 now2 l2 ?b' = ?b'"
      using eviction_guarded [OF refl log fl] by (elim conjE)
    then show ?thesis unfolding secs by simp
  qed
  ultimately show ?thesis by (simp add: fresh_balancer_def)
qed

end
