(* ===== verification/Failover.thy ===== *)
theory Failover
  imports Balancer
begin

text \<open>
  The legacy failover (\<open>internal/failover/service.go\<close>), in charge while the balancer is not:
  on a status change of a link it removes or restores the default route of the link's own
  table, raises the alerts, records an event and starts a cooldown for the link.  The two
  route commands come from \<open>internal/routes/service.go\<close>.

  The executor answers a command with its output and, when it fails, an error text
  (\<open>fe_run\<close>, given everything done before); \<open>fe_validIP\<close> is \<open>net.ParseIP\<close>.  Instants are
  integer nanoseconds.
\<close>

datatype fo_effect =
    FoRan "string list"
  | FoLinkOffline string string
  | FoFailover string
  | FoLinkOnline string string
  | FoLinkDegraded string string real real
  | FoRuleError string
  | FoEvent string string string string "string list" bool string
  | FoMetric

record fo_config =
  fc_Enabled :: bool
  fc_DryRun :: bool
  fc_CooldownSecs :: int

record fo_env =
  fe_run :: "fo_effect list \<Rightarrow> string list \<Rightarrow> string \<times> string option"
  fe_validIP :: "string \<Rightarrow> bool"
  fe_onEvent :: bool

record failover =
  f_cooldown :: "string \<Rightarrow> int option"
  f_log :: "fo_effect list"

definition fo_emit :: "fo_effect list \<Rightarrow> failover \<Rightarrow> failover" where
  "fo_emit es s = s\<lparr>f_log := f_log s @ es\<rparr>"

subsection \<open>Route commands\<close>

definition reRTable :: "string \<Rightarrow> bool" where
  "reRTable s \<longleftrightarrow> s \<noteq> [] \<and> length s \<le> 32
     \<and> list_all (\<lambda>c. (97 \<le> (of_char c :: nat) \<and> (of_char c :: nat) \<le> 122)
                    \<or> (65 \<le> (of_char c :: nat) \<and> (of_char c :: nat) \<le> 90)
                    \<or> is_digit c \<or> c = CHR ''_'') s"

definition optOK :: "string \<Rightarrow> (string \<Rightarrow> bool) \<Rightarrow> bool" where
  "optOK s re \<longleftrightarrow> trim_space s = [] \<or> re (trim_space s)"

definition optIP :: "fo_env \<Rightarrow> string \<Rightarrow> bool" where
  "optIP env s \<longleftrightarrow> trim_space s = [] \<or> fe_validIP env (trim_space s)"

text \<open>The texts with bytes outside ASCII are written out in UTF-8.\<close>

definition invalid_route :: string where
  "invalid_route = ''par'' @ [CHR 0xC3, CHR 0xA2] @ ''metros de rota inv'' @ [CHR 0xC3, CHR 0xA1] @ ''lidos''"

definition AddRoute ::
  "fo_env \<Rightarrow> string \<Rightarrow> string \<Rightarrow> string \<Rightarrow> failover \<Rightarrow> failover \<times> string \<times> string option" where
  "AddRoute env gw iface table s =
     (if \<not> optIP env gw \<or> \<not> optOK iface isValidInterface \<or> \<not> optOK table reRTable
      then (s, [], Some invalid_route)
      else let cmd = [''ip'', ''route'', ''add'', ''default'']
                     @ (if gw \<noteq> [] then [''via'', gw] else [])
                     @ (if iface \<noteq> [] then [''dev'', iface] else [])
                     @ (if table \<noteq> [] then [''table'', table] else []);
               (out, err) = fe_run env (f_log s) cmd
           in (fo_emit [FoRan cmd] s, out, err))"

definition DelRoute :: "fo_env \<Rightarrow> string \<Rightarrow> failover \<Rightarrow> failover \<times> string \<times> string option" where
  "DelRoute env table s =
     (if \<not> optOK table reRTable then (s, [], Some invalid_route)
      else let cmd = [''ip'', ''route'', ''del'', ''default'']
                     @ (if table \<noteq> [] then [''table'', table] else []);
               (out, err) = fe_run env (f_log s) cmd
           in (fo_emit [FoRan cmd] s, out, err))"

subsection \<open>Transitions\<close>

text \<open>Both return the recorded command lines and the error, if any.\<close>

definition arrow :: string where
  "arrow = [CHR '' '', CHR 0xE2, CHR 0x86, CHR 0x92, CHR '' '']"

definition handleLinkDown ::
  "fo_env \<Rightarrow> link \<Rightarrow> failover \<Rightarrow> failover \<times> string list \<times> string option" where
  "handleLinkDown env l s =
     (if l_Gateway l = [] then (s, [], None)
      else let table = itoa (l_TableID l);
               (s1, out, err) = DelRoute env table s
           in (s1, [''ip route del default table '' @ table @ arrow @ out], None))"

definition handleLinkUp ::
  "fo_env \<Rightarrow> link \<Rightarrow> failover \<Rightarrow> failover \<times> string list \<times> string option" where
  "handleLinkUp env l s =
     (if l_Gateway l = [] \<or> l_Interface l = [] then (s, [], None)
      else let table = itoa (l_TableID l);
               (s1, out, err) = AddRoute env (l_Gateway l) (l_Interface l) table s;
               cmds = [''ip route add default via '' @ l_Gateway l @ '' dev '' @ l_Interface l
                       @ '' table '' @ table @ arrow @ out]
           in (s1, cmds, map_option (\<lambda>e. ''restore default route: '' @ e) err))"

definition HandleStatusChange ::
  "fo_config \<Rightarrow> fo_env \<Rightarrow> int \<Rightarrow> link \<Rightarrow> string \<Rightarrow> string \<Rightarrow> failover \<Rightarrow> failover" where
  "HandleStatusChange cfg env now l oldStatus newStatus s =
     (if \<not> fc_Enabled cfg then s
      else if (case f_cooldown s (l_ID l) of None \<Rightarrow> False | Some t \<Rightarrow> now < t) then s
      else
        let (s1, cmds, err) =
              (if newStatus = StatusOffline then
                 (let (s', cmds, err) = handleLinkDown env l s
                  in (fo_emit [FoLinkOffline (l_Name l) (l_ID l), FoFailover (l_Name l)] s', cmds, err))
               else if newStatus = StatusOnline then
                 (let (s', cmds, err) = handleLinkUp env l s
                  in (fo_emit [FoLinkOnline (l_Name l) (l_ID l)] s', cmds, err))
               else if newStatus = StatusDegraded then
                 (fo_emit [FoLinkDegraded (l_Name l) (l_ID l) (l_LatencyMs l) (l_PacketLoss l)] s, [], None)
               else (s, [], None));
            s2 = (case err of None \<Rightarrow> s1
                  | Some e \<Rightarrow> fo_emit [FoRuleError (''Failover for '' @ l_Name l @ '' failed: '' @ e)] s1);
            s3 = fo_emit [FoEvent (l_ID l) (l_Name l) oldStatus newStatus cmds (fc_DryRun cfg)
                            (case err of None \<Rightarrow> [] | Some e \<Rightarrow> e)] s2;
            s4 = (if fe_onEvent env then fo_emit [FoMetric] s3 else s3)
        in s4\<lparr>f_cooldown := (f_cooldown s4)(l_ID l \<mapsto> now + fc_CooldownSecs cfg * 1000000000)\<rparr>)"

subsection \<open>What a transition does to the routes\<close>

lemma fo_emit_simps [simp]:
  "f_log (fo_emit es s) = f_log s @ es" "f_cooldown (fo_emit es s) = f_cooldown s"
  by (simp_all add: fo_emit_def)

text \<open>The routing commands of a log, in order.\<close>

definition fo_commands :: "fo_effect list \<Rightarrow> string list list" where
  "fo_commands es = concat (map (\<lambda>e. case e of FoRan c \<Rightarrow> [c] | _ \<Rightarrow> []) es)"

lemma fo_commands_simps [simp]:
  "fo_commands [] = []" "fo_commands (xs @ ys) = fo_commands xs @ fo_commands ys"
  "fo_commands (e # es) = (case e of FoRan c \<Rightarrow> [c] | _ \<Rightarrow> []) @ fo_commands es"
  by (simp_all add: fo_commands_def)

definition cooling :: "failover \<Rightarrow> link \<Rightarrow> int \<Rightarrow> bool" where
  "cooling s l now \<longleftrightarrow> (case f_cooldown s (l_ID l) of None \<Rightarrow> False | Some t \<Rightarrow> now < t)"

definition fo_wanted :: "fo_env \<Rightarrow> link \<Rightarrow> string \<Rightarrow> string list list" where
  "fo_wanted env l st =
     (if st = StatusOffline \<and> l_Gateway l \<noteq> [] \<and> optOK (itoa (l_TableID l)) reRTable then
        [[''ip'', ''route'', ''del'', ''default'', ''table'', itoa (l_TableID l)]]
      else if st = StatusOnline \<and> l_Gateway l \<noteq> [] \<and> l_Interface l \<noteq> []
              \<and> optIP env (l_Gateway l) \<and> optOK (l_Interface l) isValidInterface
              \<and> optOK (itoa (l_TableID l)) reRTable then
        [[''ip'', ''route'', ''add'', ''default'', ''via'', l_Gateway l, ''dev'', l_Interface l,
          ''table'', itoa (l_TableID l)]]
      else [])"

lemma itoa_not_Nil [simp]: "itoa i \<noteq> []"
  by (rule token_not_Nil) simp

lemma handleLinkDown_commands:
  "fo_commands (f_log (fst (handleLinkDown env l s))) =
     fo_commands (f_log s) @ fo_wanted env l StatusOffline"
  "f_cooldown (fst (handleLinkDown env l s)) = f_cooldown s"
  "snd (snd (handleLinkDown env l s)) = None"
  by (simp_all add: handleLinkDown_def DelRoute_def fo_wanted_def Let_def split: prod.splits)

lemma handleLinkUp_commands:
  "fo_commands (f_log (fst (handleLinkUp env l s))) =
     fo_commands (f_log s) @ fo_wanted env l StatusOnline"
  "f_cooldown (fst (handleLinkUp env l s)) = f_cooldown s"
  by (auto simp: handleLinkUp_def AddRoute_def fo_wanted_def Let_def split: prod.splits)

lemma fo_wanted_other:
  "st \<noteq> StatusOffline \<Longrightarrow> st \<noteq> StatusOnline \<Longrightarrow> fo_wanted env l st = []"
  by (simp add: fo_wanted_def)

lemma HandleStatusChange_commands:
  assumes "fc_Enabled cfg" and "\<not> cooling s l now"
  shows "fo_commands (f_log (HandleStatusChange cfg env now l old new s)) =
           fo_commands (f_log s) @ fo_wanted env l new
       \<and> f_cooldown (HandleStatusChange cfg env now l old new s) =
           (f_cooldown s)(l_ID l \<mapsto> now + fc_CooldownSecs cfg * 1000000000)"
proof -
  consider "new = StatusOffline" | "new = StatusOnline" | "new \<noteq> StatusOffline" "new \<noteq> StatusOnline"
    by blast
  then show ?thesis
  proof cases
    case 1
    obtain s' cmds err where h: "handleLinkDown env l s = (s', cmds, err)" by (metis prod_cases3)
    from 1 show ?thesis
      using assms handleLinkDown_commands [of env l s]
      by (simp add: HandleStatusChange_def cooling_def Let_def h)
  next
    case 2
    obtain s' cmds err where h: "handleLinkUp env l s = (s', cmds, err)" by (metis prod_cases3)
    from 2 show ?thesis
      using assms handleLinkUp_commands [of env l s]
      by (simp add: HandleStatusChange_def cooling_def Let_def h split: option.split)
  next
    case 3
    then show ?thesis
      using assms by (simp add: HandleStatusChange_def cooling_def Let_def fo_wanted_other split: option.split)
  qed
qed

lemma HandleStatusChange_cooling:
  "cooling s l now \<Longrightarrow> HandleStatusChange cfg env now l old new s = s"
  by (simp add: HandleStatusChange_def cooling_def)

text \<open>The transitions of one link, each with its instant, in the order they are reported.\<close>

definition handle_all ::
  "fo_config \<Rightarrow> fo_env \<Rightarrow> link \<Rightarrow> (int \<times> string \<times> string) list \<Rightarrow> failover \<Rightarrow> failover" where
  "handle_all cfg env l trs s =
     foldl (\<lambda>s (now, old, new). HandleStatusChange cfg env now l old new s) s trs"

lemma handle_all_cooling:
  assumes "f_cooldown s (l_ID l) = Some t" and "list_all (\<lambda>tr. fst tr < t) trs"
  shows "handle_all cfg env l trs s = s"
  using assms(2)
proof (induction trs)
  case (Cons tr trs)
  obtain now old new where tr: "tr = (now, old, new)" by (metis prod_cases3)
  with Cons.prems assms(1) have "HandleStatusChange cfg env now l old new s = s"
    by (intro HandleStatusChange_cooling) (simp add: cooling_def)
  with Cons tr show ?case by (simp add: handle_all_def)
qed (simp add: handle_all_def)

subsection \<open>Properties\<close>

text \<open>What failover does on a transition it handles: going offline deletes the default route
  of the link's table, coming online adds it back through the link's gateway and interface,
  every other transition runs no command (an incomplete or invalid link runs none either);
  and the link's cooldown restarts.\<close>

theorem failover_commands:
  assumes "fc_Enabled cfg" and "\<not> cooling s l now"
  shows "fo_commands (f_log (HandleStatusChange cfg env now l old new s)) =
           fo_commands (f_log s)
           @ (if new = StatusOffline \<and> l_Gateway l \<noteq> [] \<and> optOK (itoa (l_TableID l)) reRTable then
                [[''ip'', ''route'', ''del'', ''default'', ''table'', itoa (l_TableID l)]]
              else if new = StatusOnline \<and> l_Gateway l \<noteq> [] \<and> l_Interface l \<noteq> []
                      \<and> optIP env (l_Gateway l) \<and> optOK (l_Interface l) isValidInterface
                      \<and> optOK (itoa (l_TableID l)) reRTable then
                [[''ip'', ''route'', ''add'', ''default'', ''via'', l_Gateway l, ''dev'', l_Interface l,
                  ''table'', itoa (l_TableID l)]]
              else [])
       \<and> f_cooldown (HandleStatusChange cfg env now l old new s) =
           (f_cooldown s)(l_ID l \<mapsto> now + fc_CooldownSecs cfg * 1000000000)"
  using HandleStatusChange_commands [OF assms] by (simp only: fo_wanted_def)

text \<open>Failover can leave a working link without its route: after an outage is handled, the
  transitions reported before the cooldown ends, a recovery to online among them, are
  dropped for good, and a recovery to degraded after it runs no command, so in both cases
  the last command on the link's table is still the deletion.\<close>

theorem failover_drops_recovery:
  assumes "fc_Enabled cfg" and "\<not> cooling s l t0" and "l_Gateway l \<noteq> []"
    and "optOK (itoa (l_TableID l)) reRTable"
    and "s1 = HandleStatusChange cfg env t0 l StatusOnline StatusOffline s"
    and "list_all (\<lambda>tr. fst tr < t0 + fc_CooldownSecs cfg * 1000000000) trs"
    and "t0 + fc_CooldownSecs cfg * 1000000000 \<le> t1"
  shows "handle_all cfg env l trs s1 = s1
    \<and> fo_commands (f_log (HandleStatusChange cfg env t1 l StatusOffline StatusDegraded s1)) =
        fo_commands (f_log s)
        @ [[''ip'', ''route'', ''del'', ''default'', ''table'', itoa (l_TableID l)]]"
proof -
  note h = HandleStatusChange_commands [OF assms(1,2), of env StatusOnline StatusOffline]
  then have c: "f_cooldown s1 (l_ID l) = Some (t0 + fc_CooldownSecs cfg * 1000000000)"
    by (simp add: assms(5))
  then have "\<not> cooling s1 l t1" using assms(7) by (simp add: cooling_def)
  from HandleStatusChange_commands [OF assms(1) this, of env StatusOffline StatusDegraded]
  have "fo_commands (f_log (HandleStatusChange cfg env t1 l StatusOffline StatusDegraded s1)) =
      fo_commands (f_log s1)" by (simp add: fo_wanted_def)
  moreover have "fo_commands (f_log s1) = fo_commands (f_log s)
      @ [[''ip'', ''route'', ''del'', ''default'', ''table'', itoa (l_TableID l)]]"
    using h assms(3,4) by (simp add: assms(5) fo_wanted_def)
  ultimately show ?thesis using handle_all_cooling [OF c assms(6)] by simp
qed

subsection \<open>Concrete runs\<close>

definition demo_fo_config :: fo_config where
  "demo_fo_config = \<lparr>fc_Enabled = True, fc_DryRun = False, fc_CooldownSecs = 60\<rparr>"

definition demo_fo_env :: fo_env where
  "demo_fo_env = \<lparr>fe_run = (\<lambda>_ _. ([], None)), fe_validIP = (\<lambda>_. True), fe_onEvent = False\<rparr>"

definition demo_failover :: failover where
  "demo_failover = \<lparr>f_cooldown = Map.empty, f_log = []\<rparr>"

lemma demo_failover_simps [simp]:
  "fc_Enabled demo_fo_config" "fc_CooldownSecs demo_fo_config = 60" "\<not> cooling demo_failover l t"
  "f_log demo_failover = []" "l_TableID (demo_link i st) = 100" "l_Gateway (demo_link i st) = i"
  "l_Interface (demo_link i st) = i" "l_ID (demo_link i st) = i"
  by (simp_all add: demo_fo_config_def cooling_def demo_failover_def demo_link_def)

lemma demo_table: "itoa 100 = ''100''" "optOK ''100'' reRTable" "optOK ''w'' isValidInterface" "optIP demo_fo_env i"
  by (code_simp, code_simp, code_simp, simp add: optIP_def demo_fo_env_def)

theorem failover_commands_witness:
  "fo_commands (f_log (HandleStatusChange demo_fo_config demo_fo_env 0 (demo_link ''w'' StatusOnline)
      StatusOffline StatusOnline demo_failover)) =
     [[''ip'', ''route'', ''add'', ''default'', ''via'', ''w'', ''dev'', ''w'', ''table'', ''100'']]"
  using failover_commands [of demo_fo_config demo_failover "demo_link ''w'' StatusOnline" 0
      demo_fo_env StatusOffline StatusOnline]
  by (simp add: demo_table)

theorem failover_drops_recovery_witness:
  "fo_commands (f_log (handle_all demo_fo_config demo_fo_env (demo_link ''w'' StatusOnline)
      [(20000000000, StatusOffline, StatusOnline)]
      (HandleStatusChange demo_fo_config demo_fo_env 0 (demo_link ''w'' StatusOnline)
        StatusOnline StatusOffline demo_failover))) =
     [[''ip'', ''route'', ''del'', ''default'', ''table'', ''100'']]"
proof -
  let ?l = "demo_link ''w'' StatusOnline"
  let ?s1 = "HandleStatusChange demo_fo_config demo_fo_env 0 ?l StatusOnline StatusOffline demo_failover"
  have "handle_all demo_fo_config demo_fo_env ?l [(20000000000, StatusOffline, StatusOnline)] ?s1 = ?s1"
    by (rule failover_drops_recovery [of _ demo_failover ?l 0 _ _ _ 60000000000, THEN conjunct1])
      (simp_all add: demo_table)
  then show ?thesis
    using failover_commands [of demo_fo_config demo_failover ?l 0 demo_fo_env StatusOnline StatusOffline]
    by (simp add: demo_table)
qed

end
