(* ===== verification/BalancerThreads.thy ===== *)
theory BalancerThreads
  imports Balancer
begin

text \<open>
  The balancer with its goroutines interleaved.  A routing change is the critical section of \<open>Rebuild\<close> or the
  command of an \<open>Apply\<close>; the signature of an apply is written later, under another lock.  Everything else the
  service and the rest of the program do (alerts, links, cooldowns, schedules, confirmations, arming and
  cancelling a rollback, the mode) is a step that runs no routing command and leaves the signature alone.  As long as
  no routing change begins between the command of an apply and its signature, a reconciliation that succeeds
  has the planned route installed; with that overlap it may report success over a route nobody planned.
\<close>

text \<open>A step that runs no routing command, writes no signature and keeps the routing table.\<close>

definition quiet_step :: "balancer \<Rightarrow> balancer \<Rightarrow> bool" where
  "quiet_step b b' \<longleftrightarrow> quiet_since (b_log b) b' \<and> b_lastSig b' = b_lastSig b
     \<and> cf_Table (LoadConfig b') = cf_Table (LoadConfig b)"

text \<open>Histories of one routing table, and the apply whose command ran and whose signature is not yet written.\<close>

inductive route_history :: "string \<Rightarrow> balancer \<Rightarrow> applying option \<Rightarrow> bool" for table where
  hist_fresh: "cf_Table (normalize_config c) = table \<Longrightarrow> route_history table (fresh_balancer ls c) None"
| hist_quiet: "route_history table b f \<Longrightarrow> quiet_step b b' \<Longrightarrow> route_history table b' f"
| hist_rebuild: "route_history table b None \<Longrightarrow> cf_Table cfg = table
    \<Longrightarrow> route_history table (fst (Rebuild_body env cfg b)) None"
| hist_refused: "route_history table b None \<Longrightarrow> Apply_run env b = (b', Inl e) \<Longrightarrow> route_history table b' None"
| hist_run: "route_history table b None \<Longrightarrow> Apply_run env b = (b', Inr a) \<Longrightarrow> route_history table b' (Some a)"
| hist_sign: "route_history table b (Some a) \<Longrightarrow> route_history table (Apply_sign a b) None"

lemma installed_quiet: "list_all (\<lambda>e. \<not> touches_routes e) es \<Longrightarrow> installed (l @ es) = installed l"
proof (induction es rule: rev_induct)
  case (snoc e es)
  have "installed (l @ es @ [e]) = installed (l @ es)"
    using snoc.prems by (simp only: append_assoc [symmetric] installed_snoc)
      (auto simp: touches_routes_def split: bal_effect.splits list.splits)
  with snoc show ?case by simp
qed simp

lemma quiet_installed: "quiet_step b b' \<Longrightarrow> installed (b_log b') = installed (b_log b)"
  by (auto simp: quiet_step_def quiet_since_def installed_quiet)

lemma Apply_run_table: "Apply_run env b = (b', r) \<Longrightarrow> b_config b' = b_config b \<and> b_lastSig b' = b_lastSig b"
  by (auto simp: Apply_run_def Let_def execute_eq split: option.splits if_splits)

lemma Apply_run_refused: "Apply_run env b = (b', Inl e) \<Longrightarrow> installed (b_log b') = installed (b_log b)"
  by (auto simp: Apply_run_def Let_def execute_eq split: option.splits if_splits)

lemma Apply_run_ran:
  assumes "Apply_run env b = (b', Inr a)"
  shows "\<exists>args. buildReplaceArgs (cf_Table (LoadConfig b)) (pl_Nexthops (ap_plan a)) = Some args
    \<and> installed (b_log b') = Some args \<and> pl_Nexthops (ap_plan a) = planned env b"
  using assms planWith_Some [of env b "LoadConfig b"]
  by (auto simp: Apply_run_def Let_def execute_eq split: option.splits if_splits)

text \<open>Between the command and the signature the kernel has the route of the apply.\<close>

lemma route_history_synced:
  "route_history table b f \<Longrightarrow>
     cf_Table (LoadConfig b) = table
     \<and> (case f of None \<Rightarrow> synced table b
        | Some a \<Rightarrow> \<exists>args. buildReplaceArgs table (pl_Nexthops (ap_plan a)) = Some args \<and> installed (b_log b) = Some args)"
proof (induction rule: route_history.induct)
  case (hist_fresh c ls)
  then show ?case by (simp add: synced_def LoadConfig_def fresh_balancer_def)
next
  case (hist_quiet b f b')
  then show ?case
    using quiet_installed [OF hist_quiet(2)]
    by (auto simp: synced_def route_of_signature_def quiet_step_def split: option.splits)
next
  case (hist_rebuild b cfg env)
  then have "synced table (fst (Rebuild_body env cfg b))" by (simp add: synced_Rebuild_body)
  then show ?case by (simp add: synced_def)
next
  case (hist_refused b env b' e)
  then show ?case
    using Apply_run_table [OF hist_refused(2)] Apply_run_refused [OF hist_refused(2)]
    by (auto simp: synced_def route_of_signature_def LoadConfig_def)
next
  case (hist_run b env b' a)
  then show ?case using Apply_run_table [OF hist_run(2)] Apply_run_ran [OF hist_run(2)] by (auto simp: LoadConfig_def)
next
  case (hist_sign b a)
  then obtain args where "buildReplaceArgs table (pl_Nexthops (ap_plan a)) = Some args" "installed (b_log b) = Some args"
    by auto
  then have "route_of_signature (Apply_sign a b) table"
    by (intro route_of_signatureI [of _ "pl_Nexthops (ap_plan a)" args]) (simp_all add: Apply_sign_def)
  with hist_sign show ?case by (simp add: synced_def Apply_sign_def LoadConfig_def)
qed

subsection \<open>The operations are such steps\<close>

lemma quiet_refl: "quiet_step b b"
  by (simp add: quiet_step_def)

lemma quiet_same:
  "b_log b' = b_log b \<Longrightarrow> b_lastSig b' = b_lastSig b \<Longrightarrow> b_config b' = b_config b \<Longrightarrow> quiet_step b b'"
  by (simp add: quiet_step_def quiet_since_def LoadConfig_def)

lemma quiet_emit: "\<not> touches_routes e \<Longrightarrow> quiet_step b (emit e b)"
  by (simp add: quiet_step_def quiet_since_def LoadConfig_def)

interpretation history: background_closed "\<lambda>b. route_history table b None"
proof unfold_locales
  fix env b
  assume h: "route_history table b None"
  then have "cf_Table (LoadConfig b) = table" using route_history_synced by blast
  with h show "route_history table (fst (Rebuild env b)) None" by (auto simp: Rebuild_def Let_def intro: hist_rebuild)
next
  fix e b
  assume "\<And>c ok. e \<noteq> Ran c ok" and h: "route_history table b None"
  then have "quiet_step b (emit e b)" by (intro quiet_emit touches_routes_simps(2))
  with h show "route_history table (emit e b) None" by (rule hist_quiet)
qed (erule hist_quiet, simp add: quiet_emit quiet_same)+

lemma quiet_cancel: "quiet_step b (fst (cancelPending b))"
  by (auto simp: cancelPending_def quiet_same split: option.splits)

lemma quiet_arm: "quiet_step b (armRollback r now d b)"
  by (simp add: armRollback_def quiet_same)

lemma history_Apply:
  assumes "route_history table b None"
  shows "route_history table (fst (Apply env now arm b)) None"
proof (cases "Apply_run env b")
  case (Pair b1 r)
  show ?thesis
  proof (cases r)
    case (Inl e)
    with Pair show ?thesis by (cases e) (auto simp: Apply_def intro: hist_refused [OF assms])
  next
    case (Inr a)
    have "route_history table (Apply_sign a b1) None"
      using hist_sign [OF hist_run [OF assms]] Pair Inr by simp
    then have c: "route_history table (fst (cancelPending (Apply_sign a b1))) None" by (rule hist_quiet [OF _ quiet_cancel])
    then have "route_history table (fst (Apply_arm env now arm a (Apply_sign a b1))) None"
      by (auto simp: Apply_arm_def Let_def intro: hist_quiet [OF _ quiet_arm] split: option.splits)
    with Pair Inr show ?thesis by (simp add: Apply_def)
  qed
qed

text \<open>A history in which the operations run one after the other is one of these.\<close>

lemma history_operations:
  assumes "route_history table b None"
  shows "background b b' \<Longrightarrow> route_history table b' None"
    and "route_history table (fst (Apply env now arm b)) None"
    and "route_history table (fst (Confirm b)) None"
  using assms
  by (auto intro: history.background history_Apply hist_quiet quiet_cancel simp: Confirm_def)

subsection \<open>Properties\<close>

text \<open>C23. A reconciliation that gets to its critical section and reports success leaves the planned route in the
  kernel: after any history of routing changes by reconciliations and applies on one routing table, interleaved with
  any steps that run no routing command and write no signature, and provided no routing change began between the
  command of an apply and its signature, the last routing command the kernel accepted is the one that installs next
  hops with the signature of the current plan, whether this pass wrote it or skipped the write.  (Rollbacks run a
  routing command and are not in these histories.)\<close>

theorem rebuild_success_means_installed:
  assumes "route_history table b None" and "cf_Table cfg = table"
    and "Rebuild_body env cfg b = (b', None)"
  shows "\<exists>nhs. nhs \<noteq> [] \<and> installed (b_log b') = buildReplaceArgs table nhs
           \<and> routeSignature nhs = routeSignature (planned env b)"
proof -
  have sync: "synced table b" using route_history_synced [OF assms(1)] by simp
  show ?thesis
  proof (cases rule: Rebuild_body_cases [of env cfg b])
    case (idle err)
    with assms have sig: "b_lastSig b = routeSignature (planned env b)" "planned env b \<noteq> []" "b' = b"
      by auto
    then have "route_of_signature b table"
      using sync routeSignature_not_emptySig [of "planned env b"]
      by (auto simp: synced_def routeSignature_Nil_iff)
    then show ?thesis unfolding route_of_signature_def sig(1,3) by metis
  next
    case (route b1 args)
    have "b_log b' = b_log b1 @ [Ran (''ip'' # args) True]"
      using assms(3) unfolding route(5) by (simp split: if_splits) auto
    then have "installed (b_log b') = Some args" by (simp only: installed_snoc) simp
    with route(1,3) assms(2) show ?thesis by (intro exI [of _ "planned env b"]) simp
  qed (use assms in simp)
qed

theorem rebuild_success_means_installed_witness:
  "\<exists>b' nhs. Rebuild (demo_exec []) demo_balancer = (b', None) \<and> nhs \<noteq> []
     \<and> installed (b_log b') = buildReplaceArgs ''main'' nhs"
proof -
  have l: "Active demo_balancer" "cf_Table (LoadConfig demo_balancer) = ''main''" using demo_load [of demo_balancer] by simp_all
  obtain b' where r: "Rebuild (demo_exec []) demo_balancer = (b', None)"
    using demo_Rebuild [of demo_balancer "[]"] by auto
  then have body: "Rebuild_body (demo_exec []) (LoadConfig demo_balancer) demo_balancer = (b', None)"
    using Rebuild_passes [OF l(1), of "demo_exec []"] by simp
  have "route_history ''main'' demo_balancer None"
    unfolding demo_balancer_def
    by (rule hist_fresh) (simp add: demo_config_def normalize_config_def defaultTable_def)
  from rebuild_success_means_installed [OF this l(2) body]
  have "\<exists>nhs. nhs \<noteq> [] \<and> installed (b_log b') = buildReplaceArgs ''main'' nhs
      \<and> routeSignature nhs = routeSignature (planned (demo_exec []) demo_balancer)" .
  with r show ?thesis by blast
qed

text \<open>With that overlap the success may be hollow.  When a reconciliation installs its route between the command
  of an apply and its signature, the kernel has the route of the reconciliation and the service remembers the
  signature of the apply: from then on every reconciliation whose plan has the signature of the apply reports
  success and runs no command, while the kernel keeps the other route.\<close>

theorem overlapping_apply_hides_the_installed_route:
  assumes "Apply_run env1 b0 = (b, Inr a)" and "quiet_step b b1"
    and "Rebuild_body env2 cfg b1 = (b2, None)" and "b_lastSig b1 \<noteq> routeSignature (planned env2 b1)"
    and "quiet_step (Apply_sign a b2) b3"
    and "ex_linksOk env3" and "routeSignature (planned env3 b3) = routeSignature (pl_Nexthops (ap_plan a))"
  shows "Rebuild_body env3 cfg b3 = (b3, None)
    \<and> installed (b_log b3) = buildReplaceArgs (cf_Table cfg) (planned env2 b1)"
proof -
  obtain args where a: "pl_Nexthops (ap_plan a) = planned env1 b0" "planned env1 b0 \<noteq> []"
    using Apply_run_ran [OF assms(1)] by (metis buildReplaceArgs_None option.distinct(1))
  have sig: "b_lastSig b3 = routeSignature (planned env3 b3)"
    using assms(5,7) by (simp add: quiet_step_def Apply_sign_def)
  have ne: "planned env3 b3 \<noteq> []" "b_lastSig b3 \<noteq> emptySig"
    using assms(7) a routeSignature_Nil_iff routeSignature_not_emptySig sig by metis+
  obtain p where p: "planWith env3 b3 cfg = Some p" using assms(6) planWith_None [of env3 b3 cfg] by auto
  obtain args3 where "buildReplaceArgs (cf_Table cfg) (planned env3 b3) = Some args3"
    using ne(1) by (cases "buildReplaceArgs (cf_Table cfg) (planned env3 b3)") auto
  then have "Rebuild_body env3 cfg b3 = (b3, None)"
    using p planWith_Some [OF p] sig ne(2) by (simp add: Rebuild_body_def Let_def)
  moreover have "installed (b_log b2) = buildReplaceArgs (cf_Table cfg) (planned env2 b1)"
  proof (cases rule: Rebuild_body_cases [of env2 cfg b1])
    case (route b' args)
    then have "b_log b2 = b_log b' @ [Ran (''ip'' # args) True]"
      using assms(3) by (auto split: if_splits)
    then have "installed (b_log b2) = Some args" by (simp only: installed_snoc) simp
    with route(3) show ?thesis by simp
  qed (use assms(3,4) in auto)
  moreover have "installed (b_log b3) = installed (b_log b2)"
    using quiet_installed [OF assms(5)] by (simp add: Apply_sign_def)
  ultimately show ?thesis by simp
qed

text \<open>An apply of one link, a change to another before the signature, and the way back.\<close>

definition one_link :: "string \<Rightarrow> link list" where
  "one_link x = [demo_up x StatusOnline 1 0]"

lemma one_link_planned:
  assumes "x \<noteq> []" and "b_links b = one_link x"
  shows "planned (demo_exec out) b = [(toNexthop (demo_up x StatusOnline 1 0))\<lparr>nh_Weight := 256\<rparr>]"
proof -
  have up: "up_links (one_link x) None = one_link x"
    using assms(1) by (simp add: up_links_def configured_def is_up_def one_link_def)
  have prim: "primary_links (one_link x) = one_link x"
    by (simp add: primary_links_def one_link_def)
  have "primary_max (one_link x) = 1" by (simp add: primary_max_def prim) (simp add: one_link_def)
  moreover have "distinct (map l_ID (one_link x))" by (simp add: one_link_def)
  ultimately have "fst (selectNexthops (one_link x) None)
      = map (\<lambda>l. (toNexthop l)\<lparr>nh_Weight := if l \<in> set (one_link x)
               then scale_weight 1 (l_Weight l) else 1\<rparr>) (one_link x)"
    by (simp add: selectNexthops_eq up prim)
  then show ?thesis using assms(2) by (simp add: planned_def, simp add: one_link_def scale_weight_top)
qed

lemma one_link_links: "demo_links = one_link ''a''"
  by (simp add: demo_links_def one_link_def)

theorem overlapping_apply_hides_the_installed_route_witness:
  "\<exists>a b b2. Apply_run (demo_exec []) demo_balancer = (b, Inr a)
     \<and> Rebuild_body (demo_exec []) (LoadConfig demo_balancer) (b\<lparr>b_links := one_link ''b''\<rparr>) = (b2, None)
     \<and> Rebuild_body (demo_exec []) (LoadConfig demo_balancer) ((Apply_sign a b2)\<lparr>b_links := one_link ''a''\<rparr>)
         = ((Apply_sign a b2)\<lparr>b_links := one_link ''a''\<rparr>, None)"
proof -
  let ?e = "demo_exec []" and ?cfg = "LoadConfig demo_balancer"
  have plans: "\<exists>p. planWith ?e x ?cfg = Some p" for x using planWith_None [of ?e x ?cfg] by auto
  have pl: "planned ?e x = [(toNexthop (demo_up n StatusOnline 1 0))\<lparr>nh_Weight := 256\<rparr>]" if "b_links x = one_link n" "n \<noteq> []" for x n
    using one_link_planned [OF that(2,1)] .
  obtain p where p: "planWith ?e demo_balancer ?cfg = Some p" using plans by blast
  then have nh: "pl_Nexthops p = planned ?e demo_balancer" by (simp add: planWith_Some)
  obtain args where "buildReplaceArgs (cf_Table ?cfg) (planned ?e demo_balancer) = Some args"
    using pl [of demo_balancer "''a''"] buildReplaceArgs_None by (metis demo_balancer_simps(1) list.distinct(1) not_None_eq one_link_links)
  then have "\<exists>b a. Apply_run ?e demo_balancer = (b, Inr a) \<and> ap_plan a = p"
    unfolding Apply_run_def by (simp add: p nh Let_def execute_eq)
  then obtain a b where run: "Apply_run ?e demo_balancer = (b, Inr a)" "ap_plan a = p" by blast
  let ?b1 = "b\<lparr>b_links := one_link ''b''\<rparr>"
  have s0: "b_lastSig b = []" using Apply_run_table [OF run(1)] by simp
  have p1: "planned ?e ?b1 \<noteq> []" using pl [of ?b1 "''b''"] by simp
  then have "routeSignature (planned ?e ?b1) \<noteq> []" by (simp only: routeSignature_Nil_iff) simp
  then have ns: "b_lastSig ?b1 \<noteq> routeSignature (planned ?e ?b1)" using s0 by auto
  obtain q where q: "planWith ?e ?b1 ?cfg = Some q" using plans by blast
  obtain args1 where "buildReplaceArgs (cf_Table ?cfg) (planned ?e ?b1) = Some args1"
    using p1 buildReplaceArgs_None by (metis not_None_eq)
  moreover have "pl_Nexthops q = planned ?e ?b1" using planWith_Some [OF q] by blast
  moreover have "b_lastSig ?b1 \<noteq> emptySig" using s0 by (simp add: emptySig_def)
  ultimately have "\<exists>b2. Rebuild_body ?e ?cfg ?b1 = (b2, None)"
    unfolding Rebuild_body_def using ns by (simp add: q Let_def execute_eq)
  then obtain b2 where body: "Rebuild_body ?e ?cfg ?b1 = (b2, None)" by blast
  let ?b3 = "(Apply_sign a b2)\<lparr>b_links := one_link ''a''\<rparr>"
  have "planned ?e ?b3 = planned ?e demo_balancer"
    using pl [of ?b3 "''a''"] pl [of demo_balancer "''a''"] by (simp add: one_link_links)
  then have "routeSignature (planned ?e ?b3) = routeSignature (pl_Nexthops (ap_plan a))" using run(2) nh by simp
  from overlapping_apply_hides_the_installed_route [OF run(1) _ body ns _ _ this]
  have "Rebuild_body ?e ?cfg ?b3 = (?b3, None)" by (simp add: quiet_same)
  with run(1) body show ?thesis by blast
qed

end
