(* ===== verification/NetText.thy ===== *)
theory NetText
  imports Prelude
begin

text \<open>
  The parts of Go's standard library that the firewall generator (\<open>internal/nftables\<close>) reads
  text with: \<open>strings.ToLower\<close>, \<open>strings.Trim\<close>, the \<open>%q\<close> verb, \<open>strconv.Atoi\<close> on digits, the
  address parser of \<open>net\<close>/\<open>net/netip\<close> (\<open>ParseIP\<close>, \<open>ParseCIDR\<close>, \<open>To4\<close>, \<open>String\<close>) and the regular
  expressions of the generator as predicates on characters.

  Texts are ASCII.  A \<open>net.IP\<close> is its list of bytes (16 of them after parsing, 4 for an
  IPv4 network).  A zone (\<open>%eth0\<close>) makes \<open>ParseIP\<close> and \<open>ParseCIDR\<close> fail, so it is never kept.
\<close>

subsection \<open>Characters and strings\<close>

definition is_lower :: "char \<Rightarrow> bool" where
  "is_lower c \<longleftrightarrow> 97 \<le> (of_char c :: nat) \<and> (of_char c :: nat) \<le> 122"

definition is_upper :: "char \<Rightarrow> bool" where
  "is_upper c \<longleftrightarrow> 65 \<le> (of_char c :: nat) \<and> (of_char c :: nat) \<le> 90"

definition lower_char :: "char \<Rightarrow> char" where
  "lower_char c = (if is_upper c then char_of ((of_char c :: nat) + 32) else c)"

definition go_lower :: "string \<Rightarrow> string" where
  "go_lower s = map lower_char s"

text \<open>\<open>strings.Trim(s, cutset)\<close> for a cutset of one byte.\<close>

definition trim_char :: "char \<Rightarrow> string \<Rightarrow> string" where
  "trim_char c s = rev (dropWhile ((=) c) (rev (dropWhile ((=) c) s)))"

definition dquote :: string where "dquote = [CHR 0x22]"

definition hex_digit :: "nat \<Rightarrow> char" where
  "hex_digit d = (if d < 10 then char_of (48 + d) else char_of (87 + d))"

text \<open>One byte under \<open>%q\<close>.\<close>

definition quote_char :: "char \<Rightarrow> string" where
  "quote_char c =
     (if c = CHR 0x22 then [CHR 0x5C, CHR 0x22]
      else if c = CHR 0x5C then [CHR 0x5C, CHR 0x5C]
      else if 32 \<le> (of_char c :: nat) \<and> (of_char c :: nat) < 127 then [c]
      else if c = CHR 0x07 then [CHR 0x5C, CHR ''a'']
      else if c = CHR 0x08 then [CHR 0x5C, CHR ''b'']
      else if c = CHR 0x0C then [CHR 0x5C, CHR ''f'']
      else if c = CHR 0x0A then [CHR 0x5C, CHR ''n'']
      else if c = CHR 0x0D then [CHR 0x5C, CHR ''r'']
      else if c = CHR 0x09 then [CHR 0x5C, CHR ''t'']
      else if c = CHR 0x0B then [CHR 0x5C, CHR ''v'']
      else [CHR 0x5C, CHR ''x'', hex_digit (of_char c div 16), hex_digit (of_char c mod 16)])"

definition go_quote :: "string \<Rightarrow> string" where
  "go_quote s = dquote @ concat (map quote_char s) @ dquote"

fun digits_value :: "nat \<Rightarrow> string \<Rightarrow> nat" where
  "digits_value acc [] = acc"
| "digits_value acc (c # cs) = digits_value (acc * 10 + (of_char c - 48)) cs"

definition all_digits :: "string \<Rightarrow> bool" where
  "all_digits s \<longleftrightarrow> s \<noteq> [] \<and> list_all is_digit s"

subsection \<open>The regular expressions of the generator\<close>

text \<open>\<open>^[a-zA-Z0-9._-]{1,15}$\<close>\<close>

definition iface_char :: "char \<Rightarrow> bool" where
  "iface_char c \<longleftrightarrow> is_lower c \<or> is_upper c \<or> is_digit c \<or> c = CHR ''.'' \<or> c = CHR ''_'' \<or> c = CHR ''-''"

definition reIface :: "string \<Rightarrow> bool" where
  "reIface s \<longleftrightarrow> 1 \<le> length s \<and> length s \<le> 15 \<and> list_all iface_char s"

text \<open>\<open>^[0-9]{1,5}(-[0-9]{1,5})?$\<close>\<close>

definition port_digits :: "string \<Rightarrow> bool" where
  "port_digits s \<longleftrightarrow> 1 \<le> length s \<and> length s \<le> 5 \<and> list_all is_digit s"

definition rePort :: "string \<Rightarrow> bool" where
  "rePort s \<longleftrightarrow>
     (case go_cut s ''-'' of
        None \<Rightarrow> port_digits s
      | Some (a, b) \<Rightarrow> port_digits a \<and> port_digits b)"

text \<open>\<open>^([01][0-9]|2[0-3]):[0-5][0-9]$\<close>\<close>

fun reHHMM :: "string \<Rightarrow> bool" where
  "reHHMM [a, b, c, d, e] \<longleftrightarrow>
     ((a = CHR ''0'' \<or> a = CHR ''1'') \<and> is_digit b
      \<or> a = CHR ''2'' \<and> (b = CHR ''0'' \<or> b = CHR ''1'' \<or> b = CHR ''2'' \<or> b = CHR ''3''))
     \<and> c = CHR '':'' \<and> is_digit d \<and> (of_char d :: nat) \<le> 53 \<and> is_digit e"
| "reHHMM _ \<longleftrightarrow> False"

subsection \<open>Addresses\<close>

type_synonym ip_bytes = "nat list"

definition v4_prefix :: ip_bytes where
  "v4_prefix = [0, 0, 0, 0, 0, 0, 0, 0, 0, 0, 255, 255]"

definition octet :: "string \<Rightarrow> nat option" where
  "octet s =
     (if all_digits s \<and> length s \<le> 3 \<and> (length s = 1 \<or> hd s \<noteq> CHR ''0'') \<and> digits_value 0 s \<le> 255
      then Some (digits_value 0 s) else None)"

definition parse_v4 :: "string \<Rightarrow> ip_bytes option" where
  "parse_v4 s =
     (case map octet (go_split ''.'' s) of
        [Some a, Some b, Some c, Some d] \<Rightarrow> Some [a, b, c, d]
      | _ \<Rightarrow> None)"

definition hex_value :: "char \<Rightarrow> nat option" where
  "hex_value c =
     (if is_digit c then Some (of_char c - 48)
      else if 97 \<le> (of_char c :: nat) \<and> (of_char c :: nat) \<le> 102 then Some (of_char c - 87)
      else if 65 \<le> (of_char c :: nat) \<and> (of_char c :: nat) \<le> 70 then Some (of_char c - 55)
      else None)"

definition is_hex :: "char \<Rightarrow> bool" where
  "is_hex c \<longleftrightarrow> hex_value c \<noteq> None"

definition hex_number :: "string \<Rightarrow> nat" where
  "hex_number s = foldl (\<lambda>acc c. acc * 16 + the (hex_value c)) 0 s"

text \<open>
  The loop of \<open>parseIPv6\<close>: \<open>room\<close> groups of two bytes are left, \<open>ell\<close> is the place of the
  ellipsis in the bytes read so far.  The result is the bytes and the ellipsis.
\<close>

fun v6_loop :: "nat \<Rightarrow> nat option \<Rightarrow> ip_bytes \<Rightarrow> string \<Rightarrow> (ip_bytes \<times> nat option) option" where
  "v6_loop 0 ell bs s = (if s = [] then Some (bs, ell) else None)"
| "v6_loop (Suc room) ell bs s =
     (let ds = takeWhile is_hex s; rest = dropWhile is_hex s in
      if ds = [] \<or> 4 < length ds then None
      else if rest \<noteq> [] \<and> hd rest = CHR ''.'' then
        (if ell = None \<and> length bs \<noteq> 12 then None
         else if 16 < length bs + 4 then None
         else case parse_v4 s of None \<Rightarrow> None | Some q \<Rightarrow> Some (bs @ q, ell))
      else
        (let bs' = bs @ [hex_number ds div 256, hex_number ds mod 256] in
         case rest of
           [] \<Rightarrow> Some (bs', ell)
         | [c] \<Rightarrow> None
         | c # d # rest' \<Rightarrow>
             if c \<noteq> CHR '':'' then None
             else if d = CHR '':'' then
               (if ell \<noteq> None then None
                else if rest' = [] then Some (bs', Some (length bs'))
                else v6_loop room (Some (length bs')) bs' rest')
             else v6_loop room ell bs' (d # rest')))"

definition v6_finish :: "ip_bytes \<times> nat option \<Rightarrow> ip_bytes option" where
  "v6_finish r =
     (case r of
        (bs, None) \<Rightarrow> if length bs = 16 then Some bs else None
      | (bs, Some e) \<Rightarrow>
          if length bs < 16 then Some (take e bs @ replicate (16 - length bs) 0 @ drop e bs) else None)"

definition parse_v6 :: "string \<Rightarrow> ip_bytes option" where
  "parse_v6 s =
     (if take 2 s = ''::'' then
        (if length s = 2 then Some (replicate 16 0)
         else Option.bind (v6_loop 8 (Some 0) [] (drop 2 s)) v6_finish)
      else Option.bind (v6_loop 8 None [] s) v6_finish)"

text \<open>\<open>netip.ParseAddr\<close> of a text without zone: whether it is an IPv4 address, and its 16 bytes.\<close>

definition parse_addr :: "string \<Rightarrow> (bool \<times> ip_bytes) option" where
  "parse_addr s =
     (if CHR ''%'' \<in> set s then None
      else case List.find (\<lambda>c. c = CHR ''.'' \<or> c = CHR '':'') s of
             None \<Rightarrow> None
           | Some c \<Rightarrow>
               if c = CHR ''.'' then map_option (\<lambda>q. (True, v4_prefix @ q)) (parse_v4 s)
               else map_option (\<lambda>bs. (False, bs)) (parse_v6 s))"

definition ParseIP :: "string \<Rightarrow> ip_bytes option" where
  "ParseIP s = map_option snd (parse_addr s)"

definition To4 :: "ip_bytes \<Rightarrow> ip_bytes option" where
  "To4 ip =
     (if length ip = 4 then Some ip
      else if length ip = 16 \<and> take 12 ip = v4_prefix then Some (drop 12 ip)
      else None)"

record ip_net =
  net_IP :: ip_bytes
  net_Ones :: nat
  net_Bits :: nat

definition mask_byte :: "nat \<Rightarrow> nat \<Rightarrow> nat" where
  "mask_byte keep b = (if 8 \<le> keep then b else b div 2 ^ (8 - keep) * 2 ^ (8 - keep))"

fun mask_bytes :: "nat \<Rightarrow> ip_bytes \<Rightarrow> ip_bytes" where
  "mask_bytes n [] = []"
| "mask_bytes n (b # bs) = mask_byte n b # mask_bytes (n - 8) bs"

definition ParseCIDR :: "string \<Rightarrow> (ip_bytes \<times> ip_net) option" where
  "ParseCIDR s =
     (case go_cut s ''/'' of
        None \<Rightarrow> None
      | Some (addr, m) \<Rightarrow>
          case parse_addr addr of
            None \<Rightarrow> None
          | Some (is4, ip) \<Rightarrow>
              let bits = (if is4 then 32 else 128); n = digits_value 0 m in
              if \<not> all_digits m \<or> bits < n then None
              else Some (ip, \<lparr>net_IP = mask_bytes n (if is4 then drop 12 ip else ip),
                              net_Ones = n, net_Bits = bits\<rparr>))"

definition v4_string :: "ip_bytes \<Rightarrow> string" where
  "v4_string q = go_join (map nat_digits q) ''.''"

fun hex_text :: "nat \<Rightarrow> string" where
  "hex_text n = (if n < 16 then [hex_digit n] else hex_text (n div 16) @ [hex_digit (n mod 16)])"

declare hex_text.simps [simp del]

fun groups_of :: "ip_bytes \<Rightarrow> nat list" where
  "groups_of (a # b # bs) = (a * 256 + b) # groups_of bs"
| "groups_of _ = []"

text \<open>The first longest run of at least two zero groups: its start and its length.\<close>

definition zero_run :: "nat list \<Rightarrow> nat \<Rightarrow> nat" where
  "zero_run gs i = length (takeWhile ((=) 0) (drop i gs))"

definition best_run :: "nat list \<Rightarrow> (nat \<times> nat) option" where
  "best_run gs =
     foldl (\<lambda>best i. let l = zero_run gs i in
               if 2 \<le> l \<and> (case best of None \<Rightarrow> True | Some (_, b) \<Rightarrow> b < l) then Some (i, l) else best)
       None [0..<length gs]"

definition v6_string :: "ip_bytes \<Rightarrow> string" where
  "v6_string ip =
     (let gs = groups_of ip; txt = (\<lambda>xs. go_join (map hex_text xs) '':'') in
      case best_run gs of
        None \<Rightarrow> txt gs
      | Some (i, l) \<Rightarrow> txt (take i gs) @ ''::'' @ txt (drop (i + l) gs))"

definition ip_string :: "ip_bytes \<Rightarrow> string" where
  "ip_string ip = (case To4 ip of Some q \<Rightarrow> v4_string q | None \<Rightarrow> v6_string ip)"

text \<open>\<open>IPNet.String\<close>; a network in the IPv4-mapped range prints its last four bytes.\<close>

definition net_string :: "ip_net \<Rightarrow> string" where
  "net_string n =
     (case To4 (net_IP n) of
        Some q \<Rightarrow> v4_string q @ ''/'' @ nat_digits (if net_Bits n = 128 then net_Ones n - 96 else net_Ones n)
      | None \<Rightarrow> v6_string (net_IP n) @ ''/'' @ nat_digits (net_Ones n))"

subsection \<open>Lemmas\<close>

lemma go_split_join: "sep \<noteq> [] \<Longrightarrow> go_join (go_split sep s) sep = s"
proof (induction sep s rule: go_split.induct)
  case (1 sep s)
  show ?case
  proof (cases "index_of sep s")
    case None
    with 1 show ?thesis by (simp add: go_split.simps)
  next
    case (Some i)
    have pre: "take i s @ sep @ drop (i + length sep) s = s"
      using Some
    proof (induction s arbitrary: i)
      case Nil
      then show ?case by (simp split: if_splits)
    next
      case (Cons c cs)
      then show ?case by (auto simp: prefix_def split: if_splits)
    qed
    have ne: "go_split sep (drop (i + length sep) s) \<noteq> []"
      by (simp add: go_split.simps split: option.split)
    from 1 Some have ih: "go_join (go_split sep (drop (i + length sep) s)) sep = drop (i + length sep) s"
      by simp
    have "go_join (go_split sep s) sep
        = take i s @ sep @ go_join (go_split sep (drop (i + length sep) s)) sep"
      using Some 1(2) ne by (subst go_split.simps) (cases "go_split sep (drop (i + length sep) s)"; simp)
    with ih pre show ?thesis by simp
  qed
qed

lemma set_go_join: "set (go_join xs sep) \<subseteq> \<Union> (set ` set xs) \<union> set sep"
  by (induction xs rule: induct_list012) auto

lemma set_go_split: "sep \<noteq> [] \<Longrightarrow> set s \<subseteq> \<Union> (set ` set (go_split sep s)) \<union> set sep"
  using set_go_join [of "go_split sep s" sep] by (simp add: go_split_join)

lemma index_of_char: "index_of [c] s = (if c \<in> set s then Some (length (takeWhile ((\<noteq>) c) s)) else None)"
  by (induction s) auto

lemma takeWhile_append_stop: "c \<notin> set a \<Longrightarrow> takeWhile ((\<noteq>) c) (a @ c # b) = a"
  by (induction a) auto

lemma go_split_char_join:
  "xs \<noteq> [] \<Longrightarrow> \<forall>x \<in> set xs. c \<notin> set x \<Longrightarrow> go_split [c] (go_join xs [c]) = xs"
proof (induction xs rule: induct_list012)
  case (2 x)
  then show ?case by (simp add: go_split.simps index_of_char)
next
  case (3 x y zs)
  then have x: "c \<notin> set x" and ih: "go_split [c] (go_join (y # zs) [c]) = y # zs" by auto
  show ?case
    using x ih by (subst go_split.simps) (simp add: index_of_char takeWhile_append_stop)
qed simp

lemma go_cut_char: "c \<notin> set a \<Longrightarrow> go_cut (a @ c # b) [c] = Some (a, b)"
  by (simp add: go_cut_def index_of_char takeWhile_append_stop)

lemma go_cut_char_None: "go_cut s [c] = None \<longleftrightarrow> c \<notin> set s"
  by (simp add: go_cut_def index_of_char)

lemma go_cut_charD:
  assumes "go_cut s [c] = Some (a, b)" shows "s = a @ c # b" "c \<notin> set a"
proof -
  from assms have cs: "c \<in> set s" and a: "a = takeWhile ((\<noteq>) c) s" and b: "b = drop (Suc (length a)) s"
    by (auto simp: go_cut_def index_of_char split: if_splits simp flip: takeWhile_eq_take)
  then have d: "dropWhile ((\<noteq>) c) s \<noteq> []" by (auto simp: dropWhile_eq_Nil_conv)
  have hd: "hd (dropWhile ((\<noteq>) c) s) = c" using hd_dropWhile [OF d] by simp
  have "s = a @ dropWhile ((\<noteq>) c) s" using a by simp
  moreover have "dropWhile ((\<noteq>) c) s = c # drop (Suc (length a)) s"
    using d hd by (metis a drop_Suc dropWhile_eq_drop list.collapse tl_drop)
  ultimately show "s = a @ c # b" using b by simp
  show "c \<notin> set a" using a by (auto dest: set_takeWhileD)
qed

lemma digits_value_append: "digits_value acc (xs @ [c]) = digits_value acc xs * 10 + (of_char c - 48)"
  by (induction xs arbitrary: acc) simp_all

lemma digits_value_nat_digits [simp]: "digits_value 0 (nat_digits n) = n"
proof (induction n rule: nat_digits.induct)
  case (1 n)
  show ?case
  proof (cases "n < 10")
    case True
    then show ?thesis by (subst nat_digits.simps) (simp add: of_char_of)
  next
    case False
    with 1 show ?thesis by (subst nat_digits.simps) (simp add: of_char_of digits_value_append)
  qed
qed

lemma all_digits_nat_digits [simp]: "all_digits (nat_digits n)"
  by (simp add: all_digits_def nat_digits_all_digits)

lemma hd_nat_digits: "0 < n \<Longrightarrow> hd (nat_digits n) \<noteq> CHR ''0''"
proof (induction n rule: nat_digits.induct)
  case (1 n)
  show ?case
  proof (cases "n < 10")
    case True
    have "(of_char (char_of (48 + n) :: char) :: nat) = 48 + n" using True by (simp add: of_char_of)
    moreover have "(of_char (CHR ''0'') :: nat) = 48" by simp
    ultimately have "char_of (48 + n) \<noteq> CHR ''0''" using 1(2) by (metis add_cancel_right_right less_irrefl)
    with True show ?thesis by (subst nat_digits.simps) simp
  next
    case False
    with 1 show ?thesis by (subst nat_digits.simps) simp
  qed
qed

lemma length_nat_digits: "n < 256 \<Longrightarrow> length (nat_digits n) \<le> 3"
  by (subst nat_digits.simps, subst nat_digits.simps, subst nat_digits.simps) auto

lemma octet_nat_digits: "n < 256 \<Longrightarrow> octet (nat_digits n) = Some n"
proof -
  assume n: "n < 256"
  have "length (nat_digits n) = 1 \<or> hd (nat_digits n) \<noteq> CHR ''0''"
    by (cases "n = 0") (simp add: nat_digits.simps, simp add: hd_nat_digits)
  with n show ?thesis by (simp add: octet_def length_nat_digits)
qed

lemma digit_not_char: "is_digit c \<Longrightarrow> c \<noteq> CHR ''.'' \<and> c \<noteq> CHR ''/'' \<and> c \<noteq> CHR '':'' \<and> c \<noteq> CHR ''%'' \<and> c \<noteq> CHR ''-''"
  by (auto simp: is_digit_def)

lemma nat_digits_no_char:
  "CHR ''.'' \<notin> set (nat_digits n)" "CHR ''/'' \<notin> set (nat_digits n)" "CHR '':'' \<notin> set (nat_digits n)"
  "CHR ''%'' \<notin> set (nat_digits n)"
  using nat_digits_all_digits [of n] by (auto simp: list_all_iff dest!: bspec dest: digit_not_char)

lemma octetD: "octet s = Some n \<Longrightarrow> list_all is_digit s \<and> n < 256"
  by (auto simp: octet_def all_digits_def split: if_splits)

lemma parse_v4D:
  assumes "parse_v4 s = Some q"
  shows "length q = 4" "list_all (\<lambda>b. b < 256) q" "\<forall>c \<in> set s. is_digit c \<or> c = CHR ''.''"
proof -
  from assms obtain a b c d xs where q: "q = [a, b, c, d]"
    and xs: "go_split ''.'' s = xs" "map octet xs = [Some a, Some b, Some c, Some d]"
    by (auto simp: parse_v4_def split: list.splits option.splits)
  show "length q = 4" using q by simp
  from xs(2) have oct: "list_all2 (\<lambda>x n. octet x = Some n) xs q"
    using q by (auto simp: list_all2_map1 map_eq_Cons_conv)
  then have "\<forall>x \<in> set xs. list_all is_digit x" and "list_all (\<lambda>b. b < 256) q"
    by (induction rule: list_all2_induct) (auto dest: octetD)
  then show "list_all (\<lambda>b. b < 256) q" "\<forall>c \<in> set s. is_digit c \<or> c = CHR ''.''"
    using set_go_split [of "''.''" s] xs(1) by (fastforce simp: list_all_iff)+
qed

lemma parse_v4_string:
  assumes "length q = 4" "list_all (\<lambda>b. b < 256) q"
  shows "parse_v4 (v4_string q) = Some q"
proof -
  from assms(1) obtain a b c d where q: "q = [a, b, c, d]"
    by (auto simp: length_Suc_conv numeral_eq_Suc)
  have "go_split ''.'' (v4_string q) = map nat_digits q"
    unfolding v4_string_def
    by (rule go_split_char_join) (use q in \<open>auto simp: nat_digits_no_char\<close>)
  with assms q show ?thesis by (simp add: parse_v4_def octet_nat_digits)
qed

definition addr_char :: "char \<Rightarrow> bool" where
  "addr_char c \<longleftrightarrow> is_hex c \<or> c = CHR ''.'' \<or> c = CHR '':''"

lemma is_hex_digit: "is_digit c \<Longrightarrow> is_hex c"
  by (simp add: is_hex_def hex_value_def)

lemma hex_value_less: "hex_value c = Some v \<Longrightarrow> v < 16"
  by (auto simp: hex_value_def is_digit_def split: if_splits)

lemma hex_number_less: "list_all is_hex ds \<Longrightarrow> hex_number ds < 16 ^ length ds"
proof (induction ds rule: rev_induct)
  case (snoc c ds)
  then obtain v where "hex_value c = Some v" by (auto simp: is_hex_def)
  with snoc hex_value_less show ?case by (fastforce simp: hex_number_def)
qed (simp add: hex_number_def)

lemma v6_loopD:
  assumes "v6_loop room ell bs s = Some (bs', ell')" "list_all (\<lambda>b. b < 256) bs"
  shows "list_all (\<lambda>b. b < 256) bs' \<and> list_all addr_char s"
  using assms
proof (induction room ell bs s arbitrary: bs' ell' rule: v6_loop.induct)
  case (1 ell bs s)
  then show ?case by (simp split: if_splits)
next
  case (2 room ell bs s)
  define ds rest where "ds = takeWhile is_hex s" and "rest = dropWhile is_hex s"
  note fold = ds_def [symmetric] rest_def [symmetric]
  note eq = 2(3) [unfolded v6_loop.simps Let_def fold]
  note IH = 2(1,2) [OF ds_def rest_def]
  have hex: "list_all is_hex ds" by (auto simp: ds_def list_all_iff dest: set_takeWhileD)
  have len: "ds \<noteq> []" "length ds \<le> 4"
    using eq by (auto split: if_splits)
  have "hex_number ds < 65536"
    using hex_number_less [OF hex] power_increasing [OF len(2), of "16::nat"] by simp
  then have byte: "hex_number ds div 256 < 256" by (simp add: less_mult_imp_div_less)
  let ?bs = "bs @ [hex_number ds div 256, hex_number ds mod 256]"
  have bs: "list_all (\<lambda>b. b < 256) ?bs" using 2(4) byte by simp
  have s: "list_all addr_char s \<longleftrightarrow> list_all addr_char rest"
  proof -
    have "s = ds @ rest" by (simp add: ds_def rest_def)
    with hex show ?thesis by (auto simp: list_all_iff addr_char_def)
  qed
  show ?case
  proof (cases "rest \<noteq> [] \<and> hd rest = CHR ''.''")
    case True
    then obtain q where q: "parse_v4 s = Some q" "bs' = bs @ q"
      using eq len by (auto split: if_splits option.splits)
    show ?thesis
      using parse_v4D [OF q(1)] 2(4) q(2)
      by (auto simp: list_all_iff addr_char_def dest: is_hex_digit)
  next
    case False
    with eq len have eq': "(case rest of [] \<Rightarrow> Some (?bs, ell) | [c] \<Rightarrow> None
         | c # d # rest' \<Rightarrow>
             if c \<noteq> CHR '':'' then None
             else if d = CHR '':'' then
               (if ell \<noteq> None then None
                else if rest' = [] then Some (?bs, Some (length ?bs))
                else v6_loop room (Some (length ?bs)) ?bs rest')
             else v6_loop room ell ?bs (d # rest')) = Some (bs', ell')"
      by (simp split: if_splits)
    show ?thesis
    proof (cases rest)
      case Nil
      with eq' bs s show ?thesis by simp
    next
      case (Cons c rs)
      then obtain d rest' where rs: "rest = c # d # rest'" "c = CHR '':''"
        using eq' by (auto split: list.splits if_splits)
      have c: "addr_char (CHR '':'')" by (simp add: addr_char_def)
      have n: "\<not> (ds = [] \<or> 4 < length ds)" using len by simp
      show ?thesis
      proof (cases "d = CHR '':''")
        case True
        show ?thesis
        proof (cases "rest' = []")
          case True
          with eq' rs bs s c \<open>d = _\<close> show ?thesis by (auto split: if_splits)
        next
          case False
          have "list_all (\<lambda>b. b < 256) bs' \<and> list_all addr_char rest'"
            using IH(1) [OF n \<open>\<not> (rest \<noteq> [] \<and> _)\<close> refl rs(1) refl _ True _ False] eq' rs True False bs
            by (auto split: if_splits)
          with rs s c True show ?thesis by simp
        qed
      next
        case False
        have "list_all (\<lambda>b. b < 256) bs' \<and> list_all addr_char (d # rest')"
          using IH(2) [OF n \<open>\<not> (rest \<noteq> [] \<and> _)\<close> refl rs(1) refl _ False] eq' rs False bs
          by (auto split: if_splits)
        with rs s c show ?thesis by simp
      qed
    qed
  qed
qed

lemma v6_finishD:
  "v6_finish (bs, ell) = Some ip \<Longrightarrow> list_all (\<lambda>b. b < 256) bs \<Longrightarrow> length ip = 16 \<and> list_all (\<lambda>b. b < 256) ip"
  using set_take_subset [of "the ell" bs] set_drop_subset [of "the ell" bs]
  by (auto simp: v6_finish_def list_all_iff min_def subset_iff split: option.splits if_splits)

lemma parse_v4_addr_char: "parse_v4 s = Some q \<Longrightarrow> list_all addr_char s"
  using parse_v4D(3) [of s q] by (auto simp: list_all_iff addr_char_def is_hex_digit)

lemma parse_v6D:
  assumes "parse_v6 s = Some ip"
  shows "length ip = 16" "list_all (\<lambda>b. b < 256) ip" "list_all addr_char s"
proof -
  have two: "list_all addr_char s" if "take 2 s = ''::''" "list_all addr_char (drop 2 s)"
  proof -
    have "s = take 2 s @ drop 2 s" by simp
    with that show ?thesis by (metis addr_char_def append_Cons append_Nil list.pred_inject(2))
  qed
  have *: "length ip = 16 \<and> list_all (\<lambda>b. b < 256) ip \<and> list_all addr_char t"
    if "Option.bind (v6_loop 8 ell [] t) v6_finish = Some ip" for ell t
    using that v6_loopD [of 8 ell "[]" t] v6_finishD
    by (cases "v6_loop 8 ell [] t") fastforce+
  have "length ip = 16 \<and> list_all (\<lambda>b. b < 256) ip \<and> list_all addr_char s"
  proof (cases "take 2 s = ''::''")
    case True
    show ?thesis
    proof (cases "length s = 2")
      case True
      with assms \<open>take 2 s = _\<close> two show ?thesis by (auto simp: parse_v6_def list_all_iff)
    next
      case False
      with True assms have "Option.bind (v6_loop 8 (Some 0) [] (drop 2 s)) v6_finish = Some ip"
        by (simp add: parse_v6_def)
      from * [OF this] two [OF True] show ?thesis by blast
    qed
  next
    case False
    with assms show ?thesis by (intro *) (simp add: parse_v6_def)
  qed
  then show "length ip = 16" "list_all (\<lambda>b. b < 256) ip" "list_all addr_char s" by simp_all
qed

lemma parse_addrD:
  assumes "parse_addr s = Some (is4, ip)"
  shows "length ip = 16" "list_all (\<lambda>b. b < 256) ip" "list_all addr_char s"
    "is4 \<Longrightarrow> take 12 ip = v4_prefix"
  using assms parse_v4D(1,2) [of s] parse_v4_addr_char [of s] parse_v6D [of s]
  by (auto simp: parse_addr_def v4_prefix_def split: if_splits option.splits)


lemma To4_prefix [simp]: "length q = 4 \<Longrightarrow> To4 (v4_prefix @ q) = Some q"
  by (simp add: To4_def v4_prefix_def)

lemma To4D: "To4 ip = Some q \<Longrightarrow> length ip = 16 \<Longrightarrow> ip = v4_prefix @ q \<and> length q = 4"
  by (auto simp: To4_def split: if_splits) (metis append_take_drop_id)

lemma v4_string_chars:
  assumes "length q = 4"
  shows "CHR ''/'' \<notin> set (v4_string q)" "CHR '':'' \<notin> set (v4_string q)" "CHR ''%'' \<notin> set (v4_string q)"
    "CHR ''.'' \<in> set (v4_string q)"
proof -
  from assms obtain a b c d where "q = [a, b, c, d]"
    by (auto simp: length_Suc_conv numeral_eq_Suc)
  then show "CHR ''/'' \<notin> set (v4_string q)" "CHR '':'' \<notin> set (v4_string q)" "CHR ''%'' \<notin> set (v4_string q)"
    "CHR ''.'' \<in> set (v4_string q)"
    by (auto simp: v4_string_def nat_digits_no_char)
qed

lemma parse_addr_v4_string:
  assumes "length q = 4" "list_all (\<lambda>b. b < 256) q"
  shows "parse_addr (v4_string q) = Some (True, v4_prefix @ q)"
proof -
  have "List.find (\<lambda>c. c = CHR ''.'' \<or> c = CHR '':'') (v4_string q) \<noteq> None"
    using v4_string_chars(4) [OF assms(1)] by (auto simp: find_None_iff)
  then obtain c where c: "List.find (\<lambda>c. c = CHR ''.'' \<or> c = CHR '':'') (v4_string q) = Some c"
    by blast
  have "c = CHR ''.''"
    using find_SomeD [OF c] v4_string_chars(2) [OF assms(1)] by auto
  with c show ?thesis
    using assms by (simp add: parse_addr_def v4_string_chars parse_v4_string)
qed

lemma ParseIP_v4_string:
  "length q = 4 \<Longrightarrow> list_all (\<lambda>b. b < 256) q \<Longrightarrow> ParseIP (v4_string q) = Some (v4_prefix @ q)"
  by (simp add: ParseIP_def parse_addr_v4_string)

lemma ParseIPD:
  assumes "ParseIP s = Some ip"
  shows "length ip = 16" "list_all (\<lambda>b. b < 256) ip" "list_all addr_char s"
  using assms parse_addrD(1-3) [of s] by (auto simp: ParseIP_def)

lemma length_mask_bytes [simp]: "length (mask_bytes n bs) = length bs"
  by (induction n bs rule: mask_bytes.induct) simp_all

lemma mask_byte_le: "mask_byte k b \<le> b"
  by (simp add: mask_byte_def)

lemma mask_byte_idem [simp]: "mask_byte k (mask_byte k b) = mask_byte k b"
  by (simp add: mask_byte_def)

lemma mask_bytes_idem [simp]: "mask_bytes n (mask_bytes n bs) = mask_bytes n bs"
  by (induction n bs rule: mask_bytes.induct) simp_all

lemma mask_bytes_less: "list_all (\<lambda>b. b < 256) bs \<Longrightarrow> list_all (\<lambda>b. b < 256) (mask_bytes n bs)"
  by (induction n bs rule: mask_bytes.induct) (auto intro: le_less_trans [OF mask_byte_le])

lemma mask_bytes_append: "mask_bytes n (xs @ ys) = mask_bytes n xs @ mask_bytes (n - 8 * length xs) ys"
  by (induction n xs rule: mask_bytes.induct) simp_all

lemma mask_bytes_all: "8 * length bs \<le> n \<Longrightarrow> mask_bytes n bs = bs"
  by (induction n bs rule: mask_bytes.induct) (simp_all add: mask_byte_def)

text \<open>A masked 16-byte address in the IPv4-mapped range keeps its whole prefix under the mask.\<close>

lemma mask_byte_255: "mask_byte k b = 255 \<Longrightarrow> 8 \<le> k"
proof (rule ccontr)
  assume m: "mask_byte k b = 255" and "\<not> 8 \<le> k"
  then have k: "k < 8" by simp
  then obtain j where j: "8 - k = Suc j" by (metis Suc_diff_Suc)
  have "even (mask_byte k b)" using k j by (simp add: mask_byte_def)
  with m show False by simp
qed

end
