(* ===== verification/BootText.thy ===== *)
theory BootText
  imports NetText
begin

text \<open>
  The file the machine boots from, as text (internal/nftables/persist_sanitize.go, persistent_ruleset.go and
  the body Persist writes): the table as nft prints it, less the elements that are measurements.  The scanner
  of persist_sanitize.go works on positions; a position that is not found (-1 in the code) is \<open>None\<close>.  Its
  loop over a line of flags need not end on every text, so it is a partial function; the theorems show that it
  ends on every text the sanitizer calls it with.
\<close>

subsection \<open>Positions in a text\<close>

definition slice :: "string \<Rightarrow> nat \<Rightarrow> nat \<Rightarrow> string" where
  "slice t i j = take (j - i) (drop i t)"

definition lf :: char where "lf = CHR 0x0A"
definition backslash :: char where "backslash = CHR 0x5C"
definition dquote_char :: char where "dquote_char = CHR 0x22"

function quoted_end :: "string \<Rightarrow> nat \<Rightarrow> nat" where
  "quoted_end t i =
     (if i < length t
      then (if t ! i = backslash then quoted_end t (i + 2)
            else if t ! i = dquote_char then i
            else quoted_end t (i + 1))
      else length t - 1)"
  by pat_completeness auto
termination by (relation "measure (\<lambda>(t, i). length t - i)") auto

declare quoted_end.simps [simp del]

definition skipQuoted :: "string \<Rightarrow> nat \<Rightarrow> nat" where
  "skipQuoted t from = quoted_end t (from + 1)"

definition skipComment :: "string \<Rightarrow> nat \<Rightarrow> nat" where
  "skipComment t from =
     (case index_of [lf] (drop from t) of Some n \<Rightarrow> from + n | None \<Rightarrow> length t - 1)"

lemma quoted_end_less: "t \<noteq> [] \<Longrightarrow> quoted_end t i < length t"
  by (induction t i rule: quoted_end.induct) (subst quoted_end.simps, auto)

lemma quoted_end_ge: "i \<le> length t \<Longrightarrow> t \<noteq> [] \<Longrightarrow> i - 1 \<le> quoted_end t i"
proof (induction t i rule: quoted_end.induct)
  case (1 t i)
  show ?case
  proof (cases "i < length t \<and> t ! i = backslash \<and> length t < i + 2")
    case True
    then show ?thesis by (subst quoted_end.simps, subst quoted_end.simps) auto
  next
    case False
    then show ?thesis using 1 by (subst quoted_end.simps) auto
  qed
qed

lemma skipQuoted_bounds: "from < length t \<Longrightarrow> from \<le> skipQuoted t from \<and> skipQuoted t from < length t"
  using quoted_end_less [of t "from + 1"] quoted_end_ge [of "from + 1" t]
  by (cases t) (auto simp: skipQuoted_def)

lemma skipComment_bounds: "from < length t \<Longrightarrow> from \<le> skipComment t from \<and> skipComment t from < length t"
  by (auto simp: skipComment_def split: option.splits dest!: index_of_le)

lemma skip_shrinks:
  assumes "i < length b"
  shows "length b - Suc (skipQuoted b i) < length b - i"
    and "length b - Suc (skipComment b i) < length b - i"
  using skipQuoted_bounds [OF assms] skipComment_bounds [OF assms] assms by linarith+

subsection \<open>Braces and tokens\<close>

function brace_loop :: "string \<Rightarrow> nat \<Rightarrow> int \<Rightarrow> nat option" where
  "brace_loop t i depth =
     (if i < length t
      then (if t ! i = dquote_char then brace_loop t (skipQuoted t i + 1) depth
            else if t ! i = CHR ''#'' then brace_loop t (skipComment t i + 1) depth
            else if t ! i = CHR ''{'' then brace_loop t (i + 1) (depth + 1)
            else if t ! i = CHR ''}''
            then (if depth - 1 = 0 then Some i else brace_loop t (i + 1) (depth - 1))
            else brace_loop t (i + 1) depth)
      else None)"
  by pat_completeness auto
termination
  by (relation "measure (\<lambda>(t, i, d). length t - i)")
    (auto intro: skip_shrinks)

declare brace_loop.simps [simp del]

definition matchingBrace :: "string \<Rightarrow> nat \<Rightarrow> nat option" where
  "matchingBrace t opening = brace_loop t opening 0"

definition word_char :: "char \<Rightarrow> bool" where
  "word_char c \<longleftrightarrow> is_lower c \<or> is_upper c \<or> is_digit c \<or> c = CHR ''_''"

definition tokenBoundary :: "string \<Rightarrow> int \<Rightarrow> bool" where
  "tokenBoundary t index =
     (if index < 0 \<or> int (length t) \<le> index then True else \<not> word_char (t ! nat index))"

definition tokenAt :: "string \<Rightarrow> nat \<Rightarrow> string \<Rightarrow> bool" where
  "tokenAt t from tk \<longleftrightarrow>
     from + length tk \<le> length t \<and> slice t from (from + length tk) = tk
     \<and> tokenBoundary t (int from - 1) \<and> tokenBoundary t (int (from + length tk))"

function containsToken_from :: "string \<Rightarrow> string \<Rightarrow> nat \<Rightarrow> bool" where
  "containsToken_from t tk i =
     (if i + length tk \<le> length t \<and> i < length t
      then (if t ! i = dquote_char then containsToken_from t tk (skipQuoted t i + 1)
            else if t ! i = CHR ''#'' then containsToken_from t tk (skipComment t i + 1)
            else if tokenAt t i tk then True
            else containsToken_from t tk (i + 1))
      else False)"
  by pat_completeness auto
termination
  by (relation "measure (\<lambda>(t, k, i). length t - i)")
    (auto intro: skip_shrinks)

declare containsToken_from.simps [simp del]

definition containsToken :: "string \<Rightarrow> string \<Rightarrow> bool" where
  "containsToken t tk = containsToken_from t tk 0"

function skipWhitespace :: "string \<Rightarrow> nat \<Rightarrow> nat" where
  "skipWhitespace t from =
     (if from < length t \<and> t ! from \<in> {CHR '' '', CHR 0x09, CHR 0x0D, lf}
      then skipWhitespace t (from + 1) else from)"
  by pat_completeness auto
termination by (relation "measure (\<lambda>(t, i). length t - i)") auto

declare skipWhitespace.simps [simp del]

subsection \<open>What makes the elements of a set transient\<close>

text \<open>
  The inner loop of \<open>hasDynamicFlag\<close>.  After a comment it stays on the last byte when the text has no further
  line, and looks at that byte again.
\<close>

partial_function (option) flags_end :: "string \<Rightarrow> nat \<Rightarrow> nat option" where
  "flags_end b e =
     (if e < length b \<and> b ! e \<noteq> lf \<and> b ! e \<noteq> CHR '';''
      then (if b ! e = dquote_char then flags_end b (skipQuoted b e + 1)
            else if b ! e = CHR ''#'' then flags_end b (skipComment b e)
            else flags_end b (e + 1))
      else Some e)"

partial_function (option) dynamic_from :: "string \<Rightarrow> nat \<Rightarrow> bool option" where
  "dynamic_from b i =
     (if i + 5 \<le> length b
      then (if b ! i = dquote_char then dynamic_from b (skipQuoted b i + 1)
            else if b ! i = CHR ''#'' then dynamic_from b (skipComment b i + 1)
            else if \<not> tokenAt b i ''flags'' then dynamic_from b (i + 1)
            else case flags_end b (i + 5) of
                   None \<Rightarrow> None
                 | Some e \<Rightarrow>
                     (if containsToken (slice b (i + 5) e) ''dynamic'' then Some True
                      else dynamic_from b (e + 1)))
      else Some False)"

declare flags_end.simps [code] dynamic_from.simps [code]

definition hasDynamicFlag :: "string \<Rightarrow> bool option" where
  "hasDynamicFlag b = dynamic_from b 0"

definition setHasTimeout :: "string \<Rightarrow> bool" where
  "setHasTimeout b =
     containsToken (case index_of ''elements'' b of Some i \<Rightarrow> take i b | None \<Rightarrow> b) ''timeout''"

definition hasTransientElements :: "string \<Rightarrow> bool option" where
  "hasTransientElements b =
     (case hasDynamicFlag b of
        None \<Rightarrow> None | Some True \<Rightarrow> Some True | Some False \<Rightarrow> Some (setHasTimeout b))"

subsection \<open>Cutting the elements\<close>

function nextElementsAssignment :: "string \<Rightarrow> nat \<Rightarrow> (nat \<times> nat) option" where
  "nextElementsAssignment b i =
     (if i + 8 \<le> length b
      then (if b ! i = dquote_char then nextElementsAssignment b (skipQuoted b i + 1)
            else if b ! i = CHR ''#'' then nextElementsAssignment b (skipComment b i + 1)
            else if slice b i (i + 8) \<noteq> ''elements'' \<or> \<not> tokenBoundary b (int i - 1) \<or> \<not> tokenBoundary b (int (i + 8))
            then nextElementsAssignment b (i + 1)
            else (let j = skipWhitespace b (i + 8) in
              if length b \<le> j \<or> b ! j \<noteq> CHR ''='' then nextElementsAssignment b (i + 1)
              else (let k = skipWhitespace b (j + 1) in
                if k < length b \<and> b ! k = CHR ''{'' then Some (i, k)
                else nextElementsAssignment b (i + 1))))
      else None)"
  by pat_completeness auto
termination
  by (relation "measure (\<lambda>(b, i). length b - i)") (auto intro!: skip_shrinks)

declare nextElementsAssignment.simps [simp del]

lemma skipWhitespace_ge: "from \<le> skipWhitespace t from"
proof (induction t "from" rule: skipWhitespace.induct)
  case (1 t i)
  then show ?case by (subst skipWhitespace.simps) (auto simp: Suc_le_eq)
qed

lemma skipWhitespace_le: "from \<le> length t \<Longrightarrow> skipWhitespace t from \<le> length t"
proof (induction t "from" rule: skipWhitespace.induct)
  case (1 t i)
  then show ?case by (subst skipWhitespace.simps) (auto simp: Suc_le_eq)
qed

text \<open>Where the search stops, an assignment of elements begins.\<close>

definition assigns_at :: "string \<Rightarrow> nat \<Rightarrow> nat \<Rightarrow> bool" where
  "assigns_at b i k \<longleftrightarrow>
     i + 8 \<le> length b \<and> slice b i (i + 8) = ''elements''
     \<and> b ! skipWhitespace b (i + 8) = CHR ''=''
     \<and> k = skipWhitespace b (skipWhitespace b (i + 8) + 1)
     \<and> k < length b \<and> b ! k = CHR ''{'' "

lemma nextElementsAssignment_step:
  assumes "nextElementsAssignment b i = Some (s, k)"
  shows "s = i \<and> assigns_at b i k \<or> (\<exists>i'. i < i' \<and> i < length b \<and> nextElementsAssignment b i' = Some (s, k))"
proof -
  have "i + 8 \<le> length b" using assms by (simp add: nextElementsAssignment.simps [of b i] split: if_splits)
  then have "i < Suc (skipQuoted b i)" and "i < Suc (skipComment b i)"
    using skipQuoted_bounds [of i b] skipComment_bounds [of i b] by linarith+
  with \<open>i + 8 \<le> length b\<close> assms show ?thesis
    unfolding nextElementsAssignment.simps [of b i] assigns_at_def
    by (auto simp: Let_def split: if_splits)
qed

lemma nextElementsAssignment_found:
  "nextElementsAssignment b i = Some (s, k) \<Longrightarrow> i \<le> s \<and> assigns_at b s k"
proof (induction "length b - i" arbitrary: i rule: less_induct)
  case less
  from nextElementsAssignment_step [OF less.prems] show ?case
  proof
    assume "\<exists>i'. i < i' \<and> i < length b \<and> nextElementsAssignment b i' = Some (s, k)"
    then obtain i' where "i < i'" and "i < length b" and "nextElementsAssignment b i' = Some (s, k)" by blast
    with less.hyps [of i'] show ?thesis by fastforce
  qed simp
qed

lemma assigns_at_less: "assigns_at b s k \<Longrightarrow> s < k \<and> k < length b"
  using skipWhitespace_ge [of "s + 8" b] skipWhitespace_ge [of "skipWhitespace b (s + 8) + 1" b]
  by (auto simp: assigns_at_def)

lemma brace_loop_step:
  assumes "brace_loop t i d = Some c"
  shows "i < length t \<and>
    (c = i \<and> t ! i = CHR ''}'' \<and> d = 1 \<or> (\<exists>i' d'. i < i' \<and> brace_loop t i' d' = Some c))"
proof -
  have i: "i < length t" using assms by (simp add: brace_loop.simps [of t i d] split: if_splits)
  then have "i < Suc (skipQuoted t i)" and "i < Suc (skipComment t i)"
    using skipQuoted_bounds skipComment_bounds by (auto simp: less_Suc_eq_le)
  with i assms show ?thesis unfolding brace_loop.simps [of t i d] by (auto split: if_splits)
qed

lemma brace_loop_bounds: "brace_loop t i d = Some c \<Longrightarrow> i \<le> c \<and> c < length t \<and> t ! c = CHR ''}'' "
proof (induction "length t - i" arbitrary: i d rule: less_induct)
  case less
  from brace_loop_step [OF less.prems] have i: "i < length t" by blast
  from brace_loop_step [OF less.prems] consider "c = i" "t ! i = CHR ''}''"
    | i' d' where "i < i'" "brace_loop t i' d' = Some c" by blast
  then show ?case
  proof cases
    case 2
    with less.hyps [of i' d'] i show ?thesis by fastforce
  qed (simp add: i)
qed

lemma matchingBrace_bounds: "matchingBrace t i = Some c \<Longrightarrow> i \<le> c \<and> c < length t \<and> t ! c = CHR ''}'' "
  by (simp add: matchingBrace_def brace_loop_bounds)

text \<open>The next assignment and the brace that closes it.\<close>

definition next_cut :: "string \<Rightarrow> nat \<Rightarrow> (nat \<times> nat) option" where
  "next_cut b i =
     (case nextElementsAssignment b i of
        None \<Rightarrow> None
      | Some (s, k) \<Rightarrow> (case matchingBrace b k of None \<Rightarrow> None | Some c \<Rightarrow> Some (s, c)))"

lemma next_cutD:
  assumes "next_cut b i = Some (s, c)"
  obtains k where "nextElementsAssignment b i = Some (s, k)" and "assigns_at b s k" and "matchingBrace b k = Some c"
    and "i \<le> s" and "s < k" and "k \<le> c" and "c < length b"
proof -
  from assms obtain k where k: "nextElementsAssignment b i = Some (s, k)" and c: "matchingBrace b k = Some c"
    by (auto simp: next_cut_def split: option.splits)
  from nextElementsAssignment_found [OF k] assigns_at_less matchingBrace_bounds [OF c] show thesis
    by (intro that [OF k _ c]) auto
qed

lemma next_cut_shrinks: "next_cut b i = Some (s, c) \<Longrightarrow> length b - Suc c < length b - i"
  by (erule next_cutD) linarith

text \<open>The pieces before each assignment go to the builder \<open>acc\<close>; \<open>last\<close> is also where the search goes on.\<close>

function remove_loop :: "string \<Rightarrow> string \<Rightarrow> nat \<Rightarrow> string" where
  "remove_loop b acc last_pos =
     (case next_cut b last_pos of
        None \<Rightarrow> if last_pos = 0 then b else acc @ drop last_pos b
      | Some (s, c) \<Rightarrow> remove_loop b (acc @ slice b last_pos s) (c + 1))"
  by pat_completeness auto
termination
  by (relation "measure (\<lambda>(b, acc, i). length b - i)") (auto intro: next_cut_shrinks)

declare remove_loop.simps [simp del]

definition removeElementsAssignments :: "string \<Rightarrow> string" where
  "removeElementsAssignments b = remove_loop b [] 0"

subsection \<open>The table\<close>

function nextSetDeclaration :: "string \<Rightarrow> nat \<Rightarrow> (nat \<times> nat) option" where
  "nextSetDeclaration t lineStart =
     (if lineStart < length t
      then (let lineEnd = (case index_of [lf] (drop lineStart t) of None \<Rightarrow> length t | Some n \<Rightarrow> n + lineStart);
                line = slice t lineStart lineEnd;
                trimmed = trim_space line
            in case (if prefix ''set '' trimmed \<or> prefix (''set'' @ [CHR 0x09]) trimmed
                     then index_of ''{'' line else None) of
                 Some brace \<Rightarrow> Some (lineStart, lineStart + brace)
               | None \<Rightarrow> if lineEnd = length t then None else nextSetDeclaration t (lineEnd + 1))
      else None)"
  by pat_completeness auto
termination
  by (relation "measure (\<lambda>(t, i). length t - i)") (auto split: option.splits)

declare nextSetDeclaration.simps [simp del]

definition set_line :: "string \<Rightarrow> bool" where
  "set_line l \<longleftrightarrow> prefix ''set '' (trim_space l) \<or> prefix (''set'' @ [CHR 0x09]) (trim_space l)"

lemma index_of_charD:
  assumes "index_of [x] s = Some n"
  shows "n < length s \<and> s ! n = x \<and> x \<notin> set (take n s)"
proof -
  from assms have "x \<in> set s" and n: "n = length (takeWhile ((\<noteq>) x) s)"
    by (auto simp: index_of_char split: if_splits)
  then have "n < length s"
    by (metis (full_types) length_takeWhile_le le_neq_implies_less takeWhile_eq_all_conv takeWhile_eq_take take_all_iff order_refl)
  with n show ?thesis using nth_length_takeWhile [of "(\<noteq>) x" s]
    by (metis (full_types) set_takeWhileD takeWhile_eq_take)
qed

lemma nextSetDeclaration_found:
  "nextSetDeclaration t i = Some (s, k) \<Longrightarrow>
     i \<le> s \<and> s \<le> k \<and> k < length t \<and> t ! k = CHR ''{'' \<and> lf \<notin> set (slice t s k)
     \<and> (\<exists>r. set_line (slice t s k @ ''{'' @ r))"
proof (induction t i rule: nextSetDeclaration.induct)
  case (1 t i)
  define e where "e = (case index_of [lf] (drop i t) of None \<Rightarrow> length t | Some n \<Rightarrow> n + i)"
  define line where "line = slice t i e"
  define found where "found = (if prefix ''set '' (trim_space line) \<or> prefix (''set'' @ [CHR 0x09]) (trim_space line)
    then index_of ''{'' line else None)"
  have i: "i < length t" using "1.prems" by (simp add: nextSetDeclaration.simps [of t i] split: if_splits)
  have e: "i \<le> e" "e \<le> length t"
    using i by (auto simp: e_def split: option.splits dest!: index_of_le)
  have unfold: "nextSetDeclaration t i =
    (case found of Some brace \<Rightarrow> Some (i, i + brace)
     | None \<Rightarrow> if e = length t then None else nextSetDeclaration t (e + 1))"
    unfolding nextSetDeclaration.simps [of t i] Let_def e_def [symmetric] line_def [symmetric] found_def
    using i by simp
  show ?case
  proof (cases found)
    case None
    with unfold "1.prems" have "e \<noteq> length t" and "nextSetDeclaration t (e + 1) = Some (s, k)"
      by (auto split: if_splits)
    moreover note "1.IH" [OF i e_def line_def refl None [unfolded found_def] this]
    ultimately show ?thesis using e by simp
  next
    case (Some brace)
    then have "index_of ''{'' line = Some brace" by (simp add: found_def split: if_splits)
    note brace = index_of_charD [OF this]
    then have "brace < e - i" using e by (simp add: line_def slice_def)
    then have at: "slice t i (i + brace) = take brace line" "i + brace < length t" "t ! (i + brace) = CHR ''{''"
      using brace e by (auto simp: line_def slice_def)
    have "lf \<notin> set line"
    proof (cases "index_of [lf] (drop i t)")
      case None
      then have "lf \<notin> set (drop i t)" by (simp add: index_of_char split: if_splits)
      then show ?thesis by (auto simp: line_def slice_def dest: in_set_takeD)
    next
      case (Some n)
      with index_of_charD [OF Some] show ?thesis by (simp add: line_def slice_def e_def)
    qed
    then have no_lf: "lf \<notin> set (take brace line)" by (meson in_set_takeD)
    have "line = take brace line @ ''{'' @ drop (brace + 1) line"
      using brace id_take_nth_drop [of brace line] by simp
    then have "set_line (take brace line @ ''{'' @ drop (brace + 1) line)"
      using Some by (simp add: found_def set_line_def split: if_splits)
    with Some unfold "1.prems" at no_lf show ?thesis by auto
  qed
qed

definition next_set :: "string \<Rightarrow> nat \<Rightarrow> (nat \<times> nat) option" where
  "next_set t i =
     (case nextSetDeclaration t i of
        None \<Rightarrow> None
      | Some (s, k) \<Rightarrow> (case matchingBrace t k of None \<Rightarrow> None | Some c \<Rightarrow> Some (s, c)))"

lemma next_setD:
  assumes "next_set t i = Some (s, c)"
  obtains k where "nextSetDeclaration t i = Some (s, k)" and "matchingBrace t k = Some c"
    and "i \<le> s" and "s \<le> k" and "k \<le> c" and "c < length t" and "t ! c = CHR ''}''"
proof -
  from assms obtain k where k: "nextSetDeclaration t i = Some (s, k)" and c: "matchingBrace t k = Some c"
    by (auto simp: next_set_def split: option.splits)
  from nextSetDeclaration_found [OF k] matchingBrace_bounds [OF c] show thesis
    by (intro that [OF k c]) auto
qed

lemma next_set_shrinks: "next_set t i = Some (s, c) \<Longrightarrow> length t - Suc c < length t - i"
  by (erule next_setD) linarith

function sanitize_loop :: "string \<Rightarrow> string \<Rightarrow> nat \<Rightarrow> nat \<Rightarrow> string option" where
  "sanitize_loop t acc last_pos searchFrom =
     (case next_set t searchFrom of
        None \<Rightarrow> Some (if last_pos = 0 then t else acc @ drop last_pos t)
      | Some (s, c) \<Rightarrow>
          (let b = slice t s (c + 1) in
           case hasTransientElements b of
             None \<Rightarrow> None
           | Some transient \<Rightarrow>
               (if transient \<and> removeElementsAssignments b \<noteq> b
                then sanitize_loop t (acc @ slice t last_pos s @ removeElementsAssignments b) (c + 1) (c + 1)
                else sanitize_loop t acc last_pos (c + 1))))"
  by pat_completeness auto
termination
  by (relation "measure (\<lambda>(t, acc, l, i). length t - i)") (auto intro: next_set_shrinks)

declare sanitize_loop.simps [simp del]

definition sanitizeDynamicSetElements :: "string \<Rightarrow> string option" where
  "sanitizeDynamicSetElements t = sanitize_loop t [] 0 0"

subsection \<open>It ends\<close>

lemma skipComment_progress:
  assumes "i < length b" and "b ! i = CHR ''#''" and "last b \<noteq> CHR ''#''"
  shows "i < skipComment b i"
proof (cases "index_of [lf] (drop i b)")
  case None
  have "b \<noteq> []" using assms by auto
  with assms have "i \<noteq> length b - 1" by (metis last_conv_nth)
  with None assms show ?thesis by (simp add: skipComment_def)
next
  case (Some n)
  have "drop i b = b ! i # drop (i + 1) b" using assms(1) by (metis Cons_nth_drop_Suc Suc_eq_plus1)
  with Some assms have "0 < n" by (auto simp: lf_def split: if_splits)
  with Some show ?thesis by (simp add: skipComment_def)
qed

lemma flags_end_returns:
  assumes "last b \<noteq> CHR ''#''"
  shows "\<exists>e'. flags_end b e = Some e' \<and> e \<le> e'"
proof (induction "length b - e" arbitrary: e rule: less_induct)
  case less
  define e1 where "e1 = (if b ! e = dquote_char then skipQuoted b e + 1
    else if b ! e = CHR ''#'' then skipComment b e else e + 1)"
  show ?case
  proof (cases "e < length b \<and> b ! e \<noteq> lf \<and> b ! e \<noteq> CHR '';''")
    case True
    then have "e < e1" using skipQuoted_bounds [of e b] skipComment_progress [of e b] assms by (auto simp: e1_def)
    moreover have "flags_end b e = flags_end b e1" using True by (subst flags_end.simps) (simp add: e1_def)
    moreover have "\<exists>e'. flags_end b e1 = Some e' \<and> e1 \<le> e'" using less [of e1] True \<open>e < e1\<close> by (simp add: diff_less_mono2)
    ultimately show ?thesis by (metis less_imp_le order.trans)
  next
    case False
    then show ?thesis by (subst flags_end.simps) auto
  qed
qed

lemma dynamic_from_returns:
  assumes "last b \<noteq> CHR ''#''"
  shows "\<exists>d. dynamic_from b i = Some d"
proof (induction "length b - i" arbitrary: i rule: less_induct)
  case less
  show ?case
  proof (cases "i + 5 \<le> length b")
    case True
    obtain e where e: "flags_end b (i + 5) = Some e" "i + 5 \<le> e" using flags_end_returns [OF assms] by blast
    have "i \<le> skipQuoted b i" and "i \<le> skipComment b i"
      using True skipQuoted_bounds [of i b] skipComment_bounds [of i b] by auto
    then have "\<exists>d. dynamic_from b (skipQuoted b i + 1) = Some d" and "\<exists>d. dynamic_from b (skipComment b i + 1) = Some d"
      and "\<exists>d. dynamic_from b (i + 1) = Some d" and "\<exists>d. dynamic_from b (e + 1) = Some d"
      using True e by (auto intro!: less)
    then show ?thesis using True e by (subst dynamic_from.simps) auto
  next
    case False
    then show ?thesis by (subst dynamic_from.simps) auto
  qed
qed

lemma hasTransientElements_returns: "last b \<noteq> CHR ''#'' \<Longrightarrow> \<exists>x. hasTransientElements b = Some x"
  using dynamic_from_returns [of b 0]
  by (auto simp: hasTransientElements_def hasDynamicFlag_def split: bool.splits)

text \<open>On a text that ends in a comment sign the loop over the flags does not end.\<close>

lemma flags_end_stuck: "flags_end ''#'' 0 = None"
proof (rule ccontr)
  assume "flags_end ''#'' 0 \<noteq> None"
  then obtain r where ret: "flags_end ''#'' 0 = Some r" by auto
  have "''#'' \<noteq> ''#'' \<or> (0 :: nat) \<noteq> 0"
  proof (rule flags_end.raw_induct [where P = "\<lambda>b e r. b \<noteq> ''#'' \<or> e \<noteq> 0", OF _ ret])
    fix f b e r
    assume IH: "\<And>b e r. f b e = Some r \<Longrightarrow> b \<noteq> ''#'' \<or> e \<noteq> (0 :: nat)"
      and eq: "(if e < length b \<and> b ! e \<noteq> lf \<and> b ! e \<noteq> CHR '';''
          then (if b ! e = dquote_char then f b (skipQuoted b e + 1)
                else if b ! e = CHR ''#'' then f b (skipComment b e) else f b (e + 1))
          else Some e) = Some r"
    show "b \<noteq> ''#'' \<or> e \<noteq> 0"
    proof (rule ccontr)
      assume "\<not> (b \<noteq> ''#'' \<or> e \<noteq> 0)"
      then have "b = ''#''" and "e = 0" by auto
      with eq have "f ''#'' 0 = Some r" by (simp add: dquote_char_def lf_def skipComment_def)
      from IH [OF this] show False by simp
    qed
  qed
  then show False by simp
qed

subsection \<open>What is cut\<close>

lemma slice_step: "i < j \<Longrightarrow> i < length t \<Longrightarrow> slice t i j = t ! i # slice t (i + 1) j"
  unfolding slice_def by (subst Cons_nth_drop_Suc [symmetric]) (auto simp: take_Cons' )

lemma slice_append: "i \<le> j \<Longrightarrow> j \<le> k \<Longrightarrow> slice t i k = slice t i j @ slice t j k"
proof -
  assume "i \<le> j" and "j \<le> k"
  then have "k - i = (j - i) + (k - j)" and "drop j t = drop (j - i) (drop i t)" by simp_all
  then show ?thesis by (simp add: slice_def take_add)
qed

lemma slice_drop: "i \<le> j \<Longrightarrow> drop i t = slice t i j @ drop j t"
proof -
  assume "i \<le> j"
  then have "drop j t = drop (j - i) (drop i t)" by simp
  then show ?thesis by (metis append_take_drop_id slice_def)
qed

lemma slice_empty [simp]: "slice t i i = []"
  by (simp add: slice_def)

text \<open>The rest of a quoted text, a comment, and a text up to the brace that closes \<open>d\<close> open ones.\<close>

inductive quoted_rest :: "string \<Rightarrow> bool" where
  quoted_closed: "quoted_rest [dquote_char]"
| quoted_escape: "quoted_rest s \<Longrightarrow> quoted_rest (backslash # c # s)"
| quoted_char: "quoted_rest s \<Longrightarrow> c \<noteq> backslash \<Longrightarrow> c \<noteq> dquote_char \<Longrightarrow> quoted_rest (c # s)"

inductive closing :: "nat \<Rightarrow> string \<Rightarrow> bool" where
  closing_last: "closing 1 ''}''"
| closing_quoted: "quoted_rest q \<Longrightarrow> closing d s \<Longrightarrow> closing d (dquote_char # q @ s)"
| closing_comment: "lf \<notin> set c \<Longrightarrow> closing d s \<Longrightarrow> closing d (CHR ''#'' # c @ lf # s)"
| closing_open: "closing (Suc d) s \<Longrightarrow> closing d (CHR ''{'' # s)"
| closing_close: "closing d s \<Longrightarrow> 0 < d \<Longrightarrow> closing (Suc d) (CHR ''}'' # s)"
| closing_char: "closing d s \<Longrightarrow> c \<notin> {dquote_char, CHR ''#'', CHR ''{'', CHR ''}''} \<Longrightarrow> closing d (c # s)"

definition assignment :: "string \<Rightarrow> bool" where
  "assignment a \<longleftrightarrow>
     (\<exists>w1 w2 s. a = ''elements'' @ w1 @ ''='' @ w2 @ ''{'' @ s
        \<and> list_all is_space w1 \<and> list_all is_space w2 \<and> closing 1 s)"

inductive elements_cut :: "string \<Rightarrow> string \<Rightarrow> bool" where
  cut_none: "elements_cut b b"
| cut_one: "assignment a \<Longrightarrow> elements_cut rest rest' \<Longrightarrow> elements_cut (pre @ a @ rest) (pre @ rest')"

text \<open>A block that begins a line with \<open>set\<close> and is closed, whose elements are transient, loses them.\<close>

definition set_block :: "string \<Rightarrow> bool" where
  "set_block b \<longleftrightarrow>
     (\<exists>h s. b = h @ ''{'' @ s \<and> lf \<notin> set h \<and> closing 1 s
\<and> (\<exists>r. set_line (h @ ''{'' @ r)))"

inductive sanitized :: "string \<Rightarrow> string \<Rightarrow> bool" where
  sanitized_rest: "sanitized t t"
| sanitized_set: "set_block b \<Longrightarrow> hasTransientElements b = Some True \<Longrightarrow> elements_cut b b' \<Longrightarrow> sanitized rest rest'
    \<Longrightarrow> sanitized (pre @ b @ rest) (pre @ b' @ rest')"

lemma quoted_end_rest:
  "quoted_end t i + 1 < length t \<Longrightarrow> i \<le> quoted_end t i \<and> quoted_rest (slice t i (quoted_end t i + 1))"
proof (induction t i rule: quoted_end.induct)
  case (1 t i)
  have i: "i < length t"
    using "1.prems" by (subst (asm) quoted_end.simps) (auto split: if_splits)
  consider "t ! i = backslash" | "t ! i = dquote_char" "t ! i \<noteq> backslash"
    | "t ! i \<noteq> backslash" "t ! i \<noteq> dquote_char" by blast
  then show ?case
  proof cases
    case 1
    then have eq: "quoted_end t i = quoted_end t (i + 2)" using i by (subst quoted_end.simps) simp
    from "1.IH"(1) [OF i 1] "1.prems" have IH: "i + 2 \<le> quoted_end t i" "quoted_rest (slice t (i + 2) (quoted_end t i + 1))"
      by (simp_all add: eq)
    with "1.prems" have "slice t i (quoted_end t i + 1) = backslash # t ! (i + 1) # slice t (i + 2) (quoted_end t i + 1)"
      using slice_step [of i "quoted_end t i + 1" t] slice_step [of "i + 1" "quoted_end t i + 1" t] 1 by simp
    with IH show ?thesis by (auto intro: quoted_escape)
  next
    case 2
    then have eq: "quoted_end t i = i" using i by (subst quoted_end.simps) simp
    show ?thesis using 2 i slice_step [of i "i + 1" t] by (auto simp: eq intro: quoted_closed)
  next
    case 3
    then have eq: "quoted_end t i = quoted_end t (i + 1)" using i by (subst quoted_end.simps) simp
    from "1.IH"(2) [OF i 3] "1.prems" have IH: "i + 1 \<le> quoted_end t i" "quoted_rest (slice t (i + 1) (quoted_end t i + 1))"
      by (simp_all add: eq)
    with 3 "1.prems" show ?thesis
      using slice_step [of i "quoted_end t i + 1" t] by (auto intro: quoted_char)
  qed
qed

lemma skipQuoted_rest:
  assumes "skipQuoted t i + 1 < length t"
  shows "i < skipQuoted t i \<and> quoted_rest (slice t (i + 1) (skipQuoted t i + 1))"
  using quoted_end_rest [of t "i + 1"] assms by (auto simp: skipQuoted_def)

lemma skipComment_rest:
  assumes "skipComment t i + 1 < length t" and "i < length t" and "t ! i = CHR ''#''"
  obtains c where "slice t i (skipComment t i + 1) = CHR ''#'' # c @ [lf]" and "lf \<notin> set c"
    and "i < skipComment t i"
proof -
  from assms obtain n where n: "index_of [lf] (drop i t) = Some n" and sk: "skipComment t i = i + n"
    by (auto simp: skipComment_def split: option.splits)
  from index_of_charD [OF n] have len: "n < length (drop i t)" and at: "drop i t ! n = lf"
    and no: "lf \<notin> set (take n (drop i t))" by auto
  have "drop i t ! 0 \<noteq> lf" using assms(2,3) by (simp add: lf_def)
  with at have "0 < n" by (metis gr0I)
  then have hd: "take n (drop i t) = t ! i # take (n - 1) (drop (i + 1) t)"
    using assms(2) by (subst Cons_nth_drop_Suc [symmetric]) (auto simp: take_Cons')
  have "slice t i (i + n + 1) = take n (drop i t) @ [lf]"
    using len at by (simp add: slice_def take_Suc_conv_app_nth)
  then show thesis
    using that [of "take (n - 1) (drop (i + 1) t)"] sk \<open>0 < n\<close> assms(3) hd no by simp
qed

lemma brace_loop_closing:
  "brace_loop t i (int d) = Some c \<Longrightarrow> 0 < d \<Longrightarrow> closing d (slice t i (c + 1))"
proof (induction "length t - i" arbitrary: i d rule: less_induct)
  case less
  note eq = brace_loop.simps [of t i "int d"]
  from brace_loop_step [OF less.prems(1)] have i: "i < length t" by blast
  from brace_loop_bounds [OF less.prems(1)] have c: "i \<le> c" "c < length t" by auto
  have step: "slice t i (c + 1) = t ! i # slice t (i + 1) (c + 1)" using slice_step [of i "c + 1" t] c by simp
  consider (quote) "t ! i = dquote_char" | (comment) "t ! i = CHR ''#''" | (op) "t ! i = CHR ''{''"
    | (cl) "t ! i = CHR ''}''" | (other) "t ! i \<notin> {dquote_char, CHR ''#'', CHR ''{'', CHR ''}''}"
    by blast
  then show ?case
  proof cases
    case quote
    then have rec: "brace_loop t (skipQuoted t i + 1) (int d) = Some c" using less.prems(1) i by (simp add: eq)
    with brace_loop_bounds have b: "skipQuoted t i + 1 \<le> c" "skipQuoted t i + 1 < length t" by fastforce+
    with skipQuoted_rest have q: "i < skipQuoted t i" "quoted_rest (slice t (i + 1) (skipQuoted t i + 1))" by blast+
    have "closing d (slice t (skipQuoted t i + 1) (c + 1))"
      using less.hyps [OF _ rec less.prems(2)] q i by simp
    with q(2) have "closing d (dquote_char # slice t (i + 1) (skipQuoted t i + 1) @ slice t (skipQuoted t i + 1) (c + 1))"
      by (rule closing_quoted)
    then show ?thesis
      using step quote slice_append [of "i + 1" "skipQuoted t i + 1" "c + 1" t] q(1) b(1) by simp
  next
    case comment
    then have rec: "brace_loop t (skipComment t i + 1) (int d) = Some c"
      using less.prems(1) i by (simp add: eq dquote_char_def)
    with brace_loop_bounds have b: "skipComment t i + 1 \<le> c" "skipComment t i + 1 < length t" by fastforce+
    from skipComment_rest [OF b(2) i comment] obtain cs where
      cs: "slice t i (skipComment t i + 1) = CHR ''#'' # cs @ [lf]" "lf \<notin> set cs" "i < skipComment t i" by blast
    have "closing d (slice t (skipComment t i + 1) (c + 1))"
      using less.hyps [OF _ rec less.prems(2)] cs(3) i by simp
    from closing_comment [OF cs(2) this] show ?thesis
      using slice_append [of i "skipComment t i + 1" "c + 1" t] cs b(1) by simp
  next
    case op
    then have "brace_loop t (i + 1) (int (Suc d)) = Some c"
      using less.prems(1) i by (simp add: eq dquote_char_def add.commute)
    then have "closing (Suc d) (slice t (i + 1) (c + 1))" using less.hyps i by simp
    then show ?thesis using step op by (simp add: closing_open)
  next
    case cl
    show ?thesis
    proof (cases "d = 1")
      case True
      have "brace_loop t i 1 = Some i" using i cl by (simp add: brace_loop.simps [of t i 1] dquote_char_def)
      with True less.prems(1) have "c = i" by simp
      then show ?thesis using True step cl closing_last by (simp add: slice_def)
    next
      case False
      define d' where "d' = d - 1"
      have d': "d = Suc d'" "0 < d'" using False less.prems(2) by (auto simp: d'_def)
      then have "int d - 1 = int d'" and "int d - 1 \<noteq> 0" by auto
      then have "brace_loop t (i + 1) (int d') = Some c"
        using less.prems(1) i cl unfolding eq by (simp add: dquote_char_def del: of_nat_eq_0_iff)
      then have "closing d' (slice t (i + 1) (c + 1))" using less.hyps i d' by simp
      then show ?thesis using step cl d' by (simp add: closing_close)
    qed
  next
    case other
    then have "brace_loop t (i + 1) (int d) = Some c" using less.prems(1) i by (simp add: eq)
    then have "closing d (slice t (i + 1) (c + 1))" using less.hyps less.prems(2) i by simp
    then show ?thesis using step other closing_char by simp
  qed
qed

lemma matchingBrace_closing:
  assumes "matchingBrace t k = Some c" and "t ! k = CHR ''{''"
  shows "k < c \<and> slice t k (c + 1) = ''{'' @ slice t (k + 1) (c + 1) \<and> closing 1 (slice t (k + 1) (c + 1))"
proof -
  from matchingBrace_bounds [OF assms(1)] have b: "k \<le> c" "c < length t" "t ! c = CHR ''}''" by auto
  then have "brace_loop t (k + 1) (int 1) = Some c"
    using assms by (simp add: matchingBrace_def brace_loop.simps [of t k 0] dquote_char_def)
  from brace_loop_closing [OF this] have "closing 1 (slice t (k + 1) (c + 1))" by simp
  moreover have "k \<noteq> c" using b assms(2) by auto
  ultimately show ?thesis using b slice_step [of k "c + 1" t] assms(2) by simp
qed

lemma skipWhitespace_space: "list_all is_space (slice t i (skipWhitespace t i))"
proof (induction t i rule: skipWhitespace.induct)
  case (1 t i)
  show ?case
  proof (cases "i < length t \<and> t ! i \<in> {CHR '' '', CHR 0x09, CHR 0x0D, lf}")
    case True
    then have eq: "skipWhitespace t i = skipWhitespace t (i + 1)" by (subst skipWhitespace.simps) simp
    have "i < skipWhitespace t (i + 1)" using skipWhitespace_ge [of "i + 1" t] by linarith
    with True 1 show ?thesis
      using slice_step [of i "skipWhitespace t (i + 1)" t] by (auto simp: eq is_space_def lf_def)
  qed (subst skipWhitespace.simps, auto)
qed

lemma assigns_at_assignment:
  assumes "assigns_at b s k" and "matchingBrace b k = Some c"
  shows "assignment (slice b s (c + 1))"
proof -
  define j where "j = skipWhitespace b (s + 8)"
  from assms(1) have eq: "slice b s (s + 8) = ''elements''" "b ! j = CHR ''=''" "k = skipWhitespace b (j + 1)"
    "k < length b" "b ! k = CHR ''{''" by (auto simp: assigns_at_def j_def)
  have le: "s + 8 \<le> j" "j + 1 \<le> k" using skipWhitespace_ge by (simp_all add: j_def eq(3))
  from matchingBrace_closing [OF assms(2) eq(5)] have c: "k < c"
    "slice b k (c + 1) = ''{'' @ slice b (k + 1) (c + 1)" "closing 1 (slice b (k + 1) (c + 1))" by auto
  have "slice b s (c + 1) = slice b s (s + 8) @ slice b (s + 8) j @ slice b j (j + 1) @ slice b (j + 1) k @ slice b k (c + 1)"
    using le c(1) slice_append [of s "s + 8" "c + 1" b] slice_append [of "s + 8" j "c + 1" b]
      slice_append [of j "j + 1" "c + 1" b] slice_append [of "j + 1" k "c + 1" b] by simp
  moreover have "slice b j (j + 1) = ''=''" using slice_step [of j "j + 1" b] eq le by simp
  ultimately show ?thesis
    unfolding assignment_def using eq(1) c(2,3) skipWhitespace_space [of b "s + 8"] skipWhitespace_space [of b "j + 1"]
    by (intro exI [of _ "slice b (s + 8) j"] exI [of _ "slice b (j + 1) k"] exI [of _ "slice b (k + 1) (c + 1)"])
      (simp add: j_def eq(3))
qed

lemma remove_loop_cut:
  "p \<le> length b \<Longrightarrow> (p = 0 \<longrightarrow> acc = []) \<Longrightarrow> \<exists>x. remove_loop b acc p = acc @ x \<and> elements_cut (drop p b) x"
proof (induction b acc p rule: remove_loop.induct)
  case (1 b acc p)
  show ?case
  proof (cases "next_cut b p")
    case None
    then have "remove_loop b acc p = acc @ drop p b" using 1 by (subst remove_loop.simps) auto
    then show ?thesis using cut_none by blast
  next
    case (Some sc)
    then obtain s c where sc: "next_cut b p = Some (s, c)" by (cases sc) auto
    from next_cutD [OF this] obtain k where k: "assigns_at b s k" "matchingBrace b k = Some c" "p \<le> s" "s < k" "k \<le> c"
      "c < length b" by metis
    have "\<exists>x. remove_loop b (acc @ slice b p s) (c + 1) = (acc @ slice b p s) @ x \<and> elements_cut (drop (c + 1) b) x"
      using "1.IH" [OF Some, of s c] Some sc k by simp
    then obtain x where x: "remove_loop b (acc @ slice b p s) (c + 1) = (acc @ slice b p s) @ x"
      and cut: "elements_cut (drop (c + 1) b) x" by blast
    have "drop p b = slice b p s @ slice b s (c + 1) @ drop (c + 1) b"
      using slice_drop [of p s b] slice_drop [of s "c + 1" b] k by simp
    moreover have "remove_loop b acc p = acc @ slice b p s @ x"
      using sc x by (subst remove_loop.simps) simp
    ultimately show ?thesis using cut_one [OF assigns_at_assignment [OF k(1,2)] cut] by metis
  qed
qed

lemma removeElementsAssignments_cut: "elements_cut b (removeElementsAssignments b)"
  using remove_loop_cut [of 0 b "[]"] by (auto simp: removeElementsAssignments_def)

lemma next_set_block:
  assumes "next_set t i = Some (s, c)"
  shows "set_block (slice t s (c + 1)) \<and> last (slice t s (c + 1)) = CHR ''}'' \<and> i \<le> s \<and> s \<le> c \<and> c < length t"
proof -
  from next_setD [OF assms] obtain k where k: "nextSetDeclaration t i = Some (s, k)" "matchingBrace t k = Some c"
    "i \<le> s" "s \<le> k" "k \<le> c" "c < length t" "t ! c = CHR ''}''" by metis
  from nextSetDeclaration_found [OF k(1)] obtain r where f: "t ! k = CHR ''{''" "lf \<notin> set (slice t s k)"
    "set_line (slice t s k @ ''{'' @ r)" by blast
  from matchingBrace_closing [OF k(2) f(1)] have c: "k < c" "slice t k (c + 1) = ''{'' @ slice t (k + 1) (c + 1)"
    "closing 1 (slice t (k + 1) (c + 1))" by auto
  have "slice t s (c + 1) = slice t s k @ slice t k (c + 1)" using k slice_append [of s k "c + 1" t] by simp
  then have "set_block (slice t s (c + 1))" unfolding set_block_def using c f by metis
  moreover have "slice t s (c + 1) = slice t s c @ [t ! c]"
    using k c slice_append [of s c "c + 1" t] slice_step [of c "c + 1" t] by simp
  ultimately show ?thesis using k by simp
qed

lemma sanitize_loop_cut:
  "l \<le> i \<Longrightarrow> i \<le> length t \<Longrightarrow> (l = 0 \<longrightarrow> acc = []) \<Longrightarrow>
     \<exists>x. sanitize_loop t acc l i = Some (acc @ x) \<and> sanitized (drop l t) x"
proof (induction t acc l i rule: sanitize_loop.induct)
  case (1 t acc l i)
  show ?case
  proof (cases "next_set t i")
    case None
    then have "sanitize_loop t acc l i = Some (acc @ drop l t)" using 1 by (subst sanitize_loop.simps) auto
    then show ?thesis using sanitized_rest by blast
  next
    case (Some sc)
    then obtain s c where sc: "next_set t i = Some (s, c)" by (cases sc) auto
    define b where "b = slice t s (c + 1)"
    from next_set_block [OF sc] have blk: "set_block b" "last b = CHR ''}''" "i \<le> s" "s \<le> c" "c < length t"
      by (auto simp: b_def)
    from hasTransientElements_returns [of b] blk(2) obtain tr where tr: "hasTransientElements b = Some tr" by auto
    show ?thesis
    proof (cases "tr \<and> removeElementsAssignments b \<noteq> b")
      case True
      have "\<exists>x. sanitize_loop t (acc @ slice t l s @ removeElementsAssignments b) (c + 1) (c + 1)
          = Some ((acc @ slice t l s @ removeElementsAssignments b) @ x) \<and> sanitized (drop (c + 1) t) x"
        using "1.IH"(1) [OF Some _ b_def tr True] Some sc blk by simp
      then obtain x where
        x: "sanitize_loop t (acc @ slice t l s @ removeElementsAssignments b) (c + 1) (c + 1)
          = Some ((acc @ slice t l s @ removeElementsAssignments b) @ x)" and san: "sanitized (drop (c + 1) t) x" by blast
      have "sanitize_loop t acc l i = Some (acc @ slice t l s @ removeElementsAssignments b @ x)"
        using sc tr True x by (subst sanitize_loop.simps) (simp add: b_def Let_def)
      moreover have "drop l t = slice t l s @ b @ drop (c + 1) t"
        using slice_drop [of l s t] slice_drop [of s "c + 1" t] blk "1.prems" by (simp add: b_def)
      ultimately show ?thesis
        using sanitized_set [OF blk(1) _ removeElementsAssignments_cut san] tr True by metis
    next
      case False
      have "\<exists>x. sanitize_loop t acc l (c + 1) = Some (acc @ x) \<and> sanitized (drop l t) x"
        using "1.IH"(2) [OF Some _ b_def tr False] Some sc blk "1.prems" by simp
      then obtain x where x: "sanitize_loop t acc l (c + 1) = Some (acc @ x)" and san: "sanitized (drop l t) x" by blast
      have "sanitize_loop t acc l i = Some (acc @ x)"
        using sc tr False x by (subst sanitize_loop.simps) (auto simp: b_def Let_def)
      with san show ?thesis by blast
    qed
  qed
qed

text \<open>
  The sanitizer returns on every text, and nothing but measurements leaves the file: what it returns is the text less
  some assignments of elements, each from its keyword to the brace that closes it (comments and quoted text skipped), in
  blocks that begin a line with \<open>set\<close> and that are dynamic or have a timeout; every other byte stays where it was.
\<close>

theorem only_transient_elements_are_cut:
  "\<exists>out. sanitizeDynamicSetElements t = Some out \<and> sanitized t out"
  using sanitize_loop_cut [of 0 0 t "[]"] by (auto simp: sanitizeDynamicSetElements_def)

end
