(* ===== verification/QosText.thy ===== *)
theory QosText
  imports NetText
begin

text \<open>
  What the traffic shaper reads and writes as text (internal/qos: qos.go, observe.go and the readers of
  service.go): the configuration of a link and its validation, the lines of \<open>tc qdisc show\<close> and
  \<open>tc filter show\<close>, the signature by which the product recognises a queue it installed, and the
  arguments that install it again.  Text is ASCII; \<open>time.ParseDuration\<close> and \<open>strconv.ParseFloat\<close> are
  modelled on decimal notation, without rounding.
\<close>

subsection \<open>The configuration of a link\<close>

definition MinBandwidthMbps :: int where "MinBandwidthMbps = 1"
definition MaxBandwidthMbps :: int where "MaxBandwidthMbps = 1000000"

record qos_config =
  qc_Interface :: string
  qc_Enabled :: bool
  qc_UploadMbps :: int
  qc_DownloadMbps :: int
  qc_Interactive :: bool

definition off_config :: "string \<Rightarrow> qos_config" where
  "off_config iface = \<lparr>qc_Interface = iface, qc_Enabled = False, qc_UploadMbps = 0, qc_DownloadMbps = 0,
     qc_Interactive = False\<rparr>"

definition validInterfaceName :: "string \<Rightarrow> bool" where
  "validInterfaceName iface \<longleftrightarrow> iface \<noteq> ''.'' \<and> iface \<noteq> ''..'' \<and> reIface iface"

definition validateBandwidth :: "int \<Rightarrow> bool \<Rightarrow> bool" where
  "validateBandwidth mbps required \<longleftrightarrow>
     (if \<not> required \<and> mbps = 0 then True
      else if mbps < MinBandwidthMbps \<or> mbps > MaxBandwidthMbps then False
      else True)"

definition config_Validate :: "qos_config \<Rightarrow> bool" where
  "config_Validate c \<longleftrightarrow>
     validInterfaceName (qc_Interface c)
     \<and> validateBandwidth (qc_UploadMbps c) (qc_Enabled c)
     \<and> validateBandwidth (qc_DownloadMbps c) (qc_Enabled c)"

definition bandwidthArg :: "int \<Rightarrow> string" where
  "bandwidthArg mbps = itoa mbps @ ''mbit''"

definition qos_mode :: "qos_config \<Rightarrow> string" where
  "qos_mode c = (if qc_Interactive c then ''diffserv4'' else ''besteffort'')"

text \<open>The name of the IFB of a link; \<open>hexsum\<close> is the SHA-256 of a string in hexadecimal.\<close>

definition IFBName :: "(string \<Rightarrow> string) \<Rightarrow> string \<Rightarrow> string" where
  "IFBName hexsum iface = ''ifb-'' @ take 11 (hexsum iface)"

definition redirectFilterPriority :: string where "redirectFilterPriority = ''49152''"
definition managedEgressHandle :: string where "managedEgressHandle = ''cafe:''"
definition managedIngressHandle :: string where "managedIngressHandle = ''caff:''"
definition managedNetemHandle :: string where "managedNetemHandle = ''2:''"

record netem_fault =
  nf_DelayMs :: int
  nf_LossPct :: int

definition fault_validate :: "netem_fault \<Rightarrow> bool" where
  "fault_validate f \<longleftrightarrow> \<not> nf_DelayMs f \<le> 0 \<and> \<not> (nf_LossPct f < 0 \<or> nf_LossPct f > 100)"

subsection \<open>The root queue of an interface\<close>

record rootQdiscInfo =
  rq_kind :: string
  rq_handle :: string

definition is_root_line :: "string \<Rightarrow> bool" where
  "is_root_line line \<longleftrightarrow>
     (let fields = go_fields line
      in length fields \<ge> 4 \<and> fields ! 0 = ''qdisc'' \<and> fields ! 3 = ''root'')"

definition rootQdiscLine :: "string \<Rightarrow> string option" where
  "rootQdiscLine output = find is_root_line (go_split newline output)"

definition rootQdisc :: "string \<Rightarrow> rootQdiscInfo option" where
  "rootQdisc output =
     map_option (\<lambda>line. \<lparr>rq_kind = go_fields line ! 1, rq_handle = go_fields line ! 2\<rparr>)
       (find is_root_line (go_split newline output))"

definition hasRootQdisc :: "string \<Rightarrow> bool" where
  "hasRootQdisc output \<longleftrightarrow> rootQdisc output \<noteq> None"

definition replaceableInitialRootQdiscs :: "string list" where
  "replaceableInitialRootQdiscs = [''fq_codel'', ''mq'', ''noqueue'']"

definition isReplaceableInitialRoot :: "rootQdiscInfo \<Rightarrow> bool" where
  "isReplaceableInitialRoot qd \<longleftrightarrow>
     (if rq_handle qd \<noteq> ''0:'' then False else rq_kind qd \<in> set replaceableInitialRootQdiscs)"

definition hasForeignRootQdisc :: "string \<Rightarrow> bool \<Rightarrow> bool" where
  "hasForeignRootQdisc output owned \<longleftrightarrow>
     (case rootQdisc output of
        None \<Rightarrow> False
      | Some qd \<Rightarrow> if owned then False else if isReplaceableInitialRoot qd then False else True)"

definition hasClsact :: "string \<Rightarrow> bool" where
  "hasClsact output \<longleftrightarrow>
     list_ex (\<lambda>line. let fields = go_fields line
                     in length fields \<ge> 2 \<and> fields ! 0 = ''qdisc'' \<and> fields ! 1 = ''clsact'')
       (go_split newline output)"

definition disposable_line :: "string \<Rightarrow> bool" where
  "disposable_line line \<longleftrightarrow>
     (let fields = go_fields line
      in if length fields = 0 then True
         else if length fields < 4 \<or> fields ! 0 \<noteq> ''qdisc'' \<or> fields ! 3 \<noteq> ''root'' \<or> fields ! 2 \<noteq> ''0:'' then False
         else if fields ! 1 \<noteq> ''noqueue'' \<and> fields ! 1 \<noteq> ''noop'' then False
         else True)"

definition hasOnlyDisposableIFBQdiscs :: "string \<Rightarrow> bool" where
  "hasOnlyDisposableIFBQdiscs output \<longleftrightarrow> list_all disposable_line (go_split newline output)"

subsection \<open>The settings of a queue\<close>

text \<open>\<open>(?i)^[0-9]+(?:\.[0-9]+)?(?:kbit|mbit|gbit)$\<close>\<close>

definition decimal :: "string \<Rightarrow> bool" where
  "decimal s \<longleftrightarrow>
     (case go_cut s ''.'' of
        None \<Rightarrow> all_digits s
      | Some (a, b) \<Rightarrow> all_digits a \<and> all_digits b)"

definition cakeBandwidthPattern :: "string \<Rightarrow> bool" where
  "cakeBandwidthPattern s \<longleftrightarrow>
     (let l = go_lower s; n = length l - 4
      in drop n l \<in> {''kbit'', ''mbit'', ''gbit''} \<and> decimal (take n l))"

fun cake_loop :: "string list \<Rightarrow> string \<times> string \<Rightarrow> string \<times> string" where
  "cake_loop [] (bandwidth, mode) = (bandwidth, mode)"
| "cake_loop (field # rest) (bandwidth, mode) =
     cake_loop rest
       (if field = ''bandwidth'' \<and> rest \<noteq> [] \<and> cakeBandwidthPattern (hd rest) then hd rest else bandwidth,
        if field = ''diffserv4'' \<or> field = ''besteffort'' then field else mode)"

definition cakeSettings :: "string \<Rightarrow> (string \<times> string) option" where
  "cakeSettings output =
     (case rootQdiscLine output of
        None \<Rightarrow> None
      | Some line \<Rightarrow>
          (let (bandwidth, mode) = cake_loop (go_fields line) ([], [])
           in if bandwidth \<noteq> [] \<and> mode \<noteq> [] then Some (bandwidth, mode) else None))"

text \<open>\<open>time.ParseDuration\<close>, in nanoseconds.\<close>

definition duration_unit :: "string \<Rightarrow> int option" where
  "duration_unit u =
     (if u = ''ns'' then Some 1 else if u = ''us'' then Some 1000 else if u = ''ms'' then Some 1000000
      else if u = ''s'' then Some 1000000000 else if u = ''m'' then Some 60000000000
      else if u = ''h'' then Some 3600000000000 else None)"

definition number_char :: "char \<Rightarrow> bool" where
  "number_char c \<longleftrightarrow> is_digit c \<or> c = CHR ''.''"

function duration_loop :: "int \<Rightarrow> string \<Rightarrow> int option" where
  "duration_loop d s =
     (if s = [] then Some d
      else let whole = takeWhile is_digit s;
               s1 = dropWhile is_digit s;
               point = (s1 \<noteq> [] \<and> hd s1 = CHR ''.'');
               fraction = (if point then takeWhile is_digit (tl s1) else []);
               s2 = (if point then dropWhile is_digit (tl s1) else s1);
               u = takeWhile (\<lambda>c. \<not> number_char c) s2;
               s3 = dropWhile (\<lambda>c. \<not> number_char c) s2
           in if whole = [] \<and> fraction = [] then None
              else if u = [] then None
              else case duration_unit u of
                     None \<Rightarrow> None
                   | Some unit \<Rightarrow>
                       (let v = int (digits_value 0 whole) * unit
                                + int (digits_value 0 fraction) * unit div 10 ^ length fraction
                        in if int (digits_value 0 whole) > 2 ^ 63 div unit \<or> v > 2 ^ 63 \<or> d + v > 2 ^ 63 then None
                           else duration_loop (d + v) s3))"
  by pat_completeness auto
termination
proof (relation "measure (\<lambda>(d, s). length s)")
  show "wf (measure (\<lambda>(d :: int, s :: string). length s))" by simp
next
  fix d :: int and s whole s1 :: string and point fraction s2 u s3 unit v
  assume s1: "s1 = dropWhile is_digit s" and s2: "s2 = (if point then dropWhile is_digit (tl s1) else s1)"
    and u: "u = takeWhile (\<lambda>c. \<not> number_char c) s2" "s3 = dropWhile (\<lambda>c. \<not> number_char c) s2" "u \<noteq> []"
  have "length s2 = length u + length s3"
    unfolding u by (metis length_append takeWhile_dropWhile_id)
  moreover have "length s2 \<le> length s1"
    using length_dropWhile_le [of is_digit "tl s1"] by (simp add: s2 del: length_tl) (auto simp: length_tl)
  moreover have "length s1 \<le> length s" by (simp add: s1 length_dropWhile_le)
  moreover have "length u \<noteq> 0" using u(3) by simp
  ultimately have "length s3 < length s" by linarith
  then show "((d + v, s3), d, s) \<in> measure (\<lambda>(d, s). length s)" by simp
qed

declare duration_loop.simps [simp del]

definition go_ParseDuration :: "string \<Rightarrow> int option" where
  "go_ParseDuration s =
     (let neg = (s \<noteq> [] \<and> hd s = CHR ''-'');
          body = (if s \<noteq> [] \<and> (hd s = CHR ''-'' \<or> hd s = CHR ''+'') then tl s else s)
      in if body = ''0'' then Some 0
         else if body = [] then None
         else case duration_loop 0 body of
                None \<Rightarrow> None
              | Some d \<Rightarrow> if neg then Some (- d) else if d > 2 ^ 63 - 1 then None else Some d)"

text \<open>\<open>strconv.ParseFloat\<close>: sign, digits with at most one point, exponent.\<close>

definition parse_exponent :: "string \<Rightarrow> int option" where
  "parse_exponent s =
     (if s = [] then Some 0
      else if lower_char (hd s) \<noteq> CHR ''e'' then None
      else let t = tl s;
               neg = (t \<noteq> [] \<and> hd t = CHR ''-'');
               body = (if t \<noteq> [] \<and> (hd t = CHR ''-'' \<or> hd t = CHR ''+'') then tl t else t)
           in if all_digits body then Some (if neg then - int (digits_value 0 body) else int (digits_value 0 body))
              else None)"

definition scaled :: "nat \<Rightarrow> int \<Rightarrow> real" where
  "scaled m e = (if 0 \<le> e then real m * 10 ^ nat e else real m / 10 ^ nat (- e))"

definition go_ParseFloat :: "string \<Rightarrow> real option" where
  "go_ParseFloat s =
     (let neg = (s \<noteq> [] \<and> hd s = CHR ''-'');
          body = (if s \<noteq> [] \<and> (hd s = CHR ''-'' \<or> hd s = CHR ''+'') then tl s else s);
          whole = takeWhile is_digit body;
          s1 = dropWhile is_digit body;
          point = (s1 \<noteq> [] \<and> hd s1 = CHR ''.'');
          fraction = (if point then takeWhile is_digit (tl s1) else []);
          s2 = (if point then dropWhile is_digit (tl s1) else s1)
      in if whole = [] \<and> fraction = [] then None
         else case parse_exponent s2 of
                None \<Rightarrow> None
              | Some e \<Rightarrow>
                  (let x = scaled (digits_value 0 (whole @ fraction)) (e - int (length fraction))
                   in Some (if neg then - x else x)))"

definition netem_unsupported :: "string list" where
  "netem_unsupported =
     [''corrupt'', ''distribution'', ''duplicate'', ''gap'', ''rate'', ''reorder'', ''seed'', ''slot'']"

text \<open>One field of the netem line with what follows it: the delay it gives, or \<open>None\<close> to give up.\<close>

definition netem_delay :: "string list \<Rightarrow> int option" where
  "netem_delay rest =
     (case go_ParseDuration (go_lower (hd rest)) of
        None \<Rightarrow> None
      | Some d \<Rightarrow>
          if d \<le> 0 \<or> d mod 1000000 \<noteq> 0 then None
          else if length rest > 1 \<and> go_ParseDuration (go_lower (rest ! 1)) \<noteq> None then None
          else Some (d div 1000000))"

definition netem_loss :: "string list \<Rightarrow> int option" where
  "netem_loss rest =
     (case go_ParseFloat (trim_suffix (hd rest) ''%'') of
        None \<Rightarrow> None
      | Some loss \<Rightarrow>
          if loss < 0 \<or> loss > 100 \<or> loss \<noteq> of_int \<lfloor>loss\<rfloor> then None
          else if length rest > 1 \<and> suffix ''%'' (rest ! 1) then None
          else Some \<lfloor>loss\<rfloor>)"

fun netem_loop :: "string list \<Rightarrow> int \<times> int \<times> bool \<Rightarrow> (int \<times> int \<times> bool) option" where
  "netem_loop [] acc = Some acc"
| "netem_loop (field # rest) (delay, loss, found) =
     (if field \<in> set netem_unsupported then None
      else if field = ''delay'' \<and> rest \<noteq> []
           then (case netem_delay rest of None \<Rightarrow> None | Some d \<Rightarrow> netem_loop rest (d, loss, True))
      else if field = ''loss'' \<and> rest \<noteq> []
           then (case netem_loss rest of None \<Rightarrow> None | Some l \<Rightarrow> netem_loop rest (delay, l, found))
      else netem_loop rest (delay, loss, found))"

definition netemSettings :: "string \<Rightarrow> (int \<times> int) option" where
  "netemSettings output =
     (case rootQdiscLine output of
        None \<Rightarrow> None
      | Some line \<Rightarrow>
          (case netem_loop (go_fields line) (0, 0, False) of
             Some (delay, loss, True) \<Rightarrow> Some (delay, loss)
           | _ \<Rightarrow> None))"

subsection \<open>Signatures\<close>

record rootSignature =
  rs_kind :: string
  rs_handle :: string
  rs_bandwidth :: string
  rs_mode :: string
  rs_hostMode :: string
  rs_nat :: bool
  rs_ingress :: bool
  rs_delayMs :: int
  rs_lossPct :: int

definition no_signature :: rootSignature where
  "no_signature = \<lparr>rs_kind = [], rs_handle = [], rs_bandwidth = [], rs_mode = [], rs_hostMode = [],
     rs_nat = False, rs_ingress = False, rs_delayMs = 0, rs_lossPct = 0\<rparr>"

definition cakeRootSignature :: "string \<Rightarrow> string \<Rightarrow> string \<Rightarrow> string \<Rightarrow> bool \<Rightarrow> bool \<Rightarrow> rootSignature" where
  "cakeRootSignature handle bandwidth mode hostMode nated ingress =
     no_signature\<lparr>rs_kind := ''cake'', rs_handle := handle, rs_bandwidth := bandwidth, rs_mode := mode,
       rs_hostMode := hostMode, rs_nat := nated, rs_ingress := ingress\<rparr>"

definition netemRootSignature :: "netem_fault \<Rightarrow> rootSignature" where
  "netemRootSignature fault =
     no_signature\<lparr>rs_kind := ''netem'', rs_handle := managedNetemHandle, rs_delayMs := nf_DelayMs fault,
       rs_lossPct := nf_LossPct fault\<rparr>"

definition egress_signature :: "qos_config \<Rightarrow> rootSignature" where
  "egress_signature c =
     cakeRootSignature managedEgressHandle (bandwidthArg (qc_UploadMbps c)) (qos_mode c) ''dual-srchost'' True False"

definition ingress_signature :: "qos_config \<Rightarrow> rootSignature" where
  "ingress_signature c =
     cakeRootSignature managedIngressHandle (bandwidthArg (qc_DownloadMbps c)) (qos_mode c) ''dual-dsthost'' True True"

definition managedCakeRootSignature :: "string \<Rightarrow> string \<Rightarrow> string \<Rightarrow> rootSignature \<times> bool" where
  "managedCakeRootSignature output handle hostMode =
     (case rootQdiscLine output of
        None \<Rightarrow> (no_signature, False)
      | Some line \<Rightarrow>
          (case rootQdisc line of
             None \<Rightarrow> (no_signature, False)
           | Some qd \<Rightarrow>
               if rq_kind qd \<noteq> ''cake'' \<or> rq_handle qd \<noteq> handle \<or> hostMode \<notin> set (go_fields line)
               then (no_signature, False)
               else case cakeSettings line of
                      None \<Rightarrow> (no_signature, False)
                    | Some (bandwidth, mode) \<Rightarrow>
                        (cakeRootSignature handle bandwidth mode hostMode
                           (''nat'' \<in> set (go_fields line)) (''ingress'' \<in> set (go_fields line)), True)))"

definition linkGuardCakeRootSignature ::
  "string \<Rightarrow> string \<Rightarrow> string \<Rightarrow> bool \<Rightarrow> rootSignature \<times> bool" where
  "linkGuardCakeRootSignature output managedHandle hostMode ingress =
     (let (sig, ok) = managedCakeRootSignature output managedHandle hostMode
      in (sig, ok \<and> rs_nat sig \<and> rs_ingress sig = ingress))"

definition sig_matches :: "rootSignature \<Rightarrow> string \<Rightarrow> bool" where
  "sig_matches sig output \<longleftrightarrow>
     (case rootQdisc output of
        None \<Rightarrow> False
      | Some qd \<Rightarrow>
          if rq_kind qd \<noteq> rs_kind sig \<or> rq_handle qd \<noteq> rs_handle sig then False
          else if rs_kind sig = ''cake'' then
            (case cakeSettings output of
               None \<Rightarrow> False
             | Some (bandwidth, mode) \<Rightarrow>
                 (let words = go_fields output
                  in go_lower bandwidth = go_lower (rs_bandwidth sig) \<and> mode = rs_mode sig
                     \<and> rs_hostMode sig \<in> set words
                     \<and> (''nat'' \<in> set words) = rs_nat sig
                     \<and> (''ingress'' \<in> set words) = rs_ingress sig))
          else if rs_kind sig = ''netem'' then
            (case netemSettings output of
               None \<Rightarrow> False
             | Some (delay, loss) \<Rightarrow> delay = rs_delayMs sig \<and> loss = rs_lossPct sig)
          else False)"

definition cakeSignatureArgs :: "rootSignature \<Rightarrow> string list" where
  "cakeSignatureArgs sig =
     [''bandwidth'', rs_bandwidth sig, rs_mode sig] @ (if rs_nat sig then [''nat''] else [])
     @ [rs_hostMode sig] @ (if rs_ingress sig then [''ingress''] else [])"

subsection \<open>Filters\<close>

definition tc_word_char :: "char \<Rightarrow> bool" where
  "tc_word_char c \<longleftrightarrow>
     is_lower c \<or> is_upper c \<or> is_digit c \<or> c = CHR ''-'' \<or> c = CHR ''_'' \<or> c = CHR '':''"

fun words_acc :: "string \<Rightarrow> string \<Rightarrow> string list" where
  "words_acc acc [] = (if acc = [] then [] else [rev acc])"
| "words_acc acc (c # cs) =
     (if \<not> tc_word_char c
      then (if acc = [] then words_acc [] cs else rev acc # words_acc [] cs)
      else words_acc (c # acc) cs)"

definition tcWords :: "string \<Rightarrow> string list" where
  "tcWords text = words_acc [] (go_lower text)"

definition redirect_words :: "string \<Rightarrow> string list" where
  "redirect_words ifb =
     [''pref'', redirectFilterPriority, ''matchall'', ''action'', ''mirred'', ''egress'', ''redirect'', go_lower ifb]"

definition redirect_block :: "string \<Rightarrow> string \<Rightarrow> bool" where
  "redirect_block ifb block \<longleftrightarrow>
     (if block = [] then False else list_all (\<lambda>required. required \<in> set (tcWords block)) (redirect_words ifb))"

fun redirect_scan :: "string \<Rightarrow> string \<Rightarrow> string list \<Rightarrow> bool" where
  "redirect_scan ifb block [] = redirect_block ifb block"
| "redirect_scan ifb block (line # lines) =
     (if prefix ''filter '' line \<and> block \<noteq> []
      then (if redirect_block ifb block then True else redirect_scan ifb line lines)
      else redirect_scan ifb ((if block \<noteq> [] then block @ newline else block) @ line) lines)"

definition hasManagedRedirect :: "string \<Rightarrow> string \<Rightarrow> bool" where
  "hasManagedRedirect output ifb = redirect_scan ifb [] (go_split newline output)"

definition hasFilterRecord :: "string \<Rightarrow> bool" where
  "hasFilterRecord output \<longleftrightarrow>
     (if list_ex (\<lambda>line. prefix ''filter '' (trim_space line)) (go_split newline output) then True
      else trim_space output \<noteq> [])"

definition hasCompleteManagedChain :: "string \<Rightarrow> string \<Rightarrow> string \<Rightarrow> string \<Rightarrow> bool" where
  "hasCompleteManagedChain egress ingress redirect ifb \<longleftrightarrow>
     snd (linkGuardCakeRootSignature egress managedEgressHandle ''dual-srchost'' False)
     \<and> snd (linkGuardCakeRootSignature ingress managedIngressHandle ''dual-dsthost'' True)
     \<and> hasManagedRedirect redirect ifb"

fun observedMode :: "string list \<Rightarrow> string" where
  "observedMode [] = []"
| "observedMode (output # outputs) =
     (if str_contains output ''diffserv4'' then ''diffserv4''
      else if str_contains output ''besteffort'' then ''besteffort''
      else observedMode outputs)"

subsection \<open>Links and errors\<close>

definition linkIsUp :: "string \<Rightarrow> bool" where
  "linkIsUp output \<longleftrightarrow>
     (if str_contains output '' state UP '' then True
      else case (index_of ''<'' output, index_of ''>'' output) of
             (Some start, Some stop) \<Rightarrow>
               (if stop \<le> start then False
                else ''UP'' \<in> set (go_split '','' (drop (start + 1) (take stop output))))
           | _ \<Rightarrow> False)"

definition not_found_markers :: "string list" where
  "not_found_markers =
     [''no such file or directory'', ''no such device'', ''does not exist'', ''doesn'' @ [CHR 0x27] @ ''t exist'',
      ''cannot find device'', ''cannot find specified'', ''cannot find filter'', ''cannot find qdisc'',
      ''device not found'', ''filter not found'', ''qdisc not found'']"

definition isNotFoundError :: "string \<Rightarrow> bool" where
  "isNotFoundError err \<longleftrightarrow>
     (let message = go_lower err
      in if str_contains message ''executable file not found'' \<or> str_contains message ''command not found'' then False
         else if message = ''not found'' \<or> suffix '' not found'' message then True
         else list_ex (str_contains message) not_found_markers)"

end
