(* ===== verification/QosService.thy ===== *)
theory QosService
  imports QosText
begin

text \<open>
  The operations of the traffic shaper (internal/qos/service.go, observe.go, operation.go,
  internal/storage/repo_qos_operation.go) over an executor that is a parameter: each command or reading
  moves an arbitrary state of the machine and answers a text or an error, so that nothing is assumed of
  what tc and ip do, nor of what others do between two calls.  An operation is a function from the state
  to the state after it and an error or a value.  The lock of an interface makes its operations follow one
  another; a wait that is cancelled never enters and is left out.  Deadlines are outcomes of the executor.
\<close>

subsection \<open>State, errors, operations\<close>

datatype qos_error = CompensationFailed | OwnershipNotEstablished | StaleInterface | Failure string

text \<open>What the executor was asked, with its answer: a reading or a command that may change the machine.\<close>

datatype qos_event = Shown "string list" "string + string" | Ran "string list" "string + string"

datatype intent = OperationApply | OperationDisable | OperationBenchmark

record cake_signature =
  cs_Handle :: string
  cs_Bandwidth :: string
  cs_Mode :: string
  cs_HostMode :: string
  cs_NAT :: bool
  cs_Ingress :: bool

record operation_lease =
  ol_ID :: string
  ol_Interface :: string
  ol_Intent :: intent
  ol_Stage :: int
  ol_Target :: qos_config
  ol_Recovery :: qos_config
  ol_BeforeEgress :: "cake_signature option"
  ol_BeforeIngress :: "cake_signature option"
  ol_IFBExisted :: bool
  ol_IFBWasUp :: bool
  ol_ClsactExisted :: bool

record 'k qos =
  qs_machine :: 'k
  qs_log :: "qos_event list"
  qs_leases :: "operation_lease list"
  qs_calls :: nat

text \<open>
  The surroundings: the executor, the two switches, which calls of the database fail, SHA-256 in
  hexadecimal, the identifier drawn before the n-th call.
\<close>

record 'k qos_env =
  qe_read :: "'k \<Rightarrow> string list \<Rightarrow> 'k \<times> (string + string)"
  qe_exec :: "'k \<Rightarrow> string list \<Rightarrow> 'k \<times> (string + string)"
  qe_dry :: bool
  qe_store :: bool
  qe_broken :: "nat \<Rightarrow> bool"
  qe_hexsum :: "string \<Rightarrow> string"
  qe_uuid :: "nat \<Rightarrow> string"

type_synonym ('k, 'a) qop = "'k qos \<Rightarrow> 'k qos \<times> (qos_error + 'a)"

definition ret :: "'a \<Rightarrow> ('k, 'a) qop" where
  "ret x s = (s, Inr x)"

definition fail :: "qos_error \<Rightarrow> ('k, 'a) qop" where
  "fail e s = (s, Inl e)"

definition andthen :: "('k, 'a) qop \<Rightarrow> ('a \<Rightarrow> ('k, 'b) qop) \<Rightarrow> ('k, 'b) qop" where
  "andthen m f s = (case m s of (s', Inl e) \<Rightarrow> (s', Inl e) | (s', Inr x) \<Rightarrow> f x s')"

definition wrap :: "string \<Rightarrow> qos_error \<Rightarrow> qos_error" where
  "wrap action e = (case e of Failure m \<Rightarrow> Failure (action @ '': '' @ m) | e' \<Rightarrow> e')"

subsection \<open>Calls of the executor\<close>

text \<open>\<open>exec.ExecuteRead\<close> and \<open>exec.Execute\<close>, as the service sees them.\<close>

definition ask :: "'k qos_env \<Rightarrow> string list \<Rightarrow> 'k qos \<Rightarrow> 'k qos \<times> (string + string)" where
  "ask E cmd s =
     (let (k, r) = qe_read E (qs_machine s) cmd
      in (s\<lparr>qs_machine := k, qs_log := Shown cmd r # qs_log s\<rparr>, r))"

definition command :: "'k qos_env \<Rightarrow> string list \<Rightarrow> 'k qos \<Rightarrow> 'k qos \<times> (string + string)" where
  "command E cmd s =
     (let (k, r) = qe_exec E (qs_machine s) cmd
      in (s\<lparr>qs_machine := k, qs_log := Ran cmd r # qs_log s\<rparr>, r))"

definition read :: "'k qos_env \<Rightarrow> string list \<Rightarrow> ('k, string) qop" where
  "read E cmd s =
     (case ask E cmd s of
        (s', Inl m) \<Rightarrow> (s', Inl (Failure (''observe '' @ hd cmd @ '': '' @ m)))
      | (s', Inr out) \<Rightarrow> (s', Inr out))"

definition execute_cmd :: "'k qos_env \<Rightarrow> string \<Rightarrow> string list \<Rightarrow> ('k, unit) qop" where
  "execute_cmd E action cmd s =
     (case command E cmd s of
        (s', Inl m) \<Rightarrow> (s', Inl (Failure (action @ '': '' @ m)))
      | (s', Inr _) \<Rightarrow> (s', Inr ()))"

definition delete_cmd :: "'k qos_env \<Rightarrow> string \<Rightarrow> string list \<Rightarrow> ('k, unit) qop" where
  "delete_cmd E action cmd s =
     (case command E cmd s of
        (s', Inl m) \<Rightarrow> if \<not> isNotFoundError m then (s', Inl (Failure (action @ '': '' @ m))) else (s', Inr ())
      | (s', Inr _) \<Rightarrow> (s', Inr ()))"

definition qdisc_show :: "string \<Rightarrow> string list" where
  "qdisc_show iface = [''tc'', ''qdisc'', ''show'', ''dev'', iface]"

definition redirect_show :: "string \<Rightarrow> string list" where
  "redirect_show iface = [''tc'', ''filter'', ''show'', ''dev'', iface, ''ingress'', ''pref'', redirectFilterPriority]"

definition filter_show :: "string \<Rightarrow> string \<Rightarrow> string list" where
  "filter_show iface direction = [''tc'', ''filter'', ''show'', ''dev'', iface, direction]"

definition root_del :: "string \<Rightarrow> string list" where
  "root_del iface = [''tc'', ''qdisc'', ''del'', ''dev'', iface, ''root'']"

definition cake_replace :: "string \<Rightarrow> rootSignature \<Rightarrow> string list" where
  "cake_replace iface sig =
     [''tc'', ''qdisc'', ''replace'', ''dev'', iface, ''root'', ''handle'', rs_handle sig, ''cake''] @ cakeSignatureArgs sig"

definition netem_replace :: "string \<Rightarrow> int \<Rightarrow> int \<Rightarrow> string list" where
  "netem_replace iface delay loss =
     [''tc'', ''qdisc'', ''replace'', ''dev'', iface, ''root'', ''handle'', managedNetemHandle, ''netem'',
      ''delay'', itoa delay @ ''ms'', ''loss'', itoa loss @ ''%'']"

definition redirect_replace :: "string \<Rightarrow> string \<Rightarrow> string list" where
  "redirect_replace iface ifb =
     [''tc'', ''filter'', ''replace'', ''dev'', iface, ''ingress'', ''pref'', redirectFilterPriority, ''protocol'', ''all'',
      ''matchall'', ''action'', ''mirred'', ''egress'', ''redirect'', ''dev'', ifb]"

definition link_del :: "string \<Rightarrow> string list" where
  "link_del ifb = [''ip'', ''link'', ''del'', ''dev'', ifb]"

definition link_set :: "string \<Rightarrow> string \<Rightarrow> string list" where
  "link_set ifb state = [''ip'', ''link'', ''set'', ''dev'', ifb, state]"

definition link_add :: "string \<Rightarrow> string list" where
  "link_add ifb = [''ip'', ''link'', ''add'', ifb, ''type'', ''ifb'']"

subsection \<open>The table of leases\<close>

definition lease_Validate :: "operation_lease \<Rightarrow> bool" where
  "lease_Validate l \<longleftrightarrow>
     ol_ID l \<noteq> [] \<and> validInterfaceName (ol_Interface l) \<and> \<not> ol_Stage l < 0
     \<and> qc_Interface (ol_Target l) = ol_Interface l \<and> qc_Interface (ol_Recovery l) = ol_Interface l
     \<and> config_Validate (ol_Target l) \<and> config_Validate (ol_Recovery l)"

definition store_call :: "'k qos_env \<Rightarrow> ('k, 'a) qop \<Rightarrow> ('k, 'a) qop" where
  "store_call E m s =
     (let s' = s\<lparr>qs_calls := qs_calls s + 1\<rparr>
      in if qe_broken E (qs_calls s) then (s', Inl (Failure ''database'')) else m s')"

definition SaveQoSOperationLease :: "'k qos_env \<Rightarrow> operation_lease \<Rightarrow> ('k, unit) qop" where
  "SaveQoSOperationLease E l =
     (if \<not> lease_Validate l then fail (Failure ''invalid lease'')
      else store_call E (\<lambda>s.
        if list_ex (\<lambda>r. ol_ID r = ol_ID l \<or> ol_Interface r = ol_Interface l) (qs_leases s)
        then (s, Inl (Failure ''UNIQUE constraint failed''))
        else (s\<lparr>qs_leases := qs_leases s @ [l]\<rparr>, Inr ())))"

definition AdvanceQoSOperationLease :: "'k qos_env \<Rightarrow> string \<Rightarrow> int \<Rightarrow> int \<Rightarrow> ('k, unit) qop" where
  "AdvanceQoSOperationLease E opid fromStage toStage =
     (if opid = [] \<or> toStage \<noteq> fromStage + 1 then fail (Failure ''invalid qos operation stage transition'')
      else store_call E (\<lambda>s.
        if list_ex (\<lambda>r. ol_ID r = opid \<and> ol_Stage r = fromStage) (qs_leases s)
        then (s\<lparr>qs_leases := map (\<lambda>r. if ol_ID r = opid \<and> ol_Stage r = fromStage then r\<lparr>ol_Stage := toStage\<rparr> else r)
                               (qs_leases s)\<rparr>, Inr ())
        else (s, Inl (Failure ''no rows''))))"

definition ListQoSOperationLeases :: "'k qos_env \<Rightarrow> ('k, operation_lease list) qop" where
  "ListQoSOperationLeases E =
     store_call E (\<lambda>s. if list_all lease_Validate (qs_leases s) then (s, Inr (qs_leases s))
                       else (s, Inl (Failure ''invalid lease'')))"

definition ClearQoSOperationLease :: "'k qos_env \<Rightarrow> string \<Rightarrow> string \<Rightarrow> ('k, unit) qop" where
  "ClearQoSOperationLease E opid iface =
     store_call E (\<lambda>s.
       if list_ex (\<lambda>r. ol_ID r = opid \<and> ol_Interface r = iface) (qs_leases s)
       then (s\<lparr>qs_leases := filter (\<lambda>r. \<not> (ol_ID r = opid \<and> ol_Interface r = iface)) (qs_leases s)\<rparr>, Inr ())
       else (s, Inl (Failure ''no rows'')))"

subsection \<open>Who owns what is installed\<close>

record ownershipState =
  os_egressOutput :: string
  os_egressSignature :: rootSignature
  os_egressOwned :: bool
  os_egressForeign :: bool
  os_ifbExists :: bool
  os_ifbUp :: bool
  os_ingressOutput :: string
  os_ingressSignature :: rootSignature
  os_ingressOwned :: bool
  os_ingressForeign :: bool
  os_clsact :: bool
  os_filterPresent :: bool
  os_redirectMatches :: bool
  os_redirectOwned :: bool
  os_chainOwned :: bool

definition ifbState :: "'k qos_env \<Rightarrow> string \<Rightarrow> ('k, bool \<times> bool) qop" where
  "ifbState E ifb s =
     (case ask E [''ip'', ''link'', ''show'', ''dev'', ifb] s of
        (s', Inr output) \<Rightarrow> (s', Inr (True, linkIsUp output))
      | (s', Inl m) \<Rightarrow>
          if isNotFoundError m then (s', Inr (False, False)) else (s', Inl (Failure (''check IFB: '' @ m))))"

text \<open>What the readings say, without and with an IFB.\<close>

definition owned_without_ifb :: "string \<Rightarrow> string \<Rightarrow> string \<Rightarrow> ownershipState" where
  "owned_without_ifb egress redirect ifb =
     (let (sig, egressMatches) = linkGuardCakeRootSignature egress managedEgressHandle ''dual-srchost'' False
      in \<lparr>os_egressOutput = egress, os_egressSignature = sig, os_egressOwned = egressMatches,
          os_egressForeign = hasForeignRootQdisc egress egressMatches, os_ifbExists = False, os_ifbUp = False,
          os_ingressOutput = [], os_ingressSignature = no_signature, os_ingressOwned = False, os_ingressForeign = False,
          os_clsact = hasClsact egress, os_filterPresent = hasFilterRecord redirect,
          os_redirectMatches = hasManagedRedirect redirect ifb, os_redirectOwned = False, os_chainOwned = False\<rparr>)"

definition owned_with_ifb :: "string \<Rightarrow> string \<Rightarrow> bool \<Rightarrow> string \<Rightarrow> string \<Rightarrow> ownershipState" where
  "owned_with_ifb egress redirect up ingress ifb =
     (let (sig, egressMatches) = linkGuardCakeRootSignature egress managedEgressHandle ''dual-srchost'' False;
          (isig, ingressMatches) = linkGuardCakeRootSignature ingress managedIngressHandle ''dual-dsthost'' True;
          chain = (egressMatches \<and> ingressMatches \<and> hasManagedRedirect redirect ifb)
      in \<lparr>os_egressOutput = egress, os_egressSignature = sig, os_egressOwned = chain,
          os_egressForeign = hasForeignRootQdisc egress chain, os_ifbExists = True, os_ifbUp = up,
          os_ingressOutput = ingress, os_ingressSignature = isig, os_ingressOwned = chain,
          os_ingressForeign = hasForeignRootQdisc ingress chain,
          os_clsact = hasClsact egress, os_filterPresent = hasFilterRecord redirect,
          os_redirectMatches = hasManagedRedirect redirect ifb, os_redirectOwned = chain, os_chainOwned = chain\<rparr>)"

definition inspectOwnership :: "'k qos_env \<Rightarrow> string \<Rightarrow> ('k, ownershipState) qop" where
  "inspectOwnership E iface =
     (let ifb = IFBName (qe_hexsum E) iface
      in andthen (read E (qdisc_show iface)) (\<lambda>egress.
         andthen (read E (redirect_show iface)) (\<lambda>redirect.
         andthen (ifbState E ifb) (\<lambda>(exists, up).
           if \<not> exists then ret (owned_without_ifb egress redirect ifb)
           else andthen (read E (qdisc_show ifb)) (\<lambda>ingress.
                  ret (owned_with_ifb egress redirect up ingress ifb))))))"

definition validateApplyOwnership :: "qos_config \<Rightarrow> ownershipState \<Rightarrow> bool" where
  "validateApplyOwnership cfg o' \<longleftrightarrow>
     (if \<not> qc_Enabled cfg then True
      else if os_egressForeign o' then False
      else if os_ingressForeign o' then False
      else if os_filterPresent o' \<and> \<not> os_redirectOwned o' then False
      else True)"

subsection \<open>Undoing one step\<close>

definition restoreRoot ::
  "'k qos_env \<Rightarrow> string \<Rightarrow> string \<Rightarrow> rootSignature \<Rightarrow> rootSignature \<Rightarrow> ('k, unit) qop" where
  "restoreRoot E iface previousOutput current previousManaged =
     (case rootQdisc previousOutput of
        None \<Rightarrow>
          andthen (read E (qdisc_show iface)) (\<lambda>currentOutput.
            if \<not> qe_dry E \<and> \<not> sig_matches current currentOutput then
              (if rootQdisc currentOutput = None then ret () else fail OwnershipNotEstablished)
            else delete_cmd E ''remove managed root qdisc'' (root_del iface))
      | Some qd \<Rightarrow>
          andthen (read E (qdisc_show iface)) (\<lambda>currentOutput.
            if isReplaceableInitialRoot qd then
              (if rootQdisc currentOutput = Some qd then ret ()
               else if \<not> qe_dry E \<and> \<not> sig_matches current currentOutput then fail OwnershipNotEstablished
               else execute_cmd E ''restore initial root qdisc''
                      [''tc'', ''qdisc'', ''replace'', ''dev'', iface, ''root'', rq_kind qd])
            else if rq_kind qd = ''netem'' \<and> rq_handle qd = managedNetemHandle then
              (case netemSettings previousOutput of
                 None \<Rightarrow> fail (Failure ''managed netem root has no complete restorable signature'')
               | Some (delay, loss) \<Rightarrow>
                   if sig_matches (netemRootSignature \<lparr>nf_DelayMs = delay, nf_LossPct = loss\<rparr>) currentOutput then ret ()
                   else if \<not> qe_dry E \<and> \<not> sig_matches current currentOutput then fail OwnershipNotEstablished
                   else execute_cmd E ''restore managed netem root'' (netem_replace iface delay loss))
            else if rq_kind qd \<noteq> ''cake'' \<or> rs_kind previousManaged \<noteq> ''cake''
                    \<or> rq_handle qd \<noteq> rs_handle previousManaged then fail OwnershipNotEstablished
            else if \<not> sig_matches previousManaged previousOutput then
              fail (Failure ''managed CAKE root has no complete restorable signature'')
            else if sig_matches previousManaged currentOutput then ret ()
            else if \<not> qe_dry E \<and> \<not> sig_matches current currentOutput then fail OwnershipNotEstablished
            else execute_cmd E ''restore managed root qdisc'' (cake_replace iface previousManaged)))"

definition restoreRedirect :: "'k qos_env \<Rightarrow> string \<Rightarrow> string \<Rightarrow> ('k, unit) qop" where
  "restoreRedirect E iface ifb =
     andthen (read E (redirect_show iface)) (\<lambda>output.
       if trim_space output \<noteq> [] then
         (if hasManagedRedirect output ifb then ret () else fail OwnershipNotEstablished)
       else execute_cmd E ''restore ingress redirect'' (redirect_replace iface ifb))"

definition removeRootMatching :: "'k qos_env \<Rightarrow> string \<Rightarrow> rootSignature \<Rightarrow> ('k, unit) qop" where
  "removeRootMatching E iface expected =
     andthen (read E (qdisc_show iface)) (\<lambda>output.
       if rootQdisc output = None then ret ()
       else if \<not> sig_matches expected output then fail OwnershipNotEstablished
       else delete_cmd E ''remove managed root qdisc'' (root_del iface))"

definition restoreDeletedRoot ::
  "'k qos_env \<Rightarrow> string \<Rightarrow> string \<Rightarrow> rootSignature \<Rightarrow> ('k, unit) qop" where
  "restoreDeletedRoot E iface previousOutput previous =
     andthen (read E (qdisc_show iface)) (\<lambda>currentOutput.
       if (case rootQdisc currentOutput of None \<Rightarrow> False | Some cur \<Rightarrow> \<not> isReplaceableInitialRoot cur)
       then fail OwnershipNotEstablished
       else case rootQdisc previousOutput of
              None \<Rightarrow> ret ()
            | Some qd \<Rightarrow>
                if rq_kind qd = ''cake'' then
                  (if rs_kind previous \<noteq> ''cake'' \<or> \<not> sig_matches previous previousOutput
                   then fail (Failure ''deleted CAKE root has no complete restorable signature'')
                   else execute_cmd E ''restore deleted CAKE root'' (cake_replace iface previous))
                else if rq_kind qd = ''netem'' \<and> rq_handle qd = managedNetemHandle then
                  (if rs_kind previous \<noteq> ''netem'' \<or> \<not> sig_matches previous previousOutput
                   then fail (Failure ''deleted netem root has no complete restorable signature'')
                   else execute_cmd E ''restore deleted netem root''
                          (netem_replace iface (rs_delayMs previous) (rs_lossPct previous)))
                else fail OwnershipNotEstablished)"

definition removeManagedRedirect :: "'k qos_env \<Rightarrow> string \<Rightarrow> string \<Rightarrow> ('k, unit) qop" where
  "removeManagedRedirect E iface ifb =
     andthen (read E (redirect_show iface)) (\<lambda>output.
       if trim_space output = [] then ret ()
       else if \<not> hasManagedRedirect output ifb then fail OwnershipNotEstablished
       else delete_cmd E ''remove managed ingress redirect''
              [''tc'', ''filter'', ''del'', ''dev'', iface, ''ingress'', ''pref'', redirectFilterPriority])"

definition removeAddedClsact :: "'k qos_env \<Rightarrow> string \<Rightarrow> ('k, unit) qop" where
  "removeAddedClsact E iface =
     andthen (read E (qdisc_show iface)) (\<lambda>qdiscs.
       if \<not> hasClsact qdiscs then ret ()
       else andthen (read E (filter_show iface ''ingress'')) (\<lambda>filters.
         if hasFilterRecord filters then ret ()
         else andthen (read E (filter_show iface ''egress'')) (\<lambda>filters.
           if hasFilterRecord filters then ret ()
           else delete_cmd E ''remove empty clsact after failed QoS apply''
                  [''tc'', ''qdisc'', ''del'', ''dev'', iface, ''clsact''])))"

text \<open>One direction of the filters of an IFB: a missing parent is no filter.\<close>

definition unclaimed_direction :: "'k qos_env \<Rightarrow> string \<Rightarrow> string \<Rightarrow> ('k, unit) qop" where
  "unclaimed_direction E ifb direction s =
     (case read E (filter_show ifb direction) s of
        (s', Inl (Failure m)) \<Rightarrow> if isNotFoundError m then (s', Inr ()) else (s', Inl (Failure m))
      | (s', Inl e) \<Rightarrow> (s', Inl e)
      | (s', Inr filters) \<Rightarrow> if hasFilterRecord filters then (s', Inl OwnershipNotEstablished) else (s', Inr ()))"

definition requireUnclaimedIFBState :: "'k qos_env \<Rightarrow> string \<Rightarrow> ('k, unit) qop" where
  "requireUnclaimedIFBState E ifb =
     andthen (read E (qdisc_show ifb)) (\<lambda>qdiscs.
       if \<not> hasOnlyDisposableIFBQdiscs qdiscs then fail OwnershipNotEstablished
       else andthen (unclaimed_direction E ifb ''ingress'') (\<lambda>_. unclaimed_direction E ifb ''egress''))"

definition removeIFBIfUnclaimed :: "'k qos_env \<Rightarrow> string \<Rightarrow> string \<Rightarrow> ('k, unit) qop" where
  "removeIFBIfUnclaimed E ifb action =
     (if qe_dry E then delete_cmd E action (link_del ifb)
      else andthen (ifbState E ifb) (\<lambda>(exists, _).
        if \<not> exists then ret ()
        else andthen (requireUnclaimedIFBState E ifb) (\<lambda>_.
             andthen (read E (qdisc_show ifb)) (\<lambda>qdiscs.
               if \<not> hasOnlyDisposableIFBQdiscs qdiscs then fail OwnershipNotEstablished
               else andthen (ifbState E ifb) (\<lambda>(exists, _).
                 if \<not> exists then ret () else delete_cmd E action (link_del ifb))))))"

definition restoreIFB :: "'k qos_env \<Rightarrow> string \<Rightarrow> bool \<Rightarrow> ('k, unit) qop" where
  "restoreIFB E ifb wasUp =
     andthen (ifbState E ifb) (\<lambda>(exists, _).
     andthen (if \<not> exists then execute_cmd E ''recreate IFB'' (link_add ifb) else ret ()) (\<lambda>_.
       execute_cmd E ''restore IFB state'' (link_set ifb (if wasUp then ''up'' else ''down''))))"

subsection \<open>The journal of an operation\<close>

record 'k mutationJournal =
  mj_operationID :: string
  mj_stage :: int
  mj_undos :: "('k, unit) qop list"

definition newMutationJournal :: "string \<Rightarrow> 'k mutationJournal" where
  "newMutationJournal operationID = \<lparr>mj_operationID = operationID, mj_stage = 0, mj_undos = []\<rparr>"

fun run_all :: "('k, unit) qop list \<Rightarrow> 'k qos \<Rightarrow> 'k qos \<times> qos_error list" where
  "run_all [] s = (s, [])"
| "run_all (undo # undos) s =
     (case undo s of
        (s', Inl e) \<Rightarrow> (case run_all undos s' of (s'', es) \<Rightarrow> (s'', e # es))
      | (s', Inr _) \<Rightarrow> run_all undos s')"

text \<open>Every undo is run, the latest first; the errors are joined.\<close>

definition compensate :: "('k, unit) qop list \<Rightarrow> 'k qos \<Rightarrow> 'k qos \<times> qos_error list" where
  "compensate undos s = run_all (rev undos) s"

definition repair :: "('k, unit) qop list \<Rightarrow> qos_error \<Rightarrow> ('k, 'a) qop" where
  "repair undos original s =
     (case compensate undos s of
        (s', []) \<Rightarrow> (s', Inl original)
      | (s', _) \<Rightarrow> (s', Inl CompensationFailed))"

definition run_step ::
  "'k qos_env \<Rightarrow> string \<Rightarrow> ('k, unit) qop \<Rightarrow> ('k, unit) qop option \<Rightarrow> 'k mutationJournal
     \<Rightarrow> ('k, 'k mutationJournal) qop" where
  "run_step E action mutate undo j s =
     (case mutate s of
        (s1, Inl e) \<Rightarrow> repair (mj_undos j) (wrap action e) s1
      | (s1, Inr _) \<Rightarrow>
          (let j1 = (case undo of None \<Rightarrow> j | Some u \<Rightarrow> j\<lparr>mj_undos := mj_undos j @ [u]\<rparr>)
           in if mj_operationID j1 \<noteq> [] \<and> qe_store E \<and> \<not> qe_dry E then
                (case AdvanceQoSOperationLease E (mj_operationID j1) (mj_stage j1) (mj_stage j1 + 1) s1 of
                   (s2, Inl e) \<Rightarrow> repair (mj_undos j1) (wrap (''journal '' @ action) e) s2
                 | (s2, Inr _) \<Rightarrow> (s2, Inr (j1\<lparr>mj_stage := mj_stage j1 + 1\<rparr>)))
              else (s1, Inr j1)))"

subsection \<open>Installing and removing the chain\<close>

record qos_state =
  st_Enabled :: bool
  st_Interface :: string
  st_IFB :: string
  st_Mode :: string
  st_DryRun :: bool

definition step_egress where
  "step_egress E cfg o' =
     run_step E ''apply egress CAKE''
       (execute_cmd E ''apply egress CAKE''
          [''tc'', ''qdisc'', ''replace'', ''dev'', qc_Interface cfg, ''root'', ''handle'', managedEgressHandle, ''cake'',
           ''bandwidth'', bandwidthArg (qc_UploadMbps cfg), qos_mode cfg, ''nat'', ''dual-srchost''])
       (Some (restoreRoot E (qc_Interface cfg) (os_egressOutput o') (egress_signature cfg) (os_egressSignature o')))"

definition step_create_ifb where
  "step_create_ifb E cfg o' j =
     (let ifb = IFBName (qe_hexsum E) (qc_Interface cfg)
      in if \<not> os_ifbExists o' then
           run_step E ''create IFB'' (execute_cmd E ''create IFB'' (link_add ifb))
             (Some (removeIFBIfUnclaimed E ifb ''remove IFB after failed QoS apply'')) j
         else ret j)"

definition step_ifb_up where
  "step_ifb_up E cfg o' =
     (let ifb = IFBName (qe_hexsum E) (qc_Interface cfg)
      in run_step E ''bring IFB up'' (execute_cmd E ''bring IFB up'' (link_set ifb ''up''))
           (if os_ifbExists o' \<and> \<not> os_ifbUp o'
            then Some (execute_cmd E ''restore IFB down state'' (link_set ifb ''down'')) else None))"

definition step_ingress where
  "step_ingress E cfg o' =
     (let ifb = IFBName (qe_hexsum E) (qc_Interface cfg)
      in run_step E ''apply ingress CAKE''
           (execute_cmd E ''apply ingress CAKE''
              [''tc'', ''qdisc'', ''replace'', ''dev'', ifb, ''root'', ''handle'', managedIngressHandle, ''cake'',
               ''bandwidth'', bandwidthArg (qc_DownloadMbps cfg), qos_mode cfg, ''nat'', ''dual-dsthost'', ''ingress''])
           (Some (restoreRoot E ifb (os_ingressOutput o') (ingress_signature cfg) (os_ingressSignature o'))))"

definition step_clsact where
  "step_clsact E cfg o' j =
     (if \<not> os_clsact o' then
        run_step E ''ensure clsact''
          (execute_cmd E ''ensure clsact'' [''tc'', ''qdisc'', ''add'', ''dev'', qc_Interface cfg, ''clsact''])
          (Some (removeAddedClsact E (qc_Interface cfg))) j
      else ret j)"

definition step_redirect where
  "step_redirect E cfg o' =
     (let ifb = IFBName (qe_hexsum E) (qc_Interface cfg)
      in run_step E ''redirect ingress'' (execute_cmd E ''redirect ingress'' (redirect_replace (qc_Interface cfg) ifb))
           (Some (if os_redirectOwned o' then restoreRedirect E (qc_Interface cfg) ifb
                  else removeManagedRedirect E (qc_Interface cfg) ifb)))"

definition applyWithOwnership ::
  "'k qos_env \<Rightarrow> qos_config \<Rightarrow> ownershipState \<Rightarrow> string \<Rightarrow> ('k, qos_state) qop" where
  "applyWithOwnership E cfg o' operationID =
     andthen (step_egress E cfg o' (newMutationJournal operationID)) (\<lambda>j.
     andthen (step_create_ifb E cfg o' j) (\<lambda>j.
     andthen (step_ifb_up E cfg o' j) (\<lambda>j.
     andthen (step_ingress E cfg o' j) (\<lambda>j.
     andthen (step_clsact E cfg o' j) (\<lambda>j.
     andthen (step_redirect E cfg o' j) (\<lambda>j.
       ret \<lparr>st_Enabled = True, st_Interface = qc_Interface cfg, st_IFB = IFBName (qe_hexsum E) (qc_Interface cfg),
            st_Mode = qos_mode cfg, st_DryRun = qe_dry E\<rparr>))))))"

definition step_unredirect where
  "step_unredirect E iface o' j =
     (let ifb = IFBName (qe_hexsum E) iface
      in if os_redirectOwned o' then
           run_step E ''remove ingress redirect'' (removeManagedRedirect E iface ifb) (Some (restoreRedirect E iface ifb)) j
         else ret j)"

definition step_unegress where
  "step_unegress E iface o' j =
     (if os_egressOwned o' then
        run_step E ''remove managed egress root'' (removeRootMatching E iface (os_egressSignature o'))
          (Some (restoreDeletedRoot E iface (os_egressOutput o') (os_egressSignature o'))) j
      else ret j)"

definition step_uningress where
  "step_uningress E iface o' j =
     (let ifb = IFBName (qe_hexsum E) iface
      in if os_ingressOwned o' then
           andthen (run_step E ''remove ingress CAKE'' (removeRootMatching E ifb (os_ingressSignature o'))
                      (Some (restoreDeletedRoot E ifb (os_ingressOutput o') (os_ingressSignature o'))) j) (\<lambda>j.
             if os_redirectOwned o' \<or> \<not> os_filterPresent o' then
               run_step E ''remove IFB'' (removeIFBIfUnclaimed E ifb ''remove IFB'')
                 (Some (restoreIFB E ifb (os_ifbUp o'))) j
             else ret j)
         else ret j)"

definition disableWithOwnership ::
  "'k qos_env \<Rightarrow> string \<Rightarrow> ownershipState \<Rightarrow> string \<Rightarrow> ('k, qos_state) qop" where
  "disableWithOwnership E iface o' operationID =
     andthen (step_unredirect E iface o' (newMutationJournal operationID)) (\<lambda>j.
     andthen (step_unegress E iface o' j) (\<lambda>j.
     andthen (step_uningress E iface o' j) (\<lambda>j.
       ret \<lparr>st_Enabled = False, st_Interface = iface, st_IFB = IFBName (qe_hexsum E) iface, st_Mode = [],
            st_DryRun = qe_dry E\<rparr>)))"

definition applyFromOwnership ::
  "'k qos_env \<Rightarrow> qos_config \<Rightarrow> ownershipState \<Rightarrow> string \<Rightarrow> ('k, qos_state) qop" where
  "applyFromOwnership E cfg o' operationID =
     (if \<not> qc_Enabled cfg then disableWithOwnership E (qc_Interface cfg) o' operationID
      else applyWithOwnership E cfg o' operationID)"

definition qos_apply :: "'k qos_env \<Rightarrow> qos_config \<Rightarrow> ('k, qos_state) qop" where
  "qos_apply E cfg =
     andthen (inspectOwnership E (qc_Interface cfg)) (\<lambda>o'.
       if \<not> validateApplyOwnership cfg o' then fail OwnershipNotEstablished
       else applyFromOwnership E cfg o' [])"

end
