(* ===== verification/QosOperations.thy ===== *)
theory QosOperations
  imports QosService
begin

text \<open>
  The operations of the traffic shaper that the rest of the product calls (internal/qos/service.go,
  operation.go, observe.go): the lease written before the first change and cleared after the last, apply,
  apply and persist, disable, the fault of the stress test, the benchmark's two phases, observation, and
  the recovery of what a stop of the daemon interrupted.
\<close>

subsection \<open>The lease of an operation\<close>

definition exportedCakeSignature :: "rootSignature \<Rightarrow> cake_signature option" where
  "exportedCakeSignature sig =
     (if rs_kind sig \<noteq> ''cake'' then None
      else Some \<lparr>cs_Handle = rs_handle sig, cs_Bandwidth = rs_bandwidth sig, cs_Mode = rs_mode sig,
                 cs_HostMode = rs_hostMode sig, cs_NAT = rs_nat sig, cs_Ingress = rs_ingress sig\<rparr>)"

definition operationIntent :: "qos_config \<Rightarrow> intent" where
  "operationIntent cfg = (if qc_Enabled cfg then OperationApply else OperationDisable)"

definition new_lease ::
  "'k qos_env \<Rightarrow> nat \<Rightarrow> qos_config \<Rightarrow> qos_config \<Rightarrow> intent \<Rightarrow> ownershipState \<Rightarrow> operation_lease" where
  "new_lease E n target recovery intent o' =
     \<lparr>ol_ID = qe_uuid E n, ol_Interface = qc_Interface target, ol_Intent = intent, ol_Stage = 0,
      ol_Target = target, ol_Recovery = recovery,
      ol_BeforeEgress = (if os_chainOwned o' then exportedCakeSignature (os_egressSignature o') else None),
      ol_BeforeIngress = (if os_chainOwned o' then exportedCakeSignature (os_ingressSignature o') else None),
      ol_IFBExisted = (os_ifbExists o' \<and> \<not> os_chainOwned o'), ol_IFBWasUp = os_ifbUp o',
      ol_ClsactExisted = os_clsact o'\<rparr>"

definition beginOperation ::
  "'k qos_env \<Rightarrow> qos_config \<Rightarrow> qos_config \<Rightarrow> intent \<Rightarrow> ownershipState \<Rightarrow> ('k, string) qop" where
  "beginOperation E target recovery intent o' s =
     (if \<not> qe_store E \<or> qe_dry E then (s, Inr [])
      else let lease = new_lease E (qs_calls s) target recovery intent o'
           in if \<not> lease_Validate lease then (s, Inl (Failure ''invalid lease''))
              else case SaveQoSOperationLease E lease s of
                     (s', Inl e) \<Rightarrow> (s', Inl (wrap ''save QoS operation lease'' e))
                   | (s', Inr _) \<Rightarrow> (s', Inr (ol_ID lease)))"

definition clearOperation :: "'k qos_env \<Rightarrow> string \<Rightarrow> string \<Rightarrow> ('k, unit) qop" where
  "clearOperation E operationID iface =
     (if operationID = [] \<or> \<not> qe_store E \<or> qe_dry E then ret ()
      else ClearQoSOperationLease E operationID iface)"

text \<open>What a failed operation returns: its error, once the lease of what was undone is cleared.\<close>

definition clearCompensatedOperation ::
  "'k qos_env \<Rightarrow> string \<Rightarrow> string \<Rightarrow> qos_error \<Rightarrow> ('k, unit) qop" where
  "clearCompensatedOperation E operationID iface operationErr s =
     (if operationID = [] \<or> operationErr = CompensationFailed then (s, Inr ())
      else case clearOperation E operationID iface s of
             (s', Inl _) \<Rightarrow> (s', Inl CompensationFailed)
           | (s', Inr _) \<Rightarrow> (s', Inr ()))"

definition failed_operation :: "'k qos_env \<Rightarrow> string \<Rightarrow> string \<Rightarrow> qos_error \<Rightarrow> ('k, 'a) qop" where
  "failed_operation E operationID iface err =
     andthen (clearCompensatedOperation E operationID iface err) (\<lambda>_. fail err)"

definition operationPending :: "'k qos_env \<Rightarrow> string \<Rightarrow> ('k, bool) qop" where
  "operationPending E operationID =
     (if operationID = [] \<or> \<not> qe_store E then ret False
      else andthen (ListQoSOperationLeases E) (\<lambda>leases. ret (list_ex (\<lambda>l. ol_ID l = operationID) leases)))"

definition applyDurable ::
  "'k qos_env \<Rightarrow> qos_config \<Rightarrow> qos_config \<Rightarrow> intent \<Rightarrow> ('k, qos_state) qop" where
  "applyDurable E target recovery intent =
     andthen (inspectOwnership E (qc_Interface target)) (\<lambda>o'.
       if \<not> validateApplyOwnership target o' then fail OwnershipNotEstablished
       else andthen (beginOperation E target recovery intent o') (\<lambda>operationID s.
         case applyFromOwnership E target o' operationID s of
           (s', Inl err) \<Rightarrow> failed_operation E operationID (qc_Interface target) err s'
         | (s', Inr state) \<Rightarrow>
             (case clearOperation E operationID (qc_Interface target) s' of
                (s'', Inl e) \<Rightarrow> (s'', Inl (wrap ''clear QoS operation lease'' e))
              | (s'', Inr _) \<Rightarrow> (s'', Inr state))))"

definition qos_Apply :: "'k qos_env \<Rightarrow> qos_config \<Rightarrow> ('k, qos_state) qop" where
  "qos_Apply E cfg =
     (if \<not> config_Validate cfg then fail (Failure ''invalid config'')
      else applyDurable E cfg cfg (operationIntent cfg))"

definition qos_Disable :: "'k qos_env \<Rightarrow> string \<Rightarrow> ('k, qos_state) qop" where
  "qos_Disable E iface =
     (if \<not> config_Validate (off_config iface) then fail (Failure ''invalid config'')
      else applyDurable E (off_config iface) (off_config iface) OperationDisable)"

text \<open>The \<open>load\<close> of the callers reads the database under the lock of the interface.\<close>

definition ApplyCurrent :: "'k qos_env \<Rightarrow> string \<Rightarrow> ('k, qos_config) qop \<Rightarrow> ('k, qos_state) qop" where
  "ApplyCurrent E iface load =
     (if \<not> config_Validate (off_config iface) then fail (Failure ''invalid config'')
      else andthen load (\<lambda>cfg.
        if qc_Interface cfg \<noteq> iface then fail StaleInterface
        else if \<not> config_Validate cfg then fail (Failure ''invalid config'')
        else applyDurable E cfg cfg (operationIntent cfg)))"

subsection \<open>Applying and persisting\<close>

text \<open>What follows a persistence that failed: back to the configuration before, and its lease cleared.\<close>

definition rollback_persist ::
  "'k qos_env \<Rightarrow> qos_config \<Rightarrow> qos_config \<Rightarrow> string \<Rightarrow> qos_error \<Rightarrow> ('k, qos_state) qop" where
  "rollback_persist E cfg rollback leaseID err s =
     (case qos_apply E rollback s of
        (s', Inl _) \<Rightarrow> (s', Inl CompensationFailed)
      | (s', Inr _) \<Rightarrow>
          (case clearOperation E leaseID (qc_Interface cfg) s' of
             (s'', Inl _) \<Rightarrow> (s'', Inl CompensationFailed)
           | (s'', Inr _) \<Rightarrow> (s'', Inl (wrap ''persist QoS'' err))))"

definition verify_cleared :: "'k qos_env \<Rightarrow> string \<Rightarrow> qos_state \<Rightarrow> ('k, qos_state) qop" where
  "verify_cleared E leaseID state =
     (if leaseID \<noteq> [] then
        andthen (operationPending E leaseID) (\<lambda>pending.
          if pending then fail (Failure ''persist QoS callback did not atomically clear operation lease'')
          else ret state)
      else ret state)"

definition applyAndPersistLocked ::
  "'k qos_env \<Rightarrow> qos_config \<Rightarrow> qos_config \<Rightarrow> (string \<Rightarrow> ('k, unit) qop) \<Rightarrow> ('k, qos_state) qop" where
  "applyAndPersistLocked E cfg rollback0 persist =
     (if \<not> config_Validate cfg then fail (Failure ''invalid config'')
      else let rollback = (if qc_Interface rollback0 \<noteq> qc_Interface cfg \<or> \<not> config_Validate rollback0
                           then off_config (qc_Interface cfg) else rollback0)
           in andthen (inspectOwnership E (qc_Interface cfg)) (\<lambda>o'.
                if \<not> validateApplyOwnership cfg o' then fail OwnershipNotEstablished
                else andthen (beginOperation E cfg rollback (operationIntent cfg) o') (\<lambda>leaseID s.
                  case applyFromOwnership E cfg o' leaseID s of
                    (s', Inl err) \<Rightarrow> failed_operation E leaseID (qc_Interface cfg) err s'
                  | (s', Inr state) \<Rightarrow>
                      (case persist leaseID s' of
                         (s'', Inl err) \<Rightarrow> rollback_persist E cfg rollback leaseID err s''
                       | (s'', Inr _) \<Rightarrow> verify_cleared E leaseID state s''))))"

definition ApplyAndPersist ::
  "'k qos_env \<Rightarrow> qos_config \<Rightarrow> qos_config \<Rightarrow> (string \<Rightarrow> ('k, unit) qop) \<Rightarrow> ('k, qos_state) qop" where
  "ApplyAndPersist E cfg rollback persist =
     (if \<not> config_Validate cfg then fail (Failure ''invalid config'')
      else applyAndPersistLocked E cfg rollback persist)"

definition ApplyCurrentAndPersist ::
  "'k qos_env \<Rightarrow> string \<Rightarrow> ('k, qos_config \<times> qos_config \<times> (string \<Rightarrow> ('k, unit) qop)) qop \<Rightarrow> ('k, qos_state) qop" where
  "ApplyCurrentAndPersist E iface load =
     (if \<not> config_Validate (off_config iface) then fail (Failure ''invalid config'')
      else andthen load (\<lambda>(cfg, rollback, persist).
        if qc_Interface cfg \<noteq> iface then fail StaleInterface
        else applyAndPersistLocked E cfg rollback persist))"

subsection \<open>The fault of the stress test\<close>

definition applyNetem :: "'k qos_env \<Rightarrow> string \<Rightarrow> netem_fault \<Rightarrow> ('k, unit) qop" where
  "applyNetem E iface fault =
     (if \<not> fault_validate fault then fail (Failure ''netem'')
      else andthen (inspectOwnership E iface) (\<lambda>o'.
        if (case rootQdisc (os_egressOutput o') of
              None \<Rightarrow> False | Some qd \<Rightarrow> \<not> isReplaceableInitialRoot qd \<and> \<not> os_chainOwned o')
        then fail OwnershipNotEstablished
        else if os_ingressForeign o' \<or> (os_filterPresent o' \<and> \<not> os_redirectOwned o') then fail OwnershipNotEstablished
        else andthen (run_step E ''apply stress-test netem''
               (execute_cmd E ''apply stress-test netem'' (netem_replace iface (nf_DelayMs fault) (nf_LossPct fault)))
               (Some (restoreRoot E iface (os_egressOutput o') (netemRootSignature fault) (os_egressSignature o')))
               (newMutationJournal [])) (\<lambda>_. ret ())))"

text \<open>The ownership a fault leaves behind, when all of it is recognised.\<close>

definition owned_behind_netem :: "netem_fault \<Rightarrow> ownershipState \<Rightarrow> ownershipState option" where
  "owned_behind_netem fault o' =
     (if \<not> sig_matches (netemRootSignature fault) (os_egressOutput o') then None
      else if os_filterPresent o' \<noteq> os_redirectMatches o' then None
      else let (isig, ingressMatches) =
                 linkGuardCakeRootSignature (os_ingressOutput o') managedIngressHandle ''dual-dsthost'' True
           in if hasRootQdisc (os_ingressOutput o') \<noteq> ingressMatches then None
              else if ingressMatches \<noteq> os_redirectMatches o' then None
              else Some (o'\<lparr>os_egressOwned := True, os_egressForeign := False,
                           os_egressSignature := netemRootSignature fault, os_ingressOwned := ingressMatches,
                           os_ingressForeign := False, os_ingressSignature := isig,
                           os_redirectOwned := os_redirectMatches o', os_chainOwned := True\<rparr>))"

definition repairNetem :: "'k qos_env \<Rightarrow> string \<Rightarrow> ownershipState \<Rightarrow> qos_error \<Rightarrow> ('k, 'a) qop" where
  "repairNetem E iface o' = repair [restoreDeletedRoot E iface (os_egressOutput o') (os_egressSignature o')]"

text \<open>
  The closure that repairs reads \<open>ownership\<close> when it is called: after the reapplication it finds the output
  that was assigned in between.
\<close>

text \<open>The three readings between the removal of the fault and the new configuration.\<close>

definition recheck_after_netem :: "'k qos_env \<Rightarrow> string \<Rightarrow> ownershipState \<Rightarrow> ('k, string) qop" where
  "recheck_after_netem E iface o' =
     (let ifb = IFBName (qe_hexsum E) iface
      in andthen (read E (qdisc_show iface)) (\<lambda>currentEgress.
         if (case rootQdisc currentEgress of None \<Rightarrow> False | Some cur \<Rightarrow> \<not> isReplaceableInitialRoot cur)
         then fail OwnershipNotEstablished
         else andthen (if os_ingressOwned o'
                then andthen (read E (qdisc_show ifb)) (\<lambda>currentIngress.
                       if \<not> sig_matches (os_ingressSignature o') currentIngress then fail OwnershipNotEstablished else ret ())
                else ret ()) (\<lambda>_.
              andthen (if os_redirectOwned o'
                then andthen (read E (redirect_show iface)) (\<lambda>currentRedirect.
                       if \<not> hasManagedRedirect currentRedirect ifb then fail OwnershipNotEstablished else ret ())
                else ret ()) (\<lambda>_. ret currentEgress))))"

definition reapply_after_netem :: "'k qos_env \<Rightarrow> qos_config \<Rightarrow> ownershipState \<Rightarrow> ('k, qos_state) qop" where
  "reapply_after_netem E cfg o' s =
     (case recheck_after_netem E (qc_Interface cfg) o' s of
        (s', Inl e) \<Rightarrow> repairNetem E (qc_Interface cfg) o' e s'
      | (s', Inr currentEgress) \<Rightarrow>
          (case applyWithOwnership E cfg
                  (o'\<lparr>os_egressOutput := currentEgress, os_egressOwned := False, os_egressForeign := False\<rparr>) [] s' of
             (s'', Inr state) \<Rightarrow> (s'', Inr state)
           | (s'', Inl e) \<Rightarrow>
               repairNetem E (qc_Interface cfg)
                 (o'\<lparr>os_egressOutput := currentEgress, os_egressOwned := False, os_egressForeign := False\<rparr>) e s''))"

definition restoreAfterNetem :: "'k qos_env \<Rightarrow> qos_config \<Rightarrow> netem_fault \<Rightarrow> ('k, qos_state) qop" where
  "restoreAfterNetem E cfg fault =
     (if \<not> fault_validate fault then fail (Failure ''netem'')
      else andthen (inspectOwnership E (qc_Interface cfg)) (\<lambda>o'.
        case rootQdisc (os_egressOutput o') of
          None \<Rightarrow> qos_apply E cfg
        | Some qd \<Rightarrow>
            if isReplaceableInitialRoot qd then qos_apply E cfg
            else if rq_kind qd = ''cake'' then
              (if \<not> os_chainOwned o' then fail OwnershipNotEstablished else qos_apply E cfg)
            else case owned_behind_netem fault o' of
                   None \<Rightarrow> fail OwnershipNotEstablished
                 | Some o1 \<Rightarrow>
                     if \<not> qc_Enabled cfg then disableWithOwnership E (qc_Interface cfg) o1 []
                     else andthen (removeRootMatching E (qc_Interface cfg) (os_egressSignature o1)) (\<lambda>_.
                            reapply_after_netem E cfg o1)))"

text \<open>The operations a holder of the lock of \<open>iface\<close> has.\<close>

definition locked_Apply :: "'k qos_env \<Rightarrow> string \<Rightarrow> qos_config \<Rightarrow> ('k, qos_state) qop" where
  "locked_Apply E iface cfg =
     (if qc_Interface cfg \<noteq> iface then fail (Failure ''another interface is locked'')
      else if \<not> config_Validate cfg then fail (Failure ''invalid config'')
      else qos_apply E cfg)"

definition locked_RestoreAfterNetem ::
  "'k qos_env \<Rightarrow> string \<Rightarrow> qos_config \<Rightarrow> netem_fault \<Rightarrow> ('k, qos_state) qop" where
  "locked_RestoreAfterNetem E iface cfg fault =
     (if qc_Interface cfg \<noteq> iface then fail (Failure ''another interface is locked'')
      else if \<not> config_Validate cfg then fail (Failure ''invalid config'')
      else restoreAfterNetem E cfg fault)"

subsection \<open>Observation\<close>

definition observe_chain :: "'k qos_env \<Rightarrow> string \<Rightarrow> ('k, qos_state) qop" where
  "observe_chain E iface s =
     (let ifb = IFBName (qe_hexsum E) iface;
          state = \<lparr>st_Enabled = False, st_Interface = iface, st_IFB = ifb, st_Mode = [], st_DryRun = qe_dry E\<rparr>
      in case read E [''ip'', ''link'', ''show'', ''dev'', ifb] s of
           (s', Inl (Failure m)) \<Rightarrow> if isNotFoundError m then (s', Inr state) else (s', Inl (Failure m))
         | (s', Inl e) \<Rightarrow> (s', Inl e)
         | (s', Inr _) \<Rightarrow>
             andthen (read E (qdisc_show iface)) (\<lambda>egress.
             andthen (read E (qdisc_show ifb)) (\<lambda>ingress.
             andthen (read E (redirect_show iface)) (\<lambda>redirect.
               ret (state\<lparr>st_Enabled := hasCompleteManagedChain egress ingress redirect ifb,
                          st_Mode := observedMode [egress, ingress]\<rparr>)))) s')"

definition Observe :: "'k qos_env \<Rightarrow> string \<Rightarrow> ('k, qos_state) qop" where
  "Observe E iface =
     (if \<not> config_Validate (off_config iface) then fail (Failure ''invalid config'') else observe_chain E iface)"

subsection \<open>Recovery after a stop\<close>

definition recoveryCakeSignatures :: "bool \<Rightarrow> operation_lease \<Rightarrow> rootSignature list" where
  "recoveryCakeSignatures ingress lease =
     map (if ingress then ingress_signature else egress_signature)
       (filter qc_Enabled [ol_Target lease, ol_Recovery lease])
     @ (case (if ingress then ol_BeforeIngress lease else ol_BeforeEgress lease) of
          None \<Rightarrow> []
        | Some before \<Rightarrow>
            [cakeRootSignature (cs_Handle before) (cs_Bandwidth before) (cs_Mode before) (cs_HostMode before)
               (cs_NAT before) (cs_Ingress before)])"

definition recoveryRootSignature ::
  "string \<Rightarrow> bool \<Rightarrow> operation_lease \<Rightarrow> qos_error + rootSignature option" where
  "recoveryRootSignature output ingress lease =
     (case rootQdisc output of
        None \<Rightarrow> Inr None
      | Some qd \<Rightarrow>
          if isReplaceableInitialRoot qd then Inr None
          else case find (\<lambda>sig. sig_matches sig output) (recoveryCakeSignatures ingress lease) of
                 Some sig \<Rightarrow> Inr (Some sig)
               | None \<Rightarrow> Inl OwnershipNotEstablished)"

text \<open>A root queue that the lease accounts for is removed.\<close>

definition recover_root :: "'k qos_env \<Rightarrow> string \<Rightarrow> string \<Rightarrow> bool \<Rightarrow> operation_lease \<Rightarrow> ('k, unit) qop" where
  "recover_root E iface output ingress lease =
     (case recoveryRootSignature output ingress lease of
        Inl e \<Rightarrow> fail e
      | Inr None \<Rightarrow> ret ()
      | Inr (Some sig) \<Rightarrow> removeRootMatching E iface sig)"

definition recover_ifb :: "'k qos_env \<Rightarrow> string \<Rightarrow> operation_lease \<Rightarrow> ('k, unit) qop" where
  "recover_ifb E ifb lease =
     andthen (ifbState E ifb) (\<lambda>(exists, _).
       if exists then
         andthen (read E (qdisc_show ifb)) (\<lambda>ingress.
         andthen (recover_root E ifb ingress True lease) (\<lambda>_.
           if \<not> ol_IFBExisted lease then removeIFBIfUnclaimed E ifb ''recover interrupted QoS IFB'' else ret ()))
       else ret ())"

definition recover_configuration :: "'k qos_env \<Rightarrow> string \<Rightarrow> operation_lease \<Rightarrow> ('k, unit) qop" where
  "recover_configuration E ifb lease =
     (if qc_Enabled (ol_Recovery lease) then andthen (qos_apply E (ol_Recovery lease)) (\<lambda>_. ret ())
      else if ol_IFBExisted lease then
        execute_cmd E ''restore pre-existing IFB state'' (link_set ifb (if ol_IFBWasUp lease then ''up'' else ''down''))
      else ret ())"

definition recoverLeaseLocked :: "'k qos_env \<Rightarrow> operation_lease \<Rightarrow> ('k, unit) qop" where
  "recoverLeaseLocked E lease =
     (let iface = ol_Interface lease; ifb = IFBName (qe_hexsum E) iface
      in andthen (read E (qdisc_show iface)) (\<lambda>egress.
         andthen (read E (redirect_show iface)) (\<lambda>redirect.
           if hasFilterRecord redirect \<and> \<not> hasManagedRedirect redirect ifb then fail OwnershipNotEstablished
           else andthen (if hasManagedRedirect redirect ifb then removeManagedRedirect E iface ifb else ret ()) (\<lambda>_.
                andthen (recover_root E iface egress False lease) (\<lambda>_.
                andthen (recover_ifb E ifb lease) (\<lambda>_.
                andthen (if \<not> ol_ClsactExisted lease then removeAddedClsact E iface else ret ()) (\<lambda>_.
                andthen (recover_configuration E ifb lease) (\<lambda>_.
                  ClearQoSOperationLease E (ol_ID lease) iface))))))))"

primrec recover_all :: "'k qos_env \<Rightarrow> operation_lease list \<Rightarrow> 'k qos \<Rightarrow> 'k qos \<times> qos_error list" where
  "recover_all E [] s = (s, [])"
| "recover_all E (lease # leases) s =
     (if \<not> lease_Validate lease then
        (case recover_all E leases s of (s', es) \<Rightarrow> (s', Failure ''invalid lease'' # es))
      else case recoverLeaseLocked E lease s of
             (s', Inl e) \<Rightarrow> (case recover_all E leases s' of (s'', es) \<Rightarrow> (s'', e # es))
           | (s', Inr _) \<Rightarrow> recover_all E leases s')"

text \<open>Recovery at the start of the daemon, with the errors it joins.\<close>

definition RecoverInterrupted :: "'k qos_env \<Rightarrow> 'k qos \<Rightarrow> 'k qos \<times> qos_error list" where
  "RecoverInterrupted E s =
     (if \<not> qe_store E \<or> qe_dry E then (s, [])
      else case ListQoSOperationLeases E s of
             (s', Inl e) \<Rightarrow> (s', [wrap ''list interrupted QoS operations'' e])
           | (s', Inr leases) \<Rightarrow> recover_all E leases s')"

subsection \<open>The benchmark\<close>

text \<open>
  What a phase measures (ping, iperf3, counters) is a parameter: here it is an operation that gives whether
  the phase is valid and what limits it.
\<close>

definition benchmarkLoadCapMbps :: int where "benchmarkLoadCapMbps = 500"

definition boundedOffer :: "int \<Rightarrow> int \<times> bool" where
  "boundedOffer configuredMbps =
     (let offered = go_div (configuredMbps * 110 + 99) 100
      in if offered > benchmarkLoadCapMbps then (benchmarkLoadCapMbps, True) else (offered, False))"

definition addLimitation :: "string list \<Rightarrow> string \<Rightarrow> string list" where
  "addLimitation values limitation = (if limitation \<in> set values then values else values @ [limitation])"

definition mergeLimitations :: "string list list \<Rightarrow> string list" where
  "mergeLimitations groups = foldl (\<lambda>out group. foldl addLimitation out group) [] groups"

record phase =
  ph_Valid :: bool
  ph_Limitations :: "string list"

record comparison =
  cp_Baseline :: phase
  cp_Configured :: phase
  cp_Valid :: bool
  cp_Restored :: bool
  cp_Limitations :: "string list"

definition no_comparison :: comparison where
  "no_comparison = \<lparr>cp_Baseline = \<lparr>ph_Valid = False, ph_Limitations = []\<rparr>,
     cp_Configured = \<lparr>ph_Valid = False, ph_Limitations = []\<rparr>, cp_Valid = False, cp_Restored = False,
     cp_Limitations = []\<rparr>"

text \<open>\<open>^[A-Za-z0-9](?:[A-Za-z0-9._-]{0,251}[A-Za-z0-9])?$\<close>\<close>

definition alnum :: "char \<Rightarrow> bool" where
  "alnum c \<longleftrightarrow> is_lower c \<or> is_upper c \<or> is_digit c"

definition benchmarkServerPattern :: "string \<Rightarrow> bool" where
  "benchmarkServerPattern s \<longleftrightarrow>
     s \<noteq> [] \<and> length s \<le> 253 \<and> alnum (hd s) \<and> alnum (last s) \<and> list_all iface_char s"

definition request_validate :: "string \<Rightarrow> int \<Rightarrow> bool" where
  "request_validate server port \<longleftrightarrow>
     (if server \<noteq> [] \<and> ParseIP server = None \<and> \<not> benchmarkServerPattern server then False
      else if port < 0 \<or> port > 65535 then False
      else True)"

text \<open>The two phases, between the lease and the restoration that follows whatever happens.\<close>

definition configured_phase ::
  "'k qos_env \<Rightarrow> qos_config \<Rightarrow> ('k qos \<Rightarrow> 'k qos \<times> phase) \<Rightarrow> comparison \<Rightarrow> 'k qos
     \<Rightarrow> 'k qos \<times> comparison \<times> qos_error option" where
  "configured_phase E cfg measurePhase c s =
     (case qos_apply E cfg s of
        (s1, Inl e) \<Rightarrow> (s1, c, Some (wrap ''apply configured CAKE phase'' e))
      | (s1, Inr _) \<Rightarrow>
          (case observe_chain E (qc_Interface cfg) s1 of
             (s2, Inl e) \<Rightarrow> (s2, c, Some e)
           | (s2, Inr state) \<Rightarrow>
               if \<not> st_Enabled state
               then (s2, c, Some (Failure ''configured phase does not have the complete managed CAKE chain''))
               else (case measurePhase s2 of
                       (s3, configured) \<Rightarrow>
                         (let lims = mergeLimitations [cp_Limitations c, ph_Limitations configured]
                          in (s3, c\<lparr>cp_Configured := configured, cp_Limitations := lims,
                                    cp_Valid := (lims = [] \<and> ph_Valid (cp_Baseline c) \<and> ph_Valid configured)\<rparr>,
                              None)))))"

definition benchmark_phases ::
  "'k qos_env \<Rightarrow> qos_config \<Rightarrow> ('k qos \<Rightarrow> 'k qos \<times> phase) \<Rightarrow> comparison \<Rightarrow> 'k qos
     \<Rightarrow> 'k qos \<times> comparison \<times> qos_error option" where
  "benchmark_phases E cfg measurePhase c s =
     (case qos_apply E (off_config (qc_Interface cfg)) s of
        (s1, Inl e) \<Rightarrow> (s1, c, Some (wrap ''remove managed CAKE for baseline'' e))
      | (s1, Inr _) \<Rightarrow>
          (case inspectOwnership E (qc_Interface cfg) s1 of
             (s2, Inl e) \<Rightarrow> (s2, c, Some e)
           | (s2, Inr o') \<Rightarrow>
               if os_chainOwned o' \<or> rs_kind (os_egressSignature o') = ''cake''
                  \<or> rs_kind (os_ingressSignature o') = ''cake''
               then (s2, c, Some (Failure ''baseline still contains managed CAKE''))
               else (case measurePhase s2 of
                       (s3, baseline) \<Rightarrow>
                         configured_phase E cfg measurePhase
                           (c\<lparr>cp_Baseline := baseline,
                              cp_Limitations := mergeLimitations [cp_Limitations c, ph_Limitations baseline]\<rparr>) s3)))"

definition benchmark_restore ::
  "'k qos_env \<Rightarrow> qos_config \<Rightarrow> string \<Rightarrow> 'k qos \<times> comparison \<times> qos_error option
     \<Rightarrow> 'k qos \<times> comparison \<times> qos_error option" where
  "benchmark_restore E cfg operationID r =
     (case r of (s, c, retErr) \<Rightarrow>
        (case qos_apply E cfg s of
           (s', Inl _) \<Rightarrow> (s', c, Some CompensationFailed)
         | (s', Inr _) \<Rightarrow>
             (case clearOperation E operationID (qc_Interface cfg) s' of
                (s'', Inl _) \<Rightarrow> (s'', c\<lparr>cp_Restored := True\<rparr>, Some CompensationFailed)
              | (s'', Inr _) \<Rightarrow> (s'', c\<lparr>cp_Restored := True\<rparr>, retErr))))"

definition benchmark_locked ::
  "'k qos_env \<Rightarrow> qos_config \<Rightarrow> ('k qos \<Rightarrow> 'k qos \<times> phase) \<Rightarrow> comparison \<Rightarrow> 'k qos
     \<Rightarrow> 'k qos \<times> comparison \<times> qos_error option" where
  "benchmark_locked E cfg measurePhase c s =
     (case inspectOwnership E (qc_Interface cfg) s of
        (s1, Inl e) \<Rightarrow> (s1, c, Some e)
      | (s1, Inr o') \<Rightarrow>
          if \<not> validateApplyOwnership cfg o' then (s1, c, Some OwnershipNotEstablished)
          else case beginOperation E cfg cfg OperationBenchmark o' s1 of
                 (s2, Inl e) \<Rightarrow> (s2, c, Some e)
               | (s2, Inr operationID) \<Rightarrow>
                   benchmark_restore E cfg operationID
                     (benchmark_phases E cfg measurePhase (c\<lparr>cp_Restored := False\<rparr>) s2))"

definition BenchmarkCurrent ::
  "'k qos_env \<Rightarrow> string \<Rightarrow> string \<Rightarrow> int \<Rightarrow> ('k, qos_config) qop \<Rightarrow> ('k qos \<Rightarrow> 'k qos \<times> phase) \<Rightarrow> 'k qos
     \<Rightarrow> 'k qos \<times> comparison \<times> qos_error option" where
  "BenchmarkCurrent E iface server port load measurePhase s =
     (if \<not> request_validate server port then (s, no_comparison, Some (Failure ''invalid iperf3 server or port''))
      else if \<not> config_Validate (off_config iface) then (s, no_comparison, Some (Failure ''invalid config''))
      else case load s of
             (s1, Inl e) \<Rightarrow> (s1, no_comparison, Some e)
           | (s1, Inr cfg) \<Rightarrow>
               (if qc_Interface cfg \<noteq> iface then (s1, no_comparison, Some StaleInterface)
                else if \<not> config_Validate cfg then (s1, no_comparison, Some (Failure ''invalid config''))
                else let c = no_comparison\<lparr>cp_Restored := True\<rparr>
                     in if server = [] then (s1, c\<lparr>cp_Limitations := [''server_missing'']\<rparr>, None)
                        else if qe_dry E then (s1, c\<lparr>cp_Limitations := [''dry_run'']\<rparr>, None)
                        else case ask E [''iperf3'', ''--version''] s1 of
                               (s2, Inl _) \<Rightarrow> (s2, c\<lparr>cp_Limitations := [''iperf_unavailable'']\<rparr>, None)
                             | (s2, Inr _) \<Rightarrow>
                                 if \<not> qc_Enabled cfg then (s2, c\<lparr>cp_Limitations := [''qos_disabled'']\<rparr>, None)
                                 else let capped = snd (boundedOffer (qc_UploadMbps cfg)) \<or> snd (boundedOffer (qc_DownloadMbps cfg))
                                      in benchmark_locked E cfg measurePhase
                                           (if capped then c\<lparr>cp_Limitations := addLimitation [] ''load_capped''\<rparr> else c) s2))"

end
