(* ===== verification/QosSafety.thy ===== *)
theory QosSafety
  imports QosOperations
begin

text \<open>
  What the traffic shaper may touch.  The log of the executor holds every reading and every command; it is
  careful when each command that removes or replaces something follows a reading that shows it to be the
  product's own, or nothing anyone configured.  A triple with one postcondition for the value and one for
  the error, with a rule for each way of composing operations, carries the proof; nothing is assumed of
  what tc and ip do.
\<close>

subsection \<open>What a careful log is\<close>

definition our_signature :: "rootSignature \<Rightarrow> bool" where
  "our_signature sig \<longleftrightarrow>
     (rs_kind sig = ''cake'' \<and> rs_nat sig
      \<and> (rs_handle sig = managedEgressHandle \<and> rs_hostMode sig = ''dual-srchost'' \<and> \<not> rs_ingress sig
         \<or> rs_handle sig = managedIngressHandle \<and> rs_hostMode sig = ''dual-dsthost'' \<and> rs_ingress sig))
     \<or> (rs_kind sig = ''netem'' \<and> rs_handle sig = managedNetemHandle)"

definition shown_ours :: "string \<Rightarrow> bool" where
  "shown_ours out \<longleftrightarrow> (\<exists>sig. our_signature sig \<and> sig_matches sig out)"

definition replaceable :: "string \<Rightarrow> bool" where
  "replaceable out \<longleftrightarrow>
     (case rootQdisc out of None \<Rightarrow> True | Some qd \<Rightarrow> isReplaceableInitialRoot qd)
     \<or> shown_ours out
     \<or> snd (linkGuardCakeRootSignature out managedEgressHandle ''dual-srchost'' False)
     \<or> snd (linkGuardCakeRootSignature out managedIngressHandle ''dual-dsthost'' True)"

text \<open>The last word on the root queue of a device allows replacing it: a reading, or its creation.\<close>

fun settled :: "string \<Rightarrow> qos_event list \<Rightarrow> bool" where
  "settled dev [] \<longleftrightarrow> False"
| "settled dev (Shown cmd (Inr out) # lg) \<longleftrightarrow> (if cmd = qdisc_show dev then replaceable out else settled dev lg)"
| "settled dev (Ran cmd (Inr out) # lg) \<longleftrightarrow> cmd = link_add dev \<or> settled dev lg"
| "settled dev (Shown cmd (Inl m) # lg) \<longleftrightarrow> settled dev lg"
| "settled dev (Ran cmd (Inl m) # lg) \<longleftrightarrow> settled dev lg"

text \<open>The last reading of the filters at the product's priority shows none, or the product's own.\<close>

definition own_redirect :: "(string \<Rightarrow> string) \<Rightarrow> string \<Rightarrow> string \<Rightarrow> bool" where
  "own_redirect H iface out \<longleftrightarrow> hasManagedRedirect out (IFBName H iface)"

fun redirect_settled :: "(string \<Rightarrow> string) \<Rightarrow> string \<Rightarrow> qos_event list \<Rightarrow> bool" where
  "redirect_settled H iface [] \<longleftrightarrow> False"
| "redirect_settled H iface (Shown cmd (Inr out) # lg) \<longleftrightarrow>
     (if cmd = redirect_show iface then trim_space out = [] \<or> own_redirect H iface out
      else redirect_settled H iface lg)"
| "redirect_settled H iface (Shown cmd (Inl m) # lg) \<longleftrightarrow> redirect_settled H iface lg"
| "redirect_settled H iface (Ran cmd r # lg) \<longleftrightarrow> redirect_settled H iface lg"

definition redirect_del :: "string \<Rightarrow> string list" where
  "redirect_del iface = [''tc'', ''filter'', ''del'', ''dev'', iface, ''ingress'', ''pref'', redirectFilterPriority]"

definition clsact_del :: "string \<Rightarrow> string list" where
  "clsact_del iface = [''tc'', ''qdisc'', ''del'', ''dev'', iface, ''clsact'']"

text \<open>The readings that come right before.\<close>

definition just_shown :: "string list \<Rightarrow> (string \<Rightarrow> bool) \<Rightarrow> qos_event list \<Rightarrow> bool" where
  "just_shown cmd p lg \<longleftrightarrow> (case lg of Shown c (Inr out) # _ \<Rightarrow> c = cmd \<and> p out | _ \<Rightarrow> False)"

definition just_shown_twice :: "string list \<Rightarrow> (string \<Rightarrow> bool) \<Rightarrow> string list \<Rightarrow> (string \<Rightarrow> bool) \<Rightarrow> qos_event list \<Rightarrow> bool" where
  "just_shown_twice c1 p1 c2 p2 lg \<longleftrightarrow>
     just_shown c2 p2 lg \<and> just_shown c1 p1 (tl lg)"

definition link_show :: "string \<Rightarrow> string list" where
  "link_show dev = [''ip'', ''link'', ''show'', ''dev'', dev]"

definition permitted :: "(string \<Rightarrow> string) \<Rightarrow> string list \<Rightarrow> qos_event list \<Rightarrow> bool" where
  "permitted H cmd lg \<longleftrightarrow>
     (let dev = cmd ! 4
      in (cmd = root_del dev \<longrightarrow> just_shown (qdisc_show dev) shown_ours lg)
       \<and> (cmd = redirect_del dev \<longrightarrow> just_shown (redirect_show dev) (own_redirect H dev) lg)
       \<and> (cmd = clsact_del dev \<longrightarrow>
            just_shown_twice (filter_show dev ''ingress'') (\<lambda>out. \<not> hasFilterRecord out)
              (filter_show dev ''egress'') (\<lambda>out. \<not> hasFilterRecord out) lg)
       \<and> (cmd = link_del dev \<longrightarrow>
            just_shown_twice (qdisc_show dev) hasOnlyDisposableIFBQdiscs (link_show dev) (\<lambda>out. True) lg)
       \<and> (take 4 cmd = [''tc'', ''qdisc'', ''replace'', ''dev''] \<longrightarrow> settled dev lg)
       \<and> (take 4 cmd = [''tc'', ''filter'', ''replace'', ''dev''] \<longrightarrow> redirect_settled H dev lg))"

fun careful :: "(string \<Rightarrow> string) \<Rightarrow> qos_event list \<Rightarrow> bool" where
  "careful H [] \<longleftrightarrow> True"
| "careful H (Shown cmd r # lg) \<longleftrightarrow> careful H lg"
| "careful H (Ran cmd r # lg) \<longleftrightarrow> permitted H cmd lg \<and> careful H lg"

text \<open>The table of leases records only the product's own queues.\<close>

definition our_cake :: "cake_signature \<Rightarrow> bool" where
  "our_cake c \<longleftrightarrow>
     our_signature (cakeRootSignature (cs_Handle c) (cs_Bandwidth c) (cs_Mode c) (cs_HostMode c) (cs_NAT c) (cs_Ingress c))"

definition our_lease :: "operation_lease \<Rightarrow> bool" where
  "our_lease l \<longleftrightarrow> pred_option our_cake (ol_BeforeEgress l) \<and> pred_option our_cake (ol_BeforeIngress l)"

subsection \<open>The triple\<close>

definition safe ::
  "(string \<Rightarrow> string) \<Rightarrow> (qos_event list \<Rightarrow> bool) \<Rightarrow> ('k, 'a) qop \<Rightarrow> ('a \<Rightarrow> qos_event list \<Rightarrow> bool) \<Rightarrow> bool" where
  "safe H p m q \<longleftrightarrow>
     (\<forall>s. p (qs_log s) \<and> list_all our_lease (qs_leases s) \<longrightarrow>
        list_all our_lease (qs_leases (fst (m s)))
        \<and> (case snd (m s) of Inl e \<Rightarrow> careful H (qs_log (fst (m s))) | Inr x \<Rightarrow> q x (qs_log (fst (m s)))))"

named_theorems safe_rules

lemma safe_weaken:
  assumes "safe H p m q" and "\<And>lg. p' lg \<Longrightarrow> p lg" and "\<And>x lg. q x lg \<Longrightarrow> q' x lg"
  shows "safe H p' m q'"
  using assms unfolding safe_def by (fastforce split: sum.splits)

lemma safe_ret [safe_rules]: "(\<And>lg. p lg \<Longrightarrow> q x lg) \<Longrightarrow> safe H p (ret x) q"
  by (simp add: safe_def ret_def)

lemma safe_fail [safe_rules]: "(\<And>lg. p lg \<Longrightarrow> careful H lg) \<Longrightarrow> safe H p (fail e) q"
  by (simp add: safe_def fail_def)

lemma safe_andthen:
  assumes "safe H p m q" and "\<And>x. safe H (q x) (f x) r"
  shows "safe H p (andthen m f) r"
  unfolding safe_def
proof (intro allI impI)
  fix s :: "'a qos"
  assume s: "p (qs_log s) \<and> list_all our_lease (qs_leases s)"
  obtain s' o' where m: "m s = (s', o')" by (cases "m s")
  show "list_all our_lease (qs_leases (fst (andthen m f s)))
        \<and> (case snd (andthen m f s) of Inl e \<Rightarrow> careful H (qs_log (fst (andthen m f s)))
           | Inr x \<Rightarrow> r x (qs_log (fst (andthen m f s))))"
  proof (cases o')
    case (Inl e)
    with assms(1) s m show ?thesis unfolding safe_def andthen_def by fastforce
  next
    case (Inr x)
    with assms(1) s m have "q x (qs_log s') \<and> list_all our_lease (qs_leases s')"
      unfolding safe_def by fastforce
    with assms(2) [of x] have *: "list_all our_lease (qs_leases (fst (f x s')))
        \<and> (case snd (f x s') of Inl e \<Rightarrow> careful H (qs_log (fst (f x s'))) | Inr y \<Rightarrow> r y (qs_log (fst (f x s'))))"
      unfolding safe_def by blast
    have eq: "andthen m f s = f x s'" using Inr m by (simp add: andthen_def)
    show ?thesis unfolding eq by (rule *)
  qed
qed

lemma safe_if [safe_rules]:
  "(b \<Longrightarrow> safe H p m q) \<Longrightarrow> (\<not> b \<Longrightarrow> safe H p m' q) \<Longrightarrow> safe H p (if b then m else m') q"
  by simp

lemma safe_read:
  assumes "\<And>lg. p lg \<Longrightarrow> careful H lg"
  shows "safe H p (read E cmd) (\<lambda>out lg. \<exists>lg0. p lg0 \<and> lg = Shown cmd (Inr out) # lg0)"
  using assms by (auto simp: safe_def read_def ask_def split: sum.splits prod.splits)

lemma safe_ask_read:
  assumes "\<And>lg. p lg \<Longrightarrow> careful H lg" and "\<And>out lg. p lg \<Longrightarrow> q out (Shown cmd (Inr out) # lg)"
  shows "safe H p (read E cmd) q"
  using assms by (auto simp: safe_def read_def ask_def split: sum.splits prod.splits)

lemma safe_execute:
  assumes "\<And>lg. p lg \<Longrightarrow> careful H lg" and "\<And>lg. p lg \<Longrightarrow> permitted H cmd lg"
    and "\<And>out lg. p lg \<Longrightarrow> q () (Ran cmd (Inr out) # lg)"
  shows "safe H p (execute_cmd E a cmd) q"
  using assms by (auto simp: safe_def execute_cmd_def command_def split: sum.splits prod.splits)

lemma safe_delete:
  assumes "\<And>lg. p lg \<Longrightarrow> careful H lg" and "\<And>lg. p lg \<Longrightarrow> permitted H cmd lg"
    and "\<And>r lg. p lg \<Longrightarrow> q () (Ran cmd r # lg)"
  shows "safe H p (delete_cmd E a cmd) q"
  using assms by (auto simp: safe_def delete_cmd_def command_def split: sum.splits prod.splits)

lemma safe_ifbState:
  assumes "\<And>lg. p lg \<Longrightarrow> careful H lg"
    and "\<And>out lg. p lg \<Longrightarrow> q (True, linkIsUp out) (Shown (link_show ifb) (Inr out) # lg)"
    and "\<And>m lg. p lg \<Longrightarrow> q (False, False) (Shown (link_show ifb) (Inl m) # lg)"
  shows "safe H p (ifbState E ifb) q"
  using assms by (auto simp: safe_def ifbState_def ask_def link_show_def split: sum.splits prod.splits)

subsection \<open>Which commands a log allows\<close>

lemmas command_defs = root_del_def redirect_del_def clsact_del_def link_del_def cake_replace_def
  netem_replace_def redirect_replace_def link_add_def link_set_def

lemma allowed_root_del:
  "just_shown (qdisc_show dev) shown_ours lg \<Longrightarrow> permitted H (root_del dev) lg"
  by (simp add: permitted_def command_defs)

lemma allowed_redirect_del:
  "just_shown (redirect_show dev) (own_redirect H dev) lg \<Longrightarrow> permitted H (redirect_del dev) lg"
  by (simp add: permitted_def command_defs)

lemma allowed_clsact_del:
  "just_shown_twice (filter_show dev ''ingress'') (\<lambda>out. \<not> hasFilterRecord out)
     (filter_show dev ''egress'') (\<lambda>out. \<not> hasFilterRecord out) lg \<Longrightarrow> permitted H (clsact_del dev) lg"
  by (simp add: permitted_def command_defs)

lemma allowed_link_del:
  "just_shown_twice (qdisc_show dev) hasOnlyDisposableIFBQdiscs (link_show dev) (\<lambda>out. True) lg
     \<Longrightarrow> permitted H (link_del dev) lg"
  by (simp add: permitted_def command_defs)

lemma allowed_cake: "settled dev lg \<Longrightarrow> permitted H (cake_replace dev sig) lg"
  by (simp add: permitted_def command_defs)

lemma allowed_netem: "settled dev lg \<Longrightarrow> permitted H (netem_replace dev d l) lg"
  by (simp add: permitted_def command_defs)

lemma allowed_initial:
  "settled dev lg \<Longrightarrow> permitted H [''tc'', ''qdisc'', ''replace'', ''dev'', dev, ''root'', kind] lg"
  by (simp add: permitted_def command_defs)

lemma allowed_redirect: "redirect_settled H dev lg \<Longrightarrow> permitted H (redirect_replace dev ifb) lg"
  by (simp add: permitted_def command_defs)

lemma allowed_link [simp]: "permitted H (link_add ifb) lg" "permitted H (link_set ifb st) lg"
  by (simp_all add: permitted_def command_defs)

lemma allowed_clsact_add [simp]: "permitted H [''tc'', ''qdisc'', ''add'', ''dev'', dev, ''clsact''] lg"
  by (simp add: permitted_def command_defs)

lemma different_readings [simp]:
  "qdisc_show a \<noteq> redirect_show b" "redirect_show b \<noteq> qdisc_show a"
  "qdisc_show a \<noteq> link_show b" "link_show b \<noteq> qdisc_show a"
  "redirect_show a \<noteq> link_show b" "link_show b \<noteq> redirect_show a"
  "qdisc_show a \<noteq> filter_show b d" "filter_show b d \<noteq> qdisc_show a"
  "redirect_show a \<noteq> filter_show b d" "filter_show b d \<noteq> redirect_show a"
  by (simp_all add: qdisc_show_def redirect_show_def link_show_def filter_show_def)

lemma same_readings [simp]:
  "qdisc_show a = qdisc_show b \<longleftrightarrow> a = b" "redirect_show a = redirect_show b \<longleftrightarrow> a = b"
  "link_add a = link_add b \<longleftrightarrow> a = b"
  by (simp_all add: qdisc_show_def redirect_show_def link_add_def)

lemma not_a_creation [simp]:
  "cake_replace a sig \<noteq> link_add b" "netem_replace a d l \<noteq> link_add b" "link_set a st \<noteq> link_add b"
  "root_del a \<noteq> link_add b" "redirect_replace a c \<noteq> link_add b"
  by (simp_all add: command_defs)

lemma ours_shown: "our_signature sig \<Longrightarrow> sig_matches sig out \<Longrightarrow> shown_ours out"
  by (auto simp: shown_ours_def)

lemma ours_replaceable: "our_signature sig \<Longrightarrow> sig_matches sig out \<Longrightarrow> replaceable out"
  by (auto simp: replaceable_def dest: ours_shown)

lemma own_signatures [simp]:
  "our_signature (egress_signature cfg)" "our_signature (ingress_signature cfg)"
  "our_signature (netemRootSignature fault)"
  by (simp_all add: our_signature_def egress_signature_def ingress_signature_def netemRootSignature_def
      cakeRootSignature_def no_signature_def)

lemma linkGuard_ours:
  assumes "linkGuardCakeRootSignature out h hm i = (sig, True)"
    and "h = managedEgressHandle \<and> hm = ''dual-srchost'' \<and> \<not> i \<or> h = managedIngressHandle \<and> hm = ''dual-dsthost'' \<and> i"
  shows "our_signature sig"
  using assms
  by (auto simp: linkGuardCakeRootSignature_def managedCakeRootSignature_def our_signature_def
      cakeRootSignature_def no_signature_def split: option.splits if_splits prod.splits)

lemma step_command_is_cake_replace:
  "[''tc'', ''qdisc'', ''replace'', ''dev'', qc_Interface cfg, ''root'', ''handle'', managedEgressHandle, ''cake'',
    ''bandwidth'', bandwidthArg (qc_UploadMbps cfg), qos_mode cfg, ''nat'', ''dual-srchost'']
   = cake_replace (qc_Interface cfg) (egress_signature cfg)"
  "[''tc'', ''qdisc'', ''replace'', ''dev'', ifb, ''root'', ''handle'', managedIngressHandle, ''cake'',
    ''bandwidth'', bandwidthArg (qc_DownloadMbps cfg), qos_mode cfg, ''nat'', ''dual-dsthost'', ''ingress'']
   = cake_replace ifb (ingress_signature cfg)"
  by (simp_all add: cake_replace_def cakeSignatureArgs_def egress_signature_def ingress_signature_def
      cakeRootSignature_def no_signature_def)

subsection \<open>The undoing of a step\<close>

lemma safe_restoreRoot [safe_rules]:
  assumes "\<not> qe_dry E" and "our_signature current"
  shows "safe H (careful H) (restoreRoot E iface prev current previousManaged) (\<lambda>_. careful H)"
proof -
  have rd: "safe H (careful H) (read E (qdisc_show iface))
      (\<lambda>out lg. \<exists>lg0. careful H lg0 \<and> lg = Shown (qdisc_show iface) (Inr out) # lg0)"
    by (rule safe_read)
  have post: "sig_matches current out \<Longrightarrow>
      safe H (\<lambda>lg. \<exists>lg0. careful H lg0 \<and> lg = Shown (qdisc_show iface) (Inr out) # lg0) (execute_cmd E a cmd) (\<lambda>_. careful H)"
    if "\<And>lg. settled iface lg \<Longrightarrow> permitted H cmd lg" for a cmd out
    by (rule safe_execute) (auto intro!: that ours_replaceable [OF assms(2)])
  have del: "sig_matches current out \<Longrightarrow>
      safe H (\<lambda>lg. \<exists>lg0. careful H lg0 \<and> lg = Shown (qdisc_show iface) (Inr out) # lg0)
        (delete_cmd E a (root_del iface)) (\<lambda>_. careful H)" for a out
    by (rule safe_delete) (auto intro!: allowed_root_del ours_shown [OF assms(2)] simp: just_shown_def)
  show ?thesis
    unfolding restoreRoot_def
    by (cases "rootQdisc prev")
      (auto simp: assms(1) intro!: safe_andthen [OF rd] safe_rules post del allowed_cake allowed_netem allowed_initial
        split: option.split)
qed

lemma safe_removeRootMatching [safe_rules]:
  assumes "our_signature expected"
  shows "safe H (careful H) (removeRootMatching E iface expected) (\<lambda>_. careful H)"
  unfolding removeRootMatching_def
  by (rule safe_andthen [OF safe_read])
    (auto intro!: safe_rules safe_delete allowed_root_del ours_shown [OF assms] simp: just_shown_def)

lemma safe_restoreDeletedRoot [safe_rules]:
  "safe H (careful H) (restoreDeletedRoot E iface prev previous) (\<lambda>_. careful H)"
proof -
  have post: "\<not> (case rootQdisc out of None \<Rightarrow> False | Some cur \<Rightarrow> \<not> isReplaceableInitialRoot cur) \<Longrightarrow>
      safe H (\<lambda>lg. \<exists>lg0. careful H lg0 \<and> lg = Shown (qdisc_show iface) (Inr out) # lg0) (execute_cmd E a cmd) (\<lambda>_. careful H)"
    if "\<And>lg. settled iface lg \<Longrightarrow> permitted H cmd lg" for a cmd out
    by (rule safe_execute) (auto intro!: that simp: replaceable_def split: option.splits)
  show ?thesis
    unfolding restoreDeletedRoot_def
    by (rule safe_andthen [OF safe_read])
      (auto intro!: safe_rules post allowed_cake allowed_netem split: option.split)
qed

lemma safe_restoreRedirect [safe_rules]:
  "safe H (careful H) (restoreRedirect E iface ifb) (\<lambda>_. careful H)"
  unfolding restoreRedirect_def
  by (rule safe_andthen [OF safe_read]) (auto intro!: safe_rules safe_execute allowed_redirect)

lemma safe_removeManagedRedirect [safe_rules]:
  assumes "ifb = IFBName H iface"
  shows "safe H (careful H) (removeManagedRedirect E iface ifb) (\<lambda>_. careful H)"
  unfolding removeManagedRedirect_def redirect_del_def [symmetric]
  by (rule safe_andthen [OF safe_read])
    (auto intro!: safe_rules safe_delete allowed_redirect_del simp: just_shown_def own_redirect_def assms)

lemma safe_removeAddedClsact [safe_rules]:
  "safe H (careful H) (removeAddedClsact E iface) (\<lambda>_. careful H)"
  unfolding removeAddedClsact_def clsact_del_def [symmetric]
  by (rule safe_andthen [OF safe_read], simp, rule safe_if, rule safe_ret, force,
      rule safe_andthen [OF safe_read], force, rule safe_if, rule safe_ret, force,
      rule safe_andthen [OF safe_read], force, rule safe_if, rule safe_ret, force)
    (auto intro!: safe_delete allowed_clsact_del simp: just_shown_def just_shown_twice_def)

lemma safe_unclaimed_direction [safe_rules]:
  "safe H (careful H) (unclaimed_direction E ifb d) (\<lambda>_. careful H)"
  by (auto simp: safe_def unclaimed_direction_def read_def ask_def split: sum.splits prod.splits qos_error.splits)

lemma safe_requireUnclaimedIFBState [safe_rules]:
  "safe H (careful H) (requireUnclaimedIFBState E ifb) (\<lambda>_. careful H)"
  unfolding requireUnclaimedIFBState_def
  by (rule safe_andthen [OF safe_ask_read [where q = "\<lambda>_. careful H"]])
    (auto intro!: safe_rules safe_andthen [OF safe_unclaimed_direction])

lemma safe_ifbState_careful:
  "safe H (careful H) (ifbState E ifb) (\<lambda>_. careful H)"
  by (rule safe_ifbState) auto

lemma safe_removeIFBIfUnclaimed [safe_rules]:
  assumes "\<not> qe_dry E"
  shows "safe H (careful H) (removeIFBIfUnclaimed E ifb a) (\<lambda>_. careful H)"
proof -
  define shown where "shown = (\<lambda>lg. careful H lg \<and> just_shown (qdisc_show ifb) hasOnlyDisposableIFBQdiscs lg)"
  define shown2 where "shown2 = (\<lambda>(x :: bool \<times> bool) lg. careful H lg \<and> (fst x \<longrightarrow> just_shown_twice (qdisc_show ifb)
    hasOnlyDisposableIFBQdiscs (link_show ifb) (\<lambda>out. True) lg))"
  have last: "safe H shown (ifbState E ifb) shown2"
    by (rule safe_ifbState) (auto simp: shown_def shown2_def just_shown_def just_shown_twice_def)
  have del: "safe H (shown2 (True, b)) (delete_cmd E a (link_del ifb)) (\<lambda>_. careful H)" for b
    by (rule safe_delete) (auto simp: shown2_def intro!: allowed_link_del)
  have third: "safe H (careful H) (read E (qdisc_show ifb))
      (\<lambda>out lg. careful H lg \<and> just_shown (qdisc_show ifb) (\<lambda>o'. o' = out) lg)"
    by (rule safe_ask_read) (auto simp: just_shown_def)
  have weak: "safe H p m q \<Longrightarrow> (\<And>lg. p' lg \<Longrightarrow> p lg) \<Longrightarrow> safe H p' m q" for p p' and m :: "('a, unit) qop" and q
    by (rule safe_weaken)
  have rest: "safe H (\<lambda>lg. careful H lg \<and> just_shown (qdisc_show ifb) (\<lambda>o'. o' = out) lg)
     (if \<not> hasOnlyDisposableIFBQdiscs out then fail OwnershipNotEstablished
      else andthen (ifbState E ifb) (\<lambda>(exists, _). if \<not> exists then ret () else delete_cmd E a (link_del ifb)))
     (\<lambda>_. careful H)" for out
  proof (cases "hasOnlyDisposableIFBQdiscs out")
    case True
    have "safe H shown (andthen (ifbState E ifb) (\<lambda>(exists, _). if \<not> exists then ret () else delete_cmd E a (link_del ifb)))
        (\<lambda>_. careful H)"
    proof (rule safe_andthen [OF last])
      fix x :: "bool \<times> bool"
      show "safe H (shown2 x) (case x of (exists, _) \<Rightarrow> if \<not> exists then ret () else delete_cmd E a (link_del ifb)) (\<lambda>_. careful H)"
        using del [of "snd x"] by (cases x; cases "fst x") (auto intro!: safe_ret simp: shown2_def)
    qed
    then have "safe H (\<lambda>lg. careful H lg \<and> just_shown (qdisc_show ifb) (\<lambda>o'. o' = out) lg)
        (andthen (ifbState E ifb) (\<lambda>(exists, _). if \<not> exists then ret () else delete_cmd E a (link_del ifb))) (\<lambda>_. careful H)"
      by (rule weak) (use True in \<open>auto simp: shown_def just_shown_def split: list.splits qos_event.splits sum.splits\<close>)
    with True show ?thesis by simp
  qed (auto intro!: safe_fail)
  show ?thesis
    unfolding removeIFBIfUnclaimed_def
    using assms
    by (auto intro!: safe_andthen [OF safe_ifbState_careful] safe_rules
        safe_andthen [OF safe_requireUnclaimedIFBState] safe_andthen [OF third] rest)
qed

lemma safe_restoreIFB [safe_rules]:
  "safe H (careful H) (restoreIFB E ifb up) (\<lambda>_. careful H)"
  unfolding restoreIFB_def
  by (auto intro!: safe_andthen [OF safe_ifbState_careful] safe_andthen [where q = "\<lambda>_. careful H"] safe_execute safe_rules)

subsection \<open>Steps with their undoing\<close>

definition safe_undo :: "(string \<Rightarrow> string) \<Rightarrow> ('k, unit) qop \<Rightarrow> bool" where
  "safe_undo H u \<longleftrightarrow> safe H (careful H) u (\<lambda>_. careful H)"

definition tidy :: "(string \<Rightarrow> string) \<Rightarrow> 'k mutationJournal \<Rightarrow> bool" where
  "tidy H j \<longleftrightarrow> list_all (safe_undo H) (mj_undos j)"

lemma tidy_new [simp]: "tidy H (newMutationJournal op)"
  by (simp add: tidy_def newMutationJournal_def)

lemma safe_assume: "(b \<Longrightarrow> safe H p m q) \<Longrightarrow> safe H (\<lambda>lg. p lg \<and> b) m q"
  by (auto simp: safe_def)

lemma safe_undo_step:
  assumes "safe_undo H u" and "careful H (qs_log s)" and "list_all our_lease (qs_leases s)"
  shows "careful H (qs_log (fst (u s))) \<and> list_all our_lease (qs_leases (fst (u s)))"
  using assms by (auto simp: safe_undo_def safe_def split: sum.splits)

lemma run_all_careful:
  "list_all (safe_undo H) undos \<Longrightarrow> careful H (qs_log s) \<Longrightarrow> list_all our_lease (qs_leases s)
     \<Longrightarrow> careful H (qs_log (fst (run_all undos s))) \<and> list_all our_lease (qs_leases (fst (run_all undos s)))"
proof (induction undos arbitrary: s)
  case (Cons u undos)
  obtain s' r where u: "u s = (s', r)" by (cases "u s")
  have *: "careful H (qs_log s') \<and> list_all our_lease (qs_leases s')"
    using safe_undo_step [of H u s] Cons.prems u by simp
  have "fst (run_all (u # undos) s) = fst (run_all undos s')"
    using u by (cases r) (auto split: prod.split)
  with Cons.IH [of s'] Cons.prems(1) * show ?case by simp
next
  case Nil
  then show ?case by simp
qed

lemma advance_keeps:
  "qs_log (fst (AdvanceQoSOperationLease E op f t s)) = qs_log s
   \<and> (list_all our_lease (qs_leases s) \<longrightarrow> list_all our_lease (qs_leases (fst (AdvanceQoSOperationLease E op f t s))))"
  by (auto simp: AdvanceQoSOperationLease_def store_call_def Let_def fail_def our_lease_def list_all_iff)

lemma safeD:
  assumes sf: "safe H p m q" and s: "p (qs_log s)" "list_all our_lease (qs_leases s)" and m: "m s = (s', r)"
  shows "list_all our_lease (qs_leases s')"
    and "r = Inl e \<Longrightarrow> careful H (qs_log s')" and "r = Inr x \<Longrightarrow> q x (qs_log s')"
proof -
  have *: "list_all our_lease (qs_leases s') \<and> (case r of Inl e \<Rightarrow> careful H (qs_log s') | Inr x \<Rightarrow> q x (qs_log s'))"
    using sf [unfolded safe_def, rule_format, of s, unfolded m fst_conv snd_conv] s by blast
  then show "list_all our_lease (qs_leases s')" by simp
  show "careful H (qs_log s')" if "r = Inl e" using * that by simp
  show "q x (qs_log s')" if "r = Inr x" using * that by simp
qed

lemma safeI:
  assumes "\<And>s s' r. p (qs_log s) \<Longrightarrow> list_all our_lease (qs_leases s) \<Longrightarrow> m s = (s', r) \<Longrightarrow>
     list_all our_lease (qs_leases s') \<and> (\<forall>e. r = Inl e \<longrightarrow> careful H (qs_log s')) \<and> (\<forall>x. r = Inr x \<longrightarrow> q x (qs_log s'))"
  shows "safe H p m q"
  unfolding safe_def
proof (intro allI impI)
  fix s :: "'a qos"
  assume s: "p (qs_log s) \<and> list_all our_lease (qs_leases s)"
  obtain s' r where m: "m s = (s', r)" by (cases "m s")
  show "list_all our_lease (qs_leases (fst (m s)))
     \<and> (case snd (m s) of Inl e \<Rightarrow> careful H (qs_log (fst (m s))) | Inr x \<Rightarrow> q x (qs_log (fst (m s))))"
    using assms [OF _ _ m] s by (cases r) (simp_all add: m)
qed

lemma safe_repair:
  assumes "list_all (safe_undo H) undos"
  shows "safe H (careful H) (repair undos e) (q :: 'x \<Rightarrow> _)"
proof (rule safeI)
  fix s s' and r :: "qos_error + 'x"
  assume s: "careful H (qs_log s)" "list_all our_lease (qs_leases s)" and run: "repair undos e s = (s', r)"
  have c: "careful H (qs_log (fst (compensate undos s))) \<and> list_all our_lease (qs_leases (fst (compensate undos s)))"
    unfolding compensate_def by (rule run_all_careful) (use assms s in \<open>auto simp: list_all_iff\<close>)
  obtain s1 es where eq: "compensate undos s = (s1, es)" by (cases "compensate undos s")
  show "list_all our_lease (qs_leases s') \<and> (\<forall>e. r = Inl e \<longrightarrow> careful H (qs_log s'))
     \<and> (\<forall>x. r = Inr x \<longrightarrow> q x (qs_log s'))"
    using c eq run by (cases es) (auto simp: repair_def)
qed

lemma safe_run_step:
  assumes m: "safe H p mutate (\<lambda>_. q)" and q: "\<And>lg. q lg \<Longrightarrow> careful H lg" and j: "tidy H j"
    and u: "pred_option (safe_undo H) undo"
  shows "safe H p (run_step E a mutate undo j) (\<lambda>j' lg. q lg \<and> tidy H j')"
proof (rule safeI)
  fix s s' r
  assume s: "p (qs_log s)" "list_all our_lease (qs_leases s)" and eq: "run_step E a mutate undo j s = (s', r)"
  obtain s1 r1 where m1: "mutate s = (s1, r1)" by (cases "mutate s")
  note D = safeD [OF m s m1]
  define j1 where "j1 = (case undo of None \<Rightarrow> j | Some u \<Rightarrow> j\<lparr>mj_undos := mj_undos j @ [u]\<rparr>)"
  have t1: "tidy H j1" using j u by (cases undo) (auto simp: j1_def tidy_def)
  show "list_all our_lease (qs_leases s') \<and> (\<forall>e. r = Inl e \<longrightarrow> careful H (qs_log s'))
      \<and> (\<forall>x. r = Inr x \<longrightarrow> q (qs_log s') \<and> tidy H x)"
  proof (cases r1)
    case (Inl e)
    then have run: "repair (mj_undos j) (wrap a e) s1 = (s', r)" using eq m1 by (simp add: run_step_def)
    have sf: "safe H (careful H) (repair (mj_undos j) (wrap a e)) (\<lambda>_ :: 'a mutationJournal. \<lambda>_. False)"
      by (rule safe_repair) (use j in \<open>simp add: tidy_def\<close>)
    show ?thesis using safeD [OF sf D(2) [OF Inl] D(1) run] by blast
  next
    case (Inr x)
    note q1 = D(3) [OF Inr]
    show ?thesis
    proof (cases "mj_operationID j1 \<noteq> [] \<and> qe_store E \<and> \<not> qe_dry E")
      case False
      then have "(s', r) = (s1, Inr j1)" using eq m1 Inr by (auto simp: run_step_def j1_def [symmetric] Let_def)
      with D(1) q1 t1 show ?thesis by simp
    next
      case True
      obtain s2 r2 where ad: "AdvanceQoSOperationLease E (mj_operationID j1) (mj_stage j1) (mj_stage j1 + 1) s1 = (s2, r2)"
        by (cases "AdvanceQoSOperationLease E (mj_operationID j1) (mj_stage j1) (mj_stage j1 + 1) s1")
      have k: "qs_log s2 = qs_log s1" "list_all our_lease (qs_leases s2)"
        using advance_keeps [of E "mj_operationID j1" "mj_stage j1" "mj_stage j1 + 1" s1] D(1) ad by simp_all
      show ?thesis
      proof (cases r2)
        case (Inl e)
        then have run: "repair (mj_undos j1) (wrap (''journal '' @ a) e) s2 = (s', r)"
          using eq m1 Inr True ad by (simp add: run_step_def j1_def [symmetric] Let_def)
        have sf: "safe H (careful H) (repair (mj_undos j1) (wrap (''journal '' @ a) e)) (\<lambda>_ :: 'a mutationJournal. \<lambda>_. False)"
          by (rule safe_repair) (use t1 in \<open>simp add: tidy_def\<close>)
        have "careful H (qs_log s2)" using q1 q k by simp
        then show ?thesis using safeD [OF sf _ k(2) run] by blast
      next
        case (Inr y)
        then have "s' = s2 \<and> r = Inr (j1\<lparr>mj_stage := mj_stage j1 + 1\<rparr>)"
          using eq m1 \<open>r1 = Inr x\<close> True ad by (auto simp: run_step_def j1_def [symmetric] Let_def)
        with k q1 t1 show ?thesis by (simp add: tidy_def)
      qed
    qed
  qed
qed

subsection \<open>Inspection\<close>

definition inspected :: "(string \<Rightarrow> string) \<Rightarrow> string \<Rightarrow> ownershipState \<Rightarrow> qos_event list \<Rightarrow> bool" where
  "inspected H iface o' lg \<longleftrightarrow>
     careful H lg
     \<and> (replaceable (os_egressOutput o') \<and> (os_ifbExists o' \<longrightarrow> replaceable (os_ingressOutput o')) \<longrightarrow> settled iface lg)
     \<and> (os_ifbExists o' \<and> replaceable (os_ingressOutput o') \<longrightarrow> settled (IFBName H iface) lg)
     \<and> (\<not> os_filterPresent o' \<or> os_redirectMatches o' \<longrightarrow> redirect_settled H iface lg)
     \<and> (os_chainOwned o' \<longrightarrow> os_egressOwned o' \<and> os_ingressOwned o' \<and> replaceable (os_egressOutput o'))"

definition sound_ownership :: "ownershipState \<Rightarrow> bool" where
  "sound_ownership o' \<longleftrightarrow>
     (\<not> os_egressForeign o' \<longrightarrow> replaceable (os_egressOutput o'))
     \<and> (os_ifbExists o' \<and> \<not> os_ingressForeign o' \<longrightarrow> replaceable (os_ingressOutput o'))
     \<and> (os_egressOwned o' \<longrightarrow> our_signature (os_egressSignature o'))
     \<and> (os_ingressOwned o' \<longrightarrow> our_signature (os_ingressSignature o'))
     \<and> (os_redirectOwned o' \<longrightarrow> os_redirectMatches o')"

lemma not_foreign_replaceable:
  assumes "\<not> hasForeignRootQdisc out owned"
    and "owned \<Longrightarrow> snd (linkGuardCakeRootSignature out managedEgressHandle ''dual-srchost'' False)
           \<or> snd (linkGuardCakeRootSignature out managedIngressHandle ''dual-dsthost'' True)"
  shows "replaceable out"
  using assms by (auto simp: hasForeignRootQdisc_def replaceable_def split: option.splits if_splits)

lemma egress_replaceable:
  assumes "\<not> hasForeignRootQdisc out c"
    and "c \<Longrightarrow> linkGuardCakeRootSignature out managedEgressHandle ''dual-srchost'' False = (sig, True)"
  shows "replaceable out"
  by (rule not_foreign_replaceable [OF assms(1)]) (use assms(2) in simp)

lemma ingress_replaceable:
  assumes "\<not> hasForeignRootQdisc out c"
    and "c \<Longrightarrow> linkGuardCakeRootSignature out managedIngressHandle ''dual-dsthost'' True = (sig, True)"
  shows "replaceable out"
  by (rule not_foreign_replaceable [OF assms(1)]) (use assms(2) in simp)

lemma no_filter_record_blank: "\<not> hasFilterRecord out \<Longrightarrow> trim_space out = []"
  by (auto simp: hasFilterRecord_def split: if_splits)

lemma sound_without: "sound_ownership (owned_without_ifb egress redirect ifb)"
proof -
  obtain sig ok where g: "linkGuardCakeRootSignature egress managedEgressHandle ''dual-srchost'' False = (sig, ok)"
    by (cases "linkGuardCakeRootSignature egress managedEgressHandle ''dual-srchost'' False")
  have "ok \<Longrightarrow> our_signature sig" using linkGuard_ours [of egress _ _ _ sig] g by auto
  moreover have "\<not> hasForeignRootQdisc egress ok \<Longrightarrow> replaceable egress"
    using egress_replaceable [of egress ok sig] g by simp
  ultimately show ?thesis by (simp add: sound_ownership_def owned_without_ifb_def g)
qed

lemma sound_with: "sound_ownership (owned_with_ifb egress redirect up ingress ifb)"
proof -
  obtain sig ok where g: "linkGuardCakeRootSignature egress managedEgressHandle ''dual-srchost'' False = (sig, ok)"
    by (cases "linkGuardCakeRootSignature egress managedEgressHandle ''dual-srchost'' False")
  obtain isig iok where i: "linkGuardCakeRootSignature ingress managedIngressHandle ''dual-dsthost'' True = (isig, iok)"
    by (cases "linkGuardCakeRootSignature ingress managedIngressHandle ''dual-dsthost'' True")
  have "ok \<Longrightarrow> our_signature sig" using linkGuard_ours [of egress _ _ _ sig] g by auto
  moreover have "iok \<Longrightarrow> our_signature isig" using linkGuard_ours [of ingress _ _ _ isig] i by auto
  moreover have "\<not> hasForeignRootQdisc egress c \<Longrightarrow> (c \<Longrightarrow> ok) \<Longrightarrow> replaceable egress" for c
    using egress_replaceable [of egress c sig] g by simp
  moreover have "\<not> hasForeignRootQdisc ingress c \<Longrightarrow> (c \<Longrightarrow> iok) \<Longrightarrow> replaceable ingress" for c
    using ingress_replaceable [of ingress c isig] i by simp
  ultimately show ?thesis by (auto simp: sound_ownership_def owned_with_ifb_def g i Let_def)
qed

lemma safe_inspect:
  assumes H: "H = qe_hexsum E"
  shows "safe H (careful H) (inspectOwnership E iface) (\<lambda>o' lg. inspected H iface o' lg \<and> sound_ownership o')"
proof -
  let ?ifb = "IFBName H iface"
  define p1 where "p1 = (\<lambda>egress lg. careful H lg \<and> (replaceable egress \<longrightarrow> settled iface lg))"
  define p2 where "p2 = (\<lambda>egress redirect lg. p1 egress lg
     \<and> (\<not> hasFilterRecord redirect \<or> hasManagedRedirect redirect ?ifb \<longrightarrow> redirect_settled H iface lg))"
  have r1: "safe H (careful H) (read E (qdisc_show iface)) p1"
    by (rule safe_ask_read) (auto simp: p1_def)
  have r2: "safe H (p1 egress) (read E (redirect_show iface)) (p2 egress)" for egress
    by (rule safe_ask_read) (auto simp: p1_def p2_def own_redirect_def dest: no_filter_record_blank)
  have r3: "safe H (p2 egress redirect) (ifbState E ?ifb) (\<lambda>_. p2 egress redirect)" for egress redirect
    by (rule safe_ifbState) (auto simp: p1_def p2_def)
  have none: "safe H (p2 egress redirect) (ret (owned_without_ifb egress redirect ?ifb))
      (\<lambda>o' lg. inspected H iface o' lg \<and> sound_ownership o')" for egress redirect
    by (rule safe_ret, rule conjI [OF _ sound_without])
      (auto simp: p1_def p2_def inspected_def owned_without_ifb_def split: prod.split)
  have r4: "safe H (p2 egress redirect) (read E (qdisc_show ?ifb))
     (\<lambda>ingress lg. inspected H iface (owned_with_ifb egress redirect up ingress ?ifb) lg)" for egress redirect up
    by (rule safe_ask_read)
      (auto simp: p1_def p2_def inspected_def owned_with_ifb_def Let_def replaceable_def split: prod.split)
  have some: "safe H (p2 egress redirect) (andthen (read E (qdisc_show ?ifb)) (\<lambda>ingress.
      ret (owned_with_ifb egress redirect up ingress ?ifb)))
      (\<lambda>o' lg. inspected H iface o' lg \<and> sound_ownership o')" for egress redirect up
    by (rule safe_andthen [OF r4]) (auto intro!: safe_ret simp: sound_with)
  have branch: "safe H (p2 egress redirect) (case x of (exists, up) \<Rightarrow>
      if \<not> exists then ret (owned_without_ifb egress redirect ?ifb)
      else andthen (read E (qdisc_show ?ifb)) (\<lambda>ingress. ret (owned_with_ifb egress redirect up ingress ?ifb)))
      (\<lambda>o' lg. inspected H iface o' lg \<and> sound_ownership o')" for x egress redirect
    using none some by (cases x) auto
  show ?thesis
    unfolding inspectOwnership_def Let_def H [symmetric]
    by (rule safe_andthen [OF r1], rule safe_andthen [OF r2], rule safe_andthen [OF r3], rule branch)
qed

end
