(* ===== verification/QosCareful.thy ===== *)
theory QosCareful
  imports QosSafety
begin

text \<open>
  Every operation of the traffic shaper keeps the log careful: installing and removing the chain, the fault
  of the stress test, the recovery after a stop, the benchmark.  A history is any sequence of these
  operations, whatever happens to the machine between them; the theorem at the end is about histories.
\<close>

subsection \<open>Installing the chain\<close>

definition ready :: "(string \<Rightarrow> string) \<Rightarrow> string \<Rightarrow> bool \<Rightarrow> qos_event list \<Rightarrow> bool" where
  "ready H iface ifb lg \<longleftrightarrow>
     careful H lg \<and> settled iface lg \<and> (ifb \<longrightarrow> settled (IFBName H iface) lg) \<and> redirect_settled H iface lg"

lemma ready_careful: "ready H iface ifb lg \<Longrightarrow> careful H lg"
  by (simp add: ready_def)

lemma validated_ready:
  assumes "inspected H iface o' lg" and "sound_ownership o'" and "qc_Enabled cfg" and "validateApplyOwnership cfg o'"
  shows "ready H iface (os_ifbExists o') lg"
  using assms by (auto simp: inspected_def sound_ownership_def validateApplyOwnership_def ready_def split: if_splits)

lemma safe_undoI: "safe H (careful H) u (\<lambda>_. careful H) \<Longrightarrow> safe_undo H u"
  by (simp add: safe_undo_def)

lemma safe_step_egress:
  assumes "\<not> qe_dry E" and "tidy H j"
  shows "safe H (ready H (qc_Interface cfg) b) (step_egress E cfg o' j)
    (\<lambda>j' lg. ready H (qc_Interface cfg) b lg \<and> tidy H j')"
  unfolding step_egress_def step_command_is_cake_replace
  by (rule safe_run_step [OF safe_execute])
    (use assms in \<open>auto simp: ready_def intro!: allowed_cake safe_undoI safe_restoreRoot\<close>)

lemma safe_step_create_ifb:
  assumes "\<not> qe_dry E" and "tidy H j" and H: "H = qe_hexsum E"
  shows "safe H (ready H (qc_Interface cfg) (os_ifbExists o')) (step_create_ifb E cfg o' j)
    (\<lambda>j' lg. ready H (qc_Interface cfg) True lg \<and> tidy H j')"
proof (cases "os_ifbExists o'")
  case True
  with assms show ?thesis by (auto simp: step_create_ifb_def intro!: safe_ret)
next
  case False
  have "safe H (ready H (qc_Interface cfg) (os_ifbExists o'))
     (run_step E ''create IFB'' (execute_cmd E ''create IFB'' (link_add (IFBName H (qc_Interface cfg))))
       (Some (removeIFBIfUnclaimed E (IFBName H (qc_Interface cfg)) ''remove IFB after failed QoS apply'')) j)
     (\<lambda>j' lg. ready H (qc_Interface cfg) True lg \<and> tidy H j')"
    by (rule safe_run_step [OF safe_execute])
      (use assms in \<open>auto simp: ready_def intro!: safe_undoI safe_removeIFBIfUnclaimed\<close>)
  with False show ?thesis by (simp add: step_create_ifb_def H Let_def)
qed

lemma safe_step_ifb_up:
  assumes "tidy H j"
  shows "safe H (ready H (qc_Interface cfg) True) (step_ifb_up E cfg o' j)
    (\<lambda>j' lg. ready H (qc_Interface cfg) True lg \<and> tidy H j')"
  unfolding step_ifb_up_def Let_def
  by (rule safe_run_step [OF safe_execute])
    (use assms in \<open>auto simp: ready_def intro!: safe_undoI safe_execute\<close>)

lemma safe_step_ingress:
  assumes "\<not> qe_dry E" and "tidy H j" and "H = qe_hexsum E"
  shows "safe H (ready H (qc_Interface cfg) True) (step_ingress E cfg o' j)
    (\<lambda>j' lg. ready H (qc_Interface cfg) True lg \<and> tidy H j')"
  unfolding step_ingress_def step_command_is_cake_replace Let_def
  by (rule safe_run_step [OF safe_execute])
    (use assms in \<open>auto simp: ready_def intro!: allowed_cake safe_undoI safe_restoreRoot\<close>)

lemma clsact_add_not_creation [simp]:
  "[''tc'', ''qdisc'', ''add'', ''dev'', dev, ''clsact''] \<noteq> link_add b"
  by (simp add: link_add_def)

lemma safe_step_clsact:
  assumes "tidy H j"
  shows "safe H (ready H (qc_Interface cfg) True) (step_clsact E cfg o' j)
    (\<lambda>j' lg. ready H (qc_Interface cfg) True lg \<and> tidy H j')"
proof (cases "os_clsact o'")
  case True
  with assms show ?thesis by (auto simp: step_clsact_def intro!: safe_ret)
next
  case False
  have "safe H (ready H (qc_Interface cfg) True)
     (run_step E ''ensure clsact''
        (execute_cmd E ''ensure clsact'' [''tc'', ''qdisc'', ''add'', ''dev'', qc_Interface cfg, ''clsact''])
        (Some (removeAddedClsact E (qc_Interface cfg))) j)
     (\<lambda>j' lg. ready H (qc_Interface cfg) True lg \<and> tidy H j')"
    by (rule safe_run_step [OF safe_execute])
      (use assms in \<open>auto simp: ready_def intro!: safe_undoI safe_removeAddedClsact\<close>)
  with False show ?thesis by (simp add: step_clsact_def)
qed

lemma safe_step_redirect:
  assumes "tidy H j" and "H = qe_hexsum E"
  shows "safe H (ready H (qc_Interface cfg) True) (step_redirect E cfg o' j)
    (\<lambda>j' lg. ready H (qc_Interface cfg) True lg \<and> tidy H j')"
  unfolding step_redirect_def Let_def
  by (rule safe_run_step [OF safe_execute])
    (use assms in \<open>auto simp: ready_def intro!: allowed_redirect safe_undoI safe_restoreRedirect safe_removeManagedRedirect\<close>)

lemma safe_applyWithOwnership:
  assumes "\<not> qe_dry E" and "H = qe_hexsum E"
  shows "safe H (ready H (qc_Interface cfg) (os_ifbExists o')) (applyWithOwnership E cfg o' op) (\<lambda>_. careful H)"
  unfolding applyWithOwnership_def
  by (rule safe_andthen [OF safe_step_egress], use assms in simp_all, rule safe_assume,
      rule safe_andthen [OF safe_step_create_ifb], simp_all, rule safe_assume,
      rule safe_andthen [OF safe_step_ifb_up], simp_all, rule safe_assume,
      rule safe_andthen [OF safe_step_ingress], simp_all, rule safe_assume,
      rule safe_andthen [OF safe_step_clsact], simp_all, rule safe_assume,
      rule safe_andthen [OF safe_step_redirect], simp_all)
    (auto intro!: safe_ret simp: ready_def)

subsection \<open>Removing the chain\<close>

lemma safe_removal:
  assumes "safe H (careful H) m (\<lambda>_. careful H)" and "safe H (careful H) u (\<lambda>_. careful H)" and "tidy H j"
  shows "safe H (careful H) (run_step E a m (Some u) j) (\<lambda>j' lg. careful H lg \<and> tidy H j')"
  by (rule safe_run_step) (use assms in \<open>auto intro: safe_undoI\<close>)

lemma safe_disableWithOwnership:
  assumes "\<not> qe_dry E" and H: "H = qe_hexsum E" and o': "sound_ownership o'"
  shows "safe H (careful H) (disableWithOwnership E iface o' op) (\<lambda>_. careful H)"
proof -
  have 1: "safe H (careful H) (step_unredirect E iface o' j) (\<lambda>j' lg. careful H lg \<and> tidy H j')" if "tidy H j" for j
    using that unfolding step_unredirect_def Let_def H
    by (auto intro!: safe_ret safe_removal safe_removeManagedRedirect safe_restoreRedirect)
  have 2: "safe H (careful H) (step_unegress E iface o' j) (\<lambda>j' lg. careful H lg \<and> tidy H j')" if "tidy H j" for j
    using that o' unfolding step_unegress_def
    by (auto intro!: safe_ret safe_removal safe_removeRootMatching safe_restoreDeletedRoot simp: sound_ownership_def)
  have last: "safe H (careful H) (if b then run_step E ''remove IFB'' (removeIFBIfUnclaimed E ifb ''remove IFB'')
      (Some (restoreIFB E ifb (os_ifbUp o'))) j else ret j) (\<lambda>j' lg. careful H lg \<and> tidy H j')"
    if "tidy H j" for b j ifb
    using that assms(1) by (auto intro!: safe_ret safe_removal safe_removeIFBIfUnclaimed safe_restoreIFB)
  have 3: "safe H (careful H) (step_uningress E iface o' j) (\<lambda>j' lg. careful H lg \<and> tidy H j')" if j: "tidy H j" for j
  proof (cases "os_ingressOwned o'")
    case True
    then have "our_signature (os_ingressSignature o')" using o' by (simp add: sound_ownership_def)
    then have "safe H (careful H) (run_step E ''remove ingress CAKE''
        (removeRootMatching E (IFBName H iface) (os_ingressSignature o'))
        (Some (restoreDeletedRoot E (IFBName H iface) (os_ingressOutput o') (os_ingressSignature o'))) j)
        (\<lambda>j' lg. careful H lg \<and> tidy H j')"
      using j by (auto intro!: safe_removal safe_removeRootMatching safe_restoreDeletedRoot)
    then have "safe H (careful H) (andthen (run_step E ''remove ingress CAKE''
        (removeRootMatching E (IFBName H iface) (os_ingressSignature o'))
        (Some (restoreDeletedRoot E (IFBName H iface) (os_ingressOutput o') (os_ingressSignature o'))) j)
        (\<lambda>j. if os_redirectOwned o' \<or> \<not> os_filterPresent o'
             then run_step E ''remove IFB'' (removeIFBIfUnclaimed E (IFBName H iface) ''remove IFB'')
                    (Some (restoreIFB E (IFBName H iface) (os_ifbUp o'))) j else ret j))
        (\<lambda>j' lg. careful H lg \<and> tidy H j')"
      by (rule safe_andthen) (rule safe_assume, rule last)
    with True show ?thesis by (simp add: step_uningress_def Let_def H [symmetric])
  next
    case False
    with j show ?thesis by (auto simp: step_uningress_def Let_def intro!: safe_ret)
  qed
  show ?thesis
    unfolding disableWithOwnership_def
    by (rule safe_andthen [OF 1], simp, rule safe_assume, rule safe_andthen [OF 2], assumption, rule safe_assume,
        rule safe_andthen [OF 3], assumption)
      (auto intro!: safe_ret)
qed

lemma inspected_careful: "inspected H iface o' lg \<Longrightarrow> careful H lg"
  by (simp add: inspected_def)

lemma safe_applyFromOwnership:
  assumes "\<not> qe_dry E" and "H = qe_hexsum E" and "sound_ownership o'" and "validateApplyOwnership cfg o'"
  shows "safe H (inspected H (qc_Interface cfg) o') (applyFromOwnership E cfg o' op) (\<lambda>_. careful H)"
proof (cases "qc_Enabled cfg")
  case True
  have "safe H (inspected H (qc_Interface cfg) o') (applyWithOwnership E cfg o' op) (\<lambda>_. careful H)"
    by (rule safe_weaken [OF safe_applyWithOwnership [OF assms(1,2)]])
      (use assms True in \<open>auto intro: validated_ready\<close>)
  with True show ?thesis by (simp add: applyFromOwnership_def)
next
  case False
  have "safe H (inspected H (qc_Interface cfg) o') (disableWithOwnership E (qc_Interface cfg) o' op) (\<lambda>_. careful H)"
    by (rule safe_weaken [OF safe_disableWithOwnership [OF assms(1,2,3)]]) (auto intro: inspected_careful)
  with False show ?thesis by (simp add: applyFromOwnership_def)
qed

lemma safe_qos_apply:
  assumes "\<not> qe_dry E" and "H = qe_hexsum E"
  shows "safe H (careful H) (qos_apply E cfg) (\<lambda>_. careful H)"
  unfolding qos_apply_def
  by (rule safe_andthen [OF safe_inspect [OF assms(2)]], rule safe_assume, rule safe_if)
    (use assms in \<open>auto intro!: safe_fail safe_applyFromOwnership intro: inspected_careful\<close>)

subsection \<open>Around the chain\<close>

text \<open>An operation that asks the executor nothing and only drops rows of the table, or adds the product's own.\<close>

definition quiet :: "('k, 'a) qop \<Rightarrow> bool" where
  "quiet m \<longleftrightarrow>
     (\<forall>s. qs_log (fst (m s)) = qs_log s
        \<and> (list_all our_lease (qs_leases s) \<longrightarrow> list_all our_lease (qs_leases (fst (m s)))))"

lemma safe_quiet:
  assumes "quiet m" and "\<And>lg. p lg \<Longrightarrow> careful H lg"
  shows "safe H p m (\<lambda>_. p)"
  by (rule safeI) (use assms in \<open>fastforce simp: quiet_def\<close>)

lemma quiet_ret [simp]: "quiet (ret x)" and quiet_fail [simp]: "quiet (fail e)"
  by (simp_all add: quiet_def ret_def fail_def)

lemma quiet_clear [simp]: "quiet (clearOperation E op iface)"
  by (auto simp: quiet_def clearOperation_def ClearQoSOperationLease_def store_call_def Let_def ret_def list_all_iff)

lemma quiet_pending [simp]: "quiet (operationPending E op)"
  by (auto simp: quiet_def operationPending_def ListQoSOperationLeases_def andthen_def store_call_def Let_def ret_def
      split: sum.splits prod.splits)

lemma quiet_failed [simp]: "quiet (failed_operation E op iface e :: ('k, 'a) qop)"
proof -
  have q: "qs_log (fst (clearOperation E op iface s)) = qs_log s
     \<and> (list_all our_lease (qs_leases s) \<longrightarrow> list_all our_lease (qs_leases (fst (clearOperation E op iface s))))"
    for s :: "'k qos"
    using quiet_clear [unfolded quiet_def] by blast
  show ?thesis
    unfolding quiet_def
  proof
    fix s :: "'k qos"
    obtain s' r where c: "clearOperation E op iface s = (s', r)" by (cases "clearOperation E op iface s")
    show "qs_log (fst ((failed_operation E op iface e :: ('k, 'a) qop) s)) = qs_log s
      \<and> (list_all our_lease (qs_leases s)
           \<longrightarrow> list_all our_lease (qs_leases (fst ((failed_operation E op iface e :: ('k, 'a) qop) s))))"
      using q [of s] c
      by (auto simp: failed_operation_def clearCompensatedOperation_def andthen_def fail_def split: sum.splits)
  qed
qed

lemma our_exported:
  assumes "our_signature sig"
  shows "pred_option our_cake (exportedCakeSignature sig)"
  using assms
  by (auto simp: exportedCakeSignature_def our_cake_def our_signature_def cakeRootSignature_def no_signature_def)

lemma our_new_lease:
  assumes "inspected H iface o' lg" and "sound_ownership o'"
  shows "our_lease (new_lease E n target recovery intent o')"
  using assms our_exported [of "os_egressSignature o'"] our_exported [of "os_ingressSignature o'"]
  by (auto simp: inspected_def sound_ownership_def our_lease_def new_lease_def)

lemma safe_begin:
  assumes "sound_ownership o'"
  shows "safe H (inspected H iface o') (beginOperation E target recovery intent o') (\<lambda>_. inspected H iface o')"
proof (rule safeI)
  fix s s' r
  assume s: "inspected H iface o' (qs_log s)" "list_all our_lease (qs_leases s)"
    and eq: "beginOperation E target recovery intent o' s = (s', r)"
  note ours = our_new_lease [OF s(1) assms, of E "qs_calls s" target recovery intent]
  show "list_all our_lease (qs_leases s') \<and> (\<forall>e. r = Inl e \<longrightarrow> careful H (qs_log s'))
      \<and> (\<forall>x. r = Inr x \<longrightarrow> inspected H iface o' (qs_log s'))"
    using eq s ours inspected_careful [OF s(1)]
    by (auto simp: beginOperation_def SaveQoSOperationLease_def store_call_def Let_def fail_def
        split: if_splits prod.splits sum.splits)
qed

definition handle :: "('k, 'a) qop \<Rightarrow> (qos_error \<Rightarrow> ('k, 'b) qop) \<Rightarrow> ('a \<Rightarrow> ('k, 'b) qop) \<Rightarrow> ('k, 'b) qop" where
  "handle m f g s = (case m s of (s', Inl e) \<Rightarrow> f e s' | (s', Inr x) \<Rightarrow> g x s')"

lemma safe_handle:
  assumes m: "safe H p m q" and f: "\<And>e. safe H (careful H) (f e) r" and g: "\<And>x. safe H (q x) (g x) r"
  shows "safe H p (handle m f g) r"
proof (rule safeI)
  fix s s' o'
  assume s: "p (qs_log s)" "list_all our_lease (qs_leases s)" and eq: "handle m f g s = (s', o')"
  obtain s1 r1 where m1: "m s = (s1, r1)" by (cases "m s")
  note D = safeD [OF m s m1]
  show "list_all our_lease (qs_leases s') \<and> (\<forall>e. o' = Inl e \<longrightarrow> careful H (qs_log s'))
      \<and> (\<forall>x. o' = Inr x \<longrightarrow> r x (qs_log s'))"
  proof (cases r1)
    case (Inl e)
    then have "f e s1 = (s', o')" using eq m1 by (simp add: handle_def)
    from safeD [OF f D(2) [OF Inl] D(1) this] show ?thesis by blast
  next
    case (Inr x)
    then have "g x s1 = (s', o')" using eq m1 by (simp add: handle_def)
    from safeD [OF g D(3) [OF Inr] D(1) this] show ?thesis by blast
  qed
qed

lemma applyDurable_handled:
  "applyDurable E target recovery intent =
     andthen (inspectOwnership E (qc_Interface target)) (\<lambda>o'.
       if \<not> validateApplyOwnership target o' then fail OwnershipNotEstablished
       else andthen (beginOperation E target recovery intent o') (\<lambda>op.
         handle (applyFromOwnership E target o' op) (failed_operation E op (qc_Interface target))
           (\<lambda>state. handle (clearOperation E op (qc_Interface target))
              (\<lambda>e. fail (wrap ''clear QoS operation lease'' e)) (\<lambda>_. ret state))))"
  unfolding applyDurable_def handle_def [abs_def] fail_def [abs_def] ret_def [abs_def] by simp

lemma safe_applyDurable:
  assumes "\<not> qe_dry E" and "H = qe_hexsum E"
  shows "safe H (careful H) (applyDurable E target recovery intent) (\<lambda>_. careful H)"
proof -
  have rest: "safe H (inspected H (qc_Interface target) o') (andthen (beginOperation E target recovery intent o') (\<lambda>op.
         handle (applyFromOwnership E target o' op) (failed_operation E op (qc_Interface target))
           (\<lambda>state. handle (clearOperation E op (qc_Interface target))
              (\<lambda>e. fail (wrap ''clear QoS operation lease'' e)) (\<lambda>_. ret state)))) (\<lambda>_. careful H)"
    if "sound_ownership o'" and "validateApplyOwnership target o'" for o'
    by (rule safe_andthen [OF safe_begin [OF that(1)]],
        rule safe_handle [OF safe_applyFromOwnership [OF assms that]],
        rule safe_weaken [OF safe_quiet [where p = "careful H"]], simp_all,
        rule safe_handle [OF safe_quiet [where p = "careful H"]])
      (auto intro!: safe_fail safe_ret)
  show ?thesis
    unfolding applyDurable_handled
    by (rule safe_andthen [OF safe_inspect [OF assms(2)]], rule safe_assume, rule safe_if)
      (auto intro!: safe_fail rest intro: inspected_careful)
qed

text \<open>What the callers pass in: a load asks the executor nothing, and neither does a persistence.\<close>

lemma safe_applyAndPersistLocked:
  assumes "\<not> qe_dry E" and H: "H = qe_hexsum E" and persist: "\<And>op. quiet (persist op)"
  shows "safe H (careful H) (applyAndPersistLocked E cfg rollback0 persist) (\<lambda>_. careful H)"
proof -
  have roll: "safe H (careful H) (rollback_persist E cfg rollback op e) (\<lambda>_. careful H)" for rollback op e
  proof -
    have "rollback_persist E cfg rollback op e =
        handle (qos_apply E rollback) (\<lambda>_. fail CompensationFailed)
          (\<lambda>_. handle (clearOperation E op (qc_Interface cfg)) (\<lambda>_. fail CompensationFailed)
             (\<lambda>_. fail (wrap ''persist QoS'' e)))"
      unfolding rollback_persist_def [abs_def] handle_def [abs_def] fail_def [abs_def] by simp
    moreover have "safe H (careful H) \<dots> (\<lambda>_. careful H)"
      by (rule safe_handle [OF safe_qos_apply [OF assms(1,2)]], rule safe_fail, assumption,
          rule safe_handle [OF safe_quiet [where p = "careful H"]])
        (auto intro!: safe_fail)
    ultimately show ?thesis by simp
  qed
  have verify: "safe H (careful H) (verify_cleared E op state) (\<lambda>_. careful H)" for op state
    unfolding verify_cleared_def
    by (rule safe_if, rule safe_andthen [OF safe_quiet [where p = "careful H"]]) (auto intro!: safe_rules)
  have inner: "safe H (inspected H (qc_Interface cfg) o') (\<lambda>s. case applyFromOwnership E cfg o' op s of
        (s', Inl err) \<Rightarrow> failed_operation E op (qc_Interface cfg) err s'
      | (s', Inr state) \<Rightarrow> (case persist op s' of (s'', Inl err) \<Rightarrow> rollback_persist E cfg rollback op err s''
           | (s'', Inr _) \<Rightarrow> verify_cleared E op state s'')) (\<lambda>_. careful H)"
    if "sound_ownership o'" and "validateApplyOwnership cfg o'" for o' op rollback
  proof -
    have "safe H (inspected H (qc_Interface cfg) o') (handle (applyFromOwnership E cfg o' op)
        (failed_operation E op (qc_Interface cfg))
        (\<lambda>state. handle (persist op) (rollback_persist E cfg rollback op) (\<lambda>_. verify_cleared E op state))) (\<lambda>_. careful H)"
      by (rule safe_handle [OF safe_applyFromOwnership [OF assms(1,2) that]],
          rule safe_weaken [OF safe_quiet [where p = "careful H"]], simp_all,
          rule safe_handle [OF safe_quiet [where p = "careful H"]])
        (auto intro!: roll verify persist)
    then show ?thesis unfolding handle_def [abs_def] .
  qed
  show ?thesis
    unfolding applyAndPersistLocked_def Let_def
    by (rule safe_if, rule safe_fail, assumption,
        rule safe_andthen [OF safe_inspect [OF H]], rule safe_assume, rule safe_if)
      (auto intro!: safe_fail safe_andthen [OF safe_begin] inner intro: inspected_careful)
qed

subsection \<open>The fault of the stress test\<close>

lemma safe_applyNetem:
  assumes "\<not> qe_dry E" and H: "H = qe_hexsum E"
  shows "safe H (careful H) (applyNetem E iface fault) (\<lambda>_. careful H)"
proof -
  define p where "p = (\<lambda>lg. careful H lg \<and> settled iface lg)"
  have step: "safe H p (andthen (run_step E ''apply stress-test netem''
               (execute_cmd E ''apply stress-test netem'' (netem_replace iface (nf_DelayMs fault) (nf_LossPct fault)))
               (Some (restoreRoot E iface (os_egressOutput o') (netemRootSignature fault) (os_egressSignature o')))
               (newMutationJournal [])) (\<lambda>_. ret ())) (\<lambda>_. careful H)" for o'
    by (rule safe_andthen [OF safe_run_step [where q = "careful H", OF safe_execute]])
      (use assms in \<open>auto simp: p_def intro!: allowed_netem safe_undoI safe_restoreRoot safe_ret\<close>)
  have root: "p lg" if "inspected H iface o' lg \<and> sound_ownership o'"
    "\<not> (case rootQdisc (os_egressOutput o') of None \<Rightarrow> False
         | Some qd \<Rightarrow> \<not> isReplaceableInitialRoot qd \<and> \<not> os_chainOwned o')" "\<not> os_ingressForeign o'" for o' lg
  proof -
    have "replaceable (os_egressOutput o')"
      using that(1,2) by (auto simp: inspected_def replaceable_def split: option.splits)
    with that(1,3) show ?thesis by (auto simp: inspected_def sound_ownership_def p_def)
  qed
  show ?thesis
    unfolding applyNetem_def
    by (rule safe_if, rule safe_fail, assumption,
        rule safe_andthen [OF safe_inspect [OF H]], rule safe_if, rule safe_fail, blast intro: inspected_careful,
        rule safe_if, rule safe_fail, blast intro: inspected_careful)
      (rule safe_weaken [OF step], auto intro: root)
qed

lemma behind_netem:
  assumes "owned_behind_netem fault o' = Some o1" and "inspected H iface o' lg"
  shows "sound_ownership o1" and "os_egressSignature o1 = netemRootSignature fault"
    and "os_ifbExists o1 \<and> \<not> os_ingressOwned o1 \<Longrightarrow> settled (IFBName H iface) lg"
    and "\<not> os_redirectOwned o1 \<Longrightarrow> redirect_settled H iface lg"
proof -
  obtain isig im where g: "linkGuardCakeRootSignature (os_ingressOutput o') managedIngressHandle ''dual-dsthost'' True = (isig, im)"
    by (cases "linkGuardCakeRootSignature (os_ingressOutput o') managedIngressHandle ''dual-dsthost'' True")
  from assms(1) g have nm: "sig_matches (netemRootSignature fault) (os_egressOutput o')"
    and fp: "os_filterPresent o' = os_redirectMatches o'" and im: "hasRootQdisc (os_ingressOutput o') = im"
    and o1: "o1 = o'\<lparr>os_egressOwned := True, os_egressForeign := False,
                     os_egressSignature := netemRootSignature fault, os_ingressOwned := im,
                     os_ingressForeign := False, os_ingressSignature := isig,
                     os_redirectOwned := os_redirectMatches o', os_chainOwned := True\<rparr>"
    by (auto simp: owned_behind_netem_def split: if_splits)
  have re: "replaceable (os_egressOutput o')" by (rule ours_replaceable [OF _ nm]) simp
  have ri: "replaceable (os_ingressOutput o')"
    using g im by (cases im) (auto simp: replaceable_def hasRootQdisc_def)
  have "im \<Longrightarrow> our_signature isig" using linkGuard_ours [of "os_ingressOutput o'" _ _ _ isig] g by auto
  with re ri show "sound_ownership o1" by (auto simp: sound_ownership_def o1)
  show "os_egressSignature o1 = netemRootSignature fault" by (simp add: o1)
  show "settled (IFBName H iface) lg" if "os_ifbExists o1 \<and> \<not> os_ingressOwned o1"
    using that ri assms(2) by (auto simp: o1 inspected_def)
  show "redirect_settled H iface lg" if "\<not> os_redirectOwned o1"
    using that fp assms(2) by (auto simp: o1 inspected_def)
qed

text \<open>What is known while the fault is being removed.\<close>

definition standing :: "(string \<Rightarrow> string) \<Rightarrow> string \<Rightarrow> ownershipState \<Rightarrow> qos_event list \<Rightarrow> bool" where
  "standing H iface o1 lg \<longleftrightarrow>
     careful H lg \<and> (os_ifbExists o1 \<and> \<not> os_ingressOwned o1 \<longrightarrow> settled (IFBName H iface) lg)
     \<and> (\<not> os_redirectOwned o1 \<longrightarrow> redirect_settled H iface lg)"

lemma settled_Ran: "settled dev lg \<Longrightarrow> settled dev (Ran cmd r # lg)"
  by (cases r) simp_all

lemma safe_removeRoot_standing:
  assumes "our_signature expected"
  shows "safe H (standing H iface o1) (removeRootMatching E iface expected) (\<lambda>_. standing H iface o1)"
proof -
  define p where "p = (\<lambda>out lg. careful H lg \<and> just_shown (qdisc_show iface) (\<lambda>x. x = out) lg
     \<and> (replaceable out \<longrightarrow> standing H iface o1 lg))"
  have r: "safe H (standing H iface o1) (read E (qdisc_show iface)) p"
    by (rule safe_ask_read) (auto simp: standing_def p_def just_shown_def)
  have d: "safe H (p out) (delete_cmd E a (root_del iface)) (\<lambda>_. standing H iface o1)"
    if "sig_matches expected out" for out a
    using ours_shown [OF assms that] ours_replaceable [OF assms that]
    by (intro safe_delete)
      (auto simp: p_def standing_def just_shown_def intro!: allowed_root_del settled_Ran
        split: list.splits qos_event.splits sum.splits)
  show ?thesis
    unfolding removeRootMatching_def
    by (rule safe_andthen [OF r], rule safe_if, rule safe_ret, simp add: p_def replaceable_def,
        rule safe_if, rule safe_fail, simp add: p_def, rule d, simp)
qed

lemma safe_recheck:
  assumes H: "H = qe_hexsum E" and o1: "sound_ownership o1"
  shows "safe H (standing H iface o1) (recheck_after_netem E iface o1) (\<lambda>_. ready H iface (os_ifbExists o1))"
proof -
  let ?ifb = "IFBName H iface"
  define k1 where "k1 = (\<lambda>lg. standing H iface o1 lg \<and> settled iface lg)"
  define k2 where "k2 = (\<lambda>lg. k1 lg \<and> (os_ifbExists o1 \<longrightarrow> settled ?ifb lg))"
  have r1: "safe H (standing H iface o1) (read E (qdisc_show iface))
      (\<lambda>out lg. careful H lg \<and> (replaceable out \<longrightarrow> k1 lg))"
    by (rule safe_ask_read) (auto simp: standing_def k1_def)
  have r2: "safe H k1 (read E (qdisc_show ?ifb))
      (\<lambda>out lg. careful H lg \<and> (sig_matches (os_ingressSignature o1) out \<longrightarrow> k2 lg))" if "os_ingressOwned o1"
  proof (rule safe_ask_read)
    have rep: "sig_matches (os_ingressSignature o1) out \<Longrightarrow> replaceable out" for out
      using that o1 ours_replaceable by (auto simp: sound_ownership_def)
    show "careful H (Shown (qdisc_show ?ifb) (Inr out) # lg) \<and>
        (sig_matches (os_ingressSignature o1) out \<longrightarrow> k2 (Shown (qdisc_show ?ifb) (Inr out) # lg))" if "k1 lg" for out lg
      using that rep [of out] by (auto simp: k1_def k2_def standing_def)
  qed (simp add: k1_def standing_def)
  have s2: "safe H k1 (if os_ingressOwned o1 then andthen (read E (qdisc_show ?ifb)) (\<lambda>currentIngress.
       if \<not> sig_matches (os_ingressSignature o1) currentIngress then fail OwnershipNotEstablished else ret ())
       else ret ()) (\<lambda>_. k2)"
    by (rule safe_if, rule safe_andthen [OF r2], assumption, rule safe_if, rule safe_fail, simp, rule safe_ret, simp,
        rule safe_ret) (auto simp: k1_def k2_def standing_def)
  have r3: "safe H k2 (read E (redirect_show iface))
      (\<lambda>out lg. careful H lg \<and> (hasManagedRedirect out ?ifb \<longrightarrow> ready H iface (os_ifbExists o1) lg))"
    by (rule safe_ask_read) (auto simp: k1_def k2_def standing_def ready_def own_redirect_def)
  have s3: "safe H k2 (if os_redirectOwned o1 then andthen (read E (redirect_show iface)) (\<lambda>currentRedirect.
       if \<not> hasManagedRedirect currentRedirect ?ifb then fail OwnershipNotEstablished else ret ())
       else ret ()) (\<lambda>_. ready H iface (os_ifbExists o1))"
    by (rule safe_if, rule safe_andthen [OF r3], rule safe_if, rule safe_fail, simp, rule safe_ret, simp,
        rule safe_ret) (auto simp: k1_def k2_def standing_def ready_def)
  show ?thesis
    unfolding recheck_after_netem_def Let_def H [symmetric]
    by (rule safe_andthen [OF r1], rule safe_if, rule safe_fail, simp,
        rule safe_weaken [where p = k1, OF safe_andthen [OF s2 safe_andthen [OF s3]]])
      (auto intro!: safe_ret simp: replaceable_def split: option.splits)
qed

lemma safe_reapply:
  assumes d: "\<not> qe_dry E" and H: "H = qe_hexsum E" and o1: "sound_ownership o1"
  shows "safe H (standing H (qc_Interface cfg) o1) (reapply_after_netem E cfg o1) (\<lambda>_. careful H)"
proof -
  let ?o2 = "\<lambda>egress. o1\<lparr>os_egressOutput := egress, os_egressOwned := False, os_egressForeign := False\<rparr>"
  have undo: "safe H (careful H) (repairNetem E iface o2 e) (\<lambda>_ :: qos_state. careful H)" for iface o2 e
    unfolding repairNetem_def by (rule safe_repair) (simp add: safe_undo_def safe_restoreDeletedRoot)
  have eq: "reapply_after_netem E cfg o1 = handle (recheck_after_netem E (qc_Interface cfg) o1)
      (repairNetem E (qc_Interface cfg) o1)
      (\<lambda>egress. handle (applyWithOwnership E cfg (?o2 egress) []) (repairNetem E (qc_Interface cfg) (?o2 egress)) ret)"
    unfolding reapply_after_netem_def [abs_def] handle_def [abs_def] ret_def [abs_def]
    by (auto simp: fun_eq_iff split: prod.splits sum.splits)
  have app: "safe H (ready H (qc_Interface cfg) (os_ifbExists o1)) (applyWithOwnership E cfg (?o2 egress) []) (\<lambda>_. careful H)"
    for egress using safe_applyWithOwnership [OF d H, of cfg "?o2 egress" "[]"] by simp
  show ?thesis
    unfolding eq
    by (rule safe_handle [OF safe_recheck [OF H o1] undo], rule safe_handle [OF app undo], rule safe_ret)
qed

lemma safe_restoreAfterNetem:
  assumes d: "\<not> qe_dry E" and H: "H = qe_hexsum E"
  shows "safe H (careful H) (restoreAfterNetem E cfg fault) (\<lambda>_. careful H)"
proof -
  have app: "safe H (inspected H (qc_Interface cfg) o') (qos_apply E cfg) (\<lambda>_. careful H)" for o'
    by (rule safe_weaken [OF safe_qos_apply [OF d H]]) (auto intro: inspected_careful)
  have behind: "safe H (inspected H (qc_Interface cfg) o')
      (if \<not> qc_Enabled cfg then disableWithOwnership E (qc_Interface cfg) o1 []
       else andthen (removeRootMatching E (qc_Interface cfg) (os_egressSignature o1)) (\<lambda>_. reapply_after_netem E cfg o1))
      (\<lambda>_. careful H)" if some: "owned_behind_netem fault o' = Some o1" for o' o1
  proof (cases "\<exists>lg. inspected H (qc_Interface cfg) o' lg")
    case False
    then show ?thesis by (auto simp: safe_def)
  next
    case True
    then obtain lg0 where i0: "inspected H (qc_Interface cfg) o' lg0" by blast
    note b = behind_netem [OF some i0]
    have st: "standing H (qc_Interface cfg) o1 lg" if "inspected H (qc_Interface cfg) o' lg" for lg
      using behind_netem [OF some that] inspected_careful [OF that] by (auto simp: standing_def)
    have "our_signature (os_egressSignature o1)" by (simp add: b(2))
    then have "safe H (standing H (qc_Interface cfg) o1)
      (andthen (removeRootMatching E (qc_Interface cfg) (os_egressSignature o1)) (\<lambda>_. reapply_after_netem E cfg o1))
      (\<lambda>_. careful H)"
      by (rule safe_andthen [OF safe_removeRoot_standing safe_reapply [OF d H b(1)]])
    then have 1: "safe H (inspected H (qc_Interface cfg) o')
      (andthen (removeRootMatching E (qc_Interface cfg) (os_egressSignature o1)) (\<lambda>_. reapply_after_netem E cfg o1))
      (\<lambda>_. careful H)"
      by (rule safe_weaken) (auto intro: st)
    have 2: "safe H (inspected H (qc_Interface cfg) o') (disableWithOwnership E (qc_Interface cfg) o1 []) (\<lambda>_. careful H)"
      by (rule safe_weaken [OF safe_disableWithOwnership [OF d H b(1)]]) (auto intro: inspected_careful)
    show ?thesis using 1 2 by simp
  qed
  have off: "safe H (inspected H (qc_Interface cfg) o') (disableWithOwnership E (qc_Interface cfg) o1 []) (\<lambda>_. careful H)"
    if "owned_behind_netem fault o' = Some o1" and "\<not> qc_Enabled cfg" for o' o1
    using behind [OF that(1)] that(2) by simp
  have on: "safe H (inspected H (qc_Interface cfg) o') (andthen (removeRootMatching E (qc_Interface cfg)
      (os_egressSignature o1)) (\<lambda>_. reapply_after_netem E cfg o1)) (\<lambda>_. careful H)"
    if "owned_behind_netem fault o' = Some o1" and "qc_Enabled cfg" for o' o1
    using behind [OF that(1)] that(2) by simp
  show ?thesis
    unfolding restoreAfterNetem_def
    by (rule safe_if, rule safe_fail, assumption, rule safe_andthen [OF safe_inspect [OF H]], rule safe_assume)
      (auto intro!: app off on safe_fail intro: inspected_careful split: option.split)
qed

subsection \<open>Recovery after a stop\<close>

lemma recovery_signatures_ours:
  assumes "our_lease lease" and "recoveryRootSignature output ingress lease = Inr (Some sig)"
  shows "our_signature sig"
proof -
  from assms(2) have "sig \<in> set (recoveryCakeSignatures ingress lease)"
    by (auto simp: recoveryRootSignature_def find_Some_iff in_set_conv_nth split: option.splits if_splits)
  with assms(1) show ?thesis
    by (cases "ol_BeforeEgress lease"; cases "ol_BeforeIngress lease"; cases ingress)
      (auto simp: recoveryCakeSignatures_def our_lease_def our_cake_def split: if_splits)
qed

lemma safe_recover_root:
  assumes "our_lease lease"
  shows "safe H (careful H) (recover_root E iface output ingress lease) (\<lambda>_. careful H)"
  by (auto simp: recover_root_def intro!: safe_fail safe_ret safe_removeRootMatching
      intro: recovery_signatures_ours [OF assms] split: sum.split option.split)

lemma safe_recover_ifb:
  assumes "our_lease lease" and "\<not> qe_dry E"
  shows "safe H (careful H) (recover_ifb E ifb lease) (\<lambda>_. careful H)"
  unfolding recover_ifb_def
  by (rule safe_andthen [OF safe_ifbState_careful])
    (auto intro!: safe_ret safe_andthen [OF safe_ask_read [where q = "\<lambda>_. careful H"]]
      safe_andthen [OF safe_recover_root [OF assms(1)]] safe_removeIFBIfUnclaimed [OF assms(2)])

lemma quiet_clear_lease: "quiet (ClearQoSOperationLease E op iface)"
  by (auto simp: quiet_def ClearQoSOperationLease_def store_call_def Let_def list_all_iff)

lemma safe_recoverLeaseLocked:
  assumes l: "our_lease lease" and d: "\<not> qe_dry E" and H: "H = qe_hexsum E"
  shows "safe H (careful H) (recoverLeaseLocked E lease) (\<lambda>_. careful H)"
proof -
  have conf: "safe H (careful H) (recover_configuration E ifb lease) (\<lambda>_. careful H)" for ifb
    unfolding recover_configuration_def
    by (rule safe_if, rule safe_andthen [OF safe_qos_apply [OF d H]])
      (auto intro!: safe_ret safe_execute)
  have redirect: "safe H (careful H) (if b then removeManagedRedirect E iface (IFBName H iface) else ret ()) (\<lambda>_. careful H)"
    for b iface by (auto intro!: safe_ret safe_removeManagedRedirect)
  have clsact: "safe H (careful H) (if b then removeAddedClsact E iface else ret ()) (\<lambda>_. careful H)" for b iface
    by (auto intro!: safe_ret safe_removeAddedClsact)
  show ?thesis
    unfolding recoverLeaseLocked_def Let_def H [symmetric]
    by (rule safe_andthen [OF safe_ask_read [where q = "\<lambda>_. careful H"]], simp, simp,
        rule safe_andthen [OF safe_ask_read [where q = "\<lambda>_. careful H"]], simp, simp, rule safe_if, rule safe_fail, assumption,
        rule safe_andthen [OF redirect], rule safe_andthen [OF safe_recover_root [OF l]],
        rule safe_andthen [OF safe_recover_ifb [OF l d]], rule safe_andthen [OF clsact], rule safe_andthen [OF conf],
        rule safe_quiet [OF quiet_clear_lease], assumption)
qed

subsection \<open>Histories\<close>

lemma safe_observe: "safe H (careful H) (observe_chain E iface) (\<lambda>_. careful H)"
proof (rule safeI)
  have rd: "safe H (careful H) (read E cmd) (\<lambda>_. careful H)" for cmd
    by (rule safe_ask_read) auto
  define rest where "rest = (\<lambda>state ifb. andthen (read E (qdisc_show iface)) (\<lambda>egress.
             andthen (read E (qdisc_show ifb)) (\<lambda>ingress.
             andthen (read E (redirect_show iface)) (\<lambda>redirect.
               ret (state\<lparr>st_Enabled := hasCompleteManagedChain egress ingress redirect ifb,
                          st_Mode := observedMode [egress, ingress]\<rparr> :: qos_state)))))"
  have rest: "safe H (careful H) (rest st ifb) (\<lambda>_. careful H)" for st ifb
    unfolding rest_def
    by (rule safe_andthen [OF rd], rule safe_andthen [OF rd], rule safe_andthen [OF rd], rule safe_ret)
  fix s s' r
  assume s: "careful H (qs_log s)" "list_all our_lease (qs_leases s)" and eq: "observe_chain E iface s = (s', r)"
  let ?ifb = "IFBName (qe_hexsum E) iface"
  obtain s1 r1 where m1: "read E [''ip'', ''link'', ''show'', ''dev'', ?ifb] s = (s1, r1)"
    by (cases "read E [''ip'', ''link'', ''show'', ''dev'', ?ifb] s")
  note D = safeD [OF rd s m1]
  show "list_all our_lease (qs_leases s') \<and> (\<forall>e. r = Inl e \<longrightarrow> careful H (qs_log s')) \<and> (\<forall>x. r = Inr x \<longrightarrow> careful H (qs_log s'))"
  proof (cases r1)
    case (Inl e)
    then have "s' = s1" using eq m1 by (auto simp: observe_chain_def Let_def split: qos_error.splits if_splits)
    with D(1) D(2) [OF Inl] show ?thesis by simp
  next
    case (Inr out)
    then have "rest \<lparr>st_Enabled = False, st_Interface = iface, st_IFB = ?ifb, st_Mode = [], st_DryRun = qe_dry E\<rparr> ?ifb s1
        = (s', r)"
      using eq m1 by (simp add: observe_chain_def Let_def rest_def)
    from safeD [OF rest D(3) [OF Inr] D(1) this] show ?thesis by blast
  qed
qed

text \<open>State transformers that keep the log careful and the table the product's own.\<close>

definition keeps :: "(string \<Rightarrow> string) \<Rightarrow> ('k qos \<Rightarrow> 'k qos) \<Rightarrow> bool" where
  "keeps H f \<longleftrightarrow>
     (\<forall>s. careful H (qs_log s) \<longrightarrow> list_all our_lease (qs_leases s)
        \<longrightarrow> careful H (qs_log (f s)) \<and> list_all our_lease (qs_leases (f s)))"

lemma safe_keeps: "safe H (careful H) m (\<lambda>_. careful H) \<Longrightarrow> keeps H (\<lambda>s. fst (m s))"
  by (auto simp: safe_def keeps_def split: sum.splits)

lemma keepsD:
  assumes "keeps H (\<lambda>s. fst (m s))" and "careful H (qs_log s)" and "list_all our_lease (qs_leases s)"
    and "m s = (s', r)"
  shows "careful H (qs_log s')" and "list_all our_lease (qs_leases s')"
  using assms(1) [unfolded keeps_def, rule_format, of s] assms(2-4) by simp_all

lemma keeps_recover_all:
  assumes d: "\<not> qe_dry E" and H: "H = qe_hexsum E" and "list_all our_lease leases"
  shows "keeps H (\<lambda>s. fst (recover_all E leases s))"
  using assms(3)
proof (induction leases)
  case (Cons lease leases)
  then have ih: "keeps H (\<lambda>s. fst (recover_all E leases s))" and l: "our_lease lease" by simp_all
  show ?case
    unfolding keeps_def
  proof (intro allI impI)
    fix s :: "'a qos"
    assume s: "careful H (qs_log s)" "list_all our_lease (qs_leases s)"
    obtain s1 r1 where m1: "recoverLeaseLocked E lease s = (s1, r1)" by (cases "recoverLeaseLocked E lease s")
    note k = keepsD [OF safe_keeps [OF safe_recoverLeaseLocked [OF l d H]] s m1]
    have "fst (recover_all E (lease # leases) s) = fst (recover_all E leases (if lease_Validate lease then s1 else s))"
      using m1 by (cases r1) (auto split: prod.split)
    then show "careful H (qs_log (fst (recover_all E (lease # leases) s)))
        \<and> list_all our_lease (qs_leases (fst (recover_all E (lease # leases) s)))"
      using ih [unfolded keeps_def, rule_format, of s] ih [unfolded keeps_def, rule_format, of s1] s k by simp
  qed
qed (simp add: keeps_def)

lemma keeps_RecoverInterrupted:
  assumes d: "\<not> qe_dry E" and H: "H = qe_hexsum E"
  shows "keeps H (\<lambda>s. fst (RecoverInterrupted E s))"
  unfolding keeps_def
proof (intro allI impI)
  fix s :: "'a qos"
  assume s: "careful H (qs_log s)" "list_all our_lease (qs_leases s)"
  obtain s1 r1 where m1: "ListQoSOperationLeases E s = (s1, r1)" by (cases "ListQoSOperationLeases E s")
  then have s1: "qs_log s1 = qs_log s" "qs_leases s1 = qs_leases s" "\<And>ls. r1 = Inr ls \<Longrightarrow> ls = qs_leases s"
    by (auto simp: ListQoSOperationLeases_def store_call_def Let_def split: if_splits)
  show "careful H (qs_log (fst (RecoverInterrupted E s))) \<and> list_all our_lease (qs_leases (fst (RecoverInterrupted E s)))"
  proof (cases "qe_store E")
    case False
    with s show ?thesis by (simp add: RecoverInterrupted_def)
  next
    case True
    show ?thesis
    proof (cases r1)
      case (Inl e)
      with True d m1 s s1 show ?thesis by (simp add: RecoverInterrupted_def)
    next
      case (Inr ls)
      with s1(3) s(2) have "list_all our_lease ls" by simp
      from keeps_recover_all [OF d H this, unfolded keeps_def, rule_format, of s1] s s1
      have "careful H (qs_log (fst (recover_all E ls s1))) \<and> list_all our_lease (qs_leases (fst (recover_all E ls s1)))"
        by simp
      with True d m1 Inr show ?thesis by (simp add: RecoverInterrupted_def)
    qed
  qed
qed

text \<open>A measurement runs ping, iperf3 and cat: nothing that changes the chain, and no row of the table.\<close>

definition event_program :: "qos_event \<Rightarrow> string" where
  "event_program e = (case e of Shown cmd r \<Rightarrow> hd cmd | Ran cmd r \<Rightarrow> hd cmd)"

definition measuring :: "('k qos \<Rightarrow> 'k qos \<times> phase) \<Rightarrow> bool" where
  "measuring m \<longleftrightarrow>
     (\<forall>s. qs_leases (fst (m s)) = qs_leases s
        \<and> (\<exists>events. qs_log (fst (m s)) = events @ qs_log s
             \<and> list_all (\<lambda>e. event_program e \<in> {''ping'', ''iperf3'', ''cat''}) events))"

lemma other_programs_allowed: "hd cmd \<in> {''ping'', ''iperf3'', ''cat''} \<Longrightarrow> permitted H cmd lg"
proof -
  assume p: "hd cmd \<in> {''ping'', ''iperf3'', ''cat''}"
  have "\<And>c rest. c \<in> {''tc'', ''ip''} \<Longrightarrow> cmd \<noteq> c # rest" using p by auto
  moreover have "take 4 cmd \<noteq> ''tc'' # rest" for rest using p by (cases cmd) auto
  ultimately show ?thesis by (simp add: permitted_def command_defs Let_def)
qed

lemma measuring_keeps:
  assumes "measuring m"
  shows "keeps H (\<lambda>s. fst (m s))"
proof -
  have "careful H lg \<Longrightarrow> list_all (\<lambda>e. event_program e \<in> {''ping'', ''iperf3'', ''cat''}) events \<Longrightarrow> careful H (events @ lg)"
    for events lg
  proof (induction events)
    case (Cons e events)
    then show ?case by (cases e) (auto simp: event_program_def intro!: other_programs_allowed)
  qed simp
  with assms show ?thesis unfolding measuring_def keeps_def by metis
qed

lemma keeps_benchmark_phases:
  assumes d: "\<not> qe_dry E" and H: "H = qe_hexsum E" and m: "measuring measurePhase"
  shows "keeps H (\<lambda>s. fst (benchmark_phases E cfg measurePhase c s))"
proof -
  note ap = safe_keeps [OF safe_qos_apply [OF d H]] and ob = safe_keeps [OF safe_observe]
    and ins = safe_keeps [OF safe_weaken [OF safe_inspect [OF H], where q' = "\<lambda>_. careful H"]]
    and ms = measuring_keeps [OF m]
  have conf: "keeps H (\<lambda>s. fst (configured_phase E cfg measurePhase c s))" for c
    unfolding keeps_def
  proof (intro allI impI)
    fix s :: "'a qos"
    assume s: "careful H (qs_log s)" "list_all our_lease (qs_leases s)"
    obtain s1 r1 where 1: "qos_apply E cfg s = (s1, r1)" by (cases "qos_apply E cfg s")
    note k1 = keepsD [OF ap s 1]
    obtain s2 r2 where 2: "observe_chain E (qc_Interface cfg) s1 = (s2, r2)" by (cases "observe_chain E (qc_Interface cfg) s1")
    note k2 = keepsD [OF ob k1 2]
    obtain s3 r3 where 3: "measurePhase s2 = (s3, r3)" by (cases "measurePhase s2")
    note k3 = keepsD [OF ms k2 3]
    show "careful H (qs_log (fst (configured_phase E cfg measurePhase c s)))
        \<and> list_all our_lease (qs_leases (fst (configured_phase E cfg measurePhase c s)))"
      using k1 k2 k3 1 2 3 by (cases r1; cases r2) (simp_all add: configured_phase_def Let_def)
  qed
  show ?thesis
    unfolding keeps_def
  proof (intro allI impI)
    fix s :: "'a qos"
    assume s: "careful H (qs_log s)" "list_all our_lease (qs_leases s)"
    let ?off = "off_config (qc_Interface cfg)"
    obtain s1 r1 where 1: "qos_apply E ?off s = (s1, r1)" by (cases "qos_apply E ?off s")
    note k1 = keepsD [OF ap s 1]
    obtain s2 r2 where 2: "inspectOwnership E (qc_Interface cfg) s1 = (s2, r2)"
      by (cases "inspectOwnership E (qc_Interface cfg) s1")
    have k2: "careful H (qs_log s2)" "list_all our_lease (qs_leases s2)"
      using keepsD [OF ins k1 2] inspected_careful by blast+
    obtain s3 r3 where 3: "measurePhase s2 = (s3, r3)" by (cases "measurePhase s2")
    note k3 = keepsD [OF ms k2 3]
    note k4 = conf [unfolded keeps_def, rule_format, OF k3]
    show "careful H (qs_log (fst (benchmark_phases E cfg measurePhase c s)))
        \<and> list_all our_lease (qs_leases (fst (benchmark_phases E cfg measurePhase c s)))"
      using k1 k2 k4 1 2 3 by (cases r1; cases r2) (simp_all add: benchmark_phases_def)
  qed
qed

lemma keeps_BenchmarkCurrent:
  assumes d: "\<not> qe_dry E" and H: "H = qe_hexsum E" and m: "measuring measurePhase" and load: "quiet load"
  shows "keeps H (\<lambda>s. fst (BenchmarkCurrent E iface server port load measurePhase s))"
proof -
  have locked: "keeps H (\<lambda>s. fst (benchmark_locked E cfg measurePhase c s))" for cfg c
    unfolding keeps_def
  proof (intro allI impI)
    fix s :: "'a qos"
    assume s: "careful H (qs_log s)" "list_all our_lease (qs_leases s)"
    obtain s1 r1 where 1: "inspectOwnership E (qc_Interface cfg) s = (s1, r1)"
      by (cases "inspectOwnership E (qc_Interface cfg) s")
    note k1 = safeD [OF safe_inspect [OF H] s 1]
    show "careful H (qs_log (fst (benchmark_locked E cfg measurePhase c s)))
        \<and> list_all our_lease (qs_leases (fst (benchmark_locked E cfg measurePhase c s)))"
    proof (cases r1)
      case (Inl e)
      with 1 k1(1) k1(2) [OF Inl] show ?thesis by (simp add: benchmark_locked_def)
    next
      case (Inr o')
      then have i: "inspected H (qc_Interface cfg) o' (qs_log s1)" "sound_ownership o'" using k1(3) by simp_all
      obtain s2 r2 where 2: "beginOperation E cfg cfg OperationBenchmark o' s1 = (s2, r2)"
        by (cases "beginOperation E cfg cfg OperationBenchmark o' s1")
      note k2 = safeD [OF safe_begin [OF i(2)] i(1) k1(1) 2]
      have c2: "careful H (qs_log s2)" using k2(2,3) inspected_careful by (cases r2) blast+
      define ph where "ph = benchmark_phases E cfg measurePhase (c\<lparr>cp_Restored := False\<rparr>) s2"
      have k3: "careful H (qs_log (fst ph))" "list_all our_lease (qs_leases (fst ph))"
        using keeps_benchmark_phases [OF d H m, unfolded keeps_def, rule_format, OF c2 k2(1)] by (simp_all add: ph_def)
      obtain s4 r4 where 4: "qos_apply E cfg (fst ph) = (s4, r4)" by (cases "qos_apply E cfg (fst ph)")
      note k4 = keepsD [OF safe_keeps [OF safe_qos_apply [OF d H]] k3 4]
      have k5: "careful H (qs_log (fst (clearOperation E op (qc_Interface cfg) s4)))
          \<and> list_all our_lease (qs_leases (fst (clearOperation E op (qc_Interface cfg) s4)))" for op
        using quiet_clear [of E op "qc_Interface cfg"] k4 by (simp add: quiet_def)
      have rest: "fst (benchmark_restore E cfg op ph) \<in> {s4, fst (clearOperation E op (qc_Interface cfg) s4)}" for op
        using 4 by (cases ph) (auto simp: benchmark_restore_def split: sum.splits prod.splits)
      have "careful H (qs_log (fst (benchmark_restore E cfg op ph)))
          \<and> list_all our_lease (qs_leases (fst (benchmark_restore E cfg op ph)))" for op
        using rest [of op] k4 k5 [of op] by auto
      then show ?thesis
        using 1 Inr 2 k1(1) c2 k2(1) inspected_careful [OF i(1)]
        by (cases r2) (simp_all add: benchmark_locked_def ph_def)
    qed
  qed
  show ?thesis
    unfolding keeps_def
  proof (intro allI impI)
    fix s :: "'a qos"
    assume s: "careful H (qs_log s)" "list_all our_lease (qs_leases s)"
    obtain s1 r1 where 1: "load s = (s1, r1)" by (cases "load s")
    have k1: "careful H (qs_log s1)" "list_all our_lease (qs_leases s1)"
      using load 1 s unfolding quiet_def by (metis fst_conv)+
    obtain s2 r2 where 2: "ask E [''iperf3'', ''--version''] s1 = (s2, r2)" by (cases "ask E [''iperf3'', ''--version''] s1")
    have k2: "careful H (qs_log s2)" "list_all our_lease (qs_leases s2)"
      using 2 k1 by (auto simp: ask_def split: prod.splits)
    note k3 = locked [unfolded keeps_def, rule_format, OF k2]
    show "careful H (qs_log (fst (BenchmarkCurrent E iface server port load measurePhase s)))
        \<and> list_all our_lease (qs_leases (fst (BenchmarkCurrent E iface server port load measurePhase s)))"
      using s k1 k2 k3 1 2 by (cases r1; cases r2) (simp_all add: BenchmarkCurrent_def Let_def)
  qed
qed

end
