(* ===== verification/QosLeases.thy ===== *)
theory QosLeases
  imports QosOperations
begin

text \<open>
  The lease of an operation: which rows the table holds after each operation, and what a row that stays
  behind does to the operations that follow.
\<close>

subsection \<open>Operations that keep the rows\<close>

definition rows :: "'k qos \<Rightarrow> (string \<times> string) list" where
  "rows s = map (\<lambda>l. (ol_ID l, ol_Interface l)) (qs_leases s)"

definition pending :: "string \<Rightarrow> 'k qos \<Rightarrow> bool" where
  "pending iface s \<longleftrightarrow> iface \<in> snd ` set (rows s)"

definition commands :: "'k qos \<Rightarrow> string list list" where
  "commands s = concat (map (\<lambda>e. case e of Shown _ _ \<Rightarrow> [] | Ran cmd _ \<Rightarrow> [cmd]) (qs_log s))"

definition rows_steady :: "('k, 'a) qop \<Rightarrow> bool" where
  "rows_steady m \<longleftrightarrow> (\<forall>s. rows (fst (m s)) = rows s)"

text \<open>Readings: no command, the same rows, no error that claims a failed compensation.\<close>

definition reading :: "('k, 'a) qop \<Rightarrow> bool" where
  "reading m \<longleftrightarrow>
     (\<forall>s. qs_leases (fst (m s)) = qs_leases s \<and> commands (fst (m s)) = commands s
        \<and> snd (m s) \<noteq> Inl CompensationFailed)"

named_theorems steady_rules

lemma steady_ret [steady_rules]: "rows_steady (ret x)" and steady_fail [steady_rules]: "rows_steady (fail e)"
  by (simp_all add: rows_steady_def ret_def fail_def)

lemma steady_andthen [steady_rules]:
  "rows_steady m \<Longrightarrow> (\<And>x. rows_steady (f x)) \<Longrightarrow> rows_steady (andthen m f)"
  unfolding rows_steady_def andthen_def by (auto split: prod.split sum.split) (metis fst_conv)+

lemma steady_if [steady_rules]: "rows_steady m \<Longrightarrow> rows_steady m' \<Longrightarrow> rows_steady (if b then m else m')"
  by simp

lemma steady_case_option [steady_rules]:
  "rows_steady m \<Longrightarrow> (\<And>x. rows_steady (f x)) \<Longrightarrow> rows_steady (case x of None \<Rightarrow> m | Some y \<Rightarrow> f y)"
  by (cases x) simp_all

lemma steady_case_prod [steady_rules]: "(\<And>a b. rows_steady (f a b)) \<Longrightarrow> rows_steady (case x of (a, b) \<Rightarrow> f a b)"
  by (cases x) simp

lemma steady_calls [steady_rules]:
  "rows_steady (read E cmd)" "rows_steady (execute_cmd E a cmd)" "rows_steady (delete_cmd E a cmd)" "rows_steady (ifbState E ifb)"
  "rows_steady (unclaimed_direction E ifb d)"
  by (auto simp: rows_steady_def read_def execute_cmd_def delete_cmd_def ifbState_def unclaimed_direction_def ask_def
      command_def rows_def split: prod.split sum.split qos_error.split)

lemma steady_undoing [steady_rules]:
  "rows_steady (restoreRoot E iface prev current previousManaged)"
  "rows_steady (restoreRedirect E iface ifb)"
  "rows_steady (removeRootMatching E iface expected)"
  "rows_steady (restoreDeletedRoot E iface prev previous)"
  "rows_steady (removeManagedRedirect E iface ifb)"
  "rows_steady (removeAddedClsact E iface)"
  "rows_steady (requireUnclaimedIFBState E ifb)"
  "rows_steady (restoreIFB E ifb up)"
  unfolding restoreRoot_def restoreRedirect_def removeRootMatching_def restoreDeletedRoot_def removeManagedRedirect_def
    removeAddedClsact_def requireUnclaimedIFBState_def restoreIFB_def
  by (intro steady_rules)+

lemma steady_removeIFB [steady_rules]: "rows_steady (removeIFBIfUnclaimed E ifb a)"
  unfolding removeIFBIfUnclaimed_def by (intro steady_rules)

lemma steady_inspect [steady_rules]: "rows_steady (inspectOwnership E iface)"
  unfolding inspectOwnership_def Let_def by (intro steady_rules)

lemma rows_steadyD: "rows_steady m \<Longrightarrow> m s = (s', r) \<Longrightarrow> rows s' = rows s"
  by (metis rows_steady_def fst_conv)

lemma run_all_rows: "list_all rows_steady undos \<Longrightarrow> rows (fst (run_all undos s)) = rows s"
proof (induction undos arbitrary: s)
  case (Cons u undos)
  obtain s' r where u: "u s = (s', r)" by (cases "u s")
  have "fst (run_all (u # undos) s) = fst (run_all undos s')"
    using u by (cases r) (auto split: prod.split)
  with Cons rows_steadyD [of u s s' r] u show ?case by simp
next
  case Nil
  then show ?case by simp
qed

lemma steady_repair: "list_all rows_steady undos \<Longrightarrow> rows_steady (repair undos e)"
  using run_all_rows [of "rev undos"]
  by (auto simp: rows_steady_def repair_def compensate_def split: prod.split list.split) (metis fst_conv list_all_rev)+

lemma advance_rows: "rows (fst (AdvanceQoSOperationLease E op f t s)) = rows s"
  by (auto simp: AdvanceQoSOperationLease_def store_call_def Let_def fail_def rows_def)

definition steady_journal :: "'k mutationJournal \<Rightarrow> bool" where
  "steady_journal j \<longleftrightarrow> list_all rows_steady (mj_undos j)"

lemma steady_run_step:
  assumes m: "rows_steady mutate" and j: "steady_journal j" and u: "pred_option rows_steady undo"
    and eq: "run_step E a mutate undo j s = (s', r)"
  shows "rows s' = rows s \<and> (\<forall>j'. r = Inr j' \<longrightarrow> steady_journal j')"
proof -
  define j1 where "j1 = (case undo of None \<Rightarrow> j | Some u \<Rightarrow> j\<lparr>mj_undos := mj_undos j @ [u]\<rparr>)"
  have t1: "steady_journal j1" using j u by (cases undo) (auto simp: j1_def steady_journal_def)
  obtain s1 r1 where m1: "mutate s = (s1, r1)" by (cases "mutate s")
  note k1 = rows_steadyD [OF m m1]
  show ?thesis
  proof (cases r1)
    case (Inl e)
    then have run: "repair (mj_undos j) (wrap a e) s1 = (s', r)" using eq m1 by (simp add: run_step_def)
    have "rows s' = rows s1" by (rule rows_steadyD [OF steady_repair run]) (use j in \<open>simp add: steady_journal_def\<close>)
    moreover have "\<exists>e. r = Inl e" using run by (auto simp: repair_def split: prod.splits list.splits)
    ultimately show ?thesis using k1 by auto
  next
    case (Inr x)
    show ?thesis
    proof (cases "mj_operationID j1 \<noteq> [] \<and> qe_store E \<and> \<not> qe_dry E")
      case False
      then have "s' = s1 \<and> r = Inr j1" using eq m1 Inr by (auto simp: run_step_def j1_def [symmetric] Let_def)
      with k1 t1 show ?thesis by simp
    next
      case True
      obtain s2 r2 where ad: "AdvanceQoSOperationLease E (mj_operationID j1) (mj_stage j1) (mj_stage j1 + 1) s1 = (s2, r2)"
        by (cases "AdvanceQoSOperationLease E (mj_operationID j1) (mj_stage j1) (mj_stage j1 + 1) s1")
      have k2: "rows s2 = rows s1"
        using advance_rows [of E "mj_operationID j1" "mj_stage j1" "mj_stage j1 + 1" s1] ad by simp
      show ?thesis
      proof (cases r2)
        case (Inl e)
        then have run: "repair (mj_undos j1) (wrap (''journal '' @ a) e) s2 = (s', r)"
          using eq m1 Inr True ad by (simp add: run_step_def j1_def [symmetric] Let_def)
        have "rows s' = rows s2" by (rule rows_steadyD [OF steady_repair run]) (use t1 in \<open>simp add: steady_journal_def\<close>)
        moreover have "\<exists>e. r = Inl e" using run by (auto simp: repair_def split: prod.splits list.splits)
        ultimately show ?thesis using k1 k2 by auto
      next
        case (Inr y)
        then have "s' = s2 \<and> r = Inr (j1\<lparr>mj_stage := mj_stage j1 + 1\<rparr>)"
          using eq m1 \<open>r1 = Inr x\<close> True ad by (auto simp: run_step_def j1_def [symmetric] Let_def)
        with k1 k2 t1 show ?thesis by (simp add: steady_journal_def)
      qed
    qed
  qed
qed

text \<open>A step that keeps the rows and leaves a journal whose undoing does too.\<close>

definition steady_step :: "('k, 'k mutationJournal) qop \<Rightarrow> bool" where
  "steady_step m \<longleftrightarrow>
     (\<forall>s. rows (fst (m s)) = rows s \<and> (\<forall>j. snd (m s) = Inr j \<longrightarrow> steady_journal j))"

lemma steady_step_run:
  "rows_steady mutate \<Longrightarrow> steady_journal j \<Longrightarrow> pred_option rows_steady undo \<Longrightarrow> steady_step (run_step E a mutate undo j)"
  unfolding steady_step_def
proof (intro allI)
  fix s
  assume a: "rows_steady mutate" "steady_journal j" "pred_option rows_steady undo"
  obtain s' r where eq: "run_step E a mutate undo j s = (s', r)" by (cases "run_step E a mutate undo j s")
  from steady_run_step [OF a eq] eq
  show "rows (fst (run_step E a mutate undo j s)) = rows s
      \<and> (\<forall>j'. snd (run_step E a mutate undo j s) = Inr j' \<longrightarrow> steady_journal j')" by simp
qed

lemma steady_step_ret: "steady_journal j \<Longrightarrow> steady_step (ret j)"
  by (simp add: steady_step_def ret_def)

lemma steady_step_if: "steady_step m \<Longrightarrow> steady_step m' \<Longrightarrow> steady_step (if b then m else m')"
  by simp

lemma steady_step_andthen:
  assumes "steady_step m" and "\<And>j. steady_journal j \<Longrightarrow> steady_step (f j)"
  shows "steady_step (andthen m f)"
  unfolding steady_step_def
proof
  fix s
  obtain s1 r1 where 1: "m s = (s1, r1)" by (cases "m s")
  with assms(1) have k: "rows s1 = rows s" "\<And>j. r1 = Inr j \<Longrightarrow> steady_journal j"
    unfolding steady_step_def by (metis fst_conv, metis snd_conv)
  show "rows (fst (andthen m f s)) = rows s \<and> (\<forall>j. snd (andthen m f s) = Inr j \<longrightarrow> steady_journal j)"
    using 1 k assms(2) unfolding steady_step_def by (cases r1) (simp_all add: andthen_def)
qed

lemma steady_last:
  assumes "steady_step m" and "\<And>j. steady_journal j \<Longrightarrow> rows_steady (f j)"
  shows "rows_steady (andthen m f)"
  unfolding rows_steady_def
proof
  fix s
  obtain s1 r1 where 1: "m s = (s1, r1)" by (cases "m s")
  with assms(1) have k: "rows s1 = rows s" "\<And>j. r1 = Inr j \<Longrightarrow> steady_journal j"
    unfolding steady_step_def by (metis fst_conv, metis snd_conv)
  show "rows (fst (andthen m f s)) = rows s"
    using 1 k assms(2) unfolding rows_steady_def by (cases r1) (simp_all add: andthen_def)
qed

lemma steady_journal_new [simp]: "steady_journal (newMutationJournal op)"
  by (simp add: steady_journal_def newMutationJournal_def)

lemma steady_steps:
  assumes "steady_journal j"
  shows "steady_step (step_egress E cfg o' j)" "steady_step (step_create_ifb E cfg o' j)"
    "steady_step (step_ifb_up E cfg o' j)" "steady_step (step_ingress E cfg o' j)"
    "steady_step (step_clsact E cfg o' j)" "steady_step (step_redirect E cfg o' j)"
    "steady_step (step_unredirect E iface o' j)" "steady_step (step_unegress E iface o' j)"
    "steady_step (step_uningress E iface o' j)"
  unfolding step_egress_def step_create_ifb_def step_ifb_up_def step_ingress_def step_clsact_def step_redirect_def
    step_unredirect_def step_unegress_def step_uningress_def Let_def
  using assms
  by (intro steady_step_if steady_step_run steady_step_ret steady_step_andthen steady_rules; simp add: steady_rules)+

lemma steady_apply [steady_rules]:
  "rows_steady (applyWithOwnership E cfg o' op)" "rows_steady (disableWithOwnership E iface o' op)"
  unfolding applyWithOwnership_def disableWithOwnership_def
  by (intro steady_last steady_steps steady_ret steady_journal_new; assumption)+

lemma steady_applyFromOwnership [steady_rules]: "rows_steady (applyFromOwnership E cfg o' op)"
  unfolding applyFromOwnership_def by (intro steady_rules)

lemma steady_qos_apply [steady_rules]: "rows_steady (qos_apply E cfg)"
  unfolding qos_apply_def by (intro steady_rules)

subsection \<open>Operations that only read\<close>

named_theorems reading_rules

lemma reading_ret [reading_rules]: "reading (ret x)"
  and reading_foreign [reading_rules]: "reading (fail OwnershipNotEstablished)"
  and reading_stale [reading_rules]: "reading (fail StaleInterface)"
  and reading_failure [reading_rules]: "reading (fail (Failure m))"
  by (simp_all add: reading_def ret_def fail_def)

lemma reading_andthen [reading_rules]:
  assumes m: "reading m" and f: "\<And>x. reading (f x)"
  shows "reading (andthen m f)"
  unfolding reading_def
proof
  fix s
  obtain s1 r1 where 1: "m s = (s1, r1)" by (cases "m s")
  have k: "qs_leases s1 = qs_leases s \<and> commands s1 = commands s \<and> r1 \<noteq> Inl CompensationFailed"
    using m [unfolded reading_def, rule_format, of s] 1 by simp
  show "qs_leases (fst (andthen m f s)) = qs_leases s \<and> commands (fst (andthen m f s)) = commands s
      \<and> snd (andthen m f s) \<noteq> Inl CompensationFailed"
  proof (cases r1)
    case (Inl e)
    with 1 k show ?thesis by (simp add: andthen_def)
  next
    case (Inr x)
    with 1 k f [of x, unfolded reading_def, rule_format, of s1] show ?thesis by (simp add: andthen_def)
  qed
qed

lemma reading_calls [reading_rules]: "reading (read E cmd)" "reading (ifbState E ifb)"
  by (auto simp: reading_def read_def ifbState_def ask_def commands_def split: prod.split sum.split)

lemma reading_inspect [reading_rules]: "reading (inspectOwnership E iface)"
proof -
  have branch: "reading (case x of (exists, up) \<Rightarrow>
      if \<not> exists then ret (owned_without_ifb egress redirect ifb)
      else andthen (read E (qdisc_show ifb)) (\<lambda>ingress. ret (owned_with_ifb egress redirect up ingress ifb)))"
    for x egress redirect ifb
    by (cases x) (auto intro!: reading_rules)
  show ?thesis unfolding inspectOwnership_def Let_def by (intro reading_rules branch)
qed

lemma readingD:
  assumes "reading m" and "m s = (s', r)"
  shows "rows s' = rows s" "commands s' = commands s" "r \<noteq> Inl CompensationFailed"
  using assms(1) [unfolded reading_def, rule_format, of s] assms(2) by (simp_all add: rows_def)

subsection \<open>Writing and clearing a lease\<close>

lemma begin_rows:
  assumes "qe_store E" and "\<not> qe_dry E" and eq: "beginOperation E target recovery intent o' s = (s', r)"
  shows "commands s' = commands s"
    and "r = Inl e \<Longrightarrow> rows s' = rows s \<and> e \<noteq> CompensationFailed"
    and "r = Inr op \<Longrightarrow> \<not> pending (qc_Interface target) s \<and> op \<noteq> [] \<and> op = qe_uuid E (qs_calls s)
           \<and> op \<notin> fst ` set (rows s) \<and> rows s' = rows s @ [(op, qc_Interface target)]"
proof -
  define l where "l = new_lease E (qs_calls s) target recovery intent o'"
  have id: "ol_ID l = qe_uuid E (qs_calls s)" "ol_Interface l = qc_Interface target" by (simp_all add: l_def new_lease_def)
  have dup: "list_ex (\<lambda>r. ol_ID r = ol_ID l \<or> ol_Interface r = ol_Interface l) (qs_leases s)
      \<longleftrightarrow> ol_ID l \<in> fst ` set (rows s) \<or> pending (qc_Interface target) s"
    unfolding list_ex_iff pending_def rows_def id by (simp add: image_iff) metis
  show "commands s' = commands s"
    using eq assms(1,2)
    by (auto simp: beginOperation_def l_def [symmetric] SaveQoSOperationLease_def store_call_def Let_def fail_def
        commands_def split: if_splits)
  show "rows s' = rows s \<and> e \<noteq> CompensationFailed" if "r = Inl e"
    using eq assms(1,2) that
    by (auto simp: beginOperation_def l_def [symmetric] SaveQoSOperationLease_def store_call_def Let_def fail_def
        rows_def wrap_def split: if_splits)
  show "\<not> pending (qc_Interface target) s \<and> op \<noteq> [] \<and> op = qe_uuid E (qs_calls s)
           \<and> op \<notin> fst ` set (rows s) \<and> rows s' = rows s @ [(op, qc_Interface target)]" if "r = Inr op"
  proof -
    have v: "lease_Validate l" and nd: "\<not> list_ex (\<lambda>r. ol_ID r = ol_ID l \<or> ol_Interface r = ol_Interface l) (qs_leases s)"
      and r: "op = ol_ID l" "qs_leases s' = qs_leases s @ [l]"
      using eq assms(1,2) that
      by (auto simp: beginOperation_def l_def [symmetric] SaveQoSOperationLease_def store_call_def Let_def fail_def
          split: if_splits)
    from v have "ol_ID l \<noteq> []" by (simp add: lease_Validate_def)
    with nd r show ?thesis unfolding dup by (auto simp: id rows_def)
  qed
qed

lemma clear_rows:
  assumes "qe_store E" and "\<not> qe_dry E" and "op \<noteq> []" and eq: "clearOperation E op iface s = (s', r)"
  shows "commands s' = commands s"
    and "r = Inl e \<Longrightarrow> (op, iface) \<in> set (rows s) \<Longrightarrow> rows s' = rows s \<and> qe_broken E (qs_calls s)"
    and "r = Inl e \<Longrightarrow> rows s' = rows s \<and> e \<noteq> CompensationFailed"
    and "r = Inr u \<Longrightarrow> rows s' = filter (\<lambda>x. x \<noteq> (op, iface)) (rows s)"
proof -
  have ex: "list_ex (\<lambda>r. ol_ID r = op \<and> ol_Interface r = iface) (qs_leases s) \<longleftrightarrow> (op, iface) \<in> set (rows s)"
    by (auto simp: list_ex_iff rows_def)
  have fl: "map (\<lambda>l. (ol_ID l, ol_Interface l)) (filter (\<lambda>r. \<not> (ol_ID r = op \<and> ol_Interface r = iface)) ls)
      = filter (\<lambda>x. x \<noteq> (op, iface)) (map (\<lambda>l. (ol_ID l, ol_Interface l)) ls)" for ls
    by (induction ls) auto
  have eq': "ClearQoSOperationLease E op iface s = (s', r)"
    using eq assms(1-3) by (simp add: clearOperation_def)
  show "commands s' = commands s"
    using eq' by (auto simp: ClearQoSOperationLease_def store_call_def Let_def commands_def split: if_splits)
  show "rows s' = rows s \<and> qe_broken E (qs_calls s)" if "r = Inl e" "(op, iface) \<in> set (rows s)"
    using eq' that ex by (auto simp: ClearQoSOperationLease_def store_call_def Let_def rows_def split: if_splits)
  show "rows s' = rows s \<and> e \<noteq> CompensationFailed" if "r = Inl e"
    using eq' that by (auto simp: ClearQoSOperationLease_def store_call_def Let_def rows_def split: if_splits)
  show "rows s' = filter (\<lambda>x. x \<noteq> (op, iface)) (rows s)" if "r = Inr u"
    using eq' that fl by (auto simp: ClearQoSOperationLease_def store_call_def Let_def rows_def split: if_splits)
qed

lemma failed_rows:
  assumes "qe_store E" and "\<not> qe_dry E" and "op \<noteq> []" and "(op, iface) \<in> set (rows s)"
    and eq: "failed_operation E op iface err s = (s', r)"
  shows "rows s' = rows s \<and> r = Inl CompensationFailed \<and> (err = CompensationFailed \<or> qe_broken E (qs_calls s))
         \<or> rows s' = filter (\<lambda>x. x \<noteq> (op, iface)) (rows s) \<and> r = Inl err \<and> err \<noteq> CompensationFailed"
proof (cases "err = CompensationFailed")
  case True
  with eq show ?thesis by (auto simp: failed_operation_def clearCompensatedOperation_def andthen_def fail_def)
next
  case False
  obtain s1 r1 where 1: "clearOperation E op iface s = (s1, r1)" by (cases "clearOperation E op iface s")
  note k = clear_rows [OF assms(1-3) 1]
  show ?thesis
    using eq False 1 assms(3,4) k(2) k(4)
    by (cases r1) (auto simp: failed_operation_def clearCompensatedOperation_def andthen_def fail_def)
qed

subsection \<open>A pending lease stops every operation of its interface\<close>

lemma begin_refused:
  assumes "qe_store E" and "\<not> qe_dry E" and "pending (qc_Interface target) s"
  shows "\<exists>s' m. beginOperation E target recovery intent o' s = (s', Inl m) \<and> commands s' = commands s
     \<and> rows s' = rows s \<and> m \<noteq> CompensationFailed"
proof -
  obtain s' r where eq: "beginOperation E target recovery intent o' s = (s', r)"
    by (cases "beginOperation E target recovery intent o' s")
  note b = begin_rows [OF assms(1,2) eq]
  show ?thesis using eq b assms(3) by (cases r) auto
qed

lemma durable_refused:
  assumes "qe_store E" and "\<not> qe_dry E" and "pending (qc_Interface target) s"
  shows "\<exists>s' e. applyDurable E target recovery intent s = (s', Inl e) \<and> commands s' = commands s \<and> rows s' = rows s"
proof -
  obtain s1 r1 where 1: "inspectOwnership E (qc_Interface target) s = (s1, r1)"
    by (cases "inspectOwnership E (qc_Interface target) s")
  note k1 = readingD [OF reading_inspect 1]
  have p: "pending (qc_Interface target) s1" using assms(3) k1(1) by (simp add: pending_def)
  show ?thesis
  proof (cases r1)
    case (Inl e)
    with 1 k1 show ?thesis by (simp add: applyDurable_def andthen_def)
  next
    case (Inr o')
    show ?thesis
    proof (cases "validateApplyOwnership target o'")
      case False
      with 1 Inr k1 show ?thesis by (simp add: applyDurable_def andthen_def fail_def)
    next
      case True
      obtain s2 m where "beginOperation E target recovery intent o' s1 = (s2, Inl m)" "commands s2 = commands s1"
        "rows s2 = rows s1"
        using begin_refused [OF assms(1,2) p, of recovery intent o'] by blast
      with 1 Inr True k1 show ?thesis by (simp add: applyDurable_def andthen_def)
    qed
  qed
qed

lemma current_refused:
  assumes "qe_store E" and "\<not> qe_dry E" and "pending iface s" and "reading load"
  shows "\<exists>s' e. ApplyCurrent E iface load s = (s', Inl e) \<and> commands s' = commands s \<and> rows s' = rows s"
proof (cases "config_Validate (off_config iface)")
  case False
  then show ?thesis by (simp add: ApplyCurrent_def fail_def)
next
  case True
  obtain s1 r1 where 1: "load s = (s1, r1)" by (cases "load s")
  note k1 = readingD [OF assms(4) 1]
  show ?thesis
  proof (cases r1)
    case (Inl e)
    with 1 True k1 show ?thesis by (simp add: ApplyCurrent_def andthen_def)
  next
    case (Inr cfg)
    show ?thesis
    proof (cases "qc_Interface cfg = iface \<and> config_Validate cfg")
      case False
      with 1 Inr True k1 show ?thesis by (auto simp: ApplyCurrent_def andthen_def fail_def)
    next
      case ok: True
      then have "pending (qc_Interface cfg) s1" using assms(3) k1(1) by (simp add: pending_def)
      from durable_refused [OF assms(1,2) this, of cfg "operationIntent cfg"]
      obtain s2 e where "applyDurable E cfg cfg (operationIntent cfg) s1 = (s2, Inl e)" "commands s2 = commands s1"
        "rows s2 = rows s1" by blast
      with 1 Inr True ok k1 show ?thesis by (simp add: ApplyCurrent_def andthen_def)
    qed
  qed
qed

subsection \<open>What the table says after an operation\<close>

lemma pending_filter: "\<not> pending iface s \<Longrightarrow> rows s' = filter (\<lambda>x. x \<noteq> (op, iface)) (rows s @ [(op, iface)])
    \<Longrightarrow> \<not> pending iface s'"
  by (auto simp: pending_def)

text \<open>After the lease is written, the operation and what its end does to the lease.\<close>

lemma durable_outcome:
  assumes st: "qe_store E" "\<not> qe_dry E" and fine: "\<And>n. \<not> qe_broken E n"
    and free: "\<not> pending (qc_Interface target) s"
    and eq: "applyDurable E target recovery intent s = (s', r)"
  shows "pending (qc_Interface target) s' \<longleftrightarrow> r = Inl CompensationFailed"
proof -
  let ?i = "qc_Interface target"
  obtain s1 r1 where 1: "inspectOwnership E ?i s = (s1, r1)" by (cases "inspectOwnership E ?i s")
  note k1 = readingD [OF reading_inspect 1]
  have f1: "\<not> pending ?i s1" using free k1(1) by (simp add: pending_def)
  show ?thesis
  proof (cases r1)
    case (Inl e)
    then have "s' = s1 \<and> r = Inl e" using 1 eq by (simp add: applyDurable_def andthen_def)
    with Inl f1 k1(3) show ?thesis by simp
  next
    case (Inr o')
    show ?thesis
    proof (cases "validateApplyOwnership target o'")
      case False
      then have "s' = s1 \<and> r = Inl OwnershipNotEstablished"
        using 1 Inr eq by (simp add: applyDurable_def andthen_def fail_def)
      with f1 show ?thesis by simp
    next
      case True
      obtain s2 r2 where 2: "beginOperation E target recovery intent o' s1 = (s2, r2)"
        by (cases "beginOperation E target recovery intent o' s1")
      note k2 = begin_rows [OF st 2]
      show ?thesis
      proof (cases r2)
        case (Inl e)
        then have "s' = s2 \<and> r = Inl e" using 1 \<open>r1 = Inr o'\<close> True 2 eq by (simp add: applyDurable_def andthen_def)
        with k2(2) [OF Inl] f1 show ?thesis by (simp add: pending_def)
      next
        case (Inr op)
        note b = k2(3) [OF Inr]
        obtain s3 r3 where 3: "applyFromOwnership E target o' op s2 = (s3, r3)"
          by (cases "applyFromOwnership E target o' op s2")
        have r3: "rows s3 = rows s1 @ [(op, ?i)]" using rows_steadyD [OF steady_applyFromOwnership 3] b by simp
        then have in3: "(op, ?i) \<in> set (rows s3)" by simp
        show ?thesis
        proof (cases r3)
          case (Inl e)
          then have fo: "failed_operation E op ?i e s3 = (s', r)"
            using 1 \<open>r1 = Inr o'\<close> True 2 \<open>r2 = Inr op\<close> 3 eq by (simp add: applyDurable_def andthen_def)
          from failed_rows [OF st _ in3 fo] b fine r3 f1 show ?thesis
            by (auto simp: pending_def)
        next
          case (Inr state)
          obtain s4 r4 where 4: "clearOperation E op ?i s3 = (s4, r4)" by (cases "clearOperation E op ?i s3")
          note k4 = clear_rows [OF st _ 4]
          obtain u where u: "r4 = Inr u" using k4(2) in3 b fine by (cases r4) auto
          then have "s' = s4 \<and> r = Inr state"
            using 1 \<open>r1 = Inr o'\<close> True 2 \<open>r2 = Inr op\<close> 3 Inr 4 eq by (simp add: applyDurable_def andthen_def)
          with k4(4) [OF _ u] b r3 f1 show ?thesis by (auto simp: pending_def)
        qed
      qed
    qed
  qed
qed

text \<open>A failed compensation keeps its row, whichever part of the operation it comes from.\<close>

lemma persist_outcome:
  assumes st: "qe_store E" "\<not> qe_dry E"
    and persist: "\<And>op s s' e. persist op s = (s', Inl e) \<Longrightarrow> rows s' = rows s \<and> e \<noteq> CompensationFailed"
    and eq: "applyAndPersistLocked E cfg rollback0 persist s = (s', Inl CompensationFailed)"
  shows "pending (qc_Interface cfg) s'"
proof -
  let ?i = "qc_Interface cfg"
  define rollback where "rollback = (if qc_Interface rollback0 \<noteq> qc_Interface cfg \<or> \<not> config_Validate rollback0
                           then off_config (qc_Interface cfg) else rollback0)"
  have valid: "config_Validate cfg" using eq by (auto simp: applyAndPersistLocked_def fail_def split: if_splits)
  obtain s1 r1 where 1: "inspectOwnership E ?i s = (s1, r1)" by (cases "inspectOwnership E ?i s")
  note k1 = readingD [OF reading_inspect 1]
  have body: "andthen (inspectOwnership E ?i) (\<lambda>o'.
        if \<not> validateApplyOwnership cfg o' then fail OwnershipNotEstablished
        else andthen (beginOperation E cfg rollback (operationIntent cfg) o') (\<lambda>leaseID s.
          case applyFromOwnership E cfg o' leaseID s of
            (s', Inl err) \<Rightarrow> failed_operation E leaseID ?i err s'
          | (s', Inr state) \<Rightarrow>
              (case persist leaseID s' of
                 (s'', Inl err) \<Rightarrow> rollback_persist E cfg rollback leaseID err s''
               | (s'', Inr _) \<Rightarrow> verify_cleared E leaseID state s''))) s = (s', Inl CompensationFailed)"
    using eq valid unfolding applyAndPersistLocked_def Let_def rollback_def [symmetric] by simp
  obtain o' where o': "r1 = Inr o'" using body 1 k1(3)
    by (cases r1) (auto simp: andthen_def)
  have true: "validateApplyOwnership cfg o'" using body 1 o'
    by (auto simp: andthen_def fail_def split: if_splits)
  obtain s2 r2 where 2: "beginOperation E cfg rollback (operationIntent cfg) o' s1 = (s2, r2)"
    by (cases "beginOperation E cfg rollback (operationIntent cfg) o' s1")
  note k2 = begin_rows [OF st 2]
  obtain op where op: "r2 = Inr op" using body 1 o' true 2 k2(2)
    by (cases r2) (auto simp: andthen_def)
  note b = k2(3) [OF op]
  obtain s3 r3 where 3: "applyFromOwnership E cfg o' op s2 = (s3, r3)" by (cases "applyFromOwnership E cfg o' op s2")
  have r3: "rows s3 = rows s1 @ [(op, ?i)]" using rows_steadyD [OF steady_applyFromOwnership 3] b by simp
  have held: "pending ?i t" if "rows t = rows s3" for t :: "'a qos" using that r3 by (simp add: pending_def)
  show ?thesis
  proof (cases r3)
    case (Inl e)
    then have "(failed_operation E op ?i e :: ('a, qos_state) qop) s3 = (s', Inl CompensationFailed)"
      using body 1 o' true 2 op 3 by (simp add: andthen_def)
    from failed_rows [OF st _ _ this] b r3 have "rows s' = rows s3" by auto
    then show ?thesis by (rule held)
  next
    case (Inr state)
    obtain s4 r4 where 4: "persist op s3 = (s4, r4)" by (cases "persist op s3")
    show ?thesis
    proof (cases r4)
      case (Inl e)
      note p = persist [OF 4 [unfolded Inl]]
      have rb: "rollback_persist E cfg rollback op e s4 = (s', Inl CompensationFailed)"
        using body 1 o' true 2 op 3 \<open>r3 = Inr state\<close> 4 Inl
        by (simp add: andthen_def)
      obtain s5 r5 where 5: "qos_apply E rollback s4 = (s5, r5)" by (cases "qos_apply E rollback s4")
      have r5: "rows s5 = rows s3" using rows_steadyD [OF steady_qos_apply 5] p by simp
      show ?thesis
      proof (cases r5)
        case (Inl e')
        with rb 5 have "s' = s5" by (simp add: rollback_persist_def)
        with r5 show ?thesis by (simp add: held)
      next
        case (Inr st')
        obtain s6 r6 where 6: "clearOperation E op ?i s5 = (s6, r6)" by (cases "clearOperation E op ?i s5")
        note k6 = clear_rows [OF st _ 6]
        obtain e6 where e6: "r6 = Inl e6" using rb 5 Inr 6 p
          by (cases r6) (auto simp: rollback_persist_def wrap_def split: qos_error.splits)
        with rb 5 Inr 6 have "s' = s6" by (simp add: rollback_persist_def)
        moreover have "rows s6 = rows s3" using k6(3) [OF _ e6] b r5 by (metis (no_types))
        ultimately show ?thesis by (simp add: held)
      qed
    next
      case (Inr u)
      then have vc: "verify_cleared E op state s4 = (s', Inl CompensationFailed)"
        using body 1 o' true 2 op 3 \<open>r3 = Inr state\<close> 4
        by (simp add: andthen_def)
      then show ?thesis
        using st by (auto simp: verify_cleared_def operationPending_def ListQoSOperationLeases_def andthen_def
            store_call_def Let_def ret_def fail_def split: if_splits)
    qed
  qed
qed

text \<open>C2. With a database that answers, on an interface without a pending operation, an apply or a disable
  leaves a lease behind exactly when it returns that its compensation failed: an operation that succeeded, was
  refused, or undid itself leaves none, and what could not be undone is never forgotten.\<close>

theorem lease_tells_what_is_pending:
  assumes "qe_store E" and "\<not> qe_dry E" and "\<And>n. \<not> qe_broken E n" and "\<not> pending (qc_Interface cfg) s"
  shows "pending (qc_Interface cfg) (fst (qos_Apply E cfg s)) \<longleftrightarrow> snd (qos_Apply E cfg s) = Inl CompensationFailed"
proof (cases "config_Validate cfg")
  case False
  with assms(4) show ?thesis by (simp add: qos_Apply_def fail_def)
next
  case True
  obtain s' r where eq: "applyDurable E cfg cfg (operationIntent cfg) s = (s', r)"
    by (cases "applyDurable E cfg cfg (operationIntent cfg) s")
  from durable_outcome [OF assms eq] True eq show ?thesis by (simp add: qos_Apply_def)
qed

subsection \<open>A failed compensation, and what comes after it\<close>

text \<open>The calls that change an interface: a reconciliation from the table, a change by the operator, and the two that
  are given a configuration.\<close>

type_synonym 'k plan = "qos_config \<times> qos_config \<times> (string \<Rightarrow> ('k, unit) qop)"

datatype 'k qos_call =
    Reconciling "('k, qos_config) qop"
  | Changing "('k, 'k plan) qop"
  | Applying qos_config
  | Disabling

primrec make_call :: "'k qos_env \<Rightarrow> string \<Rightarrow> 'k qos_call \<Rightarrow> ('k, qos_state) qop" where
  "make_call E iface (Reconciling load) = ApplyCurrent E iface load"
| "make_call E iface (Changing load) = ApplyCurrentAndPersist E iface load"
| "make_call E iface (Applying cfg) = qos_Apply E (cfg\<lparr>qc_Interface := iface\<rparr>)"
| "make_call E iface Disabling = qos_Disable E iface"

primrec make_calls :: "'k qos_env \<Rightarrow> string \<Rightarrow> 'k qos_call list \<Rightarrow> 'k qos \<Rightarrow> 'k qos \<times> (qos_error + qos_state) list" where
  "make_calls E iface [] s = (s, [])"
| "make_calls E iface (a # as) s =
     (case make_call E iface a s of (s1, r) \<Rightarrow> case make_calls E iface as s1 of (s2, rs) \<Rightarrow> (s2, r # rs))"

text \<open>What is loaded under the lock of the interface is only read.\<close>

primrec loads_by_reading :: "'k qos_call \<Rightarrow> bool" where
  "loads_by_reading (Reconciling load) = reading load"
| "loads_by_reading (Changing load) = reading load"
| "loads_by_reading (Applying cfg) = True"
| "loads_by_reading Disabling = True"

text \<open>A write of the table that fails changes none of its rows, and is no failed compensation.\<close>

definition writes_all_or_nothing :: "('k, 'k plan) qop \<Rightarrow> bool" where
  "writes_all_or_nothing load \<longleftrightarrow>
     (\<forall>s s1 cfg rollback persist op t t1 e. load s = (s1, Inr (cfg, rollback, persist)) \<and> persist op t = (t1, Inl e)
        \<longrightarrow> rows t1 = rows t \<and> e \<noteq> CompensationFailed)"

lemma persisting_refused:
  assumes "qe_store E" and "\<not> qe_dry E" and "pending (qc_Interface cfg) s"
  shows "\<exists>s' e. applyAndPersistLocked E cfg rollback0 persist s = (s', Inl e) \<and> commands s' = commands s \<and> rows s' = rows s"
proof (cases "config_Validate cfg")
  case False
  then show ?thesis by (simp add: applyAndPersistLocked_def fail_def)
next
  case valid: True
  define rollback where "rollback = (if qc_Interface rollback0 \<noteq> qc_Interface cfg \<or> \<not> config_Validate rollback0
                           then off_config (qc_Interface cfg) else rollback0)"
  obtain s1 r1 where 1: "inspectOwnership E (qc_Interface cfg) s = (s1, r1)"
    by (cases "inspectOwnership E (qc_Interface cfg) s")
  note k1 = readingD [OF reading_inspect 1]
  have p: "pending (qc_Interface cfg) s1" using assms(3) k1(1) by (simp add: pending_def)
  show ?thesis
  proof (cases r1)
    case (Inl e)
    with 1 k1 valid show ?thesis by (simp add: applyAndPersistLocked_def Let_def andthen_def)
  next
    case (Inr o')
    show ?thesis
    proof (cases "validateApplyOwnership cfg o'")
      case False
      with 1 Inr k1 valid show ?thesis by (simp add: applyAndPersistLocked_def Let_def andthen_def fail_def)
    next
      case True
      obtain s2 m where "beginOperation E cfg rollback (operationIntent cfg) o' s1 = (s2, Inl m)" "commands s2 = commands s1"
        "rows s2 = rows s1"
        using begin_refused [OF assms(1,2) p, of rollback "operationIntent cfg" o'] by blast
      with 1 Inr True k1 valid show ?thesis
        unfolding applyAndPersistLocked_def Let_def rollback_def [symmetric] by (simp add: andthen_def)
    qed
  qed
qed

lemma call_is_refused:
  assumes "qe_store E" and "\<not> qe_dry E" and "pending iface s" and "loads_by_reading a"
  shows "\<exists>s' e. make_call E iface a s = (s', Inl e) \<and> commands s' = commands s \<and> rows s' = rows s"
proof (cases a)
  case (Reconciling load)
  with current_refused [OF assms(1-3)] assms(4) show ?thesis by simp
next
  case (Applying cfg)
  with durable_refused [OF assms(1,2), of "cfg\<lparr>qc_Interface := iface\<rparr>"] assms(3) show ?thesis
    by (simp add: qos_Apply_def fail_def)
next
  case Disabling
  with durable_refused [OF assms(1,2), of "off_config iface"] assms(3) show ?thesis
    by (simp add: qos_Disable_def fail_def off_config_def)
next
  case (Changing load)
  obtain s1 r1 where 1: "load s = (s1, r1)" by (cases "load s")
  with Changing assms(4) have k1: "rows s1 = rows s" "commands s1 = commands s" using readingD [of load s s1 r1] by simp_all
  show ?thesis
  proof (cases "\<exists>cfg rollback persist. r1 = Inr (cfg, rollback, persist) \<and> qc_Interface cfg = iface")
    case True
    then obtain cfg rollback persist where r: "r1 = Inr (cfg, rollback, persist)" "qc_Interface cfg = iface" by blast
    have "pending (qc_Interface cfg) s1" using assms(3) k1 r(2) by (simp add: pending_def)
    from persisting_refused [OF assms(1,2) this, of rollback persist]
    show ?thesis using Changing 1 k1 r by (auto simp: ApplyCurrentAndPersist_def andthen_def fail_def)
  next
    case False
    then show ?thesis using Changing 1 k1
      by (auto simp: ApplyCurrentAndPersist_def andthen_def fail_def split: sum.split)
  qed
qed

lemma calls_are_refused:
  assumes "qe_store E" and "\<not> qe_dry E" and "pending iface s" and "list_all loads_by_reading as"
  shows "commands (fst (make_calls E iface as s)) = commands s \<and> pending iface (fst (make_calls E iface as s))
     \<and> list_all (\<lambda>r. \<exists>e. r = Inl e) (snd (make_calls E iface as s))"
  using assms(3,4)
proof (induction as arbitrary: s)
  case (Cons a as)
  from call_is_refused [OF assms(1,2) Cons.prems(1), of a] Cons.prems(2)
  obtain s1 e where 1: "make_call E iface a s = (s1, Inl e)" "commands s1 = commands s" "rows s1 = rows s" by auto
  then have "pending iface s1" using Cons.prems(1) by (simp add: pending_def)
  from Cons.IH [OF this] 1 Cons.prems(2) show ?case by (simp add: split_beta)
qed simp

text \<open>C4. After a change by the operator whose compensation failed - with a database that reads when it is asked to read and
  whose writes are done as a whole or not at all - the reconciliation that the handler starts at once cannot help: the
  lease of the change is still in the table, whose interface is unique, so no other operation can write its own.  And so it
  is with every later call on that interface, whatever their number and order, a change, a reconciliation, an apply
  or a disable: until the lease is recovered, as it is when the daemon starts, each returns an error, none issues a
  command, and the lease stays.\<close>

theorem failed_compensation_locks_the_interface:
  assumes "qe_store E" and "\<not> qe_dry E" and "writes_all_or_nothing load"
    and "ApplyCurrentAndPersist E iface load s = (s', Inl CompensationFailed)" and "reading load"
    and "list_all loads_by_reading later"
  shows "commands (fst (make_calls E iface later s')) = commands s' \<and> pending iface (fst (make_calls E iface later s'))
     \<and> list_all (\<lambda>r. \<exists>e. r = Inl e) (snd (make_calls E iface later s'))"
proof -
  obtain s1 r1 where 1: "load s = (s1, r1)" by (cases "load s")
  with assms(4) readingD(3) [OF assms(5) 1] obtain cfg rollback persist where
    r: "r1 = Inr (cfg, rollback, persist)" "qc_Interface cfg = iface"
    and run: "applyAndPersistLocked E cfg rollback persist s1 = (s', Inl CompensationFailed)"
    by (cases r1) (auto simp: ApplyCurrentAndPersist_def andthen_def fail_def split: if_splits)
  have "pending (qc_Interface cfg) s'"
    by (rule persist_outcome [OF assms(1,2) _ run]) (use assms(3) 1 r(1) in \<open>unfold writes_all_or_nothing_def, blast\<close>)
  with r(2) show ?thesis using calls_are_refused [OF assms(1,2) _ assms(6)] by simp
qed

subsection \<open>A machine that stops answering\<close>

text \<open>It shows a default queue, accepts one command, and then neither reads nor runs anything.\<close>

definition failing_machine :: "nat qos_env" where
  "failing_machine =
     \<lparr>qe_read = (\<lambda>k cmd. (k, if k > 0 then Inl ''timeout''
        else if cmd ! 1 = ''qdisc'' then Inr ''qdisc fq_codel 0: root refcnt 2''
        else if cmd ! 1 = ''filter'' then Inr [] else Inl ''Device does not exist.'')),
      qe_exec = (\<lambda>k cmd. if k = 0 then (1, Inr []) else (k, Inl ''timeout'')),
      qe_dry = False, qe_store = True, qe_broken = (\<lambda>n. False), qe_hexsum = (\<lambda>s. ''0123456789abcdef''),
      qe_uuid = (\<lambda>n. [char_of (97 + n)])\<rparr>"

definition shaped_link :: qos_config where
  "shaped_link = \<lparr>qc_Interface = ''wan0'', qc_Enabled = True, qc_UploadMbps = 20, qc_DownloadMbps = 100,
     qc_Interactive = True\<rparr>"

definition fresh_machine :: "nat qos" where
  "fresh_machine = \<lparr>qs_machine = 0, qs_log = [], qs_leases = [], qs_calls = 0\<rparr>"

definition shaping :: "(nat, nat plan) qop" where
  "shaping = ret (shaped_link, off_config ''wan0'', \<lambda>_. ret ())"

lemma failed_compensation_of_the_demo:
  "snd (ApplyCurrentAndPersist failing_machine ''wan0'' shaping fresh_machine) = Inl CompensationFailed"
  by code_simp

theorem failed_compensation_locks_the_interface_witness:
  "let s' = fst (ApplyCurrentAndPersist failing_machine ''wan0'' shaping fresh_machine);
       (s'', rs) = make_calls failing_machine ''wan0'' [Reconciling (ret shaped_link), Changing shaping] s'
   in commands s'' = commands s' \<and> pending ''wan0'' s'' \<and> list_all (\<lambda>r. \<exists>e. r = Inl e) rs"
proof -
  obtain s' r where eq: "ApplyCurrentAndPersist failing_machine ''wan0'' shaping fresh_machine = (s', r)"
    by (cases "ApplyCurrentAndPersist failing_machine ''wan0'' shaping fresh_machine")
  with failed_compensation_of_the_demo have r: "r = Inl CompensationFailed" by simp
  let ?later = "[Reconciling (ret shaped_link), Changing shaping]"
  have "commands (fst (make_calls failing_machine ''wan0'' ?later s')) = commands s'
      \<and> pending ''wan0'' (fst (make_calls failing_machine ''wan0'' ?later s'))
      \<and> list_all (\<lambda>r. \<exists>e. r = Inl e) (snd (make_calls failing_machine ''wan0'' ?later s'))"
    by (rule failed_compensation_locks_the_interface [OF _ _ _ eq [unfolded r]])
      (simp_all add: failing_machine_def writes_all_or_nothing_def shaping_def ret_def,
       simp_all add: reading_ret ret_def [symmetric])
  then show ?thesis unfolding eq fst_conv Let_def by (simp only: split_beta)
qed

theorem lease_tells_what_is_pending_witness:
  "snd (qos_Apply failing_machine shaped_link fresh_machine) = Inl CompensationFailed
   \<and> pending ''wan0'' (fst (qos_Apply failing_machine shaped_link fresh_machine))"
proof -
  have e: "snd (qos_Apply failing_machine shaped_link fresh_machine) = Inl CompensationFailed" by code_simp
  have "pending (qc_Interface shaped_link) (fst (qos_Apply failing_machine shaped_link fresh_machine))
      \<longleftrightarrow> snd (qos_Apply failing_machine shaped_link fresh_machine) = Inl CompensationFailed"
    by (rule lease_tells_what_is_pending)
      (simp_all add: failing_machine_def fresh_machine_def pending_def rows_def)
  with e show ?thesis by (simp add: shaped_link_def)
qed

end
