(* ===== verification/QosSaga.thy ===== *)
theory QosSaga
  imports QosLeases RouteArgs
begin

text \<open>
  Installing or removing the chain is a saga: its steps in order, and when one fails the undoing of those
  already done, the latest first.  The journal of the code refines that recursive specification.  Then the
  signature of a queue: what is read can be installed again and read back, and what a unit does to it.
\<close>

subsection \<open>The specification\<close>

type_synonym 'k saga_step = "string \<times> ('k, unit) qop \<times> ('k, unit) qop option"

text \<open>The stage of a durable operation advances after each step.\<close>

definition recorded :: "'k qos_env \<Rightarrow> string \<Rightarrow> int \<Rightarrow> ('k, int) qop" where
  "recorded E op stage s =
     (if op \<noteq> [] \<and> qe_store E \<and> \<not> qe_dry E then
        (case AdvanceQoSOperationLease E op stage (stage + 1) s of
           (s', Inl e) \<Rightarrow> (s', Inl e) | (s', Inr _) \<Rightarrow> (s', Inr (stage + 1)))
      else (s, Inr stage))"

text \<open>A failure carries its error and whether some undoing failed too.\<close>

definition undone :: "('k, unit) qop option \<Rightarrow> 'k qos \<times> (qos_error \<times> bool) option \<Rightarrow> 'k qos \<times> (qos_error \<times> bool) option" where
  "undone undo r =
     (case r of
        (s, None) \<Rightarrow> (s, None)
      | (s, Some (e, b)) \<Rightarrow>
          (case undo of
             None \<Rightarrow> (s, Some (e, b))
           | Some u \<Rightarrow> (case u s of (s', Inl _) \<Rightarrow> (s', Some (e, True)) | (s', Inr _) \<Rightarrow> (s', Some (e, b)))))"

fun saga :: "'k qos_env \<Rightarrow> string \<Rightarrow> int \<Rightarrow> 'k saga_step list \<Rightarrow> 'k qos \<Rightarrow> 'k qos \<times> (qos_error \<times> bool) option" where
  "saga E op stage [] s = (s, None)"
| "saga E op stage ((action, mutate, undo) # steps) s =
     (case mutate s of
        (s1, Inl e) \<Rightarrow> (s1, Some (wrap action e, False))
      | (s1, Inr _) \<Rightarrow>
          undone undo
            (case recorded E op stage s1 of
               (s2, Inl e) \<Rightarrow> (s2, Some (wrap (''journal '' @ action) e, False))
             | (s2, Inr stage') \<Rightarrow> saga E op stage' steps s2))"

definition saga_result :: "'a \<Rightarrow> 'k qos \<times> (qos_error \<times> bool) option \<Rightarrow> 'k qos \<times> (qos_error + 'a)" where
  "saga_result x r =
     (case r of
        (s, None) \<Rightarrow> (s, Inr x)
      | (s, Some (e, b)) \<Rightarrow> (s, Inl (if b then CompensationFailed else e)))"

subsection \<open>The steps of the two operations\<close>

definition apply_steps :: "'k qos_env \<Rightarrow> qos_config \<Rightarrow> ownershipState \<Rightarrow> 'k saga_step list" where
  "apply_steps E cfg o' =
     (let iface = qc_Interface cfg; ifb = IFBName (qe_hexsum E) iface
      in [(''apply egress CAKE'', execute_cmd E ''apply egress CAKE'' (cake_replace iface (egress_signature cfg)),
           Some (restoreRoot E iface (os_egressOutput o') (egress_signature cfg) (os_egressSignature o')))]
         @ (if os_ifbExists o' then []
            else [(''create IFB'', execute_cmd E ''create IFB'' (link_add ifb),
                   Some (removeIFBIfUnclaimed E ifb ''remove IFB after failed QoS apply''))])
         @ [(''bring IFB up'', execute_cmd E ''bring IFB up'' (link_set ifb ''up''),
             if os_ifbExists o' \<and> \<not> os_ifbUp o'
             then Some (execute_cmd E ''restore IFB down state'' (link_set ifb ''down'')) else None),
            (''apply ingress CAKE'', execute_cmd E ''apply ingress CAKE'' (cake_replace ifb (ingress_signature cfg)),
             Some (restoreRoot E ifb (os_ingressOutput o') (ingress_signature cfg) (os_ingressSignature o')))]
         @ (if os_clsact o' then []
            else [(''ensure clsact'', execute_cmd E ''ensure clsact'' [''tc'', ''qdisc'', ''add'', ''dev'', iface, ''clsact''],
                   Some (removeAddedClsact E iface))])
         @ [(''redirect ingress'', execute_cmd E ''redirect ingress'' (redirect_replace iface ifb),
             Some (if os_redirectOwned o' then restoreRedirect E iface ifb else removeManagedRedirect E iface ifb))])"

definition disable_steps :: "'k qos_env \<Rightarrow> string \<Rightarrow> ownershipState \<Rightarrow> 'k saga_step list" where
  "disable_steps E iface o' =
     (let ifb = IFBName (qe_hexsum E) iface
      in (if os_redirectOwned o'
          then [(''remove ingress redirect'', removeManagedRedirect E iface ifb, Some (restoreRedirect E iface ifb))] else [])
         @ (if os_egressOwned o'
            then [(''remove managed egress root'', removeRootMatching E iface (os_egressSignature o'),
                   Some (restoreDeletedRoot E iface (os_egressOutput o') (os_egressSignature o')))] else [])
         @ (if os_ingressOwned o'
            then [(''remove ingress CAKE'', removeRootMatching E ifb (os_ingressSignature o'),
                   Some (restoreDeletedRoot E ifb (os_ingressOutput o') (os_ingressSignature o')))]
                 @ (if os_redirectOwned o' \<or> \<not> os_filterPresent o'
                    then [(''remove IFB'', removeIFBIfUnclaimed E ifb ''remove IFB'', Some (restoreIFB E ifb (os_ifbUp o')))]
                    else [])
            else []))"

definition chain_steps :: "'k qos_env \<Rightarrow> qos_config \<Rightarrow> ownershipState \<Rightarrow> 'k saga_step list" where
  "chain_steps E cfg o' =
     (if qc_Enabled cfg then apply_steps E cfg o' else disable_steps E (qc_Interface cfg) o')"

definition chain_state :: "'k qos_env \<Rightarrow> qos_config \<Rightarrow> qos_state" where
  "chain_state E cfg =
     \<lparr>st_Enabled = qc_Enabled cfg, st_Interface = qc_Interface cfg, st_IFB = IFBName (qe_hexsum E) (qc_Interface cfg),
      st_Mode = (if qc_Enabled cfg then qos_mode cfg else []), st_DryRun = qe_dry E\<rparr>"

subsection \<open>The journal refines it\<close>

fun run_steps :: "'k qos_env \<Rightarrow> 'k saga_step list \<Rightarrow> 'k mutationJournal \<Rightarrow> ('k, 'k mutationJournal) qop" where
  "run_steps E [] j = ret j"
| "run_steps E ((action, mutate, undo) # steps) j = andthen (run_step E action mutate undo j) (run_steps E steps)"

lemma andthen_ret [simp]: "andthen (ret x) f = f x"
  by (simp add: fun_eq_iff andthen_def ret_def)

lemma andthen_assoc: "andthen (andthen m f) g = andthen m (\<lambda>x. andthen (f x) g)"
  by (auto simp: fun_eq_iff andthen_def split: prod.split sum.split)

lemma andthen_ret_right [simp]: "andthen m ret = m"
  by (auto simp: fun_eq_iff andthen_def ret_def split: prod.split sum.split)

lemma run_steps_append: "run_steps E (xs @ ys) j = andthen (run_steps E xs j) (run_steps E ys)"
proof (induction xs arbitrary: j)
  case (Cons x xs)
  have "run_steps E (xs @ ys) = (\<lambda>j. andthen (run_steps E xs j) (run_steps E ys))"
    by (rule ext) (rule Cons.IH)
  then show ?case by (cases x) (simp add: andthen_assoc)
qed simp

lemma run_all_append: "run_all (xs @ ys) s =
   (case run_all xs s of (s', es) \<Rightarrow> (case run_all ys s' of (s'', es') \<Rightarrow> (s'', es @ es')))"
  by (induction xs arbitrary: s) (auto split: prod.split sum.split)

definition finish :: "('k, unit) qop list \<Rightarrow> 'k qos \<times> (qos_error \<times> bool) option \<Rightarrow> 'k qos \<times> (qos_error + 'a) \<Rightarrow> bool" where
  "finish undos r out \<longleftrightarrow>
     (case r of
        (s, None) \<Rightarrow> fst out = s \<and> (\<exists>x. snd out = Inr x)
      | (s, Some (e, b)) \<Rightarrow>
          (case run_all (rev undos) s of
             (s', es) \<Rightarrow> out = (s', Inl (if b \<or> es \<noteq> [] then CompensationFailed else e))))"

lemma repair_result:
  "repair undos e s = (case run_all (rev undos) s of (s', es) \<Rightarrow> (s', Inl (if es \<noteq> [] then CompensationFailed else e)))"
  by (auto simp: repair_def compensate_def split: prod.split list.split)

lemma finish_undone:
  assumes "finish (undos @ [u]) r out"
  shows "finish undos (undone (Some u) r) out"
proof -
  obtain s f where r: "r = (s, f)" by (cases r)
  show ?thesis
  proof (cases f)
    case None
    with assms r show ?thesis by (simp add: finish_def undone_def)
  next
    case (Some eb)
    obtain e b where eb: "eb = (e, b)" by (cases eb)
    obtain s1 r1 where u: "u s = (s1, r1)" by (cases "u s")
    obtain s2 es where ra: "run_all (rev undos) s1 = (s2, es)" by (cases "run_all (rev undos) s1")
    show ?thesis using assms r Some eb u ra by (cases r1) (auto simp: finish_def undone_def)
  qed
qed

lemma run_steps_finish:
  "finish (mj_undos j) (saga E (mj_operationID j) (mj_stage j) steps s) (run_steps E steps j s)"
proof (induction steps arbitrary: j s)
  case Nil
  then show ?case by (simp add: finish_def ret_def)
next
  case (Cons step steps)
  obtain a m u where st: "step = (a, m, u)" by (cases step)
  obtain s1 r1 where m1: "m s = (s1, r1)" by (cases "m s")
  define j1 where "j1 = (case u of None \<Rightarrow> j | Some u \<Rightarrow> j\<lparr>mj_undos := mj_undos j @ [u]\<rparr>)"
  have j1: "mj_operationID j1 = mj_operationID j" "mj_stage j1 = mj_stage j"
    by (auto simp: j1_def split: option.split)
  have un: "finish (mj_undos j) (undone u r) out" if "finish (mj_undos j1) r out" for r and out :: "'a qos \<times> (qos_error + 'a mutationJournal)"
  proof (cases u)
    case None
    moreover have "undone None r = r" by (auto simp: undone_def split: prod.split option.split)
    ultimately show ?thesis using that by (simp add: j1_def)
  next
    case (Some v)
    with that finish_undone [of "mj_undos j" v r out] show ?thesis by (simp add: j1_def)
  qed
  show ?case
  proof (cases r1)
    case (Inl e)
    then have "run_steps E (step # steps) j s = repair (mj_undos j) (wrap a e) s1"
      using m1 st by (simp add: andthen_def run_step_def repair_result split: prod.split)
    with Inl m1 st show ?thesis by (simp add: finish_def repair_result split: prod.split)
  next
    case (Inr x)
    obtain s2 r2 where rec: "recorded E (mj_operationID j) (mj_stage j) s1 = (s2, r2)"
      by (cases "recorded E (mj_operationID j) (mj_stage j) s1")
    have step: "run_step E a m u j s = (case r2 of Inl e \<Rightarrow> repair (mj_undos j1) (wrap (''journal '' @ a) e) s2
        | Inr stage' \<Rightarrow> (s2, Inr (j1\<lparr>mj_stage := stage'\<rparr>)))"
      using rec m1 Inr
      by (auto simp: run_step_def recorded_def j1_def [symmetric] j1 Let_def split: if_splits prod.splits sum.splits)
    have lhs: "saga E (mj_operationID j) (mj_stage j) (step # steps) s
        = undone u (case r2 of Inl e \<Rightarrow> (s2, Some (wrap (''journal '' @ a) e, False))
                    | Inr stage' \<Rightarrow> saga E (mj_operationID j) stage' steps s2)"
      using rec m1 Inr st by (auto split: sum.split)
    show ?thesis
    proof (cases r2)
      case (Inl e)
      have "run_steps E (step # steps) j s = repair (mj_undos j1) (wrap (''journal '' @ a) e) s2"
        using step Inl st by (simp add: andthen_def repair_result split: prod.split)
      then have "finish (mj_undos j1) (s2, Some (wrap (''journal '' @ a) e, False)) (run_steps E (step # steps) j s)"
        by (simp add: finish_def repair_result split: prod.split)
      from un [OF this] show ?thesis unfolding lhs by (simp add: Inl)
    next
      case (Inr stage')
      have "run_steps E (step # steps) j s = run_steps E steps (j1\<lparr>mj_stage := stage'\<rparr>) s2"
        using step Inr st by (simp add: andthen_def)
      moreover have "finish (mj_undos j1) (saga E (mj_operationID j) stage' steps s2)
          (run_steps E steps (j1\<lparr>mj_stage := stage'\<rparr>) s2)"
        using Cons.IH [of "j1\<lparr>mj_stage := stage'\<rparr>" s2] by (simp add: j1)
      ultimately show ?thesis using un unfolding lhs by (simp add: Inr)
    qed
  qed
qed

lemma apply_is_run_steps:
  "applyWithOwnership E cfg o' op =
     andthen (run_steps E (apply_steps E cfg o') (newMutationJournal op))
       (\<lambda>_. ret \<lparr>st_Enabled = True, st_Interface = qc_Interface cfg, st_IFB = IFBName (qe_hexsum E) (qc_Interface cfg),
                st_Mode = qos_mode cfg, st_DryRun = qe_dry E\<rparr>)"
proof -
  have args: "[''tc'', ''qdisc'', ''replace'', ''dev'', qc_Interface cfg, ''root'', ''handle'', managedEgressHandle, ''cake'',
    ''bandwidth'', bandwidthArg (qc_UploadMbps cfg), qos_mode cfg, ''nat'', ''dual-srchost'']
   = cake_replace (qc_Interface cfg) (egress_signature cfg)"
  "[''tc'', ''qdisc'', ''replace'', ''dev'', ifb, ''root'', ''handle'', managedIngressHandle, ''cake'',
    ''bandwidth'', bandwidthArg (qc_DownloadMbps cfg), qos_mode cfg, ''nat'', ''dual-dsthost'', ''ingress'']
   = cake_replace ifb (ingress_signature cfg)" for ifb
    by (simp_all add: cake_replace_def cakeSignatureArgs_def egress_signature_def ingress_signature_def
        cakeRootSignature_def no_signature_def)
  show ?thesis
    unfolding applyWithOwnership_def apply_steps_def step_egress_def step_create_ifb_def step_ifb_up_def
      step_ingress_def step_clsact_def step_redirect_def Let_def args
    by (cases "os_ifbExists o'"; cases "os_clsact o'") (simp_all add: run_steps_append andthen_assoc)
qed

lemma disable_is_run_steps:
  "disableWithOwnership E iface o' op =
     andthen (run_steps E (disable_steps E iface o') (newMutationJournal op))
       (\<lambda>_. ret \<lparr>st_Enabled = False, st_Interface = iface, st_IFB = IFBName (qe_hexsum E) iface, st_Mode = [],
                st_DryRun = qe_dry E\<rparr>)"
  unfolding disableWithOwnership_def disable_steps_def step_unredirect_def step_unegress_def step_uningress_def Let_def
  by (cases "os_redirectOwned o'"; cases "os_egressOwned o'"; cases "os_ingressOwned o'"; cases "os_filterPresent o'")
    (simp_all add: run_steps_append andthen_assoc)

lemma run_steps_saga:
  "andthen (run_steps E steps (newMutationJournal op)) (\<lambda>_. ret x) s = saga_result x (saga E op 0 steps s)"
  using run_steps_finish [of "newMutationJournal op" E steps s]
  by (auto simp: finish_def newMutationJournal_def andthen_def ret_def saga_result_def
      split: prod.splits option.splits sum.splits)

text \<open>C3. Installing or removing the chain is a saga, whatever the machine and the database answer: the steps run
  in order and are recorded, a step that fails ends the operation, the undoing of each step already done runs
  once, the latest first and even when another undoing failed, no later step is begun, and the caller learns
  whether all of it was undone.\<close>

theorem chain_change_is_a_saga:
  "applyFromOwnership E cfg o' op s = saga_result (chain_state E cfg) (saga E op 0 (chain_steps E cfg o') s)"
  by (cases "qc_Enabled cfg")
    (simp_all add: applyFromOwnership_def apply_is_run_steps disable_is_run_steps run_steps_saga chain_steps_def chain_state_def)

end
