(* ===== verification/QosSignatures.thy ===== *)
theory QosSignatures
  imports QosLeases RouteArgs
begin

text \<open>
  The signature by which the product recognises a queue of its own: what is read off a line of tc can be
  installed again and is recognised when it is printed back, whatever its rate and mode; and what happens
  when tc prints the same rate in another unit.
\<close>

subsection \<open>A line of tc\<close>

definition qdisc_line :: "string \<Rightarrow> string \<Rightarrow> string list \<Rightarrow> string" where
  "qdisc_line kind handle ws = go_join ([''qdisc'', kind, handle, ''root'', ''refcnt'', ''2''] @ ws) '' ''"

lemma token_line_chars:
  "list_all token ts \<Longrightarrow> c \<in> set (go_join ts '' '') \<Longrightarrow> c = CHR '' '' \<or> \<not> is_space c"
  by (induction ts "'' ''" rule: go_join.induct) (auto simp: token_def list_all_iff)

lemma one_line:
  assumes "list_all token ts"
  shows "go_split newline (go_join ts '' '') = [go_join ts '' '']"
proof (rule go_split_last)
  show "newline \<noteq> []" by (simp add: newline_def)
  have "CHR 0x0A \<notin> set (go_join ts '' '')"
    using token_line_chars [OF assms, of "CHR 0x0A"] by (auto simp: is_space_def)
  then show "\<not> sublist newline (go_join ts '' '')"
    by (auto simp: newline_def sublist_def)
qed

lemma qdisc_line_reads:
  assumes "token kind" and "token handle" and "list_all token ws"
  shows "go_fields (qdisc_line kind handle ws) = [''qdisc'', kind, handle, ''root'', ''refcnt'', ''2''] @ ws"
    and "rootQdiscLine (qdisc_line kind handle ws) = Some (qdisc_line kind handle ws)"
    and "rootQdisc (qdisc_line kind handle ws) = Some \<lparr>rq_kind = kind, rq_handle = handle\<rparr>"
proof -
  have t: "list_all token ([''qdisc'', kind, handle, ''root'', ''refcnt'', ''2''] @ ws)"
    using assms by (simp add: token_def is_space_def)
  show f: "go_fields (qdisc_line kind handle ws) = [''qdisc'', kind, handle, ''root'', ''refcnt'', ''2''] @ ws"
    unfolding qdisc_line_def by (rule go_fields_join [OF t])
  have s: "go_split newline (qdisc_line kind handle ws) = [qdisc_line kind handle ws]"
    unfolding qdisc_line_def by (rule one_line [OF t])
  have "is_root_line (qdisc_line kind handle ws)" by (simp add: is_root_line_def f)
  with s f show "rootQdiscLine (qdisc_line kind handle ws) = Some (qdisc_line kind handle ws)"
    "rootQdisc (qdisc_line kind handle ws) = Some \<lparr>rq_kind = kind, rq_handle = handle\<rparr>"
    by (simp_all add: rootQdiscLine_def rootQdisc_def)
qed

subsection \<open>What the settings of a line can be\<close>

lemma cake_loop_found:
  "cake_loop fs (b, m) = (bandwidth, mode) \<Longrightarrow>
     (bandwidth = b \<or> bandwidth \<in> set fs \<and> cakeBandwidthPattern bandwidth)
     \<and> (mode = m \<or> mode = ''diffserv4'' \<or> mode = ''besteffort'')"
proof (induction fs arbitrary: b m)
  case (Cons f fs)
  define b' where "b' = (if f = ''bandwidth'' \<and> fs \<noteq> [] \<and> cakeBandwidthPattern (hd fs) then hd fs else b)"
  define m' where "m' = (if f = ''diffserv4'' \<or> f = ''besteffort'' then f else m)"
  have "cake_loop fs (b', m') = (bandwidth, mode)" using Cons.prems by (simp add: b'_def m'_def)
  from Cons.IH [OF this] show ?case by (cases fs) (auto simp: b'_def m'_def split: if_splits)
qed simp

lemma no_rate [simp]:
  "\<not> cakeBandwidthPattern ''bandwidth''" "\<not> cakeBandwidthPattern ''diffserv4''" "\<not> cakeBandwidthPattern ''besteffort''"
  "\<not> cakeBandwidthPattern ''ingress''"
  by code_simp+

lemma settings_of_args:
  assumes h: "h = managedEgressHandle \<and> hm = ''dual-srchost'' \<and> \<not> i \<or> h = managedIngressHandle \<and> hm = ''dual-dsthost'' \<and> i"
    and bw: "cakeBandwidthPattern bw" "token bw" and mode: "mode = ''diffserv4'' \<or> mode = ''besteffort''"
  shows "list_all token (cakeSignatureArgs (cakeRootSignature h bw mode hm True i))"
    and "cake_loop ([''qdisc'', ''cake'', h, ''root'', ''refcnt'', ''2''] @ cakeSignatureArgs (cakeRootSignature h bw mode hm True i)) ([], [])
      = (bw, mode)"
proof -
  have ne: "bw \<noteq> ''bandwidth''" "bw \<noteq> ''diffserv4''" "bw \<noteq> ''besteffort''" using bw(1) by auto
  show "list_all token (cakeSignatureArgs (cakeRootSignature h bw mode hm True i))"
    using h mode bw(2) by (auto simp: cakeSignatureArgs_def cakeRootSignature_def no_signature_def token_def is_space_def)
  show "cake_loop ([''qdisc'', ''cake'', h, ''root'', ''refcnt'', ''2''] @ cakeSignatureArgs (cakeRootSignature h bw mode hm True i)) ([], [])
      = (bw, mode)"
    using h mode bw(1) ne
    by (auto simp: cakeSignatureArgs_def cakeRootSignature_def no_signature_def managedEgressHandle_def managedIngressHandle_def)
qed

text \<open>C5. A queue of the product survives being restored: the signature read off what tc shows, whatever rate
  and mode it has, gives the arguments that install it again, and the line tc prints for them is recognised as
  the same queue, with the same signature, both by the inspection and by the comparison the undoing makes.\<close>

theorem signature_survives_reinstallation:
  assumes "linkGuardCakeRootSignature out h hm i = (sig, True)"
    and "h = managedEgressHandle \<and> hm = ''dual-srchost'' \<and> \<not> i \<or> h = managedIngressHandle \<and> hm = ''dual-dsthost'' \<and> i"
  shows "linkGuardCakeRootSignature (qdisc_line ''cake'' h (cakeSignatureArgs sig)) h hm i = (sig, True)
    \<and> sig_matches sig (qdisc_line ''cake'' h (cakeSignatureArgs sig))"
proof -
  from assms(1) obtain line bw mode where line: "rootQdiscLine out = Some line"
    and set: "cakeSettings line = Some (bw, mode)" and sig: "sig = cakeRootSignature h bw mode hm True i"
    by (auto simp: linkGuardCakeRootSignature_def managedCakeRootSignature_def cakeRootSignature_def no_signature_def
        split: option.splits if_splits prod.splits)
  from set obtain l where l: "cake_loop (go_fields l) ([], []) = (bw, mode)" and ne: "bw \<noteq> []" "mode \<noteq> []"
    by (auto simp: cakeSettings_def split: option.splits if_splits prod.splits)
  from cake_loop_found [OF l] ne have bw: "cakeBandwidthPattern bw" "bw \<in> set (go_fields l)"
    and mode: "mode = ''diffserv4'' \<or> mode = ''besteffort''" by auto
  have tok: "token bw" using go_fields_tokens [OF bw(2)] .
  note args = settings_of_args [OF assms(2) bw(1) tok mode]
  have th: "token h" "token ''cake''" using assms(2)
    by (auto simp: token_def is_space_def managedEgressHandle_def managedIngressHandle_def)
  let ?line = "qdisc_line ''cake'' h (cakeSignatureArgs sig)"
  note rd = qdisc_line_reads [OF th(2,1) args(1), folded sig]
  have cs: "cakeSettings ?line = Some (bw, mode)"
    using rd args(2) ne by (simp add: cakeSettings_def sig)
  have words: "hm \<in> set (go_fields ?line)" "''nat'' \<in> set (go_fields ?line)" "''ingress'' \<in> set (go_fields ?line) \<longleftrightarrow> i"
    using rd(1) assms(2) mode bw(1) th
    by (auto simp: sig cakeSignatureArgs_def cakeRootSignature_def no_signature_def managedEgressHandle_def managedIngressHandle_def)
  have "linkGuardCakeRootSignature ?line h hm i = (sig, True)"
    using rd(2,3) cs words
    by (simp add: linkGuardCakeRootSignature_def managedCakeRootSignature_def sig cakeRootSignature_def no_signature_def)
  moreover have "sig_matches sig ?line"
    using rd(2,3) cs words by (simp add: sig_matches_def sig cakeRootSignature_def no_signature_def)
  ultimately show ?thesis by blast
qed

theorem signature_survives_reinstallation_witness:
  "linkGuardCakeRootSignature (qdisc_line ''cake'' managedEgressHandle
      [''bandwidth'', ''2.5Gbit'', ''diffserv4'', ''nat'', ''dual-srchost'']) managedEgressHandle ''dual-srchost'' False
    = (cakeRootSignature managedEgressHandle ''2.5Gbit'' ''diffserv4'' ''dual-srchost'' True False, True)"
proof -
  have 1: "linkGuardCakeRootSignature ''qdisc cake cafe: root refcnt 2 bandwidth 2.5Gbit diffserv4 dual-srchost nat nowash''
      managedEgressHandle ''dual-srchost'' False
    = (cakeRootSignature managedEgressHandle ''2.5Gbit'' ''diffserv4'' ''dual-srchost'' True False, True)" by code_simp
  show ?thesis
    using signature_survives_reinstallation [OF 1]
    by (simp add: cakeSignatureArgs_def cakeRootSignature_def no_signature_def)
qed

subsection \<open>The same rate in another unit\<close>

lemma gigabit_line_is_foreign:
  assumes "ol_BeforeEgress lease = None"
  shows "recoveryRootSignature (qdisc_line ''cake'' managedEgressHandle
     [''bandwidth'', itoa g @ ''Gbit'', qos_mode cfg, ''nat'', ''dual-srchost'']) False lease = Inl OwnershipNotEstablished"
proof -
  define line where "line = qdisc_line ''cake'' managedEgressHandle
           [''bandwidth'', itoa g @ ''Gbit'', qos_mode cfg, ''nat'', ''dual-srchost'']"
  have tok: "list_all token [''bandwidth'', itoa g @ ''Gbit'', qos_mode cfg, ''nat'', ''dual-srchost'']"
    using token_itoa [of g] by (auto simp: token_def qos_mode_def is_space_def)
  have th: "token ''cake''" "token managedEgressHandle" by (simp_all add: token_def is_space_def managedEgressHandle_def)
  note rd = qdisc_line_reads [OF th tok, folded line_def]
  have other: "go_lower (itoa g @ ''Gbit'') \<noteq> go_lower (bandwidthArg u)" for u
  proof -
    have "go_lower (itoa g @ ''Gbit'') = go_lower (itoa g) @ ''gbit''" by (simp add: go_lower_def, code_simp)
    moreover have "go_lower (bandwidthArg u) = go_lower (itoa u) @ ''mbit''"
      by (simp add: go_lower_def bandwidthArg_def, code_simp)
    ultimately show ?thesis by simp
  qed
  have set: "cakeSettings line \<in> {None, Some (itoa g @ ''Gbit'', qos_mode cfg)}"
  proof -
    have "itoa g @ ''Gbit'' \<noteq> w" if "last w \<noteq> CHR ''t''" for w using that by (auto simp: last_append)
    then have "itoa g @ ''Gbit'' \<noteq> ''bandwidth''" "itoa g @ ''Gbit'' \<noteq> ''diffserv4''" by simp_all
    moreover have "itoa g @ ''Gbit'' \<noteq> ''besteffort''"
      using append_eq_append_conv [of "''Gbit''" "''fort''" "itoa g" "''bestef''"] by auto
    ultimately show ?thesis
      using rd by (auto simp: cakeSettings_def managedEgressHandle_def qos_mode_def)
  qed
  have "\<not> sig_matches (egress_signature c) line" for c
    using set rd other
    by (auto simp: sig_matches_def egress_signature_def cakeRootSignature_def no_signature_def)
  moreover have "\<not> isReplaceableInitialRoot \<lparr>rq_kind = ''cake'', rq_handle = managedEgressHandle\<rparr>"
    by (simp add: isReplaceableInitialRoot_def managedEgressHandle_def)
  ultimately show ?thesis
    using rd assms by (simp add: recoveryRootSignature_def recoveryCakeSignatures_def line_def [symmetric])
qed

text \<open>C6. Rates are compared as text, and the product always writes its own in Mbit.  An operation was interrupted on an
  interface on which the product had no queue before it (the lease holds no signature of an earlier queue).  If tc prints
  the rate of the product's upload queue there as a whole number of gigabits in Gbit, reads the redirection without
  error, and shows none of the product's, then recovery takes the queue for a stranger's, whatever configurations the
  lease holds: it runs no command and keeps the lease; and as long as tc goes on showing that, so it does however many
  times the recovery of that lease is tried again.\<close>

theorem gigabit_link_is_not_recovered:
  fixes E :: "'k qos_env" and n :: nat
  assumes "ol_BeforeEgress lease = None"
    and "\<And>k. qe_read E k (qdisc_show (ol_Interface lease)) = (k, Inr (qdisc_line ''cake'' managedEgressHandle
           [''bandwidth'', itoa g @ ''Gbit'', qos_mode cfg, ''nat'', ''dual-srchost'']))"
    and "\<And>k. qe_read E k (redirect_show (ol_Interface lease)) = (k, Inr redirect)"
    and "\<not> hasManagedRedirect redirect (IFBName (qe_hexsum E) (ol_Interface lease))"
  shows "let s' = ((\<lambda>s. fst (recoverLeaseLocked E lease s)) ^^ n) s in
      snd (recoverLeaseLocked E lease s') = Inl OwnershipNotEstablished
    \<and> commands (fst (recoverLeaseLocked E lease s')) = commands s
    \<and> qs_leases (fst (recoverLeaseLocked E lease s')) = qs_leases s"
proof -
  have once: "snd (recoverLeaseLocked E lease s) = Inl OwnershipNotEstablished
    \<and> commands (fst (recoverLeaseLocked E lease s)) = commands s
    \<and> qs_leases (fst (recoverLeaseLocked E lease s)) = qs_leases s" for s
    using assms(2-4) gigabit_line_is_foreign [OF assms(1), of g cfg]
    by (simp add: recoverLeaseLocked_def Let_def andthen_def read_def ask_def recover_root_def
        fail_def ret_def commands_def)
  have "commands (((\<lambda>s. fst (recoverLeaseLocked E lease s)) ^^ n) s) = commands s
      \<and> qs_leases (((\<lambda>s. fst (recoverLeaseLocked E lease s)) ^^ n) s) = qs_leases s"
    by (induction n) (simp_all add: once)
  with once show ?thesis by (simp add: Let_def)
qed

end
