(* ===== verification/QosGuarantees.thy ===== *)
theory QosGuarantees
  imports QosCareful QosSaga QosSignatures
begin

text \<open>
  What the traffic shaper promises: nothing foreign is removed or replaced, installing the chain is a saga,
  a lease tells what is pending, and the states out of which the product does not find its way by itself.
\<close>

subsection \<open>Histories\<close>

text \<open>A row the product can have written: the lease of some inspection, at some stage.\<close>

definition product_lease :: "'k qos_env \<Rightarrow> operation_lease \<Rightarrow> bool" where
  "product_lease E l \<longleftrightarrow>
     (\<exists>n target recovery intent stage egress redirect up ingress ifb.
        l = (new_lease E n target recovery intent (owned_without_ifb egress redirect ifb))\<lparr>ol_Stage := stage\<rparr>
        \<or> l = (new_lease E n target recovery intent (owned_with_ifb egress redirect up ingress ifb))\<lparr>ol_Stage := stage\<rparr>)"

inductive qos_history :: "'k qos_env \<Rightarrow> 'k qos \<Rightarrow> bool" for E where
  install: "qs_log s = [] \<Longrightarrow> qs_leases s = [] \<Longrightarrow> qos_history E s"
| elsewhere: "qos_history E s \<Longrightarrow> qos_history E (s\<lparr>qs_machine := k\<rparr>)"
| stop: "qos_history E s \<Longrightarrow> list_all (product_lease E) ls
    \<Longrightarrow> qos_history E (s\<lparr>qs_machine := k, qs_log := drop n (qs_log s), qs_leases := ls\<rparr>)"
| recover: "qos_history E s \<Longrightarrow> qos_history E (fst (RecoverInterrupted E s))"
| apply_config: "qos_history E s \<Longrightarrow> qos_history E (fst (qos_Apply E cfg s))"
| disable: "qos_history E s \<Longrightarrow> qos_history E (fst (qos_Disable E iface s))"
| apply_current: "qos_history E s \<Longrightarrow> quiet load \<Longrightarrow> qos_history E (fst (ApplyCurrent E iface load s))"
| apply_persist: "qos_history E s \<Longrightarrow> (\<And>op. quiet (persist op))
    \<Longrightarrow> qos_history E (fst (ApplyAndPersist E cfg rollback persist s))"
| apply_current_persist: "qos_history E s \<Longrightarrow> quiet load
    \<Longrightarrow> (\<And>s' s'' c b persist op. load s' = (s'', Inr (c, b, persist)) \<Longrightarrow> quiet (persist op))
    \<Longrightarrow> qos_history E (fst (ApplyCurrentAndPersist E iface load s))"
| netem: "qos_history E s \<Longrightarrow> qos_history E (fst (applyNetem E iface fault s))"
| after_netem: "qos_history E s \<Longrightarrow> qos_history E (fst (locked_RestoreAfterNetem E iface cfg fault s))"
| stress_apply: "qos_history E s \<Longrightarrow> qos_history E (fst (locked_Apply E iface cfg s))"
| observe: "qos_history E s \<Longrightarrow> qos_history E (fst (Observe E iface s))"
| benchmark: "qos_history E s \<Longrightarrow> quiet load \<Longrightarrow> measuring measurePhase
    \<Longrightarrow> qos_history E (fst (BenchmarkCurrent E iface server port load measurePhase s))"

lemma ret_keeps [simp]: "keeps H (\<lambda>s. fst (ret x s))" and fail_keeps [simp]: "keeps H (\<lambda>s. fst (fail e s))"
  by (simp_all add: keeps_def ret_def fail_def)

lemma keeps_quiet: "quiet m \<Longrightarrow> keeps H (\<lambda>s. fst (m s))"
  by (simp add: keeps_def quiet_def)

lemma keeps_andthen:
  assumes m: "keeps H (\<lambda>s. fst (m s))" and f: "\<And>s s' x. m s = (s', Inr x) \<Longrightarrow> keeps H (\<lambda>s. fst (f x s))"
  shows "keeps H (\<lambda>s. fst (andthen m f s))"
  unfolding keeps_def
proof (intro allI impI)
  fix s :: "'a qos"
  assume s: "careful H (qs_log s)" "list_all our_lease (qs_leases s)"
  obtain s1 r1 where 1: "m s = (s1, r1)" by (cases "m s")
  note k1 = keepsD [OF m s 1]
  show "careful H (qs_log (fst (andthen m f s))) \<and> list_all our_lease (qs_leases (fst (andthen m f s)))"
  proof (cases r1)
    case (Inl e)
    with 1 k1 show ?thesis by (simp add: andthen_def)
  next
    case (Inr x)
    from f [OF 1 [unfolded Inr], unfolded keeps_def, rule_format, OF k1] 1 Inr show ?thesis by (simp add: andthen_def)
  qed
qed

lemma keeps_if: "(b \<Longrightarrow> keeps H (\<lambda>s. fst (m s))) \<Longrightarrow> (\<not> b \<Longrightarrow> keeps H (\<lambda>s. fst (m' s)))
    \<Longrightarrow> keeps H (\<lambda>s. fst ((if b then m else m') s))"
  by (cases b) simp_all

lemma written_ours: "product_lease E l \<Longrightarrow> our_lease l"
proof -
  assume "product_lease E l"
  then obtain n target recovery intent stage egress redirect up ingress ifb where
    "l = (new_lease E n target recovery intent (owned_without_ifb egress redirect ifb))\<lparr>ol_Stage := stage\<rparr>
     \<or> l = (new_lease E n target recovery intent (owned_with_ifb egress redirect up ingress ifb))\<lparr>ol_Stage := stage\<rparr>"
    unfolding product_lease_def by blast
  moreover have "our_lease (new_lease E n target recovery intent (owned_without_ifb egress redirect ifb))"
    by (auto simp: our_lease_def new_lease_def owned_without_ifb_def split: prod.split)
  moreover have "our_lease (new_lease E n target recovery intent (owned_with_ifb egress redirect up ingress ifb))"
  proof -
    define o' where "o' = owned_with_ifb egress redirect up ingress ifb"
    have "os_chainOwned o' \<Longrightarrow> os_egressOwned o' \<and> os_ingressOwned o'"
      by (auto simp: o'_def owned_with_ifb_def Let_def split: prod.split)
    with sound_with [of egress redirect up ingress ifb]
    have "os_chainOwned o' \<Longrightarrow> our_signature (os_egressSignature o') \<and> our_signature (os_ingressSignature o')"
      by (auto simp: sound_ownership_def o'_def [symmetric])
    then show ?thesis
      unfolding o'_def [symmetric]
      using our_exported by (auto simp: our_lease_def new_lease_def)
  qed
  ultimately show "our_lease l" by (auto simp: our_lease_def)
qed

lemma careful_drop: "careful H lg \<Longrightarrow> careful H (drop n lg)"
proof (induction n arbitrary: lg)
  case (Suc n)
  have "careful H (tl lg)" using Suc.prems by (cases lg; cases "hd lg") auto
  with Suc.IH [of "tl lg"] show ?case by (simp add: drop_Suc)
qed simp

lemma history_careful:
  assumes "qos_history E s" and d: "\<not> qe_dry E"
  shows "careful (qe_hexsum E) (qs_log s) \<and> list_all our_lease (qs_leases s)"
  using assms(1)
proof induction
  case (stop s ls k n)
  then show ?case by (auto simp: careful_drop list_all_iff dest: written_ours)
next
  case (recover s)
  then show ?case using keeps_RecoverInterrupted [OF d refl] by (auto simp: keeps_def)
next
  case (apply_config s cfg)
  have "keeps (qe_hexsum E) (\<lambda>s. fst (qos_Apply E cfg s))"
    unfolding qos_Apply_def by (rule keeps_if) (simp_all add: safe_keeps [OF safe_applyDurable [OF d refl]])
  with apply_config show ?case by (simp add: keeps_def)
next
  case (disable s iface)
  have "keeps (qe_hexsum E) (\<lambda>s. fst (qos_Disable E iface s))"
    unfolding qos_Disable_def by (rule keeps_if) (simp_all add: safe_keeps [OF safe_applyDurable [OF d refl]])
  with disable show ?case by (simp add: keeps_def)
next
  case (apply_current s load iface)
  have "keeps (qe_hexsum E) (\<lambda>s. fst (ApplyCurrent E iface load s))"
    unfolding ApplyCurrent_def
    by (rule keeps_if, simp, rule keeps_andthen [OF keeps_quiet [OF apply_current.hyps(2)]], intro keeps_if)
      (simp_all add: safe_keeps [OF safe_applyDurable [OF d refl]])
  with apply_current show ?case by (simp add: keeps_def)
next
  case (apply_persist s persist cfg rollback)
  have "keeps (qe_hexsum E) (\<lambda>s. fst (ApplyAndPersist E cfg rollback persist s))"
    unfolding ApplyAndPersist_def
    by (rule keeps_if) (simp_all add: safe_keeps [OF safe_applyAndPersistLocked [OF d refl apply_persist.hyps(2)]])
  with apply_persist show ?case by (simp add: keeps_def)
next
  case (apply_current_persist s load iface)
  have "keeps (qe_hexsum E) (\<lambda>s. fst ((case x of (cfg, rollback, persist) \<Rightarrow>
        if qc_Interface cfg \<noteq> iface then fail StaleInterface else applyAndPersistLocked E cfg rollback persist) s))"
    if "load s0 = (s1, Inr x)" for s0 s1 x
  proof -
    obtain c b p where x: "x = (c, b, p)" by (cases x)
    have "quiet (p op)" for op using apply_current_persist.hyps(3) that x by blast
    then show ?thesis
      unfolding x by (simp, intro impI conjI) (simp_all add: safe_keeps [OF safe_applyAndPersistLocked [OF d refl]])
  qed
  then have "keeps (qe_hexsum E) (\<lambda>s. fst (ApplyCurrentAndPersist E iface load s))"
    unfolding ApplyCurrentAndPersist_def
    by (intro keeps_if keeps_andthen [OF keeps_quiet [OF apply_current_persist.hyps(2)]]) simp_all
  with apply_current_persist show ?case by (simp add: keeps_def)
next
  case (netem s iface fault)
  then show ?case using safe_keeps [OF safe_applyNetem [OF d refl]] by (auto simp: keeps_def)
next
  case (after_netem s iface cfg fault)
  have "keeps (qe_hexsum E) (\<lambda>s. fst (locked_RestoreAfterNetem E iface cfg fault s))"
    unfolding locked_RestoreAfterNetem_def
    by (intro keeps_if) (simp_all add: safe_keeps [OF safe_restoreAfterNetem [OF d refl]])
  with after_netem show ?case by (simp add: keeps_def)
next
  case (stress_apply s iface cfg)
  have "keeps (qe_hexsum E) (\<lambda>s. fst (locked_Apply E iface cfg s))"
    unfolding locked_Apply_def by (intro keeps_if) (simp_all add: safe_keeps [OF safe_qos_apply [OF d refl]])
  with stress_apply show ?case by (simp add: keeps_def)
next
  case (observe s iface)
  have "keeps (qe_hexsum E) (\<lambda>s. fst (Observe E iface s))"
    unfolding Observe_def by (intro keeps_if) (simp_all add: safe_keeps [OF safe_observe])
  with observe show ?case by (simp add: keeps_def)
next
  case (benchmark s load measurePhase iface server port)
  then show ?case using keeps_BenchmarkCurrent [OF d refl benchmark.hyps(3,2)] by (auto simp: keeps_def)
qed simp_all

lemma careful_split: "careful H (after @ Ran cmd r # before) \<Longrightarrow> permitted H cmd before"
proof (induction after)
  case (Cons e after)
  then show ?case by (cases e) simp_all
qed simp

text \<open>C1. In any history of the traffic shaper - changes, stress tests, benchmarks, stops in the middle and
  the recoveries after them, whatever tc and ip answer and whatever others do to the machine in between - every
  command that deletes a root queue, a redirect, a clsact or an IFB comes right after the reading that shows it
  to be the product's own (or empty), and every queue or filter is replaced only when the last reading of it
  shows the kernel's default, nothing, or the product's own.\<close>

theorem nothing_foreign_is_touched:
  assumes "qos_history E s" and "\<not> qe_dry E" and "qs_log s = after @ Ran cmd r # before"
  shows "permitted (qe_hexsum E) cmd before"
  using history_careful [OF assms(1,2)] careful_split [of "qe_hexsum E" after cmd r before] by (simp add: assms(3))

text \<open>A machine with the kernel's default queue, which refuses every command.\<close>

definition refusing_machine :: "unit qos_env" where
  "refusing_machine =
     \<lparr>qe_read = (\<lambda>k cmd. (k, if cmd ! 1 = ''qdisc'' then Inr ''qdisc fq_codel 0: root refcnt 2''
        else if cmd ! 1 = ''filter'' then Inr [] else Inl ''Device does not exist.'')),
      qe_exec = (\<lambda>k cmd. (k, Inl ''Operation not permitted'')),
      qe_dry = False, qe_store = False, qe_broken = (\<lambda>n. False), qe_hexsum = (\<lambda>s. ''0123456789abcdef''),
      qe_uuid = (\<lambda>n. [])\<rparr>"

definition first_start :: "'k \<Rightarrow> 'k qos" where
  "first_start k = \<lparr>qs_machine = k, qs_log = [], qs_leases = [], qs_calls = 0\<rparr>"

theorem nothing_foreign_is_touched_witness:
  "settled ''wan0''
     [Shown (link_show ''ifb-0123456789a'') (Inl ''Device does not exist.''),
      Shown (redirect_show ''wan0'') (Inr []),
      Shown (qdisc_show ''wan0'') (Inr ''qdisc fq_codel 0: root refcnt 2'')]"
proof -
  have "qos_history refusing_machine (first_start ())"
    by (rule qos_history.install) (simp_all add: first_start_def)
  then have h: "qos_history refusing_machine (fst (qos_Apply refusing_machine shaped_link (first_start ())))"
    by (rule qos_history.apply_config)
  have lg: "qs_log (fst (qos_Apply refusing_machine shaped_link (first_start ())))
     = [] @ Ran [''tc'', ''qdisc'', ''replace'', ''dev'', ''wan0'', ''root'', ''handle'', ''cafe:'', ''cake'',
              ''bandwidth'', ''20mbit'', ''diffserv4'', ''nat'', ''dual-srchost''] (Inl ''Operation not permitted'')
       # [Shown (link_show ''ifb-0123456789a'') (Inl ''Device does not exist.''),
          Shown (redirect_show ''wan0'') (Inr []),
          Shown (qdisc_show ''wan0'') (Inr ''qdisc fq_codel 0: root refcnt 2'')]"
    by code_simp
  have "\<not> qe_dry refusing_machine" by (simp add: refusing_machine_def)
  from nothing_foreign_is_touched [OF h this lg] show ?thesis by (simp add: permitted_def Let_def)
qed

subsection \<open>After the fault of the stress test\<close>

text \<open>C7. When the fault has been removed and the configuration cannot be applied again, the repair never puts the
  fault back, although that is what it is for: the closure reads the ownership after its output was replaced by
  what the removal left, so it runs no command, and where the interface shows a default queue it always reports
  a failed compensation.\<close>

theorem fault_is_never_put_back:
  assumes "recheck_after_netem E (qc_Interface cfg) o1 s = (s1, Inr egress)"
    and "applyWithOwnership E cfg
           (o1\<lparr>os_egressOutput := egress, os_egressOwned := False, os_egressForeign := False\<rparr>) [] s1 = (s2, Inl e)"
  shows "commands (fst (reapply_after_netem E cfg o1 s)) = commands s2
    \<and> snd (reapply_after_netem E cfg o1 s) \<in> {Inl e, Inl CompensationFailed}
    \<and> (rootQdisc egress = None \<or> snd (reapply_after_netem E cfg o1 s) = Inl CompensationFailed)"
proof -
  let ?o2 = "o1\<lparr>os_egressOutput := egress, os_egressOwned := False, os_egressForeign := False\<rparr>"
  let ?i = "qc_Interface cfg"
  have root: "case rootQdisc egress of None \<Rightarrow> True | Some qd \<Rightarrow> isReplaceableInitialRoot qd"
    using assms(1)
    by (auto simp: recheck_after_netem_def andthen_def Let_def fail_def ret_def
        split: if_splits option.splits prod.splits sum.splits)
  obtain s3 r3 where 3: "restoreDeletedRoot E ?i egress (os_egressSignature o1) s2 = (s3, r3)"
    by (cases "restoreDeletedRoot E ?i egress (os_egressSignature o1) s2")
  have quiet: "reading (restoreDeletedRoot E ?i egress (os_egressSignature o1))"
    using root unfolding restoreDeletedRoot_def
    by (cases "rootQdisc egress")
      (auto intro!: reading_rules simp: isReplaceableInitialRoot_def replaceableInitialRootQdiscs_def split: if_splits)
  have fails: "\<exists>e'. r3 = Inl e'" if "rootQdisc egress \<noteq> None"
    using root that 3 unfolding restoreDeletedRoot_def
    by (auto simp: andthen_def fail_def isReplaceableInitialRoot_def replaceableInitialRootQdiscs_def
        split: if_splits option.splits prod.splits sum.splits)
  have eq: "reapply_after_netem E cfg o1 s = repairNetem E ?i ?o2 e s2"
    using assms by (simp add: reapply_after_netem_def)
  have rep: "repairNetem E ?i ?o2 e s2 = (s3, Inl (case r3 of Inl _ \<Rightarrow> CompensationFailed | Inr _ \<Rightarrow> e))"
    using 3 by (cases r3) (simp_all add: repairNetem_def repair_def compensate_def)
  show ?thesis
    unfolding eq rep using readingD(2) [OF quiet 3] fails by (cases r3; cases "rootQdisc egress") simp_all
qed

text \<open>A machine that carries the fault, removes it, and then refuses the queue.\<close>

definition faulty_machine :: "bool qos_env" where
  "faulty_machine =
     \<lparr>qe_read = (\<lambda>k cmd. (k, if cmd ! 1 = ''qdisc''
        then Inr (if k then ''qdisc netem 2: root refcnt 2 limit 1000 delay 100ms loss 5%''
                  else ''qdisc fq_codel 0: root refcnt 2'')
        else if cmd ! 1 = ''filter'' then Inr [] else Inl ''Device does not exist.'')),
      qe_exec = (\<lambda>k cmd. if cmd = root_del ''wan0'' then (False, Inr []) else (k, Inl ''Operation not permitted'')),
      qe_dry = False, qe_store = False, qe_broken = (\<lambda>n. False), qe_hexsum = (\<lambda>s. ''0123456789abcdef''),
      qe_uuid = (\<lambda>n. [])\<rparr>"

definition demo_fault :: netem_fault where
  "demo_fault = \<lparr>nf_DelayMs = 100, nf_LossPct = 5\<rparr>"

definition faulty_ownership :: ownershipState where
  "faulty_ownership =
     (owned_without_ifb ''qdisc netem 2: root refcnt 2 limit 1000 delay 100ms loss 5%'' [] ''ifb-0123456789a'')
       \<lparr>os_egressOwned := True, os_egressForeign := False, os_egressSignature := netemRootSignature demo_fault,
        os_chainOwned := True\<rparr>"

theorem fault_is_never_put_back_witness:
  "owned_behind_netem demo_fault
     (owned_without_ifb ''qdisc netem 2: root refcnt 2 limit 1000 delay 100ms loss 5%'' [] ''ifb-0123456789a'')
     = Some faulty_ownership
   \<and> snd (reapply_after_netem faulty_machine shaped_link faulty_ownership (first_start False)) = Inl CompensationFailed"
proof -
  let ?egress = "''qdisc fq_codel 0: root refcnt 2''"
  let ?o2 = "faulty_ownership\<lparr>os_egressOutput := ?egress, os_egressOwned := False, os_egressForeign := False\<rparr>"
  have 1: "snd (recheck_after_netem faulty_machine (qc_Interface shaped_link) faulty_ownership (first_start False)) = Inr ?egress"
    by code_simp
  define s1 where "s1 = fst (recheck_after_netem faulty_machine (qc_Interface shaped_link) faulty_ownership (first_start False))"
  have r: "recheck_after_netem faulty_machine (qc_Interface shaped_link) faulty_ownership (first_start False) = (s1, Inr ?egress)"
    using 1 by (simp add: s1_def prod_eq_iff)
  have 2: "snd (applyWithOwnership faulty_machine shaped_link ?o2 [] s1)
      = Inl (Failure ''apply egress CAKE: apply egress CAKE: Operation not permitted'')"
    unfolding s1_def by code_simp
  define s2 where "s2 = fst (applyWithOwnership faulty_machine shaped_link ?o2 [] s1)"
  have a: "applyWithOwnership faulty_machine shaped_link ?o2 [] s1
      = (s2, Inl (Failure ''apply egress CAKE: apply egress CAKE: Operation not permitted''))"
    using 2 by (simp add: s2_def prod_eq_iff)
  have nn: "rootQdisc ?egress \<noteq> None" by code_simp
  have o1: "owned_behind_netem demo_fault
     (owned_without_ifb ''qdisc netem 2: root refcnt 2 limit 1000 delay 100ms loss 5%'' [] ''ifb-0123456789a'')
     = Some faulty_ownership" by code_simp
  have "snd (reapply_after_netem faulty_machine shaped_link faulty_ownership (first_start False)) = Inl CompensationFailed"
  proof (rule disjE [OF fault_is_never_put_back [OF r a, THEN conjunct2, THEN conjunct2]])
    assume "rootQdisc ?egress = None"
    with nn show ?thesis by (rule notE)
  qed
  with o1 show ?thesis by (rule conjI)
qed

subsection \<open>A stopped operation on a gigabit link\<close>

definition gigabit_config :: qos_config where
  "gigabit_config = shaped_link\<lparr>qc_UploadMbps := 1000\<rparr>"

definition gigabit_lease :: operation_lease where
  "gigabit_lease = new_lease refusing_machine 0 gigabit_config gigabit_config OperationApply
     (owned_without_ifb ''qdisc fq_codel 0: root refcnt 2'' [] ''ifb-0123456789a'')"

definition gigabit_machine :: "unit qos_env" where
  "gigabit_machine = refusing_machine\<lparr>qe_read := (\<lambda>k cmd. (k, if cmd ! 1 = ''qdisc''
        then Inr ''qdisc cake cafe: root refcnt 2 bandwidth 1Gbit diffserv4 nat dual-srchost''
        else if cmd ! 1 = ''filter'' then Inr [] else Inl ''Device does not exist.''))\<rparr>"

theorem gigabit_link_is_not_recovered_witness:
  "snd (recoverLeaseLocked gigabit_machine gigabit_lease (first_start ())) = Inl OwnershipNotEstablished"
proof -
  have "let s' = ((\<lambda>s. fst (recoverLeaseLocked gigabit_machine gigabit_lease s)) ^^ 0) (first_start ()) in
      snd (recoverLeaseLocked gigabit_machine gigabit_lease s') = Inl OwnershipNotEstablished
    \<and> commands (fst (recoverLeaseLocked gigabit_machine gigabit_lease s')) = commands (first_start ())
    \<and> qs_leases (fst (recoverLeaseLocked gigabit_machine gigabit_lease s')) = qs_leases (first_start ())"
  proof (rule gigabit_link_is_not_recovered [where g = 1 and cfg = gigabit_config and redirect = "[]"])
    show "qe_read gigabit_machine k (qdisc_show (ol_Interface gigabit_lease)) = (k, Inr (qdisc_line ''cake'' managedEgressHandle
           [''bandwidth'', itoa 1 @ ''Gbit'', qos_mode gigabit_config, ''nat'', ''dual-srchost'']))" for k
      by (cases k) code_simp
    show "qe_read gigabit_machine k (redirect_show (ol_Interface gigabit_lease)) = (k, Inr [])" for k
      by (cases k) code_simp
    show "ol_BeforeEgress gigabit_lease = None" by code_simp
    show "\<not> hasManagedRedirect [] (IFBName (qe_hexsum gigabit_machine) (ol_Interface gigabit_lease))" by code_simp
  qed
  then show ?thesis by (simp add: Let_def)
qed

end
