(* ===== verification/FwData.thy ===== *)
theory FwData
  imports Prelude "HOL-Library.Char_ord" "HOL-Library.List_Lexorder" "HOL-Library.Product_Lexorder"
begin

text \<open>
  The administrator's firewall as data: rule groups and rules (\<open>internal/storage\<close>), the
  default policies (\<open>internal/firewallrules/policy.go\<close>) and where a group lives in the ruleset
  (\<open>internal/nftables/groups.go\<close>).  Instants are integer nanoseconds, so two groups are equal
  exactly when their JSON with the times in UTC is equal.
\<close>

subsection \<open>Groups and rules\<close>

record fw_group =
  g_ID :: string
  g_Name :: string
  g_ChainName :: string
  g_Position :: int
  g_Enabled :: bool
  g_CondSaddr :: string
  g_CondDaddr :: string
  g_CondIif :: string
  g_Fallthrough :: string
  g_Kind :: string
  g_Scope :: string
  g_ConnState :: string
  g_SchedDays :: string
  g_SchedStart :: string
  g_SchedEnd :: string
  g_CreatedAt :: int
  g_UpdatedAt :: int

record fw_rule =
  r_ID :: string
  r_Position :: int
  r_GroupID :: string
  r_Enabled :: bool
  r_Action :: string
  r_Iif :: string
  r_Oif :: string
  r_Saddr :: string
  r_Daddr :: string
  r_Proto :: string
  r_Dport :: string
  r_Description :: string
  r_CreatedAt :: int
  r_UpdatedAt :: int

definition GroupKindBlockedHosts :: string where "GroupKindBlockedHosts = ''blocked_hosts''"
definition GroupKindBlocklist :: string where "GroupKindBlocklist = ''blocklist''"

text \<open>The keys of \<open>systemGroupForwardRules\<close>.\<close>

definition IsSystemGroup :: "string \<Rightarrow> bool" where
  "IsSystemGroup kind \<longleftrightarrow> kind = GroupKindBlockedHosts \<or> kind = GroupKindBlocklist"

definition ScopeForward :: string where "ScopeForward = ''forward''"
definition ScopeInput :: string where "ScopeInput = ''input''"
definition InputChain :: string where "InputChain = ''input''"
definition ForwardChain :: string where "ForwardChain = ''forward''"

definition GroupScope :: "fw_group \<Rightarrow> string" where
  "GroupScope g = (if g_Scope g = ScopeInput then ScopeInput else ScopeForward)"

definition GroupHostChain :: "fw_group \<Rightarrow> string" where
  "GroupHostChain g =
     (if \<not> IsSystemGroup (g_Kind g) \<and> GroupScope g = ScopeInput then InputChain else ForwardChain)"

subsection \<open>Policies\<close>

datatype policy = PolicyAccept | PolicyDrop

text \<open>The value of the setting: absent is accept, anything else unknown is an error (\<open>None\<close>).\<close>

definition parse_policy :: "string \<Rightarrow> policy option" where
  "parse_policy raw =
     (if raw = [] then Some PolicyAccept
      else if raw = ''accept'' then Some PolicyAccept
      else if raw = ''drop'' then Some PolicyDrop
      else None)"

definition policy_string :: "policy \<Rightarrow> string" where
  "policy_string p = (case p of PolicyAccept \<Rightarrow> ''accept'' | PolicyDrop \<Rightarrow> ''drop'')"

lemma parse_policy_string [simp]: "parse_policy (policy_string p) = Some p"
  by (cases p) (simp_all add: parse_policy_def policy_string_def)

subsection \<open>The state a window restores\<close>

record fw_state =
  st_Groups :: "fw_group list"
  st_Rules :: "fw_rule list"
  st_Policy :: "policy option"
  st_ForwardPolicy :: "policy option"
  st_WANMgmtClosed :: "bool option"

text \<open>
  \<open>missingSystemGroupKinds\<close> and \<open>validateSnapshotGroups\<close>: a state can be restored when it has
  groups, the two of the system among them.
\<close>

definition missingSystemGroupKinds :: "fw_group list \<Rightarrow> string list" where
  "missingSystemGroupKinds groups =
     filter (\<lambda>kind. \<not> list_ex (\<lambda>g. g_Kind g = kind) groups)
       [GroupKindBlockedHosts, GroupKindBlocklist]"

definition validateSnapshotGroups :: "fw_group list \<Rightarrow> bool" where
  "validateSnapshotGroups groups \<longleftrightarrow> groups \<noteq> [] \<and> missingSystemGroupKinds groups = []"

lemma validateSnapshotGroups_iff:
  "validateSnapshotGroups groups \<longleftrightarrow>
     (\<exists>g \<in> set groups. g_Kind g = GroupKindBlockedHosts)
     \<and> (\<exists>g \<in> set groups. g_Kind g = GroupKindBlocklist)"
  by (auto simp: validateSnapshotGroups_def missingSystemGroupKinds_def list_ex_iff)

end
