(* ===== verification/RevertMerge.thy ===== *)
theory RevertMerge
  imports FwData
begin

text \<open>
  The three-way merge of a reversion (\<open>internal/firewallrules/revert_merge.go\<close>): the state
  before the window, the state its mutation left and the state of now give the state to
  restore.  What diverges from the mutation's state was written by somebody else and stays,
  unless it reaches the input chain.

  The audit texts are a datatype: which group or rule was preserved or dropped, and whether
  it existed before the window.
\<close>

subsection \<open>Indexes\<close>

definition indexGroups :: "fw_state \<Rightarrow> string \<Rightarrow> fw_group option" where
  "indexGroups st = foldl (\<lambda>m g. m(g_ID g \<mapsto> g)) Map.empty (st_Groups st)"

definition indexRules :: "fw_state \<Rightarrow> string \<Rightarrow> fw_rule option" where
  "indexRules st = foldl (\<lambda>m r. m(r_ID r \<mapsto> r)) Map.empty (st_Rules st)"

definition union_ids :: "('a \<Rightarrow> string) \<Rightarrow> 'a list \<Rightarrow> 'a list \<Rightarrow> 'a list \<Rightarrow> string list" where
  "union_ids f a b c = sort (remdups (map f (a @ b @ c)))"

subsection \<open>Decisions\<close>

definition groupTouchesInput :: "fw_group option \<Rightarrow> bool" where
  "groupTouchesInput g = (case g of None \<Rightarrow> False | Some g \<Rightarrow> GroupHostChain g = InputChain)"

definition ruleTouchesInput :: "fw_rule option \<Rightarrow> (string \<Rightarrow> fw_group option) \<Rightarrow> bool" where
  "ruleTouchesInput r groups =
     (case r of None \<Rightarrow> False | Some r \<Rightarrow> groupTouchesInput (groups (r_GroupID r)))"

definition keep_group :: "fw_state \<Rightarrow> fw_state \<Rightarrow> fw_state \<Rightarrow> string \<Rightarrow> bool" where
  "keep_group base applied current i \<longleftrightarrow>
     indexGroups applied i \<noteq> indexGroups current i
     \<and> \<not> groupTouchesInput (indexGroups base i)
     \<and> \<not> groupTouchesInput (indexGroups applied i)
     \<and> \<not> groupTouchesInput (indexGroups current i)"

definition keep_rule :: "fw_state \<Rightarrow> fw_state \<Rightarrow> fw_state \<Rightarrow> string \<Rightarrow> bool" where
  "keep_rule base applied current i \<longleftrightarrow>
     indexRules applied i \<noteq> indexRules current i
     \<and> \<not> ruleTouchesInput (indexRules base i) (indexGroups base)
     \<and> \<not> ruleTouchesInput (indexRules applied i) (indexGroups applied)
     \<and> \<not> ruleTouchesInput (indexRules current i) (indexGroups current)"

datatype merge_note =
    GroupNote bool fw_group
  | GroupGone "fw_group option"
  | RuleNote bool fw_rule
  | RuleGone "fw_rule option"

record revert_merge =
  rm_target :: fw_state
  rm_preserved :: "merge_note list"
  rm_dropped :: "merge_note list"

definition merged :: "revert_merge \<Rightarrow> bool" where
  "merged m \<longleftrightarrow> rm_preserved m \<noteq> [] \<or> rm_dropped m \<noteq> []"

text \<open>What one identifier contributes: its row of the result, and what is preserved or dropped.\<close>

definition group_step ::
  "fw_state \<Rightarrow> fw_state \<Rightarrow> fw_state \<Rightarrow> string \<Rightarrow> fw_group list \<times> merge_note list" where
  "group_step base applied current i =
     (if \<not> keep_group base applied current i
      then (case indexGroups base i of None \<Rightarrow> [] | Some b \<Rightarrow> [b], [])
      else case indexGroups current i of
             Some c \<Rightarrow> ([c], [GroupNote (indexGroups base i \<noteq> None) c])
           | None \<Rightarrow> ([], [GroupGone (indexGroups base i)]))"

definition rule_step ::
  "fw_state \<Rightarrow> fw_state \<Rightarrow> fw_state \<Rightarrow> string set \<Rightarrow> string
     \<Rightarrow> fw_rule list \<times> merge_note list \<times> merge_note list" where
  "rule_step base applied current kept i =
     (if \<not> keep_rule base applied current i
      then (case indexRules base i of None \<Rightarrow> [] | Some b \<Rightarrow> [b], [], [])
      else case indexRules current i of
             Some c \<Rightarrow> (if r_GroupID c \<in> kept
                        then ([c], [RuleNote (indexRules base i \<noteq> None) c], [])
                        else ([], [], [RuleNote (indexRules base i \<noteq> None) c]))
           | None \<Rightarrow> ([], [RuleGone (indexRules base i)], []))"

subsection \<open>Renumbering\<close>

definition renumberGroups :: "fw_group list \<Rightarrow> fw_group list" where
  "renumberGroups groups =
     (let gs = sort_key (\<lambda>g. (g_Position g, g_CreatedAt g, g_ID g)) groups
      in map (\<lambda>i. (gs ! i)\<lparr>g_Position := int i\<rparr>) [0..<length gs])"

definition renumberRules :: "fw_rule list \<Rightarrow> fw_rule list" where
  "renumberRules rules =
     (let rs = sort_key (\<lambda>r. (r_Position r, r_CreatedAt r, r_ID r)) rules
      in map (\<lambda>i. (rs ! i)\<lparr>r_Position := int i\<rparr>) [0..<length rs])"

subsection \<open>The merge\<close>

definition merged_groups :: "fw_state \<Rightarrow> fw_state \<Rightarrow> fw_state \<Rightarrow> fw_group list" where
  "merged_groups base applied current =
     concat (map (fst \<circ> group_step base applied current)
       (union_ids g_ID (st_Groups base) (st_Groups applied) (st_Groups current)))"

definition mergeRevertTarget :: "fw_state \<Rightarrow> fw_state \<Rightarrow> fw_state \<Rightarrow> revert_merge" where
  "mergeRevertTarget base applied current =
     (let gids = union_ids g_ID (st_Groups base) (st_Groups applied) (st_Groups current);
          gsteps = map (group_step base applied current) gids;
          groups = merged_groups base applied current;
          kept = g_ID ` set groups;
          rids = union_ids r_ID (st_Rules base) (st_Rules applied) (st_Rules current);
          rsteps = map (rule_step base applied current kept) rids;
          rules = concat (map fst rsteps);
          preserved = concat (map snd gsteps) @ concat (map (fst \<circ> snd) rsteps);
          dropped = concat (map (snd \<circ> snd) rsteps)
      in if preserved = [] \<and> dropped = []
         then \<lparr>rm_target = base, rm_preserved = [], rm_dropped = []\<rparr>
         else \<lparr>rm_target = \<lparr>st_Groups = renumberGroups groups, st_Rules = renumberRules rules,
                            st_Policy = None, st_ForwardPolicy = None, st_WANMgmtClosed = None\<rparr>,
               rm_preserved = preserved, rm_dropped = dropped\<rparr>)"

subsection \<open>Looking a row up\<close>

definition erase_g :: "fw_group \<Rightarrow> fw_group" where "erase_g g = g\<lparr>g_Position := 0\<rparr>"
definition erase_r :: "fw_rule \<Rightarrow> fw_rule" where "erase_r r = r\<lparr>r_Position := 0\<rparr>"

lemma erase_ID [simp]: "g_ID (erase_g g) = g_ID g" "r_ID (erase_r r) = r_ID r"
  by (simp_all add: erase_g_def erase_r_def)

definition unique_ids :: "fw_state \<Rightarrow> bool" where
  "unique_ids st \<longleftrightarrow> distinct (map g_ID (st_Groups st)) \<and> distinct (map r_ID (st_Rules st))"

lemma indexGroups_find:
  "unique_ids st \<Longrightarrow> indexGroups st i = List.find (\<lambda>g. g_ID g = i) (st_Groups st)"
  by (auto simp: indexGroups_def unique_ids_def foldl_index_find split: option.splits)

lemma indexRules_find:
  "unique_ids st \<Longrightarrow> indexRules st i = List.find (\<lambda>r. r_ID r = i) (st_Rules st)"
  by (auto simp: indexRules_def unique_ids_def foldl_index_find split: option.splits)

lemma index_key:
  "foldl (\<lambda>m x. m(f x \<mapsto> x)) Map.empty xs i = Some x \<Longrightarrow> f x = i \<and> x \<in> set xs"
proof -
  have "foldl (\<lambda>m x. m(f x \<mapsto> x)) m xs i = Some x \<Longrightarrow> f x = i \<and> x \<in> set xs \<or> m i = Some x" for m
    by (induction xs arbitrary: m) (fastforce split: if_splits)+
  from this [of Map.empty] show "?thesis" if "foldl (\<lambda>m x. m(f x \<mapsto> x)) Map.empty xs i = Some x"
    using that by simp
qed

lemma indexGroups_ID: "indexGroups st i = Some g \<Longrightarrow> g_ID g = i \<and> g \<in> set (st_Groups st)"
  using index_key [of g_ID] by (simp add: indexGroups_def)

lemma indexRules_ID: "indexRules st i = Some r \<Longrightarrow> r_ID r = i \<and> r \<in> set (st_Rules st)"
  using index_key [of r_ID] by (simp add: indexRules_def)

lemma group_step_key: "g \<in> set (fst (group_step base applied current i)) \<Longrightarrow> g_ID g = i"
  by (auto simp: group_step_def dest: indexGroups_ID indexGroups_ID [OF sym] split: if_splits option.splits)

lemma group_step_length: "length (fst (group_step base applied current i)) \<le> 1"
  by (simp add: group_step_def split: option.splits)

lemma rule_step_key: "r \<in> set (fst (rule_step base applied current kept i)) \<Longrightarrow> r_ID r = i"
  by (auto simp: rule_step_def dest: indexRules_ID indexRules_ID [OF sym] split: if_splits option.splits)

lemma rule_step_length: "length (fst (rule_step base applied current kept i)) \<le> 1"
  by (simp add: rule_step_def split: option.splits)

lemma union_ids_simps [simp]:
  "distinct (union_ids f a b c)" "set (union_ids f a b c) = f ` (set a \<union> set b \<union> set c)"
  by (auto simp: union_ids_def)

lemma merged_groups_distinct: "distinct (map g_ID (merged_groups base applied current))"
  unfolding merged_groups_def comp_def
  by (rule distinct_concat_keyed) (simp_all add: group_step_key group_step_length [simplified])

lemma outside_groups:
  assumes "i \<notin> set (union_ids g_ID (st_Groups base) (st_Groups applied) (st_Groups current))"
  shows "group_step base applied current i = ([], [])"
proof -
  have "indexGroups st i = None" if "st \<in> {base, applied, current}" for st
    using assms that by (cases "indexGroups st i") (auto dest: indexGroups_ID)
  then show ?thesis by (simp add: group_step_def keep_group_def)
qed

lemma outside_rules:
  assumes "i \<notin> set (union_ids r_ID (st_Rules base) (st_Rules applied) (st_Rules current))"
  shows "rule_step base applied current kept i = ([], [], [])"
proof -
  have "indexRules st i = None" if "st \<in> {base, applied, current}" for st
    using assms that by (cases "indexRules st i") (auto dest: indexRules_ID)
  then show ?thesis by (simp add: rule_step_def keep_rule_def)
qed

lemma find_merged_groups:
  "List.find (\<lambda>g. g_ID g = i) (merged_groups base applied current) =
     (case fst (group_step base applied current i) of [] \<Rightarrow> None | g # _ \<Rightarrow> Some g)"
proof -
  have "List.find (\<lambda>g. g_ID g = i) (merged_groups base applied current) =
     (if i \<in> set (union_ids g_ID (st_Groups base) (st_Groups applied) (st_Groups current))
         \<and> fst (group_step base applied current i) \<noteq> []
      then Some (hd (fst (group_step base applied current i))) else None)"
    unfolding merged_groups_def comp_def
    by (rule find_concat_keyed) (simp_all add: group_step_key)
  then show ?thesis
    using outside_groups [of i base applied current]
    by (cases "i \<in> set (union_ids g_ID (st_Groups base) (st_Groups applied) (st_Groups current))")
      (simp_all split: list.split)
qed

subsection \<open>Renumbering keeps the rows\<close>

lemma map_nth_renumber: "map (\<lambda>i. h ((xs ! i)\<lparr>g_Position := int i\<rparr>)) [0..<length xs] = map h' xs"
  if "\<And>x p. h (x\<lparr>g_Position := p\<rparr>) = h' x" for h h' and xs :: "fw_group list"
  by (rule nth_equalityI) (simp_all add: that)

lemma map_nth_renumber_r: "map (\<lambda>i. h ((xs ! i)\<lparr>r_Position := int i\<rparr>)) [0..<length xs] = map h' xs"
  if "\<And>x p. h (x\<lparr>r_Position := p\<rparr>) = h' x" for h h' and xs :: "fw_rule list"
  by (rule nth_equalityI) (simp_all add: that)

lemma renumberGroups_erase:
  "mset (map erase_g (renumberGroups gs)) = mset (map erase_g gs)"
proof -
  have "map erase_g (renumberGroups gs)
      = map erase_g (sort_key (\<lambda>g. (g_Position g, g_CreatedAt g, g_ID g)) gs)"
    unfolding renumberGroups_def Let_def map_map comp_def
    by (rule map_nth_renumber) (simp add: erase_g_def)
  then show ?thesis by (simp only: mset_map mset_sort)
qed

lemma renumberRules_erase:
  "mset (map erase_r (renumberRules rs)) = mset (map erase_r rs)"
proof -
  have "map erase_r (renumberRules rs)
      = map erase_r (sort_key (\<lambda>r. (r_Position r, r_CreatedAt r, r_ID r)) rs)"
    unfolding renumberRules_def Let_def map_map comp_def
    by (rule map_nth_renumber_r) (simp add: erase_r_def)
  then show ?thesis by (simp only: mset_map mset_sort)
qed

lemma same_erased_IDs:
  "mset (map erase_g xs) = mset (map erase_g ys) \<Longrightarrow> mset (map g_ID xs) = mset (map g_ID ys)"
proof -
  assume "mset (map erase_g xs) = mset (map erase_g ys)"
  then have "image_mset g_ID (mset (map erase_g xs)) = image_mset g_ID (mset (map erase_g ys))" by simp
  then show ?thesis by (simp add: image_mset.compositionality comp_def)
qed

lemma same_erased_IDs_r:
  "mset (map erase_r xs) = mset (map erase_r ys) \<Longrightarrow> mset (map r_ID xs) = mset (map r_ID ys)"
proof -
  assume "mset (map erase_r xs) = mset (map erase_r ys)"
  then have "image_mset r_ID (mset (map erase_r xs)) = image_mset r_ID (mset (map erase_r ys))" by simp
  then show ?thesis by (simp add: image_mset.compositionality comp_def)
qed

lemma find_renumberGroups:
  assumes "distinct (map g_ID gs)"
  shows "map_option erase_g (List.find (\<lambda>g. g_ID g = i) (renumberGroups gs))
       = map_option erase_g (List.find (\<lambda>g. g_ID g = i) gs)"
    and "distinct (map g_ID (renumberGroups gs))"
proof -
  note e = renumberGroups_erase [of gs]
  show d: "distinct (map g_ID (renumberGroups gs))"
    using same_erased_IDs [OF e] assms by (metis mset_eq_imp_distinct_iff)
  have "List.find (\<lambda>g. g_ID g = i) (map erase_g (renumberGroups gs))
      = List.find (\<lambda>g. g_ID g = i) (map erase_g gs)"
    by (rule find_key_permuted [OF e, of g_ID _ i]) (use d in \<open>simp_all add: comp_def\<close>)
  then show "map_option erase_g (List.find (\<lambda>g. g_ID g = i) (renumberGroups gs))
       = map_option erase_g (List.find (\<lambda>g. g_ID g = i) gs)"
    by (simp add: find_map comp_def)
qed

lemma find_renumberRules:
  assumes "distinct (map r_ID rs)"
  shows "map_option erase_r (List.find (\<lambda>r. r_ID r = i) (renumberRules rs))
       = map_option erase_r (List.find (\<lambda>r. r_ID r = i) rs)"
    and "distinct (map r_ID (renumberRules rs))"
proof -
  note e = renumberRules_erase [of rs]
  show d: "distinct (map r_ID (renumberRules rs))"
    using same_erased_IDs_r [OF e] assms by (metis mset_eq_imp_distinct_iff)
  have "List.find (\<lambda>r. r_ID r = i) (map erase_r (renumberRules rs))
      = List.find (\<lambda>r. r_ID r = i) (map erase_r rs)"
    by (rule find_key_permuted [OF e, of r_ID _ i]) (use d in \<open>simp_all add: comp_def\<close>)
  then show "map_option erase_r (List.find (\<lambda>r. r_ID r = i) (renumberRules rs))
       = map_option erase_r (List.find (\<lambda>r. r_ID r = i) rs)"
    by (simp add: find_map comp_def)
qed

subsection \<open>The three-way specification\<close>

definition merged_rules :: "fw_state \<Rightarrow> fw_state \<Rightarrow> fw_state \<Rightarrow> fw_rule list" where
  "merged_rules base applied current =
     concat (map (fst \<circ> rule_step base applied current (g_ID ` set (merged_groups base applied current)))
       (union_ids r_ID (st_Rules base) (st_Rules applied) (st_Rules current)))"

lemma merged_rules_distinct: "distinct (map r_ID (merged_rules base applied current))"
  unfolding merged_rules_def comp_def
  by (rule distinct_concat_keyed) (simp_all add: rule_step_key rule_step_length [simplified])

lemma find_merged_rules:
  "List.find (\<lambda>r. r_ID r = i) (merged_rules base applied current) =
     (case fst (rule_step base applied current (g_ID ` set (merged_groups base applied current)) i) of
        [] \<Rightarrow> None | r # _ \<Rightarrow> Some r)"
proof -
  let ?k = "g_ID ` set (merged_groups base applied current)"
  have "List.find (\<lambda>r. r_ID r = i) (merged_rules base applied current) =
     (if i \<in> set (union_ids r_ID (st_Rules base) (st_Rules applied) (st_Rules current))
         \<and> fst (rule_step base applied current ?k i) \<noteq> []
      then Some (hd (fst (rule_step base applied current ?k i))) else None)"
    unfolding merged_rules_def comp_def
    by (rule find_concat_keyed) (simp_all add: rule_step_key)
  then show ?thesis
    using outside_rules [of i base applied current ?k]
    by (cases "i \<in> set (union_ids r_ID (st_Rules base) (st_Rules applied) (st_Rules current))")
      (simp_all split: list.split)
qed

text \<open>The target, in its two cases.\<close>

lemma mergeRevertTarget_cases:
  obtains (literal) "mergeRevertTarget base applied current
        = \<lparr>rm_target = base, rm_preserved = [], rm_dropped = []\<rparr>"
      "\<And>i. \<not> keep_group base applied current i" "\<And>i. \<not> keep_rule base applied current i"
  | (mixed) "merged (mergeRevertTarget base applied current)"
      "rm_target (mergeRevertTarget base applied current) =
         \<lparr>st_Groups = renumberGroups (merged_groups base applied current),
          st_Rules = renumberRules (merged_rules base applied current),
          st_Policy = None, st_ForwardPolicy = None, st_WANMgmtClosed = None\<rparr>"
proof -
  let ?gids = "union_ids g_ID (st_Groups base) (st_Groups applied) (st_Groups current)"
  let ?rids = "union_ids r_ID (st_Rules base) (st_Rules applied) (st_Rules current)"
  let ?kept = "g_ID ` set (merged_groups base applied current)"
  let ?p = "concat (map snd (map (group_step base applied current) ?gids))
      @ concat (map (fst \<circ> snd) (map (rule_step base applied current ?kept) ?rids))"
  let ?d = "concat (map (snd \<circ> snd) (map (rule_step base applied current ?kept) ?rids))"
  show thesis
  proof (cases "?p = [] \<and> ?d = []")
    case True
    have lit: "mergeRevertTarget base applied current
        = \<lparr>rm_target = base, rm_preserved = [], rm_dropped = []\<rparr>"
      unfolding mergeRevertTarget_def Let_def using True by (simp only: if_True simp_thms)
    have g: "\<not> keep_group base applied current i" for i
    proof (cases "i \<in> set ?gids")
      case in_ids: True
      then have "snd (group_step base applied current i) = []" using True by fastforce
      then show ?thesis by (auto simp: group_step_def split: if_splits option.splits)
    next
      case False
      from outside_groups [OF this] show ?thesis
        by (auto simp: group_step_def split: if_splits option.splits)
    qed
    have r: "\<not> keep_rule base applied current i" for i
    proof (cases "i \<in> set ?rids")
      case in_ids: True
      then have "snd (rule_step base applied current ?kept i) = ([], [])"
        using True by (fastforce simp: prod_eq_iff)
      then show ?thesis by (auto simp: rule_step_def split: if_splits option.splits)
    next
      case False
      from outside_rules [OF this, of ?kept] show ?thesis
        by (auto simp: rule_step_def split: if_splits option.splits)
    qed
    show thesis by (rule literal [OF lit g r])
  next
    case False
    then have eq: "mergeRevertTarget base applied current =
        \<lparr>rm_target = \<lparr>st_Groups = renumberGroups (merged_groups base applied current),
           st_Rules = renumberRules (merged_rules base applied current),
           st_Policy = None, st_ForwardPolicy = None, st_WANMgmtClosed = None\<rparr>,
         rm_preserved = ?p, rm_dropped = ?d\<rparr>"
      unfolding mergeRevertTarget_def Let_def merged_rules_def
      by (simp only: if_False map_map comp_def)
    show thesis
      by (rule mixed) (use False in \<open>simp_all only: eq merged_def revert_merge.select_convs, blast\<close>)
  qed
qed

lemma kept_iff:
  "(k \<in> g_ID ` set (merged_groups base applied current)) =
     (indexGroups \<lparr>st_Groups = renumberGroups (merged_groups base applied current), st_Rules = rs,
         st_Policy = p, st_ForwardPolicy = q, st_WANMgmtClosed = w\<rparr> k \<noteq> None)"
proof -
  let ?m = "merged_groups base applied current"
  have d: "distinct (map g_ID (renumberGroups ?m))"
    using find_renumberGroups(2) merged_groups_distinct by blast
  have "map_option erase_g (List.find (\<lambda>g. g_ID g = k) (renumberGroups ?m))
      = map_option erase_g (List.find (\<lambda>g. g_ID g = k) ?m)"
    by (rule find_renumberGroups(1) [OF merged_groups_distinct])
  then have "(List.find (\<lambda>g. g_ID g = k) (renumberGroups ?m) = None)
      = (List.find (\<lambda>g. g_ID g = k) ?m = None)"
    by (metis map_option_is_None)
  moreover have "indexGroups \<lparr>st_Groups = renumberGroups ?m, st_Rules = rs, st_Policy = p,
      st_ForwardPolicy = q, st_WANMgmtClosed = w\<rparr> k = List.find (\<lambda>g. g_ID g = k) (renumberGroups ?m)"
    by (simp add: indexGroups_def foldl_index_find [OF d] split: option.split)
  moreover have "(k \<in> g_ID ` set ?m) = (List.find (\<lambda>g. g_ID g = k) ?m \<noteq> None)"
    by (auto simp: find_None_iff)
  ultimately show ?thesis by simp
qed

lemma merge_same:
  "\<lbrakk>indexGroups applied = indexGroups current; indexRules applied = indexRules current\<rbrakk>
   \<Longrightarrow> mergeRevertTarget base applied current
       = \<lparr>rm_target = base, rm_preserved = [], rm_dropped = []\<rparr>"
proof -
  assume g: "indexGroups applied = indexGroups current" and r: "indexRules applied = indexRules current"
  have "snd (group_step base applied current i) = []" for i
    using g by (simp add: group_step_def keep_group_def)
  moreover have "snd (rule_step base applied current kept i) = ([], [])" for i kept
    using r by (simp add: rule_step_def keep_rule_def)
  ultimately show ?thesis by (simp add: mergeRevertTarget_def Let_def)
qed

subsection \<open>Properties\<close>

text \<open>Reaching the input chain, as a property of a state: what a merge must not preserve.\<close>

definition group_reaches_input :: "fw_state \<Rightarrow> string \<Rightarrow> bool" where
  "group_reaches_input st i \<longleftrightarrow> (\<exists>g. indexGroups st i = Some g \<and> GroupHostChain g = InputChain)"

definition rule_reaches_input :: "fw_state \<Rightarrow> string \<Rightarrow> bool" where
  "rule_reaches_input st j \<longleftrightarrow> (\<exists>r. indexRules st j = Some r \<and> group_reaches_input st (r_GroupID r))"

lemma keep_iff:
  "keep_group base applied current i \<longleftrightarrow>
     indexGroups applied i \<noteq> indexGroups current i \<and> \<not> group_reaches_input base i
     \<and> \<not> group_reaches_input applied i \<and> \<not> group_reaches_input current i"
  "keep_rule base applied current j \<longleftrightarrow>
     indexRules applied j \<noteq> indexRules current j \<and> \<not> rule_reaches_input base j
     \<and> \<not> rule_reaches_input applied j \<and> \<not> rule_reaches_input current j"
  by (auto simp: keep_group_def keep_rule_def groupTouchesInput_def ruleTouchesInput_def
      group_reaches_input_def rule_reaches_input_def split: option.splits)

text \<open>C21. A reversion undoes the window and nothing else: for every identifier the restored
  group is the one from before the window, unless its present version differs from what the
  window left and neither of the three versions reaches the input chain, in which case the
  present version (or absence) stays; the same holds for rules, where a preserved rule whose
  group disappears is dropped.  Only positions are renumbered.\<close>

theorem revert_is_three_way:
  assumes "t = rm_target (mergeRevertTarget base applied current)"
  shows "map_option erase_g (indexGroups t i) = map_option erase_g
           (if indexGroups applied i \<noteq> indexGroups current i \<and> \<not> group_reaches_input base i
               \<and> \<not> group_reaches_input applied i \<and> \<not> group_reaches_input current i
            then indexGroups current i else indexGroups base i)
       \<and> map_option erase_r (indexRules t j) = map_option erase_r
           (if indexRules applied j \<noteq> indexRules current j \<and> \<not> rule_reaches_input base j
               \<and> \<not> rule_reaches_input applied j \<and> \<not> rule_reaches_input current j
            then (case indexRules current j of
                    Some c \<Rightarrow> if indexGroups t (r_GroupID c) \<noteq> None then Some c else None
                  | None \<Rightarrow> None)
            else indexRules base j)"
proof (cases rule: mergeRevertTarget_cases [of base applied current])
  case literal
  then show ?thesis unfolding keep_iff [symmetric] by (simp add: assms)
next
  case mixed
  let ?mg = "merged_groups base applied current" and ?mr = "merged_rules base applied current"
  have t: "t = \<lparr>st_Groups = renumberGroups ?mg, st_Rules = renumberRules ?mr,
          st_Policy = None, st_ForwardPolicy = None, st_WANMgmtClosed = None\<rparr>"
    using mixed(2) assms by simp
  have u: "unique_ids t"
    unfolding t unique_ids_def
    using find_renumberGroups(2) [OF merged_groups_distinct] find_renumberRules(2) [OF merged_rules_distinct]
    by simp
  have g: "map_option erase_g (indexGroups t i) = map_option erase_g
     (case fst (group_step base applied current i) of [] \<Rightarrow> None | g # _ \<Rightarrow> Some g)"
    unfolding indexGroups_find [OF u] unfolding t fw_state.select_convs
    by (simp only: find_renumberGroups(1) [OF merged_groups_distinct] find_merged_groups)
  have r: "map_option erase_r (indexRules t j) = map_option erase_r
     (case fst (rule_step base applied current (g_ID ` set ?mg) j) of [] \<Rightarrow> None | r # _ \<Rightarrow> Some r)"
    unfolding indexRules_find [OF u] unfolding t fw_state.select_convs
    by (simp only: find_renumberRules(1) [OF merged_rules_distinct] find_merged_rules)
  have k: "(k \<in> g_ID ` set ?mg) = (indexGroups t k \<noteq> None)" for k
    unfolding t by (rule kept_iff)
  show ?thesis
    unfolding keep_iff [symmetric] g r rule_step_def k
    by (auto simp: group_step_def split: option.split)
qed

text \<open>Without concurrent writes the reversion restores the snapshot literally, positions and
  policies included, and reports nothing preserved.\<close>

theorem revert_without_divergence_is_literal:
  assumes "indexGroups applied = indexGroups current" and "indexRules applied = indexRules current"
  shows "mergeRevertTarget base applied current
           = \<lparr>rm_target = base, rm_preserved = [], rm_dropped = []\<rparr>"
  using assms by (rule merge_same)

definition demo_group :: "string \<Rightarrow> string \<Rightarrow> int \<Rightarrow> string \<Rightarrow> fw_group" where
  "demo_group i name pos scope =
     \<lparr>g_ID = i, g_Name = name, g_ChainName = i, g_Position = pos, g_Enabled = True, g_CondSaddr = [],
      g_CondDaddr = [], g_CondIif = [], g_Fallthrough = ''continue'', g_Kind = [], g_Scope = scope,
      g_ConnState = [], g_SchedDays = [], g_SchedStart = [], g_SchedEnd = [],
      g_CreatedAt = 0, g_UpdatedAt = 0\<rparr>"

definition demo_rule :: "string \<Rightarrow> string \<Rightarrow> fw_rule" where
  "demo_rule i grp =
     \<lparr>r_ID = i, r_Position = 0, r_GroupID = grp, r_Enabled = True, r_Action = ''drop'', r_Iif = [],
      r_Oif = [], r_Saddr = [], r_Daddr = [], r_Proto = [], r_Dport = [], r_Description = [],
      r_CreatedAt = 0, r_UpdatedAt = 0\<rparr>"

definition demo_state :: "fw_group list \<Rightarrow> fw_rule list \<Rightarrow> fw_state" where
  "demo_state gs rs = \<lparr>st_Groups = gs, st_Rules = rs, st_Policy = Some PolicyAccept,
     st_ForwardPolicy = Some PolicyAccept, st_WANMgmtClosed = Some False\<rparr>"

theorem revert_without_divergence_is_literal_witness:
  "rm_target (mergeRevertTarget (demo_state [demo_group ''a'' ''a'' 3 ''input''] [])
      (demo_state [demo_group ''a'' ''b'' 3 ''input''] []) (demo_state [demo_group ''a'' ''b'' 3 ''input''] []))
     = demo_state [demo_group ''a'' ''a'' 3 ''input''] []"
  by (subst revert_without_divergence_is_literal) simp_all

theorem revert_is_three_way_witness:
  "\<exists>t. t = rm_target (mergeRevertTarget (demo_state [demo_group ''a'' ''a'' 3 []] [])
      (demo_state [demo_group ''a'' ''a'' 3 []] []) (demo_state [demo_group ''a'' ''b'' 3 []] []))
     \<and> map_option erase_g (indexGroups t ''a'') = Some (erase_g (demo_group ''a'' ''b'' 3 []))"
proof -
  let ?a = "demo_state [demo_group ''a'' ''a'' 3 []] []" and ?c = "demo_state [demo_group ''a'' ''b'' 3 []] []"
  have "keep_group ?a ?a ?c ''a''" by code_simp
  moreover have "indexGroups ?c ''a'' = Some (demo_group ''a'' ''b'' 3 [])"
    by (simp add: indexGroups_def demo_state_def demo_group_def)
  ultimately show ?thesis
    using revert_is_three_way [OF refl, of ?a ?a ?c "''a''", folded keep_iff] by simp
qed

lemma mixed_groups:
  "keep_group base applied current i \<Longrightarrow>
   st_Groups (rm_target (mergeRevertTarget base applied current))
     = renumberGroups (merged_groups base applied current)"
  by (cases rule: mergeRevertTarget_cases [of base applied current]) simp_all

definition gap_groups :: "string \<Rightarrow> int \<Rightarrow> int \<Rightarrow> fw_group list" where
  "gap_groups name y x = [demo_group ''a'' ''a'' 0 [], demo_group ''y'' name y [], demo_group ''x'' ''x'' x []]"

lemma gap_merges:
  "keep_group (demo_state (gap_groups ''y'' 3 5) []) (demo_state (gap_groups ''y'' 3 5) [])
     (demo_state (gap_groups ''z'' 3 5) []) ''y''"
  "keep_group (demo_state (gap_groups ''z'' 1 2) []) (demo_state (gap_groups ''y'' 3 5) [])
     (demo_state (gap_groups ''z'' 3 5) []) ''y''"
  "merged_groups (demo_state (gap_groups ''y'' 3 5) []) (demo_state (gap_groups ''y'' 3 5) [])
     (demo_state (gap_groups ''z'' 3 5) [])
   = [demo_group ''a'' ''a'' 0 [], demo_group ''x'' ''x'' 5 [], demo_group ''y'' ''z'' 3 []]"
  "merged_groups (demo_state (gap_groups ''z'' 1 2) []) (demo_state (gap_groups ''y'' 3 5) [])
     (demo_state (gap_groups ''z'' 3 5) [])
   = [demo_group ''a'' ''a'' 0 [], demo_group ''x'' ''x'' 2 [], demo_group ''y'' ''z'' 3 []]"
  "renumberGroups [demo_group ''a'' ''a'' 0 [], demo_group ''x'' ''x'' 5 [], demo_group ''y'' ''z'' 3 []]
     = gap_groups ''z'' 1 2"
  "map g_ID (renumberGroups [demo_group ''a'' ''a'' 0 [], demo_group ''x'' ''x'' 2 [], demo_group ''y'' ''z'' 3 []])
     = [''a'', ''x'', ''y'']"
  by code_simp+

lemma mergeRevertTarget_groups_only:
  "st_Groups base = st_Groups base' \<Longrightarrow> keep_group base applied current i \<Longrightarrow>
   st_Groups (rm_target (mergeRevertTarget base' applied current))
     = st_Groups (rm_target (mergeRevertTarget base applied current))"
proof -
  assume eq: "st_Groups base = st_Groups base'" and k: "keep_group base applied current i"
  have idx: "indexGroups base = indexGroups base'" by (rule ext) (simp add: indexGroups_def eq)
  have "keep_group base applied current = keep_group base' applied current"
    by (rule ext) (simp add: keep_group_def idx)
  moreover from this have "group_step base applied current = group_step base' applied current"
    by (intro ext) (simp add: group_step_def idx split: option.split)
  ultimately show ?thesis
    using k mixed_groups [of base applied current i] mixed_groups [of base' applied current i]
    by (simp add: merged_groups_def eq)
qed

text \<open>The merge is not idempotent, so a reversion that is retried after its transaction failed
  can restore the groups in another order than the one it had decided: with gaps in the
  positions, merging again from the merged snapshot swaps two groups.\<close>

theorem revert_merge_not_idempotent:
  "\<exists>base applied current.
     unique_ids base \<and> applied = base \<and> unique_ids current
     \<and> map g_ID (st_Groups (rm_target (mergeRevertTarget base applied current))) = [''a'', ''y'', ''x'']
     \<and> map g_ID (st_Groups (rm_target
           (mergeRevertTarget (rm_target (mergeRevertTarget base applied current)) applied current)))
         = [''a'', ''x'', ''y'']"
proof -
  let ?base = "demo_state (gap_groups ''y'' 3 5) []" and ?cur = "demo_state (gap_groups ''z'' 3 5) []"
  let ?t = "rm_target (mergeRevertTarget ?base ?base ?cur)"
  have "unique_ids ?base" "unique_ids ?cur"
    by (simp_all add: unique_ids_def demo_state_def demo_group_def gap_groups_def)
  moreover have t: "st_Groups ?t = gap_groups ''z'' 1 2"
    unfolding mixed_groups [OF gap_merges(1)] gap_merges ..
  moreover have "st_Groups (rm_target (mergeRevertTarget ?t ?base ?cur))
      = st_Groups (rm_target (mergeRevertTarget (demo_state (gap_groups ''z'' 1 2) []) ?base ?cur))"
    by (rule mergeRevertTarget_groups_only [OF _ gap_merges(2)]) (simp add: t, simp add: demo_state_def)
  then have "map g_ID (st_Groups (rm_target (mergeRevertTarget ?t ?base ?cur))) = [''a'', ''x'', ''y'']"
    unfolding mixed_groups [OF gap_merges(2)] gap_merges(4) by (simp only: gap_merges(6))
  ultimately show ?thesis
    by (intro exI [of _ ?base] exI [of _ ?cur]) (simp add: gap_groups_def demo_group_def)
qed

text \<open>A rule the window moved into an input group is restored into its old group even when
  somebody deleted that group meanwhile: the result holds a rule without a group, which is in
  the panel and in no chain.\<close>

theorem revert_merge_can_orphan_a_rule:
  "\<exists>base applied current r.
     indexRules (rm_target (mergeRevertTarget base applied current)) ''r'' = Some r
     \<and> indexGroups (rm_target (mergeRevertTarget base applied current)) (r_GroupID r) = None
     \<and> (\<forall>q \<in> set (st_Rules current). indexGroups current (r_GroupID q) \<noteq> None)"
proof -
  let ?h = "demo_group ''h'' ''h'' 1 ''input''" and ?g = "demo_group ''g'' ''g'' 0 []"
  let ?base = "demo_state [?g, ?h] [demo_rule ''r'' ''g'']"
  let ?applied = "demo_state [?g, ?h] [demo_rule ''r'' ''h'']"
  let ?cur = "demo_state [?h] [demo_rule ''r'' ''h'']"
  have "indexRules (rm_target (mergeRevertTarget ?base ?applied ?cur)) ''r'' = Some (demo_rule ''r'' ''g'')"
    by code_simp
  moreover have "indexGroups (rm_target (mergeRevertTarget ?base ?applied ?cur)) ''g'' = None"
    by code_simp
  moreover have "\<forall>q \<in> set (st_Rules ?cur). indexGroups ?cur (r_GroupID q) \<noteq> None"
    by (simp add: demo_state_def demo_rule_def indexGroups_def demo_group_def)
  ultimately show ?thesis by (metis (no_types, lifting) demo_rule_def fw_rule.select_convs(3))
qed

theorem revert_merge_can_orphan_a_rule_witness:
  "\<exists>st r. indexRules st ''r'' = Some r \<and> indexGroups st (r_GroupID r) = None"
  using revert_merge_can_orphan_a_rule by blast

end
