(* ===== verification/ConfirmWindow.thy ===== *)
theory ConfirmWindow
  imports RevertMerge
begin

text \<open>
  Confirm or revert (\<open>internal/firewallrules/confirm.go\<close>): a change that may cut the
  administrator off is applied with 90 seconds to confirm it; otherwise the state before it
  comes back, in the database and in the live firewall.

  \<open>fwsys\<close> is what the operations read and write: the rows of \<open>firewall_groups\<close> and
  \<open>firewall_rules\<close> in insertion order, the three settings as stored, the row of
  \<open>pending_firewall_change\<close>, the firewall in the kernel (as the content it was rendered from),
  the boot file, and the two fields of the service that a restart clears.  Each operation
  holds \<open>s.mu\<close> and is one function; it takes no time, so its environment has one reading of
  each clock, in nanoseconds (the wall clock since 1970).

  \<open>ce_db site call\<close> says whether a database call succeeds, by place of the call; a failed
  call changes nothing.  \<open>ce_nft\<close> is the kernel's answer to a rendered firewall.  A stored
  snapshot is a \<open>blob\<close>: the JSON of a state, the empty text, or something that is not JSON of
  that form; marshalling followed by unmarshalling is the identity.
\<close>

subsection \<open>Data\<close>

definition second :: int where "second = 1000000000"
definition ConfirmWindow :: int where "ConfirmWindow = 90 * second"
definition recentRevertWindow :: int where "recentRevertWindow = 5 * 60 * second"

datatype blob = NoBlob | Garbled | Json fw_state

record pending_change =
  pc_ID :: string
  pc_Snapshot :: blob
  pc_AppliedState :: blob
  pc_ExpiresAt :: int
  pc_AppliedBy :: string
  pc_Summary :: string
  pc_CreatedAt :: int
  pc_RevertingAt :: int

definition AppliedStateOrSnapshot :: "pending_change \<Rightarrow> blob" where
  "AppliedStateOrSnapshot p = (if pc_AppliedState p \<noteq> NoBlob then pc_AppliedState p else pc_Snapshot p)"

text \<open>The column is in seconds; zero is read back as the zero time.\<close>

definition Reverting :: "pending_change \<Rightarrow> bool" where
  "Reverting p \<longleftrightarrow> pc_RevertingAt p \<noteq> 0"

datatype reason =
    ByOperator | PreviousUnfinished | DeadlinePassed | Restarted | RestartedLate
  | SettledByNextChange

record revert_record =
  rr_summary :: string
  rr_reason :: reason
  rr_at :: int

record fw_live =
  lv_Groups :: "(fw_group \<times> fw_rule list) list"
  lv_Input :: policy
  lv_Forward :: policy
  lv_WANClosed :: bool

datatype nft_outcome = NftApplied | NftRefused fw_live bool

datatype fw_site = AtOpen | AtSettled | AtTarget | AtReconcile | AtPersist | AtRevert

datatype fw_call =
    ListGroups | ListRules | GetInputPolicy | GetForwardPolicy | GetWANClosed
  | GetPending | SavePending | SetAppliedState | SetPendingSnapshot | MarkReverting | ClearPending
  | ReplaceAll | SetInput | SetForward | SetWAN | WriteAudit

datatype fw_event =
    FwPreserved string "merge_note list" "merge_note list"
  | FwReverted string string reason
  | FwSystemGroupsMissing
  | FwSystemGroupsOK
  | FwApplyStatus bool
  | FwAudit string string string
  | FwSnapshotNft

datatype conflict =
    AlreadyPending string string | TooLate string reason | NothingPending
  | Mismatch string string | RevertStarted

datatype reconcile_error = LoadFailed | MissingSystemGroups | ApplyFailed

datatype fw_error =
    ReadPendingFailed | ReadStateFailed | BadSnapshot | Unrestorable | ReplaceFailed
  | SaveFailed | ClearFailed | MarkFailed | SnapshotUpdateFailed | AppliedUpdateFailed
  | Conflict conflict | ReconcileFailed reconcile_error | RevertFailed fw_error

record fw_env =
  ce_db :: "fw_site \<Rightarrow> fw_call \<Rightarrow> bool"
  ce_nft :: "fw_live \<Rightarrow> fw_live \<Rightarrow> nft_outcome"
  ce_halfway :: "fw_live \<Rightarrow> fw_live"
  ce_dry :: bool
  ce_persist :: bool
  ce_alerter :: bool
  ce_now :: int
  ce_mono :: int
  ce_uuid :: string

record fwsys =
  w_groups :: "fw_group list"
  w_rules :: "fw_rule list"
  w_input :: string
  w_forward :: string
  w_wan :: string
  w_pending :: "pending_change option"
  w_live :: fw_live
  w_boot :: "fw_live option"
  w_monoDeadline :: "(string \<times> int) option"
  w_lastRevert :: "revert_record option"
  w_log :: "fw_event list"

definition fw_emit :: "fw_event list \<Rightarrow> fwsys \<Rightarrow> fwsys" where
  "fw_emit es s = s\<lparr>w_log := w_log s @ es\<rparr>"

subsection \<open>Reading the state\<close>

definition ListFirewallGroups :: "fwsys \<Rightarrow> fw_group list" where
  "ListFirewallGroups s = sort_key (\<lambda>g. (g_Position g, g_CreatedAt g)) (w_groups s)"

definition ListFirewallRules :: "fwsys \<Rightarrow> fw_rule list" where
  "ListFirewallRules s = sort_key (\<lambda>r. (r_Position r, r_CreatedAt r)) (w_rules s)"

definition InputPolicy :: "fw_env \<Rightarrow> fw_site \<Rightarrow> fwsys \<Rightarrow> policy option" where
  "InputPolicy env site s = (if ce_db env site GetInputPolicy then parse_policy (w_input s) else None)"

definition ForwardPolicy :: "fw_env \<Rightarrow> fw_site \<Rightarrow> fwsys \<Rightarrow> policy option" where
  "ForwardPolicy env site s = (if ce_db env site GetForwardPolicy then parse_policy (w_forward s) else None)"

definition WANMgmtClosed :: "fw_env \<Rightarrow> fw_site \<Rightarrow> fwsys \<Rightarrow> bool option" where
  "WANMgmtClosed env site s = (if ce_db env site GetWANClosed then Some (w_wan s = ''1'') else None)"

definition readState :: "fw_env \<Rightarrow> fw_site \<Rightarrow> fwsys \<Rightarrow> fw_state option" where
  "readState env site s =
     (if \<not> ce_db env site ListGroups then None
      else if \<not> ce_db env site ListRules then None
      else case InputPolicy env site s of None \<Rightarrow> None | Some p \<Rightarrow>
        (case ForwardPolicy env site s of None \<Rightarrow> None | Some f \<Rightarrow>
          (case WANMgmtClosed env site s of None \<Rightarrow> None | Some w \<Rightarrow>
             Some \<lparr>st_Groups = ListFirewallGroups s, st_Rules = ListFirewallRules s,
                   st_Policy = Some p, st_ForwardPolicy = Some f, st_WANMgmtClosed = Some w\<rparr>)))"

definition SnapshotState :: "fw_env \<Rightarrow> fwsys \<Rightarrow> blob option" where
  "SnapshotState env s = map_option Json (readState env AtOpen s)"

text \<open>The canonical form holds the groups and rules only.\<close>

definition canonicalState :: "fw_state \<Rightarrow> fw_state" where
  "canonicalState st = \<lparr>st_Groups = st_Groups st, st_Rules = st_Rules st,
     st_Policy = None, st_ForwardPolicy = None, st_WANMgmtClosed = None\<rparr>"

definition stateMatchesSnapshot :: "fw_env \<Rightarrow> blob \<Rightarrow> fwsys \<Rightarrow> fw_error + bool" where
  "stateMatchesSnapshot env snapshot s =
     (case snapshot of
        Json want \<Rightarrow> (case readState env AtSettled s of
            None \<Rightarrow> Inl ReadStateFailed
          | Some now \<Rightarrow> Inr (canonicalState want = canonicalState now))
      | _ \<Rightarrow> Inl BadSnapshot)"

definition RevertSettled :: "fw_env \<Rightarrow> pending_change \<Rightarrow> fwsys \<Rightarrow> fw_error + bool" where
  "RevertSettled env p s =
     (if \<not> Reverting p then Inr False else stateMatchesSnapshot env (pc_Snapshot p) s)"

subsection \<open>The pending row\<close>

text \<open>The result of \<open>GetPendingChange\<close>: an error, or the row if there is one.\<close>

definition GetPendingChange :: "fw_env \<Rightarrow> fw_site \<Rightarrow> fwsys \<Rightarrow> fw_error + pending_change option" where
  "GetPendingChange env site s =
     (if ce_db env site GetPending then Inr (w_pending s) else Inl ReadPendingFailed)"

text \<open>A second row is refused by the table; the instants are stored in seconds.\<close>

definition SavePendingChange :: "fw_env \<Rightarrow> pending_change \<Rightarrow> fwsys \<Rightarrow> fwsys option" where
  "SavePendingChange env p s =
     (if ce_db env AtOpen SavePending \<and> w_pending s = None
      then Some (s\<lparr>w_pending := Some (p\<lparr>pc_ExpiresAt := pc_ExpiresAt p div second * second,
                                          pc_RevertingAt := 0\<rparr>)\<rparr>)
      else None)"

definition update_pending :: "string \<Rightarrow> (pending_change \<Rightarrow> pending_change) \<Rightarrow> fwsys \<Rightarrow> fwsys" where
  "update_pending i f s = s\<lparr>w_pending := map_option (\<lambda>p. if pc_ID p = i then f p else p) (w_pending s)\<rparr>"

definition SetPendingAppliedState :: "fw_env \<Rightarrow> string \<Rightarrow> blob \<Rightarrow> fwsys \<Rightarrow> fwsys option" where
  "SetPendingAppliedState env i b s =
     (if ce_db env AtOpen SetAppliedState
      then Some (update_pending i (\<lambda>p. p\<lparr>pc_AppliedState := b\<rparr>) s) else None)"

definition SetPendingSnapshot_row :: "fw_env \<Rightarrow> string \<Rightarrow> blob \<Rightarrow> fwsys \<Rightarrow> fwsys option" where
  "SetPendingSnapshot_row env i b s =
     (if ce_db env AtRevert SetPendingSnapshot
      then Some (update_pending i (\<lambda>p. p\<lparr>pc_Snapshot := b\<rparr>) s) else None)"

definition MarkPendingReverting :: "fw_env \<Rightarrow> string \<Rightarrow> int \<Rightarrow> fwsys \<Rightarrow> fwsys option" where
  "MarkPendingReverting env i t s =
     (if \<not> ce_db env AtRevert MarkReverting then None
      else case w_pending s of
             None \<Rightarrow> None
           | Some p \<Rightarrow> if pc_ID p = i
                       then Some (s\<lparr>w_pending := Some (p\<lparr>pc_RevertingAt := t div second\<rparr>)\<rparr>)
                       else None)"

definition ClearPendingChange :: "fw_env \<Rightarrow> fwsys \<Rightarrow> fwsys option" where
  "ClearPendingChange env s =
     (if ce_db env AtRevert ClearPending then Some (s\<lparr>w_pending := None\<rparr>) else None)"

text \<open>
  \<open>ReplaceFirewallGroupsAndRules\<close>: one transaction, refused without the system groups and by
  the keys of the tables (identifiers and chain names are unique).
\<close>

definition ReplaceFirewallGroupsAndRules ::
  "fw_env \<Rightarrow> fw_group list \<Rightarrow> fw_rule list \<Rightarrow> fwsys \<Rightarrow> fwsys option" where
  "ReplaceFirewallGroupsAndRules env groups rules s =
     (if groups = [] \<or> missingSystemGroupKinds groups \<noteq> [] then None
      else if \<not> ce_db env AtRevert ReplaceAll then None
      else if distinct (map g_ID groups) \<and> distinct (map g_ChainName groups) \<and> distinct (map r_ID rules)
      then Some (s\<lparr>w_groups := groups, w_rules := rules\<rparr>)
      else None)"

subsection \<open>Reconciliation and the boot file\<close>

definition UnconfirmedChangePending :: "fw_env \<Rightarrow> fwsys \<Rightarrow> bool option" where
  "UnconfirmedChangePending env s =
     (case GetPendingChange env AtPersist s of Inl _ \<Rightarrow> None | Inr p \<Rightarrow> Some (p \<noteq> None))"

definition persistBlocked :: "fw_env \<Rightarrow> fwsys \<Rightarrow> bool" where
  "persistBlocked env s =
     (case UnconfirmedChangePending env s of None \<Rightarrow> True | Some pending \<Rightarrow> pending)"

definition Persist :: "fw_env \<Rightarrow> fwsys \<Rightarrow> fwsys" where
  "Persist env s =
     (if ce_dry env then s
      else if persistBlocked env s then s
      else if ce_persist env then s\<lparr>w_boot := Some (w_live s)\<rparr>
      else s)"

text \<open>What a group and a rule are for the renderer: without instants.\<close>

definition ToStoredGroup :: "fw_group \<Rightarrow> fw_group" where
  "ToStoredGroup g = g\<lparr>g_CreatedAt := 0, g_UpdatedAt := 0\<rparr>"

definition stored_rule :: "fw_rule \<Rightarrow> fw_rule" where
  "stored_rule r = r\<lparr>r_GroupID := [], r_CreatedAt := 0, r_UpdatedAt := 0\<rparr>"

definition StoredGroupsWithRules :: "fwsys \<Rightarrow> fw_rule list \<Rightarrow> (fw_group \<times> fw_rule list) list" where
  "StoredGroupsWithRules s rules =
     map (\<lambda>g. (ToStoredGroup g, map stored_rule (filter (\<lambda>r. r_GroupID r = g_ID g) rules)))
       (ListFirewallGroups s)"

definition StoredGroups :: "fw_env \<Rightarrow> fwsys \<Rightarrow> (fw_group \<times> fw_rule list) list option" where
  "StoredGroups env s =
     (if ce_db env AtReconcile ListRules \<and> ce_db env AtReconcile ListGroups
      then Some (StoredGroupsWithRules s (ListFirewallRules s)) else None)"

definition ensureSystemGroupsPresent :: "(fw_group \<times> fw_rule list) list \<Rightarrow> bool" where
  "ensureSystemGroupsPresent groups \<longleftrightarrow> missingSystemGroupKinds (map fst groups) = []"

text \<open>
  The reconstruction of the chains.  The three settings are read on the way, and a failed or
  unknown one stops the pass, leaving in the kernel what was written until then
  (\<open>ce_halfway\<close>).  A kernel that refuses part of the chains says what it holds and whether
  both structural chains were rebuilt, in which case the boot file is written all the same.
\<close>

definition reconcileGroups ::
  "fw_env \<Rightarrow> (fw_group \<times> fw_rule list) list \<Rightarrow> fwsys \<Rightarrow> fwsys \<times> reconcile_error option" where
  "reconcileGroups env groups s =
     (if ce_dry env then (s, None)
      else case (ForwardPolicy env AtReconcile s, InputPolicy env AtReconcile s,
                 WANMgmtClosed env AtReconcile s) of
        (Some f, Some i, Some w) \<Rightarrow>
          (let want = \<lparr>lv_Groups = groups, lv_Input = i, lv_Forward = f, lv_WANClosed = w\<rparr>
           in case ce_nft env want (w_live s) of
                NftApplied \<Rightarrow> (Persist env (s\<lparr>w_live := want\<rparr>), None)
              | NftRefused left rebuilt \<Rightarrow>
                  (if rebuilt then Persist env (s\<lparr>w_live := left\<rparr>) else s\<lparr>w_live := left\<rparr>,
                   Some ApplyFailed))
      | _ \<Rightarrow> (s\<lparr>w_live := ce_halfway env (w_live s)\<rparr>, Some ApplyFailed))"

definition Reconcile :: "fw_env \<Rightarrow> fwsys \<Rightarrow> fwsys \<times> reconcile_error option" where
  "Reconcile env s =
     (case StoredGroups env s of
        None \<Rightarrow> (fw_emit [FwApplyStatus False] s, Some LoadFailed)
      | Some groups \<Rightarrow>
          if \<not> ensureSystemGroupsPresent groups
          then (fw_emit (FwApplyStatus False # (if ce_alerter env then [FwSystemGroupsMissing] else [])) s,
                Some MissingSystemGroups)
          else let (s1, err) = reconcileGroups env groups s
               in (fw_emit (FwApplyStatus (err = None)
                     # (if err = None \<and> ce_alerter env then [FwSystemGroupsOK] else [])) s1, err))"

definition persistBootRuleset :: "fw_env \<Rightarrow> fwsys \<Rightarrow> fwsys" where
  "persistBootRuleset env s = Persist env s"

definition clearWindowMemory :: "string \<Rightarrow> fwsys \<Rightarrow> fwsys" where
  "clearWindowMemory i s =
     (case w_monoDeadline s of
        Some (j, _) \<Rightarrow> if j = i then s\<lparr>w_monoDeadline := None\<rparr> else s
      | None \<Rightarrow> s)"

definition recentRevert :: "fw_env \<Rightarrow> fwsys \<Rightarrow> revert_record option" where
  "recentRevert env s =
     (case w_lastRevert s of None \<Rightarrow> None
      | Some r \<Rightarrow> if recentRevertWindow < ce_now env - rr_at r then None else Some r)"

subsection \<open>Opening, confirming, discarding\<close>

definition openWindowLocked ::
  "fw_env \<Rightarrow> blob \<Rightarrow> string \<Rightarrow> string \<Rightarrow> fwsys \<Rightarrow> fwsys \<times> (fw_error + string)" where
  "openWindowLocked env snapshot applied_by summary s =
     (case snapshot of
        Json parsed \<Rightarrow>
          if \<not> validateSnapshotGroups (st_Groups parsed) then (s, Inl Unrestorable)
          else (case GetPendingChange env AtOpen s of
              Inl e \<Rightarrow> (s, Inl e)
            | Inr existing \<Rightarrow>
              (let (s1, err) =
                 (case existing of
                    None \<Rightarrow> (s, None)
                  | Some old \<Rightarrow>
                     (if RevertSettled env old s \<noteq> Inr True
                      then (s, Some (Conflict (AlreadyPending (pc_Summary old) (pc_AppliedBy old))))
                      else case ClearPendingChange env s of
                             None \<Rightarrow> (s, Some ClearFailed)
                           | Some s' \<Rightarrow>
                               ((clearWindowMemory (pc_ID old) s')\<lparr>w_lastRevert := Some
                                  \<lparr>rr_summary = pc_Summary old, rr_reason = SettledByNextChange,
                                   rr_at = ce_now env\<rparr>\<rparr>, None)))
               in case err of
                    Some e \<Rightarrow> (s1, Inl e)
                  | None \<Rightarrow>
                     (let p = \<lparr>pc_ID = ce_uuid env, pc_Snapshot = snapshot, pc_AppliedState = NoBlob,
                               pc_ExpiresAt = ce_now env + ConfirmWindow, pc_AppliedBy = applied_by,
                               pc_Summary = summary, pc_CreatedAt = ce_now env, pc_RevertingAt = 0\<rparr>
                      in case SavePendingChange env p s1 of
                           None \<Rightarrow> (s1, Inl SaveFailed)
                         | Some s2 \<Rightarrow>
                             (s2\<lparr>w_monoDeadline := Some (pc_ID p, ce_mono env + ConfirmWindow)\<rparr>,
                              Inr (pc_ID p)))))
      | _ \<Rightarrow> (s, Inl BadSnapshot))"

definition OpenConfirmWindow ::
  "fw_env \<Rightarrow> string \<Rightarrow> string \<Rightarrow> fwsys \<Rightarrow> fwsys \<times> (fw_error + string)" where
  "OpenConfirmWindow env applied_by summary s =
     (case SnapshotState env s of
        None \<Rightarrow> (s, Inl ReadStateFailed)
      | Some snapshot \<Rightarrow> openWindowLocked env snapshot applied_by summary s)"

definition windowMismatch :: "pending_change \<Rightarrow> fw_error" where
  "windowMismatch p = Conflict (Mismatch (pc_Summary p) (pc_AppliedBy p))"

definition ConfirmPending :: "fw_env \<Rightarrow> string \<Rightarrow> fwsys \<Rightarrow> fwsys \<times> fw_error option" where
  "ConfirmPending env i s =
     (case GetPendingChange env AtOpen s of
        Inl e \<Rightarrow> (s, Some e)
      | Inr None \<Rightarrow>
          (s, Some (Conflict (case recentRevert env s of
                                Some r \<Rightarrow> TooLate (rr_summary r) (rr_reason r)
                              | None \<Rightarrow> NothingPending)))
      | Inr (Some p) \<Rightarrow>
          if pc_ID p \<noteq> i then (s, Some (windowMismatch p))
          else if Reverting p then (s, Some (Conflict RevertStarted))
          else case ClearPendingChange env s of
                 None \<Rightarrow> (s, Some ClearFailed)
               | Some s1 \<Rightarrow> (persistBootRuleset env (clearWindowMemory (pc_ID p) s1), None))"

definition DiscardWindow :: "fw_env \<Rightarrow> string \<Rightarrow> fwsys \<Rightarrow> fwsys \<times> fw_error option" where
  "DiscardWindow env i s =
     (case GetPendingChange env AtOpen s of
        Inl e \<Rightarrow> (s, Some e)
      | Inr None \<Rightarrow> (s, None)
      | Inr (Some p) \<Rightarrow>
          if pc_ID p \<noteq> i then (s, Some (windowMismatch p))
          else if Reverting p then (s, Some (Conflict RevertStarted))
          else case ClearPendingChange env s of
                 None \<Rightarrow> (s, Some ClearFailed)
               | Some s1 \<Rightarrow> (clearWindowMemory (pc_ID p) s1, None))"

definition FinishSettledRevert :: "fw_env \<Rightarrow> fwsys \<Rightarrow> fwsys \<times> (fw_error + bool)" where
  "FinishSettledRevert env s =
     (case GetPendingChange env AtOpen s of
        Inl e \<Rightarrow> (s, Inl e)
      | Inr None \<Rightarrow> (s, Inr False)
      | Inr (Some p) \<Rightarrow>
          if \<not> Reverting p then (s, Inr False)
          else case ClearPendingChange env s of
                 None \<Rightarrow> (s, Inl ClearFailed)
               | Some s1 \<Rightarrow>
                   ((persistBootRuleset env (clearWindowMemory (pc_ID p) s1))\<lparr>w_lastRevert := Some
                      \<lparr>rr_summary = pc_Summary p, rr_reason = SettledByNextChange, rr_at = ce_now env\<rparr>\<rparr>,
                    Inr True))"

definition MarkWindowApplied :: "fw_env \<Rightarrow> string \<Rightarrow> fwsys \<Rightarrow> fwsys \<times> fw_error option" where
  "MarkWindowApplied env i s =
     (if i = [] then (s, None)
      else case SnapshotState env s of
             None \<Rightarrow> (s, Some ReadStateFailed)
           | Some b \<Rightarrow> (case SetPendingAppliedState env i b s of
                          None \<Rightarrow> (s, Some AppliedUpdateFailed)
                        | Some s1 \<Rightarrow> (s1, None)))"

subsection \<open>Reverting\<close>

text \<open>The target of the reversion, recorded as the new snapshot when it is a mixture.\<close>

definition revertTarget ::
  "fw_env \<Rightarrow> pending_change \<Rightarrow> fw_state \<Rightarrow> fwsys \<Rightarrow> fwsys \<times> (fw_error + revert_merge)" where
  "revertTarget env p base s =
     (let plain = \<lparr>rm_target = base, rm_preserved = [], rm_dropped = []\<rparr>
      in case AppliedStateOrSnapshot p of
           Json applied \<Rightarrow>
             (case readState env AtTarget s of
                None \<Rightarrow> (s, Inl ReadStateFailed)
              | Some current \<Rightarrow>
                 (let m = mergeRevertTarget base applied current
                  in if \<not> merged m then (s, Inr plain)
                     else if \<not> validateSnapshotGroups (st_Groups (rm_target m)) then (s, Inr plain)
                     else case SetPendingSnapshot_row env (pc_ID p) (Json (rm_target m)) s of
                            None \<Rightarrow> (s, Inl SnapshotUpdateFailed)
                          | Some s1 \<Rightarrow> (s1, Inr m)))
         | _ \<Rightarrow> (s, Inr plain))"

definition recordPreserved :: "fw_env \<Rightarrow> pending_change \<Rightarrow> revert_merge \<Rightarrow> fwsys \<Rightarrow> fwsys" where
  "recordPreserved env p m s =
     (if merged m \<and> ce_db env AtRevert WriteAudit
      then fw_emit [FwPreserved (pc_ID p) (rm_preserved m) (rm_dropped m)] s else s)"

text \<open>The settings of the target; a write that fails is only logged.\<close>

definition restore_settings :: "fw_env \<Rightarrow> fw_state \<Rightarrow> fwsys \<Rightarrow> fwsys" where
  "restore_settings env t s =
     (let s1 = (case st_Policy t of Some p \<Rightarrow> if ce_db env AtRevert SetInput
                   then s\<lparr>w_input := policy_string p\<rparr> else s | None \<Rightarrow> s);
          s2 = (case st_ForwardPolicy t of Some p \<Rightarrow> if ce_db env AtRevert SetForward
                   then s1\<lparr>w_forward := policy_string p\<rparr> else s1 | None \<Rightarrow> s1)
      in case st_WANMgmtClosed t of Some b \<Rightarrow> if ce_db env AtRevert SetWAN
                   then s2\<lparr>w_wan := (if b then ''1'' else ''0'')\<rparr> else s2 | None \<Rightarrow> s2)"

definition finishRevert ::
  "fw_env \<Rightarrow> pending_change \<Rightarrow> reason \<Rightarrow> fwsys \<Rightarrow> fwsys \<times> fw_error option" where
  "finishRevert env p why s =
     (let (s1, err) = Reconcile env s
      in case err of
           Some e \<Rightarrow> (s1, Some (RevertFailed (ReconcileFailed e)))
         | None \<Rightarrow> (case ClearPendingChange env s1 of
               None \<Rightarrow> (s1, Some (RevertFailed ClearFailed))
             | Some s2 \<Rightarrow>
                 ((persistBootRuleset env (clearWindowMemory (pc_ID p) s2))\<lparr>w_lastRevert := Some
                    \<lparr>rr_summary = pc_Summary p, rr_reason = why, rr_at = ce_now env\<rparr>\<rparr>, None)))"

definition revert ::
  "fw_env \<Rightarrow> pending_change \<Rightarrow> reason \<Rightarrow> bool \<Rightarrow> fwsys \<Rightarrow> fwsys \<times> fw_error option" where
  "revert env p why alert s =
     (if Reverting p then finishRevert env p why s
      else case pc_Snapshot p of
        Json base \<Rightarrow>
          if \<not> validateSnapshotGroups (st_Groups base) then (s, Some (RevertFailed Unrestorable))
          else (let (s1, r) = revertTarget env p base s
            in case r of
                 Inl e \<Rightarrow> (s1, Some (RevertFailed e))
               | Inr m \<Rightarrow>
                   (case ReplaceFirewallGroupsAndRules env (st_Groups (rm_target m)) (st_Rules (rm_target m)) s1 of
                      None \<Rightarrow> (s1, Some (RevertFailed ReplaceFailed))
                    | Some s2 \<Rightarrow>
                       (let s3 = recordPreserved env p m (restore_settings env (rm_target m) s2)
                        in case MarkPendingReverting env (pc_ID p) (ce_now env) s3 of
                             None \<Rightarrow> (s3, Some (RevertFailed MarkFailed))
                           | Some s4 \<Rightarrow>
                               finishRevert env p why
                                 (if alert \<and> ce_alerter env
                                  then fw_emit [FwReverted (pc_Summary p) (pc_AppliedBy p) why] s4
                                  else s4))))
      | _ \<Rightarrow> (s, Some (RevertFailed BadSnapshot)))"

definition RevertPending :: "fw_env \<Rightarrow> string \<Rightarrow> fwsys \<Rightarrow> fwsys \<times> fw_error option" where
  "RevertPending env i s =
     (case GetPendingChange env AtOpen s of
        Inl e \<Rightarrow> (s, Some e)
      | Inr None \<Rightarrow> (s, Some (Conflict NothingPending))
      | Inr (Some p) \<Rightarrow>
          if pc_ID p \<noteq> i then (s, Some (windowMismatch p)) else revert env p ByOperator False s)"

text \<open>The deadline: the monotonic one for a window opened by this process, else the stored one.\<close>

definition windowExpired :: "fw_env \<Rightarrow> pending_change \<Rightarrow> fwsys \<Rightarrow> bool" where
  "windowExpired env p s =
     (case w_monoDeadline s of
        Some (j, d) \<Rightarrow> if j = pc_ID p then d \<le> ce_mono env else pc_ExpiresAt p \<le> ce_now env
      | None \<Rightarrow> pc_ExpiresAt p \<le> ce_now env)"

definition SecondsLeft :: "fw_env \<Rightarrow> pending_change option \<Rightarrow> fwsys \<Rightarrow> int" where
  "SecondsLeft env p s =
     (case p of None \<Rightarrow> 0 | Some p \<Rightarrow>
        (let wall = pc_ExpiresAt p - ce_now env;
             left = (case w_monoDeadline s of
                       Some (j, d) \<Rightarrow> if j = pc_ID p then d - ce_mono env else wall
                     | None \<Rightarrow> wall)
         in if left < 0 then 0 else left div second))"

definition CheckPendingExpired :: "fw_env \<Rightarrow> fwsys \<Rightarrow> fwsys \<times> fw_error option" where
  "CheckPendingExpired env s =
     (case GetPendingChange env AtOpen s of
        Inl e \<Rightarrow> (s, Some e)
      | Inr None \<Rightarrow> (s, None)
      | Inr (Some p) \<Rightarrow>
          if Reverting p then revert env p PreviousUnfinished True s
          else if \<not> windowExpired env p s then (s, None)
          else revert env p DeadlinePassed True s)"

definition RevertPendingOnBoot :: "fw_env \<Rightarrow> fwsys \<Rightarrow> fwsys \<times> fw_error option" where
  "RevertPendingOnBoot env s =
     (case GetPendingChange env AtOpen s of
        Inl e \<Rightarrow> (s, Some e)
      | Inr None \<Rightarrow> (s, None)
      | Inr (Some p) \<Rightarrow>
          revert env p (if pc_ExpiresAt p \<le> ce_now env then RestartedLate else Restarted) True s)"

text \<open>What a restart loses.\<close>

definition restart :: "fwsys \<Rightarrow> fwsys" where
  "restart s = s\<lparr>w_monoDeadline := None, w_lastRevert := None\<rparr>"

subsection \<open>What the pieces leave alone\<close>

lemma fw_emit_simps [simp]:
  "w_groups (fw_emit es s) = w_groups s" "w_rules (fw_emit es s) = w_rules s"
  "w_input (fw_emit es s) = w_input s" "w_forward (fw_emit es s) = w_forward s"
  "w_wan (fw_emit es s) = w_wan s" "w_pending (fw_emit es s) = w_pending s"
  "w_live (fw_emit es s) = w_live s" "w_boot (fw_emit es s) = w_boot s"
  "w_monoDeadline (fw_emit es s) = w_monoDeadline s" "w_lastRevert (fw_emit es s) = w_lastRevert s"
  "w_log (fw_emit es s) = w_log s @ es"
  by (simp_all add: fw_emit_def)

lemma Persist_simps [simp]:
  "w_groups (Persist env s) = w_groups s" "w_rules (Persist env s) = w_rules s"
  "w_input (Persist env s) = w_input s" "w_forward (Persist env s) = w_forward s"
  "w_wan (Persist env s) = w_wan s" "w_pending (Persist env s) = w_pending s"
  "w_live (Persist env s) = w_live s"
  "w_monoDeadline (Persist env s) = w_monoDeadline s" "w_lastRevert (Persist env s) = w_lastRevert s"
  "w_log (Persist env s) = w_log s"
  by (simp_all add: Persist_def)

lemma persistBlocked_pending [simp]: "w_pending s = Some p \<Longrightarrow> persistBlocked env s"
  by (simp add: persistBlocked_def UnconfirmedChangePending_def GetPendingChange_def)

lemma Persist_boot:
  "w_boot (Persist env s) \<noteq> w_boot s \<Longrightarrow> w_pending s = None \<and> w_boot (Persist env s) = Some (w_live s)"
  by (cases "w_pending s") (auto simp: Persist_def split: if_splits)

lemma clearWindowMemory_simps [simp]:
  "w_groups (clearWindowMemory i s) = w_groups s" "w_rules (clearWindowMemory i s) = w_rules s"
  "w_input (clearWindowMemory i s) = w_input s" "w_forward (clearWindowMemory i s) = w_forward s"
  "w_wan (clearWindowMemory i s) = w_wan s" "w_pending (clearWindowMemory i s) = w_pending s"
  "w_live (clearWindowMemory i s) = w_live s" "w_boot (clearWindowMemory i s) = w_boot s"
  "w_lastRevert (clearWindowMemory i s) = w_lastRevert s" "w_log (clearWindowMemory i s) = w_log s"
  by (simp_all add: clearWindowMemory_def split: option.split)

lemma ClearPendingChange_Some:
  "ClearPendingChange env s = Some s' \<longleftrightarrow> ce_db env AtRevert ClearPending \<and> s' = s\<lparr>w_pending := None\<rparr>"
  by (auto simp: ClearPendingChange_def)

lemma reconcileGroups_frame:
  assumes "reconcileGroups env groups s = (s', err)"
  shows "w_groups s' = w_groups s \<and> w_rules s' = w_rules s \<and> w_input s' = w_input s
   \<and> w_forward s' = w_forward s \<and> w_wan s' = w_wan s \<and> w_pending s' = w_pending s
   \<and> w_monoDeadline s' = w_monoDeadline s \<and> w_lastRevert s' = w_lastRevert s
   \<and> (w_boot s' \<noteq> w_boot s \<longrightarrow> w_pending s' = None \<and> w_boot s' = Some (w_live s'))"
proof -
  consider "s' = s" | l where "s' = s\<lparr>w_live := l\<rparr>" | l where "s' = Persist env (s\<lparr>w_live := l\<rparr>)"
    using assms
    by (auto simp: reconcileGroups_def Let_def split: if_splits option.splits nft_outcome.splits)
  then show ?thesis
  proof cases
    case (3 l)
    then show ?thesis using Persist_boot [of env "s\<lparr>w_live := l\<rparr>"] by auto
  qed simp_all
qed

lemma Reconcile_frame:
  "Reconcile env s = (s', err) \<Longrightarrow>
   w_groups s' = w_groups s \<and> w_rules s' = w_rules s \<and> w_input s' = w_input s
   \<and> w_forward s' = w_forward s \<and> w_wan s' = w_wan s \<and> w_pending s' = w_pending s
   \<and> w_monoDeadline s' = w_monoDeadline s \<and> w_lastRevert s' = w_lastRevert s
   \<and> (w_boot s' \<noteq> w_boot s \<longrightarrow> w_pending s' = None \<and> w_boot s' = Some (w_live s'))"
  unfolding Reconcile_def
  by (cases "StoredGroups env s")
    (auto split: if_splits prod.splits dest!: reconcileGroups_frame)

subsection \<open>The state in the database and the firewall it renders to\<close>

text \<open>What \<open>readState\<close> reads when every call succeeds.\<close>

definition state_of :: "fwsys \<Rightarrow> fw_state option" where
  "state_of s = (case (parse_policy (w_input s), parse_policy (w_forward s)) of
     (Some p, Some f) \<Rightarrow>
        Some \<lparr>st_Groups = ListFirewallGroups s, st_Rules = ListFirewallRules s,
              st_Policy = Some p, st_ForwardPolicy = Some f, st_WANMgmtClosed = Some (w_wan s = ''1'')\<rparr>
   | _ \<Rightarrow> None)"

definition rendering :: "fwsys \<Rightarrow> fw_live option" where
  "rendering s = (case (parse_policy (w_input s), parse_policy (w_forward s)) of
     (Some p, Some f) \<Rightarrow>
        Some \<lparr>lv_Groups = StoredGroupsWithRules s (ListFirewallRules s),
              lv_Input = p, lv_Forward = f, lv_WANClosed = (w_wan s = ''1'')\<rparr>
   | _ \<Rightarrow> None)"

lemma rendering_cong: "state_of s = state_of s' \<Longrightarrow> rendering s = rendering s'"
  by (auto simp: state_of_def rendering_def StoredGroupsWithRules_def split: option.splits)

lemma readState_state_of: "readState env site s = Some st \<Longrightarrow> state_of s = Some st"
  by (auto simp: readState_def state_of_def InputPolicy_def ForwardPolicy_def WANMgmtClosed_def
      split: if_splits option.splits)

lemma readState_works: "(\<And>c. ce_db env site c) \<Longrightarrow> readState env site s = state_of s"
  by (simp add: readState_def state_of_def InputPolicy_def ForwardPolicy_def WANMgmtClosed_def
      split: option.splits)

lemma state_of_groups: "state_of s = Some st \<Longrightarrow> st_Groups st = ListFirewallGroups s"
  by (auto simp: state_of_def split: option.splits)

text \<open>A reconciliation that reports success left in the kernel what the database says.\<close>

lemma Reconcile_success:
  assumes "Reconcile env s = (s', None)" and "\<not> ce_dry env"
  shows "rendering s' = Some (w_live s')" "rendering s' = rendering s"
proof -
  note fr = Reconcile_frame [OF assms(1)]
  have "ListFirewallGroups s' = ListFirewallGroups s" "ListFirewallRules s' = ListFirewallRules s"
    using fr by (simp_all add: ListFirewallGroups_def ListFirewallRules_def)
  then show eq: "rendering s' = rendering s"
    using fr by (simp add: rendering_def StoredGroupsWithRules_def split: option.split)
  show "rendering s' = Some (w_live s')"
    unfolding eq using assms
    by (auto simp: Reconcile_def reconcileGroups_def StoredGroups_def rendering_def Let_def
        InputPolicy_def ForwardPolicy_def WANMgmtClosed_def
        split: if_splits option.splits nft_outcome.splits prod.splits)
qed

text \<open>An environment in which everything works.\<close>

definition works :: "fw_env \<Rightarrow> bool" where
  "works env \<longleftrightarrow> ce_db env = (\<lambda>_ _. True) \<and> ce_nft env = (\<lambda>_ _. NftApplied)
     \<and> \<not> ce_dry env \<and> ce_persist env"

lemma missing_stored [simp]:
  "missingSystemGroupKinds (map fst (StoredGroupsWithRules s rs)) = missingSystemGroupKinds (ListFirewallGroups s)"
  by (simp add: missingSystemGroupKinds_def StoredGroupsWithRules_def list_ex_iff ToStoredGroup_def)

lemma missing_set_cong: "set gs = set gs' \<Longrightarrow> missingSystemGroupKinds gs = missingSystemGroupKinds gs'"
  by (simp add: missingSystemGroupKinds_def list_ex_iff)

lemma Reconcile_works:
  assumes "works env" and "missingSystemGroupKinds (w_groups s) = []" and "rendering s \<noteq> None"
  obtains s' where "Reconcile env s = (s', None)"
    "w_pending s = None \<Longrightarrow> w_boot s' = Some (w_live s')"
proof -
  have m: "missingSystemGroupKinds (ListFirewallGroups s) = []"
    using assms(2) missing_set_cong [of "ListFirewallGroups s" "w_groups s"]
    by (simp add: ListFirewallGroups_def)
  obtain p f where pf: "parse_policy (w_input s) = Some p" "parse_policy (w_forward s) = Some f"
    using assms(3) by (auto simp: rendering_def split: option.splits)
  show thesis
    using assms(1) m pf
    by (auto intro!: that simp: works_def Reconcile_def StoredGroups_def ensureSystemGroupsPresent_def
        reconcileGroups_def InputPolicy_def ForwardPolicy_def WANMgmtClosed_def Let_def Persist_def
        persistBlocked_def UnconfirmedChangePending_def GetPendingChange_def)
qed

end
