(* ===== verification/ConfirmWatch.thy ===== *)
theory ConfirmWatch
  imports ConfirmWindow
begin

text \<open>
  The watchdog of confirm-or-revert (\<open>WatchPending\<close> in \<open>internal/firewallrules/confirm.go\<close>):
  when it tries again after a pass that failed, and when it writes a line to the journal.
  Durations are 64-bit nanoseconds.
\<close>

definition maxRevertBackoff :: int where "maxRevertBackoff = 60 * second"
definition revertLogInterval :: int where "revertLogInterval = 60 * second"

definition nextRevertBackoff :: "int \<Rightarrow> int \<Rightarrow> int" where
  "nextRevertBackoff current interval =
     (if current \<le> 0 then
        (if interval \<le> 0 then maxRevertBackoff
         else if maxRevertBackoff < interval then maxRevertBackoff
         else interval)
      else let next = wrap64 (current * 2)
           in if maxRevertBackoff < next \<or> next \<le> 0 then maxRevertBackoff else next)"

definition isRevertAttempt :: "fw_error \<Rightarrow> bool" where
  "isRevertAttempt e \<longleftrightarrow> (case e of RevertFailed _ \<Rightarrow> True | _ \<Rightarrow> False)"

definition nextRevertPace :: "fw_error option \<Rightarrow> int \<Rightarrow> int \<Rightarrow> int" where
  "nextRevertPace err current interval =
     (case err of None \<Rightarrow> 0
      | Some e \<Rightarrow> if isRevertAttempt e then nextRevertBackoff current interval else 0)"

text \<open>The gate of the journal: the instant of the last line, if any, and whether one more may go out.\<close>

definition logGate_allow :: "int \<Rightarrow> int option \<Rightarrow> int \<Rightarrow> int option \<times> bool" where
  "logGate_allow every prev now =
     (case prev of None \<Rightarrow> (Some now, True)
      | Some l \<Rightarrow> if l + every \<le> now then (Some now, True) else (prev, False))"

record watch =
  wt_backoff :: int
  wt_nextAttempt :: "int option"
  wt_gate :: "int option"
  wt_lines :: "int list"

definition WatchPending_start :: watch where
  "WatchPending_start = \<lparr>wt_backoff = 0, wt_nextAttempt = None, wt_gate = None, wt_lines = []\<rparr>"

text \<open>
  One beat of the ticker.  The monotonic clock is read when the beat comes (\<open>t0\<close>), when the
  next attempt is set (\<open>t1\<close>) and at the gate (\<open>t2\<close>).
\<close>

definition WatchPending_tick ::
  "int \<Rightarrow> int \<Rightarrow> int \<Rightarrow> int \<Rightarrow> fw_env \<Rightarrow> watch \<times> fwsys \<Rightarrow> watch \<times> fwsys" where
  "WatchPending_tick interval t0 t1 t2 env ws =
     (let (w, s) = ws
      in if (case wt_nextAttempt w of None \<Rightarrow> False | Some n \<Rightarrow> t0 < n) then (w, s)
         else let (s', err) = CheckPendingExpired env s
              in if err = None
                 then (w\<lparr>wt_backoff := 0, wt_nextAttempt := None, wt_gate := None\<rparr>, s')
                 else let b = nextRevertPace err (wt_backoff w) interval;
                          (g, line) = logGate_allow revertLogInterval (wt_gate w) t2
                      in (w\<lparr>wt_backoff := b,
                            wt_nextAttempt := (if 0 < b then Some (t1 + b) else None),
                            wt_gate := g,
                            wt_lines := wt_lines w @ (if line then [t2] else [])\<rparr>, s'))"

subsection \<open>The pace\<close>

lemma nextRevertBackoff_bounds:
  "0 < nextRevertBackoff c i" "nextRevertBackoff c i \<le> maxRevertBackoff"
  by (auto simp: nextRevertBackoff_def Let_def maxRevertBackoff_def second_def)

lemma nextRevertBackoff_double:
  "\<lbrakk>0 < c; c \<le> maxRevertBackoff\<rbrakk> \<Longrightarrow> nextRevertBackoff c i = min maxRevertBackoff (c * 2)"
  by (auto simp: nextRevertBackoff_def Let_def maxRevertBackoff_def second_def wrap64_def min_def)

text \<open>The pauses after consecutive failed reversions are the interval, then twice that, and so on,
  up to sixty seconds and never beyond, without overflow; after \<open>n\<close> failures the pause is
  \<open>interval * 2 ^ (n - 1)\<close> or sixty seconds.\<close>

theorem backoff_doubles_to_a_minute:
  assumes "0 < interval" and "interval \<le> maxRevertBackoff"
  shows "((\<lambda>c. nextRevertBackoff c interval) ^^ Suc n) 0 = min maxRevertBackoff (interval * 2 ^ n)"
proof (induction n)
  case 0
  then show ?case using assms by (simp add: nextRevertBackoff_def)
next
  case (Suc n)
  have "0 < min maxRevertBackoff (interval * 2 ^ n)"
    using assms by simp
  then have "nextRevertBackoff (min maxRevertBackoff (interval * 2 ^ n)) interval
      = min maxRevertBackoff (min maxRevertBackoff (interval * 2 ^ n) * 2)"
    by (intro nextRevertBackoff_double) simp_all
  also have "\<dots> = min maxRevertBackoff (interval * 2 ^ Suc n)"
    using assms by (auto simp: min_def)
  finally show ?case using Suc by simp
qed

theorem backoff_doubles_to_a_minute_witness:
  "((\<lambda>c. nextRevertBackoff c (5 * second)) ^^ 5) 0 = 60 * second"
  using backoff_doubles_to_a_minute [of "5 * second" 4]
  by (simp add: second_def maxRevertBackoff_def)

text \<open>The watchdog never sleeps past a minute: whatever the state and the outcome of a beat, a
  beat that comes at least sixty seconds later runs the check; and after a beat that failed for
  another reason than a failed reversion (a read error), the very next beat does.\<close>

theorem watch_tries_within_a_minute:
  assumes "(w1, s1) = WatchPending_tick interval t0 t1 t2 env (w, s)"
    and "wt_nextAttempt w = None \<or> the (wt_nextAttempt w) \<le> t0"
    and "t1 + maxRevertBackoff \<le> u0
       \<or> (\<exists>e. snd (CheckPendingExpired env s) = Some e \<and> \<not> isRevertAttempt e)"
  shows "snd (WatchPending_tick interval u0 u1 u2 env' (w1, s1)) = fst (CheckPendingExpired env' s1)"
proof -
  obtain s' err where c: "CheckPendingExpired env s = (s', err)" by fastforce
  have ran: "\<not> (case wt_nextAttempt w of None \<Rightarrow> False | Some n \<Rightarrow> t0 < n)"
    using assms(2) by (auto split: option.splits)
  have "wt_nextAttempt w1 = None \<or> the (wt_nextAttempt w1) \<le> u0"
  proof (cases err)
    case None
    then show ?thesis using assms(1) ran c by (simp add: WatchPending_tick_def)
  next
    case (Some e)
    have n: "wt_nextAttempt w1 = (if 0 < nextRevertPace err (wt_backoff w) interval
        then Some (t1 + nextRevertPace err (wt_backoff w) interval) else None)"
      using assms(1) ran c Some by (simp add: WatchPending_tick_def Let_def split: prod.splits)
    show ?thesis
    proof (cases "isRevertAttempt e")
      case True
      then have "t1 + maxRevertBackoff \<le> u0" using assms(3) c Some by auto
      then show ?thesis
        using n True Some nextRevertBackoff_bounds(2) [of "wt_backoff w" interval]
        by (simp add: nextRevertPace_def)
    next
      case False
      then show ?thesis using n Some by (simp add: nextRevertPace_def)
    qed
  qed
  then have "\<not> (case wt_nextAttempt w1 of None \<Rightarrow> False | Some n \<Rightarrow> u0 < n)"
    by (auto split: option.splits)
  then show ?thesis
    by (auto simp: WatchPending_tick_def Let_def split: prod.splits)
qed

definition idle_fwsys :: fwsys where
  "idle_fwsys = \<lparr>w_groups = [], w_rules = [], w_input = [], w_forward = [], w_wan = [], w_pending = None,
     w_live = \<lparr>lv_Groups = [], lv_Input = PolicyAccept, lv_Forward = PolicyAccept, lv_WANClosed = False\<rparr>,
     w_boot = None, w_monoDeadline = None, w_lastRevert = None, w_log = []\<rparr>"

definition unreadable_env :: fw_env where
  "unreadable_env = \<lparr>ce_db = (\<lambda>_ _. False), ce_nft = (\<lambda>_ _. NftApplied), ce_halfway = (\<lambda>l. l),
     ce_dry = False, ce_persist = True, ce_alerter = True, ce_now = 0, ce_mono = 0, ce_uuid = ''w''\<rparr>"

theorem watch_tries_within_a_minute_witness:
  "snd (CheckPendingExpired unreadable_env idle_fwsys) = Some ReadPendingFailed
   \<and> snd (WatchPending_tick 5 1 1 1 unreadable_env
        (WatchPending_tick 5 0 0 0 unreadable_env (WatchPending_start, idle_fwsys)))
      = fst (CheckPendingExpired unreadable_env
          (snd (WatchPending_tick 5 0 0 0 unreadable_env (WatchPending_start, idle_fwsys))))"
proof -
  have e: "snd (CheckPendingExpired unreadable_env idle_fwsys) = Some ReadPendingFailed"
    by (simp add: CheckPendingExpired_def GetPendingChange_def unreadable_env_def)
  obtain w1 s1 where ws: "(w1, s1) = WatchPending_tick 5 0 0 0 unreadable_env (WatchPending_start, idle_fwsys)"
    by (metis surj_pair)
  have "snd (WatchPending_tick 5 1 1 1 unreadable_env (w1, s1)) = fst (CheckPendingExpired unreadable_env s1)"
    by (rule watch_tries_within_a_minute [OF ws]) (simp_all add: e WatchPending_start_def isRevertAttempt_def)
  then show ?thesis unfolding ws [symmetric] using e by simp
qed

end
