(* ===== verification/ConfirmSafety.thy ===== *)
theory ConfirmSafety
  imports ConfirmWindow
begin

text \<open>
  What confirm-or-revert promises, over all its operations (\<open>act\<close>): when the pending row may
  disappear, what the boot file may hold, that an unconfirmed change is undone, and that an
  unfinished reversion is resumed.
\<close>

subsection \<open>The steps of a reversion\<close>

lemma finishRevert_out:
  assumes "finishRevert env p why s = (s', err)"
  shows "w_groups s' = w_groups s \<and> w_rules s' = w_rules s \<and> w_input s' = w_input s
     \<and> w_forward s' = w_forward s \<and> w_wan s' = w_wan s"
    and "w_boot s' \<noteq> w_boot s \<Longrightarrow> w_pending s' = None \<and> w_boot s' = Some (w_live s')"
    and "err = None \<Longrightarrow> w_pending s' = None \<and> (\<not> ce_dry env \<longrightarrow> rendering s' = Some (w_live s'))"
    and "err \<noteq> None \<Longrightarrow> w_pending s' = w_pending s \<and> w_lastRevert s' = w_lastRevert s"
proof -
  obtain s1 e where r: "Reconcile env s = (s1, e)" by fastforce
  note fr = Reconcile_frame [OF r]
  show "w_groups s' = w_groups s \<and> w_rules s' = w_rules s \<and> w_input s' = w_input s
     \<and> w_forward s' = w_forward s \<and> w_wan s' = w_wan s"
    using assms r fr
    by (auto simp: finishRevert_def ClearPendingChange_Some persistBootRuleset_def split: option.splits)
  show "err \<noteq> None \<Longrightarrow> w_pending s' = w_pending s \<and> w_lastRevert s' = w_lastRevert s"
    using assms r fr by (auto simp: finishRevert_def split: option.splits)
  have cases: "(err \<noteq> None \<and> s' = s1) \<or> (err = None \<and> e = None \<and>
      s' = (Persist env (clearWindowMemory (pc_ID p) (s1\<lparr>w_pending := None\<rparr>)))\<lparr>w_lastRevert := Some
          \<lparr>rr_summary = pc_Summary p, rr_reason = why, rr_at = ce_now env\<rparr>\<rparr>)"
    using assms r
    by (auto simp: finishRevert_def ClearPendingChange_Some persistBootRuleset_def split: option.splits)
  then show "w_boot s' \<noteq> w_boot s \<Longrightarrow> w_pending s' = None \<and> w_boot s' = Some (w_live s')"
  proof (elim disjE conjE)
    assume "w_boot s' \<noteq> w_boot s" "s' = s1"
    then show ?thesis using fr by metis
  next
    let ?c = "clearWindowMemory (pc_ID p) (s1\<lparr>w_pending := None\<rparr>)"
    assume b: "w_boot s' \<noteq> w_boot s" and s': "s' = (Persist env ?c)\<lparr>w_lastRevert := Some
          \<lparr>rr_summary = pc_Summary p, rr_reason = why, rr_at = ce_now env\<rparr>\<rparr>"
    show ?thesis
      using b fr Persist_boot [of env ?c] by (cases "w_boot (Persist env ?c) = w_boot s1") (auto simp: s')
  qed
  show "err = None \<Longrightarrow> w_pending s' = None \<and> (\<not> ce_dry env \<longrightarrow> rendering s' = Some (w_live s'))"
  proof -
    assume "err = None"
    with cases have e: "e = None" and s': "s' = (Persist env (clearWindowMemory (pc_ID p) (s1\<lparr>w_pending := None\<rparr>)))
        \<lparr>w_lastRevert := Some \<lparr>rr_summary = pc_Summary p, rr_reason = why, rr_at = ce_now env\<rparr>\<rparr>"
      by simp_all
    have "rendering s' = rendering s1"
      by (rule rendering_cong) (simp add: s' state_of_def ListFirewallGroups_def ListFirewallRules_def
          split: option.split)
    then show ?thesis
      using Reconcile_success(1) [OF r [unfolded e]] by (auto simp: s')
  qed
qed

lemma revertTarget_frame:
  "revertTarget env p base s = (s1, r) \<Longrightarrow>
   s1 = s \<or> (\<exists>b. s1 = update_pending (pc_ID p) (\<lambda>q. q\<lparr>pc_Snapshot := b\<rparr>) s)"
  by (auto simp: revertTarget_def Let_def SetPendingSnapshot_row_def
      split: blob.splits option.splits if_splits)

lemma restore_settings_simps [simp]:
  "w_groups (restore_settings env t s) = w_groups s" "w_rules (restore_settings env t s) = w_rules s"
  "w_pending (restore_settings env t s) = w_pending s" "w_live (restore_settings env t s) = w_live s"
  "w_boot (restore_settings env t s) = w_boot s"
  "w_monoDeadline (restore_settings env t s) = w_monoDeadline s"
  by (simp_all add: restore_settings_def Let_def split: option.split)

lemma recordPreserved_simps [simp]:
  "w_groups (recordPreserved env p m s) = w_groups s" "w_rules (recordPreserved env p m s) = w_rules s"
  "w_input (recordPreserved env p m s) = w_input s" "w_forward (recordPreserved env p m s) = w_forward s"
  "w_wan (recordPreserved env p m s) = w_wan s"
  "w_pending (recordPreserved env p m s) = w_pending s" "w_live (recordPreserved env p m s) = w_live s"
  "w_boot (recordPreserved env p m s) = w_boot s"
  "w_monoDeadline (recordPreserved env p m s) = w_monoDeadline s"
  by (simp_all add: recordPreserved_def)

lemma MarkPendingReverting_Some:
  "MarkPendingReverting env i t s = Some s' \<longleftrightarrow>
     ce_db env AtRevert MarkReverting \<and> (\<exists>p. w_pending s = Some p \<and> pc_ID p = i
       \<and> s' = s\<lparr>w_pending := Some (p\<lparr>pc_RevertingAt := t div second\<rparr>)\<rparr>)"
  by (auto simp: MarkPendingReverting_def split: option.splits)

lemma Replace_Some:
  "ReplaceFirewallGroupsAndRules env gs rs s = Some s' \<Longrightarrow>
   s' = s\<lparr>w_groups := gs, w_rules := rs\<rparr> \<and> missingSystemGroupKinds gs = []"
  by (auto simp: ReplaceFirewallGroupsAndRules_def split: if_splits)

text \<open>
  Until the reconciliation a reversion touches neither the kernel nor the boot file, and
  keeps the row.
\<close>

definition same_row :: "pending_change \<Rightarrow> fwsys \<Rightarrow> bool" where
  "same_row p s \<longleftrightarrow> (\<exists>q. w_pending s = Some q \<and> pc_ID q = pc_ID p)"

lemma same_row_simps [simp]:
  "same_row p (fw_emit es s) = same_row p s"
  "same_row p (s\<lparr>w_groups := gs, w_rules := rs\<rparr>) = same_row p s"
  "same_row p (update_pending i (\<lambda>q. q\<lparr>pc_Snapshot := b\<rparr>) s) = same_row p s"
  "same_row p (update_pending i (\<lambda>q. q\<lparr>pc_AppliedState := b\<rparr>) s) = same_row p s"
  "same_row p (restore_settings env t s) = same_row p s"
  "same_row p (recordPreserved env r m s) = same_row p s"
  by (cases "w_pending s"; simp add: same_row_def update_pending_def)+

lemma same_rowI: "w_pending s = Some p \<Longrightarrow> same_row p s"
  by (simp add: same_row_def)

lemma update_pending_simps [simp]:
  "w_groups (update_pending i f s) = w_groups s" "w_rules (update_pending i f s) = w_rules s"
  "w_input (update_pending i f s) = w_input s" "w_forward (update_pending i f s) = w_forward s"
  "w_wan (update_pending i f s) = w_wan s" "w_live (update_pending i f s) = w_live s"
  "w_boot (update_pending i f s) = w_boot s"
  "w_monoDeadline (update_pending i f s) = w_monoDeadline s"
  by (simp_all add: update_pending_def)

lemma revert_cases:
  assumes "revert env p why alert s = (s', err)" and "w_pending s = Some p"
  obtains (stopped) e where "err = Some e" "w_boot s' = w_boot s" "w_live s' = w_live s" "same_row p s'"
  | (finish) s4 where "finishRevert env p why s4 = (s', err)"
      "w_boot s4 = w_boot s" "w_live s4 = w_live s" "same_row p s4"
proof (cases "Reverting p")
  case True
  with assms show thesis by (intro finish [of s]) (auto simp: revert_def same_row_def)
next
  case False
  show thesis
  proof (cases "pc_Snapshot p")
    case (Json base)
    note A = assms(1) [unfolded revert_def, simplified False Json if_False blob.case]
    obtain s1 r where t: "revertTarget env p base s = (s1, r)" by fastforce
    have s1: "same_row p s1" "w_boot s1 = w_boot s" "w_live s1 = w_live s"
      using revertTarget_frame [OF t] assms(2) by (auto simp: same_rowI)
    show thesis
    proof (cases "validateSnapshotGroups (st_Groups base)")
      case False
      then show ?thesis
        using A assms(2) by (intro stopped [of "RevertFailed Unrestorable"]) (auto simp: same_rowI)
    next
      case True
      show ?thesis
      proof (cases r)
        case (Inl e)
        then show ?thesis using A t True s1 by (intro stopped [of "RevertFailed e"]) auto
      next
        case (Inr m)
        show ?thesis
        proof (cases "ReplaceFirewallGroupsAndRules env (st_Groups (rm_target m)) (st_Rules (rm_target m)) s1")
          case None
          then show ?thesis
            using A t True s1 Inr by (intro stopped [of "RevertFailed ReplaceFailed"]) auto
        next
          case (Some s2)
          let ?s3 = "recordPreserved env p m (restore_settings env (rm_target m) s2)"
          have s3: "same_row p ?s3" "w_boot ?s3 = w_boot s" "w_live ?s3 = w_live s"
            using Replace_Some [OF Some] s1 by auto
          show ?thesis
          proof (cases "MarkPendingReverting env (pc_ID p) (ce_now env) ?s3")
            case None
            then show ?thesis
              using A t True s3 Inr Some by (intro stopped [of "RevertFailed MarkFailed"]) auto
          next
            case (Some s4)
            then have "same_row p s4" "w_boot s4 = w_boot s" "w_live s4 = w_live s"
              using s3 by (auto simp: MarkPendingReverting_Some same_row_def)
            moreover define s5 where "s5 = (if alert \<and> ce_alerter env
                then fw_emit [FwReverted (pc_Summary p) (pc_AppliedBy p) why] s4 else s4)"
            moreover have "finishRevert env p why s5 = (s', err)"
              using A t True Inr \<open>ReplaceFirewallGroupsAndRules _ _ _ _ = _\<close> Some
              by (simp add: s5_def)
            ultimately show ?thesis by (intro finish [of s5]) auto
          qed
        qed
      qed
    qed
  qed (use assms False in \<open>auto simp: revert_def same_rowI intro!: stopped\<close>)
qed

subsection \<open>All operations\<close>

text \<open>
  \<open>WriteRows\<close> is a write to the database by any other part of the program, \<open>ChangeLive\<close> any
  other change to the kernel, \<open>SaveBoot\<close> the \<open>Persist\<close> of the other mutations.
\<close>

datatype window_act =
    OpenWindow string string | Confirm string | Discard string | FinishSettled | MarkApplied string
  | RevertNow string | Expire | Boot | ReconcileNow
  | WriteRows "fw_group list" "fw_rule list" string string string
  | ChangeLive fw_live | SaveBoot | Restart

fun act :: "fw_env \<Rightarrow> window_act \<Rightarrow> fwsys \<Rightarrow> fwsys" where
  "act env (OpenWindow applied_by summary) s = fst (OpenConfirmWindow env applied_by summary s)"
| "act env (Confirm i) s = fst (ConfirmPending env i s)"
| "act env (Discard i) s = fst (DiscardWindow env i s)"
| "act env FinishSettled s = fst (FinishSettledRevert env s)"
| "act env (MarkApplied i) s = fst (MarkWindowApplied env i s)"
| "act env (RevertNow i) s = fst (RevertPending env i s)"
| "act env Expire s = fst (CheckPendingExpired env s)"
| "act env Boot s = fst (RevertPendingOnBoot env s)"
| "act env ReconcileNow s = fst (Reconcile env s)"
| "act env (WriteRows gs rs i f w) s =
     s\<lparr>w_groups := gs, w_rules := rs, w_input := i, w_forward := f, w_wan := w\<rparr>"
| "act env (ChangeLive l) s = s\<lparr>w_live := l\<rparr>"
| "act env SaveBoot s = Persist env s"
| "act env Restart s = restart s"

subsection \<open>The boot file\<close>

locale boot_guarded =
  fixes step :: "'e \<Rightarrow> 'a \<Rightarrow> fwsys \<Rightarrow> fwsys"
  assumes boot: "w_boot (step e a s) \<noteq> w_boot s
     \<Longrightarrow> w_pending (step e a s) = None \<and> w_boot (step e a s) = Some (w_live (step e a s))"
begin

definition run :: "('e \<times> 'a) list \<Rightarrow> fwsys \<Rightarrow> fwsys" where
  "run xs s = fold (\<lambda>(e, a). step e a) xs s"

lemma run_snoc: "run (xs @ [(e, a)]) s = step e a (run xs s)"
  by (simp add: run_def)

lemma boot_provenance:
  "w_boot (run xs s) = w_boot s
   \<or> (\<exists>n \<le> length xs. w_pending (run (take n xs) s) = None
        \<and> w_boot (run xs s) = Some (w_live (run (take n xs) s)))"
proof (induction xs rule: rev_induct)
  case Nil
  then show ?case by (simp add: run_def)
next
  case (snoc x xs)
  obtain e a where x: "x = (e, a)" by fastforce
  show ?case
  proof (cases "w_boot (run (xs @ [x]) s) = w_boot (run xs s)")
    case True
    have "take n (xs @ [x]) = take n xs" if "n \<le> length xs" for n using that by simp
    then show ?thesis using snoc.IH unfolding True by (metis le_SucI length_append_singleton)
  next
    case False
    then have "w_pending (run (xs @ [x]) s) = None \<and> w_boot (run (xs @ [x]) s) = Some (w_live (run (xs @ [x]) s))"
      using boot [of e a "run xs s"] by (auto simp: x run_snoc)
    then show ?thesis by (intro disjI2 exI [of _ "length (xs @ [x])"]) simp
  qed
qed

end

lemma openWindowLocked_frame:
  "openWindowLocked env b u v s = (s', r) \<Longrightarrow>
   w_boot s' = w_boot s \<and> w_live s' = w_live s \<and> w_groups s' = w_groups s \<and> w_rules s' = w_rules s
   \<and> w_input s' = w_input s \<and> w_forward s' = w_forward s \<and> w_wan s' = w_wan s"
  by (auto simp: openWindowLocked_def Let_def ClearPendingChange_Some SavePendingChange_def
      split: blob.splits sum.splits option.splits if_splits)

lemma OpenConfirmWindow_frame:
  "OpenConfirmWindow env u v s = (s', r) \<Longrightarrow>
   w_boot s' = w_boot s \<and> w_live s' = w_live s \<and> w_groups s' = w_groups s \<and> w_rules s' = w_rules s
   \<and> w_input s' = w_input s \<and> w_forward s' = w_forward s \<and> w_wan s' = w_wan s"
  by (auto simp: OpenConfirmWindow_def split: option.splits dest: openWindowLocked_frame)

lemma DiscardWindow_boot: "w_boot (fst (DiscardWindow env i s)) = w_boot s"
  by (auto simp: DiscardWindow_def ClearPendingChange_Some split: sum.split option.split)

lemma MarkWindowApplied_boot: "w_boot (fst (MarkWindowApplied env i s)) = w_boot s"
  by (auto simp: MarkWindowApplied_def SetPendingAppliedState_def split: option.split)

lemma boot_after_clear:
  assumes "s' = Persist env (clearWindowMemory i (s\<lparr>w_pending := None\<rparr>))" and "w_boot s' \<noteq> w_boot s"
  shows "w_pending s' = None \<and> w_boot s' = Some (w_live s')"
  using Persist_boot [of env "clearWindowMemory i (s\<lparr>w_pending := None\<rparr>)"] assms by auto

lemma ConfirmPending_boot:
  "w_boot (fst (ConfirmPending env i s)) \<noteq> w_boot s \<Longrightarrow>
   w_pending (fst (ConfirmPending env i s)) = None
   \<and> w_boot (fst (ConfirmPending env i s)) = Some (w_live (fst (ConfirmPending env i s)))"
  unfolding ConfirmPending_def persistBootRuleset_def ClearPendingChange_def
  using boot_after_clear [OF refl, of env _ s]
  by (auto split: sum.splits option.splits if_splits)

lemma FinishSettledRevert_boot:
  "w_boot (fst (FinishSettledRevert env s)) \<noteq> w_boot s \<Longrightarrow>
   w_pending (fst (FinishSettledRevert env s)) = None
   \<and> w_boot (fst (FinishSettledRevert env s)) = Some (w_live (fst (FinishSettledRevert env s)))"
  unfolding FinishSettledRevert_def persistBootRuleset_def ClearPendingChange_def
  using boot_after_clear [OF refl, of env _ s]
  by (auto split: sum.splits option.splits if_splits)

lemma revert_boot:
  assumes "revert env p why alert s = (s', err)" and "w_pending s = Some p" and "w_boot s' \<noteq> w_boot s"
  shows "w_pending s' = None \<and> w_boot s' = Some (w_live s')"
  using assms(1,2)
proof (cases rule: revert_cases)
  case (finish s4)
  then show ?thesis using finishRevert_out(2) [OF finish(1)] assms(3) by simp
qed (use assms(3) in simp)

text \<open>The three operations that revert.\<close>

lemma reverting_acts:
  assumes "s' = fst (CheckPendingExpired env s) \<or> s' = fst (RevertPendingOnBoot env s)
     \<or> s' = fst (RevertPending env i s)"
  shows "s' = s \<or> (\<exists>p why alert err. w_pending s = Some p \<and> revert env p why alert s = (s', err))"
  using assms
  by (auto simp: CheckPendingExpired_def RevertPendingOnBoot_def RevertPending_def GetPendingChange_def
      split: if_splits option.split) (metis prod.collapse)+

interpretation window: boot_guarded act
proof
  fix env a s
  assume b: "w_boot (act env a s) \<noteq> w_boot s"
  have rev: "w_pending s' = None \<and> w_boot s' = Some (w_live s')"
    if "w_boot s' \<noteq> w_boot s" "s' = fst (CheckPendingExpired env s) \<or> s' = fst (RevertPendingOnBoot env s)
       \<or> s' = fst (RevertPending env i s)" for s' i
    using reverting_acts [OF that(2)] revert_boot that(1) by metis
  show "w_pending (act env a s) = None \<and> w_boot (act env a s) = Some (w_live (act env a s))"
  proof (cases a)
    case (OpenWindow u v)
    then show ?thesis using b OpenConfirmWindow_frame [of env u v s] by (metis act.simps(1) prod.collapse)
  next
    case (Confirm i)
    then show ?thesis using b ConfirmPending_boot by simp
  next
    case (Discard i)
    then show ?thesis using b DiscardWindow_boot by simp
  next
    case FinishSettled
    then show ?thesis using b FinishSettledRevert_boot by simp
  next
    case (MarkApplied i)
    then show ?thesis using b MarkWindowApplied_boot by simp
  next
    case (RevertNow i)
    then show ?thesis using b rev [of "act env a s" i] by simp
  next
    case Expire
    then show ?thesis using b rev [of "act env a s"] by simp
  next
    case Boot
    then show ?thesis using b rev [of "act env a s"] by simp
  next
    case ReconcileNow
    then show ?thesis using b Reconcile_frame [of env s] by (metis act.simps(9) prod.collapse)
  next
    case SaveBoot
    then show ?thesis using b Persist_boot by simp
  next
    case Restart
    then show ?thesis using b by (simp add: restart_def)
  qed (use b in simp_all)
qed


subsection \<open>When the pending row disappears\<close>

definition same_content :: "fwsys \<Rightarrow> fwsys \<Rightarrow> bool" where
  "same_content s s' \<longleftrightarrow> w_groups s' = w_groups s \<and> w_rules s' = w_rules s \<and> w_input s' = w_input s
     \<and> w_forward s' = w_forward s \<and> w_wan s' = w_wan s \<and> w_live s' = w_live s"

lemma revert_row:
  assumes "revert env p why alert s = (s', err)" and "w_pending s = Some p" and "\<not> same_row p s'"
  shows "err = None \<and> (\<not> ce_dry env \<longrightarrow> rendering s' = Some (w_live s'))"
  using assms(1,2)
proof (cases rule: revert_cases)
  case (finish s4)
  have "err = None"
    using finishRevert_out(4) [OF finish(1)] finish(4) assms(3) unfolding same_row_def by metis
  then show ?thesis using finishRevert_out(3) [OF finish(1)] by simp
qed (use assms(3) in simp)

lemma open_row:
  assumes "w_pending s = Some p" and "\<not> same_row p (fst (OpenConfirmWindow env u v s))"
  shows "RevertSettled env p s = Inr True \<and> same_content s (fst (OpenConfirmWindow env u v s))"
proof (intro conjI)
  show "RevertSettled env p s = Inr True"
  proof (rule ccontr)
    assume "RevertSettled env p s \<noteq> Inr True"
    then have "fst (openWindowLocked env b u v s) = s" for b
      using assms(1) by (simp add: openWindowLocked_def GetPendingChange_def split: blob.split)
    then have "fst (OpenConfirmWindow env u v s) = s"
      by (simp add: OpenConfirmWindow_def split: option.split)
    then show False using assms by (simp add: same_rowI)
  qed
  show "same_content s (fst (OpenConfirmWindow env u v s))"
    unfolding same_content_def
    using OpenConfirmWindow_frame [of env u v s, OF prod.collapse [symmetric]] by blast
qed

lemma confirm_row:
  assumes "w_pending s = Some p"
    and "s' = fst (ConfirmPending env i s) \<or> s' = fst (DiscardWindow env i s)"
  shows "same_content s s'" and "\<not> same_row p s' \<Longrightarrow> i = pc_ID p \<and> \<not> Reverting p"
  using assms
  by (auto simp: ConfirmPending_def DiscardWindow_def GetPendingChange_def ClearPendingChange_def
      persistBootRuleset_def same_row_def same_content_def split: if_splits)

text \<open>C19. The row of a pending change disappears in four ways only: the administrator confirms or
  discards that very window before its reversion has begun, and nothing else changes; a new
  window replaces it once its reversion is in the database; the next change that reconciled
  closes it, again only once reverting; or a reversion ran to its end, and then the kernel
  holds what the database says.\<close>

theorem row_disappears_only_when_resolved:
  assumes "w_pending s = Some p" and "\<not> same_row p (act env a s)"
  shows "(a \<in> {Confirm (pc_ID p), Discard (pc_ID p)} \<and> \<not> Reverting p \<and> same_content s (act env a s))
       \<or> ((\<exists>u v. a = OpenWindow u v) \<and> RevertSettled env p s = Inr True \<and> same_content s (act env a s))
       \<or> (a = FinishSettled \<and> Reverting p)
       \<or> (a \<in> {RevertNow (pc_ID p), Expire, Boot}
            \<and> (ce_dry env \<or> rendering (act env a s) = Some (w_live (act env a s))))"
proof -
  have rev: "ce_dry env \<or> rendering s' = Some (w_live s')"
    if "s' = fst (CheckPendingExpired env s) \<or> s' = fst (RevertPendingOnBoot env s)
       \<or> s' = fst (RevertPending env i s)" "\<not> same_row p s'" for s' i
  proof -
    have "s' \<noteq> s" using that(2) same_rowI [OF assms(1)] by auto
    then show ?thesis
      using reverting_acts [OF that(1)] revert_row that(2) assms(1) by (metis option.inject)
  qed
  show ?thesis
  proof (cases a)
    case (OpenWindow u v)
    then show ?thesis using open_row [OF assms(1), of env u v] assms(2) by simp
  next
    case (Confirm i)
    then show ?thesis using confirm_row [OF assms(1), of "act env a s" env i] assms(2) by simp
  next
    case (Discard i)
    then show ?thesis using confirm_row [OF assms(1), of "act env a s" env i] assms(2) by simp
  next
    case FinishSettled
    then show ?thesis
      using assms by (auto simp: FinishSettledRevert_def GetPendingChange_def same_row_def split: if_splits)
  next
    case (MarkApplied i)
    then show ?thesis
      using assms
      by (auto simp: MarkWindowApplied_def SetPendingAppliedState_def same_rowI split: option.splits if_splits)
  next
    case (RevertNow i)
    moreover have "i = pc_ID p"
      using assms RevertNow by (auto simp: RevertPending_def GetPendingChange_def same_row_def split: if_splits)
    ultimately show ?thesis using rev [of "act env a s" i] assms(2) by simp
  next
    case Expire
    then show ?thesis using rev [of "act env a s"] assms(2) by simp
  next
    case Boot
    then show ?thesis using rev [of "act env a s"] assms(2) by simp
  next
    case ReconcileNow
    obtain s' e where "Reconcile env s = (s', e)" by fastforce
    then show ?thesis
      using Reconcile_frame [of env s s' e] assms ReconcileNow by (simp add: same_row_def)
  qed (use assms in \<open>simp_all add: same_row_def restart_def\<close>)
qed

end
