(* ===== verification/ConfirmRestore.thy ===== *)
theory ConfirmRestore
  imports ConfirmSafety
begin

text \<open>
  What a reversion restores: everything when nobody else wrote, all but the policies when
  somebody did; how an unfinished reversion is resumed; what the deadline measures; and that
  an operation on another window changes nothing.
\<close>

subsection \<open>Sorting what is sorted\<close>

lemma sort_key_twice: "sort_key f (sort_key f xs) = sort_key f xs"
proof -
  have "filter (\<lambda>x. f x = k) (sort_key f xs) = filter (\<lambda>x. f x = k) (sort_key f xs)" for k by simp
  then show ?thesis
    by (intro properties_for_sort_key) (simp_all add: sort_key_stable)
qed

lemma distinct_map_sort_key [simp]: "distinct (map h (sort_key f xs)) = distinct (map h xs)"
  by (metis mset_map mset_sort mset_eq_imp_distinct_iff)

subsection \<open>A reversion that runs to its end\<close>

lemma restore_settings_works:
  assumes "works env"
  shows "w_input (restore_settings env t s) = (case st_Policy t of None \<Rightarrow> w_input s | Some p \<Rightarrow> policy_string p)"
    and "w_forward (restore_settings env t s) = (case st_ForwardPolicy t of None \<Rightarrow> w_forward s | Some p \<Rightarrow> policy_string p)"
    and "w_wan (restore_settings env t s) = (case st_WANMgmtClosed t of None \<Rightarrow> w_wan s | Some b \<Rightarrow> if b then ''1'' else ''0'')"
  using assms by (simp_all add: restore_settings_def works_def Let_def split: option.split)

lemma works_simps:
  "works env \<Longrightarrow> ce_db env site c" "works env \<Longrightarrow> \<not> ce_dry env" "works env \<Longrightarrow> ce_persist env"
  by (simp_all add: works_def)

lemma finishRevert_works:
  assumes "works env" and "missingSystemGroupKinds (w_groups s) = []" and "rendering s \<noteq> None"
  obtains s' where "finishRevert env p why s = (s', None)" "w_boot s' = Some (w_live s')"
proof -
  obtain s1 where r: "Reconcile env s = (s1, None)"
    by (rule Reconcile_works [OF assms])
  let ?c = "clearWindowMemory (pc_ID p) (s1\<lparr>w_pending := None\<rparr>)"
  have "w_boot (Persist env ?c) = Some (w_live ?c)"
    using assms(1)
    by (simp add: Persist_def works_def persistBlocked_def UnconfirmedChangePending_def GetPendingChange_def)
  then show thesis
    using r by (auto intro!: that simp: finishRevert_def ClearPendingChange_def works_simps [OF assms(1)]
        persistBootRuleset_def)
qed

lemma missing_nonempty: "missingSystemGroupKinds gs = [] \<Longrightarrow> gs \<noteq> []"
  by (auto simp: missingSystemGroupKinds_def)

text \<open>
  The steps of a reversion whose target is restorable, one after the other, when everything
  works.
\<close>

definition restorable :: "fw_state \<Rightarrow> bool" where
  "restorable t \<longleftrightarrow> missingSystemGroupKinds (st_Groups t) = []
     \<and> distinct (map g_ID (st_Groups t)) \<and> distinct (map g_ChainName (st_Groups t))
     \<and> distinct (map r_ID (st_Rules t))"

lemma restorable_valid: "restorable t \<Longrightarrow> validateSnapshotGroups (st_Groups t)"
  using missing_nonempty by (auto simp: restorable_def validateSnapshotGroups_def)

lemma revert_runs:
  assumes "works env" and "w_pending s = Some p" and "\<not> Reverting p" and "pc_Snapshot p = Json base"
    and "validateSnapshotGroups (st_Groups base)"
    and "revertTarget env p base s = (s1, Inr m)"
    and "restorable (rm_target m)"
    and "rendering (restore_settings env (rm_target m) s) \<noteq> None"
  obtains s' where "revert env p why alert s = (s', None)"
    "w_groups s' = st_Groups (rm_target m)" "w_rules s' = st_Rules (rm_target m)"
    "w_input s' = w_input (restore_settings env (rm_target m) s)"
    "w_forward s' = w_forward (restore_settings env (rm_target m) s)"
    "w_wan s' = w_wan (restore_settings env (rm_target m) s)"
    "w_pending s' = None" "rendering s' = Some (w_live s')" "w_boot s' = Some (w_live s')"
proof -
  note W = works_simps [OF assms(1)]
  let ?t = "rm_target m"
  define s2 where "s2 = s1\<lparr>w_groups := st_Groups ?t, w_rules := st_Rules ?t\<rparr>"
  define s3 where "s3 = recordPreserved env p m (restore_settings env ?t s2)"
  have row: "same_row p s3"
    using revertTarget_frame [OF assms(6)] assms(2) by (auto simp: s3_def s2_def same_rowI)
  have rep: "ReplaceFirewallGroupsAndRules env (st_Groups ?t) (st_Rules ?t) s1 = Some s2"
    using assms(7) missing_nonempty
    by (auto simp: ReplaceFirewallGroupsAndRules_def W restorable_def s2_def)
  obtain q where q: "w_pending s3 = Some q" "pc_ID q = pc_ID p"
    using row by (auto simp: same_row_def)
  define s4 where "s4 = s3\<lparr>w_pending := Some (q\<lparr>pc_RevertingAt := ce_now env div second\<rparr>)\<rparr>"
  have mark: "MarkPendingReverting env (pc_ID p) (ce_now env) s3 = Some s4"
    using q by (simp add: MarkPendingReverting_def W s4_def)
  define s5 where "s5 = (if alert \<and> ce_alerter env
     then fw_emit [FwReverted (pc_Summary p) (pc_AppliedBy p) why] s4 else s4)"
  have same1: "w_input s1 = w_input s" "w_forward s1 = w_forward s" "w_wan s1 = w_wan s"
    using revertTarget_frame [OF assms(6)] by auto
  have settings: "w_groups s5 = st_Groups ?t" "w_rules s5 = st_Rules ?t"
     "w_input s5 = w_input (restore_settings env ?t s)"
     "w_forward s5 = w_forward (restore_settings env ?t s)"
     "w_wan s5 = w_wan (restore_settings env ?t s)"
    using same1 by (simp_all add: s5_def s4_def s3_def s2_def restore_settings_works [OF assms(1)] split: option.split)
  have "rendering s5 \<noteq> None"
    using assms(8) settings by (auto simp: rendering_def split: option.splits)
  moreover have "missingSystemGroupKinds (w_groups s5) = []"
    using assms(7) settings by (simp add: restorable_def)
  ultimately obtain s' where f: "finishRevert env p why s5 = (s', None)" "w_boot s' = Some (w_live s')"
    by (metis finishRevert_works [OF assms(1)])
  have "revert env p why alert s = (s', None)"
    using assms(3,4,5,6) rep mark f(1) by (simp add: revert_def s3_def [symmetric] s5_def)
  then show thesis
    using finishRevert_out(1,3) [OF f(1)] f(2) settings W by (auto intro!: that)
qed

subsection \<open>An unconfirmed change is undone\<close>

lemma parse_policy_cases: "parse_policy raw = Some p \<Longrightarrow> raw = policy_string p \<or> raw = [] \<and> p = PolicyAccept"
  by (auto simp: parse_policy_def policy_string_def split: if_splits)

text \<open>The database can hold \<open>s\<close>: keys are unique, the system groups are there, the policies are known.\<close>

definition wf_rows :: "fwsys \<Rightarrow> bool" where
  "wf_rows s \<longleftrightarrow> missingSystemGroupKinds (w_groups s) = []
     \<and> distinct (map g_ID (w_groups s)) \<and> distinct (map g_ChainName (w_groups s))
     \<and> distinct (map r_ID (w_rules s))"

lemma wf_rows_restorable: "wf_rows s \<Longrightarrow> state_of s = Some st \<Longrightarrow> restorable st"
  using missing_set_cong [of "ListFirewallGroups s" "w_groups s"]
  by (auto simp: wf_rows_def restorable_def state_of_def ListFirewallGroups_def ListFirewallRules_def
      split: option.splits)

lemma OpenConfirmWindow_works:
  assumes "works env" and "w_pending s = None" and "state_of s = Some st" and "wf_rows s"
  shows "OpenConfirmWindow env u v s =
     (s\<lparr>w_pending := Some \<lparr>pc_ID = ce_uuid env, pc_Snapshot = Json st, pc_AppliedState = NoBlob,
          pc_ExpiresAt = (ce_now env + ConfirmWindow) div second * second, pc_AppliedBy = u, pc_Summary = v,
          pc_CreatedAt = ce_now env, pc_RevertingAt = 0\<rparr>,
        w_monoDeadline := Some (ce_uuid env, ce_mono env + ConfirmWindow)\<rparr>, Inr (ce_uuid env))"
  using assms readState_works [of env AtOpen s] restorable_valid [OF wf_rows_restorable [OF assms(4,3)]]
  by (simp add: OpenConfirmWindow_def openWindowLocked_def SnapshotState_def GetPendingChange_def
      SavePendingChange_def works_def)

lemma state_of_restored:
  assumes "state_of s0 = Some base" and "w_groups s' = st_Groups base" and "w_rules s' = st_Rules base"
    and "w_input s' = policy_string p" and "st_Policy base = Some p"
    and "w_forward s' = policy_string f" and "st_ForwardPolicy base = Some f"
    and "w_wan s' = (if b then ''1'' else ''0'')" and "st_WANMgmtClosed base = Some b"
  shows "state_of s' = Some base"
proof -
  have g: "ListFirewallGroups s' = st_Groups base" "ListFirewallRules s' = st_Rules base"
    using assms(1-3) sort_key_twice
    by (auto simp: ListFirewallGroups_def ListFirewallRules_def state_of_def split: option.splits)
  show ?thesis
    using assms(4-9) g by (simp add: state_of_def)
qed

definition same_rows :: "fwsys \<Rightarrow> fwsys \<Rightarrow> bool" where
  "same_rows s s' \<longleftrightarrow> w_groups s' = w_groups s \<and> w_rules s' = w_rules s \<and> w_input s' = w_input s
     \<and> w_forward s' = w_forward s \<and> w_wan s' = w_wan s"

lemma same_rows_state: "same_rows s s' \<Longrightarrow> state_of s' = state_of s"
  by (simp add: same_rows_def state_of_def ListFirewallGroups_def ListFirewallRules_def split: option.split)

text \<open>A window whose mutation recorded the state it left, seen at the moment it is reverted.\<close>

lemma marked_window_reverts:
  assumes "works env" and "w_pending s = Some p" and "\<not> Reverting p"
    and "state_of s0 = Some base" and "wf_rows s0" and "pc_Snapshot p = Json base"
    and "state_of s = Some now" and "pc_AppliedState p = Json now"
  obtains s' where "revert env p why alert s = (s', None)" "state_of s' = state_of s0"
    "w_pending s' = None" "rendering s0 = Some (w_live s')" "w_boot s' = Some (w_live s')"
proof -
  let ?m = "\<lparr>rm_target = base, rm_preserved = [], rm_dropped = []\<rparr>"
  have rt: "revertTarget env p base s = (s, Inr ?m)"
    using assms(7,8) readState_works [of env AtTarget s] works_simps [OF assms(1)]
    by (simp add: revertTarget_def AppliedStateOrSnapshot_def merge_same merged_def)
  obtain pol fwd b where ps: "st_Policy base = Some pol" "st_ForwardPolicy base = Some fwd"
      "st_WANMgmtClosed base = Some b"
    using assms(4) by (auto simp: state_of_def split: option.splits)
  note R = restore_settings_works [OF assms(1), of base s]
  have rest: "restorable base" by (rule wf_rows_restorable [OF assms(5,4)])
  have "rendering (restore_settings env base s) \<noteq> None"
    using ps by (simp add: rendering_def R)
  with revert_runs [OF assms(1-3,6) restorable_valid [OF rest] rt] rest
  obtain s' where s': "revert env p why alert s = (s', None)"
    "w_groups s' = st_Groups base" "w_rules s' = st_Rules base"
    "w_input s' = w_input (restore_settings env base s)"
    "w_forward s' = w_forward (restore_settings env base s)"
    "w_wan s' = w_wan (restore_settings env base s)"
    "w_pending s' = None" "rendering s' = Some (w_live s')" "w_boot s' = Some (w_live s')"
    by (metis revert_merge.select_convs(1))
  have st: "state_of s' = Some base"
    by (rule state_of_restored [OF assms(4) s'(2,3) _ ps(1) _ ps(2) _ ps(3)]) (simp_all add: s' R ps)
  show thesis
    by (rule that [OF s'(1)]) (use s' st assms(4) rendering_cong [of s0 s'] in simp_all)
qed

text \<open>C17. The promise of the window, when nothing fails and nobody else writes.  Every call of the database and of nft
  succeeds when the window is opened, when the change is made and when it is undone; no window is open before; the
  state from before reads, its rows have identities of their own and every system group; the change writes whatever
  groups, rules, policies and priorities it likes (policies that parse) and whatever it likes to the kernel, and the
  window is marked as applied right after those writes, before anybody else has written.  Then, if nobody confirms,
  the state in the database is the one from before, the kernel and the boot file hold its rendering and nothing is
  pending, be it that the ninety seconds passed, that the administrator reverted or that the machine restarted.  (What
  others write between the two readings is kept, by the merge of three states in \<open>RevertMerge\<close>.)\<close>

theorem unconfirmed_change_is_undone:
  assumes "works e0" and "works e1" and "works e2" and "w_pending s0 = None"
    and "state_of s0 \<noteq> None" and "wf_rows s0" and "ce_uuid e0 \<noteq> []"
    and "s1 = fst (OpenConfirmWindow e0 u v s0)"
    and "s2 = act e1 (ChangeLive l) (act e1 (WriteRows gs rs i f w) s1)"
    and "parse_policy i \<noteq> None" and "parse_policy f \<noteq> None"
    and "s3 = fst (MarkWindowApplied e1 (ce_uuid e0) s2)"
    and "(ce_mono e0 + ConfirmWindow \<le> ce_mono e2 \<and> s4 = fst (CheckPendingExpired e2 s3))
       \<or> s4 = fst (RevertPending e2 (ce_uuid e0) s3) \<or> s4 = fst (RevertPendingOnBoot e2 (restart s3))"
  shows "state_of s4 = state_of s0 \<and> w_pending s4 = None
       \<and> rendering s0 = Some (w_live s4) \<and> w_boot s4 = Some (w_live s4)"
proof -
  obtain base where base: "state_of s0 = Some base" using assms(5) by blast
  obtain now where now: "state_of s2 = Some now"
    using assms(9-11) by (auto simp: state_of_def split: option.split)
  let ?row = "\<lparr>pc_ID = ce_uuid e0, pc_Snapshot = Json base, pc_AppliedState = NoBlob,
     pc_ExpiresAt = (ce_now e0 + ConfirmWindow) div second * second, pc_AppliedBy = u, pc_Summary = v,
     pc_CreatedAt = ce_now e0, pc_RevertingAt = 0\<rparr>"
  let ?p = "?row\<lparr>pc_AppliedState := Json now\<rparr>"
  have s1: "w_pending s1 = Some ?row" "w_monoDeadline s1 = Some (ce_uuid e0, ce_mono e0 + ConfirmWindow)"
    unfolding assms(8) OpenConfirmWindow_works [OF assms(1,4) base assms(6)] by simp_all
  have s3: "s3 = update_pending (ce_uuid e0) (\<lambda>p. p\<lparr>pc_AppliedState := Json now\<rparr>) s2"
    using assms(12,7) now readState_works [of e1 AtOpen s2] works_simps [OF assms(2)]
    by (simp add: MarkWindowApplied_def SnapshotState_def SetPendingAppliedState_def)
  have pend: "w_pending s3 = Some ?p" and mono: "w_monoDeadline s3 = Some (ce_uuid e0, ce_mono e0 + ConfirmWindow)"
    using s1 assms(9) by (simp_all add: s3 update_pending_def)
  have st3: "state_of s3 = Some now"
    using now same_rows_state [of s2 s3] by (simp add: s3 same_rows_def)
  have st3': "state_of (restart s3) = Some now"
    using st3 same_rows_state [of s3 "restart s3"] by (simp add: restart_def same_rows_def)
  have nr: "\<not> Reverting ?p" by (simp add: Reverting_def)
  have run: "state_of s' = state_of s0 \<and> w_pending s' = None \<and> rendering s0 = Some (w_live s')
      \<and> w_boot s' = Some (w_live s')"
    if r: "s' = fst (revert e2 ?p why alert s)" and pe: "w_pending s = Some ?p" and so: "state_of s = Some now"
    for s s' why alert
  proof -
    have snap: "pc_Snapshot ?p = Json base" and app: "pc_AppliedState ?p = Json now" by simp_all
    obtain s5 where s5: "revert e2 ?p why alert s = (s5, None)" "state_of s5 = state_of s0"
      "w_pending s5 = None" "rendering s0 = Some (w_live s5)" "w_boot s5 = Some (w_live s5)"
      by (rule marked_window_reverts [OF assms(3) pe nr base assms(6) snap so app])
    have "s' = s5" unfolding r s5(1) by (rule fst_conv)
    then show ?thesis using s5(2-5) by (simp only: simp_thms)
  qed
  note W = works_simps [OF assms(3)]
  from assms(13) show ?thesis
  proof (elim disjE conjE)
    assume "ce_mono e0 + ConfirmWindow \<le> ce_mono e2" "s4 = fst (CheckPendingExpired e2 s3)"
    then have "s4 = fst (revert e2 ?p DeadlinePassed True s3)"
      using pend mono nr W by (simp add: CheckPendingExpired_def GetPendingChange_def windowExpired_def)
    from run [OF this pend st3] show ?thesis .
  next
    assume "s4 = fst (RevertPending e2 (ce_uuid e0) s3)"
    then have "s4 = fst (revert e2 ?p ByOperator False s3)"
      using pend W by (simp add: RevertPending_def GetPendingChange_def)
    from run [OF this pend st3] show ?thesis .
  next
    assume "s4 = fst (RevertPendingOnBoot e2 (restart s3))"
    then have "s4 = fst (revert e2 ?p (if pc_ExpiresAt ?p \<le> ce_now e2 then RestartedLate else Restarted) True
        (restart s3))"
      using pend W by (simp add: RevertPendingOnBoot_def GetPendingChange_def restart_def)
    note r = this
    have "w_pending (restart s3) = Some ?p" using pend by (simp add: restart_def)
    from run [OF r this st3'] show ?thesis .
  qed
qed

subsection \<open>An unfinished reversion is resumed\<close>

lemma check_reverting:
  assumes "w_pending s = Some p" and "Reverting p"
  shows "fst (CheckPendingExpired env s) = s
     \<or> (\<exists>err. finishRevert env p PreviousUnfinished s = (fst (CheckPendingExpired env s), err))"
  using assms
  by (auto simp: CheckPendingExpired_def GetPendingChange_def revert_def) (metis prod.collapse)

definition resuming :: "fwsys \<Rightarrow> pending_change \<Rightarrow> fwsys \<Rightarrow> bool" where
  "resuming s p s' \<longleftrightarrow> same_rows s s'
     \<and> (w_pending s' = Some p \<or> w_pending s' = None \<and> rendering s' = Some (w_live s'))"

lemma check_keeps_resuming:
  assumes "resuming s p s'" and "Reverting p" and "\<not> ce_dry env"
  shows "resuming s p (fst (CheckPendingExpired env s'))"
proof (cases "w_pending s'")
  case None
  then show ?thesis using assms(1) by (simp add: CheckPendingExpired_def GetPendingChange_def)
next
  case (Some q)
  then have q: "q = p" using assms(1) by (auto simp: resuming_def)
  from check_reverting [OF Some [unfolded q] assms(2), of env] show ?thesis
  proof (elim disjE exE)
    fix err assume f: "finishRevert env p PreviousUnfinished s' = (fst (CheckPendingExpired env s'), err)"
    have "same_rows s (fst (CheckPendingExpired env s'))"
      using finishRevert_out(1) [OF f] assms(1) by (simp add: resuming_def same_rows_def)
    then show ?thesis
      using finishRevert_out(3,4) [OF f] assms(3) Some q by (cases err) (simp_all add: resuming_def)
  qed (use assms(1) in simp)
qed

text \<open>C40. A reversion that reached the database but not the kernel is never given up: however many
  passes of the watchdog fail, and however they fail, the first pass in which everything works
  imposes the restored state on the kernel and closes the row, and none of the passes writes to
  the groups, rules or policies again.\<close>

theorem unfinished_reversion_is_resumed:
  assumes "w_pending s = Some p" and "Reverting p"
    and "missingSystemGroupKinds (w_groups s) = []" and "state_of s \<noteq> None"
    and "\<forall>e \<in> set es. \<not> ce_dry e" and "works e"
    and "s' = fst (CheckPendingExpired e (fold (\<lambda>e s. fst (CheckPendingExpired e s)) es s))"
  shows "same_rows s s' \<and> w_pending s' = None \<and> rendering s = Some (w_live s')"
proof -
  let ?f = "fold (\<lambda>e s. fst (CheckPendingExpired e s)) es s"
  have "resuming s p (fold (\<lambda>e s. fst (CheckPendingExpired e s)) es s1)" if "resuming s p s1" for s1
    using that assms(5) by (induction es arbitrary: s1) (auto intro: check_keeps_resuming [OF _ assms(2)])
  moreover have "resuming s p s" using assms(1) by (simp add: resuming_def same_rows_def)
  ultimately have r: "resuming s p ?f" by blast
  have r': "resuming s p s'"
    unfolding assms(7) by (rule check_keeps_resuming [OF r assms(2)]) (simp add: works_simps [OF assms(6)])
  have "w_pending s' = None"
  proof (cases "w_pending ?f")
    case None
    then show ?thesis using assms(7) by (simp add: CheckPendingExpired_def GetPendingChange_def split: sum.split)
  next
    case (Some q)
    then have q: "q = p" using r by (auto simp: resuming_def)
    have same: "same_rows s ?f" using r by (simp add: resuming_def)
    have "rendering ?f \<noteq> None"
      using same_rows_state [OF same] rendering_cong [of s ?f] assms(4)
      by (auto simp: rendering_def state_of_def split: option.splits)
    moreover have "missingSystemGroupKinds (w_groups ?f) = []" using same assms(3) by (simp add: same_rows_def)
    ultimately obtain s2 where "finishRevert e p PreviousUnfinished ?f = (s2, None)"
      by (metis finishRevert_works [OF assms(6)])
    moreover from this have "s' = s2"
      using Some assms(2,7) q works_simps [OF assms(6)]
      by (simp add: CheckPendingExpired_def GetPendingChange_def revert_def)
    ultimately show ?thesis using finishRevert_out(3) [of e p PreviousUnfinished ?f s2 None] by simp
  qed
  then show ?thesis
    using r' same_rows_state [of s s'] rendering_cong [of s s'] by (auto simp: resuming_def)
qed

subsection \<open>A mixed reversion forgets the policies\<close>

lemma rendering_parts:
  "rendering s = Some l \<Longrightarrow> parse_policy (w_input s) = Some (lv_Input l)
     \<and> parse_policy (w_forward s) = Some (lv_Forward l) \<and> lv_WANClosed l = (w_wan s = ''1'')"
  by (cases l) (auto simp: rendering_def split: option.splits)

text \<open>When somebody else wrote within the ninety seconds, the merged target has no policies, so
  a window that changed a policy is reverted and closed with its policies still in force: the
  kernel keeps the input policy, the forward policy and the management closure that the
  unconfirmed change had set.\<close>

theorem mixed_reversion_keeps_policies:
  assumes "works env" and "w_pending s = Some p" and "\<not> Reverting p" and "pc_Snapshot p = Json base"
    and "validateSnapshotGroups (st_Groups base)" and "AppliedStateOrSnapshot p = Json applied"
    and "state_of s = Some now" and "merged (mergeRevertTarget base applied now)"
    and "restorable (rm_target (mergeRevertTarget base applied now))"
    and "s' = fst (revert env p why alert s)"
  shows "w_pending s' = None \<and> parse_policy (w_input s) = Some (lv_Input (w_live s'))
       \<and> parse_policy (w_forward s) = Some (lv_Forward (w_live s'))
       \<and> lv_WANClosed (w_live s') = (w_wan s = ''1'')"
proof -
  let ?m = "mergeRevertTarget base applied now"
  let ?s1 = "update_pending (pc_ID p) (\<lambda>q. q\<lparr>pc_Snapshot := Json (rm_target ?m)\<rparr>) s"
  have rt: "revertTarget env p base s = (?s1, Inr ?m)"
    using assms(6-8) restorable_valid [OF assms(9)] readState_works [of env AtTarget s] works_simps [OF assms(1)]
    by (simp add: revertTarget_def SetPendingSnapshot_row_def Let_def)
  have none: "st_Policy (rm_target ?m) = None" "st_ForwardPolicy (rm_target ?m) = None"
      "st_WANMgmtClosed (rm_target ?m) = None"
    using assms(8) by (cases base applied now rule: mergeRevertTarget_cases; simp add: merged_def)+
  note R = restore_settings_works [OF assms(1), of "rm_target ?m" s, unfolded none option.case]
  have "rendering (restore_settings env (rm_target ?m) s) \<noteq> None"
    using assms(7) by (simp add: rendering_def state_of_def R split: option.splits)
  then obtain s5 where "revert env p why alert s = (s5, None)"
    "w_input s5 = w_input s" "w_forward s5 = w_forward s" "w_wan s5 = w_wan s"
    "w_pending s5 = None" "rendering s5 = Some (w_live s5)"
    using revert_runs [OF assms(1-5) rt assms(9), of why alert] unfolding R by metis
  then show ?thesis
    using assms(10) rendering_parts [of s5 "w_live s5"] by simp
qed

subsection \<open>The deadline\<close>

text \<open>Within the process that opened it, a window expires exactly when ninety seconds of
  monotonic time have passed, however the wall clock jumps; the seconds shown never exceed what
  is left and are zero once it has expired.  After a restart the stored deadline decides, which
  is the opening plus ninety seconds by the wall clock, at most a second early.\<close>

theorem deadline_measures_elapsed_time:
  assumes "OpenConfirmWindow e0 u v s = (s1, Inr i)" and "w_pending s1 = Some p"
  shows "(windowExpired e p s1 \<longleftrightarrow> ce_mono e0 + ConfirmWindow \<le> ce_mono e)
       \<and> SecondsLeft e (Some p) s1 = max 0 ((ce_mono e0 + ConfirmWindow - ce_mono e) div second)
       \<and> (windowExpired e p (restart s1) \<longrightarrow> ce_now e0 + ConfirmWindow - second < ce_now e)
       \<and> (ce_now e0 + ConfirmWindow \<le> ce_now e \<longrightarrow> windowExpired e p (restart s1))"
proof -
  have sec: "0 < second" by (simp add: second_def)
  have row: "w_monoDeadline s1 = Some (pc_ID p, ce_mono e0 + ConfirmWindow)
      \<and> pc_ExpiresAt p = (ce_now e0 + ConfirmWindow) div second * second"
    using assms
    by (auto simp: OpenConfirmWindow_def openWindowLocked_def Let_def SavePendingChange_def
        split: option.splits blob.splits sum.splits if_splits prod.splits)
  define d where "d = ce_now e0 + ConfirmWindow"
  have stored: "pc_ExpiresAt p \<le> d" "d - second < pc_ExpiresAt p"
    using row sec pos_mod_bound [OF sec, of d] pos_mod_sign [OF sec, of d] div_mult_mod_eq [of d second]
    unfolding d_def by linarith+
  define m where "m = ce_mono e0 + ConfirmWindow"
  have mono: "w_monoDeadline s1 = Some (pc_ID p, m)" using row by (simp add: m_def)
  have "SecondsLeft e (Some p) s1 = max 0 ((m - ce_mono e) div second)"
    using pos_imp_zdiv_neg_iff [OF sec, of "m - ce_mono e"] mono
    by (simp add: SecondsLeft_def Let_def max_def del: diff_less_0_iff_less) linarith
  moreover have "windowExpired e p s1 \<longleftrightarrow> m \<le> ce_mono e"
    using mono by (simp add: windowExpired_def)
  moreover have "windowExpired e p (restart s1) \<longleftrightarrow> pc_ExpiresAt p \<le> ce_now e"
    by (simp add: windowExpired_def restart_def)
  ultimately show ?thesis
    using stored unfolding m_def d_def by linarith
qed

subsection \<open>Another window\<close>

text \<open>Confirming, discarding and reverting name a window, and naming one that is no longer open
  changes nothing at all: another administrator's window can be neither confirmed nor undone.\<close>

theorem other_window_untouched:
  assumes "w_pending s = Some p" and "pc_ID p \<noteq> i"
  shows "\<exists>e. e \<in> {windowMismatch p, ReadPendingFailed}
       \<and> ConfirmPending env i s = (s, Some e) \<and> DiscardWindow env i s = (s, Some e)
       \<and> RevertPending env i s = (s, Some e)"
  using assms
  by (cases "ce_db env AtOpen GetPending")
    (simp_all add: ConfirmPending_def DiscardWindow_def RevertPending_def GetPendingChange_def)

subsection \<open>Witnesses\<close>

definition demo_fw_env :: "int \<Rightarrow> int \<Rightarrow> fw_env" where
  "demo_fw_env now mn = \<lparr>ce_db = (\<lambda>_ _. True), ce_nft = (\<lambda>_ _. NftApplied), ce_halfway = (\<lambda>l. l),
     ce_dry = False, ce_persist = True, ce_alerter = True, ce_now = now, ce_mono = mn, ce_uuid = ''w1''\<rparr>"

definition system_groups :: "fw_group list" where
  "system_groups = [(demo_group ''b'' ''b'' 0 [])\<lparr>g_Kind := GroupKindBlockedHosts\<rparr>,
                    (demo_group ''l'' ''l'' 1 [])\<lparr>g_Kind := GroupKindBlocklist\<rparr>]"

definition demo_live :: fw_live where
  "demo_live = \<lparr>lv_Groups = [], lv_Input = PolicyAccept, lv_Forward = PolicyAccept, lv_WANClosed = False\<rparr>"

definition demo_fwsys :: fwsys where
  "demo_fwsys = \<lparr>w_groups = system_groups, w_rules = [], w_input = [], w_forward = [], w_wan = [],
     w_pending = None, w_live = demo_live, w_boot = None, w_monoDeadline = None, w_lastRevert = None,
     w_log = []\<rparr>"

lemma demo_works [simp]: "works (demo_fw_env now mn)"
  by (simp add: works_def demo_fw_env_def)

lemma demo_state_of: "state_of demo_fwsys = Some (demo_state system_groups [])"
  by code_simp

lemma demo_wf: "wf_rows demo_fwsys"
  by code_simp

theorem unconfirmed_change_is_undone_witness:
  "\<exists>s3. w_pending (fst (CheckPendingExpired (demo_fw_env 7 (90 * second)) s3)) = None
     \<and> w_boot (fst (CheckPendingExpired (demo_fw_env 7 (90 * second)) s3)) \<noteq> None"
proof -
  have "ce_mono (demo_fw_env 0 0) + ConfirmWindow \<le> ce_mono (demo_fw_env 7 (90 * second))"
    by (simp add: demo_fw_env_def ConfirmWindow_def)
  moreover have "ce_uuid (demo_fw_env 0 0) \<noteq> []" by (simp add: demo_fw_env_def)
  moreover have "parse_policy ''drop'' \<noteq> None" by (simp add: parse_policy_def)
  moreover have "w_pending demo_fwsys = None" by (simp add: demo_fwsys_def)
  moreover have "state_of demo_fwsys \<noteq> None" by (simp add: demo_state_of)
  ultimately show ?thesis
    using unconfirmed_change_is_undone [OF demo_works demo_works demo_works _ _ demo_wf _ refl refl _ _ refl
        disjI1 [OF conjI [OF _ refl]]]
    by (metis option.distinct(1))
qed

definition demo_row :: "string \<Rightarrow> fw_state \<Rightarrow> fw_state \<Rightarrow> int \<Rightarrow> pending_change" where
  "demo_row i base applied t = \<lparr>pc_ID = i, pc_Snapshot = Json base, pc_AppliedState = Json applied,
     pc_ExpiresAt = 0, pc_AppliedBy = ''a'', pc_Summary = ''s'', pc_CreatedAt = 0, pc_RevertingAt = t\<rparr>"

theorem unfinished_reversion_is_resumed_witness:
  "w_pending (fst (CheckPendingExpired (demo_fw_env 7 7)
      (fst (CheckPendingExpired ((demo_fw_env 7 7)\<lparr>ce_nft := \<lambda>_ l. NftRefused l False\<rparr>)
         (demo_fwsys\<lparr>w_pending := Some (demo_row ''w'' (demo_state system_groups []) (demo_state [] []) 5)\<rparr>))))) = None"
proof -
  let ?r = "demo_row ''w'' (demo_state system_groups []) (demo_state [] []) 5"
  let ?s = "demo_fwsys\<lparr>w_pending := Some ?r\<rparr>"
  have "same_rows demo_fwsys ?s" by (simp add: same_rows_def)
  then have "state_of ?s \<noteq> None" by (simp add: same_rows_state demo_state_of)
  moreover have "missingSystemGroupKinds (w_groups ?s) = []" using demo_wf by (simp add: wf_rows_def)
  moreover have "Reverting ?r" by (simp add: demo_row_def Reverting_def)
  ultimately show ?thesis
    using unfinished_reversion_is_resumed [of ?s ?r "[(demo_fw_env 7 7)\<lparr>ce_nft := \<lambda>_ l. NftRefused l False\<rparr>]"
        "demo_fw_env 7 7", OF _ _ _ _ _ demo_works refl]
    by (simp add: demo_fw_env_def)
qed

definition policy_state :: "fw_group list \<Rightarrow> fw_state" where
  "policy_state gs = (demo_state gs [])\<lparr>st_Policy := Some PolicyDrop\<rparr>"

theorem mixed_reversion_keeps_policies_witness:
  "\<exists>env p s base. works env \<and> pc_Snapshot p = Json base \<and> st_Policy base = Some PolicyAccept
     \<and> w_pending (fst (revert env p DeadlinePassed True s)) = None
     \<and> lv_Input (w_live (fst (revert env p DeadlinePassed True s))) = PolicyDrop"
proof -
  let ?now = "system_groups @ [demo_group ''z'' ''z'' 2 []]"
  let ?base = "demo_state system_groups []" and ?app = "policy_state system_groups"
  let ?r = "demo_row ''w'' ?base ?app 0"
  let ?s = "demo_fwsys\<lparr>w_pending := Some ?r, w_groups := ?now, w_input := ''drop''\<rparr>"
  have st: "state_of ?s = Some (policy_state ?now)" by code_simp
  have m: "merged (mergeRevertTarget ?base ?app (policy_state ?now))" by code_simp
  have r: "restorable (rm_target (mergeRevertTarget ?base ?app (policy_state ?now)))" by code_simp
  have v: "validateSnapshotGroups (st_Groups ?base)" by code_simp
  have "w_pending (fst (revert (demo_fw_env 7 7) ?r DeadlinePassed True ?s)) = None
      \<and> parse_policy (w_input ?s) = Some (lv_Input (w_live (fst (revert (demo_fw_env 7 7) ?r DeadlinePassed True ?s))))"
    using mixed_reversion_keeps_policies [OF demo_works _ _ _ v _ st m r refl]
    by (simp add: demo_row_def Reverting_def AppliedStateOrSnapshot_def)
  moreover have "pc_Snapshot ?r = Json ?base" "st_Policy ?base = Some PolicyAccept"
    by (simp_all add: demo_row_def demo_state_def)
  ultimately show ?thesis using demo_works
    by (intro exI [of _ "demo_fw_env 7 7"] exI [of _ ?r] exI [of _ ?s] exI [of _ ?base])
      (simp add: parse_policy_def)
qed

theorem deadline_measures_elapsed_time_witness:
  "\<exists>s1 p. w_pending s1 = Some p \<and> windowExpired (demo_fw_env (-1000) (90 * second)) p s1
     \<and> SecondsLeft (demo_fw_env 0 (second div 2)) (Some p) s1 = 89"
proof -
  let ?e = "demo_fw_env 0 0"
  have "w_pending demo_fwsys = None" by (simp add: demo_fwsys_def)
  note o = OpenConfirmWindow_works [OF demo_works [of 0 0] this demo_state_of demo_wf, of "''a''" "''s''"]
  obtain s1 p where sp: "OpenConfirmWindow ?e ''a'' ''s'' demo_fwsys = (s1, Inr (ce_uuid ?e))"
      "w_pending s1 = Some p"
    using o by simp
  have "windowExpired (demo_fw_env (-1000) (90 * second)) p s1"
    using deadline_measures_elapsed_time [OF sp, of "demo_fw_env (-1000) (90 * second)"]
    by (simp add: demo_fw_env_def ConfirmWindow_def)
  moreover have "SecondsLeft (demo_fw_env 0 (second div 2)) (Some p) s1 = 89"
    using deadline_measures_elapsed_time [OF sp, of "demo_fw_env 0 (second div 2)"]
    by (simp add: demo_fw_env_def ConfirmWindow_def second_def)
  ultimately show ?thesis using sp(2) by blast
qed

theorem other_window_untouched_witness:
  "\<exists>s. w_pending s \<noteq> None \<and> fst (ConfirmPending (demo_fw_env 0 0) ''other'' s) = s"
  using other_window_untouched [of "demo_fwsys\<lparr>w_pending := Some (demo_row ''w'' (demo_state [] []) (demo_state [] []) 0)\<rparr>"
      "demo_row ''w'' (demo_state [] []) (demo_state [] []) 0" "''other''" "demo_fw_env 0 0"]
  by (intro exI [of _ "demo_fwsys\<lparr>w_pending := Some (demo_row ''w'' (demo_state [] []) (demo_state [] []) 0)\<rparr>"])
    (auto simp: demo_row_def)

theorem row_disappears_only_when_resolved_witness:
  "\<exists>s p. w_pending s = Some p \<and> \<not> same_row p (act (demo_fw_env 0 0) (Confirm ''w'') s)
     \<and> same_content s (act (demo_fw_env 0 0) (Confirm ''w'') s)"
proof -
  let ?r = "demo_row ''w'' (demo_state [] []) (demo_state [] []) 0"
  let ?s = "demo_fwsys\<lparr>w_pending := Some ?r\<rparr>"
  have "\<not> same_row ?r (act (demo_fw_env 0 0) (Confirm ''w'') ?s)"
    by (simp add: same_row_def ConfirmPending_def GetPendingChange_def ClearPendingChange_def demo_row_def
        demo_fw_env_def Reverting_def persistBootRuleset_def)
  then show ?thesis
    using row_disappears_only_when_resolved [of ?s ?r "demo_fw_env 0 0" "Confirm ''w''"]
    by (intro exI [of _ ?s] exI [of _ ?r]) auto
qed

end
