(* ===== verification/ApplyGuarded.thy ===== *)
theory ApplyGuarded
  imports ConfirmRestore
begin

text \<open>
  The order every change to groups, rules and policies goes through
  (\<open>internal/firewallrules/apply_guarded.go\<close>): validate, lock, dry run of the kernel, open the
  window when the change reaches the input chain, write, audit, reconcile, and undo at each point
  of failure.

  The lock is released between the calls: \<open>env k\<close> is the environment of call \<open>k\<close> (the stage it
  belongs to) and \<open>gap k\<close> is what the rest of the program did just before it.  A \<open>mutation\<close> is
  the interface of the same name: its dry run may look at the database, and its write is atomic
  (\<open>None\<close> is a failure that changed nothing).
\<close>

datatype stage = StageValidate | StageLocked | StagePreflight | StageWindow | StageWrite
  | StageReconcile | StageStuck

record mutation =
  mu_Validate :: "string option"
  mu_Preflight :: "fwsys \<Rightarrow> string option"
  mu_Window :: "fwsys \<Rightarrow> bool \<times> string"
  mu_Write :: "fwsys \<Rightarrow> fwsys option"
  mu_Audit :: "string \<times> string \<times> string"

record hooks =
  hk_Audit :: bool
  hk_SnapshotNft :: bool

record applied =
  ap_WindowID :: string
  ap_Pending :: "pending_change option"

datatype cause = Refused string | Failed fw_error | Both reconcile_error fw_error

type_synonym guard_error = "stage \<times> cause option"

datatype guarded_call = GuardCall | PreflightCall | OpenCall | RereadCall | WriteCall | DiscardCall
  | MarkCall | ReconcileCall | FinishCall | RevertCall

definition hook_audit :: "hooks \<Rightarrow> string \<times> string \<times> string \<Rightarrow> fwsys \<Rightarrow> fwsys" where
  "hook_audit h a s = (if hk_Audit h then (let (x, y, z) = a in fw_emit [FwAudit x y z] s) else s)"

definition hook_snapshot :: "hooks \<Rightarrow> fwsys \<Rightarrow> fwsys" where
  "hook_snapshot h s = (if hk_SnapshotNft h then fw_emit [FwSnapshotNft] s else s)"

text \<open>The two texts of the audit log, in UTF-8.\<close>

definition abort_details :: string where
  "abort_details = ''a altera'' @ [CHR 0xC3, CHR 0xA7, CHR 0xC3, CHR 0xA3]
     @ ''o falhou ao ser aplicada no firewall e o estado anterior foi restaurado''"

definition finished_details :: string where
  "finished_details = ''a revers'' @ [CHR 0xC3, CHR 0xA3] @ ''o em andamento foi conclu''
     @ [CHR 0xC3, CHR 0xAD] @ ''da pela reconcilia'' @ [CHR 0xC3, CHR 0xA7, CHR 0xC3, CHR 0xA3]
     @ ''o desta altera'' @ [CHR 0xC3, CHR 0xA7, CHR 0xC3, CHR 0xA3] @ ''o''"

subsection \<open>The steps\<close>

definition guardWindowOpen :: "fw_env \<Rightarrow> fwsys \<Rightarrow> guard_error option" where
  "guardWindowOpen env s =
     (case GetPendingChange env AtOpen s of
        Inl e \<Rightarrow> Some (StageLocked, Some (Failed e))
      | Inr None \<Rightarrow> None
      | Inr (Some p) \<Rightarrow>
          if Reverting p then
            (case RevertSettled env p s of
               Inl e \<Rightarrow> Some (StageLocked, Some (Failed e))
             | Inr settled \<Rightarrow> if settled then None else Some (StageLocked, None))
          else Some (StageLocked, None))"

definition armWindow ::
  "(guarded_call \<Rightarrow> fw_env) \<Rightarrow> (guarded_call \<Rightarrow> fwsys \<Rightarrow> fwsys) \<Rightarrow> string \<Rightarrow> bool \<Rightarrow> string \<Rightarrow> fwsys
     \<Rightarrow> fwsys \<times> (guard_error + applied)" where
  "armWindow env gap applied_by needed summary s =
     (if \<not> needed then (s, Inr \<lparr>ap_WindowID = [], ap_Pending = None\<rparr>)
      else let (s1, r) = OpenConfirmWindow (env OpenCall) applied_by summary (gap OpenCall s)
        in case r of
             Inl (Conflict c) \<Rightarrow> (s1, Inl (StageLocked, Some (Failed (Conflict c))))
           | Inl e \<Rightarrow> (s1, Inl (StageWindow, Some (Failed e)))
           | Inr i \<Rightarrow>
              (let s2 = gap RereadCall s1
               in (s2, Inr \<lparr>ap_WindowID = i, ap_Pending =
                     (case GetPendingChange (env RereadCall) AtOpen s2 of
                        Inl _ \<Rightarrow> None
                      | Inr None \<Rightarrow> None
                      | Inr (Some p) \<Rightarrow> if pc_ID p = i then Some p else None)\<rparr>)))"

definition discardWindow ::
  "(guarded_call \<Rightarrow> fw_env) \<Rightarrow> (guarded_call \<Rightarrow> fwsys \<Rightarrow> fwsys) \<Rightarrow> string \<Rightarrow> fwsys \<Rightarrow> fwsys" where
  "discardWindow env gap i s =
     (if i = [] then s else fst (DiscardWindow (env DiscardCall) i (gap DiscardCall s)))"

definition abortWindow ::
  "(guarded_call \<Rightarrow> fw_env) \<Rightarrow> (guarded_call \<Rightarrow> fwsys \<Rightarrow> fwsys) \<Rightarrow> string \<Rightarrow> reconcile_error \<Rightarrow> hooks
     \<Rightarrow> fwsys \<Rightarrow> fwsys \<times> guard_error" where
  "abortWindow env gap i why h s =
     (if i = [] then (s, (StageReconcile, Some (Failed (ReconcileFailed why))))
      else let (s1, err) = RevertPending (env RevertCall) i (gap RevertCall s)
        in case err of
             Some e \<Rightarrow> (s1, (StageStuck, Some (Both why e)))
           | None \<Rightarrow>
               (hook_audit h (''nft.pending.revert'', ''pending:'' @ i, abort_details) (hook_snapshot h s1),
                (StageReconcile, Some (Failed (ReconcileFailed why)))))"

definition reconcileGuarded ::
  "(guarded_call \<Rightarrow> fw_env) \<Rightarrow> (guarded_call \<Rightarrow> fwsys \<Rightarrow> fwsys) \<Rightarrow> applied \<Rightarrow> hooks \<Rightarrow> fwsys
     \<Rightarrow> fwsys \<times> (guard_error + applied)" where
  "reconcileGuarded env gap ap h s =
     (let s1 = (if ap_WindowID ap \<noteq> [] then fst (MarkWindowApplied (env MarkCall) (ap_WindowID ap) (gap MarkCall s))
                else s);
          (s2, err) = Reconcile (env ReconcileCall) (gap ReconcileCall s1)
      in case err of
           Some e \<Rightarrow> (let (s3, ge) = abortWindow env gap (ap_WindowID ap) e h s2 in (s3, Inl ge))
         | None \<Rightarrow>
             (let s3 = hook_snapshot h s2
              in if ap_WindowID ap \<noteq> [] then (s3, Inr ap)
                 else let (s4, r) = FinishSettledRevert (env FinishCall) (gap FinishCall s3)
                   in (if r = Inr True
                       then hook_audit h (''nft.pending.revert'', ''pending:concluido'', finished_details) s4
                       else s4, Inr ap)))"

definition ApplyGuarded ::
  "(guarded_call \<Rightarrow> fw_env) \<Rightarrow> (guarded_call \<Rightarrow> fwsys \<Rightarrow> fwsys) \<Rightarrow> string \<Rightarrow> mutation \<Rightarrow> hooks \<Rightarrow> fwsys
     \<Rightarrow> fwsys \<times> (guard_error + applied)" where
  "ApplyGuarded env gap applied_by m h s =
     (case mu_Validate m of
        Some e \<Rightarrow> (s, Inl (StageValidate, Some (Refused e)))
      | None \<Rightarrow>
         (let s1 = gap GuardCall s
          in case guardWindowOpen (env GuardCall) s1 of
               Some ge \<Rightarrow> (s1, Inl ge)
             | None \<Rightarrow>
                (let s2 = gap PreflightCall s1
                 in case mu_Preflight m s2 of
                      Some e \<Rightarrow> (s2, Inl (StagePreflight, Some (Refused e)))
                    | None \<Rightarrow>
                       (let (needed, summary) = mu_Window m s2;
                            (s3, r) = armWindow env gap applied_by needed summary s2
                        in case r of
                             Inl ge \<Rightarrow> (s3, Inl ge)
                           | Inr ap \<Rightarrow>
                              (let s4 = gap WriteCall s3
                               in case mu_Write m s4 of
                                    None \<Rightarrow> (discardWindow env gap (ap_WindowID ap) s4, Inl (StageWrite, None))
                                  | Some s5 \<Rightarrow>
                                      reconcileGuarded env gap ap h (hook_audit h (mu_Audit m) s5))))))"

lemma hook_simps [simp]:
  "w_groups (hook_audit h a s) = w_groups s" "w_rules (hook_audit h a s) = w_rules s"
  "w_input (hook_audit h a s) = w_input s" "w_forward (hook_audit h a s) = w_forward s"
  "w_wan (hook_audit h a s) = w_wan s" "w_pending (hook_audit h a s) = w_pending s"
  "w_live (hook_audit h a s) = w_live s" "w_boot (hook_audit h a s) = w_boot s"
  "w_monoDeadline (hook_audit h a s) = w_monoDeadline s"
  "w_groups (hook_snapshot h s) = w_groups s" "w_rules (hook_snapshot h s) = w_rules s"
  "w_input (hook_snapshot h s) = w_input s" "w_forward (hook_snapshot h s) = w_forward s"
  "w_wan (hook_snapshot h s) = w_wan s" "w_pending (hook_snapshot h s) = w_pending s"
  "w_live (hook_snapshot h s) = w_live s" "w_boot (hook_snapshot h s) = w_boot s"
  "w_monoDeadline (hook_snapshot h s) = w_monoDeadline s"
  by (simp_all add: hook_audit_def hook_snapshot_def split: prod.split)

lemma hook_state [simp]:
  "state_of (hook_audit h a s) = state_of s" "state_of (hook_snapshot h s) = state_of s"
  "rendering (hook_audit h a s) = rendering s" "rendering (hook_snapshot h s) = rendering s"
proof -
  show st: "state_of (hook_audit h a s) = state_of s" "state_of (hook_snapshot h s) = state_of s"
    by (rule same_rows_state, simp add: same_rows_def)+
  show "rendering (hook_audit h a s) = rendering s" "rendering (hook_snapshot h s) = rendering s"
    by (rule rendering_cong, rule st)+
qed

subsection \<open>Without concurrent changes\<close>

definition alone :: "guarded_call \<Rightarrow> fwsys \<Rightarrow> fwsys" where
  "alone = (\<lambda>_ s. s)"

lemma alone_simp [simp]: "alone k s = s"
  by (simp add: alone_def)

lemma same_content_refl [simp]: "same_content s s"
  by (simp add: same_content_def)

lemma armWindow_content:
  "armWindow env alone u needed v s = (s1, r) \<Longrightarrow> same_content s s1 \<and> w_boot s1 = w_boot s"
  by (auto simp: armWindow_def Let_def same_content_def
      split: if_splits prod.splits sum.splits fw_error.splits dest!: OpenConfirmWindow_frame)

lemma discardWindow_content:
  "same_content s (discardWindow env alone i s) \<and> w_boot (discardWindow env alone i s) = w_boot s"
  by (auto simp: discardWindow_def same_content_def DiscardWindow_def ClearPendingChange_def
      split: sum.split option.split)

lemma reconcileGuarded_stage:
  "reconcileGuarded env gap ap h s = (s', Inl ge) \<Longrightarrow> fst ge = StageReconcile \<or> fst ge = StageStuck"
  by (auto simp: reconcileGuarded_def abortWindow_def Let_def split: if_splits option.splits prod.splits)

text \<open>What the stage of an error says is true of the firewall: a change that stopped at validation,
  at the lock, at the dry run, at the window or at the write left groups, rules, policies, kernel
  and boot file exactly as they were, whatever failed and in whatever way.\<close>

theorem early_stages_change_nothing:
  assumes "ApplyGuarded env alone u m h s = (s', Inl (st, c))"
    and "st \<in> {StageValidate, StageLocked, StagePreflight, StageWindow, StageWrite}"
  shows "same_content s s' \<and> w_boot s' = w_boot s"
proof -
  obtain needed v where nv: "mu_Window m s = (needed, v)" by fastforce
  obtain s3 r where a: "armWindow env alone u needed v s = (s3, r)" by fastforce
  note ac = armWindow_content [OF a]
  show ?thesis
  proof (cases "mu_Validate m \<noteq> None \<or> guardWindowOpen (env GuardCall) s \<noteq> None \<or> mu_Preflight m s \<noteq> None")
    case True
    then show ?thesis using assms(1) by (auto simp: ApplyGuarded_def nv a split: option.splits)
  next
    case False
    then have g: "guardWindowOpen (env GuardCall) s = None" by blast
    from False have F: "ApplyGuarded env alone u m h s = (case r of Inl ge \<Rightarrow> (s3, Inl ge) | Inr ap \<Rightarrow>
        (case mu_Write m s3 of None \<Rightarrow> (discardWindow env alone (ap_WindowID ap) s3, Inl (StageWrite, None))
         | Some s5 \<Rightarrow> reconcileGuarded env alone ap h (hook_audit h (mu_Audit m) s5)))"
      using g by (simp add: ApplyGuarded_def nv a Let_def split: sum.split option.split)
    show ?thesis
    proof (cases r)
      case (Inl ge)
      then show ?thesis using assms(1) F ac by simp
    next
      case (Inr ap)
      show ?thesis
      proof (cases "mu_Write m s3")
        case None
        then show ?thesis
          using assms(1) F Inr ac discardWindow_content [of s3 env "ap_WindowID ap"]
          by (auto simp: same_content_def)
      next
        case (Some s5)
        then have "reconcileGuarded env alone ap h (hook_audit h (mu_Audit m) s5) = (s', Inl (st, c))"
          using assms(1) F Inr by simp
        from reconcileGuarded_stage [OF this] show ?thesis using assms(2) by auto
      qed
    qed
  qed
qed

subsection \<open>A change that reaches the input chain\<close>

text \<open>A mutation that writes rows and settings, the settings with known policies.\<close>

definition writes_rows :: "mutation \<Rightarrow> bool" where
  "writes_rows m \<longleftrightarrow> (\<forall>s. \<exists>gs rs i f w. parse_policy i \<noteq> None \<and> parse_policy f \<noteq> None
     \<and> mu_Write m s = Some (s\<lparr>w_groups := gs, w_rules := rs, w_input := i, w_forward := f, w_wan := w\<rparr>))"

lemma guardWindowOpen_none: "works env \<Longrightarrow> w_pending s = None \<Longrightarrow> guardWindowOpen env s = None"
  by (simp add: guardWindowOpen_def GetPendingChange_def works_def)

text \<open>The database and the row at the moment of the reconciliation of a change with a window.\<close>

lemma guarded_prefix:
  assumes "mu_Validate m = None" and "mu_Preflight m s = None" and "mu_Window m s = (True, v)"
    and "\<And>k. k \<noteq> ReconcileCall \<Longrightarrow> works (env k)" and "writes_rows m"
    and "w_pending s = None" and "state_of s = Some base" and "wf_rows s" and "ce_uuid (env OpenCall) \<noteq> []"
  obtains p now s6 ap where
    "ApplyGuarded env alone u m h s =
       (let (s7, err) = Reconcile (env ReconcileCall) s6
        in case err of Some e \<Rightarrow> (let (s8, ge) = abortWindow env alone (ap_WindowID ap) e h s7 in (s8, Inl ge))
           | None \<Rightarrow> (hook_snapshot h s7, Inr ap))"
    "w_pending s6 = Some p" "\<not> Reverting p" "pc_Snapshot p = Json base" "pc_AppliedState p = Json now"
    "state_of s6 = Some now" "ap_WindowID ap = pc_ID p" "ap_Pending ap = Some (p\<lparr>pc_AppliedState := NoBlob\<rparr>)"
    "pc_ID p = ce_uuid (env OpenCall)" "w_boot s6 = w_boot s"
    "\<exists>s3 s4. same_content s s3 \<and> mu_Write m s3 = Some s4 \<and> same_rows s4 s6"
proof -
  let ?i = "ce_uuid (env OpenCall)"
  define q where "q = \<lparr>pc_ID = ?i, pc_Snapshot = Json base, pc_AppliedState = NoBlob,
      pc_ExpiresAt = (ce_now (env OpenCall) + ConfirmWindow) div second * second, pc_AppliedBy = u,
      pc_Summary = v, pc_CreatedAt = ce_now (env OpenCall), pc_RevertingAt = 0\<rparr>"
  define s3 where "s3 = s\<lparr>w_pending := Some q, w_monoDeadline := Some (?i, ce_mono (env OpenCall) + ConfirmWindow)\<rparr>"
  define ap where "ap = \<lparr>ap_WindowID = ?i, ap_Pending = Some q\<rparr>"
  have o: "OpenConfirmWindow (env OpenCall) u v s = (s3, Inr ?i)"
    unfolding s3_def q_def by (rule OpenConfirmWindow_works) (use assms in auto)
  have arm: "armWindow env alone u True v s = (s3, Inr ap)"
    using works_simps [OF assms(4), of RereadCall]
    by (simp add: armWindow_def o ap_def GetPendingChange_def) (simp add: s3_def q_def)
  obtain gs rs i f w where wr: "parse_policy i \<noteq> None" "parse_policy f \<noteq> None"
     "mu_Write m s3 = Some (s3\<lparr>w_groups := gs, w_rules := rs, w_input := i, w_forward := f, w_wan := w\<rparr>)"
    using assms(5) unfolding writes_rows_def by meson
  define s4 where "s4 = s3\<lparr>w_groups := gs, w_rules := rs, w_input := i, w_forward := f, w_wan := w\<rparr>"
  define s5 where "s5 = hook_audit h (mu_Audit m) s4"
  obtain now where now: "state_of s5 = Some now"
    using wr by (auto simp: s5_def s4_def state_of_def split: option.split)
  define s6 where "s6 = update_pending ?i (\<lambda>p. p\<lparr>pc_AppliedState := Json now\<rparr>) s5"
  have mark: "fst (MarkWindowApplied (env MarkCall) ?i s5) = s6"
    using assms(9) now readState_works [of "env MarkCall" AtOpen s5] works_simps [OF assms(4), of MarkCall]
    by (simp add: MarkWindowApplied_def SnapshotState_def SetPendingAppliedState_def s6_def)
  have "ApplyGuarded env alone u m h s = reconcileGuarded env alone ap h s5"
    using assms(1-3) guardWindowOpen_none [OF assms(4) assms(6), of GuardCall] arm wr(3)
    by (simp add: ApplyGuarded_def s5_def s4_def Let_def)
  also have "\<dots> = (let (s7, err) = Reconcile (env ReconcileCall) s6
        in case err of Some e \<Rightarrow> (let (s8, ge) = abortWindow env alone (ap_WindowID ap) e h s7 in (s8, Inl ge))
           | None \<Rightarrow> (hook_snapshot h s7, Inr ap))"
    using assms(9) mark by (simp add: reconcileGuarded_def ap_def Let_def split: prod.split option.split)
  finally have eq: "ApplyGuarded env alone u m h s = \<dots>" .
  have pe: "w_pending s6 = Some (q\<lparr>pc_AppliedState := Json now\<rparr>)"
    by (simp add: s6_def update_pending_def s5_def s4_def s3_def q_def)
  have st: "state_of s6 = Some now"
    using now same_rows_state [of s5 s6] by (simp add: s6_def same_rows_def)
  have lg: "mu_Write m s3 = Some s4" "same_rows s4 s6"
    using wr(3) by (simp_all add: same_rows_def s6_def s5_def s4_def)
  have sc: "same_content s s3" by (simp add: same_content_def s3_def)
  show thesis
    by (rule that [OF eq pe _ _ _ st])
      (use lg sc in \<open>auto simp: q_def ap_def Reverting_def s6_def s5_def s4_def s3_def\<close>)
qed

text \<open>C20. A change that reaches the input chain and whose reconciliation fails - refused by the kernel wholly or in part,
  however it leaves the chains - is undone on the spot, when that is all that fails: every other call of the database and
  of nft works, those of the undoing among them (when they do not, the stage of the error is another and the change
  stays until the window ends), no window is open before, nobody else writes meanwhile, the change
  writes rows and policies that parse, and the state from before reads and has rows with identities of their own.
  Then the error says reconciliation, the database reads as before, nothing is pending, and kernel and boot file hold
  the rendering of the state from before.\<close>

theorem refused_change_is_undone:
  assumes "mu_Validate m = None" and "mu_Preflight m s = None" and "mu_Window m s = (True, v)"
    and "\<And>k. k \<noteq> ReconcileCall \<Longrightarrow> works (env k)" and "writes_rows m"
    and "w_pending s = None" and "state_of s \<noteq> None" and "wf_rows s" and "ce_uuid (env OpenCall) \<noteq> []"
    and "ApplyGuarded env alone u m h s = (s', Inl ge)"
  shows "fst ge = StageReconcile \<and> state_of s' = state_of s \<and> w_pending s' = None
       \<and> rendering s = Some (w_live s') \<and> w_boot s' = Some (w_live s')"
proof -
  obtain base where base: "state_of s = Some base" using assms(7) by blast
  obtain p now s6 ap where
    eq: "ApplyGuarded env alone u m h s =
       (let (s7, err) = Reconcile (env ReconcileCall) s6
        in case err of Some e \<Rightarrow> (let (s8, ge) = abortWindow env alone (ap_WindowID ap) e h s7 in (s8, Inl ge))
           | None \<Rightarrow> (hook_snapshot h s7, Inr ap))"
    and p: "w_pending s6 = Some p" "\<not> Reverting p" "pc_Snapshot p = Json base" "pc_AppliedState p = Json now"
    and st: "state_of s6 = Some now" and i: "ap_WindowID ap = pc_ID p" "pc_ID p = ce_uuid (env OpenCall)"
    by (rule guarded_prefix [where env = env and u = u and h = h, OF assms(1-6) base assms(8,9)])
  obtain s7 err where r: "Reconcile (env ReconcileCall) s6 = (s7, err)" by fastforce
  note fr = Reconcile_frame [OF r]
  obtain e where e: "err = Some e" using eq assms(10) r by (cases err) auto
  have W: "works (env RevertCall)" by (rule assms(4)) simp
  have p7: "w_pending s7 = Some p" using fr p by simp
  have st7: "state_of s7 = Some now" using st fr same_rows_state [of s6 s7] by (simp add: same_rows_def)
  obtain s8 where s8: "revert (env RevertCall) p ByOperator False s7 = (s8, None)" "state_of s8 = state_of s"
    "w_pending s8 = None" "rendering s = Some (w_live s8)" "w_boot s8 = Some (w_live s8)"
    by (rule marked_window_reverts [OF W p7 p(2) base assms(8) p(3) st7 p(4)])
  have "RevertPending (env RevertCall) (pc_ID p) s7 = (s8, None)"
    using p7 s8(1) works_simps [OF W] by (simp add: RevertPending_def GetPendingChange_def)
  then have "fst ge = StageReconcile \<and> (\<exists>a. s' = hook_audit h a (hook_snapshot h s8))"
    using eq r e assms(9,10) i by (auto simp: abortWindow_def)
  then show ?thesis
    using s8 by auto
qed

text \<open>A change that reaches the input chain and is accepted is in force with the net under it:
  the database holds what the change wrote, the kernel its rendering, the window it returns is
  open with the state from before as its snapshot, and the boot file still describes the machine
  without the change.\<close>

theorem accepted_change_has_a_window:
  assumes "mu_Validate m = None" and "mu_Preflight m s = None" and "mu_Window m s = (True, v)"
    and "\<And>k. k \<noteq> ReconcileCall \<Longrightarrow> works (env k)" and "writes_rows m"
    and "w_pending s = None" and "state_of s = Some base" and "wf_rows s" and "ce_uuid (env OpenCall) \<noteq> []"
    and "ApplyGuarded env alone u m h s = (s', Inr ap)" and "\<not> ce_dry (env ReconcileCall)"
  shows "(\<exists>s3 s4. same_content s s3 \<and> mu_Write m s3 = Some s4 \<and> same_rows s4 s')
       \<and> rendering s' = Some (w_live s') \<and> w_boot s' = w_boot s
       \<and> (\<exists>p. w_pending s' = Some p \<and> pc_ID p = ap_WindowID ap \<and> pc_Snapshot p = Json base
            \<and> \<not> Reverting p)"
proof -
  obtain p now s6 ap' where
    eq: "ApplyGuarded env alone u m h s =
       (let (s7, err) = Reconcile (env ReconcileCall) s6
        in case err of Some e \<Rightarrow> (let (s8, ge) = abortWindow env alone (ap_WindowID ap') e h s7 in (s8, Inl ge))
           | None \<Rightarrow> (hook_snapshot h s7, Inr ap'))"
    and p: "w_pending s6 = Some p" "\<not> Reverting p" "pc_Snapshot p = Json base" "pc_AppliedState p = Json now"
    and st: "state_of s6 = Some now" and i: "ap_WindowID ap' = pc_ID p" "pc_ID p = ce_uuid (env OpenCall)"
    and b: "w_boot s6 = w_boot s"
    and wr: "\<exists>s3 s4. same_content s s3 \<and> mu_Write m s3 = Some s4 \<and> same_rows s4 s6"
    by (rule guarded_prefix [where env = env and u = u and h = h, OF assms(1-9)])
  obtain s7 err where r: "Reconcile (env ReconcileCall) s6 = (s7, err)" by fastforce
  note fr = Reconcile_frame [OF r]
  have e: "err = None" "s' = hook_snapshot h s7" "ap' = ap"
    using eq assms(10) r by (cases err; simp split: prod.splits)+
  have "rendering s7 = Some (w_live s7)"
    by (rule Reconcile_success(1) [OF _ assms(11)]) (use r e in simp)
  moreover have "rendering s' = rendering s7" by (simp add: e)
  moreover have "same_rows s6 s'" using fr e by (simp add: same_rows_def)
  moreover have "w_boot s' = w_boot s" using fr e b p by auto
  moreover have "w_pending s' = Some p" using fr e p by simp
  ultimately show ?thesis
    using wr p i e by (auto simp: same_rows_def)
qed

subsection \<open>A change during an unfinished reversion\<close>

lemma settled_after:
  assumes "works env" and "w_pending s = Some p" and "Reverting p" and "pc_Snapshot p = Json want"
    and "state_of s = Some now"
  shows "guardWindowOpen env s =
     (if canonicalState want = canonicalState now then None else Some (StageLocked, None))"
  using assms readState_works [of env AtSettled s]
  by (simp add: guardWindowOpen_def GetPendingChange_def works_def RevertSettled_def stateMatchesSnapshot_def)

text \<open>The lock opens while a reversion waits for the kernel only, but for one change: when the
  kernel refuses that change too, its rows stay in the database, which no longer matches the
  snapshot, and from then on every change is refused at the lock, also after any further pass of
  the watchdog, until the kernel accepts those very rows.\<close>

theorem second_change_locks_the_panel:
  assumes "mu_Validate m = None" and "mu_Preflight m s = None" and "mu_Window m s = (False, v)"
    and "w_pending s = Some p" and "Reverting p" and "pc_Snapshot p = Json want"
    and "guardWindowOpen (env GuardCall) s = None"
    and "mu_Write m s = Some s1" and "w_pending s1 = w_pending s"
    and "state_of s1 = Some now" and "canonicalState want \<noteq> canonicalState now"
    and "snd (Reconcile (env ReconcileCall) (hook_audit h (mu_Audit m) s1)) = Some e"
    and "ApplyGuarded env alone u m h s = (s', r)"
    and "s2 = fst (CheckPendingExpired e1 s')" and "works e2"
  shows "r = Inl (StageReconcile, Some (Failed (ReconcileFailed e)))
       \<and> same_rows s1 s' \<and> guardWindowOpen e2 s' = Some (StageLocked, None)
       \<and> (w_pending s2 = None \<or> guardWindowOpen e2 s2 = Some (StageLocked, None))"
proof -
  let ?s1 = "hook_audit h (mu_Audit m) s1"
  obtain s7 where r: "Reconcile (env ReconcileCall) ?s1 = (s7, Some e)"
    using assms(12) by (metis prod.collapse)
  note fr = Reconcile_frame [OF r]
  have out: "s' = s7 \<and> r = Inl (StageReconcile, Some (Failed (ReconcileFailed e)))"
    using assms(1-3,7,8,13) r
    by (auto simp: ApplyGuarded_def armWindow_def Let_def reconcileGuarded_def abortWindow_def)
  have rows: "same_rows s1 s'" using fr out by (simp add: same_rows_def)
  have locked: "guardWindowOpen e2 t = Some (StageLocked, None)"
    if "same_rows s1 t" "w_pending t = Some p" for t
    using settled_after [OF assms(15) that(2) assms(5,6), of now] same_rows_state [OF that(1)] assms(10,11)
    by simp
  have p': "w_pending s' = Some p" using fr out assms(4,9) by simp
  from check_reverting [OF p' assms(5), of e1]
  have "w_pending s2 = None \<or> same_rows s1 s2 \<and> w_pending s2 = Some p"
  proof (elim disjE exE)
    assume "fst (CheckPendingExpired e1 s') = s'"
    then show ?thesis using rows p' assms(14) by simp
  next
    fix err assume f: "finishRevert e1 p PreviousUnfinished s' = (fst (CheckPendingExpired e1 s'), err)"
    show ?thesis
      using finishRevert_out(1,3,4) [OF f] rows p' assms(14) by (cases err) (simp_all add: same_rows_def)
  qed
  then show ?thesis using out rows locked p' by blast
qed

subsection \<open>Witnesses\<close>

definition demo_mutation :: "bool \<Rightarrow> mutation" where
  "demo_mutation needed = \<lparr>mu_Validate = None, mu_Preflight = (\<lambda>_. None), mu_Window = (\<lambda>_. (needed, ''s'')),
     mu_Write = (\<lambda>s. Some (s\<lparr>w_groups := system_groups @ [demo_group ''z'' ''z'' 2 ''input''], w_rules := [],
        w_input := ''drop'', w_forward := [], w_wan := []\<rparr>)), mu_Audit = (''a'', ''r'', ''d'')\<rparr>"

definition demo_hooks :: hooks where
  "demo_hooks = \<lparr>hk_Audit = True, hk_SnapshotNft = True\<rparr>"

definition refusing_env :: "guarded_call \<Rightarrow> fw_env" where
  "refusing_env k = (if k = ReconcileCall then (demo_fw_env 7 7)\<lparr>ce_nft := \<lambda>want l. NftRefused want False\<rparr>
     else demo_fw_env 7 7)"

lemma demo_writes_rows: "writes_rows (demo_mutation b)"
  unfolding writes_rows_def demo_mutation_def
  by (intro allI exI [of _ "system_groups @ [demo_group ''z'' ''z'' 2 ''input'']"] exI [of _ "[]"]
      exI [of _ "''drop''"] exI [of _ "[]"]) (simp add: parse_policy_def)

lemma demo_mutation_simps:
  "mu_Validate (demo_mutation b) = None" "mu_Preflight (demo_mutation b) s = None"
  "mu_Window (demo_mutation b) s = (b, ''s'')"
  by (simp_all add: demo_mutation_def)

lemma demo_pending: "w_pending demo_fwsys = None"
  by (simp add: demo_fwsys_def)

theorem early_stages_change_nothing_witness:
  "\<exists>s'. ApplyGuarded refusing_env alone ''a'' ((demo_mutation True)\<lparr>mu_Validate := Some ''bad''\<rparr>) demo_hooks demo_fwsys
      = (s', Inl (StageValidate, Some (Refused ''bad''))) \<and> same_content demo_fwsys s'"
proof -
  have a: "ApplyGuarded refusing_env alone ''a'' ((demo_mutation True)\<lparr>mu_Validate := Some ''bad''\<rparr>) demo_hooks demo_fwsys
      = (demo_fwsys, Inl (StageValidate, Some (Refused ''bad'')))"
    by (simp add: ApplyGuarded_def)
  show ?thesis using early_stages_change_nothing [OF a] a by blast
qed

theorem refused_change_is_undone_witness:
  "\<exists>s' ge. ApplyGuarded refusing_env alone ''a'' (demo_mutation True) demo_hooks demo_fwsys = (s', Inl ge)
     \<and> fst ge = StageReconcile \<and> state_of s' = state_of demo_fwsys"
proof -
  have "isl (snd (ApplyGuarded refusing_env alone ''a'' (demo_mutation True) demo_hooks demo_fwsys))"
    by code_simp
  then obtain s' ge where a:
    "ApplyGuarded refusing_env alone ''a'' (demo_mutation True) demo_hooks demo_fwsys = (s', Inl ge)"
    by (metis isl_def prod.collapse)
  have st: "state_of demo_fwsys \<noteq> None" by (simp add: demo_state_of)
  have u: "ce_uuid (refusing_env OpenCall) \<noteq> []" by (simp add: refusing_env_def demo_fw_env_def)
  have w: "works (refusing_env k)" if "k \<noteq> ReconcileCall" for k using that by (simp add: refusing_env_def)
  show ?thesis
    using refused_change_is_undone [OF demo_mutation_simps w demo_writes_rows demo_pending st demo_wf u a] a
    by blast
qed

theorem accepted_change_has_a_window_witness:
  "\<exists>s' ap. ApplyGuarded (\<lambda>_. demo_fw_env 7 7) alone ''a'' (demo_mutation True) demo_hooks demo_fwsys = (s', Inr ap)
     \<and> rendering s' = Some (w_live s') \<and> w_pending s' \<noteq> None"
proof -
  have "\<not> isl (snd (ApplyGuarded (\<lambda>_. demo_fw_env 7 7) alone ''a'' (demo_mutation True) demo_hooks demo_fwsys))"
    by code_simp
  then obtain s' ap where a:
    "ApplyGuarded (\<lambda>_. demo_fw_env 7 7) alone ''a'' (demo_mutation True) demo_hooks demo_fwsys = (s', Inr ap)"
    by (metis sum.collapse(2) prod.collapse)
  have u: "ce_uuid (demo_fw_env 7 7) \<noteq> []" by (simp add: demo_fw_env_def)
  have d: "\<not> ce_dry (demo_fw_env 7 7)" by (simp add: demo_fw_env_def)
  show ?thesis
    using accepted_change_has_a_window [OF demo_mutation_simps demo_works demo_writes_rows demo_pending
        demo_state_of demo_wf u a d] a by blast
qed

theorem second_change_locks_the_panel_witness:
  "\<exists>s s'. fst (ApplyGuarded refusing_env alone ''a'' (demo_mutation False) demo_hooks s) = s'
     \<and> guardWindowOpen (demo_fw_env 7 7) s = None
     \<and> guardWindowOpen (demo_fw_env 7 7) s' = Some (StageLocked, None)"
proof -
  let ?p = "demo_row ''w'' (demo_state system_groups []) (demo_state [] []) 5"
  let ?s = "demo_fwsys\<lparr>w_pending := Some ?p\<rparr>"
  let ?now = "system_groups @ [demo_group ''z'' ''z'' 2 ''input'']"
  let ?s1 = "?s\<lparr>w_groups := ?now, w_rules := [], w_input := ''drop'', w_forward := [], w_wan := []\<rparr>"
  have st: "state_of ?s1 = Some (policy_state ?now)" by code_simp
  have g: "guardWindowOpen (demo_fw_env 7 7) ?s = None" by code_simp
  have g': "guardWindowOpen (refusing_env GuardCall) ?s = None" using g by (simp add: refusing_env_def)
  have ne: "canonicalState (demo_state system_groups []) \<noteq> canonicalState (policy_state ?now)" by code_simp
  have rv: "Reverting ?p" "pc_Snapshot ?p = Json (demo_state system_groups [])"
    by (simp_all add: demo_row_def Reverting_def)
  have wr: "mu_Write (demo_mutation False) ?s = Some ?s1" by (simp add: demo_mutation_def)
  have re: "snd (Reconcile (refusing_env ReconcileCall)
      (hook_audit demo_hooks (mu_Audit (demo_mutation False)) ?s1)) = Some ApplyFailed"
    by code_simp
  obtain s' r where a: "ApplyGuarded refusing_env alone ''a'' (demo_mutation False) demo_hooks ?s = (s', r)"
    by fastforce
  show ?thesis
    using second_change_locks_the_panel [OF demo_mutation_simps _ rv g' wr _ st ne re a refl demo_works [of 7 7]] a g
    by (intro exI [of _ ?s] exI [of _ s']) simp
qed

end
