(* ===== verification/RuleText.thy ===== *)
theory RuleText
  imports NetText FwData
begin

text \<open>
  One rule of the administrator as nftables text (\<open>internal/nftables/service.go\<close>): the fields
  are validated and rendered to the tokens handed to \<open>nft add rule\<close> (\<open>buildRuleTokens\<close>), the
  kernel's text is parsed back for the edit form (\<open>parseRuleFields\<close>), and a stored rule is
  recognised in the live ruleset by comparing normalised texts (\<open>ExpressionMatches\<close>).

  The lemmas show that no field can add a word to the command (every token is free of white
  space), that rendering and parsing are inverse up to the normal form, and that two texts
  match exactly when the rules have the same normal form.
\<close>

subsection \<open>Validation and rendering\<close>

record rule_fields =
  f_Action :: string
  f_Iif :: string
  f_Oif :: string
  f_Saddr :: string
  f_Daddr :: string
  f_Proto :: string
  f_Dport :: string

definition rule_Fields :: "fw_rule \<Rightarrow> rule_fields" where
  "rule_Fields r = \<lparr>f_Action = r_Action r, f_Iif = r_Iif r, f_Oif = r_Oif r, f_Saddr = r_Saddr r,
     f_Daddr = r_Daddr r, f_Proto = r_Proto r, f_Dport = r_Dport r\<rparr>"

datatype rule_error =
    BadAction | BadIif | BadOif | BadSaddr | BadDaddr | BadPort | BadProto

definition validIPv4OrCIDR :: "string \<Rightarrow> bool" where
  "validIPv4OrCIDR s =
     (case ParseIP s of
        Some ip \<Rightarrow> To4 ip \<noteq> None
      | None \<Rightarrow>
          case ParseCIDR s of
            None \<Rightarrow> False
          | Some (_, ipnet) \<Rightarrow> To4 (net_IP ipnet) \<noteq> None)"

definition port_number :: "string \<Rightarrow> nat option" where
  "port_number s =
     (let n = digits_value 0 s in if n < 1 \<or> 65535 < n then None else Some n)"

definition validPort :: "string \<Rightarrow> bool" where
  "validPort s =
     (if \<not> rePort s then False
      else case go_cut s ''-'' of
        None \<Rightarrow> port_number s \<noteq> None
      | Some (a, b) \<Rightarrow>
          (case (port_number a, port_number b) of
             (Some start, Some stop) \<Rightarrow> start \<le> stop
           | _ \<Rightarrow> False))"

definition proto_tokens :: "rule_fields \<Rightarrow> rule_error + string list" where
  "proto_tokens f =
     (let proto = go_lower (trim_space (f_Proto f)) in
      if proto = ''tcp'' \<or> proto = ''udp'' then
        (if f_Dport f \<noteq> [] then
           (if \<not> validPort (f_Dport f) then Inl BadPort else Inr [proto, ''dport'', f_Dport f])
         else Inr [''ip'', ''protocol'', proto])
      else if proto = ''icmp'' then Inr [''ip'', ''protocol'', ''icmp'']
      else if proto = [] \<or> proto = ''all'' \<or> proto = ''any'' then Inr []
      else Inl BadProto)"

definition buildRuleTokens :: "rule_fields \<Rightarrow> rule_error + string list" where
  "buildRuleTokens f =
     (let action = go_lower (trim_space (f_Action f)) in
      if action \<noteq> ''accept'' \<and> action \<noteq> ''drop'' \<and> action \<noteq> ''reject'' then Inl BadAction
      else if f_Iif f \<noteq> [] \<and> \<not> reIface (f_Iif f) then Inl BadIif
      else if f_Oif f \<noteq> [] \<and> \<not> reIface (f_Oif f) then Inl BadOif
      else if f_Saddr f \<noteq> [] \<and> \<not> validIPv4OrCIDR (f_Saddr f) then Inl BadSaddr
      else if f_Daddr f \<noteq> [] \<and> \<not> validIPv4OrCIDR (f_Daddr f) then Inl BadDaddr
      else case proto_tokens f of
        Inl e \<Rightarrow> Inl e
      | Inr l4 \<Rightarrow>
          Inr ((if f_Iif f = [] then [] else [''iifname'', f_Iif f])
             @ (if f_Oif f = [] then [] else [''oifname'', f_Oif f])
             @ (if f_Saddr f = [] then [] else [''ip'', ''saddr'', f_Saddr f])
             @ (if f_Daddr f = [] then [] else [''ip'', ''daddr'', f_Daddr f])
             @ l4 @ [''counter'', action]))"

definition ValidateRuleFields :: "rule_fields \<Rightarrow> rule_error option" where
  "ValidateRuleFields f = (case buildRuleTokens f of Inl e \<Rightarrow> Some e | Inr _ \<Rightarrow> None)"

definition RenderRule :: "rule_fields \<Rightarrow> rule_error + string" where
  "RenderRule f = (case buildRuleTokens f of Inl e \<Rightarrow> Inl e | Inr ts \<Rightarrow> Inr (go_join ts '' ''))"

subsection \<open>Reading a live rule\<close>

definition expressionTokens :: "rule_fields \<Rightarrow> rule_error + string" where
  "expressionTokens f =
     (case buildRuleTokens f of
        Inl e \<Rightarrow> Inl e
      | Inr tokens \<Rightarrow> Inr (go_join (filter (\<lambda>t. t \<noteq> ''counter'') tokens) '' ''))"

definition canonicalAddr :: "string \<Rightarrow> string" where
  "canonicalAddr s =
     (if str_contains s ''/'' then
        (case ParseCIDR s of
           None \<Rightarrow> s
         | Some (ip, ipnet) \<Rightarrow>
             if net_Ones ipnet = net_Bits ipnet then ip_string ip else net_string ipnet)
      else case ParseIP s of
             Some ip \<Rightarrow> ip_string ip
           | None \<Rightarrow> s)"

definition iface_word :: "string \<Rightarrow> bool" where
  "iface_word t \<longleftrightarrow> t = ''iifname'' \<or> t = ''oifname'' \<or> t = ''iif'' \<or> t = ''oif''"

text \<open>The loop of \<open>normalizeExpression\<close>, from the current word to the end.\<close>

fun normalize_words :: "string list \<Rightarrow> string list" where
  "normalize_words [] = []"
| "normalize_words (t # ts) =
     (if iface_word t then
        (case ts of [] \<Rightarrow> [t] | v # ts' \<Rightarrow> t # trim_char CHR 0x22 v # normalize_words ts')
      else if t = ''ip'' then
        (case ts of
           k # v # ts' \<Rightarrow>
             if k = ''saddr'' \<or> k = ''daddr'' then t # k # canonicalAddr v # normalize_words ts'
             else t # normalize_words ts
         | _ \<Rightarrow> t # normalize_words ts)
      else t # normalize_words ts)"

definition normalizeExpression :: "string \<Rightarrow> string" where
  "normalizeExpression expr = go_join (normalize_words (go_fields expr)) '' ''"

definition ExpressionMatches :: "rule_fields \<Rightarrow> string \<Rightarrow> bool" where
  "ExpressionMatches f live =
     (case expressionTokens f of
        Inl _ \<Rightarrow> False
      | Inr expected \<Rightarrow> normalizeExpression expected = normalizeExpression live)"

definition no_fields :: rule_fields where
  "no_fields = \<lparr>f_Action = [], f_Iif = [], f_Oif = [], f_Saddr = [], f_Daddr = [], f_Proto = [],
     f_Dport = []\<rparr>"

text \<open>The loop of \<open>parseRuleFields\<close>; an operand is consumed with its keyword.\<close>

fun parse_words :: "rule_fields \<Rightarrow> string list \<Rightarrow> rule_fields" where
  "parse_words f [] = f"
| "parse_words f (t # ts) =
     (if t = ''iif'' \<or> t = ''iifname'' then
        (case ts of [] \<Rightarrow> parse_words f ts
         | v # ts' \<Rightarrow> parse_words (f\<lparr>f_Iif := trim_char CHR 0x22 v\<rparr>) ts')
      else if t = ''oif'' \<or> t = ''oifname'' then
        (case ts of [] \<Rightarrow> parse_words f ts
         | v # ts' \<Rightarrow> parse_words (f\<lparr>f_Oif := trim_char CHR 0x22 v\<rparr>) ts')
      else if t = ''ip'' then
        (case ts of
           k # v # ts' \<Rightarrow>
             parse_words
               (if k = ''saddr'' then f\<lparr>f_Saddr := v\<rparr>
                else if k = ''daddr'' then f\<lparr>f_Daddr := v\<rparr>
                else if k = ''protocol'' then f\<lparr>f_Proto := v\<rparr> else f) ts'
         | _ \<Rightarrow> parse_words f ts)
      else if t = ''tcp'' \<or> t = ''udp'' then
        (case ts of
           k # v # ts' \<Rightarrow>
             if k = ''dport'' then parse_words (f\<lparr>f_Proto := t, f_Dport := v\<rparr>) ts'
             else parse_words (f\<lparr>f_Proto := t\<rparr>) ts
         | _ \<Rightarrow> parse_words (f\<lparr>f_Proto := t\<rparr>) ts)
      else if t = ''accept'' \<or> t = ''drop'' \<or> t = ''reject'' then
        parse_words (f\<lparr>f_Action := t\<rparr>) ts
      else parse_words f ts)"

definition parseRuleFields :: "string \<Rightarrow> rule_fields" where
  "parseRuleFields clean = parse_words no_fields (go_fields clean)"

subsection \<open>Validated text is one word\<close>

lemma token_of_chars: "t \<noteq> [] \<Longrightarrow> list_all P t \<Longrightarrow> (\<And>c. P c \<Longrightarrow> \<not> is_space c) \<Longrightarrow> token t"
  by (auto simp: token_def list_all_iff)

lemma addr_char_not_space: "addr_char c \<Longrightarrow> \<not> is_space c"
  by (auto simp: addr_char_def is_hex_def hex_value_def is_digit_def is_space_def split: if_splits)

lemma iface_char_not_space: "iface_char c \<Longrightarrow> \<not> is_space c"
  by (auto simp: iface_char_def is_lower_def is_upper_def is_digit_def is_space_def)

lemma token_reIface: "reIface s \<Longrightarrow> token s"
  by (rule token_of_chars [of _ iface_char]) (auto simp: reIface_def iface_char_not_space)

lemma not_addr_char: "\<not> addr_char (CHR ''/'')"
  by (simp add: addr_char_def is_hex_def hex_value_def is_digit_def)

lemma ParseIP_Nil [simp]: "ParseIP [] = None"
  by (simp add: ParseIP_def parse_addr_def)

lemma ParseIP_no_slash: "ParseIP s = Some ip \<Longrightarrow> CHR ''/'' \<notin> set s"
  using ParseIPD(3) [of s ip] not_addr_char by (auto simp: list_all_iff)

lemma ParseCIDRD:
  assumes "ParseCIDR s = Some (ip, n)"
  obtains a m is4 where "s = a @ CHR ''/'' # m" "parse_addr a = Some (is4, ip)"
    "all_digits m" "digits_value 0 m \<le> (if is4 then 32 else 128)"
    "n = \<lparr>net_IP = mask_bytes (digits_value 0 m) (if is4 then drop 12 ip else ip),
          net_Ones = digits_value 0 m, net_Bits = (if is4 then 32 else 128)\<rparr>"
proof (cases "go_cut s ''/''")
  case None
  with assms show thesis by (simp add: ParseCIDR_def)
next
  case (Some am)
  obtain a m where am: "go_cut s ''/'' = Some (a, m)" using Some by (cases am) simp
  show thesis
  proof (cases "parse_addr a")
    case None
    with assms am show thesis by (simp add: ParseCIDR_def)
  next
    case (Some r)
    obtain is4 ip' where r: "parse_addr a = Some (is4, ip')" using Some by (cases r) simp
    let ?n = "digits_value 0 m"
    have "(if \<not> all_digits m \<or> (if is4 then 32 else 128) < ?n then None
        else Some (ip', \<lparr>net_IP = mask_bytes ?n (if is4 then drop 12 ip' else ip'),
             net_Ones = ?n, net_Bits = if is4 then 32 else 128\<rparr>)) = Some (ip, n)"
      using assms am r by (simp only: ParseCIDR_def Let_def option.case prod.case)
    then have d: "all_digits m" "?n \<le> (if is4 then 32 else 128)" "ip' = ip"
      "n = \<lparr>net_IP = mask_bytes ?n (if is4 then drop 12 ip else ip),
             net_Ones = ?n, net_Bits = if is4 then 32 else 128\<rparr>"
      by (auto split: if_split_asm)
    show thesis
      by (rule that [OF go_cut_charD(1) [OF am] r [unfolded d(3)] d(1,2,4)])
  qed
qed

lemma token_validIPv4OrCIDR:
  assumes "validIPv4OrCIDR s" shows "token s"
proof (cases "ParseIP s")
  case (Some ip)
  then have "s \<noteq> []" by (cases s) auto
  then show ?thesis
    using ParseIPD(3) [OF Some] addr_char_not_space by (rule token_of_chars)
next
  case None
  with assms obtain ip n where "ParseCIDR s = Some (ip, n)"
    by (auto simp: validIPv4OrCIDR_def split: option.splits)
  then obtain a m is4 where s: "s = a @ CHR ''/'' # m" "parse_addr a = Some (is4, ip)" "all_digits m"
    by (rule ParseCIDRD)
  have "list_all (\<lambda>c. addr_char c \<or> is_digit c \<or> c = CHR ''/'') s"
    using s parse_addrD(3) [OF s(2)] by (auto simp: all_digits_def list_all_iff)
  then show ?thesis
    by (rule token_of_chars [rotated])
       (use s(1) in \<open>auto dest: addr_char_not_space is_digit_not_space simp: is_space_def\<close>)
qed

subsection \<open>Canonical addresses\<close>

definition canonical_text :: "string \<Rightarrow> bool" where
  "canonical_text t \<longleftrightarrow>
     (\<exists>q. length q = 4 \<and> list_all (\<lambda>b. b < 256) q \<and>
        (t = v4_string q \<or> (\<exists>k < 32. mask_bytes k q = q \<and> t = v4_string q @ ''/'' @ nat_digits k)))"

lemma str_contains_char: "str_contains s [c] \<longleftrightarrow> c \<in> set s"
  by (simp add: str_contains_def index_of_char)

lemma canonicalAddr_canonical:
  assumes "canonical_text t"
  shows "canonicalAddr t = t" "validIPv4OrCIDR t"
proof -
  from assms obtain q where q: "length q = 4" "list_all (\<lambda>b. b < 256) q"
    and t: "t = v4_string q \<or> (\<exists>k < 32. mask_bytes k q = q \<and> t = v4_string q @ ''/'' @ nat_digits k)"
    by (auto simp: canonical_text_def)
  have "canonicalAddr t = t \<and> validIPv4OrCIDR t"
    using t
  proof (elim disjE exE conjE)
    assume "t = v4_string q"
    with q show ?thesis
      by (simp add: canonicalAddr_def validIPv4OrCIDR_def str_contains_char v4_string_chars
          ParseIP_v4_string ip_string_def)
  next
    fix k :: nat assume k: "k < 32" "mask_bytes k q = q" and t: "t = v4_string q @ ''/'' @ nat_digits k"
    have sl: "CHR ''/'' \<in> set t" using t by simp
    then have ip: "ParseIP t = None" using ParseIP_no_slash by fastforce
    have "go_cut t ''/'' = Some (v4_string q, nat_digits k)"
      using t go_cut_char [OF v4_string_chars(1) [OF q(1)]] by simp
    then have "ParseCIDR t = Some (v4_prefix @ q, \<lparr>net_IP = q, net_Ones = k, net_Bits = 32\<rparr>)"
      using k q by (simp add: ParseCIDR_def parse_addr_v4_string Let_def v4_prefix_def)
    with k q t sl ip show ?thesis
      by (simp add: canonicalAddr_def str_contains_char net_string_def To4_def validIPv4OrCIDR_def)
  qed
  then show "canonicalAddr t = t" "validIPv4OrCIDR t" by simp_all
qed

lemma ParseCIDR_ones96:
  assumes "length ip = 16" and "To4 (mask_bytes n ip) = Some q" and "n \<le> 128"
  shows "96 \<le> n" "ip = v4_prefix @ drop 12 ip" "q = mask_bytes (n - 96) (drop 12 ip)"
proof -
  define h b r where "h = take 11 ip" and "b = ip ! 11" and "r = drop 12 ip"
  have ip: "ip = (h @ [b]) @ r" and len: "length h = 11" "length r = 4"
    using assms(1) id_take_nth_drop [of 11 ip] by (simp_all add: h_def b_def r_def)
  have mb: "mask_bytes n ip = (mask_bytes n h @ [mask_byte (n - 88) b]) @ mask_bytes (n - 96) r"
    unfolding ip mask_bytes_append using len by simp
  have len12: "length (mask_bytes n h @ [mask_byte (n - 88) b]) = 12" using len by simp
  have split: "mask_bytes n h @ [mask_byte (n - 88) b] = v4_prefix" "q = mask_bytes (n - 96) r"
    using assms(2) len12 len(2) unfolding mb To4_def
    by (simp_all split: if_splits) (simp add: v4_prefix_def)
  have "v4_prefix = [0, 0, 0, 0, 0, 0, 0, 0, 0, 0, 255] @ [255]" by (simp add: v4_prefix_def)
  with split(1) have "mask_byte (n - 88) b = 255" by (metis append1_eq_conv)
  then show n: "96 \<le> n" using mask_byte_255 [of "n - 88" b] by simp
  have "mask_bytes n (h @ [b]) = h @ [b]" using len n by (intro mask_bytes_all) simp
  moreover have "mask_bytes n (h @ [b]) = v4_prefix"
    using split(1) len by (simp add: mask_bytes_append)
  ultimately show "ip = v4_prefix @ drop 12 ip" using ip r_def by simp
  show "q = mask_bytes (n - 96) (drop 12 ip)" using split(2) r_def by simp
qed

lemma canonical_of_valid:
  assumes "validIPv4OrCIDR s"
  shows "canonical_text (canonicalAddr s)"
proof (cases "ParseIP s")
  case (Some ip)
  with assms obtain q where q: "To4 ip = Some q" by (auto simp: validIPv4OrCIDR_def)
  have "ip = v4_prefix @ q" "length q = 4" using To4D [OF q] ParseIPD(1) [OF Some] by auto
  with Some q ParseIPD(2) [OF Some] ParseIP_no_slash [OF Some] show ?thesis
    unfolding canonical_text_def by (auto simp: canonicalAddr_def str_contains_char ip_string_def)
next
  case None
  with assms obtain ip n q where n: "ParseCIDR s = Some (ip, n)" "To4 (net_IP n) = Some q"
    by (auto simp: validIPv4OrCIDR_def split: option.splits)
  then obtain a m is4 where s: "s = a @ CHR ''/'' # m" "parse_addr a = Some (is4, ip)"
    "digits_value 0 m \<le> (if is4 then 32 else 128)"
    "n = \<lparr>net_IP = mask_bytes (digits_value 0 m) (if is4 then drop 12 ip else ip),
          net_Ones = digits_value 0 m, net_Bits = (if is4 then 32 else 128)\<rparr>"
    by (elim ParseCIDRD)
  define k where "k = digits_value 0 m"
  note ip = parse_addrD [OF s(2)]
  have slash: "str_contains s ''/''" using s(1) by (simp add: str_contains_char)
  define p j where "p = drop 12 ip" and "j = (if is4 then k else k - 96)"
  have "ip = v4_prefix @ p \<and> q = mask_bytes j p \<and> j \<le> 32 \<and>
      (net_Ones n = net_Bits n) = (j = 32) \<and> net_string n = v4_string q @ ''/'' @ nat_digits j"
  proof (cases is4)
    case True
    then have "ip = v4_prefix @ p"
      using ip(4) append_take_drop_id [of 12 ip] by (simp add: p_def)
    moreover have "length p = 4" using ip(1) by (simp add: p_def)
    moreover have nn: "net_IP n = mask_bytes k p" "net_Ones n = k" "net_Bits n = 32"
      using True s(4) by (simp_all only: k_def p_def if_True ip_net.simps)
    moreover have "q = mask_bytes k p"
      using n(2) \<open>length p = 4\<close> unfolding nn(1) by (simp add: To4_def)
    moreover have "k \<le> 32" using True s(3) by (simp only: k_def if_True)
    ultimately show ?thesis
      using True by (simp add: j_def net_string_def To4_def)
  next
    case False
    then have t4: "To4 (mask_bytes k ip) = Some q" and k: "k \<le> 128"
      using n(2) s(3,4) by (simp_all only: k_def if_False ip_net.simps)
    note r = ParseCIDR_ones96 [OF ip(1) t4 k]
    have "net_string n = v4_string q @ ''/'' @ nat_digits (k - 96)" "net_Ones n = k" "net_Bits n = 128"
      using False t4 s(4) by (simp_all add: k_def [symmetric] net_string_def)
    moreover have "k - 96 = 32 \<longleftrightarrow> k = 128" using r(1) by arith
    ultimately show ?thesis
      using False r(2,3) k by (simp add: j_def p_def)
  qed
  then have ipp: "ip = v4_prefix @ p" and q: "q = mask_bytes j p" and j: "j \<le> 32"
    and full: "net_Ones n = net_Bits n \<longleftrightarrow> j = 32"
    and str: "net_string n = v4_string q @ ''/'' @ nat_digits j" by simp_all
  have "length p = 4" using ip(1) by (simp add: p_def)
  moreover have "list_all (\<lambda>b. b < 256) (v4_prefix @ p)" using ip(2) by (simp only: ipp)
  ultimately have p4: "length p = 4" "list_all (\<lambda>b. b < 256) p" by simp_all
  show ?thesis
  proof (cases "j = 32")
    case True
    then have "q = p" using q p4 by (simp add: mask_bytes_all)
    with True full have "canonicalAddr s = v4_string p"
      using n(1) slash p4(1) by (simp add: canonicalAddr_def ip_string_def ipp)
    with p4 show ?thesis unfolding canonical_text_def by (intro exI [of _ p]) simp
  next
    case False
    have "length q = 4" "list_all (\<lambda>b. b < 256) q" "mask_bytes j q = q" "j < 32"
      using q p4 j False by (auto simp: mask_bytes_less)
    moreover have "canonicalAddr s = v4_string q @ ''/'' @ nat_digits j"
      using False full n(1) slash str by (simp add: canonicalAddr_def)
    ultimately show ?thesis unfolding canonical_text_def by (intro exI [of _ q] conjI disjI2 exI [of _ j])
  qed
qed

lemma canonicalAddr_idem [simp]: "validIPv4OrCIDR s \<Longrightarrow> canonicalAddr (canonicalAddr s) = canonicalAddr s"
  by (rule canonicalAddr_canonical(1)) (rule canonical_of_valid)

lemma valid_canonicalAddr [simp]: "validIPv4OrCIDR s \<Longrightarrow> validIPv4OrCIDR (canonicalAddr s)"
  by (rule canonicalAddr_canonical(2)) (rule canonical_of_valid)

subsection \<open>Normal form\<close>

text \<open>What the rule says: without case and blanks in the keywords, no port without a protocol that has one.\<close>

definition rule_proto :: "rule_fields \<Rightarrow> string" where
  "rule_proto f = (let p = go_lower (trim_space (f_Proto f)) in if p = ''all'' \<or> p = ''any'' then [] else p)"

definition normal_rule :: "rule_fields \<Rightarrow> rule_fields" where
  "normal_rule f = f\<lparr>f_Action := go_lower (trim_space (f_Action f)), f_Proto := rule_proto f,
     f_Dport := (if rule_proto f = ''tcp'' \<or> rule_proto f = ''udp'' then f_Dport f else [])\<rparr>"

definition opt_words :: "string list \<Rightarrow> string \<Rightarrow> string list" where
  "opt_words ws v = (if v = [] then [] else ws @ [v])"

definition l4_words :: "rule_fields \<Rightarrow> string list" where
  "l4_words f =
     (if f_Proto f = [] then []
      else if f_Dport f = [] then [''ip'', ''protocol'', f_Proto f]
      else [f_Proto f, ''dport'', f_Dport f])"

definition match_words :: "(string \<Rightarrow> string) \<Rightarrow> (string \<Rightarrow> string) \<Rightarrow> rule_fields \<Rightarrow> string list" where
  "match_words qi ca f =
     opt_words [''iifname''] (if f_Iif f = [] then [] else qi (f_Iif f))
     @ opt_words [''oifname''] (if f_Oif f = [] then [] else qi (f_Oif f))
     @ opt_words [''ip'', ''saddr''] (if f_Saddr f = [] then [] else ca (f_Saddr f))
     @ opt_words [''ip'', ''daddr''] (if f_Daddr f = [] then [] else ca (f_Daddr f))
     @ l4_words f"

text \<open>A rule in normal form that validates.\<close>

definition normal_ok :: "rule_fields \<Rightarrow> bool" where
  "normal_ok f \<longleftrightarrow>
     f_Action f \<in> {''accept'', ''drop'', ''reject''}
     \<and> (f_Iif f = [] \<or> reIface (f_Iif f)) \<and> (f_Oif f = [] \<or> reIface (f_Oif f))
     \<and> (f_Saddr f = [] \<or> validIPv4OrCIDR (f_Saddr f)) \<and> (f_Daddr f = [] \<or> validIPv4OrCIDR (f_Daddr f))
     \<and> f_Proto f \<in> {[], ''tcp'', ''udp'', ''icmp''}
     \<and> (f_Dport f = [] \<or> f_Proto f \<in> {''tcp'', ''udp''} \<and> validPort (f_Dport f))"

lemma normal_rule_simps [simp]:
  "f_Action (normal_rule f) = go_lower (trim_space (f_Action f))" "f_Iif (normal_rule f) = f_Iif f"
  "f_Oif (normal_rule f) = f_Oif f" "f_Saddr (normal_rule f) = f_Saddr f"
  "f_Daddr (normal_rule f) = f_Daddr f" "f_Proto (normal_rule f) = rule_proto f"
  "f_Dport (normal_rule f) = (if rule_proto f = ''tcp'' \<or> rule_proto f = ''udp'' then f_Dport f else [])"
  by (simp_all add: normal_rule_def)

lemma proto_tokens_Inr:
  "proto_tokens f = Inr l4 \<longleftrightarrow>
     rule_proto f \<in> {[], ''tcp'', ''udp'', ''icmp''}
     \<and> (f_Dport (normal_rule f) = [] \<or> rule_proto f \<in> {''tcp'', ''udp''} \<and> validPort (f_Dport (normal_rule f)))
     \<and> l4 = l4_words (normal_rule f)"
proof -
  define p where "p = go_lower (trim_space (f_Proto f))"
  have rp: "rule_proto f = (if p = ''all'' \<or> p = ''any'' then [] else p)"
    by (simp add: rule_proto_def p_def Let_def)
  consider "p = ''tcp'' \<or> p = ''udp''" | "p = ''icmp''" | "p = [] \<or> p = ''all'' \<or> p = ''any''"
    | "p \<noteq> ''tcp'' \<and> p \<noteq> ''udp'' \<and> p \<noteq> ''icmp'' \<and> p \<noteq> [] \<and> p \<noteq> ''all'' \<and> p \<noteq> ''any''" by blast
  then show ?thesis
    unfolding proto_tokens_def Let_def p_def [symmetric] l4_words_def normal_rule_simps rp
    by cases auto
qed

lemma buildRuleTokens_Inr:
  "buildRuleTokens f = Inr ts \<longleftrightarrow>
     normal_ok (normal_rule f)
     \<and> ts = match_words id id (normal_rule f) @ [''counter'', f_Action (normal_rule f)]"
proof -
  define a where "a = f_Action (normal_rule f)"
  have words: "(if f_Iif f = [] then [] else [''iifname'', f_Iif f])
             @ (if f_Oif f = [] then [] else [''oifname'', f_Oif f])
             @ (if f_Saddr f = [] then [] else [''ip'', ''saddr'', f_Saddr f])
             @ (if f_Daddr f = [] then [] else [''ip'', ''daddr'', f_Daddr f])
             @ l4_words (normal_rule f) @ w = match_words id id (normal_rule f) @ w" for w
    by (simp add: match_words_def opt_words_def del: normal_rule_simps(6,7))
  have a: "f_Action (normal_rule f) = a" "go_lower (trim_space (f_Action f)) = a" by (simp_all add: a_def)
  show ?thesis
  proof (cases "proto_tokens f")
    case (Inl e)
    then have "\<not> normal_ok (normal_rule f)"
      using proto_tokens_Inr [of f] unfolding normal_ok_def normal_rule_simps(6) by (metis sum.distinct(1))
    with Inl show ?thesis by (simp add: buildRuleTokens_def Let_def)
  next
    case (Inr l)
    note l = Inr [unfolded proto_tokens_Inr]
    have ok: "normal_ok (normal_rule f) \<longleftrightarrow> \<not> (a \<noteq> ''accept'' \<and> a \<noteq> ''drop'' \<and> a \<noteq> ''reject'')
      \<and> \<not> (f_Iif f \<noteq> [] \<and> \<not> reIface (f_Iif f)) \<and> \<not> (f_Oif f \<noteq> [] \<and> \<not> reIface (f_Oif f))
      \<and> \<not> (f_Saddr f \<noteq> [] \<and> \<not> validIPv4OrCIDR (f_Saddr f))
      \<and> \<not> (f_Daddr f \<noteq> [] \<and> \<not> validIPv4OrCIDR (f_Daddr f))"
      using l unfolding normal_ok_def a normal_rule_simps(2-6) by blast
    show ?thesis
      unfolding buildRuleTokens_def Let_def a Inr sum.case ok
      by (simp only: l words split: if_split) blast
  qed
qed

lemma of_char_char_of_le: "n < 256 \<Longrightarrow> (of_char (char_of n :: char) :: nat) = n"
  by (simp add: of_char_of)

lemma normal_ok_fixed: "normal_ok f \<Longrightarrow> normal_rule f = f"
proof -
  assume ok: "normal_ok f"
  then have "f_Action f \<in> {''accept'', ''drop'', ''reject''}" by (simp add: normal_ok_def)
  then have a: "go_lower (trim_space (f_Action f)) = f_Action f"
    by (elim insertE emptyE; simp add: go_lower_def trim_space_def trim_left_def lower_char_def is_upper_def is_space_def)
  from ok have "f_Proto f \<in> {[], ''tcp'', ''udp'', ''icmp''}" by (simp add: normal_ok_def)
  then have p: "rule_proto f = f_Proto f"
    by (elim insertE emptyE; simp add: rule_proto_def Let_def go_lower_def trim_space_def trim_left_def lower_char_def is_upper_def is_space_def)
  have d: "\<not> (f_Proto f = ''tcp'' \<or> f_Proto f = ''udp'') \<Longrightarrow> f_Dport f = []"
    using ok by (auto simp: normal_ok_def)
  show ?thesis
    by (rule rule_fields.equality) (simp_all add: a p d normal_rule_def)
qed

lemma validPort_chars: "validPort s \<Longrightarrow> s \<noteq> [] \<and> list_all (\<lambda>c. is_digit c \<or> c = CHR ''-'') s"
proof -
  assume "validPort s"
  then have r: "rePort s" by (simp add: validPort_def split: if_splits)
  have "s \<noteq> []" using r by (auto simp: rePort_def port_digits_def go_cut_def split: option.splits)
  moreover have "list_all (\<lambda>c. is_digit c \<or> c = CHR ''-'') s"
  proof (cases "go_cut s ''-''")
    case None
    with r show ?thesis by (auto simp: rePort_def port_digits_def list_all_iff)
  next
    case (Some ab)
    obtain a b where ab: "go_cut s ''-'' = Some (a, b)" using Some by (cases ab) simp
    with r have "list_all is_digit a" "list_all is_digit b" by (auto simp: rePort_def port_digits_def)
    with go_cut_charD(1) [OF ab] show ?thesis by (auto simp: list_all_iff)
  qed
  ultimately show ?thesis by simp
qed

lemma port_char_not_space: "is_digit c \<or> c = CHR ''-'' \<Longrightarrow> \<not> is_space c"
  by (auto simp: is_space_def is_digit_def)

lemma token_validPort: "validPort s \<Longrightarrow> token s"
  using validPort_chars [of s] port_char_not_space
  by (intro token_of_chars [of s "\<lambda>c. is_digit c \<or> c = CHR ''-''"]) blast+

lemma token_literal [simp]:
  "token ''iifname''" "token ''oifname''" "token ''ip''" "token ''saddr''" "token ''daddr''"
  "token ''protocol''" "token ''dport''" "token ''counter''" "token ''accept''" "token ''drop''"
  "token ''reject''" "token ''tcp''" "token ''udp''" "token ''icmp''"
  by (simp_all add: token_def is_space_def)

lemma token_opt_words: "list_all token (opt_words ws v) \<longleftrightarrow> (v \<noteq> [] \<longrightarrow> list_all token ws \<and> token v)"
  by (simp add: opt_words_def)

lemma normal_okD:
  assumes "normal_ok f"
  shows "f_Action f \<in> {''accept'', ''drop'', ''reject''}" "f_Iif f = [] \<or> reIface (f_Iif f)"
    "f_Oif f = [] \<or> reIface (f_Oif f)" "f_Saddr f = [] \<or> validIPv4OrCIDR (f_Saddr f)"
    "f_Daddr f = [] \<or> validIPv4OrCIDR (f_Daddr f)" "f_Proto f \<in> {[], ''tcp'', ''udp'', ''icmp''}"
    "f_Dport f = [] \<or> f_Proto f \<in> {''tcp'', ''udp''}" "f_Dport f = [] \<or> validPort (f_Dport f)"
  using assms unfolding normal_ok_def by blast+

lemma tokens_match_words:
  assumes "normal_ok f" "\<And>i. reIface i \<Longrightarrow> token (qi i)" "\<And>a. validIPv4OrCIDR a \<Longrightarrow> token (ca a)"
  shows "list_all token (match_words qi ca f)" "token (f_Action f)"
proof -
  have dp: "f_Dport f \<noteq> [] \<longrightarrow> token (f_Dport f)"
    using normal_okD(8) [OF assms(1)] token_validPort by blast
  have "list_all token (l4_words f)"
    using normal_okD(6) [OF assms(1)] dp
    by (elim insertE emptyE; simp add: l4_words_def)
  then show "list_all token (match_words qi ca f)"
    using assms unfolding match_words_def normal_ok_def
    by (simp add: token_opt_words) blast
  show "token (f_Action f)" using normal_okD(1) [OF assms(1)] by (elim insertE emptyE; simp)
qed

lemma buildRuleTokens_tokens:
  assumes "buildRuleTokens f = Inr ts" shows "list_all token ts"
proof -
  from assms have ok: "normal_ok (normal_rule f)"
    and ts: "ts = match_words id id (normal_rule f) @ [''counter'', f_Action (normal_rule f)]"
    by (simp_all add: buildRuleTokens_Inr)
  show ?thesis
    using tokens_match_words [OF ok, of id id] by (simp add: ts token_reIface token_validIPv4OrCIDR)
qed

lemma validPort_not_Nil: "validPort s \<Longrightarrow> s \<noteq> []"
  by (rule token_not_Nil) (rule token_validPort)

lemma trim_char_id: "c \<notin> set s \<Longrightarrow> trim_char c s = s"
proof -
  have drop: "dropWhile ((=) c) t = t" if "c \<notin> set t" for t
    using that by (cases t) auto
  assume "c \<notin> set s"
  then show ?thesis by (simp add: trim_char_def drop)
qed

lemma trim_char_Nil [simp]: "trim_char c [] = []"
  by (simp add: trim_char_def)

lemma iface_no_quote: "reIface i \<Longrightarrow> CHR 0x22 \<notin> set i"
  by (auto simp: reIface_def list_all_iff iface_char_def is_lower_def is_upper_def is_digit_def dest!: bspec)

lemma parse_opt_words:
  "parse_words f (opt_words [''iifname''] v @ ts) = parse_words (if v = [] then f else f\<lparr>f_Iif := trim_char CHR 0x22 v\<rparr>) ts"
  "parse_words f (opt_words [''oifname''] v @ ts) = parse_words (if v = [] then f else f\<lparr>f_Oif := trim_char CHR 0x22 v\<rparr>) ts"
  "parse_words f (opt_words [''ip'', ''saddr''] v @ ts) = parse_words (if v = [] then f else f\<lparr>f_Saddr := v\<rparr>) ts"
  "parse_words f (opt_words [''ip'', ''daddr''] v @ ts) = parse_words (if v = [] then f else f\<lparr>f_Daddr := v\<rparr>) ts"
  by (simp_all add: opt_words_def)

lemma parse_l4_words:
  assumes "f_Proto g \<in> {[], ''tcp'', ''udp'', ''icmp''}" "f_Dport g = [] \<or> f_Proto g \<in> {''tcp'', ''udp''}"
  shows "parse_words f (l4_words g @ ts) =
    parse_words (if f_Proto g = [] then f else if f_Dport g = [] then f\<lparr>f_Proto := f_Proto g\<rparr>
      else f\<lparr>f_Proto := f_Proto g, f_Dport := f_Dport g\<rparr>) ts"
  using assms by (elim insertE emptyE; simp add: l4_words_def)

lemma parse_action:
  "a \<in> {''accept'', ''drop'', ''reject''} \<Longrightarrow> parse_words f [a] = f\<lparr>f_Action := a\<rparr>"
  "parse_words f (''counter'' # ts) = parse_words f ts"
  by auto

lemma parse_match_words:
  assumes ok: "normal_ok f" and "w = [] \<or> w = [''counter'']"
    and ca: "\<And>a. validIPv4OrCIDR a \<Longrightarrow> ca a \<noteq> []"
  shows "parse_words no_fields (match_words id ca f @ w @ [f_Action f]) =
    f\<lparr>f_Saddr := if f_Saddr f = [] then [] else ca (f_Saddr f),
      f_Daddr := if f_Daddr f = [] then [] else ca (f_Daddr f)\<rparr>"
proof -
  note D = normal_okD [OF ok]
  have i: "trim_char CHR 0x22 (f_Iif f) = f_Iif f" "trim_char CHR 0x22 (f_Oif f) = f_Oif f"
    using D(2,3) trim_char_id [OF iface_no_quote] by (metis trim_char_Nil)+
  have s: "f_Saddr f \<noteq> [] \<Longrightarrow> ca (f_Saddr f) \<noteq> []" "f_Daddr f \<noteq> [] \<Longrightarrow> ca (f_Daddr f) \<noteq> []"
    using D(4,5) ca by blast+
  have d: "f_Proto f = [] \<Longrightarrow> f_Dport f = []" using D(7) by auto
  have w: "parse_words g (w @ [f_Action f]) = g\<lparr>f_Action := f_Action f\<rparr>" for g
    using assms(2) parse_action(1) [OF D(1)] parse_action(2) by auto
  show ?thesis
    unfolding match_words_def append_assoc parse_opt_words parse_l4_words [OF D(6,7)] w
    by (rule rule_fields.equality) (auto simp: no_fields_def i s d)
qed


definition with_canonical_addrs :: "rule_fields \<Rightarrow> rule_fields" where
  "with_canonical_addrs f = f
     \<lparr>f_Saddr := (if f_Saddr f = [] then [] else canonicalAddr (f_Saddr f)),
      f_Daddr := (if f_Daddr f = [] then [] else canonicalAddr (f_Daddr f))\<rparr>"

definition canonical_rule :: "rule_fields \<Rightarrow> rule_fields" where
  "canonical_rule f = with_canonical_addrs (normal_rule f)"

definition valid_rule :: "rule_fields \<Rightarrow> bool" where
  "valid_rule f \<longleftrightarrow> ValidateRuleFields f = None"

lemma valid_rule_iff: "valid_rule f \<longleftrightarrow> normal_ok (normal_rule f)"
proof (cases "buildRuleTokens f")
  case (Inl e)
  with buildRuleTokens_Inr [of f "match_words id id (normal_rule f) @ [''counter'', f_Action (normal_rule f)]"]
  show ?thesis by (simp add: valid_rule_def ValidateRuleFields_def)
next
  case (Inr ts)
  with buildRuleTokens_Inr [of f ts] show ?thesis by (simp add: valid_rule_def ValidateRuleFields_def)
qed

lemma canonical_text_not_Nil: "canonical_text t \<Longrightarrow> t \<noteq> []"
  by (auto simp: canonical_text_def v4_string_def numeral_eq_Suc length_Suc_conv)

lemma validIPv4_not_Nil: "validIPv4OrCIDR s \<Longrightarrow> s \<noteq> []"
  by (rule token_not_Nil) (rule token_validIPv4OrCIDR)

lemma canonicalAddr_not_Nil: "validIPv4OrCIDR s \<Longrightarrow> canonicalAddr s \<noteq> []"
  by (rule canonical_text_not_Nil) (rule canonical_of_valid)

lemma token_canonicalAddr: "validIPv4OrCIDR s \<Longrightarrow> token (canonicalAddr s)"
  by (rule token_validIPv4OrCIDR) simp

lemma token_quoted: "reIface i \<Longrightarrow> token (dquote @ i @ dquote)"
  using token_reIface [of i] by (simp add: token_def dquote_def is_space_def)

lemma trim_quoted: "reIface i \<Longrightarrow> trim_char CHR 0x22 (dquote @ i @ dquote) = i"
proof -
  assume i: "reIface i"
  have drop: "dropWhile ((=) CHR 0x22) (t @ u) = t @ u" if "t \<noteq> []" "CHR 0x22 \<notin> set t" for t u :: string
    using that by (cases t) auto
  have "i \<noteq> []" "CHR 0x22 \<notin> set i" using i iface_no_quote by (auto simp: reIface_def)
  then show ?thesis using drop [of i dquote] drop [of "rev i" "[]"]
    by (simp add: trim_char_def dquote_def)
qed

lemma normalize_opt_words:
  "v = [] \<or> trim_char CHR 0x22 v \<noteq> [] \<Longrightarrow> normalize_words (opt_words [''iifname''] v @ ts) =
     opt_words [''iifname''] (if v = [] then [] else trim_char CHR 0x22 v) @ normalize_words ts"
  "v = [] \<or> trim_char CHR 0x22 v \<noteq> [] \<Longrightarrow> normalize_words (opt_words [''oifname''] v @ ts) =
     opt_words [''oifname''] (if v = [] then [] else trim_char CHR 0x22 v) @ normalize_words ts"
  "v = [] \<or> canonicalAddr v \<noteq> [] \<Longrightarrow> normalize_words (opt_words [''ip'', ''saddr''] v @ ts) =
     opt_words [''ip'', ''saddr''] (if v = [] then [] else canonicalAddr v) @ normalize_words ts"
  "v = [] \<or> canonicalAddr v \<noteq> [] \<Longrightarrow> normalize_words (opt_words [''ip'', ''daddr''] v @ ts) =
     opt_words [''ip'', ''daddr''] (if v = [] then [] else canonicalAddr v) @ normalize_words ts"
  by (cases "v = []"; simp add: opt_words_def iface_word_def)+

lemma normalize_plain:
  "\<not> iface_word t \<Longrightarrow> t \<noteq> ''ip'' \<Longrightarrow> normalize_words (t # ts) = t # normalize_words ts"
  by simp

lemma validPort_not_keyword: "validPort s \<Longrightarrow> \<not> iface_word s \<and> s \<noteq> ''ip'' \<and> s \<noteq> ''counter''"
  using validPort_chars [of s] by (auto simp: iface_word_def is_digit_def)

lemma normalize_l4:
  assumes "f_Proto f \<in> {[], ''tcp'', ''udp'', ''icmp''}" "f_Dport f = [] \<or> validPort (f_Dport f)"
  shows "normalize_words (l4_words f @ ts) = l4_words f @ normalize_words ts"
proof -
  have dp: "f_Dport f \<noteq> [] \<Longrightarrow> \<not> iface_word (f_Dport f) \<and> f_Dport f \<noteq> ''ip''"
    using assms(2) validPort_not_keyword by blast
  show ?thesis
    using assms(1) dp by (elim insertE emptyE; simp add: l4_words_def iface_word_def)
qed

lemma normalize_match_words:
  assumes ok: "normal_ok f"
    and q: "\<And>i. reIface i \<Longrightarrow> qi i \<noteq> [] \<and> trim_char CHR 0x22 (qi i) = i"
    and c: "\<And>a. validIPv4OrCIDR a \<Longrightarrow> ca a \<noteq> [] \<and> canonicalAddr (ca a) = canonicalAddr a"
  shows "normalize_words (match_words qi ca f @ [f_Action f]) = match_words id canonicalAddr f @ [f_Action f]"
proof -
  note D = normal_okD [OF ok]
  have action: "normalize_words [f_Action f] = [f_Action f]"
    using D(1) by (elim insertE emptyE; simp add: iface_word_def)
  have i: "f_Iif f \<noteq> [] \<Longrightarrow> qi (f_Iif f) \<noteq> [] \<and> trim_char CHR 0x22 (qi (f_Iif f)) = f_Iif f"
    and o: "f_Oif f \<noteq> [] \<Longrightarrow> qi (f_Oif f) \<noteq> [] \<and> trim_char CHR 0x22 (qi (f_Oif f)) = f_Oif f"
    using D(2,3) q by blast+
  have s: "f_Saddr f \<noteq> [] \<Longrightarrow> ca (f_Saddr f) \<noteq> [] \<and> canonicalAddr (ca (f_Saddr f)) = canonicalAddr (f_Saddr f)
      \<and> canonicalAddr (f_Saddr f) \<noteq> []"
    and d: "f_Daddr f \<noteq> [] \<Longrightarrow> ca (f_Daddr f) \<noteq> [] \<and> canonicalAddr (ca (f_Daddr f)) = canonicalAddr (f_Daddr f)
      \<and> canonicalAddr (f_Daddr f) \<noteq> []"
    using D(4,5) c canonicalAddr_not_Nil by blast+
  show ?thesis
    unfolding match_words_def append_assoc
    using i o s d by (simp add: normalize_opt_words normalize_l4 [OF D(6,8)] action)
qed


lemma canonical_words:
  "match_words id canonicalAddr f = match_words id id (with_canonical_addrs f)"
  if "normal_ok f"
proof -
  have "f_Saddr f \<noteq> [] \<Longrightarrow> canonicalAddr (f_Saddr f) \<noteq> []" "f_Daddr f \<noteq> [] \<Longrightarrow> canonicalAddr (f_Daddr f) \<noteq> []"
    using normal_okD(4,5) [OF that] canonicalAddr_not_Nil by blast+
  then show ?thesis by (simp add: match_words_def with_canonical_addrs_def l4_words_def)
qed

lemma expression_words:
  assumes "valid_rule f" "f_Iif f \<noteq> ''counter''" "f_Oif f \<noteq> ''counter''"
  shows "expressionTokens f = Inr (go_join (match_words id id (normal_rule f) @ [f_Action (normal_rule f)]) '' '')"
proof -
  have ok: "normal_ok (normal_rule f)" using assms(1) by (simp add: valid_rule_iff)
  note D = normal_okD [OF ok]
  have build: "buildRuleTokens f = Inr (match_words id id (normal_rule f) @ [''counter'', f_Action (normal_rule f)])"
    using ok by (simp add: buildRuleTokens_Inr)
  have addr: "a \<noteq> ''counter''" if "validIPv4OrCIDR a" for a
  proof
    assume "a = ''counter''"
    with that show False by (simp add: validIPv4OrCIDR_def ParseIP_def parse_addr_def ParseCIDR_def go_cut_def)
  qed
  have l4: "filter (\<lambda>t. t \<noteq> ''counter'') (l4_words (normal_rule f)) = l4_words (normal_rule f)"
    using D(6,8) validPort_not_keyword by (elim insertE emptyE) (auto simp: l4_words_def)
  have act: "f_Action (normal_rule f) \<noteq> ''counter''" using D(1) by (elim insertE emptyE; simp)
  have "filter (\<lambda>t. t \<noteq> ''counter'') (match_words id id (normal_rule f)) = match_words id id (normal_rule f)"
    using D(4,5) addr assms(2,3) unfolding match_words_def filter_append l4
    by (auto simp: opt_words_def simp del: normal_rule_simps(6,7))
  with build act show ?thesis by (simp add: expressionTokens_def del: normal_rule_simps)
qed


subsection \<open>What a live text that matches says\<close>

text \<open>Words without a blank are recovered from the text that joins them.\<close>

definition unspaced :: "string \<Rightarrow> bool" where
  "unspaced w \<longleftrightarrow> CHR '' '' \<notin> set w"

lemma sep_inject: "c \<notin> set a \<Longrightarrow> c \<notin> set b \<Longrightarrow> a @ c # s = b @ c # t \<longleftrightarrow> a = b \<and> s = t"
  by (induction a arbitrary: b) (auto simp: append_eq_Cons_conv Cons_eq_append_conv; case_tac b; auto)+

lemma join_unspaced_inj:
  assumes "list_all unspaced xs" "list_all unspaced ys" "xs \<noteq> []" "ys \<noteq> []" "go_join xs '' '' = go_join ys '' ''"
  shows "xs = ys"
  using assms
proof (induction xs arbitrary: ys rule: induct_list012)
  case (2 x)
  then show ?case by (cases ys rule: remdups_adj.cases) (auto simp: unspaced_def)
next
  case (3 x y zs)
  show ?case
  proof (cases ys rule: remdups_adj.cases)
    case (3 a b cs)
    with "3.prems" have "x @ CHR '' '' # go_join (y # zs) '' '' = a @ CHR '' '' # go_join (b # cs) '' ''" by simp
    then have "x = a" "go_join (y # zs) '' '' = go_join (b # cs) '' ''"
      using sep_inject [of "CHR '' ''" x a] "3.prems" 3 by (simp_all add: unspaced_def)
    with "3.IH"(2) [of "b # cs"] "3.prems" 3 show ?thesis by simp
  next
    case (2 a)
    with "3.prems" show ?thesis by (auto simp: unspaced_def)
  qed (use "3.prems" in auto)
qed simp

lemma token_unspaced: "token w \<Longrightarrow> unspaced w"
  by (auto simp: token_def unspaced_def list_all_iff)

lemma unspaced_append [simp]: "unspaced (a @ b) \<longleftrightarrow> unspaced a \<and> unspaced b"
  by (simp add: unspaced_def)

lemma unspaced_Cons [simp]: "unspaced (c # s) \<longleftrightarrow> c \<noteq> CHR '' '' \<and> unspaced s"
  by (auto simp: unspaced_def)

lemma unspaced_join: "list_all unspaced xs \<Longrightarrow> unspaced sep \<Longrightarrow> unspaced (go_join xs sep)"
  by (induction xs sep rule: go_join.induct) (simp_all add: unspaced_def)

lemma unspaced_hex_text: "unspaced (hex_text n)"
proof (induction n rule: hex_text.induct)
  case (1 n)
  have digit: "unspaced [hex_digit k]" if "k < 16" for k
  proof -
    have "of_char (hex_digit k) \<noteq> (32 :: nat)" using that by (simp add: hex_digit_def)
    moreover have "of_char CHR '' '' = (32 :: nat)" by simp
    ultimately show ?thesis unfolding unspaced_def by (metis empty_iff empty_set set_ConsD)
  qed
  show ?case using 1 digit [of n] digit [of "n mod 16"] by (subst hex_text.simps) simp
qed

lemma unspaced_addresses: "unspaced (v4_string q)" "unspaced (v6_string ip)" "unspaced (ip_string ip)" "unspaced (net_string n)"
proof -
  have nums: "list_all unspaced (map nat_digits xs)" "list_all unspaced (map hex_text xs)" for xs
    by (simp_all add: list_all_iff token_unspaced unspaced_hex_text)
  have seps: "unspaced ''.''" "unspaced '':''" "unspaced ''::''" "unspaced ''/''" by (simp_all add: unspaced_def)
  have v4: "unspaced (v4_string q)" for q unfolding v4_string_def by (rule unspaced_join) (fact nums seps)+
  have joined: "unspaced (go_join (map hex_text xs) '':'')" for xs by (rule unspaced_join) (fact nums seps)+
  have v6: "unspaced (v6_string ip)" for ip using seps joined by (simp add: v6_string_def Let_def split_beta split: option.split)
  show "unspaced (v4_string q)" "unspaced (v6_string ip)" by (rule v4, rule v6)
  show "unspaced (ip_string ip)" using v4 v6 by (simp add: ip_string_def split: option.split)
  show "unspaced (net_string n)" using v4 v6 seps token_unspaced [OF token_nat_digits]
    by (auto simp: net_string_def split: option.split)
qed

lemma unspaced_canonicalAddr: "unspaced v \<Longrightarrow> unspaced (canonicalAddr v)"
  using unspaced_addresses by (auto simp: canonicalAddr_def split: option.split prod.split)

lemma set_trim_char: "set (trim_char c v) \<subseteq> set v"
  unfolding trim_char_def by (auto dest!: set_dropWhileD)

lemma unspaced_trim_char: "unspaced v \<Longrightarrow> unspaced (trim_char c v)"
  using set_trim_char [of c v] by (auto simp: unspaced_def)

lemma unspaced_normalize: "list_all unspaced ws \<Longrightarrow> list_all unspaced (normalize_words ws)"
proof (induction ws rule: normalize_words.induct)
  case (2 t ts)
  show ?case
  proof (cases "iface_word t")
    case True
    with 2 show ?thesis by (cases ts) (simp_all add: unspaced_trim_char)
  next
    case other: False
    note step = normalize_words.simps(2) [of t] normalize_words.simps(2) [of "''ip''"]
    show ?thesis
    proof (cases "t = ''ip''")
      case True
      with 2 other show ?thesis
        by (cases ts rule: remdups_adj.cases) (simp_all add: step unspaced_canonicalAddr del: normalize_words.simps(2))
    next
      case False
      with 2 other show ?thesis by (simp add: step del: normalize_words.simps(2))
    qed
  qed
qed simp

lemma trim_char_trim [simp]: "trim_char c (trim_char c v) = trim_char c v"
proof -
  have hd: "dropWhile ((=) c) xs = xs" if "xs \<noteq> [] \<Longrightarrow> hd xs \<noteq> c" for xs
    using that by (cases xs) auto
  define u where "u = dropWhile ((=) c) v"
  define r where "r = dropWhile ((=) c) (rev u)"
  have 1: "r \<noteq> [] \<Longrightarrow> hd r \<noteq> c" using hd_dropWhile [of "(=) c" "rev u"] by (auto simp: r_def)
  have "rev r \<noteq> [] \<Longrightarrow> hd (rev r) \<noteq> c"
  proof -
    assume ne: "rev r \<noteq> []"
    obtain p where "rev u = p @ r" unfolding r_def by (metis takeWhile_dropWhile_id)
    then have u: "u = rev r @ rev p" by (metis rev_append rev_rev_ident)
    then have "u \<noteq> []" using ne by auto
    then have "hd u \<noteq> c" using hd_dropWhile [of "(=) c" v] by (auto simp: u_def)
    then show "hd (rev r) \<noteq> c" using u ne by (simp add: hd_append)
  qed
  with 1 have "dropWhile ((=) c) (rev r) = rev r" "dropWhile ((=) c) r = r" using hd by auto
  then show ?thesis by (simp add: trim_char_def u_def [symmetric] r_def [symmetric])
qed

text \<open>The words of a rule: no keyword stands where an operand is expected.\<close>

fun rule_shaped :: "string list \<Rightarrow> bool" where
  "rule_shaped [] = True"
| "rule_shaped (t # ts) =
     (if iface_word t then (case ts of [] \<Rightarrow> False | v # ts' \<Rightarrow> rule_shaped ts')
      else if t = ''ip'' then
        (case ts of k # v # ts' \<Rightarrow>
             (k = ''saddr'' \<or> k = ''daddr'' \<or> k = ''protocol'' \<and> \<not> iface_word v \<and> v \<noteq> ''ip'') \<and> rule_shaped ts'
         | _ \<Rightarrow> False)
      else if t = ''tcp'' \<or> t = ''udp'' then
        (case ts of k # v # ts' \<Rightarrow> k = ''dport'' \<and> \<not> iface_word v \<and> v \<noteq> ''ip'' \<and> rule_shaped ts' | _ \<Rightarrow> False)
      else rule_shaped ts)"

lemma normalize_other: "\<not> iface_word t \<Longrightarrow> t \<noteq> ''ip'' \<Longrightarrow> normalize_words (t # ts) = t # normalize_words ts"
  by simp

lemma normalize_eq_Nil [simp]: "normalize_words ws = [] \<longleftrightarrow> ws = []"
  by (cases ws rule: remdups_adj.cases) (simp_all split: list.split)

lemma normalize_head: "normalize_words ws = u # us \<Longrightarrow> \<exists>ts. ws = u # ts"
  by (cases ws rule: remdups_adj.cases) (simp_all split: if_splits list.splits)

lemma normalize_plain_head:
  assumes "normalize_words ws = u # us" "\<not> iface_word u" "u \<noteq> ''ip''"
  obtains ts where "ws = u # ts" "us = normalize_words ts"
  using normalize_head [OF assms(1)] assms normalize_other by auto

lemma canonicalAddr_Nil [simp]: "canonicalAddr [] = []"
  by (simp add: canonicalAddr_def str_contains_char)

lemma canonical_updates:
  "(with_canonical_addrs g)\<lparr>f_Iif := x\<rparr> = with_canonical_addrs (g\<lparr>f_Iif := x\<rparr>)"
  "(with_canonical_addrs g)\<lparr>f_Oif := x\<rparr> = with_canonical_addrs (g\<lparr>f_Oif := x\<rparr>)"
  "(with_canonical_addrs g)\<lparr>f_Proto := x\<rparr> = with_canonical_addrs (g\<lparr>f_Proto := x\<rparr>)"
  "(with_canonical_addrs g)\<lparr>f_Dport := x\<rparr> = with_canonical_addrs (g\<lparr>f_Dport := x\<rparr>)"
  "(with_canonical_addrs g)\<lparr>f_Action := x\<rparr> = with_canonical_addrs (g\<lparr>f_Action := x\<rparr>)"
  "(with_canonical_addrs g)\<lparr>f_Saddr := canonicalAddr v\<rparr> = with_canonical_addrs (g\<lparr>f_Saddr := v\<rparr>)"
  "(with_canonical_addrs g)\<lparr>f_Daddr := canonicalAddr v\<rparr> = with_canonical_addrs (g\<lparr>f_Daddr := v\<rparr>)"
  by (simp_all add: with_canonical_addrs_def)

definition with_iface :: "string \<Rightarrow> string \<Rightarrow> rule_fields \<Rightarrow> rule_fields" where
  "with_iface t v g = (if t = ''iif'' \<or> t = ''iifname'' then g\<lparr>f_Iif := trim_char CHR 0x22 v\<rparr> else g\<lparr>f_Oif := trim_char CHR 0x22 v\<rparr>)"

definition with_word :: "string \<Rightarrow> rule_fields \<Rightarrow> rule_fields" where
  "with_word t g = (if t = ''accept'' \<or> t = ''drop'' \<or> t = ''reject'' then g\<lparr>f_Action := t\<rparr> else g)"

lemma parse_iface: "iface_word t \<Longrightarrow> parse_words g (t # v # ts) = parse_words (with_iface t v g) ts"
  unfolding iface_word_def by (elim disjE; simp add: with_iface_def)

lemma parse_l4: "t = ''tcp'' \<or> t = ''udp'' \<Longrightarrow>
    parse_words g (t # ''dport'' # v # ts) = parse_words (g\<lparr>f_Proto := t, f_Dport := v\<rparr>) ts"
  by (elim disjE; simp)

lemma parse_ip:
  "parse_words g (''ip'' # ''saddr'' # v # ts) = parse_words (g\<lparr>f_Saddr := v\<rparr>) ts"
  "parse_words g (''ip'' # ''daddr'' # v # ts) = parse_words (g\<lparr>f_Daddr := v\<rparr>) ts"
  "parse_words g (''ip'' # ''protocol'' # v # ts) = parse_words (g\<lparr>f_Proto := v\<rparr>) ts"
  by simp_all

lemma parse_other:
  assumes "\<not> iface_word t" "t \<noteq> ''ip''" "t \<noteq> ''tcp''" "t \<noteq> ''udp''"
  shows "parse_words g (t # ts) = parse_words (with_word t g) ts"
proof -
  have no: "t \<noteq> ''iif''" "t \<noteq> ''iifname''" "t \<noteq> ''oif''" "t \<noteq> ''oifname''" using assms(1) by (simp_all add: iface_word_def)
  show ?thesis
    unfolding parse_words.simps(2) [of g t ts] with_word_def if_not_P [OF assms(2)]
    by (simp only: no assms simp_thms if_False if_cancel refl split: if_split) blast
qed

lemmas parse_steps = parse_iface parse_ip parse_l4 parse_other

lemma normalize_steps:
  "iface_word t \<Longrightarrow> normalize_words (t # v # ts) = t # trim_char CHR 0x22 v # normalize_words ts"
  "normalize_words (''ip'' # ''saddr'' # v # ts) = ''ip'' # ''saddr'' # canonicalAddr v # normalize_words ts"
  "normalize_words (''ip'' # ''daddr'' # v # ts) = ''ip'' # ''daddr'' # canonicalAddr v # normalize_words ts"
  by (simp_all add: iface_word_def)

lemma shaped_steps:
  "iface_word t \<Longrightarrow> rule_shaped (t # v # ts) = rule_shaped ts"
  "rule_shaped (''ip'' # ''saddr'' # v # ts) = rule_shaped ts" "rule_shaped (''ip'' # ''daddr'' # v # ts) = rule_shaped ts"
  "\<not> iface_word t \<Longrightarrow> t \<noteq> ''ip'' \<Longrightarrow> t \<noteq> ''tcp'' \<Longrightarrow> t \<noteq> ''udp'' \<Longrightarrow> rule_shaped (t # ts) = rule_shaped ts"
  by (simp_all add: iface_word_def)

lemma canonical_with:
  "with_iface t (trim_char CHR 0x22 v) (with_canonical_addrs g) = with_canonical_addrs (with_iface t v g)"
  "with_word t (with_canonical_addrs g) = with_canonical_addrs (with_word t g)"
  by (simp_all add: with_iface_def with_word_def canonical_updates)

lemma shaped_ip:
  assumes "rule_shaped (normalize_words (''ip'' # ts))"
  obtains (addr) k v us where "ts = k # v # us" "k = ''saddr'' \<or> k = ''daddr''" "rule_shaped (normalize_words us)"
  | (proto) v us where "ts = ''protocol'' # v # us" "\<not> iface_word v" "v \<noteq> ''ip''" "rule_shaped (normalize_words us)"
proof (cases "\<exists>k v us. ts = k # v # us \<and> (k = ''saddr'' \<or> k = ''daddr'')")
  case True
  with assms addr show thesis by (auto simp: normalize_steps shaped_steps simp del: normalize_words.simps rule_shaped.simps)
next
  case False
  have nip: "\<not> iface_word ''ip''" by (simp add: iface_word_def)
  have n: "normalize_words (''ip'' # ts) = ''ip'' # normalize_words ts"
    unfolding normalize_words.simps(2) [of "''ip''"] using False nip by (auto split: list.split simp del: normalize_words.simps)
  obtain k v us where us: "normalize_words ts = k # v # us"
    "k = ''saddr'' \<or> k = ''daddr'' \<or> k = ''protocol'' \<and> \<not> iface_word v \<and> v \<noteq> ''ip''" "rule_shaped us"
    using assms nip unfolding n rule_shaped.simps(2) [of "''ip''"]
    by (auto split: list.splits if_splits simp del: rule_shaped.simps normalize_words.simps)
  have "\<not> iface_word k" "k \<noteq> ''ip''" using us(2) by (auto simp: iface_word_def)
  with us(1) obtain ts1 where ts1: "ts = k # ts1" "v # us = normalize_words ts1" by (rule normalize_plain_head)
  with normalize_head [of ts1 v us] obtain ts2 where ts2: "ts1 = v # ts2" by auto
  with False ts1 us(2) have p: "k = ''protocol''" "\<not> iface_word v" "v \<noteq> ''ip''" by auto
  with ts1 ts2 have "us = normalize_words ts2" by (simp add: normalize_other del: normalize_words.simps)
  with proto ts1 ts2 p us(3) show thesis by simp
qed

lemma shaped_l4:
  assumes "rule_shaped (normalize_words (t # ts))" "t = ''tcp'' \<or> t = ''udp''"
  obtains v us where "ts = ''dport'' # v # us" "\<not> iface_word v" "v \<noteq> ''ip''" "rule_shaped (normalize_words us)"
proof -
  have plain: "\<not> iface_word t" "t \<noteq> ''ip''" using assms(2) by (auto simp: iface_word_def)
  obtain v us where us: "normalize_words ts = ''dport'' # v # us" "\<not> iface_word v" "v \<noteq> ''ip''" "rule_shaped us"
    using assms plain unfolding normalize_other [OF plain] rule_shaped.simps(2) [of t]
    by (auto split: list.splits if_splits simp del: rule_shaped.simps normalize_words.simps)
  have "\<not> iface_word ''dport''" "''dport'' \<noteq> ''ip''" by (simp_all add: iface_word_def)
  with us(1) obtain ts1 where ts1: "ts = ''dport'' # ts1" "v # us = normalize_words ts1" by (rule normalize_plain_head)
  with normalize_head [of ts1 v us] obtain ts2 where ts2: "ts1 = v # ts2" by auto
  with ts1 us(2,3) have "us = normalize_words ts2" by (simp add: normalize_other del: normalize_words.simps)
  with that ts1 ts2 us show thesis by simp
qed

text \<open>Reading the normalised words of a text gives what reading the text itself gives, with the addresses canonical.\<close>

lemma normalized_reads_alike:
  "rule_shaped (normalize_words ws) \<Longrightarrow>
     parse_words (with_canonical_addrs g) (normalize_words ws) = with_canonical_addrs (parse_words g ws)"
proof (induction ws arbitrary: g rule: length_induct)
  case (1 ws)
  have IH: "parse_words (with_canonical_addrs g) (normalize_words ts) = with_canonical_addrs (parse_words g ts)"
    if "length ts < length ws" "rule_shaped (normalize_words ts)" for ts g using 1 that by blast
  note keep = normalize_words.simps parse_words.simps rule_shaped.simps
  show ?case
  proof (cases ws)
    case (Cons t ts)
    consider (iface) "iface_word t" | (ip) "t = ''ip''" | (l4) "t = ''tcp'' \<or> t = ''udp''"
      | (word) "\<not> iface_word t" "t \<noteq> ''ip''" "t \<noteq> ''tcp''" "t \<noteq> ''udp''" by blast
    then show ?thesis
    proof cases
      case iface
      then obtain v us where ts: "ts = v # us" using 1(2) Cons by (cases ts) auto
      with 1(2) Cons iface have "rule_shaped (normalize_words us)" by (simp add: normalize_steps shaped_steps del: keep)
      with IH [of us] Cons ts iface show ?thesis by (simp add: normalize_steps parse_steps canonical_with del: keep)
    next
      case ip
      from 1(2) have "rule_shaped (normalize_words (''ip'' # ts))" unfolding Cons ip .
      then show ?thesis
      proof (cases rule: shaped_ip)
        case (addr k v us)
        with IH [of us] Cons ip show ?thesis by (auto simp: normalize_steps parse_steps canonical_updates simp del: keep)
      next
        case (proto v us)
        have "normalize_words (''ip'' # ts) = ''ip'' # ''protocol'' # v # normalize_words us"
          using proto by (simp add: iface_word_def)
        with IH [of us] Cons ip proto show ?thesis by (simp add: parse_steps canonical_updates del: keep)
      qed
    next
      case l4
      from 1(2) have "rule_shaped (normalize_words (t # ts))" unfolding Cons .
      from shaped_l4 [OF this l4] obtain v us where ts: "ts = ''dport'' # v # us" "\<not> iface_word v" "v \<noteq> ''ip''"
        "rule_shaped (normalize_words us)" .
      have "\<not> iface_word t" "t \<noteq> ''ip''" using l4 by (auto simp: iface_word_def)
      moreover have "\<not> iface_word ''dport''" by (simp add: iface_word_def)
      ultimately show ?thesis using IH [of us] ts l4 unfolding Cons
        by (simp add: normalize_other parse_steps canonical_updates del: keep)
    next
      case word
      then have "rule_shaped (normalize_words ts)"
        using 1(2) unfolding Cons by (simp add: normalize_other shaped_steps del: keep)
      with IH [of ts] word show ?thesis unfolding Cons
        by (simp add: normalize_other parse_steps canonical_with del: keep)
    qed
  qed simp
qed

lemma shaped_match_words:
  assumes "normal_ok f"
  shows "rule_shaped (match_words id canonicalAddr f @ [f_Action f])"
proof -
  note D = normal_okD [OF assms]
  have act: "rule_shaped [f_Action f]" using D(1) by (elim insertE emptyE; simp add: iface_word_def)
  have port: "f_Dport f \<noteq> [] \<Longrightarrow> \<not> iface_word (f_Dport f) \<and> f_Dport f \<noteq> ''ip''" using D(8) validPort_not_keyword by blast
  have l4: "rule_shaped (l4_words f @ ts)" if "rule_shaped ts" for ts
    using D(6,7) port that by (elim insertE emptyE; auto simp: l4_words_def iface_word_def)
  have opt: "rule_shaped ts \<Longrightarrow> rule_shaped (opt_words [''iifname''] v @ ts)"
    "rule_shaped ts \<Longrightarrow> rule_shaped (opt_words [''oifname''] v @ ts)"
    "rule_shaped ts \<Longrightarrow> rule_shaped (opt_words [''ip'', ''saddr''] v @ ts)"
    "rule_shaped ts \<Longrightarrow> rule_shaped (opt_words [''ip'', ''daddr''] v @ ts)" for v ts
    by (simp_all add: opt_words_def iface_word_def)
  show ?thesis unfolding match_words_def append_assoc by (intro opt l4 act)
qed

lemma expression_normal:
  assumes "valid_rule f" "f_Iif f \<noteq> ''counter''" "f_Oif f \<noteq> ''counter''" "expressionTokens f = Inr shown"
  shows "normalize_words (go_fields shown) = match_words id canonicalAddr (normal_rule f) @ [f_Action (normal_rule f)]"
proof -
  have ok: "normal_ok (normal_rule f)" using assms(1) by (simp add: valid_rule_iff)
  let ?E = "match_words id id (normal_rule f) @ [f_Action (normal_rule f)]"
  have "list_all token ?E"
    using tokens_match_words [OF ok, of id id] by (simp add: token_reIface token_validIPv4OrCIDR)
  then have "go_fields shown = ?E" using expression_words [OF assms(1-3)] assms(4) by (simp add: go_fields_join)
  moreover have "normalize_words ?E = match_words id canonicalAddr (normal_rule f) @ [f_Action (normal_rule f)]"
    by (rule normalize_match_words [OF ok])
      (auto simp: reIface_def trim_char_id iface_no_quote canonicalAddr_not_Nil dest!: validIPv4_not_Nil)
  ultimately show ?thesis by simp
qed

text \<open>A live text is taken for a rule exactly when its words, normalised, are the words of the rule.\<close>

lemma matches_iff:
  assumes "valid_rule f" "f_Iif f \<noteq> ''counter''" "f_Oif f \<noteq> ''counter''"
  shows "ExpressionMatches f live \<longleftrightarrow>
     normalize_words (go_fields live) = match_words id canonicalAddr (normal_rule f) @ [f_Action (normal_rule f)]"
proof -
  have ok: "normal_ok (normal_rule f)" using assms(1) by (simp add: valid_rule_iff)
  let ?W = "match_words id canonicalAddr (normal_rule f) @ [f_Action (normal_rule f)]"
  obtain shown where shown: "expressionTokens f = Inr shown" using expression_words [OF assms] by blast
  have W: "list_all token ?W"
    using tokens_match_words [OF ok, of id canonicalAddr] by (simp add: token_reIface token_canonicalAddr)
  then have uW: "list_all unspaced ?W" by (auto simp: list_all_iff token_unspaced simp del: normal_rule_simps)
  have "list_all unspaced (go_fields live)" using fields_acc_tokens [of "[]" live] unfolding go_fields_def by (auto simp: list_all_iff token_unspaced)
  then have uL: "list_all unspaced (normalize_words (go_fields live))" by (rule unspaced_normalize)
  have "ExpressionMatches f live \<longleftrightarrow> go_join ?W '' '' = go_join (normalize_words (go_fields live)) '' ''"
    using expression_normal [OF assms shown] shown by (simp add: ExpressionMatches_def normalizeExpression_def)
  also have "\<dots> \<longleftrightarrow> ?W = normalize_words (go_fields live)"
  proof
    assume eq: "go_join ?W '' '' = go_join (normalize_words (go_fields live)) '' ''"
    have "go_fields (go_join ?W '' '') = ?W" by (rule go_fields_join) (rule W)
    then have "go_join ?W '' '' \<noteq> []" by (metis go_fields_Nil snoc_eq_iff_butlast)
    with eq have "normalize_words (go_fields live) \<noteq> []" by (metis go_join.simps(1))
    with join_unspaced_inj [OF uW uL _ _ eq] show "?W = normalize_words (go_fields live)" by blast
  qed (rule arg_cong)
  finally show ?thesis by metis
qed

lemma words_say_the_rule:
  assumes "normal_ok g"
  shows "parse_words no_fields (match_words id canonicalAddr g @ [f_Action g]) = with_canonical_addrs g"
  using parse_match_words [OF assms, of "[]" canonicalAddr]
  by (simp add: canonicalAddr_not_Nil with_canonical_addrs_def)


definition demo_rule :: rule_fields where
  "demo_rule = \<lparr>f_Action = ''Accept'', f_Iif = ''eth0'', f_Oif = [], f_Saddr = ''10.0.0.5/24'',
     f_Daddr = [], f_Proto = ''TCP'', f_Dport = ''443''\<rparr>"

text \<open>C27. Rendering a rule and reading the text back gives its normal form, which renders to
  the same text; and the text splits into exactly the words that were rendered, so no field
  adds a word of its own.
\<close>
theorem rendered_rule_reads_back:
  assumes "RenderRule f = Inr line"
  shows "parseRuleFields line = normal_rule f \<and> RenderRule (parseRuleFields line) = Inr line
    \<and> buildRuleTokens f = Inr (go_fields line)"
proof -
  obtain ts where ts: "buildRuleTokens f = Inr ts" and line: "line = go_join ts '' ''"
    using assms by (auto simp: RenderRule_def split: sum.splits)
  have fields: "go_fields line = ts"
    unfolding line by (rule go_fields_join) (rule buildRuleTokens_tokens [OF ts])
  have ok: "normal_ok (normal_rule f)"
    and ts': "ts = match_words id id (normal_rule f) @ [''counter''] @ [f_Action (normal_rule f)]"
    using ts by (simp_all add: buildRuleTokens_Inr)
  have "parse_words no_fields ts = normal_rule f"
    unfolding ts'
    by (subst parse_match_words [OF ok]) (auto dest!: validIPv4_not_Nil simp del: normal_rule_simps)
  then have parse: "parseRuleFields line = normal_rule f"
    by (simp add: parseRuleFields_def fields)
  have "buildRuleTokens (normal_rule f) = Inr ts"
    using ok ts' by (simp add: buildRuleTokens_Inr normal_ok_fixed del: normal_rule_simps)
  with parse ts fields line show ?thesis by (simp add: RenderRule_def)
qed


lemma go_cut_eval:
  "go_cut s [c] = (if c \<in> set s
     then Some (takeWhile ((\<noteq>) c) s, drop (Suc (length (takeWhile ((\<noteq>) c) s))) s) else None)"
  by (simp add: go_cut_def index_of_char takeWhile_eq_take [symmetric])

lemma port_443: "validPort ''443''"
  by (simp_all add: validPort_def rePort_def go_cut_eval port_digits_def is_digit_def port_number_def digit_chars)

lemma demo_rule_normal:
  "normal_rule demo_rule = demo_rule\<lparr>f_Action := ''accept'', f_Proto := ''tcp''\<rparr>"
  "normal_rule (demo_rule\<lparr>f_Saddr := ''10.0.0.0/24''\<rparr>) =
     demo_rule\<lparr>f_Action := ''accept'', f_Proto := ''tcp'', f_Saddr := ''10.0.0.0/24''\<rparr>"
  by code_simp+

lemma demo_rule_addrs:
  "validIPv4OrCIDR ''10.0.0.5/24''" "validIPv4OrCIDR ''10.0.0.0/24''" "reIface ''eth0''"
  "canonicalAddr ''10.0.0.5/24'' = ''10.0.0.0/24''" "canonicalAddr ''10.0.0.0/24'' = ''10.0.0.0/24''"
  by code_simp+

lemma demo_rule_ok:
  "normal_ok (normal_rule demo_rule)" "normal_ok (normal_rule (demo_rule\<lparr>f_Saddr := ''10.0.0.0/24''\<rparr>))"
  unfolding demo_rule_normal
  by (simp_all add: normal_ok_def demo_rule_def demo_rule_addrs port_443)

definition other_rule :: rule_fields where
  "other_rule = demo_rule\<lparr>f_Saddr := ''10.0.0.0/24''\<rparr>"


lemma rendered_rule_reads_back_witness:
  "RenderRule demo_rule = Inr ''iifname eth0 ip saddr 10.0.0.5/24 tcp dport 443 counter accept''
   \<and> parseRuleFields ''iifname eth0 ip saddr 10.0.0.5/24 tcp dport 443 counter accept'' =
       demo_rule\<lparr>f_Action := ''accept'', f_Proto := ''tcp''\<rparr>"
proof -
  have "buildRuleTokens demo_rule =
      Inr (match_words id id (normal_rule demo_rule) @ [''counter'', f_Action (normal_rule demo_rule)])"
    using demo_rule_ok(1) by (simp add: buildRuleTokens_Inr)
  then have r: "RenderRule demo_rule = Inr ''iifname eth0 ip saddr 10.0.0.5/24 tcp dport 443 counter accept''"
    unfolding RenderRule_def demo_rule_normal
    by (simp add: demo_rule_def match_words_def opt_words_def l4_words_def)
  from rendered_rule_reads_back [OF r] have
    "parseRuleFields ''iifname eth0 ip saddr 10.0.0.5/24 tcp dport 443 counter accept'' = normal_rule demo_rule"
    by (rule conjunct1)
  with r show ?thesis unfolding demo_rule_normal by simp
qed

end
