(* ===== verification/TimeWindow.thy ===== *)
theory TimeWindow
  imports NetText FwData
begin

text \<open>
  The time window of a rule group (\<open>internal/nftables/schedule.go\<close>): validation, the nft
  condition it becomes and the normal form of the list of days.  A map of Go is a function to
  options; \<open>presentes\<close> is the set of the words seen.
\<close>

record time_window =
  tw_Days :: string
  tw_Start :: string
  tw_End :: string

datatype window_error = HalfWindow | BadTime | SameTime | BadDay string

definition diasNFT :: "string \<Rightarrow> string option" where
  "diasNFT d =
     (if d = ''mon'' then Some ''Monday'' else if d = ''tue'' then Some ''Tuesday''
      else if d = ''wed'' then Some ''Wednesday'' else if d = ''thu'' then Some ''Thursday''
      else if d = ''fri'' then Some ''Friday'' else if d = ''sat'' then Some ''Saturday''
      else if d = ''sun'' then Some ''Sunday'' else None)"

definition ordemDias :: "string list" where
  "ordemDias = [''mon'', ''tue'', ''wed'', ''thu'', ''fri'', ''sat'', ''sun'']"

definition schedule_Empty :: "time_window \<Rightarrow> bool" where
  "schedule_Empty s \<longleftrightarrow> trim_space (tw_Days s) = [] \<and> trim_space (tw_Start s) = [] \<and> trim_space (tw_End s) = []"

definition dias :: "string \<Rightarrow> string list" where
  "dias raw = filter (\<lambda>d. d \<noteq> []) (map (\<lambda>d. go_lower (trim_space d)) (go_split '','' raw))"

definition schedule_Validate :: "time_window \<Rightarrow> window_error option" where
  "schedule_Validate s =
     (let temInicio = trim_space (tw_Start s) \<noteq> []; temFim = trim_space (tw_End s) \<noteq> [] in
      if temInicio \<noteq> temFim then Some HalfWindow
      else if temInicio \<and> (\<not> reHHMM (tw_Start s) \<or> \<not> reHHMM (tw_End s)) then Some BadTime
      else if temInicio \<and> tw_Start s = tw_End s then Some SameTime
      else map_option BadDay (List.find (\<lambda>d. diasNFT d = None) (dias (tw_Days s))))"

definition diasNFTOrdenados :: "time_window \<Rightarrow> string list" where
  "diasNFTOrdenados s =
     map (\<lambda>d. go_quote (the (diasNFT d))) (filter (\<lambda>d. d \<in> set (dias (tw_Days s))) ordemDias)"

definition schedule_Tokens :: "time_window \<Rightarrow> string list" where
  "schedule_Tokens s =
     (if schedule_Empty s \<or> schedule_Validate s \<noteq> None then []
      else (let ds = diasNFTOrdenados s in
        (if ds \<noteq> [] \<and> length ds < length ordemDias
         then [''meta'', ''day'', ''{ '' @ go_join ds '', '' @ '' }''] else [])
        @ (if tw_Start s \<noteq> [] then [''meta'', ''hour'', go_quote (tw_Start s) @ ''-'' @ go_quote (tw_End s)]
           else [])))"

definition NormalizeDays :: "string \<Rightarrow> string" where
  "NormalizeDays raw =
     go_join (filter (\<lambda>d. d \<in> set (filter (\<lambda>d. diasNFT d \<noteq> None)
                (map (\<lambda>d. go_lower (trim_space d)) (go_split '','' raw)))) ordemDias) '',''"

subsection \<open>Days\<close>

text \<open>The days the text names: what the window means.\<close>

definition days_named :: "string \<Rightarrow> string set" where
  "days_named raw = {d \<in> set (dias raw). diasNFT d \<noteq> None}"

lemma diasNFT_iff: "diasNFT d \<noteq> None \<longleftrightarrow> d \<in> set ordemDias"
  by (simp add: diasNFT_def ordemDias_def)

lemma NormalizeDays_eq: "NormalizeDays raw = go_join (filter (\<lambda>d. d \<in> days_named raw) ordemDias) '',''"
proof -
  have "d \<in> set (filter (\<lambda>d. diasNFT d \<noteq> None) (map (\<lambda>d. go_lower (trim_space d)) (go_split '','' raw)))
      \<longleftrightarrow> d \<in> days_named raw" for d
    by (auto simp: days_named_def dias_def diasNFT_def)
  then show ?thesis by (simp add: NormalizeDays_def)
qed

lemma day_words: "d \<in> set ordemDias \<Longrightarrow> go_lower (trim_space d) = d \<and> CHR '','' \<notin> set d \<and> d \<noteq> []"
  by (auto simp: ordemDias_def go_lower_def trim_space_def trim_left_def lower_char_def is_upper_def is_space_def)

lemma dias_join:
  assumes "set ds \<subseteq> set ordemDias"
  shows "dias (go_join ds '','') = ds"
proof (cases "ds = []")
  case True
  then show ?thesis
    by (simp add: dias_def go_split.simps go_lower_def trim_space_def trim_left_def)
next
  case False
  have split: "go_split '','' (go_join ds '','') = ds"
    using assms day_words by (intro go_split_char_join False) blast
  have "map (\<lambda>d. go_lower (trim_space d)) ds = ds" "filter (\<lambda>d. d \<noteq> []) ds = ds"
    using assms day_words by (auto simp: subset_iff intro!: map_idI filter_True)
  then show ?thesis by (simp add: dias_def split)
qed

lemma days_named_NormalizeDays: "days_named (NormalizeDays raw) = days_named raw"
proof -
  have "set (filter (\<lambda>d. d \<in> days_named raw) ordemDias) = days_named raw"
    using diasNFT_iff by (auto simp: days_named_def)
  then show ?thesis
    by (auto simp: NormalizeDays_eq dias_join days_named_def diasNFT_iff)
qed

text \<open>\<open>NormalizeDays\<close> keeps exactly the days the text names, in the order of the week and
  each once; normalising again changes nothing, and a window with the normalised days always
  passes the check on days.
\<close>
theorem normalized_days:
  "days_named (NormalizeDays raw) = days_named raw \<and> NormalizeDays (NormalizeDays raw) = NormalizeDays raw
   \<and> dias (NormalizeDays raw) = filter (\<lambda>d. d \<in> days_named raw) ordemDias
   \<and> schedule_Validate \<lparr>tw_Days = NormalizeDays raw, tw_Start = [], tw_End = []\<rparr> = None"
proof -
  have d: "dias (NormalizeDays raw) = filter (\<lambda>d. d \<in> days_named raw) ordemDias"
    unfolding NormalizeDays_eq by (rule dias_join) auto
  have "List.find (\<lambda>d. diasNFT d = None) (filter (\<lambda>d. d \<in> days_named raw) ordemDias) = None"
    by (auto simp: find_None_iff days_named_def)
  then have "schedule_Validate \<lparr>tw_Days = NormalizeDays raw, tw_Start = [], tw_End = []\<rparr> = None"
    by (simp add: schedule_Validate_def d trim_space_def trim_left_def)
  with d days_named_NormalizeDays [of raw] show ?thesis
    by (simp add: NormalizeDays_eq [of "NormalizeDays raw"] NormalizeDays_eq [of raw, symmetric])
qed

end
