(* ===== verification/FirewallRender.thy ===== *)
theory FirewallRender
  imports RuleText TimeWindow
begin

text \<open>
  The rows of the firewall as nftables rules (\<open>internal/nftables\<close>: \<open>groups.go\<close>,
  \<open>reconcile.go\<close>, \<open>survival.go\<close>, \<open>waninput.go\<close>, \<open>abusers.go\<close>).  A rule is the list of words handed
  to \<open>nft add rule\<close> after the chain's name.  A stored group with its rules is a pair
  \<open>fw_group \<times> fw_rule list\<close>, as in \<open>StoredGroupsWithRules\<close>.  Journal lines are left out; what a
  renderer skips it skips here.
\<close>

subsection \<open>Groups\<close>

definition GroupChainPrefix :: string where "GroupChainPrefix = ''grp_''"

definition chain_char :: "char \<Rightarrow> bool" where
  "chain_char c \<longleftrightarrow> is_lower c \<or> is_digit c \<or> c = CHR ''_''"

text \<open>\<open>^grp_[a-z0-9_]{1,32}$\<close>\<close>

definition validGroupChainName :: "string \<Rightarrow> bool" where
  "validGroupChainName name \<longleftrightarrow>
     prefix GroupChainPrefix name
     \<and> (let rest = drop 4 name in 1 \<le> length rest \<and> length rest \<le> 32 \<and> list_all chain_char rest)"

definition hex_of_char :: "char \<Rightarrow> string" where
  "hex_of_char c =
     (if is_digit c \<or> 97 \<le> (of_char c :: nat) \<and> (of_char c :: nat) \<le> 102 then [c]
      else if 65 \<le> (of_char c :: nat) \<and> (of_char c :: nat) \<le> 70 then [lower_char c]
      else [])"

definition GroupChainName :: "string \<Rightarrow> string" where
  "GroupChainName gid =
     (let hex = take 12 (concat (map hex_of_char gid)) in
      GroupChainPrefix @ (if hex = [] then ''0'' else hex))"

definition ConnStateAny :: string where "ConnStateAny = ''any''"
definition ConnStateNew :: string where "ConnStateNew = ''new''"

definition GroupConnState :: "fw_group \<Rightarrow> string" where
  "GroupConnState g = (if g_ConnState g = ConnStateNew then ConnStateNew else ConnStateAny)"

definition FallthroughContinue :: string where "FallthroughContinue = ''continue''"
definition FallthroughAccept :: string where "FallthroughAccept = ''accept''"
definition FallthroughDrop :: string where "FallthroughDrop = ''drop''"

datatype group_error =
    NoGroupName | GroupNameTooLong | BadGroupIif | BadGroupSaddr | BadGroupDaddr | BadFallthrough
  | BadScope | BadConnState | NoChainName | BadWindow window_error

definition ValidateGroup :: "fw_group \<Rightarrow> group_error option" where
  "ValidateGroup g =
     (if trim_space (g_Name g) = [] then Some NoGroupName
      else if 80 < length (g_Name g) then Some GroupNameTooLong
      else if g_CondIif g \<noteq> [] \<and> \<not> reIface (g_CondIif g) then Some BadGroupIif
      else if g_CondSaddr g \<noteq> [] \<and> \<not> validIPv4OrCIDR (g_CondSaddr g) then Some BadGroupSaddr
      else if g_CondDaddr g \<noteq> [] \<and> \<not> validIPv4OrCIDR (g_CondDaddr g) then Some BadGroupDaddr
      else if g_Fallthrough g \<notin> {FallthroughContinue, FallthroughAccept, FallthroughDrop}
        then Some BadFallthrough
      else if g_Scope g \<notin> {[], ScopeForward, ScopeInput} then Some BadScope
      else if g_ConnState g \<notin> {[], ConnStateAny, ConnStateNew} then Some BadConnState
      else None)"

definition GroupSchedule :: "fw_group \<Rightarrow> time_window" where
  "GroupSchedule g = \<lparr>tw_Days = g_SchedDays g, tw_Start = g_SchedStart g, tw_End = g_SchedEnd g\<rparr>"

definition groupJumpTokens :: "fw_group \<Rightarrow> group_error + string list" where
  "groupJumpTokens g =
     (if g_ChainName g = [] then Inl NoChainName
      else if g_CondIif g \<noteq> [] \<and> \<not> reIface (g_CondIif g) then Inl BadGroupIif
      else case schedule_Validate (GroupSchedule g) of
        Some e \<Rightarrow> Inl (BadWindow e)
      | None \<Rightarrow>
          if g_CondSaddr g \<noteq> [] \<and> \<not> validIPv4OrCIDR (g_CondSaddr g) then Inl BadGroupSaddr
          else if g_CondDaddr g \<noteq> [] \<and> \<not> validIPv4OrCIDR (g_CondDaddr g) then Inl BadGroupDaddr
          else Inr (opt_words [''iifname''] (g_CondIif g)
                  @ schedule_Tokens (GroupSchedule g)
                  @ opt_words [''ip'', ''saddr''] (g_CondSaddr g)
                  @ opt_words [''ip'', ''daddr''] (g_CondDaddr g)
                  @ (if GroupConnState g = ConnStateNew then [''ct'', ''state'', ''new''] else [])
                  @ [''counter'', ''jump'', g_ChainName g]))"

definition RenderGroupJump :: "fw_group \<Rightarrow> group_error + string" where
  "RenderGroupJump g = (case groupJumpTokens g of Inl e \<Rightarrow> Inl e | Inr ts \<Rightarrow> Inr (go_join ts '' ''))"

text \<open>The loop over the rules: the lines of those that render, the ids of those that do not.\<close>

fun render_rules :: "fw_rule list \<Rightarrow> string list list \<times> string list" where
  "render_rules [] = ([], [])"
| "render_rules (r # rs) =
     (let (lines, skipped) = render_rules rs in
      if \<not> r_Enabled r then (lines, skipped)
      else case buildRuleTokens (rule_Fields r) of
        Inl _ \<Rightarrow> (lines, r_ID r # skipped)
      | Inr tokens \<Rightarrow> (tokens # lines, skipped))"

definition sorted_rules :: "fw_rule list \<Rightarrow> fw_rule list" where
  "sorted_rules rs = sort_key r_Position rs"

definition renderEnabledUserRules :: "fw_rule list \<Rightarrow> string list list \<times> string list" where
  "renderEnabledUserRules rules = render_rules (sorted_rules rules)"

definition fallthrough_lines :: "fw_group \<Rightarrow> string list list" where
  "fallthrough_lines g =
     (if g_Fallthrough g = FallthroughAccept then [[''counter'', ''accept'']]
      else if g_Fallthrough g = FallthroughDrop then [[''counter'', ''drop'']]
      else [])"

definition renderGroupChain :: "fw_group \<times> fw_rule list \<Rightarrow> string list list \<times> string list" where
  "renderGroupChain gr =
     (case gr of (g, rules) \<Rightarrow>
        let (lines, skipped) = render_rules (sorted_rules rules) in
        (lines @ fallthrough_lines g, skipped))"

subsection \<open>Administrative blocks\<close>

definition BlockLogPrefixHost :: string where "BlockLogPrefixHost = ''lg:blk:host ''"
definition BlockLogPrefixDest :: string where "BlockLogPrefixDest = ''lg:blk:dest ''"
definition blockLogRate :: string where "blockLogRate = ''10/second''"

definition comLog :: "bool \<Rightarrow> string \<Rightarrow> string list list \<Rightarrow> string list list" where
  "comLog logar prefixo casamentos =
     concat (map (\<lambda>m.
       (if logar then [m @ [''limit'', ''rate'', blockLogRate, ''log'', ''prefix'', go_quote prefixo]] else [])
       @ [m @ [''counter'', ''drop'']]) casamentos)"

definition systemGroupForwardRules :: "string \<Rightarrow> (bool \<Rightarrow> string list list) option" where
  "systemGroupForwardRules kind =
     (if kind = GroupKindBlockedHosts then
        Some (\<lambda>logar. comLog logar BlockLogPrefixHost
          [[''ip'', ''saddr'', ''@blocked_hosts''], [''ip'', ''daddr'', ''@blocked_hosts''],
           [''ether'', ''saddr'', ''@blocked_macs'']])
      else if kind = GroupKindBlocklist then
        Some (\<lambda>logar. comLog logar BlockLogPrefixDest
          [[''ip'', ''daddr'', ''@blocklist''], [''ip'', ''saddr'', ''@blocklist''],
           [''ip'', ''daddr'', ''@dom_blocked''], [''ip6'', ''daddr'', ''@dom_blocked6'']])
      else None)"

definition administrativeBlockRules :: "bool \<Rightarrow> string list list" where
  "administrativeBlockRules logar =
     the (systemGroupForwardRules GroupKindBlockedHosts) logar
     @ the (systemGroupForwardRules GroupKindBlocklist) logar"

subsection \<open>The forward chain\<close>

text \<open>One group's lines in the forward chain: of a system group, its blocks; of a forward group, its jump.\<close>

definition sorted_groups :: "(fw_group \<times> fw_rule list) list \<Rightarrow> (fw_group \<times> fw_rule list) list" where
  "sorted_groups grs = sort_key (\<lambda>gr. g_Position (fst gr)) grs"

definition forward_lines :: "bool \<Rightarrow> fw_group \<Rightarrow> string list list" where
  "forward_lines logar g =
     (if \<not> g_Enabled g then []
      else case systemGroupForwardRules (g_Kind g) of
        Some renderer \<Rightarrow> renderer logar
      | None \<Rightarrow>
          if GroupScope g \<noteq> ScopeForward then []
          else if \<not> validGroupChainName (g_ChainName g) then []
          else case groupJumpTokens g of Inl _ \<Rightarrow> [] | Inr tokens \<Rightarrow> [tokens])"

definition forwardChainRules :: "(fw_group \<times> fw_rule list) list \<Rightarrow> bool \<Rightarrow> string list list" where
  "forwardChainRules groups logar =
     concat (map (\<lambda>gr. forward_lines logar (fst gr)) (sorted_groups groups))"

definition ForwardSurvivalRules :: "string list list" where
  "ForwardSurvivalRules =
     [[''ct'', ''state'', ''established,related'', ''counter'', ''accept''],
      [''ct'', ''status'', ''dnat'', ''counter'', ''accept'']]"

definition anyRuleIsADrop :: "string list list \<Rightarrow> bool" where
  "anyRuleIsADrop rules \<longleftrightarrow> list_ex (\<lambda>tokens. tokens \<noteq> [] \<and> last tokens = ''drop'') rules"

definition missingSystemKinds :: "(fw_group \<times> fw_rule list) list \<Rightarrow> string list" where
  "missingSystemKinds groups =
     filter (\<lambda>kind. kind \<notin> set (map (\<lambda>gr. g_Kind (fst gr)) groups)) [GroupKindBlockedHosts, GroupKindBlocklist]"

subsection \<open>The input chain\<close>

record admin_access =
  aa_SSHPorts :: "int list"
  aa_PanelPort :: int
  aa_LANNetworks :: "string list"
  aa_WANIsDHCP :: bool

text \<open>\<open>seen\<close> of Go's loops: keep the first of equal elements that satisfy a test.\<close>

fun first_seen :: "('a \<Rightarrow> bool) \<Rightarrow> 'a list \<Rightarrow> 'a list \<Rightarrow> 'a list" where
  "first_seen P seen [] = []"
| "first_seen P seen (x # xs) =
     (if x \<in> set seen \<or> \<not> P x then first_seen P seen xs else x # first_seen P (x # seen) xs)"

definition sanitize_one :: "string \<Rightarrow> string option" where
  "sanitize_one cidr =
     (case ParseCIDR cidr of
        None \<Rightarrow> None
      | Some (_, ipnet) \<Rightarrow>
          if net_Ones ipnet = 0 then None
          else if To4 (net_IP ipnet) = None then None
          else Some (net_string ipnet))"

definition sanitizeNetworks :: "string list \<Rightarrow> string list" where
  "sanitizeNetworks inn =
     map (\<lambda>cidr. the (sanitize_one cidr))
       (first_seen (\<lambda>cidr. cidr \<noteq> [] \<and> sanitize_one cidr \<noteq> None) [] (map trim_space inn))"

definition braces :: "string list \<Rightarrow> string" where
  "braces xs = ''{ '' @ go_join xs '', '' @ '' }''"

definition networkSet :: "string list \<Rightarrow> string" where
  "networkSet nets = braces nets"

definition portasDeGerenciaLista :: "admin_access \<Rightarrow> int list" where
  "portasDeGerenciaLista a =
     (let portas = (if aa_SSHPorts a = [] then [22] else aa_SSHPorts a);
          portas' = (if 0 < aa_PanelPort a then portas @ [aa_PanelPort a] else portas) in
      first_seen (\<lambda>p. 0 < p) [] (sort portas'))"

definition portasDeGerencia :: "admin_access \<Rightarrow> string" where
  "portasDeGerencia a =
     (let portas = portasDeGerenciaLista a in if portas = [] then [] else braces (map itoa portas))"

definition nd_types :: string where
  "nd_types = ''{ nd-neighbor-solicit, nd-neighbor-advert, nd-router-solicit, nd-router-advert }''"

definition SurvivalRules :: "admin_access \<Rightarrow> string list list" where
  "SurvivalRules a =
     [[''ct'', ''state'', ''related'', ''counter'', ''accept''],
      [''iif'', ''lo'', ''counter'', ''accept''],
      [''icmpv6'', ''type'', nd_types, ''counter'', ''accept'']]
     @ (if portasDeGerencia a \<noteq> []
        then [[''tcp'', ''dport'', portasDeGerencia a, ''counter'', ''accept'']] else [])
     @ (let nets = sanitizeNetworks (aa_LANNetworks a) in
        if nets \<noteq> []
        then [[''udp'', ''dport'', ''67'', ''ip'', ''saddr'', networkSet nets, ''counter'', ''accept''],
              [''udp'', ''dport'', ''53'', ''ip'', ''saddr'', networkSet nets, ''counter'', ''accept''],
              [''tcp'', ''dport'', ''53'', ''ip'', ''saddr'', networkSet nets, ''counter'', ''accept'']]
        else [])
     @ (if aa_WANIsDHCP a then [[''udp'', ''dport'', ''68'', ''counter'', ''accept'']] else [])"

definition quoteIfaces :: "string list \<Rightarrow> string list" where
  "quoteIfaces ifaces = map go_quote (first_seen (\<lambda>i. i \<noteq> [] \<and> reIface i) [] ifaces)"

definition abuseRules :: "string list \<Rightarrow> string \<Rightarrow> string list list" where
  "abuseRules wanIfaces portas =
     (if wanIfaces = [] \<or> portas = [] then []
      else (let set = braces (quoteIfaces wanIfaces) in
        [[''ip'', ''saddr'', ''@abusers'', ''counter'', ''drop''],
         [''iifname'', set, ''tcp'', ''dport'', portas, ''ct'', ''state'', ''new'',
          ''limit'', ''rate'', ''over'', ''10/minute'',
          ''counter'', ''add'', ''@abusers'', ''{'', ''ip'', ''saddr'', ''}'']]))"

definition WANInputRules ::
  "string list \<Rightarrow> admin_access \<Rightarrow> bool \<Rightarrow> bool \<Rightarrow> int list \<Rightarrow> string list list" where
  "WANInputRules wanIfaces access gerenciaFechada contencaoLigada wireGuardPorts =
     (let nomes = quoteIfaces wanIfaces; set = braces nomes; portas = portasDeGerencia access in
      if nomes = [] then []
      else
        [[''iifname'', set, ''icmpv6'', ''type'', nd_types, ''counter'', ''accept''],
         [''iifname'', set, ''icmpv6'', ''type'',
          ''{ packet-too-big, time-exceeded, parameter-problem, destination-unreachable }'',
          ''counter'', ''accept''],
         [''iifname'', set, ''udp'', ''dport'', ''68'', ''counter'', ''accept''],
         [''iifname'', set, ''udp'', ''dport'', ''546'', ''counter'', ''accept''],
         [''iifname'', set, ''ct'', ''status'', ''dnat'', ''counter'', ''accept''],
         [''iifname'', set, ''icmp'', ''type'', ''echo-request'', ''limit'', ''rate'', ''5/second'', ''counter'', ''accept''],
         [''iifname'', set, ''icmpv6'', ''type'', ''echo-request'', ''limit'', ''rate'', ''5/second'', ''counter'', ''accept'']]
        @ (if \<not> gerenciaFechada \<and> portas \<noteq> []
           then (if contencaoLigada then abuseRules wanIfaces portas else [])
                @ [[''iifname'', set, ''tcp'', ''dport'', portas, ''counter'', ''accept'']]
           else [])
        @ (case wireGuardPorts of
             [] \<Rightarrow> []
           | port # _ \<Rightarrow>
               if 1 \<le> port \<and> port \<le> 65535
               then [[''iifname'', set, ''udp'', ''dport'', itoa port, ''counter'', ''accept'']] else [])
        @ [[''iifname'', set, ''ct'', ''state'', ''new'', ''counter'', ''drop'']])"

definition input_lines :: "fw_group \<Rightarrow> string list list" where
  "input_lines g =
     (if \<not> g_Enabled g then []
      else if IsSystemGroup (g_Kind g) \<or> GroupScope g \<noteq> ScopeInput then []
      else if \<not> validGroupChainName (g_ChainName g) then []
      else case groupJumpTokens g of Inl _ \<Rightarrow> [] | Inr tokens \<Rightarrow> [tokens])"

definition ntp_lines :: "string list \<Rightarrow> bool \<Rightarrow> string list list" where
  "ntp_lines ntpNetworks ntpServing =
     (let networks = sanitizeNetworks ntpNetworks in
      if ntpServing \<and> networks \<noteq> []
      then [[''udp'', ''dport'', ''123'', ''ip'', ''saddr'', braces networks, ''counter'', ''accept''],
            [''udp'', ''dport'', ''123'', ''counter'', ''drop'']]
      else [])"

record input_params =
  ip_ntpNetworks :: "string list"
  ip_ntpServing :: bool
  ip_policy :: policy
  ip_access :: admin_access
  ip_wanIfaces :: "string list"
  ip_gerenciaFechada :: bool
  ip_contencao :: bool
  ip_wireGuardPorts :: "int list"

definition inputChainRules :: "(fw_group \<times> fw_rule list) list \<Rightarrow> input_params \<Rightarrow> string list list" where
  "inputChainRules groups ip =
     [[''ct'', ''state'', ''related'', ''counter'', ''accept'']]
     @ (if ip_policy ip = PolicyDrop then tl (SurvivalRules (ip_access ip)) else [])
     @ ntp_lines (ip_ntpNetworks ip) (ip_ntpServing ip)
     @ concat (map (\<lambda>gr. input_lines (fst gr)) (sorted_groups groups))
     @ WANInputRules (ip_wanIfaces ip) (ip_access ip) (ip_gerenciaFechada ip) (ip_contencao ip)
         (ip_wireGuardPorts ip)"

subsection \<open>The chain of marks\<close>

definition markHostsChainRules :: "string list \<Rightarrow> string list list" where
  "markHostsChainRules wans =
     (let ifaces = sort (first_seen reIface [] wans) in
      (if ifaces \<noteq> []
       then [[''iifname'', ''!='', braces (map go_quote ifaces), ''ct'', ''state'', ''new'',
              ''meta'', ''mark'', ''0x0'', ''counter'',
              ''meta'', ''mark'', ''set'', ''ip'', ''daddr'', ''map'', ''@dom_wan'']]
       else [])
      @ [[''counter'', ''meta'', ''mark'', ''set'', ''ip'', ''saddr'', ''map'', ''@host_wan'']])"

end
