(* ===== verification/NftSemantics.thy ===== *)
theory NftSemantics
  imports FirewallRender
begin

text \<open>
  What the rendered chains do to a packet.  \<open>parse_rule\<close> reads the words of a rule as nft does:
  matches, statements without effect on the verdict (counter, log, set and mark updates), and at
  the end a verdict.  A packet (with the moment it arrives) is what each match answers for it,
  \<open>packet = selector \<Rightarrow> operand \<Rightarrow> bool\<close>; nothing is assumed of the answers, so the results hold
  for every content of the named sets, every connection state, every hour and every state of a
  rate limit.  A chain is read from the top; a jump that reaches no verdict returns; a base chain
  without verdict applies its policy.

  The lemmas compare this reading with the meaning of the rows: \<open>forward_verdict\<close> and
  \<open>input_verdict\<close> say, from the fields alone, which row decides a packet.
\<close>

subsection \<open>Reading a rule\<close>

datatype verdict = VAccept | VDrop | VReject | VJump string

datatype nft_rule = Rule "(string \<times> string) list" "verdict option"

definition add_match :: "string \<Rightarrow> string \<Rightarrow> nft_rule option \<Rightarrow> nft_rule option" where
  "add_match k v r = map_option (\<lambda>r. case r of Rule ms w \<Rightarrow> Rule ((k, v) # ms) w) r"

fun parse_rule :: "string list \<Rightarrow> nft_rule option" where
  "parse_rule [] = Some (Rule [] None)"
| "parse_rule (t # ts) =
     (if t \<in> {''iifname'', ''oifname'', ''iif''} then
        (case ts of
           [] \<Rightarrow> None
         | v # r \<Rightarrow>
             if v = ''!='' then (case r of [] \<Rightarrow> None | w # r' \<Rightarrow> add_match (t @ '' !='') w (parse_rule r'))
             else add_match t v (parse_rule r))
      else if t \<in> {''ip'', ''ip6'', ''ether'', ''tcp'', ''udp'', ''icmp'', ''icmpv6'', ''ct''} then
        (case ts of k # v # r \<Rightarrow> add_match (t @ '' '' @ k) v (parse_rule r) | _ \<Rightarrow> None)
      else if t = ''meta'' then
        (case ts of
           k # v # r \<Rightarrow>
             if v = ''set'' then
               (case r of f # d # m # s # r' \<Rightarrow> if m = ''map'' then parse_rule r' else None | _ \<Rightarrow> None)
             else add_match (''meta '' @ k) v (parse_rule r)
         | _ \<Rightarrow> None)
      else if t = ''limit'' then
        (case ts of
           k # v # r \<Rightarrow>
             if v = ''over'' then (case r of [] \<Rightarrow> None | w # r' \<Rightarrow> add_match ''limit rate over'' w (parse_rule r'))
             else add_match ''limit rate'' v (parse_rule r)
         | _ \<Rightarrow> None)
      else if t = ''log'' then (case ts of k # v # r \<Rightarrow> parse_rule r | _ \<Rightarrow> None)
      else if t = ''counter'' then parse_rule ts
      else if t = ''add'' then (case ts of s # a # b # c # d # r \<Rightarrow> parse_rule r | _ \<Rightarrow> None)
      else if t = ''accept'' \<and> ts = [] then Some (Rule [] (Some VAccept))
      else if t = ''drop'' \<and> ts = [] then Some (Rule [] (Some VDrop))
      else if t = ''reject'' \<and> ts = [] then Some (Rule [] (Some VReject))
      else if t = ''jump'' then (case ts of [c] \<Rightarrow> Some (Rule [] (Some (VJump c))) | _ \<Rightarrow> None)
      else None)"

subsection \<open>Evaluating a chain\<close>

datatype decision = Accepted | Dropped | Rejected

type_synonym packet = "string \<Rightarrow> string \<Rightarrow> bool"

definition all_match :: "packet \<Rightarrow> (string \<times> string) list \<Rightarrow> bool" where
  "all_match p ms \<longleftrightarrow> list_all (\<lambda>(k, v). p k v) ms"

fun eval_rules :: "(string \<Rightarrow> decision option) \<Rightarrow> packet \<Rightarrow> nft_rule list \<Rightarrow> decision option" where
  "eval_rules jump p [] = None"
| "eval_rules jump p (Rule ms w # rs) =
     (if \<not> all_match p ms then eval_rules jump p rs
      else case w of
        None \<Rightarrow> eval_rules jump p rs
      | Some VAccept \<Rightarrow> Some Accepted
      | Some VDrop \<Rightarrow> Some Dropped
      | Some VReject \<Rightarrow> Some Rejected
      | Some (VJump c) \<Rightarrow> (case jump c of Some d \<Rightarrow> Some d | None \<Rightarrow> eval_rules jump p rs))"

text \<open>The kernel's limit on nested jumps is 16; the rendered chains use two levels.\<close>

definition read_rules :: "string list list \<Rightarrow> nft_rule list" where
  "read_rules lines = map (\<lambda>ts. the (parse_rule ts)) lines"

type_synonym chains = "string \<Rightarrow> string list list option"

primrec eval_chain :: "nat \<Rightarrow> chains \<Rightarrow> packet \<Rightarrow> string \<Rightarrow> decision option" where
  "eval_chain 0 cs p c = None"
| "eval_chain (Suc n) cs p c =
     (case cs c of
        None \<Rightarrow> None
      | Some lines \<Rightarrow> eval_rules (eval_chain n cs p) p (read_rules lines))"

definition policy_decision :: "policy \<Rightarrow> decision" where
  "policy_decision pol = (case pol of PolicyAccept \<Rightarrow> Accepted | PolicyDrop \<Rightarrow> Dropped)"

definition decide :: "chains \<Rightarrow> policy \<Rightarrow> packet \<Rightarrow> string \<Rightarrow> decision" where
  "decide cs pol p base = (case eval_chain 16 cs p base of Some d \<Rightarrow> d | None \<Rightarrow> policy_decision pol)"

subsection \<open>What the rows say\<close>

fun first_some :: "('a \<Rightarrow> 'b option) \<Rightarrow> 'a list \<Rightarrow> 'b option" where
  "first_some f [] = None"
| "first_some f (x # xs) = (case f x of Some y \<Rightarrow> Some y | None \<Rightarrow> first_some f xs)"

definition opt_match :: "packet \<Rightarrow> string \<Rightarrow> string \<Rightarrow> bool" where
  "opt_match p k v \<longleftrightarrow> v = [] \<or> p k v"

definition rule_applies :: "packet \<Rightarrow> rule_fields \<Rightarrow> bool" where
  "rule_applies p f \<longleftrightarrow>
     opt_match p ''iifname'' (f_Iif f) \<and> opt_match p ''oifname'' (f_Oif f)
     \<and> opt_match p ''ip saddr'' (f_Saddr f) \<and> opt_match p ''ip daddr'' (f_Daddr f)
     \<and> (f_Proto f \<noteq> [] \<longrightarrow>
          (if f_Dport f = [] then p ''ip protocol'' (f_Proto f)
           else p (f_Proto f @ '' dport'') (f_Dport f)))"

definition action_decision :: "string \<Rightarrow> decision" where
  "action_decision a = (if a = ''accept'' then Accepted else if a = ''drop'' then Dropped else Rejected)"

definition rule_verdict :: "packet \<Rightarrow> fw_rule \<Rightarrow> decision option" where
  "rule_verdict p r =
     (let f = normal_rule (rule_Fields r) in
      if r_Enabled r \<and> valid_rule (rule_Fields r) \<and> rule_applies p f
      then Some (action_decision (f_Action f)) else None)"

definition fallthrough_verdict :: "fw_group \<Rightarrow> decision option" where
  "fallthrough_verdict g =
     (if g_Fallthrough g = FallthroughAccept then Some Accepted
      else if g_Fallthrough g = FallthroughDrop then Some Dropped else None)"

definition group_verdict :: "packet \<Rightarrow> fw_group \<times> fw_rule list \<Rightarrow> decision option" where
  "group_verdict p gr =
     (case first_some (rule_verdict p) (sorted_rules (snd gr)) of
        Some d \<Rightarrow> Some d
      | None \<Rightarrow> fallthrough_verdict (fst gr))"

text \<open>The condition for entering a group: interface, hours, addresses, only new connections.\<close>

definition window_applies :: "packet \<Rightarrow> time_window \<Rightarrow> bool" where
  "window_applies p s \<longleftrightarrow>
     (schedule_Empty s
      \<or> (let ds = diasNFTOrdenados s in
          (ds \<noteq> [] \<and> length ds < length ordemDias \<longrightarrow> p ''meta day'' (braces ds))
          \<and> (tw_Start s \<noteq> [] \<longrightarrow> p ''meta hour'' (go_quote (tw_Start s) @ ''-'' @ go_quote (tw_End s)))))"

definition group_applies :: "packet \<Rightarrow> fw_group \<Rightarrow> bool" where
  "group_applies p g \<longleftrightarrow>
     opt_match p ''iifname'' (g_CondIif g) \<and> window_applies p (GroupSchedule g)
     \<and> opt_match p ''ip saddr'' (g_CondSaddr g) \<and> opt_match p ''ip daddr'' (g_CondDaddr g)
     \<and> (GroupConnState g = ConnStateNew \<longrightarrow> p ''ct state'' ''new'')"

definition group_reachable :: "fw_group \<Rightarrow> bool" where
  "group_reachable g \<longleftrightarrow> validGroupChainName (g_ChainName g) \<and> (case groupJumpTokens g of Inl _ \<Rightarrow> False | Inr _ \<Rightarrow> True)"

definition blocked :: "packet \<Rightarrow> string \<Rightarrow> bool" where
  "blocked p kind \<longleftrightarrow>
     (if kind = GroupKindBlockedHosts
      then p ''ip saddr'' ''@blocked_hosts'' \<or> p ''ip daddr'' ''@blocked_hosts''
           \<or> p ''ether saddr'' ''@blocked_macs''
      else p ''ip daddr'' ''@blocklist'' \<or> p ''ip saddr'' ''@blocklist''
           \<or> p ''ip daddr'' ''@dom_blocked'' \<or> p ''ip6 daddr'' ''@dom_blocked6'')"

definition forward_group_verdict :: "packet \<Rightarrow> fw_group \<times> fw_rule list \<Rightarrow> decision option" where
  "forward_group_verdict p gr =
     (let g = fst gr in
      if \<not> g_Enabled g then None
      else if IsSystemGroup (g_Kind g) then (if blocked p (g_Kind g) then Some Dropped else None)
      else if GroupScope g = ScopeForward \<and> group_reachable g \<and> group_applies p g
      then group_verdict p gr else None)"

definition forward_verdict :: "packet \<Rightarrow> (fw_group \<times> fw_rule list) list \<Rightarrow> decision option" where
  "forward_verdict p groups = first_some (forward_group_verdict p) (sorted_groups groups)"

subsection \<open>Reading the rendered rules\<close>

lemma add_match_Some [simp]: "add_match k v (Some (Rule ms w)) = Some (Rule ((k, v) # ms) w)"
  by (simp add: add_match_def)

definition opt_cond :: "string \<Rightarrow> string \<Rightarrow> (string \<times> string) list" where
  "opt_cond k v = (if v = [] then [] else [(k, v)])"

lemma all_match_simps [simp]:
  "all_match p []" "all_match p ((k, v) # ms) \<longleftrightarrow> p k v \<and> all_match p ms"
  "all_match p (xs @ ys) \<longleftrightarrow> all_match p xs \<and> all_match p ys"
  "all_match p (opt_cond k v) \<longleftrightarrow> opt_match p k v"
  by (simp_all add: all_match_def opt_cond_def opt_match_def)

definition reads :: "string list \<Rightarrow> (string \<times> string) list \<Rightarrow> bool" where
  "reads ws cs \<longleftrightarrow> (\<forall>ts ms w. parse_rule ts = Some (Rule ms w) \<longrightarrow> parse_rule (ws @ ts) = Some (Rule (cs @ ms) w))"

lemma reads_append: "reads xs cs \<Longrightarrow> reads ys ds \<Longrightarrow> reads (xs @ ys) (cs @ ds)"
  by (simp add: reads_def)

lemma reads_Nil [simp]: "reads [] []"
  by (simp add: reads_def)

lemma reads_iface:
  "v \<noteq> ''!='' \<Longrightarrow> reads (opt_words [''iifname''] v) (opt_cond ''iifname'' v)"
  "v \<noteq> ''!='' \<Longrightarrow> reads (opt_words [''oifname''] v) (opt_cond ''oifname'' v)"
  by (simp_all add: reads_def opt_words_def opt_cond_def)

lemma reads_addr:
  "reads (opt_words [''ip'', ''saddr''] v) (opt_cond ''ip saddr'' v)"
  "reads (opt_words [''ip'', ''daddr''] v) (opt_cond ''ip daddr'' v)"
  by (simp_all add: reads_def opt_words_def opt_cond_def)

definition l4_conds :: "rule_fields \<Rightarrow> (string \<times> string) list" where
  "l4_conds f =
     (if f_Proto f = [] then []
      else if f_Dport f = [] then [(''ip protocol'', f_Proto f)]
      else [(f_Proto f @ '' dport'', f_Dport f)])"

lemma reads_l4:
  "f_Proto f \<in> {[], ''tcp'', ''udp'', ''icmp''} \<Longrightarrow> reads (l4_words f) (l4_conds f)"
  by (elim insertE emptyE; simp add: reads_def l4_words_def l4_conds_def)

lemma reIface_not_neq: "reIface i \<Longrightarrow> i \<noteq> ''!=''"
  by (auto simp: reIface_def iface_char_def is_lower_def is_upper_def is_digit_def)

definition rule_conds :: "rule_fields \<Rightarrow> (string \<times> string) list" where
  "rule_conds f = opt_cond ''iifname'' (f_Iif f) @ opt_cond ''oifname'' (f_Oif f)
     @ opt_cond ''ip saddr'' (f_Saddr f) @ opt_cond ''ip daddr'' (f_Daddr f) @ l4_conds f"

lemma all_match_rule: "all_match p (rule_conds f) \<longleftrightarrow> rule_applies p f"
  by (simp add: rule_conds_def rule_applies_def l4_conds_def)

lemma reads_match_words:
  assumes "normal_ok f" shows "reads (match_words id id f) (rule_conds f)"
proof -
  note D = normal_okD [OF assms]
  have i: "f_Iif f \<noteq> ''!=''" "f_Oif f \<noteq> ''!=''"
    using D(2,3) reIface_not_neq by fastforce+
  show ?thesis
    unfolding match_words_def rule_conds_def id_apply if_cancel
    using reads_iface(1) [OF i(1)] reads_iface(2) [OF i(2)] reads_addr reads_l4 [OF D(6)]
    by (simp add: reads_append)
qed

definition action_verdict :: "string \<Rightarrow> verdict" where
  "action_verdict a = (if a = ''accept'' then VAccept else if a = ''drop'' then VDrop else VReject)"

lemma parse_rule_action:
  "a \<in> {''accept'', ''drop'', ''reject''} \<Longrightarrow> parse_rule [''counter'', a] = Some (Rule [] (Some (action_verdict a)))"
  by (elim insertE emptyE; simp add: action_verdict_def)

lemma parse_buildRuleTokens:
  assumes "buildRuleTokens f = Inr ts"
  shows "parse_rule ts = Some (Rule (rule_conds (normal_rule f)) (Some (action_verdict (f_Action (normal_rule f)))))"
proof -
  from assms have ok: "normal_ok (normal_rule f)"
    and ts: "ts = match_words id id (normal_rule f) @ [''counter'', f_Action (normal_rule f)]"
    by (simp_all add: buildRuleTokens_Inr)
  show ?thesis
    using reads_match_words [OF ok] parse_rule_action [OF normal_okD(1) [OF ok]]
    unfolding ts reads_def by (metis append_Nil2)
qed

lemma eval_rule_action:
  "eval_rules j p (Rule ms (Some (action_verdict a)) # rs) =
     (if all_match p ms then Some (action_decision a) else eval_rules j p rs)"
  by (simp add: action_verdict_def action_decision_def)

lemma eval_rules_append:
  "eval_rules j p (xs @ ys) = (case eval_rules j p xs of Some d \<Rightarrow> Some d | None \<Rightarrow> eval_rules j p ys)"
proof (induction xs)
  case (Cons r xs)
  obtain ms w where r: "r = Rule ms w" by (cases r)
  show ?case
    using Cons.IH by (auto simp: r split: option.splits verdict.splits)
qed simp

lemma read_rules_simps [simp]:
  "read_rules [] = []" "read_rules (l # ls) = the (parse_rule l) # read_rules ls"
  "read_rules (xs @ ys) = read_rules xs @ read_rules ys"
  by (simp_all add: read_rules_def)

lemma first_some_append:
  "first_some f (xs @ ys) = (case first_some f xs of Some y \<Rightarrow> Some y | None \<Rightarrow> first_some f ys)"
  by (induction xs) (simp_all split: option.split)

lemma first_some_cong: "(\<And>x. x \<in> set xs \<Longrightarrow> f x = g x) \<Longrightarrow> first_some f xs = first_some g xs"
  by (induction xs) (simp_all split: option.split)

lemma valid_rule_Inr: "valid_rule f \<longleftrightarrow> (\<exists>ts. buildRuleTokens f = Inr ts)"
  by (auto simp: valid_rule_def ValidateRuleFields_def split: sum.splits)

lemma eval_render_rules:
  "eval_rules j p (read_rules (fst (render_rules rs))) = first_some (rule_verdict p) rs"
proof (induction rs)
  case (Cons r rs)
  obtain ls sk where rr: "render_rules rs = (ls, sk)" by fastforce
  show ?case
  proof (cases "buildRuleTokens (rule_Fields r)")
    case (Inl e)
    then have "rule_verdict p r = None" by (simp add: rule_verdict_def valid_rule_Inr Let_def)
    with Cons.IH rr Inl show ?thesis by simp
  next
    case (Inr ts)
    then have v: "valid_rule (rule_Fields r)" by (auto simp: valid_rule_Inr)
    define act where "act = f_Action (normal_rule (rule_Fields r))"
    have rv: "rule_verdict p r = (if r_Enabled r \<and> rule_applies p (normal_rule (rule_Fields r))
        then Some (action_decision act) else None)"
      by (simp only: rule_verdict_def Let_def v simp_thms act_def)
    have read: "parse_rule ts = Some (Rule (rule_conds (normal_rule (rule_Fields r))) (Some (action_verdict act)))"
      unfolding act_def by (rule parse_buildRuleTokens [OF Inr])
    show ?thesis
      using Cons.IH rr Inr
      by (simp add: rv read eval_rule_action all_match_rule del: eval_rules.simps)
  qed
qed simp

lemma eval_fallthrough: "eval_rules j p (read_rules (fallthrough_lines g)) = fallthrough_verdict g"
  by (simp add: fallthrough_lines_def fallthrough_verdict_def FallthroughAccept_def FallthroughDrop_def)

lemma eval_group_chain: "eval_rules j p (read_rules (fst (renderGroupChain gr))) = group_verdict p gr"
  by (cases gr) (simp add: renderGroupChain_def group_verdict_def eval_rules_append eval_render_rules
      eval_fallthrough Let_def split: prod.split option.split, metis eval_render_rules fst_conv option.distinct(1) option.inject)

subsection \<open>Jumps and blocks\<close>

definition window_conds :: "time_window \<Rightarrow> (string \<times> string) list" where
  "window_conds s =
     (if schedule_Empty s then []
      else (let ds = diasNFTOrdenados s in
        (if ds \<noteq> [] \<and> length ds < length ordemDias then [(''meta day'', braces ds)] else [])
        @ (if tw_Start s \<noteq> [] then [(''meta hour'', go_quote (tw_Start s) @ ''-'' @ go_quote (tw_End s))] else [])))"

lemma all_match_window: "all_match p (window_conds s) \<longleftrightarrow> window_applies p s"
  by (simp add: window_conds_def window_applies_def Let_def)

lemma braces_not_keyword: "braces xs \<noteq> ''set''" "go_quote s @ t \<noteq> ''set''"
  by (simp_all add: braces_def go_quote_def dquote_def)

lemma reads_window: "schedule_Validate s = None \<Longrightarrow> reads (schedule_Tokens s) (window_conds s)"
  by (simp add: reads_def schedule_Tokens_def window_conds_def Let_def braces_not_keyword(2) braces_def)

definition jump_conds :: "fw_group \<Rightarrow> (string \<times> string) list" where
  "jump_conds g = opt_cond ''iifname'' (g_CondIif g) @ window_conds (GroupSchedule g)
     @ opt_cond ''ip saddr'' (g_CondSaddr g) @ opt_cond ''ip daddr'' (g_CondDaddr g)
     @ (if GroupConnState g = ConnStateNew then [(''ct state'', ''new'')] else [])"

lemma all_match_jump: "all_match p (jump_conds g) \<longleftrightarrow> group_applies p g"
  by (simp add: jump_conds_def group_applies_def all_match_window)

lemma parse_groupJumpTokens:
  assumes "groupJumpTokens g = Inr ts"
  shows "parse_rule ts = Some (Rule (jump_conds g) (Some (VJump (g_ChainName g))))"
proof -
  from assms have ok: "g_CondIif g = [] \<or> reIface (g_CondIif g)" "schedule_Validate (GroupSchedule g) = None"
    and ts: "ts = opt_words [''iifname''] (g_CondIif g)
                  @ schedule_Tokens (GroupSchedule g)
                  @ opt_words [''ip'', ''saddr''] (g_CondSaddr g)
                  @ opt_words [''ip'', ''daddr''] (g_CondDaddr g)
                  @ (if GroupConnState g = ConnStateNew then [''ct'', ''state'', ''new''] else [])
                  @ [''counter'', ''jump'', g_ChainName g]"
    by (auto simp: groupJumpTokens_def split: if_splits option.splits)
  have i: "g_CondIif g \<noteq> ''!=''" using ok(1) reIface_not_neq by fastforce
  have ct: "reads (if GroupConnState g = ConnStateNew then [''ct'', ''state'', ''new''] else [])
      (if GroupConnState g = ConnStateNew then [(''ct state'', ''new'')] else [])"
    by (simp add: reads_def)
  have "reads (opt_words [''iifname''] (g_CondIif g) @ schedule_Tokens (GroupSchedule g)
      @ opt_words [''ip'', ''saddr''] (g_CondSaddr g) @ opt_words [''ip'', ''daddr''] (g_CondDaddr g)
      @ (if GroupConnState g = ConnStateNew then [''ct'', ''state'', ''new''] else [])) (jump_conds g)"
    unfolding jump_conds_def
    by (intro reads_append reads_iface reads_window reads_addr ct i ok(2))
  moreover have "parse_rule [''counter'', ''jump'', g_ChainName g] = Some (Rule [] (Some (VJump (g_ChainName g))))"
    by simp
  ultimately show ?thesis
    unfolding reads_def ts by fastforce
qed

lemma systemGroupForwardRules_iff: "systemGroupForwardRules kind = None \<longleftrightarrow> \<not> IsSystemGroup kind"
  by (simp add: systemGroupForwardRules_def IsSystemGroup_def)

text \<open>A block drops whether or not it is logged, and whatever the limit of the log answers.\<close>

lemma eval_comLog:
  assumes "\<And>m. m \<in> set ms \<Longrightarrow> reads m [c m]"
  shows "eval_rules j p (read_rules (comLog logar pre ms)) =
    (if \<exists>m \<in> set ms. all_match p [c m] then Some Dropped else None)"
  using assms
proof (induction ms)
  case Nil
  then show ?case by (simp add: comLog_def)
next
  case (Cons m ms)
  have rm: "reads m [c m]" using Cons.prems by simp
  have log: "parse_rule (m @ [''limit'', ''rate'', blockLogRate, ''log'', ''prefix'', go_quote pre]) =
      Some (Rule [c m, (''limit rate'', blockLogRate)] None)"
    using rm unfolding reads_def by (simp add: blockLogRate_def)
  have drp: "parse_rule (m @ [''counter'', ''drop'']) = Some (Rule [c m] (Some VDrop))"
    using rm unfolding reads_def by simp
  have eq: "comLog logar pre (m # ms) =
      (if logar then [m @ [''limit'', ''rate'', blockLogRate, ''log'', ''prefix'', go_quote pre]] else [])
       @ [m @ [''counter'', ''drop'']] @ comLog logar pre ms"
    by (simp add: comLog_def)
  have ih: "eval_rules j p (read_rules (comLog logar pre ms)) =
      (if \<exists>m \<in> set ms. all_match p [c m] then Some Dropped else None)"
    by (rule Cons.IH) (simp add: Cons.prems)
  show ?case
  proof (cases "all_match p [c m]")
    case True
    then show ?thesis unfolding eq by (cases logar) (simp_all add: log drp eval_rules_append)
  next
    case False
    then show ?thesis unfolding eq using ih by (cases logar) (simp_all add: log drp eval_rules_append)
  qed
qed

lemma eval_system_lines:
  assumes "systemGroupForwardRules kind = Some renderer"
  shows "eval_rules j p (read_rules (renderer logar)) = (if blocked p kind then Some Dropped else None)"
proof -
  define c where "c = (\<lambda>m :: string list. (m ! 0 @ '' '' @ m ! 1, m ! 2))"
  have reads: "reads m [c m]" if "m = [a, b, v]" "a = ''ip'' \<or> a = ''ether'' \<or> a = ''ip6''" for m a b v
    using that(2) unfolding that(1) c_def by (elim disjE) (simp_all add: reads_def)
  show ?thesis
  proof (cases "kind = GroupKindBlockedHosts")
    case True
    then have r: "renderer logar = comLog logar BlockLogPrefixHost
          [[''ip'', ''saddr'', ''@blocked_hosts''], [''ip'', ''daddr'', ''@blocked_hosts''],
           [''ether'', ''saddr'', ''@blocked_macs'']]"
      using assms by (auto simp: systemGroupForwardRules_def)
    have "eval_rules j p (read_rules (renderer logar)) =
      (if \<exists>m \<in> {[''ip'', ''saddr'', ''@blocked_hosts''], [''ip'', ''daddr'', ''@blocked_hosts''],
           [''ether'', ''saddr'', ''@blocked_macs'']}. all_match p [c m] then Some Dropped else None)"
      unfolding r by (subst eval_comLog [where c = c]) (auto intro: reads)
    also have "\<dots> = (if blocked p kind then Some Dropped else None)"
      using True by (simp add: c_def blocked_def)
    finally show ?thesis .
  next
    case False
    then have r: "renderer logar = comLog logar BlockLogPrefixDest
          [[''ip'', ''daddr'', ''@blocklist''], [''ip'', ''saddr'', ''@blocklist''],
           [''ip'', ''daddr'', ''@dom_blocked''], [''ip6'', ''daddr'', ''@dom_blocked6'']]"
      using assms by (auto simp: systemGroupForwardRules_def split: if_splits)
    have "eval_rules j p (read_rules (renderer logar)) =
      (if \<exists>m \<in> {[''ip'', ''daddr'', ''@blocklist''], [''ip'', ''saddr'', ''@blocklist''],
           [''ip'', ''daddr'', ''@dom_blocked''], [''ip6'', ''daddr'', ''@dom_blocked6'']}.
           all_match p [c m] then Some Dropped else None)"
      unfolding r by (subst eval_comLog [where c = c]) (auto intro: reads)
    also have "\<dots> = (if blocked p kind then Some Dropped else None)"
      using False by (simp add: c_def blocked_def)
    finally show ?thesis .
  qed
qed


subsection \<open>The forward chain\<close>

text \<open>
  The chains hold what was rendered: the forward chain its lines, and the chain of every group
  that has one the lines of that group.
\<close>

definition chain_groups :: "(fw_group \<times> fw_rule list) list \<Rightarrow> (fw_group \<times> fw_rule list) list" where
  "chain_groups groups =
     filter (\<lambda>gr. \<not> IsSystemGroup (g_Kind (fst gr)) \<and> validGroupChainName (g_ChainName (fst gr))) groups"

definition groups_loaded :: "chains \<Rightarrow> (fw_group \<times> fw_rule list) list \<Rightarrow> bool" where
  "groups_loaded cs groups \<longleftrightarrow>
     list_all (\<lambda>gr. cs (g_ChainName (fst gr)) = Some (fst (renderGroupChain gr))) (chain_groups groups)"

lemma eval_loaded_group:
  assumes "groups_loaded cs groups" "gr \<in> set groups" "\<not> IsSystemGroup (g_Kind (fst gr))"
    "validGroupChainName (g_ChainName (fst gr))"
  shows "eval_chain (Suc n) cs p (g_ChainName (fst gr)) = group_verdict p gr"
  using assms by (cases gr) (fastforce simp: groups_loaded_def chain_groups_def list_all_iff eval_group_chain)

lemma eval_jump_line:
  assumes "groupJumpTokens g = Inr ts"
  shows "eval_rules j p (read_rules [ts]) = (if group_applies p g then j (g_ChainName g) else None)"
  using parse_groupJumpTokens [OF assms]
  by (simp add: all_match_jump split: option.split)

lemma eval_forward_lines:
  assumes "groups_loaded cs groups" "gr \<in> set groups"
  shows "eval_rules (eval_chain (Suc n) cs p) p (read_rules (forward_lines logar (fst gr))) = forward_group_verdict p gr"
proof -
  let ?g = "fst gr"
  consider "\<not> g_Enabled ?g" | renderer where "g_Enabled ?g" "systemGroupForwardRules (g_Kind ?g) = Some renderer"
    | "g_Enabled ?g" "systemGroupForwardRules (g_Kind ?g) = None" by (cases "systemGroupForwardRules (g_Kind ?g)") auto
  then show ?thesis
  proof cases
    case 2
    then have "IsSystemGroup (g_Kind ?g)"
      using systemGroupForwardRules_iff [of "g_Kind ?g"] by simp
    with 2 show ?thesis by (simp add: forward_lines_def forward_group_verdict_def eval_system_lines)
  next
    case 3
    then have sys: "\<not> IsSystemGroup (g_Kind ?g)" by (simp add: systemGroupForwardRules_iff)
    show ?thesis
    proof (cases "GroupScope ?g = ScopeForward \<and> group_reachable ?g")
      case True
      then obtain ts where ts: "groupJumpTokens ?g = Inr ts" by (auto simp: group_reachable_def split: sum.splits)
      have v: "validGroupChainName (g_ChainName ?g)" using True by (simp add: group_reachable_def)
      have "forward_lines logar ?g = [ts]" using 3 True v ts by (simp add: forward_lines_def)
      moreover have "forward_group_verdict p gr = (if group_applies p ?g then group_verdict p gr else None)"
        using 3 True sys by (simp add: forward_group_verdict_def Let_def)
      ultimately show ?thesis
        using eval_jump_line [OF ts] eval_loaded_group [OF assms sys v] by simp
    next
      case False
      then have "forward_lines logar ?g = []"
        using 3 by (auto simp: forward_lines_def group_reachable_def split: sum.splits)
      with 3 sys False show ?thesis by (auto simp: forward_group_verdict_def Let_def)
    qed
  qed (simp add: forward_lines_def forward_group_verdict_def)
qed

lemma eval_concat_lines:
  assumes "\<And>x. x \<in> set xs \<Longrightarrow> eval_rules j p (read_rules (f x)) = h x"
  shows "eval_rules j p (read_rules (concat (map f xs))) = first_some h xs"
  using assms by (induction xs) (simp_all add: eval_rules_append split: option.split)

text \<open>
  The forward chain does what the groups say: with the rendered chains in the kernel, a
  packet that crosses the firewall meets the enabled groups in the order of their positions - a
  system group drops the packet its sets hold, logged or not; a group for forwarded traffic
  whose entry condition the packet meets decides by its first enabled valid rule that applies,
  else by what it does with the rest - and where no group decides, the policy does, under
  which, when it is to drop, established connections and forwarded ports have passed before.
\<close>
lemma forward_chain_lemma:
  assumes "groups_loaded cs groups"
    and "cs ForwardChain = Some ((if policy = PolicyDrop then ForwardSurvivalRules else []) @ forwardChainRules groups logar)"
  shows "decide cs policy p ForwardChain =
    (if policy = PolicyDrop \<and> (p ''ct state'' ''established,related'' \<or> p ''ct status'' ''dnat'') then Accepted
     else case forward_verdict p groups of Some d \<Rightarrow> d | None \<Rightarrow> policy_decision policy)"
proof -
  have groups: "eval_rules (eval_chain 15 cs p) p (read_rules (forwardChainRules groups logar)) = forward_verdict p groups"
    unfolding forwardChainRules_def forward_verdict_def
    by (rule eval_concat_lines)
      (use eval_forward_lines [OF assms(1), of _ 14] in \<open>simp add: sorted_groups_def numeral_eq_Suc\<close>)
  have surv: "eval_rules j p (read_rules ForwardSurvivalRules) =
      (if p ''ct state'' ''established,related'' \<or> p ''ct status'' ''dnat'' then Some Accepted else None)" for j
    by (simp add: ForwardSurvivalRules_def)
  have "eval_chain 16 cs p ForwardChain = eval_rules (eval_chain 15 cs p) p
      (read_rules ((if policy = PolicyDrop then ForwardSurvivalRules else []) @ forwardChainRules groups logar))"
    using assms(2) by (simp add: numeral_eq_Suc)
  then show ?thesis
    by (simp add: decide_def eval_rules_append groups surv)
qed

end
