(* ===== verification/InputChain.thy ===== *)
theory InputChain
  imports NftSemantics
begin

text \<open>
  What the rendered input chain does to a packet for the firewall itself
  (\<open>inputChainRules\<close>, \<open>SurvivalRules\<close>, \<open>WANInputRules\<close>, \<open>abuseRules\<close>): the layers of the chain
  in the order they decide.  \<open>input_verdict\<close> is stated from the configuration alone.
\<close>

subsection \<open>The layers\<close>

definition survival_verdict :: "packet \<Rightarrow> admin_access \<Rightarrow> decision option" where
  "survival_verdict p a =
     (let portas = portasDeGerencia a; nets = sanitizeNetworks (aa_LANNetworks a) in
      if p ''iif'' ''lo'' \<or> p ''icmpv6 type'' nd_types
         \<or> portas \<noteq> [] \<and> p ''tcp dport'' portas
         \<or> nets \<noteq> [] \<and> p ''ip saddr'' (braces nets)
              \<and> (p ''udp dport'' ''67'' \<or> p ''udp dport'' ''53'' \<or> p ''tcp dport'' ''53'')
         \<or> aa_WANIsDHCP a \<and> p ''udp dport'' ''68''
      then Some Accepted else None)"

definition ntp_verdict :: "packet \<Rightarrow> string list \<Rightarrow> bool \<Rightarrow> decision option" where
  "ntp_verdict p networks serving =
     (let nets = sanitizeNetworks networks in
      if serving \<and> nets \<noteq> [] \<and> p ''udp dport'' ''123''
      then Some (if p ''ip saddr'' (braces nets) then Accepted else Dropped) else None)"

definition input_group_verdict :: "packet \<Rightarrow> fw_group \<times> fw_rule list \<Rightarrow> decision option" where
  "input_group_verdict p gr =
     (let g = fst gr in
      if g_Enabled g \<and> \<not> IsSystemGroup (g_Kind g) \<and> GroupScope g = ScopeInput
         \<and> group_reachable g \<and> group_applies p g
      then group_verdict p gr else None)"

definition wan_errors :: string where
  "wan_errors = ''{ packet-too-big, time-exceeded, parameter-problem, destination-unreachable }''"

text \<open>What a WAN may send unasked: neighbour discovery, ICMPv6 errors, DHCP, forwarded ports, paced pings.\<close>

definition wan_needed :: "packet \<Rightarrow> bool" where
  "wan_needed p \<longleftrightarrow>
     p ''icmpv6 type'' nd_types \<or> p ''icmpv6 type'' wan_errors
     \<or> p ''udp dport'' ''68'' \<or> p ''udp dport'' ''546'' \<or> p ''ct status'' ''dnat''
     \<or> (p ''icmp type'' ''echo-request'' \<or> p ''icmpv6 type'' ''echo-request'') \<and> p ''limit rate'' ''5/second''"

definition wan_verdict :: "packet \<Rightarrow> input_params \<Rightarrow> decision option" where
  "wan_verdict p ip =
     (let wans = quoteIfaces (ip_wanIfaces ip); from_wan = p ''iifname'' (braces wans);
          portas = portasDeGerencia (ip_access ip); mgmt = \<not> ip_gerenciaFechada ip \<and> portas \<noteq> [] in
      if wans = [] then None
      else if from_wan \<and> wan_needed p then Some Accepted
      else if mgmt \<and> ip_contencao ip \<and> p ''ip saddr'' ''@abusers'' then Some Dropped
      else if mgmt \<and> from_wan \<and> p ''tcp dport'' portas then Some Accepted
      else if from_wan \<and> (case ip_wireGuardPorts ip of
                [] \<Rightarrow> False | port # _ \<Rightarrow> 1 \<le> port \<and> port \<le> 65535 \<and> p ''udp dport'' (itoa port))
        then Some Accepted
      else if from_wan \<and> p ''ct state'' ''new'' then Some Dropped
      else None)"

definition input_verdict :: "packet \<Rightarrow> (fw_group \<times> fw_rule list) list \<Rightarrow> input_params \<Rightarrow> decision option" where
  "input_verdict p groups ip =
     (if p ''ct state'' ''related'' then Some Accepted
      else case (if ip_policy ip = PolicyDrop then survival_verdict p (ip_access ip) else None) of
        Some d \<Rightarrow> Some d
      | None \<Rightarrow>
        (case ntp_verdict p (ip_ntpNetworks ip) (ip_ntpServing ip) of
           Some d \<Rightarrow> Some d
         | None \<Rightarrow>
           (case first_some (input_group_verdict p) (sorted_groups groups) of
              Some d \<Rightarrow> Some d
            | None \<Rightarrow> wan_verdict p ip)))"

subsection \<open>Reading the layers\<close>

lemma parse_keyword:
  "v \<noteq> ''!='' \<Longrightarrow> parse_rule (''iifname'' # v # r) = add_match ''iifname'' v (parse_rule r)"
  "v \<noteq> ''!='' \<Longrightarrow> parse_rule (''iif'' # v # r) = add_match ''iif'' v (parse_rule r)"
  "parse_rule (''ip'' # k # v # r) = add_match (''ip '' @ k) v (parse_rule r)"
  "parse_rule (''tcp'' # k # v # r) = add_match (''tcp '' @ k) v (parse_rule r)"
  "parse_rule (''udp'' # k # v # r) = add_match (''udp '' @ k) v (parse_rule r)"
  "parse_rule (''icmp'' # k # v # r) = add_match (''icmp '' @ k) v (parse_rule r)"
  "parse_rule (''icmpv6'' # k # v # r) = add_match (''icmpv6 '' @ k) v (parse_rule r)"
  "parse_rule (''ct'' # k # v # r) = add_match (''ct '' @ k) v (parse_rule r)"
  "parse_rule (''limit'' # k # v # r) =
     (if v = ''over'' then (case r of [] \<Rightarrow> None | w # r' \<Rightarrow> add_match ''limit rate over'' w (parse_rule r'))
      else add_match ''limit rate'' v (parse_rule r))"
  "parse_rule (''add'' # s # a # b # c # d # r) = parse_rule r"
  "parse_rule [''counter'', ''accept''] = Some (Rule [] (Some VAccept))"
  "parse_rule [''counter'', ''drop''] = Some (Rule [] (Some VDrop))"
  "parse_rule (''counter'' # ''add'' # r) = parse_rule (''add'' # r)"
  by simp_all

declare parse_rule.simps(2) [simp del]
declare parse_keyword [simp]

text \<open>A run of lines with one verdict.\<close>

lemma eval_accepts:
  "eval_rules j p (map (\<lambda>ms. Rule ms (Some VAccept)) mss @ rs) =
     (if list_ex (all_match p) mss then Some Accepted else eval_rules j p rs)"
  by (induction mss) simp_all

lemma eval_one:
  "eval_rules j p (Rule ms (Some VDrop) # rs) = (if all_match p ms then Some Dropped else eval_rules j p rs)"
  "eval_rules j p (Rule ms None # rs) = eval_rules j p rs"
  by simp_all

lemma operand_not_neq: "braces xs \<noteq> ''!=''" "braces xs \<noteq> ''set''" "braces xs \<noteq> ''over''"
  by (simp_all add: braces_def)

definition survival_conds :: "admin_access \<Rightarrow> (string \<times> string) list list" where
  "survival_conds a =
     (let portas = portasDeGerencia a; nets = sanitizeNetworks (aa_LANNetworks a) in
      [[(''iif'', ''lo'')], [(''icmpv6 type'', nd_types)]]
      @ (if portas \<noteq> [] then [[(''tcp dport'', portas)]] else [])
      @ (if nets \<noteq> []
         then [[(''udp dport'', ''67''), (''ip saddr'', braces nets)],
               [(''udp dport'', ''53''), (''ip saddr'', braces nets)],
               [(''tcp dport'', ''53''), (''ip saddr'', braces nets)]] else [])
      @ (if aa_WANIsDHCP a then [[(''udp dport'', ''68'')]] else []))"

lemma read_survival:
  "read_rules (tl (SurvivalRules a)) = map (\<lambda>ms. Rule ms (Some VAccept)) (survival_conds a)"
  unfolding SurvivalRules_def survival_conds_def networkSet_def Let_def
  by (simp add: operand_not_neq)

lemma eval_survival:
  "eval_rules j p (read_rules (tl (SurvivalRules a))) = survival_verdict p a"
proof -
  have "list_ex (all_match p) (survival_conds a) \<longleftrightarrow> survival_verdict p a = Some Accepted"
    by (auto simp: survival_conds_def survival_verdict_def Let_def)
  moreover have "survival_verdict p a = Some Accepted \<or> survival_verdict p a = None"
    by (auto simp: survival_verdict_def Let_def)
  ultimately show ?thesis
    using eval_accepts [of j p "survival_conds a" "[]"] by (auto simp: read_survival)
qed

lemma eval_ntp: "eval_rules j p (read_rules (ntp_lines nets serving)) = ntp_verdict p nets serving"
  by (simp add: ntp_lines_def ntp_verdict_def Let_def)

lemma eval_input_lines:
  assumes "groups_loaded cs groups" "gr \<in> set groups"
  shows "eval_rules (eval_chain (Suc n) cs p) p (read_rules (input_lines (fst gr))) = input_group_verdict p gr"
proof -
  let ?g = "fst gr"
  show ?thesis
  proof (cases "g_Enabled ?g \<and> \<not> IsSystemGroup (g_Kind ?g) \<and> GroupScope ?g = ScopeInput \<and> group_reachable ?g")
    case True
    then obtain ts where ts: "groupJumpTokens ?g = Inr ts" by (auto simp: group_reachable_def split: sum.splits)
    have v: "validGroupChainName (g_ChainName ?g)" using True by (simp add: group_reachable_def)
    have "input_lines ?g = [ts]" using True v ts by (simp add: input_lines_def)
    moreover have "input_group_verdict p gr = (if group_applies p ?g then group_verdict p gr else None)"
      using True by (simp add: input_group_verdict_def Let_def)
    ultimately show ?thesis
      using eval_jump_line [OF ts] eval_loaded_group [OF assms _ v] True by simp
  next
    case False
    then have "input_lines ?g = []" "input_group_verdict p gr = None"
      by (auto simp: input_lines_def input_group_verdict_def group_reachable_def Let_def split: sum.splits)
    then show ?thesis by simp
  qed
qed

definition wan_conds :: "string \<Rightarrow> (string \<times> string) list list" where
  "wan_conds wset =
     [[(''iifname'', wset), (''icmpv6 type'', nd_types)], [(''iifname'', wset), (''icmpv6 type'', wan_errors)],
      [(''iifname'', wset), (''udp dport'', ''68'')], [(''iifname'', wset), (''udp dport'', ''546'')],
      [(''iifname'', wset), (''ct status'', ''dnat'')],
      [(''iifname'', wset), (''icmp type'', ''echo-request''), (''limit rate'', ''5/second'')],
      [(''iifname'', wset), (''icmpv6 type'', ''echo-request''), (''limit rate'', ''5/second'')]]"

lemma list_ex_wan: "list_ex (all_match p) (wan_conds wset) \<longleftrightarrow> p ''iifname'' wset \<and> wan_needed p"
  by (auto simp: wan_conds_def wan_needed_def)

definition open_conds :: "string \<Rightarrow> string \<Rightarrow> int list \<Rightarrow> bool \<Rightarrow> (string \<times> string) list list" where
  "open_conds wset portas wg mgmt =
     (if mgmt then [[(''iifname'', wset), (''tcp dport'', portas)]] else [])
     @ (case wg of [] \<Rightarrow> [] | port # _ \<Rightarrow>
          if 1 \<le> port \<and> port \<le> 65535 then [[(''iifname'', wset), (''udp dport'', itoa port)]] else [])"

lemma read_wan:
  assumes "quoteIfaces wans \<noteq> []"
  shows "read_rules (WANInputRules wans access shut cont wg) =
    (let wset = braces (quoteIfaces wans); portas = portasDeGerencia access; mgmt = \<not> shut \<and> portas \<noteq> [] in
     map (\<lambda>ms. Rule ms (Some VAccept)) (wan_conds wset)
     @ (if mgmt \<and> cont
        then [Rule [(''ip saddr'', ''@abusers'')] (Some VDrop),
              Rule [(''iifname'', wset), (''tcp dport'', portas), (''ct state'', ''new''),
                    (''limit rate over'', ''10/minute'')] None] else [])
     @ map (\<lambda>ms. Rule ms (Some VAccept)) (open_conds wset portas wg mgmt)
     @ [Rule [(''iifname'', wset), (''ct state'', ''new'')] (Some VDrop)])"
proof -
  have ne: "wans \<noteq> []" using assms by (auto simp: quoteIfaces_def)
  show ?thesis
    unfolding WANInputRules_def abuseRules_def Let_def open_conds_def wan_conds_def
    using assms ne by (cases wg) (simp_all add: operand_not_neq wan_errors_def)
qed

lemma eval_wan:
  "eval_rules j p (read_rules (WANInputRules (ip_wanIfaces ip) (ip_access ip) (ip_gerenciaFechada ip)
     (ip_contencao ip) (ip_wireGuardPorts ip))) = wan_verdict p ip"
proof (cases "quoteIfaces (ip_wanIfaces ip) = []")
  case True
  then show ?thesis by (simp add: WANInputRules_def wan_verdict_def Let_def)
next
  case False
  define wset portas opn where "wset = braces (quoteIfaces (ip_wanIfaces ip))"
    and "portas = portasDeGerencia (ip_access ip)"
    and "opn \<longleftrightarrow> \<not> ip_gerenciaFechada ip \<and> portas \<noteq> []"
  have op: "list_ex (all_match p) (open_conds wset portas (ip_wireGuardPorts ip) opn) \<longleftrightarrow>
      p ''iifname'' wset \<and> (opn \<and> p ''tcp dport'' portas \<or>
        (case ip_wireGuardPorts ip of [] \<Rightarrow> False
         | port # _ \<Rightarrow> 1 \<le> port \<and> port \<le> 65535 \<and> p ''udp dport'' (itoa port)))"
    by (auto simp: open_conds_def split: list.split)
  have abuse: "eval_rules j p ((if opn \<and> ip_contencao ip
        then [Rule [(''ip saddr'', ''@abusers'')] (Some VDrop),
              Rule [(''iifname'', wset), (''tcp dport'', portas), (''ct state'', ''new''),
                    (''limit rate over'', ''10/minute'')] None] else []) @ rs) =
      (if opn \<and> ip_contencao ip \<and> p ''ip saddr'' ''@abusers'' then Some Dropped else eval_rules j p rs)" for rs
    by simp
  show ?thesis
    unfolding read_wan [OF False] wan_verdict_def Let_def wset_def [symmetric] portas_def [symmetric]
      opn_def [symmetric] eval_accepts abuse list_ex_wan op
    using False by (cases opn; cases "p ''iifname'' wset"; simp)
qed

text \<open>
  The input chain does what the configuration says, layer by layer: ICMP errors of known
  connections pass; under a policy to drop, the services an administrator needs to reach; the
  time service for its networks only; the groups for the firewall's own traffic in the order of
  their positions; on the WANs what they must be able to send, the management ports unless
  closed (a contained address first loses them), the VPN port, and every other new connection
  is dropped; the policy decides the rest.
\<close>
lemma input_chain_lemma:
  assumes "groups_loaded cs groups" and "cs InputChain = Some (inputChainRules groups ip)"
  shows "decide cs (ip_policy ip) p InputChain =
    (case input_verdict p groups ip of Some d \<Rightarrow> d | None \<Rightarrow> policy_decision (ip_policy ip))"
proof -
  have groups: "eval_rules (eval_chain 15 cs p) p (read_rules (concat (map (\<lambda>gr. input_lines (fst gr)) (sorted_groups groups))))
      = first_some (input_group_verdict p) (sorted_groups groups)"
    by (rule eval_concat_lines)
      (use eval_input_lines [OF assms(1), of _ 14] in \<open>simp add: sorted_groups_def numeral_eq_Suc\<close>)
  have surv: "eval_rules j p (read_rules (if ip_policy ip = PolicyDrop then tl (SurvivalRules (ip_access ip)) else []))
      = (if ip_policy ip = PolicyDrop then survival_verdict p (ip_access ip) else None)" for j
    by (simp add: eval_survival)
  have rel: "eval_rules j p (read_rules [[''ct'', ''state'', ''related'', ''counter'', ''accept'']])
      = (if p ''ct state'' ''related'' then Some Accepted else None)" for j
    by simp
  have "eval_chain 16 cs p InputChain = eval_rules (eval_chain 15 cs p) p (read_rules (inputChainRules groups ip))"
    using assms(2) by (simp add: numeral_eq_Suc)
  also have "\<dots> = input_verdict p groups ip"
    unfolding inputChainRules_def read_rules_simps(3) eval_rules_append rel surv eval_ntp groups eval_wan input_verdict_def
    by (simp split: option.split)
  finally show ?thesis by (simp add: decide_def)
qed

text \<open>C28. A new connection from a WAN is refused unless something lets it in: with the chain
  loaded and the policy to accept, a packet that arrives on a WAN and starts a connection is
  dropped when it is none of what a WAN must be able to send, does not go to the management
  ports (or they are closed on the WANs), does not go to the VPN port, is not the time service
  and no group for the firewall's own traffic decides it.
\<close>
theorem unasked_wan_connection_is_dropped:
  assumes "groups_loaded cs groups" and "cs InputChain = Some (inputChainRules groups ip)"
    and "ip_policy ip = PolicyAccept"
    and "quoteIfaces (ip_wanIfaces ip) \<noteq> []" and "p ''iifname'' (braces (quoteIfaces (ip_wanIfaces ip)))"
    and "p ''ct state'' ''new''" and "\<not> p ''ct state'' ''related''" and "\<not> wan_needed p"
    and "ip_gerenciaFechada ip \<or> \<not> p ''tcp dport'' (portasDeGerencia (ip_access ip))"
    and "\<not> p ''udp dport'' (itoa (hd (ip_wireGuardPorts ip @ [0])))"
    and "\<not> p ''udp dport'' ''123''"
    and "first_some (input_group_verdict p) (sorted_groups groups) = None"
  shows "decide cs (ip_policy ip) p InputChain = Dropped"
proof -
  have "ntp_verdict p (ip_ntpNetworks ip) (ip_ntpServing ip) = None"
    using assms(11) by (simp add: ntp_verdict_def Let_def)
  moreover have "wan_verdict p ip = Some Dropped"
    using assms(4-10) by (cases "ip_wireGuardPorts ip") (auto simp: wan_verdict_def Let_def)
  ultimately have "input_verdict p groups ip = Some Dropped"
    using assms(3,7,12) by (simp add: input_verdict_def)
  then show ?thesis
    by (simp add: input_chain_lemma [OF assms(1,2)])
qed

text \<open>Closing the management ports on the WANs has no effect under a policy to drop: the
  lines that keep the administrator from locking himself out accept the ports from every
  interface, and they come first.  Whatever the rows and the packet's interface, a packet for a
  management port is accepted, with the ports open or closed, contained or not.
\<close>
theorem closing_is_void_under_drop:
  assumes "groups_loaded cs groups" and "cs InputChain = Some (inputChainRules groups ip)"
    and "ip_policy ip = PolicyDrop"
    and "p ''tcp dport'' (portasDeGerencia (ip_access ip))"
    and "portasDeGerencia (ip_access ip) \<noteq> []"
  shows "decide cs (ip_policy ip) p InputChain = Accepted"
proof -
  have "survival_verdict p (ip_access ip) = Some Accepted"
    using assms(4,5) by (simp add: survival_verdict_def Let_def)
  then have "input_verdict p groups ip = Some Accepted"
    using assms(3) by (simp add: input_verdict_def)
  then show ?thesis
    by (simp add: input_chain_lemma [OF assms(1,2)])
qed

end
