(* ===== verification/GroupReconcile.thy ===== *)
theory GroupReconcile
  imports InputChain
begin

text \<open>
  Writing the rendered chains into the kernel (\<open>internal/nftables\<close>: \<open>reconcile_groups.go\<close>,
  \<open>reconcile.go\<close>, \<open>policy.go\<close>).  The kernel's table is the list of its chains, each with the
  policy of a base chain and its rules.  A command of nft either has its documented effect or is
  refused and changes nothing: \<open>nft_effect\<close> is the effect (a rule needs its chain, must be
  readable, and its jump must have a target; a chain that is jumped to cannot be deleted; a
  script is applied whole or not at all), and \<open>ne_refuses\<close> says which commands the kernel
  refuses for other reasons.  Every state the kernel goes through is kept in \<open>ns_history\<close>.

  The sources of the configuration (\<open>Set\<dots>Source\<close>) are read once per reconciliation, under one
  lock: \<open>Unset\<close> when none is connected, \<open>Failing\<close>, or the value.
\<close>

subsection \<open>The kernel\<close>

record kchain =
  kc_policy :: "policy option"
  kc_rules :: "string list list"

type_synonym kernel = "(string \<times> kchain) list"

datatype nft_cmd =
    AddSet string | AddChain string "policy option" | FlushChain string | AddRule string "string list"
  | DeleteChain string

definition set_chain :: "string \<Rightarrow> kchain \<Rightarrow> kernel \<Rightarrow> kernel" where
  "set_chain c kc k = map (\<lambda>(n, x). if n = c then (n, kc) else (n, x)) k"

definition jump_target :: "string list \<Rightarrow> string option" where
  "jump_target ts = (case parse_rule ts of Some (Rule _ (Some (VJump c))) \<Rightarrow> Some c | _ \<Rightarrow> None)"

definition jumped_to :: "string \<Rightarrow> kernel \<Rightarrow> bool" where
  "jumped_to c k \<longleftrightarrow> list_ex (\<lambda>(n, kc). list_ex (\<lambda>ts. jump_target ts = Some c) (kc_rules kc)) k"

fun nft_effect :: "nft_cmd \<Rightarrow> kernel \<Rightarrow> kernel option" where
  "nft_effect (AddSet s) k = Some k"
| "nft_effect (AddChain c pol) k =
     (case map_of k c of
        None \<Rightarrow> Some (k @ [(c, \<lparr>kc_policy = pol, kc_rules = []\<rparr>)])
      | Some kc \<Rightarrow> Some (if pol = None then k else set_chain c (kc\<lparr>kc_policy := pol\<rparr>) k))"
| "nft_effect (FlushChain c) k =
     map_option (\<lambda>kc. set_chain c (kc\<lparr>kc_rules := []\<rparr>) k) (map_of k c)"
| "nft_effect (AddRule c ts) k =
     (case map_of k c of
        None \<Rightarrow> None
      | Some kc \<Rightarrow>
          if parse_rule ts = None \<or> (case jump_target ts of None \<Rightarrow> False | Some t \<Rightarrow> map_of k t = None) then None
          else Some (set_chain c (kc\<lparr>kc_rules := kc_rules kc @ [ts]\<rparr>) k))"
| "nft_effect (DeleteChain c) k =
     (if map_of k c = None \<or> jumped_to c k then None else Some (filter (\<lambda>(n, _). n \<noteq> c) k))"

fun script_effect :: "nft_cmd list \<Rightarrow> kernel \<Rightarrow> kernel option" where
  "script_effect [] k = Some k"
| "script_effect (cmd # cmds) k = Option.bind (nft_effect cmd k) (script_effect cmds)"

record nft_env =
  ne_refuses :: "nft_cmd list \<Rightarrow> kernel \<Rightarrow> bool"
  ne_dry :: bool
  ne_logBlocks :: "bool source"
  ne_forwardPolicy :: "policy source"
  ne_inputPolicy :: "policy source"
  ne_adminAccess :: "admin_access source"
  ne_wanInterfaces :: "string list source"
  ne_wanMgmtClosed :: "bool source"
  ne_edgeContainment :: "bool source"
  ne_wireGuard :: "(bool \<times> int) source"
  ne_ntp :: "(string list \<times> bool) source"
  ne_lists :: bool
  ne_persists :: bool

record nft_state =
  ns_kernel :: kernel
  ns_history :: "kernel list"
  ns_boot :: "kernel option"

text \<open>One command, or a script, given to nft: the new state and whether it was accepted.\<close>

definition nft_run :: "nft_env \<Rightarrow> nft_cmd list \<Rightarrow> nft_state \<Rightarrow> nft_state \<times> bool" where
  "nft_run env cmds st =
     (case (if ne_refuses env cmds (ns_kernel st) then None else script_effect cmds (ns_kernel st)) of
        None \<Rightarrow> (st, False)
      | Some k \<Rightarrow> (st\<lparr>ns_kernel := k, ns_history := ns_history st @ [k]\<rparr>, True))"

subsection \<open>Reading the sources\<close>

definition logBlocks :: "nft_env \<Rightarrow> bool" where
  "logBlocks env = (case ne_logBlocks env of Gives on \<Rightarrow> on | _ \<Rightarrow> False)"

definition forwardPolicy :: "nft_env \<Rightarrow> policy option" where
  "forwardPolicy env = (case ne_forwardPolicy env of Unset \<Rightarrow> Some PolicyAccept | Failing \<Rightarrow> None | Gives p \<Rightarrow> Some p)"

definition inputPolicy :: "nft_env \<Rightarrow> policy option" where
  "inputPolicy env = (case ne_inputPolicy env of Unset \<Rightarrow> Some PolicyAccept | Failing \<Rightarrow> None | Gives p \<Rightarrow> Some p)"

definition adminAccess :: "nft_env \<Rightarrow> admin_access option" where
  "adminAccess env = (case ne_adminAccess env of Gives a \<Rightarrow> Some a | _ \<Rightarrow> None)"

definition wanInterfaces :: "nft_env \<Rightarrow> string list option" where
  "wanInterfaces env = (case ne_wanInterfaces env of Unset \<Rightarrow> Some [] | Failing \<Rightarrow> None | Gives is \<Rightarrow> Some is)"

definition wanMgmtClosed :: "nft_env \<Rightarrow> bool option" where
  "wanMgmtClosed env = (case ne_wanMgmtClosed env of Unset \<Rightarrow> Some False | Failing \<Rightarrow> None | Gives b \<Rightarrow> Some b)"

definition edgeContainment :: "nft_env \<Rightarrow> bool option" where
  "edgeContainment env = (case ne_edgeContainment env of Unset \<Rightarrow> Some False | Failing \<Rightarrow> None | Gives b \<Rightarrow> Some b)"

definition wireGuardInputPort :: "nft_env \<Rightarrow> int option" where
  "wireGuardInputPort env =
     (case ne_wireGuard env of
        Unset \<Rightarrow> Some 0
      | Failing \<Rightarrow> None
      | Gives (enabled, port) \<Rightarrow>
          if \<not> enabled then Some 0 else if port < 1 \<or> 65535 < port then None else Some port)"

definition ntpInputState :: "nft_env \<Rightarrow> (string list \<times> bool) option" where
  "ntpInputState env = (case ne_ntp env of Gives r \<Rightarrow> Some r | _ \<Rightarrow> None)"

definition no_access :: admin_access where
  "no_access = \<lparr>aa_SSHPorts = [], aa_PanelPort = 0, aa_LANNetworks = [], aa_WANIsDHCP = False\<rparr>"

text \<open>What \<open>reconcileInputChain\<close> reads before it touches the chain; \<open>None\<close> when it gives up.\<close>

definition read_input :: "nft_env \<Rightarrow> string list \<Rightarrow> bool \<Rightarrow> input_params option" where
  "read_input env ntpNetworks ntpServing =
     (case inputPolicy env of None \<Rightarrow> None | Some policy \<Rightarrow>
      case (if policy = PolicyDrop then adminAccess env else Some no_access) of None \<Rightarrow> None | Some access0 \<Rightarrow>
      case wanInterfaces env of None \<Rightarrow> None | Some wans0 \<Rightarrow>
      let (wans, access) =
            (if wans0 \<noteq> [] \<and> policy \<noteq> PolicyDrop
             then (case adminAccess env of None \<Rightarrow> ([], access0) | Some a \<Rightarrow> (wans0, a))
             else (wans0, access0)) in
      case wanMgmtClosed env of None \<Rightarrow> None | Some fechada \<Rightarrow>
      case edgeContainment env of None \<Rightarrow> None | Some contencao \<Rightarrow>
      case wireGuardInputPort env of None \<Rightarrow> None | Some port \<Rightarrow>
        Some \<lparr>ip_ntpNetworks = ntpNetworks, ip_ntpServing = ntpServing, ip_policy = policy,
              ip_access = access, ip_wanIfaces = wans, ip_gerenciaFechada = fechada,
              ip_contencao = contencao, ip_wireGuardPorts = [port]\<rparr>)"

subsection \<open>Rebuilding a chain\<close>

datatype rebuild_error = FlushRefused | RulesRefused "string list list"

fun add_rules :: "nft_env \<Rightarrow> string \<Rightarrow> string list list \<Rightarrow> nft_state \<Rightarrow> nft_state \<times> string list list" where
  "add_rules env c [] st = (st, [])"
| "add_rules env c (ts # lines) st =
     (case nft_run env [AddRule c ts] st of
        (st1, ok) \<Rightarrow>
          (case add_rules env c lines st1 of
             (st2, failed) \<Rightarrow> (st2, if ok then failed else ts # failed)))"

definition rebuildChain ::
  "nft_env \<Rightarrow> string \<Rightarrow> string list list \<Rightarrow> nft_state \<Rightarrow> nft_state \<times> rebuild_error option" where
  "rebuildChain env c lines st =
     (case nft_run env [FlushChain c] st of
        (st1, False) \<Rightarrow> (st1, Some FlushRefused)
      | (st1, True) \<Rightarrow>
          (case add_rules env c lines st1 of
             (st2, failed) \<Rightarrow> (st2, if failed = [] then None else Some (RulesRefused failed))))"

definition rebuildChainAtomic ::
  "nft_env \<Rightarrow> string \<Rightarrow> policy \<Rightarrow> string list list \<Rightarrow> nft_state \<Rightarrow> nft_state \<times> rebuild_error option" where
  "rebuildChainAtomic env c policy lines st =
     (case nft_run env (AddChain c (Some policy) # FlushChain c # map (AddRule c) lines) st of
        (st1, ok) \<Rightarrow> (st1, if ok then None else Some (RulesRefused lines)))"

definition reconcileInputChain ::
  "nft_env \<Rightarrow> (fw_group \<times> fw_rule list) list \<Rightarrow> string list \<Rightarrow> bool \<Rightarrow> nft_state \<Rightarrow> nft_state \<times> bool" where
  "reconcileInputChain env groups ntpNetworks ntpServing st =
     (case read_input env ntpNetworks ntpServing of
        None \<Rightarrow> (st, False)
      | Some ip \<Rightarrow>
          (case nft_run env [AddChain InputChain (Some (ip_policy ip))] st of
             (st1, False) \<Rightarrow> (st1, False)
           | (st1, True) \<Rightarrow>
               (case rebuildChain env InputChain (inputChainRules groups ip) st1 of
                  (st2, err) \<Rightarrow> (st2, err = None))))"

subsection \<open>Reconciling the groups\<close>

datatype failure =
    UnsafeChainName string | BadCondition string group_error | GroupIncomplete string rebuild_error
  | ForwardIncomplete rebuild_error | NTPUnreadable | InputIncomplete

datatype nft_error =
    GroupChainNotCreated string | ForwardPolicyUnreadable | ForwardNotDeclared
  | Incomplete "failure list" "string list" | SkippedRules "string list"

definition group_failures :: "fw_group \<Rightarrow> failure list" where
  "group_failures g =
     (if IsSystemGroup (g_Kind g) then []
      else if \<not> validGroupChainName (g_ChainName g) then [UnsafeChainName (g_ID g)]
      else if g_Enabled g
        then (case groupJumpTokens g of Inl e \<Rightarrow> [BadCondition (g_ID g) e] | Inr _ \<Rightarrow> [])
      else [])"

definition valid_groups :: "(fw_group \<times> fw_rule list) list \<Rightarrow> (fw_group \<times> fw_rule list) list" where
  "valid_groups groups =
     filter (\<lambda>gr. IsSystemGroup (g_Kind (fst gr)) \<or> validGroupChainName (g_ChainName (fst gr))) groups"

fun create_chains :: "nft_env \<Rightarrow> (fw_group \<times> fw_rule list) list \<Rightarrow> nft_state \<Rightarrow> nft_state \<times> nft_error option" where
  "create_chains env [] st = (st, None)"
| "create_chains env (gr # grs) st =
     (if IsSystemGroup (g_Kind (fst gr)) then create_chains env grs st
      else case nft_run env [AddChain (g_ChainName (fst gr)) None] st of
        (st1, False) \<Rightarrow> (st1, Some (GroupChainNotCreated (g_ID (fst gr))))
      | (st1, True) \<Rightarrow> create_chains env grs st1)"

fun fill_chains ::
  "nft_env \<Rightarrow> (fw_group \<times> fw_rule list) list \<Rightarrow> nft_state \<Rightarrow> nft_state \<times> failure list \<times> string list" where
  "fill_chains env [] st = (st, [], [])"
| "fill_chains env (gr # grs) st =
     (if IsSystemGroup (g_Kind (fst gr)) then fill_chains env grs st
      else case renderGroupChain gr of
        (lines, skipped) \<Rightarrow>
          (case rebuildChain env (g_ChainName (fst gr)) lines st of
             (st1, err) \<Rightarrow>
               (case fill_chains env grs st1 of
                  (st2, failures, skippedAll) \<Rightarrow>
                    (st2,
                     (case err of None \<Rightarrow> [] | Some e \<Rightarrow> [GroupIncomplete (g_ID (fst gr)) e]) @ failures,
                     skipped @ skippedAll))))"

definition rebuild_forward ::
  "nft_env \<Rightarrow> policy \<Rightarrow> string list list \<Rightarrow> nft_state \<Rightarrow> nft_state \<times> (nft_error + rebuild_error option)" where
  "rebuild_forward env policy lines st =
     (if policy = PolicyDrop
      then (case rebuildChainAtomic env ForwardChain PolicyDrop (ForwardSurvivalRules @ lines) st of
              (st1, err) \<Rightarrow> (st1, Inr err))
      else case nft_run env [AddChain ForwardChain (Some PolicyAccept)] st of
        (st1, False) \<Rightarrow> (st1, Inl ForwardNotDeclared)
      | (st1, True) \<Rightarrow>
          (case rebuildChain env ForwardChain lines st1 of (st2, err) \<Rightarrow> (st2, Inr err)))"

definition listGroupChains :: "nft_env \<Rightarrow> nft_state \<Rightarrow> string list option" where
  "listGroupChains env st =
     (if ne_lists env then Some (filter (prefix GroupChainPrefix) (map fst (ns_kernel st))) else None)"

fun delete_orphans :: "nft_env \<Rightarrow> string set \<Rightarrow> string list \<Rightarrow> nft_state \<Rightarrow> nft_state" where
  "delete_orphans env wanted [] st = st"
| "delete_orphans env wanted (name # names) st =
     (if name \<in> wanted \<or> \<not> validGroupChainName name then delete_orphans env wanted names st
      else delete_orphans env wanted names (fst (nft_run env [DeleteChain name] st)))"

definition nft_Persist :: "nft_env \<Rightarrow> nft_state \<Rightarrow> nft_state" where
  "nft_Persist env st = (if ne_dry env \<or> \<not> ne_persists env then st else st\<lparr>ns_boot := Some (ns_kernel st)\<rparr>)"

definition EnsureAbusersSet :: "nft_env \<Rightarrow> nft_state \<Rightarrow> nft_state \<times> bool" where
  "EnsureAbusersSet env st = nft_run env [AddSet ''abusers''] st"

definition EnsureBlockedMACSet :: "nft_env \<Rightarrow> nft_state \<Rightarrow> nft_state \<times> bool" where
  "EnsureBlockedMACSet env st = nft_run env [AddSet ''blocked_macs''] st"

fun add_sets :: "nft_env \<Rightarrow> string list \<Rightarrow> nft_state \<Rightarrow> nft_state \<times> bool" where
  "add_sets env [] st = (st, True)"
| "add_sets env (s # ss) st =
     (case nft_run env [AddSet s] st of
        (st1, False) \<Rightarrow> (st1, False)
      | (st1, True) \<Rightarrow> add_sets env ss st1)"

definition EnsureDomainStructures :: "nft_env \<Rightarrow> nft_state \<Rightarrow> nft_state \<times> bool" where
  "EnsureDomainStructures env st =
     (if ne_dry env then (st, True) else add_sets env [''dom_blocked'', ''dom_blocked6'', ''dom_wan''] st)"

text \<open>The failures of the three are only logged.\<close>

definition ensure_structures :: "nft_env \<Rightarrow> nft_state \<Rightarrow> nft_state" where
  "ensure_structures env st =
     fst (EnsureDomainStructures env (fst (EnsureBlockedMACSet env (fst (EnsureAbusersSet env st)))))"

definition wanted_chains :: "(fw_group \<times> fw_rule list) list \<Rightarrow> string set" where
  "wanted_chains valid =
     set (map (\<lambda>gr. g_ChainName (fst gr)) (filter (\<lambda>gr. \<not> IsSystemGroup (g_Kind (fst gr))) valid))"

definition reconcile_groups ::
  "nft_env \<Rightarrow> (fw_group \<times> fw_rule list) list \<Rightarrow> nft_state \<Rightarrow> nft_state \<times> nft_error option" where
  "reconcile_groups env groups st =
     (if ne_dry env then (st, None)
      else
        let st0 = ensure_structures env st;
            valid = valid_groups groups;
            failures0 = concat (map (\<lambda>gr. group_failures (fst gr)) groups) in
        case create_chains env valid st0 of
          (st1, Some e) \<Rightarrow> (st1, Some e)
        | (st1, None) \<Rightarrow>
          (case fill_chains env valid st1 of (st2, failures1, skippedAll) \<Rightarrow>
           case forwardPolicy env of
             None \<Rightarrow> (st2, Some ForwardPolicyUnreadable)
           | Some fwPolicy \<Rightarrow>
             (case rebuild_forward env fwPolicy (forwardChainRules valid (logBlocks env)) st2 of
                (st3, Inl e) \<Rightarrow> (st3, Some e)
              | (st3, Inr forwardErr) \<Rightarrow>
                let failures2 = (case forwardErr of None \<Rightarrow> [] | Some e \<Rightarrow> [ForwardIncomplete e]);
                    (st4, inputFailures) =
                      (case ntpInputState env of
                         None \<Rightarrow> (st3, [NTPUnreadable])
                       | Some (nets, serving) \<Rightarrow>
                           (case reconcileInputChain env valid nets serving st3 of
                              (st', ok) \<Rightarrow> (st', if ok then [] else [InputIncomplete])));
                    rebuilt = (forwardErr = None \<and> inputFailures = []);
                    wanted = wanted_chains valid;
                    st5 = (if \<not> rebuilt then st4
                           else case listGroupChains env st4 of
                             None \<Rightarrow> st4
                           | Some live \<Rightarrow> delete_orphans env wanted live st4);
                    st6 = (if rebuilt then nft_Persist env st5 else st5);
                    failures = failures0 @ failures1 @ failures2 @ inputFailures in
                (st6,
                 if failures \<noteq> [] then Some (Incomplete failures skippedAll)
                 else if skippedAll \<noteq> [] then Some (SkippedRules skippedAll)
                 else None))))"

subsection \<open>What a command leaves alone\<close>

lemma map_of_set_chain:
  "map_of (set_chain c kc k) n = (if n = c \<and> map_of k c \<noteq> None then Some kc else map_of k n)"
  by (induction k) (auto simp: set_chain_def)

lemma map_of_append_new:
  "map_of (k @ [(c, kc)]) n = (case map_of k n of None \<Rightarrow> if n = c then Some kc else None | Some x \<Rightarrow> Some x)"
  by (simp add: map_add_def split: option.split)

declare map_of_append [simp del]

lemma map_of_filter_neq: "map_of (filter (\<lambda>(n, _). n \<noteq> c) k) n = (if n = c then None else map_of k n)"
  by (induction k) auto

fun cmd_chain :: "nft_cmd \<Rightarrow> string option" where
  "cmd_chain (AddSet s) = None"
| "cmd_chain (AddChain c pol) = Some c"
| "cmd_chain (FlushChain c) = Some c"
| "cmd_chain (AddRule c ts) = Some c"
| "cmd_chain (DeleteChain c) = Some c"

lemma effect_frame: "nft_effect cmd k = Some k' \<Longrightarrow> cmd_chain cmd \<noteq> Some n \<Longrightarrow> map_of k' n = map_of k n"
  by (cases cmd)
    (auto simp: map_of_set_chain map_of_append_new map_of_filter_neq split: option.splits if_splits)

lemma script_frame:
  "script_effect cmds k = Some k' \<Longrightarrow> \<forall>cmd \<in> set cmds. cmd_chain cmd \<noteq> Some n \<Longrightarrow> map_of k' n = map_of k n"
proof (induction cmds arbitrary: k)
  case (Cons cmd cmds)
  then obtain k1 where "nft_effect cmd k = Some k1" "script_effect cmds k1 = Some k'"
    by (auto split: Option.bind_splits)
  with Cons effect_frame [of cmd k k1 n] show ?case by simp
qed simp

text \<open>Chain \<open>n\<close> is the same in every state the kernel goes through from \<open>st\<close> to \<open>st'\<close>.\<close>

definition steady :: "string \<Rightarrow> nft_state \<Rightarrow> nft_state \<Rightarrow> bool" where
  "steady n st st' \<longleftrightarrow>
     map_of (ns_kernel st') n = map_of (ns_kernel st) n
     \<and> (\<exists>hs. ns_history st' = ns_history st @ hs \<and> (\<forall>k \<in> set hs. map_of k n = map_of (ns_kernel st) n))"

lemma steady_refl [simp, intro]: "steady n st st"
  by (simp add: steady_def)

lemma steady_trans: "steady n st st1 \<Longrightarrow> steady n st1 st2 \<Longrightarrow> steady n st st2"
  by (fastforce simp: steady_def)

lemma steadyD: "steady n st st' \<Longrightarrow> map_of (ns_kernel st') n = map_of (ns_kernel st) n"
  by (simp add: steady_def)

lemma run_frame:
  "nft_run env cmds st = (st', ok) \<Longrightarrow> \<forall>cmd \<in> set cmds. cmd_chain cmd \<noteq> Some n \<Longrightarrow> steady n st st'"
  using script_frame [of cmds "ns_kernel st" _ n]
  by (auto simp: nft_run_def steady_def split: option.splits if_splits)

lemma run_True:
  "nft_run env cmds st = (st', True) \<Longrightarrow> script_effect cmds (ns_kernel st) = Some (ns_kernel st')"
  by (auto simp: nft_run_def split: option.splits if_splits)

lemma run_True_one: "nft_run env [cmd] st = (st', True) \<Longrightarrow> nft_effect cmd (ns_kernel st) = Some (ns_kernel st')"
  using run_True [of env "[cmd]" st st'] by (auto split: Option.bind_splits)

lemma effect_AddChain:
  "nft_effect (AddChain c (Some pol)) k = Some k' \<Longrightarrow> \<exists>kc. map_of k' c = Some kc \<and> kc_policy kc = Some pol"
  by (auto simp: map_of_set_chain map_of_append_new split: option.splits)

lemma effect_AddRule:
  "nft_effect (AddRule c ts) k = Some k' \<Longrightarrow> map_of k c = Some kc \<Longrightarrow>
     map_of k' c = Some (kc\<lparr>kc_rules := kc_rules kc @ [ts]\<rparr>)"
  by (auto simp: map_of_set_chain split: if_splits)

lemma run_False: "nft_run env cmds st = (st', False) \<Longrightarrow> st' = st"
  by (auto simp: nft_run_def split: option.splits if_splits)

lemma run_boot: "nft_run env cmds st = (st', ok) \<Longrightarrow> ns_boot st' = ns_boot st"
  by (auto simp: nft_run_def split: option.splits if_splits)

lemma add_rules_frame:
  "add_rules env c lines st = (st', failed) \<Longrightarrow> n \<noteq> c \<Longrightarrow> steady n st st'"
proof (induction lines arbitrary: st st' failed)
  case (Cons ts lines)
  obtain st1 ok where r: "nft_run env [AddRule c ts] st = (st1, ok)" by fastforce
  have s: "steady n st st1" using Cons.prems(2) by (intro run_frame [OF r]) simp
  obtain st2 failed2 where a: "add_rules env c lines st1 = (st2, failed2)" by fastforce
  have "st2 = st'" using Cons.prems(1) r a by (auto split: if_splits)
  with steady_trans [OF s Cons.IH [OF a Cons.prems(2)]] show ?case by simp
qed simp

lemma add_rules_ok:
  assumes "add_rules env c lines st = (st', [])" "map_of (ns_kernel st) c = Some kc"
  shows "map_of (ns_kernel st') c = Some (kc\<lparr>kc_rules := kc_rules kc @ lines\<rparr>)"
  using assms
proof (induction lines arbitrary: st kc)
  case (Cons ts lines)
  obtain st1 ok where r: "nft_run env [AddRule c ts] st = (st1, ok)" by fastforce
  with Cons.prems(1) have rest: "add_rules env c lines st1 = (st', [])" and ok
    by (auto split: prod.splits if_splits)
  have "nft_effect (AddRule c ts) (ns_kernel st) = Some (ns_kernel st1)"
    using r \<open>ok\<close> run_True_one [of env "AddRule c ts" st st1] by simp
  from effect_AddRule [OF this Cons.prems(2)]
  have "map_of (ns_kernel st1) c = Some (kc\<lparr>kc_rules := kc_rules kc @ [ts]\<rparr>)" .
  from Cons.IH [OF rest this] show ?case by simp
qed simp

lemma rebuildChain_frame:
  assumes "rebuildChain env c lines st = (st', err)" "n \<noteq> c"
  shows "steady n st st'"
proof -
  obtain st1 ok where r: "nft_run env [FlushChain c] st = (st1, ok)" by fastforce
  have 1: "steady n st st1" using run_frame [OF r, of n] assms(2) by simp
  obtain st2 failed where a: "add_rules env c lines st1 = (st2, failed)" by fastforce
  have 2: "steady n st1 st2" using add_rules_frame [OF a assms(2)] .
  show ?thesis using assms(1) r a 1 steady_trans [OF 1 2] by (cases ok) (auto simp: rebuildChain_def)
qed

lemma rebuildChain_ok:
  assumes "rebuildChain env c lines st = (st', None)"
  shows "\<exists>kc. map_of (ns_kernel st) c = Some kc \<and> map_of (ns_kernel st') c = Some (kc\<lparr>kc_rules := lines\<rparr>)"
proof -
  obtain st1 ok where r: "nft_run env [FlushChain c] st = (st1, ok)" by fastforce
  with assms have ok: "nft_run env [FlushChain c] st = (st1, True)"
    by (cases ok) (auto simp: rebuildChain_def)
  obtain st2 failed where a: "add_rules env c lines st1 = (st2, failed)" by fastforce
  with assms ok have a: "add_rules env c lines st1 = (st', [])"
    by (auto simp: rebuildChain_def split: if_splits)
  from run_True_one [OF ok] obtain kc where kc: "map_of (ns_kernel st) c = Some kc"
    and k1: "ns_kernel st1 = set_chain c (kc\<lparr>kc_rules := []\<rparr>) (ns_kernel st)"
    by auto
  have "map_of (ns_kernel st1) c = Some (kc\<lparr>kc_rules := []\<rparr>)"
    unfolding k1 by (simp add: map_of_set_chain kc)
  with add_rules_ok [OF a] kc show ?thesis by auto
qed

lemma script_add_rules:
  assumes "script_effect (map (AddRule c) lines) k = Some k'" "map_of k c = Some kc"
  shows "map_of k' c = Some (kc\<lparr>kc_rules := kc_rules kc @ lines\<rparr>)"
  using assms
proof (induction lines arbitrary: k kc)
  case (Cons ts lines)
  then have "script_effect (map (AddRule c) lines) (set_chain c (kc\<lparr>kc_rules := kc_rules kc @ [ts]\<rparr>) k) = Some k'"
    by (auto split: if_splits)
  from Cons.IH [OF this] Cons.prems(2) show ?case by (simp add: map_of_set_chain)
qed simp

lemma rebuildChainAtomic_ok:
  assumes "rebuildChainAtomic env c pol lines st = (st', None)"
  shows "map_of (ns_kernel st') c = Some \<lparr>kc_policy = Some pol, kc_rules = lines\<rparr>"
proof -
  obtain st1 ok where r: "nft_run env (AddChain c (Some pol) # FlushChain c # map (AddRule c) lines) st = (st1, ok)"
    by fastforce
  with assms have r: "nft_run env (AddChain c (Some pol) # FlushChain c # map (AddRule c) lines) st = (st', True)"
    by (auto simp: rebuildChainAtomic_def split: if_splits)
  obtain k1 where k1: "nft_effect (AddChain c (Some pol)) (ns_kernel st) = Some k1"
    and s1: "script_effect (FlushChain c # map (AddRule c) lines) k1 = Some (ns_kernel st')"
    using run_True [OF r] by (auto split: Option.bind_splits)
  have "\<exists>kc. map_of k1 c = Some kc \<and> kc_policy kc = Some pol"
    using k1 by (auto simp: map_of_set_chain map_of_append_new split: option.splits)
  then obtain kc where kc: "map_of k1 c = Some kc" "kc_policy kc = Some pol" by blast
  then have "script_effect (map (AddRule c) lines) (set_chain c (kc\<lparr>kc_rules := []\<rparr>) k1) = Some (ns_kernel st')"
    using s1 by simp
  from script_add_rules [OF this] kc show ?thesis
    by (simp add: map_of_set_chain)
qed

lemma rebuildChainAtomic_frame:
  "rebuildChainAtomic env c pol lines st = (st', err) \<Longrightarrow> n \<noteq> c \<Longrightarrow>
     steady n st st'"
  by (auto simp: rebuildChainAtomic_def split: prod.splits dest!: run_frame [where n = n])


subsection \<open>The pass over the groups\<close>

definition has_chain :: "fw_group \<times> fw_rule list \<Rightarrow> bool" where
  "has_chain gr \<longleftrightarrow> \<not> IsSystemGroup (g_Kind (fst gr))"

lemma group_chain_names: "validGroupChainName c \<Longrightarrow> c \<noteq> ForwardChain \<and> c \<noteq> InputChain"
  by (auto simp: validGroupChainName_def GroupChainPrefix_def ForwardChain_def InputChain_def)

lemma create_chains_frame:
  "create_chains env grs st = (st', err) \<Longrightarrow> \<forall>gr \<in> set grs. has_chain gr \<longrightarrow> g_ChainName (fst gr) \<noteq> n \<Longrightarrow>
     steady n st st'"
proof (induction grs arbitrary: st st')
  case (Cons gr grs)
  show ?case
  proof (cases "has_chain gr")
    case True
    obtain st1 ok where r: "nft_run env [AddChain (g_ChainName (fst gr)) None] st = (st1, ok)" by fastforce
    have "steady n st st1"
      using run_frame [OF r, of n] True Cons.prems(2) by simp
    with Cons r True show ?thesis
      by (cases ok) (auto simp: has_chain_def intro: steady_trans)
  next
    case False
    with Cons show ?thesis by (simp add: has_chain_def)
  qed
qed simp

lemma fill_chains_frame:
  "fill_chains env grs st = (st', fs, sk) \<Longrightarrow> \<forall>gr \<in> set grs. has_chain gr \<longrightarrow> g_ChainName (fst gr) \<noteq> n \<Longrightarrow>
     steady n st st'"
proof (induction grs arbitrary: st st' fs sk)
  case (Cons gr grs)
  obtain lines skipped where rd: "renderGroupChain gr = (lines, skipped)" by fastforce
  obtain st1 err where r: "rebuildChain env (g_ChainName (fst gr)) lines st = (st1, err)" by fastforce
  obtain st2 fs2 sk2 where f: "fill_chains env grs st1 = (st2, fs2, sk2)" by (metis prod_cases3)
  show ?case
  proof (cases "has_chain gr")
    case True
    have 1: "steady n st st1"
      using True Cons.prems(2) by (intro rebuildChain_frame [OF r]) auto
    have 2: "steady n st1 st2"
      using Cons.IH [OF f] Cons.prems(2) by simp
    show ?thesis using Cons.prems(1) True rd r f steady_trans [OF 1 2] by (simp add: has_chain_def)
  next
    case False
    with Cons show ?thesis by (simp add: has_chain_def)
  qed
qed simp

lemma fill_chains_ok:
  assumes "fill_chains env grs st = (st', [], sk)"
    and "distinct (map (\<lambda>gr. g_ChainName (fst gr)) (filter has_chain grs))"
    and "gr \<in> set grs" "has_chain gr"
  shows "\<exists>kc. map_of (ns_kernel st') (g_ChainName (fst gr)) = Some kc \<and> kc_rules kc = fst (renderGroupChain gr)"
  using assms
proof (induction grs arbitrary: st sk)
  case (Cons g grs)
  obtain lines skipped where rd: "renderGroupChain g = (lines, skipped)" by fastforce
  obtain st1 err where r: "rebuildChain env (g_ChainName (fst g)) lines st = (st1, err)" by fastforce
  obtain st2 fs2 sk2 where f: "fill_chains env grs st1 = (st2, fs2, sk2)" by (metis prod_cases3)
  show ?case
  proof (cases "has_chain g")
    case True
    with Cons.prems(1) rd r f have err: "err = None" and st2: "st2 = st'" and fs: "fs2 = []"
      by (auto simp: has_chain_def split: option.splits)
    note f = f [unfolded st2 fs]
    have d: "distinct (map (\<lambda>gr. g_ChainName (fst gr)) (filter has_chain grs))"
      and new: "\<forall>gr \<in> set grs. has_chain gr \<longrightarrow> g_ChainName (fst gr) \<noteq> g_ChainName (fst g)"
      using Cons.prems(2) True by (auto simp: image_iff) (metis fst_conv)
    show ?thesis
    proof (cases "gr \<in> set grs")
      case True
      with Cons.IH [OF f d] Cons.prems(4) show ?thesis by blast
    next
      case False
      then have "gr = g" using Cons.prems(3) by simp
      have "map_of (ns_kernel st') (g_ChainName (fst g)) = map_of (ns_kernel st1) (g_ChainName (fst g))"
        by (rule steadyD [OF fill_chains_frame [OF f new]])
      moreover obtain kc where "map_of (ns_kernel st1) (g_ChainName (fst g)) = Some (kc\<lparr>kc_rules := lines\<rparr>)"
        using rebuildChain_ok [OF r [unfolded err]] by blast
      ultimately show ?thesis using \<open>gr = g\<close> rd by simp
    qed
  next
    case False
    with Cons show ?thesis by (auto simp: has_chain_def)
  qed
qed simp

lemma delete_orphans_frame:
  "n \<in> wanted \<or> \<not> validGroupChainName n \<Longrightarrow>
     steady n st (delete_orphans env wanted names st)"
proof (induction names arbitrary: st)
  case (Cons name names)
  show ?case
  proof (cases "name \<in> wanted \<or> \<not> validGroupChainName name")
    case False
    then have "n \<noteq> name" using Cons.prems by blast
    obtain st1 ok where r: "nft_run env [DeleteChain name] st = (st1, ok)" by fastforce
    have "steady n st st1"
      using run_frame [OF r, of n] \<open>n \<noteq> name\<close> by simp
    from steady_trans [OF this Cons.IH [OF Cons.prems]] r False show ?thesis by simp
  qed (use Cons in auto)
qed simp

lemma rebuild_forward_ok:
  assumes "rebuild_forward env pol lines st = (st', Inr None)"
  shows "map_of (ns_kernel st') ForwardChain = Some \<lparr>kc_policy = Some pol,
    kc_rules = (if pol = PolicyDrop then ForwardSurvivalRules else []) @ lines\<rparr>"
proof (cases "pol = PolicyDrop")
  case True
  then have "rebuildChainAtomic env ForwardChain PolicyDrop (ForwardSurvivalRules @ lines) st = (st', None)"
    using assms by (auto simp: rebuild_forward_def split: prod.splits)
  from rebuildChainAtomic_ok [OF this] True show ?thesis by simp
next
  case False
  then have acc: "pol = PolicyAccept" by (cases pol) simp_all
  obtain st1 ok where r: "nft_run env [AddChain ForwardChain (Some PolicyAccept)] st = (st1, ok)" by fastforce
  with assms False have r: "nft_run env [AddChain ForwardChain (Some PolicyAccept)] st = (st1, True)"
    and b: "rebuildChain env ForwardChain lines st1 = (st', None)"
    by (auto simp: rebuild_forward_def split: prod.splits bool.splits)
  have "\<exists>kc. map_of (ns_kernel st1) ForwardChain = Some kc \<and> kc_policy kc = Some PolicyAccept"
    by (rule effect_AddChain) (rule run_True_one [OF r])
  with rebuildChain_ok [OF b] acc show ?thesis by auto
qed

lemma rebuild_forward_frame:
  assumes "rebuild_forward env pol lines st = (st', r)" "n \<noteq> ForwardChain"
  shows "steady n st st'"
proof (cases "pol = PolicyDrop")
  case True
  then show ?thesis
    using assms rebuildChainAtomic_frame [of env ForwardChain PolicyDrop "ForwardSurvivalRules @ lines" st]
    by (auto simp: rebuild_forward_def split: prod.splits)
next
  case False
  obtain st1 ok where a: "nft_run env [AddChain ForwardChain (Some PolicyAccept)] st = (st1, ok)" by fastforce
  obtain st2 err where b: "rebuildChain env ForwardChain lines st1 = (st2, err)" by fastforce
  have "steady n st st1" using run_frame [OF a, of n] assms(2) by simp
  moreover have "steady n st1 st2"
    by (rule rebuildChain_frame [OF b assms(2)])
  ultimately show ?thesis
    using assms(1) False a b by (cases ok) (auto simp: rebuild_forward_def intro: steady_trans)
qed

lemma reconcileInputChain_ok:
  assumes "reconcileInputChain env groups nets serving st = (st', True)"
  shows "\<exists>ip. read_input env nets serving = Some ip \<and>
    map_of (ns_kernel st') InputChain = Some \<lparr>kc_policy = Some (ip_policy ip), kc_rules = inputChainRules groups ip\<rparr>"
proof -
  obtain ip where ip: "read_input env nets serving = Some ip"
    using assms by (auto simp: reconcileInputChain_def split: option.splits)
  obtain st1 ok where a: "nft_run env [AddChain InputChain (Some (ip_policy ip))] st = (st1, ok)" by fastforce
  with assms ip have a: "nft_run env [AddChain InputChain (Some (ip_policy ip))] st = (st1, True)"
    and b: "rebuildChain env InputChain (inputChainRules groups ip) st1 = (st', None)"
    by (auto simp: reconcileInputChain_def split: prod.splits bool.splits)
  have "\<exists>kc. map_of (ns_kernel st1) InputChain = Some kc \<and> kc_policy kc = Some (ip_policy ip)"
    by (rule effect_AddChain) (rule run_True_one [OF a])
  with rebuildChain_ok [OF b] ip show ?thesis by auto
qed

lemma reconcileInputChain_frame:
  assumes "reconcileInputChain env groups nets serving st = (st', ok)" "n \<noteq> InputChain"
  shows "steady n st st'"
proof (cases "read_input env nets serving")
  case (Some ip)
  obtain st1 k where a: "nft_run env [AddChain InputChain (Some (ip_policy ip))] st = (st1, k)" by fastforce
  obtain st2 err where b: "rebuildChain env InputChain (inputChainRules groups ip) st1 = (st2, err)" by fastforce
  have "steady n st st1" using run_frame [OF a, of n] assms(2) by simp
  moreover have "steady n st1 st2"
    by (rule rebuildChain_frame [OF b assms(2)])
  ultimately show ?thesis
    using assms(1) Some a b by (cases k) (auto simp: reconcileInputChain_def intro: steady_trans)
qed (use assms in \<open>simp add: reconcileInputChain_def\<close>)

end
