(* ===== verification/GroupPass.thy ===== *)
theory GroupPass imports GroupReconcile begin

text \<open>
  What one whole pass of \<open>ReconcileGroupsFrom\<close> leaves behind (\<open>internal/nftables/reconcile_groups.go\<close>,
  \<open>reconcile.go\<close>, \<open>policy.go\<close>): the stages of a pass, the persistence of its result, the decisions of the
  chains it built, and the states the kernel goes through on the way.
\<close>

subsection \<open>The pass as a whole\<close>

definition kernel_chains :: "kernel \<Rightarrow> chains" where
  "kernel_chains k c = map_option kc_rules (map_of k c)"

definition kernel_policy :: "kernel \<Rightarrow> string \<Rightarrow> policy" where
  "kernel_policy k c =
     (case map_of k c of Some kc \<Rightarrow> (case kc_policy kc of Some p \<Rightarrow> p | None \<Rightarrow> PolicyAccept) | None \<Rightarrow> PolicyAccept)"

text \<open>What the kernel does with a packet at a hook.\<close>

definition live_decision :: "kernel \<Rightarrow> packet \<Rightarrow> string \<Rightarrow> decision" where
  "live_decision k p base = decide (kernel_chains k) (kernel_policy k base) p base"

definition forward_chain_of :: "nft_env \<Rightarrow> policy \<Rightarrow> (fw_group \<times> fw_rule list) list \<Rightarrow> kchain" where
  "forward_chain_of env pol groups = \<lparr>kc_policy = Some pol,
     kc_rules = (if pol = PolicyDrop then ForwardSurvivalRules else []) @ forwardChainRules groups (logBlocks env)\<rparr>"

definition input_chain_of :: "input_params \<Rightarrow> (fw_group \<times> fw_rule list) list \<Rightarrow> kchain" where
  "input_chain_of ip groups = \<lparr>kc_policy = Some (ip_policy ip), kc_rules = inputChainRules groups ip\<rparr>"

lemma set_run: "steady n st (fst (nft_run env [AddSet s] st)) \<and> ns_boot (fst (nft_run env [AddSet s] st)) = ns_boot st"
proof -
  obtain st1 ok where r: "nft_run env [AddSet s] st = (st1, ok)" by fastforce
  with run_frame [OF r, of n] run_boot [OF r] show ?thesis by simp
qed

lemma add_sets_frame: "steady n st (fst (add_sets env ss st)) \<and> ns_boot (fst (add_sets env ss st)) = ns_boot st"
proof (induction ss arbitrary: st)
  case (Cons s ss)
  obtain st1 ok where r: "nft_run env [AddSet s] st = (st1, ok)" by fastforce
  have s: "steady n st st1" "ns_boot st1 = ns_boot st" using set_run [of n st env s] r by simp_all
  have "fst (add_sets env (s # ss) st) = (if ok then fst (add_sets env ss st1) else st1)"
    using r by (cases ok) simp_all
  with s Cons.IH [of st1] steady_trans [OF s(1)] show ?case by auto
qed simp

lemma ensure_frame:
  "steady n st (ensure_structures env st) \<and> ns_boot (ensure_structures env st) = ns_boot st"
proof -
  define s1 s2 where "s1 = fst (nft_run env [AddSet ''abusers''] st)"
    and "s2 = fst (nft_run env [AddSet ''blocked_macs''] s1)"
  have "steady n st s1 \<and> ns_boot s1 = ns_boot st" unfolding s1_def by (rule set_run)
  moreover have "steady n s1 s2 \<and> ns_boot s2 = ns_boot s1" unfolding s2_def by (rule set_run)
  moreover have "steady n s2 (ensure_structures env st) \<and> ns_boot (ensure_structures env st) = ns_boot s2"
    using add_sets_frame [of n s2 env]
    by (simp add: ensure_structures_def EnsureAbusersSet_def EnsureBlockedMACSet_def EnsureDomainStructures_def
        s1_def s2_def del: add_sets.simps)
  ultimately show ?thesis using steady_trans by metis
qed

lemma add_rules_boot: "add_rules env c lines st = (st', failed) \<Longrightarrow> ns_boot st' = ns_boot st"
  by (induction lines arbitrary: st st' failed) (auto split: prod.splits dest!: run_boot)

lemma rebuildChain_boot: "rebuildChain env c lines st = (st', err) \<Longrightarrow> ns_boot st' = ns_boot st"
  by (auto simp: rebuildChain_def split: prod.splits bool.splits dest!: run_boot add_rules_boot)

lemma create_chains_boot: "create_chains env grs st = (st', err) \<Longrightarrow> ns_boot st' = ns_boot st"
  by (induction grs arbitrary: st) (auto split: prod.splits bool.splits if_splits dest!: run_boot)

lemma fill_chains_boot: "fill_chains env grs st = (st', fs, sk) \<Longrightarrow> ns_boot st' = ns_boot st"
  by (induction grs arbitrary: st st' fs sk) (auto split: prod.splits if_splits dest!: rebuildChain_boot)

lemma rebuild_forward_boot: "rebuild_forward env pol lines st = (st', r) \<Longrightarrow> ns_boot st' = ns_boot st"
  by (auto simp: rebuild_forward_def rebuildChainAtomic_def split: prod.splits bool.splits if_splits
      dest!: run_boot rebuildChain_boot)

lemma reconcileInputChain_boot: "reconcileInputChain env grs nets serving st = (st', r) \<Longrightarrow> ns_boot st' = ns_boot st"
  by (auto simp: reconcileInputChain_def split: prod.splits bool.splits option.splits
      dest!: run_boot rebuildChain_boot)

lemma delete_orphans_boot: "ns_boot (delete_orphans env wanted names st) = ns_boot st"
proof (induction names arbitrary: st)
  case (Cons name names)
  then show ?case using run_boot [of env "[DeleteChain name]" st] by (cases "nft_run env [DeleteChain name] st") auto
qed simp

lemma create_chains_err: "create_chains env grs st = (st', Some e) \<Longrightarrow> \<exists>gid. e = GroupChainNotCreated gid"
  by (induction grs arbitrary: st) (auto split: prod.splits bool.splits if_splits)

lemma group_failures_Nil: "group_failures (fst gr) = [] \<Longrightarrow>
    IsSystemGroup (g_Kind (fst gr)) \<or> validGroupChainName (g_ChainName (fst gr))"
  by (auto simp: group_failures_def split: if_splits)

lemma valid_groups_all:
  "concat (map (\<lambda>gr. group_failures (fst gr)) groups) = [] \<Longrightarrow> valid_groups groups = groups"
  unfolding valid_groups_def using group_failures_Nil by (intro filter_True) fastforce

lemma valid_groups_valid: "gr \<in> set (valid_groups groups) \<Longrightarrow> has_chain gr \<Longrightarrow> validGroupChainName (g_ChainName (fst gr))"
  by (auto simp: valid_groups_def has_chain_def)

lemma wanted_chains_iff: "n \<in> wanted_chains grs \<longleftrightarrow> (\<exists>gr \<in> set grs. has_chain gr \<and> g_ChainName (fst gr) = n)"
  by (force simp: wanted_chains_def has_chain_def)

lemma structural_not_wanted:
  "ForwardChain \<notin> wanted_chains (valid_groups groups)" "InputChain \<notin> wanted_chains (valid_groups groups)"
  using group_chain_names valid_groups_valid unfolding wanted_chains_iff by blast+

lemma structural_names: "ForwardChain \<noteq> InputChain" "\<not> validGroupChainName ForwardChain" "\<not> validGroupChainName InputChain"
  using group_chain_names by (auto simp: ForwardChain_def InputChain_def)

text \<open>A pass that gets as far as the end: its stages.\<close>

lemma reconcile_stages:
  assumes "reconcile_groups env groups st = (st', r)" "\<not> ne_dry env"
  obtains
    (early) e where "r = Some e" "\<And>fs sk. e \<noteq> Incomplete fs sk" "\<And>sk. e \<noteq> SkippedRules sk" "ns_boot st' = ns_boot st"
      "forwardPolicy env = Some PolicyDrop \<Longrightarrow> steady ForwardChain st st'"
  | (whole) st1 st2 st3 st4 fs1 skipped pol ferr infail where
      "create_chains env (valid_groups groups) (ensure_structures env st) = (st1, None)"
      "fill_chains env (valid_groups groups) st1 = (st2, fs1, skipped)"
      "forwardPolicy env = Some pol"
      "rebuild_forward env pol (forwardChainRules (valid_groups groups) (logBlocks env)) st2 = (st3, Inr ferr)"
      "(case ntpInputState env of
          None \<Rightarrow> (st3, [NTPUnreadable])
        | Some (nets, serving) \<Rightarrow>
            (case reconcileInputChain env (valid_groups groups) nets serving st3 of
               (st', ok) \<Rightarrow> (st', if ok then [] else [InputIncomplete]))) = (st4, infail)"
      "st' = (if ferr = None \<and> infail = []
       then nft_Persist env
              (case listGroupChains env st4 of
                 None \<Rightarrow> st4
               | Some live \<Rightarrow> delete_orphans env (wanted_chains (valid_groups groups)) live st4)
       else st4)"
      "r = (let failures = concat (map (\<lambda>gr. group_failures (fst gr)) groups) @ fs1
               @ (case ferr of None \<Rightarrow> [] | Some e \<Rightarrow> [ForwardIncomplete e]) @ infail in
            if failures \<noteq> [] then Some (Incomplete failures skipped)
            else if skipped \<noteq> [] then Some (SkippedRules skipped) else None)"
proof -
  obtain st1 e1 where c: "create_chains env (valid_groups groups) (ensure_structures env st) = (st1, e1)" by fastforce
  have b1: "ns_boot st1 = ns_boot st" using create_chains_boot [OF c] ensure_frame by simp
  show thesis
  proof (cases e1)
    case (Some e)
    obtain gid where "e = GroupChainNotCreated gid" using create_chains_err [OF c [unfolded Some]] by blast
    moreover have "steady ForwardChain st st1"
      using create_chains_frame [OF c, of ForwardChain] valid_groups_valid group_chain_names ensure_frame
      by (metis steady_trans)
    ultimately show thesis
      using assms c Some b1 by (intro early [of e]) (auto simp: reconcile_groups_def Let_def)
  next
    case None
    obtain st2 fs1 skipped where f: "fill_chains env (valid_groups groups) st1 = (st2, fs1, skipped)" by (metis prod_cases3)
    have b2: "ns_boot st2 = ns_boot st" using fill_chains_boot [OF f] b1 by simp
    show thesis
    proof (cases "forwardPolicy env")
      case None
      then show thesis
        using assms c f \<open>e1 = None\<close> b2 by (intro early [of ForwardPolicyUnreadable]) (auto simp: reconcile_groups_def Let_def)
    next
      case (Some pol)
      obtain st3 r3 where fw: "rebuild_forward env pol (forwardChainRules (valid_groups groups) (logBlocks env)) st2 = (st3, r3)"
        by fastforce
      have b3: "ns_boot st3 = ns_boot st" using rebuild_forward_boot [OF fw] b2 by simp
      show thesis
      proof (cases r3)
        case (Inl e)
        have "e = ForwardNotDeclared"
          using fw Inl by (auto simp: rebuild_forward_def split: if_splits prod.splits bool.splits)
        moreover have "pol \<noteq> PolicyDrop"
          using fw Inl by (auto simp: rebuild_forward_def split: if_splits prod.splits)
        ultimately show thesis
          using assms c f fw Inl \<open>e1 = None\<close> \<open>forwardPolicy env = Some pol\<close> b3
          by (intro early [of e]) (auto simp: reconcile_groups_def Let_def)
      next
        case (Inr ferr)
        obtain st4 infail where inp: "(case ntpInputState env of
              None \<Rightarrow> (st3, [NTPUnreadable])
            | Some (nets, serving) \<Rightarrow>
                (case reconcileInputChain env (valid_groups groups) nets serving st3 of
                   (st', ok) \<Rightarrow> (st', if ok then [] else [InputIncomplete]))) = (st4, infail)" by fastforce
        show thesis
          using assms \<open>e1 = None\<close> \<open>forwardPolicy env = Some pol\<close>
          by (intro whole [OF c [unfolded \<open>e1 = None\<close>] f \<open>forwardPolicy env = Some pol\<close> fw [unfolded Inr] inp])
            (auto simp: reconcile_groups_def Let_def c f fw Inr inp
              simp del: append_is_Nil_conv Nil_is_append_conv concat_eq_Nil_conv)
      qed
    qed
  qed
qed


text \<open>The boot file never gets a half-built firewall: a pass changes it only when the forward
  and the input chain were both rebuilt in full by that pass, and then it holds exactly the
  kernel's state at the end of the pass.
\<close>
theorem only_rebuilt_firewalls_are_persisted:
  assumes "reconcile_groups env groups st = (st', r)" "ns_boot st' \<noteq> ns_boot st"
  shows "ns_boot st' = Some (ns_kernel st')
    \<and> (\<exists>pol. forwardPolicy env = Some pol
         \<and> map_of (ns_kernel st') ForwardChain = Some (forward_chain_of env pol (valid_groups groups)))
    \<and> (\<exists>nets serving ip. ntpInputState env = Some (nets, serving) \<and> read_input env nets serving = Some ip
         \<and> map_of (ns_kernel st') InputChain = Some (input_chain_of ip (valid_groups groups)))"
proof -
  have "\<not> ne_dry env" using assms by (auto simp: reconcile_groups_def)
  from assms(1) this show ?thesis
  proof (cases rule: reconcile_stages)
    case (early e)
    with assms(2) show ?thesis by simp
  next
    case (whole st1 st2 st3 st4 fs1 skipped pol ferr infail)
    have b3: "ns_boot st3 = ns_boot st"
      using create_chains_boot [OF whole(1)] fill_chains_boot [OF whole(2)] rebuild_forward_boot [OF whole(4)]
        ensure_frame by simp
    have b4: "ns_boot st4 = ns_boot st"
      using whole(5) b3 reconcileInputChain_boot by (fastforce split: option.splits prod.splits)
    have ok: "ferr = None" "infail = []" using whole(6) assms(2) b4 by (auto split: if_splits)
    obtain nets serving where ntp: "ntpInputState env = Some (nets, serving)"
      and inp: "reconcileInputChain env (valid_groups groups) nets serving st3 = (st4, True)"
      using whole(5) ok(2) by (auto split: option.splits prod.splits if_splits)
    obtain ip where ip: "read_input env nets serving = Some ip"
      "map_of (ns_kernel st4) InputChain = Some (input_chain_of ip (valid_groups groups))"
      using reconcileInputChain_ok [OF inp] by (auto simp: input_chain_of_def)
    have fwd: "map_of (ns_kernel st4) ForwardChain = Some (forward_chain_of env pol (valid_groups groups))"
      using rebuild_forward_ok [OF whole(4) [unfolded ok(1)]]
        steadyD [OF reconcileInputChain_frame [OF inp structural_names(1)]]
      by (simp add: forward_chain_of_def)
    define st5 where "st5 = (case listGroupChains env st4 of None \<Rightarrow> st4
        | Some live \<Rightarrow> delete_orphans env (wanted_chains (valid_groups groups)) live st4)"
    have st': "st' = nft_Persist env st5" using whole(6) ok by (simp add: st5_def)
    have "steady n st4 st5" if "\<not> validGroupChainName n" for n
      unfolding st5_def using that by (auto split: option.split intro: delete_orphans_frame)
    then have k5: "map_of (ns_kernel st5) n = map_of (ns_kernel st4) n" if "\<not> validGroupChainName n" for n
      using that steadyD by blast
    have b5: "ns_boot st5 = ns_boot st" unfolding st5_def using b4 delete_orphans_boot by (auto split: option.split)
    have "ns_boot st' = Some (ns_kernel st')" "ns_kernel st' = ns_kernel st5"
      using st' assms(2) b5 by (auto simp: nft_Persist_def split: if_splits)
    with k5 fwd ip ntp whole(3) structural_names show ?thesis by auto
  qed
qed

text \<open>C24. After a pass without failures the firewall does what the rows say.  If reconciliation
  returns success (or only reports stored rules it had to skip), and no two groups share a
  chain, then every packet is decided at the forward hook by the groups in their order and
  the configured policy, and at the input hook by the configuration read during the pass.
\<close>
theorem reconciled_firewall_does_what_the_rows_say:
  assumes "reconcile_groups env groups st = (st', r)" "r = None \<or> (\<exists>ids. r = Some (SkippedRules ids))"
    and "\<not> ne_dry env" and "distinct (map (\<lambda>gr. g_ChainName (fst gr)) (filter has_chain groups))"
  shows "\<exists>pol nets serving ip. forwardPolicy env = Some pol \<and> ntpInputState env = Some (nets, serving)
    \<and> read_input env nets serving = Some ip
    \<and> (\<forall>p. live_decision (ns_kernel st') p ForwardChain =
          (if pol = PolicyDrop \<and> (p ''ct state'' ''established,related'' \<or> p ''ct status'' ''dnat'') then Accepted
           else case forward_verdict p groups of Some d \<Rightarrow> d | None \<Rightarrow> policy_decision pol))
    \<and> (\<forall>p. live_decision (ns_kernel st') p InputChain =
          (case input_verdict p groups ip of Some d \<Rightarrow> d | None \<Rightarrow> policy_decision (ip_policy ip)))"
  using assms(1,3)
proof (cases rule: reconcile_stages)
  case (early e)
  with assms(2) show ?thesis by auto
next
  case (whole st1 st2 st3 st4 fs1 skipped pol ferr infail)
  have none: "concat (map (\<lambda>gr. group_failures (fst gr)) groups) = []" "fs1 = []" "ferr = None" "infail = []"
    using whole(7) assms(2) by (auto simp: Let_def split: if_splits option.splits)
  note vg = valid_groups_all [OF none(1)]
  obtain nets serving where ntp: "ntpInputState env = Some (nets, serving)"
    and inp: "reconcileInputChain env groups nets serving st3 = (st4, True)"
    using whole(5) none(4) by (auto simp: vg split: option.splits prod.splits if_splits)
  obtain ip where ip: "read_input env nets serving = Some ip"
    "map_of (ns_kernel st4) InputChain = Some (input_chain_of ip groups)"
    using reconcileInputChain_ok [OF inp] by (auto simp: input_chain_of_def)
  have fwd: "map_of (ns_kernel st4) ForwardChain = Some (forward_chain_of env pol groups)"
    using rebuild_forward_ok [OF whole(4) [unfolded none(3)]]
      steadyD [OF reconcileInputChain_frame [OF inp structural_names(1)]]
    by (simp add: forward_chain_of_def vg)
  define st5 where "st5 = (case listGroupChains env st4 of None \<Rightarrow> st4
      | Some live \<Rightarrow> delete_orphans env (wanted_chains groups) live st4)"
  have st': "st' = nft_Persist env st5" using whole(6) [unfolded vg] none(3,4) by (simp add: st5_def)
  have s5: "map_of (ns_kernel st') n = map_of (ns_kernel st4) n" if "n \<in> wanted_chains groups \<or> \<not> validGroupChainName n" for n
    using that steadyD [OF delete_orphans_frame [where n = n and wanted = "wanted_chains groups" and env = env and st = st4]]
    by (auto simp: st' st5_def nft_Persist_def split: option.split)
  have loaded: "groups_loaded (kernel_chains (ns_kernel st')) groups"
    unfolding groups_loaded_def list_all_iff
  proof
    fix gr assume "gr \<in> set (chain_groups groups)"
    then have gr: "gr \<in> set groups" "has_chain gr" "validGroupChainName (g_ChainName (fst gr))"
      by (simp_all add: chain_groups_def has_chain_def)
    let ?c = "g_ChainName (fst gr)"
    note ne = group_chain_names [OF gr(3)]
    obtain kc where kc: "map_of (ns_kernel st2) ?c = Some kc" "kc_rules kc = fst (renderGroupChain gr)"
      using fill_chains_ok [OF whole(2) [unfolded vg none(2)] assms(4) gr(1,2)] by blast
    have "map_of (ns_kernel st3) ?c = map_of (ns_kernel st2) ?c"
      using ne by (intro steadyD [OF rebuild_forward_frame [OF whole(4)]]) simp
    moreover have "map_of (ns_kernel st4) ?c = map_of (ns_kernel st3) ?c"
      using ne by (intro steadyD [OF reconcileInputChain_frame [OF inp]]) simp
    moreover have "map_of (ns_kernel st') ?c = map_of (ns_kernel st4) ?c"
      using gr by (intro s5) (auto simp: wanted_chains_iff)
    ultimately show "kernel_chains (ns_kernel st') ?c = Some (fst (renderGroupChain gr))"
      using kc by (simp add: kernel_chains_def)
  qed
  have f': "map_of (ns_kernel st') ForwardChain = Some (forward_chain_of env pol groups)"
    and i': "map_of (ns_kernel st') InputChain = Some (input_chain_of ip groups)"
    using s5 [of ForwardChain] s5 [of InputChain] structural_names fwd ip by simp_all
  have "live_decision (ns_kernel st') p ForwardChain =
      (if pol = PolicyDrop \<and> (p ''ct state'' ''established,related'' \<or> p ''ct status'' ''dnat'') then Accepted
       else case forward_verdict p groups of Some d \<Rightarrow> d | None \<Rightarrow> policy_decision pol)" for p
    unfolding live_decision_def
    using forward_chain_lemma [OF loaded, of pol "logBlocks env"] f'
    by (simp add: kernel_policy_def kernel_chains_def forward_chain_of_def)
  moreover have "live_decision (ns_kernel st') p InputChain =
      (case input_verdict p groups ip of Some d \<Rightarrow> d | None \<Rightarrow> policy_decision (ip_policy ip))" for p
    unfolding live_decision_def
    using input_chain_lemma [OF loaded, of ip] i'
    by (simp add: kernel_policy_def kernel_chains_def input_chain_of_def)
  ultimately show ?thesis using whole(3) ntp ip(1) by blast
qed

subsection \<open>What the kernel goes through\<close>

text \<open>C26. A forward chain with a policy to drop is never seen half built: in every state the
  kernel goes through during a pass, the chain is either the one from before the pass or the
  complete new one, whatever the kernel refuses.
\<close>
theorem forward_chain_is_never_half_built:
  assumes "reconcile_groups env groups st = (st', r)" "forwardPolicy env = Some PolicyDrop"
  shows "\<exists>hs. ns_history st' = ns_history st @ hs \<and>
    (\<forall>k \<in> set hs. map_of k ForwardChain = map_of (ns_kernel st) ForwardChain
       \<or> map_of k ForwardChain = Some (forward_chain_of env PolicyDrop (valid_groups groups)))"
proof (cases "ne_dry env")
  case True
  with assms(1) show ?thesis by (simp add: reconcile_groups_def)
next
  case False
  let ?old = "map_of (ns_kernel st) ForwardChain"
  let ?new = "Some (forward_chain_of env PolicyDrop (valid_groups groups))"
  define fine where "fine s \<longleftrightarrow> (\<exists>hs. ns_history s = ns_history st @ hs \<and>
      (\<forall>k \<in> set hs. map_of k ForwardChain = ?old \<or> map_of k ForwardChain = ?new))
      \<and> (map_of (ns_kernel s) ForwardChain = ?old \<or> map_of (ns_kernel s) ForwardChain = ?new)" for s :: nft_state
  have step: "fine s'" if "fine s" "steady ForwardChain s s'" for s s'
    using that unfolding fine_def steady_def by fastforce
  have start: "fine st" by (simp add: fine_def)
  have "fine st'"
    using assms(1) False
  proof (cases rule: reconcile_stages)
    case (early e)
    with start step assms(2) show ?thesis by blast
  next
    case (whole st1 st2 st3 st4 fs1 skipped pol ferr infail)
    have pol: "pol = PolicyDrop" using whole(3) assms(2) by simp
    have names: "\<forall>gr \<in> set (valid_groups groups). has_chain gr \<longrightarrow> g_ChainName (fst gr) \<noteq> ForwardChain"
      using valid_groups_valid group_chain_names by blast
    have 0: "fine (ensure_structures env st)" using step [OF start] ensure_frame by blast
    have 1: "fine st1" by (rule step [OF 0 create_chains_frame [OF whole(1) names]])
    have 2: "fine st2" by (rule step [OF 1 fill_chains_frame [OF whole(2) names]])
    have 3: "fine st3"
    proof -
      let ?lines = "ForwardSurvivalRules @ forwardChainRules (valid_groups groups) (logBlocks env)"
      obtain s' ok where r: "nft_run env (AddChain ForwardChain (Some PolicyDrop) # FlushChain ForwardChain
          # map (AddRule ForwardChain) ?lines) st2 = (s', ok)" by fastforce
      have s3: "st3 = s'" and ferr: "ferr = (if ok then None else Some (RulesRefused ?lines))"
        using whole(4) r pol by (simp_all add: rebuild_forward_def rebuildChainAtomic_def split: prod.splits)
      show ?thesis
      proof (cases ok)
        case True
        then have k3: "map_of (ns_kernel st3) ForwardChain = ?new"
          using rebuild_forward_ok [of env pol _ st2 st3] whole(4) ferr pol by (simp add: forward_chain_of_def)
        have "ns_history st3 = ns_history st2 @ [ns_kernel st3]"
          using r s3 True by (auto simp: nft_run_def split: option.splits if_splits)
        with 2 k3 show ?thesis by (auto simp: fine_def)
      next
        case False
        with r s3 2 run_False show ?thesis by metis
      qed
    qed
    have 4: "fine st4"
      using whole(5) step [OF 3] reconcileInputChain_frame [where n = ForwardChain] structural_names(1) 3
      by (auto split: option.splits prod.splits)
    have "steady ForwardChain st4 (case listGroupChains env st4 of None \<Rightarrow> st4
        | Some live \<Rightarrow> delete_orphans env (wanted_chains (valid_groups groups)) live st4)"
      using structural_names(2) by (auto split: option.split intro: delete_orphans_frame)
    from step [OF 4 this] have "fine (nft_Persist env (case listGroupChains env st4 of None \<Rightarrow> st4
        | Some live \<Rightarrow> delete_orphans env (wanted_chains (valid_groups groups)) live st4))"
      by (auto simp: fine_def nft_Persist_def)
    with whole(6) 4 show ?thesis by auto
  qed
  then show ?thesis by (simp add: fine_def)
qed

text \<open>The input chain has no such protection: a pass that succeeds under a policy to drop has
  gone through a state of the kernel in which every packet for the firewall is dropped, the
  management ports included, because the chain declared to drop is emptied and refilled line by
  line.
\<close>
theorem input_chain_is_cut_while_rebuilt:
  assumes "reconcile_groups env groups st = (st', None)" "\<not> ne_dry env" "inputPolicy env = Some PolicyDrop"
  shows "\<exists>k \<in> set (ns_history st'). \<forall>p. live_decision k p InputChain = Dropped"
  using assms(1,2)
proof (cases rule: reconcile_stages)
  case (early e)
  then show ?thesis by simp
next
  case (whole st1 st2 st3 st4 fs1 skipped pol ferr infail)
  have none: "ferr = None" "infail = []"
    using whole(7) by (auto simp: Let_def split: if_splits option.splits)
  obtain nets serving where inp: "reconcileInputChain env (valid_groups groups) nets serving st3 = (st4, True)"
    using whole(5) none(2) by (auto split: option.splits prod.splits if_splits)
  obtain ip where ip: "read_input env nets serving = Some ip"
    using inp by (auto simp: reconcileInputChain_def split: option.splits)
  have drp: "ip_policy ip = PolicyDrop"
    using ip assms(3) by (auto simp: read_input_def Let_def split: option.splits prod.splits if_splits)
  obtain s1 ok where a: "nft_run env [AddChain InputChain (Some PolicyDrop)] st3 = (s1, ok)" by fastforce
  with inp ip drp have a: "nft_run env [AddChain InputChain (Some PolicyDrop)] st3 = (s1, True)"
    and b: "rebuildChain env InputChain (inputChainRules (valid_groups groups) ip) s1 = (st4, None)"
    by (auto simp: reconcileInputChain_def split: prod.splits bool.splits)
  obtain kc where kc: "map_of (ns_kernel s1) InputChain = Some kc" "kc_policy kc = Some PolicyDrop"
    using effect_AddChain [OF run_True_one [OF a]] by blast
  obtain s2 ok2 where f: "nft_run env [FlushChain InputChain] s1 = (s2, ok2)" by fastforce
  with b have f: "nft_run env [FlushChain InputChain] s1 = (s2, True)"
    by (cases ok2) (auto simp: rebuildChain_def)
  obtain s3 failed where g: "add_rules env InputChain (inputChainRules (valid_groups groups) ip) s2 = (s3, failed)" by fastforce
  with b f have g: "add_rules env InputChain (inputChainRules (valid_groups groups) ip) s2 = (st4, failed)"
    by (auto simp: rebuildChain_def)
  have k2: "ns_kernel s2 = set_chain InputChain (kc\<lparr>kc_rules := []\<rparr>) (ns_kernel s1)"
    using run_True_one [OF f] kc by simp
  have "map_of (ns_kernel s2) InputChain = Some (kc\<lparr>kc_rules := []\<rparr>)"
    unfolding k2 by (simp add: map_of_set_chain kc)
  then have cut: "live_decision (ns_kernel s2) p InputChain = Dropped" for p
    using kc(2) by (simp add: live_decision_def decide_def kernel_chains_def kernel_policy_def numeral_eq_Suc policy_decision_def)
  have "ns_history s2 = ns_history s1 @ [ns_kernel s2]"
    using f by (auto simp: nft_run_def split: option.splits if_splits)
  moreover have "\<exists>hs. ns_history st4 = ns_history s2 @ hs"
    using add_rules_frame [OF g structural_names(1)] by (auto simp: steady_def)
  moreover have "\<exists>hs. ns_history st' = ns_history st4 @ hs"
  proof -
    have "steady ForwardChain st4 (case listGroupChains env st4 of None \<Rightarrow> st4
        | Some live \<Rightarrow> delete_orphans env (wanted_chains (valid_groups groups)) live st4)"
      using structural_names(2) by (auto split: option.split intro: delete_orphans_frame)
    with whole(6) none show ?thesis by (auto simp: steady_def nft_Persist_def split: if_splits)
  qed
  ultimately have "ns_kernel s2 \<in> set (ns_history st')" by auto
  with cut show ?thesis by blast
qed

subsection \<open>An example\<close>

definition demo_group :: fw_group where
  "demo_group = \<lparr>g_ID = ''g1'', g_Name = ''Guests'', g_ChainName = ''grp_a1'', g_Position = 2, g_Enabled = True,
     g_CondSaddr = ''10.0.9.0/24'', g_CondDaddr = [], g_CondIif = ''eth9'', g_Fallthrough = FallthroughDrop,
     g_Kind = ''admin'', g_Scope = ScopeForward, g_ConnState = [], g_SchedDays = [], g_SchedStart = [],
     g_SchedEnd = [], g_CreatedAt = 0, g_UpdatedAt = 0\<rparr>"

definition demo_ping :: fw_rule where
  "demo_ping = \<lparr>r_ID = ''r1'', r_Position = 1, r_GroupID = ''g1'', r_Enabled = True, r_Action = ''accept'',
     r_Iif = [], r_Oif = [], r_Saddr = [], r_Daddr = [], r_Proto = ''icmp'', r_Dport = [],
     r_Description = [], r_CreatedAt = 0, r_UpdatedAt = 0\<rparr>"

definition demo_rows :: "(fw_group \<times> fw_rule list) list" where
  "demo_rows = [(demo_group, [demo_ping]),
     (demo_group\<lparr>g_ID := ''s1'', g_ChainName := ''sys_blocked_hosts'', g_Position := 0, g_Kind := GroupKindBlockedHosts,
        g_CondSaddr := [], g_CondIif := [], g_Fallthrough := FallthroughContinue\<rparr>, [])]"

definition demo_nft_env :: "policy \<Rightarrow> nft_env" where
  "demo_nft_env pol = \<lparr>ne_refuses = (\<lambda>_ _. False), ne_dry = False, ne_logBlocks = Gives True,
     ne_forwardPolicy = Gives pol, ne_inputPolicy = Gives pol,
     ne_adminAccess = Gives no_access, ne_wanInterfaces = Gives [''eth1''], ne_wanMgmtClosed = Gives False,
     ne_edgeContainment = Gives False, ne_wireGuard = Unset, ne_ntp = Gives ([], False), ne_lists = True,
     ne_persists = True\<rparr>"

definition empty_kernel :: nft_state where
  "empty_kernel = \<lparr>ns_kernel = [], ns_history = [], ns_boot = None\<rparr>"

abbreviation demo_pass :: "policy \<Rightarrow> nft_state \<times> nft_error option" where
  "demo_pass pol \<equiv> reconcile_groups (demo_nft_env pol) demo_rows empty_kernel"

lemma demo_pass_ok: "snd (demo_pass PolicyAccept) = None" "snd (demo_pass PolicyDrop) = None"
  by code_simp+

lemma demo_pass_boot: "ns_boot (fst (demo_pass PolicyAccept)) \<noteq> None"
  by code_simp

lemma demo_pass_pair: "demo_pass pol = (fst (demo_pass pol), snd (demo_pass pol))"
  by simp

lemma forward_chain_is_never_half_built_witness:
  "list_all (\<lambda>k. map_of k ForwardChain = None
     \<or> map_of k ForwardChain = Some (forward_chain_of (demo_nft_env PolicyDrop) PolicyDrop (valid_groups demo_rows)))
   (ns_history (fst (demo_pass PolicyDrop)))"
  using forward_chain_is_never_half_built [OF demo_pass_pair [of PolicyDrop]]
  by (auto simp: empty_kernel_def forwardPolicy_def demo_nft_env_def list_all_iff)

lemma input_chain_is_cut_while_rebuilt_witness:
  "\<exists>k \<in> set (ns_history (fst (demo_pass PolicyDrop))).
     live_decision k (\<lambda>m v. m = ''tcp dport'' \<and> v = ''{ 22 }'') InputChain = Dropped"
  using input_chain_is_cut_while_rebuilt [OF demo_pass_pair [of PolicyDrop, unfolded demo_pass_ok]]
  by (auto simp: inputPolicy_def demo_nft_env_def)

lemma only_rebuilt_firewalls_are_persisted_witness:
  "map_of (ns_kernel (fst (demo_pass PolicyAccept))) ForwardChain =
     Some (forward_chain_of (demo_nft_env PolicyAccept) PolicyAccept (valid_groups demo_rows))"
  using only_rebuilt_firewalls_are_persisted [OF demo_pass_pair [of PolicyAccept]] demo_pass_boot
  by (auto simp: empty_kernel_def forwardPolicy_def demo_nft_env_def)

text \<open>A packet from a guest that is not a ping: dropped by the group's last line; a ping passes.\<close>

definition guest_packet :: "string \<Rightarrow> packet" where
  "guest_packet proto m v \<longleftrightarrow>
     m = ''iifname'' \<and> v = ''eth9'' \<or> m = ''ip saddr'' \<and> v = ''10.0.9.0/24'' \<or> m = ''ip protocol'' \<and> v = proto"

lemma guest_packets:
  "forward_verdict (guest_packet ''tcp'') demo_rows = Some Dropped"
  "forward_verdict (guest_packet ''icmp'') demo_rows = Some Accepted"
  by code_simp+

lemma demo_rows_distinct: "distinct (map (\<lambda>gr. g_ChainName (fst gr)) (filter has_chain demo_rows))"
  by code_simp

lemma reconciled_firewall_does_what_the_rows_say_witness:
  "live_decision (ns_kernel (fst (demo_pass PolicyAccept))) (guest_packet ''tcp'') ForwardChain = Dropped
   \<and> live_decision (ns_kernel (fst (demo_pass PolicyAccept))) (guest_packet ''icmp'') ForwardChain = Accepted"
  using reconciled_firewall_does_what_the_rows_say [OF demo_pass_pair [of PolicyAccept] _ _ demo_rows_distinct]
    demo_pass_ok guest_packets
  by (auto simp: forwardPolicy_def demo_nft_env_def)

subsection \<open>An input chain\<close>

definition demo_input :: "policy \<Rightarrow> input_params" where
  "demo_input pol = \<lparr>ip_ntpNetworks = [], ip_ntpServing = False, ip_policy = pol,
     ip_access = no_access\<lparr>aa_SSHPorts := [22]\<rparr>, ip_wanIfaces = [''eth1''], ip_gerenciaFechada = True,
     ip_contencao = False, ip_wireGuardPorts = []\<rparr>"

definition demo_chains :: "policy \<Rightarrow> chains" where
  "demo_chains pol = [InputChain \<mapsto> inputChainRules demo_rows (demo_input pol),
     ''grp_a1'' \<mapsto> fst (renderGroupChain (hd demo_rows))]"

lemma demo_loaded: "groups_loaded (demo_chains pol) demo_rows"
  "demo_chains pol InputChain = Some (inputChainRules demo_rows (demo_input pol))"
  by (simp_all add: demo_chains_def groups_loaded_def InputChain_def chain_groups_def demo_rows_def demo_group_def
      IsSystemGroup_def)

definition wan_packet :: packet where
  "wan_packet m v \<longleftrightarrow> m = ''ct state'' \<and> v = ''new'' \<or> m = ''iifname'' \<and> v = braces (quoteIfaces [''eth1''])
     \<or> m = ''tcp dport'' \<and> v = portasDeGerencia (ip_access (demo_input PolicyAccept))"

lemma demo_no_input_group: "first_some (input_group_verdict wan_packet) (sorted_groups demo_rows) = None"
  by code_simp

lemma demo_wan: "quoteIfaces [''eth1''] = [[CHR 0x22] @ ''eth1'' @ [CHR 0x22]]"
  by code_simp

lemma unasked_wan_connection_is_dropped_witness:
  "decide (demo_chains PolicyAccept) PolicyAccept wan_packet InputChain = Dropped"
  using unasked_wan_connection_is_dropped [OF demo_loaded [of PolicyAccept] _ _ _ _ _ _ _ _ _ demo_no_input_group]
  by (simp add: wan_packet_def demo_input_def wan_needed_def demo_wan)

lemma demo_ports: "portasDeGerencia (ip_access (demo_input pol)) = ''{ 22 }''"
  by (simp add: demo_input_def) code_simp

lemma closing_is_void_under_drop_witness:
  "decide (demo_chains PolicyDrop) PolicyDrop wan_packet InputChain = Accepted"
  using closing_is_void_under_drop [OF demo_loaded [of PolicyDrop], of wan_packet]
  by (simp add: wan_packet_def demo_ports) (simp add: demo_input_def)

end
