(* ===== verification/Dnstap.thy ===== *)
theory Dnstap
  imports Prelude "HOL-Library.Word"
begin

text \<open>
  The collector of DNS answers (\<open>internal/dnstap\<close>): the scanner of the protobuf fields
  (\<open>protobuf.go\<close>).  Bytes are \<open>8 word\<close>; a position is Go's \<open>int\<close>, a 64-bit word read with its
  sign, and a length is \<open>uint64\<close>, so that \<open>uint64(i)+tam\<close> wraps as it does in the code.  The
  two loops have no bound of their own: they are partial functions, where not returning is
  \<open>None\<close>; an index out of range is the outcome \<open>Panicked\<close>.
\<close>

unbundle bit_operations_syntax

type_synonym bytes = "8 word list"

subsection \<open>Variable-length integers (package encoding/binary)\<close>

fun uvarint_from :: "nat \<Rightarrow> 64 word \<Rightarrow> nat \<Rightarrow> bytes \<Rightarrow> 64 word \<times> int" where
  "uvarint_from i x s [] = (0, 0)"
| "uvarint_from i x s (b # bs) =
     (if i = 10 then (0, - (int i + 1))
      else if b < 0x80 then
        (if i = 9 \<and> b > 1 then (0, - (int i + 1))
         else (x OR push_bit s (ucast b), int i + 1))
      else uvarint_from (Suc i) (x OR push_bit s (ucast (b AND 0x7f))) (s + 7) bs)"

definition Uvarint :: "bytes \<Rightarrow> 64 word \<times> int" where
  "Uvarint b = uvarint_from 0 0 0 b"

subsection \<open>Scanning the fields of a message\<close>

definition campoDnstapMessage :: "64 word" where "campoDnstapMessage = 14"
definition campoMessageType :: "64 word" where "campoMessageType = 1"
definition campoResponseMessage :: "64 word" where "campoResponseMessage = 14"
definition tipoClientResponse :: "64 word" where "tipoClientResponse = 6"
definition tipoResolverResponse :: "64 word" where "tipoResolverResponse = 4"

datatype scan_error =
  InvalidKey | InvalidVarint | Truncated64 | InvalidLength | TruncatedBytes | Truncated32 | UnknownWire nat

datatype 'a scan = Panicked | Failed scan_error | Found 'a

text \<open>\<open>b[i:]\<close> and \<open>b[i:j]\<close> with a signed \<open>i\<close> and an unsigned \<open>j\<close>; \<open>None\<close> is the panic.\<close>

definition slice_from :: "bytes \<Rightarrow> 64 word \<Rightarrow> bytes option" where
  "slice_from b i = (if 0 \<le> sint i \<and> sint i \<le> int (length b) then Some (drop (nat (sint i)) b) else None)"

definition slice_between :: "bytes \<Rightarrow> 64 word \<Rightarrow> 64 word \<Rightarrow> bytes option" where
  "slice_between b i j =
     (if 0 \<le> sint i \<and> sint i \<le> uint j \<and> uint j \<le> int (length b)
      then Some (take (nat (uint j - sint i)) (drop (nat (sint i)) b)) else None)"

text \<open>One round of the loops: the field at \<open>i\<close>.\<close>

datatype field_at =
    Stop "scan_error option"
  | VarintField "64 word" "64 word" "64 word"
  | BytesField "64 word" "64 word" "64 word"
  | OtherField "64 word"

definition field_value :: "bytes \<Rightarrow> 64 word \<Rightarrow> nat \<Rightarrow> 64 word \<Rightarrow> field_at" where
  "field_value b num tipoFio i =
     (if tipoFio = 0 then
        (case slice_from b i of
           None \<Rightarrow> Stop None
         | Some rest \<Rightarrow>
             let (v, n) = Uvarint rest in
             if n \<le> 0 then Stop (Some InvalidVarint) else VarintField num v (i + word_of_int n))
      else if tipoFio = 1 then
        (if sint (i + 8) > int (length b) then Stop (Some Truncated64) else OtherField (i + 8))
      else if tipoFio = 2 then
        (case slice_from b i of
           None \<Rightarrow> Stop None
         | Some rest \<Rightarrow>
             let (tam, n) = Uvarint rest; j = i + word_of_int n in
             if n \<le> 0 then Stop (Some InvalidLength)
             else if j + tam > of_nat (length b) then Stop (Some TruncatedBytes)
             else BytesField num j tam)
      else if tipoFio = 5 then
        (if sint (i + 4) > int (length b) then Stop (Some Truncated32) else OtherField (i + 4))
      else Stop (Some (UnknownWire tipoFio)))"

definition field_at :: "bytes \<Rightarrow> 64 word \<Rightarrow> field_at" where
  "field_at b i =
     (case slice_from b i of
        None \<Rightarrow> Stop None
      | Some rest \<Rightarrow>
          let (chave, n) = Uvarint rest in
          if n \<le> 0 then Stop (Some InvalidKey)
          else field_value b (drop_bit 3 chave) (unat (chave AND 7)) (i + word_of_int n))"

definition stopped :: "scan_error option \<Rightarrow> 'a scan" where
  "stopped e = (case e of None \<Rightarrow> Panicked | Some e \<Rightarrow> Failed e)"

partial_function (option) varrer_from :: "bytes \<Rightarrow> 64 word \<Rightarrow> int \<Rightarrow> 64 word \<Rightarrow> bytes option scan option" where
  "varrer_from b numero tipoFioQuerido i =
     (if sint i < int (length b) then
        (case field_at b i of
           Stop e \<Rightarrow> Some (stopped e)
         | VarintField _ _ j \<Rightarrow> varrer_from b numero tipoFioQuerido j
         | OtherField j \<Rightarrow> varrer_from b numero tipoFioQuerido j
         | BytesField num j tam \<Rightarrow>
             (if num = numero \<and> tipoFioQuerido = 2
              then Some (case slice_between b j (j + tam) of None \<Rightarrow> Panicked | Some v \<Rightarrow> Found (Some v))
              else varrer_from b numero tipoFioQuerido (j + tam)))
      else Some (Found None))"

partial_function (option) varrerVarint_from :: "bytes \<Rightarrow> 64 word \<Rightarrow> 64 word \<Rightarrow> 64 word option scan option" where
  "varrerVarint_from b numero i =
     (if sint i < int (length b) then
        (case field_at b i of
           Stop e \<Rightarrow> Some (stopped e)
         | VarintField num v j \<Rightarrow> (if num = numero then Some (Found (Some v)) else varrerVarint_from b numero j)
         | OtherField j \<Rightarrow> varrerVarint_from b numero j
         | BytesField num j tam \<Rightarrow> varrerVarint_from b numero (j + tam))
      else Some (Found None))"

declare varrer_from.simps [code] varrerVarint_from.simps [code]

definition varrer :: "bytes \<Rightarrow> 64 word \<Rightarrow> int \<Rightarrow> bytes option scan option" where
  "varrer b numero tipoFioQuerido = varrer_from b numero tipoFioQuerido 0"

definition varrerVarint :: "bytes \<Rightarrow> 64 word \<Rightarrow> 64 word option scan option" where
  "varrerVarint b numero = varrerVarint_from b numero 0"

definition campoBytes :: "bytes \<Rightarrow> 64 word \<Rightarrow> bytes option scan option" where
  "campoBytes b numero = varrer b numero 2"

definition campoVarint :: "bytes \<Rightarrow> 64 word \<Rightarrow> 64 word option scan option" where
  "campoVarint b numero = varrerVarint b numero"

definition RespostaDNS :: "bytes \<Rightarrow> bytes option scan option" where
  "RespostaDNS quadro =
     Option.bind (campoBytes quadro campoDnstapMessage) (\<lambda>r.
       case r of
         Found (Some msg) \<Rightarrow>
           Option.bind (campoVarint msg campoMessageType) (\<lambda>t.
             case t of
               Panicked \<Rightarrow> Some Panicked
             | Failed e \<Rightarrow> Some (Failed e)
             | Found tipo \<Rightarrow>
                 if tipo \<noteq> Some tipoClientResponse \<and> tipo \<noteq> Some tipoResolverResponse then Some (Found None)
                 else campoBytes msg campoResponseMessage)
       | _ \<Rightarrow> Some r)"

subsection \<open>The wire format\<close>

text \<open>What a well-formed message is: its fields, each with its number.\<close>

datatype field =
    PVarint "64 word" "64 word"
  | PFixed64 "64 word" bytes
  | PBytes "64 word" bytes
  | PFixed32 "64 word" bytes

function put_uvarint :: "64 word \<Rightarrow> bytes" where
  "put_uvarint v = (if v < 0x80 then [ucast v] else (ucast v OR 0x80) # put_uvarint (drop_bit 7 v))"
  by auto
termination
proof (relation "measure unat")
  fix v :: "64 word" assume "\<not> v < 0x80"
  then have "0x80 \<le> unat v" by (simp add: word_less_nat_alt)
  then have "unat v div 128 < unat v" by simp
  then show "(drop_bit 7 v, v) \<in> measure unat"
    by (simp add: drop_bit_eq_div unat_div)
qed simp

declare put_uvarint.simps [simp del]

definition put_key :: "64 word \<Rightarrow> 64 word \<Rightarrow> bytes" where
  "put_key num wire = put_uvarint (push_bit 3 num OR wire)"

fun put_field :: "field \<Rightarrow> bytes" where
  "put_field (PVarint n v) = put_key n 0 @ put_uvarint v"
| "put_field (PFixed64 n b) = put_key n 1 @ b"
| "put_field (PBytes n b) = put_key n 2 @ put_uvarint (of_nat (length b)) @ b"
| "put_field (PFixed32 n b) = put_key n 5 @ b"

definition put_message :: "field list \<Rightarrow> bytes" where
  "put_message fs = concat (map put_field fs)"

fun field_ok :: "field \<Rightarrow> bool" where
  "field_ok (PVarint n v) \<longleftrightarrow> n < 2 ^ 61"
| "field_ok (PFixed64 n b) \<longleftrightarrow> n < 2 ^ 61 \<and> length b = 8"
| "field_ok (PBytes n b) \<longleftrightarrow> n < 2 ^ 61"
| "field_ok (PFixed32 n b) \<longleftrightarrow> n < 2 ^ 61 \<and> length b = 4"

fun bytes_of :: "64 word \<Rightarrow> field \<Rightarrow> bytes option" where
  "bytes_of n (PBytes m b) = (if m = n then Some b else None)"
| "bytes_of n _ = None"

fun varint_of :: "64 word \<Rightarrow> field \<Rightarrow> 64 word option" where
  "varint_of n (PVarint m v) = (if m = n then Some v else None)"
| "varint_of n _ = None"

fun first_wanted :: "(field \<Rightarrow> 'a option) \<Rightarrow> field list \<Rightarrow> 'a option" where
  "first_wanted w [] = None"
| "first_wanted w (f # fs) = (case w f of Some v \<Rightarrow> Some v | None \<Rightarrow> first_wanted w fs)"

abbreviation "first_bytes n \<equiv> first_wanted (bytes_of n)"
abbreviation "first_varint n \<equiv> first_wanted (varint_of n)"

subsection \<open>Reading what was written\<close>

lemma put_uvarint_not_Nil [simp]: "put_uvarint v \<noteq> []"
  by (subst put_uvarint.simps) simp

lemma mask_7: "(0x7f :: 8 word) = mask 7" "(0x80 :: 8 word) = push_bit 7 1"
  by (simp_all add: mask_eq_exp_minus_1)

lemma payload_bits:
  "ucast ((ucast (v :: 64 word) OR 0x80) AND 0x7f :: 8 word) = (take_bit 7 v :: 64 word)"
proof -
  have "\<not> bit (push_bit 7 1 :: 8 word) n" if "n < 7" for n
    using that unfolding bit_push_bit_iff by simp
  then show ?thesis unfolding mask_7
    by (intro bit_word_eqI) (simp add: bit_ucast_iff bit_and_iff bit_or_iff bit_mask_iff bit_take_bit_iff, auto)
qed

lemma split_bits: "push_bit s (take_bit 7 v) OR push_bit (s + 7) (drop_bit 7 v) = push_bit s (v :: 64 word)"
proof (rule bit_word_eqI)
  fix n assume n: "n < LENGTH(64)"
  show "bit (push_bit s (take_bit 7 v) OR push_bit (s + 7) (drop_bit 7 v)) n = bit (push_bit s v) n"
  proof (cases "s + 7 \<le> n")
    case True
    then have "7 + (n - (s + 7)) = n - s" by simp
    with True n show ?thesis by (auto simp: bit_simps)
  next
    case False
    with n show ?thesis by (auto simp: bit_simps)
  qed
qed

lemma uvarint_put:
  assumes "i \<le> 9" "unat v < 2 ^ (64 - 7 * i)"
  shows "uvarint_from i x (7 * i) (put_uvarint v @ rest) = (x OR push_bit (7 * i) v, int (i + length (put_uvarint v)))"
  using assms
proof (induction v arbitrary: i x rule: put_uvarint.induct)
  case (1 v)
  show ?case
  proof (cases "v < 0x80")
    case True
    then have eq: "put_uvarint v = [ucast v]" by (simp add: put_uvarint.simps)
    have v: "unat v < 128" using True by (simp add: word_less_nat_alt)
    have u: "ucast (ucast v :: 8 word) = v"
      using v by (simp add: word_unat_eq_iff unsigned_ucast_eq unsigned_take_bit_eq take_bit_nat_eq_self)
    have lt: "(ucast v :: 8 word) < 0x80"
      using v by (simp add: word_less_nat_alt unsigned_ucast_eq unsigned_take_bit_eq take_bit_nat_eq_self)
    have "\<not> (ucast v :: 8 word) > 1" if "i = 9"
      using that 1(3) v by (simp add: word_less_nat_alt unsigned_ucast_eq unsigned_take_bit_eq take_bit_nat_eq_self)
    with lt u 1(2) show ?thesis by (simp add: eq)
  next
    case False
    then have eq: "put_uvarint v = (ucast v OR 0x80) # put_uvarint (drop_bit 7 v)"
      by (subst put_uvarint.simps) simp
    have v: "128 \<le> unat v" using False by (simp add: word_less_nat_alt)
    have i: "i \<noteq> 9" using v 1(3) by auto
    then have i: "i \<le> 8" using 1(2) by simp
    have ge: "\<not> (ucast v OR 0x80 :: 8 word) < 0x80"
      by (simp add: not_less le_word_or1)
    have "unat (drop_bit 7 v) < 2 ^ (64 - 7 * Suc i)"
    proof -
      have "(2::nat) ^ (64 - 7 * i) = 2 ^ (64 - 7 * Suc i) * 2 ^ 7"
        using i by (subst power_add [symmetric]) simp
      with 1(3) have "unat v < 2 ^ (64 - 7 * Suc i) * 128" by simp
      then show ?thesis by (simp add: drop_bit_eq_div unat_div less_mult_imp_div_less)
    qed
    then have "uvarint_from (Suc i) y (7 * Suc i) (put_uvarint (drop_bit 7 v) @ rest)
        = (y OR push_bit (7 * Suc i) (drop_bit 7 v), int (Suc i + length (put_uvarint (drop_bit 7 v))))" for y
    proof -
      have "Suc i \<le> 9" using i by simp
      with 1(1) [of "Suc i"] False \<open>unat (drop_bit 7 v) < _\<close> show ?thesis by blast
    qed
    with ge i show ?thesis
      by (simp add: eq payload_bits or.assoc split_bits add.commute [of 7])
  qed
qed

lemma Uvarint_put: "Uvarint (put_uvarint v @ rest) = (v, int (length (put_uvarint v)))"
  using uvarint_put [of 0 v 0 rest] unsigned_less [of v, where ?'a = nat] by (simp add: Uvarint_def)

lemma small_bits: "unat w < 2 ^ n \<Longrightarrow> take_bit n w = w"
  by (simp add: word_unat_eq_iff unsigned_take_bit_eq take_bit_nat_eq_self)

lemma key_number:
  assumes "n < 2 ^ 61" "w < (8 :: 64 word)"
  shows "drop_bit 3 (push_bit 3 n OR w) = n" "(push_bit 3 n OR w) AND 7 = w"
proof -
  have w: "take_bit 3 w = w"
    using assms(2) by (intro small_bits) (simp add: word_less_nat_alt)
  have n: "take_bit 61 n = n"
    using assms(1) by (intro small_bits) (simp add: word_less_nat_alt)
  have seven: "(7 :: 64 word) = mask 3" by (simp add: mask_eq_exp_minus_1)
  have w_high: "\<not> bit w m" if "3 \<le> m" for m
    using w that by (metis bit_take_bit_iff not_le)
  show "drop_bit 3 (push_bit 3 n OR w) = n"
    by (rule bit_word_eqI) (use w_high n in \<open>auto simp: bit_simps; metis bit_take_bit_iff\<close>)
  show "(push_bit 3 n OR w) AND 7 = w"
    unfolding seven
  proof (rule bit_word_eqI)
    fix m assume "m < LENGTH(64)"
    then show "bit ((push_bit 3 n OR w) AND mask 3) m = bit w m"
      using w_high [of m] by (cases "3 \<le> m") (auto simp: bit_simps)
  qed
qed

lemma sint_position: "k < 2 ^ 63 \<Longrightarrow> sint (of_nat k :: 64 word) = int k"
  by (simp add: signed_of_nat signed_take_bit_int_eq_self_iff)

lemma slice_from_position:
  "length pre < 2 ^ 63 \<Longrightarrow> slice_from (pre @ rest) (of_nat (length pre)) = Some rest"
  by (simp add: slice_from_def sint_position)

fun field_read :: "nat \<Rightarrow> field \<Rightarrow> field_at" where
  "field_read stop (PVarint n v) = VarintField n v (of_nat stop)"
| "field_read stop (PBytes n p) = BytesField n (of_nat (stop - length p)) (of_nat (length p))"
| "field_read stop _ = OtherField (of_nat stop)"

lemma read_uvarint:
  assumes "length (pre @ put_uvarint v @ rest) < 2 ^ 63"
  shows "slice_from (pre @ put_uvarint v @ rest) (of_nat (length pre)) = Some (put_uvarint v @ rest)"
    "Uvarint (put_uvarint v @ rest) = (v, int (length (put_uvarint v)))"
    "(of_nat (length pre) :: 64 word) + word_of_int (int (length (put_uvarint v))) = of_nat (length (pre @ put_uvarint v))"
    "\<not> int (length (put_uvarint v)) \<le> 0"
  using assms by (simp_all add: slice_from_position Uvarint_put)

lemma bytes_fit: "a \<le> n \<Longrightarrow> n < 2 ^ 63 \<Longrightarrow> (of_nat a :: 64 word) \<le> of_nat n"
  by (simp add: word_le_nat_alt unsigned_of_nat take_bit_nat_eq_self)

lemma field_at_key:
  assumes "length (pre @ put_key n w @ rest) < 2 ^ 63" "n < 2 ^ 61" "w < 8"
  shows "field_at (pre @ put_key n w @ rest) (of_nat (length pre)) =
    field_value (pre @ put_key n w @ rest) n (unat w) (of_nat (length (pre @ put_key n w)))"
proof -
  define key where "key = push_bit 3 n OR w"
  have k: "drop_bit 3 key = n" "key AND 7 = w"
    unfolding key_def using assms by (simp_all only: key_number)
  show ?thesis
    using read_uvarint [of pre key rest] assms(1)
    by (simp add: field_at_def put_key_def k flip: key_def)
qed

lemma field_at_put:
  assumes ok: "field_ok f" and len: "length (pre @ put_field f @ post) < 2 ^ 63"
  shows "field_at (pre @ put_field f @ post) (of_nat (length pre)) = field_read (length pre + length (put_field f)) f"
proof (cases f)
  case (PVarint n v)
  note r = read_uvarint [of "pre @ put_key n 0" v post]
  show ?thesis
    using field_at_key [of pre n 0 "put_uvarint v @ post"] len ok r
    by (simp add: PVarint field_value_def add.assoc)
next
  case (PFixed64 n p)
  show ?thesis
    using field_at_key [of pre n 1 "p @ post"] len ok sint_position [of "length pre + length (put_key n 1) + 8"]
    by (simp add: PFixed64 field_value_def)
next
  case (PBytes n p)
  note r = read_uvarint [of "pre @ put_key n 2" "of_nat (length p)" "p @ post"]
  note fit = bytes_fit [of "length pre + length (put_key n 2) + length (put_uvarint (of_nat (length p))) + length p"
      "length (pre @ put_field f @ post)"]
  show ?thesis
    using field_at_key [of pre n 2 "put_uvarint (of_nat (length p)) @ p @ post"] len ok r fit
    by (simp add: PBytes field_value_def add.assoc not_less)
next
  case (PFixed32 n p)
  show ?thesis
    using field_at_key [of pre n 5 "p @ post"] len ok sint_position [of "length pre + length (put_key n 5) + 4"]
    by (simp add: PFixed32 field_value_def)
qed

lemma put_field_not_Nil [simp]: "put_field f \<noteq> []"
  by (cases f) (simp_all add: put_key_def)

lemma put_message_simps [simp]:
  "put_message [] = []" "put_message (f # fs) = put_field f @ put_message fs"
  by (simp_all add: put_message_def)

lemma uint_position: "k < 2 ^ 64 \<Longrightarrow> uint (of_nat k :: 64 word) = int k"
  by (simp add: unsigned_of_nat take_bit_nat_eq_self flip: of_nat_take_bit)

lemma slice_between_position:
  "length (pre @ p @ post) < 2 ^ 63 \<Longrightarrow>
   slice_between (pre @ p @ post) (of_nat (length pre)) (of_nat (length pre) + of_nat (length p)) = Some p"
  using sint_position [of "length pre"] uint_position [of "length pre + length p"]
  by (simp add: slice_between_def)

text \<open>What a field at the front of the rest of a message looks like to the loops.\<close>

lemma field_cases:
  assumes "field_ok f" "length b < 2 ^ 63" "b = pre @ put_field f @ post"
    and "stop = of_nat (length (pre @ put_field f))"
  obtains (pvarint) n v where "f = PVarint n v" "field_at b (of_nat (length pre)) = VarintField n v stop"
    | (pbytes) n p j where "f = PBytes n p" "field_at b (of_nat (length pre)) = BytesField n j (of_nat (length p))"
      "j + of_nat (length p) = stop" "slice_between b j stop = Some p"
    | (fixed) "field_at b (of_nat (length pre)) = OtherField stop"
      "\<forall>n v. f \<noteq> PVarint n v" "\<forall>n p. f \<noteq> PBytes n p"
proof (cases f)
  case (PVarint n v)
  then show ?thesis using pvarint field_at_put [of f pre post] assms by simp
next
  case (PBytes n p)
  let ?pre = "pre @ put_key n 2 @ put_uvarint (of_nat (length p))"
  have b: "b = ?pre @ p @ post" by (simp add: PBytes assms(3))
  show ?thesis
  proof (rule pbytes [OF PBytes, of "of_nat (length ?pre)"])
    show "field_at b (of_nat (length pre)) = BytesField n (of_nat (length ?pre)) (of_nat (length p))"
      using field_at_put [of f pre post] assms by (simp add: PBytes)
    show stop: "of_nat (length ?pre) + of_nat (length p) = stop"
      by (simp add: assms(4) PBytes)
    show "slice_between b (of_nat (length ?pre)) stop = Some p"
      unfolding b stop [symmetric] using assms(2) b by (intro slice_between_position) simp
  qed
next
  case (PFixed64 n p)
  then show ?thesis using fixed field_at_put [of f pre post] assms by simp
next
  case (PFixed32 n p)
  then show ?thesis using fixed field_at_put [of f pre post] assms by simp
qed

lemma position_inside:
  assumes "length (pre @ put_field f @ post) < 2 ^ 63"
  shows "sint (of_nat (length pre) :: 64 word) < int (length (pre @ put_field f @ post))"
  using assms by (simp add: sint_position flip: of_nat_add)

subsection \<open>When the loops end\<close>

text \<open>No length written in the message, wherever it begins, makes \<open>uint64(i)+tam\<close> wrap.\<close>

definition lengths_sane :: "bytes \<Rightarrow> bool" where
  "lengths_sane b \<longleftrightarrow> list_all (\<lambda>k. uint (fst (Uvarint (drop k b))) + int (length b) < 2 ^ 64) [0..<length b]"

lemma uvarint_length: "snd (uvarint_from i x s bs) \<le> int (i + length bs)"
proof (induction i x s bs rule: uvarint_from.induct)
  case (2 i x s b bs)
  show ?case by (cases "i = 10 \<or> b < 0x80") (use 2 in auto)
qed simp

lemma Uvarint_length: "Uvarint b = (v, n) \<Longrightarrow> n \<le> int (length b)"
  using uvarint_length [of 0 0 0 b] by (simp add: Uvarint_def)

lemma slice_from_of_nat: "k \<le> length b \<Longrightarrow> length b < 2 ^ 63 \<Longrightarrow> slice_from b (of_nat k) = Some (drop k b)"
  by (simp add: slice_from_def sint_position)

lemma read_at:
  assumes "k \<le> length b" "length b < 2 ^ 63" "Uvarint (drop k b) = (v, n)" "\<not> n \<le> 0"
  obtains k' where "(of_nat k :: 64 word) + word_of_int n = of_nat k'" "k < k'" "k' \<le> length b"
proof -
  have "n \<le> int (length b - k)" using Uvarint_length [OF assms(3)] by simp
  with assms(1,4) show ?thesis by (intro that [of "k + nat n"]) auto
qed

text \<open>A round of the loops on such a message goes forward and stays inside, or stops with an error.\<close>

inductive forward :: "nat \<Rightarrow> bytes \<Rightarrow> field_at \<Rightarrow> bool" for k b where
  forward_stop: "forward k b (Stop (Some e))"
| forward_varint: "k < k' \<Longrightarrow> k' \<le> length b \<Longrightarrow> forward k b (VarintField n v (of_nat k'))"
| forward_other: "k < k' \<Longrightarrow> k' \<le> length b \<Longrightarrow> forward k b (OtherField (of_nat k'))"
| forward_bytes: "k < j \<Longrightarrow> j + unat tam \<le> length b \<Longrightarrow> forward k b (BytesField n (of_nat j) tam)"

lemma no_wrap:
  assumes "unat tam + length b < 2 ^ 64" "j \<le> length b" "\<not> (of_nat j + tam > (of_nat (length b) :: 64 word))"
  shows "j + unat tam \<le> length b"
proof -
  have "unat (of_nat j + tam :: 64 word) = j + unat tam"
    using assms(1,2) by (simp add: unat_add_lem [THEN iffD1] unsigned_of_nat take_bit_nat_eq_self)
  moreover have "unat (of_nat (length b) :: 64 word) = length b"
    using assms(1) by (simp add: unsigned_of_nat take_bit_nat_eq_self)
  ultimately show ?thesis using assms(3) by (simp add: word_le_nat_alt not_less)
qed

lemma fixed_forward:
  assumes "k < k1" "k1 \<le> length b" "length b < 2 ^ 62" "w \<le> 8"
  shows "forward k b (if sint (of_nat k1 + of_nat w :: 64 word) > int (length b) then Stop (Some e) else OtherField (of_nat k1 + of_nat w))"
proof -
  have "sint (of_nat (k1 + w) :: 64 word) = int (k1 + w)"
    using assms by (intro sint_position) simp
  moreover have "forward k b (OtherField (of_nat (k1 + w)))" if "k1 + w \<le> length b"
    using assms(1) that by (intro forward_other) simp_all
  ultimately show ?thesis by (auto intro: forward_stop)
qed

lemma field_value_forward:
  assumes "lengths_sane b" "length b < 2 ^ 62" "k < k1" "k1 \<le> length b"
  shows "forward k b (field_value b num w (of_nat k1))"
proof -
  have len: "length b < 2 ^ 63" using assms(2) by simp
  obtain v n where r: "Uvarint (drop k1 b) = (v, n)" by fastforce
  note slice = slice_from_of_nat [OF assms(4) len]
  consider "w = 0" | "w = 2" | "w \<noteq> 0" "w \<noteq> 2" by blast
  then show ?thesis
  proof cases
    case 1
    then show ?thesis
    proof (cases "n \<le> 0")
      case False
      obtain k2 where k2: "(of_nat k1 :: 64 word) + word_of_int n = of_nat k2" "k1 < k2" "k2 \<le> length b"
        by (rule read_at [OF assms(4) len r False])
      have "forward k b (VarintField num v (of_nat k2))" using k2 assms(3) by (intro forward_varint) simp_all
      with 1 r False slice k2 show ?thesis by (simp add: field_value_def)
    qed (use r slice in \<open>simp add: field_value_def forward_stop\<close>)
  next
    case 2
    then show ?thesis
    proof (cases "n \<le> 0")
      case False
      obtain k2 where k2: "(of_nat k1 :: 64 word) + word_of_int n = of_nat k2" "k1 < k2" "k2 \<le> length b"
        by (rule read_at [OF assms(4) len r False])
      have "uint v + int (length b) < 2 ^ 64"
        using assms(1) k2 r by (auto simp: lengths_sane_def list_all_iff dest: bspec [of _ _ k1])
      then have "int (unat v + length b) < int (2 ^ 64)" by simp
      then have "unat v + length b < 2 ^ 64" by (simp only: of_nat_less_iff)
      note fit = no_wrap [OF this k2(3)]
      have "forward k b (BytesField num (of_nat k2) v)" if "\<not> (of_nat k2 + v > (of_nat (length b) :: 64 word))"
        using fit [OF that] k2(2) assms(3) by (intro forward_bytes) simp_all
      with 2 r False slice k2 show ?thesis by (simp add: field_value_def forward_stop Let_def)
    qed (use r slice in \<open>simp add: field_value_def forward_stop\<close>)
  next
    case 3
    then show ?thesis
      using fixed_forward [OF assms(3,4,2), of 8 Truncated64, unfolded of_nat_numeral] fixed_forward [OF assms(3,4,2), of 4 Truncated32, unfolded of_nat_numeral]
      by (simp add: field_value_def forward_stop)
  qed
qed

lemma field_at_forward:
  assumes "lengths_sane b" "length b < 2 ^ 62" "k < length b"
  shows "forward k b (field_at b (of_nat k))"
proof -
  have len: "length b < 2 ^ 63" "k \<le> length b" using assms by simp_all
  obtain v n where r: "Uvarint (drop k b) = (v, n)" by fastforce
  note slice = slice_from_of_nat [OF len(2,1)]
  show ?thesis
  proof (cases "n \<le> 0")
    case False
    obtain k1 where k1: "(of_nat k :: 64 word) + word_of_int n = of_nat k1" "k < k1" "k1 \<le> length b"
      by (rule read_at [OF len(2,1) r False])
    with field_value_forward [OF assms(1,2) k1(2,3)] slice r False show ?thesis
      by (simp add: field_at_def)
  qed (use r slice in \<open>simp add: field_at_def forward_stop\<close>)
qed

lemma slice_inside:
  assumes "j + unat tam \<le> length b" "length b < 2 ^ 62"
  shows "slice_between b (of_nat j) (of_nat j + tam) \<noteq> None"
proof -
  have "uint (of_nat j + tam :: 64 word) = int (j + unat tam)"
  proof -
    have "of_nat j + tam = (of_nat (j + unat tam) :: 64 word)" by simp
    then show ?thesis using assms uint_position [of "j + unat tam"] by simp
  qed
  moreover have "int (j + unat tam) \<le> int (length b)" using assms(1) by (simp only: of_nat_le_iff)
  ultimately show ?thesis using assms sint_position [of j] by (simp add: slice_between_def)
qed

subsection \<open>The two loops\<close>

text \<open>What \<open>varrer\<close> and \<open>varrerVarint\<close> share: a loop that goes from field to field until one is a hit.\<close>

fun after_field :: "field_at \<Rightarrow> 64 word" where
  "after_field (Stop _) = 0"
| "after_field (VarintField _ _ j) = j"
| "after_field (OtherField j) = j"
| "after_field (BytesField _ j tam) = j + tam"

locale field_loop =
  fixes loop :: "bytes \<Rightarrow> 64 word \<Rightarrow> 'a option scan option"
    and hit :: "bytes \<Rightarrow> field_at \<Rightarrow> 'a option scan option"
    and wanted :: "field \<Rightarrow> 'a option"
  assumes loop_eq: "loop b i =
      (if sint i < int (length b) then
         (case field_at b i of
            Stop e \<Rightarrow> Some (stopped e)
          | f \<Rightarrow> (case hit b f of Some r \<Rightarrow> Some r | None \<Rightarrow> loop b (after_field f)))
       else Some (Found None))"
    and hit_forward: "forward k b f \<Longrightarrow> length b < 2 ^ 62 \<Longrightarrow> hit b f \<noteq> Some Panicked"
    and hit_wanted: "field_ok fd \<Longrightarrow> length b < 2 ^ 63 \<Longrightarrow> b = pre @ put_field fd @ post \<Longrightarrow>
      hit b (field_at b (of_nat (length pre))) = map_option (\<lambda>v. Found (Some v)) (wanted fd)"
begin

lemma finds:
  assumes "list_all field_ok fs" "b = pre @ put_message fs" "length b < 2 ^ 63"
  shows "loop b (of_nat (length pre)) = Some (Found (first_wanted wanted fs))"
  using assms
proof (induction fs arbitrary: pre)
  case Nil
  then show ?case by (simp add: loop_eq [of pre] sint_position)
next
  case (Cons f fs)
  have f: "field_ok f" and b: "b = pre @ put_field f @ put_message fs" using Cons.prems by simp_all
  obtain stop :: "64 word" where stop: "stop = of_nat (length (pre @ put_field f))" by simp
  have rest: "loop b stop = Some (Found (first_wanted wanted fs))"
    using Cons.IH [of "pre @ put_field f"] Cons.prems unfolding stop by simp
  have inside: "sint (of_nat (length pre) :: 64 word) < int (length b)"
    using position_inside [of pre f "put_message fs"] Cons.prems(3) b by simp
  note step = loop_eq [of b "of_nat (length pre)"] hit_wanted [OF f Cons.prems(3) b]
  from f Cons.prems(3) b stop show ?case
    by (cases rule: field_cases) (use step inside rest in \<open>auto split: option.split\<close>)
qed

lemma returns:
  assumes "lengths_sane b" "length b < 2 ^ 62" "k \<le> length b"
  shows "\<exists>r. loop b (of_nat k) = Some r \<and> r \<noteq> Panicked"
  using assms(3)
proof (induction "length b - k" arbitrary: k rule: less_induct)
  case less
  note step = loop_eq [of b "of_nat k"]
  have s: "sint (of_nat k :: 64 word) = int k" using assms(2) less.prems by (intro sint_position) simp
  show ?case
  proof (cases "k < length b")
    case True
    note fwd = field_at_forward [OF assms(1,2) True]
    note safe = hit_forward [OF fwd assms(2)]
    have on: "\<exists>r. loop b (of_nat k') = Some r \<and> r \<noteq> Panicked" if "k < k'" "k' \<le> length b" for k'
      using that less.prems by (intro less.hyps) simp_all
    from fwd show ?thesis
    proof (cases rule: forward.cases)
      case (forward_bytes j tam m)
      with on [of "j + unat tam"] step s True safe show ?thesis by (auto split: option.splits)
    qed (use step s True on safe in \<open>auto simp: stopped_def split: option.splits\<close>)
  qed (use step s in simp)
qed

end

definition bytes_hit :: "64 word \<Rightarrow> bytes \<Rightarrow> field_at \<Rightarrow> bytes option scan option" where
  "bytes_hit n b f =
     (case f of
        BytesField m j tam \<Rightarrow>
          if m = n then Some (case slice_between b j (j + tam) of None \<Rightarrow> Panicked | Some v \<Rightarrow> Found (Some v))
          else None
      | _ \<Rightarrow> None)"

definition varint_hit :: "64 word \<Rightarrow> bytes \<Rightarrow> field_at \<Rightarrow> 64 word option scan option" where
  "varint_hit n b f = (case f of VarintField m v _ \<Rightarrow> if m = n then Some (Found (Some v)) else None | _ \<Rightarrow> None)"

interpretation bytes_loop: field_loop "\<lambda>b. varrer_from b n 2" "bytes_hit n" "bytes_of n" for n
proof
  show "varrer_from b n 2 i =
      (if sint i < int (length b) then
         (case field_at b i of
            Stop e \<Rightarrow> Some (stopped e)
          | f \<Rightarrow> (case bytes_hit n b f of Some r \<Rightarrow> Some r | None \<Rightarrow> varrer_from b n 2 (after_field f)))
       else Some (Found None))" for b i
    by (subst varrer_from.simps) (simp add: bytes_hit_def split: field_at.split)
  show "bytes_hit n b f \<noteq> Some Panicked" if "forward k b f" "length b < 2 ^ 62" for k b f
    using that by cases (auto simp: bytes_hit_def dest: slice_inside split: option.splits)
  show "bytes_hit n b (field_at b (of_nat (length pre))) = map_option (\<lambda>v. Found (Some v)) (bytes_of n f)"
    if "field_ok f" "length b < 2 ^ 63" "b = pre @ put_field f @ post" for f b pre post
  proof -
    obtain stop :: "64 word" where "stop = of_nat (length (pre @ put_field f))" by simp
    with that show ?thesis
    proof (cases rule: field_cases)
      case fixed
      then show ?thesis by (cases f) (simp_all add: bytes_hit_def)
    qed (simp_all add: bytes_hit_def)
  qed
qed

interpretation varint_loop: field_loop "\<lambda>b. varrerVarint_from b n" "varint_hit n" "varint_of n" for n
proof
  show "varrerVarint_from b n i =
      (if sint i < int (length b) then
         (case field_at b i of
            Stop e \<Rightarrow> Some (stopped e)
          | f \<Rightarrow> (case varint_hit n b f of Some r \<Rightarrow> Some r | None \<Rightarrow> varrerVarint_from b n (after_field f)))
       else Some (Found None))" for b i
    by (subst varrerVarint_from.simps) (simp add: varint_hit_def split: field_at.split)
  show "varint_hit n b f \<noteq> Some Panicked" if "forward k b f" "length b < 2 ^ 62" for k b f
    using that by cases (auto simp: varint_hit_def)
  show "varint_hit n b (field_at b (of_nat (length pre))) = map_option (\<lambda>v. Found (Some v)) (varint_of n f)"
    if "field_ok f" "length b < 2 ^ 63" "b = pre @ put_field f @ post" for f b pre post
  proof -
    obtain stop :: "64 word" where "stop = of_nat (length (pre @ put_field f))" by simp
    with that show ?thesis
    proof (cases rule: field_cases)
      case fixed
      then show ?thesis by (cases f) (simp_all add: varint_hit_def)
    qed (simp_all add: varint_hit_def)
  qed
qed

text \<open>What a well-formed frame says: the bytes of the answer of its message, when it is an answer.\<close>

definition answer_of :: "field list \<Rightarrow> bytes option" where
  "answer_of fs =
     (if first_varint 1 fs = Some 6 \<or> first_varint 1 fs = Some 4 then first_bytes 14 fs else None)"

lemma first_bytes_length: "first_bytes n fs = Some p \<Longrightarrow> length p \<le> length (put_message fs)"
  by (induction fs) (auto elim!: bytes_of.elims split: option.splits if_splits)

text \<open>A frame is read as it was written: in a frame of well-formed fields whose first field 14
  holds a message of well-formed fields, \<open>RespostaDNS\<close> finds the bytes of the first field 14 of the
  message if the message is a client's or a resolver's answer, and nothing otherwise, whatever fields
  of whatever kinds and numbers come before, between and after.
\<close>
theorem frame_reads_back:
  assumes "list_all field_ok fs" "length (put_message fs) < 2 ^ 63"
    and "first_bytes 14 fs = Some (put_message gs)" "list_all field_ok gs"
  shows "RespostaDNS (put_message fs) = Some (Found (answer_of gs))"
  using bytes_loop.finds [of fs "put_message fs" "[]" 14] bytes_loop.finds [of gs "put_message gs" "[]" 14]
    varint_loop.finds [of gs "put_message gs" "[]" 1] assms first_bytes_length [OF assms(3)]
  by (simp add: RespostaDNS_def campoBytes_def campoVarint_def varrer_def varrerVarint_def answer_of_def
      campoDnstapMessage_def campoMessageType_def campoResponseMessage_def tipoClientResponse_def tipoResolverResponse_def)

lemma scan_returns:
  assumes "lengths_sane b" "length b < 2 ^ 62"
  shows "(\<exists>r. campoBytes b numero = Some r \<and> r \<noteq> Panicked) \<and> (\<exists>r. campoVarint b numero = Some r \<and> r \<noteq> Panicked)"
  using bytes_loop.returns [OF assms, of 0 numero] varint_loop.returns [OF assms, of 0 numero]
  by (simp add: campoBytes_def campoVarint_def varrer_def varrerVarint_def)

text \<open>A part of such a message is such a message.\<close>

lemma uvarint_take:
  "fst (uvarint_from i x s (take m bs)) = fst (uvarint_from i x s bs) \<or> fst (uvarint_from i x s (take m bs)) = 0"
proof (induction i x s bs arbitrary: m rule: uvarint_from.induct)
  case (2 i x s b bs)
  then show ?case by (cases m) auto
qed simp

lemma lengths_sane_part:
  assumes "lengths_sane b" "k + n \<le> length b"
  shows "lengths_sane (take n (drop k b))"
  unfolding lengths_sane_def list_all_iff
proof
  fix i assume i: "i \<in> set [0..<length (take n (drop k b))]"
  then have "uint (fst (Uvarint (drop (k + i) b))) + int (length b) < 2 ^ 64"
    using assms by (auto simp: lengths_sane_def list_all_iff)
  moreover have eq: "drop i (take n (drop k b)) = take (n - i) (drop (k + i) b)"
    by (simp add: drop_take add.commute)
  moreover have "int (length (take n (drop k b))) \<le> int (length b)" by simp
  moreover have "uint (fst (Uvarint (drop i (take n (drop k b))))) \<le> uint (fst (Uvarint (drop (k + i) b)))"
    unfolding eq using uvarint_take [of 0 0 0 "n - i" "drop (k + i) b"] by (auto simp: Uvarint_def)
  ultimately show "uint (fst (Uvarint (drop i (take n (drop k b))))) + int (length (take n (drop k b))) < 2 ^ 64"
    by linarith
qed

lemma slice_between_part:
  assumes "slice_between b i j = Some v"
  shows "\<exists>k n. v = take n (drop k b) \<and> k + n \<le> length b"
proof (intro exI conjI)
  show "v = take (nat (uint j - sint i)) (drop (nat (sint i)) b)" "nat (sint i) + nat (uint j - sint i) \<le> length b"
    using assms by (auto simp: slice_between_def split: if_splits)
qed

lemma varrer_from_part:
  assumes "varrer_from b n q i = Some (Found (Some v))"
  obtains k m where "v = take m (drop k b)" "k + m \<le> length b"
proof -
  have "\<exists>k m. v = take m (drop k b) \<and> k + m \<le> length b"
    using assms
  proof (rule varrer_from.raw_induct [where P = "\<lambda>b n q i r. \<forall>v. r = Found (Some v) \<longrightarrow>
      (\<exists>k m. v = take m (drop k b) \<and> k + m \<le> length b)", rotated, rule_format])
    fix f b n i r v and q :: int
    assume IH: "\<And>b n q i r v. f b n q i = Some r \<Longrightarrow> r = Found (Some v) \<Longrightarrow>
        \<exists>k m. v = take m (drop k b) \<and> k + m \<le> length b"
      and eq: "(if sint i < int (length b) then
        (case field_at b i of
           Stop e \<Rightarrow> Some (stopped e)
         | VarintField _ _ j \<Rightarrow> f b n q j
         | BytesField num j tam \<Rightarrow>
             (if num = n \<and> q = 2
              then Some (case slice_between b j (j + tam) of None \<Rightarrow> Panicked | Some v \<Rightarrow> Found (Some v))
              else f b n q (j + tam))
         | OtherField j \<Rightarrow> f b n q j)
      else Some (Found None)) = Some r"
      and "r = Found (Some v)"
    then show "\<exists>k m. v = take m (drop k b) \<and> k + m \<le> length b"
      by (auto simp: stopped_def dest: slice_between_part split: if_splits field_at.splits option.splits)
  qed simp
  with that show ?thesis by blast
qed

lemma RespostaDNS_returns:
  assumes "lengths_sane b" "length b < 2 ^ 62"
  shows "\<exists>r. RespostaDNS b = Some r \<and> r \<noteq> Panicked"
proof -
  obtain r where r: "campoBytes b campoDnstapMessage = Some r" "r \<noteq> Panicked"
    using scan_returns [OF assms] by blast
  show ?thesis
  proof (cases "\<exists>msg. r = Found (Some msg)")
    case True
    then obtain msg where msg: "r = Found (Some msg)" by blast
    obtain k n where m: "msg = take n (drop k b)" "k + n \<le> length b"
      using r(1) unfolding msg campoBytes_def varrer_def by (rule varrer_from_part)
    have "lengths_sane msg" "length msg < 2 ^ 62"
      using lengths_sane_part [OF assms(1) m(2)] assms(2) m by simp_all
    note inner = scan_returns [OF this]
    obtain t where t: "campoVarint msg campoMessageType = Some t" "t \<noteq> Panicked" using inner by blast
    obtain u where u: "campoBytes msg campoResponseMessage = Some u" "u \<noteq> Panicked" using inner by blast
    from r msg t u show ?thesis by (cases t) (auto simp: RespostaDNS_def)
  next
    case False
    with r show ?thesis by (auto simp: RespostaDNS_def split: scan.split option.split)
  qed
qed

text \<open>C38. The scanner ends: on every frame in which no length makes the sum wrap, wherever in the frame it
  is read, \<open>RespostaDNS\<close> returns the answer's bytes, nothing or an error, without an index out of range,
  in the frame and in the message inside it.
\<close>
theorem scanner_returns:
  assumes "lengths_sane b" "length b < 2 ^ 62"
  shows "\<exists>r. RespostaDNS b = Some r \<and> r \<noteq> Panicked"
  using assms by (rule RespostaDNS_returns)

subsection \<open>When they do not\<close>

definition endless_frame :: bytes where
  "endless_frame = [0x0a, 0xf5, 0xff, 0xff, 0xff, 0xff, 0xff, 0xff, 0xff, 0xff, 0x01]"

definition fatal_frame :: bytes where
  "fatal_frame = [0x72, 0xff, 0xff, 0xff, 0xff, 0xff, 0xff, 0xff, 0xff, 0xff, 0x01]"

lemma endless_field: "field_at endless_frame 0 = BytesField 1 11 (- 11)"
  by code_simp

lemma fatal_field: "field_at fatal_frame 0 = BytesField 14 11 (- 1)"
  by code_simp

lemma varrer_endless:
  assumes "field_at b 0 = BytesField num j (- j)" "b \<noteq> []" "num \<noteq> n"
  shows "varrer_from b n q 0 = None"
proof (rule ccontr)
  assume "varrer_from b n q 0 \<noteq> None"
  then obtain r where ret: "varrer_from b n q 0 = Some r" by auto
  have "0 \<noteq> (0 :: 64 word) \<or> b \<noteq> b \<or> n \<noteq> n"
  proof (rule varrer_from.raw_induct [where P = "\<lambda>b' n' q' i r. i \<noteq> 0 \<or> b' \<noteq> b \<or> n' \<noteq> n", OF _ ret])
    fix f b' n' q' i r
    assume IH: "\<And>b' n' q' i r. f b' n' q' i = Some r \<Longrightarrow> i \<noteq> 0 \<or> b' \<noteq> b \<or> n' \<noteq> n"
      and eq: "(if sint i < int (length b') then
        (case field_at b' i of
           Stop e \<Rightarrow> Some (stopped e)
         | VarintField _ _ j \<Rightarrow> f b' n' q' j
         | BytesField num j tam \<Rightarrow>
             (if num = n' \<and> q' = 2
              then Some (case slice_between b' j (j + tam) of None \<Rightarrow> Panicked | Some v \<Rightarrow> Found (Some v))
              else f b' n' q' (j + tam))
         | OtherField j \<Rightarrow> f b' n' q' j)
      else Some (Found None)) = Some r"
    show "i \<noteq> 0 \<or> b' \<noteq> b \<or> n' \<noteq> n"
    proof (rule ccontr)
      assume "\<not> (i \<noteq> 0 \<or> b' \<noteq> b \<or> n' \<noteq> n)"
      with eq assms have "f b n q' 0 = Some r" by simp
      with IH show False by blast
    qed
  qed
  then show False by simp
qed

text \<open>A frame of eleven bytes can stop the collector, or the whole program.  A length that makes
  the sum wrap back to zero is skipped by going back to the start of the message, and the loop never
  ends; a length that wraps to a smaller position passes the check of the end and makes the slice
  panic, which nothing recovers.
\<close>
theorem hostile_frames:
  "RespostaDNS endless_frame = None \<and> RespostaDNS fatal_frame = Some Panicked"
proof
  have "campoBytes endless_frame campoDnstapMessage = None"
    unfolding campoBytes_def varrer_def
    by (rule varrer_endless [of _ 1 11]) (simp_all add: endless_field, simp_all add: endless_frame_def campoDnstapMessage_def)
  then show "RespostaDNS endless_frame = None" by (simp add: RespostaDNS_def)
  have "slice_between fatal_frame 11 10 = None" by code_simp
  moreover have "length fatal_frame = 11" by (simp add: fatal_frame_def)
  ultimately have "campoBytes fatal_frame campoDnstapMessage = Some Panicked"
    by (simp add: campoBytes_def varrer_def varrer_from.simps [of fatal_frame] fatal_field campoDnstapMessage_def)
  then show "RespostaDNS fatal_frame = Some Panicked" by (simp add: RespostaDNS_def)
qed

subsection \<open>An example\<close>

definition demo_message :: "field list" where
  "demo_message = [PFixed32 9 [1, 2, 3, 4], PVarint 1 6, PBytes 14 [7, 8]]"

definition demo_frame :: "field list" where
  "demo_frame = [PBytes 1 [0xff], PBytes 14 (put_message demo_message)]"

lemma demo_bytes:
  "put_message demo_message = [77, 1, 2, 3, 4, 8, 6, 114, 2, 7, 8]"
  "put_message demo_frame = [10, 1, 255, 114, 11, 77, 1, 2, 3, 4, 8, 6, 114, 2, 7, 8]"
  by code_simp+

lemma frame_reads_back_witness:
  "RespostaDNS (put_message demo_frame) = Some (Found (Some [7, 8]))"
proof -
  have "answer_of demo_message = Some [7, 8]" by code_simp
  then show ?thesis
    using frame_reads_back [of demo_frame demo_message]
    by (simp add: demo_bytes del: put_message_simps)
      (simp add: demo_bytes [symmetric] demo_frame_def del: put_message_simps, simp add: demo_message_def)
qed

lemma demo_sane: "lengths_sane (put_message demo_frame)"
  unfolding demo_bytes by code_simp

lemma scanner_returns_witness: "\<exists>r. RespostaDNS (put_message demo_frame) = Some r \<and> r \<noteq> Panicked"
  using scanner_returns [OF demo_sane] by (simp add: demo_bytes)

end
