(* ===== verification/DnstapCollector.thy ===== *)
theory DnstapCollector
  imports Dnstap
begin

text \<open>
  The transport, the map and the connection of the collector (\<open>internal/dnstap\<close>:
  \<open>framestream.go\<close>, \<open>resposta.go\<close>, \<open>mapa.go\<close>, \<open>servico.go\<close>).  A connection is the bytes
  that are still to come before its end, and the bytes written back; writing can fail, and a
  reader without a writer skips it.  The parser of DNS messages is a package of its own
  (golang.org/x/net/dns/dnsmessage), a parameter here.  A Go map is the list of its entries in
  the order a \<open>range\<close> visits them, which the language leaves open: the theorems hold for any.
  Times count nanoseconds from Go's zero time.
\<close>

subsection \<open>Frame Streams\<close>

definition controlAccept :: "32 word" where "controlAccept = 1"
definition controlStart :: "32 word" where "controlStart = 2"
definition controlStop :: "32 word" where "controlStop = 3"
definition controlReady :: "32 word" where "controlReady = 4"
definition controlFinish :: "32 word" where "controlFinish = 5"

definition maxFrame :: "32 word" where "maxFrame = 65536"

record reader =
  rd_in :: bytes
  rd_out :: bytes
  rd_writes :: "(nat \<Rightarrow> bool) option"
  rd_iniciou :: bool

datatype read_error =
  EOF | UnexpectedEOF | FrameTooLarge "32 word" | ControlTooLarge "32 word" | ControlTruncated nat | WriteFailed

definition be32 :: "bytes \<Rightarrow> 32 word" where
  "be32 b = push_bit 24 (ucast (b ! 0)) OR push_bit 16 (ucast (b ! 1)) OR push_bit 8 (ucast (b ! 2)) OR ucast (b ! 3)"

definition put_be32 :: "32 word \<Rightarrow> bytes" where
  "put_be32 w = [ucast (drop_bit 24 w), ucast (drop_bit 16 w), ucast (drop_bit 8 w), ucast w]"

text \<open>\<open>io.ReadFull\<close>: an end before the first byte is \<open>EOF\<close>, one after it is not.\<close>

definition read_full :: "nat \<Rightarrow> reader \<Rightarrow> reader \<times> (read_error + bytes)" where
  "read_full n rd =
     (if n \<le> length (rd_in rd) then (rd\<lparr>rd_in := drop n (rd_in rd)\<rparr>, Inr (take n (rd_in rd)))
      else (rd\<lparr>rd_in := []\<rparr>, Inl (if rd_in rd = [] then EOF else UnexpectedEOF)))"

definition read_u32 :: "reader \<Rightarrow> reader \<times> (read_error + 32 word)" where
  "read_u32 rd = (case read_full 4 rd of (rd', Inl e) \<Rightarrow> (rd', Inl e) | (rd', Inr b) \<Rightarrow> (rd', Inr (be32 b)))"

definition lerControle :: "reader \<Rightarrow> reader \<times> (read_error + 32 word \<times> bytes)" where
  "lerControle rd =
     (case read_u32 rd of
        (rd1, Inl e) \<Rightarrow> (rd1, Inl e)
      | (rd1, Inr tam) \<Rightarrow>
          if tam > maxFrame then (rd1, Inl (ControlTooLarge tam))
          else case read_full (unat tam) rd1 of
            (rd2, Inl e) \<Rightarrow> (rd2, Inl e)
          | (rd2, Inr buf) \<Rightarrow>
              if length buf < 4 then (rd2, Inl (ControlTruncated (length buf)))
              else (rd2, Inr (be32 (take 4 buf), drop 4 buf)))"

definition control_frame :: "32 word \<Rightarrow> bytes \<Rightarrow> bytes" where
  "control_frame tipo campos =
     (let corpo = put_be32 tipo @ campos in put_be32 0 @ put_be32 (of_nat (length corpo)) @ corpo)"

definition responder :: "32 word \<Rightarrow> bytes \<Rightarrow> reader \<Rightarrow> reader \<times> bool" where
  "responder tipo campos rd =
     (case rd_writes rd of
        None \<Rightarrow> (rd, True)
      | Some ok \<Rightarrow>
          if ok (length (rd_out rd)) then (rd\<lparr>rd_out := rd_out rd @ control_frame tipo campos\<rparr>, True)
          else (rd, False))"

lemma read_full_in: "read_full n rd = (rd', r) \<Longrightarrow> length (rd_in rd') \<le> length (rd_in rd)"
  by (auto simp: read_full_def split: if_splits)

lemma read_u32_in: "read_u32 rd = (rd', Inr w) \<Longrightarrow> length (rd_in rd') < length (rd_in rd)"
  by (auto simp: read_u32_def read_full_def split: prod.splits sum.splits if_splits)

lemma lerControle_in: "lerControle rd = (rd', Inr x) \<Longrightarrow> length (rd_in rd') < length (rd_in rd)"
  by (auto simp: lerControle_def dest!: read_u32_in read_full_in split: prod.splits sum.splits if_splits)

lemma responder_in: "responder t c rd = (rd', ok) \<Longrightarrow> rd_in rd' = rd_in rd"
  by (auto simp: responder_def split: option.splits if_splits)

text \<open>One round of the loop of \<open>Next\<close>.\<close>

datatype round = Ends read_error | Delivers bytes | Goes_on

definition next_round :: "reader \<Rightarrow> reader \<times> round" where
  "next_round rd =
     (case read_u32 rd of
        (rd1, Inl e) \<Rightarrow> (rd1, Ends e)
      | (rd1, Inr tam) \<Rightarrow>
          if tam \<noteq> 0 then
            (if tam > maxFrame then (rd1, Ends (FrameTooLarge tam))
             else case read_full (unat tam) rd1 of
               (rd2, Inl e) \<Rightarrow> (rd2, Ends e) | (rd2, Inr buf) \<Rightarrow> (rd2, Delivers buf))
          else case lerControle rd1 of
            (rd2, Inl e) \<Rightarrow> (rd2, Ends e)
          | (rd2, Inr (tipo, corpo)) \<Rightarrow>
              if tipo = controlReady then
                (case responder controlAccept corpo rd2 of
                   (rd3, ok) \<Rightarrow> if ok then (rd3\<lparr>rd_iniciou := True\<rparr>, Goes_on) else (rd3, Ends WriteFailed))
              else if tipo = controlStart \<or> tipo = controlAccept then (rd2\<lparr>rd_iniciou := True\<rparr>, Goes_on)
              else if tipo = controlStop then (fst (responder controlFinish [] rd2), Ends EOF)
              else if tipo = controlFinish then (rd2, Ends EOF)
              else (rd2, Goes_on))"

lemma next_round_in:
  assumes "next_round rd = (rd', r)" "r = Goes_on \<or> r = Delivers q"
  shows "length (rd_in rd') < length (rd_in rd)"
proof -
  obtain rd1 tam where u: "read_u32 rd = (rd1, Inr tam)"
    using assms by (auto simp: next_round_def split: prod.splits sum.splits)
  note u_in = read_u32_in [OF u]
  show ?thesis
  proof (cases "tam = 0")
    case True
    obtain rd2 tipo corpo where c: "lerControle rd1 = (rd2, Inr (tipo, corpo))"
      using assms u True by (auto simp: next_round_def split: prod.splits sum.splits)
    have "rd_in rd' = rd_in rd2"
      using assms u True c
      by (auto simp: next_round_def dest: responder_in split: prod.splits if_splits)
    with u_in lerControle_in [OF c] show ?thesis by simp
  next
    case False
    then have "length (rd_in rd') \<le> length (rd_in rd1)"
      using assms u by (auto simp: next_round_def dest: read_full_in split: prod.splits sum.splits if_splits)
    with u_in show ?thesis by simp
  qed
qed

function Next :: "reader \<Rightarrow> reader \<times> (read_error + bytes)" where
  "Next rd =
     (case next_round rd of
        (rd', Ends e) \<Rightarrow> (rd', Inl e)
      | (rd', Delivers buf) \<Rightarrow> (rd', Inr buf)
      | (rd', Goes_on) \<Rightarrow> Next rd')"
  by auto
termination
  by (relation "measure (\<lambda>rd. length (rd_in rd))") (auto dest!: sym [of "(_, _)"] next_round_in)

declare Next.simps [simp del]

lemma Next_in: "Next rd = (rd', Inr q) \<Longrightarrow> length (rd_in rd') < length (rd_in rd)"
proof (induction rd rule: Next.induct)
  case (1 rd)
  obtain rd1 r where r: "next_round rd = (rd1, r)" by fastforce
  show ?case
  proof (cases r)
    case Goes_on
    with r 1(2) have "Next rd1 = (rd', Inr q)" by (simp add: Next.simps [of rd])
    with 1(1) [OF r [symmetric]] Goes_on next_round_in [OF r] show ?thesis by fastforce
  next
    case (Delivers b)
    with r 1(2) next_round_in [OF r] show ?thesis by (simp add: Next.simps [of rd])
  qed (use 1(2) r in \<open>simp add: Next.simps [of rd]\<close>)
qed

text \<open>The loop of a connection, as far as reading goes: the frames delivered and how it ended.\<close>

function drain :: "reader \<Rightarrow> bytes list \<times> reader \<times> read_error" where
  "drain rd =
     (case Next rd of
        (rd', Inl e) \<Rightarrow> ([], rd', e)
      | (rd', Inr quadro) \<Rightarrow> (case drain rd' of (qs, rd'', e) \<Rightarrow> (quadro # qs, rd'', e)))"
  by auto
termination
  by (relation "measure (\<lambda>rd. length (rd_in rd))") (auto dest!: sym [of "(_, _)"] Next_in)

declare drain.simps [simp del]

subsection \<open>A conversation\<close>

datatype frame = DataFrame bytes | ControlFrame "32 word" bytes

fun put_frame :: "frame \<Rightarrow> bytes" where
  "put_frame (DataFrame b) = put_be32 (of_nat (length b)) @ b"
| "put_frame (ControlFrame t c) = control_frame t c"

fun frame_ok :: "frame \<Rightarrow> bool" where
  "frame_ok (DataFrame b) \<longleftrightarrow> b \<noteq> [] \<and> length b \<le> 65536"
| "frame_ok (ControlFrame t c) \<longleftrightarrow> length c + 4 \<le> 65536"

text \<open>What the collector takes from a conversation, and what it answers.\<close>

fun delivered :: "frame list \<Rightarrow> bytes list" where
  "delivered [] = []"
| "delivered (DataFrame b # fs) = b # delivered fs"
| "delivered (ControlFrame t c # fs) = (if t = controlStop \<or> t = controlFinish then [] else delivered fs)"

fun answered :: "frame list \<Rightarrow> bytes" where
  "answered [] = []"
| "answered (DataFrame b # fs) = answered fs"
| "answered (ControlFrame t c # fs) =
     (if t = controlReady then control_frame controlAccept c @ answered fs
      else if t = controlStop then control_frame controlFinish []
      else if t = controlFinish then []
      else answered fs)"

lemma length_put_be32 [simp]: "length (put_be32 w) = 4"
  by (simp add: put_be32_def)

lemma be32_put [simp]: "be32 (put_be32 w) = w"
proof (rule bit_word_eqI)
  fix n assume n: "n < LENGTH(32)"
  consider "n < 8" | "8 \<le> n" "n < 16" | "16 \<le> n" "n < 24" | "24 \<le> n" by linarith
  then show "bit (be32 (put_be32 w)) n = bit w n"
    by cases (use n in \<open>auto simp: be32_def put_be32_def bit_simps\<close>)
qed

lemma read_full_append:
  "rd_in rd = b @ rest \<Longrightarrow> read_full (length b) rd = (rd\<lparr>rd_in := rest\<rparr>, Inr b)"
  by (simp add: read_full_def)

lemma read_u32_put: "rd_in rd = put_be32 w @ rest \<Longrightarrow> read_u32 rd = (rd\<lparr>rd_in := rest\<rparr>, Inr w)"
  using read_full_append [of rd "put_be32 w" rest] by (simp add: read_u32_def)

lemma unat_of_nat_32: "k < 2 ^ 32 \<Longrightarrow> unat (of_nat k :: 32 word) = k"
  by (simp add: unsigned_of_nat take_bit_nat_eq_self)

lemma unat_maxFrame: "unat maxFrame = 65536"
proof -
  have "maxFrame = of_nat 65536" by (simp add: maxFrame_def)
  then show ?thesis using unat_of_nat_32 [of 65536] by simp
qed

lemma of_nat_frame:
  assumes "k \<le> 65536"
  shows "unat (of_nat k :: 32 word) = k" "\<not> (of_nat k :: 32 word) > maxFrame" "(of_nat k :: 32 word) = 0 \<longleftrightarrow> k = 0"
proof -
  show u: "unat (of_nat k :: 32 word) = k"
    using assms by (intro unat_of_nat_32) simp
  show "\<not> (of_nat k :: 32 word) > maxFrame"
    unfolding not_less word_le_nat_alt u unat_maxFrame by (rule assms)
  show "(of_nat k :: 32 word) = 0 \<longleftrightarrow> k = 0"
  proof
    assume "(of_nat k :: 32 word) = 0"
    with u have "unat (0 :: 32 word) = k" by (simp only:)
    then show "k = 0" by simp
  qed simp
qed

lemma lerControle_put:
  assumes "length c + 4 \<le> 65536" "rd_in rd = put_be32 (of_nat (length (put_be32 t @ c))) @ (put_be32 t @ c) @ rest"
  shows "lerControle rd = (rd\<lparr>rd_in := rest\<rparr>, Inr (t, c))"
  using read_u32_put [OF assms(2)] of_nat_frame [of "length (put_be32 t @ c)"] assms(1)
    read_full_append [of "rd\<lparr>rd_in := (put_be32 t @ c) @ rest\<rparr>" "put_be32 t @ c" rest]
  by (simp add: lerControle_def put_be32_def be32_put [unfolded put_be32_def])

lemma data_round:
  assumes "frame_ok (DataFrame b)" "rd_in rd = put_frame (DataFrame b) @ rest"
  shows "next_round rd = (rd\<lparr>rd_in := rest\<rparr>, Delivers b)"
  using read_u32_put [of rd "of_nat (length b)" "b @ rest"] of_nat_frame [of "length b"] assms
    read_full_append [of "rd\<lparr>rd_in := b @ rest\<rparr>" b rest]
  by (simp add: next_round_def)

lemma control_round:
  assumes "frame_ok (ControlFrame t c)" "rd_in rd = put_frame (ControlFrame t c) @ rest" "rd_writes rd = Some (\<lambda>_. True)"
  shows "next_round rd =
    (if t = controlReady
     then (rd\<lparr>rd_in := rest, rd_out := rd_out rd @ control_frame controlAccept c, rd_iniciou := True\<rparr>, Goes_on)
     else if t = controlStart \<or> t = controlAccept then (rd\<lparr>rd_in := rest, rd_iniciou := True\<rparr>, Goes_on)
     else if t = controlStop then (rd\<lparr>rd_in := rest, rd_out := rd_out rd @ control_frame controlFinish []\<rparr>, Ends EOF)
     else if t = controlFinish then (rd\<lparr>rd_in := rest\<rparr>, Ends EOF)
     else (rd\<lparr>rd_in := rest\<rparr>, Goes_on))"
proof -
  let ?rest = "put_be32 (of_nat (length (put_be32 t @ c))) @ (put_be32 t @ c) @ rest"
  have "read_u32 rd = (rd\<lparr>rd_in := ?rest\<rparr>, Inr 0)"
    using assms(2) by (intro read_u32_put) (simp add: control_frame_def Let_def)
  moreover have "lerControle (rd\<lparr>rd_in := ?rest\<rparr>) = (rd\<lparr>rd_in := rest\<rparr>, Inr (t, c))"
    using lerControle_put [of c "rd\<lparr>rd_in := ?rest\<rparr>" t rest] assms(1) by simp
  ultimately show ?thesis
    using assms(3) by (simp add: next_round_def responder_def)
qed

lemma drain_on: "next_round rd = (rd', Goes_on) \<Longrightarrow> drain rd = drain rd'"
  by (simp add: drain.simps [of rd] drain.simps [of rd'] Next.simps [of rd])

lemma drain_data: "next_round rd = (rd', Delivers b) \<Longrightarrow> drain rd = (case drain rd' of (qs, r) \<Rightarrow> (b # qs, r))"
  by (simp add: drain.simps [of rd] Next.simps [of rd] split: prod.split)

lemma drain_end: "next_round rd = (rd', Ends e) \<Longrightarrow> drain rd = ([], rd', e)"
  by (simp add: drain.simps [of rd] Next.simps [of rd])

lemma drain_frames:
  assumes "list_all frame_ok fs" "rd_in rd = concat (map put_frame fs)" "rd_writes rd = Some (\<lambda>_. True)"
  shows "\<exists>rd'. drain rd = (delivered fs, rd', EOF) \<and> rd_out rd' = rd_out rd @ answered fs"
  using assms
proof (induction fs arbitrary: rd)
  case Nil
  then have "next_round rd = (rd, Ends EOF)"
    by (cases rd) (simp add: next_round_def read_u32_def read_full_def)
  then show ?case by (simp add: drain_end)
next
  case (Cons f fs)
  show ?case
  proof (cases f)
    case (DataFrame b)
    with data_round [of b rd "concat (map put_frame fs)"] Cons.IH [of "rd\<lparr>rd_in := concat (map put_frame fs)\<rparr>"] Cons.prems
    show ?thesis by (force simp: drain_data)
  next
    case (ControlFrame t c)
    have ne: "controlReady \<noteq> controlStop" "controlReady \<noteq> controlFinish" "controlStart \<noteq> controlStop"
      "controlStart \<noteq> controlFinish" "controlAccept \<noteq> controlStop" "controlAccept \<noteq> controlFinish"
      "controlStart \<noteq> controlReady" "controlAccept \<noteq> controlReady" "controlStop \<noteq> controlReady"
      "controlFinish \<noteq> controlReady" "controlFinish \<noteq> controlStop"
      by (simp_all add: controlReady_def controlStop_def controlStart_def controlAccept_def controlFinish_def)
    obtain rd1 r where r: "next_round rd = (rd1, r)" by fastforce
    note round = control_round [of t c rd "concat (map put_frame fs)"]
    show ?thesis
    proof (cases "t = controlStop \<or> t = controlFinish")
      case True
      with round Cons.prems ControlFrame ne show ?thesis by (auto simp: drain_end)
    next
      case False
      have "r = Goes_on" "rd_in rd1 = concat (map put_frame fs)" "rd_writes rd1 = Some (\<lambda>_. True)"
        "rd_out rd1 = rd_out rd @ (if t = controlReady then control_frame controlAccept c else [])"
        using round Cons.prems ControlFrame False r by (auto split: if_splits)
      with Cons.IH [of rd1] Cons.prems(1) drain_on r False ControlFrame show ?thesis by auto
    qed
  qed
qed

text \<open>C29. The conversation with the resolver: from a connection that carries well-formed frames and can be
  written to, the collector takes exactly the data frames before the first STOP or FINISH, in order and
  byte for byte, and answers each READY with an ACCEPT of the same fields and a STOP with a FINISH, so that
  the sender neither waits for ever nor is cut off.
\<close>
theorem conversation_is_delivered:
  assumes "list_all frame_ok fs" "rd_in rd = concat (map put_frame fs)" "rd_writes rd = Some (\<lambda>_. True)"
  shows "\<exists>rd'. drain rd = (delivered fs, rd', EOF) \<and> rd_out rd' = rd_out rd @ answered fs"
  using assms by (rule drain_frames)

subsection \<open>What an answer teaches\<close>

type_synonym addr = bytes

record resposta =
  rs_Nome :: string
  rs_Enderecos :: "addr list"
  rs_TTL :: int

text \<open>The package dnsmessage: the header, the names of the questions and the answers of a message.\<close>

datatype dns_body = AResource bytes | AAAAResource bytes | OtherResource

record dns_header =
  dh_Response :: bool
  dh_RCode :: nat

record dnsmessage =
  dm_Start :: "bytes \<Rightarrow> dns_header option"
  dm_AllQuestions :: "bytes \<Rightarrow> string list option"
  dm_AllAnswers :: "bytes \<Rightarrow> (dns_body \<times> 32 word) list option"

definition second :: int where "second = 10 ^ 9"

definition trimPonto :: "string \<Rightarrow> string" where
  "trimPonto s = (if s \<noteq> [] \<and> last s = CHR ''.'' then butlast s else s)"

fun learn_answers :: "(dns_body \<times> 32 word) list \<Rightarrow> addr list \<Rightarrow> int \<Rightarrow> addr list \<times> int" where
  "learn_answers [] es ttl = (es, ttl)"
| "learn_answers ((corpo, t) # rs) es out =
     (case (case corpo of AResource a \<Rightarrow> Some a | AAAAResource a \<Rightarrow> Some a | OtherResource \<Rightarrow> None) of
        None \<Rightarrow> learn_answers rs es out
      | Some a \<Rightarrow>
          let ttl = uint t * second in
          learn_answers rs (es @ [a]) (if out = 0 \<or> ttl < out then ttl else out))"

text \<open>\<open>Inl ()\<close> is an error of the parser, \<open>Inr None\<close> nothing to learn.\<close>

definition Extrair :: "dnsmessage \<Rightarrow> bytes \<Rightarrow> unit + resposta option" where
  "Extrair p fio =
     (case dm_Start p fio of
        None \<Rightarrow> Inl ()
      | Some cab \<Rightarrow>
          if \<not> dh_Response cab \<or> dh_RCode cab \<noteq> 0 then Inr None
          else case dm_AllQuestions p fio of
            None \<Rightarrow> Inr None
          | Some [] \<Rightarrow> Inr None
          | Some (q # _) \<Rightarrow>
              (case dm_AllAnswers p fio of
                 None \<Rightarrow> Inl ()
               | Some respostas \<Rightarrow>
                   (case learn_answers respostas [] 0 of
                      ([], _) \<Rightarrow> Inr None
                    | (es, ttl) \<Rightarrow> Inr (Some \<lparr>rs_Nome = trimPonto q, rs_Enderecos = es, rs_TTL = ttl\<rparr>))))"

subsection \<open>The map\<close>

definition MaxEntradas :: nat where "MaxEntradas = 20000"
definition TTLMinimo :: int where "TTLMinimo = 5 * 60 * second"
definition TTLMaximo :: int where "TTLMaximo = 24 * 60 * 60 * second"

record entrada =
  en_nome :: string
  en_expira :: int
  en_entrou :: int

record mapa =
  mp_itens :: "(addr \<times> entrada) list"
  mp_cheio :: bool

definition NovoMapa :: mapa where
  "NovoMapa = \<lparr>mp_itens = [], mp_cheio = False\<rparr>"

text \<open>A time or an address that was never set is Go's zero value.\<close>

fun mais_velho :: "(addr \<times> entrada) list \<Rightarrow> addr \<Rightarrow> int \<Rightarrow> addr" where
  "mais_velho [] alvo t = alvo"
| "mais_velho ((a, e) # es) alvo t =
     (if t = 0 \<or> en_entrou e < t then mais_velho es a (en_entrou e) else mais_velho es alvo t)"

definition descartarMaisAntigo :: "mapa \<Rightarrow> mapa" where
  "descartarMaisAntigo m =
     (let alvo = mais_velho (mp_itens m) [] 0 in
      if alvo \<noteq> [] then m\<lparr>mp_itens := filter (\<lambda>(a, _). a \<noteq> alvo) (mp_itens m)\<rparr> else m)"

definition aprender_um :: "string \<Rightarrow> int \<Rightarrow> int \<Rightarrow> addr \<Rightarrow> mapa \<Rightarrow> mapa" where
  "aprender_um nome agora ttl a m =
     (let m1 = (if MaxEntradas \<le> length (mp_itens m) \<and> map_of (mp_itens m) a = None
                then descartarMaisAntigo (m\<lparr>mp_cheio := True\<rparr>) else m) in
      m1\<lparr>mp_itens := (a, \<lparr>en_nome = nome, en_expira = agora + ttl, en_entrou = agora\<rparr>)
                      # filter (\<lambda>(b, _). b \<noteq> a) (mp_itens m1)\<rparr>)"

definition clamp_ttl :: "int \<Rightarrow> int" where
  "clamp_ttl ttl0 =
     (let ttl = (if ttl0 < TTLMinimo then TTLMinimo else ttl0) in if ttl > TTLMaximo then TTLMaximo else ttl)"

definition Aprender :: "int \<Rightarrow> resposta \<Rightarrow> mapa \<Rightarrow> mapa" where
  "Aprender agora r m =
     (if rs_Nome r = [] \<or> rs_Enderecos r = [] then m
      else fold (aprender_um (rs_Nome r) agora (clamp_ttl (rs_TTL r))) (rs_Enderecos r) m)"

definition Nome :: "int \<Rightarrow> addr \<Rightarrow> mapa \<Rightarrow> string option" where
  "Nome agora a m =
     (case map_of (mp_itens m) a of
        None \<Rightarrow> None | Some e \<Rightarrow> if agora > en_expira e then None else Some (en_nome e))"

definition Estado :: "mapa \<Rightarrow> nat \<times> nat \<times> bool" where
  "Estado m = (length (mp_itens m), MaxEntradas, mp_cheio m)"

definition Limpar :: "int \<Rightarrow> mapa \<Rightarrow> mapa \<times> nat" where
  "Limpar agora m =
     (m\<lparr>mp_itens := filter (\<lambda>(_, e). \<not> agora > en_expira e) (mp_itens m)\<rparr>,
      length (filter (\<lambda>(_, e). agora > en_expira e) (mp_itens m)))"

subsection \<open>The invariant of the map\<close>

definition entrada_ok :: "addr \<times> entrada \<Rightarrow> bool" where
  "entrada_ok ae \<longleftrightarrow> fst ae \<noteq> [] \<and> 0 < en_entrou (snd ae)
     \<and> en_entrou (snd ae) + TTLMinimo \<le> en_expira (snd ae) \<and> en_expira (snd ae) \<le> en_entrou (snd ae) + TTLMaximo"

definition mapa_ok :: "mapa \<Rightarrow> bool" where
  "mapa_ok m \<longleftrightarrow> distinct (map fst (mp_itens m)) \<and> length (mp_itens m) \<le> MaxEntradas
     \<and> list_all entrada_ok (mp_itens m)"

lemma clamp_ttl_range: "TTLMinimo \<le> clamp_ttl t \<and> clamp_ttl t \<le> TTLMaximo"
  by (simp add: clamp_ttl_def TTLMinimo_def TTLMaximo_def second_def Let_def)

lemma mais_velho_in: "mais_velho es alvo t = alvo \<or> mais_velho es alvo t \<in> fst ` set es"
  by (induction es alvo t rule: mais_velho.induct) auto

lemma mais_velho_first:
  assumes "list_all entrada_ok es" "es \<noteq> []"
  shows "mais_velho es [] 0 \<in> fst ` set es"
proof (cases es)
  case (Cons x xs)
  then show ?thesis
    using assms mais_velho_in [of xs "fst x" "en_entrou (snd x)"] by (cases x) force
qed (use assms in simp)

lemma distinct_fst_filter: "distinct (map fst xs) \<Longrightarrow> distinct (map fst (filter P xs))"
  by (induction xs) auto

lemma length_filter_key:
  assumes "k \<in> fst ` set xs"
  shows "length (filter (\<lambda>(a, _). a \<noteq> k) xs) < length xs"
  using assms by (intro length_filter_less [of "(k, snd (hd (filter (\<lambda>x. fst x = k) xs)))"]) (induction xs; fastforce)+

lemma descartar_ok:
  assumes "mapa_ok m" "mp_itens m \<noteq> []"
  shows "mapa_ok (descartarMaisAntigo m) \<and> length (mp_itens (descartarMaisAntigo m)) < MaxEntradas"
  using assms mais_velho_first [of "mp_itens m"] length_filter_key [of "mais_velho (mp_itens m) [] 0" "mp_itens m"]
  by (auto simp: mapa_ok_def descartarMaisAntigo_def Let_def distinct_fst_filter list_all_iff entrada_ok_def)

lemma aprender_um_ok:
  assumes "mapa_ok m" "0 < agora" "TTLMinimo \<le> ttl" "ttl \<le> TTLMaximo" "a \<noteq> []"
  shows "mapa_ok (aprender_um nome agora ttl a m)"
proof -
  define m1 where "m1 = (if MaxEntradas \<le> length (mp_itens m) \<and> map_of (mp_itens m) a = None
                then descartarMaisAntigo (m\<lparr>mp_cheio := True\<rparr>) else m)"
  have "mapa_ok m1 \<and> (length (mp_itens m1) < MaxEntradas \<or> a \<in> fst ` set (mp_itens m1))"
  proof (cases "MaxEntradas \<le> length (mp_itens m) \<and> map_of (mp_itens m) a = None")
    case True
    then have "mp_itens m \<noteq> []" by (auto simp: MaxEntradas_def)
    with True descartar_ok [of "m\<lparr>mp_cheio := True\<rparr>"] assms(1) show ?thesis
      by (simp add: m1_def mapa_ok_def)
  next
    case False
    with assms(1) show ?thesis by (auto simp: m1_def map_of_eq_None_iff)
  qed
  then have m1: "mapa_ok m1" "length (mp_itens m1) < MaxEntradas \<or> a \<in> fst ` set (mp_itens m1)" by simp_all
  then have "length (filter (\<lambda>(b, _). b \<noteq> a) (mp_itens m1)) < MaxEntradas"
    using length_filter_key [of a "mp_itens m1"] le_less_trans [OF length_filter_le, of "mp_itens m1"]
    by (cases "a \<in> fst ` set (mp_itens m1)") (simp_all add: mapa_ok_def)
  then show ?thesis
    using assms m1 by (auto simp: aprender_um_def m1_def [symmetric] Let_def mapa_ok_def distinct_fst_filter list_all_iff entrada_ok_def)
qed

lemma Aprender_ok:
  assumes "mapa_ok m" "0 < agora" "[] \<notin> set (rs_Enderecos r)"
  shows "mapa_ok (Aprender agora r m)"
proof -
  have "mapa_ok (fold (aprender_um n agora (clamp_ttl t)) as m)" if "list_all (\<lambda>a. a \<noteq> []) as" for as n t
    using that assms(1,2) clamp_ttl_range [of t]
    by (induction as arbitrary: m) (auto intro: aprender_um_ok)
  moreover have "list_all (\<lambda>a. a \<noteq> []) (rs_Enderecos r)" using assms(3) by (auto simp: list_all_iff)
  ultimately show ?thesis using assms by (simp add: Aprender_def)
qed

lemma Limpar_ok: "mapa_ok m \<Longrightarrow> mapa_ok (fst (Limpar agora m))"
  using le_trans [OF length_filter_le]
  by (auto simp: mapa_ok_def Limpar_def distinct_fst_filter list_all_iff)


subsection \<open>What a name stands for\<close>

datatype map_op = Learn int resposta | Clean int

fun run_op :: "map_op \<Rightarrow> mapa \<Rightarrow> mapa" where
  "run_op (Learn agora r) m = Aprender agora r m"
| "run_op (Clean agora) m = fst (Limpar agora m)"

text \<open>The last answer about an address, with its time.\<close>

fun teaches :: "addr \<Rightarrow> map_op \<Rightarrow> bool" where
  "teaches a (Learn _ r) \<longleftrightarrow> rs_Nome r \<noteq> [] \<and> a \<in> set (rs_Enderecos r)"
| "teaches a (Clean _) \<longleftrightarrow> False"

fun last_answer :: "addr \<Rightarrow> map_op list \<Rightarrow> (int \<times> resposta) option" where
  "last_answer a ops = (case List.find (teaches a) (rev ops) of Some (Learn t r) \<Rightarrow> Some (t, r) | _ \<Rightarrow> None)"

definition entry_of :: "int \<times> resposta \<Rightarrow> entrada" where
  "entry_of tr = \<lparr>en_nome = rs_Nome (snd tr), en_expira = fst tr + clamp_ttl (rs_TTL (snd tr)), en_entrou = fst tr\<rparr>"

lemma map_of_filter_other: "map_of (filter (\<lambda>(b, _). b \<noteq> a) xs) c = (if c = a then None else map_of xs c)"
  by (induction xs) auto

lemma map_of_descartar: "map_of (mp_itens (descartarMaisAntigo m)) c = Some e \<Longrightarrow> map_of (mp_itens m) c = Some e"
  by (auto simp: descartarMaisAntigo_def Let_def map_of_filter_other split: if_splits)

lemma map_of_aprender_um:
  "map_of (mp_itens (aprender_um nome agora ttl a m)) c = Some e \<Longrightarrow>
   (if c = a then e = \<lparr>en_nome = nome, en_expira = agora + ttl, en_entrou = agora\<rparr>
    else map_of (mp_itens m) c = Some e)"
  by (auto simp: aprender_um_def Let_def map_of_filter_other dest: map_of_descartar split: if_splits)

lemma map_of_fold_aprender:
  "map_of (mp_itens (fold (aprender_um nome agora ttl) as m)) c = Some e \<Longrightarrow>
   (if c \<in> set as then e = \<lparr>en_nome = nome, en_expira = agora + ttl, en_entrou = agora\<rparr>
    else map_of (mp_itens m) c = Some e)"
proof (induction as arbitrary: m)
  case (Cons a as)
  show ?case
    using Cons.IH [of "aprender_um nome agora ttl a m"] Cons.prems map_of_aprender_um [of nome agora ttl a m c e]
    by (auto split: if_splits)
qed simp

lemma map_of_run_op:
  assumes "map_of (mp_itens (run_op op m)) c = Some e" "distinct (map fst (mp_itens m))"
  shows "(case op of Learn t r \<Rightarrow> teaches c op \<and> e = entry_of (t, r) | _ \<Rightarrow> False)
    \<or> \<not> teaches c op \<and> map_of (mp_itens m) c = Some e"
proof (cases op)
  case (Learn t r)
  with assms(1) map_of_fold_aprender [of "rs_Nome r" t "clamp_ttl (rs_TTL r)" "rs_Enderecos r" m c e] show ?thesis
    by (auto simp: Aprender_def entry_of_def split: if_splits)
next
  case (Clean t)
  then have "(c, e) \<in> set (mp_itens m)"
    using assms(1) by (auto simp: Limpar_def dest!: map_of_SomeD)
  with assms(2) Clean show ?thesis by simp
qed

lemma distinct_Aprender: "distinct (map fst (mp_itens m)) \<Longrightarrow> distinct (map fst (mp_itens (run_op op m)))"
proof (cases op)
  case (Learn t r)
  have "distinct (map fst (mp_itens (aprender_um n a l x m)))" if "distinct (map fst (mp_itens m))" for n a l x m
    using that by (auto simp: aprender_um_def Let_def descartarMaisAntigo_def distinct_fst_filter)
  then have "distinct (map fst (mp_itens (fold (aprender_um n a l) xs m)))" if "distinct (map fst (mp_itens m))" for n a l xs m
    using that by (induction xs arbitrary: m) auto
  then show "distinct (map fst (mp_itens m)) \<Longrightarrow> ?thesis" using Learn by (simp add: Aprender_def)
qed (simp add: Limpar_def distinct_fst_filter)

lemma run_ops_distinct: "distinct (map fst (mp_itens (fold run_op ops NovoMapa)))"
  by (induction ops rule: rev_induct) (simp_all add: NovoMapa_def distinct_Aprender)

lemma entry_is_last_answer:
  "map_of (mp_itens (fold run_op ops NovoMapa)) a = Some e \<Longrightarrow>
   \<exists>tr. last_answer a ops = Some tr \<and> e = entry_of tr"
proof (induction ops rule: rev_induct)
  case (snoc op ops)
  from snoc.prems map_of_run_op [of op "fold run_op ops NovoMapa" a e, OF _ run_ops_distinct] snoc.IH
  show ?case by (auto split: map_op.splits)
qed (simp add: NovoMapa_def)

text \<open>The map never says more than the last answer: a name it gives for an address is the name
  asked in the last answer that held the address, not older than the answer's time to live raised to
  five minutes and cut to a day, whatever was learned, dropped and cleaned in between.
\<close>
theorem name_is_the_last_answer:
  assumes "Nome agora a (fold run_op ops NovoMapa) = Some n"
  shows "\<exists>t r. last_answer a ops = Some (t, r) \<and> n = rs_Nome r \<and> agora \<le> t + clamp_ttl (rs_TTL r)
    \<and> agora \<le> t + TTLMaximo"
proof -
  obtain e where e: "map_of (mp_itens (fold run_op ops NovoMapa)) a = Some e" "\<not> agora > en_expira e" "n = en_nome e"
    using assms by (auto simp: Nome_def split: option.splits if_splits)
  obtain t r where tr: "last_answer a ops = Some (t, r)" "e = entry_of (t, r)"
    using entry_is_last_answer [OF e(1)] by fastforce
  with e clamp_ttl_range [of "rs_TTL r"] show ?thesis by (simp add: entry_of_def)
qed

subsection \<open>A connection\<close>

text \<open>\<open>co_agora c k\<close> is the time at which the \<open>k\<close>-th answer of the connection is learned.\<close>

record collector =
  co_dns :: dnsmessage
  co_agora :: "nat \<Rightarrow> int"

datatype ending = Ended read_error | Crashed

text \<open>\<open>atender\<close> from some point on: the map, the answers learned so far, which are those the observer
  was told of, and how it ends; \<open>None\<close> when it does not.\<close>

function atender :: "collector \<Rightarrow> reader \<Rightarrow> mapa \<Rightarrow> resposta list \<Rightarrow> (mapa \<times> resposta list \<times> ending) option" where
  "atender c rd m seen =
     (case Next rd of
        (rd', Inl e) \<Rightarrow> Some (m, seen, Ended e)
      | (rd', Inr quadro) \<Rightarrow>
          (case RespostaDNS quadro of
             None \<Rightarrow> None
           | Some Panicked \<Rightarrow> Some (m, seen, Crashed)
           | Some (Failed _) \<Rightarrow> atender c rd' m seen
           | Some (Found None) \<Rightarrow> atender c rd' m seen
           | Some (Found (Some fio)) \<Rightarrow>
               (case Extrair (co_dns c) fio of
                  Inl _ \<Rightarrow> atender c rd' m seen
                | Inr None \<Rightarrow> atender c rd' m seen
                | Inr (Some r) \<Rightarrow>
                    atender c rd' (Aprender (co_agora c (length seen)) r m) (seen @ [r]))))"
  by auto
termination
  by (relation "measure (\<lambda>(c, rd, m, seen). length (rd_in rd))") (auto dest!: sym [of "(_, _)"] Next_in)

declare atender.simps [simp del]

text \<open>What the frames of a connection teach.\<close>

definition frame_answer :: "collector \<Rightarrow> bytes \<Rightarrow> resposta option" where
  "frame_answer c q =
     (case RespostaDNS q of
        Some (Found (Some fio)) \<Rightarrow> (case Extrair (co_dns c) fio of Inr x \<Rightarrow> x | Inl _ \<Rightarrow> None)
      | _ \<Rightarrow> None)"

definition answers_in :: "collector \<Rightarrow> bytes list \<Rightarrow> resposta list" where
  "answers_in c qs = List.map_filter (frame_answer c) qs"

definition learned_from :: "collector \<Rightarrow> nat \<Rightarrow> resposta list \<Rightarrow> map_op list" where
  "learned_from c k rs = map (\<lambda>(i, r). Learn (co_agora c i) r) (enumerate k rs)"

lemma answers_in_simps [simp]:
  "answers_in c [] = []"
  "answers_in c (q # qs) = (case frame_answer c q of None \<Rightarrow> answers_in c qs | Some r \<Rightarrow> r # answers_in c qs)"
  by (simp_all add: answers_in_def map_filter_simps fun_eq_iff split: option.split)

lemma learned_from_simps [simp]:
  "learned_from c k [] = []" "learned_from c k (r # rs) = Learn (co_agora c k) r # learned_from c (Suc k) rs"
  by (simp_all add: learned_from_def)

lemma Next_size:
  assumes "Next rd = (rd', Inr q)"
  shows "q \<noteq> [] \<and> length q \<le> 65536"
  using assms
proof (induction rd rule: Next.induct)
  case (1 rd)
  obtain rd1 r where r: "next_round rd = (rd1, r)" by fastforce
  show ?case
  proof (cases r)
    case Goes_on
    with r 1(2) have "Next rd1 = (rd', Inr q)" by (simp add: Next.simps [of rd])
    with 1(1) [OF r [symmetric]] Goes_on show ?thesis by simp
  next
    case (Delivers b)
    then have "q = b" using r 1(2) by (simp add: Next.simps [of rd])
    then obtain rd2 tam where d: "read_u32 rd = (rd2, Inr tam)" "tam \<noteq> 0" "\<not> tam > maxFrame" "read_full (unat tam) rd2 = (rd1, Inr q)"
      using r Delivers by (auto simp: next_round_def split: prod.splits sum.splits if_splits)
    then have "length q = unat tam" by (auto simp: read_full_def split: if_splits)
    with d(2,3) unat_maxFrame show ?thesis
      by (auto simp: not_less word_le_nat_alt unat_eq_0)
  qed (use 1(2) r in \<open>simp add: Next.simps [of rd]\<close>)
qed

lemma atender_sane:
  assumes "drain rd = (qs, rd', e)" "list_all lengths_sane qs"
  shows "atender c rd m seen = Some (fold run_op (learned_from c (length seen) (answers_in c qs)) m, seen @ answers_in c qs, Ended e)"
  using assms
proof (induction qs arbitrary: rd m seen)
  case Nil
  obtain rd1 r where r: "Next rd = (rd1, r)" by fastforce
  show ?case
  proof (cases r)
    case (Inl e')
    with Nil r show ?thesis by (simp add: drain.simps [of rd] atender.simps [of c rd])
  qed (use Nil r in \<open>simp add: drain.simps [of rd] split: prod.splits\<close>)
next
  case (Cons q qs)
  obtain rd1 r where r: "Next rd = (rd1, r)" by fastforce
  have r: "Next rd = (rd1, Inr q)" and rest: "drain rd1 = (qs, rd', e)"
    using Cons.prems(1) r by (cases r; simp add: drain.simps [of rd] split: prod.splits)+
  obtain s where s: "RespostaDNS q = Some s" "s \<noteq> Panicked"
    using RespostaDNS_returns [of q] Cons.prems(2) Next_size [OF r] by auto
  note IH = Cons.IH [OF rest]
  note step = atender.simps [of c rd m seen]
  show ?case
  proof (cases "frame_answer c q")
    case None
    with step r s IH Cons.prems(2) show ?thesis
      by (auto simp: frame_answer_def split: scan.splits option.splits sum.splits)
  next
    case (Some x)
    then obtain fio where "s = Found (Some fio)" "Extrair (co_dns c) fio = Inr (Some x)"
      using s by (auto simp: frame_answer_def split: scan.splits option.splits sum.splits)
    with step r s IH Some Cons.prems(2) show ?thesis by simp
  qed
qed

text \<open>A connection whose frames have sane lengths does all it should and nothing else: it never
  hangs and never panics, it ends as the reading of the connection ends, and it has learned, in order,
  exactly the answers its frames carry, each of which the observer was told of once.
\<close>
theorem connection_learns_its_answers:
  assumes "drain rd = (qs, rd', e)" "list_all lengths_sane qs"
  shows "atender c rd m [] = Some (fold run_op (learned_from c 0 (answers_in c qs)) m, answers_in c qs, Ended e)"
  using atender_sane [OF assms, of c m "[]"] by simp

text \<open>The map never grows past its bound and never holds an address twice, whatever connections
  teach it and however often it is cleaned, as long as the parser gives addresses that are not empty.
\<close>
theorem map_stays_bounded:
  assumes "list_all (\<lambda>op. case op of Learn t r \<Rightarrow> 0 < t \<and> [] \<notin> set (rs_Enderecos r) | Clean _ \<Rightarrow> True) ops"
  shows "mapa_ok (fold run_op ops NovoMapa)"
  using assms
proof (induction ops rule: rev_induct)
  case Nil
  then show ?case by (simp add: mapa_ok_def NovoMapa_def)
next
  case (snoc op ops)
  then show ?case by (cases op) (simp_all add: Aprender_ok Limpar_ok)
qed

subsection \<open>An example\<close>

definition demo_dns :: dnsmessage where
  "demo_dns = \<lparr>dm_Start = (\<lambda>_. Some \<lparr>dh_Response = True, dh_RCode = 0\<rparr>),
     dm_AllQuestions = (\<lambda>_. Some [''lan.example.'']),
     dm_AllAnswers = (\<lambda>fio. Some [(OtherResource, 60), (AResource fio, 60)])\<rparr>"

definition demo_session :: "frame list" where
  "demo_session = [ControlFrame controlReady [9, 9], ControlFrame controlStart [],
     DataFrame (put_message demo_frame), ControlFrame controlStop [], DataFrame [1]]"

definition demo_reader :: reader where
  "demo_reader = \<lparr>rd_in = concat (map put_frame demo_session), rd_out = [], rd_writes = Some (\<lambda>_. True), rd_iniciou = False\<rparr>"

lemma demo_delivered: "delivered demo_session = [put_message demo_frame]"
  by (simp add: demo_session_def controlReady_def controlStart_def controlStop_def controlFinish_def)

lemma demo_session_ok: "list_all frame_ok demo_session"
  by (simp add: demo_session_def demo_bytes del: put_message_simps)

lemma conversation_is_delivered_witness:
  "\<exists>rd'. drain demo_reader = ([put_message demo_frame], rd', EOF)
     \<and> rd_out rd' = control_frame controlAccept [9, 9] @ control_frame controlFinish []"
proof -
  have "answered demo_session = control_frame controlAccept [9, 9] @ control_frame controlFinish []"
    by (simp add: demo_session_def controlReady_def controlStart_def controlStop_def controlFinish_def)
  then show ?thesis
    using conversation_is_delivered [OF demo_session_ok, of demo_reader]
    by (simp add: demo_reader_def demo_delivered)
qed

definition demo_collector :: collector where
  "demo_collector = \<lparr>co_dns = demo_dns, co_agora = (\<lambda>k. 10 + int k)\<rparr>"

definition demo_answer :: resposta where
  "demo_answer = \<lparr>rs_Nome = ''lan.example'', rs_Enderecos = [[7, 8]], rs_TTL = 60 * second\<rparr>"

lemma demo_answers: "answers_in demo_collector [put_message demo_frame] = [demo_answer]"
  unfolding demo_bytes by code_simp

lemma connection_learns_its_answers_witness:
  "\<exists>e. atender demo_collector demo_reader NovoMapa [] =
     Some (Aprender 10 demo_answer NovoMapa, [demo_answer], Ended e)"
proof -
  obtain rd' e where d: "drain demo_reader = ([put_message demo_frame], rd', e)"
    using drain_frames [OF demo_session_ok, of demo_reader] by (auto simp: demo_reader_def demo_delivered)
  show ?thesis
    using connection_learns_its_answers [OF d, of demo_collector NovoMapa] demo_sane demo_answers
    by (simp add: demo_collector_def)
qed

lemma map_stays_bounded_witness: "mapa_ok (fold run_op [Learn 10 demo_answer, Clean 20, Learn 30 demo_answer] NovoMapa)"
  using map_stays_bounded [of "[Learn 10 demo_answer, Clean 20, Learn 30 demo_answer]"]
  by (simp add: demo_answer_def)

lemma name_is_the_last_answer_witness:
  "\<exists>t r. last_answer [7, 8] [Learn 10 demo_answer] = Some (t, r) \<and> ''lan.example'' = rs_Nome r
     \<and> 20 \<le> t + clamp_ttl (rs_TTL r) \<and> 20 \<le> t + TTLMaximo"
proof -
  have "Nome 20 [7, 8] (fold run_op [Learn 10 demo_answer] NovoMapa) = Some ''lan.example''"
    by (simp add: Nome_def Aprender_def demo_answer_def aprender_um_def NovoMapa_def MaxEntradas_def Let_def
        clamp_ttl_def TTLMinimo_def TTLMaximo_def second_def)
  from name_is_the_last_answer [OF this] show ?thesis .
qed

end
