(* ===== verification/Ledger.thy ===== *)
theory Ledger
  imports Prelude
begin

text \<open>
  Byte counts kept per key: the accumulators in memory and the tables \<open>link_usage\<close> and
  \<open>host_usage\<close> of the quotas are both lists of (key, bytes received and sent).  A counter is
  a 64-bit word, as in Go; a table is taken to hold what was added to it (SQLite keeps 64-bit
  integers, and 2^63 bytes are eight exabytes).
\<close>

type_synonym traffic = "64 word \<times> 64 word"

fun plus_traffic :: "traffic \<Rightarrow> traffic \<Rightarrow> traffic" where
  "plus_traffic (a, b) (c, d) = (a + c, b + d)"

text \<open>\<open>d := m[k]; d.rx += rx; d.tx += tx; m[k] = d\<close>, and the \<open>ON CONFLICT DO UPDATE\<close> of the tables.\<close>

fun book :: "'k \<Rightarrow> traffic \<Rightarrow> ('k \<times> traffic) list \<Rightarrow> ('k \<times> traffic) list" where
  "book k d [] = [(k, d)]"
| "book k d ((k', d') # L) = (if k' = k then (k', plus_traffic d' d) # L else (k', d') # book k d L)"

definition book_all :: "('k \<times> traffic) list \<Rightarrow> ('k \<times> traffic) list \<Rightarrow> ('k \<times> traffic) list" where
  "book_all ds L = fold (\<lambda>(k, d). book k d) ds L"

definition entry :: "'k \<Rightarrow> ('k \<times> traffic) list \<Rightarrow> traffic" where
  "entry k L = (case map_of L k of None \<Rightarrow> (0, 0) | Some d \<Rightarrow> d)"

definition used_bytes :: "traffic \<Rightarrow> 64 word" where
  "used_bytes d = fst d + snd d"

text \<open>What the entries whose key satisfies \<open>P\<close> hold, read by \<open>f\<close>.\<close>

definition amount :: "(traffic \<Rightarrow> 64 word) \<Rightarrow> ('k \<Rightarrow> bool) \<Rightarrow> ('k \<times> traffic) list \<Rightarrow> 64 word" where
  "amount f P L = sum_list (map (\<lambda>(k, d). if P k then f d else 0) L)"

lemma amount_simps [simp]:
  "amount f P [] = 0"
  "amount f P ((k, d) # L) = (if P k then f d else 0) + amount f P L"
  "amount f P (L @ M) = amount f P L + amount f P M"
  by (simp_all add: amount_def)

lemma amount_none: "list_all (\<lambda>(k, _). \<not> P k) L \<Longrightarrow> amount f P L = 0"
  by (induction L) auto

lemma amount_split: "amount f P (filter Q L) + amount f P (filter (\<lambda>x. \<not> Q x) L) = amount f P L"
  by (induction L) (auto simp: algebra_simps)

lemma amount_filter_key: "amount f P (filter (\<lambda>(k, _). Q k) L) = amount f (\<lambda>k. P k \<and> Q k) L"
  by (induction L) auto

lemma keys_book: "fst ` set (book k d L) = insert k (fst ` set L)"
proof (induction L)
  case (Cons x L)
  then show ?case by (cases x) (simp add: insert_commute)
qed simp

lemma distinct_book: "distinct (map fst L) \<Longrightarrow> distinct (map fst (book k d L))"
proof (induction L)
  case (Cons x L)
  have "fst x \<notin> fst ` set (book k d L)" if "fst x \<noteq> k"
    using that Cons.prems by (simp add: keys_book)
  with Cons show ?case by (cases x) auto
qed simp

lemma distinct_book_all: "distinct (map fst L) \<Longrightarrow> distinct (map fst (book_all ds L))"
  unfolding book_all_def by (induction ds arbitrary: L) (auto simp: distinct_book)

lemma entry_notin: "k \<notin> fst ` set L \<Longrightarrow> entry k L = (0, 0)"
  by (simp add: entry_def map_of_eq_None_iff [THEN iffD2])

lemma entry_book: "entry k' (book k d L) = (if k' = k then plus_traffic (entry k L) d else entry k' L)"
  by (induction k d L rule: book.induct) (auto simp: entry_def)

lemma entry_Cons: "entry k ((k', d) # L) = (if k' = k then d else entry k L)"
  by (simp add: entry_def)

subsection \<open>A counter\<close>

locale counter =
  fixes f :: "traffic \<Rightarrow> 64 word"
  assumes plus: "f (plus_traffic d e) = f d + f e"
    and zero: "f (0, 0) = 0"
begin

lemma amount_book: "amount f P (book k d L) = amount f P L + (if P k then f d else 0)"
  by (induction k d L rule: book.induct) (auto simp: plus)

lemma amount_book_all: "amount f P (book_all ds L) = amount f P L + amount f P ds"
  unfolding book_all_def by (induction ds arbitrary: L) (auto simp: amount_book)

lemma amount_remove:
  "distinct (map fst L) \<Longrightarrow>
   amount f P (filter (\<lambda>(k', _). k' \<noteq> k) L) + (if P k then f (entry k L) else 0) = amount f P L"
proof (induction L)
  case Nil
  then show ?case by (simp add: entry_def zero)
next
  case (Cons x L)
  obtain k' d where x: "x = (k', d)" by (cases x) blast
  have "filter (\<lambda>(k', _). k' \<noteq> k) L = L" if "k' = k"
    using Cons.prems that x by (force simp: filter_id_conv)
  with Cons show ?case by (auto simp: x entry_Cons algebra_simps)
qed

lemma amount_key: "distinct (map fst L) \<Longrightarrow> amount f (\<lambda>k'. k' = k) L = f (entry k L)"
  using amount_remove [of L "\<lambda>k'. k' = k" k] by (simp add: amount_filter_key amount_none list_all_iff)

end

interpretation received: counter fst
  by unfold_locales auto

interpretation sent: counter snd
  by unfold_locales auto

interpretation both: counter used_bytes
  by unfold_locales (auto simp: used_bytes_def)

end
