(* ===== verification/Calendar.thy ===== *)
theory Calendar
  imports Prelude
begin

text \<open>
  The part of Go's package time that the quota cycles use: dates of the Gregorian calendar in a
  zone at a fixed distance from UTC, and the cycles of \<open>internal/linkquota\<close> and
  \<open>internal/hostquota\<close>.  An instant is a Unix time in seconds; a month is counted from the year
  0; a day of the calendar is counted from the first day of the year 1.  A zone is its offset in
  seconds: changes of the offset (daylight saving) are not modelled.
\<close>

subsection \<open>Months and days\<close>

definition leap :: "int \<Rightarrow> bool" where
  "leap y \<longleftrightarrow> 4 dvd y \<and> (\<not> 100 dvd y \<or> 400 dvd y)"

definition days_before_year :: "int \<Rightarrow> int" where
  "days_before_year y = 365 * (y - 1) + (y - 1) div 4 - (y - 1) div 100 + (y - 1) div 400"

definition days_before_month :: "bool \<Rightarrow> int \<Rightarrow> int" where
  "days_before_month l m =
     [0, 31, 59, 90, 120, 151, 181, 212, 243, 273, 304, 334] ! nat m + (if l \<and> m \<ge> 2 then 1 else 0)"

text \<open>The first day of a month; the month \<open>k\<close> is \<open>k mod 12\<close> (0 is January) of the year \<open>k div 12\<close>.\<close>

definition month_start :: "int \<Rightarrow> int" where
  "month_start k = days_before_year (k div 12) + days_before_month (leap (k div 12)) (k mod 12)"

lemma div_pred: "0 < d \<Longrightarrow> (y :: int) div d - (y - 1) div d = (if d dvd y then 1 else 0)"
proof (cases "d dvd y")
  case True
  assume d: "0 < d"
  from True obtain q where y: "y = d * q" by blast
  have "(y - 1) div d = (d * (q - 1) + (d - 1)) div d" by (simp add: y algebra_simps)
  also have "\<dots> = q - 1" using d by simp
  finally show ?thesis using d True by (simp add: y)
next
  case False
  assume d: "0 < d"
  define q r where "q = y div d" and "r = y mod d"
  have y: "y = d * q + r" by (simp add: q_def r_def)
  have "0 \<le> r" "r < d" "r \<noteq> 0" using d False by (simp_all add: r_def dvd_eq_mod_eq_0)
  then have r: "1 \<le> r" "r < d" by simp_all
  have "y - 1 = d * q + (r - 1)" using y by simp
  then have "(y - 1) div d = q" by (rule int_div_pos_eq) (use r in simp_all)
  then show ?thesis using False by (simp add: q_def)
qed

lemma year_length: "days_before_year (y + 1) - days_before_year y = (if leap y then 366 else 365)"
proof -
  define a b c where "a = (y - 1) div 4" and "b = (y - 1) div 100" and "c = (y - 1) div 400"
  have up: "y div 4 = a + (if 4 dvd y then 1 else 0)" "y div 100 = b + (if 100 dvd y then 1 else 0)"
    "y div 400 = c + (if 400 dvd y then 1 else 0)"
    using div_pred [of 4 y] div_pred [of 100 y] div_pred [of 400 y] by (simp_all add: a_def b_def c_def)
  have "100 dvd y" if "400 dvd y" using that by (rule dvd_trans [rotated]) simp
  moreover have "4 dvd y" if "100 dvd y" using that by (rule dvd_trans [rotated]) simp
  moreover have "days_before_year (y + 1) - days_before_year y =
      365 + (if 4 dvd y then 1 else 0) - (if 100 dvd y then 1 else 0) + (if 400 dvd y then 1 else 0)"
    unfolding days_before_year_def add_diff_cancel_right' up a_def [symmetric] b_def [symmetric] c_def [symmetric]
    by simp
  ultimately show ?thesis
    by (cases "400 dvd y"; cases "100 dvd y"; cases "4 dvd y"; simp add: leap_def)
qed

lemma month_cases:
  fixes m :: int
  assumes "0 \<le> m" "m < 12"
  shows "m \<in> {0, 1, 2, 3, 4, 5, 6, 7, 8, 9, 10, 11}"
  unfolding insert_iff empty_iff using assms by presburger

lemma month_length: "28 \<le> month_start (k + 1) - month_start k \<and> month_start (k + 1) - month_start k \<le> 31"
proof -
  define y m where "y = k div 12" and "m = k mod 12"
  have k: "k = 12 * y + m" "0 \<le> m" "m < 12" by (simp_all add: y_def m_def)
  show ?thesis
  proof (cases "m = 11")
    case True
    then have "k + 1 = 12 * (y + 1)" using k by simp
    then have "(k + 1) div 12 = y + 1" "(k + 1) mod 12 = 0" by simp_all
    then show ?thesis
      using year_length [of y] True
      by (simp add: month_start_def y_def [symmetric] m_def [symmetric] days_before_month_def)
  next
    case False
    then have "(k + 1) div 12 = y" "(k + 1) mod 12 = m + 1" using k
      by (auto intro: int_div_pos_eq [of _ _ _ "m + 1"] int_mod_pos_eq [of _ _ y])
    moreover have "28 \<le> days_before_month l (m + 1) - days_before_month l m
        \<and> days_before_month l (m + 1) - days_before_month l m \<le> 31" for l
      using month_cases [OF k(2,3)] False
      by (elim insertE emptyE; simp add: days_before_month_def numeral_2_eq_2 numeral_3_eq_3 numeral_eq_Suc)
    ultimately show ?thesis by (simp add: month_start_def y_def [symmetric] m_def [symmetric])
  qed
qed

lemma month_start_add: "month_start k + 28 * int n \<le> month_start (k + int n)"
proof (induction n)
  case (Suc n)
  with month_length [of "k + int n"] show ?case by (simp add: add.assoc add.commute [of 1])
qed simp

lemma month_start_mono: "j \<le> k \<Longrightarrow> month_start j \<le> month_start k"
  using month_start_add [of j "nat (k - j)"] by simp

lemma month_start_strict: "j < k \<Longrightarrow> month_start j + 28 \<le> month_start k"
  using month_start_add [of j "nat (k - j)"] by simp

text \<open>The month of a day: the last one that has begun, searched upwards.\<close>

function month_from :: "int \<Rightarrow> int \<Rightarrow> int" where
  "month_from n k = (if month_start (k + 1) \<le> n then month_from n (k + 1) else k)"
  by auto
termination
proof (relation "measure (\<lambda>(n, k). nat (n - month_start k))")
  fix n k assume "month_start (k + 1) \<le> n"
  with month_length [of k] show "((n, k + 1), (n, k)) \<in> measure (\<lambda>(n, k). nat (n - month_start k))" by simp
qed simp

declare month_from.simps [simp del]

definition month_of :: "int \<Rightarrow> int" where
  "month_of n = month_from n (12 * (n div 366 + 1))"

lemma month_from_begins: "month_start k \<le> n \<Longrightarrow> month_start (month_from n k) \<le> n \<and> n < month_start (month_from n k + 1)"
  by (induction n k rule: month_from.induct) (simp add: month_from.simps)

lemma month_of_day:
  assumes "0 \<le> n"
  shows "month_start (month_of n) \<le> n \<and> n < month_start (month_of n + 1)"
proof -
  define y where "y = n div 366"
  have y: "366 * y \<le> n" "0 \<le> y" using assms by (simp_all add: y_def pos_imp_zdiv_nonneg_iff)
  have "y div 400 \<le> y div 100" "y div 4 \<le> y" using y(2) by (simp_all add: zdiv_mono2 int_div_less_self)
  then have "y div 4 - y div 100 + y div 400 \<le> y" by linarith
  then have "days_before_year (y + 1) \<le> n" using y by (simp add: days_before_year_def)
  moreover have "12 * (y + 1) div 12 = y + 1" "12 * (y + 1) mod 12 = 0"
    by (simp_all only: nonzero_mult_div_cancel_left mod_mult_self1_is_0 zero_neq_numeral [symmetric] not_False_eq_True)
  ultimately have "month_start (12 * (y + 1)) \<le> n"
    by (simp add: month_start_def days_before_month_def)
  then show ?thesis unfolding month_of_def y_def [symmetric] by (rule month_from_begins)
qed

lemma month_unique: "month_start k \<le> n \<Longrightarrow> n < month_start (k + 1) \<Longrightarrow> 0 \<le> n \<Longrightarrow> month_of n = k"
  using month_of_day [of n] month_start_mono [of "k + 1" "month_of n"] month_start_mono [of "month_of n + 1" k]
  by linarith


subsection \<open>Instants\<close>

definition epoch_day :: int where "epoch_day = 719162"

definition local_day :: "int \<Rightarrow> int \<Rightarrow> int" where
  "local_day off t = (t + off) div 86400 + epoch_day"

text \<open>\<open>time.Date\<close> at midnight of a day of a month; a day past the end of the month runs into the next.\<close>

definition go_date :: "int \<Rightarrow> int \<Rightarrow> int \<Rightarrow> int" where
  "go_date off k day = (month_start k + day - 1 - epoch_day) * 86400 - off"

text \<open>The month and the day of the month of an instant.\<close>

definition civil :: "int \<Rightarrow> int \<Rightarrow> int \<times> int" where
  "civil off t = (let n = local_day off t; k = month_of n in (k, n - month_start k + 1))"

text \<open>\<open>AddDate(0, months, days)\<close> of a midnight.\<close>

definition add_date :: "int \<Rightarrow> int \<Rightarrow> int \<Rightarrow> int \<Rightarrow> int" where
  "add_date off months days t = (case civil off t of (k, d) \<Rightarrow> go_date off (k + months) (d + days))"

subsection \<open>Cycles\<close>

definition MaxCycleDay :: int where "MaxCycleDay = 28"

definition clamp_day :: "int \<Rightarrow> int" where
  "clamp_day day0 = (let day = (if day0 < 1 then 1 else day0) in if day > MaxCycleDay then MaxCycleDay else day)"

definition link_CycleStart :: "int \<Rightarrow> int \<Rightarrow> int \<Rightarrow> int" where
  "link_CycleStart off now day0 =
     (let start = go_date off (fst (civil off now)) (clamp_day day0) in
      if now < start then add_date off (- 1) 0 start else start)"

definition link_CycleEnd :: "int \<Rightarrow> int \<Rightarrow> int" where
  "link_CycleEnd off start = add_date off 1 0 start"

definition HostPeriodMonthly :: string where "HostPeriodMonthly = ''monthly''"
definition HostPeriodDaily :: string where "HostPeriodDaily = ''daily''"

definition host_CycleStart :: "int \<Rightarrow> int \<Rightarrow> string \<Rightarrow> int \<Rightarrow> int" where
  "host_CycleStart off now period day =
     (if period = HostPeriodDaily then (case civil off now of (k, d) \<Rightarrow> go_date off k d)
      else link_CycleStart off now day)"

definition host_CycleEnd :: "int \<Rightarrow> int \<Rightarrow> string \<Rightarrow> int" where
  "host_CycleEnd off start period =
     (if period = HostPeriodDaily then add_date off 0 1 start else link_CycleEnd off start)"

text \<open>Instants from the year 2 on.\<close>

definition dated :: "int \<Rightarrow> int \<Rightarrow> bool" where
  "dated off t \<longleftrightarrow> month_start 24 \<le> local_day off t"

lemma month_start_12: "month_start 12 = 0" "12 \<le> k \<Longrightarrow> 0 \<le> month_start k"
proof -
  show z: "month_start 12 = 0" by code_simp
  show "0 \<le> month_start k" if "12 \<le> k" using month_start_mono [OF that] z by simp
qed

lemma local_day_date: "local_day off (go_date off k d) = month_start k + d - 1"
  by (simp add: local_day_def go_date_def)

lemma le_div_mult_iff:
  fixes m s n :: int
  assumes "0 < n"
  shows "m \<le> s div n \<longleftrightarrow> m * n \<le> s"
proof
  assume "m \<le> s div n"
  then have "m * n \<le> s div n * n" using assms by (intro mult_right_mono) simp_all
  also have "\<dots> \<le> s" using assms by (simp add: minus_mod_eq_div_mult [symmetric])
  finally show "m * n \<le> s" .
next
  assume "m * n \<le> s"
  then have "m * n div n \<le> s div n" using assms by (intro zdiv_mono1)
  then show "m \<le> s div n" using assms by simp
qed

lemma day_bounds: "(x :: int) div 86400 * 86400 \<le> x \<and> x < x div 86400 * 86400 + 86400"
  by (simp add: minus_mod_eq_div_mult [symmetric])

lemma date_le_iff: "go_date off k d \<le> t \<longleftrightarrow> month_start k + d - 1 \<le> local_day off t"
proof -
  have "go_date off k d \<le> t \<longleftrightarrow> (month_start k + d - 1 - epoch_day) * 86400 \<le> t + off"
    by (auto simp: go_date_def)
  also have "\<dots> \<longleftrightarrow> month_start k + d - 1 - epoch_day \<le> (t + off) div 86400"
    by (simp add: le_div_mult_iff)
  finally show ?thesis by (simp add: local_day_def algebra_simps)
qed

lemma civil_date:
  assumes "1 \<le> d" "d \<le> 28" "0 \<le> month_start k"
  shows "civil off (go_date off k d) = (k, d)"
proof -
  have "month_of (month_start k + d - 1) = k"
    using assms month_length [of k] by (intro month_unique) auto
  then show ?thesis by (simp add: civil_def local_day_date Let_def)
qed

lemma add_date_date:
  "1 \<le> d \<Longrightarrow> d \<le> 28 \<Longrightarrow> 0 \<le> month_start k \<Longrightarrow> add_date off m n (go_date off k d) = go_date off (k + m) (d + n)"
  by (simp add: add_date_def civil_date)

lemma clamp_day_range: "1 \<le> clamp_day d \<and> clamp_day d \<le> 28"
  by (simp add: clamp_day_def MaxCycleDay_def Let_def)

text \<open>The cycle of an instant begins on a day \<open>d\<close> of a month \<open>k\<close> and the next on the same day of the next.\<close>

lemma link_cycle:
  assumes "month_start 13 \<le> local_day off t"
  obtains k where "link_CycleStart off t day = go_date off k (clamp_day day)"
    "go_date off k (clamp_day day) \<le> t" "t < go_date off (k + 1) (clamp_day day)"
    "12 \<le> k" "fst (civil off t) - 1 \<le> k"
proof -
  define d where "d = clamp_day day"
  define k where "k = fst (civil off t)"
  define n where "n = local_day off t"
  have d: "1 \<le> d" "d \<le> 28" using clamp_day_range by (simp_all add: d_def)
  have k: "k = month_of n" by (simp add: k_def n_def civil_def Let_def)
  have n0: "0 \<le> n" using assms month_start_12(2) [of 13] by (simp add: n_def)
  have n: "month_start k \<le> n" "n < month_start (k + 1)"
    using month_of_day [OF n0] by (simp_all add: k)
  have k13: "13 \<le> k"
    using n(2) assms month_start_mono [of "k + 1" 13] unfolding n_def by linarith
  have prev: "month_start (k - 1) + 28 \<le> month_start k" using month_start_strict [of "k - 1" k] by simp
  show ?thesis
  proof (cases "t < go_date off k d")
    case True
    then have "link_CycleStart off t day = go_date off (k - 1) d"
      using d k13 month_start_12(2) [of k] by (simp add: link_CycleStart_def k_def [symmetric] d_def [symmetric] add_date_date)
    moreover have "go_date off (k - 1) d \<le> t"
      using n prev d by (simp add: date_le_iff n_def [symmetric])
    ultimately show ?thesis
      using that [of "k - 1"] True k13 by (simp add: d_def k_def)
  next
    case False
    then have "link_CycleStart off t day = go_date off k d"
      by (simp add: link_CycleStart_def k_def [symmetric] d_def [symmetric])
    moreover have "t < go_date off (k + 1) d"
      using n d by (simp add: date_le_iff n_def [symmetric] flip: not_le)
    ultimately show ?thesis
      using that [of k] False k13 by (simp add: d_def k_def)
  qed
qed

lemma go_date_mono: "j \<le> k \<Longrightarrow> go_date off j d \<le> go_date off k d"
  by (simp add: go_date_def month_start_mono)

lemma cycle_unique:
  assumes "go_date off j d \<le> u" "u < go_date off (j + 1) d" "go_date off k d \<le> u" "u < go_date off (k + 1) d"
  shows "j = k"
  using assms go_date_mono [of "j + 1" k off d] go_date_mono [of "k + 1" j off d] by linarith

lemma cycle_of:
  assumes "go_date off k (clamp_day day) \<le> u" "u < go_date off (k + 1) (clamp_day day)" "13 \<le> k"
  shows "link_CycleStart off u day = go_date off k (clamp_day day)"
proof -
  have "month_start 13 \<le> local_day off u"
    using assms(1,3) month_start_mono [of 13 k] clamp_day_range [of day] by (simp add: date_le_iff)
  from link_cycle [OF this, of day] show ?thesis
    using cycle_unique assms by metis
qed

lemma link_CycleEnd_date:
  "12 \<le> k \<Longrightarrow> link_CycleEnd off (go_date off k (clamp_day day)) = go_date off (k + 1) (clamp_day day)"
  using clamp_day_range [of day] month_start_12(2) [of k] by (simp add: link_CycleEnd_def add_date_date)

lemma dated_cycle:
  assumes "dated off t"
  obtains k where "link_CycleStart off t day = go_date off k (clamp_day day)"
    "link_CycleEnd off (link_CycleStart off t day) = go_date off (k + 1) (clamp_day day)"
    "go_date off k (clamp_day day) \<le> t" "t < go_date off (k + 1) (clamp_day day)" "13 \<le> k"
proof -
  have 13: "month_start 13 \<le> local_day off t"
    using assms month_start_mono [of 13 24] by (simp add: dated_def)
  have n0: "0 \<le> local_day off t" using 13 month_start_12(2) [of 13] by simp
  have "month_start 24 < month_start (fst (civil off t) + 1)"
    using month_of_day [OF n0] assms by (simp add: dated_def civil_def Let_def)
  then have "24 \<le> fst (civil off t)" using month_start_mono [of "fst (civil off t) + 1" 24] by linarith
  with link_cycle [OF 13, of day] that link_CycleEnd_date show ?thesis by (smt (verit))
qed

text \<open>The cycles of a link tile the time: an instant lies in its cycle, every instant of a cycle belongs
  to that cycle and to no other, and the cycle ends exactly where the next one begins, whatever day of
  the month it closes on.
\<close>
theorem cycles_tile_the_time:
  assumes "dated off t" and "start = link_CycleStart off t day" and "finish = link_CycleEnd off start"
  shows "start \<le> t \<and> t < finish
    \<and> (\<forall>u. start \<le> u \<and> u < finish \<longrightarrow> link_CycleStart off u day = start)
    \<and> link_CycleStart off finish day = finish"
proof -
  obtain k where k: "start = go_date off k (clamp_day day)" "finish = go_date off (k + 1) (clamp_day day)"
    "start \<le> t" "t < finish" "13 \<le> k"
    using dated_cycle [OF assms(1), of day] assms(2,3) by metis
  have "link_CycleStart off u day = start" if "start \<le> u" "u < finish" for u
    using cycle_of [of off k day u] that k by simp
  moreover have "finish < go_date off (k + 1 + 1) (clamp_day day)"
    using month_start_strict [of "k + 1" "k + 2"] by (simp add: k(2) go_date_def add.commute)
  then have "link_CycleStart off finish day = finish"
    using cycle_of [of off "k + 1" day finish] k by simp
  ultimately show ?thesis using k by simp
qed

text \<open>A day of a device closes at midnight: the same, day by day.\<close>

lemma daily_cycle:
  "host_CycleStart off t HostPeriodDaily day = (local_day off t - epoch_day) * 86400 - off"
  by (simp add: host_CycleStart_def civil_def go_date_def Let_def)

lemma daily_cycle_holds:
  "host_CycleStart off t HostPeriodDaily day \<le> t \<and> t < host_CycleStart off t HostPeriodDaily day + 86400"
proof -
  show ?thesis using day_bounds [of "t + off"] unfolding daily_cycle local_day_def add_diff_cancel_right' by auto
qed

lemma daily_cycle_unique:
  assumes "host_CycleStart off t HostPeriodDaily d \<le> u" "u < host_CycleStart off t HostPeriodDaily d + 86400"
  shows "host_CycleStart off u HostPeriodDaily d = host_CycleStart off t HostPeriodDaily d"
proof -
  define q where "q = (t + off) div 86400"
  have "q * 86400 \<le> u + off" "u + off < q * 86400 + 86400"
    using assms unfolding daily_cycle by (simp_all add: local_day_def q_def)
  then have "(u + off) div 86400 = q" by (intro int_div_pos_eq [of _ _ _ "u + off - q * 86400"]) simp_all
  then show ?thesis unfolding daily_cycle by (simp add: local_day_def q_def)
qed

lemma cycles_tile_the_time_witness:
  "link_CycleStart (- 10800) 1785000000 28 \<le> 1785000000
   \<and> 1785000000 < link_CycleEnd (- 10800) (link_CycleStart (- 10800) 1785000000 28)"
proof -
  have "dated (- 10800) 1785000000" by code_simp
  from cycles_tile_the_time [OF this refl refl, of 28] show ?thesis by blast
qed

end
