(* ===== verification/Alerts.thy ===== *)
theory Alerts
  imports Prelude
begin

text \<open>
  The alerts of the panel (\<open>internal/alerts/service.go\<close>, \<open>internal/storage/repo_alerts.go\<close>): what
  opens an alert, what closes it and what is sent.  The table is the list of its rows, the newest
  first.  Every call of the database has a number and may fail, as \<open>ae_fails\<close> says; a call that
  fails changes nothing.  Times and log lines are left out, and a number that a sentence quotes
  (a percentage, a temperature) comes as the text Go formats it to.
\<close>

subsection \<open>The table\<close>

record alert =
  al_ID :: nat
  al_Type :: string
  al_Severity :: string
  al_Title :: string
  al_Message :: string
  al_LinkID :: string
  al_Resolved :: bool

datatype notice = Notify string string string | NotifyRecovery string string

record alert_state =
  as_rows :: "alert list"
  as_calls :: nat
  as_sent :: "notice list"

record alert_env =
  ae_fails :: "nat \<Rightarrow> bool"
  ae_notifier :: bool
  ae_notificarAparelho :: "bool source"

text \<open>\<open>GetAlerts(true, 0)\<close>.\<close>

definition GetOpenAlerts :: "alert_env \<Rightarrow> alert_state \<Rightarrow> alert_state \<times> alert list option" where
  "GetOpenAlerts env st =
     (st\<lparr>as_calls := Suc (as_calls st)\<rparr>,
      if ae_fails env (as_calls st) then None else Some (filter (\<lambda>a. \<not> al_Resolved a) (as_rows st)))"

text \<open>The identifier of a new row is fresh: the number of the call.\<close>

definition CreateAlert :: "alert_env \<Rightarrow> alert \<Rightarrow> alert_state \<Rightarrow> alert_state \<times> bool" where
  "CreateAlert env a st =
     (let st1 = st\<lparr>as_calls := Suc (as_calls st)\<rparr> in
      if ae_fails env (as_calls st) then (st1, False)
      else (st1\<lparr>as_rows := a\<lparr>al_ID := as_calls st\<rparr> # as_rows st\<rparr>, True))"

definition ResolveAlert :: "alert_env \<Rightarrow> nat \<Rightarrow> alert_state \<Rightarrow> alert_state" where
  "ResolveAlert env i st =
     (let st1 = st\<lparr>as_calls := Suc (as_calls st)\<rparr> in
      if ae_fails env (as_calls st) then st1
      else st1\<lparr>as_rows := map (\<lambda>a. if al_ID a = i then a\<lparr>al_Resolved := True\<rparr> else a) (as_rows st)\<rparr>)"

subsection \<open>Opening and closing\<close>

definition TypeRuleError :: string where "TypeRuleError = ''rule_error''"
definition TypeHostNovoNaRede :: string where "TypeHostNovoNaRede = ''host_novo_na_rede''"
definition TypeHostAcimaDoNormal :: string where "TypeHostAcimaDoNormal = ''host_acima_do_normal''"
definition TypeHostQuotaWarning :: string where "TypeHostQuotaWarning = ''host_quota_warning''"
definition TypeHostQuotaExceeded :: string where "TypeHostQuotaExceeded = ''host_quota_exceeded''"

definition SeverityInfo :: string where "SeverityInfo = ''info''"
definition SeverityWarning :: string where "SeverityWarning = ''warning''"
definition SeverityCritical :: string where "SeverityCritical = ''critical''"

definition tiposQueNomeiamAparelho :: "string list" where
  "tiposQueNomeiamAparelho = [TypeHostNovoNaRede, TypeHostAcimaDoNormal, TypeHostQuotaWarning, TypeHostQuotaExceeded]"

definition podeNotificar :: "alert_env \<Rightarrow> string \<Rightarrow> bool" where
  "podeNotificar env alertType =
     (if alertType \<notin> set tiposQueNomeiamAparelho then True
      else case ae_notificarAparelho env of Unset \<Rightarrow> False | Failing \<Rightarrow> False | Gives ok \<Rightarrow> ok)"

text \<open>The loop of \<open>Create\<close>: an open alert that already says it.\<close>

definition already_open :: "string \<Rightarrow> string \<Rightarrow> string \<Rightarrow> alert \<Rightarrow> bool" where
  "already_open alertType linkID message a \<longleftrightarrow>
     al_Type a = alertType \<and> al_LinkID a = linkID \<and> \<not> (alertType = TypeRuleError \<and> al_Message a \<noteq> message)"

definition new_alert :: "string \<Rightarrow> string \<Rightarrow> string \<Rightarrow> string \<Rightarrow> string \<Rightarrow> bool \<Rightarrow> alert" where
  "new_alert alertType severity title message linkID resolved =
     \<lparr>al_ID = 0, al_Type = alertType, al_Severity = severity, al_Title = title, al_Message = message,
      al_LinkID = linkID, al_Resolved = resolved\<rparr>"

text \<open>
  \<open>Create\<close> holds no lock: it looks at the open alerts, and then it inserts.  The two are separate steps
  (the result that ends it, or the row to insert), and another call can come between them.
\<close>

definition Create_look ::
  "alert_env \<Rightarrow> string \<Rightarrow> string \<Rightarrow> string \<Rightarrow> string \<Rightarrow> string \<Rightarrow> alert_state \<Rightarrow> alert_state \<times> (bool + alert)" where
  "Create_look env alertType severity title message linkID st =
     (case GetOpenAlerts env st of
        (st1, None) \<Rightarrow> (st1, Inl False)
      | (st1, Some alerts) \<Rightarrow>
          if list_ex (already_open alertType linkID message) alerts then (st1, Inl True)
          else (st1, Inr (new_alert alertType severity title message linkID False)))"

definition Create_insert :: "alert_env \<Rightarrow> alert \<Rightarrow> alert_state \<Rightarrow> alert_state \<times> bool" where
  "Create_insert env a st =
     (case CreateAlert env a st of
        (st1, False) \<Rightarrow> (st1, False)
      | (st1, True) \<Rightarrow>
          (if ae_notifier env \<and> podeNotificar env (al_Type a)
           then st1\<lparr>as_sent := as_sent st1 @ [Notify (al_Severity a) (al_Title a) (al_Message a)]\<rparr> else st1, True))"

definition Create ::
  "alert_env \<Rightarrow> string \<Rightarrow> string \<Rightarrow> string \<Rightarrow> string \<Rightarrow> string \<Rightarrow> alert_state \<Rightarrow> alert_state \<times> bool" where
  "Create env alertType severity title message linkID st =
     (case Create_look env alertType severity title message linkID st of
        (st1, Inl ok) \<Rightarrow> (st1, ok)
      | (st1, Inr a) \<Rightarrow> Create_insert env a st1)"

lemmas Create_defs = Create_def Create_look_def Create_insert_def

definition createRecovery :: "alert_env \<Rightarrow> string \<Rightarrow> string \<Rightarrow> string \<Rightarrow> string \<Rightarrow> alert_state \<Rightarrow> alert_state \<times> bool" where
  "createRecovery env alertType title message linkID st =
     (case CreateAlert env (new_alert alertType SeverityInfo title message linkID True) st of
        (st1, False) \<Rightarrow> (st1, False)
      | (st1, True) \<Rightarrow>
          (if ae_notifier env then st1\<lparr>as_sent := as_sent st1 @ [NotifyRecovery title message]\<rparr> else st1, True))"

definition AutoResolve :: "alert_env \<Rightarrow> string \<Rightarrow> string \<Rightarrow> alert_state \<Rightarrow> alert_state" where
  "AutoResolve env alertType linkID st =
     (case GetOpenAlerts env st of
        (st1, None) \<Rightarrow> st1
      | (st1, Some alerts) \<Rightarrow>
          fold (\<lambda>a st. if al_Type a = alertType \<and> al_LinkID a = linkID then ResolveAlert env (al_ID a) st else st)
            alerts st1)"

definition Resolve :: "alert_env \<Rightarrow> nat \<Rightarrow> alert_state \<Rightarrow> alert_state" where
  "Resolve env i st = ResolveAlert env i st"

subsection \<open>The start of the program\<close>

definition stateAlertTypes :: "string list" where
  "stateAlertTypes =
     [''steer_inativo'', ''link_offline'', ''link_degraded'', ''service_offline'', ''disk_full'', ''high_cpu'',
      ''high_memory'', ''backup_failed'', ''ntp_unsynced'', ''disk_smart_fail'', ''disk_smart_degraded'',
      ''disk_smart_hot'', ''journal_corrupt'', ''firewall_nat_drift'', ''wan_interface_missing'',
      ''dns_resolver_drift'', ''caminho_dns_fora_do_local'', ''resolucao_sem_modulo_dns'',
      ''security_updates_pending'', ''balancer_no_wan'', ''base_deps_missing'', ''netsvc_deps_missing'',
      ''firewall_system_groups_missing'', ''firewall_boot_persist_failed'', ''firewall_ghost_iface'']"

fun resolve_stale :: "alert_env \<Rightarrow> (string \<times> string) list \<Rightarrow> alert list \<Rightarrow> alert_state \<Rightarrow> alert_state" where
  "resolve_stale env done [] st = st"
| "resolve_stale env done (a # as) st =
     (if al_Type a \<notin> set stateAlertTypes then resolve_stale env done as st
      else if (al_Type a, al_LinkID a) \<in> set done then resolve_stale env done as st
      else resolve_stale env ((al_Type a, al_LinkID a) # done) as (AutoResolve env (al_Type a) (al_LinkID a) st))"

definition ResolveStaleOnStartup :: "alert_env \<Rightarrow> alert_state \<Rightarrow> alert_state" where
  "ResolveStaleOnStartup env st =
     (case GetOpenAlerts env st of (st1, None) \<Rightarrow> st1 | (st1, Some alerts) \<Rightarrow> resolve_stale env [] alerts st1)"

subsection \<open>Conditions\<close>

text \<open>The wrappers with a rule of their own; the others only name a type, a severity and a sentence.\<close>

definition LinkOffline :: "alert_env \<Rightarrow> string \<Rightarrow> string \<Rightarrow> alert_state \<Rightarrow> alert_state \<times> bool" where
  "LinkOffline env linkName linkID =
     Create env ''link_offline'' SeverityCritical (''Link Offline: '' @ linkName)
       (''WAN link '' @ linkName @ '' is no longer reachable.'') linkID"

definition LinkOnline :: "alert_env \<Rightarrow> string \<Rightarrow> string \<Rightarrow> alert_state \<Rightarrow> alert_state \<times> bool" where
  "LinkOnline env linkName linkID st =
     createRecovery env ''link_online'' (''Link Online: '' @ linkName)
       (''WAN link '' @ linkName @ '' has recovered and is reachable.'') linkID
       (AutoResolve env ''link_degraded'' linkID (AutoResolve env ''link_offline'' linkID st))"

definition Failover :: "alert_env \<Rightarrow> string \<Rightarrow> string \<Rightarrow> alert_state \<Rightarrow> alert_state \<times> bool" where
  "Failover env linkName direction =
     Create env ''failover'' SeverityWarning (''Failover: '' @ linkName)
       (''Failover triggered for WAN link '' @ linkName @ ''. Direction: '' @ direction) []"

definition RuleError :: "alert_env \<Rightarrow> string \<Rightarrow> alert_state \<Rightarrow> alert_state \<times> bool" where
  "RuleError env detail = Create env TypeRuleError SeverityCritical ''Firewall Rule Error'' detail []"

text \<open>A recovery that is announced only when the condition was open; its sentences are arguments.\<close>

definition FirewallSystemGroupsOK :: "alert_env \<Rightarrow> string \<Rightarrow> string \<Rightarrow> alert_state \<Rightarrow> alert_state" where
  "FirewallSystemGroupsOK env title message st =
     (case GetOpenAlerts env st of
        (st1, None) \<Rightarrow> st1
      | (st1, Some open_alerts) \<Rightarrow>
          if \<not> list_ex (\<lambda>a. al_Type a = ''firewall_system_groups_missing'' \<and> al_LinkID a = []) open_alerts then st1
          else fst (createRecovery env ''firewall_system_groups_ok'' title message []
                 (AutoResolve env ''firewall_system_groups_missing'' [] st1)))"

definition CaminhoDNSNoLocal :: "alert_env \<Rightarrow> string \<Rightarrow> string \<Rightarrow> alert_state \<Rightarrow> alert_state" where
  "CaminhoDNSNoLocal env title message st =
     (case GetOpenAlerts env st of
        (st1, None) \<Rightarrow> st1
      | (st1, Some open_alerts) \<Rightarrow>
          if \<not> list_ex (\<lambda>a. (al_Type a = ''caminho_dns_fora_do_local'' \<or> al_Type a = ''resolucao_sem_modulo_dns'')
                \<and> al_LinkID a = []) open_alerts then st1
          else fst (createRecovery env ''caminho_dns_no_local'' title message []
                 (AutoResolve env ''resolucao_sem_modulo_dns'' []
                    (AutoResolve env ''caminho_dns_fora_do_local'' [] st1))))"

subsection \<open>One open alert per problem\<close>

definition alert_key :: "alert \<Rightarrow> string \<times> string \<times> string" where
  "alert_key a = (al_Type a, al_LinkID a, if al_Type a = TypeRuleError then al_Message a else [])"

definition open_rows :: "alert_state \<Rightarrow> alert list" where
  "open_rows st = filter (\<lambda>a. \<not> al_Resolved a) (as_rows st)"

definition alerts_ok :: "alert_state \<Rightarrow> bool" where
  "alerts_ok st \<longleftrightarrow> distinct (map alert_key (open_rows st)) \<and> distinct (map al_ID (as_rows st))
     \<and> list_all (\<lambda>a. al_ID a < as_calls st) (as_rows st)"

lemma GetOpenAlerts_eq:
  "GetOpenAlerts env st = (st\<lparr>as_calls := Suc (as_calls st)\<rparr>, if ae_fails env (as_calls st) then None else Some (open_rows st))"
  by (simp add: GetOpenAlerts_def open_rows_def)

lemma alerts_ok_call: "alerts_ok st \<Longrightarrow> alerts_ok (st\<lparr>as_calls := Suc (as_calls st)\<rparr>)"
  by (auto simp: alerts_ok_def open_rows_def list_all_iff)

lemma alerts_ok_sent [simp]: "alerts_ok (st\<lparr>as_sent := xs\<rparr>) = alerts_ok st"
  by (simp add: alerts_ok_def open_rows_def)

lemma CreateAlert_ok:
  assumes "alerts_ok st" "al_Resolved a \<or> alert_key a \<notin> alert_key ` set (open_rows st)"
  shows "alerts_ok (fst (CreateAlert env a st))"
  using assms alerts_ok_call [of st]
  by (auto simp: CreateAlert_def Let_def alerts_ok_def open_rows_def list_all_iff alert_key_def less_SucI)

lemma resolved_rows:
  "filter (\<lambda>a. \<not> al_Resolved a) (map (\<lambda>a. if al_ID a = i then a\<lparr>al_Resolved := True\<rparr> else a) xs)
   = filter (\<lambda>a. al_ID a \<noteq> i) (filter (\<lambda>a. \<not> al_Resolved a) xs)"
  by (induction xs) auto

lemma resolved_ids: "map al_ID (map (\<lambda>a. if al_ID a = i then a\<lparr>al_Resolved := True\<rparr> else a) xs) = map al_ID xs"
  by (induction xs) auto

lemma distinct_map_filter_sub: "distinct (map f xs) \<Longrightarrow> distinct (map f (filter P xs))"
  by (induction xs) auto

lemma ResolveAlert_ok: "alerts_ok st \<Longrightarrow> alerts_ok (ResolveAlert env i st)"
  using alerts_ok_call [of st]
  by (auto simp: ResolveAlert_def Let_def alerts_ok_def open_rows_def resolved_rows distinct_map_filter_sub
      list_all_iff resolved_ids [unfolded map_map] simp del: filter_filter)

lemma fold_resolve_ok: "alerts_ok st \<Longrightarrow> alerts_ok (fold (\<lambda>a st. if P a then ResolveAlert env (al_ID a) st else st) (xs :: alert list) st)"
  by (induction xs arbitrary: st) (simp_all add: ResolveAlert_ok)

lemma AutoResolve_ok: "alerts_ok st \<Longrightarrow> alerts_ok (AutoResolve env t k st)"
  using fold_resolve_ok [OF alerts_ok_call, of st "\<lambda>a. al_Type a = t \<and> al_LinkID a = k"]
  by (simp add: AutoResolve_def GetOpenAlerts_eq alerts_ok_call)

lemma Create_ok:
  assumes "alerts_ok st"
  shows "alerts_ok (fst (Create env t sev title msg k st))"
proof -
  let ?a = "new_alert t sev title msg k False"
  have "alerts_ok (fst (CreateAlert env ?a (st\<lparr>as_calls := Suc (as_calls st)\<rparr>)))"
    if "\<not> list_ex (already_open t k msg) (open_rows st)"
    using that alerts_ok_call [OF assms]
    by (intro CreateAlert_ok) (auto simp: open_rows_def list_ex_iff already_open_def alert_key_def new_alert_def split: if_splits)
  then show ?thesis
    using alerts_ok_call [OF assms] by (auto simp: Create_defs GetOpenAlerts_eq split: prod.splits bool.splits)
qed

lemma createRecovery_ok: "alerts_ok st \<Longrightarrow> alerts_ok (fst (createRecovery env t title msg k st))"
  using CreateAlert_ok [of st "new_alert t SeverityInfo title msg k True" env]
  by (auto simp: createRecovery_def new_alert_def split: prod.splits bool.splits)

lemma resolve_stale_ok: "alerts_ok st \<Longrightarrow> alerts_ok (resolve_stale env done xs st)"
  by (induction env "done" xs st rule: resolve_stale.induct) (simp_all add: AutoResolve_ok)

subsection \<open>Calls that overlap\<close>

text \<open>
  What the goroutines of the program do to the alerts, one call of the database at a time: every other operation
  here is a sequence of readings, insertions of closed alerts and closings.  The second component is the rows that
  calls of \<open>Create\<close> have decided to insert and not inserted yet.
\<close>

inductive alert_step :: "alert_state \<times> alert list \<Rightarrow> alert_state \<times> alert list \<Rightarrow> bool" where
  step_looked: "Create_look env t sev title msg k st = (st', Inl ok) \<Longrightarrow> alert_step (st, fl) (st', fl)"
| step_look: "Create_look env t sev title msg k st = (st', Inr a) \<Longrightarrow> alert_step (st, fl) (st', a # fl)"
| step_insert: "a \<in> set fl \<Longrightarrow> alert_step (st, fl) (fst (Create_insert env a st), remove1 a fl)"
| step_recovery: "alert_step (st, fl) (fst (createRecovery env t title msg k st), fl)"
| step_read: "alert_step (st, fl) (fst (GetOpenAlerts env st), fl)"
| step_resolve: "alert_step (st, fl) (ResolveAlert env i st, fl)"

text \<open>Calls of \<open>Create\<close> for one problem do not overlap: none looks while another is about to insert it.\<close>

definition no_overlap :: "alert list \<Rightarrow> bool" where
  "no_overlap fl \<longleftrightarrow> distinct (map alert_key fl)"

inductive alert_history :: "alert_state \<Rightarrow> alert list \<Rightarrow> bool" where
  hist_empty: "alert_history \<lparr>as_rows = [], as_calls = n, as_sent = []\<rparr> []"
| hist_step: "alert_history st fl \<Longrightarrow> alert_step (st, fl) (st', fl') \<Longrightarrow> no_overlap fl' \<Longrightarrow> alert_history st' fl'"

definition flying_ok :: "alert_state \<Rightarrow> alert list \<Rightarrow> bool" where
  "flying_ok st fl \<longleftrightarrow> distinct (map alert_key fl) \<and> list_all (\<lambda>a. \<not> al_Resolved a) fl
     \<and> alert_key ` set fl \<inter> alert_key ` set (open_rows st) = {}"

lemma open_rows_calls [simp]: "open_rows (st\<lparr>as_calls := n\<rparr>) = open_rows st" "open_rows (st\<lparr>as_sent := ns\<rparr>) = open_rows st"
  by (simp_all add: open_rows_def)

lemma Create_look_state: "fst (Create_look env t sev title msg k st) = st\<lparr>as_calls := Suc (as_calls st)\<rparr>"
  by (simp add: Create_look_def GetOpenAlerts_eq)

lemma Create_look_fresh:
  assumes "Create_look env t sev title msg k st = (st', Inr a)"
  shows "alert_key a \<notin> alert_key ` set (open_rows st) \<and> \<not> al_Resolved a"
  using assms
  by (auto simp: Create_look_def GetOpenAlerts_eq list_ex_iff already_open_def alert_key_def new_alert_def split: if_splits)

lemma open_Create_insert:
  assumes "\<not> al_Resolved a"
  shows "open_rows (fst (Create_insert env a st)) = open_rows st
    \<or> open_rows (fst (Create_insert env a st)) = a\<lparr>al_ID := as_calls st\<rparr> # open_rows st"
  using assms by (auto simp: Create_insert_def CreateAlert_def Let_def open_rows_def)

lemma alert_key_id [simp]: "alert_key (a\<lparr>al_ID := i\<rparr>) = alert_key a"
  by (simp add: alert_key_def)

lemma open_resolved_subset: "set (open_rows (ResolveAlert env i st)) \<subseteq> set (open_rows st)"
  by (auto simp: ResolveAlert_def Let_def open_rows_def split: if_splits)

lemma open_recovery: "open_rows (fst (createRecovery env t title msg k st)) = open_rows st"
  by (auto simp: createRecovery_def CreateAlert_def Let_def open_rows_def new_alert_def split: prod.splits bool.splits)

lemma alert_step_flying:
  assumes "alert_step (st, fl) (st', fl')" and "no_overlap fl'" and "alerts_ok st" and "flying_ok st fl"
  shows "alerts_ok st' \<and> flying_ok st' fl'"
  using assms(1)
proof cases
  case (step_looked env t sev title msg k ok)
  then have "st' = st\<lparr>as_calls := Suc (as_calls st)\<rparr>" using Create_look_state [of env t sev title msg k st] by simp
  then show ?thesis using assms(3,4) step_looked by (simp add: alerts_ok_call flying_ok_def)
next
  case (step_look env t sev title msg k a)
  then have "st' = st\<lparr>as_calls := Suc (as_calls st)\<rparr>" using Create_look_state [of env t sev title msg k st] by simp
  then show ?thesis
    using assms(2-4) step_look Create_look_fresh [OF step_look(2)]
    by (auto simp: alerts_ok_call flying_ok_def no_overlap_def)
next
  case (step_insert a env)
  then have fresh: "alert_key a \<notin> alert_key ` set (open_rows st)" "\<not> al_Resolved a"
    using assms(4) by (auto simp: flying_ok_def list_all_iff)
  have "alerts_ok (fst (CreateAlert env a st))" using CreateAlert_ok [OF assms(3)] fresh by blast
  then have ok: "alerts_ok st'" by (auto simp: step_insert Create_insert_def split: prod.splits bool.splits)
  have "alert_key a \<notin> alert_key ` set (remove1 a fl)" "distinct (map alert_key (remove1 a fl))"
    using assms(4) step_insert(3)
    by (auto simp: flying_ok_def distinct_map distinct_remove1 set_remove1_eq inj_on_def)
  moreover have "alert_key ` set (remove1 a fl) \<inter> alert_key ` set (open_rows st) = {}"
    using assms(4) image_mono [OF set_remove1_subset [of a fl], of alert_key] by (auto simp: flying_ok_def)
  moreover have "list_all (\<lambda>a. \<not> al_Resolved a) (remove1 a fl)"
    using assms(4) set_remove1_subset [of a fl] by (auto simp: flying_ok_def list_all_iff)
  ultimately have "flying_ok st' fl'"
    using open_Create_insert [OF fresh(2), of env st]
    by (elim disjE) (simp_all add: step_insert flying_ok_def Int_insert_right)
  with ok show ?thesis by simp
next
  case (step_recovery env t title msg k)
  then show ?thesis using assms(3,4) by (simp add: createRecovery_ok flying_ok_def open_recovery)
next
  case (step_read env)
  then show ?thesis using assms(3,4) by (simp add: GetOpenAlerts_eq alerts_ok_call flying_ok_def)
next
  case (step_resolve env i)
  then show ?thesis
    using assms(3,4) open_resolved_subset [of env i st] by (auto simp: ResolveAlert_ok flying_ok_def)
qed

lemma alert_history_ok: "alert_history st fl \<Longrightarrow> alerts_ok st \<and> flying_ok st fl"
proof (induction rule: alert_history.induct)
  case (hist_step st fl st' fl')
  then show ?case using alert_step_flying by blast
qed (simp add: alerts_ok_def flying_ok_def open_rows_def)

text \<open>The operations as a whole are such steps.\<close>

lemma history_no_overlap: "alert_history st fl \<Longrightarrow> no_overlap fl"
  by (induction rule: alert_history.induct) (simp_all add: no_overlap_def)

lemma history_resolves: "alert_history st fl \<Longrightarrow>
    alert_history (fold (\<lambda>a st. if P a then ResolveAlert env (al_ID a) st else st) (xs :: alert list) st) fl"
proof (induction xs arbitrary: st)
  case (Cons x xs)
  then show ?case using hist_step [OF Cons.prems step_resolve [of st fl env "al_ID x"]] history_no_overlap by simp
qed simp

lemma history_read: "alert_history st fl \<Longrightarrow> alert_history (st\<lparr>as_calls := Suc (as_calls st)\<rparr>) fl"
  using hist_step [OF _ step_read [of st fl]] history_no_overlap by (simp add: GetOpenAlerts_eq)

lemma history_AutoResolve: "alert_history st fl \<Longrightarrow> alert_history (AutoResolve env t k st) fl"
  by (simp add: AutoResolve_def GetOpenAlerts_eq history_read history_resolves)

lemma history_stale: "alert_history st fl \<Longrightarrow> alert_history (resolve_stale env d xs st) fl"
  by (induction env d xs st rule: resolve_stale.induct) (simp_all add: history_AutoResolve)

lemma history_startup: "alert_history st fl \<Longrightarrow> alert_history (ResolveStaleOnStartup env st) fl"
  by (simp add: ResolveStaleOnStartup_def GetOpenAlerts_eq history_read history_stale)

lemma history_Create:
  assumes "alert_history st []"
  shows "alert_history (fst (Create env t sev title msg k st)) []"
proof (cases "Create_look env t sev title msg k st")
  case (Pair st1 r)
  show ?thesis
  proof (cases r)
    case (Inl ok)
    with Pair have "alert_history st1 []" using hist_step [OF assms step_looked] by (simp add: no_overlap_def)
    with Pair Inl show ?thesis by (simp add: Create_def)
  next
    case (Inr a)
    with Pair have "alert_history st1 [a]" using hist_step [OF assms step_look] by (simp add: no_overlap_def)
    from hist_step [OF this step_insert [of a "[a]" st1 env]] Pair Inr show ?thesis by (simp add: Create_def no_overlap_def)
  qed
qed

text \<open>C39. A problem is shown twice only when it is raised twice at once.  Whatever is raised, recovered, closed by hand
  or at the start of the program, in calls that interleave at every call of the database, and whichever of those
  calls fail: as long as no \<open>Create\<close> looks for a problem between the look and the insertion of another \<open>Create\<close> for
  it, no two open alerts have the same type and subject - an error of the rules, which nothing closes, may be open
  once per message.\<close>

theorem one_open_alert_per_problem:
  assumes "alert_history st fl"
  shows "distinct (map alert_key (open_rows st))"
  using alert_history_ok [OF assms] by (simp add: alerts_ok_def)

text \<open>Raised twice at once, it is shown twice: two calls of \<open>Create\<close> for one problem that both look before either inserts leave two open alerts
  of the same type and subject, with a database that answers and nothing else going on - which is what happens
  when two links go down in one pass and both raise the alert of a failover, whose subject is empty.\<close>

theorem overlapping_creates_show_a_problem_twice:
  assumes "\<not> list_ex (already_open t k msg) (open_rows st)" and "\<And>n. \<not> ae_fails env n"
    and "t \<noteq> TypeRuleError \<or> msg' = msg"
    and "Create_look env t sev title msg k st = (st1, r)" and "Create_look env t sev' title' msg' k st1 = (st2, r')"
  shows "\<exists>a a'. r = Inr a \<and> r' = Inr a'
    \<and> length (filter (\<lambda>x. al_Type x = t \<and> al_LinkID x = k)
        (open_rows (fst (Create_insert env a' (fst (Create_insert env a st2)))))) \<ge> 2"
proof -
  have no: "\<not> list_ex (already_open t k msg') (open_rows st)"
    using assms(1,3) by (auto simp: list_ex_iff already_open_def)
  have 1: "r = Inr (new_alert t sev title msg k False)" "open_rows st1 = open_rows st"
    using assms(1,2,4) by (auto simp: Create_look_def GetOpenAlerts_eq)
  have 2: "r' = Inr (new_alert t sev' title' msg' k False)" "open_rows st2 = open_rows st"
    using no assms(2,5) 1(2) by (auto simp: Create_look_def GetOpenAlerts_eq)
  have ins: "\<exists>i. open_rows (fst (Create_insert env (new_alert t x y z k False) s)) = (new_alert t x y z k False)\<lparr>al_ID := i\<rparr> # open_rows s"
    for s x y z
    using assms(2) by (auto simp: Create_insert_def CreateAlert_def Let_def open_rows_def new_alert_def)
  obtain i where i: "open_rows (fst (Create_insert env (new_alert t sev title msg k False) st2))
      = (new_alert t sev title msg k False)\<lparr>al_ID := i\<rparr> # open_rows st2" using ins by blast
  obtain j where "open_rows (fst (Create_insert env (new_alert t sev' title' msg' k False)
        (fst (Create_insert env (new_alert t sev title msg k False) st2))))
      = (new_alert t sev' title' msg' k False)\<lparr>al_ID := j\<rparr> # (new_alert t sev title msg k False)\<lparr>al_ID := i\<rparr> # open_rows st2"
    using ins i by metis
  then show ?thesis using 1(1) 2(1) by (auto simp: new_alert_def)
qed

subsection \<open>The interface the quotas use\<close>

text \<open>The \<open>Alerter\<close> of \<open>internal/linkquota\<close> and \<open>internal/hostquota\<close>; what \<open>Create\<close> returns is not looked at.\<close>

record 's alerter_ops =
  ao_Create :: "string \<Rightarrow> string \<Rightarrow> string \<Rightarrow> string \<Rightarrow> string \<Rightarrow> 's \<Rightarrow> 's"
  ao_AutoResolve :: "string \<Rightarrow> string \<Rightarrow> 's \<Rightarrow> 's"

locale alerter =
  fixes A :: "'s alerter_ops"
    and is_open :: "string \<Rightarrow> string \<Rightarrow> 's \<Rightarrow> bool"
    and valid :: "'s \<Rightarrow> bool"
  assumes create_valid: "valid s \<Longrightarrow> valid (ao_Create A t sev title msg k s)"
    and resolve_valid: "valid s \<Longrightarrow> valid (ao_AutoResolve A t k s)"
    and create_opens: "valid s \<Longrightarrow> is_open t' k' (ao_Create A t sev title msg k s) \<longleftrightarrow> is_open t' k' s \<or> t' = t \<and> k' = k"
    and resolve_closes: "valid s \<Longrightarrow> is_open t' k' (ao_AutoResolve A t k s) \<longleftrightarrow> is_open t' k' s \<and> \<not> (t' = t \<and> k' = k)"

definition alerts_service :: "alert_env \<Rightarrow> alert_state alerter_ops" where
  "alerts_service env =
     \<lparr>ao_Create = (\<lambda>t sev title msg k st. fst (Create env t sev title msg k st)), ao_AutoResolve = AutoResolve env\<rparr>"

definition healthy :: "alert_env \<Rightarrow> alert_env" where
  "healthy env = env\<lparr>ae_fails := \<lambda>_. False\<rparr>"

definition alert_open :: "string \<Rightarrow> string \<Rightarrow> alert_state \<Rightarrow> bool" where
  "alert_open t k st \<longleftrightarrow> list_ex (\<lambda>a. al_Type a = t \<and> al_LinkID a = k) (open_rows st)"

lemma healthy_fails [simp]: "ae_fails (healthy env) n = False"
  by (simp add: healthy_def)

lemma open_ResolveAlert: "open_rows (ResolveAlert (healthy env) i st) = filter (\<lambda>a. al_ID a \<noteq> i) (open_rows st)"
  by (simp add: ResolveAlert_def open_rows_def resolved_rows Let_def del: filter_filter)

lemma open_fold_resolve:
  "open_rows (fold (\<lambda>a st. if P a then ResolveAlert (healthy env) (al_ID a) st else st) (xs :: alert list) st)
   = filter (\<lambda>a. al_ID a \<notin> al_ID ` set (filter P xs)) (open_rows st)"
proof (induction xs arbitrary: st)
  case (Cons x xs)
  then show ?case by (auto simp: open_ResolveAlert intro: filter_cong)
qed simp

lemma open_AutoResolve:
  assumes "alerts_ok st"
  shows "open_rows (AutoResolve (healthy env) t k st) = filter (\<lambda>a. \<not> (al_Type a = t \<and> al_LinkID a = k)) (open_rows st)"
proof -
  have "inj_on al_ID (set (open_rows st))"
    using assms by (auto simp: alerts_ok_def open_rows_def distinct_map intro: inj_on_subset)
  then have "al_ID a \<notin> al_ID ` set (filter (\<lambda>a. al_Type a = t \<and> al_LinkID a = k) (open_rows st))
      \<longleftrightarrow> \<not> (al_Type a = t \<and> al_LinkID a = k)" if "a \<in> set (open_rows st)" for a
    using that by (auto dest: inj_onD)
  then show ?thesis
    unfolding AutoResolve_def GetOpenAlerts_eq
    using open_fold_resolve [of "\<lambda>a. al_Type a = t \<and> al_LinkID a = k" env "open_rows st" "st\<lparr>as_calls := Suc (as_calls st)\<rparr>"]
    by (simp cong: filter_cong)
qed

lemma open_Create:
  "alert_open t' k' (fst (Create (healthy env) t sev title msg k st)) \<longleftrightarrow> alert_open t' k' st \<or> t' = t \<and> k' = k"
proof (cases "list_ex (already_open t k msg) (open_rows st)")
  case True
  then have "alert_open t k st" by (auto simp: alert_open_def list_ex_iff already_open_def)
  with True show ?thesis by (auto simp: Create_defs GetOpenAlerts_eq alert_open_def)
next
  case False
  have "open_rows (fst (Create (healthy env) t sev title msg k st)) =
      (new_alert t sev title msg k False)\<lparr>al_ID := Suc (as_calls st)\<rparr> # open_rows st"
    using False by (simp add: Create_defs GetOpenAlerts_eq CreateAlert_def Let_def open_rows_def new_alert_def)
  then show ?thesis by (auto simp: alert_open_def new_alert_def)
qed

text \<open>Without a failing database the panel keeps the contract.\<close>

interpretation panel: alerter "alerts_service (healthy env)" alert_open alerts_ok for env
proof
  fix st t sev title msg k t' k'
  assume ok: "alerts_ok st"
  show "alerts_ok (ao_Create (alerts_service (healthy env)) t sev title msg k st)"
    using ok by (simp add: alerts_service_def Create_ok)
  show "alerts_ok (ao_AutoResolve (alerts_service (healthy env)) t k st)"
    using ok by (simp add: alerts_service_def AutoResolve_ok)
  show "alert_open t' k' (ao_Create (alerts_service (healthy env)) t sev title msg k st)
      \<longleftrightarrow> alert_open t' k' st \<or> t' = t \<and> k' = k"
    by (simp add: alerts_service_def open_Create)
  show "alert_open t' k' (ao_AutoResolve (alerts_service (healthy env)) t k st)
      \<longleftrightarrow> alert_open t' k' st \<and> \<not> (t' = t \<and> k' = k)"
    using ok by (auto simp: alerts_service_def open_AutoResolve alert_open_def list_ex_iff)
qed

text \<open>The name of a device leaves the box only when that is allowed: an alert of a type that names a
  device is sent only if the setting was read and says so, and nothing is sent for an alert that is
  already open or could not be stored.
\<close>
theorem device_alerts_stay_inside:
  assumes "Create env t sev title msg k st = (st', ok)" "as_sent st' \<noteq> as_sent st"
  shows "as_sent st' = as_sent st @ [Notify sev title msg] \<and> ok \<and> ae_notifier env
    \<and> (t \<in> set tiposQueNomeiamAparelho \<longrightarrow> ae_notificarAparelho env = Gives True)
    \<and> \<not> list_ex (already_open t k msg) (open_rows st)
    \<and> open_rows st' = (new_alert t sev title msg k False)\<lparr>al_ID := Suc (as_calls st)\<rparr> # open_rows st"
  using assms
  by (auto simp: Create_defs GetOpenAlerts_eq CreateAlert_def Let_def open_rows_def new_alert_def podeNotificar_def
      split: if_splits source.splits)

definition demo_alert_env :: "bool source \<Rightarrow> alert_env" where
  "demo_alert_env allowed = \<lparr>ae_fails = (\<lambda>_. False), ae_notifier = True, ae_notificarAparelho = allowed\<rparr>"

definition no_alerts :: alert_state where
  "no_alerts = \<lparr>as_rows = [], as_calls = 0, as_sent = []\<rparr>"

lemma one_open_alert_per_problem_witness:
  "distinct (map alert_key (open_rows (fst (RuleError (demo_alert_env Unset) ''a''
     (fst (RuleError (demo_alert_env Unset) ''b'' (fst (RuleError (demo_alert_env Unset) ''a'' no_alerts))))))))"
proof (rule one_open_alert_per_problem)
  have "alert_history no_alerts []" unfolding no_alerts_def by (rule hist_empty)
  then show "alert_history (fst (RuleError (demo_alert_env Unset) ''a''
     (fst (RuleError (demo_alert_env Unset) ''b'' (fst (RuleError (demo_alert_env Unset) ''a'' no_alerts)))))) []"
    unfolding RuleError_def by (intro history_Create)
qed

text \<open>Two links fail in one pass.\<close>

lemma overlapping_creates_show_a_problem_twice_witness:
  defines "look \<equiv> Create_look (demo_alert_env Unset) ''failover'' SeverityWarning"
  shows "\<exists>a a'. snd (look ''A'' ''a'' [] no_alerts) = Inr a
     \<and> snd (look ''B'' ''b'' [] (fst (look ''A'' ''a'' [] no_alerts))) = Inr a'
     \<and> length (filter (\<lambda>x. al_Type x = ''failover'' \<and> al_LinkID x = [])
         (open_rows (fst (Create_insert (demo_alert_env Unset) a'
            (fst (Create_insert (demo_alert_env Unset) a (fst (look ''B'' ''b'' [] (fst (look ''A'' ''a'' [] no_alerts)))))))))) \<ge> 2"
  using overlapping_creates_show_a_problem_twice [of "''failover''" "[]" "''a''" no_alerts "demo_alert_env Unset" "''b''"
      SeverityWarning "''A''" "fst (look ''A'' ''a'' [] no_alerts)" "snd (look ''A'' ''a'' [] no_alerts)"
      SeverityWarning "''B''" "fst (look ''B'' ''b'' [] (fst (look ''A'' ''a'' [] no_alerts)))"
      "snd (look ''B'' ''b'' [] (fst (look ''A'' ''a'' [] no_alerts)))"]
  by (simp add: look_def no_alerts_def open_rows_def demo_alert_env_def TypeRuleError_def)

lemma device_alerts_stay_inside_witness:
  "ae_notificarAparelho (demo_alert_env (Gives True)) = Gives True
   \<and> as_sent (fst (Create (demo_alert_env (Gives True)) TypeHostNovoNaRede SeverityInfo ''t'' ''m'' ''k'' no_alerts))
       = [Notify SeverityInfo ''t'' ''m'']"
proof -
  define r where "r = Create (demo_alert_env (Gives True)) TypeHostNovoNaRede SeverityInfo ''t'' ''m'' ''k'' no_alerts"
  have "as_sent (fst r) = [Notify SeverityInfo ''t'' ''m'']" unfolding r_def by code_simp
  moreover have "as_sent no_alerts = []" by (simp add: no_alerts_def)
  ultimately show ?thesis
    using device_alerts_stay_inside [of "demo_alert_env (Gives True)" TypeHostNovoNaRede SeverityInfo "''t''" "''m''" "''k''" no_alerts "fst r" "snd r"]
    by (simp add: r_def tiposQueNomeiamAparelho_def)
qed

end
