(* ===== verification/Validate.thy ===== *)
theory Validate
  imports NetText
begin

text \<open>
  The shared validators (\<open>internal/validate/validate.go\<close>) of the names and addresses that are
  written into configuration files and command lines: domains, interfaces, time servers, hardware
  addresses.  A Go string is a list of bytes; the validators accept ASCII only, and lower case is
  modelled on ASCII.
\<close>

subsection \<open>Hardware addresses (package net)\<close>

text \<open>\<open>xtoi2\<close>: two hexadecimal digits, and then, when there is more, the separator.\<close>

definition xtoi2 :: "string \<Rightarrow> char \<Rightarrow> bool" where
  "xtoi2 s e \<longleftrightarrow> 2 \<le> length s \<and> is_hex (s ! 0) \<and> is_hex (s ! 1) \<and> (2 < length s \<longrightarrow> s ! 2 = e)"

definition ParseMAC :: "string \<Rightarrow> bool" where
  "ParseMAC s \<longleftrightarrow>
     14 \<le> length s \<and>
     (if s ! 2 = CHR '':'' \<or> s ! 2 = CHR ''-'' then
        (let n = (length s + 1) div 3 in
         (length s + 1) mod 3 = 0 \<and> (n = 6 \<or> n = 8 \<or> n = 20)
         \<and> list_all (\<lambda>i. xtoi2 (drop (3 * i) s) (s ! 2)) [0..<n])
      else if s ! 4 = CHR ''.'' then
        (let n = 2 * (length s + 1) div 5 in
         (length s + 1) mod 5 = 0 \<and> (n = 6 \<or> n = 8 \<or> n = 20)
         \<and> list_all (\<lambda>i. is_hex (s ! (5 * i)) \<and> is_hex (s ! (5 * i + 1)) \<and> xtoi2 (drop (5 * i + 2) s) (s ! 4))
              [0..<n div 2])
      else False)"

definition NormalizeMAC :: "string \<Rightarrow> string" where
  "NormalizeMAC s0 = (let s = go_lower (trim_space s0) in if ParseMAC s then s else [])"

definition lower_hex :: "char \<Rightarrow> bool" where
  "lower_hex c \<longleftrightarrow> is_digit c \<or> 97 \<le> (of_char c :: nat) \<and> (of_char c :: nat) \<le> 102"

text \<open>\<open>^([0-9a-f]{2}:){5}[0-9a-f]{2}$\<close>\<close>

definition reMACCanonico :: "string \<Rightarrow> bool" where
  "reMACCanonico s \<longleftrightarrow> length s = 17
     \<and> list_all (\<lambda>i. if i mod 3 = 2 then s ! i = CHR '':'' else lower_hex (s ! i)) [0..<17]"

definition MACCanonico :: "string \<Rightarrow> string" where
  "MACCanonico s = (let norm = NormalizeMAC s in if norm = [] \<or> \<not> reMACCanonico norm then [] else norm)"

subsection \<open>Domains\<close>

definition domain_edge :: "char \<Rightarrow> bool" where
  "domain_edge c \<longleftrightarrow> is_lower c \<or> is_digit c \<or> c = CHR ''_''"

definition domain_inner :: "char \<Rightarrow> bool" where
  "domain_inner c \<longleftrightarrow> domain_edge c \<or> c = CHR ''.'' \<or> c = CHR ''-''"

text \<open>\<open>^[a-z0-9_]([a-z0-9._-]*[a-z0-9_])?$\<close>\<close>

definition reDNSDomain :: "string \<Rightarrow> bool" where
  "reDNSDomain d \<longleftrightarrow> d \<noteq> [] \<and> list_all domain_inner d \<and> domain_edge (hd d) \<and> domain_edge (last d)"

definition Domain :: "string \<Rightarrow> bool" where
  "Domain d \<longleftrightarrow> d \<noteq> [] \<and> length d \<le> 253 \<and> reDNSDomain d"

definition DomainWire :: "string \<Rightarrow> bool" where
  "DomainWire d \<longleftrightarrow> Domain d
     \<and> list_all (\<lambda>rotulo. rotulo \<noteq> [] \<and> length rotulo \<le> 63) (go_split ''.'' (trim_suffix (trim_space d) ''.''))"

definition asciiAlphaNum :: "char \<Rightarrow> bool" where
  "asciiAlphaNum c \<longleftrightarrow> is_lower c \<or> is_digit c"

definition target_label :: "string \<Rightarrow> bool" where
  "target_label label \<longleftrightarrow> label \<noteq> [] \<and> length label \<le> 63 \<and> asciiAlphaNum (hd label) \<and> asciiAlphaNum (last label)
     \<and> list_all (\<lambda>c. asciiAlphaNum c \<or> c = CHR ''-'') (butlast (tl label))"

definition NormalizeDomainTarget :: "string \<Rightarrow> string option" where
  "NormalizeDomainTarget raw =
     (let d = trim_suffix (go_lower (trim_space raw)) ''.'' in
      if d = [] \<or> 253 < length d \<or> prefix ''.'' d \<or> \<not> str_contains d ''.'' then None
      else if \<not> list_all target_label (go_split ''.'' d) then None
      else Some d)"

subsection \<open>Interfaces, time servers, addresses\<close>

definition Iface :: "string \<Rightarrow> bool" where
  "Iface s \<longleftrightarrow> reIface s \<and> list_ex (\<lambda>c. is_lower c \<or> is_upper c \<or> is_digit c) s"

definition NTPServer :: "string \<Rightarrow> bool" where
  "NTPServer s \<longleftrightarrow> 1 \<le> length s \<and> length s \<le> 253
     \<and> list_all (\<lambda>c. is_lower c \<or> is_upper c \<or> is_digit c \<or> c = CHR ''.'' \<or> c = CHR '':'' \<or> c = CHR ''-'') s"

definition IPv4 :: "string \<Rightarrow> bool" where
  "IPv4 s \<longleftrightarrow> (case parse_addr (trim_space s) of Some (v4, _) \<Rightarrow> v4 | None \<Rightarrow> False)"

end
