(* ===== verification/HostQuota.thy ===== *)
theory HostQuota
  imports Ledger Calendar Alerts Validate "HOL-Library.AList" "HOL-Library.Char_ord" "HOL-Library.List_Lexorder"
begin

text \<open>
  The quota of a device (\<open>internal/hostquota/hostquota.go\<close>, \<open>internal/storage/repo_hostquota.go\<close>):
  bytes measured by the sampler are accumulated in memory with the instant of the measurement,
  written to the table of their cycle once a minute, and compared with the declared quota.

  The memory of the service and the tables are one record.  Every call of the database has a
  number, and \<open>he_fails\<close> says which fail; a call that fails changes nothing.  Instants are Unix
  seconds and the zone is a fixed offset.  A map of Go is the list of its entries in the order a
  \<open>range\<close> visits them; the two levels of \<open>pending\<close> are one list keyed by (device, instant).
  \<open>float64\<close> is \<open>real\<close>, and the sentences of the alerts are a parameter.
\<close>

subsection \<open>Data\<close>

record host_quota =
  hq_MAC :: string
  hq_LimitGB :: real
  hq_Period :: string
  hq_CycleDay :: int
  hq_AlertPct :: int
  hq_AlertEnabled :: bool

type_synonym ciclo = "string \<times> int"
type_synonym usage_key = "string \<times> string \<times> int"
type_synonym sample_key = "string \<times> int"

record host_metadata =
  hm_MAC :: string
  hm_Alias :: string
  hm_Hostname :: string
  hm_IP :: string

record 's host_state =
  hs_quotas :: "(string \<times> host_quota) list"
  hs_usage :: "(usage_key \<times> traffic) list"
  hs_metadata :: "host_metadata list"
  hs_calls :: nat
  hs_alerts :: 's
  hs_pending :: "(sample_key \<times> traffic) list"
  hs_lastCycle :: "(string \<times> ciclo) list"
  hs_ultimaPoda :: "int option"

record 's host_env =
  he_fails :: "nat \<Rightarrow> bool"
  he_now :: int
  he_zone :: int
  he_alerter :: "'s alerter_ops option"
  he_exceeded :: "string \<Rightarrow> host_quota \<Rightarrow> 64 word \<Rightarrow> string \<times> string"
  he_warning :: "string \<Rightarrow> host_quota \<Rightarrow> 64 word \<Rightarrow> string \<times> string"

text \<open>Go's zero value, read from a map that has no entry.\<close>

definition no_quota :: host_quota where
  "no_quota = \<lparr>hq_MAC = [], hq_LimitGB = 0, hq_Period = [], hq_CycleDay = 0, hq_AlertPct = 0, hq_AlertEnabled = False\<rparr>"

definition quota_of :: "(string \<times> host_quota) list \<Rightarrow> string \<Rightarrow> host_quota" where
  "quota_of quotas mac = (case map_of quotas mac of None \<Rightarrow> no_quota | Some q \<Rightarrow> q)"

definition periodoDe :: "host_quota \<Rightarrow> string" where
  "periodoDe q = (if hq_Period q = [] then HostPeriodMonthly else hq_Period q)"

definition diaDe :: "host_quota \<Rightarrow> int" where
  "diaDe q = (if hq_CycleDay q < 1 then 1 else hq_CycleDay q)"

definition bytesPerGB :: real where "bytesPerGB = 1000000000"
definition retencaoSemCota :: int where "retencaoSemCota = 90 * 24 * 60 * 60"
definition intervaloDePoda :: int where "intervaloDePoda = 24 * 60 * 60"

subsection \<open>The tables\<close>

definition host_call :: "'s host_env \<Rightarrow> 's host_state \<Rightarrow> 's host_state \<times> bool" where
  "host_call env s = (s\<lparr>hs_calls := Suc (hs_calls s)\<rparr>, \<not> he_fails env (hs_calls s))"

definition GetHostQuotas :: "'s host_env \<Rightarrow> 's host_state \<Rightarrow> 's host_state \<times> (string \<times> host_quota) list option" where
  "GetHostQuotas env s = (case host_call env s of (s1, ok) \<Rightarrow> (s1, if ok then Some (hs_quotas s) else None))"

definition SaveHostQuota :: "'s host_env \<Rightarrow> host_quota \<Rightarrow> 's host_state \<Rightarrow> 's host_state \<times> bool" where
  "SaveHostQuota env q s =
     (case host_call env s of
        (s1, ok) \<Rightarrow> (if ok then s1\<lparr>hs_quotas := AList.update (hq_MAC q) q (hs_quotas s)\<rparr> else s1, ok))"

definition AddHostUsage :: "'s host_env \<Rightarrow> string \<Rightarrow> string \<Rightarrow> int \<Rightarrow> traffic \<Rightarrow> 's host_state \<Rightarrow> 's host_state \<times> bool" where
  "AddHostUsage env mac period0 cycleStart d s =
     (let period = (if period0 = [] then HostPeriodMonthly else period0) in
      case host_call env s of
        (s1, ok) \<Rightarrow> (if ok then s1\<lparr>hs_usage := book (mac, period, cycleStart) d (hs_usage s)\<rparr> else s1, ok))"

definition GetHostUsageAll ::
  "'s host_env \<Rightarrow> string \<Rightarrow> int \<Rightarrow> 's host_state \<Rightarrow> 's host_state \<times> (string \<times> traffic) list option" where
  "GetHostUsageAll env period0 cycleStart s =
     (let period = (if period0 = [] then HostPeriodMonthly else period0) in
      case host_call env s of
        (s1, ok) \<Rightarrow>
          (s1, if ok then Some (map (\<lambda>((mac, _), d). (mac, d))
                 (filter (\<lambda>((_, p, c), _). p = period \<and> c = cycleStart) (hs_usage s))) else None))"

text \<open>\<open>GetHostUsageHistory(mac, 1)\<close>: the row with the latest cycle; a tie is broken by the order of the table.\<close>

fun latest :: "usage_key list \<Rightarrow> usage_key option" where
  "latest [] = None"
| "latest (k # ks) =
     (case latest ks of None \<Rightarrow> Some k | Some k' \<Rightarrow> Some (if snd (snd k') > snd (snd k) then k' else k))"

definition GetHostUsageHistory1 :: "'s host_env \<Rightarrow> string \<Rightarrow> 's host_state \<Rightarrow> 's host_state \<times> usage_key option" where
  "GetHostUsageHistory1 env mac s =
     (case host_call env s of
        (s1, ok) \<Rightarrow> (s1, if ok then latest (filter (\<lambda>(m, _). m = mac) (map fst (hs_usage s))) else None))"

text \<open>A transaction: it is one step, which happens or does not.\<close>

definition MoveHostUsage ::
  "'s host_env \<Rightarrow> string \<Rightarrow> ciclo \<Rightarrow> ciclo \<Rightarrow> 's host_state \<Rightarrow> 's host_state \<times> bool" where
  "MoveHostUsage env mac de para s =
     (if de = para then (s, True)
      else case host_call env s of
        (s1, False) \<Rightarrow> (s1, False)
      | (s1, True) \<Rightarrow>
          (case map_of (hs_usage s) (mac, de) of
             None \<Rightarrow> (s1, True)
           | Some d \<Rightarrow>
               (s1\<lparr>hs_usage := filter (\<lambda>(k, _). k \<noteq> (mac, de)) (book (mac, para) d (hs_usage s))\<rparr>, True)))"

text \<open>\<open>PurgeHostUsage\<close> returns the rows it deleted, where the code returns their number.\<close>

definition declared :: "(string \<times> host_quota) list \<Rightarrow> string \<Rightarrow> bool" where
  "declared quotas mac \<longleftrightarrow> hq_LimitGB (quota_of quotas mac) > 0"

definition purgeable :: "(string \<times> host_quota) list \<Rightarrow> int \<Rightarrow> usage_key \<times> traffic \<Rightarrow> bool" where
  "purgeable quotas before r \<longleftrightarrow> (case r of ((mac, _, c), _) \<Rightarrow> c < before \<and> \<not> declared quotas mac)"

definition PurgeHostUsage ::
  "'s host_env \<Rightarrow> int \<Rightarrow> 's host_state \<Rightarrow> 's host_state \<times> (usage_key \<times> traffic) list" where
  "PurgeHostUsage env before s =
     (case host_call env s of
        (s1, ok) \<Rightarrow>
          if \<not> ok then (s1, [])
          else (let old = purgeable (hs_quotas s) before in
                (s1\<lparr>hs_usage := filter (\<lambda>r. \<not> old r) (hs_usage s)\<rparr>, filter old (hs_usage s))))"

subsection \<open>Measuring\<close>

definition AddHostBytes :: "string \<Rightarrow> int \<Rightarrow> traffic \<Rightarrow> 's host_state \<Rightarrow> 's host_state" where
  "AddHostBytes mac ts d s =
     (if mac = [] \<or> d = (0, 0) then s else s\<lparr>hs_pending := book (mac, ts) d (hs_pending s)\<rparr>)"

definition devolver :: "(sample_key \<times> traffic) list \<Rightarrow> 's host_state \<Rightarrow> 's host_state" where
  "devolver pendente s = s\<lparr>hs_pending := book_all pendente (hs_pending s)\<rparr>"

text \<open>The first pass of \<open>Flush\<close>: one bucket, then every bucket of every device.\<close>

definition gravar ::
  "'s host_env \<Rightarrow> (string \<times> host_quota) list \<Rightarrow> sample_key \<times> traffic \<Rightarrow>
   's host_state \<times> (sample_key \<times> traffic) list \<Rightarrow> 's host_state \<times> (sample_key \<times> traffic) list" where
  "gravar env quotas bucket r =
     (case bucket of ((mac, ts), d) \<Rightarrow>
      case r of (s, naoGravado) \<Rightarrow>
        let q = quota_of quotas mac; period = periodoDe q;
            inicio = host_CycleStart (he_zone env) ts period (diaDe q) in
        case AddHostUsage env mac period inicio d s of
          (s1, True) \<Rightarrow> (s1, naoGravado)
        | (s1, False) \<Rightarrow> (s1, naoGravado @ [((mac, ts), d)]))"

definition gravar_todos ::
  "'s host_env \<Rightarrow> (string \<times> host_quota) list \<Rightarrow> string list \<Rightarrow> (sample_key \<times> traffic) list \<Rightarrow>
   's host_state \<Rightarrow> 's host_state \<times> (sample_key \<times> traffic) list" where
  "gravar_todos env quotas macs pendente s =
     fold (\<lambda>mac. fold (gravar env quotas) (filter (\<lambda>((m, _), _). m = mac) pendente)) macs (s, [])"

subsection \<open>Warning\<close>

definition NomeDe :: "host_metadata \<Rightarrow> string" where
  "NomeDe m =
     (if hm_Alias m \<noteq> [] then hm_Alias m else if hm_Hostname m \<noteq> [] then hm_Hostname m
      else if hm_IP m \<noteq> [] then hm_IP m else hm_MAC m)"

definition nomes :: "'s host_env \<Rightarrow> 's host_state \<Rightarrow> 's host_state \<times> (string \<times> string) list" where
  "nomes env s =
     (case host_call env s of
        (s1, ok) \<Rightarrow> (s1, if ok then rev (map (\<lambda>m. (hm_MAC m, NomeDe m)) (hs_metadata s)) else []))"

definition used_pct :: "host_quota \<Rightarrow> 64 word \<Rightarrow> real" where
  "used_pct q used = real (unat used) / (hq_LimitGB q * bytesPerGB) * 100"

definition host_evaluate ::
  "'s host_env \<Rightarrow> string \<Rightarrow> string \<Rightarrow> host_quota \<Rightarrow> 64 word \<Rightarrow> 's host_state \<Rightarrow> 's host_state" where
  "host_evaluate env nome mac q used s =
     (case he_alerter env of
        None \<Rightarrow> s
      | Some A \<Rightarrow>
          if hq_LimitGB q * bytesPerGB \<le> 0 then s
          else if used_pct q used \<ge> 100 then
            s\<lparr>hs_alerts :=
               (case he_exceeded env nome q used of (title, message) \<Rightarrow>
                  ao_Create A TypeHostQuotaExceeded SeverityCritical title message mac
                    (ao_AutoResolve A TypeHostQuotaWarning mac (hs_alerts s)))\<rparr>
          else if used_pct q used \<ge> real_of_int (hq_AlertPct q) then
            s\<lparr>hs_alerts :=
               (case he_warning env nome q used of (title, message) \<Rightarrow>
                  ao_Create A TypeHostQuotaWarning SeverityWarning title message mac (hs_alerts s))\<rparr>
          else s)"

definition resolve_both :: "'s host_env \<Rightarrow> string \<Rightarrow> 's host_state \<Rightarrow> 's host_state" where
  "resolve_both env mac s =
     (case he_alerter env of
        None \<Rightarrow> s
      | Some A \<Rightarrow> s\<lparr>hs_alerts := ao_AutoResolve A TypeHostQuotaExceeded mac
                                (ao_AutoResolve A TypeHostQuotaWarning mac (hs_alerts s))\<rparr>)"

definition cicloNoDisco :: "'s host_env \<Rightarrow> string \<Rightarrow> 's host_state \<Rightarrow> 's host_state \<times> ciclo option" where
  "cicloNoDisco env mac s = (case GetHostUsageHistory1 env mac s of (s1, r) \<Rightarrow> (s1, map_option snd r))"

definition podar :: "'s host_env \<Rightarrow> 's host_state \<Rightarrow> 's host_state \<times> (usage_key \<times> traffic) list" where
  "podar env s =
     (if (case hs_ultimaPoda s of None \<Rightarrow> False | Some t \<Rightarrow> he_now env - t < intervaloDePoda) then (s, [])
      else PurgeHostUsage env (he_now env - retencaoSemCota) (s\<lparr>hs_ultimaPoda := Some (he_now env)\<rparr>))"

text \<open>What the second pass remembers while it goes: the usage read per cycle, and the names.\<close>

record host_cache =
  hc_uso :: "(ciclo \<times> (string \<times> traffic) list) list"
  hc_nomes :: "(string \<times> string) list option"

definition read_uso ::
  "'s host_env \<Rightarrow> ciclo \<Rightarrow> 's host_state \<Rightarrow> host_cache \<Rightarrow> 's host_state \<times> host_cache \<times> (string \<times> traffic) list option" where
  "read_uso env c s m =
     (case map_of (hc_uso m) c of
        Some uso \<Rightarrow> (s, m, Some uso)
      | None \<Rightarrow>
          (case GetHostUsageAll env (fst c) (snd c) s of
             (s1, None) \<Rightarrow> (s1, m, None)
           | (s1, Some uso) \<Rightarrow> (s1, m\<lparr>hc_uso := (c, uso) # hc_uso m\<rparr>, Some uso)))"

definition read_nomes ::
  "'s host_env \<Rightarrow> 's host_state \<Rightarrow> host_cache \<Rightarrow> 's host_state \<times> host_cache \<times> (string \<times> string) list" where
  "read_nomes env s m =
     (case hc_nomes m of
        Some ns \<Rightarrow> (s, m, ns)
      | None \<Rightarrow> (case nomes env s of (s1, ns) \<Rightarrow> (s1, m\<lparr>hc_nomes := Some ns\<rparr>, ns)))"

definition current_cycle :: "'s host_env \<Rightarrow> (string \<times> host_quota) list \<Rightarrow> string \<Rightarrow> ciclo" where
  "current_cycle env quotas mac =
     (let q = quota_of quotas mac in
      (periodoDe q, host_CycleStart (he_zone env) (he_now env) (periodoDe q) (diaDe q)))"

text \<open>The turn of the cycle of one device.\<close>

definition turn_cycle :: "'s host_env \<Rightarrow> ciclo \<Rightarrow> string \<Rightarrow> 's host_state \<Rightarrow> 's host_state" where
  "turn_cycle env c mac s =
     (case (case map_of (hs_lastCycle s) mac of Some p \<Rightarrow> (s, Some p) | None \<Rightarrow> cicloNoDisco env mac s) of
        (s1, prev) \<Rightarrow> if prev \<noteq> None \<and> prev \<noteq> Some c then resolve_both env mac s1 else s1)"

text \<open>One device in the second pass.\<close>

definition avaliar_um ::
  "'s host_env \<Rightarrow> (string \<times> host_quota) list \<Rightarrow> string \<Rightarrow> 's host_state \<times> host_cache \<Rightarrow> 's host_state \<times> host_cache" where
  "avaliar_um env quotas mac r =
     (case r of (s, m) \<Rightarrow>
        let c = current_cycle env quotas mac; s1 = turn_cycle env c mac s in
        case map_of quotas mac of
          None \<Rightarrow> (s1, m)
        | Some q \<Rightarrow>
            if \<not> hq_AlertEnabled q \<or> hq_LimitGB q \<le> 0 then (s1, m)
            else case read_uso env c s1 m of
              (s2, m2, None) \<Rightarrow> (s2, m2)
            | (s2, m2, Some uso) \<Rightarrow>
                (case read_nomes env s2 m2 of
                   (s3, m3, ns) \<Rightarrow>
                     let n = (case map_of ns mac of None \<Rightarrow> [] | Some n \<Rightarrow> n);
                         nome = (if n = [] then mac else n) in
                     (host_evaluate env nome mac q (used_bytes (entry mac uso)) s3, m3)))"

text \<open>
  \<open>Flush\<close>; \<open>chegadas\<close> are the bytes that the sampler delivers between the moment the accumulator is
  taken and the moment what could not be written goes back.  The rows the retention deleted are returned.
\<close>

definition flush_macs :: "(sample_key \<times> traffic) list \<Rightarrow> (string \<times> host_quota) list \<Rightarrow> string list" where
  "flush_macs pendente quotas =
     (let macs = remdups (map (fst \<circ> fst) pendente) in
      sort (macs @ filter (\<lambda>m. m \<notin> set macs) (remdups (map fst quotas))))"

definition deliver :: "(sample_key \<times> traffic) list \<Rightarrow> 's host_state \<Rightarrow> 's host_state" where
  "deliver chegadas s = fold (\<lambda>((mac, ts), d). AddHostBytes mac ts d) chegadas s"

definition host_Flush ::
  "'s host_env \<Rightarrow> (sample_key \<times> traffic) list \<Rightarrow> 's host_state \<Rightarrow> 's host_state \<times> (usage_key \<times> traffic) list" where
  "host_Flush env chegadas s =
     (let pendente = hs_pending s; s0 = deliver chegadas (s\<lparr>hs_pending := []\<rparr>) in
      case GetHostQuotas env s0 of
        (s1, None) \<Rightarrow> (devolver pendente s1, [])
      | (s1, Some quotas) \<Rightarrow>
          let macs = flush_macs pendente quotas;
              (s2, naoGravado) = gravar_todos env quotas macs pendente s1;
              s3 = devolver naoGravado s2;
              (s4, _) = fold (avaliar_um env quotas) macs (s3, \<lparr>hc_uso = [], hc_nomes = None\<rparr>) in
          podar env (s4\<lparr>hs_lastCycle := map (\<lambda>mac. (mac, current_cycle env quotas mac)) macs\<rparr>))"

subsection \<open>Declaring a quota\<close>

datatype host_error = InvalidMAC | InvalidLimit | InvalidPeriod | InvalidCycleDay | InvalidAlertPct | DatabaseError

definition check_quota :: "host_quota \<Rightarrow> host_error + host_quota" where
  "check_quota q0 =
     (let mac = MACCanonico (hq_MAC q0); q1 = q0\<lparr>hq_MAC := mac\<rparr> in
      if mac = [] then Inl InvalidMAC
      else if hq_LimitGB q1 < 0 then Inl InvalidLimit
      else if hq_Period q1 \<noteq> [] \<and> hq_Period q1 \<noteq> HostPeriodMonthly \<and> hq_Period q1 \<noteq> HostPeriodDaily
        then Inl InvalidPeriod
      else
        let q2 = q1\<lparr>hq_Period := (if hq_Period q1 = [] then HostPeriodMonthly else hq_Period q1)\<rparr>;
            q3 = (if hq_Period q2 = HostPeriodDaily then q2\<lparr>hq_CycleDay := 1\<rparr> else q2) in
        if hq_CycleDay q3 < 1 \<or> hq_CycleDay q3 > MaxCycleDay then Inl InvalidCycleDay
        else if hq_AlertPct q3 < 1 \<or> hq_AlertPct q3 > 100 then Inl InvalidAlertPct
        else Inr (q3\<lparr>hq_AlertEnabled := (hq_LimitGB q3 > 0)\<rparr>))"

text \<open>The usage of the current cycle follows its key.\<close>

definition rekey :: "'s host_env \<Rightarrow> (string \<times> host_quota) list \<Rightarrow> host_quota \<Rightarrow> 's host_state \<Rightarrow> 's host_state \<times> bool" where
  "rekey env quotas q s =
     (case map_of quotas (hq_MAC q) of
        None \<Rightarrow> (s, True)
      | Some antiga \<Rightarrow>
          if periodoDe antiga \<noteq> hq_Period q \<or> diaDe antiga \<noteq> hq_CycleDay q then
            (let de = (periodoDe antiga, host_CycleStart (he_zone env) (he_now env) (periodoDe antiga) (diaDe antiga));
                 para = (hq_Period q, host_CycleStart (he_zone env) (he_now env) (hq_Period q) (hq_CycleDay q)) in
             case MoveHostUsage env (hq_MAC q) de para s of
               (s1, ok) \<Rightarrow> (if ok then resolve_both env (hq_MAC q) s1 else s1, ok))
          else (s, True))"

definition host_Save :: "'s host_env \<Rightarrow> host_quota \<Rightarrow> 's host_state \<Rightarrow> 's host_state \<times> host_error option" where
  "host_Save env q0 s =
     (case check_quota q0 of
        Inl e \<Rightarrow> (s, Some e)
      | Inr q \<Rightarrow>
          (case GetHostQuotas env s of
             (s1, None) \<Rightarrow> (s1, Some DatabaseError)
           | (s1, Some quotas) \<Rightarrow>
               (case rekey env quotas q s1 of
                  (s2, ok) \<Rightarrow>
                    if \<not> ok then (s2, Some DatabaseError)
                    else (case SaveHostQuota env q s2 of (s3, ok) \<Rightarrow> (s3, if ok then None else Some DatabaseError)))))"

definition host_Delete :: "'s host_env \<Rightarrow> string \<Rightarrow> 's host_state \<Rightarrow> 's host_state \<times> host_error option" where
  "host_Delete env mac0 s =
     (let mac = MACCanonico mac0 in
      if mac = [] then (s, Some InvalidMAC)
      else
        case GetHostQuotas env (resolve_both env mac s) of
          (s1, None) \<Rightarrow> (s1, Some DatabaseError)
        | (s1, Some quotas) \<Rightarrow>
            (case map_of quotas mac of
               None \<Rightarrow> (s1, None)
             | Some q \<Rightarrow>
                 (case SaveHostQuota env (q\<lparr>hq_LimitGB := 0, hq_AlertEnabled := False\<rparr>) s1 of
                    (s2, ok) \<Rightarrow> (s2, if ok then None else Some DatabaseError))))"

end
