(* ===== verification/HostQuotaBooks.thy ===== *)
theory HostQuotaBooks
  imports HostQuota
begin

text \<open>Where the bytes measured for a device are: every operation of the quota moves them, none loses them.\<close>

subsection \<open>Where the bytes of a device are\<close>

definition stored :: "(traffic \<Rightarrow> 64 word) \<Rightarrow> string \<Rightarrow> 's host_state \<Rightarrow> 64 word" where
  "stored f mac s = amount f (\<lambda>(m, _). m = mac) (hs_usage s)"

definition waiting :: "(traffic \<Rightarrow> 64 word) \<Rightarrow> string \<Rightarrow> (sample_key \<times> traffic) list \<Rightarrow> 64 word" where
  "waiting f mac L = amount f (\<lambda>(m, _). m = mac) L"

definition holding :: "(traffic \<Rightarrow> 64 word) \<Rightarrow> string \<Rightarrow> 's host_state \<Rightarrow> 64 word" where
  "holding f mac s = stored f mac s + waiting f mac (hs_pending s)"

text \<open>The parts of the state that neither the warnings nor the bookkeeping of the second pass touch.\<close>

definition same_books :: "'s host_state \<Rightarrow> 's host_state \<Rightarrow> bool" where
  "same_books s s' \<longleftrightarrow> hs_usage s' = hs_usage s \<and> hs_pending s' = hs_pending s \<and> hs_quotas s' = hs_quotas s
     \<and> hs_lastCycle s' = hs_lastCycle s \<and> hs_ultimaPoda s' = hs_ultimaPoda s"

lemma same_books_refl [simp]: "same_books s s"
  by (simp add: same_books_def)

lemma same_books_trans: "same_books s s' \<Longrightarrow> same_books s' s'' \<Longrightarrow> same_books s s''"
  by (simp add: same_books_def)

lemma same_books_call [simp]: "same_books s (s\<lparr>hs_calls := n\<rparr>)" "same_books s (s\<lparr>hs_alerts := al\<rparr>)"
  by (simp_all add: same_books_def)

lemma same_books_resolve [simp]: "same_books s (resolve_both env mac s)"
  by (simp add: resolve_both_def split: option.split)

lemma same_books_evaluate [simp]: "same_books s (host_evaluate env nome mac q used s)"
  by (simp add: host_evaluate_def split: option.split prod.split)

lemma same_books_turn: "same_books s (turn_cycle env c mac s)"
proof -
  obtain s1 prev where p: "(case map_of (hs_lastCycle s) mac of Some p \<Rightarrow> (s, Some p) | None \<Rightarrow> cicloNoDisco env mac s) = (s1, prev)"
    by fastforce
  have "same_books s s1"
    using p by (auto simp: cicloNoDisco_def GetHostUsageHistory1_def host_call_def split: option.splits prod.splits)
  then show ?thesis
    by (auto simp: turn_cycle_def p intro: same_books_trans)
qed

lemma same_books_uso: "read_uso env c s m = (s1, r) \<Longrightarrow> same_books s s1"
  by (auto simp: read_uso_def GetHostUsageAll_def host_call_def Let_def split: option.splits prod.splits if_splits)

lemma same_books_nomes: "read_nomes env s m = (s1, r) \<Longrightarrow> same_books s s1"
  by (auto simp: read_nomes_def nomes_def host_call_def split: option.splits prod.splits if_splits)

lemma same_books_avaliar: "avaliar_um env quotas mac (s, m) = (s', m') \<Longrightarrow> same_books s s'"
  by (auto simp: avaliar_um_def Let_def split: option.splits prod.splits if_splits
      dest!: same_books_uso same_books_nomes)
    (meson same_books_trans same_books_turn same_books_evaluate)+

lemma same_books_avaliar_all: "fold (avaliar_um env quotas) macs (s, m) = (s', m') \<Longrightarrow> same_books s s'"
proof (induction macs arbitrary: s m)
  case (Cons mac macs)
  obtain s1 m1 where "avaliar_um env quotas mac (s, m) = (s1, m1)" by fastforce
  with Cons same_books_avaliar show ?case by (fastforce intro: same_books_trans)
qed simp

lemma holding_same: "same_books s s' \<Longrightarrow> holding f mac s' = holding f mac s"
  by (simp add: same_books_def holding_def stored_def)

context counter
begin

lemma holding_AddHostBytes:
  "mac \<noteq> [] \<Longrightarrow> holding f mac (AddHostBytes m ts d s) = holding f mac s + (if m = mac then f d else 0)"
  by (auto simp: holding_def stored_def waiting_def AddHostBytes_def amount_book zero)

lemma holding_deliver:
  "mac \<noteq> [] \<Longrightarrow> holding f mac (deliver ds s) = holding f mac s + waiting f mac ds"
  unfolding deliver_def waiting_def by (induction ds arbitrary: s) (auto simp: holding_AddHostBytes)

lemma holding_devolver: "holding f mac (devolver ds s) = holding f mac s + waiting f mac ds"
  by (simp add: holding_def stored_def waiting_def devolver_def amount_book_all)

lemma holding_gravar:
  assumes "gravar env quotas b (s, nao) = (s', nao')"
  shows "holding f mac s' + waiting f mac nao' = holding f mac s + waiting f mac nao + waiting f mac [b]"
  using assms
  by (auto simp: gravar_def AddHostUsage_def host_call_def holding_def stored_def waiting_def amount_book Let_def
      split: prod.splits bool.splits if_splits)

lemma holding_gravar_fold:
  assumes "fold (gravar env quotas) bs (s, nao) = (s', nao')"
  shows "holding f mac s' + waiting f mac nao' = holding f mac s + waiting f mac nao + waiting f mac bs"
  using assms
proof (induction bs arbitrary: s nao)
  case (Cons b bs)
  obtain s1 n1 where b: "gravar env quotas b (s, nao) = (s1, n1)" by fastforce
  with Cons.IH [of s1 n1] Cons.prems holding_gravar [OF b, of mac] show ?case
    by (cases b) (simp add: waiting_def algebra_simps)
qed (simp add: waiting_def)

lemma holding_gravar_todos:
  assumes "gravar_todos env quotas macs pendente s = (s', nao')" "distinct macs"
  shows "holding f mac s' + waiting f mac nao' = holding f mac s + (if mac \<in> set macs then waiting f mac pendente else 0)"
proof -
  have "fold (\<lambda>mac. fold (gravar env quotas) (filter (\<lambda>((m, _), _). m = mac) pendente)) macs (s, nao) = (s', nao')
    \<Longrightarrow> holding f mac s' + waiting f mac nao'
      = holding f mac s + waiting f mac nao + (if mac \<in> set macs then waiting f mac pendente else 0)" for nao
    using assms(2)
  proof (induction macs arbitrary: s nao)
    case (Cons m ms)
    let ?bs = "filter (\<lambda>((m', _), _). m' = m) pendente"
    obtain s1 n1 where b: "fold (gravar env quotas) ?bs (s, nao) = (s1, n1)" by fastforce
    have "waiting f mac ?bs = (if m = mac then waiting f mac pendente else 0)"
      unfolding waiting_def by (induction pendente) auto
    with Cons b holding_gravar_fold [OF b, of mac] show ?case by (auto simp: algebra_simps)
  qed simp
  from this [of "[]"] assms(1) show ?thesis by (simp add: gravar_todos_def waiting_def)
qed

lemma holding_podar:
  assumes "podar env s = (s', purged)"
  shows "holding f mac s' + amount f (\<lambda>(m, _). m = mac) purged = holding f mac s"
  using assms amount_split [of f "\<lambda>(m, _). m = mac" "purgeable (hs_quotas s) (he_now env - retencaoSemCota)" "hs_usage s"]
  by (auto simp: podar_def PurgeHostUsage_def host_call_def holding_def stored_def Let_def algebra_simps
      split: if_splits prod.splits)

lemma holding_Flush:
  assumes "host_Flush env chegadas s = (s', purged)" "mac \<noteq> []"
  shows "holding f mac s' + amount f (\<lambda>(m, _). m = mac) purged = holding f mac s + waiting f mac chegadas"
proof -
  define pendente where "pendente = hs_pending s"
  define s0 where "s0 = deliver chegadas (s\<lparr>hs_pending := []\<rparr>)"
  have h0: "holding f mac s0 + waiting f mac pendente = holding f mac s + waiting f mac chegadas"
    using assms(2) by (simp add: s0_def holding_deliver) (simp add: holding_def waiting_def stored_def pendente_def)
  obtain s1 r where r: "GetHostQuotas env s0 = (s1, r)" by fastforce
  have h1: "holding f mac s1 = holding f mac s0"
    using r by (auto simp: GetHostQuotas_def host_call_def intro: holding_same)
  show ?thesis
  proof (cases r)
    case None
    then have "s' = devolver pendente s1" "purged = []"
      using assms r by (auto simp: host_Flush_def Let_def pendente_def s0_def)
    with h0 h1 show ?thesis by (simp add: holding_devolver)
  next
    case (Some quotas)
    define macs where "macs = flush_macs pendente quotas"
    obtain s2 nao where g: "gravar_todos env quotas macs pendente s1 = (s2, nao)" by fastforce
    obtain s4 m where a: "fold (avaliar_um env quotas) macs (devolver nao s2, \<lparr>hc_uso = [], hc_nomes = None\<rparr>) = (s4, m)"
      by fastforce
    have fin: "podar env (s4\<lparr>hs_lastCycle := map (\<lambda>mac. (mac, current_cycle env quotas mac)) macs\<rparr>) = (s', purged)"
      using assms r Some g a by (auto simp: host_Flush_def Let_def pendente_def s0_def macs_def split: prod.splits)
    have "distinct macs" by (auto simp: macs_def flush_macs_def Let_def)
    moreover have "waiting f mac pendente = 0" if "mac \<notin> set macs"
      unfolding waiting_def using that
      by (intro amount_none) (auto simp: macs_def flush_macs_def Let_def list_all_iff image_iff split: prod.splits)
    ultimately have "holding f mac (devolver nao s2) = holding f mac s1 + waiting f mac pendente"
      using holding_gravar_todos [OF g, of mac] by (auto simp: holding_devolver)
    moreover have "holding f mac (s4\<lparr>hs_lastCycle := l\<rparr>) = holding f mac (devolver nao s2)" for l
      using holding_same [OF same_books_avaliar_all [OF a], of f mac] by (simp add: holding_def stored_def)
    ultimately show ?thesis
      using holding_podar [OF fin, of mac] h0 h1 by (simp add: algebra_simps)
  qed
qed

end


text \<open>The key of a row is unique, and the retention spares a declared device.\<close>

definition table_ok :: "'s host_state \<Rightarrow> bool" where
  "table_ok s \<longleftrightarrow> distinct (map fst (hs_usage s))"

lemma table_ok_same: "same_books s s' \<Longrightarrow> table_ok s' = table_ok s"
  by (simp add: same_books_def table_ok_def)

lemma table_ok_filter: "distinct (map fst L) \<Longrightarrow> distinct (map fst (filter P L))"
  by (induction L) auto

lemma deliver_tables [simp]:
  "hs_usage (deliver ds s) = hs_usage s" "hs_quotas (deliver ds s) = hs_quotas s"
  "hs_lastCycle (deliver ds s) = hs_lastCycle s" "hs_alerts (deliver ds s) = hs_alerts s"
  "hs_calls (deliver ds s) = hs_calls s" "hs_ultimaPoda (deliver ds s) = hs_ultimaPoda s"
  "hs_metadata (deliver ds s) = hs_metadata s"
  unfolding deliver_def by (induction ds arbitrary: s) (auto simp: AddHostBytes_def)

lemma devolver_tables [simp]:
  "hs_usage (devolver ds s) = hs_usage s" "hs_quotas (devolver ds s) = hs_quotas s"
  "hs_lastCycle (devolver ds s) = hs_lastCycle s" "hs_alerts (devolver ds s) = hs_alerts s"
  "hs_calls (devolver ds s) = hs_calls s" "hs_ultimaPoda (devolver ds s) = hs_ultimaPoda s"
  "hs_metadata (devolver ds s) = hs_metadata s" "hs_pending (devolver ds s) = book_all ds (hs_pending s)"
  by (simp_all add: devolver_def)

text \<open>What the first pass changes: rows are booked and calls are counted.\<close>

definition only_booked :: "'s host_state \<Rightarrow> 's host_state \<Rightarrow> bool" where
  "only_booked s s' \<longleftrightarrow> s'\<lparr>hs_usage := hs_usage s, hs_calls := hs_calls s\<rparr> = s \<and> (table_ok s \<longrightarrow> table_ok s')"

lemma only_booked_fields:
  "only_booked s s' \<Longrightarrow> hs_quotas s' = hs_quotas s \<and> hs_lastCycle s' = hs_lastCycle s \<and> hs_alerts s' = hs_alerts s
     \<and> hs_pending s' = hs_pending s \<and> hs_ultimaPoda s' = hs_ultimaPoda s \<and> hs_metadata s' = hs_metadata s"
  unfolding only_booked_def by (cases s; cases s') simp

lemma only_booked_trans: "only_booked s s' \<Longrightarrow> only_booked s' s'' \<Longrightarrow> only_booked s s''"
  unfolding only_booked_def by (cases s; cases s'; cases s'') simp

lemma only_booked_AddHostUsage: "AddHostUsage env m p c d s = (s', ok) \<Longrightarrow> only_booked s s'"
  by (auto simp: AddHostUsage_def host_call_def Let_def only_booked_def table_ok_def distinct_book split: if_splits)

lemma only_booked_gravar: "only_booked s (fst r) \<Longrightarrow> only_booked s (fst (gravar env quotas b r))"
  by (auto simp: gravar_def Let_def split: prod.splits bool.splits dest!: only_booked_AddHostUsage intro: only_booked_trans)

lemma only_booked_refl [simp]: "only_booked s s"
  by (simp add: only_booked_def)

lemma only_booked_fold: "only_booked s (fst r) \<Longrightarrow> only_booked s (fst (fold (gravar env quotas) bs r))"
  by (rule fold_invariant [where Q = "\<lambda>_. True"])
    (simp_all add: only_booked_gravar)

lemma only_booked_todos: "gravar_todos env quotas macs pendente s = (s', nao) \<Longrightarrow> only_booked s s'"
proof -
  have "only_booked s (fst (gravar_todos env quotas macs pendente s))"
    unfolding gravar_todos_def
    by (rule fold_invariant [where Q = "\<lambda>_. True"]) (simp_all add: only_booked_fold)
  then show "gravar_todos env quotas macs pendente s = (s', nao) \<Longrightarrow> only_booked s s'" by simp
qed

text \<open>The shape of a flush that could read the quotas.\<close>

lemma host_Flush_cases:
  assumes "host_Flush env chegadas s = (s', purged)"
  obtains (unread) "he_fails env (hs_calls s)" "purged = []" "hs_usage s' = hs_usage s" "hs_quotas s' = hs_quotas s"
      "hs_alerts s' = hs_alerts s" "hs_lastCycle s' = hs_lastCycle s"
  | (read) s1 s2 nao s4 m where
      "\<not> he_fails env (hs_calls s)"
      "s1 = (deliver chegadas (s\<lparr>hs_pending := []\<rparr>))\<lparr>hs_calls := Suc (hs_calls s)\<rparr>"
      "gravar_todos env (hs_quotas s) (flush_macs (hs_pending s) (hs_quotas s)) (hs_pending s) s1 = (s2, nao)"
      "fold (avaliar_um env (hs_quotas s)) (flush_macs (hs_pending s) (hs_quotas s))
         (devolver nao s2, \<lparr>hc_uso = [], hc_nomes = None\<rparr>) = (s4, m)"
      "podar env (s4\<lparr>hs_lastCycle := map (\<lambda>mac. (mac, current_cycle env (hs_quotas s) mac))
         (flush_macs (hs_pending s) (hs_quotas s))\<rparr>) = (s', purged)"
proof (cases "he_fails env (hs_calls s)")
  case True
  then have "s' = devolver (hs_pending s) ((deliver chegadas (s\<lparr>hs_pending := []\<rparr>))\<lparr>hs_calls := Suc (hs_calls s)\<rparr>)" "purged = []"
    using assms by (simp_all add: host_Flush_def Let_def GetHostQuotas_def host_call_def)
  with True show ?thesis by (intro unread) simp_all
next
  case False
  obtain s2 nao where g: "gravar_todos env (hs_quotas s) (flush_macs (hs_pending s) (hs_quotas s)) (hs_pending s)
      ((deliver chegadas (s\<lparr>hs_pending := []\<rparr>))\<lparr>hs_calls := Suc (hs_calls s)\<rparr>) = (s2, nao)" by fastforce
  obtain s4 m where a: "fold (avaliar_um env (hs_quotas s)) (flush_macs (hs_pending s) (hs_quotas s))
         (devolver nao s2, \<lparr>hc_uso = [], hc_nomes = None\<rparr>) = (s4, m)" by fastforce
  from assms False g a have "podar env (s4\<lparr>hs_lastCycle := map (\<lambda>mac. (mac, current_cycle env (hs_quotas s) mac))
         (flush_macs (hs_pending s) (hs_quotas s))\<rparr>) = (s', purged)"
    by (simp add: host_Flush_def Let_def GetHostQuotas_def host_call_def)
  from read [OF False refl g a this] show ?thesis .
qed

lemma podar_tables:
  assumes "podar env s = (s', purged)"
  shows "hs_quotas s' = hs_quotas s" "hs_alerts s' = hs_alerts s" "hs_lastCycle s' = hs_lastCycle s"
    "hs_pending s' = hs_pending s" "table_ok s \<Longrightarrow> table_ok s'"
    "declared (hs_quotas s) mac \<Longrightarrow> list_all (\<lambda>((m, _), _). m \<noteq> mac) purged"
  using assms
  by (auto simp: podar_def PurgeHostUsage_def host_call_def Let_def table_ok_def table_ok_filter purgeable_def list_all_iff
      split: if_splits)

lemma host_Flush_tables:
  assumes "host_Flush env chegadas s = (s', purged)"
  shows "hs_quotas s' = hs_quotas s" "table_ok s \<Longrightarrow> table_ok s'"
    "declared (hs_quotas s) mac \<Longrightarrow> list_all (\<lambda>((m, _), _). m \<noteq> mac) purged"
proof -
  have "hs_quotas s' = hs_quotas s \<and> (table_ok s \<longrightarrow> table_ok s')
    \<and> (declared (hs_quotas s) mac \<longrightarrow> list_all (\<lambda>((m, _), _). m \<noteq> mac) purged)"
    using assms
  proof (cases rule: host_Flush_cases)
    case unread
    then show ?thesis by (simp add: table_ok_def)
  next
    case (read s1 s2 nao s4 m)
    note b = only_booked_todos [OF read(3)]
    note e = same_books_avaliar_all [OF read(4)]
    have "hs_quotas s4 = hs_quotas s" "table_ok s \<longrightarrow> table_ok s4"
      using only_booked_fields [OF b] b e table_ok_same [OF e]
      by (simp_all add: read(2) same_books_def only_booked_def table_ok_def)
    with podar_tables [OF read(5)] show ?thesis by (simp add: table_ok_def)
  qed
  then show "hs_quotas s' = hs_quotas s" "table_ok s \<Longrightarrow> table_ok s'"
    "declared (hs_quotas s) mac \<Longrightarrow> list_all (\<lambda>((m, _), _). m \<noteq> mac) purged" by simp_all
qed


subsection \<open>No byte is lost\<close>

datatype 's host_op =
    Measured string int traffic
  | Flushed "'s host_env" "(sample_key \<times> traffic) list"
  | Saved "'s host_env" host_quota
  | Deleted "'s host_env" string

fun run_host_op :: "'s host_op \<Rightarrow> 's host_state \<Rightarrow> 's host_state \<times> (usage_key \<times> traffic) list" where
  "run_host_op (Measured mac ts d) s = (AddHostBytes mac ts d s, [])"
| "run_host_op (Flushed env chegadas) s = host_Flush env chegadas s"
| "run_host_op (Saved env q) s = (fst (host_Save env q s), [])"
| "run_host_op (Deleted env mac) s = (fst (host_Delete env mac s), [])"

fun run_host :: "'s host_op list \<Rightarrow> 's host_state \<Rightarrow> 's host_state \<times> (usage_key \<times> traffic) list" where
  "run_host [] s = (s, [])"
| "run_host (x # xs) s = (case run_host_op x s of (s1, p) \<Rightarrow> case run_host xs s1 of (s2, p') \<Rightarrow> (s2, p @ p'))"

text \<open>What the sampler measured for a device during a run.\<close>

fun measured :: "(traffic \<Rightarrow> 64 word) \<Rightarrow> string \<Rightarrow> 's host_op \<Rightarrow> 64 word" where
  "measured f mac (Measured m ts d) = (if m = mac then f d else 0)"
| "measured f mac (Flushed env chegadas) = waiting f mac chegadas"
| "measured f mac _ = 0"

text \<open>Operations that leave the quota of a device declared.\<close>

fun keeps_declared :: "string \<Rightarrow> 's host_op \<Rightarrow> bool" where
  "keeps_declared mac (Saved env q) \<longleftrightarrow> MACCanonico (hq_MAC q) = mac \<longrightarrow> hq_LimitGB q > 0"
| "keeps_declared mac (Deleted env m) \<longleftrightarrow> MACCanonico m \<noteq> mac"
| "keeps_declared mac _ \<longleftrightarrow> True"

lemma entry_key: "map_of L k = Some d \<Longrightarrow> entry k L = d"
  by (simp add: entry_def)

lemma MoveHostUsage_tables:
  assumes "MoveHostUsage env m de para s = (s', ok)" "table_ok s"
  shows "table_ok s'" "hs_quotas s' = hs_quotas s"
  using assms
  by (auto simp: MoveHostUsage_def host_call_def table_ok_def distinct_book table_ok_filter
      split: if_splits option.splits bool.splits)

context counter
begin

lemma holding_MoveHostUsage:
  assumes "MoveHostUsage env m de para s = (s', ok)" "table_ok s"
  shows "holding f mac s' = holding f mac s"
proof (cases "hs_usage s' = hs_usage s")
  case True
  then have "same_books s s'"
    using assms(1) by (auto simp: MoveHostUsage_def host_call_def same_books_def split: if_splits option.splits bool.splits)
  then show ?thesis by (rule holding_same)
next
  case False
  then obtain d where d: "de \<noteq> para" "map_of (hs_usage s) (m, de) = Some d"
    "hs_usage s' = filter (\<lambda>(k, _). k \<noteq> (m, de)) (book (m, para) d (hs_usage s))" "hs_pending s' = hs_pending s"
    using assms(1) by (auto simp: MoveHostUsage_def host_call_def split: if_splits option.splits bool.splits)
  have "entry (m, de) (book (m, para) d (hs_usage s)) = d"
    using d(1) by (auto simp: entry_book entry_key [OF d(2)])
  then show ?thesis
    using amount_remove [OF distinct_book, of "hs_usage s" "\<lambda>(m', _). m' = mac" "(m, de)" "(m, para)" d] assms(2)
    by (auto simp: d holding_def stored_def table_ok_def amount_book split: if_splits)
qed

end

lemma same_books_quotas: "GetHostQuotas env s = (s', r) \<Longrightarrow> same_books s s'"
  by (auto simp: GetHostQuotas_def host_call_def)

lemma same_books_resolve_if: "same_books s (if ok then resolve_both env m s else s)"
  by simp

lemma SaveHostQuota_books:
  "SaveHostQuota env q s = (s', ok) \<Longrightarrow>
   hs_usage s' = hs_usage s \<and> hs_pending s' = hs_pending s
   \<and> (hs_quotas s' = hs_quotas s \<or> hs_quotas s' = AList.update (hq_MAC q) q (hs_quotas s))"
  by (auto simp: SaveHostQuota_def host_call_def split: if_splits)

lemma check_quota_ok: "check_quota q0 = Inr q \<Longrightarrow> hq_MAC q = MACCanonico (hq_MAC q0) \<and> hq_LimitGB q = hq_LimitGB q0"
  by (auto simp: check_quota_def Let_def split: if_splits)

lemma declared_update:
  "declared qs mac \<Longrightarrow> hq_MAC q \<noteq> mac \<or> hq_LimitGB q > 0 \<Longrightarrow> declared (AList.update (hq_MAC q) q qs) mac"
  by (auto simp: declared_def quota_of_def update_conv')

definition rows_ok :: "'s host_state \<Rightarrow> bool" where
  "rows_ok s \<longleftrightarrow> list_all (\<lambda>(k, q). hq_MAC q = k) (hs_quotas s)"

lemma rows_ok_row: "rows_ok s \<Longrightarrow> map_of (hs_quotas s) k = Some q \<Longrightarrow> hq_MAC q = k"
  by (auto simp: rows_ok_def list_all_iff dest: map_of_SomeD)

lemma rows_ok_eq: "hs_quotas s' = hs_quotas s \<Longrightarrow> rows_ok s' = rows_ok s"
  by (simp add: rows_ok_def)

lemma list_all_update: "list_all (\<lambda>(k, q). P k q) L \<Longrightarrow> P k q \<Longrightarrow> list_all (\<lambda>(k, q). P k q) (AList.update k q L)"
  by (induction L) auto

lemma rows_ok_save: "SaveHostQuota env q s = (s', ok) \<Longrightarrow> rows_ok s \<Longrightarrow> rows_ok s'"
  by (auto simp: SaveHostQuota_def host_call_def rows_ok_def intro: list_all_update [where P = "\<lambda>k q. hq_MAC q = k", simplified] split: if_splits)

lemma books_eq: "hs_usage s' = hs_usage s \<Longrightarrow> hs_pending s' = hs_pending s \<Longrightarrow> holding f mac s' = holding f mac s \<and> table_ok s' = table_ok s"
  by (simp add: holding_def stored_def table_ok_def)

text \<open>Declaring or removing a quota moves bytes of a device at most from one row to another.\<close>

context counter
begin

lemma rekey_books:
  assumes "rekey env quotas q s = (s', ok)" "table_ok s"
  shows "holding f mac s' = holding f mac s \<and> table_ok s' \<and> hs_quotas s' = hs_quotas s"
  using assms
  by (auto simp: rekey_def Let_def holding_MoveHostUsage MoveHostUsage_tables holding_same [OF same_books_resolve]
      table_ok_same [OF same_books_resolve] same_books_resolve [unfolded same_books_def]
      split: option.splits if_splits prod.splits)

lemma host_Save_books:
  assumes "host_Save env q0 s = (s', e)" "table_ok s" "rows_ok s"
  shows "holding f mac s' = holding f mac s \<and> table_ok s' \<and> rows_ok s'
    \<and> (declared (hs_quotas s) mac \<and> (MACCanonico (hq_MAC q0) = mac \<longrightarrow> hq_LimitGB q0 > 0) \<longrightarrow> declared (hs_quotas s') mac)"
proof (cases "check_quota q0")
  case (Inl e)
  with assms show ?thesis by (simp add: host_Save_def)
next
  case (Inr q)
  note q = check_quota_ok [OF Inr]
  obtain s1 r where r: "GetHostQuotas env s = (s1, r)" by fastforce
  note b = same_books_quotas [OF r]
  have q1: "hs_quotas s1 = hs_quotas s" using b by (simp add: same_books_def)
  note h1 = holding_same [OF b, of f mac] table_ok_same [OF b]
  show ?thesis
  proof (cases r)
    case None
    then show ?thesis using assms Inr r h1 q1 rows_ok_eq [OF q1] by (simp add: host_Save_def)
  next
    case (Some quotas)
    obtain s2 ok where k: "rekey env quotas q s1 = (s2, ok)" by fastforce
    have h2: "holding f mac s2 = holding f mac s" "table_ok s2" "hs_quotas s2 = hs_quotas s"
      using rekey_books [OF k, of mac] h1 assms(2) q1 by simp_all
    show ?thesis
    proof (cases ok)
      case False
      then show ?thesis using assms Inr r Some k h2 rows_ok_eq [OF h2(3)] by (simp add: host_Save_def)
    next
      case True
      obtain s3 ok3 where v: "SaveHostQuota env q s2 = (s3, ok3)" by fastforce
      with assms Inr r Some k True have "s' = s3" by (simp add: host_Save_def)
      moreover have "holding f mac s3 = holding f mac s" "table_ok s3"
        using SaveHostQuota_books [OF v] books_eq [of s3 s2 f mac] h2 by simp_all
      moreover have "rows_ok s3" using rows_ok_save [OF v] assms(3) rows_ok_eq [OF h2(3)] by simp
      moreover have "declared (hs_quotas s3) mac"
        if "declared (hs_quotas s) mac" "MACCanonico (hq_MAC q0) = mac \<longrightarrow> hq_LimitGB q0 > 0"
        using SaveHostQuota_books [OF v] declared_update [of "hs_quotas s" mac q] q that h2(3) by fastforce
      ultimately show ?thesis by simp
    qed
  qed
qed

lemma host_Delete_books:
  assumes "host_Delete env m s = (s', e)" "table_ok s" "rows_ok s"
  shows "holding f mac s' = holding f mac s \<and> table_ok s' \<and> rows_ok s'
    \<and> (declared (hs_quotas s) mac \<and> MACCanonico m \<noteq> mac \<longrightarrow> declared (hs_quotas s') mac)"
proof (cases "MACCanonico m = []")
  case True
  with assms show ?thesis by (simp add: host_Delete_def)
next
  case False
  obtain s1 r where r: "GetHostQuotas env (resolve_both env (MACCanonico m) s) = (s1, r)" by fastforce
  have b: "same_books s s1" using same_books_quotas [OF r] same_books_resolve same_books_trans by blast
  have q1: "hs_quotas s1 = hs_quotas s" using b by (simp add: same_books_def)
  note h1 = holding_same [OF b, of f mac] table_ok_same [OF b] rows_ok_eq [OF q1]
  have rq: "r = None \<or> r = Some (hs_quotas s)"
    using r same_books_resolve [of s env "MACCanonico m"] by (auto simp: GetHostQuotas_def host_call_def same_books_def split: if_splits)
  show ?thesis
  proof (cases "r = None \<or> map_of (hs_quotas s) (MACCanonico m) = None")
    case True
    then have "s' = s1" using assms(1) False r rq by (auto simp: host_Delete_def Let_def)
    with h1 q1 assms show ?thesis by simp
  next
    case nxt: False
    then obtain q where q: "map_of (hs_quotas s) (MACCanonico m) = Some q" by auto
    let ?q = "q\<lparr>hq_LimitGB := 0, hq_AlertEnabled := False\<rparr>"
    obtain s2 ok where v: "SaveHostQuota env ?q s1 = (s2, ok)" by fastforce
    have "s' = s2" using assms(1) False r rq nxt q v by (auto simp: host_Delete_def Let_def)
    moreover have "holding f mac s2 = holding f mac s" "table_ok s2"
      using SaveHostQuota_books [OF v] books_eq [of s2 s1 f mac] h1 assms(2) by simp_all
    moreover have "rows_ok s2" using rows_ok_save [OF v] assms(3) h1(3) by simp
    moreover have "declared (hs_quotas s2) mac" if "declared (hs_quotas s) mac" "MACCanonico m \<noteq> mac"
      using SaveHostQuota_books [OF v] declared_update [of "hs_quotas s" mac ?q] that q1 rows_ok_row [OF assms(3) q]
      by fastforce
    ultimately show ?thesis by simp
  qed
qed

lemma run_host_op_books:
  assumes "run_host_op x s = (s', purged)" "table_ok s" "rows_ok s" "mac \<noteq> []"
  shows "holding f mac s' + amount f (\<lambda>(m, _). m = mac) purged = holding f mac s + measured f mac x
    \<and> table_ok s' \<and> rows_ok s'
    \<and> (declared (hs_quotas s) mac \<and> keeps_declared mac x \<longrightarrow>
         declared (hs_quotas s') mac \<and> list_all (\<lambda>((m, _), _). m \<noteq> mac) purged)"
proof (cases x)
  case (Measured m ts d)
  then have "s' = AddHostBytes m ts d s" "purged = []" using assms(1) by simp_all
  moreover have "table_ok s'" "rows_ok s'" "hs_quotas s' = hs_quotas s"
    using calculation assms(2,3) by (auto simp: AddHostBytes_def table_ok_def rows_ok_def)
  ultimately show ?thesis using holding_AddHostBytes [OF assms(4), of m ts d s] by (simp add: Measured)
next
  case (Flushed env chegadas)
  then have "host_Flush env chegadas s = (s', purged)" using assms(1) by simp
  from holding_Flush [OF this assms(4)] host_Flush_tables [OF this] show ?thesis
    using assms(2,3) by (simp add: Flushed rows_ok_def)
next
  case (Saved env q)
  obtain s1 e where "host_Save env q s = (s1, e)" by fastforce
  from host_Save_books [OF this assms(2,3), of mac] this show ?thesis
    using assms(1) by (simp add: Saved)
next
  case (Deleted env m)
  obtain s1 e where "host_Delete env m s = (s1, e)" by fastforce
  from host_Delete_books [OF this assms(2,3), of mac] this show ?thesis
    using assms(1) by (simp add: Deleted)
qed

lemma run_host_books:
  assumes "run_host xs s = (s', purged)" "table_ok s" "rows_ok s" "mac \<noteq> []"
  shows "holding f mac s' + amount f (\<lambda>(m, _). m = mac) purged = holding f mac s + sum_list (map (measured f mac) xs)
    \<and> (declared (hs_quotas s) mac \<and> list_all (keeps_declared mac) xs \<longrightarrow> list_all (\<lambda>((m, _), _). m \<noteq> mac) purged)"
  using assms
proof (induction xs arbitrary: s purged)
  case (Cons x xs)
  obtain s1 p1 where x: "run_host_op x s = (s1, p1)" by fastforce
  obtain s2 p2 where xs: "run_host xs s1 = (s2, p2)" by fastforce
  have eq: "s' = s2" "purged = p1 @ p2" using Cons.prems(1) x xs by simp_all
  note b = run_host_op_books [OF x Cons.prems(2-4)]
  have IH: "holding f mac s2 + amount f (\<lambda>(m, _). m = mac) p2 = holding f mac s1 + sum_list (map (measured f mac) xs)"
    "declared (hs_quotas s1) mac \<and> list_all (keeps_declared mac) xs \<longrightarrow> list_all (\<lambda>((m, _), _). m \<noteq> mac) p2"
    using Cons.IH [of s1 p2] xs b Cons.prems(4) by (simp_all add: eq)
  have "a + (p + q) = h + (x + y)" if "a + q = b + y" "b + p = h + x" for a b h p q x y :: "64 word"
  proof -
    have "a + (p + q) = (a + q) + p" by (simp add: algebra_simps)
    also have "\<dots> = (b + p) + y" by (simp add: that(1) algebra_simps)
    finally show ?thesis by (simp add: that(2) algebra_simps)
  qed
  from this [OF IH(1) conjunct1 [OF b]] IH(2) b show ?case
    unfolding eq amount_simps list_all_append list.map sum_list.Cons list.pred_inject by blast
qed simp

lemma declared_keeps_all:
  assumes "run_host xs s = (s', purged)" "table_ok s" "rows_ok s" "mac \<noteq> []"
    and "declared (hs_quotas s) mac" "list_all (keeps_declared mac) xs"
  shows "holding f mac s' = holding f mac s + sum_list (map (measured f mac) xs)"
proof -
  have "list_all (\<lambda>((m, _), _). m \<noteq> mac) purged" using run_host_books [OF assms(1-4)] assms(5,6) by simp
  then have "amount f (\<lambda>(m, _). m = mac) purged = 0"
    by (intro amount_none) (auto simp: list_all_iff)
  with run_host_books [OF assms(1-4)] show ?thesis by simp
qed

end

text \<open>C30. No byte of a device with a declared quota is lost: over any run of the service - bytes measured while
  it is idle or in the middle of a flush, flushes in which any calls of the database fail, quotas declared,
  changed or removed for other devices, its own period or closing day changed - what is stored for it plus what
  waits in memory is exactly what was there before plus what the sampler measured, received and sent (as 64-bit
  counters, which wrap).
\<close>
theorem no_byte_is_lost:
  assumes "table_ok s" "rows_ok s" "mac \<noteq> []" "declared (hs_quotas s) mac" "list_all (keeps_declared mac) ops"
    and "run_host ops s = (s', purged)"
  shows "holding fst mac s' = holding fst mac s + sum_list (map (measured fst mac) ops)
    \<and> holding snd mac s' = holding snd mac s + sum_list (map (measured snd mac) ops)"
  using received.declared_keeps_all sent.declared_keeps_all assms by blast

subsection \<open>Witnesses\<close>

definition demo_mac :: string where "demo_mac = ''aa:bb:cc:dd:ee:ff''"

definition demo_quota :: host_quota where
  "demo_quota = \<lparr>hq_MAC = demo_mac, hq_LimitGB = 1, hq_Period = HostPeriodDaily, hq_CycleDay = 1, hq_AlertPct = 80,
     hq_AlertEnabled = True\<rparr>"

definition demo_host_env :: "bool \<Rightarrow> alert_state host_env" where
  "demo_host_env broken =
     \<lparr>he_fails = (\<lambda>n. broken), he_now = 1785000000, he_zone = - 10800,
      he_alerter = Some (alerts_service (healthy (demo_alert_env Unset))),
      he_exceeded = (\<lambda>nome q used. (nome, nome)), he_warning = (\<lambda>nome q used. (nome, nome))\<rparr>"

text \<open>Yesterday the device reached its limit; today it has sent two bytes.\<close>

definition demo_host :: "(string \<times> ciclo) list \<Rightarrow> alert_state host_state" where
  "demo_host lastCycle =
     \<lparr>hs_quotas = [(demo_mac, demo_quota)], hs_usage = [((demo_mac, HostPeriodDaily, 1784862000), (1000000000, 0))],
      hs_metadata = [], hs_calls = 0,
      hs_alerts = fst (Create (demo_alert_env Unset) TypeHostQuotaExceeded SeverityCritical ''t'' ''m'' demo_mac no_alerts),
      hs_pending = [((demo_mac, 1784999990), (1, 1))], hs_lastCycle = lastCycle, hs_ultimaPoda = None\<rparr>"

lemma demo_open: "alert_open TypeHostQuotaExceeded demo_mac (hs_alerts (demo_host l))"
  by (simp add: demo_host_def) code_simp

lemma demo_ok: "alerts_ok (hs_alerts (demo_host l))" "table_ok (demo_host l)" "rows_ok (demo_host l)"
proof -
  have "alerts_ok no_alerts" by (simp add: alerts_ok_def no_alerts_def open_rows_def)
  then show "alerts_ok (hs_alerts (demo_host l))" by (simp add: demo_host_def Create_ok)
qed (simp_all add: table_ok_def rows_ok_def demo_host_def demo_quota_def)

lemma demo_cycle: "current_cycle (demo_host_env False) (hs_quotas (demo_host l)) demo_mac = (HostPeriodDaily, 1784948400)"
  by (simp add: demo_host_def) code_simp

lemma no_byte_is_lost_witness:
  "holding snd demo_mac (fst (run_host [Measured demo_mac 5 (2, 3), Flushed (demo_host_env True) [((demo_mac, 6), (1, 4))]] (demo_host [])))
   = holding snd demo_mac (demo_host []) + 7"
proof -
  let ?ops = "[Measured demo_mac 5 (2, 3), Flushed (demo_host_env True) [((demo_mac, 6), (1, 4))]]"
  have "declared (hs_quotas (demo_host [])) demo_mac"
    by (simp add: demo_host_def declared_def quota_of_def demo_quota_def)
  from no_byte_is_lost [OF demo_ok(2,3) _ this, of ?ops "fst (run_host ?ops (demo_host []))" "snd (run_host ?ops (demo_host []))"]
  show ?thesis by (simp add: demo_mac_def waiting_def del: run_host.simps)
qed

end
