(* ===== verification/HostQuotaWarnings.thy ===== *)
theory HostQuotaWarnings
  imports HostQuotaBooks
begin

text \<open>
  What a flush with a working database books and warns about.  The locale \<open>alerter\<close> is the interface
  of the alerts; the theorems rest on its interpretation by the alerts of the panel.
\<close>

subsection \<open>Warnings\<close>

text \<open>The usage of one cycle as \<open>GetHostUsageAll\<close> returns it, and the cache of the second pass.\<close>

definition usage_view :: "ciclo \<Rightarrow> (usage_key \<times> traffic) list \<Rightarrow> (string \<times> traffic) list" where
  "usage_view c U = map (\<lambda>((mac, _), d). (mac, d)) (filter (\<lambda>((_, p, st), _). p = fst c \<and> st = snd c) U)"

lemma entry_usage_view: "entry mac (usage_view c U) = entry (mac, c) U"
  unfolding usage_view_def by (induction U) (auto simp: entry_def)

definition cache_ok :: "host_cache \<Rightarrow> (usage_key \<times> traffic) list \<Rightarrow> bool" where
  "cache_ok m U \<longleftrightarrow> (\<forall>c uso. map_of (hc_uso m) c = Some uso \<longrightarrow> uso = usage_view c U)"

lemma current_cycle_period: "fst (current_cycle env quotas mac) \<noteq> []"
  by (simp add: current_cycle_def Let_def periodoDe_def HostPeriodMonthly_def)

text \<open>The last cycle a device is known to have been in: from memory, else from the table.\<close>

definition last_known :: "string \<Rightarrow> 's host_state \<Rightarrow> ciclo option" where
  "last_known mac s =
     (case map_of (hs_lastCycle s) mac of
        Some p \<Rightarrow> Some p
      | None \<Rightarrow> map_option snd (latest (filter (\<lambda>(m, _). m = mac) (map fst (hs_usage s)))))"

lemma last_known_same: "same_books s s' \<Longrightarrow> last_known mac s' = last_known mac s"
  by (simp add: last_known_def same_books_def cong: option.case_cong)

text \<open>A run of the second pass without failures.\<close>

definition works :: "'s host_env \<Rightarrow> bool" where
  "works env \<longleftrightarrow> he_fails env = (\<lambda>_. False)"

lemma turn_cycle_alerts:
  assumes "works env"
  shows "hs_alerts (turn_cycle env c mac s) =
    (if last_known mac s = None \<or> last_known mac s = Some c then hs_alerts s else hs_alerts (resolve_both env mac s))"
  using assms
  by (auto simp: turn_cycle_def last_known_def works_def cicloNoDisco_def GetHostUsageHistory1_def host_call_def
      resolve_both_def split: option.splits prod.splits)

lemma read_uso_works:
  assumes "works env" "cache_ok m (hs_usage s)" "fst c \<noteq> []" "read_uso env c s m = (s1, m1, r)"
  shows "r = Some (usage_view c (hs_usage s)) \<and> cache_ok m1 (hs_usage s) \<and> hs_alerts s1 = hs_alerts s"
proof (cases "map_of (hc_uso m) c")
  case None
  have "GetHostUsageAll env (fst c) (snd c) s = (s\<lparr>hs_calls := Suc (hs_calls s)\<rparr>, Some (usage_view c (hs_usage s)))"
    using assms(1,3) by (simp add: GetHostUsageAll_def host_call_def works_def usage_view_def)
  with None assms(2,4) show ?thesis by (auto simp: read_uso_def cache_ok_def split: if_splits)
next
  case (Some uso)
  then have "uso = usage_view c (hs_usage s)" using assms(2) unfolding cache_ok_def by blast
  with Some assms(2,4) show ?thesis by (auto simp: read_uso_def)
qed

lemma read_nomes_alerts:
  "read_nomes env s m = (s1, m1, ns) \<Longrightarrow> hs_alerts s1 = hs_alerts s \<and> (cache_ok m U \<longrightarrow> cache_ok m1 U)"
  by (auto simp: read_nomes_def nomes_def host_call_def cache_ok_def split: option.splits prod.splits if_splits)

text \<open>One device: the turn of the cycle, then the evaluation of what the table says.\<close>

lemma avaliar_um_alerts:
  assumes "works env" "cache_ok m (hs_usage s)" "avaliar_um env quotas mac (s, m) = (s', m')"
  shows "cache_ok m' (hs_usage s)"
    "hs_alerts s' = hs_alerts (turn_cycle env (current_cycle env quotas mac) mac s) \<or>
     (\<exists>q nome s1. map_of quotas mac = Some q \<and>
        hs_alerts s1 = hs_alerts (turn_cycle env (current_cycle env quotas mac) mac s) \<and>
        hs_alerts s' = hs_alerts (host_evaluate env nome mac q
          (used_bytes (entry (mac, current_cycle env quotas mac) (hs_usage s))) s1))"
    "\<lbrakk>map_of quotas mac = Some q; hq_AlertEnabled q; hq_LimitGB q > 0\<rbrakk> \<Longrightarrow>
     \<exists>nome s1. hs_alerts s1 = hs_alerts (turn_cycle env (current_cycle env quotas mac) mac s) \<and>
        hs_alerts s' = hs_alerts (host_evaluate env nome mac q
          (used_bytes (entry (mac, current_cycle env quotas mac) (hs_usage s))) s1)"
proof -
  let ?c = "current_cycle env quotas mac"
  define s1 where "s1 = turn_cycle env ?c mac s"
  have u1: "hs_usage s1 = hs_usage s" using same_books_turn [of s env ?c mac] by (simp add: s1_def same_books_def)
  obtain s2 m2 r where r: "read_uso env ?c s1 m = (s2, m2, r)" by (cases "read_uso env ?c s1 m") auto
  obtain s3 m3 ns where ns: "read_nomes env s2 m2 = (s3, m3, ns)" by (cases "read_nomes env s2 m2") auto
  note r' = read_uso_works [OF assms(1) _ current_cycle_period r, unfolded u1, OF assms(2)]
  note ns' = read_nomes_alerts [OF ns, of "hs_usage s"]
  define nome where "nome = (let n = (case map_of ns mac of None \<Rightarrow> [] | Some n \<Rightarrow> n) in if n = [] then mac else n)"
  have shape: "(s', m') = (case map_of quotas mac of None \<Rightarrow> (s1, m) | Some q \<Rightarrow>
      if \<not> hq_AlertEnabled q \<or> hq_LimitGB q \<le> 0 then (s1, m)
      else (host_evaluate env nome mac q (used_bytes (entry (mac, ?c) (hs_usage s))) s3, m3))"
  proof -
    have r2: "read_uso env ?c s1 m = (s2, m2, Some (usage_view ?c (hs_usage s)))" using r r' by simp
    show ?thesis
      unfolding assms(3) [symmetric] avaliar_um_def prod.case Let_def s1_def [symmetric] r2 option.case ns
        nome_def entry_usage_view
      by (rule refl)
  qed
  have al: "hs_alerts s3 = hs_alerts s1" using r' ns' by simp
  show "cache_ok m' (hs_usage s)"
    using shape r' ns' assms(2) by (auto split: option.splits if_splits)
  show "hs_alerts s' = hs_alerts (turn_cycle env ?c mac s) \<or>
     (\<exists>q nome s1. map_of quotas mac = Some q \<and> hs_alerts s1 = hs_alerts (turn_cycle env ?c mac s) \<and>
        hs_alerts s' = hs_alerts (host_evaluate env nome mac q (used_bytes (entry (mac, ?c) (hs_usage s))) s1))"
    using shape al by (auto simp: s1_def split: option.splits if_splits)
  show "\<exists>nome s1. hs_alerts s1 = hs_alerts (turn_cycle env ?c mac s) \<and>
        hs_alerts s' = hs_alerts (host_evaluate env nome mac q (used_bytes (entry (mac, ?c) (hs_usage s))) s1)"
    if "map_of quotas mac = Some q" "hq_AlertEnabled q" "hq_LimitGB q > 0"
    using shape al that by (auto simp: s1_def)
qed

text \<open>The quota is a client of the alerts.\<close>

definition quota_types :: "string list" where
  "quota_types = [TypeHostQuotaWarning, TypeHostQuotaExceeded]"

context alerter
begin

lemma resolve_both_alerts:
  assumes "he_alerter env = Some A" "valid (hs_alerts s)"
  shows "valid (hs_alerts (resolve_both env mac s))"
    "is_open t k (hs_alerts (resolve_both env mac s)) \<longleftrightarrow>
       is_open t k (hs_alerts s) \<and> \<not> (k = mac \<and> (t = TypeHostQuotaWarning \<or> t = TypeHostQuotaExceeded))"
  using assms by (auto simp: resolve_both_def resolve_valid resolve_closes)

lemma evaluate_alerts:
  assumes "he_alerter env = Some A" "valid (hs_alerts s)"
  shows "valid (hs_alerts (host_evaluate env nome mac q used s))"
    "k \<noteq> mac \<Longrightarrow> is_open t k (hs_alerts (host_evaluate env nome mac q used s)) = is_open t k (hs_alerts s)"
    "hq_LimitGB q > 0 \<Longrightarrow>
     is_open TypeHostQuotaExceeded mac (hs_alerts (host_evaluate env nome mac q used s))
       \<longleftrightarrow> used_pct q used \<ge> 100 \<or> is_open TypeHostQuotaExceeded mac (hs_alerts s)"
    "hq_LimitGB q > 0 \<Longrightarrow>
     is_open TypeHostQuotaWarning mac (hs_alerts (host_evaluate env nome mac q used s))
       \<longleftrightarrow> used_pct q used < 100 \<and> (used_pct q used \<ge> real_of_int (hq_AlertPct q) \<or> is_open TypeHostQuotaWarning mac (hs_alerts s))"
  using assms
  by (auto simp: host_evaluate_def resolve_valid resolve_closes create_valid create_opens bytesPerGB_def
      TypeHostQuotaWarning_def TypeHostQuotaExceeded_def split: prod.splits)

lemma turn_alerts:
  assumes "works env" "he_alerter env = Some A" "valid (hs_alerts s)"
  shows "valid (hs_alerts (turn_cycle env c mac s))"
    "k \<noteq> mac \<Longrightarrow> is_open t k (hs_alerts (turn_cycle env c mac s)) = is_open t k (hs_alerts s)"
    "t \<in> set quota_types \<Longrightarrow> is_open t mac (hs_alerts (turn_cycle env c mac s))
       \<longleftrightarrow> is_open t mac (hs_alerts s) \<and> (last_known mac s = None \<or> last_known mac s = Some c)"
  using resolve_both_alerts [OF assms(2,3), where mac = mac] assms(3)
  by (auto simp: turn_cycle_alerts [OF assms(1)] quota_types_def)

lemma avaliar_other:
  assumes "works env" "he_alerter env = Some A" "valid (hs_alerts s)" "cache_ok m (hs_usage s)"
    and "avaliar_um env quotas mac (s, m) = (s', m')"
  shows "valid (hs_alerts s')" "k \<noteq> mac \<Longrightarrow> is_open t k (hs_alerts s') = is_open t k (hs_alerts s)"
proof -
  note t = turn_alerts [OF assms(1-3)]
  have "valid (hs_alerts s') \<and> (k \<noteq> mac \<longrightarrow> is_open t k (hs_alerts s') = is_open t k (hs_alerts s))"
    using avaliar_um_alerts(2) [OF assms(1,4,5)]
  proof (elim disjE exE conjE)
    assume "hs_alerts s' = hs_alerts (turn_cycle env (current_cycle env quotas mac) mac s)"
    then show ?thesis using t by simp
  next
    fix q nome s1
    assume s1: "hs_alerts s1 = hs_alerts (turn_cycle env (current_cycle env quotas mac) mac s)"
      and s': "hs_alerts s' = hs_alerts (host_evaluate env nome mac q
          (used_bytes (entry (mac, current_cycle env quotas mac) (hs_usage s))) s1)"
    have "valid (hs_alerts s1)" using s1 t(1) by simp
    from evaluate_alerts(1,2) [OF assms(2) this] s1 s' t show ?thesis by simp
  qed
  then show "valid (hs_alerts s')" "k \<noteq> mac \<Longrightarrow> is_open t k (hs_alerts s') = is_open t k (hs_alerts s)" by simp_all
qed

lemma avaliar_others:
  assumes "works env" "he_alerter env = Some A" "valid (hs_alerts s)" "cache_ok m (hs_usage s)"
    and "fold (avaliar_um env quotas) macs (s, m) = (s', m')" "mac \<notin> set macs"
  shows "valid (hs_alerts s') \<and> cache_ok m' (hs_usage s') \<and> is_open t mac (hs_alerts s') = is_open t mac (hs_alerts s)"
  using assms(3-6)
proof (induction macs arbitrary: s m)
  case (Cons x xs)
  obtain s1 m1 where a: "avaliar_um env quotas x (s, m) = (s1, m1)" by fastforce
  have "hs_usage s1 = hs_usage s" using same_books_avaliar [OF a] by (simp add: same_books_def)
  with avaliar_other(1) [OF assms(1,2) Cons.prems(1,2) a] avaliar_other(2) [OF assms(1,2) Cons.prems(1,2) a, where k = mac and t = t] avaliar_um_alerts(1) [OF assms(1) Cons.prems(2) a]
    Cons.IH [of s1 m1] Cons.prems(3,4) a
  show ?case by simp
qed simp

text \<open>What the second pass leaves open for a device whose quota is on.\<close>

lemma avaliar_all:
  assumes "works env" "he_alerter env = Some A" "valid (hs_alerts s)"
    and "fold (avaliar_um env quotas) macs (s, \<lparr>hc_uso = [], hc_nomes = ns\<rparr>) = (s', m')"
    and "distinct macs" "mac \<in> set macs" "map_of quotas mac = Some q" "hq_AlertEnabled q" "hq_LimitGB q > 0"
    and c: "c = current_cycle env quotas mac" and pct: "pct = used_pct q (used_bytes (entry (mac, c) (hs_usage s)))"
    and kept: "kept = (last_known mac s = None \<or> last_known mac s = Some c)"
  shows "is_open TypeHostQuotaExceeded mac (hs_alerts s')
      \<longleftrightarrow> pct \<ge> 100 \<or> kept \<and> is_open TypeHostQuotaExceeded mac (hs_alerts s)"
    "is_open TypeHostQuotaWarning mac (hs_alerts s')
      \<longleftrightarrow> pct < 100 \<and> (pct \<ge> real_of_int (hq_AlertPct q) \<or> kept \<and> is_open TypeHostQuotaWarning mac (hs_alerts s))"
proof -
  obtain xs ys where macs: "macs = xs @ mac # ys" using assms(6) by (auto simp: in_set_conv_decomp)
  then have notin: "mac \<notin> set xs" "mac \<notin> set ys" using assms(5) by auto
  obtain s1 m1 where x: "fold (avaliar_um env quotas) xs (s, \<lparr>hc_uso = [], hc_nomes = ns\<rparr>) = (s1, m1)" by fastforce
  obtain s2 m2 where a: "avaliar_um env quotas mac (s1, m1) = (s2, m2)" by fastforce
  have y: "fold (avaliar_um env quotas) ys (s2, m2) = (s', m')" using assms(4) by (simp add: macs x a)
  have c0: "cache_ok \<lparr>hc_uso = [], hc_nomes = ns\<rparr> (hs_usage s)" by (simp add: cache_ok_def)
  note b1 = same_books_avaliar_all [OF x] and b2 = same_books_avaliar [OF a]
  note o1 = avaliar_others [OF assms(1-3) c0 x notin(1)]
  have v1: "valid (hs_alerts s1)" "cache_ok m1 (hs_usage s1)" using o1 by simp_all
  have u: "hs_usage s1 = hs_usage s" "hs_usage s2 = hs_usage s1" using b1 b2 by (simp_all add: same_books_def)
  note o2 = avaliar_other [OF assms(1,2) v1 a]
  have v2: "cache_ok m2 (hs_usage s2)" using avaliar_um_alerts(1) [OF assms(1) v1(2) a] u by simp
  note o3 = avaliar_others [OF assms(1,2) o2(1) v2 y notin(2)]
  obtain nome s0 where s0: "hs_alerts s0 = hs_alerts (turn_cycle env c mac s1)"
    "hs_alerts s2 = hs_alerts (host_evaluate env nome mac q (used_bytes (entry (mac, c) (hs_usage s))) s0)"
    using avaliar_um_alerts(3) [OF assms(1) v1(2) a assms(7-9)] u c by auto
  note t = turn_alerts [OF assms(1,2) v1(1), where c = c and mac = mac]
  have v0: "valid (hs_alerts s0)" using s0(1) t(1) by simp
  note e = evaluate_alerts(3,4) [OF assms(2) v0 assms(9)]
  have k: "last_known mac s1 = last_known mac s" by (rule last_known_same [OF b1])
  show "is_open TypeHostQuotaExceeded mac (hs_alerts s')
      \<longleftrightarrow> pct \<ge> 100 \<or> kept \<and> is_open TypeHostQuotaExceeded mac (hs_alerts s)"
    "is_open TypeHostQuotaWarning mac (hs_alerts s')
      \<longleftrightarrow> pct < 100 \<and> (pct \<ge> real_of_int (hq_AlertPct q) \<or> kept \<and> is_open TypeHostQuotaWarning mac (hs_alerts s))"
    using o3 o1 e t(3) s0 k by (auto simp: quota_types_def pct kept)
qed

end

subsection \<open>A flush in which the database works\<close>

lemma gravar_works:
  assumes "works env"
  shows "gravar env quotas ((mac, ts), d) (s, nao) =
    (s\<lparr>hs_calls := Suc (hs_calls s), hs_usage := book (mac, periodoDe (quota_of quotas mac),
        host_CycleStart (he_zone env) ts (periodoDe (quota_of quotas mac)) (diaDe (quota_of quotas mac))) d (hs_usage s)\<rparr>, nao)"
  using assms by (simp add: gravar_def works_def AddHostUsage_def host_call_def Let_def periodoDe_def HostPeriodMonthly_def)

lemma gravar_nao: "works env \<Longrightarrow> snd (gravar env quotas b r) = snd r"
  by (cases b; cases r) (auto simp: gravar_works split: prod.splits)

lemma gravar_todos_nao:
  assumes "works env" "gravar_todos env quotas macs pendente s = (s', nao)"
  shows "nao = []"
proof -
  have inner: "snd (fold (gravar env quotas) bs r) = snd r" for bs and r :: "'a host_state \<times> (sample_key \<times> traffic) list"
    by (rule fold_invariant [where Q = "\<lambda>_. True" and P = "\<lambda>x. snd x = snd r"]) (simp_all add: gravar_nao [OF assms(1)])
  have "snd (gravar_todos env quotas macs pendente s) = []"
    unfolding gravar_todos_def
    by (rule fold_invariant [where Q = "\<lambda>_. True" and P = "\<lambda>x. snd x = []"]) (simp_all add: inner)
  with assms(2) show ?thesis by simp
qed

text \<open>The cycle a measurement belongs to.\<close>

definition cycle_of_sample :: "int \<Rightarrow> (string \<times> host_quota) list \<Rightarrow> sample_key \<Rightarrow> usage_key" where
  "cycle_of_sample off quotas k =
     (case k of (mac, ts) \<Rightarrow> let q = quota_of quotas mac in
        (mac, periodoDe q, host_CycleStart off ts (periodoDe q) (diaDe q)))"

lemma keys_gravar_fold:
  assumes "works env"
  shows "fst ` set (hs_usage (fst (fold (gravar env quotas) bs (s, nao))))
    = cycle_of_sample (he_zone env) quotas ` fst ` set bs \<union> fst ` set (hs_usage s)"
proof (induction bs arbitrary: s)
  case (Cons b bs)
  obtain mac ts d where b: "b = ((mac, ts), d)" by (cases b) auto
  show ?case by (simp add: b gravar_works [OF assms] Cons.IH keys_book cycle_of_sample_def Let_def)
qed simp

lemma gravar_todos_alt:
  "gravar_todos env quotas macs pendente s =
     fold (\<lambda>mac. fold (gravar env quotas) (filter (\<lambda>b. fst (fst b) = mac) pendente)) macs (s, [])"
  by (simp add: gravar_todos_def case_prod_unfold)

lemma keys_gravar_todos:
  assumes "works env" "gravar_todos env quotas macs pendente s = (s', nao)" "fst ` fst ` set pendente \<subseteq> set macs"
  shows "fst ` set (hs_usage s') = cycle_of_sample (he_zone env) quotas ` fst ` set pendente \<union> fst ` set (hs_usage s)"
proof -
  let ?step = "\<lambda>mac. fold (gravar env quotas) (filter (\<lambda>b. fst (fst b) = mac) pendente)"
  have "fst ` set (hs_usage (fst (fold ?step macs (s, nao)))) = fst ` set (hs_usage s) \<union>
      cycle_of_sample (he_zone env) quotas ` fst ` {b \<in> set pendente. fst (fst b) \<in> set macs}" for nao
  proof (induction macs arbitrary: s nao)
    case (Cons m ms)
    obtain s1 n1 where f: "?step m (s, nao) = (s1, n1)" by fastforce
    have "fst ` set (hs_usage s1) = cycle_of_sample (he_zone env) quotas ` fst ` {b \<in> set pendente. fst (fst b) = m} \<union> fst ` set (hs_usage s)"
      using keys_gravar_fold [OF assms(1), of quotas "filter (\<lambda>b. fst (fst b) = m) pendente" s nao]
      by (simp add: f)
    then show ?case by (simp add: f Cons.IH) blast
  qed simp
  from this [of "[]"] have "fst ` set (hs_usage s') = fst ` set (hs_usage s) \<union>
      cycle_of_sample (he_zone env) quotas ` fst ` {b \<in> set pendente. fst (fst b) \<in> set macs}"
    using assms(2) by (simp add: gravar_todos_alt)
  moreover have "{b \<in> set pendente. fst (fst b) \<in> set macs} = set pendente" using assms(3) by auto
  ultimately show ?thesis by (simp add: Un_commute)
qed

context counter
begin

lemma amount_gravar_fold:
  assumes "works env"
  shows "amount f P (hs_usage (fst (fold (gravar env quotas) bs (s, nao))))
    = amount f P (hs_usage s) + amount f (\<lambda>k. P (cycle_of_sample (he_zone env) quotas k)) bs"
proof (induction bs arbitrary: s)
  case (Cons b bs)
  obtain mac ts d where b: "b = ((mac, ts), d)" by (cases b) auto
  show ?case
    by (simp add: b gravar_works [OF assms] Cons.IH amount_book cycle_of_sample_def Let_def algebra_simps)
qed simp

lemma amount_gravar_todos:
  assumes "works env" "gravar_todos env quotas macs pendente s = (s', nao)" "distinct macs"
    "\<And>k. P k \<Longrightarrow> fst k = mac" "mac \<in> set macs"
  shows "amount f P (hs_usage s') = amount f P (hs_usage s) + amount f (\<lambda>k. P (cycle_of_sample (he_zone env) quotas k)) pendente"
proof -
  let ?step = "\<lambda>mac. fold (gravar env quotas) (filter (\<lambda>b. fst (fst b) = mac) pendente)"
  let ?P = "\<lambda>k. P (cycle_of_sample (he_zone env) quotas k)"
  have P: "fst k = mac" if "?P k" for k
    using assms(4) [OF that] by (cases k) (simp add: cycle_of_sample_def Let_def)
  have part: "amount f ?P (filter (\<lambda>b. fst (fst b) = m) pendente) = (if m = mac then amount f ?P pendente else 0)" for m
    using P by (induction pendente) fastforce+
  have "amount f P (hs_usage (fst (fold ?step macs (s, nao))))
      = amount f P (hs_usage s) + (if mac \<in> set macs then amount f ?P pendente else 0)" for nao
    using assms(3)
  proof (induction macs arbitrary: s nao)
    case (Cons m ms)
    obtain s1 n1 where f: "?step m (s, nao) = (s1, n1)" by fastforce
    have "amount f P (hs_usage s1) = amount f P (hs_usage s) + (if m = mac then amount f ?P pendente else 0)"
      using amount_gravar_fold [OF assms(1), of P quotas "filter (\<lambda>b. fst (fst b) = m) pendente" s nao] part [of m]
      by (simp add: f)
    with Cons.IH [of s1 n1] Cons.prems show ?case by (auto simp: f)
  qed simp
  from this [of "[]"] assms(2,5) show ?thesis by (simp add: gravar_todos_alt)
qed

end


lemma flush_macs_set: "set (flush_macs pendente quotas) = fst ` fst ` set pendente \<union> fst ` set quotas"
  by (auto simp: flush_macs_def Let_def image_image)

lemma flush_macs_distinct: "distinct (flush_macs pendente quotas)"
  by (auto simp: flush_macs_def Let_def)

lemma declared_row: "declared quotas mac \<Longrightarrow> mac \<in> fst ` set quotas"
  by (auto simp: declared_def quota_of_def no_quota_def split: option.splits dest!: map_of_SomeD intro: rev_image_eqI)

lemma podar_row:
  assumes "podar env s = (s', purged)" "declared (hs_quotas s) mac"
  shows "entry (mac, c) (hs_usage s') = entry (mac, c) (hs_usage s)"
proof -
  have "entry (mac, c) (filter (\<lambda>r. \<not> purgeable (hs_quotas s) t r) L) = entry (mac, c) L" for t L
    using assms(2) by (induction L) (auto simp: entry_Cons purgeable_def entry_def split: option.splits)
  with assms(1) show ?thesis
    by (auto simp: podar_def PurgeHostUsage_def host_call_def Let_def split: if_splits)
qed

lemma flush_works:
  assumes "works env" "host_Flush env chegadas s = (s', purged)"
  obtains s1 s2 s4 m where
    "hs_usage s1 = hs_usage s" "hs_quotas s1 = hs_quotas s" "hs_lastCycle s1 = hs_lastCycle s" "hs_alerts s1 = hs_alerts s"
    "gravar_todos env (hs_quotas s) (flush_macs (hs_pending s) (hs_quotas s)) (hs_pending s) s1 = (s2, [])"
    "fold (avaliar_um env (hs_quotas s)) (flush_macs (hs_pending s) (hs_quotas s)) (devolver [] s2, \<lparr>hc_uso = [], hc_nomes = None\<rparr>) = (s4, m)"
    "hs_alerts s' = hs_alerts s4" "hs_usage s4 = hs_usage s2" "only_booked s1 s2"
    "declared (hs_quotas s) mac \<Longrightarrow> entry (mac, c) (hs_usage s') = entry (mac, c) (hs_usage s2)"
  using assms(2)
proof (cases rule: host_Flush_cases)
  case unread
  then show ?thesis using assms(1) by (simp add: works_def)
next
  case (read s1 s2 nao s4 m)
  have nao: "nao = []" by (rule gravar_todos_nao [OF assms(1) read(3)])
  note b = only_booked_todos [OF read(3)]
  note e = same_books_avaliar_all [OF read(4)]
  have q4: "hs_quotas s4 = hs_quotas s" "hs_usage s4 = hs_usage s2"
    using only_booked_fields [OF b] e by (simp_all add: read(2) same_books_def)
  have p: "podar env (s4\<lparr>hs_lastCycle := l\<rparr>) = (s', purged) \<Longrightarrow> declared (hs_quotas s) mac \<Longrightarrow>
      entry (mac, c) (hs_usage s') = entry (mac, c) (hs_usage s2)" for l
    using podar_row [of env "s4\<lparr>hs_lastCycle := l\<rparr>" s' purged mac c] q4 by simp
  show ?thesis
    by (rule that [of s1 s2 s4 m]) (use read nao b q4 p podar_tables(2) [OF read(5)] in simp_all)
qed

text \<open>A byte counts in the cycle in which it was measured, not in the one in which it is written: after a flush
  with a working database, the row of every cycle of a device with a declared quota holds what it held plus
  exactly the bytes that were waiting with an instant of that cycle, received and sent.
\<close>
theorem bytes_count_when_they_were_measured:
  assumes "works env" "host_Flush env chegadas s = (s', purged)" "table_ok s" "declared (hs_quotas s) mac"
  shows "entry (mac, c) (hs_usage s') =
    (fst (entry (mac, c) (hs_usage s)) + amount fst (\<lambda>k. cycle_of_sample (he_zone env) (hs_quotas s) k = (mac, c)) (hs_pending s),
     snd (entry (mac, c) (hs_usage s)) + amount snd (\<lambda>k. cycle_of_sample (he_zone env) (hs_quotas s) k = (mac, c)) (hs_pending s))"
proof -
  obtain s1 s2 s4 m where f: "hs_usage s1 = hs_usage s" "only_booked s1 s2"
    "gravar_todos env (hs_quotas s) (flush_macs (hs_pending s) (hs_quotas s)) (hs_pending s) s1 = (s2, [])"
    "entry (mac, c) (hs_usage s') = entry (mac, c) (hs_usage s2)"
    using flush_works [OF assms(1,2), of mac c] assms(4) by metis
  have mac: "mac \<in> set (flush_macs (hs_pending s) (hs_quotas s))"
    using declared_row [OF assms(4)] by (simp add: flush_macs_set)
  have d: "distinct (map fst (hs_usage s))" "distinct (map fst (hs_usage s2))"
    using assms(3) f(1,2) by (simp_all add: table_ok_def only_booked_def)
  have "fst (entry (mac, c) (hs_usage s2)) = fst (entry (mac, c) (hs_usage s))
      + amount fst (\<lambda>k. cycle_of_sample (he_zone env) (hs_quotas s) k = (mac, c)) (hs_pending s)"
    using received.amount_gravar_todos [OF assms(1) f(3) flush_macs_distinct _ mac, where P = "\<lambda>k. k = (mac, c)"]
    by (simp add: received.amount_key d f(1))
  moreover have "snd (entry (mac, c) (hs_usage s2)) = snd (entry (mac, c) (hs_usage s))
      + amount snd (\<lambda>k. cycle_of_sample (he_zone env) (hs_quotas s) k = (mac, c)) (hs_pending s)"
    using sent.amount_gravar_todos [OF assms(1) f(3) flush_macs_distinct _ mac, where P = "\<lambda>k. k = (mac, c)"]
    by (simp add: sent.amount_key d f(1))
  ultimately show ?thesis unfolding f(4) by (metis prod.collapse)
qed

context alerter
begin

text \<open>The warnings after a flush, by the last cycle the device was known in once its bytes were written.\<close>

lemma flush_warnings:
  assumes "works env" "he_alerter env = Some A" "valid (hs_alerts s)" "host_Flush env chegadas s = (s', purged)"
    and q: "map_of (hs_quotas s) mac = Some q" "hq_AlertEnabled q" "hq_LimitGB q > 0"
    and c: "c = current_cycle env (hs_quotas s) mac" and pct: "pct = used_pct q (used_bytes (entry (mac, c) (hs_usage s')))"
  obtains U where
    "fst ` set U = cycle_of_sample (he_zone env) (hs_quotas s) ` fst ` set (hs_pending s) \<union> fst ` set (hs_usage s)"
    "\<And>kept. kept = (last_known mac (s\<lparr>hs_usage := U\<rparr>) = None \<or> last_known mac (s\<lparr>hs_usage := U\<rparr>) = Some c) \<Longrightarrow>
      (is_open TypeHostQuotaExceeded mac (hs_alerts s')
        \<longleftrightarrow> pct \<ge> 100 \<or> kept \<and> is_open TypeHostQuotaExceeded mac (hs_alerts s)) \<and>
      (is_open TypeHostQuotaWarning mac (hs_alerts s')
        \<longleftrightarrow> pct < 100 \<and> (pct \<ge> real_of_int (hq_AlertPct q) \<or> kept \<and> is_open TypeHostQuotaWarning mac (hs_alerts s)))"
proof -
  have decl: "declared (hs_quotas s) mac" using q by (simp add: declared_def quota_of_def)
  obtain s1 s2 s4 m where f: "hs_usage s1 = hs_usage s" "hs_lastCycle s1 = hs_lastCycle s" "hs_alerts s1 = hs_alerts s"
    "gravar_todos env (hs_quotas s) (flush_macs (hs_pending s) (hs_quotas s)) (hs_pending s) s1 = (s2, [])"
    "fold (avaliar_um env (hs_quotas s)) (flush_macs (hs_pending s) (hs_quotas s)) (devolver [] s2, \<lparr>hc_uso = [], hc_nomes = None\<rparr>) = (s4, m)"
    "hs_alerts s' = hs_alerts s4" "only_booked s1 s2" "entry (mac, c) (hs_usage s') = entry (mac, c) (hs_usage s2)"
    using flush_works [OF assms(1,4), of mac c] decl by metis
  have mac: "mac \<in> set (flush_macs (hs_pending s) (hs_quotas s))"
    using declared_row [OF decl] by (simp add: flush_macs_set)
  have s2: "hs_alerts s2 = hs_alerts s" "hs_lastCycle s2 = hs_lastCycle s"
    using only_booked_fields [OF f(7)] f(2,3) by simp_all
  have v: "valid (hs_alerts (devolver [] s2))" using assms(3) s2 by simp
  have lk: "last_known mac (devolver [] s2) = last_known mac (s\<lparr>hs_usage := hs_usage s2\<rparr>)"
    by (simp add: last_known_def s2 cong: option.case_cong)
  have keys: "fst ` set (hs_usage s2) = cycle_of_sample (he_zone env) (hs_quotas s) ` fst ` set (hs_pending s) \<union> fst ` set (hs_usage s)"
    using keys_gravar_todos [OF assms(1) f(4)] f(1) by (auto simp: flush_macs_set)
  note all = avaliar_all [OF assms(1,2) v f(5) flush_macs_distinct mac q c, where
      pct = pct and kept = "last_known mac (s\<lparr>hs_usage := hs_usage s2\<rparr>) = None \<or> last_known mac (s\<lparr>hs_usage := hs_usage s2\<rparr>) = Some c"]
  show ?thesis
    by (rule that [OF keys]) (use all pct f(6,8) s2 lk in simp)
qed

end

text \<open>The warnings say what the table says: for a device whose warning is on, after a flush with a working
  database, the critical alert is open when the usage of the current cycle has reached the limit and the early one
  when it has reached the percentage and not the limit; what was open before survives only inside the same cycle,
  so a new cycle starts clean and can warn again.
\<close>
theorem warnings_follow_the_cycle:
  assumes "works env" "he_alerter env = Some (alerts_service (healthy ae))" "alerts_ok (hs_alerts s)"
    and "host_Flush env chegadas s = (s', purged)"
    and "map_of (hs_quotas s) mac = Some q" "hq_AlertEnabled q" "hq_LimitGB q > 0"
    and "c = current_cycle env (hs_quotas s) mac" "pct = used_pct q (used_bytes (entry (mac, c) (hs_usage s')))"
    and known: "map_of (hs_lastCycle s) mac = Some prev"
  shows "(alert_open TypeHostQuotaExceeded mac (hs_alerts s')
        \<longleftrightarrow> pct \<ge> 100 \<or> prev = c \<and> alert_open TypeHostQuotaExceeded mac (hs_alerts s)) \<and>
      (alert_open TypeHostQuotaWarning mac (hs_alerts s')
        \<longleftrightarrow> pct < 100 \<and> (pct \<ge> real_of_int (hq_AlertPct q) \<or> prev = c \<and> alert_open TypeHostQuotaWarning mac (hs_alerts s)))"
proof -
  obtain U where U: "\<And>kept. kept = (last_known mac (s\<lparr>hs_usage := U\<rparr>) = None \<or> last_known mac (s\<lparr>hs_usage := U\<rparr>) = Some c) \<Longrightarrow>
      (alert_open TypeHostQuotaExceeded mac (hs_alerts s')
        \<longleftrightarrow> pct \<ge> 100 \<or> kept \<and> alert_open TypeHostQuotaExceeded mac (hs_alerts s)) \<and>
      (alert_open TypeHostQuotaWarning mac (hs_alerts s')
        \<longleftrightarrow> pct < 100 \<and> (pct \<ge> real_of_int (hq_AlertPct q) \<or> kept \<and> alert_open TypeHostQuotaWarning mac (hs_alerts s)))"
    by (rule panel.flush_warnings [OF assms(1-9)]) blast
  have "last_known mac (s\<lparr>hs_usage := U\<rparr>) = Some prev" using known by (simp add: last_known_def)
  with U show ?thesis by simp
qed

lemma latest_max: "latest ks = Some k \<Longrightarrow> k \<in> set ks \<and> (\<forall>k' \<in> set ks. snd (snd k') \<le> snd (snd k))"
proof (induction ks arbitrary: k)
  case (Cons x ks)
  show ?case
  proof (cases "latest ks")
    case None
    then have "ks = []" by (cases ks) (auto split: option.splits)
    with Cons.prems show ?thesis by simp
  next
    case (Some k0)
    with Cons show ?thesis by (fastforce split: if_splits)
  qed
qed simp

lemma latest_some: "ks \<noteq> [] \<Longrightarrow> latest ks \<noteq> None"
  by (cases ks) (auto split: option.splits)

text \<open>After a restart the turn of a cycle is noticed only for a device that is silent.  The service has just
  started and the table knows the device in an earlier cycle only: if no byte of it waits, its old alerts are
  closed; if any byte measured in the new cycle waits, the first pass writes it before the second asks the table
  for the last cycle, the answer is the new one, and the alert of the cycle that ended stays open - and hides
  every later one - although the usage of the new cycle is far below the limit.
\<close>
theorem restart_hides_the_turn:
  assumes "works env" "he_alerter env = Some (alerts_service (healthy ae))" "alerts_ok (hs_alerts s)"
    and "host_Flush env chegadas s = (s', purged)"
    and "map_of (hs_quotas s) mac = Some q" "hq_AlertEnabled q" "hq_LimitGB q > 0"
    and "c = current_cycle env (hs_quotas s) mac" "pct = used_pct q (used_bytes (entry (mac, c) (hs_usage s')))"
    and restarted: "map_of (hs_lastCycle s) mac = None"
    and old: "mac \<in> fst ` fst ` set (hs_usage s)" "list_all (\<lambda>((m, p, st), _). m = mac \<longrightarrow> st < snd c) (hs_usage s)"
    and now: "list_all (\<lambda>(k, _). fst k = mac \<longrightarrow> cycle_of_sample (he_zone env) (hs_quotas s) k = (mac, c)) (hs_pending s)"
  shows "alert_open TypeHostQuotaExceeded mac (hs_alerts s') \<longleftrightarrow>
    pct \<ge> 100 \<or> mac \<in> fst ` fst ` set (hs_pending s) \<and> alert_open TypeHostQuotaExceeded mac (hs_alerts s)"
proof -
  obtain U where keys: "fst ` set U = cycle_of_sample (he_zone env) (hs_quotas s) ` fst ` set (hs_pending s) \<union> fst ` set (hs_usage s)"
    and U: "\<And>kept. kept = (last_known mac (s\<lparr>hs_usage := U\<rparr>) = None \<or> last_known mac (s\<lparr>hs_usage := U\<rparr>) = Some c) \<Longrightarrow>
      alert_open TypeHostQuotaExceeded mac (hs_alerts s')
        \<longleftrightarrow> pct \<ge> 100 \<or> kept \<and> alert_open TypeHostQuotaExceeded mac (hs_alerts s)"
    by (rule panel.flush_warnings [OF assms(1-9)]) blast
  define ks where "ks = filter (\<lambda>(m, _). m = mac) (map fst U)"
  have of_sample: "fst (cycle_of_sample off qs k) = fst k" for off qs k
    by (simp add: cycle_of_sample_def Let_def split: prod.split)
  have ks: "set ks = {k \<in> fst ` set U. fst k = mac}" by (auto simp: ks_def image_iff)
  obtain k0 where "k0 \<in> fst ` set (hs_usage s)" "fst k0 = mac" using old(1) by auto
  then have "ks \<noteq> []" using ks keys by (metis (mono_tags, lifting) Un_iff empty_iff list.set(1) mem_Collect_eq)
  then obtain k where k: "latest ks = Some k" using latest_some by blast
  note kmax = latest_max [OF k]
  have known: "last_known mac (s\<lparr>hs_usage := U\<rparr>) = Some (snd k)"
    using restarted k by (simp add: last_known_def ks_def)
  have kmac: "k \<in> fst ` set U" "fst k = mac" using kmax ks by simp_all
  have row: "snd (snd k') < snd c" if "k' \<in> fst ` set (hs_usage s)" "fst k' = mac" for k'
    using old(2) that by (fastforce simp: list_all_iff)
  have sample: "k' = (mac, c)" if "k' \<in> cycle_of_sample (he_zone env) (hs_quotas s) ` fst ` set (hs_pending s)" "fst k' = mac" for k'
    using now that of_sample by (fastforce simp: list_all_iff)
  have "snd k = c \<longleftrightarrow> mac \<in> fst ` fst ` set (hs_pending s)"
  proof
    assume "snd k = c"
    then have "k \<notin> fst ` set (hs_usage s)" using row [of k] kmac(2) by auto
    then obtain x where "x \<in> fst ` set (hs_pending s)" "k = cycle_of_sample (he_zone env) (hs_quotas s) x"
      using kmac(1) keys by auto
    with kmac(2) of_sample show "mac \<in> fst ` fst ` set (hs_pending s)" by (metis imageI)
  next
    assume "mac \<in> fst ` fst ` set (hs_pending s)"
    then obtain x where x: "x \<in> fst ` set (hs_pending s)" "fst x = mac" by auto
    then have img: "cycle_of_sample (he_zone env) (hs_quotas s) x \<in> cycle_of_sample (he_zone env) (hs_quotas s) ` fst ` set (hs_pending s)"
      by blast
    then have "cycle_of_sample (he_zone env) (hs_quotas s) x = (mac, c)" by (rule sample) (simp add: of_sample x)
    with img have "(mac, c) \<in> set ks" unfolding ks keys by simp
    then have "snd c \<le> snd (snd k)" using kmax by fastforce
    then have "k \<notin> fst ` set (hs_usage s)" using row [of k] kmac(2) by auto
    then have "k = (mac, c)" using sample [of k] kmac keys by blast
    then show "snd k = c" by simp
  qed
  with U [OF refl] known show ?thesis by simp
qed

subsection \<open>Witnesses\<close>

lemma bytes_count_when_they_were_measured_witness:
  "entry (demo_mac, HostPeriodDaily, 1784862000) (hs_usage (fst (host_Flush (demo_host_env False) [] (demo_host [])))) = (1000000000, 0)"
proof -
  have "declared (hs_quotas (demo_host [])) demo_mac"
    by (simp add: demo_host_def declared_def quota_of_def demo_quota_def)
  moreover have "works (demo_host_env False)" by (simp add: works_def demo_host_env_def)
  moreover have "amount f (\<lambda>k. cycle_of_sample (he_zone (demo_host_env False)) (hs_quotas (demo_host [])) k
      = (demo_mac, HostPeriodDaily, 1784862000)) (hs_pending (demo_host [])) = 0" for f
  proof -
    have "cycle_of_sample (he_zone (demo_host_env False)) (hs_quotas (demo_host [])) (demo_mac, 1784999990)
      = (demo_mac, HostPeriodDaily, 1784948400)" by (simp add: demo_host_def) code_simp
    then show ?thesis by (simp add: demo_host_def)
  qed
  ultimately show ?thesis
    using bytes_count_when_they_were_measured [OF _ surjective_pairing demo_ok(2) [where l = "[]"], where env = "demo_host_env False" and mac = demo_mac and chegadas = "[]" and
        c = "(HostPeriodDaily, 1784862000)"]
    by (simp add: demo_host_def entry_def)
qed

lemma warnings_follow_the_cycle_witness:
  "\<not> alert_open TypeHostQuotaExceeded demo_mac
      (hs_alerts (fst (host_Flush (demo_host_env False) [] (demo_host [(demo_mac, (HostPeriodDaily, 1784862000))]))))"
proof -
  let ?s = "demo_host [(demo_mac, (HostPeriodDaily, 1784862000))]"
  let ?s' = "fst (host_Flush (demo_host_env False) [] ?s)"
  have e: "entry (demo_mac, HostPeriodDaily, 1784948400) (hs_usage ?s') = (1, 1)" by code_simp
  have q: "map_of (hs_quotas ?s) demo_mac = Some demo_quota" "map_of (hs_lastCycle ?s) demo_mac = Some (HostPeriodDaily, 1784862000)"
    by (simp_all add: demo_host_def)
  have w: "works (demo_host_env False)" "he_alerter (demo_host_env False) = Some (alerts_service (healthy (demo_alert_env Unset)))"
    by (simp_all add: works_def demo_host_env_def)
  from warnings_follow_the_cycle [OF w demo_ok(1) surjective_pairing q(1) _ _ demo_cycle [symmetric] refl q(2)] e
  show ?thesis by (simp add: demo_quota_def used_pct_def used_bytes_def bytesPerGB_def)
qed

lemma restart_hides_the_turn_witness:
  "alert_open TypeHostQuotaExceeded demo_mac (hs_alerts (fst (host_Flush (demo_host_env False) [] (demo_host []))))"
proof -
  let ?s = "demo_host []"
  have q: "map_of (hs_quotas ?s) demo_mac = Some demo_quota" "map_of (hs_lastCycle ?s) demo_mac = None"
    by (simp_all add: demo_host_def)
  have w: "works (demo_host_env False)" "he_alerter (demo_host_env False) = Some (alerts_service (healthy (demo_alert_env Unset)))"
    by (simp_all add: works_def demo_host_env_def)
  have "cycle_of_sample (he_zone (demo_host_env False)) (hs_quotas ?s) (demo_mac, 1784999990)
      = (demo_mac, HostPeriodDaily, 1784948400)" by (simp add: demo_host_def) code_simp
  then have "list_all (\<lambda>(k, _). fst k = demo_mac \<longrightarrow> cycle_of_sample (he_zone (demo_host_env False)) (hs_quotas ?s) k
      = (demo_mac, HostPeriodDaily, 1784948400)) (hs_pending ?s)" by (simp add: demo_host_def)
  moreover have "demo_mac \<in> fst ` fst ` set (hs_usage ?s)" "demo_mac \<in> fst ` fst ` set (hs_pending ?s)"
    "list_all (\<lambda>((m, p, st), _). m = demo_mac \<longrightarrow> st < snd (HostPeriodDaily, 1784948400 :: int)) (hs_usage ?s)"
    by (simp_all add: demo_host_def)
  ultimately show ?thesis
    using restart_hides_the_turn [OF w demo_ok(1) surjective_pairing q(1) _ _ demo_cycle [symmetric] refl q(2)] demo_open
    by (simp add: demo_quota_def)
qed

end
