(* ===== verification/Netip.thy ===== *)
theory Netip
  imports Prelude
begin

text \<open>
  The part of Go's package net/netip that the domain targets use: addresses without a zone,
  their order and prefixes.
\<close>

unbundle bit_operations_syntax

datatype ip = NoAddr | V4 "32 word" | V6 "128 word"

fun Is4 :: "ip \<Rightarrow> bool" where
  "Is4 (V4 _) = True"
| "Is4 _ = False"

fun Is4In6 :: "ip \<Rightarrow> bool" where
  "Is4In6 (V6 w) \<longleftrightarrow> drop_bit 32 w = 0xffff"
| "Is4In6 _ \<longleftrightarrow> False"

text \<open>\<open>Addr.Compare\<close>: no address first, then by family, then by value.\<close>

fun ip_key :: "ip \<Rightarrow> nat \<times> int" where
  "ip_key NoAddr = (0, 0)"
| "ip_key (V4 w) = (32, uint w)"
| "ip_key (V6 w) = (128, uint w)"

lemma ip_key_inj: "ip_key a = ip_key b \<longleftrightarrow> a = b"
  by (cases a; cases b) (auto simp: word_uint_eq_iff)

instantiation ip :: linorder
begin

definition less_eq_ip :: "ip \<Rightarrow> ip \<Rightarrow> bool" where
  "a \<le> b \<longleftrightarrow> fst (ip_key a) < fst (ip_key b) \<or> fst (ip_key a) = fst (ip_key b) \<and> snd (ip_key a) \<le> snd (ip_key b)"

definition less_ip :: "ip \<Rightarrow> ip \<Rightarrow> bool" where
  "a < b \<longleftrightarrow> fst (ip_key a) < fst (ip_key b) \<or> fst (ip_key a) = fst (ip_key b) \<and> snd (ip_key a) < snd (ip_key b)"

instance
proof
  fix a b c :: ip
  show "a < b \<longleftrightarrow> a \<le> b \<and> \<not> b \<le> a" by (auto simp: less_ip_def less_eq_ip_def)
  show "a \<le> a" by (simp add: less_eq_ip_def)
  show "a \<le> b \<Longrightarrow> b \<le> c \<Longrightarrow> a \<le> c" by (auto simp: less_eq_ip_def)
  show "a \<le> b \<Longrightarrow> b \<le> a \<Longrightarrow> a = b" by (auto simp: less_eq_ip_def ip_key_inj [symmetric] prod_eq_iff)
  show "a \<le> b \<or> b \<le> a" by (auto simp: less_eq_ip_def)
qed

end

record ip_prefix =
  px_addr :: ip
  px_bits :: nat

text \<open>\<open>Prefix.Contains\<close>: an address matches only a prefix of its own family.\<close>

fun same_prefix :: "nat \<Rightarrow> ip \<Rightarrow> ip \<Rightarrow> bool" where
  "same_prefix n (V4 p) (V4 a) \<longleftrightarrow> n \<le> 32 \<and> drop_bit (32 - n) p = drop_bit (32 - n) a"
| "same_prefix n (V6 p) (V6 a) \<longleftrightarrow> n \<le> 128 \<and> drop_bit (128 - n) p = drop_bit (128 - n) a"
| "same_prefix n _ _ \<longleftrightarrow> False"

definition prefix_contains :: "ip_prefix \<Rightarrow> ip \<Rightarrow> bool" where
  "prefix_contains p a \<longleftrightarrow> same_prefix (px_bits p) (px_addr p) a"

definition quad :: "8 word \<Rightarrow> 8 word \<Rightarrow> 8 word \<Rightarrow> 8 word \<Rightarrow> ip" where
  "quad a b c d = V4 (push_bit 24 (ucast a) OR push_bit 16 (ucast b) OR push_bit 8 (ucast c) OR ucast d)"

definition in_net4 :: "8 word \<Rightarrow> 8 word \<Rightarrow> 8 word \<Rightarrow> 8 word \<Rightarrow> nat \<Rightarrow> ip \<Rightarrow> bool" where
  "in_net4 a b c d n = prefix_contains \<lparr>px_addr = quad a b c d, px_bits = n\<rparr>"

text \<open>A prefix of IPv6 given by its first 32 bits.\<close>

definition in_net6 :: "32 word \<Rightarrow> nat \<Rightarrow> ip \<Rightarrow> bool" where
  "in_net6 hi n = prefix_contains \<lparr>px_addr = V6 (push_bit 96 (ucast hi)), px_bits = n\<rparr>"

definition IsMulticast :: "ip \<Rightarrow> bool" where
  "IsMulticast a \<longleftrightarrow> in_net4 224 0 0 0 4 a \<or> in_net6 0xff000000 8 a"

definition IsLoopback :: "ip \<Rightarrow> bool" where
  "IsLoopback a \<longleftrightarrow> in_net4 127 0 0 0 8 a \<or> a = V6 1"

definition IsLinkLocalUnicast :: "ip \<Rightarrow> bool" where
  "IsLinkLocalUnicast a \<longleftrightarrow> in_net4 169 254 0 0 16 a \<or> in_net6 0xfe800000 10 a"

definition IsPrivateAddr :: "ip \<Rightarrow> bool" where
  "IsPrivateAddr a \<longleftrightarrow> in_net4 10 0 0 0 8 a \<or> in_net4 172 16 0 0 12 a \<or> in_net4 192 168 0 0 16 a \<or> in_net6 0xfc000000 7 a"

definition IsUnspecified :: "ip \<Rightarrow> bool" where
  "IsUnspecified a \<longleftrightarrow> a = V4 0 \<or> a = V6 0"

end
