(* ===== verification/DomainIndex.thy ===== *)
theory DomainIndex
  imports Netip Validate "HOL-Library.AList" "HOL-Library.Char_ord" "HOL-Library.List_Lexorder"
begin

text \<open>
  The index of the domain targets (\<open>internal/domtargets/indice.go\<close>): which domains are listed, which
  addresses the answers of the resolver gave for them, what of that the kernel has received, and what it
  must be sent.  A map of Go is the list of its entries in the order in which a \<open>range\<close> visits them; times
  and durations count nanoseconds.  The counters of the index are kept per name; the statistics per domain
  and the time of the last answer, which are only displayed, are left out.
\<close>

subsection \<open>Data\<close>

text \<open>Any other text of a capacity or a stage is one value: the code only compares.\<close>

datatype capacidade = NoCap | Barrar | Direcionar
datatype estagio = Ensaio | Ativo | OutroEstagio

record alvo =
  av_Dominio :: string
  av_Capacidade :: capacidade
  av_Estagio :: estagio
  av_Marca :: "32 word"

record registro =
  rg_dominios :: "string list"
  rg_expira :: int
  rg_concedido :: int
  rg_escritoCap :: capacidade
  rg_escritoMarca :: "32 word"
  rg_escrito :: bool
  rg_duvidoso :: bool
  rg_pendente :: bool
  rg_pendPrazo :: int
  rg_pendCap :: capacidade
  rg_pendMarca :: "32 word"

record escrita =
  es_Addr :: ip
  es_Prazo :: int
  es_Capacidade :: capacidade
  es_Marca :: "32 word"
  es_Substituir :: bool

record remocao =
  rm_Addr :: ip
  rm_Capacidade :: capacidade

record ajuste =
  aj_Escritas :: "escrita list"
  aj_Remocoes :: "remocao list"

datatype contador =
    Recusados | Recusados4 | RecusadosProprios | EstouroPorDominio | EstouroGlobal | SemVagaNoRefcount
  | DirecionadoV6Descartado | Novos | Renovacoes | SemComando | NaoCasados | EmEnsaio | Trocas
  | NaoConfirmados | Confirmados | PromovidosDoEnsaio | PodadosTotal

record indice =
  ix_alvos :: "(string \<times> alvo) list"
  ix_ends :: "(ip \<times> registro) list"
  ix_porDominio :: "string \<Rightarrow> nat"
  ix_vistos :: "(string \<times> (ip list \<times> bool)) list"
  ix_ensaiados :: "(string \<times> (ip \<times> int) list) list"
  ix_protegidos :: "ip_prefix list"
  ix_cont :: "contador \<Rightarrow> nat"

definition NovoIndice :: indice where
  "NovoIndice = \<lparr>ix_alvos = [], ix_ends = [], ix_porDominio = (\<lambda>_. 0), ix_vistos = [], ix_ensaiados = [],
     ix_protegidos = [], ix_cont = (\<lambda>_. 0)\<rparr>"

definition MaxPorDominio :: nat where "MaxPorDominio = 64"
definition MaxEnderecos :: nat where "MaxEnderecos = 4096"
definition FracaoDeRenovacao :: int where "FracaoDeRenovacao = 3"
definition MaxRotatividadeLembrada :: nat where "MaxRotatividadeLembrada = 512"
definition FolgaDePoda :: int where "FolgaDePoda = 30 * 10 ^ 9"
definition DomTTLPiso :: int where "DomTTLPiso = 10 * 60 * 10 ^ 9"
definition DomTTLTeto :: int where "DomTTLTeto = 60 * 60 * 10 ^ 9"

definition conta :: "contador \<Rightarrow> nat \<Rightarrow> indice \<Rightarrow> indice" where
  "conta c n i = i\<lparr>ix_cont := (ix_cont i)(c := ix_cont i c + n)\<rparr>"

definition grampear :: "int \<Rightarrow> int" where
  "grampear d = (if d < DomTTLPiso then DomTTLPiso else if d > DomTTLTeto then DomTTLTeto else d)"

subsection \<open>Which addresses may become a rule\<close>

definition IsPrivate :: "ip \<Rightarrow> bool" where
  "IsPrivate a \<longleftrightarrow> a = NoAddr \<or> IsLoopback a \<or> IsLinkLocalUnicast a \<or> IsPrivateAddr a \<or> IsUnspecified a
     \<or> in_net4 100 64 0 0 10 a"

definition prefixosProibidos4 :: "(ip \<Rightarrow> bool) list" where
  "prefixosProibidos4 =
     [in_net4 0 0 0 0 8, in_net4 192 0 0 0 24, in_net4 192 0 2 0 24, in_net4 192 31 196 0 24, in_net4 192 88 99 0 24,
      in_net4 192 175 48 0 24, in_net4 198 18 0 0 15, in_net4 198 51 100 0 24, in_net4 203 0 113 0 24, in_net4 240 0 0 0 4]"

definition prefixoGUA :: "ip \<Rightarrow> bool" where
  "prefixoGUA = in_net6 0x20000000 3"

definition prefixosProibidos6 :: "(ip \<Rightarrow> bool) list" where
  "prefixosProibidos6 =
     [in_net6 0x20010000 23, in_net6 0x20010db8 32, in_net6 0x20020000 16, in_net6 0x3ffe0000 16, in_net6 0x3fff0000 20]"

definition Utilizavel :: "ip \<Rightarrow> bool" where
  "Utilizavel a =
     (if a = NoAddr \<or> Is4In6 a then False
      else if IsMulticast a then False
      else if IsPrivate a then False
      else if Is4 a then \<not> list_ex (\<lambda>p. p a) prefixosProibidos4
      else prefixoGUA a \<and> \<not> list_ex (\<lambda>p. p a) prefixosProibidos6)"

definition masked :: "ip_prefix \<Rightarrow> ip_prefix" where
  "masked p = p\<lparr>px_addr := (case px_addr p of
     NoAddr \<Rightarrow> NoAddr
   | V4 w \<Rightarrow> V4 (push_bit (32 - px_bits p) (drop_bit (32 - px_bits p) w))
   | V6 w \<Rightarrow> V6 (push_bit (128 - px_bits p) (drop_bit (128 - px_bits p) w)))\<rparr>"

definition valid_prefix :: "ip_prefix \<Rightarrow> bool" where
  "valid_prefix p \<longleftrightarrow> (case px_addr p of NoAddr \<Rightarrow> False | V4 _ \<Rightarrow> px_bits p \<le> 32 | V6 _ \<Rightarrow> px_bits p \<le> 128)"

definition DefinirProtegidos :: "ip_prefix list \<Rightarrow> indice \<Rightarrow> indice" where
  "DefinirProtegidos ps i = i\<lparr>ix_protegidos := map masked (filter valid_prefix ps)\<rparr>"

definition protegido :: "indice \<Rightarrow> ip \<Rightarrow> bool" where
  "protegido i a \<longleftrightarrow> list_ex (\<lambda>p. prefix_contains p a) (ix_protegidos i)"

definition podeEntrar :: "ip \<Rightarrow> capacidade \<Rightarrow> bool" where
  "podeEntrar a c \<longleftrightarrow> c \<noteq> Direcionar \<or> Is4 a"

text \<open>The index with the counters of a refusal, and whether the address is acceptable.\<close>

definition aceitavel :: "ip \<Rightarrow> indice \<Rightarrow> indice \<times> bool" where
  "aceitavel a i =
     (if \<not> Utilizavel a then
        (let i1 = conta Recusados 1 i in (if Is4 a then conta Recusados4 1 i1 else i1, False))
      else if protegido i a then (conta RecusadosProprios 1 i, False)
      else (i, True))"

subsection \<open>Matching a name\<close>

definition trim_dots :: "string \<Rightarrow> string" where
  "trim_dots s = rev (dropWhile (\<lambda>c. c = CHR ''.'') (rev (dropWhile (\<lambda>c. c = CHR ''.'') s)))"

definition after_dot :: "string \<Rightarrow> string" where
  "after_dot n = drop 1 (dropWhile (\<lambda>c. c \<noteq> CHR ''.'') n)"

lemma after_dot_shorter: "CHR ''.'' \<in> set n \<Longrightarrow> length (after_dot n) < length n"
  using length_dropWhile_le [of "\<lambda>c. c \<noteq> CHR ''.''" n]
  by (cases n) (auto simp: after_dot_def less_Suc_eq_le dest: in_set_dropD)

function casar_em :: "(string \<times> alvo) list \<Rightarrow> string \<Rightarrow> alvo option" where
  "casar_em alvos n =
     (if n = [] then None
      else case map_of alvos n of
        Some a \<Rightarrow> Some a
      | None \<Rightarrow> if CHR ''.'' \<notin> set n then None else casar_em alvos (after_dot n))"
  by auto
termination
  by (relation "measure (\<lambda>(_, n). length n)") (auto intro: after_dot_shorter)

declare casar_em.simps [simp del]

definition CasarEm :: "(string \<times> alvo) list \<Rightarrow> string \<Rightarrow> alvo option" where
  "CasarEm alvos nome = casar_em alvos (go_lower (trim_dots (trim_space nome)))"


subsection \<open>What a trial taught\<close>

definition limparEnsaioVencido :: "int \<Rightarrow> (ip \<times> int) list \<Rightarrow> (ip \<times> int) list" where
  "limparEnsaioVencido agora poco = filter (\<lambda>(_, vence). vence > agora) poco"

fun guardar_um :: "int \<Rightarrow> int \<Rightarrow> ip \<Rightarrow> (ip \<times> int) list \<Rightarrow> (ip \<times> int) list" where
  "guardar_um vence agora a poco =
     (if \<not> Utilizavel a then poco
      else if map_of poco a \<noteq> None then AList.update a vence poco
      else if length poco \<ge> MaxPorDominio then
        (let limpo = limparEnsaioVencido agora poco in
         if length limpo \<ge> MaxPorDominio then limpo else AList.update a vence limpo)
      else AList.update a vence poco)"

definition poco_of :: "string \<Rightarrow> indice \<Rightarrow> (ip \<times> int) list" where
  "poco_of d i = (case map_of (ix_ensaiados i) d of None \<Rightarrow> [] | Some p \<Rightarrow> p)"

definition set_poco :: "string \<Rightarrow> (ip \<times> int) list \<Rightarrow> indice \<Rightarrow> indice" where
  "set_poco d p i = i\<lparr>ix_ensaiados := AList.update d p (ix_ensaiados i)\<rparr>"

definition guardarEnsaio :: "string \<Rightarrow> ip list \<Rightarrow> int \<Rightarrow> int \<Rightarrow> indice \<Rightarrow> indice" where
  "guardarEnsaio dominio addrs prazo agora i =
     set_poco dominio (fold (guardar_um (agora + prazo) agora) addrs (poco_of dominio i)) i"

definition anotar_um :: "ip \<Rightarrow> ip list \<times> bool \<Rightarrow> ip list \<times> bool" where
  "anotar_um a rt =
     (case rt of (distintos, truncada) \<Rightarrow>
        if \<not> Utilizavel a \<or> a \<in> set distintos then rt
        else if length distintos \<ge> MaxRotatividadeLembrada then (distintos, True)
        else (distintos @ [a], truncada))"

definition anotarRotatividade :: "string \<Rightarrow> ip list \<Rightarrow> indice \<Rightarrow> indice" where
  "anotarRotatividade dominio addrs i =
     (let rt = (case map_of (ix_vistos i) dominio of None \<Rightarrow> ([], False) | Some rt \<Rightarrow> rt) in
      i\<lparr>ix_vistos := AList.update dominio (fold anotar_um addrs rt) (ix_vistos i)\<rparr>)"

subsection \<open>Who owns an address\<close>

definition active :: "(string \<times> alvo) list \<Rightarrow> string \<Rightarrow> bool" where
  "active alvos d \<longleftrightarrow> (case map_of alvos d of None \<Rightarrow> False | Some a \<Rightarrow> av_Estagio a = Ativo)"

fun cap_loop :: "(string \<times> alvo) list \<Rightarrow> (32 word) option \<Rightarrow> string list \<Rightarrow> (capacidade \<times> 32 word) option" where
  "cap_loop alvos achou [] = map_option (\<lambda>m. (Direcionar, m)) achou"
| "cap_loop alvos achou (d # ds) =
     (case map_of alvos d of
        None \<Rightarrow> cap_loop alvos achou ds
      | Some a \<Rightarrow>
          if av_Estagio a \<noteq> Ativo then cap_loop alvos achou ds
          else if av_Capacidade a = Barrar then Some (Barrar, 0)
          else cap_loop alvos (if achou = None then Some (av_Marca a) else achou) ds)"

definition capEfetiva :: "(string \<times> alvo) list \<Rightarrow> string list \<Rightarrow> (capacidade \<times> 32 word) option" where
  "capEfetiva alvos dominios = cap_loop alvos None (sort dominios)"

definition baixarContagem :: "string \<Rightarrow> indice \<Rightarrow> indice" where
  "baixarContagem d i = i\<lparr>ix_porDominio := (ix_porDominio i)(d := ix_porDominio i d - 1)\<rparr>"

definition soltar :: "ip \<Rightarrow> registro \<Rightarrow> indice \<Rightarrow> indice" where
  "soltar addr r i = (fold baixarContagem (rg_dominios r) i)\<lparr>ix_ends := AList.delete addr (ix_ends i)\<rparr>"

definition set_reg :: "ip \<Rightarrow> registro \<Rightarrow> indice \<Rightarrow> indice" where
  "set_reg a r i = i\<lparr>ix_ends := AList.update a r (ix_ends i)\<rparr>"

subsection \<open>Taking in an address\<close>

definition escrever :: "escrita \<Rightarrow> ajuste \<Rightarrow> ajuste" where
  "escrever e aj = aj\<lparr>aj_Escritas := aj_Escritas aj @ [e]\<rparr>"

definition remover :: "bool \<Rightarrow> ip \<Rightarrow> capacidade \<Rightarrow> ajuste \<Rightarrow> ajuste" where
  "remover escrito a c aj =
     (if escrito then aj\<lparr>aj_Remocoes := aj_Remocoes aj @ [\<lparr>rm_Addr = a, rm_Capacidade = c\<rparr>]\<rparr> else aj)"

text \<open>\<open>absorverConhecido\<close>: first the claim of the domain, then what to write.\<close>

definition reivindicar :: "string \<Rightarrow> ip \<Rightarrow> registro \<Rightarrow> indice \<Rightarrow> indice \<times> registro" where
  "reivindicar d a r i =
     (if d \<in> set (rg_dominios r) then (i, r)
      else if ix_porDominio i d \<ge> MaxPorDominio then (conta SemVagaNoRefcount 1 i, r)
      else (let r' = r\<lparr>rg_dominios := rg_dominios r @ [d]\<rparr> in
            (set_reg a r' (i\<lparr>ix_porDominio := (ix_porDominio i)(d := ix_porDominio i d + 1)\<rparr>), r')))"

definition absorverConhecido ::
  "registro \<Rightarrow> alvo \<Rightarrow> ip \<Rightarrow> int \<Rightarrow> int \<Rightarrow> ajuste \<times> indice \<Rightarrow> ajuste \<times> indice" where
  "absorverConhecido r0 alvo a prazo agora st =
     (case st of (aj, i0) \<Rightarrow>
      case reivindicar (av_Dominio alvo) a r0 i0 of (i, r) \<Rightarrow>
        case capEfetiva (ix_alvos i) (rg_dominios r) of
          None \<Rightarrow> (aj, i)
        | Some (capa, marca) \<Rightarrow>
            if \<not> podeEntrar a capa then (aj, i)
            else if rg_pendente r then (aj, conta SemComando 1 i)
            else
              let trocou = (capa \<noteq> rg_escritoCap r \<or> marca \<noteq> rg_escritoMarca r);
                  vencendo = (rg_duvidoso r \<or> rg_expira r - agora < go_div (rg_concedido r) FracaoDeRenovacao) in
              if \<not> trocou \<and> \<not> vencendo then (aj, conta SemComando 1 i)
              else
                let aj1 = (if trocou then remover (rg_escrito r) a (rg_escritoCap r) aj else aj);
                    i1 = conta (if trocou then Trocas else Renovacoes) 1 i;
                    i2 = set_reg a (r\<lparr>rg_pendente := True, rg_pendPrazo := prazo, rg_pendCap := capa, rg_pendMarca := marca\<rparr>) i1 in
                (escrever \<lparr>es_Addr = a, es_Prazo = prazo, es_Capacidade = capa, es_Marca = marca,
                   es_Substituir = (\<not> trocou \<and> rg_escrito r)\<rparr> aj1, i2))"

definition absorverEndereco :: "alvo \<Rightarrow> ip \<Rightarrow> int \<Rightarrow> int \<Rightarrow> ajuste \<times> indice \<Rightarrow> ajuste \<times> indice" where
  "absorverEndereco alvo a prazo agora st =
     (case st of (aj, i) \<Rightarrow>
        case map_of (ix_ends i) a of
          Some r \<Rightarrow> absorverConhecido r alvo a prazo agora (aj, i)
        | None \<Rightarrow>
            if length (ix_ends i) \<ge> MaxEnderecos then (aj, conta EstouroGlobal 1 i)
            else if ix_porDominio i (av_Dominio alvo) \<ge> MaxPorDominio then (aj, conta EstouroPorDominio 1 i)
            else
              let d = av_Dominio alvo;
                  r = \<lparr>rg_dominios = [d], rg_expira = agora + prazo, rg_concedido = prazo, rg_escritoCap = NoCap,
                       rg_escritoMarca = 0, rg_escrito = False, rg_duvidoso = False, rg_pendente = True,
                       rg_pendPrazo = prazo, rg_pendCap = av_Capacidade alvo, rg_pendMarca = av_Marca alvo\<rparr>;
                  i1 = set_reg a r (i\<lparr>ix_porDominio := (ix_porDominio i)(d := ix_porDominio i d + 1)\<rparr>) in
              (escrever \<lparr>es_Addr = a, es_Prazo = prazo, es_Capacidade = av_Capacidade alvo, es_Marca = av_Marca alvo,
                 es_Substituir = False\<rparr> aj, conta Novos 1 i1))"

text \<open>One address of an answer, and \<open>Aprender\<close>.\<close>

definition aprender_addr :: "alvo \<Rightarrow> int \<Rightarrow> int \<Rightarrow> ip \<Rightarrow> ajuste \<times> indice \<Rightarrow> ajuste \<times> indice" where
  "aprender_addr alvo prazo agora a st =
     (case st of (aj, i) \<Rightarrow>
        case aceitavel a i of
          (i1, False) \<Rightarrow> (aj, i1)
        | (i1, True) \<Rightarrow>
            if \<not> podeEntrar a (av_Capacidade alvo) then (aj, conta DirecionadoV6Descartado 1 i1)
            else absorverEndereco alvo a prazo agora (aj, i1))"

definition vazio :: ajuste where
  "vazio = \<lparr>aj_Escritas = [], aj_Remocoes = []\<rparr>"

definition Aprender :: "int \<Rightarrow> string \<Rightarrow> ip list \<Rightarrow> int \<Rightarrow> indice \<Rightarrow> ajuste \<times> indice" where
  "Aprender agora nome addrs ttl i =
     (case CasarEm (ix_alvos i) nome of
        None \<Rightarrow> (vazio, conta NaoCasados 1 i)
      | Some alvo \<Rightarrow>
          let i1 = anotarRotatividade (av_Dominio alvo) addrs i in
          if av_Estagio alvo \<noteq> Ativo then
            (vazio, guardarEnsaio (av_Dominio alvo) addrs (grampear ttl) agora (conta EmEnsaio 1 i1))
          else fold (aprender_addr alvo (grampear ttl) agora) addrs (vazio, i1))"

subsection \<open>Changing the list\<close>

definition replay_addr :: "alvo \<Rightarrow> int \<Rightarrow> ip \<Rightarrow> ajuste \<times> indice \<Rightarrow> ajuste \<times> indice" where
  "replay_addr alvo agora a st =
     (case st of (aj, i) \<Rightarrow>
        case aceitavel a i of
          (i1, False) \<Rightarrow> (aj, set_poco (av_Dominio alvo) (AList.delete a (poco_of (av_Dominio alvo) i1)) i1)
        | (i1, True) \<Rightarrow>
            if \<not> podeEntrar a (av_Capacidade alvo) then (aj, conta DirecionadoV6Descartado 1 i1)
            else
              let vence = (case map_of (poco_of (av_Dominio alvo) i1) a of None \<Rightarrow> 0 | Some v \<Rightarrow> v) in
              absorverEndereco alvo a (grampear (vence - agora)) agora (aj, i1))"

definition replayEnsaio :: "int \<Rightarrow> alvo \<Rightarrow> ajuste \<times> indice \<Rightarrow> ajuste \<times> indice" where
  "replayEnsaio agora alvo st =
     (case st of (aj, i) \<Rightarrow>
        if poco_of (av_Dominio alvo) i = [] then (aj, i)
        else
          let i1 = set_poco (av_Dominio alvo) (limparEnsaioVencido agora (poco_of (av_Dominio alvo) i)) i;
              restantes = sort (map fst (poco_of (av_Dominio alvo) i1)) in
          case fold (replay_addr alvo agora) restantes (aj, i1) of
            (aj2, i2) \<Rightarrow> (aj2, conta PromovidosDoEnsaio (length (aj_Escritas aj2) - length (aj_Escritas aj)) i2))"

text \<open>A domain that no longer acts gives up its claim; when it is still listed, what it taught is kept.\<close>

definition desistir :: "int \<Rightarrow> ip \<Rightarrow> int \<Rightarrow> string \<Rightarrow> indice \<Rightarrow> indice" where
  "desistir agora addr expira d i =
     baixarContagem d (if map_of (ix_alvos i) d \<noteq> None then guardarEnsaio d [addr] (expira - agora) agora i else i)"

definition reconciliar_um :: "int \<Rightarrow> ip \<Rightarrow> ajuste \<times> indice \<Rightarrow> ajuste \<times> indice" where
  "reconciliar_um agora addr st =
     (case st of (aj, i0) \<Rightarrow>
        case map_of (ix_ends i0) addr of
          None \<Rightarrow> (aj, i0)
        | Some r0 \<Rightarrow>
            let r = r0\<lparr>rg_dominios := filter (active (ix_alvos i0)) (rg_dominios r0)\<rparr>;
                i = set_reg addr r (fold (desistir agora addr (rg_expira r0))
                      (filter (\<lambda>d. \<not> active (ix_alvos i0) d) (rg_dominios r0)) i0) in
            case capEfetiva (ix_alvos i) (rg_dominios r) of
              None \<Rightarrow> (remover (rg_escrito r) addr (rg_escritoCap r) aj, soltar addr r i)
            | Some (capa, marca) \<Rightarrow>
                if \<not> podeEntrar addr capa then
                  (remover (rg_escrito r) addr (rg_escritoCap r) aj, soltar addr r (conta DirecionadoV6Descartado 1 i))
                else if capa = rg_escritoCap r \<and> marca = rg_escritoMarca r then (aj, i)
                else
                  (escrever \<lparr>es_Addr = addr, es_Prazo = rg_concedido r, es_Capacidade = capa, es_Marca = marca,
                     es_Substituir = False\<rparr> (remover (rg_escrito r) addr (rg_escritoCap r) aj),
                   set_reg addr (r\<lparr>rg_pendente := True, rg_pendPrazo := rg_concedido r, rg_pendCap := capa,
                     rg_pendMarca := marca\<rparr>) i))"

definition reconciliar :: "int \<Rightarrow> alvo list \<Rightarrow> indice \<Rightarrow> ajuste \<times> indice" where
  "reconciliar agora promovidos i =
     fold (replayEnsaio agora) promovidos (fold (reconciliar_um agora) (map fst (ix_ends i)) (vazio, i))"

definition normal_alvo :: "alvo \<Rightarrow> alvo option" where
  "normal_alvo a =
     (case NormalizeDomainTarget (av_Dominio a) of
        None \<Rightarrow> None
      | Some d \<Rightarrow> Some (a\<lparr>av_Dominio := d,
          av_Estagio := (if av_Estagio a \<noteq> Ativo then Ensaio else Ativo),
          av_Capacidade := (if av_Capacidade a \<noteq> Direcionar then Barrar else Direcionar)\<rparr>))"

definition novos_alvos :: "alvo list \<Rightarrow> (string \<times> alvo) list" where
  "novos_alvos alvos =
     fold (\<lambda>a m. case normal_alvo a of None \<Rightarrow> m | Some a' \<Rightarrow> AList.update (av_Dominio a') a' m) alvos []"

definition promovidos_de :: "(string \<times> alvo) list \<Rightarrow> (string \<times> alvo) list \<Rightarrow> alvo list" where
  "promovidos_de antigos novos =
     sort_key av_Dominio (filter (\<lambda>a. av_Estagio a = Ativo \<and> \<not> active antigos (av_Dominio a)) (map snd novos))"

definition esquecerNaoListados :: "indice \<Rightarrow> indice" where
  "esquecerNaoListados i =
     i\<lparr>ix_vistos := filter (\<lambda>(d, _). map_of (ix_alvos i) d \<noteq> None) (ix_vistos i),
       ix_ensaiados := filter (\<lambda>(d, _). map_of (ix_alvos i) d \<noteq> None) (ix_ensaiados i)\<rparr>"

definition DefinirAlvos :: "int \<Rightarrow> alvo list \<Rightarrow> indice \<Rightarrow> ajuste \<times> indice" where
  "DefinirAlvos agora alvos i =
     (let novos = novos_alvos alvos in
      reconciliar agora (promovidos_de (ix_alvos i) novos) (esquecerNaoListados (i\<lparr>ix_alvos := novos\<rparr>)))"

subsection \<open>What the kernel answered\<close>

definition confirmar_um :: "int \<Rightarrow> ip \<Rightarrow> indice \<Rightarrow> indice" where
  "confirmar_um agora a i =
     (case map_of (ix_ends i) a of
        None \<Rightarrow> i
      | Some r \<Rightarrow>
          if \<not> rg_pendente r then i
          else conta Confirmados 1 (set_reg a (r\<lparr>rg_expira := agora + rg_pendPrazo r, rg_concedido := rg_pendPrazo r,
                 rg_escritoCap := rg_pendCap r, rg_escritoMarca := rg_pendMarca r, rg_escrito := True,
                 rg_pendente := False, rg_duvidoso := False\<rparr>) i))"

definition Confirmar :: "int \<Rightarrow> ip list \<Rightarrow> indice \<Rightarrow> indice" where
  "Confirmar agora addrs i = fold (confirmar_um agora) addrs i"

definition nao_confirmado_um :: "ip \<Rightarrow> indice \<times> nat \<Rightarrow> indice \<times> nat" where
  "nao_confirmado_um a st =
     (case st of (i, n) \<Rightarrow>
        case map_of (ix_ends i) a of
          None \<Rightarrow> (i, n)
        | Some r \<Rightarrow>
            if \<not> rg_pendente r then (i, n)
            else if \<not> rg_escrito r then (soltar a (r\<lparr>rg_pendente := False\<rparr>) (conta NaoConfirmados 1 i), n + 1)
            else (set_reg a (r\<lparr>rg_pendente := False, rg_duvidoso := True\<rparr>) (conta NaoConfirmados 1 i), n + 1))"

definition NaoConfirmado :: "ip list \<Rightarrow> indice \<Rightarrow> indice \<times> nat" where
  "NaoConfirmado addrs i = fold nao_confirmado_um addrs (i, 0)"

definition podar_um :: "int \<Rightarrow> ip \<Rightarrow> indice \<times> nat \<Rightarrow> indice \<times> nat" where
  "podar_um corte a st =
     (case st of (i, n) \<Rightarrow>
        case map_of (ix_ends i) a of
          None \<Rightarrow> (i, n)
        | Some r \<Rightarrow> if rg_pendente r \<or> rg_expira r > corte then (i, n) else (soltar a r i, n + 1))"

definition Podar :: "int \<Rightarrow> indice \<Rightarrow> indice \<times> nat" where
  "Podar agora i =
     (let corte = agora - FolgaDePoda in
      case fold (podar_um corte) (map fst (ix_ends i)) (i, 0) of
        (i1, n) \<Rightarrow>
          ((conta PodadosTotal n i1)\<lparr>ix_ensaiados :=
              filter (\<lambda>(_, p). p \<noteq> []) (map (\<lambda>(d, p). (d, limparEnsaioVencido corte p)) (ix_ensaiados i1))\<rparr>, n))"

end
