(* ===== verification/DomainInvariant.thy ===== *)
theory DomainInvariant
  imports DomainIndex
begin

text \<open>
  The invariant of the index of the domain targets: the reference counts count, the ceilings hold, every
  address may become a rule and has a domain that acts, and what is granted lies between the bounds.
\<close>

lemmas ix_defs = conta_def set_poco_def guardarEnsaio_def anotarRotatividade_def esquecerNaoListados_def
  baixarContagem_def set_reg_def Let_def

lemma conta_frame [simp]:
  "ix_ends (conta c n i) = ix_ends i" "ix_porDominio (conta c n i) = ix_porDominio i" "ix_alvos (conta c n i) = ix_alvos i"
  "ix_protegidos (conta c n i) = ix_protegidos i" "ix_ensaiados (conta c n i) = ix_ensaiados i" "ix_vistos (conta c n i) = ix_vistos i"
  by (simp_all add: conta_def)

lemma poco_frame [simp]:
  "ix_ends (set_poco d p i) = ix_ends i" "ix_porDominio (set_poco d p i) = ix_porDominio i"
  "ix_alvos (set_poco d p i) = ix_alvos i" "ix_protegidos (set_poco d p i) = ix_protegidos i"
  by (simp_all add: set_poco_def)

lemma guardar_frame [simp]:
  "ix_ends (guardarEnsaio d as p t i) = ix_ends i" "ix_porDominio (guardarEnsaio d as p t i) = ix_porDominio i"
  "ix_alvos (guardarEnsaio d as p t i) = ix_alvos i" "ix_protegidos (guardarEnsaio d as p t i) = ix_protegidos i"
  by (simp_all add: guardarEnsaio_def)

lemma anotar_frame [simp]:
  "ix_ends (anotarRotatividade d as i) = ix_ends i" "ix_porDominio (anotarRotatividade d as i) = ix_porDominio i"
  "ix_alvos (anotarRotatividade d as i) = ix_alvos i" "ix_protegidos (anotarRotatividade d as i) = ix_protegidos i"
  by (simp_all add: anotarRotatividade_def Let_def)

lemma esquecer_frame [simp]:
  "ix_ends (esquecerNaoListados i) = ix_ends i" "ix_porDominio (esquecerNaoListados i) = ix_porDominio i"
  "ix_alvos (esquecerNaoListados i) = ix_alvos i" "ix_protegidos (esquecerNaoListados i) = ix_protegidos i"
  by (simp_all add: esquecerNaoListados_def)

lemma set_reg_frame [simp]:
  "ix_ends (set_reg a r i) = AList.update a r (ix_ends i)" "ix_porDominio (set_reg a r i) = ix_porDominio i"
  "ix_alvos (set_reg a r i) = ix_alvos i" "ix_protegidos (set_reg a r i) = ix_protegidos i"
  by (simp_all add: set_reg_def)

lemma baixar_frame [simp]:
  "ix_ends (baixarContagem d i) = ix_ends i" "ix_alvos (baixarContagem d i) = ix_alvos i"
  "ix_protegidos (baixarContagem d i) = ix_protegidos i"
  "ix_porDominio (baixarContagem d i) = (ix_porDominio i)(d := ix_porDominio i d - 1)"
  by (simp_all add: baixarContagem_def)

lemma baixar_all_frame [simp]:
  "ix_ends (fold baixarContagem ds i) = ix_ends i" "ix_alvos (fold baixarContagem ds i) = ix_alvos i"
  "ix_protegidos (fold baixarContagem ds i) = ix_protegidos i"
  by (induction ds arbitrary: i) simp_all

lemma baixar_all: "distinct ds \<Longrightarrow> ix_porDominio (fold baixarContagem ds i) d = ix_porDominio i d - of_bool (d \<in> set ds)"
  by (induction ds arbitrary: i) auto

lemma soltar_frame [simp]:
  "ix_ends (soltar a r i) = AList.delete a (ix_ends i)" "ix_alvos (soltar a r i) = ix_alvos i"
  "ix_protegidos (soltar a r i) = ix_protegidos i"
  "distinct (rg_dominios r) \<Longrightarrow> ix_porDominio (soltar a r i) d = ix_porDominio i d - of_bool (d \<in> set (rg_dominios r))"
  by (simp_all add: soltar_def baixar_all)

subsection \<open>Counting claims\<close>

definition claims :: "(ip \<times> registro) list \<Rightarrow> string \<Rightarrow> nat" where
  "claims ends d = length (filter (\<lambda>(_, r). d \<in> set (rg_dominios r)) ends)"

lemma claims_simps [simp]: "claims [] d = 0" "claims ((a, r) # es) d = of_bool (d \<in> set (rg_dominios r)) + claims es d"
  by (simp_all add: claims_def)

lemma claims_new: "map_of es a = None \<Longrightarrow> claims (AList.update a r es) d = claims es d + of_bool (d \<in> set (rg_dominios r))"
  by (induction es) auto

lemma claims_known:
  "map_of es a = Some r0 \<Longrightarrow> distinct (map fst es) \<Longrightarrow>
   claims (AList.update a r es) d + of_bool (d \<in> set (rg_dominios r0)) = claims es d + of_bool (d \<in> set (rg_dominios r))"
  by (induction es) (auto split: if_splits)

lemma delete_absent: "a \<notin> fst ` set es \<Longrightarrow> AList.delete a es = es"
  by (induction es) (auto simp: AList.delete_eq)

lemma claims_delete:
  "map_of es a = Some r \<Longrightarrow> distinct (map fst es) \<Longrightarrow>
   claims (AList.delete a es) d + of_bool (d \<in> set (rg_dominios r)) = claims es d"
  by (induction es) (auto simp: delete_absent split: if_splits)

lemma length_update: "length (AList.update a r es) = length es + of_bool (map_of es a = None)"
  by (induction es) auto

lemma length_delete: "length (AList.delete a es) \<le> length es"
  by (simp add: AList.delete_eq)

subsection \<open>The invariant\<close>

definition prazo_ok :: "int \<Rightarrow> bool" where
  "prazo_ok p \<longleftrightarrow> DomTTLPiso \<le> p \<and> p \<le> DomTTLTeto"

lemma grampear_ok [simp]: "prazo_ok (grampear d)"
  by (simp add: prazo_ok_def grampear_def DomTTLPiso_def DomTTLTeto_def)

definition reg_ok :: "ip \<Rightarrow> registro \<Rightarrow> bool" where
  "reg_ok a r \<longleftrightarrow> Utilizavel a \<and> distinct (rg_dominios r) \<and> (rg_pendente r \<or> rg_escrito r)
     \<and> prazo_ok (rg_concedido r) \<and> (rg_pendente r \<longrightarrow> prazo_ok (rg_pendPrazo r))"

definition owned :: "(string \<times> alvo) list \<Rightarrow> registro \<Rightarrow> bool" where
  "owned alvos r \<longleftrightarrow> rg_dominios r \<noteq> [] \<and> list_all (active alvos) (rg_dominios r)"

definition alvos_ok :: "(string \<times> alvo) list \<Rightarrow> bool" where
  "alvos_ok alvos \<longleftrightarrow> distinct (map fst alvos)
     \<and> list_all (\<lambda>(d, a). av_Dominio a = d \<and> av_Capacidade a \<noteq> NoCap \<and> av_Estagio a \<noteq> OutroEstagio) alvos"

definition core_ok :: "indice \<Rightarrow> bool" where
  "core_ok i \<longleftrightarrow> alvos_ok (ix_alvos i) \<and> distinct (map fst (ix_ends i))
     \<and> (\<forall>a r. map_of (ix_ends i) a = Some r \<longrightarrow> reg_ok a r)
     \<and> (\<forall>d. ix_porDominio i d = claims (ix_ends i) d) \<and> (\<forall>d. ix_porDominio i d \<le> MaxPorDominio)
     \<and> length (ix_ends i) \<le> MaxEnderecos"

definition index_ok :: "indice \<Rightarrow> bool" where
  "index_ok i \<longleftrightarrow> core_ok i \<and> (\<forall>a r. map_of (ix_ends i) a = Some r \<longrightarrow> owned (ix_alvos i) r)"

text \<open>Only what the invariant reads matters.\<close>

lemma core_ok_cong:
  "ix_ends i' = ix_ends i \<Longrightarrow> ix_porDominio i' = ix_porDominio i \<Longrightarrow> ix_alvos i' = ix_alvos i \<Longrightarrow> core_ok i' = core_ok i"
  by (simp add: core_ok_def)

lemma index_ok_cong:
  "ix_ends i' = ix_ends i \<Longrightarrow> ix_porDominio i' = ix_porDominio i \<Longrightarrow> ix_alvos i' = ix_alvos i \<Longrightarrow> index_ok i' = index_ok i"
  by (simp add: index_ok_def core_ok_def)

lemma core_ok_same [simp]:
  "core_ok (conta c n i) = core_ok i" "core_ok (set_poco d p i) = core_ok i"
  "core_ok (guardarEnsaio d as q t i) = core_ok i" "core_ok (anotarRotatividade d as i) = core_ok i"
  "core_ok (esquecerNaoListados i) = core_ok i"
  by (intro core_ok_cong; simp)+

lemma index_ok_same [simp]:
  "index_ok (conta c n i) = index_ok i" "index_ok (set_poco d p i) = index_ok i"
  "index_ok (guardarEnsaio d as q t i) = index_ok i" "index_ok (anotarRotatividade d as i) = index_ok i"
  by (intro index_ok_cong; simp)+

lemma core_regs: "core_ok i \<Longrightarrow> map_of (ix_ends i) a = Some r \<Longrightarrow> reg_ok a r"
  by (simp add: core_ok_def)

text \<open>Replacing, adding and dropping a record.\<close>

lemma core_ok_replace:
  assumes "core_ok i" "map_of (ix_ends i) a = Some r0" "reg_ok a r" "rg_dominios r = rg_dominios r0"
  shows "core_ok (set_reg a r i)"
  using assms claims_known [OF assms(2), of r]
  by (auto simp: core_ok_def distinct_update length_update update_conv')

lemma core_ok_claim:
  assumes "core_ok i" "map_of (ix_ends i) a = Some r0" "reg_ok a r" "rg_dominios r = rg_dominios r0 @ [d]" "d \<notin> set (rg_dominios r0)"
    "ix_porDominio i d < MaxPorDominio"
  shows "core_ok (set_reg a r (i\<lparr>ix_porDominio := (ix_porDominio i)(d := ix_porDominio i d + 1)\<rparr>))"
proof -
  have "claims (AList.update a r (ix_ends i)) e = claims (ix_ends i) e + of_bool (e = d)" for e
    using claims_known [OF assms(2), of r e] assms(1,4,5) by (auto simp: core_ok_def split: if_splits)
  with assms show ?thesis
    by (auto simp: core_ok_def distinct_update length_update update_conv')
qed

lemma core_ok_new:
  assumes "core_ok i" "map_of (ix_ends i) a = None" "reg_ok a r" "rg_dominios r = [d]"
    "ix_porDominio i d < MaxPorDominio" "length (ix_ends i) < MaxEnderecos"
  shows "core_ok (set_reg a r (i\<lparr>ix_porDominio := (ix_porDominio i)(d := ix_porDominio i d + 1)\<rparr>))"
  using assms by (auto simp: core_ok_def distinct_update length_update update_conv' claims_new)

lemma core_ok_drop:
  assumes "core_ok i" "map_of (ix_ends i) a = Some r0" "rg_dominios r = rg_dominios r0"
  shows "core_ok (soltar a r i)"
proof -
  have d: "distinct (rg_dominios r)" using core_regs [OF assms(1,2)] assms(3) by (simp add: reg_ok_def)
  have c: "claims (AList.delete a (ix_ends i)) e = claims (ix_ends i) e - of_bool (e \<in> set (rg_dominios r))" for e
    using claims_delete [OF assms(2), of e] assms(1,3) by (auto simp: core_ok_def)
  show ?thesis
    using assms(1) d c le_trans [OF length_delete]
    by (auto simp: core_ok_def delete_conv' distinct_delete diff_le_self intro: le_trans [OF diff_le_self] split: if_splits)
qed


subsection \<open>Learning\<close>

text \<open>What is asked of the kernel: addresses with the property \<open>Q\<close>, within the bounds, in a structure they have.\<close>

lemma cap_loop_cap: "cap_loop alvos achou ds = Some (c, m) \<Longrightarrow> c \<noteq> NoCap"
  by (induction ds arbitrary: achou) (auto split: option.splits if_splits)

lemma capEfetiva_cap: "capEfetiva alvos ds = Some (c, m) \<Longrightarrow> c \<noteq> NoCap"
  unfolding capEfetiva_def by (rule cap_loop_cap)

definition writes_ok :: "(ip \<Rightarrow> bool) \<Rightarrow> ajuste \<Rightarrow> bool" where
  "writes_ok Q aj \<longleftrightarrow>
     list_all (\<lambda>e. Q (es_Addr e) \<and> prazo_ok (es_Prazo e) \<and> podeEntrar (es_Addr e) (es_Capacidade e)
       \<and> es_Capacidade e \<noteq> NoCap) (aj_Escritas aj)
     \<and> list_all (\<lambda>r. Utilizavel (rm_Addr r)) (aj_Remocoes aj)"

lemma writes_ok_simps [simp]:
  "writes_ok Q vazio" "writes_ok Q (remover b a c aj) \<longleftrightarrow> writes_ok Q aj \<and> (b \<longrightarrow> Utilizavel a)"
  "writes_ok Q (escrever e aj) \<longleftrightarrow>
     writes_ok Q aj \<and> Q (es_Addr e) \<and> prazo_ok (es_Prazo e) \<and> podeEntrar (es_Addr e) (es_Capacidade e)
     \<and> es_Capacidade e \<noteq> NoCap"
  by (auto simp: writes_ok_def vazio_def remover_def escrever_def)

lemma index_core: "index_ok i \<Longrightarrow> core_ok i"
  by (simp add: index_ok_def)

lemma index_ok_replace:
  assumes "index_ok i" "map_of (ix_ends i) a = Some r0" "reg_ok a r" "rg_dominios r = rg_dominios r0"
  shows "index_ok (set_reg a r i)"
  using assms core_ok_replace [OF index_core [OF assms(1)] assms(2-4)]
  by (auto simp: index_ok_def update_conv' owned_def)

lemma reivindicar_ok:
  assumes "index_ok i" "map_of (ix_ends i) a = Some r" "active (ix_alvos i) d" "reivindicar d a r i = (i', r')"
  shows "index_ok i' \<and> map_of (ix_ends i') a = Some r' \<and> ix_alvos i' = ix_alvos i \<and> ix_protegidos i' = ix_protegidos i"
proof (cases "d \<in> set (rg_dominios r) \<or> ix_porDominio i d \<ge> MaxPorDominio")
  case True
  with assms show ?thesis by (auto simp: reivindicar_def split: if_splits)
next
  case False
  have r: "reg_ok a r" using assms by (auto simp: index_ok_def dest: core_regs)
  have r': "r' = r\<lparr>rg_dominios := rg_dominios r @ [d]\<rparr>"
    "i' = set_reg a r' (i\<lparr>ix_porDominio := (ix_porDominio i)(d := ix_porDominio i d + 1)\<rparr>)"
    using assms(4) False by (auto simp: reivindicar_def Let_def)
  have "core_ok i'"
    unfolding r'(2) by (rule core_ok_claim [OF index_core [OF assms(1)] assms(2)]) (use False r in \<open>auto simp: r'(1) reg_ok_def\<close>)
  moreover have "owned (ix_alvos i) r'"
    using assms(1-3) by (auto simp: r'(1) owned_def index_ok_def)
  ultimately show ?thesis
    using assms(1) by (auto simp: index_ok_def r'(2) update_conv')
qed

lemma absorverConhecido_ok:
  assumes "index_ok i" "map_of (ix_ends i) a = Some r0" "active (ix_alvos i) (av_Dominio alvo)" "prazo_ok prazo"
    and "writes_ok Q aj" "Q a" "absorverConhecido r0 alvo a prazo agora (aj, i) = (aj', i')"
  shows "index_ok i' \<and> writes_ok Q aj' \<and> ix_alvos i' = ix_alvos i \<and> ix_protegidos i' = ix_protegidos i"
proof -
  obtain i1 r where rv: "reivindicar (av_Dominio alvo) a r0 i = (i1, r)" by fastforce
  note ok = reivindicar_ok [OF assms(1-3) rv]
  have reg: "reg_ok a r" using ok by (auto simp: index_ok_def dest: core_regs)
  show ?thesis
  proof (cases "capEfetiva (ix_alvos i1) (rg_dominios r)")
    case None
    with assms(5,7) rv ok show ?thesis by (auto simp: absorverConhecido_def)
  next
    case (Some cm)
    obtain capa marca where cm: "cm = (capa, marca)" by fastforce
    let ?r = "r\<lparr>rg_pendente := True, rg_pendPrazo := prazo, rg_pendCap := capa, rg_pendMarca := marca\<rparr>"
    have U: "Utilizavel a" using reg by (simp add: reg_ok_def)
    have cap: "capa \<noteq> NoCap" using capEfetiva_cap Some cm by simp
    have "index_ok (set_reg a ?r (conta c 1 i1))" for c
      by (rule index_ok_replace [where r = ?r and r0 = r]) (use ok reg assms(4) in \<open>simp_all add: reg_ok_def\<close>)
    with assms(4-7) rv ok Some cm U cap show ?thesis
      by (auto simp: absorverConhecido_def Let_def split: if_splits)
  qed
qed

lemma absorverEndereco_ok:
  assumes "index_ok i" "active (ix_alvos i) (av_Dominio alvo)" "prazo_ok prazo" "Utilizavel a" "podeEntrar a (av_Capacidade alvo)"
    and "av_Capacidade alvo \<noteq> NoCap" "writes_ok Q aj" "Q a" "absorverEndereco alvo a prazo agora (aj, i) = (aj', i')"
  shows "index_ok i' \<and> writes_ok Q aj' \<and> ix_alvos i' = ix_alvos i \<and> ix_protegidos i' = ix_protegidos i"
proof (cases "map_of (ix_ends i) a")
  case (Some r)
  with assms absorverConhecido_ok [OF assms(1) Some assms(2,3,7,8)] show ?thesis
    by (simp add: absorverEndereco_def)
next
  case None
  show ?thesis
  proof (cases "length (ix_ends i) \<ge> MaxEnderecos \<or> ix_porDominio i (av_Dominio alvo) \<ge> MaxPorDominio")
    case True
    with assms None show ?thesis by (auto simp: absorverEndereco_def split: if_splits)
  next
    case False
    let ?d = "av_Dominio alvo"
    let ?r = "\<lparr>rg_dominios = [?d], rg_expira = agora + prazo, rg_concedido = prazo, rg_escritoCap = NoCap,
                       rg_escritoMarca = 0, rg_escrito = False, rg_duvidoso = False, rg_pendente = True,
                       rg_pendPrazo = prazo, rg_pendCap = av_Capacidade alvo, rg_pendMarca = av_Marca alvo\<rparr>"
    have "core_ok (set_reg a ?r (i\<lparr>ix_porDominio := (ix_porDominio i)(?d := ix_porDominio i ?d + 1)\<rparr>))"
      by (rule core_ok_new) (use assms None False in \<open>auto simp: reg_ok_def index_ok_def\<close>)
    then have "index_ok (set_reg a ?r (i\<lparr>ix_porDominio := (ix_porDominio i)(?d := ix_porDominio i ?d + 1)\<rparr>))"
      using assms(1,2) by (auto simp: index_ok_def owned_def update_conv')
    with assms None False show ?thesis
      by (auto simp: absorverEndereco_def Let_def)
  qed
qed

lemma aceitavel_cases:
  assumes "aceitavel a i = (i', ok)"
  shows "index_ok i' = index_ok i" "ix_alvos i' = ix_alvos i" "ix_protegidos i' = ix_protegidos i" "ix_ends i' = ix_ends i"
    "ix_ensaiados i' = ix_ensaiados i" "core_ok i' = core_ok i"
    "ok \<Longrightarrow> Utilizavel a \<and> \<not> protegido i a"
  using assms by (auto simp: aceitavel_def Let_def split: if_splits)

text \<open>What may become a rule now: usable, and not of the box or of its networks.\<close>

definition allowed :: "indice \<Rightarrow> ip \<Rightarrow> bool" where
  "allowed i a \<longleftrightarrow> Utilizavel a \<and> \<not> protegido i a"

lemma allowed_cong: "ix_protegidos i' = ix_protegidos i \<Longrightarrow> allowed i' = allowed i"
  by (simp add: allowed_def protegido_def fun_eq_iff)

text \<open>The state while an answer or a trial is taken in.\<close>

definition taking :: "indice \<Rightarrow> ajuste \<times> indice \<Rightarrow> bool" where
  "taking i0 st \<longleftrightarrow> (case st of (aj, i) \<Rightarrow>
     index_ok i \<and> writes_ok (allowed i0) aj \<and> ix_alvos i = ix_alvos i0 \<and> ix_protegidos i = ix_protegidos i0)"

lemma aprender_addr_ok:
  assumes "taking i0 st" "active (ix_alvos i0) (av_Dominio alvo)" "prazo_ok prazo" "av_Capacidade alvo \<noteq> NoCap"
  shows "taking i0 (aprender_addr alvo prazo agora a st)"
proof -
  obtain aj i where st: "st = (aj, i)" by fastforce
  obtain i1 ok where ac: "aceitavel a i = (i1, ok)" by fastforce
  note c = aceitavel_cases [OF ac]
  obtain aj2 i2 where ab: "absorverEndereco alvo a prazo agora (aj, i1) = (aj2, i2)" by fastforce
  show ?thesis
  proof (cases "ok \<and> podeEntrar a (av_Capacidade alvo)")
    case True
    then have "allowed i0 a" using c(7) assms(1) by (simp add: allowed_def protegido_def taking_def st)
    with True absorverEndereco_ok [OF _ _ assms(3) _ _ assms(4) _ _ ab, where Q = "allowed i0"] assms(1,2) c ac ab
    show ?thesis by (auto simp: aprender_addr_def st taking_def)
  next
    case False
    with assms(1) c ac show ?thesis by (auto simp: aprender_addr_def st taking_def split: bool.splits)
  qed
qed

lemma casar_em_listed: "casar_em alvos n = Some a \<Longrightarrow> \<exists>d. map_of alvos d = Some a"
  by (induction alvos n rule: casar_em.induct) (auto simp: casar_em.simps split: if_splits option.splits)

lemma alvos_ok_dominio: "alvos_ok alvos \<Longrightarrow> map_of alvos d = Some a \<Longrightarrow> av_Dominio a = d"
  by (auto simp: alvos_ok_def list_all_iff dest: map_of_SomeD)

lemma alvos_ok_cap: "alvos_ok alvos \<Longrightarrow> map_of alvos d = Some a \<Longrightarrow> av_Capacidade a \<noteq> NoCap"
  by (auto simp: alvos_ok_def list_all_iff dest: map_of_SomeD)

lemma CasarEm_active:
  "alvos_ok alvos \<Longrightarrow> CasarEm alvos nome = Some a \<Longrightarrow> av_Estagio a = Ativo \<Longrightarrow> active alvos (av_Dominio a)"
  "alvos_ok alvos \<Longrightarrow> CasarEm alvos nome = Some a \<Longrightarrow> av_Capacidade a \<noteq> NoCap"
  unfolding CasarEm_def
  by (auto dest!: casar_em_listed dest: alvos_ok_dominio alvos_ok_cap simp: active_def)

lemma taking_start: "index_ok i \<Longrightarrow> taking i (vazio, i)"
  by (simp add: taking_def)

lemma ensina_ok:
  assumes "index_ok i" "Aprender agora nome addrs ttl i = (aj, i')"
  shows "index_ok i' \<and> writes_ok (allowed i) aj \<and> ix_alvos i' = ix_alvos i \<and> ix_protegidos i' = ix_protegidos i"
proof (cases "CasarEm (ix_alvos i) nome")
  case None
  with assms show ?thesis by (auto simp: Aprender_def)
next
  case (Some alvo)
  show ?thesis
  proof (cases "av_Estagio alvo = Ativo")
    case False
    with assms Some show ?thesis by (auto simp: Aprender_def Let_def)
  next
    case True
    have act: "active (ix_alvos i) (av_Dominio alvo)"
      using CasarEm_active(1) [OF _ Some True] assms(1) by (simp add: index_ok_def core_ok_def)
    have cap: "av_Capacidade alvo \<noteq> NoCap"
      using CasarEm_active(2) [OF _ Some] assms(1) by (simp add: index_ok_def core_ok_def)
    have "taking i (fold (aprender_addr alvo (grampear ttl) agora) addrs (vazio, anotarRotatividade (av_Dominio alvo) addrs i))"
      by (rule fold_invariant [where Q = "\<lambda>_. True"]) (use assms(1) act cap in \<open>auto simp: taking_def [of _ "(vazio, _)"] aprender_addr_ok\<close>)
    with assms(2) Some True show ?thesis by (simp add: Aprender_def Let_def taking_def)
  qed
qed

end
