(* ===== verification/DomainChanges.thy ===== *)
theory DomainChanges
  imports DomainInvariant
begin

text \<open>
  The other operations on the index of the domain targets keep its invariant: a change of the list, which
  replays what the trials taught, what the kernel answers, and the pruning.
\<close>

subsection \<open>A change of the list\<close>

lemma desistir_frame [simp]:
  "ix_ends (fold (desistir agora a e) ds i) = ix_ends i" "ix_alvos (fold (desistir agora a e) ds i) = ix_alvos i"
  "ix_protegidos (fold (desistir agora a e) ds i) = ix_protegidos i"
  by (induction ds arbitrary: i) (simp_all add: desistir_def)

lemma desistir_contagem:
  "distinct ds \<Longrightarrow> ix_porDominio (fold (desistir agora a e) ds i) d = ix_porDominio i d - of_bool (d \<in> set ds)"
  by (induction ds arbitrary: i) (auto simp: desistir_def)

lemma core_ok_narrow:
  assumes "core_ok i" "map_of (ix_ends i) a = Some r0" "reg_ok a r" "rg_dominios r = filter P (rg_dominios r0)"
  shows "core_ok (set_reg a r (fold (desistir agora b e) (filter (\<lambda>d. \<not> P d) (rg_dominios r0)) i))"
proof -
  have d: "distinct (rg_dominios r0)" using core_regs [OF assms(1,2)] by (simp add: reg_ok_def)
  have "claims (AList.update a r (ix_ends i)) x = ix_porDominio i x - of_bool (x \<in> set (rg_dominios r0) \<and> \<not> P x)" for x
    using claims_known [OF assms(2), of r x] assms(1,4) by (auto simp: core_ok_def split: if_splits)
  with assms d show ?thesis
    by (auto simp: core_ok_def distinct_update length_update update_conv' desistir_contagem distinct_filter
        intro: le_trans [OF diff_le_self])
qed

text \<open>The state while the addresses are gone over: those in \<open>S\<close> have been.\<close>

definition going :: "ip set \<Rightarrow> indice \<Rightarrow> ajuste \<times> indice \<Rightarrow> bool" where
  "going S i0 st \<longleftrightarrow> (case st of (aj, i) \<Rightarrow>
     core_ok i \<and> writes_ok Utilizavel aj \<and> ix_alvos i = ix_alvos i0 \<and> ix_protegidos i = ix_protegidos i0
     \<and> (\<forall>a r. a \<in> S \<longrightarrow> map_of (ix_ends i) a = Some r \<longrightarrow> owned (ix_alvos i0) r)
     \<and> (\<forall>a. map_of (ix_ends i0) a = None \<longrightarrow> map_of (ix_ends i) a = None))"

lemma cap_loop_None: "cap_loop alvos achou ds = None \<longleftrightarrow> achou = None \<and> list_all (\<lambda>d. \<not> active alvos d) ds"
  by (induction ds arbitrary: achou) (auto simp: active_def simp del: not_None_eq split: option.splits)

lemma capEfetiva_None: "capEfetiva alvos ds = None \<longleftrightarrow> list_all (\<lambda>d. \<not> active alvos d) ds"
  by (simp add: capEfetiva_def cap_loop_None list_all_iff)

lemma going_update:
  assumes "going S i0 (aj, i)" "core_ok (set_reg a r i)" "owned (ix_alvos i0) r" "map_of (ix_ends i0) a \<noteq> None"
    "writes_ok Utilizavel aj'"
  shows "going (insert a S) i0 (aj', set_reg a r i)"
  using assms by (auto simp: going_def update_conv')

lemma reconciliar_um_ok:
  assumes g: "going S i0 st"
  shows "going (insert a S) i0 (reconciliar_um agora a st)"
proof -
  obtain aj i where st: "st = (aj, i)" by fastforce
  have core: "core_ok i" and al: "ix_alvos i = ix_alvos i0" and w: "writes_ok Utilizavel aj"
    using g by (auto simp: going_def st)
  show ?thesis
  proof (cases "map_of (ix_ends i) a")
    case None
    with g show ?thesis by (auto simp: reconciliar_um_def st going_def)
  next
    case (Some r0)
    define r where "r = r0\<lparr>rg_dominios := filter (active (ix_alvos i)) (rg_dominios r0)\<rparr>"
    define j where "j = fold (desistir agora a (rg_expira r0)) (filter (\<lambda>d. \<not> active (ix_alvos i) d) (rg_dominios r0)) i"
    have reg0: "reg_ok a r0" by (rule core_regs [OF core Some])
    have reg: "reg_ok a r" using reg0 by (simp add: r_def reg_ok_def)
    have U: "Utilizavel a" and pc: "prazo_ok (rg_concedido r)" using reg by (simp_all add: reg_ok_def)
    have core_r: "core_ok (set_reg a r j)"
      unfolding j_def by (rule core_ok_narrow [OF core Some reg]) (simp add: r_def)
    have gj: "going S i0 (aj, j)" if "core_ok j" using g that by (simp add: going_def st j_def)
    have a_in: "map_of (ix_ends i0) a \<noteq> None"
      using g Some by (auto simp: going_def st)
    have gset: "going (insert a S) i0 (aj', set_reg a r j)"
      if "rg_dominios r \<noteq> []" "writes_ok Utilizavel aj'" for aj'
      using g core_r a_in that al by (auto simp: going_def st j_def update_conv' owned_def r_def list_all_iff)
    have gdrop: "going (insert a S) i0 (aj', soltar a r k)"
      if "k = set_reg a r j \<or> k = conta c 1 (set_reg a r j)" "writes_ok Utilizavel aj'" for aj' k c
    proof -
      have "core_ok (soltar a r k)"
        by (rule core_ok_drop [where r0 = r]) (use that core_r in \<open>auto simp: update_conv'\<close>)
      with g that show ?thesis by (auto simp: going_def st j_def update_conv' delete_conv' split: if_splits)
    qed
    have core_set: "core_ok (set_reg a r' (set_reg a r j))" if "rg_dominios r' = rg_dominios r" "reg_ok a r'" for r'
      by (rule core_ok_replace [OF core_r _ that(2,1)]) (simp add: update_conv')
    have gset2: "going (insert a S) i0 (aj', set_reg a r' (set_reg a r j))"
      if "rg_dominios r' = rg_dominios r" "reg_ok a r'" "rg_dominios r \<noteq> []" "writes_ok Utilizavel aj'" for r' aj'
    proof -
      have "owned (ix_alvos i0) r"
        using that(3) al by (simp add: owned_def r_def list_all_iff)
      then have "owned (ix_alvos i0) r'" using that(1) by (simp add: owned_def)
      with going_update [OF gset [OF that(3,4)] core_set [OF that(1,2)] _ a_in that(4)] show ?thesis by simp
    qed
    note eq = reconciliar_um_def st Some r_def [symmetric] j_def [symmetric] Let_def
    show ?thesis
    proof (cases "capEfetiva (ix_alvos (set_reg a r j)) (rg_dominios r)")
      case None
      then show ?thesis using gdrop [of "set_reg a r j"] w U by (simp add: eq)
    next
      case (Some cm)
      obtain capa marca where cm: "cm = (capa, marca)" by fastforce
      have ne: "rg_dominios r \<noteq> []"
        using Some by (auto simp: capEfetiva_def)
      show ?thesis
      proof (cases "podeEntrar a capa")
        case False
        then show ?thesis using gdrop [where k = "conta DirecionadoV6Descartado 1 (set_reg a r j)" and c = DirecionadoV6Descartado] w U Some cm by (simp add: eq)
      next
        case True
        have "capa \<noteq> NoCap" using capEfetiva_cap Some cm by simp
        with w Some cm ne reg pc U True show ?thesis
          by (auto simp: eq intro!: gset gset2) (simp_all add: reg_ok_def)
      qed
    qed
  qed
qed


lemma reconciliar_ends:
  assumes "core_ok i"
  shows "going (set as) i (fold (reconciliar_um agora) as (vazio, i))"
proof -
  have "going (S \<union> set as) i (fold (reconciliar_um agora) as st)" if "going S i st" for S st
    using that
  proof (induction as arbitrary: S st)
    case (Cons a as)
    from Cons.IH [OF reconciliar_um_ok [OF Cons.prems]] show ?case by simp
  qed simp
  from this [of "{}" "(vazio, i)"] assms show ?thesis by (simp add: going_def)
qed

text \<open>While a trial is replayed the writes are usable; they are not protected either.\<close>

definition replaying :: "indice \<Rightarrow> ajuste \<times> indice \<Rightarrow> bool" where
  "replaying i0 st \<longleftrightarrow> (case st of (aj, i) \<Rightarrow>
     index_ok i \<and> writes_ok Utilizavel aj \<and> ix_alvos i = ix_alvos i0 \<and> ix_protegidos i = ix_protegidos i0)"

lemma replay_addr_ok:
  assumes "replaying i0 st" "active (ix_alvos i0) (av_Dominio alvo) \<and> av_Capacidade alvo \<noteq> NoCap"
  shows "replaying i0 (replay_addr alvo agora a st)"
proof -
  obtain aj i where st: "st = (aj, i)" by fastforce
  obtain i1 ok where ac: "aceitavel a i = (i1, ok)" by fastforce
  note c = aceitavel_cases [OF ac]
  let ?p = "grampear ((case map_of (poco_of (av_Dominio alvo) i1) a of None \<Rightarrow> 0 | Some v \<Rightarrow> v) - agora)"
  obtain aj2 i2 where ab: "absorverEndereco alvo a ?p agora (aj, i1) = (aj2, i2)" by fastforce
  show ?thesis
  proof (cases "ok \<and> podeEntrar a (av_Capacidade alvo)")
    case True
    with absorverEndereco_ok [OF _ _ grampear_ok _ _ _ _ _ ab, where Q = Utilizavel] assms c ac ab
    show ?thesis by (auto simp: replay_addr_def st replaying_def Let_def)
  next
    case False
    with assms(1) c ac show ?thesis by (auto simp: replay_addr_def st replaying_def split: bool.splits)
  qed
qed

lemma replayEnsaio_ok:
  assumes "replaying i0 st" "active (ix_alvos i0) (av_Dominio alvo) \<and> av_Capacidade alvo \<noteq> NoCap"
  shows "replaying i0 (replayEnsaio agora alvo st)"
proof -
  obtain aj i where st: "st = (aj, i)" by fastforce
  show ?thesis
  proof (cases "poco_of (av_Dominio alvo) i = []")
    case True
    with assms st show ?thesis by (simp add: replayEnsaio_def)
  next
    case False
    define i1 where "i1 = set_poco (av_Dominio alvo) (limparEnsaioVencido agora (poco_of (av_Dominio alvo) i)) i"
    define rs where "rs = sort (map fst (poco_of (av_Dominio alvo) i1))"
    have "replaying i0 (fold (replay_addr alvo agora) rs (aj, i1))"
      by (rule fold_invariant [where Q = "\<lambda>_. True"])
        (use assms in \<open>simp_all add: i1_def st replaying_def [of _ "(_, _)"] replay_addr_ok\<close>)
    then show ?thesis
      by (auto simp: replayEnsaio_def st False Let_def i1_def [symmetric] rs_def [symmetric] replaying_def)
  qed
qed

lemma reconciliar_ok:
  assumes "core_ok i" "list_all (\<lambda>a. active (ix_alvos i) (av_Dominio a) \<and> av_Capacidade a \<noteq> NoCap) promovidos"
  shows "replaying i (reconciliar agora promovidos i)"
proof -
  obtain aj j where j: "fold (reconciliar_um agora) (map fst (ix_ends i)) (vazio, i) = (aj, j)" by fastforce
  have g: "going (set (map fst (ix_ends i))) i (aj, j)"
    using reconciliar_ends [OF assms(1), of "map fst (ix_ends i)" agora] by (simp add: j)
  have "owned (ix_alvos i) r" if "map_of (ix_ends j) a = Some r" for a r
  proof -
    have "map_of (ix_ends i) a \<noteq> None" using g that by (auto simp: going_def)
    then have "a \<in> fst ` set (ix_ends i)" by (simp add: map_of_eq_None_iff)
    with g that show ?thesis by (auto simp: going_def)
  qed
  with g have r: "replaying i (aj, j)" by (auto simp: replaying_def going_def index_ok_def)
  show ?thesis
    unfolding reconciliar_def j
    by (rule fold_invariant [where Q = "\<lambda>a. active (ix_alvos i) (av_Dominio a) \<and> av_Capacidade a \<noteq> NoCap"])
      (use assms(2) r in \<open>auto simp: list_all_iff replayEnsaio_ok\<close>)
qed

lemma set_update_alist: "x \<in> set (AList.update k v al) \<Longrightarrow> x = (k, v) \<or> x \<in> set al"
  by (induction al) (auto split: if_splits)

lemma alvos_ok_update:
  assumes "alvos_ok m" "av_Dominio a = d" "av_Capacidade a \<noteq> NoCap" "av_Estagio a \<noteq> OutroEstagio"
  shows "alvos_ok (AList.update d a m)"
  using assms unfolding alvos_ok_def by (auto simp: distinct_update list_all_iff dest!: set_update_alist)

lemma novos_alvos_ok [simp]: "alvos_ok (novos_alvos alvos)"
  unfolding novos_alvos_def
proof (rule fold_invariant [where Q = "\<lambda>_. True"])
  show "alvos_ok []" by (simp add: alvos_ok_def)
  fix a m assume "alvos_ok m"
  then show "alvos_ok (case normal_alvo a of None \<Rightarrow> m | Some a' \<Rightarrow> AList.update (av_Dominio a') a' m)"
    unfolding normal_alvo_def by (auto split: option.splits intro!: alvos_ok_update)
qed simp

lemma promovidos_active:
  "alvos_ok novos \<Longrightarrow> list_all (\<lambda>a. active novos (av_Dominio a) \<and> av_Capacidade a \<noteq> NoCap) (promovidos_de antigos novos)"
proof (unfold list_all_iff, rule ballI)
  fix a assume ok: "alvos_ok novos" and "a \<in> set (promovidos_de antigos novos)"
  then obtain d where "(d, a) \<in> set novos" and e: "av_Estagio a = Ativo" by (auto simp: promovidos_de_def)
  with ok have "map_of novos (av_Dominio a) = Some a"
    by (auto simp: alvos_ok_def list_all_iff dest: map_of_is_SomeI)
  with e alvos_ok_cap [OF ok this] show "active novos (av_Dominio a) \<and> av_Capacidade a \<noteq> NoCap" by (simp add: active_def)
qed

lemma DefinirAlvos_ok:
  assumes "core_ok i" "DefinirAlvos agora alvos i = (aj, i')"
  shows "index_ok i' \<and> writes_ok Utilizavel aj \<and> ix_alvos i' = novos_alvos alvos \<and> ix_protegidos i' = ix_protegidos i"
proof -
  let ?i = "esquecerNaoListados (i\<lparr>ix_alvos := novos_alvos alvos\<rparr>)"
  have "core_ok (i\<lparr>ix_alvos := novos_alvos alvos\<rparr>)"
    using assms(1) unfolding core_ok_def by (elim conjE, intro conjI) simp_all
  then have "replaying ?i (aj, i')"
    using reconciliar_ok [of ?i "promovidos_de (ix_alvos i) (novos_alvos alvos)" agora] assms(2)
    by (simp add: DefinirAlvos_def Let_def promovidos_active)
  then show ?thesis by (simp add: replaying_def)
qed

subsection \<open>What the kernel answered, and the pruning\<close>

lemma confirmar_um_ok: "index_ok i \<Longrightarrow> index_ok (confirmar_um agora a i)"
proof (cases "map_of (ix_ends i) a")
  case (Some r)
  assume ok: "index_ok i"
  have "reg_ok a r" using ok Some by (auto simp: index_ok_def dest: core_regs)
  with ok Some show ?thesis
    by (auto simp: confirmar_um_def intro!: index_ok_replace) (simp_all add: reg_ok_def)
qed (simp add: confirmar_um_def)

lemma Confirmar_ok: "index_ok i \<Longrightarrow> index_ok (Confirmar agora as i)"
  unfolding Confirmar_def by (rule fold_invariant [where Q = "\<lambda>_. True"]) (auto simp: confirmar_um_ok)

lemma index_ok_drop:
  assumes "index_ok i" "map_of (ix_ends i) a = Some r0" "rg_dominios r = rg_dominios r0"
  shows "index_ok (soltar a r i)"
  using assms core_ok_drop [OF index_core [OF assms(1)] assms(2,3)]
  by (auto simp: index_ok_def delete_conv' split: if_splits)

lemma nao_confirmado_um_ok:
  assumes "index_ok (fst st)"
  shows "index_ok (fst (nao_confirmado_um a st))"
proof -
  obtain i n where st: "st = (i, n)" by fastforce
  have ok: "index_ok i" using assms st by simp
  show ?thesis
  proof (cases "map_of (ix_ends i) a")
    case None
    with ok st show ?thesis by (simp add: nao_confirmado_um_def)
  next
    case (Some r)
    have r: "reg_ok a r" using ok Some by (auto simp: index_ok_def dest: core_regs)
    have "index_ok (soltar a (r\<lparr>rg_pendente := False\<rparr>) (conta NaoConfirmados 1 i))"
      by (rule index_ok_drop [where r = "r\<lparr>rg_pendente := False\<rparr>" and r0 = r]) (use ok Some in simp_all)
    moreover have "index_ok (set_reg a (r\<lparr>rg_pendente := False, rg_duvidoso := True\<rparr>) (conta NaoConfirmados 1 i))"
      if "rg_escrito r"
      by (rule index_ok_replace [where r = "r\<lparr>rg_pendente := False, rg_duvidoso := True\<rparr>" and r0 = r]) (use ok Some r that in \<open>simp_all add: reg_ok_def\<close>)
    ultimately show ?thesis using ok Some st by (simp add: nao_confirmado_um_def)
  qed
qed

lemma NaoConfirmado_ok: "index_ok i \<Longrightarrow> index_ok (fst (NaoConfirmado as i))"
  unfolding NaoConfirmado_def
  by (rule fold_invariant [where Q = "\<lambda>_. True"]) (simp_all add: nao_confirmado_um_ok)

lemma podar_um_ok: "index_ok (fst st) \<Longrightarrow> index_ok (fst (podar_um corte a st))"
  by (cases st) (auto simp: podar_um_def index_ok_drop split: option.splits)

lemma Podar_ok: "index_ok i \<Longrightarrow> index_ok (fst (Podar agora i))"
proof -
  assume ok: "index_ok i"
  define st where "st = fold (podar_um (agora - FolgaDePoda)) (map fst (ix_ends i)) (i, 0)"
  have "index_ok (fst st)"
    unfolding st_def by (rule fold_invariant [where Q = "\<lambda>_. True"]) (use ok in \<open>simp_all add: podar_um_ok\<close>)
  moreover have "index_ok (x\<lparr>ix_ensaiados := y\<rparr>) = index_ok x" for x y
    by (rule index_ok_cong) simp_all
  ultimately show ?thesis by (cases st) (simp add: Podar_def Let_def st_def [symmetric])
qed

lemma DefinirProtegidos_ok: "index_ok i \<Longrightarrow> index_ok (DefinirProtegidos ps i)"
  by (rule index_ok_cong [THEN iffD2, rotated 3]) (simp_all add: DefinirProtegidos_def)

lemma NovoIndice_ok: "index_ok NovoIndice"
  by (simp add: index_ok_def core_ok_def NovoIndice_def alvos_ok_def)

end
