(* ===== verification/DomainRules.thy ===== *)
theory DomainRules
  imports DomainChanges "HOL-Library.Sublist"
begin

text \<open>
  What the index of the domain targets guarantees: its invariant over every sequence of calls, what it asks of
  the kernel, which domain a name belongs to, and which capacity prevails on an address.
\<close>

subsection \<open>The calls\<close>

text \<open>The exported operations that change the index; an operation is given the time at which it runs.\<close>

datatype chamada =
    Ensina int string "ip list" int
  | Lista int "alvo list"
  | Protege "ip_prefix list"
  | Confirma int "ip list"
  | Nega "ip list"
  | Poda int

fun chamar :: "chamada \<Rightarrow> indice \<Rightarrow> ajuste \<times> indice" where
  "chamar (Ensina agora nome addrs ttl) i = Aprender agora nome addrs ttl i"
| "chamar (Lista agora alvos) i = DefinirAlvos agora alvos i"
| "chamar (Protege ps) i = (vazio, DefinirProtegidos ps i)"
| "chamar (Confirma agora addrs) i = (vazio, Confirmar agora addrs i)"
| "chamar (Nega addrs) i = (vazio, fst (NaoConfirmado addrs i))"
| "chamar (Poda agora) i = (vazio, fst (Podar agora i))"

definition depois :: "chamada list \<Rightarrow> indice" where
  "depois cs = fold (\<lambda>c i. snd (chamar c i)) cs NovoIndice"

lemma chamar_ok: "index_ok i \<Longrightarrow> index_ok (snd (chamar c i)) \<and> writes_ok Utilizavel (fst (chamar c i))"
proof (cases c)
  case (Ensina agora nome addrs ttl)
  assume ok: "index_ok i"
  obtain aj i' where A: "Aprender agora nome addrs ttl i = (aj, i')" by fastforce
  from ensina_ok [OF ok A] have "index_ok i'" "writes_ok Utilizavel aj"
    by (auto simp: writes_ok_def allowed_def list_all_iff)
  with A Ensina show ?thesis by simp
next
  case (Lista agora alvos)
  assume ok: "index_ok i"
  obtain aj i' where A: "DefinirAlvos agora alvos i = (aj, i')" by fastforce
  from DefinirAlvos_ok [OF index_core [OF ok] A] A Lista show ?thesis by simp
qed (simp_all add: DefinirProtegidos_ok Confirmar_ok NaoConfirmado_ok Podar_ok)

lemma depois_ok: "index_ok (depois cs)"
  unfolding depois_def
  by (rule fold_invariant [where Q = "\<lambda>_. True"]) (simp_all add: chamar_ok NovoIndice_ok)

text \<open>C31. The invariant of the index, whatever sequence of calls it served: the count of a domain is the number of
  addresses that name it as an owner and never above 64, at most 4096 addresses are known, each of them once; every
  one is usable, is written or on its way to the kernel, was granted between ten minutes and an hour, and all its
  owners are listed domains that act, at least one.\<close>

theorem index_invariant:
  fixes cs :: "chamada list"
  defines "i \<equiv> depois cs"
  shows "(\<forall>d. ix_porDominio i d = length (filter (\<lambda>(_, r). d \<in> set (rg_dominios r)) (ix_ends i)) \<and> ix_porDominio i d \<le> MaxPorDominio)
    \<and> length (ix_ends i) \<le> MaxEnderecos \<and> distinct (map fst (ix_ends i))
    \<and> list_all (\<lambda>(a, r). Utilizavel a \<and> (rg_escrito r \<or> rg_pendente r)
         \<and> DomTTLPiso \<le> rg_concedido r \<and> rg_concedido r \<le> DomTTLTeto
         \<and> rg_dominios r \<noteq> [] \<and> distinct (rg_dominios r) \<and> list_all (active (ix_alvos i)) (rg_dominios r)) (ix_ends i)"
proof -
  have ok: "index_ok i" by (simp add: i_def depois_ok)
  then have c: "core_ok i" by (rule index_core)
  have "reg_ok a r \<and> owned (ix_alvos i) r" if "(a, r) \<in> set (ix_ends i)" for a r
  proof -
    have "map_of (ix_ends i) a = Some r" using c that by (simp add: core_ok_def)
    with ok show ?thesis by (auto simp: index_ok_def dest: core_regs)
  qed
  then have "list_all (\<lambda>(a, r). reg_ok a r \<and> owned (ix_alvos i) r) (ix_ends i)" by (auto simp: list_all_iff)
  then show ?thesis
    using c unfolding core_ok_def claims_def
    by (elim conjE, intro conjI allI) (auto simp: list_all_iff reg_ok_def owned_def prazo_ok_def)
qed

text \<open>What the index asks of the kernel: every address it writes is usable, has a deadline between ten minutes and
  an hour, and is of IPv4 when it is to be routed; and an address an answer of the resolver taught is not of the
  networks of the box.\<close>

theorem only_public_addresses_become_rules:
  "list_all (\<lambda>e. Utilizavel (es_Addr e) \<and> DomTTLPiso \<le> es_Prazo e \<and> es_Prazo e \<le> DomTTLTeto
      \<and> podeEntrar (es_Addr e) (es_Capacidade e)) (aj_Escritas (fst (chamar c (depois cs))))
   \<and> list_all (\<lambda>e. \<not> protegido (depois cs) (es_Addr e)) (aj_Escritas (fst (Aprender agora nome addrs ttl (depois cs))))"
proof -
  obtain aj i' where A: "Aprender agora nome addrs ttl (depois cs) = (aj, i')" by fastforce
  show ?thesis
    using chamar_ok [OF depois_ok, of c cs] ensina_ok [OF depois_ok A] A
    by (auto simp: writes_ok_def list_all_iff prazo_ok_def allowed_def)
qed

subsection \<open>Which domain a name belongs to\<close>

text \<open>The suffixes of a name that start at a label, from the longest.\<close>

function label_suffixes :: "string \<Rightarrow> string list" where
  "label_suffixes n =
     (if n = [] then [] else n # (if CHR ''.'' \<in> set n then label_suffixes (after_dot n) else []))"
  by auto
termination
  by (relation "measure length") (auto intro: after_dot_shorter)

declare label_suffixes.simps [simp del]

lemma casar_em_first: "casar_em alvos n = (case filter (\<lambda>s. map_of alvos s \<noteq> None) (label_suffixes n) of [] \<Rightarrow> None | s # _ \<Rightarrow> map_of alvos s)"
proof (induction alvos n rule: casar_em.induct)
  case (1 alvos n)
  show ?case
    by (subst casar_em.simps, subst label_suffixes.simps) (use 1 in \<open>auto split: option.splits\<close>)
qed

lemma suffix_after_dot: "suffix (after_dot n) n"
  unfolding after_dot_def by (metis suffix_drop suffix_dropWhile suffix_order.trans)

lemma label_suffixes_iff:
  "s \<in> set (label_suffixes n) \<longleftrightarrow> s \<noteq> [] \<and> (s = n \<or> (\<exists>p. n = p @ CHR ''.'' # s))"
proof (induction n arbitrary: s rule: label_suffixes.induct)
  case (1 n)
  show ?case
  proof (cases "CHR ''.'' \<in> set n")
    case False
    then show ?thesis by (subst label_suffixes.simps) auto
  next
    case True
    then obtain p q where n: "n = p @ CHR ''.'' # q" and p: "CHR ''.'' \<notin> set p" by (meson split_list_first)
    have a: "after_dot n = q"
      using p by (simp add: after_dot_def n dropWhile_append)
    have "(\<exists>p'. n = p' @ CHR ''.'' # s) \<longleftrightarrow> s = q \<or> (\<exists>p'. q = p' @ CHR ''.'' # s)"
    proof
      assume "\<exists>p'. n = p' @ CHR ''.'' # s"
      then obtain p' where "p @ CHR ''.'' # q = p' @ CHR ''.'' # s" by (auto simp: n)
      with p show "s = q \<or> (\<exists>p'. q = p' @ CHR ''.'' # s)"
        by (auto simp: append_eq_append_conv2 append_eq_Cons_conv Cons_eq_append_conv)
    next
      assume "s = q \<or> (\<exists>p'. q = p' @ CHR ''.'' # s)"
      then show "\<exists>p'. n = p' @ CHR ''.'' # s" by (auto simp: n intro: exI [of _ p])
    qed
    with True 1 a show ?thesis by (subst label_suffixes.simps) (auto simp: n)
  qed
qed

lemma label_suffixes_sorted: "sorted_wrt (\<lambda>s t. length s > length t) (label_suffixes n)"
proof (induction n rule: label_suffixes.induct)
  case (1 n)
  have "length s < length n" if "s \<in> set (label_suffixes (after_dot n))" "CHR ''.'' \<in> set n" for s
    using that after_dot_shorter [OF that(2)] by (auto simp: label_suffixes_iff)
  with 1 show ?case by (subst label_suffixes.simps) auto
qed

lemma label_suffixes_same_length:
  "s \<in> set (label_suffixes n) \<Longrightarrow> t \<in> set (label_suffixes n) \<Longrightarrow> length s = length t \<Longrightarrow> s = t"
  using label_suffixes_iff by auto


text \<open>Whether the name is the domain, or below it.\<close>

definition belongs_to :: "string \<Rightarrow> string \<Rightarrow> bool" where
  "belongs_to d n \<longleftrightarrow> d \<noteq> [] \<and> (n = d \<or> suffix (CHR ''.'' # d) n)"

lemma belongs_label: "belongs_to d n \<longleftrightarrow> d \<in> set (label_suffixes n)"
  unfolding belongs_to_def label_suffixes_iff suffix_def by blast

text \<open>C36. A name belongs to the listed domain that is the longest it is equal to or below of, label by label, and to
  none when it is below no listed domain: a name that only ends in the same letters does not match.\<close>

theorem longest_domain_wins:
  fixes nome :: string
  defines "n \<equiv> go_lower (trim_dots (trim_space nome))"
  shows "CasarEm alvos nome = Some a \<longleftrightarrow>
     (\<exists>d. map_of alvos d = Some a \<and> belongs_to d n \<and> filter (\<lambda>(d', _). belongs_to d' n \<and> length d < length d') alvos = [])"
proof -
  define L where "L = filter (\<lambda>s. map_of alvos s \<noteq> None) (label_suffixes n)"
  have listed: "d \<in> set L \<longleftrightarrow> belongs_to d n \<and> map_of alvos d \<noteq> None" for d by (auto simp: L_def belongs_label)
  have sorted: "sorted_wrt (\<lambda>s t. length s > length t) L"
    unfolding L_def by (rule sorted_wrt_filter [OF label_suffixes_sorted])
  have eq: "CasarEm alvos nome = (case L of [] \<Rightarrow> None | s # _ \<Rightarrow> map_of alvos s)"
    by (simp add: CasarEm_def casar_em_first L_def n_def)
  have longest: "filter (\<lambda>(d', _). belongs_to d' n \<and> length d < length d') alvos = [] \<longleftrightarrow> (\<forall>d'\<in>set L. length d' \<le> length d)" for d
  proof -
    have "d' \<in> set L \<longleftrightarrow> belongs_to d' n \<and> d' \<in> fst ` set alvos" for d'
      by (simp add: listed map_of_eq_None_iff)
    then show ?thesis by (force simp: filter_empty_conv not_less)
  qed
  have "CasarEm alvos nome = Some a \<longleftrightarrow> (\<exists>d. map_of alvos d = Some a \<and> d \<in> set L \<and> (\<forall>d'\<in>set L. length d' \<le> length d))"
  proof (cases L)
    case Nil
    then show ?thesis by (simp add: eq)
  next
    case (Cons s L')
    have uniq: "d = s" if "d \<in> set L" "\<forall>d'\<in>set L. length d' \<le> length d" for d
      using that sorted Cons by fastforce
    have s: "\<forall>d'\<in>set L. length d' \<le> length s" "s \<in> set L" using sorted Cons by auto
    have e: "CasarEm alvos nome = map_of alvos s" using Cons by (simp add: eq)
    show ?thesis
    proof
      assume "CasarEm alvos nome = Some a"
      with e s show "\<exists>d. map_of alvos d = Some a \<and> d \<in> set L \<and> (\<forall>d'\<in>set L. length d' \<le> length d)"
        by (intro exI [of _ s]) simp
    next
      assume "\<exists>d. map_of alvos d = Some a \<and> d \<in> set L \<and> (\<forall>d'\<in>set L. length d' \<le> length d)"
      then obtain d where d: "map_of alvos d = Some a" "d \<in> set L" "\<forall>d'\<in>set L. length d' \<le> length d" by blast
      from uniq [OF d(2,3)] d(1) e show "CasarEm alvos nome = Some a" by simp
    qed
  qed
  also have "\<dots> \<longleftrightarrow> (\<exists>d. map_of alvos d = Some a \<and> belongs_to d n \<and> (\<forall>d'\<in>set L. length d' \<le> length d))"
    using listed by auto
  finally show ?thesis by (simp add: longest)
qed

subsection \<open>Which capacity prevails\<close>

definition acting :: "(string \<times> alvo) list \<Rightarrow> string list \<Rightarrow> alvo list" where
  "acting alvos ds = filter (\<lambda>a. av_Estagio a = Ativo) (List.map_filter (map_of alvos) (sort ds))"

lemma cap_loop_acting:
  "cap_loop alvos achou ds =
     (let as = filter (\<lambda>a. av_Estagio a = Ativo) (List.map_filter (map_of alvos) ds) in
      if \<exists>a\<in>set as. av_Capacidade a = Barrar then Some (Barrar, 0)
      else case achou of Some m \<Rightarrow> Some (Direcionar, m)
           | None \<Rightarrow> (case as of [] \<Rightarrow> None | a # _ \<Rightarrow> Some (Direcionar, av_Marca a)))"
  by (induction ds arbitrary: achou) (auto simp: Let_def map_filter_simps split: option.splits)

text \<open>C37. When several domains share an address, one that bars prevails over any that route; only when none bars is
  the address routed, with the mark of the first of them in alphabetical order, whatever the order in which they
  came; and an address whose domains are all on trial or gone gets no rule.\<close>

theorem barring_prevails:
  "capEfetiva alvos ds =
     (case acting alvos ds of
        [] \<Rightarrow> None
      | a # _ \<Rightarrow> Some (if list_ex (\<lambda>a. av_Capacidade a = Barrar) (acting alvos ds) then (Barrar, 0)
                       else (Direcionar, av_Marca a)))"
  using cap_loop_acting [of alvos None "sort ds", folded acting_def]
  by (auto simp: capEfetiva_def Let_def list_ex_iff split: list.splits)

end
