(* ===== verification/DomainBatch.thy ===== *)
theory DomainBatch
  imports DomainIndex
begin

text \<open>
  One batch of elements for the three structures of the domain targets (\<open>internal/nftables/dominios.go\<close>): the
  script of a batch, its second attempt without deletions, and what the caller is told.  The script is the list
  of its commands.  What nft does with it is what the code says it measured: one transaction, in which deleting
  an absent element fails, adding a present one keeps its deadline, and adding a present key of the map with
  another mark fails.
\<close>

datatype estrutura = DomBlockedSet | DomBlockedSet6 | DomWanMap

record entrada =
  en_Addr :: ip
  en_Prazo :: int
  en_Marca :: "32 word"

record lote =
  lt_RemoverBloq :: "ip list"
  lt_RemoverBloq6 :: "ip list"
  lt_RemoverWan :: "ip list"
  lt_AdicionarBloq :: "entrada list"
  lt_AdicionarBloq6 :: "entrada list"
  lt_AdicionarWan :: "entrada list"

definition LoteVazio :: "lote \<Rightarrow> bool" where
  "LoteVazio l \<longleftrightarrow>
     length (lt_RemoverBloq l) + length (lt_RemoverBloq6 l) + length (lt_RemoverWan l)
     + length (lt_AdicionarBloq l) + length (lt_AdicionarBloq6 l) + length (lt_AdicionarWan l) = 0"

record resultado_lote =
  rl_Reenviado :: bool
  rl_NaoConfirmados :: "ip list"
  rl_RemocoesPerdidas :: "ip list"

definition Completo :: "resultado_lote \<Rightarrow> bool" where
  "Completo r \<longleftrightarrow> \<not> rl_Reenviado r \<and> length (rl_NaoConfirmados r) = 0 \<and> length (rl_RemocoesPerdidas r) = 0"

definition paresDoLote :: "lote \<Rightarrow> (ip list \<times> entrada list) list" where
  "paresDoLote l =
     [(lt_RemoverBloq l, lt_AdicionarBloq l), (lt_RemoverBloq6 l, lt_AdicionarBloq6 l), (lt_RemoverWan l, lt_AdicionarWan l)]"

definition renovacoesDoLote :: "lote \<Rightarrow> ip list" where
  "renovacoesDoLote l = concat (map (\<lambda>(rem, add). map en_Addr (filter (\<lambda>e. en_Addr e \<in> set rem) add)) (paresDoLote l))"

definition remocoesDoLote :: "lote \<Rightarrow> ip list" where
  "remocoesDoLote l = concat (map (\<lambda>(rem, add). filter (\<lambda>a. a \<notin> set (map en_Addr add)) rem) (paresDoLote l))"

subsection \<open>The script\<close>

datatype comando_nft =
    ApagaElemento estrutura ip
  | PoeElemento estrutura ip int "32 word option"

definition grampearPrazo :: "int \<Rightarrow> int" where
  "grampearPrazo d = (if d < DomTTLPiso then DomTTLPiso else if d > DomTTLTeto then DomTTLTeto else d)"

definition escreverRemocoes :: "estrutura \<Rightarrow> ip list \<Rightarrow> comando_nft list" where
  "escreverRemocoes nome addrs = map (ApagaElemento nome) (filter (\<lambda>a. a \<noteq> NoAddr) addrs)"

definition escreverAdicoes :: "estrutura \<Rightarrow> entrada list \<Rightarrow> bool \<Rightarrow> ip list \<Rightarrow> comando_nft list" where
  "escreverAdicoes nome es comMarca pular =
     map (\<lambda>e. PoeElemento nome (en_Addr e) (go_div (grampearPrazo (en_Prazo e)) (10 ^ 9))
            (if comMarca then Some (en_Marca e) else None))
       (filter (\<lambda>e. en_Addr e \<noteq> NoAddr \<and> en_Addr e \<notin> set pular) es)"

definition montarScript :: "lote \<Rightarrow> bool \<Rightarrow> comando_nft list" where
  "montarScript l comRemocoes =
     (if comRemocoes then
        escreverRemocoes DomBlockedSet (lt_RemoverBloq l) @ escreverRemocoes DomBlockedSet6 (lt_RemoverBloq6 l)
        @ escreverRemocoes DomWanMap (lt_RemoverWan l)
        @ escreverAdicoes DomBlockedSet (lt_AdicionarBloq l) False [] @ escreverAdicoes DomBlockedSet6 (lt_AdicionarBloq6 l) False []
        @ escreverAdicoes DomWanMap (lt_AdicionarWan l) True []
      else
        escreverAdicoes DomBlockedSet (lt_AdicionarBloq l) False (lt_RemoverBloq l)
        @ escreverAdicoes DomBlockedSet6 (lt_AdicionarBloq6 l) False (lt_RemoverBloq6 l)
        @ escreverAdicoes DomWanMap (lt_AdicionarWan l) True (lt_RemoverWan l))"

subsection \<open>The kernel\<close>

text \<open>For each structure and key, when the element expires and its mark.\<close>

type_synonym elementos = "estrutura \<Rightarrow> ip \<Rightarrow> (int \<times> 32 word) option"

definition sem_elementos :: elementos where
  "sem_elementos = (\<lambda>_ _. None)"

definition presente :: "int \<Rightarrow> elementos \<Rightarrow> estrutura \<Rightarrow> ip \<Rightarrow> (int \<times> 32 word) option" where
  "presente agora k e a = (case k e a of None \<Rightarrow> None | Some (ate, m) \<Rightarrow> if agora < ate then Some (ate, m) else None)"

definition por :: "estrutura \<Rightarrow> ip \<Rightarrow> (int \<times> 32 word) option \<Rightarrow> elementos \<Rightarrow> elementos" where
  "por e a v k = k(e := (k e)(a := v))"

fun nft_comando :: "int \<Rightarrow> comando_nft \<Rightarrow> elementos \<Rightarrow> elementos option" where
  "nft_comando agora (ApagaElemento e a) k =
     (if presente agora k e a = None then None else Some (por e a None k))"
| "nft_comando agora (PoeElemento e a segundos marca) k =
     (case presente agora k e a of
        None \<Rightarrow> Some (por e a (Some (agora + segundos * 10 ^ 9, case marca of None \<Rightarrow> 0 | Some m \<Rightarrow> m)) k)
      | Some (_, m) \<Rightarrow> if marca = None \<or> marca = Some m then Some k else None)"

fun nft_transacao :: "int \<Rightarrow> comando_nft list \<Rightarrow> elementos \<Rightarrow> elementos option" where
  "nft_transacao agora [] k = Some k"
| "nft_transacao agora (c # cs) k = (case nft_comando agora c k of None \<Rightarrow> None | Some k' \<Rightarrow> nft_transacao agora cs k')"

text \<open>The command may also fail for another reason: \<open>recusa n\<close> for the attempt \<open>n\<close>.\<close>

definition rodarScriptNft :: "bool \<Rightarrow> int \<Rightarrow> comando_nft list \<Rightarrow> elementos \<Rightarrow> bool \<times> elementos" where
  "rodarScriptNft recusa agora script k =
     (if recusa then (False, k) else case nft_transacao agora script k of None \<Rightarrow> (False, k) | Some k' \<Rightarrow> (True, k'))"

text \<open>The result, whether there is an error, and the kernel.\<close>

definition AplicarLote ::
  "bool \<Rightarrow> (nat \<Rightarrow> bool) \<Rightarrow> int \<Rightarrow> lote \<Rightarrow> elementos \<Rightarrow> resultado_lote \<times> bool \<times> elementos" where
  "AplicarLote dry recusa agora l k =
     (let res = \<lparr>rl_Reenviado = False, rl_NaoConfirmados = [], rl_RemocoesPerdidas = []\<rparr> in
      if dry \<or> LoteVazio l then (res, False, k)
      else case rodarScriptNft (recusa 0) agora (montarScript l True) k of
        (True, k1) \<Rightarrow> (res, False, k1)
      | (False, k1) \<Rightarrow>
          (let res1 = \<lparr>rl_Reenviado = True, rl_NaoConfirmados = renovacoesDoLote l, rl_RemocoesPerdidas = remocoesDoLote l\<rparr>;
               soAdds = montarScript l False in
           if soAdds = [] then (res1, True, k1)
           else case rodarScriptNft (recusa 1) agora soAdds k1 of
             (True, k2) \<Rightarrow> (res1, False, k2)
           | (False, k2) \<Rightarrow> (res1, True, k2)))"

subsection \<open>What the batch asks\<close>

definition remover_de :: "lote \<Rightarrow> estrutura \<Rightarrow> ip list" where
  "remover_de l e = (case e of DomBlockedSet \<Rightarrow> lt_RemoverBloq l | DomBlockedSet6 \<Rightarrow> lt_RemoverBloq6 l | DomWanMap \<Rightarrow> lt_RemoverWan l)"

definition adicionar_de :: "lote \<Rightarrow> estrutura \<Rightarrow> entrada list" where
  "adicionar_de l e = (case e of DomBlockedSet \<Rightarrow> lt_AdicionarBloq l | DomBlockedSet6 \<Rightarrow> lt_AdicionarBloq6 l | DomWanMap \<Rightarrow> lt_AdicionarWan l)"

definition novo_elemento :: "int \<Rightarrow> estrutura \<Rightarrow> entrada \<Rightarrow> int \<times> 32 word" where
  "novo_elemento agora e en =
     (agora + go_div (grampearPrazo (en_Prazo en)) (10 ^ 9) * 10 ^ 9, if e = DomWanMap then en_Marca en else 0)"

definition entrada_de :: "lote \<Rightarrow> estrutura \<Rightarrow> ip \<Rightarrow> entrada option" where
  "entrada_de l e a = map_of (map (\<lambda>en. (en_Addr en, en)) (adicionar_de l e)) a"

text \<open>What a structure holds after the whole batch, and after the additions that are not renewals.\<close>

definition feito :: "int \<Rightarrow> lote \<Rightarrow> elementos \<Rightarrow> elementos" where
  "feito agora l k e a =
     (case entrada_de l e a of
        None \<Rightarrow> if a \<in> set (remover_de l e) then None else k e a
      | Some en \<Rightarrow>
          if a \<notin> set (remover_de l e) \<and> presente agora k e a \<noteq> None then k e a else Some (novo_elemento agora e en))"

definition so_novos :: "int \<Rightarrow> lote \<Rightarrow> elementos \<Rightarrow> elementos" where
  "so_novos agora l k e a =
     (case entrada_de l e a of
        None \<Rightarrow> k e a
      | Some en \<Rightarrow> if a \<in> set (remover_de l e) \<or> presente agora k e a \<noteq> None then k e a else Some (novo_elemento agora e en))"

text \<open>A batch the feeder builds: valid addresses, each at most once in the additions and in the removals of a structure.\<close>

definition lote_ok :: "lote \<Rightarrow> bool" where
  "lote_ok l \<longleftrightarrow>
     list_all (\<lambda>e. distinct (remover_de l e) \<and> NoAddr \<notin> set (remover_de l e)
        \<and> distinct (map en_Addr (adicionar_de l e)) \<and> NoAddr \<notin> set (map en_Addr (adicionar_de l e)))
       [DomBlockedSet, DomBlockedSet6, DomWanMap]"

subsection \<open>One structure at a time\<close>

text \<open>The part of a script that removes, and the part that adds, with the structure of each command.\<close>

lemma transacao_append: "nft_transacao agora (cs @ ds) k = (case nft_transacao agora cs k of None \<Rightarrow> None | Some k' \<Rightarrow> nft_transacao agora ds k')"
  by (induction cs arbitrary: k) (auto split: option.splits)

lemma por_apply: "por e a v k e' a' = (if e' = e \<and> a' = a then v else k e' a')"
  by (simp add: por_def)

lemma presente_cong: "k e a = k' e a \<Longrightarrow> presente agora k e a = presente agora k' e a"
  by (simp add: presente_def)

lemma presente_None [simp]: "presente agora (por e a None k) e a = None"
  by (simp add: presente_def por_apply)

lemma removals_effect:
  assumes "nft_transacao agora (map (ApagaElemento e) as) k = Some k'"
  shows "k' e' a' = (if e' = e \<and> a' \<in> set as then None else k e' a')"
  using assms by (induction as arbitrary: k) (auto simp: por_apply split: if_splits)

definition adds :: "estrutura \<Rightarrow> entrada list \<Rightarrow> comando_nft list" where
  "adds e es = map (\<lambda>en. PoeElemento e (en_Addr en) (go_div (grampearPrazo (en_Prazo en)) (10 ^ 9))
                      (if e = DomWanMap then Some (en_Marca en) else None)) es"

lemma adds_effect:
  assumes "nft_transacao agora (adds e es) k = Some k'" "distinct (map en_Addr es)"
  shows "k' e' a' =
     (if e' = e then
        (case map_of (map (\<lambda>en. (en_Addr en, en)) es) a' of
           None \<Rightarrow> k e a'
         | Some en \<Rightarrow> if presente agora k e a' = None then Some (novo_elemento agora e en) else k e a')
      else k e' a')"
  using assms
proof (induction es arbitrary: k)
  case Nil
  then show ?case by (simp add: adds_def)
next
  case (Cons en es)
  obtain k1 where k1: "nft_comando agora (hd (adds e (en # es))) k = Some k1" "nft_transacao agora (adds e es) k1 = Some k'"
    using Cons.prems(1) by (auto simp: adds_def split: option.splits)
  note IH = Cons.IH [OF k1(2)]
  have notin: "map_of (map (\<lambda>en. (en_Addr en, en)) es) (en_Addr en) = None"
    using Cons.prems(2) by (force simp: map_of_eq_None_iff)
  have k1': "k1 e' a' = (if e' = e \<and> a' = en_Addr en \<and> presente agora k e a' = None then Some (novo_elemento agora e en) else k e' a')" for e' a'
    using k1(1) by (auto simp: adds_def por_apply novo_elemento_def split: option.splits if_splits prod.splits)
  have p: "presente agora k1 e a' = presente agora k e a'" if "a' \<noteq> en_Addr en" for a'
    by (rule presente_cong) (simp add: k1' that)
  from IH Cons.prems(2) notin p k1' show ?case by (auto split: option.splits)
qed


lemma remocoes_script: "NoAddr \<notin> set as \<Longrightarrow> escreverRemocoes e as = map (ApagaElemento e) as"
  by (simp add: escreverRemocoes_def filter_id_conv) (metis (mono_tags, lifting) filter_True)

lemma adicoes_script:
  assumes "NoAddr \<notin> set (map en_Addr es)"
  shows "escreverAdicoes e es (e = DomWanMap) pular = adds e (filter (\<lambda>en. en_Addr en \<notin> set pular) es)"
proof -
  have "filter (\<lambda>en. en_Addr en \<noteq> NoAddr \<and> en_Addr en \<notin> set pular) es = filter (\<lambda>en. en_Addr en \<notin> set pular) es"
    by (rule filter_cong) (use assms in \<open>force simp: image_iff\<close>)+
  then show ?thesis by (simp add: escreverAdicoes_def adds_def)
qed

lemma map_of_filter_fst: "map_of (map (\<lambda>en. (f en, en)) (filter (\<lambda>en. P (f en)) es)) a = (if P a then map_of (map (\<lambda>en. (f en, en)) es) a else None)"
  by (induction es) auto

lemma lote_okD:
  assumes "lote_ok l"
  shows "distinct (remover_de l e)" "NoAddr \<notin> set (remover_de l e)"
    "distinct (map en_Addr (adicionar_de l e))" "NoAddr \<notin> set (map en_Addr (adicionar_de l e))"
  using assms by (cases e; simp add: lote_ok_def)+

lemma script_whole:
  assumes "lote_ok l"
  shows "montarScript l True =
     map (ApagaElemento DomBlockedSet) (remover_de l DomBlockedSet) @ map (ApagaElemento DomBlockedSet6) (remover_de l DomBlockedSet6)
     @ map (ApagaElemento DomWanMap) (remover_de l DomWanMap)
     @ adds DomBlockedSet (adicionar_de l DomBlockedSet) @ adds DomBlockedSet6 (adicionar_de l DomBlockedSet6)
     @ adds DomWanMap (adicionar_de l DomWanMap)"
  using lote_okD [OF assms, of DomBlockedSet] lote_okD [OF assms, of DomBlockedSet6] lote_okD [OF assms, of DomWanMap]
    adicoes_script [of "lt_AdicionarBloq l" DomBlockedSet "[]"] adicoes_script [of "lt_AdicionarBloq6 l" DomBlockedSet6 "[]"]
    adicoes_script [of "lt_AdicionarWan l" DomWanMap "[]"]
  by (simp add: montarScript_def remover_de_def adicionar_de_def remocoes_script)

lemma script_again:
  assumes "lote_ok l"
  shows "montarScript l False =
     adds DomBlockedSet (filter (\<lambda>en. en_Addr en \<notin> set (remover_de l DomBlockedSet)) (adicionar_de l DomBlockedSet))
     @ adds DomBlockedSet6 (filter (\<lambda>en. en_Addr en \<notin> set (remover_de l DomBlockedSet6)) (adicionar_de l DomBlockedSet6))
     @ adds DomWanMap (filter (\<lambda>en. en_Addr en \<notin> set (remover_de l DomWanMap)) (adicionar_de l DomWanMap))"
  using lote_okD [OF assms, of DomBlockedSet] lote_okD [OF assms, of DomBlockedSet6] lote_okD [OF assms, of DomWanMap]
    adicoes_script [of "lt_AdicionarBloq l" DomBlockedSet "lt_RemoverBloq l"]
    adicoes_script [of "lt_AdicionarBloq6 l" DomBlockedSet6 "lt_RemoverBloq6 l"]
    adicoes_script [of "lt_AdicionarWan l" DomWanMap "lt_RemoverWan l"]
  by (simp add: montarScript_def remover_de_def adicionar_de_def)

definition add_effect :: "int \<Rightarrow> (estrutura \<Rightarrow> entrada list) \<Rightarrow> elementos \<Rightarrow> elementos" where
  "add_effect agora es k e a =
     (case map_of (map (\<lambda>en. (en_Addr en, en)) (es e)) a of
        None \<Rightarrow> k e a
      | Some en \<Rightarrow> if presente agora k e a = None then Some (novo_elemento agora e en) else k e a)"

lemma adds_three:
  assumes "nft_transacao agora (adds DomBlockedSet (es DomBlockedSet) @ adds DomBlockedSet6 (es DomBlockedSet6)
      @ adds DomWanMap (es DomWanMap)) k = Some k'"
    and "\<And>e. distinct (map en_Addr (es e))"
  shows "k' = add_effect agora es k"
proof -
  obtain k1 k2 where k1: "nft_transacao agora (adds DomBlockedSet (es DomBlockedSet)) k = Some k1"
    and k2: "nft_transacao agora (adds DomBlockedSet6 (es DomBlockedSet6)) k1 = Some k2"
    and k3: "nft_transacao agora (adds DomWanMap (es DomWanMap)) k2 = Some k'"
    using assms(1) by (auto simp: transacao_append split: option.splits)
  note e1 = adds_effect [OF k1 assms(2)] and e2 = adds_effect [OF k2 assms(2)] and e3 = adds_effect [OF k3 assms(2)]
  have p2: "presente agora k1 DomBlockedSet6 a = presente agora k DomBlockedSet6 a" for a
    by (rule presente_cong) (simp add: e1)
  have p3: "presente agora k2 DomWanMap a = presente agora k DomWanMap a" for a
    by (rule presente_cong) (simp add: e1 e2)
  have "k' e a = add_effect agora es k e a" for e a
    by (cases e) (auto simp: e1 e2 e3 p2 p3 add_effect_def split: option.split)
  then show ?thesis by (simp add: fun_eq_iff)
qed

definition apagados :: "lote \<Rightarrow> elementos \<Rightarrow> elementos" where
  "apagados l k e a = (if a \<in> set (remover_de l e) then None else k e a)"

lemma whole_effect:
  assumes "lote_ok l" "nft_transacao agora (montarScript l True) k = Some k'"
  shows "k' = feito agora l k"
proof -
  obtain k1 k2 k3 where k1: "nft_transacao agora (map (ApagaElemento DomBlockedSet) (remover_de l DomBlockedSet)) k = Some k1"
    and k2: "nft_transacao agora (map (ApagaElemento DomBlockedSet6) (remover_de l DomBlockedSet6)) k1 = Some k2"
    and k3: "nft_transacao agora (map (ApagaElemento DomWanMap) (remover_de l DomWanMap)) k2 = Some k3"
    and k': "nft_transacao agora (adds DomBlockedSet (adicionar_de l DomBlockedSet) @ adds DomBlockedSet6 (adicionar_de l DomBlockedSet6)
      @ adds DomWanMap (adicionar_de l DomWanMap)) k3 = Some k'"
    using assms(2) unfolding script_whole [OF assms(1)]
    by (auto simp: transacao_append split: option.splits)
  have k3_eq: "k3 = apagados l k"
  proof (intro ext)
    fix e a show "k3 e a = apagados l k e a"
      using removals_effect [OF k1, of e a] removals_effect [OF k2, of e a] removals_effect [OF k3, of e a]
      by (cases e) (auto simp: apagados_def)
  qed
  have "k' = add_effect agora (adicionar_de l) k3"
    by (rule adds_three [OF k' lote_okD(3) [OF assms(1)]])
  moreover have "add_effect agora (adicionar_de l) (apagados l k) e a = feito agora l k e a" for e a
    by (auto simp: add_effect_def apagados_def feito_def entrada_de_def presente_def split: option.split)
  ultimately show ?thesis by (simp add: k3_eq fun_eq_iff)
qed

lemma again_effect:
  assumes "lote_ok l" "nft_transacao agora (montarScript l False) k = Some k'"
  shows "k' = so_novos agora l k"
proof -
  let ?es = "\<lambda>e. filter (\<lambda>en. en_Addr en \<notin> set (remover_de l e)) (adicionar_de l e)"
  have "k' = add_effect agora ?es k"
    by (rule adds_three) (use assms lote_okD(3) [OF assms(1)] in \<open>simp_all add: script_again distinct_map_filter\<close>)
  moreover have "add_effect agora ?es k e a = so_novos agora l k e a" for e a
    by (auto simp: add_effect_def so_novos_def entrada_de_def
        map_of_filter_fst [where f = en_Addr and P = "\<lambda>a. a \<notin> set (remover_de l e)"] split: option.split)
  ultimately show ?thesis by (simp add: fun_eq_iff)
qed

subsection \<open>The caller is told the truth\<close>

lemma batch_effect:
  assumes "lote_ok l" "AplicarLote False recusa agora l k = (res, erro, k')"
  shows "k' = (if erro then k else if rl_Reenviado res then so_novos agora l k else feito agora l k)"
proof -
  have "feito agora l k = k" if "LoteVazio l"
  proof (intro ext)
    fix e a show "feito agora l k e a = k e a"
      using that by (cases e) (simp_all add: feito_def entrada_de_def adicionar_de_def remover_de_def LoteVazio_def)
  qed
  then show ?thesis
    using assms(2) whole_effect [OF assms(1)] again_effect [OF assms(1)]
    by (auto simp: AplicarLote_def Let_def rodarScriptNft_def split: if_splits option.splits)
qed

text \<open>C33. What \<open>AplicarLote\<close> answers is what happened, whatever nft refuses.  An error means that the kernel is as it
  was.  Without an error and without a second attempt every removal and every addition was done, and each address
  that was in both lists has its deadline again from now.  After a second attempt every address that was only to be
  added is in, nothing else changed, and the answer names exactly the renewals that did not happen and the
  removals that were lost.\<close>

theorem batch_answer_is_true:
  assumes "lote_ok l" "AplicarLote False recusa agora l k = (res, erro, k')"
  shows "k' = (if erro then k else if rl_Reenviado res then so_novos agora l k else feito agora l k)
    \<and> set (rl_NaoConfirmados res) =
        (if rl_Reenviado res then (\<Union>e. {a. a \<in> set (remover_de l e) \<and> entrada_de l e a \<noteq> None}) else {})
    \<and> set (rl_RemocoesPerdidas res) =
        (if rl_Reenviado res then (\<Union>e. {a. a \<in> set (remover_de l e) \<and> entrada_de l e a = None}) else {})"
proof -
  have U: "(UNIV :: estrutura set) = {DomBlockedSet, DomBlockedSet6, DomWanMap}"
    using estrutura.exhaust by auto
  have en: "entrada_de l e a = None \<longleftrightarrow> a \<notin> en_Addr ` set (adicionar_de l e)" for e a
    by (force simp: entrada_de_def map_of_eq_None_iff)
  have ren: "set (renovacoesDoLote l) = (\<Union>e. {a. a \<in> set (remover_de l e) \<and> entrada_de l e a \<noteq> None})"
    unfolding en U by (auto simp: renovacoesDoLote_def paresDoLote_def remover_de_def adicionar_de_def)
  have rem: "set (remocoesDoLote l) = (\<Union>e. {a. a \<in> set (remover_de l e) \<and> entrada_de l e a = None})"
    unfolding en U by (auto simp: remocoesDoLote_def paresDoLote_def remover_de_def adicionar_de_def)
  show ?thesis
    using assms(2) ren rem batch_effect [OF assms]
    by (auto simp: AplicarLote_def Let_def rodarScriptNft_def split: if_splits option.splits prod.splits)
qed


text \<open>An addition to the map meets no element with another mark.\<close>

definition sem_conflito :: "int \<Rightarrow> elementos \<Rightarrow> entrada list \<Rightarrow> bool" where
  "sem_conflito agora k es \<longleftrightarrow>
     list_all (\<lambda>en. case presente agora k DomWanMap (en_Addr en) of None \<Rightarrow> True | Some (_, m) \<Rightarrow> m = en_Marca en) es"

lemma adds_succeed:
  assumes "distinct (map en_Addr es)" "e = DomWanMap \<Longrightarrow> sem_conflito agora k es"
  shows "nft_transacao agora (adds e es) k \<noteq> None"
  using assms
proof (induction es arbitrary: k)
  case (Cons en es)
  have "sem_conflito agora (por DomWanMap (en_Addr en) v k) es" if "e = DomWanMap" for v
  proof -
    have "presente agora (por DomWanMap (en_Addr en) v k) DomWanMap (en_Addr x) = presente agora k DomWanMap (en_Addr x)"
      if "x \<in> set es" for x
    proof (rule presente_cong)
      have "en_Addr x \<noteq> en_Addr en" using Cons.prems(1) imageI [OF that, of en_Addr] by auto
      then show "por DomWanMap (en_Addr en) v k DomWanMap (en_Addr x) = k DomWanMap (en_Addr x)" by (simp add: por_apply)
    qed
    with Cons.prems(2) [OF that] show ?thesis by (simp add: sem_conflito_def list_all_iff)
  qed
  with Cons show ?case
    by (auto simp: adds_def sem_conflito_def split: option.splits prod.splits)
qed (simp add: adds_def)

lemma adds_three_succeed:
  assumes "\<And>e. distinct (map en_Addr (es e))" "sem_conflito agora k (es DomWanMap)"
  shows "nft_transacao agora (adds DomBlockedSet (es DomBlockedSet) @ adds DomBlockedSet6 (es DomBlockedSet6)
      @ adds DomWanMap (es DomWanMap)) k \<noteq> None"
proof -
  obtain k1 where k1: "nft_transacao agora (adds DomBlockedSet (es DomBlockedSet)) k = Some k1"
    using adds_succeed [OF assms(1) [of DomBlockedSet], where e = DomBlockedSet and agora = agora and k = k] by auto
  obtain k2 where k2: "nft_transacao agora (adds DomBlockedSet6 (es DomBlockedSet6)) k1 = Some k2"
    using adds_succeed [OF assms(1) [of DomBlockedSet6], where e = DomBlockedSet6 and agora = agora and k = k1] by auto
  have "presente agora k2 DomWanMap a = presente agora k DomWanMap a" for a
    by (rule presente_cong) (simp add: adds_effect [OF k2 assms(1)] adds_effect [OF k1 assms(1)])
  then have "sem_conflito agora k2 (es DomWanMap)" using assms(2) by (simp add: sem_conflito_def)
  with adds_succeed [OF assms(1) [of DomWanMap], where e = DomWanMap and agora = agora and k = k2] k1 k2 show ?thesis
    by (auto simp: transacao_append)
qed

text \<open>A new address gets in even when the batch also deletes an element that the kernel has let expire, which
  makes the whole first transaction fail: after \<open>AplicarLote\<close> every address that was only to be added is present
  at the time of the call.\<close>

theorem new_addresses_get_in:
  assumes "lote_ok l" "AplicarLote False (\<lambda>_. False) agora l k = (res, erro, k')"
    and "sem_conflito agora k (filter (\<lambda>en. en_Addr en \<notin> set (lt_RemoverWan l)) (lt_AdicionarWan l))"
    and "entrada_de l e a \<noteq> None" "a \<notin> set (remover_de l e)"
  shows "presente agora k' e a \<noteq> None"
proof -
  let ?es = "\<lambda>e. filter (\<lambda>en. en_Addr en \<notin> set (remover_de l e)) (adicionar_de l e)"
  obtain en where en: "entrada_de l e a = Some en" using assms(4) by auto
  then have "(a, en) \<in> set (map (\<lambda>en. (en_Addr en, en)) (adicionar_de l e))"
    unfolding entrada_de_def by (rule map_of_SomeD)
  with assms(5) have "?es e \<noteq> []" by (auto simp: filter_empty_conv)
  then have ne: "montarScript l False \<noteq> []"
    by (cases e) (auto simp: script_again [OF assms(1)] adds_def)
  have ok: "nft_transacao agora (montarScript l False) k \<noteq> None"
    unfolding script_again [OF assms(1)]
    by (rule adds_three_succeed [where es = ?es])
      (use assms(3) lote_okD(3) [OF assms(1)] in \<open>simp_all add: distinct_map_filter adicionar_de_def remover_de_def\<close>)
  have "\<not> erro"
    using assms(2) ne ok by (auto simp: AplicarLote_def Let_def rodarScriptNft_def split: if_splits option.splits)
  then have "k' = (if rl_Reenviado res then so_novos agora l k else feito agora l k)"
    using batch_effect [OF assms(1,2)] by simp
  moreover have "agora < fst (novo_elemento agora e en)"
    by (auto simp: novo_elemento_def grampearPrazo_def DomTTLPiso_def DomTTLTeto_def go_div_def pos_imp_zdiv_pos_iff)
  ultimately show ?thesis
    using en assms(5) by (auto simp: presente_def so_novos_def feito_def split: option.splits prod.splits)
qed


text \<open>A removal of an element that is not there, and a new address.\<close>

definition lote_demo :: lote where
  "lote_demo = \<lparr>lt_RemoverBloq = [quad 9 9 9 9], lt_RemoverBloq6 = [], lt_RemoverWan = [],
     lt_AdicionarBloq = [\<lparr>en_Addr = quad 5 6 7 8, en_Prazo = 1800 * 10 ^ 9, en_Marca = 0\<rparr>],
     lt_AdicionarBloq6 = [], lt_AdicionarWan = []\<rparr>"

lemma lote_demo_ok: "lote_ok lote_demo"
  by code_simp

theorem batch_answer_is_true_witness:
  "snd (snd (AplicarLote False (\<lambda>_. False) 0 lote_demo sem_elementos)) = so_novos 0 lote_demo sem_elementos"
proof -
  obtain res erro k' where A: "AplicarLote False (\<lambda>_. False) 0 lote_demo sem_elementos = (res, erro, k')"
    by (cases "AplicarLote False (\<lambda>_. False) 0 lote_demo sem_elementos") auto
  have "rl_Reenviado (fst (AplicarLote False (\<lambda>_. False) 0 lote_demo sem_elementos))
     \<and> \<not> fst (snd (AplicarLote False (\<lambda>_. False) 0 lote_demo sem_elementos))"
    by code_simp
  with batch_answer_is_true [OF lote_demo_ok A] A show ?thesis by simp
qed

theorem new_addresses_get_in_witness:
  "presente 0 (snd (snd (AplicarLote False (\<lambda>_. False) 0 lote_demo sem_elementos))) DomBlockedSet (quad 5 6 7 8) \<noteq> None"
proof -
  have "sem_conflito 0 sem_elementos (filter (\<lambda>en. en_Addr en \<notin> set (lt_RemoverWan lote_demo)) (lt_AdicionarWan lote_demo))"
    "entrada_de lote_demo DomBlockedSet (quad 5 6 7 8) \<noteq> None" "quad 5 6 7 8 \<notin> set (remover_de lote_demo DomBlockedSet)"
    by code_simp+
  from new_addresses_get_in [OF lote_demo_ok _ this] show ?thesis by (metis prod.collapse)
qed

end
