(* ===== verification/DomainFeed.thy ===== *)
theory DomainFeed
  imports DomainRules DomainBatch "HOL-Library.Product_Lexorder"
begin

text \<open>
  The feeder of the domain targets (\<open>internal/domtargets/servico.go\<close>): the queue of answers, what waits for the
  next window, the batch handed to the writer, and what the writer tells the index.  The loop and the writer are
  two goroutines; the writer's turn is two steps, the call of nft and what it reports.  Every step of either is an
  event, and the order of the events is arbitrary; panics, the log and the page with the state are left out.
\<close>

definition TamanhoDaFila :: nat where "TamanhoDaFila = 256"
definition MaxTentativasDeRemocao :: nat where "MaxTentativasDeRemocao = 2"

record remocao_pend =
  rp_rem :: remocao
  rp_tentativas :: nat

type_synonym chave_pend = "ip \<times> capacidade"

record lote_em_voo =
  lv_lote :: lote
  lv_adicoes :: "ip list"
  lv_remocoes :: "(ip \<times> remocao_pend) list"

record servico =
  sv_idx :: indice
  sv_fila :: "(string \<times> ip list \<times> int) list"
  sv_retrato :: "(string \<times> alvo) list"
  sv_emVoo :: "ajuste list"
  sv_ajustesPend :: "ajuste list"
  sv_paraEscrever :: "lote_em_voo list"
  sv_devolvidas :: "remocao_pend list list"
  sv_pendEscritas :: "(chave_pend \<times> escrita) list"
  sv_pendRemocoes :: "(chave_pend \<times> remocao_pend) list"
  sv_descartes :: nat
  sv_ignoradas :: nat
  sv_errosDeLote :: nat
  sv_reenvios :: nat
  sv_remocoesDesistidas :: nat

definition NovoServico :: servico where
  "NovoServico = \<lparr>sv_idx = NovoIndice, sv_fila = [], sv_retrato = [], sv_emVoo = [], sv_ajustesPend = [], sv_paraEscrever = [],
     sv_devolvidas = [], sv_pendEscritas = [], sv_pendRemocoes = [], sv_descartes = 0, sv_ignoradas = 0,
     sv_errosDeLote = 0, sv_reenvios = 0, sv_remocoesDesistidas = 0\<rparr>"

subsection \<open>From an answer to what waits\<close>

text \<open>\<open>Observar\<close> runs in the loop that reads dnstap: it never blocks, and drops what does not fit.\<close>

definition Observar :: "string \<Rightarrow> ip list \<Rightarrow> int \<Rightarrow> servico \<Rightarrow> servico" where
  "Observar nome addrs ttl s =
     (if nome = [] \<or> length addrs = 0 then s
      else if length (sv_retrato s) = 0 then s
      else if CasarEm (sv_retrato s) nome = None then s\<lparr>sv_ignoradas := sv_ignoradas s + 1\<rparr>
      else if length (sv_fila s) < TamanhoDaFila then s\<lparr>sv_fila := sv_fila s @ [(nome, addrs, ttl)]\<rparr>
      else s\<lparr>sv_descartes := sv_descartes s + 1\<rparr>)"

definition AjusteVazio :: "ajuste \<Rightarrow> bool" where
  "AjusteVazio aj \<longleftrightarrow> length (aj_Escritas aj) = 0 \<and> length (aj_Remocoes aj) = 0"

text \<open>
  \<open>DefinirAlvos\<close> in its critical sections: the index under its lock, the list published for \<open>Observar\<close>, and the
  change handed to the loop under \<open>mu\<close>.  \<open>sv_emVoo\<close> is what such a call still holds in its hands.
\<close>

definition listarNoIndice :: "int \<Rightarrow> alvo list \<Rightarrow> servico \<Rightarrow> servico" where
  "listarNoIndice agora alvos s =
     (case DefinirAlvos agora alvos (sv_idx s) of (aj, i) \<Rightarrow> s\<lparr>sv_idx := i, sv_emVoo := sv_emVoo s @ [aj]\<rparr>)"

definition publicarRetrato :: "servico \<Rightarrow> servico" where
  "publicarRetrato s = s\<lparr>sv_retrato := ix_alvos (sv_idx s)\<rparr>"

definition entregarAjuste :: "nat \<Rightarrow> servico \<Rightarrow> servico" where
  "entregarAjuste n s =
     (if n < length (sv_emVoo s) then
        let aj = sv_emVoo s ! n; s1 = s\<lparr>sv_emVoo := take n (sv_emVoo s) @ drop (n + 1) (sv_emVoo s)\<rparr> in
        if AjusteVazio aj then s1 else s1\<lparr>sv_ajustesPend := sv_ajustesPend s1 @ [aj]\<rparr>
      else s)"

definition acumular_remocao :: "remocao \<Rightarrow> (chave_pend \<times> remocao_pend) list \<Rightarrow> (chave_pend \<times> remocao_pend) list" where
  "acumular_remocao r m =
     (let k = (rm_Addr r, rm_Capacidade r);
          p = (case map_of m k of None \<Rightarrow> \<lparr>rp_rem = r, rp_tentativas = 0\<rparr> | Some p \<Rightarrow> p) in
      AList.update k (p\<lparr>rp_rem := r\<rparr>) m)"

definition acumular :: "ajuste \<Rightarrow> servico \<Rightarrow> servico" where
  "acumular aj s = s\<lparr>
     sv_pendRemocoes := fold acumular_remocao (aj_Remocoes aj) (sv_pendRemocoes s),
     sv_pendEscritas := fold (\<lambda>e. AList.update (es_Addr e, es_Capacidade e) e) (aj_Escritas aj) (sv_pendEscritas s)\<rparr>"

definition absorver :: "int \<Rightarrow> string \<times> ip list \<times> int \<Rightarrow> servico \<Rightarrow> servico" where
  "absorver agora ob s =
     (case ob of (nome, addrs, ttl) \<Rightarrow>
      case Aprender agora nome addrs ttl (sv_idx s) of (aj, i) \<Rightarrow> acumular aj (s\<lparr>sv_idx := i\<rparr>))"

definition drenarAjustes :: "servico \<Rightarrow> servico" where
  "drenarAjustes s = fold acumular (sv_ajustesPend s) (s\<lparr>sv_ajustesPend := []\<rparr>)"

definition recolocar_um :: "remocao_pend \<Rightarrow> servico \<Rightarrow> servico" where
  "recolocar_um p s =
     (let k = (rm_Addr (rp_rem p), rm_Capacidade (rp_rem p)); p' = p\<lparr>rp_tentativas := rp_tentativas p + 1\<rparr> in
      if rp_tentativas p' \<ge> MaxTentativasDeRemocao then
        s\<lparr>sv_remocoesDesistidas := sv_remocoesDesistidas s + 1, sv_pendRemocoes := AList.delete k (sv_pendRemocoes s)\<rparr>
      else s\<lparr>sv_pendRemocoes := AList.update k p' (sv_pendRemocoes s)\<rparr>)"

definition recolocarRemocoes :: "remocao_pend list \<Rightarrow> servico \<Rightarrow> servico" where
  "recolocarRemocoes ps s = fold recolocar_um ps s"

subsection \<open>The batch\<close>

text \<open>The order of \<open>Capacidade\<close> is that of its texts.\<close>

fun cap_ordem :: "capacidade \<Rightarrow> nat" where
  "cap_ordem NoCap = 0"
| "cap_ordem Barrar = 1"
| "cap_ordem Direcionar = 2"

definition ordenarEscritas :: "(chave_pend \<times> escrita) list \<Rightarrow> escrita list" where
  "ordenarEscritas m = sort_key (\<lambda>e. (es_Addr e, cap_ordem (es_Capacidade e))) (map snd m)"

definition ordenarRemocoes :: "(chave_pend \<times> remocao_pend) list \<Rightarrow> remocao list" where
  "ordenarRemocoes m = sort_key (\<lambda>r. (rm_Addr r, cap_ordem (rm_Capacidade r))) (map (rp_rem \<circ> snd) m)"

definition ordenarAddrs :: "ip list \<Rightarrow> ip list" where
  "ordenarAddrs as = sort (remdups as)"

text \<open>In which structure an address of a capacity lives; to route an address of IPv6 there is none.\<close>

definition estrutura_de :: "ip \<Rightarrow> capacidade \<Rightarrow> estrutura option" where
  "estrutura_de a c =
     (if c = Direcionar then if Is4 a then Some DomWanMap else None
      else if Is4 a then Some DomBlockedSet else Some DomBlockedSet6)"

definition marcadas :: "estrutura \<Rightarrow> escrita list \<Rightarrow> remocao list \<Rightarrow> ip list" where
  "marcadas e escritas remocoes =
     map rm_Addr (filter (\<lambda>r. estrutura_de (rm_Addr r) (rm_Capacidade r) = Some e) remocoes)
     @ map es_Addr (filter (\<lambda>w. es_Substituir w \<and> estrutura_de (es_Addr w) (es_Capacidade w) = Some e) escritas)"

definition entradas :: "estrutura \<Rightarrow> escrita list \<Rightarrow> entrada list" where
  "entradas e escritas =
     map (\<lambda>w. \<lparr>en_Addr = es_Addr w, en_Prazo = es_Prazo w, en_Marca = es_Marca w\<rparr>)
       (filter (\<lambda>w. estrutura_de (es_Addr w) (es_Capacidade w) = Some e) escritas)"

definition montarLote :: "escrita list \<Rightarrow> remocao list \<Rightarrow> lote" where
  "montarLote escritas remocoes =
     \<lparr>lt_RemoverBloq = ordenarAddrs (marcadas DomBlockedSet escritas remocoes),
      lt_RemoverBloq6 = ordenarAddrs (marcadas DomBlockedSet6 escritas remocoes),
      lt_RemoverWan = ordenarAddrs (marcadas DomWanMap escritas remocoes),
      lt_AdicionarBloq = entradas DomBlockedSet escritas,
      lt_AdicionarBloq6 = entradas DomBlockedSet6 escritas,
      lt_AdicionarWan = entradas DomWanMap escritas\<rparr>"

definition adicoesDoLote :: "lote \<Rightarrow> ip list" where
  "adicoesDoLote l = map en_Addr (lt_AdicionarBloq l @ lt_AdicionarBloq6 l @ lt_AdicionarWan l)"

text \<open>The writer's channel holds one batch; when it is taken everything stays pending.\<close>

definition descarregar :: "servico \<Rightarrow> servico" where
  "descarregar s =
     (if sv_pendEscritas s = [] \<and> sv_pendRemocoes s = [] then s
      else
        let l = montarLote (ordenarEscritas (sv_pendEscritas s)) (ordenarRemocoes (sv_pendRemocoes s)) in
        if LoteVazio l then s\<lparr>sv_pendEscritas := [], sv_pendRemocoes := []\<rparr>
        else
          let v = \<lparr>lv_lote = l, lv_adicoes = adicoesDoLote l,
                   lv_remocoes = fold (\<lambda>(_, p). AList.update (rm_Addr (rp_rem p)) p) (sv_pendRemocoes s) []\<rparr> in
          if length (sv_paraEscrever s) < 1 then
            s\<lparr>sv_paraEscrever := sv_paraEscrever s @ [v], sv_pendEscritas := [], sv_pendRemocoes := []\<rparr>
          else s)"

subsection \<open>The writer\<close>

definition todasRemocoes :: "lote_em_voo \<Rightarrow> remocao_pend list" where
  "todasRemocoes v = map snd (lv_remocoes v)"

definition remocoesDe :: "lote_em_voo \<Rightarrow> ip list \<Rightarrow> remocao_pend list" where
  "remocoesDe v addrs = List.map_filter (map_of (lv_remocoes v)) addrs"

definition devolver :: "remocao_pend list \<Rightarrow> servico \<Rightarrow> servico" where
  "devolver rs s =
     (if length rs = 0 then s
      else if length (sv_devolvidas s) < 8 then s\<lparr>sv_devolvidas := sv_devolvidas s @ [rs]\<rparr>
      else s\<lparr>sv_remocoesDesistidas := sv_remocoesDesistidas s + length rs\<rparr>)"

definition exceto :: "ip list \<Rightarrow> ip list \<Rightarrow> ip list" where
  "exceto todos fora = (if length fora = 0 then todos else filter (\<lambda>a. a \<notin> set fora) todos)"

text \<open>What \<open>aplicar\<close> does once nft has answered.\<close>

definition relatar :: "int \<Rightarrow> lote_em_voo \<Rightarrow> resultado_lote \<times> bool \<Rightarrow> servico \<Rightarrow> servico" where
  "relatar agora v resp s =
     (case resp of (res, erro) \<Rightarrow>
        if erro then
          devolver (todasRemocoes v)
            (s\<lparr>sv_errosDeLote := sv_errosDeLote s + 1, sv_idx := fst (NaoConfirmado (lv_adicoes v) (sv_idx s))\<rparr>)
        else if Completo res then s\<lparr>sv_idx := Confirmar agora (lv_adicoes v) (sv_idx s)\<rparr>
        else
          devolver (remocoesDe v (rl_RemocoesPerdidas res))
            (s\<lparr>sv_reenvios := sv_reenvios s + 1,
               sv_idx := Confirmar agora (exceto (lv_adicoes v) (rl_NaoConfirmados res))
                 (fst (NaoConfirmado (rl_NaoConfirmados res) (sv_idx s)))\<rparr>))"

text \<open>The whole: the feeder, the batch nft has answered and the writer has not reported, and the kernel.\<close>

record caixa =
  cx_s :: servico
  cx_resposta :: "(lote_em_voo \<times> resultado_lote \<times> bool) option"
  cx_kernel :: elementos

definition caixa_nova :: caixa where
  "caixa_nova = \<lparr>cx_s = NovoServico, cx_resposta = None, cx_kernel = sem_elementos\<rparr>"

datatype evento =
    Resposta string "ip list" int
  | NovaLista int "alvo list"
  | Publicar
  | Entregar nat
  | Proprios "ip_prefix list"
  | Fila int
  | Acordar
  | Devolvidas
  | Janela
  | TickPoda int
  | Escrever "nat \<Rightarrow> bool" int
  | Relatar int

text \<open>
  One step of one of the goroutines.  \<open>aplicar\<close> is \<open>Escrever\<close> followed by \<open>Relatar\<close>, and \<open>DefinirAlvos\<close> is \<open>NovaLista\<close>,
  \<open>Publicar\<close> and \<open>Entregar\<close>.
\<close>

fun passo :: "evento \<Rightarrow> caixa \<Rightarrow> caixa" where
  "passo (Resposta nome addrs ttl) c = c\<lparr>cx_s := Observar nome addrs ttl (cx_s c)\<rparr>"
| "passo (NovaLista agora alvos) c = c\<lparr>cx_s := listarNoIndice agora alvos (cx_s c)\<rparr>"
| "passo Publicar c = c\<lparr>cx_s := publicarRetrato (cx_s c)\<rparr>"
| "passo (Entregar n) c = c\<lparr>cx_s := entregarAjuste n (cx_s c)\<rparr>"
| "passo (Proprios ps) c = c\<lparr>cx_s := (cx_s c)\<lparr>sv_idx := DefinirProtegidos ps (sv_idx (cx_s c))\<rparr>\<rparr>"
| "passo (Fila agora) c =
     (case sv_fila (cx_s c) of [] \<Rightarrow> c | ob # obs \<Rightarrow> c\<lparr>cx_s := absorver agora ob ((cx_s c)\<lparr>sv_fila := obs\<rparr>)\<rparr>)"
| "passo Acordar c = c\<lparr>cx_s := drenarAjustes (cx_s c)\<rparr>"
| "passo Devolvidas c =
     (case sv_devolvidas (cx_s c) of [] \<Rightarrow> c | ps # pss \<Rightarrow> c\<lparr>cx_s := recolocarRemocoes ps ((cx_s c)\<lparr>sv_devolvidas := pss\<rparr>)\<rparr>)"
| "passo Janela c = c\<lparr>cx_s := descarregar (cx_s c)\<rparr>"
| "passo (TickPoda agora) c = c\<lparr>cx_s := (cx_s c)\<lparr>sv_idx := fst (Podar agora (sv_idx (cx_s c)))\<rparr>\<rparr>"
| "passo (Escrever recusa agora) c =
     (case (cx_resposta c, sv_paraEscrever (cx_s c)) of
        (None, v # vs) \<Rightarrow>
          (case AplicarLote False recusa agora (lv_lote v) (cx_kernel c) of
             (res, erro, k) \<Rightarrow> c\<lparr>cx_s := (cx_s c)\<lparr>sv_paraEscrever := vs\<rparr>, cx_resposta := Some (v, res, erro), cx_kernel := k\<rparr>)
      | _ \<Rightarrow> c)"
| "passo (Relatar agora) c =
     (case cx_resposta c of
        None \<Rightarrow> c
      | Some (v, resp) \<Rightarrow> c\<lparr>cx_s := relatar agora v resp (cx_s c), cx_resposta := None\<rparr>)"

definition rodar :: "evento list \<Rightarrow> caixa \<Rightarrow> caixa" where
  "rodar evs c = fold passo evs c"

end
