(* ===== verification/DomainFeedSafe.thy ===== *)
theory DomainFeedSafe
  imports DomainFeed
begin

text \<open>
  The invariant of the feeder and of the kernel's three structures, over every order of the events of its goroutines.
\<close>

subsection \<open>The invariant\<close>

definition write_ok :: "escrita \<Rightarrow> bool" where
  "write_ok e \<longleftrightarrow> Utilizavel (es_Addr e) \<and> prazo_ok (es_Prazo e) \<and> podeEntrar (es_Addr e) (es_Capacidade e) \<and> es_Capacidade e \<noteq> NoCap"

lemma writes_ok_alt: "writes_ok Utilizavel aj \<longleftrightarrow> list_all write_ok (aj_Escritas aj) \<and> list_all (\<lambda>r. Utilizavel (rm_Addr r)) (aj_Remocoes aj)"
  by (simp add: writes_ok_def write_ok_def [abs_def])

definition removal_ok :: "remocao_pend \<Rightarrow> bool" where
  "removal_ok p \<longleftrightarrow> Utilizavel (rm_Addr (rp_rem p)) \<and> rp_tentativas p < MaxTentativasDeRemocao"

definition pend_e_ok :: "(chave_pend \<times> escrita) list \<Rightarrow> bool" where
  "pend_e_ok m \<longleftrightarrow> distinct (map fst m) \<and> list_all (\<lambda>(k, e). k = (es_Addr e, es_Capacidade e) \<and> write_ok e) m"

definition pend_r_ok :: "(chave_pend \<times> remocao_pend) list \<Rightarrow> bool" where
  "pend_r_ok m \<longleftrightarrow> list_all (\<lambda>(k, p). removal_ok p) m"

text \<open>An element of a structure: an address that may become a rule, of the family of the structure.\<close>

definition elemento_ok :: "estrutura \<Rightarrow> ip \<Rightarrow> bool" where
  "elemento_ok e a \<longleftrightarrow> Utilizavel a \<and> (e = DomBlockedSet6 \<longleftrightarrow> \<not> Is4 a)"

definition voo_ok :: "lote_em_voo \<Rightarrow> bool" where
  "voo_ok v \<longleftrightarrow> lote_ok (lv_lote v) \<and> (\<forall>e. list_all (\<lambda>en. elemento_ok e (en_Addr en)) (adicionar_de (lv_lote v) e))
     \<and> list_all (\<lambda>(_, p). removal_ok p) (lv_remocoes v)"

definition feed_ok :: "servico \<Rightarrow> bool" where
  "feed_ok s \<longleftrightarrow> index_ok (sv_idx s) \<and> list_all (writes_ok Utilizavel) (sv_emVoo s) \<and> list_all (writes_ok Utilizavel) (sv_ajustesPend s)
     \<and> pend_e_ok (sv_pendEscritas s) \<and> pend_r_ok (sv_pendRemocoes s) \<and> list_all voo_ok (sv_paraEscrever s)
     \<and> list_all (list_all removal_ok) (sv_devolvidas s)
     \<and> length (sv_fila s) \<le> TamanhoDaFila \<and> length (sv_paraEscrever s) \<le> 1 \<and> length (sv_devolvidas s) \<le> 8"

definition caixa_ok :: "caixa \<Rightarrow> bool" where
  "caixa_ok c \<longleftrightarrow> feed_ok (cx_s c) \<and> (case cx_resposta c of None \<Rightarrow> True | Some (v, _) \<Rightarrow> voo_ok v)
     \<and> (\<forall>e a. cx_kernel c e a \<noteq> None \<longrightarrow> elemento_ok e a)"

subsection \<open>What waits\<close>

lemma update_set: "x \<in> set (AList.update k v al) \<Longrightarrow> x = (k, v) \<or> x \<in> set al"
  by (rule set_update_alist)

lemma pend_r_update: "pend_r_ok m \<Longrightarrow> removal_ok p \<Longrightarrow> pend_r_ok (AList.update k p m)"
  by (auto simp: pend_r_ok_def list_all_iff dest!: update_set)

lemma pend_r_delete: "pend_r_ok m \<Longrightarrow> pend_r_ok (AList.delete k m)"
  by (auto simp: pend_r_ok_def list_all_iff AList.delete_eq)

lemma pend_r_lookup: "pend_r_ok m \<Longrightarrow> map_of m k = Some p \<Longrightarrow> removal_ok p"
  by (auto simp: pend_r_ok_def list_all_iff dest: map_of_SomeD)

lemma acumular_remocao_ok:
  assumes "pend_r_ok m" "Utilizavel (rm_Addr r)"
  shows "pend_r_ok (acumular_remocao r m)"
proof (cases "map_of m (rm_Addr r, rm_Capacidade r)")
  case None
  with assms show ?thesis
    by (simp add: acumular_remocao_def Let_def pend_r_update removal_ok_def MaxTentativasDeRemocao_def)
next
  case (Some p)
  with pend_r_lookup [OF assms(1) Some] assms show ?thesis
    by (simp add: acumular_remocao_def Let_def pend_r_update removal_ok_def)
qed

lemma acumular_ok:
  assumes "feed_ok s" "writes_ok Utilizavel aj"
  shows "feed_ok (acumular aj s)"
proof -
  have "pend_r_ok (fold acumular_remocao (aj_Remocoes aj) (sv_pendRemocoes s))"
    by (rule fold_invariant [where Q = "\<lambda>r. Utilizavel (rm_Addr r)"])
      (use assms in \<open>auto simp: writes_ok_def list_all_iff feed_ok_def acumular_remocao_ok\<close>)
  moreover have "pend_e_ok (fold (\<lambda>e. AList.update (es_Addr e, es_Capacidade e) e) (aj_Escritas aj) (sv_pendEscritas s))"
  proof (rule fold_invariant [where Q = write_ok])
    fix e m assume "write_ok e" "pend_e_ok m"
    then show "pend_e_ok (AList.update (es_Addr e, es_Capacidade e) e m)"
      by (auto simp: pend_e_ok_def distinct_update list_all_iff dest!: update_set)
  qed (use assms in \<open>auto simp: writes_ok_alt list_all_iff feed_ok_def\<close>)
  ultimately show ?thesis using assms(1) by (simp add: feed_ok_def acumular_def)
qed

lemma drenar_ok: "feed_ok s \<Longrightarrow> feed_ok (drenarAjustes s)"
  unfolding drenarAjustes_def
  by (rule fold_invariant [where Q = "writes_ok Utilizavel"]) (simp_all add: acumular_ok, simp_all add: feed_ok_def list_all_iff)

lemma absorver_ok:
  assumes "feed_ok s"
  shows "feed_ok (absorver agora ob s)"
proof -
  obtain nome addrs ttl where ob: "ob = (nome, addrs, ttl)" by (cases ob) auto
  obtain aj i where A: "Aprender agora nome addrs ttl (sv_idx s) = (aj, i)" by fastforce
  have ok: "index_ok i \<and> writes_ok (allowed (sv_idx s)) aj \<and> ix_alvos i = ix_alvos (sv_idx s)"
    using ensina_ok [OF _ A] assms by (simp add: feed_ok_def)
  then have "writes_ok Utilizavel aj" by (auto simp: writes_ok_def allowed_def list_all_iff)
  moreover have "feed_ok (s\<lparr>sv_idx := i\<rparr>)" using assms ok by (simp add: feed_ok_def)
  ultimately show ?thesis by (simp add: absorver_def ob A acumular_ok)
qed

lemma recolocar_um_ok: "feed_ok s \<Longrightarrow> removal_ok p \<Longrightarrow> feed_ok (recolocar_um p s)"
  by (auto simp: recolocar_um_def Let_def feed_ok_def removal_ok_def intro!: pend_r_update pend_r_delete)

lemma recolocar_ok: "feed_ok s \<Longrightarrow> list_all removal_ok ps \<Longrightarrow> feed_ok (recolocarRemocoes ps s)"
  unfolding recolocarRemocoes_def
  by (rule fold_invariant [where Q = removal_ok]) (auto simp: list_all_iff recolocar_um_ok)

lemma Observar_ok: "feed_ok s \<Longrightarrow> feed_ok (Observar nome addrs ttl s)"
  by (auto simp: Observar_def feed_ok_def)

lemma listarNoIndice_ok:
  assumes "feed_ok s"
  shows "feed_ok (listarNoIndice agora alvos s)"
proof -
  obtain aj i where A: "DefinirAlvos agora alvos (sv_idx s) = (aj, i)" by fastforce
  show ?thesis
    using DefinirAlvos_ok [OF _ A] assms by (auto simp: listarNoIndice_def A feed_ok_def index_core)
qed

lemma publicarRetrato_ok: "feed_ok s \<Longrightarrow> feed_ok (publicarRetrato s)"
  by (simp add: publicarRetrato_def feed_ok_def)

lemma entregarAjuste_ok: "feed_ok s \<Longrightarrow> feed_ok (entregarAjuste n s)"
  by (auto simp: entregarAjuste_def Let_def feed_ok_def list_all_iff dest: in_set_takeD in_set_dropD)

subsection \<open>The batch\<close>

lemma ordenarAddrs_simps [simp]: "set (ordenarAddrs as) = set as" "distinct (ordenarAddrs as)"
  by (simp_all add: ordenarAddrs_def)

lemma remover_de_montar: "remover_de (montarLote es rs) e = ordenarAddrs (marcadas e es rs)"
  by (cases e) (simp_all add: montarLote_def remover_de_def)

lemma adicionar_de_montar: "adicionar_de (montarLote es rs) e = entradas e es"
  by (cases e) (simp_all add: montarLote_def adicionar_de_def)

lemma entradas_addr: "map en_Addr (entradas e es) = map es_Addr (filter (\<lambda>w. estrutura_de (es_Addr w) (es_Capacidade w) = Some e) es)"
  by (simp add: entradas_def comp_def)

lemma estrutura_de_elemento: "Utilizavel a \<Longrightarrow> estrutura_de a c = Some e \<Longrightarrow> elemento_ok e a"
  by (auto simp: estrutura_de_def elemento_ok_def split: if_splits)

lemma estrutura_de_cap:
  "estrutura_de a c = Some e \<Longrightarrow> estrutura_de a c' = Some e \<Longrightarrow> c \<noteq> NoCap \<Longrightarrow> c' \<noteq> NoCap \<Longrightarrow> c = c'"
  by (cases c; cases c') (auto simp: estrutura_de_def split: if_splits)

lemma not_usable_NoAddr: "\<not> Utilizavel NoAddr"
  by (simp add: Utilizavel_def)

lemma distinct_entradas:
  assumes "distinct (map (\<lambda>w. (es_Addr w, es_Capacidade w)) es)" "list_all write_ok es"
  shows "distinct (map en_Addr (entradas e es))"
  unfolding entradas_addr using assms
proof (induction es)
  case (Cons w es)
  have "es_Addr w \<notin> es_Addr ` {x \<in> set es. estrutura_de (es_Addr x) (es_Capacidade x) = Some e}"
    if "estrutura_de (es_Addr w) (es_Capacidade w) = Some e"
  proof
    assume "es_Addr w \<in> es_Addr ` {x \<in> set es. estrutura_de (es_Addr x) (es_Capacidade x) = Some e}"
    then obtain x where x: "x \<in> set es" "es_Addr w = es_Addr x" "estrutura_de (es_Addr x) (es_Capacidade x) = Some e" by blast
    then have "es_Capacidade w = es_Capacidade x"
      using estrutura_de_cap [of "es_Addr w" "es_Capacidade w" e "es_Capacidade x"] that Cons.prems(2)
      by (auto simp: list_all_iff write_ok_def)
    with x Cons.prems(1) show False by (auto simp: image_iff)
  qed
  with Cons show ?case by simp
qed simp

lemma montarLote_ok:
  assumes "distinct (map (\<lambda>w. (es_Addr w, es_Capacidade w)) es)" "list_all write_ok es" "list_all (\<lambda>r. Utilizavel (rm_Addr r)) rs"
  shows "lote_ok (montarLote es rs)" "list_all (\<lambda>en. elemento_ok e (en_Addr en)) (adicionar_de (montarLote es rs) e)"
proof -
  have u: "Utilizavel (es_Addr w)" if "w \<in> set es" for w using assms(2) that by (auto simp: list_all_iff write_ok_def)
  have "NoAddr \<notin> set (marcadas e es rs)" for e
    using u assms(3) not_usable_NoAddr by (auto simp: marcadas_def list_all_iff) metis+
  moreover have "NoAddr \<notin> set (map en_Addr (entradas e es))" for e
    unfolding entradas_addr using u not_usable_NoAddr by auto metis
  ultimately show "lote_ok (montarLote es rs)"
    using distinct_entradas [OF assms(1,2)] unfolding lote_ok_def list_all_iff remover_de_montar adicionar_de_montar
    by simp
  show "list_all (\<lambda>en. elemento_ok e (en_Addr en)) (adicionar_de (montarLote es rs) e)"
    unfolding adicionar_de_montar using u by (auto simp: entradas_def list_all_iff intro: estrutura_de_elemento)
qed

lemma descarregar_ok:
  assumes "feed_ok s"
  shows "feed_ok (descarregar s)"
proof -
  let ?es = "ordenarEscritas (sv_pendEscritas s)" and ?rs = "ordenarRemocoes (sv_pendRemocoes s)"
  have pe: "pend_e_ok (sv_pendEscritas s)" and pr: "pend_r_ok (sv_pendRemocoes s)" using assms by (simp_all add: feed_ok_def)
  have "map fst (sv_pendEscritas s) = map (\<lambda>w. (es_Addr w, es_Capacidade w)) (map snd (sv_pendEscritas s))"
    using pe by (auto simp: pend_e_ok_def list_all_iff)
  then have "distinct (map (\<lambda>w. (es_Addr w, es_Capacidade w)) (map snd (sv_pendEscritas s)))"
    using pe unfolding pend_e_ok_def by metis
  moreover have "mset ?es = mset (map snd (sv_pendEscritas s))" by (simp add: ordenarEscritas_def)
  ultimately have d: "distinct (map (\<lambda>w. (es_Addr w, es_Capacidade w)) ?es)"
    by (metis mset_map mset_eq_imp_distinct_iff)
  have w: "list_all write_ok ?es" using pe by (auto simp: ordenarEscritas_def pend_e_ok_def list_all_iff)
  have r: "list_all (\<lambda>r. Utilizavel (rm_Addr r)) ?rs"
    using pr by (auto simp: ordenarRemocoes_def pend_r_ok_def list_all_iff removal_ok_def)
  have "pend_r_ok (map (\<lambda>(a, p). ((a, NoCap), p)) (fold (\<lambda>(_, p). AList.update (rm_Addr (rp_rem p)) p) (sv_pendRemocoes s) []))"
    by (rule fold_invariant [where Q = "\<lambda>(_, p). removal_ok p"])
      (use pr in \<open>auto simp: pend_r_ok_def list_all_iff dest!: update_set\<close>)
  then have "list_all (\<lambda>(_, p). removal_ok p) (fold (\<lambda>(_, p). AList.update (rm_Addr (rp_rem p)) p) (sv_pendRemocoes s) [])"
    by (auto simp: pend_r_ok_def list_all_iff)
  with montarLote_ok [OF d w r] assms show ?thesis
    by (auto simp: descarregar_def Let_def feed_ok_def voo_ok_def pend_e_ok_def pend_r_ok_def)
qed

subsection \<open>The writer\<close>

lemma devolver_ok: "feed_ok s \<Longrightarrow> list_all removal_ok rs \<Longrightarrow> feed_ok (devolver rs s)"
  by (auto simp: devolver_def feed_ok_def)

lemma feed_ok_idx: "feed_ok s \<Longrightarrow> index_ok i \<Longrightarrow> ix_alvos i = ix_alvos (sv_idx s) \<Longrightarrow> feed_ok (s\<lparr>sv_idx := i\<rparr>)"
  by (simp add: feed_ok_def)

lemma feed_ok_counters [simp]:
  "feed_ok (s\<lparr>sv_errosDeLote := n\<rparr>) = feed_ok s"
  "feed_ok (s\<lparr>sv_reenvios := n\<rparr>) = feed_ok s"
  by (simp_all add: feed_ok_def)

lemma alvos_confirmar [simp]: "ix_alvos (Confirmar agora as i) = ix_alvos i"
  unfolding Confirmar_def
  by (rule fold_invariant [where Q = "\<lambda>_. True" and P = "\<lambda>j. ix_alvos j = ix_alvos i"]) (auto simp: confirmar_um_def split: option.split)

lemma alvos_nao_confirmado [simp]: "ix_alvos (fst (NaoConfirmado as i)) = ix_alvos i"
  unfolding NaoConfirmado_def
  by (rule fold_invariant [where Q = "\<lambda>_. True" and P = "\<lambda>j. ix_alvos (fst j) = ix_alvos i"])
    (auto simp: nao_confirmado_um_def split: option.split)

lemma alvos_podar [simp]: "ix_alvos (fst (Podar agora i)) = ix_alvos i"
proof -
  define st where "st = fold (podar_um (agora - FolgaDePoda)) (map fst (ix_ends i)) (i, 0)"
  have "ix_alvos (fst st) = ix_alvos i"
    unfolding st_def
    by (rule fold_invariant [where Q = "\<lambda>_. True" and P = "\<lambda>j. ix_alvos (fst j) = ix_alvos i"])
      (auto simp: podar_um_def split: option.split)
  then show ?thesis by (cases st) (simp add: Podar_def Let_def st_def [symmetric])
qed

lemma relatar_ok:
  assumes "feed_ok s" "voo_ok v"
  shows "feed_ok (relatar agora v resp s)"
proof -
  have ok: "index_ok (sv_idx s)" using assms(1) by (simp add: feed_ok_def)
  have "removal_ok p" if "map_of (lv_remocoes v) a = Some p" for a p
    using map_of_SomeD [OF that] assms(2) by (auto simp: voo_ok_def list_all_iff)
  then have "list_all removal_ok (todasRemocoes v)" "list_all removal_ok (remocoesDe v as)" for as
    using assms(2) by (auto simp: voo_ok_def todasRemocoes_def remocoesDe_def list_all_iff map_filter_def)
  with assms(1) ok show ?thesis
    by (auto simp: relatar_def intro!: devolver_ok feed_ok_idx Confirmar_ok NaoConfirmado_ok split: prod.split)
qed

lemma kernel_step:
  assumes "voo_ok v" "AplicarLote False recusa agora (lv_lote v) k = (res, erro, k')" "\<And>e a. k e a \<noteq> None \<Longrightarrow> elemento_ok e a"
    and "k' e a \<noteq> None"
  shows "elemento_ok e a"
proof -
  let ?l = "lv_lote v"
  have "elemento_ok e a" if "entrada_de ?l e a = Some en" for en
  proof -
    have "(a, en) \<in> set (map (\<lambda>en. (en_Addr en, en)) (adicionar_de ?l e))"
      using that unfolding entrada_de_def by (rule map_of_SomeD)
    with assms(1) show ?thesis by (auto simp: voo_ok_def list_all_iff)
  qed
  moreover have "k' = (if erro then k else if rl_Reenviado res then so_novos agora ?l k else feito agora ?l k)"
    by (rule batch_effect [OF _ assms(2)]) (use assms(1) in \<open>simp add: voo_ok_def\<close>)
  ultimately show ?thesis
    using assms(3,4) by (auto simp: so_novos_def feito_def split: if_splits option.splits)
qed

lemma passo_ok:
  assumes c: "caixa_ok c"
  shows "caixa_ok (passo ev c)"
proof -
  have f: "feed_ok (cx_s c)" using c by (simp add: caixa_ok_def)
  have s: "caixa_ok (c\<lparr>cx_s := s\<rparr>)" if "feed_ok s" for s using c that by (simp add: caixa_ok_def)
  show ?thesis
  proof (cases ev)
    case (Proprios ps)
    have "feed_ok ((cx_s c)\<lparr>sv_idx := DefinirProtegidos ps (sv_idx (cx_s c))\<rparr>)"
      using f DefinirProtegidos_ok [of "sv_idx (cx_s c)" ps]
      by (intro feed_ok_idx) (simp_all add: feed_ok_def DefinirProtegidos_def)
    with Proprios s show ?thesis by simp
  next
    case (Fila agora)
    have "feed_ok ((cx_s c)\<lparr>sv_fila := obs\<rparr>)" if "sv_fila (cx_s c) = ob # obs" for ob obs
      using f that by (simp add: feed_ok_def)
    with Fila s c absorver_ok show ?thesis by (auto split: list.split)
  next
    case Devolvidas
    have "feed_ok ((cx_s c)\<lparr>sv_devolvidas := pss\<rparr>) \<and> list_all removal_ok ps" if "sv_devolvidas (cx_s c) = ps # pss" for ps pss
      using f that by (simp add: feed_ok_def)
    with Devolvidas s c recolocar_ok show ?thesis by (auto split: list.split)
  next
    case (TickPoda agora)
    have "feed_ok ((cx_s c)\<lparr>sv_idx := fst (Podar agora (sv_idx (cx_s c)))\<rparr>)"
      using f by (intro feed_ok_idx Podar_ok) (simp_all add: feed_ok_def)
    with TickPoda s show ?thesis by simp
  next
    case (Escrever recusa agora)
    show ?thesis
    proof (cases "cx_resposta c = None \<and> sv_paraEscrever (cx_s c) \<noteq> []")
      case False
      with Escrever c show ?thesis by (auto split: option.split list.split)
    next
      case True
      then obtain v vs where vs: "sv_paraEscrever (cx_s c) = v # vs" by (auto simp: neq_Nil_conv)
      obtain res erro k where A: "AplicarLote False recusa agora (lv_lote v) (cx_kernel c) = (res, erro, k)"
        by (cases "AplicarLote False recusa agora (lv_lote v) (cx_kernel c)") auto
      have v: "voo_ok v" and f': "feed_ok ((cx_s c)\<lparr>sv_paraEscrever := vs\<rparr>)"
        using f vs by (simp_all add: feed_ok_def)
      have "elemento_ok e a" if "k e a \<noteq> None" for e a
        by (rule kernel_step [OF v A _ that]) (use c in \<open>simp add: caixa_ok_def\<close>)
      with True vs A v f' Escrever show ?thesis by (simp add: caixa_ok_def)
    qed
  next
    case (Relatar agora)
    with c f show ?thesis
      by (auto simp: caixa_ok_def relatar_ok split: option.split)
  qed (use s f in \<open>auto simp: Observar_ok listarNoIndice_ok publicarRetrato_ok entregarAjuste_ok drenar_ok descarregar_ok\<close>)
qed

lemma rodar_ok: "caixa_ok (rodar evs caixa_nova)"
proof -
  have "caixa_ok caixa_nova"
    using NovoIndice_ok
    by (simp add: caixa_ok_def caixa_nova_def feed_ok_def NovoServico_def sem_elementos_def pend_e_ok_def pend_r_ok_def NovoIndice_def)
  then show ?thesis
    unfolding rodar_def by (intro fold_invariant [where Q = "\<lambda>_. True" and P = caixa_ok]) (auto simp: passo_ok)
qed

end
