(* ===== verification/DomainGuarantees.thy ===== *)
theory DomainGuarantees
  imports DomainFeedSafe
begin

text \<open>
  What the domain targets guarantee as a whole: what can be in the kernel, and what a change of the list does to
  the addresses that were written before it, and to those that are still on their way.
\<close>

subsection \<open>What the kernel can hold\<close>

text \<open>C32. Whatever the resolver answers, whatever the lists are, however the goroutines interleave and whatever nft
  refuses, the three structures of the kernel only ever hold addresses that may become a rule, each in the structure
  of its family; the queue holds at most 256 answers and the channels one batch and eight returned lists.\<close>

theorem kernel_holds_only_public_addresses:
  fixes evs :: "evento list"
  defines "c \<equiv> rodar evs caixa_nova"
  shows "{a. cx_kernel c DomBlockedSet a \<noteq> None} \<union> {a. cx_kernel c DomWanMap a \<noteq> None} \<subseteq> {a. Utilizavel a \<and> Is4 a}
    \<and> {a. cx_kernel c DomBlockedSet6 a \<noteq> None} \<subseteq> {a. Utilizavel a \<and> \<not> Is4 a}
    \<and> length (sv_fila (cx_s c)) \<le> TamanhoDaFila \<and> length (sv_paraEscrever (cx_s c)) \<le> 1 \<and> length (sv_devolvidas (cx_s c)) \<le> 8"
proof -
  have ok: "caixa_ok c" by (simp add: c_def rodar_ok)
  then have "Utilizavel a \<and> (e = DomBlockedSet6 \<longleftrightarrow> \<not> Is4 a)" if "cx_kernel c e a \<noteq> None" for e a
    using that by (simp add: caixa_ok_def elemento_ok_def)
  note el = this [of DomBlockedSet] this [of DomWanMap] this [of DomBlockedSet6]
  have "{a. cx_kernel c DomBlockedSet a \<noteq> None} \<union> {a. cx_kernel c DomWanMap a \<noteq> None} \<subseteq> {a. Utilizavel a \<and> Is4 a}"
    "{a. cx_kernel c DomBlockedSet6 a \<noteq> None} \<subseteq> {a. Utilizavel a \<and> \<not> Is4 a}"
    using el by blast+
  then show ?thesis using ok by (simp add: caixa_ok_def feed_ok_def)
qed

subsection \<open>A change of the list\<close>

definition cresce :: "ajuste \<Rightarrow> ajuste \<Rightarrow> bool" where
  "cresce aj aj' \<longleftrightarrow> set (aj_Escritas aj) \<subseteq> set (aj_Escritas aj') \<and> set (aj_Remocoes aj) \<subseteq> set (aj_Remocoes aj')"

lemma cresce_simps [simp]: "cresce aj aj" "cresce aj (remover b a c aj)" "cresce aj (escrever e aj)"
  "cresce aj (escrever e (remover b a c aj))"
  by (auto simp: cresce_def remover_def escrever_def)

lemma cresce_trans: "cresce x y \<Longrightarrow> cresce y z \<Longrightarrow> cresce x z"
  by (auto simp: cresce_def)

lemma reconciliar_um_frame:
  assumes "reconciliar_um agora b (aj, i) = (aj', i')"
  shows "ix_alvos i' = ix_alvos i \<and> (a \<noteq> b \<longrightarrow> map_of (ix_ends i') a = map_of (ix_ends i) a) \<and> cresce aj aj'"
  using assms by (auto simp: reconciliar_um_def Let_def update_conv' delete_conv' split: option.splits if_splits prod.splits)

lemma reconciliar_fold_frame:
  assumes "fold (reconciliar_um agora) bs (aj, i) = (aj', i')" "a \<notin> set bs"
  shows "ix_alvos i' = ix_alvos i \<and> map_of (ix_ends i') a = map_of (ix_ends i) a \<and> cresce aj aj'"
  using assms
proof (induction bs arbitrary: aj i)
  case (Cons b bs)
  obtain aj1 i1 where 1: "reconciliar_um agora b (aj, i) = (aj1, i1)" by fastforce
  from Cons.IH [of aj1 i1] Cons.prems 1 reconciliar_um_frame [OF 1, of a] show ?case by (auto intro: cresce_trans)
qed simp

lemma reconciliar_fold_cresce: "fold (reconciliar_um agora) bs (aj, i) = (aj', i') \<Longrightarrow> cresce aj aj'"
proof (induction bs arbitrary: aj i)
  case (Cons b bs)
  obtain aj1 i1 where 1: "reconciliar_um agora b (aj, i) = (aj1, i1)" by fastforce
  from Cons.IH [of aj1 i1] Cons.prems 1 reconciliar_um_frame [OF 1] show ?case by (auto intro: cresce_trans)
qed simp

lemma absorver_cresce: "absorverEndereco alvo a p t (aj, i) = (aj', i') \<Longrightarrow> cresce aj aj'"
  by (auto simp: absorverEndereco_def absorverConhecido_def Let_def split: option.splits if_splits prod.splits)

lemma replay_addr_cresce: "replay_addr alvo t a (aj, i) = (aj', i') \<Longrightarrow> cresce aj aj'"
  by (auto simp: replay_addr_def Let_def split: prod.splits bool.splits if_splits dest: absorver_cresce)

lemma replay_cresce: "cresce (fst st) (fst (replayEnsaio t alvo st))"
proof -
  obtain aj i where st: "st = (aj, i)" by fastforce
  have "cresce aj (fst (fold (replay_addr alvo t) as (aj, j)))" for as j
    by (rule fold_invariant [where Q = "\<lambda>_. True" and P = "\<lambda>st. cresce aj (fst st)"])
      (auto intro: cresce_trans, metis cresce_trans prod.collapse replay_addr_cresce)
  then show ?thesis by (auto simp: st replayEnsaio_def Let_def split: prod.split) (metis fst_conv)
qed


lemma replays_cresce: "cresce (fst st) (fst (fold (replayEnsaio t) as st))"
  by (rule fold_invariant [where Q = "\<lambda>_. True" and P = "\<lambda>st'. cresce (fst st) (fst st')"])
    (auto intro: cresce_trans replay_cresce)

text \<open>What the list asks for a written address: nothing when nothing changes, else to take it out of the structure it is
  in, and to write it where it belongs now if there is such a place.\<close>

definition pedido ::
  "(string \<times> alvo) list \<Rightarrow> ip \<Rightarrow> registro \<Rightarrow> remocao list \<times> escrita list" where
  "pedido alvos a r =
     (let sai = [\<lparr>rm_Addr = a, rm_Capacidade = rg_escritoCap r\<rparr>] in
      case capEfetiva alvos (filter (active alvos) (rg_dominios r)) of
        None \<Rightarrow> (sai, [])
      | Some (capa, marca) \<Rightarrow>
          if \<not> podeEntrar a capa then (sai, [])
          else if capa = rg_escritoCap r \<and> marca = rg_escritoMarca r then ([], [])
          else (sai, [\<lparr>es_Addr = a, es_Prazo = rg_concedido r, es_Capacidade = capa, es_Marca = marca, es_Substituir = False\<rparr>]))"

lemma reconciliar_um_pedido:
  assumes "map_of (ix_ends i) a = Some r" "rg_escrito r" "reconciliar_um agora a (aj, i) = (aj', i')"
  shows "set (fst (pedido (ix_alvos i) a r)) \<subseteq> set (aj_Remocoes aj') \<and> set (snd (pedido (ix_alvos i) a r)) \<subseteq> set (aj_Escritas aj')"
  using assms
  by (auto simp: reconciliar_um_def pedido_def Let_def remover_def escrever_def split: option.splits if_splits prod.splits)

lemma fold_at:
  assumes "a \<in> set as" "distinct as" "map_of (ix_ends i) a = Some r" "rg_escrito r" "fold (reconciliar_um agora) as (aj, i) = (aj', i')"
  shows "set (fst (pedido (ix_alvos i) a r)) \<subseteq> set (aj_Remocoes aj') \<and> set (snd (pedido (ix_alvos i) a r)) \<subseteq> set (aj_Escritas aj')"
proof -
  obtain xs ys where as: "as = xs @ a # ys" "a \<notin> set xs" using split_list_first [OF assms(1)] by blast
  obtain aj1 i1 where 1: "fold (reconciliar_um agora) xs (aj, i) = (aj1, i1)" by fastforce
  obtain aj2 i2 where 2: "reconciliar_um agora a (aj1, i1) = (aj2, i2)" by fastforce
  have 3: "fold (reconciliar_um agora) ys (aj2, i2) = (aj', i')" using assms(5) as 1 2 by simp
  from reconciliar_fold_frame [OF 1 as(2)] reconciliar_um_pedido [OF _ assms(4) 2] reconciliar_fold_cresce [OF 3] assms(3)
  show ?thesis by (auto simp: cresce_def)
qed

text \<open>C34. A change of the list is asked for at once for every address that the index has as written: unless the capacity and
  the mark that now prevail on it are the ones recorded as written, the change the index returns asks to take the
  address out of the structure it was written to, and to write it to the other one when it still has a domain that acts.
  What the feeder makes of that removal while a write of the same address waits is another matter, below.\<close>

theorem list_change_asks_for_every_written_address:
  assumes "map_of (ix_ends (depois cs)) a = Some r" "rg_escrito r"
    and "DefinirAlvos agora alvos (depois cs) = (aj, i')"
  shows "set (fst (pedido (novos_alvos alvos) a r)) \<subseteq> set (aj_Remocoes aj)
    \<and> set (snd (pedido (novos_alvos alvos) a r)) \<subseteq> set (aj_Escritas aj)"
proof -
  let ?i = "esquecerNaoListados ((depois cs)\<lparr>ix_alvos := novos_alvos alvos\<rparr>)"
  have d: "distinct (map fst (ix_ends (depois cs)))" using depois_ok by (simp add: index_ok_def core_ok_def)
  have m: "a \<in> set (map fst (ix_ends (depois cs)))" using map_of_SomeD [OF assms(1)] by force
  obtain aj1 i1 where 1: "fold (reconciliar_um agora) (map fst (ix_ends ?i)) (vazio, ?i) = (aj1, i1)" by fastforce
  have "cresce aj1 aj"
    using replays_cresce [of "(aj1, i1)" agora "promovidos_de (ix_alvos (depois cs)) (novos_alvos alvos)"] assms(3) 1
    by (simp add: DefinirAlvos_def Let_def reconciliar_def)
  moreover from fold_at [OF _ _ _ assms(2) 1, of a] m d assms(1)
  have "set (fst (pedido (novos_alvos alvos) a r)) \<subseteq> set (aj_Remocoes aj1)
    \<and> set (snd (pedido (novos_alvos alvos) a r)) \<subseteq> set (aj_Escritas aj1)"
    by simp
  ultimately show ?thesis by (auto simp: cresce_def)
qed

definition barrado :: alvo where
  "barrado = \<lparr>av_Dominio = ''exemplo.com'', av_Capacidade = Barrar, av_Estagio = Ativo, av_Marca = 0\<rparr>"

definition chamadas_demo :: "chamada list" where
  "chamadas_demo = [Lista 0 [barrado], Ensina 1 ''www.exemplo.com'' [quad 8 8 8 8] 0, Confirma 2 [quad 8 8 8 8]]"

lemma chamadas_demo_written:
  "map_option (\<lambda>r. rg_escrito r \<and> fst (pedido (novos_alvos []) (quad 8 8 8 8) r) = [\<lparr>rm_Addr = quad 8 8 8 8, rm_Capacidade = Barrar\<rparr>])
     (map_of (ix_ends (depois chamadas_demo)) (quad 8 8 8 8)) = Some True"
  by code_simp

theorem list_change_asks_for_every_written_address_witness:
  "\<lparr>rm_Addr = quad 8 8 8 8, rm_Capacidade = Barrar\<rparr> \<in> set (aj_Remocoes (fst (DefinirAlvos 3 [] (depois chamadas_demo))))"
proof -
  obtain r where r: "map_of (ix_ends (depois chamadas_demo)) (quad 8 8 8 8) = Some r" "rg_escrito r"
    "fst (pedido (novos_alvos []) (quad 8 8 8 8) r) = [\<lparr>rm_Addr = quad 8 8 8 8, rm_Capacidade = Barrar\<rparr>]"
    using chamadas_demo_written by auto
  obtain aj i' where "DefinirAlvos 3 [] (depois chamadas_demo) = (aj, i')" by fastforce
  with list_change_asks_for_every_written_address [OF r(1,2) this] r(3) show ?thesis by simp
qed

subsection \<open>Writes on their way\<close>

lemma reconciliar_um_esquece:
  assumes "map_of (ix_ends i) a = Some r" "list_all (\<lambda>d. \<not> active (ix_alvos i) d) (rg_dominios r)"
    and "reconciliar_um agora a (aj, i) = (aj', i')"
  shows "map_of (ix_ends i') a = None"
proof -
  have "filter (active (ix_alvos i)) (rg_dominios r) = []" using assms(2) by (simp add: list_all_iff filter_empty_conv)
  with assms(1,3) show ?thesis
    by (auto simp: reconciliar_um_def Let_def soltar_def delete_conv' capEfetiva_def split: option.splits if_splits prod.splits)
qed

lemma fold_esquece:
  assumes "a \<in> set as" "distinct as" "map_of (ix_ends i) a = Some r"
    and "list_all (\<lambda>d. \<not> active (ix_alvos i) d) (rg_dominios r)" "fold (reconciliar_um agora) as (aj, i) = (aj', i')"
  shows "map_of (ix_ends i') a = None"
proof -
  obtain xs ys where as: "as = xs @ a # ys" "a \<notin> set xs" using split_list_first [OF assms(1)] by blast
  then have ys: "a \<notin> set ys" using assms(2) by simp
  obtain aj1 i1 where 1: "fold (reconciliar_um agora) xs (aj, i) = (aj1, i1)" by fastforce
  obtain aj2 i2 where 2: "reconciliar_um agora a (aj1, i1) = (aj2, i2)" by fastforce
  have 3: "fold (reconciliar_um agora) ys (aj2, i2) = (aj', i')" using assms(5) as 1 2 by simp
  note f1 = reconciliar_fold_frame [OF 1 as(2)]
  have "map_of (ix_ends i2) a = None"
    by (rule reconciliar_um_esquece [OF _ _ 2, of r]) (use f1 assms(3,4) in simp_all)
  with reconciliar_fold_frame [OF 3 ys] show ?thesis by simp
qed

text \<open>An address none of whose domains acts any more is forgotten, when no domain starts acting with the change.\<close>

lemma DefinirAlvos_esquece:
  assumes "index_ok i" "map_of (ix_ends i) a = Some r" "list_all (\<lambda>d. \<not> active (novos_alvos alvos) d) (rg_dominios r)"
    and "promovidos_de (ix_alvos i) (novos_alvos alvos) = []" "DefinirAlvos agora alvos i = (aj, i')"
  shows "map_of (ix_ends i') a = None"
proof -
  let ?i = "esquecerNaoListados (i\<lparr>ix_alvos := novos_alvos alvos\<rparr>)"
  have e: "ix_ends ?i = ix_ends i" "ix_alvos ?i = novos_alvos alvos" by (simp_all add: esquecerNaoListados_def)
  have "fold (reconciliar_um agora) (map fst (ix_ends ?i)) (vazio, ?i) = (aj, i')"
    using assms(4,5) by (simp add: DefinirAlvos_def Let_def reconciliar_def)
  from fold_esquece [OF _ _ _ _ this, of a r] show ?thesis
    using map_of_SomeD [OF assms(2)] assms(1-3) by (force simp: e index_ok_def core_ok_def)
qed

lemma Confirmar_unknown: "map_of (ix_ends i) a = None \<Longrightarrow> map_of (ix_ends (Confirmar agora as i)) a = None"
proof -
  have "map_of (ix_ends (confirmar_um agora b j)) a = None" if "map_of (ix_ends j) a = None" for b j
    using that by (cases "a = b") (auto simp: confirmar_um_def conta_def set_reg_def update_conv' split: option.split)
  then have "map_of (ix_ends (fold (confirmar_um agora) as i)) a = None" if "map_of (ix_ends i) a = None"
    using that by (induction as arbitrary: i) simp_all
  then show "map_of (ix_ends i) a = None \<Longrightarrow> ?thesis" by (simp add: Confirmar_def)
qed

text \<open>A write that waits goes on waiting, whatever the change asks.\<close>

lemma acumular_keeps: "map_of (sv_pendEscritas s) k \<noteq> None \<Longrightarrow> map_of (sv_pendEscritas (acumular aj s)) k \<noteq> None"
proof -
  have "map_of m k \<noteq> None \<Longrightarrow> map_of (fold (\<lambda>e. AList.update (es_Addr e, es_Capacidade e) e) es m) k \<noteq> None" for es m
    by (induction es arbitrary: m) (auto simp: update_conv')
  then show "map_of (sv_pendEscritas s) k \<noteq> None \<Longrightarrow> ?thesis" by (simp add: acumular_def)
qed

lemma acumular_frame [simp]:
  "sv_idx (acumular aj s) = sv_idx s" "sv_paraEscrever (acumular aj s) = sv_paraEscrever s"
  "sv_devolvidas (acumular aj s) = sv_devolvidas s" "sv_ajustesPend (acumular aj s) = sv_ajustesPend s"
  "sv_emVoo (acumular aj s) = sv_emVoo s"
  by (simp_all add: acumular_def)

lemma batch_has_the_write:
  assumes "pend_e_ok (sv_pendEscritas s)" "map_of (sv_pendEscritas s) (a, c) = Some w"
    and "estrutura_de a c = Some e"
  shows "entrada_de (montarLote (ordenarEscritas (sv_pendEscritas s)) rs) e a \<noteq> None"
proof -
  have m: "((a, c), w) \<in> set (sv_pendEscritas s)" using assms(2) by (rule map_of_SomeD)
  then have "es_Addr w = a" "es_Capacidade w = c" using assms(1) by (auto simp: pend_e_ok_def list_all_iff)
  moreover have "w \<in> set (ordenarEscritas (sv_pendEscritas s))" using m by (force simp: ordenarEscritas_def)
  ultimately have "a \<in> set (map en_Addr (entradas e (ordenarEscritas (sv_pendEscritas s))))"
    using assms(3) unfolding entradas_addr by auto
  then show ?thesis unfolding entrada_de_def adicionar_de_montar by (simp add: map_of_eq_None_iff image_image)
qed

lemma feito_has: "entrada_de l e a \<noteq> None \<Longrightarrow> feito agora l k e a \<noteq> None"
  by (auto simp: feito_def presente_def split: option.splits)

text \<open>The batch with the write leaves with the next window, and nft accepts it at once.\<close>

lemma window_writes:
  fixes t1 t2 recusa c
  assumes "caixa_ok c" "sv_paraEscrever (cx_s c) = []" "cx_resposta c = None"
    and "map_of (sv_pendEscritas (cx_s c)) (a, cap) = Some w" "estrutura_de a cap = Some e"
    and "map_of (ix_ends (sv_idx (cx_s c))) a = None"
    and "cx_resposta (passo (Escrever recusa t1) (passo Janela c)) = Some (v, res, False)" "\<not> rl_Reenviado res"
  defines "c' \<equiv> passo (Relatar t2) (passo (Escrever recusa t1) (passo Janela c))"
  shows "cx_kernel c' e a \<noteq> None \<and> map_of (ix_ends (sv_idx (cx_s c'))) a = None
    \<and> sv_pendEscritas (cx_s c') = [] \<and> sv_pendRemocoes (cx_s c') = [] \<and> sv_paraEscrever (cx_s c') = [] \<and> cx_resposta c' = None
    \<and> sv_ajustesPend (cx_s c') = sv_ajustesPend (cx_s c) \<and> sv_emVoo (cx_s c') = sv_emVoo (cx_s c)
    \<and> sv_devolvidas (cx_s c') = sv_devolvidas (cx_s c)"
proof -
  let ?s = "cx_s c"
  define l where "l = montarLote (ordenarEscritas (sv_pendEscritas ?s)) (ordenarRemocoes (sv_pendRemocoes ?s))"
  have f: "feed_ok ?s" using assms(1) by (simp add: caixa_ok_def)
  have entry: "entrada_de l e a \<noteq> None"
    unfolding l_def by (rule batch_has_the_write) (use f assms(4,5) in \<open>simp_all add: feed_ok_def\<close>)
  have "\<not> LoteVazio l"
    using entry by (cases e) (auto simp: entrada_de_def adicionar_de_def LoteVazio_def)
  moreover have "sv_pendEscritas ?s \<noteq> []" using assms(4) by auto
  ultimately obtain v0 where v0: "lv_lote v0 = l"
    and d: "descarregar ?s = ?s\<lparr>sv_paraEscrever := [v0], sv_pendEscritas := [], sv_pendRemocoes := []\<rparr>"
    using assms(2) by (intro that [of "\<lparr>lv_lote = l, lv_adicoes = adicoesDoLote l,
        lv_remocoes = fold (\<lambda>(_, p). AList.update (rm_Addr (rp_rem p)) p) (sv_pendRemocoes ?s) []\<rparr>"])
      (simp_all add: descarregar_def Let_def l_def [symmetric])
  have "feed_ok (descarregar ?s)" using f by (rule descarregar_ok)
  then have lote: "lote_ok l" by (simp add: d feed_ok_def voo_ok_def v0 [symmetric])
  obtain res0 erro k where A: "AplicarLote False recusa t1 l (cx_kernel c) = (res0, erro, k)"
    by (cases "AplicarLote False recusa t1 l (cx_kernel c)") auto
  have eq: "v = v0" "res0 = res" "\<not> erro" using assms(3,7) A v0 by (auto simp: d)
  have k: "k = feito t1 l (cx_kernel c)" using batch_effect [OF lote A] eq assms(8) by simp
  have "Completo res"
    using A eq assms(8) by (auto simp: Completo_def AplicarLote_def Let_def split: if_splits prod.splits bool.splits)
  then have c': "c' = c\<lparr>cx_s := ?s\<lparr>sv_paraEscrever := [], sv_pendEscritas := [], sv_pendRemocoes := [],
      sv_idx := Confirmar t2 (lv_adicoes v0) (sv_idx ?s)\<rparr>, cx_resposta := None, cx_kernel := k\<rparr>"
    using assms(3) A eq v0 by (simp add: c'_def d relatar_def)
  show ?thesis using k feito_has [OF entry] Confirmar_unknown [OF assms(6)] by (simp add: c')
qed

text \<open>C35. A write that waits for the window survives the change of the list that forgets its address.  Whatever happened
  before, when no batch is on its way and no earlier change, and a write of an address waits - its first one, or the
  renewal of one that is in the kernel - a change of the list after which no domain of that address acts makes the
  index forget the address at once; but the write stays where it waits, with the removal, if one is asked for, beside
  it, and the two are a renewal: when nft accepts the batch of the next window at the first attempt, the kernel has the
  address, and nothing that would take it out is left anywhere.  (No domain starts acting with the change.)\<close>

theorem waiting_write_survives_its_removal:
  fixes evs
  defines "c \<equiv> rodar evs caixa_nova"
  assumes "sv_paraEscrever (cx_s c) = []" "cx_resposta c = None" "sv_ajustesPend (cx_s c) = []" "sv_emVoo (cx_s c) = []"
    "sv_devolvidas (cx_s c) = []"
    and "map_of (sv_pendEscritas (cx_s c)) (a, cap) = Some w" "estrutura_de a cap = Some e"
    and "map_of (ix_ends (sv_idx (cx_s c))) a = Some r" "list_all (\<lambda>d. \<not> active (novos_alvos alvos) d) (rg_dominios r)"
    and "promovidos_de (ix_alvos (sv_idx (cx_s c))) (novos_alvos alvos) = []"
    and "c1 = rodar [NovaLista t alvos, Publicar, Entregar 0, Acordar, Janela, Escrever recusa t1] c"
    and "cx_resposta c1 = Some (v, res, False)" "\<not> rl_Reenviado res"
    and "c2 = passo (Relatar t2) c1"
  shows "map_of (ix_ends (sv_idx (cx_s (passo (NovaLista t alvos) c)))) a = None
    \<and> cx_kernel c2 e a \<noteq> None \<and> map_of (ix_ends (sv_idx (cx_s c2))) a = None
    \<and> sv_pendRemocoes (cx_s c2) = [] \<and> sv_pendEscritas (cx_s c2) = [] \<and> sv_paraEscrever (cx_s c2) = [] \<and> cx_resposta c2 = None
    \<and> sv_ajustesPend (cx_s c2) = [] \<and> sv_emVoo (cx_s c2) = [] \<and> sv_devolvidas (cx_s c2) = []"
proof -
  let ?s = "cx_s c"
  have ok: "caixa_ok c" by (simp add: c_def rodar_ok)
  obtain aj i' where A: "DefinirAlvos t alvos (sv_idx ?s) = (aj, i')" by fastforce
  have gone: "map_of (ix_ends i') a = None"
    by (rule DefinirAlvos_esquece [OF _ assms(9-11) A]) (use ok in \<open>simp add: caixa_ok_def feed_ok_def\<close>)
  define c0 where "c0 = rodar [NovaLista t alvos, Publicar, Entregar 0, Acordar] c"
  have "caixa_ok c0" unfolding c0_def rodar_def using ok by (simp add: passo_ok del: passo.simps)
  moreover have idx: "sv_idx (cx_s c0) = i'" and rest: "sv_paraEscrever (cx_s c0) = []" "cx_resposta c0 = None"
    "sv_ajustesPend (cx_s c0) = []" "sv_emVoo (cx_s c0) = []" "sv_devolvidas (cx_s c0) = []"
    using assms(2-6) by (simp_all add: c0_def rodar_def listarNoIndice_def A publicarRetrato_def entregarAjuste_def
        Let_def drenarAjustes_def)
  moreover have "map_of (sv_pendEscritas (cx_s c0)) (a, cap) \<noteq> None"
  proof -
    have "map_of (sv_pendEscritas (acumular aj z)) (a, cap) \<noteq> None" if "sv_pendEscritas z = sv_pendEscritas ?s" for z
      by (rule acumular_keeps) (use that assms(7) in simp)
    then show ?thesis using assms(4-7)
      by (simp add: c0_def rodar_def listarNoIndice_def A publicarRetrato_def entregarAjuste_def Let_def drenarAjustes_def)
  qed
  then obtain w' where "map_of (sv_pendEscritas (cx_s c0)) (a, cap) = Some w'" by auto
  moreover have "c1 = passo (Escrever recusa t1) (passo Janela c0)" by (simp add: assms(12) c0_def rodar_def del: passo.simps)
  ultimately have "cx_kernel c2 e a \<noteq> None \<and> map_of (ix_ends (sv_idx (cx_s c2))) a = None
    \<and> sv_pendEscritas (cx_s c2) = [] \<and> sv_pendRemocoes (cx_s c2) = [] \<and> sv_paraEscrever (cx_s c2) = [] \<and> cx_resposta c2 = None
    \<and> sv_ajustesPend (cx_s c2) = sv_ajustesPend (cx_s c0) \<and> sv_emVoo (cx_s c2) = sv_emVoo (cx_s c0)
    \<and> sv_devolvidas (cx_s c2) = sv_devolvidas (cx_s c0)"
    using window_writes [of c0 a cap w' e recusa t1 v res t2] assms(8,13,14,15) gone by simp
  then show ?thesis using gone rest by (simp add: listarNoIndice_def A)
qed

text \<open>A domain taken off the list within the window in which its first address was learnt, and one taken off while
  the renewal of an address waits.\<close>

definition aprendido :: "evento list" where
  "aprendido = [NovaLista 0 [barrado], Publicar, Entregar 0, Acordar, Resposta ''www.exemplo.com'' [quad 8 8 8 8] 0, Fila 1]"

definition tirado :: "evento list" where
  "tirado = [NovaLista 2 [], Publicar, Entregar 0, Acordar, Janela, Escrever (\<lambda>_. False) 3]"

lemma aprendido_seen:
  "(let c = rodar aprendido caixa_nova in
     (length (sv_paraEscrever (cx_s c)) + length (sv_ajustesPend (cx_s c)) + length (sv_emVoo (cx_s c))
        + length (sv_devolvidas (cx_s c)),
      Option.is_none (cx_resposta c),
      Option.is_none (map_of (sv_pendEscritas (cx_s c)) (quad 8 8 8 8, Barrar)),
      map_option rg_dominios (map_of (ix_ends (sv_idx (cx_s c))) (quad 8 8 8 8)))) = (0, True, False, Some [''exemplo.com''])"
  by code_simp

lemma aprendido_idle:
  "sv_paraEscrever (cx_s (rodar aprendido caixa_nova)) = []" "cx_resposta (rodar aprendido caixa_nova) = None"
  "sv_ajustesPend (cx_s (rodar aprendido caixa_nova)) = []" "sv_emVoo (cx_s (rodar aprendido caixa_nova)) = []"
  "sv_devolvidas (cx_s (rodar aprendido caixa_nova)) = []"
  using aprendido_seen unfolding Let_def prod.inject add_is_0 length_0_conv eq_True Option.is_none_def by blast+

lemma aprendido_waits:
  "\<not> Option.is_none (map_of (sv_pendEscritas (cx_s (rodar aprendido caixa_nova))) (quad 8 8 8 8, Barrar))"
  "map_option rg_dominios (map_of (ix_ends (sv_idx (cx_s (rodar aprendido caixa_nova)))) (quad 8 8 8 8)) = Some [''exemplo.com'']"
  using aprendido_seen unfolding Let_def prod.inject by blast+

lemma estrutura_demo: "estrutura_de (quad 8 8 8 8) Barrar = Some DomBlockedSet"
  by code_simp

lemma tirado_answer:
  "map_option (\<lambda>(v, res, erro). (rl_Reenviado res, erro)) (cx_resposta (rodar tirado (rodar aprendido caixa_nova))) = Some (False, False)"
  by code_simp

lemma rodar_snoc: "passo e (rodar evs c) = rodar (evs @ [e]) c"
  by (simp add: rodar_def del: passo.simps)

theorem waiting_write_survives_its_removal_witness:
  "cx_kernel (rodar (tirado @ [Relatar 4]) (rodar aprendido caixa_nova)) DomBlockedSet (quad 8 8 8 8) \<noteq> None"
proof -
  let ?c = "rodar aprendido caixa_nova"
  obtain w where w: "map_of (sv_pendEscritas (cx_s ?c)) (quad 8 8 8 8, Barrar) = Some w"
    using aprendido_waits(1) by (auto simp: Option.is_none_def)
  obtain r where r: "map_of (ix_ends (sv_idx (cx_s ?c))) (quad 8 8 8 8) = Some r" "rg_dominios r = [''exemplo.com'']"
    using aprendido_waits(2) unfolding map_option_eq_Some by blast
  have n: "novos_alvos [] = []" by (simp add: novos_alvos_def)
  have na: "list_all (\<lambda>d. \<not> active (novos_alvos []) d) (rg_dominios r)" by (simp add: n r(2) active_def)
  have p: "promovidos_de (ix_alvos (sv_idx (cx_s ?c))) (novos_alvos []) = []" by (simp add: n promovidos_de_def)
  obtain v res where v: "cx_resposta (rodar tirado ?c) = Some (v, res, False)" "\<not> rl_Reenviado res"
    using tirado_answer unfolding map_option_eq_Some by (auto simp del: passo.simps)
  from waiting_write_survives_its_removal [OF aprendido_idle w estrutura_demo r(1) na p tirado_def [THEN arg_cong, of "\<lambda>x. rodar x ?c"] v refl, of 4]
  show ?thesis unfolding rodar_snoc by blast
qed

end
