(* ===== verification/DomainRouting.thy ===== *)
theory DomainRouting
  imports Validate DomainIndex LinkMonitor
begin

text \<open>
  The intentions by domain and their publication: the rows (\<open>internal/storage/repo_domtargets.go\<close>) and the coordinator
  (\<open>internal/domainrouting/coordinator.go\<close>) that turns them into the list of the index, suspending an active one while
  its WAN or the blocking group is not fit.  Every call of the database may fail; the texts of errors are left out, save
  that there is one.  Times are left out.
\<close>

subsection \<open>Runes\<close>

text \<open>How Go reads a string as runes: a byte that starts no well-formed sequence is one rune, U+FFFD.\<close>

definition byte_of :: "char \<Rightarrow> nat" where
  "byte_of c = of_char c"

definition cont_in :: "nat \<Rightarrow> nat \<Rightarrow> string \<Rightarrow> bool" where
  "cont_in lo hi s \<longleftrightarrow> (case s of [] \<Rightarrow> False | c # _ \<Rightarrow> lo \<le> byte_of c \<and> byte_of c \<le> hi)"

definition rune_width :: "string \<Rightarrow> nat" where
  "rune_width s =
     (case s of [] \<Rightarrow> 0
      | c # r \<Rightarrow>
          let b = byte_of c;
              lo = (if b = 224 then 160 else if b = 240 then 144 else 128);
              hi = (if b = 237 then 159 else if b = 244 then 143 else 191) in
          if 194 \<le> b \<and> b \<le> 223 \<and> cont_in lo hi r then 2
          else if 224 \<le> b \<and> b \<le> 239 \<and> cont_in lo hi r \<and> cont_in 128 191 (drop 1 r) then 3
          else if 240 \<le> b \<and> b \<le> 244 \<and> cont_in lo hi r \<and> cont_in 128 191 (drop 1 r) \<and> cont_in 128 191 (drop 2 r) then 4
          else 1)"

definition rune_value :: "string \<Rightarrow> nat" where
  "rune_value s =
     (let b = byte_of (hd s); k = (\<lambda>i. byte_of (s ! i) - 128) in
      if rune_width s = 2 then (b - 192) * 64 + k 1
      else if rune_width s = 3 then (b - 224) * 4096 + k 1 * 64 + k 2
      else if rune_width s = 4 then (b - 240) * 262144 + k 1 * 4096 + k 2 * 64 + k 3
      else if b < 128 then b else 65533)"

lemma rune_width_pos: "s \<noteq> [] \<Longrightarrow> 0 < rune_width s"
  by (cases s) (simp_all add: rune_width_def Let_def)

function runes :: "string \<Rightarrow> nat list" where
  "runes s = (if s = [] then [] else rune_value s # runes (drop (rune_width s) s))"
  by pat_completeness auto
termination by (relation "measure length") (auto simp: rune_width_pos)

declare runes.simps [simp del]

definition IsControl :: "nat \<Rightarrow> bool" where
  "IsControl r \<longleftrightarrow> r < 32 \<or> 127 \<le> r \<and> r < 160"

subsection \<open>The rows\<close>

definition DomainStageEnsaio :: string where "DomainStageEnsaio = ''ensaio''"
definition DomainStageAtivo :: string where "DomainStageAtivo = ''ativo''"
definition DomainCapBarrar :: string where "DomainCapBarrar = ''barrar''"
definition DomainCapDirecionar :: string where "DomainCapDirecionar = ''direcionar''"
definition MaxDomainTargetNoteRunes :: nat where "MaxDomainTargetNoteRunes = 500"

record domain_target =
  dt_ID :: string
  dt_Domain :: string
  dt_Capability :: string
  dt_Stage :: string
  dt_LinkID :: string
  dt_LinkName :: string
  dt_Mark :: "32 word"
  dt_Note :: string

record routing_db =
  rd_targets :: "domain_target list"
  rd_links :: "link list"
  rd_blocklist :: "bool option"

definition note_ok :: "string \<Rightarrow> bool" where
  "note_ok n \<longleftrightarrow> length (runes n) \<le> MaxDomainTargetNoteRunes \<and> \<not> list_ex IsControl (runes n)"

definition normalizeDomainTarget :: "domain_target \<Rightarrow> domain_target option" where
  "normalizeDomainTarget t =
     (case NormalizeDomainTarget (dt_Domain t) of
        None \<Rightarrow> None
      | Some d \<Rightarrow>
          let t1 = t\<lparr>dt_Domain := d\<rparr> in
          if dt_Capability t1 \<noteq> DomainCapBarrar \<and> dt_Capability t1 \<noteq> DomainCapDirecionar then None
          else let t2 = t1\<lparr>dt_LinkID := trim_space (dt_LinkID t1)\<rparr> in
          if dt_Capability t2 = DomainCapDirecionar \<and> dt_LinkID t2 = [] then None
          else if dt_Capability t2 = DomainCapBarrar \<and> dt_LinkID t2 \<noteq> [] then None
          else let t3 = t2\<lparr>dt_Note := trim_space (dt_Note t2)\<rparr> in
          if \<not> note_ok (dt_Note t3) then None else Some t3)"

datatype routing_error = Invalid | NotFound | Conflict | Storage

text \<open>\<open>CreateDomainTarget\<close> with the random id; the keys of the table refuse a domain or an id that is there.\<close>

definition CreateDomainTarget :: "bool \<Rightarrow> string \<Rightarrow> domain_target \<Rightarrow> routing_db \<Rightarrow> routing_db \<times> routing_error option" where
  "CreateDomainTarget ok uuid t db =
     (case normalizeDomainTarget t of
        None \<Rightarrow> (db, Some Storage)
      | Some t1 \<Rightarrow>
          let t2 = (if dt_ID t1 = [] then t1\<lparr>dt_ID := uuid\<rparr> else t1);
              t3 = t2\<lparr>dt_Stage := DomainStageEnsaio\<rparr> in
          if \<not> ok then (db, Some Storage)
          else if list_ex (\<lambda>r. dt_Domain r = dt_Domain t3) (rd_targets db) then (db, Some Conflict)
          else if list_ex (\<lambda>r. dt_ID r = dt_ID t3) (rd_targets db) then (db, Some Storage)
          else (db\<lparr>rd_targets := rd_targets db @ [t3]\<rparr>, None))"

definition UpdateDomainTarget :: "bool \<Rightarrow> string \<Rightarrow> domain_target \<Rightarrow> routing_db \<Rightarrow> routing_db \<times> routing_error option" where
  "UpdateDomainTarget ok i t db =
     (case normalizeDomainTarget t of
        None \<Rightarrow> (db, Some Storage)
      | Some t1 \<Rightarrow>
          if \<not> ok then (db, Some Storage)
          else if \<not> list_ex (\<lambda>r. dt_ID r = trim_space i) (rd_targets db) then (db, Some NotFound)
          else if list_ex (\<lambda>r. dt_Domain r = dt_Domain t1 \<and> dt_ID r \<noteq> trim_space i) (rd_targets db) then (db, Some Conflict)
          else (db\<lparr>rd_targets := map (\<lambda>r. if dt_ID r = trim_space i then
                 r\<lparr>dt_Domain := dt_Domain t1, dt_Capability := dt_Capability t1, dt_LinkID := dt_LinkID t1,
                   dt_LinkName := dt_LinkName t1, dt_Mark := dt_Mark t1, dt_Note := dt_Note t1\<rparr> else r) (rd_targets db)\<rparr>, None))"

definition SetDomainTargetStage :: "bool \<Rightarrow> string \<Rightarrow> string \<Rightarrow> routing_db \<Rightarrow> routing_db \<times> routing_error option" where
  "SetDomainTargetStage ok i stage db =
     (if stage \<noteq> DomainStageEnsaio \<and> stage \<noteq> DomainStageAtivo then (db, Some Storage)
      else if \<not> ok then (db, Some Storage)
      else if \<not> list_ex (\<lambda>r. dt_ID r = trim_space i) (rd_targets db) then (db, Some NotFound)
      else (db\<lparr>rd_targets := map (\<lambda>r. if dt_ID r = trim_space i then r\<lparr>dt_Stage := stage\<rparr> else r) (rd_targets db)\<rparr>, None))"

definition DeleteDomainTargetByID :: "bool \<Rightarrow> string \<Rightarrow> routing_db \<Rightarrow> routing_db \<times> routing_error option" where
  "DeleteDomainTargetByID ok i db =
     (if \<not> ok then (db, Some Storage)
      else if \<not> list_ex (\<lambda>r. dt_ID r = trim_space i) (rd_targets db) then (db, Some NotFound)
      else (db\<lparr>rd_targets := filter (\<lambda>r. dt_ID r \<noteq> trim_space i) (rd_targets db)\<rparr>, None))"


subsection \<open>The coordinator\<close>

record target_view =
  tv_ID :: string
  tv_Domain :: string
  tv_Capability :: string
  tv_Stage :: string
  tv_EffectiveStage :: string
  tv_LinkID :: string
  tv_LinkName :: string
  tv_LinkStatus :: string
  tv_Mark :: "32 word"
  tv_Note :: string
  tv_Suspended :: bool
  tv_SuspensionReason :: string

text \<open>\<open>co_read\<close> is a history variable: the links and the blocking group as the last snapshot that was read had them.\<close>

record coordinator =
  co_db :: routing_db
  co_runtime :: "alvo list"
  co_ready :: bool
  co_generation :: nat
  co_lastError :: bool
  co_blockPresent :: bool
  co_blockEnabled :: bool
  co_targets :: "target_view list"
  co_calls :: nat
  co_read :: "link list \<times> bool option"

definition to_capacidade :: "string \<Rightarrow> capacidade" where
  "to_capacidade s = (if s = DomainCapBarrar then Barrar else if s = DomainCapDirecionar then Direcionar else NoCap)"

definition to_estagio :: "string \<Rightarrow> estagio" where
  "to_estagio s = (if s = DomainStageEnsaio then Ensaio else if s = DomainStageAtivo then Ativo else OutroEstagio)"

definition suspend :: "string \<Rightarrow> target_view \<Rightarrow> target_view" where
  "suspend reason v = v\<lparr>tv_Suspended := True, tv_SuspensionReason := reason, tv_EffectiveStage := DomainStageEnsaio\<rparr>"

definition view_of :: "domain_target \<Rightarrow> target_view" where
  "view_of t = \<lparr>tv_ID = dt_ID t, tv_Domain = dt_Domain t, tv_Capability = dt_Capability t, tv_Stage = dt_Stage t,
     tv_EffectiveStage = dt_Stage t, tv_LinkID = dt_LinkID t, tv_LinkName = dt_LinkName t, tv_LinkStatus = [],
     tv_Mark = dt_Mark t, tv_Note = dt_Note t, tv_Suspended = False, tv_SuspensionReason = []\<rparr>"

text \<open>The reason a routed target, or a barred one, is suspended, in the order of the switches.\<close>

definition link_reason :: "bool \<Rightarrow> link option \<Rightarrow> string \<Rightarrow> string option" where
  "link_reason ready found status =
     (if \<not> ready then Some ''boot_pending''
      else case found of
        None \<Rightarrow> Some ''link_missing''
      | Some l \<Rightarrow>
          if \<not> l_Enabled l then Some ''link_disabled''
          else if trim_space (l_Interface l) = [] \<or> l_TableID l \<le> 0 then Some ''link_unconfigured''
          else if status = ''offline'' then Some ''link_offline''
          else if status \<noteq> ''online'' \<and> status \<noteq> ''degraded'' then Some ''link_not_ready''
          else None)"

definition block_reason :: "bool \<Rightarrow> bool option \<Rightarrow> string option" where
  "block_reason ready grp =
     (if \<not> ready then Some ''boot_pending''
      else case grp of None \<Rightarrow> Some ''blocking_group_missing''
        | Some e \<Rightarrow> if \<not> e then Some ''blocking_group_disabled'' else None)"

definition link_row :: "routing_db \<Rightarrow> string \<Rightarrow> link option" where
  "link_row db i = map_of (rev (map (\<lambda>l. (l_ID l, l)) (rd_links db))) i"

definition resolve :: "bool \<Rightarrow> routing_db \<Rightarrow> domain_target \<Rightarrow> target_view \<times> alvo option" where
  "resolve ready db stored =
     (let view = view_of stored in
      case NormalizeDomainTarget (dt_Domain stored) of
        None \<Rightarrow> (suspend ''invalid_intent'' view, None)
      | Some d \<Rightarrow>
          if dt_Capability stored \<noteq> DomainCapBarrar \<and> dt_Capability stored \<noteq> DomainCapDirecionar
             \<or> dt_Stage stored \<noteq> DomainStageEnsaio \<and> dt_Stage stored \<noteq> DomainStageAtivo
          then (suspend ''invalid_intent'' view, None)
          else
            let view1 = view\<lparr>tv_Domain := d\<rparr>;
                found = link_row db (dt_LinkID stored);
                routed = dt_Capability stored = DomainCapDirecionar;
                view2 = (if routed then
                    (case found of
                       Some l \<Rightarrow> view1\<lparr>tv_LinkName := l_Name l, tv_LinkStatus := go_lower (trim_space (l_Status l)),
                                   tv_Mark := word_of_int (l_TableID l)\<rparr>
                     | None \<Rightarrow> view1\<lparr>tv_LinkName := [], tv_LinkStatus := [], tv_Mark := 0\<rparr>)
                  else view1);
                marca = (if routed \<and> found \<noteq> None then tv_Mark view2 else 0);
                reason = (if dt_Stage stored \<noteq> DomainStageAtivo then None
                  else if routed then link_reason ready found (tv_LinkStatus view2)
                  else block_reason ready (rd_blocklist db));
                view3 = (case reason of None \<Rightarrow> view2 | Some r \<Rightarrow> suspend r view2)
            in (view3, Some \<lparr>av_Dominio = d, av_Capacidade = to_capacidade (dt_Capability stored),
                  av_Estagio = to_estagio (tv_EffectiveStage view3), av_Marca = marca\<rparr>))"

definition snapshot_rows :: "routing_db \<Rightarrow> domain_target list" where
  "snapshot_rows db = sort_key dt_Domain (rd_targets db)"

definition db_call :: "(nat \<Rightarrow> bool) \<Rightarrow> coordinator \<Rightarrow> coordinator \<times> bool" where
  "db_call fails c = (c\<lparr>co_calls := Suc (co_calls c)\<rparr>, \<not> fails (co_calls c))"

text \<open>\<open>reconcileLocked\<close>: whether the snapshot was read.\<close>

definition reconcileLocked :: "(nat \<Rightarrow> bool) \<Rightarrow> coordinator \<Rightarrow> coordinator \<times> bool" where
  "reconcileLocked fails c =
     (case db_call fails c of
        (c1, False) \<Rightarrow> (c1\<lparr>co_lastError := True\<rparr>, False)
      | (c1, True) \<Rightarrow>
          let rows = map (resolve (co_ready c1) (co_db c1)) (snapshot_rows (co_db c1)) in
          (c1\<lparr>co_runtime := List.map_filter snd rows, co_targets := map fst rows,
              co_blockPresent := (rd_blocklist (co_db c1) \<noteq> None),
              co_blockEnabled := (case rd_blocklist (co_db c1) of None \<Rightarrow> False | Some e \<Rightarrow> e),
              co_lastError := False, co_generation := Suc (co_generation c1),
              co_read := (rd_links (co_db c1), rd_blocklist (co_db c1))\<rparr>, True))"

definition Prepare :: "(nat \<Rightarrow> bool) \<Rightarrow> coordinator \<Rightarrow> coordinator \<times> bool" where
  "Prepare fails c =
     (case reconcileLocked fails (c\<lparr>co_ready := True\<rparr>) of
        (c1, True) \<Rightarrow> (c1, True)
      | (c1, False) \<Rightarrow> (c1\<lparr>co_ready := False\<rparr>, False))"

definition Hold :: "(nat \<Rightarrow> bool) \<Rightarrow> coordinator \<Rightarrow> coordinator \<times> bool" where
  "Hold fails c = reconcileLocked fails (c\<lparr>co_ready := False\<rparr>)"

definition domain_Reconcile :: "(nat \<Rightarrow> bool) \<Rightarrow> coordinator \<Rightarrow> coordinator \<times> bool" where
  "domain_Reconcile fails c = reconcileLocked fails c"

record routing_input =
  in_Domain :: string
  in_Capability :: string
  in_LinkID :: string
  in_Note :: string

definition targetFromInput :: "(nat \<Rightarrow> bool) \<Rightarrow> routing_input \<Rightarrow> coordinator \<Rightarrow> coordinator \<times> (routing_error + domain_target)" where
  "targetFromInput fails i c =
     (case NormalizeDomainTarget (in_Domain i) of
        None \<Rightarrow> (c, Inl Invalid)
      | Some d \<Rightarrow>
          let cap = trim_space (in_Capability i); lid = trim_space (in_LinkID i); note = trim_space (in_Note i) in
          if cap \<noteq> DomainCapBarrar \<and> cap \<noteq> DomainCapDirecionar then (c, Inl Invalid)
          else if cap = DomainCapBarrar \<and> lid \<noteq> [] then (c, Inl Invalid)
          else if cap = DomainCapDirecionar \<and> lid = [] then (c, Inl Invalid)
          else if \<not> note_ok note then (c, Inl Invalid)
          else let target = \<lparr>dt_ID = [], dt_Domain = d, dt_Capability = cap, dt_Stage = [], dt_LinkID = lid,
                   dt_LinkName = [], dt_Mark = 0, dt_Note = note\<rparr> in
          if cap = DomainCapDirecionar then
            (case db_call fails c of
               (c1, False) \<Rightarrow> (c1, Inl Storage)
             | (c1, True) \<Rightarrow>
                 (case link_row (co_db c1) lid of
                    None \<Rightarrow> (c1, Inl Invalid)
                  | Some l \<Rightarrow> (c1, Inr (target\<lparr>dt_LinkName := l_Name l, dt_Mark := word_of_int (l_TableID l)\<rparr>))))
          else (c, Inr target))"

definition ensureUniqueDomain :: "(nat \<Rightarrow> bool) \<Rightarrow> string \<Rightarrow> string \<Rightarrow> coordinator \<Rightarrow> coordinator \<times> routing_error option" where
  "ensureUniqueDomain fails d exceptID c =
     (case db_call fails c of
        (c1, False) \<Rightarrow> (c1, Some Storage)
      | (c1, True) \<Rightarrow>
          (c1, if list_ex (\<lambda>t. dt_Domain t = d \<and> dt_ID t \<noteq> exceptID) (rd_targets (co_db c1)) then Some Conflict else None))"

text \<open>A change of the rows, then \<open>reconcileLocked\<close>.\<close>

definition store :: "(nat \<Rightarrow> bool) \<Rightarrow> (bool \<Rightarrow> routing_db \<Rightarrow> routing_db \<times> routing_error option) \<Rightarrow> coordinator
    \<Rightarrow> coordinator \<times> routing_error option" where
  "store fails change c =
     (case db_call fails c of
        (c1, ok) \<Rightarrow>
          (case change ok (co_db c1) of
             (db, Some e) \<Rightarrow> (c1, Some e)
           | (db, None) \<Rightarrow>
               (case reconcileLocked fails (c1\<lparr>co_db := db\<rparr>) of
                  (c2, False) \<Rightarrow> (c2, Some Storage)
                | (c2, True) \<Rightarrow> (c2, None))))"

definition domain_Create :: "(nat \<Rightarrow> bool) \<Rightarrow> string \<Rightarrow> routing_input \<Rightarrow> coordinator \<Rightarrow> coordinator \<times> routing_error option" where
  "domain_Create fails uuid i c =
     (case targetFromInput fails i c of
        (c1, Inl e) \<Rightarrow> (c1, Some e)
      | (c1, Inr target) \<Rightarrow>
          (case ensureUniqueDomain fails (dt_Domain target) [] c1 of
             (c2, Some e) \<Rightarrow> (c2, Some e)
           | (c2, None) \<Rightarrow> store fails (\<lambda>ok. CreateDomainTarget ok uuid target) c2))"

definition domain_Update :: "(nat \<Rightarrow> bool) \<Rightarrow> string \<Rightarrow> routing_input \<Rightarrow> coordinator \<Rightarrow> coordinator \<times> routing_error option" where
  "domain_Update fails i0 input c =
     (let i = trim_space i0 in
      if i = [] then (c, Some Invalid)
      else case targetFromInput fails input c of
        (c1, Inl e) \<Rightarrow> (c1, Some e)
      | (c1, Inr target) \<Rightarrow>
          (case ensureUniqueDomain fails (dt_Domain target) i c1 of
             (c2, Some e) \<Rightarrow> (c2, Some e)
           | (c2, None) \<Rightarrow> store fails (\<lambda>ok. UpdateDomainTarget ok i target) c2))"

definition SetStage :: "(nat \<Rightarrow> bool) \<Rightarrow> string \<Rightarrow> string \<Rightarrow> coordinator \<Rightarrow> coordinator \<times> routing_error option" where
  "SetStage fails i0 stage0 c =
     (let i = trim_space i0; stage = trim_space stage0 in
      if i = [] \<or> stage \<noteq> DomainStageEnsaio \<and> stage \<noteq> DomainStageAtivo then (c, Some Invalid)
      else store fails (\<lambda>ok. SetDomainTargetStage ok i stage) c)"

definition domain_Delete :: "(nat \<Rightarrow> bool) \<Rightarrow> string \<Rightarrow> coordinator \<Rightarrow> coordinator \<times> routing_error option" where
  "domain_Delete fails i0 c =
     (let i = trim_space i0 in
      if i = [] then (c, Some Invalid) else store fails (\<lambda>ok. DeleteDomainTargetByID ok i) c)"

definition new_coordinator :: "link list \<Rightarrow> bool option \<Rightarrow> coordinator" where
  "new_coordinator ls grp =
     \<lparr>co_db = \<lparr>rd_targets = [], rd_links = ls, rd_blocklist = grp\<rparr>, co_runtime = [], co_ready = False, co_generation = 0,
      co_lastError = False, co_blockPresent = False, co_blockEnabled = False, co_targets = [], co_calls = 0, co_read = (ls, grp)\<rparr>"

text \<open>
  What reaches the coordinator: the calls of the panel and of the start, and \<open>Reconcile\<close>, which the monitor of the
  links, the panel and the start call.  The links and the blocking group change on their own: not every change of them
  is followed by a call of \<open>Reconcile\<close> (undoing a change of the firewall restores the groups without one).
\<close>

datatype routing_call =
    CreateTarget string routing_input
  | UpdateTarget string routing_input
  | StageTarget string string
  | DeleteTarget string
  | BootReady
  | BootHeld
  | Reconciles
  | RowsChange "link list" "bool option"

fun routing_step :: "(nat \<Rightarrow> bool) \<Rightarrow> routing_call \<Rightarrow> coordinator \<Rightarrow> coordinator" where
  "routing_step fails (CreateTarget uuid i) c = fst (domain_Create fails uuid i c)"
| "routing_step fails (UpdateTarget i input) c = fst (domain_Update fails i input c)"
| "routing_step fails (StageTarget i stage) c = fst (SetStage fails i stage c)"
| "routing_step fails (DeleteTarget i) c = fst (domain_Delete fails i c)"
| "routing_step fails BootReady c = fst (Prepare fails c)"
| "routing_step fails BootHeld c = fst (Hold fails c)"
| "routing_step fails Reconciles c = fst (domain_Reconcile fails c)"
| "routing_step fails (RowsChange ls g) c = c\<lparr>co_db := (co_db c)\<lparr>rd_links := ls, rd_blocklist := g\<rparr>\<rparr>"

end
