(* ===== verification/DomainRoutingSafe.thy ===== *)
theory DomainRoutingSafe
  imports DomainRouting
begin

text \<open>
  What the coordinator guarantees: the rows stay well formed, the list of the index is the one of the rows, and nothing
  acts that was not asked to or whose WAN or group is not fit; and the way around the trial.
\<close>

subsection \<open>A normalized domain is its own normal form\<close>

lemma go_join_last: "xs \<noteq> [] \<Longrightarrow> last xs \<noteq> [] \<Longrightarrow> go_join xs sep \<noteq> [] \<and> last (go_join xs sep) = last (last xs)"
proof (induction xs)
  case (Cons x xs)
  show ?case
  proof (cases xs)
    case (Cons y ys)
    then show ?thesis using Cons.IH Cons.prems by simp
  qed (use Cons.prems in simp)
qed simp

lemma trim_space_plain: "list_all (\<lambda>c. \<not> is_space c) s \<Longrightarrow> trim_space s = s"
proof -
  have "list_all (\<lambda>c. \<not> is_space c) s \<Longrightarrow> trim_left s = s" for s
    by (cases s) (simp_all add: trim_left_def)
  then show "list_all (\<lambda>c. \<not> is_space c) s \<Longrightarrow> trim_space s = s" by (simp add: trim_space_def list_all_rev)
qed

lemma target_label_chars: "target_label l \<Longrightarrow> c \<in> set l \<Longrightarrow> asciiAlphaNum c \<or> c = CHR ''-''"
proof -
  assume t: "target_label l" and c: "c \<in> set l"
  then obtain a r where l: "l = a # r" by (cases l) auto
  show ?thesis
  proof (cases "r = []")
    case True
    with t c l show ?thesis by (simp add: target_label_def)
  next
    case False
    then have "r = butlast r @ [last r]" by simp
    then have "c = a \<or> c \<in> set (butlast r) \<or> c = last r" using c l by (metis Un_iff empty_iff insert_iff list.set set_append)
    with t l False show ?thesis by (auto simp: target_label_def list_all_iff)
  qed
qed

lemma normal_chars:
  assumes "NormalizeDomainTarget raw = Some d"
  shows "list_all (\<lambda>c. \<not> is_space c \<and> lower_char c = c) d" "last d \<noteq> CHR ''.''"
proof -
  have l: "list_all target_label (go_split ''.'' d)" "d \<noteq> []"
    using assms by (auto simp: NormalizeDomainTarget_def Let_def split: if_splits)
  have "c \<in> set d \<Longrightarrow> asciiAlphaNum c \<or> c = CHR ''-'' \<or> c = CHR ''.''" for c
    using set_go_split [of "''.''" d] l(1) target_label_chars by (fastforce simp: list_all_iff)
  then show "list_all (\<lambda>c. \<not> is_space c \<and> lower_char c = c) d"
    by (fastforce simp: list_all_iff asciiAlphaNum_def is_lower_def is_digit_def is_space_def lower_char_def is_upper_def)
  have ne: "go_split ''.'' d \<noteq> []" using go_split_join [of "''.''" d] l(2) by (cases "go_split ''.'' d") auto
  then have "target_label (last (go_split ''.'' d))" using l(1) by (simp add: list_all_iff)
  then have "last (go_split ''.'' d) \<noteq> []" "asciiAlphaNum (last (last (go_split ''.'' d)))" by (simp_all add: target_label_def)
  moreover have "last d = last (last (go_split ''.'' d))"
    using go_join_last [OF ne, of "''.''"] calculation(1) go_split_join [of "''.''" d] by simp
  ultimately show "last d \<noteq> CHR ''.''" by (auto simp: asciiAlphaNum_def is_lower_def is_digit_def)
qed

lemma normal_again: "NormalizeDomainTarget raw = Some d \<Longrightarrow> NormalizeDomainTarget d = Some d"
proof -
  assume n: "NormalizeDomainTarget raw = Some d"
  note c = normal_chars [OF n]
  have "trim_space d = d" using c(1) by (intro trim_space_plain) (simp add: list_all_iff)
  moreover have "go_lower d = d" using c(1) by (simp add: go_lower_def list_all_iff map_idI)
  moreover have "trim_suffix d ''.'' = d" using c(2) by (auto simp: trim_suffix_def suffix_def)
  ultimately show ?thesis using n by (auto simp: NormalizeDomainTarget_def Let_def split: if_splits)
qed


lemma trim_space_ends: "trim_space s = [] \<or> \<not> is_space (hd (trim_space s)) \<and> \<not> is_space (last (trim_space s))"
proof (cases "trim_space s = []")
  case False
  define u where "u = trim_left s"
  define v where "v = trim_left (rev u)"
  have t: "trim_space s = rev v" by (simp add: trim_space_def u_def v_def)
  then have v: "v \<noteq> []" using False by simp
  then have u: "u \<noteq> []" by (auto simp: v_def trim_left_def)
  have "\<not> is_space (hd v)" using v unfolding v_def trim_left_def by (rule hd_dropWhile)
  moreover have "\<not> is_space (hd u)" using u unfolding u_def trim_left_def by (rule hd_dropWhile)
  moreover have "last v = hd u"
    using v u unfolding v_def trim_left_def by (metis last_appendR last_rev takeWhile_dropWhile_id)
  ultimately show ?thesis using v by (simp add: t hd_rev last_rev)
qed simp

lemma trim_space_idem [simp]: "trim_space (trim_space s) = trim_space s"
proof -
  let ?t = "trim_space s"
  have "trim_left ?t = ?t" using trim_space_ends [of s] by (auto simp: trim_left_def dropWhile_eq_self_iff)
  moreover have "trim_left (rev ?t) = rev ?t" using trim_space_ends [of s] by (auto simp: trim_left_def dropWhile_eq_self_iff hd_rev)
  ultimately show ?thesis by (simp add: trim_space_def [of ?t])
qed

subsection \<open>The invariant\<close>

definition row_ok :: "domain_target \<Rightarrow> bool" where
  "row_ok t \<longleftrightarrow> NormalizeDomainTarget (dt_Domain t) = Some (dt_Domain t)
     \<and> (dt_Capability t = DomainCapBarrar \<and> dt_LinkID t = [] \<or> dt_Capability t = DomainCapDirecionar \<and> dt_LinkID t \<noteq> [])
     \<and> (dt_Stage t = DomainStageEnsaio \<or> dt_Stage t = DomainStageAtivo) \<and> note_ok (dt_Note t)"

definition rows_ok :: "routing_db \<Rightarrow> bool" where
  "rows_ok db \<longleftrightarrow> distinct (map dt_Domain (rd_targets db)) \<and> distinct (map dt_ID (rd_targets db)) \<and> list_all row_ok (rd_targets db)"

definition published :: "bool \<Rightarrow> routing_db \<Rightarrow> alvo list" where
  "published ready db = List.map_filter snd (map (resolve ready db) (snapshot_rows db))"

text \<open>The rows, with the links and the blocking group of the last snapshot that was read.\<close>

definition as_read :: "coordinator \<Rightarrow> routing_db" where
  "as_read c = (co_db c)\<lparr>rd_links := fst (co_read c), rd_blocklist := snd (co_read c)\<rparr>"

lemma as_read_simps [simp]:
  "rd_targets (as_read c) = rd_targets (co_db c)"
  "as_read (c\<lparr>co_calls := n\<rparr>) = as_read c" "as_read (c\<lparr>co_ready := x\<rparr>) = as_read c"
  "as_read (c\<lparr>co_db := (co_db c)\<lparr>rd_links := ls, rd_blocklist := g\<rparr>\<rparr>) = as_read c"
  by (simp_all add: as_read_def)

text \<open>The trace asked for target \<open>i\<close> to act.\<close>

fun asks :: "string \<Rightarrow> routing_call \<Rightarrow> bool" where
  "asks i (StageTarget j s) \<longleftrightarrow> trim_space j = i \<and> trim_space s = DomainStageAtivo"
| "asks i _ \<longleftrightarrow> False"

definition asked :: "routing_call list \<Rightarrow> string \<Rightarrow> bool" where
  "asked es i \<longleftrightarrow> list_ex (asks i) es"

definition rows_asked :: "routing_call list \<Rightarrow> routing_db \<Rightarrow> bool" where
  "rows_asked es db \<longleftrightarrow> list_all (\<lambda>t. dt_Stage t = DomainStageAtivo \<longrightarrow> asked es (dt_ID t)) (rd_targets db)"

definition acting :: "alvo list \<Rightarrow> bool" where
  "acting as \<longleftrightarrow> list_ex (\<lambda>a. av_Estagio a = Ativo) as"

definition routing_inv :: "routing_call list \<Rightarrow> coordinator \<Rightarrow> bool" where
  "routing_inv es c \<longleftrightarrow> rows_ok (co_db c) \<and> rows_asked es (co_db c) \<and> (co_ready c \<longrightarrow> BootReady \<in> set es)
     \<and> (acting (co_runtime c) \<longrightarrow> BootReady \<in> set es \<and> (\<exists>i. asked es i))
     \<and> (\<not> co_lastError c \<and> 0 < co_generation c \<longrightarrow> co_runtime c = published (co_ready c) (as_read c))
     \<and> (co_generation c = 0 \<longrightarrow> co_runtime c = [])"

lemma resolve_acting:
  assumes "resolve ready db t = (v, Some a)" "av_Estagio a = Ativo"
  shows "ready \<and> dt_Stage t = DomainStageAtivo \<and> NormalizeDomainTarget (dt_Domain t) = Some (av_Dominio a)
    \<and> av_Capacidade a = to_capacidade (dt_Capability t)
    \<and> (if dt_Capability t = DomainCapDirecionar then
         (\<exists>l. link_row db (dt_LinkID t) = Some l \<and> l_Enabled l \<and> trim_space (l_Interface l) \<noteq> [] \<and> 0 < l_TableID l
            \<and> go_lower (trim_space (l_Status l)) \<in> {''online'', ''degraded''} \<and> av_Marca a = word_of_int (l_TableID l))
       else rd_blocklist db = Some True)"
proof -
  have e: "DomainStageAtivo \<noteq> DomainStageEnsaio" by (simp add: DomainStageAtivo_def DomainStageEnsaio_def)
  have s: "dt_Stage t = DomainStageAtivo"
    using assms e by (auto simp: resolve_def Let_def to_estagio_def suspend_def view_of_def split: option.splits if_splits)
  show ?thesis
  proof (cases "dt_Capability t = DomainCapDirecionar")
    case True
    with assms s e show ?thesis
      by (auto simp: resolve_def Let_def to_estagio_def suspend_def view_of_def link_reason_def split: option.splits if_splits)
  next
    case False
    with assms s e show ?thesis
      by (auto simp: resolve_def Let_def to_estagio_def suspend_def view_of_def block_reason_def split: option.splits if_splits)
  qed
qed

lemma map_filter_mem: "y \<in> set (List.map_filter f xs) \<longleftrightarrow> (\<exists>x\<in>set xs. f x = Some y)"
  by (induction xs) (auto simp: List.map_filter_simps split: option.splits)

lemma published_mem:
  "a \<in> set (published ready db) \<longleftrightarrow> (\<exists>t\<in>set (rd_targets db). snd (resolve ready db t) = Some a)"
  by (simp add: published_def map_filter_mem snapshot_rows_def)

lemma published_acting:
  "acting (published ready db) \<Longrightarrow> ready \<and> (\<exists>t\<in>set (rd_targets db). dt_Stage t = DomainStageAtivo)"
  unfolding acting_def list_ex_iff using published_mem resolve_acting by (metis prod.collapse)


lemma asked_more: "asked es i \<Longrightarrow> asked (es @ [e]) i"
  by (simp add: asked_def)

lemma rows_asked_more: "rows_asked es db \<Longrightarrow> rows_asked (es @ [e]) db"
  by (auto simp: rows_asked_def list_all_iff asked_more)

lemma rows_asked_some: "rows_asked es db \<Longrightarrow> t \<in> set (rd_targets db) \<Longrightarrow> dt_Stage t = DomainStageAtivo \<Longrightarrow> \<exists>i. asked es i"
  by (auto simp: rows_asked_def list_all_iff)

text \<open>What a change of the rows and the reconciliation after it need and give.\<close>

lemma reconcile_inv:
  assumes "rows_ok (co_db c)" "rows_asked es (co_db c)" "co_ready c \<longrightarrow> BootReady \<in> set es"
    and "acting (co_runtime c) \<longrightarrow> BootReady \<in> set es \<and> (\<exists>i. asked es i)" "co_generation c = 0 \<longrightarrow> co_runtime c = []"
    and "reconcileLocked fails c = (c', ok)"
  shows "routing_inv es c' \<and> co_ready c' = co_ready c \<and> co_db c' = co_db c"
proof (cases ok)
  case False
  with assms show ?thesis
    by (auto simp: reconcileLocked_def db_call_def routing_inv_def Let_def split: bool.splits)
next
  case True
  with assms(6) have c': "co_db c' = co_db c" "co_ready c' = co_ready c" "co_runtime c' = published (co_ready c) (co_db c)"
    "co_generation c' = Suc (co_generation c)" "as_read c' = co_db c"
    by (auto simp: reconcileLocked_def db_call_def Let_def published_def as_read_def split: bool.splits)
  have "acting (co_runtime c') \<longrightarrow> BootReady \<in> set es \<and> (\<exists>i. asked es i)"
    using published_acting [of "co_ready c" "co_db c"] assms(2,3) rows_asked_some unfolding c' by blast
  then show ?thesis using assms(1-3) c' by (auto simp: routing_inv_def)
qed

lemma routing_inv_calls: "routing_inv es (c\<lparr>co_calls := n\<rparr>) = routing_inv es c"
  by (simp add: routing_inv_def)

lemma routing_inv_more: "routing_inv es c \<Longrightarrow> routing_inv (es @ [e]) c"
  by (auto simp: routing_inv_def rows_asked_more intro: asked_more)

lemma store_inv:
  assumes "routing_inv es c"
    and change: "\<And>ok db db'. change ok db = (db', None) \<Longrightarrow> rows_ok db \<Longrightarrow> rows_asked es db \<Longrightarrow> rows_ok db' \<and> rows_asked es db'"
  shows "routing_inv es (fst (store fails change c))"
proof -
  obtain c1 ok where c: "db_call fails c = (c1, ok)" by fastforce
  have c1: "c1 = c\<lparr>co_calls := Suc (co_calls c)\<rparr>" using c by (simp add: db_call_def)
  obtain db r where ch: "change ok (co_db c1) = (db, r)" by fastforce
  show ?thesis
  proof (cases r)
    case (Some e)
    with c ch assms(1) show ?thesis by (simp add: store_def c1 routing_inv_calls)
  next
    case None
    obtain c2 b where rc: "reconcileLocked fails (c1\<lparr>co_db := db\<rparr>) = (c2, b)" by fastforce
    have "rows_ok db \<and> rows_asked es db" using change [of ok "co_db c1" db] ch None assms(1) by (simp add: c1 routing_inv_def)
    moreover have "co_ready c \<longrightarrow> BootReady \<in> set es" "co_generation c = 0 \<longrightarrow> co_runtime c = []"
      "acting (co_runtime c) \<longrightarrow> BootReady \<in> set es \<and> (\<exists>i. asked es i)"
      using assms(1) by (auto simp: routing_inv_def)
    ultimately have "routing_inv es c2"
      using reconcile_inv [of "c1\<lparr>co_db := db\<rparr>" es, OF _ _ _ _ _ rc] by (simp add: c1)
    moreover have "fst (store fails change c) = c2"
      using c ch None rc by (cases b) (simp_all add: store_def)
    ultimately show ?thesis by simp
  qed
qed

lemma targetFromInput_state: "targetFromInput fails i c = (c', r) \<Longrightarrow> \<exists>n. c' = c\<lparr>co_calls := n\<rparr>"
  by (auto simp: targetFromInput_def Let_def db_call_def split: option.splits if_splits bool.splits
      intro: exI [of _ "co_calls c"])

lemma ensureUniqueDomain_state: "ensureUniqueDomain fails d x c = (c', r) \<Longrightarrow> \<exists>n. c' = c\<lparr>co_calls := n\<rparr>"
  by (auto simp: ensureUniqueDomain_def db_call_def split: bool.splits)

lemma normalized_row:
  assumes "normalizeDomainTarget t = Some t1"
  shows "NormalizeDomainTarget (dt_Domain t1) = Some (dt_Domain t1)
    \<and> (dt_Capability t1 = DomainCapBarrar \<and> dt_LinkID t1 = [] \<or> dt_Capability t1 = DomainCapDirecionar \<and> dt_LinkID t1 \<noteq> [])
    \<and> note_ok (dt_Note t1) \<and> dt_ID t1 = dt_ID t"
  using assms by (auto simp: normalizeDomainTarget_def Let_def normal_again split: option.splits if_splits)

lemma create_rows:
  assumes "CreateDomainTarget ok uuid t db = (db', None)" "rows_ok db" "rows_asked es db"
  shows "rows_ok db' \<and> rows_asked es db'"
proof -
  obtain t1 where n: "normalizeDomainTarget t = Some t1"
    using assms(1) by (auto simp: CreateDomainTarget_def split: option.splits)
  define t3 where "t3 = (if dt_ID t1 = [] then t1\<lparr>dt_ID := uuid\<rparr> else t1)\<lparr>dt_Stage := DomainStageEnsaio\<rparr>"
  have db': "db' = db\<lparr>rd_targets := rd_targets db @ [t3]\<rparr>" "dt_Domain t3 \<notin> dt_Domain ` set (rd_targets db)" "dt_ID t3 \<notin> dt_ID ` set (rd_targets db)"
    using assms(1) n by (auto simp: CreateDomainTarget_def Let_def t3_def list_ex_iff split: if_splits)
  have "row_ok t3" "dt_Stage t3 \<noteq> DomainStageAtivo"
    using normalized_row [OF n] by (auto simp: t3_def row_ok_def DomainStageEnsaio_def DomainStageAtivo_def)
  then show ?thesis using assms(2,3) db' by (simp add: rows_ok_def rows_asked_def)
qed

lemma rows_map:
  assumes "rows_ok db" "\<And>t. t \<in> set (rd_targets db) \<Longrightarrow> dt_ID (f t) = dt_ID t \<and> row_ok (f t)"
    and "distinct (map dt_Domain (map f (rd_targets db)))"
  shows "rows_ok (db\<lparr>rd_targets := map f (rd_targets db)\<rparr>)"
proof -
  have "map dt_ID (map f (rd_targets db)) = map dt_ID (rd_targets db)" using assms(2) by simp
  then show ?thesis using assms by (simp add: rows_ok_def list_all_iff del: map_map)
qed

lemma update_rows:
  assumes "UpdateDomainTarget ok i t db = (db', None)" "rows_ok db" "rows_asked es db"
  shows "rows_ok db' \<and> rows_asked es db'"
proof -
  obtain t1 where n: "normalizeDomainTarget t = Some t1"
    using assms(1) by (auto simp: UpdateDomainTarget_def split: option.splits)
  define f where "f r = (if dt_ID r = trim_space i then
      r\<lparr>dt_Domain := dt_Domain t1, dt_Capability := dt_Capability t1, dt_LinkID := dt_LinkID t1,
        dt_LinkName := dt_LinkName t1, dt_Mark := dt_Mark t1, dt_Note := dt_Note t1\<rparr> else r)" for r :: domain_target
  have db': "db' = db\<lparr>rd_targets := map f (rd_targets db)\<rparr>"
    "\<not> list_ex (\<lambda>r. dt_Domain r = dt_Domain t1 \<and> dt_ID r \<noteq> trim_space i) (rd_targets db)"
    using assms(1) n by (simp_all add: UpdateDomainTarget_def f_def [abs_def] split: if_splits)
  have d: "distinct (map dt_Domain (map f rs))"
    if "distinct (map dt_Domain rs)" "distinct (map dt_ID rs)" "\<not> list_ex (\<lambda>r. dt_Domain r = dt_Domain t1 \<and> dt_ID r \<noteq> trim_space i) rs" for rs
    using that by (induction rs) (auto simp: f_def list_ex_iff image_iff)
  have "rows_ok db'"
    unfolding db'(1)
  proof (rule rows_map [OF assms(2)])
    show "dt_ID (f t) = dt_ID t \<and> row_ok (f t)" if "t \<in> set (rd_targets db)" for t
      using that assms(2) normalized_row [OF n] by (auto simp: f_def rows_ok_def list_all_iff row_ok_def)
    show "distinct (map dt_Domain (map f (rd_targets db)))"
      using d [of "rd_targets db"] db'(2) assms(2) by (simp add: rows_ok_def)
  qed
  moreover have "rows_asked es db'"
    using assms(3) by (auto simp: db'(1) rows_asked_def list_all_iff f_def)
  ultimately show ?thesis ..
qed

lemma stage_rows:
  assumes "SetDomainTargetStage ok i stage db = (db', None)" "rows_ok db" "rows_asked es db" "e = StageTarget j s" "trim_space j = i" "trim_space s = stage"
  shows "rows_ok db' \<and> rows_asked (es @ [e]) db'"
proof -
  define f where "f r = (if dt_ID r = i then r\<lparr>dt_Stage := stage\<rparr> else r)" for r :: domain_target
  have i: "trim_space i = i" using assms(5) trim_space_idem by metis
  have db': "db' = db\<lparr>rd_targets := map f (rd_targets db)\<rparr>" "stage = DomainStageEnsaio \<or> stage = DomainStageAtivo"
    using assms(1) by (auto simp: SetDomainTargetStage_def f_def [abs_def] i split: if_splits)
  have m: "map dt_Domain (map f (rd_targets db)) = map dt_Domain (rd_targets db)" by (simp add: f_def)
  have "rows_ok db'"
    unfolding db'(1)
  proof (rule rows_map [OF assms(2)])
    show "dt_ID (f t) = dt_ID t \<and> row_ok (f t)" if "t \<in> set (rd_targets db)" for t
      using that assms(2) db'(2) by (auto simp: f_def rows_ok_def list_all_iff row_ok_def)
    show "distinct (map dt_Domain (map f (rd_targets db)))" unfolding m using assms(2) by (simp add: rows_ok_def)
  qed
  moreover have "rows_asked (es @ [e]) db'"
    using assms(3,4,5,6) by (auto simp: db'(1) rows_asked_def list_all_iff f_def asked_def)
  ultimately show ?thesis ..
qed

lemma delete_rows:
  assumes "DeleteDomainTargetByID ok i db = (db', None)" "rows_ok db" "rows_asked es db"
  shows "rows_ok db' \<and> rows_asked es db'"
  using assms by (auto simp: DeleteDomainTargetByID_def rows_ok_def rows_asked_def list_all_iff distinct_map_filter split: if_splits)

lemma routing_step_inv:
  assumes "routing_inv es c"
  shows "routing_inv (es @ [e]) (routing_step fails e c)"
proof -
  note more = routing_inv_more [OF assms, of e]
  show ?thesis
  proof (cases e)
    case (CreateTarget uuid i)
    obtain c1 r where t: "targetFromInput fails i c = (c1, r)" by fastforce
    obtain n where c1: "c1 = c\<lparr>co_calls := n\<rparr>" using targetFromInput_state [OF t] by blast
    show ?thesis
    proof (cases r)
      case (Inl x)
      with CreateTarget t more c1 show ?thesis by (simp add: domain_Create_def routing_inv_calls)
    next
      case (Inr target)
      obtain c2 u where q: "ensureUniqueDomain fails (dt_Domain target) [] c1 = (c2, u)" by fastforce
      obtain n2 where c2: "c2 = c1\<lparr>co_calls := n2\<rparr>" using ensureUniqueDomain_state [OF q] by blast
      have i2: "routing_inv (es @ [e]) c2" using more by (simp add: c1 c2 routing_inv_calls)
      show ?thesis
      proof (cases u)
        case (Some x)
        with CreateTarget t Inr q i2 show ?thesis by (simp add: domain_Create_def)
      next
        case None
        have "routing_inv (es @ [e]) (fst (store fails (\<lambda>ok. CreateDomainTarget ok uuid target) c2))"
          by (rule store_inv [OF i2]) (rule create_rows)
        with CreateTarget t Inr q None show ?thesis by (simp add: domain_Create_def)
      qed
    qed
  next
    case (UpdateTarget i input)
    show ?thesis
    proof (cases "trim_space i = []")
      case True
      with UpdateTarget more show ?thesis by (simp add: domain_Update_def)
    next
      case ne: False
      obtain c1 r where t: "targetFromInput fails input c = (c1, r)" by fastforce
      obtain n where c1: "c1 = c\<lparr>co_calls := n\<rparr>" using targetFromInput_state [OF t] by blast
      show ?thesis
      proof (cases r)
        case (Inl x)
        with UpdateTarget t more c1 ne show ?thesis by (simp add: domain_Update_def routing_inv_calls)
      next
        case (Inr target)
        obtain c2 u where q: "ensureUniqueDomain fails (dt_Domain target) (trim_space i) c1 = (c2, u)" by fastforce
        obtain n2 where c2: "c2 = c1\<lparr>co_calls := n2\<rparr>" using ensureUniqueDomain_state [OF q] by blast
        have i2: "routing_inv (es @ [e]) c2" using more by (simp add: c1 c2 routing_inv_calls)
        show ?thesis
        proof (cases u)
          case (Some x)
          with UpdateTarget t Inr q i2 ne show ?thesis by (simp add: domain_Update_def)
        next
          case None
          have "routing_inv (es @ [e]) (fst (store fails (\<lambda>ok. UpdateDomainTarget ok (trim_space i) target) c2))"
            by (rule store_inv [OF i2]) (rule update_rows)
          with UpdateTarget t Inr q None ne show ?thesis by (simp add: domain_Update_def Let_def)
        qed
      qed
    qed
  next
    case (DeleteTarget i)
    have "routing_inv (es @ [e]) (fst (store fails (\<lambda>ok. DeleteDomainTargetByID ok (trim_space i)) c))"
      by (rule store_inv [OF more]) (rule delete_rows)
    with DeleteTarget more show ?thesis by (simp add: domain_Delete_def Let_def)
  next
    case (StageTarget i s)
    have "routing_inv (es @ [e]) (fst (store fails (\<lambda>ok. SetDomainTargetStage ok (trim_space i) (trim_space s)) c))"
    proof (rule store_inv [OF more])
      fix ok db db' assume "SetDomainTargetStage ok (trim_space i) (trim_space s) db = (db', None)" "rows_ok db" "rows_asked (es @ [e]) db"
      from stage_rows [OF this StageTarget refl refl] show "rows_ok db' \<and> rows_asked (es @ [e]) db'"
        by (auto simp: rows_asked_def asked_def)
    qed
    with StageTarget more show ?thesis by (simp add: SetStage_def Let_def)
  next
    case BootReady
    obtain c1 ok where r: "reconcileLocked fails (c\<lparr>co_ready := True\<rparr>) = (c1, ok)" by fastforce
    have i: "routing_inv (es @ [e]) c1"
      using reconcile_inv [of "c\<lparr>co_ready := True\<rparr>" "es @ [e]", OF _ _ _ _ _ r] more BootReady by (auto simp: routing_inv_def)
    show ?thesis
    proof (cases ok)
      case True
      with r i BootReady show ?thesis by (simp add: Prepare_def)
    next
      case False
      then have "co_lastError c1" using r by (auto simp: reconcileLocked_def db_call_def Let_def split: bool.splits)
      with False r i BootReady show ?thesis by (simp add: Prepare_def routing_inv_def)
    qed
  next
    case BootHeld
    obtain c1 ok where r: "reconcileLocked fails (c\<lparr>co_ready := False\<rparr>) = (c1, ok)" by fastforce
    have "routing_inv (es @ [e]) c1"
      using reconcile_inv [of "c\<lparr>co_ready := False\<rparr>" "es @ [e]", OF _ _ _ _ _ r] more by (auto simp: routing_inv_def)
    with r BootHeld show ?thesis by (simp add: Hold_def)
  next
    case Reconciles
    obtain c1 ok where r: "reconcileLocked fails c = (c1, ok)" by fastforce
    have "routing_inv (es @ [e]) c1"
      using reconcile_inv [of c "es @ [e]", OF _ _ _ _ _ r] more by (auto simp: routing_inv_def)
    with r Reconciles show ?thesis by (simp add: domain_Reconcile_def)
  next
    case (RowsChange ls g)
    with more show ?thesis by (simp add: routing_inv_def rows_ok_def rows_asked_def)
  qed
qed

definition routed :: "(nat \<Rightarrow> bool) \<Rightarrow> routing_call list \<Rightarrow> link list \<Rightarrow> bool option \<Rightarrow> coordinator" where
  "routed fails es ls g = fold (routing_step fails) es (new_coordinator ls g)"

lemma routed_inv: "routing_inv es (routed fails es ls g)"
proof (induction es rule: rev_induct)
  case Nil
  show ?case by (simp add: routed_def new_coordinator_def routing_inv_def rows_ok_def rows_asked_def acting_def)
next
  case (snoc e es)
  then show ?case using routing_step_inv [OF snoc, of e fails] by (simp add: routed_def)
qed


subsection \<open>Properties\<close>

text \<open>Whatever the panel asks for and whichever calls of the database fail, the rows stay well formed: no domain and no
  id twice; every domain in its normal form; a target that bars has no link and one that routes has one; the stage is one
  of the two.\<close>

theorem target_rows_stay_well_formed: "rows_ok (co_db (routed fails es ls g))"
  using routed_inv [of es fails ls g] by (simp add: routing_inv_def)

text \<open>What makes a target fit to act: its WAN is there, on, has an interface and a table, and is not down; or the blocking
  group is there and on.\<close>

definition fit :: "routing_db \<Rightarrow> domain_target \<Rightarrow> alvo \<Rightarrow> bool" where
  "fit db t a \<longleftrightarrow>
     (if av_Capacidade a = Direcionar then
        (case link_row db (dt_LinkID t) of
           None \<Rightarrow> False
         | Some l \<Rightarrow> l_Enabled l \<and> trim_space (l_Interface l) \<noteq> [] \<and> 0 < l_TableID l
             \<and> go_lower (trim_space (l_Status l)) \<in> {''online'', ''degraded''} \<and> av_Marca a = word_of_int (l_TableID l))
      else av_Capacidade a = Barrar \<and> rd_blocklist db = Some True)"

text \<open>C8. Nothing acts unasked, or unfit when it was last looked at.  Whatever the panel asks for, whenever the coordinator
  is told to reconcile, however the links and the blocking group change in between (a change of them need not be followed by
  a reconciliation) and whichever calls of the database fail: a target acts in the index only if the start of the program
  was found ready and some target was moved to acting; and, unless the last reading of the rows failed (which the state
  shows), the program is still ready, the target is a row that was itself moved to acting, and its WAN or the blocking
  group is fit, with the mark of that WAN, by the rows of links and groups as the last reading found them.\<close>

theorem only_fit_and_asked_targets_act:
  fixes fails es ls g
  defines "c \<equiv> routed fails es ls g"
  assumes "a \<in> set (co_runtime c)" "av_Estagio a = Ativo"
  shows "BootReady \<in> set es \<and> (\<exists>i. asked es i)
    \<and> (co_lastError c \<or> co_ready c \<and> (\<exists>t\<in>set (rd_targets (co_db c)). asked es (dt_ID t) \<and> dt_Domain t = av_Dominio a \<and> fit (as_read c) t a))"
proof -
  have i: "routing_inv es c" unfolding c_def by (rule routed_inv)
  have "acting (co_runtime c)" using assms(2,3) by (auto simp: acting_def list_ex_iff)
  moreover have "0 < co_generation c" using i assms(2) by (cases "co_generation c") (auto simp: routing_inv_def)
  moreover have "co_ready c \<and> (\<exists>t\<in>set (rd_targets (co_db c)). asked es (dt_ID t) \<and> dt_Domain t = av_Dominio a \<and> fit (as_read c) t a)"
    if "co_runtime c = published (co_ready c) (as_read c)"
  proof -
    have "a \<in> set (published (co_ready c) (as_read c))" using assms(2) that by simp
    then obtain t v where t: "t \<in> set (rd_targets (co_db c))" "resolve (co_ready c) (as_read c) t = (v, Some a)"
      unfolding published_mem as_read_simps by (metis prod.collapse)
    note r = resolve_acting [OF t(2) assms(3)]
    have ok: "row_ok t" "asked es (dt_ID t)" using i t(1) r by (auto simp: routing_inv_def rows_ok_def rows_asked_def list_all_iff)
    have "fit (as_read c) t a"
      using r ok(1) by (auto simp: fit_def row_ok_def to_capacidade_def DomainCapBarrar_def DomainCapDirecionar_def split: if_splits)
    with r ok t(1) show ?thesis by (auto simp: row_ok_def)
  qed
  ultimately show ?thesis using i unfolding routing_inv_def by blast
qed

definition wan1 :: link where
  "wan1 = \<lparr>l_ID = ''l1'', l_Name = ''Vivo'', l_Interface = ''eth0'', l_Gateway = ''10.0.0.1'', l_Weight = 1, l_DNSTest = [],
     l_MonitorHosts = [], l_Status = ''online'', l_LatencyMs = 0, l_PacketLoss = 0, l_Enabled = True, l_TableID = 101\<rparr>"

definition routing_demo :: "routing_call list" where
  "routing_demo = [CreateTarget ''t1'' \<lparr>in_Domain = '' Video.Example.com. '', in_Capability = ''direcionar'', in_LinkID = ''l1'', in_Note = []\<rparr>,
     StageTarget ''t1'' ''ativo'', BootReady]"

lemma only_fit_and_asked_targets_act_witness:
  "map av_Estagio (co_runtime (routed (\<lambda>_. False) routing_demo [wan1] None)) = [Ativo] \<and> (\<exists>i. asked routing_demo i)"
proof
  show st: "map av_Estagio (co_runtime (routed (\<lambda>_. False) routing_demo [wan1] None)) = [Ativo]" by code_simp
  then obtain a where a: "a \<in> set (co_runtime (routed (\<lambda>_. False) routing_demo [wan1] None))" "av_Estagio a = Ativo"
    by (cases "co_runtime (routed (\<lambda>_. False) routing_demo [wan1] None)") auto
  from only_fit_and_asked_targets_act [OF a] show "\<exists>i. asked routing_demo i" by blast
qed

text \<open>C9. An edit goes around the trial.  Only \<open>SetStage\<close> is meant to make a domain act, after it was on trial; but the
  stage belongs to the row, and an edit of an acting row may change its domain: the new domain acts at once, without a
  trial.\<close>

theorem edit_goes_around_the_trial:
  assumes "fails = (\<lambda>_. False)" "t \<in> set (rd_targets (co_db c))" "dt_Stage t = DomainStageAtivo" "trim_space (dt_ID t) = dt_ID t" "dt_ID t \<noteq> []"
    and "co_ready c" "rd_blocklist (co_db c) = Some True"
    and "NormalizeDomainTarget (in_Domain i) = Some d" "in_Capability i = DomainCapBarrar" "in_LinkID i = []" "note_ok (trim_space (in_Note i))"
    and "list_all (\<lambda>r. dt_Domain r \<noteq> d \<or> dt_ID r = dt_ID t) (rd_targets (co_db c))" "domain_Update fails (dt_ID t) i c = (c', r)"
  shows "r = None \<and> \<lparr>av_Dominio = d, av_Capacidade = Barrar, av_Estagio = Ativo, av_Marca = 0\<rparr> \<in> set (co_runtime c')"
proof -
  define target where "target = \<lparr>dt_ID = [], dt_Domain = d, dt_Capability = DomainCapBarrar, dt_Stage = [], dt_LinkID = [], dt_LinkName = [],
    dt_Mark = 0, dt_Note = trim_space (in_Note i)\<rparr>"
  have tb: "trim_space DomainCapBarrar = DomainCapBarrar" "trim_space [] = ([] :: string)" "DomainCapBarrar \<noteq> DomainCapDirecionar"
    "DomainStageAtivo \<noteq> DomainStageEnsaio"
    by code_simp+
  have tf: "targetFromInput fails i c = (c, Inr target)"
    using assms(8-11) tb by (simp add: targetFromInput_def Let_def target_def)
  let ?c1 = "c\<lparr>co_calls := Suc (co_calls c)\<rparr>"
  have nu: "\<not> list_ex (\<lambda>r. dt_Domain r = d \<and> dt_ID r \<noteq> dt_ID t) (rd_targets (co_db c))"
    using assms(12) by (auto simp: list_all_iff list_ex_iff)
  have eu: "ensureUniqueDomain fails (dt_Domain target) (dt_ID t) c = (?c1, None)"
    using nu assms(1) by (simp add: ensureUniqueDomain_def db_call_def target_def)
  have nt: "normalizeDomainTarget target = Some target"
    using normal_again [OF assms(8)] tb assms(11) by (simp add: normalizeDomainTarget_def target_def Let_def)
  define f where "f r = (if dt_ID r = dt_ID t then r\<lparr>dt_Domain := d, dt_Capability := DomainCapBarrar, dt_LinkID := [], dt_LinkName := [], dt_Mark := 0,
     dt_Note := trim_space (in_Note i)\<rparr> else r)" for r :: domain_target
  let ?db = "(co_db c)\<lparr>rd_targets := map f (rd_targets (co_db c))\<rparr>"
  have up: "UpdateDomainTarget True (dt_ID t) target (co_db c) = (?db, None)"
    using nt nu assms(2,4) by (auto simp: UpdateDomainTarget_def target_def f_def [abs_def] list_ex_iff)
  have "r = None \<and> co_runtime c' = published True ?db"
    using assms(1,4,5,6,13) tf eu up
    by (auto simp: domain_Update_def store_def db_call_def reconcileLocked_def Let_def published_def)
  moreover have "snd (resolve True ?db (f t)) = Some \<lparr>av_Dominio = d, av_Capacidade = Barrar, av_Estagio = Ativo, av_Marca = 0\<rparr>"
    using normal_again [OF assms(8)] tb assms(3,7)
    by (simp add: resolve_def Let_def f_def view_of_def block_reason_def to_capacidade_def to_estagio_def)
  moreover have "f t \<in> set (rd_targets ?db)" using assms(2) by simp
  ultimately have "\<lparr>av_Dominio = d, av_Capacidade = Barrar, av_Estagio = Ativo, av_Marca = 0\<rparr> \<in> set (published True ?db)"
    and "r = None \<and> co_runtime c' = published True ?db" unfolding published_mem by blast+
  then show ?thesis by simp
qed

lemma edit_goes_around_the_trial_witness:
  "\<lparr>av_Dominio = ''bank.example'', av_Capacidade = Barrar, av_Estagio = Ativo, av_Marca = 0\<rparr>
     \<in> set (co_runtime (fst (domain_Update (\<lambda>_. False) ''t1'' \<lparr>in_Domain = ''Bank.example'', in_Capability = DomainCapBarrar, in_LinkID = [], in_Note = []\<rparr>
          (routed (\<lambda>_. False) routing_demo [wan1] (Some True)))))"
proof -
  let ?c = "routed (\<lambda>_. False) routing_demo [wan1] (Some True)"
  let ?t = "hd (rd_targets (co_db ?c))"
  let ?i = "\<lparr>in_Domain = ''Bank.example'', in_Capability = DomainCapBarrar, in_LinkID = [], in_Note = []\<rparr>"
  have id: "dt_ID ?t = ''t1''" by code_simp
  have h: "?t \<in> set (rd_targets (co_db ?c))"
  proof (rule hd_in_set)
    have "length (rd_targets (co_db ?c)) = 1" by code_simp
    then show "rd_targets (co_db ?c) \<noteq> []" by auto
  qed
  have g: "dt_Stage ?t = DomainStageAtivo" "trim_space (dt_ID ?t) = dt_ID ?t" "dt_ID ?t \<noteq> []" "co_ready ?c"
    "rd_blocklist (co_db ?c) = Some True" "NormalizeDomainTarget (in_Domain ?i) = Some ''bank.example''" "in_Capability ?i = DomainCapBarrar"
    "in_LinkID ?i = []" "note_ok (trim_space (in_Note ?i))"
    "list_all (\<lambda>r. dt_Domain r \<noteq> ''bank.example'' \<or> dt_ID r = dt_ID ?t) (rd_targets (co_db ?c))" by code_simp+
  from edit_goes_around_the_trial [OF refl h g prod.collapse [symmetric]] show ?thesis unfolding id by blast
qed

end
