(* ===== verification/Rbac.thy ===== *)
theory Rbac
  imports Prelude
begin

text \<open>
  Accounts and roles: the catalog of permissions and the built-in roles (\<open>internal/auth/permissions.go\<close>), the
  tables (\<open>internal/storage/repo_rbac.go\<close>), the check of a session and of a permission
  (\<open>internal/auth/middleware.go\<close>) and the handlers that change them (\<open>internal/api/handlers/users.go\<close>,
  \<open>roles.go\<close>).  A table is the list of its rows; one function of the repository is one call, which may fail and
  then changes nothing, as its transaction is rolled back.  bcrypt is a parameter: \<open>be_hash\<close> and \<open>be_check\<close>.
  Times of creation, names shown only in the panel and the VPN rows a deleted user owned are left out.
\<close>

subsection \<open>The catalog\<close>

definition PermUsersManage :: string where "PermUsersManage = ''users.manage''"
definition PermRolesManage :: string where "PermRolesManage = ''roles.manage''"

definition Catalog :: "string list" where
  "Catalog = [''dashboard.read'', ''monitoring.read'', ''monitoring.write'', ''traffic.capture'', ''traffic.flows'',
     ''logs.read'', ''links.read'', ''links.write'', ''routes.read'', ''routes.write'', ''firewall.read'',
     ''firewall.write'', ''hosts.read'', ''hosts.block'', ''hosts.assign'', ''hosts.quota'', ''system.read'',
     ''system.write'', ''dhcp.read'', ''dhcp.write'', ''dns.read'', ''dns.write'', ''interfaces.read'',
     ''interfaces.write'', ''ntp.read'', ''ntp.write'', ''vpn.read'', ''vpn.write'', ''vpn.enroll'',
     ''users.manage'', ''roles.manage'']"

definition allPermissions :: "string list" where
  "allPermissions = Catalog"

definition IsValidPermission :: "string \<Rightarrow> bool" where
  "IsValidPermission key \<longleftrightarrow> key \<in> set Catalog"

definition readOnlyPermissions :: "string list" where
  "readOnlyPermissions =
     filter (\<lambda>p. p \<in> set [''dashboard.read'', ''monitoring.read'', ''logs.read'', ''links.read'', ''routes.read'',
       ''firewall.read'', ''hosts.read'', ''system.read'', ''dhcp.read'', ''dns.read'', ''interfaces.read'', ''ntp.read'']) Catalog"

record role_seed =
  sd_ID :: string
  sd_Name :: string
  sd_Permissions :: "string list"
  sd_AlwaysSync :: bool

definition DefaultRoles :: "(string \<times> string \<times> string list) list" where
  "DefaultRoles =
     [(''role-admin'', ''Administrador'', allPermissions),
      (''role-operator'', ''Operador'',
        [''dashboard.read'', ''monitoring.read'', ''monitoring.write'', ''traffic.capture'', ''logs.read'',
         ''links.read'', ''links.write'', ''routes.read'', ''routes.write'', ''firewall.read'', ''firewall.write'',
         ''hosts.read'', ''hosts.block'', ''hosts.assign'', ''hosts.quota'', ''system.read'',
         ''dhcp.read'', ''dhcp.write'', ''dns.read'', ''dns.write'', ''interfaces.read'', ''interfaces.write'',
         ''ntp.read'', ''ntp.write'']),
      (''role-viewer'', ''Visualizador'', readOnlyPermissions)]"

text \<open>\<open>seedDefaultRoles\<close> of \<open>main.go\<close>: the last role so far that may manage users is the admin role, kept in step with
  the catalog.\<close>

fun role_seeds :: "string \<Rightarrow> (string \<times> string \<times> string list) list \<Rightarrow> role_seed list \<times> string" where
  "role_seeds admin [] = ([], admin)"
| "role_seeds admin ((i, n, ps) # rs) =
     (let admin' = (if PermUsersManage \<in> set ps then i else admin) in
      case role_seeds admin' rs of
        (sds, a) \<Rightarrow> (\<lparr>sd_ID = i, sd_Name = n, sd_Permissions = ps, sd_AlwaysSync = (i = admin')\<rparr> # sds, a))"

subsection \<open>The tables\<close>

record user =
  us_ID :: string
  us_Username :: string
  us_Password :: string
  us_PasswordVersion :: nat

record role =
  ro_ID :: string
  ro_Name :: string
  ro_Builtin :: bool

record audit_entry =
  ae_Action :: string
  ae_Resource :: string

record rbac =
  rb_users :: "user list"
  rb_roles :: "role list"
  rb_rolePerms :: "(string \<times> string) list"
  rb_userRoles :: "(string \<times> string) list"
  rb_audit :: "audit_entry list"
  rb_calls :: nat

record rbac_env =
  be_fails :: "nat \<Rightarrow> bool"
  be_hash :: "string \<Rightarrow> string option"
  be_check :: "string \<Rightarrow> string \<Rightarrow> bool"

definition call :: "rbac_env \<Rightarrow> rbac \<Rightarrow> rbac \<times> bool" where
  "call env s = (s\<lparr>rb_calls := Suc (rb_calls s)\<rparr>, \<not> be_fails env (rb_calls s))"

definition find_user :: "string \<Rightarrow> rbac \<Rightarrow> user option" where
  "find_user i s = find (\<lambda>u. us_ID u = i) (rb_users s)"

definition find_role :: "string \<Rightarrow> rbac \<Rightarrow> role option" where
  "find_role i s = find (\<lambda>r. ro_ID r = i) (rb_roles s)"

definition role_perms :: "rbac \<Rightarrow> string \<Rightarrow> string list" where
  "role_perms s r = map snd (filter (\<lambda>x. fst x = r) (rb_rolePerms s))"

definition roles_of :: "rbac \<Rightarrow> string \<Rightarrow> string list" where
  "roles_of s u = map snd (filter (\<lambda>x. fst x = u) (rb_userRoles s))"

text \<open>The join of \<open>GetUserPermissions\<close>.\<close>

definition perms_of :: "rbac \<Rightarrow> string \<Rightarrow> string list" where
  "perms_of s u = remdups (concat (map (role_perms s) (roles_of s u)))"

definition GetUserPermissions :: "rbac_env \<Rightarrow> string \<Rightarrow> rbac \<Rightarrow> rbac \<times> string list option" where
  "GetUserPermissions env u s = (case call env s of (s1, ok) \<Rightarrow> (s1, if ok then Some (perms_of s u) else None))"

definition GetUserByID :: "rbac_env \<Rightarrow> string \<Rightarrow> rbac \<Rightarrow> rbac \<times> user option option" where
  "GetUserByID env i s = (case call env s of (s1, ok) \<Rightarrow> (s1, if ok then Some (find_user i s) else None))"

definition GetUserByUsername :: "rbac_env \<Rightarrow> string \<Rightarrow> rbac \<Rightarrow> rbac \<times> user option option" where
  "GetUserByUsername env n s =
     (case call env s of (s1, ok) \<Rightarrow> (s1, if ok then Some (find (\<lambda>u. us_Username u = n) (rb_users s)) else None))"

definition GetRole :: "rbac_env \<Rightarrow> string \<Rightarrow> rbac \<Rightarrow> rbac \<times> (role \<times> string list) option option" where
  "GetRole env i s =
     (case call env s of (s1, ok) \<Rightarrow>
        (s1, if ok then Some (map_option (\<lambda>r. (r, role_perms s i)) (find_role i s)) else None))"

text \<open>Each user with its roles.\<close>

definition ListUsers :: "rbac_env \<Rightarrow> rbac \<Rightarrow> rbac \<times> (user \<times> string list) list option" where
  "ListUsers env s =
     (case call env s of (s1, ok) \<Rightarrow> (s1, if ok then Some (map (\<lambda>u. (u, roles_of s (us_ID u))) (rb_users s)) else None))"

definition CountUsersWithRole :: "rbac_env \<Rightarrow> string \<Rightarrow> rbac \<Rightarrow> rbac \<times> nat option" where
  "CountUsersWithRole env r s =
     (case call env s of (s1, ok) \<Rightarrow> (s1, if ok then Some (length (filter (\<lambda>x. snd x = r) (rb_userRoles s))) else None))"

text \<open>\<open>replaceUserRoles\<close>: one row per role, each an existing role, none twice (the keys of the table).\<close>

definition replaceUserRoles :: "string \<Rightarrow> string list \<Rightarrow> rbac \<Rightarrow> rbac option" where
  "replaceUserRoles u rids s =
     (if distinct rids \<and> list_all (\<lambda>r. find_role r s \<noteq> None) rids \<and> (rids = [] \<or> find_user u s \<noteq> None) then
        Some (s\<lparr>rb_userRoles := filter (\<lambda>x. fst x \<noteq> u) (rb_userRoles s) @ map (\<lambda>r. (u, r)) rids\<rparr>)
      else None)"

definition CreateUser :: "rbac_env \<Rightarrow> string \<Rightarrow> string \<Rightarrow> string \<Rightarrow> string list \<Rightarrow> rbac \<Rightarrow> rbac \<times> bool" where
  "CreateUser env i username hashed rids s =
     (case call env s of (s1, ok) \<Rightarrow>
        if \<not> ok \<or> find_user i s \<noteq> None \<or> list_ex (\<lambda>u. us_Username u = username) (rb_users s) then (s1, False)
        else case replaceUserRoles i rids
               (s1\<lparr>rb_users := rb_users s @ [\<lparr>us_ID = i, us_Username = username, us_Password = hashed, us_PasswordVersion = 1\<rparr>]\<rparr>) of
          None \<Rightarrow> (s1, False)
        | Some s2 \<Rightarrow> (s2, True))"

definition UpdateUserPassword :: "rbac_env \<Rightarrow> string \<Rightarrow> string \<Rightarrow> rbac \<Rightarrow> rbac \<times> bool" where
  "UpdateUserPassword env i hashed s =
     (case call env s of (s1, ok) \<Rightarrow>
        if \<not> ok then (s1, False)
        else (s1\<lparr>rb_users := map (\<lambda>u. if us_ID u = i then u\<lparr>us_Password := hashed, us_PasswordVersion := us_PasswordVersion u + 1\<rparr> else u)
                (rb_users s)\<rparr>, True))"

definition SetUserRoles :: "rbac_env \<Rightarrow> string \<Rightarrow> string list \<Rightarrow> rbac \<Rightarrow> rbac \<times> bool" where
  "SetUserRoles env i rids s =
     (case call env s of (s1, ok) \<Rightarrow>
        if \<not> ok then (s1, False) else case replaceUserRoles i rids s1 of None \<Rightarrow> (s1, False) | Some s2 \<Rightarrow> (s2, True))"

definition DeleteUser :: "rbac_env \<Rightarrow> string \<Rightarrow> rbac \<Rightarrow> rbac \<times> bool" where
  "DeleteUser env i s =
     (case call env s of (s1, ok) \<Rightarrow>
        if \<not> ok then (s1, False)
        else (s1\<lparr>rb_users := filter (\<lambda>u. us_ID u \<noteq> i) (rb_users s), rb_userRoles := filter (\<lambda>x. fst x \<noteq> i) (rb_userRoles s)\<rparr>, True))"

definition replaceRolePermissions :: "string \<Rightarrow> string list \<Rightarrow> rbac \<Rightarrow> rbac" where
  "replaceRolePermissions r ps s =
     s\<lparr>rb_rolePerms := filter (\<lambda>x. fst x \<noteq> r) (rb_rolePerms s) @ map (\<lambda>p. (r, p)) (remdups ps)\<rparr>"

definition CreateRole :: "rbac_env \<Rightarrow> role \<Rightarrow> string list \<Rightarrow> rbac \<Rightarrow> rbac \<times> bool" where
  "CreateRole env r ps s =
     (case call env s of (s1, ok) \<Rightarrow>
        if \<not> ok \<or> find_role (ro_ID r) s \<noteq> None \<or> list_ex (\<lambda>x. ro_Name x = ro_Name r) (rb_roles s) then (s1, False)
        else (replaceRolePermissions (ro_ID r) ps (s1\<lparr>rb_roles := rb_roles s @ [r]\<rparr>), True))"

definition UpdateRole :: "rbac_env \<Rightarrow> role \<Rightarrow> string list \<Rightarrow> rbac \<Rightarrow> rbac \<times> bool" where
  "UpdateRole env r ps s =
     (case call env s of (s1, ok) \<Rightarrow>
        if \<not> ok \<or> list_ex (\<lambda>x. ro_Name x = ro_Name r \<and> ro_ID x \<noteq> ro_ID r) (rb_roles s)
           \<or> find_role (ro_ID r) s = None \<and> ps \<noteq> [] then (s1, False)
        else (replaceRolePermissions (ro_ID r) ps
                (s1\<lparr>rb_roles := map (\<lambda>x. if ro_ID x = ro_ID r then x\<lparr>ro_Name := ro_Name r\<rparr> else x) (rb_roles s)\<rparr>), True))"

definition DeleteRole :: "rbac_env \<Rightarrow> string \<Rightarrow> rbac \<Rightarrow> rbac \<times> bool" where
  "DeleteRole env i s =
     (case call env s of (s1, ok) \<Rightarrow>
        if \<not> ok then (s1, False)
        else (s1\<lparr>rb_rolePerms := filter (\<lambda>x. fst x \<noteq> i) (rb_rolePerms s),
                  rb_userRoles := filter (\<lambda>x. snd x \<noteq> i) (rb_userRoles s),
                  rb_roles := filter (\<lambda>r. ro_ID r \<noteq> i) (rb_roles s)\<rparr>, True))"

text \<open>At every start: the built-in roles, the permissions of the admin role, and the admin role for the first account
  when it has no role.\<close>

definition add_perm :: "string \<Rightarrow> string \<Rightarrow> rbac \<Rightarrow> rbac" where
  "add_perm r p s = (if (r, p) \<in> set (rb_rolePerms s) then s else s\<lparr>rb_rolePerms := rb_rolePerms s @ [(r, p)]\<rparr>)"

definition seed_role :: "role_seed \<Rightarrow> rbac \<Rightarrow> rbac option" where
  "seed_role sd s =
     (if find_role (sd_ID sd) s \<noteq> None then
        Some (if sd_AlwaysSync sd then fold (add_perm (sd_ID sd)) (sd_Permissions sd) s else s)
      else if list_ex (\<lambda>x. ro_Name x = sd_Name sd) (rb_roles s) then None
      else Some (fold (add_perm (sd_ID sd)) (sd_Permissions sd)
             (s\<lparr>rb_roles := rb_roles s @ [\<lparr>ro_ID = sd_ID sd, ro_Name = sd_Name sd, ro_Builtin = True\<rparr>]\<rparr>)))"

fun seed_roles :: "role_seed list \<Rightarrow> rbac \<Rightarrow> rbac option" where
  "seed_roles [] s = Some s"
| "seed_roles (sd # sds) s = (case seed_role sd s of None \<Rightarrow> None | Some s1 \<Rightarrow> seed_roles sds s1)"

definition EnsureDefaultRoles :: "rbac_env \<Rightarrow> role_seed list \<Rightarrow> string \<Rightarrow> rbac \<Rightarrow> rbac \<times> bool" where
  "EnsureDefaultRoles env seeds adminRoleID s =
     (case call env s of (s1, ok) \<Rightarrow>
        if \<not> ok then (s1, False)
        else case seed_roles seeds s1 of
          None \<Rightarrow> (s1, False)
        | Some s2 \<Rightarrow>
            if find_user ''default-admin'' s2 \<noteq> None \<and> roles_of s2 ''default-admin'' = [] \<and> adminRoleID \<noteq> [] then
              (if find_role adminRoleID s2 = None then (s1, False)
               else (s2\<lparr>rb_userRoles := rb_userRoles s2 @ [(''default-admin'', adminRoleID)]\<rparr>, True))
            else (s2, True))"

text \<open>The first account when there is none: whether it was created, or an error.\<close>

definition SeedInitialAdmin :: "rbac_env \<Rightarrow> string \<Rightarrow> rbac \<Rightarrow> rbac \<times> bool option" where
  "SeedInitialAdmin env hashed s =
     (case call env s of (s1, ok) \<Rightarrow>
        if \<not> ok then (s1, None)
        else if length (rb_users s) > 0 then (s1, Some False)
        else case call env s1 of (s2, ok2) \<Rightarrow>
          if \<not> ok2 then (s2, None)
          else (s2\<lparr>rb_users := [\<lparr>us_ID = ''default-admin'', us_Username = ''admin'', us_Password = hashed, us_PasswordVersion = 1\<rparr>]\<rparr>, Some True))"

text \<open>What every start does to the tables, with the password generated for a first account.\<close>

definition boot :: "rbac_env \<Rightarrow> string \<Rightarrow> rbac \<Rightarrow> rbac \<times> bool" where
  "boot env pw s =
     (case be_hash env pw of
        None \<Rightarrow> (s, False)
      | Some hashed \<Rightarrow>
          (case SeedInitialAdmin env hashed s of
             (s1, None) \<Rightarrow> (s1, False)
           | (s1, Some _) \<Rightarrow>
               (case role_seeds [] DefaultRoles of (seeds, admin) \<Rightarrow> EnsureDefaultRoles env seeds admin s1)))"

definition no_tables :: rbac where
  "no_tables = \<lparr>rb_users = [], rb_roles = [], rb_rolePerms = [], rb_userRoles = [], rb_audit = [], rb_calls = 0\<rparr>"


subsection \<open>Who may\<close>

record claims =
  cl_UserID :: string
  cl_Username :: string
  cl_PasswordVersion :: nat

text \<open>\<open>Middleware\<close>, after the token itself was found valid: the status of a refusal, or None.\<close>

definition Middleware :: "rbac_env \<Rightarrow> claims \<Rightarrow> rbac \<Rightarrow> rbac \<times> nat option" where
  "Middleware env c s =
     (case GetUserByID env (cl_UserID c) s of
        (s1, None) \<Rightarrow> (s1, Some 500)
      | (s1, Some None) \<Rightarrow> (s1, Some 401)
      | (s1, Some (Some u)) \<Rightarrow> (s1, if us_PasswordVersion u \<noteq> cl_PasswordVersion c then Some 401 else None))"

definition Require :: "rbac_env \<Rightarrow> claims \<Rightarrow> string \<Rightarrow> rbac \<Rightarrow> rbac \<times> nat option" where
  "Require env c perm s =
     (case GetUserPermissions env (cl_UserID c) s of
        (s1, None) \<Rightarrow> (s1, Some 500)
      | (s1, Some ps) \<Rightarrow> (s1, if perm \<in> set ps then None else Some 403))"

subsection \<open>The handlers\<close>

text \<open>\<open>auditAction\<close> ignores a failure.\<close>

definition auditAction :: "rbac_env \<Rightarrow> string \<Rightarrow> string \<Rightarrow> rbac \<Rightarrow> rbac" where
  "auditAction env action resource s =
     (case call env s of (s1, ok) \<Rightarrow>
        if ok then s1\<lparr>rb_audit := rb_audit s1 @ [\<lparr>ae_Action = action, ae_Resource = resource\<rparr>]\<rparr> else s1)"

fun validateRoles :: "rbac_env \<Rightarrow> string list \<Rightarrow> rbac \<Rightarrow> rbac \<times> bool" where
  "validateRoles env [] s = (s, True)"
| "validateRoles env (r # rs) s =
     (case GetRole env r s of
        (s1, Some (Some _)) \<Rightarrow> validateRoles env rs s1
      | (s1, _) \<Rightarrow> (s1, False))"

fun rolesGrant :: "rbac_env \<Rightarrow> string list \<Rightarrow> string \<Rightarrow> rbac \<Rightarrow> rbac \<times> bool" where
  "rolesGrant env [] perm s = (s, False)"
| "rolesGrant env (r # rs) perm s =
     (case GetRole env r s of
        (s1, Some (Some (_, ps))) \<Rightarrow> if perm \<in> set ps then (s1, True) else rolesGrant env rs perm s1
      | (s1, _) \<Rightarrow> rolesGrant env rs perm s1)"

fun some_admin :: "rbac_env \<Rightarrow> string \<Rightarrow> string list \<Rightarrow> (user \<times> string list) list \<Rightarrow> rbac \<Rightarrow> rbac \<times> bool" where
  "some_admin env i rids [] s = (s, False)"
| "some_admin env i rids ((u, rs) # us) s =
     (case rolesGrant env (if us_ID u = i then rids else rs) PermUsersManage s of
        (s1, True) \<Rightarrow> (s1, True)
      | (s1, False) \<Rightarrow> some_admin env i rids us s1)"

definition guardLastAdmin :: "rbac_env \<Rightarrow> string \<Rightarrow> string list \<Rightarrow> rbac \<Rightarrow> rbac \<times> bool" where
  "guardLastAdmin env i rids s =
     (case ListUsers env s of
        (s1, None) \<Rightarrow> (s1, False)
      | (s1, Some us) \<Rightarrow> some_admin env i rids us s1)"

definition permissionsBeyond :: "rbac_env \<Rightarrow> string \<Rightarrow> string \<Rightarrow> rbac \<Rightarrow> rbac \<times> string list option" where
  "permissionsBeyond env target actor s =
     (case GetUserPermissions env target s of
        (s1, None) \<Rightarrow> (s1, None)
      | (s1, Some tp) \<Rightarrow>
          (case GetUserPermissions env actor s1 of
             (s2, None) \<Rightarrow> (s2, None)
           | (s2, Some ap) \<Rightarrow> (s2, Some (filter (\<lambda>p. p \<notin> set ap) tp))))"

text \<open>The gate on granting roles, in \<open>Create\<close> and \<open>Update\<close>.\<close>

definition may_grant :: "rbac_env \<Rightarrow> claims \<Rightarrow> rbac \<Rightarrow> rbac \<times> nat option" where
  "may_grant env c s =
     (case GetUserPermissions env (cl_UserID c) s of
        (s1, None) \<Rightarrow> (s1, Some 500)
      | (s1, Some ps) \<Rightarrow> (s1, if PermRolesManage \<in> set ps then None else Some 403))"

definition users_Create :: "rbac_env \<Rightarrow> claims \<Rightarrow> string \<Rightarrow> string \<Rightarrow> string \<Rightarrow> string list \<Rightarrow> rbac \<Rightarrow> rbac \<times> nat" where
  "users_Create env c uuid username0 password rids s =
     (let username = trim_space username0 in
      if username = [] \<or> password = [] then (s, 400)
      else if length password < 8 then (s, 400)
      else case GetUserByUsername env username s of
        (s1, Some (Some _)) \<Rightarrow> (s1, 409)
      | (s1, _) \<Rightarrow>
          (case validateRoles env rids s1 of
             (s2, False) \<Rightarrow> (s2, 400)
           | (s2, True) \<Rightarrow>
               (case (if length rids > 0 then may_grant env c s2 else (s2, None)) of
                  (s3, Some code) \<Rightarrow> (s3, code)
                | (s3, None) \<Rightarrow>
                    (case be_hash env password of
                       None \<Rightarrow> (s3, 500)
                     | Some h \<Rightarrow>
                         (case CreateUser env uuid username h rids s3 of
                            (s4, False) \<Rightarrow> (s4, 500)
                          | (s4, True) \<Rightarrow> (auditAction env ''user.create'' (''user:'' @ username) s4, 201))))))"

text \<open>The two halves of \<open>Update\<close>: the roles, and the password.\<close>

definition update_roles :: "rbac_env \<Rightarrow> claims \<Rightarrow> string \<Rightarrow> string list \<Rightarrow> rbac \<Rightarrow> rbac \<times> nat option" where
  "update_roles env c i rids s =
     (case may_grant env c s of
        (s1, Some code) \<Rightarrow> (s1, Some code)
      | (s1, None) \<Rightarrow>
          (case validateRoles env rids s1 of
             (s2, False) \<Rightarrow> (s2, Some 400)
           | (s2, True) \<Rightarrow>
               (case guardLastAdmin env i rids s2 of
                  (s3, False) \<Rightarrow> (s3, Some 400)
                | (s3, True) \<Rightarrow>
                    (case SetUserRoles env i rids s3 of
                       (s4, False) \<Rightarrow> (s4, Some 500)
                     | (s4, True) \<Rightarrow> (s4, None)))))"

definition outranks :: "rbac_env \<Rightarrow> claims \<Rightarrow> string \<Rightarrow> rbac \<Rightarrow> rbac \<times> nat option" where
  "outranks env c i s =
     (if cl_UserID c = i then (s, None)
      else case permissionsBeyond env i (cl_UserID c) s of
        (s1, None) \<Rightarrow> (s1, Some 500)
      | (s1, Some extra) \<Rightarrow> (s1, if length extra > 0 then Some 403 else None))"

definition update_password :: "rbac_env \<Rightarrow> claims \<Rightarrow> string \<Rightarrow> string \<Rightarrow> rbac \<Rightarrow> rbac \<times> nat option" where
  "update_password env c i password s =
     (if length password < 8 then (s, Some 400)
      else case outranks env c i s of
        (s1, Some code) \<Rightarrow> (s1, Some code)
      | (s1, None) \<Rightarrow>
          (case be_hash env password of
             None \<Rightarrow> (s1, Some 500)
           | Some h \<Rightarrow>
               (case UpdateUserPassword env i h s1 of
                  (s2, False) \<Rightarrow> (s2, Some 500)
                | (s2, True) \<Rightarrow> (s2, None))))"

definition users_Update :: "rbac_env \<Rightarrow> claims \<Rightarrow> string \<Rightarrow> string option \<Rightarrow> string list option \<Rightarrow> rbac \<Rightarrow> rbac \<times> nat" where
  "users_Update env c i password rids s =
     (case GetUserByID env i s of
        (s1, None) \<Rightarrow> (s1, 500)
      | (s1, Some None) \<Rightarrow> (s1, 404)
      | (s1, Some (Some u)) \<Rightarrow>
          (case (case rids of None \<Rightarrow> (s1, None) | Some rs \<Rightarrow> update_roles env c i rs s1) of
             (s2, Some code) \<Rightarrow> (s2, code)
           | (s2, None) \<Rightarrow>
               (case (case password of None \<Rightarrow> (s2, None) | Some pw \<Rightarrow> update_password env c i pw s2) of
                  (s3, Some code) \<Rightarrow> (s3, code)
                | (s3, None) \<Rightarrow> (auditAction env ''user.update'' (''user:'' @ us_Username u) s3, 200))))"

definition users_Delete :: "rbac_env \<Rightarrow> claims \<Rightarrow> string \<Rightarrow> rbac \<Rightarrow> rbac \<times> nat" where
  "users_Delete env c i s =
     (case GetUserByID env i s of
        (s1, None) \<Rightarrow> (s1, 500)
      | (s1, Some None) \<Rightarrow> (s1, 404)
      | (s1, Some (Some u)) \<Rightarrow>
          if cl_UserID c = i then (s1, 400)
          else (case guardLastAdmin env i [] s1 of
             (s2, False) \<Rightarrow> (s2, 400)
           | (s2, True) \<Rightarrow>
               (case DeleteUser env i s2 of
                  (s3, False) \<Rightarrow> (s3, 500)
                | (s3, True) \<Rightarrow> (auditAction env ''user.delete'' (''user:'' @ us_Username u) s3, 200))))"

definition invalidPermissions :: "string list \<Rightarrow> string" where
  "invalidPermissions ps = (case filter (\<lambda>p. \<not> IsValidPermission p) ps of [] \<Rightarrow> [] | p # _ \<Rightarrow> p)"

definition roles_Create :: "rbac_env \<Rightarrow> string \<Rightarrow> string \<Rightarrow> string list \<Rightarrow> rbac \<Rightarrow> rbac \<times> nat" where
  "roles_Create env uuid name0 ps s =
     (let name = trim_space name0 in
      if name = [] then (s, 400)
      else if invalidPermissions ps \<noteq> [] then (s, 400)
      else case CreateRole env \<lparr>ro_ID = uuid, ro_Name = name, ro_Builtin = False\<rparr> ps s of
        (s1, False) \<Rightarrow> (s1, 500)
      | (s1, True) \<Rightarrow> (auditAction env ''role.create'' (''role:'' @ name) s1, 201))"

definition roles_Update :: "rbac_env \<Rightarrow> string \<Rightarrow> string \<Rightarrow> string list \<Rightarrow> rbac \<Rightarrow> rbac \<times> nat" where
  "roles_Update env i name ps s =
     (case GetRole env i s of
        (s1, None) \<Rightarrow> (s1, 500)
      | (s1, Some None) \<Rightarrow> (s1, 404)
      | (s1, Some (Some (r, _))) \<Rightarrow>
          (let r' = (if trim_space name \<noteq> [] then r\<lparr>ro_Name := trim_space name\<rparr> else r) in
           if invalidPermissions ps \<noteq> [] then (s1, 400)
           else case UpdateRole env r' ps s1 of
             (s2, False) \<Rightarrow> (s2, 500)
           | (s2, True) \<Rightarrow> (auditAction env ''role.update'' (''role:'' @ ro_Name r') s2, 200)))"

definition roles_Delete :: "rbac_env \<Rightarrow> string \<Rightarrow> rbac \<Rightarrow> rbac \<times> nat" where
  "roles_Delete env i s =
     (case GetRole env i s of
        (s1, None) \<Rightarrow> (s1, 500)
      | (s1, Some None) \<Rightarrow> (s1, 404)
      | (s1, Some (Some (r, _))) \<Rightarrow>
          if ro_Builtin r then (s1, 400)
          else (case CountUsersWithRole env i s1 of
             (s2, None) \<Rightarrow> (s2, 500)
           | (s2, Some n) \<Rightarrow>
               if n > 0 then (s2, 400)
               else (case DeleteRole env i s2 of
                  (s3, False) \<Rightarrow> (s3, 500)
                | (s3, True) \<Rightarrow> (auditAction env ''role.delete'' (''role:'' @ ro_Name r) s3, 200))))"

text \<open>\<open>Service.ChangeOwnPassword\<close> and its handler.\<close>

definition ChangeOwnPassword :: "rbac_env \<Rightarrow> claims \<Rightarrow> string \<Rightarrow> string \<Rightarrow> rbac \<Rightarrow> rbac \<times> nat" where
  "ChangeOwnPassword env c current new s =
     (if length new < 8 then (s, 400)
      else case GetUserByID env (cl_UserID c) s of
        (s1, None) \<Rightarrow> (s1, 400)
      | (s1, Some None) \<Rightarrow> (s1, 400)
      | (s1, Some (Some u)) \<Rightarrow>
          if \<not> be_check env (us_Password u) current then (s1, 403)
          else if be_check env (us_Password u) new then (s1, 400)
          else (case be_hash env new of
             None \<Rightarrow> (s1, 400)
           | Some h \<Rightarrow>
               (case UpdateUserPassword env (cl_UserID c) h s1 of
                  (s2, False) \<Rightarrow> (s2, 400)
                | (s2, True) \<Rightarrow> (auditAction env ''password.change'' (''user:'' @ cl_Username c) s2, 200))))"

subsection \<open>The routes\<close>

datatype admin_request =
    PostUser string string string "string list"
  | PutUser string "string option" "string list option"
  | DelUser string
  | PostRole string string "string list"
  | PutRole string string "string list"
  | DelRole string
  | PutOwnPassword string string

fun gate :: "admin_request \<Rightarrow> string option" where
  "gate (PostUser _ _ _ _) = Some PermUsersManage"
| "gate (PutUser _ _ _) = Some PermUsersManage"
| "gate (DelUser _) = Some PermUsersManage"
| "gate (PostRole _ _ _) = Some PermRolesManage"
| "gate (PutRole _ _ _) = Some PermRolesManage"
| "gate (DelRole _) = Some PermRolesManage"
| "gate (PutOwnPassword _ _) = None"

fun handle_req :: "rbac_env \<Rightarrow> claims \<Rightarrow> admin_request \<Rightarrow> rbac \<Rightarrow> rbac \<times> nat" where
  "handle_req env c (PostUser uuid name pw rids) s = users_Create env c uuid name pw rids s"
| "handle_req env c (PutUser i pw rids) s = users_Update env c i pw rids s"
| "handle_req env c (DelUser i) s = users_Delete env c i s"
| "handle_req env c (PostRole uuid name ps) s = roles_Create env uuid name ps s"
| "handle_req env c (PutRole i name ps) s = roles_Update env i name ps s"
| "handle_req env c (DelRole i) s = roles_Delete env i s"
| "handle_req env c (PutOwnPassword cur new) s = ChangeOwnPassword env c cur new s"

definition serve :: "rbac_env \<Rightarrow> claims \<Rightarrow> admin_request \<Rightarrow> rbac \<Rightarrow> rbac \<times> nat" where
  "serve env c rq s =
     (case Middleware env c s of
        (s1, Some code) \<Rightarrow> (s1, code)
      | (s1, None) \<Rightarrow>
          (case (case gate rq of None \<Rightarrow> (s1, None) | Some p \<Rightarrow> Require env c p s1) of
             (s2, Some code) \<Rightarrow> (s2, code)
           | (s2, None) \<Rightarrow> handle_req env c rq s2))"

end
