(* ===== verification/AuthLogin.thy ===== *)
theory AuthLogin
  imports Rbac NetText "HOL-Library.Word"
begin

unbundle bit_operations_syntax

text \<open>
  The login of the panel: the lock after failed attempts (\<open>internal/auth/service.go\<close>), the second factor
  (\<open>internal/auth/twofa.go\<close>) and its codes (\<open>internal/auth/totp.go\<close>).  Times are seconds of the Unix clock.  The
  keyed hash, base 32 and the signature of a token are parameters; so is the vault's failure, call by call.  The vault
  holds the decoded state of a second factor, one entry per name.  A login is two steps, the look at the lock and the
  rest, as other attempts run between them.
\<close>

subsection \<open>Codes\<close>

definition totpDigits :: nat where "totpDigits = 6"
definition totpPeriod :: int where "totpPeriod = 30"

record code_env =
  ce_decode :: "string \<Rightarrow> 8 word list option"
  ce_hmac :: "8 word list \<Rightarrow> 8 word list \<Rightarrow> 8 word list"

definition to_upper :: "string \<Rightarrow> string" where
  "to_upper s = map (\<lambda>c. if of_char c \<ge> (97 :: nat) \<and> of_char c \<le> (122 :: nat) then char_of (of_char c - 32 :: nat) else c) s"

definition put_uint64 :: "64 word \<Rightarrow> 8 word list" where
  "put_uint64 w = map (\<lambda>k. ucast (drop_bit (8 * k) w)) (rev [0..<8])"

definition uint32_at :: "nat \<Rightarrow> 8 word list \<Rightarrow> 32 word" where
  "uint32_at off b = foldl (\<lambda>a x. push_bit 8 a OR ucast x) 0 (take 4 (drop off b))"

text \<open>\<open>%0*d\<close>: at least that many digits, with zeros in front.\<close>

definition pad_digits :: "nat \<Rightarrow> nat \<Rightarrow> string" where
  "pad_digits w n = (let d = nat_digits n in replicate (w - length d) CHR ''0'' @ d)"

definition totpAt :: "code_env \<Rightarrow> string \<Rightarrow> int \<Rightarrow> string option" where
  "totpAt ce secret t =
     (case ce_decode ce (to_upper (trim_space secret)) of
        None \<Rightarrow> None
      | Some key \<Rightarrow>
          (let counter = word_of_int t div 30 :: 64 word;
               sum = ce_hmac ce key (put_uint64 counter);
               offset = unat (last sum AND 15);
               code = unat (uint32_at offset sum AND 0x7fffffff) mod 1000000
           in Some (pad_digits totpDigits code)))"

definition ValidateTOTP :: "code_env \<Rightarrow> string \<Rightarrow> string \<Rightarrow> int \<Rightarrow> bool" where
  "ValidateTOTP ce secret code0 now =
     (let code = trim_space code0 in
      if length code \<noteq> totpDigits then False
      else (case totpAt ce secret now of None \<Rightarrow> False | Some w1 \<Rightarrow>
        w1 = code
        \<or> (case totpAt ce secret (now - totpPeriod) of None \<Rightarrow> False | Some w2 \<Rightarrow>
             w2 = code
             \<or> (case totpAt ce secret (now + totpPeriod) of None \<Rightarrow> False | Some w3 \<Rightarrow> w3 = code))))"


subsection \<open>State\<close>

record two_fa =
  tf_Secret :: string
  tf_Enabled :: bool

record attemptInfo =
  ai_count :: nat
  ai_lockUntil :: int

record auth =
  au_db :: rbac
  au_attempts :: "string \<Rightarrow> attemptInfo option"
  au_vault :: "string \<Rightarrow> two_fa option"
  au_vaultCalls :: nat

record auth_env =
  ae_rb :: rbac_env
  ae_codes :: code_env
  ae_vaultFails :: "nat \<Rightarrow> bool"
  ae_secret :: "string option"
  ae_signs :: bool

definition maxFailedAttempts :: nat where "maxFailedAttempts = 8"
definition lockoutDuration :: int where "lockoutDuration = 15 * 60"

definition no_info :: attemptInfo where
  "no_info = \<lparr>ai_count = 0, ai_lockUntil = 0\<rparr>"

subsection \<open>The lock\<close>

definition lockedOut :: "string \<Rightarrow> int \<Rightarrow> auth \<Rightarrow> bool" where
  "lockedOut key now s = (case au_attempts s key of None \<Rightarrow> False | Some a \<Rightarrow> now < ai_lockUntil a)"

definition recordFailure :: "string \<Rightarrow> int \<Rightarrow> auth \<Rightarrow> auth" where
  "recordFailure key now s =
     (let a = (case au_attempts s key of None \<Rightarrow> no_info | Some a \<Rightarrow> a);
          a1 = a\<lparr>ai_count := ai_count a + 1\<rparr>;
          a2 = (if ai_count a1 \<ge> maxFailedAttempts then a1\<lparr>ai_lockUntil := now + lockoutDuration, ai_count := 0\<rparr> else a1)
      in s\<lparr>au_attempts := (au_attempts s)(key \<mapsto> a2)\<rparr>)"

definition resetAttempts :: "string \<Rightarrow> auth \<Rightarrow> auth" where
  "resetAttempts key s = s\<lparr>au_attempts := (au_attempts s)(key := None)\<rparr>"

subsection \<open>The second factor\<close>

definition twoFAKey :: "string \<Rightarrow> string" where "twoFAKey userID = ''totp_'' @ userID"
definition twoFAPendingKey :: "string \<Rightarrow> string" where "twoFAPendingKey userID = ''totp_pending_'' @ userID"

definition no_two_fa :: two_fa where
  "no_two_fa = \<lparr>tf_Secret = [], tf_Enabled = False\<rparr>"

definition vault_call :: "auth_env \<Rightarrow> auth \<Rightarrow> auth \<times> bool" where
  "vault_call env s = (s\<lparr>au_vaultCalls := Suc (au_vaultCalls s)\<rparr>, \<not> ae_vaultFails env (au_vaultCalls s))"

text \<open>An entry that cannot be read counts as none.\<close>

definition readTwoFA :: "auth_env \<Rightarrow> string \<Rightarrow> auth \<Rightarrow> auth \<times> two_fa" where
  "readTwoFA env key s =
     (case vault_call env s of
        (s1, False) \<Rightarrow> (s1, no_two_fa)
      | (s1, True) \<Rightarrow> (s1, case au_vault s key of None \<Rightarrow> no_two_fa | Some st \<Rightarrow> st))"

definition getTwoFA :: "auth_env \<Rightarrow> string \<Rightarrow> auth \<Rightarrow> auth \<times> two_fa" where
  "getTwoFA env userID s = readTwoFA env (twoFAKey userID) s"

definition getPendingTwoFA :: "auth_env \<Rightarrow> string \<Rightarrow> auth \<Rightarrow> auth \<times> two_fa" where
  "getPendingTwoFA env userID s = readTwoFA env (twoFAPendingKey userID) s"

definition vault_set :: "auth_env \<Rightarrow> string \<Rightarrow> two_fa \<Rightarrow> auth \<Rightarrow> auth \<times> bool" where
  "vault_set env key st s =
     (case vault_call env s of
        (s1, False) \<Rightarrow> (s1, False)
      | (s1, True) \<Rightarrow> (s1\<lparr>au_vault := (au_vault s1)(key \<mapsto> st)\<rparr>, True))"

definition vault_delete :: "auth_env \<Rightarrow> string \<Rightarrow> auth \<Rightarrow> auth" where
  "vault_delete env key s =
     (case vault_call env s of
        (s1, False) \<Rightarrow> s1
      | (s1, True) \<Rightarrow> s1\<lparr>au_vault := (au_vault s1)(key := None)\<rparr>)"

definition saveTwoFA :: "auth_env \<Rightarrow> string \<Rightarrow> two_fa \<Rightarrow> auth \<Rightarrow> auth \<times> bool" where
  "saveTwoFA env userID st s = vault_set env (twoFAKey userID) st s"

definition TwoFAEnabled :: "auth_env \<Rightarrow> string \<Rightarrow> auth \<Rightarrow> auth \<times> bool" where
  "TwoFAEnabled env userID s = (case getTwoFA env userID s of (s1, st) \<Rightarrow> (s1, tf_Enabled st))"

datatype two_fa_error = AlreadyEnabled | NoSecret | VaultFailed | NotStarted | WrongCode

definition BeginTwoFASetup :: "auth_env \<Rightarrow> string \<Rightarrow> auth \<Rightarrow> auth \<times> (two_fa_error + string)" where
  "BeginTwoFASetup env userID s =
     (case getTwoFA env userID s of
        (s1, st) \<Rightarrow>
          if tf_Enabled st then (s1, Inl AlreadyEnabled)
          else (case ae_secret env of
             None \<Rightarrow> (s1, Inl NoSecret)
           | Some secret \<Rightarrow>
               (case vault_set env (twoFAPendingKey userID) \<lparr>tf_Secret = secret, tf_Enabled = False\<rparr> s1 of
                  (s2, False) \<Rightarrow> (s2, Inl VaultFailed)
                | (s2, True) \<Rightarrow> (s2, Inr secret))))"

definition ActivateTwoFA :: "auth_env \<Rightarrow> string \<Rightarrow> string \<Rightarrow> int \<Rightarrow> auth \<Rightarrow> auth \<times> two_fa_error option" where
  "ActivateTwoFA env userID code now s =
     (case getPendingTwoFA env userID s of
        (s1, pending) \<Rightarrow>
          if tf_Secret pending = [] then (s1, Some NotStarted)
          else if \<not> ValidateTOTP (ae_codes env) (tf_Secret pending) code now then (s1, Some WrongCode)
          else (case saveTwoFA env userID \<lparr>tf_Secret = tf_Secret pending, tf_Enabled = True\<rparr> s1 of
             (s2, False) \<Rightarrow> (s2, Some VaultFailed)
           | (s2, True) \<Rightarrow> (vault_delete env (twoFAPendingKey userID) s2, None)))"

definition DisableTwoFA :: "auth_env \<Rightarrow> string \<Rightarrow> string \<Rightarrow> int \<Rightarrow> auth \<Rightarrow> auth \<times> two_fa_error option" where
  "DisableTwoFA env userID code now s =
     (case getTwoFA env userID s of
        (s1, st) \<Rightarrow>
          if \<not> tf_Enabled st then (s1, None)
          else if \<not> ValidateTOTP (ae_codes env) (tf_Secret st) code now then (s1, Some WrongCode)
          else (case saveTwoFA env userID no_two_fa s1 of
             (s2, False) \<Rightarrow> (s2, Some VaultFailed)
           | (s2, True) \<Rightarrow> (vault_delete env (twoFAPendingKey userID) s2, None)))"

subsection \<open>Login\<close>

datatype login_result =
    Token claims
  | LockedOut
  | LookupFailed
  | InvalidCredentials
  | TotpRequired
  | TokenFailed

definition generateToken :: "auth_env \<Rightarrow> user \<Rightarrow> claims option" where
  "generateToken env u =
     (if ae_signs env then
        Some \<lparr>cl_UserID = us_ID u, cl_Username = us_Username u, cl_PasswordVersion = us_PasswordVersion u\<rparr>
      else None)"

definition login_key :: "string \<Rightarrow> string" where
  "login_key username = go_lower (trim_space username)"

text \<open>What follows the look at the lock.\<close>

definition login_rest :: "auth_env \<Rightarrow> string \<Rightarrow> string \<Rightarrow> string \<Rightarrow> int \<Rightarrow> auth \<Rightarrow> auth \<times> login_result" where
  "login_rest env username rawPassword code now s =
     (let key = login_key username in
      case GetUserByUsername (ae_rb env) username (au_db s) of
        (db1, None) \<Rightarrow> (s\<lparr>au_db := db1\<rparr>, LookupFailed)
      | (db1, Some None) \<Rightarrow> (recordFailure key now (s\<lparr>au_db := db1\<rparr>), InvalidCredentials)
      | (db1, Some (Some u)) \<Rightarrow>
          let s1 = s\<lparr>au_db := db1\<rparr>;
              done = (\<lambda>t. let t1 = resetAttempts key t in
                case generateToken env u of None \<Rightarrow> (t1, TokenFailed) | Some c \<Rightarrow> (t1, Token c))
          in if \<not> be_check (ae_rb env) (us_Password u) rawPassword then (recordFailure key now s1, InvalidCredentials)
             else (case TwoFAEnabled env (us_ID u) s1 of
                (s2, False) \<Rightarrow> done s2
              | (s2, True) \<Rightarrow>
                  if trim_space code = [] then (s2, TotpRequired)
                  else (case getTwoFA env (us_ID u) s2 of
                     (s3, st) \<Rightarrow>
                       if \<not> ValidateTOTP (ae_codes env) (tf_Secret st) code now then (recordFailure key now s3, InvalidCredentials)
                       else done s3)))"

definition Login :: "auth_env \<Rightarrow> string \<Rightarrow> string \<Rightarrow> string \<Rightarrow> int \<Rightarrow> int \<Rightarrow> auth \<Rightarrow> auth \<times> login_result" where
  "Login env username rawPassword code t now s =
     (if lockedOut (login_key username) t s then (s, LockedOut)
      else login_rest env username rawPassword code now s)"

end
