(* ===== verification/AuthGuarantees.thy ===== *)
theory AuthGuarantees
  imports AuthLogin
begin

text \<open>
  What the login guarantees: how many guesses the lock allows, what the second factor protects, and which codes it
  accepts; and where each ends.
\<close>

subsection \<open>The vault and the lock are apart\<close>

lemma vault_ops_attempts [simp]:
  "au_attempts (fst (vault_call env s)) = au_attempts s"
  "au_attempts (fst (readTwoFA env key s)) = au_attempts s"
  "au_attempts (fst (getTwoFA env i s)) = au_attempts s"
  "au_attempts (fst (TwoFAEnabled env i s)) = au_attempts s"
  by (simp_all add: vault_call_def readTwoFA_def getTwoFA_def TwoFAEnabled_def split: prod.splits bool.splits)

lemma getTwoFA_state: "getTwoFA env i s = (s1, st) \<Longrightarrow> au_attempts s1 = au_attempts s \<and> au_vault s1 = au_vault s \<and> au_db s1 = au_db s"
  by (auto simp: getTwoFA_def readTwoFA_def vault_call_def split: if_splits bool.splits)

lemma TwoFAEnabled_state:
  "TwoFAEnabled env i s = (s1, b) \<Longrightarrow> au_attempts s1 = au_attempts s \<and> au_vault s1 = au_vault s \<and> au_db s1 = au_db s"
  by (auto simp: TwoFAEnabled_def split: prod.splits dest: getTwoFA_state)

text \<open>What a login does to the lock, by its answer.\<close>

lemma login_rest_attempts:
  assumes "login_rest env username pw code now s = (s', r)"
  shows "au_attempts s' = (case r of InvalidCredentials \<Rightarrow> au_attempts (recordFailure (login_key username) now s)
    | Token _ \<Rightarrow> (au_attempts s)(login_key username := None) | TokenFailed \<Rightarrow> (au_attempts s)(login_key username := None)
    | _ \<Rightarrow> au_attempts s) \<and> r \<noteq> LockedOut"
proof -
  have e: "au_attempts (recordFailure k now (s\<lparr>au_db := d\<rparr>)) = au_attempts (recordFailure k now s)" for k d
    by (simp add: recordFailure_def Let_def)
  obtain db1 x where g: "GetUserByUsername (ae_rb env) username (au_db s) = (db1, x)" by fastforce
  show ?thesis
  proof (cases "\<exists>u. x = Some (Some u) \<and> be_check (ae_rb env) (us_Password u) pw")
    case False
    with assms g show ?thesis by (auto simp: login_rest_def Let_def e split: option.splits if_splits)
  next
    case True
    then obtain u where u: "x = Some (Some u)" "be_check (ae_rb env) (us_Password u) pw" by blast
    obtain s2 b where f: "TwoFAEnabled env (us_ID u) (s\<lparr>au_db := db1\<rparr>) = (s2, b)" by fastforce
    obtain s3 st where f2: "getTwoFA env (us_ID u) s2 = (s3, st)" by fastforce
    have at: "au_attempts s2 = au_attempts s" "au_attempts s3 = au_attempts s"
      using TwoFAEnabled_state [OF f] getTwoFA_state [OF f2] by simp_all
    then have e3: "au_attempts (recordFailure k now s3) = au_attempts (recordFailure k now s)" for k
      by (simp add: recordFailure_def Let_def)
    show ?thesis
      using assms g u f f2 at
      by (cases b) (auto simp: login_rest_def Let_def resetAttempts_def generateToken_def e3 split: if_splits)
  qed
qed

subsection \<open>Guesses\<close>

text \<open>An attempt: the account, the password, the code, and the times of the look at the lock and of the answer.\<close>

record attempt =
  lg_user :: string
  lg_password :: string
  lg_code :: string
  lg_seen :: int
  lg_answered :: int

definition attempt_login :: "auth_env \<Rightarrow> attempt \<Rightarrow> auth \<Rightarrow> auth \<times> login_result" where
  "attempt_login env a s = Login env (lg_user a) (lg_password a) (lg_code a) (lg_seen a) (lg_answered a) s"

fun tries :: "auth_env \<Rightarrow> attempt list \<Rightarrow> auth \<Rightarrow> auth \<times> (string \<times> login_result) list" where
  "tries env [] s = (s, [])"
| "tries env (a # as) s =
     (case attempt_login env a s of (s1, r) \<Rightarrow> case tries env as s1 of (s2, rs) \<Rightarrow> (s2, (login_key (lg_user a), r) # rs))"

definition wrong_guesses :: "string \<Rightarrow> (string \<times> login_result) list \<Rightarrow> nat" where
  "wrong_guesses key rs = length (filter (\<lambda>x. x = (key, InvalidCredentials)) rs)"

fun opened :: "login_result \<Rightarrow> bool" where
  "opened (Token c) = True"
| "opened TokenFailed = True"
| "opened _ = False"

definition right_guesses :: "string \<Rightarrow> (string \<times> login_result) list \<Rightarrow> nat" where
  "right_guesses key rs = length (filter (\<lambda>x. fst x = key \<and> opened (snd x)) rs)"

text \<open>The guesses left for \<open>key\<close>, when no lock lasts beyond the window that starts at \<open>T\<close>.\<close>

definition guesses_left :: "string \<Rightarrow> int \<Rightarrow> auth \<Rightarrow> nat" where
  "guesses_left key T s =
     (case au_attempts s key of None \<Rightarrow> maxFailedAttempts
      | Some a \<Rightarrow> if T + lockoutDuration \<le> ai_lockUntil a then 0 else maxFailedAttempts - ai_count a)"

definition counted :: "auth \<Rightarrow> bool" where
  "counted s \<longleftrightarrow> (\<forall>key a. au_attempts s key = Some a \<longrightarrow> ai_count a < maxFailedAttempts)"

lemma recordFailure_counted:
  assumes "counted s"
  shows "counted (recordFailure key now s)"
  using assms by (auto simp: counted_def recordFailure_def Let_def maxFailedAttempts_def no_info_def split: option.splits)

lemma attempt_counted:
  assumes "counted s" "attempt_login env a s = (s', r)"
  shows "counted s'"
proof (cases "lockedOut (login_key (lg_user a)) (lg_seen a) s")
  case True
  with assms show ?thesis by (auto simp: attempt_login_def Login_def)
next
  case False
  with assms(2) have l: "login_rest env (lg_user a) (lg_password a) (lg_code a) (lg_answered a) s = (s', r)"
    by (simp add: attempt_login_def Login_def)
  show ?thesis
    using login_rest_attempts [OF l] assms(1) recordFailure_counted [OF assms(1), of "login_key (lg_user a)" "lg_answered a"]
    by (auto simp: counted_def split: login_result.splits if_splits)
qed

lemma tries_counted: "counted s \<Longrightarrow> tries env as s = (s', rs) \<Longrightarrow> counted s'"
  by (induction as arbitrary: s rs) (auto split: prod.splits dest: attempt_counted)

lemma guess_spent:
  assumes "counted s" "T \<le> lg_seen a" "lg_seen a < T + lockoutDuration" "T \<le> lg_answered a" "attempt_login env a s = (s', r)"
  shows "if login_key (lg_user a) = key then
      (case r of InvalidCredentials \<Rightarrow> guesses_left key T s' + 1 \<le> guesses_left key T s
       | Token _ \<Rightarrow> guesses_left key T s' \<le> maxFailedAttempts | TokenFailed \<Rightarrow> guesses_left key T s' \<le> maxFailedAttempts
       | _ \<Rightarrow> guesses_left key T s' = guesses_left key T s)
    else guesses_left key T s' = guesses_left key T s"
proof (cases "lockedOut (login_key (lg_user a)) (lg_seen a) s")
  case True
  with assms(5) show ?thesis by (auto simp: attempt_login_def Login_def)
next
  case False
  with assms(5) have l: "login_rest env (lg_user a) (lg_password a) (lg_code a) (lg_answered a) s = (s', r)"
    by (simp add: attempt_login_def Login_def)
  have c: "ai_count i < 8" if "au_attempts s (login_key (lg_user a)) = Some i" for i
    using assms(1) that by (auto simp: counted_def maxFailedAttempts_def)
  show ?thesis
    using login_rest_attempts [OF l] assms(2-4) False
    by (auto dest: c simp: guesses_left_def recordFailure_def Let_def lockedOut_def maxFailedAttempts_def lockoutDuration_def no_info_def
        split: login_result.splits option.splits if_splits)
qed

lemma window_guesses:
  assumes "counted s" "list_all (\<lambda>a. T \<le> lg_seen a \<and> lg_seen a < T + lockoutDuration \<and> T \<le> lg_answered a) as"
    and "tries env as s = (s', rs)"
  shows "wrong_guesses key rs \<le> guesses_left key T s + maxFailedAttempts * right_guesses key rs"
  using assms
proof (induction as arbitrary: s rs)
  case (Cons a as)
  obtain s1 r where t: "attempt_login env a s = (s1, r)" by fastforce
  obtain rs' where ts: "tries env as s1 = (s', rs')" and rs: "rs = (login_key (lg_user a), r) # rs'"
    using Cons.prems(3) t by (auto split: prod.splits)
  have IH: "wrong_guesses key rs' \<le> guesses_left key T s1 + maxFailedAttempts * right_guesses key rs'"
    using Cons.IH [OF attempt_counted [OF Cons.prems(1) t] _ ts] Cons.prems(2) by simp
  note g = guess_spent [OF Cons.prems(1) _ _ _ t, of T key]
  show ?case
    using g IH Cons.prems(2)
    by (cases r) (auto simp: rs wrong_guesses_def right_guesses_def split: if_splits)
qed (simp add: wrong_guesses_def)


text \<open>The attempts of a start of the program: none.\<close>

definition fresh_lock :: "auth \<Rightarrow> auth" where
  "fresh_lock s = s\<lparr>au_attempts := (\<lambda>_. None)\<rparr>"

text \<open>C10. Guesses are limited.  Whatever attempts, for whatever accounts, came before, of the attempts for one account
  whose lock is looked at within 15 minutes, one after the other, at most eight are answered \<open>wrong\<close>, and eight more for
  each that succeeds (a success forgets the failures).  Wrong is a password that is not the account's (or that of an account that does not exist), or a code that is
  not the second factor's; a success is an attempt with both right, or with the password alone right where the account has
  no second factor.  A right password that comes without the code the account needs is answered as such, and is neither.\<close>

theorem guesses_are_limited:
  assumes "tries env0 before (fresh_lock s0) = (s, rs0)"
    and "list_all (\<lambda>a. T \<le> lg_seen a \<and> lg_seen a < T + 15 * 60 \<and> lg_seen a \<le> lg_answered a) as"
    and "tries env as s = (s', rs)"
  shows "wrong_guesses key rs \<le> 8 * (1 + right_guesses key rs)"
proof -
  have "counted (fresh_lock s0)" by (simp add: counted_def fresh_lock_def)
  then have c: "counted s" using assms(1) by (rule tries_counted)
  have "list_all (\<lambda>a. T \<le> lg_seen a \<and> lg_seen a < T + lockoutDuration \<and> T \<le> lg_answered a) as"
    using assms(2) by (auto simp: list_all_iff lockoutDuration_def)
  from window_guesses [OF c this assms(3), of key] have
    "wrong_guesses key rs \<le> guesses_left key T s + maxFailedAttempts * right_guesses key rs" .
  moreover have "guesses_left key T s \<le> 8" by (simp add: guesses_left_def maxFailedAttempts_def split: option.splits)
  ultimately show ?thesis by (simp add: maxFailedAttempts_def)
qed

definition panel_env :: auth_env where
  "panel_env = \<lparr>ae_rb = \<lparr>be_fails = (\<lambda>_. False), be_hash = (\<lambda>p. Some (''h'' @ p)), be_check = (\<lambda>h p. h = ''h'' @ p)\<rparr>,
     ae_codes = \<lparr>ce_decode = (\<lambda>s. if s = [] then None else Some (map (\<lambda>c. of_char c) s)),
       ce_hmac = (\<lambda>k m. replicate 20 0)\<rparr>,
     ae_vaultFails = (\<lambda>_. False), ae_secret = Some ''NEWKEY'', ae_signs = True\<rparr>"

definition panel :: auth where
  "panel = \<lparr>au_db = no_tables\<lparr>rb_users := [\<lparr>us_ID = ''u1'', us_Username = ''ana'', us_Password = ''hana12345'', us_PasswordVersion = 4\<rparr>]\<rparr>,
     au_attempts = (\<lambda>_. None), au_vault = (\<lambda>k. if k = ''totp_u1'' then Some \<lparr>tf_Secret = ''KEY'', tf_Enabled = True\<rparr> else None),
     au_vaultCalls = 0\<rparr>"

definition guess :: "int \<Rightarrow> attempt" where
  "guess t = \<lparr>lg_user = '' Ana'', lg_password = ''x'', lg_code = [], lg_seen = t, lg_answered = t + 1\<rparr>"

text \<open>Twelve guesses in a row: eight are answered.\<close>

lemma guesses_are_limited_witness:
  "wrong_guesses ''ana'' (snd (tries panel_env (map guess [100, 110, 120, 130, 140, 150, 160, 170, 180, 190, 200, 210]) (fst (tries panel_env [] (fresh_lock panel))))) = 8
   \<and> wrong_guesses ''ana'' (snd (tries panel_env (map guess [100, 110, 120, 130, 140, 150, 160, 170, 180, 190, 200, 210]) (fst (tries panel_env [] (fresh_lock panel)))))
      \<le> 8 * (1 + right_guesses ''ana'' (snd (tries panel_env (map guess [100, 110, 120, 130, 140, 150, 160, 170, 180, 190, 200, 210]) (fst (tries panel_env [] (fresh_lock panel))))))"
proof
  show "wrong_guesses ''ana'' (snd (tries panel_env (map guess [100, 110, 120, 130, 140, 150, 160, 170, 180, 190, 200, 210]) (fst (tries panel_env [] (fresh_lock panel))))) = 8"
    by code_simp
  have "list_all (\<lambda>a. 100 \<le> lg_seen a \<and> lg_seen a < 100 + 15 * 60 \<and> lg_seen a \<le> lg_answered a)
      (map guess [100, 110, 120, 130, 140, 150, 160, 170, 180, 190, 200, 210])"
    by (simp add: guess_def)
  then show "wrong_guesses ''ana'' (snd (tries panel_env (map guess [100, 110, 120, 130, 140, 150, 160, 170, 180, 190, 200, 210]) (fst (tries panel_env [] (fresh_lock panel)))))
      \<le> 8 * (1 + right_guesses ''ana'' (snd (tries panel_env (map guess [100, 110, 120, 130, 140, 150, 160, 170, 180, 190, 200, 210]) (fst (tries panel_env [] (fresh_lock panel))))))"
    by (rule guesses_are_limited [OF prod.collapse [symmetric] _ prod.collapse [symmetric]])
qed

subsection \<open>Guesses at the same time\<close>

fun answers_to :: "auth_env \<Rightarrow> attempt list \<Rightarrow> auth \<Rightarrow> auth \<times> login_result list" where
  "answers_to env [] s = (s, [])"
| "answers_to env (a # as) s =
     (case login_rest env (lg_user a) (lg_password a) (lg_code a) (lg_answered a) s of
        (s1, r) \<Rightarrow> case answers_to env as s1 of (s2, rs) \<Rightarrow> (s2, r # rs))"

text \<open>Attempts that arrive together: each looks at the lock before the first is answered.\<close>

definition burst :: "auth_env \<Rightarrow> attempt list \<Rightarrow> auth \<Rightarrow> auth \<times> login_result list" where
  "burst env as s = answers_to env (filter (\<lambda>a. \<not> lockedOut (login_key (lg_user a)) (lg_seen a) s) as) s"

definition wrong_password :: "auth_env \<Rightarrow> auth \<Rightarrow> attempt \<Rightarrow> bool" where
  "wrong_password env s a \<longleftrightarrow> list_all (\<lambda>u. us_Username u = lg_user a \<longrightarrow> \<not> be_check (ae_rb env) (us_Password u) (lg_password a)) (rb_users (au_db s))"

lemma wrong_password_answer:
  assumes "be_fails (ae_rb env) = (\<lambda>_. False)" "wrong_password env s a"
  shows "snd (login_rest env (lg_user a) (lg_password a) c t s) = InvalidCredentials
    \<and> rb_users (au_db (fst (login_rest env (lg_user a) (lg_password a) c t s))) = rb_users (au_db s)"
  using assms
  by (auto simp: login_rest_def Let_def GetUserByUsername_def call_def wrong_password_def list_all_iff recordFailure_def
      split: option.splits prod.splits dest!: find_Some_iff [THEN iffD1])

text \<open>C12. Guesses at the same time are not limited: when the attempts for an account that is not locked all look at the
  lock before one is answered, every password is looked at, however many they are.\<close>

theorem burst_of_guesses_is_not_limited:
  assumes "be_fails (ae_rb env) = (\<lambda>_. False)" "list_all (wrong_password env s) as"
    and "list_all (\<lambda>a. \<not> lockedOut (login_key (lg_user a)) (lg_seen a) s) as" "burst env as s = (s', rs)"
  shows "rs = replicate (length as) InvalidCredentials"
proof -
  have all: "filter (\<lambda>a. \<not> lockedOut (login_key (lg_user a)) (lg_seen a) s) as = as"
    using assms(3) by (simp add: list_all_iff)
  have "answers_to env as t = (t', rs') \<Longrightarrow> list_all (wrong_password env t) as \<Longrightarrow> rs' = replicate (length as) InvalidCredentials" for t t' rs'
  proof (induction as arbitrary: t rs')
    case (Cons a as)
    note w = wrong_password_answer [OF assms(1), of t a "lg_code a" "lg_answered a"]
    obtain t1 r where l: "login_rest env (lg_user a) (lg_password a) (lg_code a) (lg_answered a) t = (t1, r)" by fastforce
    have "list_all (wrong_password env t1) as" using Cons.prems(2) w l by (simp add: wrong_password_def [abs_def])
    with Cons w l show ?case by (auto split: prod.splits)
  qed simp
  from this [of s s' rs] show ?thesis using assms(2,4) all by (simp add: burst_def)
qed

lemma burst_of_guesses_is_not_limited_witness:
  "snd (burst panel_env (replicate 100 (guess 100)) panel) = replicate 100 InvalidCredentials"
proof -
  have "be_fails (ae_rb panel_env) = (\<lambda>_. False)" by (simp add: panel_env_def)
  moreover have "list_all (wrong_password panel_env panel) (replicate 100 (guess 100))"
    by (simp add: list_all_iff wrong_password_def panel_def panel_env_def guess_def no_tables_def)
  moreover have "list_all (\<lambda>a. \<not> lockedOut (login_key (lg_user a)) (lg_seen a) panel) (replicate 100 (guess 100))"
    by (simp add: list_all_iff lockedOut_def panel_def)
  ultimately show ?thesis
    using burst_of_guesses_is_not_limited [OF _ _ _ prod.collapse [symmetric]] by fastforce
qed


subsection \<open>The second factor\<close>

datatype factor_event =
    TryLogin attempt
  | BeginSetup string
  | Activate string string int
  | Disable string string int

fun factor_step :: "auth_env \<Rightarrow> factor_event \<Rightarrow> auth \<Rightarrow> auth \<times> login_result list" where
  "factor_step env (TryLogin a) s = (case attempt_login env a s of (s1, r) \<Rightarrow> (s1, [r]))"
| "factor_step env (BeginSetup i) s = (fst (BeginTwoFASetup env i s), [])"
| "factor_step env (Activate i c t) s = (fst (ActivateTwoFA env i c t s), [])"
| "factor_step env (Disable i c t) s = (fst (DisableTwoFA env i c t s), [])"

fun factor_run :: "auth_env \<Rightarrow> factor_event list \<Rightarrow> auth \<Rightarrow> auth \<times> login_result list" where
  "factor_run env [] s = (s, [])"
| "factor_run env (e # es) s =
     (case factor_step env e s of (s1, rs) \<Rightarrow> case factor_run env es s1 of (s2, rs') \<Rightarrow> (s2, rs @ rs'))"

text \<open>Ids of accounts: none makes the name of an active entry the name of a pending one.\<close>

definition plain_id :: "string \<Rightarrow> bool" where
  "plain_id i \<longleftrightarrow> take 8 i \<noteq> ''pending_''"

text \<open>No code in the event is one of \<open>secret\<close> at its time, where the event is about account \<open>i\<close>.\<close>

fun without_code :: "auth_env \<Rightarrow> string \<Rightarrow> string \<Rightarrow> factor_event \<Rightarrow> bool" where
  "without_code env secret i (TryLogin a) \<longleftrightarrow> \<not> ValidateTOTP (ae_codes env) secret (lg_code a) (lg_answered a)"
| "without_code env secret i (BeginSetup j) \<longleftrightarrow> plain_id j"
| "without_code env secret i (Activate j c t) \<longleftrightarrow> plain_id j"
| "without_code env secret i (Disable j c t) \<longleftrightarrow> plain_id j \<and> \<not> (j = i \<and> ValidateTOTP (ae_codes env) secret c t)"

lemma keys_apart:
  "plain_id i \<Longrightarrow> twoFAKey i \<noteq> twoFAPendingKey j" "plain_id i \<Longrightarrow> twoFAPendingKey j \<noteq> twoFAKey i"
  "twoFAKey i = twoFAKey j \<longleftrightarrow> i = j" "twoFAPendingKey i = twoFAPendingKey j \<longleftrightarrow> i = j"
  by (auto simp: plain_id_def twoFAKey_def twoFAPendingKey_def)

lemma sure_vault:
  assumes "ae_vaultFails env = (\<lambda>_. False)"
  shows "vault_call env s = (s\<lparr>au_vaultCalls := Suc (au_vaultCalls s)\<rparr>, True)"
  using assms by (simp add: vault_call_def)

lemma login_rest_vault: "login_rest env username pw code now s = (s', r) \<Longrightarrow> au_vault s' = au_vault s"
proof -
  assume l: "login_rest env username pw code now s = (s', r)"
  obtain db1 x where g: "GetUserByUsername (ae_rb env) username (au_db s) = (db1, x)" by fastforce
  show ?thesis
  proof (cases "\<exists>u. x = Some (Some u) \<and> be_check (ae_rb env) (us_Password u) pw")
    case False
    with l g show ?thesis by (auto simp: login_rest_def Let_def recordFailure_def split: option.splits if_splits)
  next
    case True
    then obtain u where u: "x = Some (Some u)" "be_check (ae_rb env) (us_Password u) pw" by blast
    obtain s2 b where f: "TwoFAEnabled env (us_ID u) (s\<lparr>au_db := db1\<rparr>) = (s2, b)" by fastforce
    obtain s3 st where f2: "getTwoFA env (us_ID u) s2 = (s3, st)" by fastforce
    have v: "au_vault s2 = au_vault s" "au_vault s3 = au_vault s"
      using TwoFAEnabled_state [OF f] getTwoFA_state [OF f2] by simp_all
    show ?thesis
      using l g u f f2 v
      by (cases b) (auto simp: login_rest_def Let_def resetAttempts_def recordFailure_def generateToken_def split: if_splits)
  qed
qed

lemma login_token:
  assumes "login_rest env username pw code now s = (s', Token c)" "ae_vaultFails env = (\<lambda>_. False)"
    and "au_vault s (twoFAKey (cl_UserID c)) = Some st" "tf_Enabled st"
  shows "ValidateTOTP (ae_codes env) (tf_Secret st) code now"
proof -
  obtain db1 x where g: "GetUserByUsername (ae_rb env) username (au_db s) = (db1, x)" by fastforce
  from assms(1) g obtain u where u: "x = Some (Some u)" "be_check (ae_rb env) (us_Password u) pw"
    by (auto simp: login_rest_def Let_def split: option.splits if_splits)
  obtain s2 b where f: "TwoFAEnabled env (us_ID u) (s\<lparr>au_db := db1\<rparr>) = (s2, b)" by fastforce
  obtain s3 st' where f2: "getTwoFA env (us_ID u) s2 = (s3, st')" by fastforce
  have c: "cl_UserID c = us_ID u"
    using assms(1) g u f f2 by (cases b) (auto simp: login_rest_def Let_def generateToken_def split: if_splits)
  have "b" "st' = st"
    using f f2 assms(2-4) unfolding c
    by (auto simp: TwoFAEnabled_def getTwoFA_def readTwoFA_def sure_vault)
  then show ?thesis
    using assms(1) g u f f2 by (auto simp: login_rest_def Let_def split: if_splits)
qed

definition protected :: "string \<Rightarrow> two_fa \<Rightarrow> auth \<Rightarrow> bool" where
  "protected i st s \<longleftrightarrow> au_vault s (twoFAKey i) = Some st \<and> au_vault s (twoFAPendingKey i) = None"

lemma factor_step_protected:
  assumes "ae_vaultFails env = (\<lambda>_. False)" "plain_id i" "tf_Enabled st" "protected i st s"
    and "without_code env (tf_Secret st) i e" "factor_step env e s = (s', rs)"
  shows "protected i st s' \<and> list_all (\<lambda>r. case r of Token c \<Rightarrow> cl_UserID c \<noteq> i | _ \<Rightarrow> True) rs"
proof (cases e)
  case (TryLogin a)
  obtain r where r: "attempt_login env a s = (s', r)" "rs = [r]" using assms(6) TryLogin by (auto split: prod.splits)
  show ?thesis
  proof (cases "lockedOut (login_key (lg_user a)) (lg_seen a) s")
    case True
    with r assms(4) show ?thesis by (auto simp: attempt_login_def Login_def)
  next
    case False
    then have l: "login_rest env (lg_user a) (lg_password a) (lg_code a) (lg_answered a) s = (s', r)"
      using r by (simp add: attempt_login_def Login_def)
    have nv: "\<not> ValidateTOTP (ae_codes env) (tf_Secret st) (lg_code a) (lg_answered a)" using assms(5) TryLogin by simp
    have "cl_UserID c \<noteq> i" if "r = Token c" for c
      using login_token [of env _ _ _ _ s s' c st] l that assms(1,3,4) nv by (auto simp: protected_def)
    then show ?thesis
      using login_rest_vault [OF l] assms(4) r(2) by (simp add: protected_def split: login_result.splits)
  qed
next
  case (BeginSetup j)
  then show ?thesis
    using assms keys_apart [of i] by (auto simp: BeginTwoFASetup_def getTwoFA_def readTwoFA_def sure_vault vault_set_def protected_def
        split: option.splits if_splits)
next
  case (Activate j c t)
  then show ?thesis
    using assms keys_apart [of i] keys_apart [of j]
    by (auto simp: ActivateTwoFA_def getPendingTwoFA_def readTwoFA_def sure_vault vault_set_def vault_delete_def saveTwoFA_def protected_def
        no_two_fa_def split: option.splits if_splits)
next
  case (Disable j c t)
  then show ?thesis
    using assms keys_apart [of i] keys_apart [of j]
    by (auto simp: DisableTwoFA_def getTwoFA_def readTwoFA_def sure_vault vault_set_def vault_delete_def saveTwoFA_def protected_def
        no_two_fa_def split: option.splits if_splits)
qed

text \<open>C11. The second factor holds: while the vault can be read, with an account's second factor on and none being set up
  for it, no sequence of logins, set-ups, activations and deactivations, for any accounts, none with a code of that
  factor, opens a session of the account or changes its second factor.\<close>

theorem second_factor_holds:
  assumes "ae_vaultFails env = (\<lambda>_. False)" "plain_id i" "tf_Enabled st"
    and "au_vault s (twoFAKey i) = Some st" "au_vault s (twoFAPendingKey i) = None"
    and "list_all (without_code env (tf_Secret st) i) es" "factor_run env es s = (s', rs)"
  shows "au_vault s' (twoFAKey i) = Some st \<and> list_all (\<lambda>r. case r of Token c \<Rightarrow> cl_UserID c \<noteq> i | _ \<Rightarrow> True) rs"
proof -
  have "protected i st s" using assms(4,5) by (simp add: protected_def)
  then have "protected i st s' \<and> list_all (\<lambda>r. case r of Token c \<Rightarrow> cl_UserID c \<noteq> i | _ \<Rightarrow> True) rs"
    using assms(6,7)
  proof (induction es arbitrary: s rs)
    case (Cons e es)
    obtain s1 rs1 where e: "factor_step env e s = (s1, rs1)" by fastforce
    obtain rs2 where es: "factor_run env es s1 = (s', rs2)" "rs = rs1 @ rs2" using Cons.prems(3) e by (auto split: prod.splits)
    have "protected i st s1 \<and> list_all (\<lambda>r. case r of Token c \<Rightarrow> cl_UserID c \<noteq> i | _ \<Rightarrow> True) rs1"
      using factor_step_protected [OF assms(1-3) Cons.prems(1) _ e] Cons.prems(2) by simp
    with Cons.IH [OF _ _ es(1)] Cons.prems(2) es(2) show ?case by simp
  qed simp
  then show ?thesis by (simp add: protected_def)
qed


lemma panel_code: "totpAt (ae_codes panel_env) ''KEY'' t = Some ''000000''"
proof -
  have d: "ce_decode (ae_codes panel_env) (to_upper (trim_space ''KEY'')) = Some [75, 69, 89]" by code_simp
  have z: "nat_digits 0 = ''0''" "replicate 5 CHR ''0'' = ''00000''" by code_simp+
  have "take 4 (replicate 20 (0 :: 8 word)) = [0, 0, 0, 0]" by (simp add: numeral_eq_Suc)
  then have "uint32_at 0 (replicate 20 0) = 0" by (simp add: uint32_at_def)
  then have "pad_digits totpDigits (unat (uint32_at 0 (replicate 20 0) AND 0x7fffffff) mod 1000000) = ''000000''"
    using z by (simp add: pad_digits_def totpDigits_def)
  moreover have "ce_hmac (ae_codes panel_env) k m = replicate 20 0" for k m by (simp add: panel_env_def)
  ultimately show ?thesis by (simp add: totpAt_def d Let_def)
qed

lemma second_factor_holds_witness:
  "au_vault (fst (factor_run panel_env [TryLogin \<lparr>lg_user = ''ana'', lg_password = ''ana12345'', lg_code = [], lg_seen = 900, lg_answered = 901\<rparr>,
       TryLogin \<lparr>lg_user = ''ana'', lg_password = ''ana12345'', lg_code = ''123456'', lg_seen = 910, lg_answered = 911\<rparr>,
       BeginSetup ''u1'', Activate ''u1'' ''123456'' 950, Disable ''u1'' ''654321'' 960] panel)) (twoFAKey ''u1'')
     = Some \<lparr>tf_Secret = ''KEY'', tf_Enabled = True\<rparr>"
proof -
  have v: "ae_vaultFails panel_env = (\<lambda>_. False)" "plain_id ''u1''" "tf_Enabled \<lparr>tf_Secret = ''KEY'', tf_Enabled = True\<rparr>"
    "au_vault panel (twoFAKey ''u1'') = Some \<lparr>tf_Secret = ''KEY'', tf_Enabled = True\<rparr>" "au_vault panel (twoFAPendingKey ''u1'') = None"
    by (simp_all add: panel_env_def plain_id_def panel_def twoFAKey_def twoFAPendingKey_def)
  have "list_all (without_code panel_env (tf_Secret \<lparr>tf_Secret = ''KEY'', tf_Enabled = True\<rparr>) ''u1'')
    [TryLogin \<lparr>lg_user = ''ana'', lg_password = ''ana12345'', lg_code = [], lg_seen = 900, lg_answered = 901\<rparr>,
       TryLogin \<lparr>lg_user = ''ana'', lg_password = ''ana12345'', lg_code = ''123456'', lg_seen = 910, lg_answered = 911\<rparr>,
       BeginSetup ''u1'', Activate ''u1'' ''123456'' 950, Disable ''u1'' ''654321'' 960]"
    by (simp add: ValidateTOTP_def Let_def panel_code plain_id_def trim_space_def trim_left_def is_space_def totpDigits_def)
  from second_factor_holds [OF v this prod.collapse [symmetric]] show ?thesis by blast
qed

text \<open>A second factor that cannot be read is none: when the read of the vault fails, the password alone opens a
  session of an account whose second factor is on.\<close>

theorem unreadable_second_factor_is_none:
  assumes "be_fails (ae_rb env) = (\<lambda>_. False)" "ae_vaultFails env (au_vaultCalls s)" "ae_signs env"
    and "find (\<lambda>u. us_Username u = username) (rb_users (au_db s)) = Some u" "be_check (ae_rb env) (us_Password u) pw"
    and "\<not> lockedOut (login_key username) t s" "Login env username pw code t now s = (s', r)"
  shows "map_option cl_UserID (case r of Token c \<Rightarrow> Some c | _ \<Rightarrow> None) = Some (us_ID u)"
proof -
  obtain db1 where g: "GetUserByUsername (ae_rb env) username (au_db s) = (db1, Some (Some u))"
    using assms(1,4) by (simp add: GetUserByUsername_def call_def)
  obtain s2 where f: "TwoFAEnabled env (us_ID u) (s\<lparr>au_db := db1\<rparr>) = (s2, False)"
    using assms(2) by (simp add: TwoFAEnabled_def getTwoFA_def readTwoFA_def vault_call_def no_two_fa_def)
  have "r = Token \<lparr>cl_UserID = us_ID u, cl_Username = us_Username u, cl_PasswordVersion = us_PasswordVersion u\<rparr>"
    using assms(3,5-7) g f by (simp add: Login_def login_rest_def Let_def generateToken_def)
  then show ?thesis by simp
qed

lemma unreadable_second_factor_is_none_witness:
  "map_option cl_UserID (case snd (Login (panel_env\<lparr>ae_vaultFails := (\<lambda>n. n = 0)\<rparr>) ''ana'' ''ana12345'' [] 5 6 panel) of Token c \<Rightarrow> Some c | _ \<Rightarrow> None) = Some ''u1''
   \<and> snd (Login panel_env ''ana'' ''ana12345'' [] 5 6 panel) = TotpRequired"
proof
  let ?e = "panel_env\<lparr>ae_vaultFails := (\<lambda>n. n = 0)\<rparr>"
  let ?u = "\<lparr>us_ID = ''u1'', us_Username = ''ana'', us_Password = ''hana12345'', us_PasswordVersion = 4\<rparr> :: user"
  have "be_fails (ae_rb ?e) = (\<lambda>_. False)" "ae_vaultFails ?e (au_vaultCalls panel)" "ae_signs ?e"
    "find (\<lambda>u. us_Username u = ''ana'') (rb_users (au_db panel)) = Some ?u" "be_check (ae_rb ?e) (us_Password ?u) ''ana12345''"
    "\<not> lockedOut (login_key ''ana'') 5 panel"
    by (simp_all add: panel_env_def panel_def no_tables_def lockedOut_def)
  from unreadable_second_factor_is_none [OF this prod.collapse [symmetric], of "[]" 6] show
    "map_option cl_UserID (case snd (Login ?e ''ana'' ''ana12345'' [] 5 6 panel) of Token c \<Rightarrow> Some c | _ \<Rightarrow> None) = Some ''u1''" by simp
  show "snd (Login panel_env ''ana'' ''ana12345'' [] 5 6 panel) = TotpRequired" by code_simp
qed

subsection \<open>Codes\<close>

text \<open>The code of one step of the authenticator.\<close>

definition code_of :: "code_env \<Rightarrow> string \<Rightarrow> int \<Rightarrow> string option" where
  "code_of ce secret step = totpAt ce secret (30 * step)"

lemma counter_of:
  assumes "0 \<le> t" "t < 2 ^ 63"
  shows "(word_of_int t div 30 :: 64 word) = word_of_int (t div 30)"
proof -
  have "uint (word_of_int t :: 64 word) = t" using assms by (simp add: uint_word_of_int)
  then show ?thesis by (simp add: word_div_def)
qed

lemma totpAt_step:
  assumes "0 \<le> t" "t < 2 ^ 63"
  shows "totpAt ce secret t = code_of ce secret (t div 30)"
proof -
  have "30 * (t div 30) \<le> t" using pos_mod_sign [of 30 t] minus_mod_eq_mult_div [of t 30] by linarith
  then have "0 \<le> 30 * (t div 30)" "30 * (t div 30) < 2 ^ 63" using assms by auto
  then have h: "(word_of_int (30 * (t div 30)) div 30 :: 64 word) = word_of_int (t div 30)" by (simp add: counter_of del: of_int_mult)
  show ?thesis unfolding code_of_def totpAt_def h counter_of [OF assms] ..
qed

lemma nat_digits_length: "n < 10 ^ k \<Longrightarrow> 0 < k \<Longrightarrow> length (nat_digits n) \<le> k"
proof (induction k arbitrary: n)
  case (Suc k)
  show ?case
  proof (cases "n < 10")
    case True
    then show ?thesis by (simp add: nat_digits.simps [of n])
  next
    case False
    have "n div 10 < 10 ^ k" using Suc.prems(1) by (simp add: less_mult_imp_div_less mult.commute)
    moreover have "0 < k" using False Suc.prems(1) by (cases k) auto
    ultimately show ?thesis using Suc.IH [of "n div 10"] False by (simp add: nat_digits.simps [of n])
  qed
qed simp

lemma totp_length: "totpAt ce secret t = Some c \<Longrightarrow> length c = 6"
  using nat_digits_length [of "k mod 1000000" 6 for k]
  by (auto simp: totpAt_def Let_def pad_digits_def totpDigits_def split: option.splits)

text \<open>A code is accepted exactly when it is that of the current step of 30 seconds, of the one before or of the one
  after, blanks around it aside: a code is good for 90 seconds.\<close>

theorem codes_of_three_steps:
  assumes "30 \<le> now" "now < 2 ^ 62"
  shows "ValidateTOTP ce secret code now
    \<longleftrightarrow> list_ex (\<lambda>step. code_of ce secret step = Some (trim_space code)) [now div 30 - 1, now div 30, now div 30 + 1]"
proof -
  have d: "(now - 30) div 30 = now div 30 - 1" "(now + 30) div 30 = now div 30 + 1" by linarith+
  have t: "totpAt ce secret now = code_of ce secret (now div 30)" "totpAt ce secret (now - 30) = code_of ce secret (now div 30 - 1)"
    "totpAt ce secret (now + 30) = code_of ce secret (now div 30 + 1)"
    using totpAt_step [of now] totpAt_step [of "now - 30"] totpAt_step [of "now + 30"] assms by (simp_all add: d)
  have l: "length (trim_space code) = 6" if "code_of ce secret step = Some (trim_space code)" for step
    using totp_length that by (simp add: code_of_def)
  have n: "code_of ce secret a = None \<longleftrightarrow> code_of ce secret b = None" for a b
    by (simp add: code_of_def totpAt_def Let_def split: option.splits)
  show ?thesis
  proof (cases "length (trim_space code) = 6")
    case False
    then show ?thesis using l by (auto simp: ValidateTOTP_def totpDigits_def)
  next
    case True
    then show ?thesis
      using n [of "now div 30" "now div 30 - 1"] n [of "now div 30" "now div 30 + 1"]
      by (auto simp: ValidateTOTP_def Let_def totpDigits_def totpPeriod_def t split: option.splits)
  qed
qed

lemma codes_of_three_steps_witness:
  "ValidateTOTP (ae_codes panel_env) ''KEY'' ''123456'' 1000
   \<longleftrightarrow> list_ex (\<lambda>step. code_of (ae_codes panel_env) ''KEY'' step = Some (trim_space ''123456'')) [1000 div 30 - 1, 1000 div 30, 1000 div 30 + 1]"
  by (rule codes_of_three_steps) simp_all

end
