(* ===== verification/RbacSafety.thy ===== *)
theory RbacSafety
  imports Rbac
begin

text \<open>
  What the requests on accounts and roles write: every request is at most two writes of the tables, each within the
  permissions of the account that sent it, between reads that change nothing.
\<close>

subsection \<open>Reading changes nothing\<close>

definition only_calls :: "rbac \<Rightarrow> rbac \<Rightarrow> bool" where
  "only_calls s s' \<longleftrightarrow> s' = s\<lparr>rb_calls := rb_calls s'\<rparr>"

lemma only_calls_refl [simp]: "only_calls s s"
  by (simp add: only_calls_def)

lemma only_calls_trans: "only_calls s s1 \<Longrightarrow> only_calls s1 s2 \<Longrightarrow> only_calls s s2"
  unfolding only_calls_def by (metis rbac.surjective rbac.update_convs(6) rbac.select_convs(6))

lemma only_calls_fields:
  assumes "only_calls s s'"
  shows "rb_users s' = rb_users s" "rb_roles s' = rb_roles s" "rb_rolePerms s' = rb_rolePerms s"
    "rb_userRoles s' = rb_userRoles s" "rb_audit s' = rb_audit s"
  using assms unfolding only_calls_def by (metis rbac.simps(1-11) rbac.surjective rbac.select_convs rbac.update_convs(6))+

lemma call_only: "call env s = (s1, ok) \<Longrightarrow> only_calls s s1"
  by (auto simp: call_def only_calls_def)

lemma read_only:
  "GetUserPermissions env u s = (s1, r1) \<Longrightarrow> only_calls s s1 \<and> (\<forall>ps. r1 = Some ps \<longrightarrow> ps = perms_of s u)"
  "GetUserByID env u s = (s1, r2) \<Longrightarrow> only_calls s s1 \<and> (\<forall>x. r2 = Some x \<longrightarrow> find_user u s = x)"
  "GetUserByUsername env u s = (s1, r2) \<Longrightarrow> only_calls s s1"
  "GetRole env u s = (s1, r3) \<Longrightarrow> only_calls s s1 \<and> (r3 = Some None \<longrightarrow> find_role u s = None)
     \<and> (\<forall>y ps. r3 = Some (Some (y, ps)) \<longrightarrow> find_role u s = Some y \<and> ps = role_perms s u)"
  "ListUsers env s = (s1, r4) \<Longrightarrow> only_calls s s1 \<and> (\<forall>x. r4 = Some x \<longrightarrow> x = map (\<lambda>u. (u, roles_of s (us_ID u))) (rb_users s))"
  "CountUsersWithRole env u s = (s1, r5) \<Longrightarrow> only_calls s s1 \<and> (\<forall>n. r5 = Some n \<longrightarrow> n = length (filter (\<lambda>x. snd x = u) (rb_userRoles s)))"
  by (auto simp: GetUserPermissions_def GetUserByID_def GetUserByUsername_def GetRole_def ListUsers_def CountUsersWithRole_def
      split: prod.splits if_splits dest: call_only)

lemma views_only:
  assumes "only_calls s s'"
  shows "perms_of s' u = perms_of s u" "roles_of s' u = roles_of s u" "role_perms s' r = role_perms s r"
    "find_user i s' = find_user i s" "find_role j s' = find_role j s"
  using only_calls_fields [OF assms]
  by (simp_all add: perms_of_def roles_of_def role_perms_def [abs_def] find_user_def find_role_def)

lemma validateRoles_only: "validateRoles env rs s = (s1, ok) \<Longrightarrow> only_calls s s1"
  by (induction rs arbitrary: s) (auto split: prod.splits option.splits dest: read_only(4) intro: only_calls_trans)

lemma rolesGrant_only:
  "rolesGrant env rs perm s = (s1, ok) \<Longrightarrow> only_calls s s1 \<and> (ok \<longrightarrow> (\<exists>r\<in>set rs. perm \<in> set (role_perms s r)))"
proof (induction rs arbitrary: s)
  case (Cons r rs)
  obtain s2 x where g: "GetRole env r s = (s2, x)" by fastforce
  note ro = read_only(4) [OF g]
  show ?case
  proof (cases "\<exists>y ps. x = Some (Some (y, ps)) \<and> perm \<in> set ps")
    case True
    with g ro Cons.prems show ?thesis by auto
  next
    case False
    then have "rolesGrant env rs perm s2 = (s1, ok)"
      using Cons.prems g by (auto split: option.splits prod.splits if_splits)
    from Cons.IH [OF this] ro views_only(3) [of s s2] show ?thesis by (auto intro: only_calls_trans)
  qed
qed simp

lemma some_admin_only:
  "some_admin env i rids us s = (s1, ok) \<Longrightarrow> only_calls s s1
     \<and> (ok \<longrightarrow> (\<exists>(u, rs)\<in>set us. \<exists>r\<in>set (if us_ID u = i then rids else rs). PermUsersManage \<in> set (role_perms s r)))"
proof (induction us arbitrary: s)
  case (Cons x us)
  obtain u rs where x: "x = (u, rs)" by fastforce
  obtain s2 b where g: "rolesGrant env (if us_ID u = i then rids else rs) PermUsersManage s = (s2, b)" by fastforce
  note ro = rolesGrant_only [OF g]
  show ?case
  proof (cases b)
    case True
    with g ro Cons.prems x show ?thesis by auto
  next
    case False
    then have "some_admin env i rids us s2 = (s1, ok)" using Cons.prems g x by simp
    from Cons.IH [OF this] ro views_only(3) [of s s2] x show ?thesis by (auto intro: only_calls_trans)
  qed
qed simp

lemma guard_only:
  assumes "guardLastAdmin env i rids s = (s1, ok)"
  shows "only_calls s s1 \<and> (ok \<longrightarrow> (\<exists>u\<in>set (rb_users s).
     \<exists>r\<in>set (if us_ID u = i then rids else roles_of s (us_ID u)). PermUsersManage \<in> set (role_perms s r)))"
proof -
  obtain s2 x where l: "ListUsers env s = (s2, x)" by fastforce
  note ro = read_only(5) [OF l]
  show ?thesis
  proof (cases x)
    case None
    with assms l ro show ?thesis by (auto simp: guardLastAdmin_def)
  next
    case (Some us)
    then have "some_admin env i rids us s2 = (s1, ok)" using assms l by (simp add: guardLastAdmin_def)
    from some_admin_only [OF this] ro Some views_only(3) [of s s2] show ?thesis
      by (auto intro: only_calls_trans split: if_splits)
  qed
qed

lemma may_grant_only: "may_grant env c s = (s1, r) \<Longrightarrow> only_calls s s1 \<and> (r = None \<longrightarrow> PermRolesManage \<in> set (perms_of s (cl_UserID c)))"
  by (auto simp: may_grant_def split: prod.splits option.splits if_splits dest: read_only(1))

lemma outranks_only:
  assumes "outranks env c i s = (s1, r)"
  shows "only_calls s s1 \<and> (r = None \<longrightarrow> set (perms_of s i) \<subseteq> set (perms_of s (cl_UserID c)))"
proof (cases "cl_UserID c = i")
  case True
  with assms show ?thesis by (auto simp: outranks_def)
next
  case False
  obtain s2 x where a: "GetUserPermissions env i s = (s2, x)" by fastforce
  obtain s3 y where b: "GetUserPermissions env (cl_UserID c) s2 = (s3, y)" by fastforce
  note ra = read_only(1) [OF a] and rb = read_only(1) [OF b]
  have "perms_of s2 (cl_UserID c) = perms_of s (cl_UserID c)" using ra by (simp add: views_only)
  with assms a b ra rb False show ?thesis
    by (auto simp: outranks_def permissionsBeyond_def filter_empty_conv intro: only_calls_trans split: option.splits if_splits)
qed

lemma Middleware_only:
  "Middleware env c s = (s1, r) \<Longrightarrow> only_calls s s1 \<and>
     (r = None \<longrightarrow> (\<exists>u. find_user (cl_UserID c) s = Some u \<and> us_PasswordVersion u = cl_PasswordVersion c))"
  by (auto simp: Middleware_def split: prod.splits option.splits if_splits dest: read_only(2))

lemma Require_only: "Require env c p s = (s1, r) \<Longrightarrow> only_calls s s1 \<and> (r = None \<longrightarrow> p \<in> set (perms_of s (cl_UserID c)))"
  by (auto simp: Require_def split: prod.splits option.splits if_splits dest: read_only(1))


lemmas reads = read_only validateRoles_only guard_only may_grant_only outranks_only Middleware_only Require_only

subsection \<open>What each request changes\<close>

text \<open>The tables besides the audit log.\<close>

definition same_grants :: "rbac \<Rightarrow> rbac \<Rightarrow> bool" where
  "same_grants s s' \<longleftrightarrow> rb_roles s' = rb_roles s \<and> rb_rolePerms s' = rb_rolePerms s \<and> rb_userRoles s' = rb_userRoles s"

definition same_tables :: "rbac \<Rightarrow> rbac \<Rightarrow> bool" where
  "same_tables s s' \<longleftrightarrow> rb_users s' = rb_users s \<and> same_grants s s'"

lemma same_tables_refl [simp]: "same_tables s s"
  by (simp add: same_tables_def same_grants_def)

lemma same_tables_trans: "same_tables s s1 \<Longrightarrow> same_tables s1 s2 \<Longrightarrow> same_tables s s2"
  by (simp add: same_tables_def same_grants_def)

lemma only_same: "only_calls s s' \<Longrightarrow> same_tables s s'"
  by (simp add: same_tables_def same_grants_def only_calls_fields)

lemma audit_same: "same_tables s (auditAction env a r s)"
  by (auto simp: auditAction_def call_def same_tables_def same_grants_def)

lemma views_same:
  assumes "same_tables s s'"
  shows "perms_of s' u = perms_of s u" "roles_of s' u = roles_of s u" "role_perms s' r = role_perms s r"
    "find_user i s' = find_user i s" "find_role j s' = find_role j s" "rb_users s' = rb_users s"
    "rb_userRoles s' = rb_userRoles s" "rb_rolePerms s' = rb_rolePerms s" "rb_roles s' = rb_roles s"
  using assms
  by (simp_all add: same_tables_def same_grants_def perms_of_def roles_of_def role_perms_def [abs_def] find_user_def find_role_def)

text \<open>The outcome of a request on the tables: what was written, if anything.\<close>

datatype written =
    Nothing
  | NewUser string string string "string list"
  | NewPassword string string
  | NewRoles string "string list"
  | NoUser string
  | NewRole string string "string list"
  | ChangedRole string string "string list"
  | NoRole string

fun write_in :: "written \<Rightarrow> rbac \<Rightarrow> rbac" where
  "write_in Nothing s = s"
| "write_in (NewUser i n h rids) s =
     s\<lparr>rb_users := rb_users s @ [\<lparr>us_ID = i, us_Username = n, us_Password = h, us_PasswordVersion = 1\<rparr>],
       rb_userRoles := filter (\<lambda>x. fst x \<noteq> i) (rb_userRoles s) @ map (\<lambda>r. (i, r)) rids\<rparr>"
| "write_in (NewPassword i h) s =
     s\<lparr>rb_users := map (\<lambda>u. if us_ID u = i then u\<lparr>us_Password := h, us_PasswordVersion := us_PasswordVersion u + 1\<rparr> else u) (rb_users s)\<rparr>"
| "write_in (NewRoles i rids) s = s\<lparr>rb_userRoles := filter (\<lambda>x. fst x \<noteq> i) (rb_userRoles s) @ map (\<lambda>r. (i, r)) rids\<rparr>"
| "write_in (NoUser i) s =
     s\<lparr>rb_users := filter (\<lambda>u. us_ID u \<noteq> i) (rb_users s), rb_userRoles := filter (\<lambda>x. fst x \<noteq> i) (rb_userRoles s)\<rparr>"
| "write_in (NewRole i n ps) s =
     s\<lparr>rb_roles := rb_roles s @ [\<lparr>ro_ID = i, ro_Name = n, ro_Builtin = False\<rparr>],
       rb_rolePerms := filter (\<lambda>x. fst x \<noteq> i) (rb_rolePerms s) @ map (\<lambda>p. (i, p)) (remdups ps)\<rparr>"
| "write_in (ChangedRole i n ps) s =
     s\<lparr>rb_roles := map (\<lambda>x. if ro_ID x = i then x\<lparr>ro_Name := n\<rparr> else x) (rb_roles s),
       rb_rolePerms := filter (\<lambda>x. fst x \<noteq> i) (rb_rolePerms s) @ map (\<lambda>p. (i, p)) (remdups ps)\<rparr>"
| "write_in (NoRole i) s =
     s\<lparr>rb_rolePerms := filter (\<lambda>x. fst x \<noteq> i) (rb_rolePerms s), rb_userRoles := filter (\<lambda>x. snd x \<noteq> i) (rb_userRoles s),
       rb_roles := filter (\<lambda>r. ro_ID r \<noteq> i) (rb_roles s)\<rparr>"

text \<open>The condition under which it may be written, for the actor \<open>a\<close>.\<close>

definition someone_else_manages :: "rbac \<Rightarrow> string \<Rightarrow> string list \<Rightarrow> bool" where
  "someone_else_manages s i rids \<longleftrightarrow> (\<exists>u\<in>set (rb_users s).
     \<exists>r\<in>set (if us_ID u = i then rids else roles_of s (us_ID u)). PermUsersManage \<in> set (role_perms s r))"

fun allowed_write :: "string \<Rightarrow> rbac \<Rightarrow> written \<Rightarrow> bool" where
  "allowed_write a s Nothing \<longleftrightarrow> True"
| "allowed_write a s (NewUser i n h rids) \<longleftrightarrow>
     PermUsersManage \<in> set (perms_of s a) \<and> (rids \<noteq> [] \<longrightarrow> PermRolesManage \<in> set (perms_of s a))
     \<and> find_user i s = None \<and> distinct rids \<and> list_all (\<lambda>r. find_role r s \<noteq> None) rids"
| "allowed_write a s (NewPassword i h) \<longleftrightarrow> set (perms_of s i) \<subseteq> set (perms_of s a)"
| "allowed_write a s (NewRoles i rids) \<longleftrightarrow>
     PermRolesManage \<in> set (perms_of s a) \<and> someone_else_manages s i rids \<and> distinct rids \<and> list_all (\<lambda>r. find_role r s \<noteq> None) rids
     \<and> (rids = [] \<or> find_user i s \<noteq> None)"
| "allowed_write a s (NoUser i) \<longleftrightarrow> PermUsersManage \<in> set (perms_of s a) \<and> i \<noteq> a \<and> someone_else_manages s i []"
| "allowed_write a s (NewRole i n ps) \<longleftrightarrow> PermRolesManage \<in> set (perms_of s a) \<and> find_role i s = None"
| "allowed_write a s (ChangedRole i n ps) \<longleftrightarrow> PermRolesManage \<in> set (perms_of s a) \<and> find_role i s \<noteq> None"
| "allowed_write a s (NoRole i) \<longleftrightarrow>
     PermRolesManage \<in> set (perms_of s a) \<and> list_all (\<lambda>x. snd x \<noteq> i) (rb_userRoles s)"

text \<open>A step with an allowed write.\<close>

definition wrote :: "string \<Rightarrow> written \<Rightarrow> rbac \<Rightarrow> rbac \<Rightarrow> bool" where
  "wrote a w s s' \<longleftrightarrow> allowed_write a s w \<and> same_tables (write_in w s) s'"


fun writes :: "string \<Rightarrow> written list \<Rightarrow> rbac \<Rightarrow> rbac \<Rightarrow> bool" where
  "writes a [] s s' \<longleftrightarrow> same_tables s s'"
| "writes a (w # ws) s s' \<longleftrightarrow> (\<exists>s1. wrote a w s s1 \<and> writes a ws s1 s')"

lemma views_write: "same_tables s s1 \<Longrightarrow> same_tables (write_in w s) (write_in w s1)"
  by (cases w) (simp_all add: same_tables_def same_grants_def)

lemma manages_same: "same_tables s s1 \<Longrightarrow> someone_else_manages s1 i rids = someone_else_manages s i rids"
  by (simp add: someone_else_manages_def views_same cong: if_cong)

lemma allowed_same: "same_tables s s1 \<Longrightarrow> allowed_write a s1 w = allowed_write a s w"
  by (cases w) (simp_all add: views_same manages_same)

lemma wrote_before: "same_tables s s1 \<Longrightarrow> wrote a w s1 s' \<Longrightarrow> wrote a w s s'"
  unfolding wrote_def using same_tables_trans [OF views_write] by (simp add: allowed_same)

lemma wrote_after: "wrote a w s s1 \<Longrightarrow> same_tables s1 s' \<Longrightarrow> wrote a w s s'"
  using same_tables_trans by (auto simp: wrote_def)

lemma writes_before: "same_tables s s1 \<Longrightarrow> writes a ws s1 s' \<Longrightarrow> writes a ws s s'"
  by (cases ws) (auto intro: same_tables_trans wrote_before)

lemma writes_after: "writes a ws s s1 \<Longrightarrow> same_tables s1 s' \<Longrightarrow> writes a ws s s'"
  using same_tables_trans by (induction ws arbitrary: s) auto

lemma replaceUserRoles_Some:
  "replaceUserRoles i rids s = Some s1 \<Longrightarrow>
     s1 = s\<lparr>rb_userRoles := filter (\<lambda>x. fst x \<noteq> i) (rb_userRoles s) @ map (\<lambda>r. (i, r)) rids\<rparr>
     \<and> distinct rids \<and> list_all (\<lambda>r. find_role r s \<noteq> None) rids \<and> (rids = [] \<or> find_user i s \<noteq> None)"
  by (auto simp: replaceUserRoles_def split: if_splits)

lemma CreateUser_write:
  assumes "CreateUser env i n h rids s = (s1, ok)"
  shows "if ok then same_tables (write_in (NewUser i n h rids) s) s1 \<and> find_user i s = None \<and> distinct rids
           \<and> list_all (\<lambda>r. find_role r s \<noteq> None) rids
         else same_tables s s1"
  using assms
  by (auto simp: CreateUser_def call_def same_tables_def same_grants_def find_role_def split: if_splits option.splits
      dest!: replaceUserRoles_Some)

lemma UpdateUserPassword_write:
  assumes "UpdateUserPassword env i h s = (s1, ok)"
  shows "same_tables (write_in (if ok then NewPassword i h else Nothing) s) s1"
  using assms by (auto simp: UpdateUserPassword_def call_def same_tables_def same_grants_def split: if_splits)

lemma SetUserRoles_write:
  assumes "SetUserRoles env i rids s = (s1, ok)"
  shows "if ok then same_tables (write_in (NewRoles i rids) s) s1 \<and> distinct rids \<and> list_all (\<lambda>r. find_role r s \<noteq> None) rids
           \<and> (rids = [] \<or> find_user i s \<noteq> None)
         else same_tables s s1"
  using assms
  by (auto simp: SetUserRoles_def call_def same_tables_def same_grants_def find_role_def find_user_def split: if_splits option.splits
      dest!: replaceUserRoles_Some)

lemma DeleteUser_write:
  assumes "DeleteUser env i s = (s1, ok)"
  shows "same_tables (write_in (if ok then NoUser i else Nothing) s) s1"
  using assms by (auto simp: DeleteUser_def call_def same_tables_def same_grants_def split: if_splits)

lemma role_writes:
  "CreateRole env \<lparr>ro_ID = i, ro_Name = n, ro_Builtin = False\<rparr> ps s = (s1, ok) \<Longrightarrow>
     if ok then same_tables (write_in (NewRole i n ps) s) s1 \<and> find_role i s = None else same_tables s s1"
  "UpdateRole env r ps s = (s1, ok) \<Longrightarrow> same_tables (write_in (if ok then ChangedRole (ro_ID r) (ro_Name r) ps else Nothing) s) s1"
  "DeleteRole env i s = (s1, ok) \<Longrightarrow> same_tables (write_in (if ok then NoRole i else Nothing) s) s1"
  by (auto simp: CreateRole_def UpdateRole_def DeleteRole_def replaceRolePermissions_def call_def same_tables_def same_grants_def
      split: if_splits)

subsection \<open>The handlers\<close>

lemma users_Create_writes:
  assumes "users_Create env c uuid n pw rids s = (s', code)" "PermUsersManage \<in> set (perms_of s (cl_UserID c))"
  shows "\<exists>ws. writes (cl_UserID c) ws s s' \<and> (ws = [] \<and> code \<noteq> 201 \<or> (\<exists>n h. ws = [NewUser uuid n h rids]))"
proof -
  have none: ?thesis if "same_tables s s'" "code \<noteq> 201"
    using that by (intro exI [of _ "[]"]) simp
  obtain s1 x where a: "GetUserByUsername env (trim_space n) s = (s1, x)" by fastforce
  obtain s2 y where b: "validateRoles env rids s1 = (s2, y)" by fastforce
  obtain s3 z where m: "(if rids \<noteq> [] then may_grant env c s2 else (s2, None)) = (s3, z)" by fastforce
  note ra = only_same [OF read_only(3) [OF a]] and rb = only_same [OF validateRoles_only [OF b]]
  have rm: "same_tables s2 s3" "z = None \<Longrightarrow> rids \<noteq> [] \<Longrightarrow> PermRolesManage \<in> set (perms_of s2 (cl_UserID c))"
    using m may_grant_only [of env c s2 s3 z] by (auto intro: only_same split: if_splits)
  have s3: "same_tables s s3" using ra rb rm(1) same_tables_trans by blast
  have rm': "z = None \<Longrightarrow> rids \<noteq> [] \<Longrightarrow> PermRolesManage \<in> set (perms_of s (cl_UserID c))"
    using rm(2) ra rb by (simp add: views_same)
  have z: "z \<noteq> Some 201"
    using m by (auto simp: may_grant_def split: prod.splits option.splits if_splits)
  define bad where "bad \<longleftrightarrow> trim_space n = [] \<or> pw = [] \<or> length pw < 8"
  have eq: "(s', code) = (if bad then (s, 400) else if \<exists>u. x = Some (Some u) then (s1, 409) else if \<not> y then (s2, 400)
      else case z of Some k \<Rightarrow> (s3, k) | None \<Rightarrow> (case be_hash env pw of None \<Rightarrow> (s3, 500)
        | Some h \<Rightarrow> (case CreateUser env uuid (trim_space n) h rids s3 of
            (s4, ok) \<Rightarrow> if ok then (auditAction env ''user.create'' (''user:'' @ trim_space n) s4, 201) else (s4, 500))))"
  proof (cases bad)
    case True
    with assms(1) show ?thesis by (auto simp: users_Create_def Let_def bad_def split: if_splits)
  next
    case False
    with assms(1) show ?thesis unfolding bad_def
      by (cases x; cases "the x"; cases y; cases z) (simp_all add: users_Create_def Let_def a b m cong: option.case_cong split: option.splits prod.splits bool.splits)
  qed
  consider "bad" | "\<not> bad" "\<exists>u. x = Some (Some u)" | "\<not> bad" "\<not> (\<exists>u. x = Some (Some u))" "\<not> y"
    | k where "\<not> bad" "\<not> (\<exists>u. x = Some (Some u))" "y" "z = Some k"
    | "\<not> bad" "\<not> (\<exists>u. x = Some (Some u))" "y" "z = None" "be_hash env pw = None"
    | h where "\<not> bad" "\<not> (\<exists>u. x = Some (Some u))" "y" "z = None" "be_hash env pw = Some h"
    by (metis not_Some_eq)
  then show ?thesis
  proof cases
    case 1
    then show ?thesis using eq by (intro none) simp_all
  next
    case 2
    then show ?thesis using eq ra by (intro none) auto
  next
    case 3
    then show ?thesis using eq same_tables_trans [OF ra rb] by (intro none) (simp_all add: if_not_P)
  next
    case 4
    then show ?thesis using eq s3 z by (intro none) (simp_all add: if_not_P)
  next
    case 5
    then show ?thesis using eq s3 by (intro none) (simp_all add: if_not_P)
  next
    case (6 h)
    obtain s4 ok where cr: "CreateUser env uuid (trim_space n) h rids s3 = (s4, ok)" by fastforce
    have s': "s' = (if ok then auditAction env ''user.create'' (''user:'' @ trim_space n) s4 else s4) \<and> code = (if ok then 201 else 500)"
      using eq 6 cr by (simp split: if_splits)
    show ?thesis
    proof (cases ok)
      case True
      have "wrote (cl_UserID c) (NewUser uuid (trim_space n) h rids) s3 s4"
        using CreateUser_write [OF cr] True assms(2) s3 rm' 6 by (auto simp: wrote_def views_same)
      with s3 s' True show ?thesis
        by (intro exI [of _ "[NewUser uuid (trim_space n) h rids]"]) (auto intro: wrote_before wrote_after audit_same)
    next
      case False
      then show ?thesis using none s' CreateUser_write [OF cr] s3 same_tables_trans by auto
    qed
  qed
qed

lemma update_roles_writes:
  assumes "update_roles env c i rids s = (s', r)"
  shows "\<exists>ws. writes (cl_UserID c) ws s s' \<and> (ws = [] \<and> r \<noteq> None \<or> ws = [NewRoles i rids])"
proof -
  have none: ?thesis if "same_tables s s'" "r \<noteq> None" using that by (intro exI [of _ "[]"]) simp
  obtain s1 x where a: "may_grant env c s = (s1, x)" by fastforce
  obtain s2 y where b: "validateRoles env rids s1 = (s2, y)" by fastforce
  obtain s3 z where g: "guardLastAdmin env i rids s2 = (s3, z)" by fastforce
  obtain s4 ok where w: "SetUserRoles env i rids s3 = (s4, ok)" by fastforce
  note ra = only_same [OF may_grant_only [OF a, THEN conjunct1]] and rb = only_same [OF validateRoles_only [OF b]]
    and rg = only_same [OF guard_only [OF g, THEN conjunct1]]
  have s3: "same_tables s s3" "same_tables s s2" using ra rb rg same_tables_trans by blast+
  show ?thesis
  proof (cases "x = None \<and> y \<and> z \<and> ok")
    case True
    then have "someone_else_manages s2 i rids"
      using guard_only [OF g] by (simp add: someone_else_manages_def)
    then have "someone_else_manages s3 i rids" by (simp add: manages_same [OF rg])
    moreover have "PermRolesManage \<in> set (perms_of s3 (cl_UserID c))"
      using may_grant_only [OF a] True by (simp add: views_same [OF s3(1)])
    ultimately have "wrote (cl_UserID c) (NewRoles i rids) s3 s4"
      using SetUserRoles_write [OF w] True by (simp add: wrote_def)
    with True s3(1) assms a b g w show ?thesis
      by (intro exI [of _ "[NewRoles i rids]"]) (auto simp: update_roles_def intro: wrote_before)
  next
    case False
    have "(s', r) = (case x of Some k \<Rightarrow> (s1, Some k) | None \<Rightarrow> if \<not> y then (s2, Some 400) else if \<not> z then (s3, Some 400) else (s4, Some 500))"
      using assms a b g w False by (cases x; cases y; cases z) (auto simp add: update_roles_def)
    moreover have "\<not> ok \<Longrightarrow> same_tables s s4" using SetUserRoles_write [OF w] same_tables_trans [OF s3(1)] by simp
    ultimately show ?thesis using False ra s3 by (intro none) (auto split: option.splits if_splits)
  qed
qed

lemma update_password_writes:
  assumes "update_password env c i pw s = (s', r)"
  shows "\<exists>ws. writes (cl_UserID c) ws s s' \<and> (ws = [] \<and> r \<noteq> None \<or> (\<exists>h. ws = [NewPassword i h]))"
proof -
  have none: ?thesis if "same_tables s s'" "r \<noteq> None" using that by (intro exI [of _ "[]"]) simp
  obtain s1 x where a: "outranks env c i s = (s1, x)" by fastforce
  note ra = only_same [OF outranks_only [OF a, THEN conjunct1]]
  show ?thesis
  proof (cases "length pw < 8 \<or> x \<noteq> None \<or> be_hash env pw = None")
    case True
    show ?thesis by (rule none) (use True assms a ra in \<open>auto simp: update_password_def split: option.splits if_splits\<close>)
  next
    case False
    then obtain h where h: "be_hash env pw = Some h" by auto
    obtain s2 ok where w: "UpdateUserPassword env i h s1 = (s2, ok)" by fastforce
    have r: "s' = s2 \<and> (r = None \<longleftrightarrow> ok)" using assms False a h w by (auto simp: update_password_def split: bool.splits)
    show ?thesis
    proof (cases ok)
      case True
      have "wrote (cl_UserID c) (NewPassword i h) s1 s2"
        using UpdateUserPassword_write [OF w] True outranks_only [OF a] False ra by (simp add: wrote_def views_same)
      with r ra show ?thesis by (intro exI [of _ "[NewPassword i h]"]) (auto intro: wrote_before)
    next
      case False
      then show ?thesis using none r UpdateUserPassword_write [OF w] ra same_tables_trans by auto
    qed
  qed
qed

text \<open>What a request of the routes may write, by its kind.\<close>

fun request_shape :: "admin_request \<Rightarrow> string \<Rightarrow> nat \<Rightarrow> written list \<Rightarrow> bool" where
  "request_shape (PostUser uuid n pw rids) a code ws \<longleftrightarrow> ws = [] \<or> (\<exists>n h. ws = [NewUser uuid n h rids])"
| "request_shape (PutUser i pw rids) a code ws \<longleftrightarrow>
     (\<exists>ws1 ws2. ws = ws1 @ ws2 \<and> (ws1 = [] \<or> (\<exists>rs. rids = Some rs \<and> ws1 = [NewRoles i rs]))
        \<and> (ws2 = [] \<or> pw \<noteq> None \<and> (\<exists>h. ws2 = [NewPassword i h]))
        \<and> (code = 200 \<and> pw \<noteq> None \<longrightarrow> ws2 \<noteq> []))"
| "request_shape (DelUser i) a code ws \<longleftrightarrow> ws = [] \<and> code \<noteq> 200 \<or> ws = [NoUser i]"
| "request_shape (PostRole uuid n ps) a code ws \<longleftrightarrow> ws = [] \<or> (\<exists>n. ws = [NewRole uuid n ps])"
| "request_shape (PutRole i n ps) a code ws \<longleftrightarrow> ws = [] \<and> code \<noteq> 200 \<or> (\<exists>n. ws = [ChangedRole i n ps])"
| "request_shape (DelRole i) a code ws \<longleftrightarrow> ws = [] \<or> ws = [NoRole i]"
| "request_shape (PutOwnPassword cur new) a code ws \<longleftrightarrow> ws = [] \<and> code \<noteq> 200 \<or> (\<exists>h. ws = [NewPassword a h])"

lemma writes_append: "writes a ws s s1 \<Longrightarrow> writes a ws' s1 s2 \<Longrightarrow> writes a (ws @ ws') s s2"
  by (induction ws arbitrary: s) (auto intro: writes_before)

text \<open>A refusal is not 200.\<close>

lemma refusals:
  "may_grant env c s = (s1, Some k) \<Longrightarrow> k \<noteq> 200" "outranks env c i s = (s1, Some k) \<Longrightarrow> k \<noteq> 200"
  "update_roles env c i rids s = (s1, Some k) \<Longrightarrow> k \<noteq> 200" "update_password env c i pw s = (s1, Some k) \<Longrightarrow> k \<noteq> 200"
  "Middleware env c s = (s1, Some k) \<Longrightarrow> k \<noteq> 200" "Require env c p s = (s1, Some k) \<Longrightarrow> k \<noteq> 200"
proof -
  show m: "may_grant env c s = (s1, Some k) \<Longrightarrow> k \<noteq> 200" for s s1 k
    by (auto simp: may_grant_def split: prod.splits option.splits if_splits)
  show o: "outranks env c i s = (s1, Some k) \<Longrightarrow> k \<noteq> 200" for s s1 k
    by (auto simp: outranks_def split: prod.splits option.splits if_splits)
  show "update_roles env c i rids s = (s1, Some k) \<Longrightarrow> k \<noteq> 200"
    using m by (auto simp: update_roles_def split: prod.splits option.splits bool.splits)
  show "update_password env c i pw s = (s1, Some k) \<Longrightarrow> k \<noteq> 200"
    using o by (auto simp: update_password_def split: prod.splits option.splits bool.splits if_splits)
  show "Middleware env c s = (s1, Some k) \<Longrightarrow> k \<noteq> 200" "Require env c p s = (s1, Some k) \<Longrightarrow> k \<noteq> 200"
    by (auto simp: Middleware_def Require_def split: prod.splits option.splits if_splits)
qed

lemma users_Update_writes:
  assumes "users_Update env c i pw rids s = (s', code)"
  shows "\<exists>ws. writes (cl_UserID c) ws s s' \<and> request_shape (PutUser i pw rids) (cl_UserID c) code ws"
proof -
  obtain s1 x where a: "GetUserByID env i s = (s1, x)" by fastforce
  note ra = only_same [OF read_only(2) [OF a, THEN conjunct1]]
  obtain s2 y where b: "(case rids of None \<Rightarrow> (s1, None) | Some rs \<Rightarrow> update_roles env c i rs s1) = (s2, y)" by fastforce
  obtain s3 z where d: "(case pw of None \<Rightarrow> (s2, None) | Some p \<Rightarrow> update_password env c i p s2) = (s3, z)" by fastforce
  have "\<exists>ws1. writes (cl_UserID c) ws1 s s2 \<and> (ws1 = [] \<or> (\<exists>rs. rids = Some rs \<and> ws1 = [NewRoles i rs]))"
  proof (cases rids)
    case None
    with b ra show ?thesis by (intro exI [of _ "[]"]) simp
  next
    case (Some rs)
    with b update_roles_writes [of env c i rs s1 s2 y] ra show ?thesis by (auto intro: writes_before)
  qed
  then obtain ws1 where w1: "writes (cl_UserID c) ws1 s s2" "ws1 = [] \<or> (\<exists>rs. rids = Some rs \<and> ws1 = [NewRoles i rs])"
    by blast
  have "\<exists>ws2. writes (cl_UserID c) ws2 s2 s3 \<and> (ws2 = [] \<or> pw \<noteq> None \<and> (\<exists>h. ws2 = [NewPassword i h]))
      \<and> (z = None \<and> pw \<noteq> None \<longrightarrow> ws2 \<noteq> [])"
  proof (cases pw)
    case None
    with d show ?thesis by (intro exI [of _ "[]"]) simp
  next
    case (Some p)
    with d update_password_writes [of env c i p s2 s3 z] show ?thesis by fastforce
  qed
  then obtain ws2 where w2: "writes (cl_UserID c) ws2 s2 s3" "ws2 = [] \<or> pw \<noteq> None \<and> (\<exists>h. ws2 = [NewPassword i h])"
      "z = None \<and> pw \<noteq> None \<longrightarrow> ws2 \<noteq> []"
    by blast
  have eq: "(s', code) = (case x of None \<Rightarrow> (s1, 500) | Some None \<Rightarrow> (s1, 404) | Some (Some u) \<Rightarrow> (case y of Some k \<Rightarrow> (s2, k)
      | None \<Rightarrow> (case z of Some k \<Rightarrow> (s3, k) | None \<Rightarrow> (auditAction env ''user.update'' (''user:'' @ us_Username u) s3, 200))))"
    using assms a b d by (auto simp: users_Update_def split: option.splits)
  have k: "y \<noteq> Some 200" "z \<noteq> Some 200"
    using b d by (auto dest: refusals split: option.splits)
  consider "s' = s1" "code \<noteq> 200" | "s' = s2" "code \<noteq> 200" | "same_tables s3 s'" "code = 200 \<longrightarrow> z = None"
    using eq k by (auto simp: audit_same split: option.splits)
  then show ?thesis
  proof cases
    case 1
    with ra show ?thesis by (intro exI [of _ "[]"]) simp
  next
    case 2
    with w1 show ?thesis by (intro exI [of _ ws1]) auto
  next
    case 3
    with w1 w2 show ?thesis by (intro exI [of _ "ws1 @ ws2"]) (auto intro: writes_after writes_append)
  qed
qed

lemma users_Delete_writes:
  assumes "users_Delete env c i s = (s', code)" "PermUsersManage \<in> set (perms_of s (cl_UserID c))"
  shows "\<exists>ws. writes (cl_UserID c) ws s s' \<and> request_shape (DelUser i) (cl_UserID c) code ws"
proof -
  obtain s1 x where a: "GetUserByID env i s = (s1, x)" by fastforce
  note ra = only_same [OF read_only(2) [OF a, THEN conjunct1]]
  obtain s2 y where g: "guardLastAdmin env i [] s1 = (s2, y)" by fastforce
  note rg = only_same [OF guard_only [OF g, THEN conjunct1]]
  obtain s3 ok where w: "DeleteUser env i s2 = (s3, ok)" by fastforce
  have s2: "same_tables s s2" using ra rg same_tables_trans by blast
  have eq: "s' = s1 \<and> code \<noteq> 200 \<or> s' = s2 \<and> code \<noteq> 200 \<or> \<not> ok \<and> s' = s3 \<and> code \<noteq> 200
      \<or> ok \<and> y \<and> cl_UserID c \<noteq> i \<and> same_tables s3 s'"
  proof (cases "cl_UserID c = i \<or> x = None \<or> x = Some None")
    case True
    with assms(1) a show ?thesis by (auto simp: users_Delete_def split: option.splits)
  next
    case False
    with assms(1) a g w show ?thesis by (cases y; cases ok; cases x; cases "the x") (simp_all add: users_Delete_def, auto simp: audit_same)
  qed
  show ?thesis
  proof (cases "ok \<and> y \<and> cl_UserID c \<noteq> i \<and> same_tables s3 s'")
    case True
    then have "someone_else_manages s1 i []" using guard_only [OF g] by (simp add: someone_else_manages_def)
    then have "wrote (cl_UserID c) (NoUser i) s2 s3"
      using DeleteUser_write [OF w] True assms(2) by (auto simp: wrote_def manages_same [OF rg] views_same [OF s2])
    with True s2 show ?thesis
      by (intro exI [of _ "[NoUser i]"]) (auto intro: wrote_before wrote_after)
  next
    case False
    moreover have "\<not> ok \<Longrightarrow> same_tables s s3" using DeleteUser_write [OF w] same_tables_trans [OF s2] by simp
    ultimately have "same_tables s s'" "code \<noteq> 200" using eq ra s2 False by blast+
    then show ?thesis by (intro exI [of _ "[]"]) simp
  qed
qed

text \<open>At most one write, when the rest of the handler only reads and audits.\<close>

lemma one_write:
  assumes "s' = s1 \<or> same_tables s2 s'" "same_tables s s1" "same_tables s1 s2 \<or> wrote a w s1 s2"
  shows "\<exists>ws. writes a ws s s' \<and> (ws = [] \<or> ws = [w])"
proof (cases "same_tables s s'")
  case True
  then show ?thesis by (intro exI [of _ "[]"]) simp
next
  case False
  with assms have "wrote a w s1 s2" "same_tables s2 s'" using same_tables_trans by blast+
  with assms(2) have "wrote a w s s'" by (blast intro: wrote_before wrote_after)
  then show ?thesis by (intro exI [of _ "[w]"]) auto
qed

lemma roles_Create_writes:
  assumes "roles_Create env uuid n ps s = (s', code)" "PermRolesManage \<in> set (perms_of s a)"
  shows "\<exists>ws. writes a ws s s' \<and> request_shape (PostRole uuid n ps) a code ws"
proof -
  obtain s1 ok where w: "CreateRole env \<lparr>ro_ID = uuid, ro_Name = trim_space n, ro_Builtin = False\<rparr> ps s = (s1, ok)" by fastforce
  have "s' = s \<or> same_tables s1 s'"
    using assms(1) w by (cases ok) (auto simp: roles_Create_def Let_def audit_same split: if_splits)
  moreover have "same_tables s s1 \<or> wrote a (NewRole uuid (trim_space n) ps) s s1"
    using role_writes(1) [OF w] assms(2) by (auto simp: wrote_def split: if_splits)
  ultimately have "\<exists>ws. writes a ws s s' \<and> (ws = [] \<or> ws = [NewRole uuid (trim_space n) ps])"
    by (intro one_write [of s' s s1]) simp_all
  then show ?thesis by auto
qed

lemma roles_Update_writes:
  assumes "roles_Update env i n ps s = (s', code)" "PermRolesManage \<in> set (perms_of s a)"
  shows "\<exists>ws. writes a ws s s' \<and> request_shape (PutRole i n ps) a code ws"
proof -
  obtain s1 x where g: "GetRole env i s = (s1, x)" by fastforce
  note ro = read_only(4) [OF g]
  note ra = only_same [OF ro [THEN conjunct1]]
  show ?thesis
  proof (cases "\<exists>r qs. x = Some (Some (r, qs))")
    case False
    then have "s' = s1 \<and> code \<noteq> 200" using assms(1) g by (auto simp: roles_Update_def split: option.splits)
    with ra show ?thesis by (intro exI [of _ "[]"]) simp
  next
    case True
    then obtain r qs where x: "x = Some (Some (r, qs))" by blast
    define r' where "r' = (if trim_space n \<noteq> [] then r\<lparr>ro_Name := trim_space n\<rparr> else r)"
    obtain s2 ok where w: "UpdateRole env r' ps s1 = (s2, ok)" by fastforce
    have r: "find_role i s = Some r" using ro x by simp
    then have id: "ro_ID r' = i" by (auto simp: r'_def find_role_def find_Some_iff)
    have eq: "s' = s1 \<and> code \<noteq> 200 \<or> same_tables s2 s' \<and> (ok \<or> code \<noteq> 200)"
      using assms(1) g x w unfolding r'_def by (cases ok) (auto simp: roles_Update_def Let_def audit_same split: if_splits)
    show ?thesis
    proof (cases "same_tables s2 s' \<and> ok")
      case True
      then have "wrote a (ChangedRole i (ro_Name r') ps) s1 s2"
        using role_writes(2) [OF w] assms(2) r id by (simp add: wrote_def views_same [OF ra])
      with True ra show ?thesis by (intro exI [of _ "[ChangedRole i (ro_Name r') ps]"]) (auto intro: wrote_before wrote_after)
    next
      case False
      moreover have "\<not> ok \<Longrightarrow> same_tables s s2" using role_writes(2) [OF w] same_tables_trans [OF ra] by simp
      ultimately have "same_tables s s'" "code \<noteq> 200" using eq ra same_tables_trans by blast+
      then show ?thesis by (intro exI [of _ "[]"]) simp
    qed
  qed
qed

lemma roles_Delete_writes:
  assumes "roles_Delete env i s = (s', code)" "PermRolesManage \<in> set (perms_of s a)"
  shows "\<exists>ws. writes a ws s s' \<and> request_shape (DelRole i) a code ws"
proof -
  obtain s1 x where g: "GetRole env i s = (s1, x)" by fastforce
  note ra = only_same [OF read_only(4) [OF g, THEN conjunct1]]
  obtain s2 y where n: "CountUsersWithRole env i s1 = (s2, y)" by fastforce
  note rn = read_only(6) [OF n]
  have s2: "same_tables s s2" using ra only_same [OF rn [THEN conjunct1]] same_tables_trans by blast
  obtain s3 ok where w: "DeleteRole env i s2 = (s3, ok)" by fastforce
  have eq: "s' = s1 \<or> s' = s2 \<or> y = Some 0 \<and> same_tables s3 s'"
  proof (cases "\<exists>r qs. x = Some (Some (r, qs)) \<and> \<not> ro_Builtin r")
    case False
    with assms(1) g show ?thesis by (auto simp: roles_Delete_def split: option.splits prod.splits if_splits)
  next
    case True
    with assms(1) g n w show ?thesis by (cases y; cases ok) (auto simp: roles_Delete_def audit_same split: if_splits)
  qed
  show ?thesis
  proof (cases "y = Some 0 \<and> same_tables s3 s'")
    case True
    then have "list_all (\<lambda>x. snd x \<noteq> i) (rb_userRoles s1)"
      using rn by (simp add: list_all_iff filter_empty_conv)
    then have "same_tables s2 s3 \<or> wrote a (NoRole i) s2 s3"
      using role_writes(3) [OF w] assms(2) by (auto simp: wrote_def views_same [OF s2] views_same [OF ra] split: if_splits)
    with True s2 have "\<exists>ws. writes a ws s s' \<and> (ws = [] \<or> ws = [NoRole i])"
      by (intro one_write [of s' s2 s3]) simp_all
    then show ?thesis by auto
  next
    case False
    with eq ra s2 have "same_tables s s'" by blast
    then show ?thesis by (intro exI [of _ "[]"]) simp
  qed
qed

lemma ChangeOwnPassword_writes:
  assumes "ChangeOwnPassword env c cur new s = (s', code)"
  shows "\<exists>ws. writes (cl_UserID c) ws s s' \<and> request_shape (PutOwnPassword cur new) (cl_UserID c) code ws"
proof -
  obtain s1 x where a: "GetUserByID env (cl_UserID c) s = (s1, x)" by fastforce
  note ra = only_same [OF read_only(2) [OF a, THEN conjunct1]]
  show ?thesis
  proof (cases "length new < 8 \<or> (\<forall>u. x \<noteq> Some (Some u)) \<or> be_hash env new = None")
    case True
    with assms a ra have "same_tables s s' \<and> code \<noteq> 200"
      by (auto simp: ChangeOwnPassword_def split: option.splits if_splits)
    then show ?thesis by (intro exI [of _ "[]"]) simp
  next
    case False
    then obtain u h where x: "x = Some (Some u)" and h: "be_hash env new = Some h" by auto
    obtain s2 ok where w: "UpdateUserPassword env (cl_UserID c) h s1 = (s2, ok)" by fastforce
    have eq: "s' = s1 \<and> code \<noteq> 200 \<or> same_tables s2 s' \<and> (ok \<or> code \<noteq> 200)"
      using assms a x h w False by (cases ok) (auto simp: ChangeOwnPassword_def audit_same split: if_splits)
    show ?thesis
    proof (cases "same_tables s2 s' \<and> ok")
      case True
      then have "wrote (cl_UserID c) (NewPassword (cl_UserID c) h) s1 s2"
        using UpdateUserPassword_write [OF w] by (simp add: wrote_def)
      with True ra show ?thesis by (intro exI [of _ "[NewPassword (cl_UserID c) h]"]) (auto intro: wrote_before wrote_after)
    next
      case False
      moreover have "\<not> ok \<Longrightarrow> same_tables s s2" using UpdateUserPassword_write [OF w] same_tables_trans [OF ra] by simp
      ultimately have "same_tables s s'" "code \<noteq> 200" using eq ra same_tables_trans by blast+
      then show ?thesis by (intro exI [of _ "[]"]) simp
    qed
  qed
qed

text \<open>Every request: the token must be of an account that exists, at the version of its password, and what is written is
  within the permissions of that account.\<close>

lemma serve_writes:
  assumes "serve env c rq s = (s', code)"
  shows "\<exists>ws. writes (cl_UserID c) ws s s' \<and> request_shape rq (cl_UserID c) code ws
    \<and> (ws = [] \<or> (\<exists>u. find_user (cl_UserID c) s = Some u \<and> us_PasswordVersion u = cl_PasswordVersion c))"
proof -
  have none: ?thesis if "same_tables s s'" "code \<noteq> 200"
    using that by (cases rq) (auto intro: exI [of _ "[]"])
  obtain s1 x where m: "Middleware env c s = (s1, x)" by fastforce
  note rm = Middleware_only [OF m]
  obtain s2 y where g: "(case gate rq of None \<Rightarrow> (s1, None) | Some p \<Rightarrow> Require env c p s1) = (s2, y)" by fastforce
  have s1: "same_tables s s1" using rm only_same by blast
  have "same_tables s1 s2 \<and> (y = None \<longrightarrow> (\<forall>p. gate rq = Some p \<longrightarrow> p \<in> set (perms_of s1 (cl_UserID c))))"
    using g Require_only [of env c _ s1 s2 y] by (auto intro: only_same split: option.splits)
  then have s2: "same_tables s s2" and p: "\<And>p. y = None \<Longrightarrow> gate rq = Some p \<Longrightarrow> p \<in> set (perms_of s2 (cl_UserID c))"
    using s1 same_tables_trans by (blast, auto simp: views_same)
  show ?thesis
  proof (cases "x = None \<and> y = None")
    case False
    then have "(s' = s1 \<or> s' = s2) \<and> code \<noteq> 200"
      using assms m g by (auto simp: serve_def dest: refusals split: option.splits)
    with s1 s2 none show ?thesis by blast
  next
    case True
    then have h: "handle_req env c rq s2 = (s', code)" using assms m g by (simp add: serve_def)
    have "\<exists>ws. writes (cl_UserID c) ws s2 s' \<and> request_shape rq (cl_UserID c) code ws"
    proof (cases rq)
      case (PostUser i n pw rids)
      with users_Create_writes [of env c i n pw rids s2 s' code] h p True show ?thesis by fastforce
    next
      case (PutUser i pw rids)
      with users_Update_writes [of env c i pw rids s2 s' code] h show ?thesis by simp
    next
      case (DelUser i)
      with users_Delete_writes [of env c i s2 s' code] h p True show ?thesis by simp
    next
      case (PostRole i n ps)
      with roles_Create_writes [of env i n ps s2 s' code] h p True show ?thesis by simp
    next
      case (PutRole i n ps)
      with roles_Update_writes [of env i n ps s2 s' code] h p True show ?thesis by simp
    next
      case (DelRole i)
      with roles_Delete_writes [of env i s2 s' code] h p True show ?thesis by simp
    next
      case (PutOwnPassword cur new)
      with ChangeOwnPassword_writes [of env c cur new s2 s' code] h show ?thesis by simp
    qed
    with rm True s2 show ?thesis by (blast intro: writes_before)
  qed
qed

end
