(* ===== verification/RbacLife.thy ===== *)
theory RbacLife
  imports RbacSafety
begin

text \<open>
  Whole runs: any sequence of requests, answered one after the other, with the starts of the program in between.  What
  each write does to the permissions, what a start does, and what lives through both: the keys of the tables, an account
  that manages users, and the end of a token.
\<close>

subsection \<open>What a write does to the permissions\<close>

lemma roles_of_filter: "map snd (filter (\<lambda>x. fst x = u) (filter (\<lambda>x. fst x \<noteq> i) xs @ map (\<lambda>r. (i, r)) rids))
     = (if u = i then rids else map snd (filter (\<lambda>x. fst x = u) xs))"
  by (induction xs) (auto simp: filter_map o_def)

lemma perms_from_roles:
  assumes "roles_of s' u = roles_of s u" "list_all (\<lambda>r. role_perms s' r = role_perms s r) (roles_of s u)"
  shows "perms_of s' u = perms_of s u"
  using assms by (simp add: perms_of_def list_all_iff cong: map_cong)

lemma perms_of_set: "p \<in> set (perms_of s u) \<longleftrightarrow> (\<exists>r\<in>set (roles_of s u). p \<in> set (role_perms s r))"
  by (simp add: perms_of_def)

text \<open>Only \<open>NewRoles\<close> and the writes of roles change what an existing account may do.\<close>

lemma roles_after:
  "roles_of (write_in (NewUser i n h rids) s) u = (if u = i then rids else roles_of s u)"
  "roles_of (write_in (NewRoles i rids) s) u = (if u = i then rids else roles_of s u)"
  "roles_of (write_in (NoUser i) s) u = (if u = i then [] else roles_of s u)"
  "roles_of (write_in (NewPassword i h) s) u = roles_of s u"
  "role_perms (write_in (NewUser i n h rids) s) r = role_perms s r"
  "role_perms (write_in (NewRoles i rids) s) r = role_perms s r"
  "role_perms (write_in (NoUser i) s) r = role_perms s r"
  "role_perms (write_in (NewPassword i h) s) r = role_perms s r"
  using roles_of_filter [of u i "rb_userRoles s" rids] roles_of_filter [of u i "rb_userRoles s" "[]"]
  by (simp_all add: roles_of_def role_perms_def)


subsection \<open>No escalation without \<open>roles.manage\<close>\<close>

text \<open>The accounts whose row a request has created or changed: who sent it may know their password.\<close>

definition taken :: "rbac \<Rightarrow> rbac \<Rightarrow> string list" where
  "taken s s' = map us_ID (filter (\<lambda>u. u \<notin> set (rb_users s)) (rb_users s'))"

text \<open>A campaign: requests sent from the accounts held, each of which may take more accounts.  A request of an account not
  held is not theirs to send.\<close>

fun campaign :: "rbac_env \<Rightarrow> (claims \<times> admin_request) list \<Rightarrow> string list \<Rightarrow> rbac \<Rightarrow> string list \<times> rbac" where
  "campaign env [] held s = (held, s)"
| "campaign env ((c, rq) # rqs) held s =
     (if cl_UserID c \<in> set held then
        (case serve env c rq s of (s1, code) \<Rightarrow> campaign env rqs (taken s s1 @ held) s1)
      else campaign env rqs held s)"

definition confined :: "string list \<Rightarrow> rbac \<Rightarrow> string list \<Rightarrow> bool" where
  "confined ps s held \<longleftrightarrow> list_all (\<lambda>u. list_all (\<lambda>p. p \<in> set ps) (perms_of s u)) held"

lemma confined_iff: "confined ps s held \<longleftrightarrow> (\<forall>u\<in>set held. set (perms_of s u) \<subseteq> set ps)"
  by (auto simp: confined_def list_all_iff)

lemma perms_after:
  "set (perms_of (write_in (NewPassword i h) s) u) = set (perms_of s u)"
  "set (perms_of (write_in (NoUser i) s) u) = (if u = i then {} else set (perms_of s u))"
  "set (perms_of (write_in (NewUser i n h rids) s) u)
     = (if u = i then (\<Union>r\<in>set rids. set (role_perms s r)) else set (perms_of s u))"
  "set (perms_of (write_in (NewRoles i rids) s) u)
     = (if u = i then (\<Union>r\<in>set rids. set (role_perms s r)) else set (perms_of s u))"
  by (auto simp: perms_of_set roles_after simp del: write_in.simps split: if_splits) (simp add: perms_of_def roles_after del: write_in.simps)

lemma taken_of_write:
  assumes "same_tables (write_in w s) s'" "u \<in> set (taken s s')"
  shows "(\<exists>n h rids. w = NewUser u n h rids) \<or> (\<exists>h. w = NewPassword u h)"
  using assms by (cases w) (auto simp: taken_def same_tables_def split: if_splits)

text \<open>One write of an account that may not manage roles: nobody's permissions grow, and an account it takes has none
  beyond its own.\<close>

lemma write_no_more:
  assumes "wrote a w s s'" "PermRolesManage \<notin> set (perms_of s a)"
  shows "set (perms_of s' u) \<subseteq> set (perms_of s u)"
    and "u \<in> set (taken s s') \<Longrightarrow> set (perms_of s' u) \<subseteq> set (perms_of s a)"
proof -
  have w: "allowed_write a s w" "same_tables (write_in w s) s'" using assms(1) by (simp_all add: wrote_def)
  note v = views_same [OF w(2)]
  show "set (perms_of s' u) \<subseteq> set (perms_of s u)"
    using w(1) assms(2) by (cases w) (simp_all add: v perms_after del: write_in.simps, auto simp: v)
  assume t: "u \<in> set (taken s s')"
  from taken_of_write [OF w(2) t] show "set (perms_of s' u) \<subseteq> set (perms_of s a)"
    using w(1) assms(2) by (auto simp: v perms_after simp del: write_in.simps)
qed

lemma taken_trans: "set (taken s s2) \<subseteq> set (taken s s1) \<union> set (taken s1 s2)"
  by (auto simp: taken_def)

lemma taken_same: "same_tables s s' \<Longrightarrow> taken s s' = []"
  by (simp add: taken_def same_tables_def)

lemma writes_no_more:
  assumes "writes a ws s s'" "PermRolesManage \<notin> set (perms_of s a)"
  shows "set (perms_of s' u) \<subseteq> set (perms_of s u)
    \<and> (u \<in> set (taken s s') \<longrightarrow> set (perms_of s' u) \<subseteq> set (perms_of s a))"
  using assms
proof (induction ws arbitrary: s)
  case Nil
  then show ?case by (simp add: views_same taken_same)
next
  case (Cons w ws)
  then obtain s1 where w: "wrote a w s s1" "writes a ws s1 s'" by auto
  note n1 = write_no_more [OF w(1) Cons.prems(2)]
  have m1: "PermRolesManage \<notin> set (perms_of s1 a)" using n1(1) [of a] Cons.prems(2) by blast
  note n2 = Cons.IH [OF w(2) m1]
  show ?case using n1(1) [of u] n1(1) [of a] n1(2) [of u] n2 taken_trans [of s s' s1] by blast
qed

lemma campaign_confined:
  assumes "PermRolesManage \<notin> set ps" "confined ps s held" "campaign env rqs held s = (held', s')"
  shows "confined ps s' held'"
  using assms(2,3)
proof (induction rqs arbitrary: held s)
  case Nil
  then show ?case by simp
next
  case (Cons x rqs)
  obtain c rq where x: "x = (c, rq)" by fastforce
  show ?case
  proof (cases "cl_UserID c \<in> set held")
    case False
    with Cons x show ?thesis by simp
  next
    case True
    obtain s1 code where sv: "serve env c rq s = (s1, code)" by fastforce
    obtain ws where ws: "writes (cl_UserID c) ws s s1" using serve_writes [OF sv] by blast
    have a: "set (perms_of s (cl_UserID c)) \<subseteq> set ps" using Cons.prems(1) True by (auto simp: confined_iff)
    with assms(1) have m: "PermRolesManage \<notin> set (perms_of s (cl_UserID c))" by blast
    have "confined ps s1 (taken s s1 @ held)"
      using writes_no_more [OF ws m] a Cons.prems(1) by (fastforce simp: confined_iff)
    moreover have "campaign env rqs (taken s s1 @ held) s1 = (held', s')" using Cons.prems(2) x True sv by simp
    ultimately show ?thesis by (rule Cons.IH)
  qed
qed


subsection \<open>Whole lives\<close>

datatype admin_event = Boot string | Request claims admin_request

fun event :: "rbac_env \<Rightarrow> admin_event \<Rightarrow> rbac \<Rightarrow> rbac" where
  "event env (Boot pw) s = fst (boot env pw s)"
| "event env (Request c rq) s = fst (serve env c rq s)"

definition life :: "rbac_env \<Rightarrow> admin_event list \<Rightarrow> rbac \<Rightarrow> rbac" where
  "life env es s = fold (event env) es s"

text \<open>The keys of the tables: no id twice, and every row of a link names rows that exist.\<close>

definition db_ok :: "rbac \<Rightarrow> bool" where
  "db_ok s \<longleftrightarrow> distinct (map us_ID (rb_users s)) \<and> distinct (map ro_ID (rb_roles s))
     \<and> distinct (rb_userRoles s) \<and> distinct (rb_rolePerms s)
     \<and> list_all (\<lambda>x. fst x \<in> us_ID ` set (rb_users s) \<and> snd x \<in> ro_ID ` set (rb_roles s)) (rb_userRoles s)
     \<and> list_all (\<lambda>x. fst x \<in> ro_ID ` set (rb_roles s)) (rb_rolePerms s)"

lemma db_ok_cong:
  assumes "map us_ID (rb_users s') = map us_ID (rb_users s)" "map ro_ID (rb_roles s') = map ro_ID (rb_roles s)"
    "rb_userRoles s' = rb_userRoles s" "rb_rolePerms s' = rb_rolePerms s"
  shows "db_ok s' = db_ok s"
proof -
  have "us_ID ` set (rb_users s') = us_ID ` set (rb_users s)" "ro_ID ` set (rb_roles s') = ro_ID ` set (rb_roles s)"
    using assms(1,2) by (metis list.set_map)+
  with assms show ?thesis by (simp add: db_ok_def)
qed

lemma find_ids: "find_user i s = None \<longleftrightarrow> i \<notin> us_ID ` set (rb_users s)" "find_role j s = None \<longleftrightarrow> j \<notin> ro_ID ` set (rb_roles s)"
  by (auto simp: find_user_def find_role_def find_None_iff)

lemma distinct_pairs [simp]: "distinct (map (Pair i) rids) \<longleftrightarrow> distinct rids"
  by (auto simp: distinct_map inj_on_def)

lemma distinct_replace:
  "distinct xs \<Longrightarrow> distinct ys \<Longrightarrow> distinct (filter (\<lambda>x. fst x \<noteq> i) xs @ map (\<lambda>y. (i, y)) ys)"
  by (auto simp: distinct_map inj_on_def)

lemma write_db_ok:
  assumes "db_ok s" "wrote a w s s'"
  shows "db_ok s'"
proof -
  have w: "allowed_write a s w" "same_tables (write_in w s) s'" using assms(2) by (simp_all add: wrote_def)
  have "db_ok (write_in w s)"
  proof (cases w)
    case (NewUser i n h rids)
    with w(1) assms(1) show ?thesis
      by (auto simp: db_ok_def find_ids list_all_iff distinct_replace)
  next
    case (NewPassword i h)
    then have "map us_ID (rb_users (write_in w s)) = map us_ID (rb_users s)" by simp
    with assms(1) NewPassword show ?thesis using db_ok_cong [of "write_in w s" s] by simp
  next
    case (NewRoles i rids)
    with w(1) assms(1) show ?thesis
      by (auto simp: db_ok_def find_ids list_all_iff distinct_replace)
  next
    case (NoUser i)
    with assms(1) show ?thesis by (auto simp: db_ok_def list_all_iff distinct_map_filter)
  next
    case (NewRole i n ps)
    with w(1) assms(1) show ?thesis
      by (auto simp: db_ok_def find_ids list_all_iff distinct_replace)
  next
    case (ChangedRole i n ps)
    let ?s = "s\<lparr>rb_rolePerms := filter (\<lambda>x. fst x \<noteq> i) (rb_rolePerms s) @ map (\<lambda>p. (i, p)) (remdups ps)\<rparr>"
    have "db_ok ?s" using w(1) assms(1) ChangedRole
      by (auto simp: db_ok_def find_ids list_all_iff distinct_replace)
    moreover have "map ro_ID (rb_roles (write_in w s)) = map ro_ID (rb_roles ?s)" using ChangedRole by simp
    ultimately show ?thesis using ChangedRole db_ok_cong [of "write_in w s" ?s] by simp
  next
    case (NoRole i)
    with assms(1) show ?thesis by (auto simp: db_ok_def list_all_iff distinct_map_filter)
  qed (use assms(1) in simp)
  then show ?thesis using w(2) by (simp add: db_ok_def same_tables_def same_grants_def)
qed

lemma same_db_ok: "same_tables s s' \<Longrightarrow> db_ok s' = db_ok s"
  by (simp add: db_ok_def same_tables_def same_grants_def)

lemma writes_db_ok: "db_ok s \<Longrightarrow> writes a ws s s' \<Longrightarrow> db_ok s'"
  by (induction ws arbitrary: s) (auto simp: same_db_ok intro: write_db_ok)

subsection \<open>A start\<close>

lemma add_perm_fields [simp]:
  "rb_users (add_perm r p s) = rb_users s" "rb_roles (add_perm r p s) = rb_roles s" "rb_userRoles (add_perm r p s) = rb_userRoles s"
  "set (rb_rolePerms (add_perm r p s)) = insert (r, p) (set (rb_rolePerms s))"
  by (auto simp: add_perm_def)

lemma add_perms_fields [simp]:
  "rb_users (fold (add_perm r) ps s) = rb_users s" "rb_roles (fold (add_perm r) ps s) = rb_roles s"
  "rb_userRoles (fold (add_perm r) ps s) = rb_userRoles s"
  "set (rb_rolePerms (fold (add_perm r) ps s)) = set (rb_rolePerms s) \<union> {r} \<times> set ps"
  by (induction ps arbitrary: s) auto

lemma add_perm_distinct: "distinct (rb_rolePerms s) \<Longrightarrow> distinct (rb_rolePerms (add_perm r p s))"
  by (simp add: add_perm_def)

lemma add_perms_distinct: "distinct (rb_rolePerms s) \<Longrightarrow> distinct (rb_rolePerms (fold (add_perm r) ps s))"
  by (induction ps arbitrary: s) (simp_all add: add_perm_distinct)

lemma add_perms_rows:
  "Q r \<Longrightarrow> list_all (\<lambda>x. Q (fst x)) (rb_rolePerms s) \<Longrightarrow> list_all (\<lambda>x. Q (fst x)) (rb_rolePerms (fold (add_perm r) ps s))"
  by (induction ps arbitrary: s) (simp_all add: add_perm_def)

lemma add_perms_db_ok: "db_ok s \<Longrightarrow> find_role r s \<noteq> None \<Longrightarrow> db_ok (fold (add_perm r) ps s)"
  using add_perms_rows [of "\<lambda>i. i \<in> ro_ID ` set (rb_roles s)" r s ps] by (simp add: db_ok_def find_ids add_perms_distinct)

lemma new_role_db_ok:
  "db_ok s \<Longrightarrow> find_role (ro_ID r) s = None \<Longrightarrow> db_ok (s\<lparr>rb_roles := rb_roles s @ [r]\<rparr>)"
  by (auto simp: db_ok_def find_ids elim!: list.pred_mono_strong)

lemma seed_role_ok:
  assumes "seed_role sd s = Some s'"
  shows "rb_users s' = rb_users s \<and> rb_userRoles s' = rb_userRoles s \<and> set (rb_rolePerms s) \<subseteq> set (rb_rolePerms s')
    \<and> find_role (sd_ID sd) s' \<noteq> None \<and> (\<forall>r. find_role r s \<noteq> None \<longrightarrow> find_role r s' \<noteq> None)
    \<and> (sd_AlwaysSync sd \<or> find_role (sd_ID sd) s = None \<longrightarrow> {sd_ID sd} \<times> set (sd_Permissions sd) \<subseteq> set (rb_rolePerms s'))
    \<and> (db_ok s \<longrightarrow> db_ok s')"
proof (cases "find_role (sd_ID sd) s = None")
  case True
  with assms have s': "s' = fold (add_perm (sd_ID sd)) (sd_Permissions sd)
      (s\<lparr>rb_roles := rb_roles s @ [\<lparr>ro_ID = sd_ID sd, ro_Name = sd_Name sd, ro_Builtin = True\<rparr>]\<rparr>)"
    by (simp add: seed_role_def split: if_splits)
  have "db_ok s \<Longrightarrow> db_ok s'"
    unfolding s' using True by (intro add_perms_db_ok new_role_db_ok) (auto simp: find_ids)
  with True show ?thesis by (auto simp: s' find_ids)
next
  case False
  with assms have s': "s' = (if sd_AlwaysSync sd then fold (add_perm (sd_ID sd)) (sd_Permissions sd) s else s)"
    by (simp add: seed_role_def)
  have "db_ok s \<Longrightarrow> db_ok s'" using False by (simp add: s' add_perms_db_ok)
  with False show ?thesis by (auto simp: s' find_ids)
qed

lemma seed_roles_ok:
  assumes "seed_roles sds s = Some s'"
  shows "rb_users s' = rb_users s \<and> rb_userRoles s' = rb_userRoles s \<and> set (rb_rolePerms s) \<subseteq> set (rb_rolePerms s')
    \<and> (\<forall>r. find_role r s \<noteq> None \<longrightarrow> find_role r s' \<noteq> None)
    \<and> (\<forall>sd\<in>set sds. find_role (sd_ID sd) s' \<noteq> None \<and> (sd_AlwaysSync sd \<longrightarrow> {sd_ID sd} \<times> set (sd_Permissions sd) \<subseteq> set (rb_rolePerms s')))
    \<and> (db_ok s \<longrightarrow> db_ok s')"
  using assms
proof (induction sds arbitrary: s)
  case (Cons sd sds)
  then obtain s1 where s1: "seed_role sd s = Some s1" "seed_roles sds s1 = Some s'" by (auto split: option.splits)
  show ?case using seed_role_ok [OF s1(1)] Cons.IH [OF s1(2)] by auto
qed simp


lemma default_seeds:
  "snd (role_seeds [] DefaultRoles) = ''role-admin''"
  "map sd_ID (fst (role_seeds [] DefaultRoles)) = [''role-admin'', ''role-operator'', ''role-viewer'']"
  "\<lparr>sd_ID = ''role-admin'', sd_Name = ''Administrador'', sd_Permissions = Catalog, sd_AlwaysSync = True\<rparr>
     \<in> set (fst (role_seeds [] DefaultRoles))"
  by code_simp+

lemma call_same: "call env s = (s1, ok) \<Longrightarrow> same_tables s s1"
  by (auto simp: call_def same_tables_def same_grants_def)

lemma EnsureDefaultRoles_ok:
  assumes "EnsureDefaultRoles env seeds admin s = (s', ok)"
  shows "(\<not> ok \<longrightarrow> same_tables s s') \<and> rb_users s' = rb_users s \<and> set (rb_userRoles s) \<subseteq> set (rb_userRoles s')
    \<and> set (rb_rolePerms s) \<subseteq> set (rb_rolePerms s') \<and> (db_ok s \<longrightarrow> db_ok s')
    \<and> (ok \<longrightarrow> (\<forall>sd\<in>set seeds. sd_AlwaysSync sd \<longrightarrow> {sd_ID sd} \<times> set (sd_Permissions sd) \<subseteq> set (rb_rolePerms s')))
    \<and> (ok \<and> find_user ''default-admin'' s \<noteq> None \<and> roles_of s ''default-admin'' = [] \<and> admin \<noteq> []
         \<longrightarrow> (''default-admin'', admin) \<in> set (rb_userRoles s'))"
proof -
  obtain s1 b where c: "call env s = (s1, b)" by fastforce
  note cs = call_same [OF c]
  note v = views_same [OF cs]
  show ?thesis
  proof (cases "b \<and> seed_roles seeds s1 \<noteq> None")
    case False
    then have "s' = s1 \<and> \<not> ok" using assms c by (auto simp: EnsureDefaultRoles_def split: option.splits if_splits)
    with v same_db_ok [OF cs] cs show ?thesis by simp
  next
    case True
    then obtain s2 where s2: "b" "seed_roles seeds s1 = Some s2" by auto
    note r = seed_roles_ok [OF s2(2)]
    have ro: "roles_of s2 ''default-admin'' = roles_of s ''default-admin''" "find_user ''default-admin'' s2 = find_user ''default-admin'' s"
      using r by (simp_all add: roles_of_def find_user_def v)
    consider "\<not> ok" "s' = s1" | "ok" "s' = s2" "\<not> (find_user ''default-admin'' s \<noteq> None \<and> roles_of s ''default-admin'' = [] \<and> admin \<noteq> [])"
      | "ok" "s' = s2\<lparr>rb_userRoles := rb_userRoles s2 @ [(''default-admin'', admin)]\<rparr>" "roles_of s ''default-admin'' = []"
        "find_role admin s2 \<noteq> None" "find_user ''default-admin'' s2 \<noteq> None"
      using assms c s2 by (auto simp: EnsureDefaultRoles_def ro split: if_splits)
    then show ?thesis
    proof cases
      case 1
      with cs show ?thesis by (simp add: v same_db_ok)
    next
      case 2
      with r cs show ?thesis by (auto simp: v same_db_ok)
    next
      case 3
      have "(''default-admin'', admin) \<notin> set (rb_userRoles s)"
        using 3(3) by (auto simp: roles_of_def filter_empty_conv)
      with 3 r have "db_ok s2 \<Longrightarrow> db_ok s'"
        by (auto simp: db_ok_def find_ids v)
      with 3 r cs show ?thesis by (auto simp: v same_db_ok)
    qed
  qed
qed

lemma boot_ok:
  assumes "boot env pw s = (s', ok)"
  shows "(rb_users s \<noteq> [] \<longrightarrow> rb_users s' = rb_users s) \<and> set (rb_userRoles s) \<subseteq> set (rb_userRoles s')
    \<and> set (rb_rolePerms s) \<subseteq> set (rb_rolePerms s') \<and> (db_ok s \<longrightarrow> db_ok s')
    \<and> (ok \<and> (rb_users s = [] \<or> find_user ''default-admin'' s \<noteq> None) \<and> roles_of s ''default-admin'' = []
         \<longrightarrow> find_user ''default-admin'' s' \<noteq> None \<and> set Catalog \<subseteq> set (perms_of s' ''default-admin''))"
proof (cases "be_hash env pw")
  case None
  with assms show ?thesis by (simp add: boot_def)
next
  case (Some hashed)
  obtain s1 x where i: "SeedInitialAdmin env hashed s = (s1, x)" by fastforce
  have s1: "rb_userRoles s1 = rb_userRoles s" "rb_rolePerms s1 = rb_rolePerms s" "rb_roles s1 = rb_roles s"
    "rb_users s \<noteq> [] \<longrightarrow> rb_users s1 = rb_users s" "roles_of s1 ''default-admin'' = roles_of s ''default-admin''"
    "x \<noteq> None \<and> rb_users s = [] \<longrightarrow> find_user ''default-admin'' s1 \<noteq> None" "rb_users s1 = rb_users s \<or> rb_users s = []"
    using i by (auto simp: SeedInitialAdmin_def call_def roles_of_def find_user_def split: if_splits)
  then have d1: "db_ok s \<longrightarrow> db_ok s1"
    using i by (auto simp: db_ok_def SeedInitialAdmin_def call_def list_all_iff split: if_splits)
  show ?thesis
  proof (cases x)
    case None
    with assms Some i s1 d1 show ?thesis by (simp add: boot_def)
  next
    case x: (Some y)
    obtain seeds admin where sd: "role_seeds [] DefaultRoles = (seeds, admin)" by fastforce
    have e: "EnsureDefaultRoles env seeds admin s1 = (s', ok)" using assms Some i x sd by (simp add: boot_def)
    have sd': "admin = ''role-admin''"
      "\<lparr>sd_ID = ''role-admin'', sd_Name = ''Administrador'', sd_Permissions = Catalog, sd_AlwaysSync = True\<rparr> \<in> set seeds"
      using default_seeds(1,3) sd by simp_all
    note r = EnsureDefaultRoles_ok [OF e]
    have "find_user ''default-admin'' s' \<noteq> None \<and> set Catalog \<subseteq> set (perms_of s' ''default-admin'')"
      if "ok" "rb_users s = [] \<or> find_user ''default-admin'' s \<noteq> None" "roles_of s ''default-admin'' = []"
    proof -
      have u: "find_user ''default-admin'' s1 \<noteq> None" using that(2) s1(6,7) x by (auto simp: find_user_def)
      have g: "(''default-admin'', ''role-admin'') \<in> set (rb_userRoles s')" "{''role-admin''} \<times> set Catalog \<subseteq> set (rb_rolePerms s')"
        using r that(1,3) u sd' s1(5) by (auto dest!: bspec)
      have "set Catalog \<subseteq> set (role_perms s' ''role-admin'')"
        using g(2) by (force simp: role_perms_def)
      moreover have "''role-admin'' \<in> set (roles_of s' ''default-admin'')" using g(1) by (force simp: roles_of_def)
      ultimately have "set Catalog \<subseteq> set (perms_of s' ''default-admin'')" unfolding subset_eq perms_of_set by blast
      then show ?thesis using u r by (simp add: find_user_def)
    qed
    with r s1 d1 show ?thesis by auto
  qed
qed

lemma life_db_ok: "db_ok s \<Longrightarrow> db_ok (life env es s)"
  unfolding life_def
proof (induction es arbitrary: s)
  case (Cons e es)
  have "db_ok (event env e s)"
  proof (cases e)
    case (Boot pw)
    obtain s1 ok where "boot env pw s = (s1, ok)" by fastforce
    with boot_ok [OF this] Cons.prems Boot show ?thesis by simp
  next
    case (Request c rq)
    obtain s1 code where "serve env c rq s = (s1, code)" by fastforce
    with serve_writes [OF this] Cons.prems Request show ?thesis by (auto intro: writes_db_ok)
  qed
  with Cons.IH show ?case by simp
qed simp


subsection \<open>Somebody can always manage users\<close>

definition managed :: "rbac \<Rightarrow> bool" where
  "managed s \<longleftrightarrow> list_ex (\<lambda>u. PermUsersManage \<in> set (perms_of s (us_ID u))) (rb_users s)"

lemma managed_iff:
  "managed s \<longleftrightarrow> (\<exists>u\<in>set (rb_users s). \<exists>r\<in>set (roles_of s (us_ID u)). PermUsersManage \<in> set (role_perms s r))"
  by (simp add: managed_def list_ex_iff perms_of_set)

lemma managed_same: "same_tables s s' \<Longrightarrow> managed s' = managed s"
  by (simp add: managed_def views_same)

lemma links:
  "r \<in> set (roles_of s u) \<longleftrightarrow> (u, r) \<in> set (rb_userRoles s)" "p \<in> set (role_perms s r) \<longleftrightarrow> (r, p) \<in> set (rb_rolePerms s)"
  by (force simp: roles_of_def role_perms_def)+

lemma perms_grow:
  "set (rb_userRoles s) \<subseteq> set (rb_userRoles s') \<Longrightarrow> set (rb_rolePerms s) \<subseteq> set (rb_rolePerms s')
     \<Longrightarrow> set (perms_of s u) \<subseteq> set (perms_of s' u)"
  by (simp add: subset_iff perms_of_set Bex_def links) blast

lemma managedI:
  "u \<in> set (rb_users s) \<Longrightarrow> r \<in> set (roles_of s (us_ID u)) \<Longrightarrow> PermUsersManage \<in> set (role_perms s r) \<Longrightarrow> managed s"
  by (auto simp: managed_iff)

text \<open>The one write that may leave nobody: that of a role.\<close>

fun keeps_roles :: "admin_event \<Rightarrow> bool" where
  "keeps_roles (Request c (PutRole i n ps)) \<longleftrightarrow> False"
| "keeps_roles _ \<longleftrightarrow> True"

lemma write_managed:
  assumes "db_ok s" "managed s" "wrote a w s s'" "\<forall>i n ps. w \<noteq> ChangedRole i n ps"
  shows "managed s'"
proof -
  have w: "allowed_write a s w" "same_tables (write_in w s) s'" using assms(3) by (simp_all add: wrote_def)
  obtain u r where u: "u \<in> set (rb_users s)" "r \<in> set (roles_of s (us_ID u))" "PermUsersManage \<in> set (role_perms s r)"
    using assms(2) by (auto simp: managed_iff)
  have link: "(us_ID u, r) \<in> set (rb_userRoles s)" using u(2) by (auto simp: roles_of_def)
  then have r: "r \<in> ro_ID ` set (rb_roles s)" using assms(1) by (auto simp: db_ok_def list_all_iff)
  have "managed (write_in w s)"
  proof (cases w)
    case (NewUser i n h rids)
    then have "us_ID u \<noteq> i" using w(1) u(1) by (auto simp: find_ids)
    moreover have "u \<in> set (rb_users (write_in w s))" using NewUser u(1) by simp
    ultimately show ?thesis using u NewUser by (intro managedI [of u _ r]) (simp_all add: roles_after del: write_in.simps)
  next
    case (NewPassword i h)
    then have "map us_ID (rb_users (write_in w s)) = map us_ID (rb_users s)" by simp
    then have "us_ID u \<in> us_ID ` set (rb_users (write_in w s))" using u(1) by (metis imageI list.set_map)
    then obtain v where "v \<in> set (rb_users (write_in w s))" "us_ID v = us_ID u" by auto
    with u NewPassword show ?thesis by (intro managedI [of v _ r]) (simp_all add: roles_after del: write_in.simps)
  next
    case (NewRoles i rids)
    then have "someone_else_manages s i rids" using w(1) by simp
    then obtain v q where v: "v \<in> set (rb_users s)" "q \<in> set (if us_ID v = i then rids else roles_of s (us_ID v))"
      "PermUsersManage \<in> set (role_perms s q)" by (auto simp: someone_else_manages_def)
    have "v \<in> set (rb_users (write_in w s))" using NewRoles v(1) by simp
    moreover have "q \<in> set (roles_of (write_in w s) (us_ID v))" "PermUsersManage \<in> set (role_perms (write_in w s) q)"
      using v(2,3) NewRoles by (simp_all add: roles_after del: write_in.simps)
    ultimately show ?thesis by (rule managedI)
  next
    case (NoUser i)
    then have "someone_else_manages s i []" using w(1) by simp
    then obtain v q where v: "v \<in> set (rb_users s)" "us_ID v \<noteq> i" "q \<in> set (roles_of s (us_ID v))" "PermUsersManage \<in> set (role_perms s q)"
      by (auto simp: someone_else_manages_def split: if_splits)
    then have "v \<in> set (rb_users (write_in w s))" using NoUser by simp
    with v NoUser show ?thesis by (intro managedI [of v _ q]) (simp_all add: roles_after del: write_in.simps)
  next
    case (NewRole i n ps)
    then have "r \<noteq> i" using w(1) r by (auto simp: find_ids)
    with u NewRole show ?thesis by (intro managedI [of u _ r]) (simp_all add: links)
  next
    case (NoRole i)
    then have "r \<noteq> i" using w(1) link by (auto simp: list_all_iff)
    with u NoRole show ?thesis by (intro managedI [of u _ r]) (simp_all add: links)
  qed (use assms(2,4) in auto)
  then show ?thesis by (simp add: managed_same [OF w(2)])
qed

lemma writes_managed:
  assumes "db_ok s" "managed s" "writes a ws s s'" "\<forall>i n ps. ChangedRole i n ps \<notin> set ws"
  shows "managed s'"
  using assms
proof (induction ws arbitrary: s)
  case Nil
  then show ?case by (simp add: managed_same)
next
  case (Cons w ws)
  then obtain s1 where w: "wrote a w s s1" "writes a ws s1 s'" by auto
  have "managed s1" using Cons.prems(4) by (intro write_managed [OF Cons.prems(1,2) w(1)]) (metis list.set_intros(1))
  then show ?case using Cons.IH [OF write_db_ok [OF Cons.prems(1) w(1)] _ w(2)] Cons.prems(4) by simp
qed

lemma event_managed:
  assumes "db_ok s" "managed s" "keeps_roles e"
  shows "managed (event env e s)"
proof (cases e)
  case (Boot pw)
  obtain s1 ok where b: "boot env pw s = (s1, ok)" by fastforce
  note r = boot_ok [OF b]
  have "rb_users s \<noteq> []" using assms(2) by (auto simp: managed_def)
  then have "rb_users s1 = rb_users s" using r by simp
  moreover have "set (perms_of s v) \<subseteq> set (perms_of s1 v)" for v
    using r perms_grow by blast
  ultimately show ?thesis using assms(2) b Boot unfolding managed_def list_ex_iff by fastforce
next
  case (Request c rq)
  obtain s1 code where s: "serve env c rq s = (s1, code)" by fastforce
  obtain ws where ws: "writes (cl_UserID c) ws s s1" "request_shape rq (cl_UserID c) code ws" using serve_writes [OF s] by blast
  have "\<forall>i n ps. ChangedRole i n ps \<notin> set ws"
    using ws(2) assms(3) Request by (cases rq) auto
  with writes_managed [OF assms(1,2) ws(1)] s Request show ?thesis by simp
qed

lemma life_managed:
  assumes "db_ok s" "managed s" "list_all keeps_roles es"
  shows "managed (life env es s)"
  using assms
proof (induction es arbitrary: s)
  case (Cons e es)
  then show ?case
    using life_db_ok [of s env "[e]"] event_managed [of s e env] by (simp add: life_def)
qed (simp add: life_def)


subsection \<open>A token lives as long as its password\<close>

text \<open>The token is of no account, or of an older password.\<close>

definition dead :: "claims \<Rightarrow> rbac \<Rightarrow> bool" where
  "dead c s \<longleftrightarrow> (case find_user (cl_UserID c) s of None \<Rightarrow> True | Some u \<Rightarrow> cl_PasswordVersion c < us_PasswordVersion u)"

text \<open>The ids of new accounts are fresh: none is created with this one.\<close>

fun not_created :: "string \<Rightarrow> admin_event \<Rightarrow> bool" where
  "not_created i (Request c (PostUser uuid n pw rids)) \<longleftrightarrow> uuid \<noteq> i"
| "not_created i _ \<longleftrightarrow> True"

lemma find_map_same: "(\<And>x. P (f x) = P x) \<Longrightarrow> find P (map f xs) = map_option f (find P xs)"
  by (induction xs) auto

lemma find_append_other: "\<not> P y \<Longrightarrow> find P (xs @ [y]) = find P xs"
  by (induction xs) auto

lemma find_append_Some: "find P xs = Some u \<Longrightarrow> find P (xs @ ys) = Some u"
  by (induction xs) auto

lemma find_filter_ids: "find (\<lambda>u. us_ID u = i) (filter (\<lambda>u. us_ID u \<noteq> j) xs) = (if i = j then None else find (\<lambda>u. us_ID u = i) xs)"
  by (induction xs) auto

lemma write_dead:
  assumes "wrote a w s s'" "dead c s" "\<forall>n h rids. w \<noteq> NewUser (cl_UserID c) n h rids"
  shows "dead c s'"
proof -
  have w: "same_tables (write_in w s) s'" using assms(1) by (simp add: wrote_def)
  have "dead c (write_in w s)"
  proof (cases w)
    case (NewUser i n h rids)
    then have "i \<noteq> cl_UserID c" using assms(3) by blast
    with assms(2) NewUser show ?thesis by (simp add: dead_def find_user_def find_append_other)
  next
    case (NewPassword i h)
    with assms(2) show ?thesis
      by (auto simp: dead_def find_user_def find_map_same split: option.splits)
  next
    case (NoUser i)
    with assms(2) show ?thesis by (simp add: dead_def find_user_def find_filter_ids)
  qed (use assms(2) in \<open>simp_all add: dead_def find_user_def\<close>)
  then show ?thesis by (simp add: dead_def views_same [OF w])
qed

lemma dead_same: "same_tables s s' \<Longrightarrow> dead c s' = dead c s"
  by (simp add: dead_def views_same)

lemma writes_dead:
  assumes "writes a ws s s'" "dead c s" "\<forall>n h rids. NewUser (cl_UserID c) n h rids \<notin> set ws"
  shows "dead c s'"
  using assms
proof (induction ws arbitrary: s)
  case Nil
  then show ?case by (simp add: dead_same)
next
  case (Cons w ws)
  then obtain s1 where w: "wrote a w s s1" "writes a ws s1 s'" by auto
  have "dead c s1" using Cons.prems(3) by (intro write_dead [OF w(1) Cons.prems(2)]) (metis list.set_intros(1))
  then show ?case using Cons.IH [OF w(2)] Cons.prems(3) by simp
qed

lemma writes_some_user:
  assumes "writes a ws s s'" "rb_users s \<noteq> []"
  shows "rb_users s' \<noteq> []"
  using assms
proof (induction ws arbitrary: s)
  case Nil
  then show ?case by (simp add: views_same)
next
  case (Cons w ws)
  then obtain s1 where w: "allowed_write a s w" "same_tables (write_in w s) s1" "writes a ws s1 s'" by (auto simp: wrote_def)
  have "rb_users s1 \<noteq> []"
    using w(1) Cons.prems(2) views_same(6) [OF w(2)]
    by (cases w) (auto simp: someone_else_manages_def filter_empty_conv split: if_splits)
  then show ?case using Cons.IH [OF w(3)] by simp
qed

lemma life_dead:
  assumes "dead c s" "rb_users s \<noteq> []" "list_all (not_created (cl_UserID c)) es"
  shows "dead c (life env es s)"
  using assms unfolding life_def
proof (induction es arbitrary: s)
  case (Cons e es)
  have "dead c (event env e s) \<and> rb_users (event env e s) \<noteq> []"
  proof (cases e)
    case (Boot pw)
    obtain s1 ok where b: "boot env pw s = (s1, ok)" by fastforce
    with boot_ok [OF b] Cons.prems(1,2) Boot show ?thesis by (simp add: dead_def find_user_def)
  next
    case (Request k rq)
    obtain s1 code where s1: "serve env k rq s = (s1, code)" by fastforce
    obtain ws where ws: "writes (cl_UserID k) ws s s1" "request_shape rq (cl_UserID k) code ws"
      using serve_writes [OF s1] by blast
    have "\<forall>n h rids. NewUser (cl_UserID c) n h rids \<notin> set ws"
      using ws(2) Cons.prems(3) Request by (cases rq) auto
    with writes_dead [OF ws(1) Cons.prems(1)] writes_some_user [OF ws(1) Cons.prems(2)] s1 Request show ?thesis by simp
  qed
  then show ?case using Cons.IH Cons.prems(3) by simp
qed simp

text \<open>The requests that end the sessions of account \<open>i\<close>.\<close>

fun ends_sessions :: "string \<Rightarrow> claims \<Rightarrow> admin_request \<Rightarrow> bool" where
  "ends_sessions i a (PutUser j pw rids) \<longleftrightarrow> j = i \<and> pw \<noteq> None"
| "ends_sessions i a (DelUser j) \<longleftrightarrow> j = i"
| "ends_sessions i a (PutOwnPassword cur new) \<longleftrightarrow> cl_UserID a = i"
| "ends_sessions i a _ \<longleftrightarrow> False"

lemma versions_grow:
  assumes "writes a ws s s'" "find_user i s = Some u" "\<forall>n h rids. NewUser i n h rids \<notin> set ws"
    "NoUser i \<in> set ws \<or> (\<exists>h. NewPassword i h \<in> set ws)" "cl_UserID c = i" "cl_PasswordVersion c \<le> us_PasswordVersion u"
  shows "dead c s'"
  using assms
proof (induction ws arbitrary: s u)
  case (Cons w ws)
  then obtain s1 where w: "wrote a w s s1" "writes a ws s1 s'" by auto
  have v: "same_tables (write_in w s) s1" using w(1) by (simp add: wrote_def)
  show ?case
  proof (cases "w = NoUser i \<or> (\<exists>h. w = NewPassword i h)")
    case True
    have "us_ID u = i" using Cons.prems(2) by (auto simp: find_user_def find_Some_iff)
    with True have "dead c (write_in w s)"
      using Cons.prems(2,5,6) by (auto simp: dead_def find_user_def find_filter_ids find_map_same)
    then have "dead c s1" by (simp add: dead_same [OF v])
    then show ?thesis using Cons.prems(3,5) by (intro writes_dead [OF w(2)]) simp_all
  next
    case False
    have "us_ID u = i" using Cons.prems(2) by (auto simp: find_user_def find_Some_iff)
    then have "find_user i s1 = Some u"
      using False Cons.prems(2,3) unfolding views_same(4) [OF v]
      by (cases w) (auto simp: find_user_def find_filter_ids find_append_Some find_map_same)
    then show ?thesis using Cons.IH [OF w(2)] Cons.prems(3,4,5,6) False by auto
  qed
qed simp

end
