(* ===== verification/RbacGuarantees.thy ===== *)
theory RbacGuarantees
  imports RbacLife
begin

text \<open>
  What the accounts and roles guarantee: the keys of the tables are kept, nobody gains a permission without
  \<open>roles.manage\<close>, somebody can always manage users, a token dies with its password; and where that ends.
\<close>

subsection \<open>Properties\<close>

text \<open>The tables keep their keys: from an empty database, after any sequence of starts and requests, any of whose
  calls of the database may fail, no user, role, assignment or granted permission is there twice, and every assignment
  and every grant names a user and a role that exist.\<close>

theorem tables_keep_their_keys: "db_ok (life env es no_tables)"
  by (rule life_db_ok) (simp add: db_ok_def no_tables_def)

text \<open>C13. No escalation without \<open>roles.manage\<close>.  Accounts whose permissions are within \<open>ps\<close>, which has no
  \<open>roles.manage\<close>, send any requests in any order; whatever account they create, or whose password they reset, has no
  permission beyond \<open>ps\<close>, now and after any further requests sent from those accounts too.\<close>

theorem no_escalation_without_roles_manage:
  assumes "PermRolesManage \<notin> set ps" "confined ps s held" "campaign env rqs held s = (held', s')"
  shows "confined ps s' held'"
  using assms by (rule campaign_confined)

text \<open>C14. Somebody can always manage users: once the first start has succeeded, after any sequence of starts and
  requests, short of a change to a role, some account has \<open>users.manage\<close>.\<close>

theorem somebody_always_manages_users:
  assumes "boot env pw no_tables = (s0, True)" "list_all keeps_roles es"
  shows "managed (life env es s0)"
proof -
  note b = boot_ok [OF assms(1)]
  have ok: "db_ok s0" using b by (simp add: db_ok_def no_tables_def)
  have "find_user ''default-admin'' s0 \<noteq> None" "PermUsersManage \<in> set (perms_of s0 ''default-admin'')"
    using b by (auto simp: no_tables_def roles_of_def Catalog_def PermUsersManage_def)
  then obtain u where "u \<in> set (rb_users s0)" "us_ID u = ''default-admin''" "PermUsersManage \<in> set (perms_of s0 (us_ID u))"
    by (auto simp: find_ids)
  then have "managed s0" unfolding managed_def list_ex_iff by blast
  with ok show ?thesis using assms(2) by (rule life_managed)
qed


text \<open>The state of the witnesses: the tables after a first start, with a help desk account that may only manage users.\<close>

definition sample_env :: rbac_env where
  "sample_env = \<lparr>be_fails = (\<lambda>_. False), be_hash = (\<lambda>p. Some (''h'' @ p)), be_check = (\<lambda>h p. h = ''h'' @ p)\<rparr>"

definition helpdesk :: rbac where
  "helpdesk = \<lparr>rb_users = [\<lparr>us_ID = ''default-admin'', us_Username = ''admin'', us_Password = ''hroot1234'', us_PasswordVersion = 1\<rparr>,
       \<lparr>us_ID = ''u1'', us_Username = ''ana'', us_Password = ''hana12345'', us_PasswordVersion = 1\<rparr>,
       \<lparr>us_ID = ''u2'', us_Username = ''bia'', us_Password = ''hbia12345'', us_PasswordVersion = 3\<rparr>],
     rb_roles = [\<lparr>ro_ID = ''role-admin'', ro_Name = ''Administrador'', ro_Builtin = True\<rparr>,
       \<lparr>ro_ID = ''role-operator'', ro_Name = ''Operador'', ro_Builtin = True\<rparr>,
       \<lparr>ro_ID = ''role-viewer'', ro_Name = ''Visualizador'', ro_Builtin = True\<rparr>,
       \<lparr>ro_ID = ''r1'', ro_Name = ''Suporte'', ro_Builtin = False\<rparr>],
     rb_rolePerms = map (\<lambda>p. (''role-admin'', p)) Catalog @ [(''role-viewer'', ''dns.read''), (''r1'', PermUsersManage), (''r1'', ''dns.read'')],
     rb_userRoles = [(''u1'', ''role-admin''), (''u2'', ''r1'')], rb_audit = [], rb_calls = 0\<rparr>"

definition helpdesk_claims :: claims where
  "helpdesk_claims = \<lparr>cl_UserID = ''u2'', cl_Username = ''bia'', cl_PasswordVersion = 3\<rparr>"

definition raid :: "(claims \<times> admin_request) list" where
  "raid = [(helpdesk_claims, PostUser ''u3'' ''eva'' ''eva12345'' []), (helpdesk_claims, PutUser ''u1'' (Some ''mine1234'') None),
     (helpdesk_claims, PutUser ''u3'' (Some ''mine1234'') None), (helpdesk_claims, PostUser ''u4'' ''ivo'' ''ivo12345'' [''role-admin''])]"

text \<open>Two of the four requests succeed, and the account taken has no permission.\<close>

lemma no_escalation_without_roles_manage_witness:
  "confined [PermUsersManage, ''dns.read''] (snd (campaign sample_env raid [''u2''] helpdesk)) (fst (campaign sample_env raid [''u2''] helpdesk))
   \<and> fst (campaign sample_env raid [''u2''] helpdesk) = [''u3'', ''u3'', ''u2'']"
proof -
  have "PermRolesManage \<notin> set [PermUsersManage, ''dns.read'']" by code_simp
  moreover have "confined [PermUsersManage, ''dns.read''] helpdesk [''u2'']" by code_simp
  ultimately have "confined [PermUsersManage, ''dns.read''] (snd (campaign sample_env raid [''u2''] helpdesk))
      (fst (campaign sample_env raid [''u2''] helpdesk))"
    by (rule no_escalation_without_roles_manage) simp
  moreover have "fst (campaign sample_env raid [''u2''] helpdesk) = [''u3'', ''u3'', ''u2'']" by code_simp
  ultimately show ?thesis ..
qed

lemma somebody_always_manages_users_witness:
  "managed (life sample_env [Request \<lparr>cl_UserID = ''default-admin'', cl_Username = ''admin'', cl_PasswordVersion = 1\<rparr> (PostUser ''u1'' ''ana'' ''ana12345'' [''role-admin'']),
      Request \<lparr>cl_UserID = ''u1'', cl_Username = ''ana'', cl_PasswordVersion = 1\<rparr> (DelUser ''default-admin''),
      Request \<lparr>cl_UserID = ''u1'', cl_Username = ''ana'', cl_PasswordVersion = 1\<rparr> (PutUser ''u1'' None (Some []))]
     (fst (boot sample_env ''first'' no_tables)))"
proof (rule somebody_always_manages_users)
  have "snd (boot sample_env ''first'' no_tables)" by code_simp
  then show "boot sample_env ''first'' no_tables = (fst (boot sample_env ''first'' no_tables), True)"
    by (metis prod.collapse)
qed simp

text \<open>C15. A token dies with its password.  When a reset, a change of the own password or a deletion of an account is
  answered 200, then after any sequence of starts and requests (none creating an account with the same random id), every
  request with a token issued for that account until then is refused, with 401, or 500 when the database fails, and
  changes nothing.\<close>

theorem tokens_die_with_the_password:
  assumes "find_user (cl_UserID c) s = Some u" "cl_PasswordVersion c \<le> us_PasswordVersion u"
    and "ends_sessions (cl_UserID c) a rq" "serve env a rq s = (s1, 200)"
    and "list_all (not_created (cl_UserID c)) es" "serve env' c rq' (life env' es s1) = (s2, code)"
  shows "code \<in> {401, 500} \<and> same_tables (life env' es s1) s2"
proof -
  obtain ws where ws: "writes (cl_UserID a) ws s s1" "request_shape rq (cl_UserID a) 200 ws"
    using serve_writes [OF assms(4)] by blast
  have "dead c s1"
    using ws(2) assms(1,2,3) by (intro versions_grow [OF ws(1), of "cl_UserID c" u]) (cases rq; auto)+
  moreover have "rb_users s1 \<noteq> []"
    using writes_some_user [OF ws(1)] assms(1) by (cases "rb_users s") (simp_all add: find_user_def)
  ultimately have d: "dead c (life env' es s1)" using assms(5) by (rule life_dead)
  obtain s3 x where m: "Middleware env' c (life env' es s1) = (s3, x)" by fastforce
  have "x = Some 401 \<or> x = Some 500"
    using m d by (auto simp: Middleware_def GetUserByID_def call_def dead_def split: option.splits if_splits)
  then have "s2 = s3" "code \<in> {401, 500}" using assms(6) m by (auto simp: serve_def)
  then show ?thesis using Middleware_only [OF m] only_same by blast
qed


definition admin_claims :: claims where
  "admin_claims = \<lparr>cl_UserID = ''u1'', cl_Username = ''ana'', cl_PasswordVersion = 1\<rparr>"

lemma tokens_die_with_the_password_witness:
  "snd (serve sample_env helpdesk_claims (DelUser ''u1'')
     (life sample_env [Boot ''x'', Request admin_claims (PutUser ''u2'' None (Some [''role-admin'']))]
        (fst (serve sample_env admin_claims (PutUser ''u2'' (Some ''bia67890'') None) helpdesk)))) \<in> {401, 500}"
proof -
  have f: "find_user (cl_UserID helpdesk_claims) helpdesk = Some (\<lparr>us_ID = ''u2'', us_Username = ''bia'', us_Password = ''hbia12345'', us_PasswordVersion = 3\<rparr>)"
    by code_simp
  have v: "cl_PasswordVersion helpdesk_claims \<le> us_PasswordVersion (\<lparr>us_ID = ''u2'', us_Username = ''bia'', us_Password = ''hbia12345'', us_PasswordVersion = 3\<rparr>)"
    by code_simp
  have "snd (serve sample_env admin_claims (PutUser ''u2'' (Some ''bia67890'') None) helpdesk) = 200" by code_simp
  then have s: "serve sample_env admin_claims (PutUser ''u2'' (Some ''bia67890'') None) helpdesk
      = (fst (serve sample_env admin_claims (PutUser ''u2'' (Some ''bia67890'') None) helpdesk), 200)"
    by (metis prod.collapse)
  show ?thesis
    by (rule tokens_die_with_the_password [OF f v _ s _ prod.collapse [symmetric], THEN conjunct1]) (simp_all add: helpdesk_claims_def)
qed

text \<open>A database that answers every call.\<close>

definition tick :: "rbac \<Rightarrow> rbac" where
  "tick s = s\<lparr>rb_calls := Suc (rb_calls s)\<rparr>"

lemma tick_views [simp]:
  "find_user i (tick s) = find_user i s" "perms_of (tick s) u = perms_of s u" "roles_of (tick s) u = roles_of s u"
  "role_perms (tick s) r = role_perms s r" "find_role r (tick s) = find_role r s" "rb_users (tick s) = rb_users s"
  "rb_userRoles (tick s) = rb_userRoles s" "rb_audit (tick s) = rb_audit s"
proof -
  have "same_tables s (tick s)" by (simp add: tick_def same_tables_def same_grants_def)
  note v = views_same [OF this]
  show "find_user i (tick s) = find_user i s" "perms_of (tick s) u = perms_of s u" "roles_of (tick s) u = roles_of s u"
    "role_perms (tick s) r = role_perms s r" "find_role r (tick s) = find_role r s" "rb_users (tick s) = rb_users s"
    "rb_userRoles (tick s) = rb_userRoles s" by (simp_all add: v)
qed (simp add: tick_def)

lemma answers:
  assumes "be_fails env = (\<lambda>_. False)"
  shows "call env s = (tick s, True)" "GetUserByID env i s = (tick s, Some (find_user i s))"
    "GetUserPermissions env i s = (tick s, Some (perms_of s i))"
    "GetRole env j s = (tick s, Some (map_option (\<lambda>r. (r, role_perms s j)) (find_role j s)))"
    "UpdateUserPassword env i h s = (write_in (NewPassword i h) (tick s), True)"
  using assms by (simp_all add: call_def tick_def GetUserByID_def GetUserPermissions_def GetRole_def UpdateUserPassword_def)

lemma seed_roles_total:
  "list_all (\<lambda>sd. find_role (sd_ID sd) s \<noteq> None) sds \<Longrightarrow> \<exists>s'. seed_roles sds s = Some s'"
proof (induction sds arbitrary: s)
  case (Cons sd sds)
  then obtain s1 where s1: "seed_role sd s = Some s1" by (auto simp: seed_role_def)
  have "list_all (\<lambda>sd. find_role (sd_ID sd) s1 \<noteq> None) sds"
    using Cons.prems seed_role_ok [OF s1] by (auto simp: list_all_iff)
  with Cons.IH s1 show ?case by simp
qed simp

lemma boot_starts:
  assumes "be_fails env = (\<lambda>_. False)" "be_hash env first = Some h'" "rb_users s \<noteq> []"
    and "list_all (\<lambda>r. find_role r s \<noteq> None) [''role-admin'', ''role-operator'', ''role-viewer'']"
    and "boot env first s = (s', ok)"
  shows "ok"
proof -
  obtain seeds admin where sd: "role_seeds [] DefaultRoles = (seeds, admin)" by fastforce
  have ids: "map sd_ID seeds = [''role-admin'', ''role-operator'', ''role-viewer'']" "admin = ''role-admin''"
    using default_seeds(1,2) sd by simp_all
  have "list_all (\<lambda>r. find_role r (tick (tick s)) \<noteq> None) (map sd_ID seeds)" unfolding ids using assms(4) by simp
  then have "list_all (\<lambda>sd. find_role (sd_ID sd) (tick (tick s)) \<noteq> None) seeds" by (simp add: list.pred_map o_def)
  from seed_roles_total [OF this] obtain s2 where s2: "seed_roles seeds (tick (tick s)) = Some s2" by blast
  have "find_role ''role-admin'' s2 \<noteq> None" using seed_roles_ok [OF s2] assms(4) by simp
  then show ?thesis
    using assms(2,3,5) sd s2 ids(2)
    by (auto simp: boot_def SeedInitialAdmin_def EnsureDefaultRoles_def answers(1) [OF assms(1)] split: if_splits)
qed

text \<open>C16. A demoted first account is an open door.  When \<open>default-admin\<close> has no role, an account that may only manage
  users can set its password (it has no permission beyond anyone's), and the next start gives it the administrator role
  again, with every permission of the catalog.\<close>

theorem demoted_first_account_is_an_open_door:
  assumes "be_fails env = (\<lambda>_. False)" "be_hash env pw = Some h" "be_hash env first = Some h'" "8 \<le> length pw"
    and "find_user (cl_UserID c) s = Some u" "us_PasswordVersion u = cl_PasswordVersion c"
    and "PermUsersManage \<in> set (perms_of s (cl_UserID c))"
    and "find_user ''default-admin'' s = Some d" "roles_of s ''default-admin'' = []"
    and "list_all (\<lambda>r. find_role r s \<noteq> None) [''role-admin'', ''role-operator'', ''role-viewer'']"
    and "serve env c (PutUser ''default-admin'' (Some pw) None) s = (s1, code)" "boot env first s1 = (s2, ok)"
  shows "code = 200 \<and> ok \<and> map_option us_Password (find_user ''default-admin'' s2) = Some h
    \<and> set Catalog \<subseteq> set (perms_of s2 ''default-admin'')"
proof -
  have c: "call env t = (t\<lparr>rb_calls := Suc (rb_calls t)\<rparr>, True)" for t by (simp add: call_def assms(1))
  have np: "perms_of s ''default-admin'' = []" using assms(9) by (simp add: perms_of_def)
  then have ne: "cl_UserID c \<noteq> ''default-admin''" using assms(7) by auto
  note an = answers [OF assms(1)]
  have sv: "serve env c (PutUser ''default-admin'' (Some pw) None) s
      = (auditAction env ''user.update'' (''user:'' @ us_Username d) (write_in (NewPassword ''default-admin'' h) ((tick ^^ 6) s)), 200)"
    using assms(2,4-8) np ne
    by (simp add: serve_def Middleware_def an(2,3,5) Require_def users_Update_def update_password_def outranks_def
        permissionsBeyond_def numeral_eq_Suc del: write_in.simps)
  then have s1: "code = 200" "same_tables (write_in (NewPassword ''default-admin'' h) ((tick ^^ 6) s)) s1"
    using assms(11) audit_same by auto
  have six: "(tick ^^ 6) s = tick (tick (tick (tick (tick (tick s)))))" by (simp add: numeral_eq_Suc)
  note v = views_same [OF s1(2)]
  have t: "rb_users s1 \<noteq> []" "roles_of s1 ''default-admin'' = []" "find_role r s1 = find_role r s"
    "find_user ''default-admin'' s1 = Some (d\<lparr>us_Password := h, us_PasswordVersion := us_PasswordVersion d + 1\<rparr>)" for r
  proof -
    show "roles_of s1 ''default-admin'' = []" using assms(9) by (simp add: v(2) six roles_after del: write_in.simps)
    show "find_role r s1 = find_role r s" unfolding v(5) by (simp add: six) (simp add: find_role_def tick_def)
    have "us_ID d = ''default-admin''" using assms(8) by (auto simp: find_user_def find_Some_iff)
    then show u: "find_user ''default-admin'' s1 = Some (d\<lparr>us_Password := h, us_PasswordVersion := us_PasswordVersion d + 1\<rparr>)"
      using assms(8) unfolding v(4) by (simp add: six find_user_def find_map_same)
    then show "rb_users s1 \<noteq> []" by (auto simp: find_user_def)
  qed
  have ok: "ok" using t(1) assms(10) by (intro boot_starts [OF assms(1,3) _ _ assms(12)]) (simp_all add: t(3))
  note b = boot_ok [OF assms(12)]
  have "rb_users s2 = rb_users s1" using b t(1) by simp
  then have "find_user ''default-admin'' s2 = find_user ''default-admin'' s1" by (simp add: find_user_def)
  with b ok t s1(1) show ?thesis by simp
qed


lemma demoted_first_account_is_an_open_door_witness:
  "set Catalog \<subseteq> set (perms_of (fst (boot sample_env ''x'' (fst (serve sample_env helpdesk_claims
      (PutUser ''default-admin'' (Some ''mine1234'') None) helpdesk)))) ''default-admin'')"
proof -
  let ?u = "\<lparr>us_ID = ''u2'', us_Username = ''bia'', us_Password = ''hbia12345'', us_PasswordVersion = 3\<rparr> :: user"
  let ?d = "\<lparr>us_ID = ''default-admin'', us_Username = ''admin'', us_Password = ''hroot1234'', us_PasswordVersion = 1\<rparr> :: user"
  have f: "be_fails sample_env = (\<lambda>_. False)" "be_hash sample_env ''mine1234'' = Some ''hmine1234''" "be_hash sample_env ''x'' = Some ''hx''"
    "8 \<le> length ''mine1234''" by (simp_all add: sample_env_def)
  have g: "find_user (cl_UserID helpdesk_claims) helpdesk = Some ?u" "us_PasswordVersion ?u = cl_PasswordVersion helpdesk_claims"
    "PermUsersManage \<in> set (perms_of helpdesk (cl_UserID helpdesk_claims))" "find_user ''default-admin'' helpdesk = Some ?d"
    "roles_of helpdesk ''default-admin'' = []"
    "list_all (\<lambda>r. find_role r helpdesk \<noteq> None) [''role-admin'', ''role-operator'', ''role-viewer'']" by code_simp+
  show ?thesis
    using demoted_first_account_is_an_open_door [OF f g prod.collapse [symmetric] prod.collapse [symmetric]] by blast
qed

text \<open>Roles are not guarded.  Whoever may manage roles can take \<open>users.manage\<close> out of a role with a change that is
  accepted (the check that somebody still manages users is made when accounts change, not when roles do); when no other
  role grants it, nobody manages users any more, and every request on accounts is refused to everyone.\<close>

theorem emptied_role_locks_the_accounts:
  assumes "list_all (\<lambda>x. snd x = PermUsersManage \<longrightarrow> fst x = i) (rb_rolePerms s)" "PermUsersManage \<notin> set ps"
    and "serve env c (PutRole i n ps) s = (s1, 200)"
    and "gate rq = Some PermUsersManage" "serve env' c' rq s1 = (s2, code)"
  shows "\<not> managed s1 \<and> code \<in> {401, 403, 500} \<and> same_tables s1 s2"
proof -
  obtain ws where "writes (cl_UserID c) ws s s1" "request_shape (PutRole i n ps) (cl_UserID c) 200 ws"
    using serve_writes [OF assms(3)] by blast
  then obtain n' s0 where "same_tables (write_in (ChangedRole i n' ps) s) s0" "same_tables s0 s1" by (auto simp: wrote_def)
  then have "same_tables (write_in (ChangedRole i n' ps) s) s1" by (rule same_tables_trans)
  from views_same(8) [OF this] have "list_all (\<lambda>x. snd x \<noteq> PermUsersManage) (rb_rolePerms s1)"
    using assms(1,2) by (auto simp: list_all_iff)
  then have none: "PermUsersManage \<notin> set (perms_of s1 u)" for u
    by (auto simp: perms_of_set links list_all_iff Bex_def)
  obtain s3 x where m: "Middleware env' c' s1 = (s3, x)" by fastforce
  note rm = Middleware_only [OF m]
  obtain s4 y where q: "Require env' c' PermUsersManage s3 = (s4, y)" by fastforce
  note rq = Require_only [OF q]
  have "y \<noteq> None" using rq none views_only(1) [of s1 s3] rm by auto
  then have "y \<in> {Some 403, Some 500}" "x \<in> {None, Some 401, Some 500}"
    using q m by (auto simp: Require_def Middleware_def split: prod.splits option.splits if_splits)
  then have "(s2 = s3 \<or> s2 = s4) \<and> code \<in> {401, 403, 500}"
    using assms(4,5) m q by (auto simp: serve_def split: option.splits)
  moreover have "same_tables s1 s3" "same_tables s1 s4" using rm rq only_same same_tables_trans by blast+
  ultimately show ?thesis using none by (auto simp: managed_def list_ex_iff)
qed

definition last_admin :: rbac where
  "last_admin = helpdesk\<lparr>rb_rolePerms := map (\<lambda>p. (''role-admin'', p)) Catalog\<rparr>"

lemma emptied_role_locks_the_accounts_witness:
  "\<not> managed (fst (serve sample_env admin_claims (PutRole ''role-admin'' [] [PermRolesManage]) last_admin))"
proof -
  have "snd (serve sample_env admin_claims (PutRole ''role-admin'' [] [PermRolesManage]) last_admin) = 200" by code_simp
  then have s: "serve sample_env admin_claims (PutRole ''role-admin'' [] [PermRolesManage]) last_admin
      = (fst (serve sample_env admin_claims (PutRole ''role-admin'' [] [PermRolesManage]) last_admin), 200)"
    by (metis prod.collapse)
  have "list_all (\<lambda>x. snd x = PermUsersManage \<longrightarrow> fst x = ''role-admin'') (rb_rolePerms last_admin)"
    "PermUsersManage \<notin> set [PermRolesManage]" "gate (DelUser ''u2'') = Some PermUsersManage" by code_simp+
  from emptied_role_locks_the_accounts [OF this(1,2) s this(3) prod.collapse [symmetric]] show ?thesis by blast
qed

lemma update_roles_unaudited:
  assumes "update_roles env c i rids s = (s', r)"
  shows "rb_audit s' = rb_audit s"
proof -
  obtain s1 x where a: "may_grant env c s = (s1, x)" by fastforce
  obtain s2 y where b: "validateRoles env rids s1 = (s2, y)" by fastforce
  obtain s3 z where g: "guardLastAdmin env i rids s2 = (s3, z)" by fastforce
  have e: "rb_audit s1 = rb_audit s" "rb_audit s2 = rb_audit s" "rb_audit s3 = rb_audit s"
    using only_calls_fields(5) [OF may_grant_only [OF a, THEN conjunct1]] only_calls_fields(5) [OF validateRoles_only [OF b]]
      only_calls_fields(5) [OF guard_only [OF g, THEN conjunct1]] by simp_all
  have "rb_audit (fst (SetUserRoles env i rids s3)) = rb_audit s3"
    by (auto simp: SetUserRoles_def call_def dest!: replaceUserRoles_Some split: option.splits)
  with assms a b g e show ?thesis
    by (auto simp: update_roles_def split: option.splits bool.splits prod.splits)
qed

text \<open>An update of roles and password is not one change.  When both are asked for and the roles are accepted but
  the password is refused, the answer is a refusal, the roles have changed all the same, and nothing is written in the
  audit log.\<close>

theorem refused_update_changes_roles_unaudited:
  assumes "find_user i s = Some u" "be_fails env (rb_calls s) = False"
    and "update_roles env c i rids (tick s) = (s1, None)" "length pw < 8"
    and "users_Update env c i (Some pw) (Some rids) s = (s2, code)"
  shows "code = 400 \<and> roles_of s2 i = rids \<and> rb_audit s2 = rb_audit s"
proof -
  have s2: "s2 = s1" "code = 400"
    using assms by (auto simp: users_Update_def GetUserByID_def call_def tick_def update_password_def)
  obtain ws where "writes (cl_UserID c) ws (tick s) s1" "ws = [NewRoles i rids]"
    using update_roles_writes [OF assms(3)] by auto
  then obtain s0 where "same_tables (write_in (NewRoles i rids) (tick s)) s0" "same_tables s0 s1" by (auto simp: wrote_def)
  then have "same_tables (write_in (NewRoles i rids) (tick s)) s1" by (rule same_tables_trans)
  from views_same(2) [OF this] have "roles_of s1 i = rids" by (simp add: roles_after del: write_in.simps)
  with s2 update_roles_unaudited [OF assms(3)] show ?thesis by simp
qed

lemma refused_update_changes_roles_unaudited_witness:
  "roles_of (fst (users_Update sample_env admin_claims ''u2'' (Some ''short'') (Some [''role-admin'']) helpdesk)) ''u2'' = [''role-admin'']"
proof -
  let ?u = "\<lparr>us_ID = ''u2'', us_Username = ''bia'', us_Password = ''hbia12345'', us_PasswordVersion = 3\<rparr> :: user"
  have f: "find_user ''u2'' helpdesk = Some ?u" "be_fails sample_env (rb_calls helpdesk) = False" "length ''short'' < 8" by code_simp+
  have "snd (update_roles sample_env admin_claims ''u2'' [''role-admin''] (tick helpdesk)) = None" by code_simp
  then have g: "update_roles sample_env admin_claims ''u2'' [''role-admin''] (tick helpdesk)
      = (fst (update_roles sample_env admin_claims ''u2'' [''role-admin''] (tick helpdesk)), None)" by (metis prod.collapse)
  from refused_update_changes_roles_unaudited [OF f(1,2) g f(3) prod.collapse [symmetric]] show ?thesis by blast
qed

text \<open>The check of a role's permissions stops at an empty name: a list that begins with the empty permission is
  accepted whatever follows it, and the unknown permissions are stored.\<close>

theorem empty_permission_hides_the_rest:
  assumes "be_fails env = (\<lambda>_. False)" "trim_space n \<noteq> []" "find_role uuid s = None"
    and "list_all (\<lambda>x. ro_Name x \<noteq> trim_space n) (rb_roles s)" "roles_Create env uuid n ([] # ps) s = (s1, code)"
  shows "code = 201 \<and> set ps \<subseteq> set (role_perms s1 uuid)"
proof -
  have "\<not> IsValidPermission []" by (simp add: IsValidPermission_def Catalog_def)
  then have i: "invalidPermissions ([] # ps) = []" by (simp add: invalidPermissions_def)
  have n: "\<not> list_ex (\<lambda>x. ro_Name x = trim_space n) (rb_roles s)" using assms(4) by (auto simp: list_all_iff list_ex_iff)
  obtain s0 ok where w: "CreateRole env \<lparr>ro_ID = uuid, ro_Name = trim_space n, ro_Builtin = False\<rparr> ([] # ps) s = (s0, ok)" by fastforce
  then have ok: "ok" using assms(1,3) n by (auto simp: CreateRole_def call_def split: if_splits)
  then have s1: "code = 201" "same_tables s0 s1" using assms(2,5) w i by (auto simp: roles_Create_def Let_def audit_same)
  have "same_tables (write_in (NewRole uuid (trim_space n) ([] # ps)) s) s0" using role_writes(1) [OF w] ok by simp
  then have "same_tables (write_in (NewRole uuid (trim_space n) ([] # ps)) s) s1" using s1(2) by (rule same_tables_trans)
  from views_same(8) [OF this] have "set ps \<subseteq> set (role_perms s1 uuid)"
    by (auto simp: links)
  with s1(1) show ?thesis ..
qed

lemma empty_permission_hides_the_rest_witness:
  "''root.shell'' \<in> set (role_perms (fst (roles_Create sample_env ''r9'' '' X '' [[], ''root.shell''] helpdesk)) ''r9'')"
proof -
  have f: "be_fails sample_env = (\<lambda>_. False)" by (simp add: sample_env_def)
  have g: "trim_space '' X '' \<noteq> []" "find_role ''r9'' helpdesk = None"
    "list_all (\<lambda>x. ro_Name x \<noteq> trim_space '' X '') (rb_roles helpdesk)" by code_simp+
  from empty_permission_hides_the_rest [OF f g prod.collapse [symmetric], of "[''root.shell'']"] show ?thesis by simp
qed

end
