(* ===== verification/Spec2Isabelle.thy ===== *)
theory Spec2Isabelle
  imports Failover BalancerThreads BootText QosGuarantees RoutePlan RouteArgs ConfirmWatch ApplyGuarded GroupPass DnstapCollector HostQuotaWarnings DomainGuarantees DomainRoutingSafe AuthGuarantees RbacGuarantees
begin

text \<open>
  LinkGuard FW: a verification library of its core.

  LinkGuard FW (src/cmd/linkguard-fw, src/internal) is a daemon that turns a Debian box into a
  router with several internet links: it measures the links, balances or fails over between them,
  renders a firewall from rows of a database, undoes a firewall change nobody confirmed, watches
  what the devices of the network do, and raises alerts.  Every theory below translates a part of
  that code; the definitions keep the names of the functions, and the theorems state what each part
  is for.

  CONVENTIONS.  A struct is a record and an enumeration a datatype or the strings of the code.  Go
  strings are lists of bytes, text that comes from commands is ASCII.  float64 is real, without
  rounding.  An int is an integer, wrapped where it can overflow; bytes and the positions in them,
  counters of traffic and lengths on the wire are words of their width.  A call that can fail (the
  database, nft, ip) consults a parameter that says which calls fail, by the number of the call, the
  text of the command or the kind of step: the theorems hold for every such parameter unless a
  hypothesis says otherwise.  A map is a function, or a list of entries in the order in which a range
  happens to visit it, and then the theorems hold for every order.  What several goroutines share is
  changed in one step per critical section; where something can happen between two steps, that
  something is an argument (the gaps of ApplyGuarded, the arrivals of HostQuota).  Journal lines are
  left out, and so are sentences shown to the operator where no decision depends on them.

  THE LINKS.
  LinkMonitor (internal/links/monitor.go): one probe, the averages, the hysteresis of an online,
  degraded and offline link, one check of a link and one pass.  The counters of the hysteresis refine
  the lengths of the runs of samples.
  RoutePlan and RouteArgs (internal/balancer/service.go): choice and weights of the next hops, the
  signature of a route, the command line of a route and how it is rebuilt from what the kernel shows.
  Balancer (the rest of that file): plan, apply, confirm, roll back, rebuild, schedules, eviction; an armed
  rollback is not overtaken.  BalancerThreads: its goroutines interleaved; a rebuild that succeeds has the
  planned route installed, unless it came between the command of an apply and its signature.
  Failover (internal/failover, internal/routes): the commands of the older per-table failover.

  THE TRAFFIC SHAPER (internal/qos/service.go).
  QosText: what tc prints, read line by line: rates, delays, fields, the signature of a discipline or a filter
  that must still be there after a reinstallation.  QosService: the state of the service, with the executor that
  runs ip and tc as a parameter; who owns a link, the journal of an operation, the steps of a change and what
  undoes each of them.  QosOperations: the public operations, the lease of an operation in the database,
  recovery at a start, the protocol of a benchmark.  QosSafety, QosCareful and QosGuarantees: over every history
  of operations, whatever tc answers, what the operator configured by hand is never touched.  QosLeases: the
  lease tells what is pending, and one that is left stops every later operation of its interface.  QosSaga: a change is a saga, its compensations in the reverse order.
  QosSignatures: which disciplines read back as they were asked for, and which do not.  The numbers of a
  measurement are a parameter, locks are the order of the steps, and decimal text is read without rounding.

  THE FIREWALL.
  FwData (internal/storage, internal/nftables/groups.go): groups, rules, policies, snapshots.
  NetText, RuleText, TimeWindow (internal/nftables/service.go, user_rules.go, schedule.go): validation
  of a rule, its tokens, recognising it in a live text (whatever that text is: what nft prints is not
  modelled), parsing it back.
  FirewallRender: every line of the chains (groups.go, reconcile.go, survival.go, waninput.go, abusers.go).
  NftSemantics and InputChain: what the kernel does with those lines, and what the input chain lets in.
  GroupReconcile and GroupPass (internal/nftables/reconcile_groups.go, reconcile.go, policy.go): one pass
  over a kernel that may refuse any step; after a pass without refusals the kernel filters as the rows say,
  and a pass with refusals leaves a whole forward chain and writes nothing to the boot file.
  BootText (persist_sanitize.go): the scanner that takes measurements out of the table before it is written
  to the boot file; it returns on every text and cuts nothing else.

  CHANGES THAT UNDO THEMSELVES (internal/firewallrules).
  RevertMerge (revert_merge.go): the three-way merge.  ConfirmWindow (confirm.go): the window of a change;
  ConfirmSafety and ConfirmRestore: what is on disk is confirmed, an unconfirmed change is undone, the row of
  a window disappears only when it is resolved.  ConfirmWatch: the pace of the watchdog.  ApplyGuarded
  (apply_guarded.go): the order of a guarded change and its undoing at each stage.

  WHAT THE RESOLVER ANSWERS (internal/dnstap).
  Dnstap (protobuf.go): the scanner of protobuf frames at the width of its integers.  It reads back what was
  written, it returns whenever the lengths of a frame do not wrap, and two frames show that otherwise it
  loops for ever or panics: the scanner is a partial function whose undefinedness is the endless loop.
  DnstapCollector (framestream.go, resposta.go, mapa.go, servico.go): the conversation with the resolver, the
  map from addresses to names, one connection.

  NAMES THAT ARE ROUTED OR BARRED (internal/domtargets, internal/domainrouting, internal/nftables/dominios.go).
  Netip and Validate: the addresses of net/netip and the names the product accepts.  DomainIndex, DomainInvariant
  and DomainRules (indice.go): from an answer of the resolver to the addresses of a target; the longest domain
  wins and a barred one prevails.  DomainBatch (dominios.go): a batch of changes over the kernel, bisected when
  nft refuses it.  DomainFeed, DomainChanges, DomainFeedSafe and DomainGuarantees (servico.go): the queue, the
  window and the writer as steps that interleave; what the kernel holds is public, a change of the list asks
  for every address that is recorded as written, and a write that waits survives its removal.
  DomainRouting and DomainRoutingSafe (coordinator.go, repo_domtargets.go): what the operator asked for, stages
  and the links a target may use; an active target is one that was asked for and was fit when the rows of
  links and groups, which change without telling the coordinator, were last read.

  ALERTS AND QUOTAS.
  Alerts (internal/alerts, internal/storage/repo_alerts.go): what opens, closes and sends an alert, with calls
  that interleave at every call of the database; the locale
  alerter is the interface the quotas use.  Calendar: the cycles of internal/linkquota and internal/hostquota.
  Ledger (the storage of both quotas): accumulators and usage tables.  HostQuota, HostQuotaBooks and
  HostQuotaWarnings (internal/hostquota): measuring, flushing, the turn of a cycle and the warnings; a byte that
  was counted is in memory or on disk whatever the database refuses.

  WHO MAY DO WHAT (internal/auth, internal/storage/repo_rbac.go, the handlers of users and roles).
  Rbac: the catalog, the tables of users, roles and grants, the check of a session and of a permission, every
  handler that changes them, the seeding at a start.  RbacSafety, RbacLife and RbacGuarantees: nobody gains a
  permission they could not hand out, somebody always manages the accounts, a session dies with its password, and
  the states from which an account cannot get back.  AuthLogin and AuthGuarantees: the lock after failed attempts,
  the codes of the authenticator, the set-up and removal of the second factor, with HMAC, base 32, bcrypt and the
  signature of a token as parameters.

  BOUNDS.  Loops are structural recursions, recursions with a measure (the bytes still to be read, the days
  still to come), folds over the finite data they range over, or, where the code may not return, partial
  functions into option; there is no fuel.

  NOT MODELLED.  The HTTP handlers other than those of accounts and roles, and the web front end (internal/api,
  web) decode a request, call an operation above and encode its answer; main.go wires the services; storage.go is
  SQL and migrations, of which the tables the modelled services use are lists of rows.  The rest of internal runs
  commands (ip, tc, nft, wg, apt, chrony, tcpdump) or writes configuration files whose meaning lies in those
  programs, or reads counters for the pages: the manifest lists each with its reason.
\<close>

end
